(* ===== verification/Prelude.thy ===== *)
theory Prelude
  imports Main "HOL-Library.Word"
begin

text \<open>
  Shared vocabulary of the development: Python exceptions as values of one error type, the
  result monad that the operations of every component return, byte strings and the entropy
  source behind \<^verbatim>\<open>secrets.token_bytes\<close>, fixed-width little-endian words, and the generic
  lemmas on lists, options and 64-bit words that the component theories use.
\<close>

unbundle bit_operations_syntax

named_theorems res_simps \<open>unfolding rules of the result monad\<close>

named_theorems ring_simps \<open>pointwise arithmetic on flat ring arrays\<close>

section \<open>Exceptions and results\<close>

text \<open>
  One constructor per exception class that the modelled code raises; the argument is the
  message the source passes. \<^verbatim>\<open>SharedSessionError\<close> is a subclass of \<^verbatim>\<open>SharedMPCError\<close> in the source.
\<close>

datatype py_error =
    SharedMPCError string
  | SharedSessionError string
  | DpfReferenceError string
  | ScalarFssError string
  | ValueError string
  | TypeError string
  | RuntimeError string
  | CorrelationUnavailable string
  | AuthenticationError string
  | MPCShapeError string
  | CompactCodecError string
  | RendezvousError string
  | ProtocolError string
  | IntegrityError string
  | ProgrammingError string
  | OverflowError string
  | KeyError string
  | QuantizationError string
  | NativeKernelError string
  | TransformerEngineError string
  | TransformerClientError string
  | ModelError string
  | InflightCancelled string
  | InflightProducerFailed string
  | InventoryMismatch string
  | InventoryExhausted string
  | TimeoutError string
  | LibraryError string string

text \<open>\<open>LibraryError c m\<close> stands for an exception of class \<open>c\<close> that a library raises; \<open>exc_name\<close> is \<^verbatim>\<open>type(exc).__name__\<close>.\<close>

fun exc_name :: "py_error \<Rightarrow> string" where
  "exc_name (SharedMPCError _) = ''SharedMPCError''"
| "exc_name (SharedSessionError _) = ''SharedSessionError''"
| "exc_name (DpfReferenceError _) = ''DpfReferenceError''"
| "exc_name (ScalarFssError _) = ''ScalarFssError''"
| "exc_name (ValueError _) = ''ValueError''"
| "exc_name (TypeError _) = ''TypeError''"
| "exc_name (RuntimeError _) = ''RuntimeError''"
| "exc_name (CorrelationUnavailable _) = ''CorrelationUnavailable''"
| "exc_name (AuthenticationError _) = ''AuthenticationError''"
| "exc_name (MPCShapeError _) = ''MPCShapeError''"
| "exc_name (CompactCodecError _) = ''CompactCodecError''"
| "exc_name (RendezvousError _) = ''RendezvousError''"
| "exc_name (ProtocolError _) = ''ProtocolError''"
| "exc_name (IntegrityError _) = ''IntegrityError''"
| "exc_name (ProgrammingError _) = ''ProgrammingError''"
| "exc_name (OverflowError _) = ''OverflowError''"
| "exc_name (KeyError _) = ''KeyError''"
| "exc_name (QuantizationError _) = ''QuantizationError''"
| "exc_name (NativeKernelError _) = ''NativeKernelError''"
| "exc_name (TransformerEngineError _) = ''TransformerEngineError''"
| "exc_name (TransformerClientError _) = ''TransformerClientError''"
| "exc_name (ModelError _) = ''ModelError''"
| "exc_name (InflightCancelled _) = ''InflightCancelled''"
| "exc_name (InflightProducerFailed _) = ''InflightProducerFailed''"
| "exc_name (InventoryMismatch _) = ''InventoryMismatch''"
| "exc_name (InventoryExhausted _) = ''InventoryExhausted''"
| "exc_name (TimeoutError _) = ''TimeoutError''"
| "exc_name (LibraryError c _) = c"

type_synonym 'a res = "py_error + 'a"

definition bindE :: "'a res \<Rightarrow> ('a \<Rightarrow> 'b res) \<Rightarrow> 'b res" where
  "bindE m f = (case m of Inl e \<Rightarrow> Inl e | Inr x \<Rightarrow> f x)"

definition raise_if :: "bool \<Rightarrow> py_error \<Rightarrow> 'a res \<Rightarrow> 'a res" where
  "raise_if b e k = (if b then Inl e else k)"

text \<open>\<open>onS m s k\<close> continues a stateful operation in state \<open>s\<close> with the value of \<open>m\<close>, or raises in that state.\<close>

definition onS :: "'a res \<Rightarrow> 's \<Rightarrow> ('a \<Rightarrow> 's \<times> 'b res) \<Rightarrow> 's \<times> 'b res" where
  "onS m s k = (case m of Inl e \<Rightarrow> (s, Inl e) | Inr x \<Rightarrow> k x)"

definition raiseS :: "bool \<Rightarrow> py_error \<Rightarrow> 's \<Rightarrow> 's \<times> 'b res \<Rightarrow> 's \<times> 'b res" where
  "raiseS b e s k = (if b then (s, Inl e) else k)"

fun mapE :: "('a \<Rightarrow> 'b res) \<Rightarrow> 'a list \<Rightarrow> 'b list res" where
  "mapE f [] = Inr []"
| "mapE f (x # xs) = bindE (f x) (\<lambda>y. bindE (mapE f xs) (\<lambda>ys. Inr (y # ys)))"

lemma bindE_Inl [simp]: "bindE (Inl e) f = Inl e"
  by (simp add: bindE_def)

lemma bindE_Inr [simp]: "bindE (Inr x) f = f x"
  by (simp add: bindE_def)

lemma bindE_eq_Inr: "bindE m f = Inr y \<longleftrightarrow> (\<exists>x. m = Inr x \<and> f x = Inr y)"
  by (cases m) auto

lemma raise_if_eq_Inr: "raise_if b e k = Inr y \<longleftrightarrow> \<not> b \<and> k = Inr y"
  by (simp add: raise_if_def)

lemma raise_if_False [simp]: "raise_if False e k = k"
  by (simp add: raise_if_def)

lemma raise_if_True [simp]: "raise_if True e k = Inl e"
  by (simp add: raise_if_def)

lemma onS_Inl [simp]: "onS (Inl e) s k = (s, Inl e)"
  by (simp add: onS_def)

lemma onS_Inr [simp]: "onS (Inr x) s k = k x"
  by (simp add: onS_def)

lemma onS_eq_Inr: "onS m s k = (s', Inr y) \<longleftrightarrow> (\<exists>x. m = Inr x \<and> k x = (s', Inr y))"
  by (cases m) auto

lemma raiseS_False [simp]: "raiseS False e s k = k"
  by (simp add: raiseS_def)

lemma raiseS_True [simp]: "raiseS True e s k = (s, Inl e)"
  by (simp add: raiseS_def)

lemma raiseS_eq_Inr: "raiseS b e s k = (s', Inr y) \<longleftrightarrow> \<not> b \<and> k = (s', Inr y)"
  by (simp add: raiseS_def)

text \<open>\<open>bindS\<close> sequences two stateful operations: the second runs in the state the first leaves, unless that raised.\<close>

definition bindS :: "'s \<times> 'a res \<Rightarrow> ('s \<Rightarrow> 'a \<Rightarrow> 's \<times> 'b res) \<Rightarrow> 's \<times> 'b res" where
  "bindS m k = (case m of (s, Inl e) \<Rightarrow> (s, Inl e) | (s, Inr x) \<Rightarrow> k s x)"

lemma bindS_simps [simp]: "bindS (s, Inl e) k = (s, Inl e)" "bindS (s, Inr x) k = k s x"
  by (simp_all add: bindS_def)

lemma bindS_eq_Inr: "bindS m k = (s', Inr y) \<longleftrightarrow> (\<exists>s x. m = (s, Inr x) \<and> k s x = (s', Inr y))"
  by (cases m; cases "snd m") auto

declare bindS_eq_Inr [res_simps]

declare onS_eq_Inr [res_simps] raiseS_eq_Inr [res_simps]

lemmas res_inv = bindE_eq_Inr raise_if_eq_Inr

declare bindE_eq_Inr [res_simps] raise_if_eq_Inr [res_simps]

lemma mapE_all_Inr: "(\<And>x. x \<in> set xs \<Longrightarrow> f x = Inr (g x)) \<Longrightarrow> mapE f xs = Inr (map g xs)"
  by (induction xs) auto

lemma mapE_length: "mapE f xs = Inr ys \<Longrightarrow> length ys = length xs"
  by (induction xs arbitrary: ys) (auto simp: bindE_eq_Inr)

lemma mapE_nth: "mapE f xs = Inr ys \<Longrightarrow> i < length xs \<Longrightarrow> f (xs ! i) = Inr (ys ! i)"
proof (induction xs arbitrary: ys i)
  case (Cons x xs)
  then obtain y zs where "f x = Inr y" "mapE f xs = Inr zs" "ys = y # zs" by (auto simp: res_simps)
  with Cons.IH [of zs "i - 1"] Cons.prems(2) show ?case by (cases i) auto
qed simp

section \<open>Bytes, entropy and fixed-width words\<close>

type_synonym byte = "8 word"
type_synonym bytes = "8 word list"

text \<open>
  \<^verbatim>\<open>secrets.token_bytes(n)\<close> draws \<open>n\<close> bytes. An entropy source is an infinite byte tape;
  drawing returns the bytes and the rest of the tape. Theorems quantify over every tape.
\<close>

type_synonym entropy = "nat \<Rightarrow> byte"

definition token_bytes :: "nat \<Rightarrow> entropy \<Rightarrow> bytes \<times> entropy" where
  "token_bytes n e = (map e [0..<n], \<lambda>i. e (i + n))"

lemma length_token_bytes [simp]: "length (fst (token_bytes n e)) = n"
  by (simp add: token_bytes_def)

text \<open>Big-endian integers of a fixed number of bytes, as \<^verbatim>\<open>struct\<close> packs them with a network-order format.\<close>

primrec be_bytes :: "nat \<Rightarrow> nat \<Rightarrow> bytes" where
  "be_bytes 0 n = []"
| "be_bytes (Suc k) n = be_bytes k (n div 256) @ [of_nat (n mod 256)]"

definition be_nat :: "bytes \<Rightarrow> nat" where
  "be_nat bs = foldl (\<lambda>acc b. 256 * acc + unat b) 0 bs"

lemma length_be_bytes [simp]: "length (be_bytes k n) = k"
  by (induction k arbitrary: n) auto

lemma be_nat_snoc: "be_nat (bs @ [b]) = 256 * be_nat bs + unat b"
  by (simp add: be_nat_def)

lemma be_nat_bytes: "n < 256 ^ k \<Longrightarrow> be_nat (be_bytes k n) = n"
proof (induction k arbitrary: n)
  case (Suc k)
  then have "n div 256 < 256 ^ k" by (simp add: less_mult_imp_div_less mult.commute)
  with Suc.IH show ?case by (simp add: be_nat_snoc unat_of_nat)
qed (simp add: be_nat_def)

text \<open>Little-endian bytes of an unsigned 64-bit word, as \<^verbatim>\<open>ndarray.tobytes\<close> lays them out.\<close>

definition bytes_of_u64 :: "64 word \<Rightarrow> bytes" where
  "bytes_of_u64 w = map (\<lambda>i. ucast (drop_bit (8 * i) w)) [0..<8]"

definition u64_of_bytes :: "bytes \<Rightarrow> 64 word" where
  "u64_of_bytes bs = foldr (\<lambda>b acc. ucast b OR push_bit 8 acc) bs 0"

fun tobytes_u64 :: "64 word list \<Rightarrow> bytes" where
  "tobytes_u64 [] = []"
| "tobytes_u64 (w # ws) = bytes_of_u64 w @ tobytes_u64 ws"

fun frombuffer_u64 :: "bytes \<Rightarrow> 64 word list" where
  "frombuffer_u64 [] = []"
| "frombuffer_u64 (b # bs) = u64_of_bytes (take 8 (b # bs)) # frombuffer_u64 (drop 8 (b # bs))"

lemma upt_8: "[0..<8] = [0, 1, 2, 3, 4, 5, 6, 7::nat]"
  by (simp add: upt_rec)

lemma length_bytes_of_u64 [simp]: "length (bytes_of_u64 w) = 8"
  by (simp add: bytes_of_u64_def)

lemma bit_u64_of_bytes:
  "bit (u64_of_bytes bs) n \<longleftrightarrow> n < 64 \<and> n div 8 < length bs \<and> bit (bs ! (n div 8)) (n mod 8)"
proof (induction bs arbitrary: n)
  case Nil
  then show ?case by (simp add: u64_of_bytes_def)
next
  case (Cons b bs)
  have unfold: "u64_of_bytes (b # bs) = ucast b OR push_bit 8 (u64_of_bytes bs)"
    by (simp add: u64_of_bytes_def)
  show ?case
  proof (cases "n < 8")
    case True
    then show ?thesis
      by (auto simp: unfold bit_simps)
  next
    case False
    then obtain k where n: "n = k + 8" by (metis add.commute le_Suc_ex not_less)
    then have d: "(k + 8) div 8 = Suc (k div 8)" by simp
    show ?thesis
      unfolding n d by (auto simp: unfold bit_simps Cons.IH dest: bit_imp_le_length)
  qed
qed

lemma u64_of_bytes_of_u64 [simp]: "u64_of_bytes (bytes_of_u64 w) = w"
proof (rule bit_word_eqI)
  fix n assume n: "n < LENGTH(64)"
  then have "n div 8 < 8" by simp
  then have "bytes_of_u64 w ! (n div 8) = ucast (drop_bit (8 * (n div 8)) w)"
    by (simp add: bytes_of_u64_def)
  with n \<open>n div 8 < 8\<close> show "bit (u64_of_bytes (bytes_of_u64 w)) n = bit w n"
    by (simp add: bit_u64_of_bytes bit_simps)
qed

lemma length_tobytes_u64 [simp]: "length (tobytes_u64 ws) = 8 * length ws"
  by (induction ws) auto

lemma frombuffer_u64_append:
  "length bs = 8 \<Longrightarrow> frombuffer_u64 (bs @ rest) = u64_of_bytes bs # frombuffer_u64 rest"
  by (cases bs) auto

lemma frombuffer_tobytes_u64 [simp]: "frombuffer_u64 (tobytes_u64 ws) = ws"
  by (induction ws) (auto simp: frombuffer_u64_append)

lemma length_frombuffer_u64: "length bs = 8 * n \<Longrightarrow> length (frombuffer_u64 bs) = n"
proof (induction n arbitrary: bs)
  case 0
  then show ?case by simp
next
  case (Suc n)
  then obtain b bs' where bs: "bs = b # bs'" by (cases bs) auto
  from Suc.prems have "length (drop 8 bs) = 8 * n" by simp
  from Suc.IH [OF this] show ?case using bs by simp
qed

text \<open>
  A SHA-256 or HMAC-SHA-256 digest has 32 bytes; the hash itself is a parameter of the
  definitions that use it and returns a 256-bit word, whose bytes these are.
\<close>

type_synonym digest = "256 word"

definition digest_bytes :: "digest \<Rightarrow> bytes" where
  "digest_bytes d = map (\<lambda>i. ucast (drop_bit (8 * i) d)) [0..<32]"

lemma length_digest_bytes [simp]: "length (digest_bytes d) = 32"
  by (simp add: digest_bytes_def)

section \<open>Python integers and text\<close>

text \<open>\<^verbatim>\<open>int.bit_length\<close> of a non-negative integer and \<^verbatim>\<open>ceil(log2(n))\<close> of a positive one.\<close>

fun bit_length :: "nat \<Rightarrow> nat" where
  "bit_length n = (if n = 0 then 0 else Suc (bit_length (n div 2)))"

declare bit_length.simps [simp del]

definition ceil_log2 :: "nat \<Rightarrow> nat" where
  "ceil_log2 n = bit_length (n - 1)"

lemma bit_length_0 [simp]: "bit_length 0 = 0"
  by (simp add: bit_length.simps)

lemma bit_length_less: "n < 2 ^ bit_length n"
proof (induction n rule: bit_length.induct)
  case (1 n)
  show ?case
  proof (cases "n = 0")
    case True
    then show ?thesis by (subst bit_length.simps) simp
  next
    case False
    with "1" have "n div 2 < 2 ^ bit_length (n div 2)" by simp
    then have "n < 2 * 2 ^ bit_length (n div 2)" by linarith
    with False show ?thesis by (subst bit_length.simps) simp
  qed
qed

lemma bit_length_lower: "0 < n \<Longrightarrow> 2 ^ (bit_length n - 1) \<le> n"
proof (induction n rule: bit_length.induct)
  case (1 n)
  show ?case
  proof (cases "n = 1")
    case True
    then show ?thesis by (simp add: bit_length.simps)
  next
    case False
    with "1.prems" have p: "0 < n div 2" by simp
    with "1.IH" "1.prems" have ih: "2 ^ (bit_length (n div 2) - 1) \<le> n div 2" by simp
    have "0 < bit_length (n div 2)" using p by (subst bit_length.simps) simp
    then have "2 ^ bit_length (n div 2) = 2 * (2::nat) ^ (bit_length (n div 2) - 1)"
      by (metis Suc_diff_1 power_Suc)
    then show ?thesis using ih "1.prems" by (subst bit_length.simps) simp
  qed
qed

lemma ceil_log2_le: "0 < n \<Longrightarrow> n \<le> 2 ^ ceil_log2 n"
  using bit_length_less [of "n - 1"] by (simp add: ceil_log2_def)

text \<open>Decimal text of a natural number, as an f-string inserts it.\<close>

fun str_nat :: "nat \<Rightarrow> string" where
  "str_nat n = (if n < 10 then [char_of (48 + n)]
                else str_nat (n div 10) @ [char_of (48 + n mod 10)])"

declare str_nat.simps [simp del]

section \<open>Lists\<close>

lemma map2_nth: "i < length xs \<Longrightarrow> i < length ys \<Longrightarrow> map2 f xs ys ! i = f (xs ! i) (ys ! i)"
  by simp

lemma map2_cong_nth:
  assumes "length xs = n" "length ys = n" "length xs' = n" "length ys' = n"
    and "\<And>i. i < n \<Longrightarrow> f (xs ! i) (ys ! i) = g (xs' ! i) (ys' ! i)"
  shows "map2 f xs ys = map2 g xs' ys'"
  by (rule nth_equalityI) (use assms in auto)

lemma sum_list_map2_add:
  fixes xs ys :: "'a::comm_monoid_add list"
  shows "length xs = length ys \<Longrightarrow> sum_list (map2 (+) xs ys) = sum_list xs + sum_list ys"
  by (induction xs ys rule: list_induct2) (auto simp: ac_simps)

end
