(* ===== verification/Point_Fss.thy ===== *)
theory Point_Fss
  imports Prelude
begin

text \<open>
  Two-party point function sharing (\<^verbatim>\<open>src/python/pllm/runtime/shared_dpf.py\<close>): the seed tree that
  the trusted dealer issues, the one-use Boolean and additive key shares evaluated by the two
  parties, and the packed Boolean opening. Bits of the source (integers 0 and 1) are \<^typ>\<open>bool\<close>.
  HMAC-SHA-256 is a parameter \<open>hmac\<close> from a key and a message to a 256-bit digest.
\<close>

section \<open>Seed expansion\<close>

type_synonym hmac_fun = "bytes \<Rightarrow> bytes \<Rightarrow> digest"

definition dpf_domain :: bytes where
  "dpf_domain = map (\<lambda>c. of_nat (of_char c)) ''pllm.two_party_point_fss.v1''"

definition seed_bytes :: nat where
  "seed_bytes = 16"

definition max_bits :: nat where
  "max_bits = 10"

definition xor_bytes :: "bytes \<Rightarrow> bytes \<Rightarrow> bytes res" where
  "xor_bytes left right =
     raise_if (length left \<noteq> length right) (ValueError ''zip() arguments have different lengths'')
       (Inr (map2 (XOR) left right))"

definition stretch_child :: "hmac_fun \<Rightarrow> bytes \<Rightarrow> byte \<Rightarrow> bytes \<times> bool" where
  "stretch_child hmac seed direction =
     (let digest = digest_bytes (hmac seed (dpf_domain @ [direction]))
      in (take seed_bytes digest, bit (digest ! seed_bytes) 0))"

definition stretch :: "hmac_fun \<Rightarrow> bytes \<Rightarrow> (bytes \<times> bool) \<times> (bytes \<times> bool)" where
  "stretch hmac seed = (stretch_child hmac seed 0, stretch_child hmac seed 1)"

definition leaf_bit :: "hmac_fun \<Rightarrow> bytes \<Rightarrow> bool" where
  "leaf_bit hmac seed = bit (digest_bytes (hmac seed (dpf_domain @ [2])) ! 0) 0"

definition ring_leaf :: "hmac_fun \<Rightarrow> bytes \<Rightarrow> int \<Rightarrow> int \<times> int" where
  "ring_leaf hmac seed modulus =
     (let output = digest_bytes (hmac seed (dpf_domain @ [3]))
      in (uint (u64_of_bytes (take 8 output)) mod modulus,
          uint (u64_of_bytes (take 8 (drop 8 output))) mod modulus))"

record Correction =
  cw_seed :: bytes
  cw_left :: bool
  cw_right :: bool

text \<open>\<open>pick d (left, right)\<close> is the source's indexing \<^verbatim>\<open>children[direction]\<close>.\<close>

definition pick :: "bool \<Rightarrow> 'a \<times> 'a \<Rightarrow> 'a" where
  "pick direction p = (if direction then snd p else fst p)"

definition direction_at :: "nat \<Rightarrow> nat \<Rightarrow> nat \<Rightarrow> bool" where
  "direction_at bits index level = bit (drop_bit (bits - level - 1) index) 0"

definition apply_correction :: "bool \<Rightarrow> bool \<Rightarrow> Correction \<Rightarrow> bytes \<times> bool \<Rightarrow> (bytes \<times> bool) res" where
  "apply_correction control direction word child =
     (if control then
        bindE (xor_bytes (fst child) (cw_seed word)) (\<lambda>s.
          Inr (s, snd child \<noteq> (if direction then cw_right word else cw_left word)))
      else Inr child)"

text \<open>The descent of \<^verbatim>\<open>_eval_leaf\<close> and \<^verbatim>\<open>eval_all_once\<close> through the enumerated correction words.\<close>

fun walk :: "hmac_fun \<Rightarrow> nat \<Rightarrow> nat \<Rightarrow> (nat \<times> Correction) list \<Rightarrow> bytes \<Rightarrow> bool \<Rightarrow> (bytes \<times> bool) res" where
  "walk hmac bits index [] seed control = Inr (seed, control)"
| "walk hmac bits index ((level, word) # rest) seed control =
     (let direction = direction_at bits index level
      in bindE (apply_correction control direction word (pick direction (stretch hmac seed)))
           (\<lambda>(s, c). walk hmac bits index rest s c))"

section \<open>Boolean point keys\<close>

record PointKeyShare =
  pk_session_id :: string
  pk_gate_id :: string
  pk_party :: nat
  pk_bits :: nat
  pk_seed :: bytes
  pk_corrections :: "Correction list"
  pk_final :: bool
  pk_used :: bool
  pk_prefix :: "bytes option"

definition PointKeyShare_init ::
  "string \<Rightarrow> string \<Rightarrow> nat \<Rightarrow> nat \<Rightarrow> bytes \<Rightarrow> Correction list \<Rightarrow> bool \<Rightarrow> PointKeyShare res" where
  "PointKeyShare_init session_id gate_id party bits seed corrections final =
     raise_if (session_id = [] \<or> gate_id = [] \<or> party \<notin> {0, 1} \<or> \<not> (1 \<le> bits \<and> bits \<le> max_bits))
       (DpfReferenceError ''point-key identity or bounded domain is invalid'')
    (raise_if (length seed \<noteq> seed_bytes \<or> length corrections \<noteq> bits)
       (DpfReferenceError ''point-key structure is invalid'')
    (raise_if (list_ex (\<lambda>w. length (cw_seed w) \<noteq> seed_bytes) corrections)
       (DpfReferenceError ''point-key correction word is invalid'')
    (Inr \<lparr>pk_session_id = session_id, pk_gate_id = gate_id, pk_party = party, pk_bits = bits,
          pk_seed = seed, pk_corrections = corrections, pk_final = final,
          pk_used = False, pk_prefix = None\<rparr>)))"

definition key_bytes :: "PointKeyShare \<Rightarrow> nat" where
  "key_bytes k = seed_bytes + pk_bits k * (seed_bytes + 1) + 1"

definition PointKeyShare_cancel :: "PointKeyShare \<Rightarrow> PointKeyShare" where
  "PointKeyShare_cancel k = k\<lparr>pk_used := True, pk_prefix := None\<rparr>"

definition expanded_bytes :: "PointKeyShare \<Rightarrow> nat" where
  "expanded_bytes k = (case pk_prefix k of Some p \<Rightarrow> length p | None \<Rightarrow> 0)"

definition eval_leaf :: "hmac_fun \<Rightarrow> PointKeyShare \<Rightarrow> nat \<Rightarrow> bool res" where
  "eval_leaf hmac k index =
     bindE (walk hmac (pk_bits k) index (enumerate 0 (pk_corrections k)) (pk_seed k) (pk_party k \<noteq> 0))
       (\<lambda>(seed, control). Inr (leaf_bit hmac seed \<noteq> (control \<and> pk_final k)))"

definition set_bit_byte :: "bytes \<Rightarrow> nat \<Rightarrow> bool \<Rightarrow> bytes" where
  "set_bit_byte bs index b =
     bs[index div 8 := (bs ! (index div 8)) OR push_bit (index mod 8) (of_bool b)]"

fun prepare_loop :: "hmac_fun \<Rightarrow> PointKeyShare \<Rightarrow> nat list \<Rightarrow> bool \<Rightarrow> bytes \<Rightarrow> bytes res" where
  "prepare_loop hmac k [] running prefix = Inr prefix"
| "prepare_loop hmac k (index # rest) running prefix =
     bindE (eval_leaf hmac k index) (\<lambda>v.
       prepare_loop hmac k rest (running \<noteq> v) (set_bit_byte prefix index (running \<noteq> v)))"

definition PointKeyShare_prepare :: "hmac_fun \<Rightarrow> PointKeyShare \<Rightarrow> PointKeyShare res" where
  "PointKeyShare_prepare hmac k =
     raise_if (pk_used k \<or> pk_prefix k \<noteq> None)
       (DpfReferenceError ''point-key share was already prepared or consumed'')
       (let size = 2 ^ pk_bits k
        in bindE (prepare_loop hmac k (rev [0..<size]) False (replicate ((size + 7) div 8) 0))
             (\<lambda>prefix. Inr (k\<lparr>pk_prefix := Some prefix\<rparr>)))"

fun xor_leaves :: "hmac_fun \<Rightarrow> PointKeyShare \<Rightarrow> nat list \<Rightarrow> bool \<Rightarrow> bool res" where
  "xor_leaves hmac k [] output = Inr output"
| "xor_leaves hmac k (index # rest) output =
     bindE (eval_leaf hmac k index) (\<lambda>v. xor_leaves hmac k rest (output \<noteq> v))"

definition less_than_share :: "hmac_fun \<Rightarrow> PointKeyShare \<Rightarrow> int \<Rightarrow> PointKeyShare \<times> bool res" where
  "less_than_share hmac k public_value =
     (if pk_used k then (k, Inl (DpfReferenceError ''point-key share was already consumed''))
      else let k = k\<lparr>pk_used := True\<rparr>
      in if \<not> (0 \<le> public_value \<and> public_value < 2 ^ pk_bits k)
         then (k\<lparr>pk_prefix := None\<rparr>,
               Inl (DpfReferenceError ''public comparison input is out of range''))
         else case pk_prefix k of
           Some prefix \<Rightarrow>
             (let index = nat public_value + 1
              in (k\<lparr>pk_prefix := None\<rparr>,
                  Inr (if index < 2 ^ pk_bits k
                       then bit (prefix ! (index div 8)) (index mod 8) else False)))
         | None \<Rightarrow> (k, xor_leaves hmac k [nat public_value + 1..<2 ^ pk_bits k] False))"

section \<open>Additive point keys\<close>

record RingPointKeyShare =
  rk_session_id :: string
  rk_gate_id :: string
  rk_party :: nat
  rk_bits :: nat
  rk_ring_bits :: nat
  rk_seed :: bytes
  rk_corrections :: "Correction list"
  rk_final :: "int \<times> int"
  rk_used :: bool

definition RingPointKeyShare_init ::
  "string \<Rightarrow> string \<Rightarrow> nat \<Rightarrow> nat \<Rightarrow> nat \<Rightarrow> bytes \<Rightarrow> Correction list \<Rightarrow> int \<times> int
    \<Rightarrow> RingPointKeyShare res" where
  "RingPointKeyShare_init session_id gate_id party bits ring_bits seed corrections final =
     raise_if (session_id = [] \<or> gate_id = [] \<or> party \<notin> {0, 1}
         \<or> \<not> (1 \<le> bits \<and> bits \<le> max_bits)
         \<or> ring_bits \<notin> {8, 16, 32, 64}
         \<or> length seed \<noteq> seed_bytes \<or> length corrections \<noteq> bits
         \<or> \<not> (0 \<le> fst final \<and> fst final < 2 ^ ring_bits)
         \<or> \<not> (0 \<le> snd final \<and> snd final < 2 ^ ring_bits)
         \<or> list_ex (\<lambda>w. length (cw_seed w) \<noteq> seed_bytes) corrections)
       (DpfReferenceError ''additive point-key structure is invalid'')
     (Inr \<lparr>rk_session_id = session_id, rk_gate_id = gate_id, rk_party = party, rk_bits = bits,
           rk_ring_bits = ring_bits, rk_seed = seed, rk_corrections = corrections,
           rk_final = final, rk_used = False\<rparr>)"

definition ring_key_bytes :: "RingPointKeyShare \<Rightarrow> nat" where
  "ring_key_bytes k = seed_bytes + rk_bits k * (seed_bytes + 1) + 2 * (rk_ring_bits k div 8)"

definition RingPointKeyShare_cancel :: "RingPointKeyShare \<Rightarrow> RingPointKeyShare" where
  "RingPointKeyShare_cancel k = k\<lparr>rk_used := True\<rparr>"

definition eval_ring :: "hmac_fun \<Rightarrow> RingPointKeyShare \<Rightarrow> nat \<Rightarrow> (int \<times> int) res" where
  "eval_ring hmac k index =
     bindE (walk hmac (rk_bits k) index (enumerate 0 (rk_corrections k)) (rk_seed k) (rk_party k \<noteq> 0))
       (\<lambda>(seed, control).
          let modulus = 2 ^ rk_ring_bits k;
              base = ring_leaf hmac seed modulus;
              sign = (if rk_party k = 0 then 1 else - 1)
          in Inr ((sign * (fst base + of_bool control * fst (rk_final k))) mod modulus,
                  (sign * (snd base + of_bool control * snd (rk_final k))) mod modulus))"

definition eval_all_once ::
  "hmac_fun \<Rightarrow> RingPointKeyShare \<Rightarrow> int \<Rightarrow> RingPointKeyShare \<times> (int \<times> int) list res" where
  "eval_all_once hmac k count =
     (if rk_used k then (k, Inl (DpfReferenceError ''additive point-key was already consumed''))
      else let k = k\<lparr>rk_used := True\<rparr>
      in (k, raise_if (\<not> (0 < count \<and> count \<le> 2 ^ rk_bits k))
               (DpfReferenceError ''additive point-key domain prefix is invalid'')
               (mapE (eval_ring hmac k) [0..<nat count])))"

section \<open>Packed Boolean openings\<close>

fun pack_bits_from :: "nat \<Rightarrow> bool list \<Rightarrow> bytes \<Rightarrow> bytes" where
  "pack_bits_from index [] packed = packed"
| "pack_bits_from index (b # bs) packed =
     pack_bits_from (Suc index) bs (set_bit_byte packed index b)"

definition pack_bit_shares :: "bool list \<Rightarrow> bytes res" where
  "pack_bit_shares bits =
     raise_if (bits = []) (DpfReferenceError ''Boolean opening shares must be nonempty bits'')
       (Inr (pack_bits_from 0 bits (replicate ((length bits + 7) div 8) 0)))"

definition unpack_bit_shares :: "bytes \<Rightarrow> int \<Rightarrow> bool list res" where
  "unpack_bit_shares payload count =
     raise_if (count \<le> 0 \<or> int (length payload) \<noteq> (count + 7) div 8
         \<or> drop_bit (nat ((count - 1) mod 8) + 1) (last payload) \<noteq> 0)
       (DpfReferenceError ''Boolean opening has invalid length or padding'')
       (Inr (map (\<lambda>index. bit (payload ! (index div 8)) (index mod 8)) [0..<nat count]))"

section \<open>Issuance\<close>

record PointKeyDealer =
  dl_session_id :: string
  dl_issued :: "string set"

definition PointKeyDealer_init :: "string \<Rightarrow> PointKeyDealer res" where
  "PointKeyDealer_init session_id =
     raise_if (session_id = []) (DpfReferenceError ''point-key session is missing'')
       (Inr \<lparr>dl_session_id = session_id, dl_issued = {}\<rparr>)"

text \<open>One level of the tree for both parties: the correction word and the corrected children.\<close>

definition issue_level ::
  "hmac_fun \<Rightarrow> bool \<Rightarrow> (bytes \<times> bool) \<times> (bytes \<times> bool)
    \<Rightarrow> (Correction \<times> (bytes \<times> bool) \<times> (bytes \<times> bool)) res" where
  "issue_level hmac direction st =
     (let children0 = stretch hmac (fst (fst st));
          children1 = stretch hmac (fst (snd st))
      in bindE (xor_bytes (fst (pick (\<not> direction) children0)) (fst (pick (\<not> direction) children1)))
           (\<lambda>s.
             let word = \<lparr>cw_seed = s,
                   cw_left = ((snd (fst children0) \<noteq> snd (fst children1)) \<noteq> (\<not> direction)),
                   cw_right = ((snd (snd children0) \<noteq> snd (snd children1)) \<noteq> direction)\<rparr>
             in bindE (apply_correction (snd (fst st)) direction word (pick direction children0)) (\<lambda>st0.
                bindE (apply_correction (snd (snd st)) direction word (pick direction children1)) (\<lambda>st1.
                  Inr (word, st0, st1)))))"

fun issue_levels ::
  "hmac_fun \<Rightarrow> nat \<Rightarrow> nat \<Rightarrow> nat list \<Rightarrow> (bytes \<times> bool) \<times> (bytes \<times> bool)
    \<Rightarrow> (Correction list \<times> (bytes \<times> bool) \<times> (bytes \<times> bool)) res" where
  "issue_levels hmac bits point [] st = Inr ([], st)"
| "issue_levels hmac bits point (level # rest) st =
     bindE (issue_level hmac (direction_at bits point level) st) (\<lambda>(word, st').
       bindE (issue_levels hmac bits point rest st') (\<lambda>(words, st'').
         Inr (word # words, st'')))"

text \<open>
  \<^verbatim>\<open>_issue_tree\<close>: the gate identity is reserved before any entropy is drawn. The result holds the
  root seeds, the final seeds and controls of both parties and the correction words.
\<close>

definition issue_tree ::
  "hmac_fun \<Rightarrow> PointKeyDealer \<Rightarrow> entropy \<Rightarrow> string \<Rightarrow> int \<Rightarrow> nat \<Rightarrow> nat
    \<Rightarrow> (PointKeyDealer \<times> entropy)
        \<times> ((bytes \<times> bytes) \<times> (bytes \<times> bool) \<times> (bytes \<times> bool) \<times> Correction list) res" where
  "issue_tree hmac d e gate_id point bits maximum_bits =
     (if gate_id = [] \<or> gate_id \<in> dl_issued d
      then ((d, e), Inl (DpfReferenceError ''point-key gate was already issued''))
      else if \<not> (1 \<le> maximum_bits \<and> maximum_bits \<le> 18) \<or> \<not> (1 \<le> bits \<and> bits \<le> maximum_bits)
      then ((d, e), Inl (DpfReferenceError ''point-key domain exceeds reference limit''))
      else if \<not> (0 \<le> point \<and> point < 2 ^ bits)
      then ((d, e), Inl (DpfReferenceError ''point-key point is out of range''))
      else
        (let d' = d\<lparr>dl_issued := insert gate_id (dl_issued d)\<rparr>;
             (root0, e1) = token_bytes seed_bytes e;
             (root1, e2) = token_bytes seed_bytes e1
         in ((d', e2),
             bindE (issue_levels hmac bits (nat point) [0..<bits] ((root0, False), (root1, True)))
               (\<lambda>(words, st0, st1). Inr ((root0, root1), st0, st1, words)))))"

definition issue ::
  "hmac_fun \<Rightarrow> PointKeyDealer \<Rightarrow> entropy \<Rightarrow> string \<Rightarrow> int \<Rightarrow> nat
    \<Rightarrow> (PointKeyDealer \<times> entropy) \<times> (PointKeyShare \<times> PointKeyShare) res" where
  "issue hmac d e gate_id point bits =
     (let (s, r) = issue_tree hmac d e gate_id point bits max_bits
      in (s, bindE r (\<lambda>(roots, st0, st1, words).
           let final = ((leaf_bit hmac (fst st0) \<noteq> leaf_bit hmac (fst st1)) \<noteq> True)
           in bindE (PointKeyShare_init (dl_session_id d) gate_id 0 bits (fst roots) words final) (\<lambda>k0.
              bindE (PointKeyShare_init (dl_session_id d) gate_id 1 bits (snd roots) words final) (\<lambda>k1.
                Inr (k0, k1))))))"

definition ring_final :: "int \<Rightarrow> int \<Rightarrow> int \<times> int \<Rightarrow> int \<times> int \<Rightarrow> int \<times> int \<Rightarrow> int \<times> int" where
  "ring_final sign modulus payload value0 value1 =
     ((sign * (fst payload - fst value0 + fst value1)) mod modulus,
      (sign * (snd payload - snd value0 + snd value1)) mod modulus)"

definition issue_ring ::
  "hmac_fun \<Rightarrow> PointKeyDealer \<Rightarrow> entropy \<Rightarrow> string \<Rightarrow> int \<Rightarrow> int \<times> int \<Rightarrow> nat \<Rightarrow> nat
    \<Rightarrow> (PointKeyDealer \<times> entropy) \<times> (RingPointKeyShare \<times> RingPointKeyShare) res" where
  "issue_ring hmac d e gate_id point payload bits ring_bits =
     (if ring_bits \<notin> {8, 16, 32, 64}
         \<or> \<not> (0 \<le> fst payload \<and> fst payload < 2 ^ ring_bits)
         \<or> \<not> (0 \<le> snd payload \<and> snd payload < 2 ^ ring_bits)
      then ((d, e), Inl (DpfReferenceError ''additive point payload is outside ring''))
      else
        (let (s, r) = issue_tree hmac d e gate_id point bits max_bits
         in (s, bindE r (\<lambda>(roots, st0, st1, words).
              raise_if (snd st0 = snd st1)
                (DpfReferenceError ''point-key control correction lost its active path'')
              (let modulus = 2 ^ ring_bits;
                   value0 = ring_leaf hmac (fst st0) modulus;
                   value1 = ring_leaf hmac (fst st1) modulus;
                   sign = (if snd st0 then 1 else - 1);
                   final = ring_final sign modulus payload value0 value1
               in bindE (RingPointKeyShare_init (dl_session_id d) gate_id 0 bits ring_bits
                           (fst roots) words final) (\<lambda>k0.
                  bindE (RingPointKeyShare_init (dl_session_id d) gate_id 1 bits ring_bits
                           (snd roots) words final) (\<lambda>k1.
                    Inr (k0, k1))))))))"


section \<open>One level of the tree\<close>

lemma map2_xor_cancel: "length a = length b \<Longrightarrow> map2 (XOR) a (map2 (XOR) a b) = (b :: bytes)"
  by (induction a b rule: list_induct2) (auto simp: xor.assoc [symmetric])

lemma map2_xor_commute: "map2 (XOR) a b = map2 (XOR) b (a :: bytes)"
  by (rule nth_equalityI) (auto simp: ac_simps)

lemma map2_xor_cancel_right: "length a = length b \<Longrightarrow> map2 (XOR) b (map2 (XOR) a b) = (a :: bytes)"
  by (subst map2_xor_commute [of a]) (simp add: map2_xor_cancel)

lemma length_stretch_seed [simp]:
  "length (fst (pick d (stretch hmac s))) = seed_bytes"
  by (simp add: stretch_def stretch_child_def pick_def seed_bytes_def Let_def)

lemma apply_correction_ok:
  assumes "length (fst child) = seed_bytes" and "length (cw_seed w) = seed_bytes"
  shows "\<exists>s c. apply_correction control d w child = Inr (s, c) \<and> length s = seed_bytes"
  using assms by (cases child) (auto simp: apply_correction_def xor_bytes_def)

lemma walk_ok:
  assumes "length s = seed_bytes" and "\<forall>(l, w) \<in> set ws. length (cw_seed w) = seed_bytes"
  shows "\<exists>s' c'. walk hmac bits index ws s c = Inr (s', c') \<and> length s' = seed_bytes"
  using assms
proof (induction ws arbitrary: s c)
  case Nil
  then show ?case by simp
next
  case (Cons lw ws)
  obtain l w where lw: "lw = (l, w)" by (cases lw)
  define d where "d = direction_at bits index l"
  have "\<exists>s1 c1. apply_correction c d w (pick d (stretch hmac s)) = Inr (s1, c1) \<and> length s1 = seed_bytes"
    using Cons.prems lw by (intro apply_correction_ok) auto
  then obtain s1 c1 where st: "apply_correction c d w (pick d (stretch hmac s)) = Inr (s1, c1)"
    and len: "length s1 = seed_bytes" by blast
  from Cons.IH [OF len, of c1] Cons.prems st show ?case
    by (simp add: lw d_def Let_def)
qed

text \<open>The step of the issuer and the step of the evaluator at one level.\<close>

lemma issue_level_ok:
  "\<exists>w s0' c0' s1' c1'. issue_level hmac d ((s0, c0), (s1, c1)) = Inr (w, (s0', c0'), (s1', c1'))
     \<and> length (cw_seed w) = seed_bytes \<and> length s0' = seed_bytes \<and> length s1' = seed_bytes
     \<and> apply_correction c0 d w (pick d (stretch hmac s0)) = Inr (s0', c0')
     \<and> apply_correction c1 d w (pick d (stretch hmac s1)) = Inr (s1', c1')"
  using length_stretch_seed [of d hmac s0] length_stretch_seed [of d hmac s1]
  by (cases "pick d (stretch hmac s0)"; cases "pick d (stretch hmac s1)")
    (auto simp: issue_level_def Let_def xor_bytes_def apply_correction_def)

lemma issue_level_on_path:
  assumes "issue_level hmac d ((s0, c0), (s1, c1)) = Inr (w, (s0', c0'), (s1', c1'))" and "c0 \<noteq> c1"
  shows "c0' \<noteq> c1'"
  using assms
  by (auto simp: issue_level_def Let_def xor_bytes_def apply_correction_def pick_def res_simps
      split: if_splits)

lemma issue_level_off_path:
  assumes "issue_level hmac d ((s0, c0), (s1, c1)) = Inr (w, st0, st1)" and "c0 \<noteq> c1"
  shows "apply_correction c0 (\<not> d) w (pick (\<not> d) (stretch hmac s0))
       = apply_correction c1 (\<not> d) w (pick (\<not> d) (stretch hmac s1))"
proof -
  have len: "length (fst (pick (\<not> d) (stretch hmac s0))) = length (fst (pick (\<not> d) (stretch hmac s1)))"
    by simp
  show ?thesis
    using assms len map2_xor_cancel [OF len] map2_xor_cancel_right [OF len]
    by (cases c0; cases d)
      (auto simp: issue_level_def Let_def xor_bytes_def apply_correction_def res_simps pick_def
        prod_eq_iff)
qed


text \<open>
  The invariant of the tree: along the hidden path the two walks end in the states the issuer
  computed, with different controls; a walk that leaves the path ends in equal states.
\<close>

definition path_agrees :: "nat \<Rightarrow> nat \<Rightarrow> nat \<Rightarrow> nat list \<Rightarrow> bool" where
  "path_agrees bits a b levels = list_all (\<lambda>l. direction_at bits a l = direction_at bits b l) levels"

lemma issue_levels_ok:
  assumes "length s0 = seed_bytes" and "length s1 = seed_bytes" and "c0 \<noteq> c1"
  shows "\<exists>ws t0 d0 t1 d1. issue_levels hmac bits point [n..<n + m] ((s0, c0), (s1, c1))
           = Inr (ws, (t0, d0), (t1, d1))
     \<and> length ws = m \<and> (\<forall>w \<in> set ws. length (cw_seed w) = seed_bytes) \<and> d0 \<noteq> d1
     \<and> (\<forall>index. if path_agrees bits index point [n..<n + m]
          then walk hmac bits index (enumerate n ws) s0 c0 = Inr (t0, d0)
             \<and> walk hmac bits index (enumerate n ws) s1 c1 = Inr (t1, d1)
          else walk hmac bits index (enumerate n ws) s0 c0 = walk hmac bits index (enumerate n ws) s1 c1)"
  using assms
proof (induction m arbitrary: n s0 c0 s1 c1)
  case 0
  then show ?case by (simp add: path_agrees_def)
next
  case (Suc m)
  define d where "d = direction_at bits point n"
  obtain w s0' c0' s1' c1' where lvl: "issue_level hmac d ((s0, c0), (s1, c1)) = Inr (w, (s0', c0'), (s1', c1'))"
    and wlen: "length (cw_seed w) = seed_bytes" and l0: "length s0' = seed_bytes" and l1: "length s1' = seed_bytes"
    and a0: "apply_correction c0 d w (pick d (stretch hmac s0)) = Inr (s0', c0')"
    and a1: "apply_correction c1 d w (pick d (stretch hmac s1)) = Inr (s1', c1')"
    using issue_level_ok by blast
  have cc: "c0' \<noteq> c1'" using lvl Suc.prems(3) by (rule issue_level_on_path)
  from Suc.IH [OF l0 l1 cc, of "Suc n"] obtain ws t0 d0 t1 d1 where
    rest: "issue_levels hmac bits point [Suc n..<Suc n + m] ((s0', c0'), (s1', c1')) = Inr (ws, (t0, d0), (t1, d1))"
    and wsl: "length ws = m" "\<forall>w \<in> set ws. length (cw_seed w) = seed_bytes" "d0 \<noteq> d1"
    and path: "\<And>index. if path_agrees bits index point [Suc n..<Suc n + m]
          then walk hmac bits index (enumerate (Suc n) ws) s0' c0' = Inr (t0, d0)
             \<and> walk hmac bits index (enumerate (Suc n) ws) s1' c1' = Inr (t1, d1)
          else walk hmac bits index (enumerate (Suc n) ws) s0' c0' = walk hmac bits index (enumerate (Suc n) ws) s1' c1'"
    by blast
  have upt: "[n..<n + Suc m] = n # [Suc n..<Suc n + m]" by (simp add: upt_rec)
  have iss: "issue_levels hmac bits point [n..<n + Suc m] ((s0, c0), (s1, c1)) = Inr (w # ws, (t0, d0), (t1, d1))"
    unfolding upt using lvl rest by (simp add: d_def del: upt_Suc)
  have off: "apply_correction c0 (\<not> d) w (pick (\<not> d) (stretch hmac s0))
       = apply_correction c1 (\<not> d) w (pick (\<not> d) (stretch hmac s1))"
    using lvl Suc.prems(3) by (rule issue_level_off_path)
  have walks: "if path_agrees bits index point [n..<n + Suc m]
      then walk hmac bits index (enumerate n (w # ws)) s0 c0 = Inr (t0, d0)
         \<and> walk hmac bits index (enumerate n (w # ws)) s1 c1 = Inr (t1, d1)
      else walk hmac bits index (enumerate n (w # ws)) s0 c0 = walk hmac bits index (enumerate n (w # ws)) s1 c1"
    for index
  proof (cases "direction_at bits index n = d")
    case True
    then show ?thesis
      using path [of index] a0 a1 unfolding upt by (simp add: path_agrees_def d_def)
  next
    case False
    then have nd: "direction_at bits index n = (\<not> d)" by auto
    show ?thesis
      unfolding upt using off by (simp add: path_agrees_def nd d_def [symmetric])
  qed
  have len: "length (w # ws) = Suc m" and all: "\<forall>w \<in> set (w # ws). length (cw_seed w) = seed_bytes"
    using wsl wlen by simp_all
  show ?case
    using iss len all wsl(3) walks by blast
qed

lemma directions_determine:
  assumes "a < 2 ^ bits" and "b < 2 ^ bits"
  shows "path_agrees bits a b [0..<bits] \<longleftrightarrow> a = b"
proof
  assume *: "path_agrees bits a b [0..<bits]"
  have "take_bit bits a = take_bit bits b"
  proof (rule bit_eqI)
    fix n
    show "bit (take_bit bits a) n = bit (take_bit bits b) n"
    proof (cases "n < bits")
      case True
      then have "bits - n - 1 \<in> set [0..<bits]" by simp
      with * have "direction_at bits a (bits - n - 1) = direction_at bits b (bits - n - 1)"
        by (simp add: path_agrees_def list_all_iff)
      with True show ?thesis
        by (simp add: direction_at_def bit_take_bit_iff bit_drop_bit_eq del: bit_0 bit_0_eq)
    qed (simp add: bit_take_bit_iff)
  qed
  then show "a = b" using assms by (simp add: take_bit_nat_eq_self)
qed (simp add: path_agrees_def list_all_iff)


section \<open>Byte-packed bits\<close>

definition get_bit_byte :: "bytes \<Rightarrow> nat \<Rightarrow> bool" where
  "get_bit_byte bs i = bit (bs ! (i div 8)) (i mod 8)"

lemma length_set_bit_byte [simp]: "length (set_bit_byte bs i b) = length bs"
  by (simp add: set_bit_byte_def)

lemma get_set_bit_byte:
  assumes "i div 8 < length bs"
  shows "get_bit_byte (set_bit_byte bs i b) j = (get_bit_byte bs j \<or> (j = i \<and> b))"
proof -
  have eq: "j = i \<longleftrightarrow> j div 8 = i div 8 \<and> j mod 8 = i mod 8"
    by (metis div_mult_mod_eq)
  have "bit (push_bit (i mod 8) (of_bool b) :: 8 word) (j mod 8) \<longleftrightarrow> j mod 8 = i mod 8 \<and> b"
    by (cases b) (auto simp: bit_simps)
  with assms show ?thesis
    by (cases "j div 8 = i div 8") (auto simp: get_bit_byte_def set_bit_byte_def bit_or_iff eq)
qed

lemma get_bit_byte_replicate [simp]: "j div 8 < n \<Longrightarrow> \<not> get_bit_byte (replicate n 0) j"
  by (simp add: get_bit_byte_def)

lemma div8_less_ceil: "j < n \<Longrightarrow> j div 8 < (n + 7) div 8" for j n :: nat
  by (simp add: less_eq_div_iff_mult_less_eq Suc_le_eq div_less_iff_less_mult) 

lemma pack_bits_from_get:
  assumes "(index + length bs + 7) div 8 \<le> length packed"
  shows "length (pack_bits_from index bs packed) = length packed
    \<and> (\<forall>j. get_bit_byte (pack_bits_from index bs packed) j
         = (get_bit_byte packed j \<or> (index \<le> j \<and> j < index + length bs \<and> bs ! (j - index))))"
  using assms
proof (induction bs arbitrary: index packed)
  case Nil
  then show ?case by auto
next
  case (Cons b bs)
  have "index div 8 < length packed"
    using Cons.prems div8_less_ceil [of index "index + length (b # bs)"] by simp
  note get = get_set_bit_byte [OF this]
  have "(Suc index + length bs + 7) div 8 \<le> length (set_bit_byte packed index b)"
    using Cons.prems by simp
  note IH = Cons.IH [OF this]
  show ?case
  proof (intro conjI allI)
    fix j
    show "get_bit_byte (pack_bits_from index (b # bs) packed) j
        = (get_bit_byte packed j \<or> (index \<le> j \<and> j < index + length (b # bs) \<and> (b # bs) ! (j - index)))"
    proof (cases "j = index")
      case True
      with IH show ?thesis by (simp add: get)
    next
      case False
      have step: "get_bit_byte (pack_bits_from index (b # bs) packed) j
          = (get_bit_byte packed j \<or> (Suc index \<le> j \<and> j < Suc index + length bs \<and> bs ! (j - Suc index)))"
        using IH False by (simp add: get)
      show ?thesis
      proof (cases "index < j")
        case True
        then have "j - index = Suc (j - Suc index)" by simp
        with True show ?thesis unfolding step by simp
      next
        case ge: False
        with False show ?thesis unfolding step by simp
      qed
    qed
  qed (use IH in simp)
qed


section \<open>Evaluation of well-formed keys\<close>

definition point_key_wf :: "PointKeyShare \<Rightarrow> bool" where
  "point_key_wf k \<longleftrightarrow> length (pk_seed k) = seed_bytes \<and> length (pk_corrections k) = pk_bits k
     \<and> list_all (\<lambda>w. length (cw_seed w) = seed_bytes) (pk_corrections k)"

lemma set_enumerate_words:
  "list_all (\<lambda>w. length (cw_seed w) = n) ws \<Longrightarrow> \<forall>(l, w) \<in> set (enumerate m ws). length (cw_seed w) = n"
  by (auto simp: list_all_iff in_set_enumerate_eq)

lemma eval_leaf_ok: "point_key_wf k \<Longrightarrow> \<exists>b. eval_leaf hmac k i = Inr b"
proof -
  assume "point_key_wf k"
  then have "\<exists>s c. walk hmac (pk_bits k) i (enumerate 0 (pk_corrections k)) (pk_seed k) (pk_party k \<noteq> 0)
      = Inr (s, c) \<and> length s = seed_bytes"
    by (intro walk_ok set_enumerate_words) (auto simp: point_key_wf_def)
  then show ?thesis by (auto simp: eval_leaf_def)
qed

definition leaf_value :: "hmac_fun \<Rightarrow> PointKeyShare \<Rightarrow> nat \<Rightarrow> bool" where
  "leaf_value hmac k i = (eval_leaf hmac k i = Inr True)"

lemma eval_leaf_value: "point_key_wf k \<Longrightarrow> eval_leaf hmac k i = Inr (leaf_value hmac k i)"
  using eval_leaf_ok [of k hmac i] by (auto simp: leaf_value_def)

definition suffix_xor :: "hmac_fun \<Rightarrow> PointKeyShare \<Rightarrow> nat \<Rightarrow> bool" where
  "suffix_xor hmac k j = foldr (\<lambda>i acc. leaf_value hmac k i \<noteq> acc) [j..<2 ^ pk_bits k] False"

lemma suffix_xor_rec:
  "j < 2 ^ pk_bits k \<Longrightarrow> suffix_xor hmac k j = (leaf_value hmac k j \<noteq> suffix_xor hmac k (Suc j))"
  by (simp add: suffix_xor_def upt_conv_Cons)

lemma suffix_xor_end [simp]: "2 ^ pk_bits k \<le> j \<Longrightarrow> suffix_xor hmac k j = False"
  by (simp add: suffix_xor_def)

lemma xor_leaves_foldr:
  "point_key_wf k \<Longrightarrow> xor_leaves hmac k is out
     = Inr (out \<noteq> foldr (\<lambda>i acc. leaf_value hmac k i \<noteq> acc) is False)"
  by (induction "is" arbitrary: out) (auto simp: eval_leaf_value)

lemma prepare_loop_prefix:
  assumes wf: "point_key_wf k" and m: "m \<le> 2 ^ pk_bits k"
    and len: "length prefix = (2 ^ pk_bits k + 7) div 8"
    and pre: "\<And>j. j < 2 ^ pk_bits k \<Longrightarrow> get_bit_byte prefix j = (m \<le> j \<and> suffix_xor hmac k j)"
    and run: "running = suffix_xor hmac k m"
  shows "\<exists>p. prepare_loop hmac k (rev [0..<m]) running prefix = Inr p \<and> length p = length prefix
    \<and> (\<forall>j < 2 ^ pk_bits k. get_bit_byte p j = suffix_xor hmac k j)"
  using m len pre run
proof (induction m arbitrary: running prefix)
  case 0
  then show ?case by simp
next
  case (Suc m)
  have idx: "m div 8 < length prefix"
    using Suc.prems(1,2) div8_less_ceil [of m "2 ^ pk_bits k"] by simp
  have run': "(running = (\<not> leaf_value hmac k m)) = suffix_xor hmac k m"
    using Suc.prems suffix_xor_rec [of m k hmac] by auto
  have "\<exists>p. prepare_loop hmac k (rev [0..<m]) (suffix_xor hmac k m)
        (set_bit_byte prefix m (suffix_xor hmac k m)) = Inr p
      \<and> length p = length (set_bit_byte prefix m (suffix_xor hmac k m))
      \<and> (\<forall>j < 2 ^ pk_bits k. get_bit_byte p j = suffix_xor hmac k j)"
  proof (rule Suc.IH)
    fix j :: nat assume "j < 2 ^ pk_bits k"
    with Suc.prems(3) [of j] idx
    show "get_bit_byte (set_bit_byte prefix m (suffix_xor hmac k m)) j = (m \<le> j \<and> suffix_xor hmac k j)"
      by (auto simp: get_set_bit_byte le_eq_less_or_eq Suc_le_eq)
  qed (use Suc.prems in auto)
  then show ?case
    by (simp add: eval_leaf_value [OF wf] run')
qed

lemma less_than_share_fresh:
  assumes "point_key_wf k" "\<not> pk_used k" "pk_prefix k = None" "0 \<le> v" "v < 2 ^ pk_bits k"
  shows "less_than_share hmac k v = (k\<lparr>pk_used := True\<rparr>, Inr (suffix_xor hmac k (nat v + 1)))"
proof -
  have "point_key_wf (k\<lparr>pk_used := True\<rparr>)" and "leaf_value hmac (k\<lparr>pk_used := True\<rparr>) = leaf_value hmac k"
    using assms by (auto simp: point_key_wf_def leaf_value_def eval_leaf_def fun_eq_iff)
  then show ?thesis
    using assms by (simp add: less_than_share_def xor_leaves_foldr suffix_xor_def)
qed

lemma prepare_then_less_than:
  assumes wf: "point_key_wf k" "\<not> pk_used k" "pk_prefix k = None" and v: "0 \<le> v" "v < 2 ^ pk_bits k"
  shows "\<exists>p. PointKeyShare_prepare hmac k = Inr p \<and> point_key_wf p
    \<and> snd (less_than_share hmac p v) = snd (less_than_share hmac k v)"
proof -
  have z: "get_bit_byte (replicate ((2 ^ pk_bits k + 7) div 8) 0) j = False" if "j < 2 ^ pk_bits k" for j
    using that div8_less_ceil [OF that] by simp
  obtain p where p: "prepare_loop hmac k (rev [0..<2 ^ pk_bits k]) False
      (replicate ((2 ^ pk_bits k + 7) div 8) 0) = Inr p"
    and bits: "\<forall>j < 2 ^ pk_bits k. get_bit_byte p j = suffix_xor hmac k j"
    using prepare_loop_prefix [OF wf(1), of "2 ^ pk_bits k" "replicate ((2 ^ pk_bits k + 7) div 8) 0" hmac False] z
    by auto
  have prep: "PointKeyShare_prepare hmac k = Inr (k\<lparr>pk_prefix := Some p\<rparr>)"
    using wf p by (simp add: PointKeyShare_prepare_def Let_def)
  have wf': "point_key_wf (k\<lparr>pk_prefix := Some p\<rparr>)" using wf(1) by (simp add: point_key_wf_def)
  have "snd (less_than_share hmac (k\<lparr>pk_prefix := Some p\<rparr>) v) = Inr (suffix_xor hmac k (nat v + 1))"
    using wf v bits by (auto simp: less_than_share_def Let_def get_bit_byte_def [symmetric])
  with prep wf' less_than_share_fresh [OF wf v, of hmac] show ?thesis by auto
qed


section \<open>Correctness of issued keys\<close>

lemma issue_tree_ok:
  assumes "issue_tree hmac d e gate point bits mx = (s, Inr ((r0, r1), (t0, c0), (t1, c1), ws))"
  shows "length r0 = seed_bytes \<and> length r1 = seed_bytes \<and> length ws = bits
    \<and> list_all (\<lambda>w. length (cw_seed w) = seed_bytes) ws \<and> c0 \<noteq> c1
    \<and> 1 \<le> bits \<and> bits \<le> mx \<and> 0 \<le> point \<and> point < 2 ^ bits
    \<and> (\<forall>index < 2 ^ bits. if index = nat point
          then walk hmac bits index (enumerate 0 ws) r0 False = Inr (t0, c0)
             \<and> walk hmac bits index (enumerate 0 ws) r1 True = Inr (t1, c1)
          else walk hmac bits index (enumerate 0 ws) r0 False = walk hmac bits index (enumerate 0 ws) r1 True)"
proof -
  define r0' r1' where "r0' = map e [0..<seed_bytes]" and "r1' = map (\<lambda>i. e (i + seed_bytes)) [0..<seed_bytes]"
  have rl: "length r0' = seed_bytes" "length r1' = seed_bytes" by (simp_all add: r0'_def r1'_def)
  obtain ws' u0 d0 u1 d1 where lv: "issue_levels hmac bits (nat point) [0..<0 + bits] ((r0', False), (r1', True))
        = Inr (ws', (u0, d0), (u1, d1))"
    and w: "length ws' = bits" "\<forall>w \<in> set ws'. length (cw_seed w) = seed_bytes" "d0 \<noteq> d1"
    and path: "\<And>index. if path_agrees bits index (nat point) [0..<0 + bits]
        then walk hmac bits index (enumerate 0 ws') r0' False = Inr (u0, d0)
           \<and> walk hmac bits index (enumerate 0 ws') r1' True = Inr (u1, d1)
        else walk hmac bits index (enumerate 0 ws') r0' False = walk hmac bits index (enumerate 0 ws') r1' True"
    using issue_levels_ok [OF rl, of False True hmac bits "nat point" 0 bits] by auto
  have eqs: "r0 = r0'" "r1 = r1'" "t0 = u0" "c0 = d0" "t1 = u1" "c1 = d1" "ws = ws'"
    and rng: "1 \<le> bits" "bits \<le> mx" "0 \<le> point" "point < 2 ^ bits"
    using assms lv by (auto simp: issue_tree_def token_bytes_def r0'_def r1'_def Let_def split: if_splits)
  have pt: "nat point < 2 ^ bits" using rng by (simp add: nat_less_iff)
  have "if index = nat point
          then walk hmac bits index (enumerate 0 ws) r0 False = Inr (t0, c0)
             \<and> walk hmac bits index (enumerate 0 ws) r1 True = Inr (t1, c1)
          else walk hmac bits index (enumerate 0 ws) r0 False = walk hmac bits index (enumerate 0 ws) r1 True"
    if "index < 2 ^ bits" for index
    using path [of index] directions_determine [OF that pt] by (auto simp: eqs split: if_splits)
  moreover have "length r0 = seed_bytes \<and> length r1 = seed_bytes \<and> length ws = bits
    \<and> list_all (\<lambda>w. length (cw_seed w) = seed_bytes) ws \<and> c0 \<noteq> c1"
    using rl w by (simp add: eqs list_all_iff)
  ultimately show ?thesis using rng by blast
qed

lemma issue_ok:
  assumes "issue hmac d e gate point bits = (s, Inr (k0, k1))"
  shows "point_key_wf k0 \<and> point_key_wf k1 \<and> \<not> pk_used k0 \<and> \<not> pk_used k1
    \<and> pk_prefix k0 = None \<and> pk_prefix k1 = None \<and> pk_bits k0 = bits \<and> pk_bits k1 = bits
    \<and> pk_party k0 = 0 \<and> pk_party k1 = 1 \<and> 0 \<le> point \<and> point < 2 ^ bits
    \<and> pk_session_id k0 = dl_session_id d \<and> pk_session_id k1 = dl_session_id d
    \<and> pk_gate_id k0 = gate \<and> pk_gate_id k1 = gate
    \<and> (\<forall>i < 2 ^ bits. (leaf_value hmac k0 i \<noteq> leaf_value hmac k1 i) = (i = nat point))"
proof -
  obtain r0 r1 t0 c0 t1 c1 ws where tree:
    "issue_tree hmac d e gate point bits max_bits = (s, Inr ((r0, r1), (t0, c0), (t1, c1), ws))"
    and k0: "PointKeyShare_init (dl_session_id d) gate 0 bits r0 ws
        ((leaf_bit hmac t0 \<noteq> leaf_bit hmac t1) \<noteq> True) = Inr k0"
    and k1: "PointKeyShare_init (dl_session_id d) gate 1 bits r1 ws
        ((leaf_bit hmac t0 \<noteq> leaf_bit hmac t1) \<noteq> True) = Inr k1"
    using assms by (auto simp: issue_def Let_def res_simps split: prod.splits)
  note t = issue_tree_ok [OF tree]
  have k0': "k0 = \<lparr>pk_session_id = dl_session_id d, pk_gate_id = gate, pk_party = 0, pk_bits = bits,
      pk_seed = r0, pk_corrections = ws, pk_final = (leaf_bit hmac t0 = leaf_bit hmac t1),
      pk_used = False, pk_prefix = None\<rparr>"
    and k1': "k1 = \<lparr>pk_session_id = dl_session_id d, pk_gate_id = gate, pk_party = 1, pk_bits = bits,
      pk_seed = r1, pk_corrections = ws, pk_final = (leaf_bit hmac t0 = leaf_bit hmac t1),
      pk_used = False, pk_prefix = None\<rparr>"
    using k0 k1 by (auto simp: PointKeyShare_init_def res_simps)
  have wf: "point_key_wf k0" "point_key_wf k1"
    using t by (simp_all add: k0' k1' point_key_wf_def)
  have "(leaf_value hmac k0 i \<noteq> leaf_value hmac k1 i) = (i = nat point)" if i: "i < 2 ^ bits" for i
  proof (cases "i = nat point")
    case True
    then have "walk hmac bits i (enumerate 0 ws) r0 False = Inr (t0, c0)"
      and "walk hmac bits i (enumerate 0 ws) r1 True = Inr (t1, c1)" and "c0 \<noteq> c1"
      using t i by auto
    with True show ?thesis by (auto simp: leaf_value_def eval_leaf_def k0' k1')
  next
    case False
    then have eq: "walk hmac bits i (enumerate 0 ws) r0 False = walk hmac bits i (enumerate 0 ws) r1 True"
      using t i by auto
    with False show ?thesis
      by (cases "walk hmac bits i (enumerate 0 ws) r1 True") (auto simp: leaf_value_def eval_leaf_def k0' k1')
  qed
  with wf t show ?thesis by (auto simp: k0' k1')
qed

lemma suffix_xor_issued:
  assumes "pk_bits k0 = bits" "pk_bits k1 = bits"
    and "\<forall>i < 2 ^ bits. (leaf_value hmac k0 i \<noteq> leaf_value hmac k1 i) = (i = p)" and "p < 2 ^ bits"
  shows "(suffix_xor hmac k0 j \<noteq> suffix_xor hmac k1 j) = (j \<le> p)"
proof (cases "j \<le> 2 ^ bits")
  case True
  then show ?thesis
  proof (induction rule: inc_induct)
    case base
    then show ?case using assms by simp
  next
    case (step n)
    have "(suffix_xor hmac k0 n \<noteq> suffix_xor hmac k1 n)
        = ((leaf_value hmac k0 n \<noteq> leaf_value hmac k1 n) \<noteq> (suffix_xor hmac k0 (Suc n) \<noteq> suffix_xor hmac k1 (Suc n)))"
      using step.hyps assms(1,2) suffix_xor_rec [of n k0 hmac] suffix_xor_rec [of n k1 hmac] by auto
    also have "\<dots> = ((n = p) \<noteq> (Suc n \<le> p))"
      using step.IH step.hyps assms(3) by simp
    also have "\<dots> = (n \<le> p)" by linarith
    finally show ?case .
  qed
qed (use assms in simp)

lemma issue_less_than:
  assumes iss: "issue hmac d e gate point bits = (s, Inr (k0, k1))" and v: "0 \<le> v" "v < 2 ^ bits"
  shows "\<exists>b0 b1. snd (less_than_share hmac k0 v) = Inr b0 \<and> snd (less_than_share hmac k1 v) = Inr b1
    \<and> (b0 \<noteq> b1) = (v < point)"
proof -
  note i = issue_ok [OF iss]
  have "(suffix_xor hmac k0 (nat v + 1) \<noteq> suffix_xor hmac k1 (nat v + 1)) = (nat v + 1 \<le> nat point)"
    by (rule suffix_xor_issued [where bits = bits]) (use i in \<open>auto simp: nat_less_iff\<close>)
  moreover have "nat v + 1 \<le> nat point \<longleftrightarrow> v < point" using v i by linarith
  ultimately show ?thesis
    using i v by (simp add: less_than_share_fresh)
qed

section \<open>Packed openings\<close>

lemma pack_unpack_bits:
  assumes "pack_bit_shares bits = Inr payload"
  shows "unpack_bit_shares payload (int (length bits)) = Inr bits"
proof -
  define n where "n = length bits"
  define L where "L = (n + 7) div 8"
  have n: "0 < n" using assms by (simp add: pack_bit_shares_def n_def res_simps)
  have pay: "payload = pack_bits_from 0 bits (replicate L 0)"
    using assms by (simp add: pack_bit_shares_def n_def L_def res_simps)
  have cap: "(0 + length bits + 7) div 8 \<le> length (replicate L (0::byte))" by (simp add: L_def n_def)
  note pb = pack_bits_from_get [OF cap]
  have len: "length payload = L" using pb by (simp add: pay)
  have get: "get_bit_byte payload j = (j < n \<and> bits ! j)" if "j div 8 < L" for j
    using pb that by (simp add: pay n_def)
  have L: "L = Suc ((n - 1) div 8)" using n by (simp add: L_def)
  have "drop_bit ((n - 1) mod 8 + 1) (last payload) = 0"
  proof (rule bit_eqI)
    fix m
    show "bit (drop_bit ((n - 1) mod 8 + 1) (last payload)) m = bit 0 m"
    proof (cases "(n - 1) mod 8 + 1 + m < 8")
      case True
      define j where "j = 8 * (L - 1) + ((n - 1) mod 8 + 1 + m)"
      have jd: "j div 8 = L - 1" and jm: "j mod 8 = (n - 1) mod 8 + 1 + m"
        using True by (simp_all add: j_def)
      have "n \<le> j" using L n by (simp add: j_def)
      then have "\<not> get_bit_byte payload j" using get [of j] jd L by simp
      moreover have "last payload = payload ! (L - 1)" 
        using len L by (metis Zero_not_Suc last_conv_nth list.size(3))
      ultimately show ?thesis by (simp add: get_bit_byte_def jd jm bit_drop_bit_eq add.assoc)
    next
      case False
      then show ?thesis by (auto simp: bit_drop_bit_eq dest: bit_imp_le_length)
    qed
  qed
  moreover have "nat ((int n - 1) mod 8) = (n - 1) mod 8"
    using n by (metis int_ops(6) nat_int of_nat_1 of_nat_diff of_nat_mod of_nat_numeral Suc_leI One_nat_def)
  moreover have "int L = (int n + 7) div 8" by (simp add: L_def zdiv_int)
  moreover have "map (\<lambda>index. bit (payload ! (index div 8)) (index mod 8)) [0..<n] = bits"
    using get div8_less_ceil by (intro nth_equalityI) (auto simp: get_bit_byte_def n_def L_def)
  ultimately show ?thesis
    using n len by (simp add: unpack_bit_shares_def n_def [symmetric])
qed

section \<open>Additive keys\<close>


lemma ring_sum_on_path:
  fixes a b p M :: int
  assumes "F = ((if c0 then 1 else - 1) * (p - a + b)) mod M" "0 \<le> p" "p < M"
  shows "((a + of_bool c0 * F) mod M + (- (b + of_bool (\<not> c0) * F)) mod M) mod M = p"
proof -
  have "((a + of_bool c0 * F) mod M + (- (b + of_bool (\<not> c0) * F)) mod M) mod M
      = (a - b + (if c0 then 1 else - 1) * F) mod M"
    unfolding mod_add_eq by (cases c0) (simp_all add: algebra_simps)
  also have "\<dots> = (a - b + (if c0 then 1 else - 1) * ((if c0 then 1 else - 1) * (p - a + b))) mod M"
    by (subst assms(1)) (simp add: mod_simps)
  also have "\<dots> = p mod M" by (cases c0) (simp_all add: algebra_simps)
  finally show ?thesis using assms by simp
qed

lemma ring_sum_off_path: "((a :: int) mod M + (- a) mod M) mod M = 0"
  by (simp add: mod_simps)

lemma issue_ring_elim:
  assumes "issue_ring hmac d e gate point payload bits ring_bits = (s, Inr (k0, k1))"
  obtains r0 r1 t0 c0 t1 c1 ws F where
    "issue_tree hmac d e gate point bits max_bits = (s, Inr ((r0, r1), (t0, c0), (t1, c1), ws))"
    "F = ring_final (if c0 then 1 else - 1) (2 ^ ring_bits) payload
           (ring_leaf hmac t0 (2 ^ ring_bits)) (ring_leaf hmac t1 (2 ^ ring_bits))"
    "0 \<le> fst payload" "fst payload < 2 ^ ring_bits" "0 \<le> snd payload" "snd payload < 2 ^ ring_bits"
    "RingPointKeyShare_init (dl_session_id d) gate 0 bits ring_bits r0 ws F = Inr k0"
    "RingPointKeyShare_init (dl_session_id d) gate 1 bits ring_bits r1 ws F = Inr k1"
proof -
  have ok: "0 \<le> fst payload" "fst payload < 2 ^ ring_bits" "0 \<le> snd payload" "snd payload < 2 ^ ring_bits"
    using assms by (simp_all add: issue_ring_def split: if_splits)
  obtain s' r where t: "issue_tree hmac d e gate point bits max_bits = (s', r)" by fastforce
  have "(s', bindE r (\<lambda>(roots, st0, st1, words).
              raise_if (snd st0 = snd st1)
                (DpfReferenceError ''point-key control correction lost its active path'')
              (bindE (RingPointKeyShare_init (dl_session_id d) gate 0 bits ring_bits
                           (fst roots) words (ring_final (if snd st0 then 1 else - 1) (2 ^ ring_bits) payload
                (ring_leaf hmac (fst st0) (2 ^ ring_bits)) (ring_leaf hmac (fst st1) (2 ^ ring_bits)))) (\<lambda>k0.
                  bindE (RingPointKeyShare_init (dl_session_id d) gate 1 bits ring_bits
                           (snd roots) words (ring_final (if snd st0 then 1 else - 1) (2 ^ ring_bits) payload
                (ring_leaf hmac (fst st0) (2 ^ ring_bits)) (ring_leaf hmac (fst st1) (2 ^ ring_bits)))) (\<lambda>k1.
                    Inr (k0, k1)))))) = (s, Inr (k0, k1))"
    using assms unfolding issue_ring_def t by (simp add: Let_def split: if_splits)
  then obtain r0 r1 t0 c0 t1 c1 ws where r: "s' = s" "r = Inr ((r0, r1), (t0, c0), (t1, c1), ws)"
    and i0: "RingPointKeyShare_init (dl_session_id d) gate 0 bits ring_bits r0 ws
       (ring_final (if c0 then 1 else - 1) (2 ^ ring_bits) payload
                (ring_leaf hmac t0 (2 ^ ring_bits)) (ring_leaf hmac t1 (2 ^ ring_bits))) = Inr k0"
    and i1: "RingPointKeyShare_init (dl_session_id d) gate 1 bits ring_bits r1 ws
       (ring_final (if c0 then 1 else - 1) (2 ^ ring_bits) payload
                (ring_leaf hmac t0 (2 ^ ring_bits)) (ring_leaf hmac t1 (2 ^ ring_bits))) = Inr k1"
    by (auto simp: res_simps split: prod.splits)
  show thesis
    using that [OF _ refl ok i0 i1] t r by simp
qed

lemma RingPointKeyShare_init_ok:
  "RingPointKeyShare_init sid gate party bits rb seed ws F = Inr k \<Longrightarrow>
     k = \<lparr>rk_session_id = sid, rk_gate_id = gate, rk_party = party, rk_bits = bits, rk_ring_bits = rb,
          rk_seed = seed, rk_corrections = ws, rk_final = F, rk_used = False\<rparr>"
  by (simp add: RingPointKeyShare_init_def raise_if_eq_Inr)

lemma issue_ring_eval:
  assumes iss: "issue_ring hmac d e gate point payload bits ring_bits = (s, Inr (k0, k1))"
    and idx: "index < 2 ^ bits"
  shows "\<exists>x y. eval_ring hmac (k0\<lparr>rk_used := u\<rparr>) index = Inr x \<and> eval_ring hmac (k1\<lparr>rk_used := u'\<rparr>) index = Inr y
    \<and> (fst x + fst y) mod 2 ^ ring_bits = (if index = nat point then fst payload else 0)
    \<and> (snd x + snd y) mod 2 ^ ring_bits = (if index = nat point then snd payload else 0)"
proof -
  obtain r0 r1 t0 c0 t1 c1 ws F where
    tree: "issue_tree hmac d e gate point bits max_bits = (s, Inr ((r0, r1), (t0, c0), (t1, c1), ws))"
    and F: "F = ring_final (if c0 then 1 else - 1) (2 ^ ring_bits) payload
           (ring_leaf hmac t0 (2 ^ ring_bits)) (ring_leaf hmac t1 (2 ^ ring_bits))"
    and pay: "0 \<le> fst payload" "fst payload < 2 ^ ring_bits" "0 \<le> snd payload" "snd payload < 2 ^ ring_bits"
    and k0: "RingPointKeyShare_init (dl_session_id d) gate 0 bits ring_bits r0 ws F = Inr k0"
    and k1: "RingPointKeyShare_init (dl_session_id d) gate 1 bits ring_bits r1 ws F = Inr k1"
    using issue_ring_elim [OF iss] .
  note t = issue_tree_ok [OF tree]
  show ?thesis
  proof (cases "index = nat point")
    case True
    then have w: "walk hmac bits index (enumerate 0 ws) r0 False = Inr (t0, c0)"
      "walk hmac bits index (enumerate 0 ws) r1 True = Inr (t1, c1)" and c: "c1 = (\<not> c0)"
      using t idx by auto
    let ?M = "2 ^ ring_bits :: int"
    let ?R = "\<lambda>s. ring_leaf hmac s ?M"
    have x: "eval_ring hmac (k0\<lparr>rk_used := u\<rparr>) index
        = Inr ((fst (?R t0) + of_bool c0 * fst F) mod ?M, (snd (?R t0) + of_bool c0 * snd F) mod ?M)"
      by (simp add: eval_ring_def RingPointKeyShare_init_ok [OF k0] w Let_def)
    have y: "eval_ring hmac (k1\<lparr>rk_used := u'\<rparr>) index
        = Inr ((- (fst (?R t1) + of_bool (\<not> c0) * fst F)) mod ?M, (- (snd (?R t1) + of_bool (\<not> c0) * snd F)) mod ?M)"
      by (simp add: eval_ring_def RingPointKeyShare_init_ok [OF k1] w c Let_def del: of_bool_not_iff)
    have "((fst (?R t0) + of_bool c0 * fst F) mod ?M + (- (fst (?R t1) + of_bool (\<not> c0) * fst F)) mod ?M) mod ?M
        = fst payload"
      and "((snd (?R t0) + of_bool c0 * snd F) mod ?M + (- (snd (?R t1) + of_bool (\<not> c0) * snd F)) mod ?M) mod ?M
        = snd payload"
      by (rule ring_sum_on_path; use pay in \<open>simp add: F ring_final_def\<close>)+
    with x y True show ?thesis by simp
  next
    case False
    then have eq: "walk hmac bits index (enumerate 0 ws) r0 False = walk hmac bits index (enumerate 0 ws) r1 True"
      using t idx by auto
    obtain z where "walk hmac bits index (enumerate 0 ws) r1 True = Inr z"
      using walk_ok [of r1 "enumerate 0 ws" hmac bits index True] t set_enumerate_words by blast
    with eq False show ?thesis
      unfolding eval_ring_def RingPointKeyShare_init_ok [OF k0] RingPointKeyShare_init_ok [OF k1]
      by (cases z) (simp add: Let_def mod_simps)
  qed
qed

section \<open>Properties\<close>

text \<open>A concrete hash and issuance for the witnesses below.\<close>

definition demo_hmac :: hmac_fun where
  "demo_hmac key message = of_nat (sum_list (map unat key) * 7919 + unat (last message) * 104729) * 65599"

definition demo_dealer :: PointKeyDealer where
  "demo_dealer = \<lparr>dl_session_id = ''s'', dl_issued = {}\<rparr>"

lemma issue_tree_succeeds:
  assumes "gate \<noteq> []" "gate \<notin> dl_issued d" "1 \<le> bits" "bits \<le> max_bits" "0 \<le> point" "point < 2 ^ bits"
  shows "\<exists>s r0 r1 t0 c0 t1 c1 ws.
    issue_tree hmac d e gate point bits max_bits = (s, Inr ((r0, r1), (t0, c0), (t1, c1), ws))"
proof -
  define r0 r1 where "r0 = map e [0..<seed_bytes]" and "r1 = map (\<lambda>i. e (i + seed_bytes)) [0..<seed_bytes]"
  have "length r0 = seed_bytes" "length r1 = seed_bytes" by (simp_all add: r0_def r1_def)
  from issue_levels_ok [OF this, of False True hmac bits "nat point" 0 bits]
  obtain ws t0 c0 t1 c1 where "issue_levels hmac bits (nat point) [0..<bits] ((r0, False), (r1, True))
      = Inr (ws, (t0, c0), (t1, c1))" by auto
  with assms show ?thesis
    by (auto simp: issue_tree_def token_bytes_def r0_def r1_def max_bits_def)
qed

lemma issue_succeeds:
  assumes "dl_session_id d \<noteq> []" "gate \<noteq> []" "gate \<notin> dl_issued d"
    and "1 \<le> bits" "bits \<le> max_bits" "0 \<le> point" "point < 2 ^ bits"
  shows "\<exists>s k0 k1. issue hmac d e gate point bits = (s, Inr (k0, k1))"
proof -
  obtain s r0 r1 t0 c0 t1 c1 ws where tree:
    "issue_tree hmac d e gate point bits max_bits = (s, Inr ((r0, r1), (t0, c0), (t1, c1), ws))"
    using issue_tree_succeeds [OF assms(2-7), of hmac e] by blast
  from issue_tree_ok [OF tree] assms show ?thesis
    by (simp add: issue_def tree PointKeyShare_init_def list_all_iff list_ex_iff Let_def)
qed

lemma issue_ring_succeeds:
  assumes "dl_session_id d \<noteq> []" "gate \<noteq> []" "gate \<notin> dl_issued d"
    and "1 \<le> bits" "bits \<le> max_bits" "0 \<le> point" "point < 2 ^ bits" "ring_bits \<in> {8, 16, 32, 64}"
    and "0 \<le> fst payload" "fst payload < 2 ^ ring_bits" "0 \<le> snd payload" "snd payload < 2 ^ ring_bits"
  shows "\<exists>s k0 k1. issue_ring hmac d e gate point payload bits ring_bits = (s, Inr (k0, k1))"
proof -
  obtain s r0 r1 t0 c0 t1 c1 ws where tree:
    "issue_tree hmac d e gate point bits max_bits = (s, Inr ((r0, r1), (t0, c0), (t1, c1), ws))"
    using issue_tree_succeeds [OF assms(2-7), of hmac e] by blast
  have final: "0 \<le> fst (ring_final sg (2 ^ ring_bits) p x y)" "fst (ring_final sg (2 ^ ring_bits) p x y) < 2 ^ ring_bits"
    "0 \<le> snd (ring_final sg (2 ^ ring_bits) p x y)" "snd (ring_final sg (2 ^ ring_bits) p x y) < 2 ^ ring_bits"
    for sg p x y by (simp_all add: ring_final_def)
  note t = issue_tree_ok [OF tree]
  have init: "\<exists>k. RingPointKeyShare_init (dl_session_id d) gate party bits ring_bits r ws
      (ring_final sg (2 ^ ring_bits) p x y) = Inr k"
    if "party \<in> {0, 1}" "length r = seed_bytes" for party r sg p x y
    unfolding RingPointKeyShare_init_def using that t assms final [of sg p x y]
    by (intro exI, subst raise_if_eq_Inr) (auto simp: list_all_iff list_ex_iff)
  obtain k0 where k0: "RingPointKeyShare_init (dl_session_id d) gate 0 bits ring_bits r0 ws
      (ring_final (if c0 then 1 else - 1) (2 ^ ring_bits) payload
        (ring_leaf hmac t0 (2 ^ ring_bits)) (ring_leaf hmac t1 (2 ^ ring_bits))) = Inr k0"
    using init [of 0 r0] t by blast
  obtain k1 where k1: "RingPointKeyShare_init (dl_session_id d) gate 1 bits ring_bits r1 ws
      (ring_final (if c0 then 1 else - 1) (2 ^ ring_bits) payload
        (ring_leaf hmac t0 (2 ^ ring_bits)) (ring_leaf hmac t1 (2 ^ ring_bits))) = Inr k1"
    using init [of 1 r1] t by blast
  have ok: "\<not> (ring_bits \<notin> {8, 16, 32, 64} \<or> \<not> (0 \<le> fst payload \<and> fst payload < 2 ^ ring_bits)
         \<or> \<not> (0 \<le> snd payload \<and> snd payload < 2 ^ ring_bits))"
    using assms by blast
  from t have "c0 \<noteq> c1" by blast
  then show ?thesis
    unfolding issue_ring_def if_not_P [OF ok] tree using k0 k1 by (simp add: Let_def)
qed

text \<open>
  C5: for every hash function, entropy tape and hidden point, the two parties' comparison shares of
  an issued Boolean point key are defined for every public value of the domain and XOR to the
  truth value of \<open>public_value < point\<close>.
\<close>

theorem point_fss_less_than:
  assumes "dl_session_id dealer \<noteq> []" "gate \<noteq> []" "gate \<notin> dl_issued dealer"
    and "1 \<le> bits" "bits \<le> max_bits" "0 \<le> point" "point < 2 ^ bits"
    and "0 \<le> v" "v < 2 ^ bits"
  shows "\<exists>s k0 k1 b0 b1. issue hmac dealer e gate point bits = (s, Inr (k0, k1))
    \<and> snd (less_than_share hmac k0 v) = Inr b0 \<and> snd (less_than_share hmac k1 v) = Inr b1
    \<and> (b0 \<noteq> b1) = (v < point)"
proof -
  obtain s k0 k1 where i: "issue hmac dealer e gate point bits = (s, Inr (k0, k1))"
    using issue_succeeds [OF assms(1-7)] by blast
  with issue_less_than [OF i assms(8,9)] show ?thesis by blast
qed

theorem point_fss_less_than_witness:
  "\<exists>s k0 k1 b0 b1. issue demo_hmac demo_dealer (\<lambda>i. of_nat i) ''g'' 2 2 = (s, Inr (k0, k1))
     \<and> snd (less_than_share demo_hmac k0 1) = Inr b0 \<and> snd (less_than_share demo_hmac k1 1) = Inr b1
     \<and> (b0 \<noteq> b1) = ((1 :: int) < 2)"
  using point_fss_less_than [of demo_dealer "''g''" 2 2 1 demo_hmac "\<lambda>i. of_nat i"]
  by (simp add: demo_dealer_def max_bits_def)

text \<open>
  Expanding a fresh well-formed key offline with \<open>prepare\<close> succeeds and does not change the value
  that \<open>less_than_share\<close> returns: the table of suffix XORs packed in bytes agrees with the on-line
  XOR over the leaves.
\<close>

lemma prepared_key_equivalent:
  assumes "PointKeyShare_init sid gate party bits seed ws final = Inr k" and "0 \<le> v" and "v < 2 ^ bits"
  shows "\<exists>p. PointKeyShare_prepare hmac k = Inr p
    \<and> snd (less_than_share hmac p v) = snd (less_than_share hmac k v)
    \<and> (\<exists>b. snd (less_than_share hmac k v) = Inr b)"
proof -
  have k: "point_key_wf k" "\<not> pk_used k" "pk_prefix k = None" "pk_bits k = bits"
    using assms(1) by (auto simp: PointKeyShare_init_def res_simps point_key_wf_def list_all_iff list_ex_iff)
  then show ?thesis
    using prepare_then_less_than [of k v hmac] less_than_share_fresh [of k v hmac] assms(2,3) by auto
qed

text \<open>
  A Boolean point key is evaluated at most once: after any call of \<open>less_than_share\<close>, whatever its
  argument and result, every further evaluation and every further expansion raises.
\<close>

lemma point_key_single_use:
  "snd (less_than_share hmac (fst (less_than_share hmac k v)) w)
     = Inl (DpfReferenceError ''point-key share was already consumed'')
   \<and> PointKeyShare_prepare hmac (fst (less_than_share hmac k v))
     = Inl (DpfReferenceError ''point-key share was already prepared or consumed'')"
  by (auto simp: less_than_share_def PointKeyShare_prepare_def Let_def split: option.splits)

lemma issue_ring_sums:
  assumes "issue_ring hmac dealer e gate point payload bits ring_bits = (s, Inr (k0, k1))"
    and "0 < count" and "count \<le> 2 ^ bits"
  shows "\<exists>xs ys. snd (eval_all_once hmac k0 count) = Inr xs \<and> snd (eval_all_once hmac k1 count) = Inr ys
    \<and> length xs = nat count \<and> length ys = nat count
    \<and> (\<forall>i < nat count.
        (fst (xs ! i) + fst (ys ! i)) mod 2 ^ ring_bits = (if i = nat point then fst payload else 0)
      \<and> (snd (xs ! i) + snd (ys ! i)) mod 2 ^ ring_bits = (if i = nat point then snd payload else 0))"
proof -
  have range: "i < 2 ^ bits" if "i < nat count" for i
    using that assms(3) by (metis less_le_trans nat_le_iff nat_numeral nat_power_eq of_nat_numeral of_nat_power zero_le_numeral)
  have keys: "rk_used k0 = False" "rk_used k1 = False" "rk_bits k0 = bits" "rk_bits k1 = bits"
    by (rule issue_ring_elim [OF assms(1)], drule RingPointKeyShare_init_ok, drule RingPointKeyShare_init_ok, simp)+
  define f where "f i = (SOME x. eval_ring hmac (k0\<lparr>rk_used := True\<rparr>) i = Inr x)" for i
  define g where "g i = (SOME x. eval_ring hmac (k1\<lparr>rk_used := True\<rparr>) i = Inr x)" for i
  have f: "eval_ring hmac (k0\<lparr>rk_used := True\<rparr>) i = Inr (f i)"
    and g: "eval_ring hmac (k1\<lparr>rk_used := True\<rparr>) i = Inr (g i)" if "i < nat count" for i
    using issue_ring_eval [OF assms(1) range [OF that], of True True] by (auto simp: f_def g_def)
  have m0: "mapE (eval_ring hmac (k0\<lparr>rk_used := True\<rparr>)) [0..<nat count] = Inr (map f [0..<nat count])"
    and m1: "mapE (eval_ring hmac (k1\<lparr>rk_used := True\<rparr>)) [0..<nat count] = Inr (map g [0..<nat count])"
    by (rule mapE_all_Inr; simp add: f g)+
  have "(fst (f i) + fst (g i)) mod 2 ^ ring_bits = (if i = nat point then fst payload else 0)
      \<and> (snd (f i) + snd (g i)) mod 2 ^ ring_bits = (if i = nat point then snd payload else 0)"
    if "i < nat count" for i
    using issue_ring_eval [OF assms(1) range [OF that], of True True] f [OF that] g [OF that] by auto
  then show ?thesis
    using assms(2,3) by (simp add: eval_all_once_def Let_def keys m0 m1)
qed

text \<open>
  The additive shares of an issued ring point key, expanded over any prefix of the domain, sum
  modulo \<open>2 ^ ring_bits\<close> to the payload pair at the hidden point and to zero everywhere else.
\<close>

lemma ring_point_correct:
  assumes "dl_session_id dealer \<noteq> []" "gate \<noteq> []" "gate \<notin> dl_issued dealer"
    and "1 \<le> bits" "bits \<le> max_bits" "0 \<le> point" "point < 2 ^ bits" "ring_bits \<in> {8, 16, 32, 64}"
    and "0 \<le> fst payload" "fst payload < 2 ^ ring_bits" "0 \<le> snd payload" "snd payload < 2 ^ ring_bits"
    and "0 < count" "count \<le> 2 ^ bits"
  shows "\<exists>s k0 k1 xs ys. issue_ring hmac dealer e gate point payload bits ring_bits = (s, Inr (k0, k1))
    \<and> snd (eval_all_once hmac k0 count) = Inr xs \<and> snd (eval_all_once hmac k1 count) = Inr ys
    \<and> length xs = nat count \<and> length ys = nat count
    \<and> (\<forall>i < nat count.
        (fst (xs ! i) + fst (ys ! i)) mod 2 ^ ring_bits = (if i = nat point then fst payload else 0)
      \<and> (snd (xs ! i) + snd (ys ! i)) mod 2 ^ ring_bits = (if i = nat point then snd payload else 0))"
proof -
  obtain s k0 k1 where i: "issue_ring hmac dealer e gate point payload bits ring_bits = (s, Inr (k0, k1))"
    using issue_ring_succeeds [OF assms(1-12)] by blast
  with issue_ring_sums [OF i assms(13,14)] show ?thesis by blast
qed

text \<open>
  Packed Boolean openings round-trip: whatever non-empty vector a party packs, the peer unpacks
  with its length to the same vector, and the padding check accepts it.
\<close>

lemma bit_shares_roundtrip:
  assumes "bits \<noteq> []"
  shows "\<exists>payload. pack_bit_shares bits = Inr payload \<and> length payload = (length bits + 7) div 8
    \<and> unpack_bit_shares payload (int (length bits)) = Inr bits"
  using assms pack_unpack_bits [of bits] pack_bits_from_get [of 0 bits "replicate ((length bits + 7) div 8) 0"]
  by (simp add: pack_bit_shares_def)

text \<open>
  A dealer never issues the same gate twice: once a tree for a gate has been issued, every later
  issuance under that gate identifier raises and draws no entropy.
\<close>

lemma gate_issued_once:
  assumes "issue_tree hmac dealer e gate point bits mx = ((dealer', e'), Inr r)"
  shows "issue_tree hmac2 dealer' e2 gate point2 bits2 mx2
    = ((dealer', e2), Inl (DpfReferenceError ''point-key gate was already issued''))"
  using assms by (auto simp: issue_tree_def Let_def split: if_splits prod.splits)

end
