(* ===== verification/Ring_Tensor.thy ===== *)
theory Ring_Tensor
  imports Prelude
begin

text \<open>
  NumPy arrays as the shared-computation code uses them: a shape and the elements in C order.
  Element-wise operations, broadcasting, reduction along an axis and the last-axis matrix product
  are index computations on the flat data. On \<^typ>\<open>64 word\<close> elements the arithmetic wraps modulo
  \<open>2 ^ 64\<close>, as it does on \<^verbatim>\<open>uint64\<close>. The lemmas show that every operation is additive, which is what
  the additive secret sharing of the components above relies on.
\<close>

record 'a ndarray =
  nd_shape :: "nat list"
  nd_data :: "'a list"

type_synonym u64array = "64 word ndarray"
type_synonym i64array = "int ndarray"

definition nd_wf :: "'a ndarray \<Rightarrow> bool" where
  "nd_wf a \<longleftrightarrow> length (nd_data a) = prod_list (nd_shape a)"

definition nd_size :: "'a ndarray \<Rightarrow> nat" where
  "nd_size a = prod_list (nd_shape a)"

definition nd_map :: "('a \<Rightarrow> 'b) \<Rightarrow> 'a ndarray \<Rightarrow> 'b ndarray" where
  "nd_map f a = \<lparr>nd_shape = nd_shape a, nd_data = map f (nd_data a)\<rparr>"

definition nd_map2 :: "('a \<Rightarrow> 'b \<Rightarrow> 'c) \<Rightarrow> 'a ndarray \<Rightarrow> 'b ndarray \<Rightarrow> 'c ndarray" where
  "nd_map2 f a b = \<lparr>nd_shape = nd_shape a, nd_data = map2 f (nd_data a) (nd_data b)\<rparr>"

abbreviation nd_add :: "u64array \<Rightarrow> u64array \<Rightarrow> u64array" where
  "nd_add \<equiv> nd_map2 (+)"

abbreviation nd_sub :: "u64array \<Rightarrow> u64array \<Rightarrow> u64array" where
  "nd_sub \<equiv> nd_map2 (-)"

abbreviation nd_mul :: "u64array \<Rightarrow> u64array \<Rightarrow> u64array" where
  "nd_mul \<equiv> nd_map2 (*)"

text \<open>\<^verbatim>\<open>ndarray.view(np.uint64)\<close> of an \<^verbatim>\<open>int64\<close> array.\<close>

definition ring_of_ints :: "i64array \<Rightarrow> u64array" where
  "ring_of_ints a = nd_map word_of_int a"

subsection \<open>Broadcasting\<close>

definition pad_shape :: "nat list \<Rightarrow> nat list \<Rightarrow> nat list" where
  "pad_shape shape target = replicate (length target - length shape) 1 @ shape"

definition broadcastable :: "nat list \<Rightarrow> nat list \<Rightarrow> bool" where
  "broadcastable shape target \<longleftrightarrow> length shape \<le> length target
     \<and> list_all2 (\<lambda>s t. s = t \<or> s = 1) (pad_shape shape target) target"

fun bcast_index :: "nat list \<Rightarrow> nat list \<Rightarrow> nat \<Rightarrow> nat" where
  "bcast_index (s # ss) (t # ts) i =
     (if s = 1 then 0 else i div prod_list ts) * prod_list ss + bcast_index ss ts (i mod prod_list ts)"
| "bcast_index _ _ i = 0"

definition nd_broadcast_to :: "'a ndarray \<Rightarrow> nat list \<Rightarrow> 'a ndarray res" where
  "nd_broadcast_to a target =
     raise_if (\<not> broadcastable (nd_shape a) target)
       (ValueError ''operands could not be broadcast together'')
       (Inr \<lparr>nd_shape = target,
             nd_data = map (\<lambda>i. nd_data a ! bcast_index (pad_shape (nd_shape a) target) target i)
                           [0..<prod_list target]\<rparr>)"

subsection \<open>Reduction along an axis\<close>

text \<open>\<open>norm_axis\<close> resolves a negative axis; an axis out of range raises, as NumPy's \<^verbatim>\<open>AxisError\<close> does.\<close>

definition norm_axis :: "int \<Rightarrow> nat \<Rightarrow> nat res" where
  "norm_axis axis ndim =
     (let a = (if axis < 0 then axis + int ndim else axis)
      in if 0 \<le> a \<and> a < int ndim then Inr (nat a) else Inl (ValueError ''axis is out of bounds''))"

definition sum_data :: "nat list \<Rightarrow> nat \<Rightarrow> 'a::comm_monoid_add list \<Rightarrow> 'a list" where
  "sum_data shape ax d =
     (let n = shape ! ax; inner = prod_list (drop (Suc ax) shape); outer = prod_list (take ax shape)
      in map (\<lambda>j. sum_list (map (\<lambda>k. d ! ((j div inner) * (n * inner) + k * inner + j mod inner)) [0..<n]))
             [0..<outer * inner])"

definition nd_sum :: "'a::comm_monoid_add ndarray \<Rightarrow> int \<Rightarrow> bool \<Rightarrow> 'a ndarray res" where
  "nd_sum a axis keepdims =
     bindE (norm_axis axis (length (nd_shape a))) (\<lambda>ax.
       Inr \<lparr>nd_shape = take ax (nd_shape a) @ (if keepdims then [1] else []) @ drop (Suc ax) (nd_shape a),
            nd_data = sum_data (nd_shape a) ax (nd_data a)\<rparr>)"

subsection \<open>Last-axis matrix product\<close>

text \<open>\<open>nd_matmul_t x w\<close> is \<^verbatim>\<open>np.matmul(x, w.T)\<close> for a two-dimensional \<open>w\<close>.\<close>

definition nd_matmul_t :: "'a::comm_ring_1 ndarray \<Rightarrow> 'a ndarray \<Rightarrow> 'a ndarray" where
  "nd_matmul_t x w =
     (let k = last (nd_shape x); m = hd (nd_shape w); rows = prod_list (butlast (nd_shape x))
      in \<lparr>nd_shape = butlast (nd_shape x) @ [m],
          nd_data = map (\<lambda>j. sum_list (map (\<lambda>t. nd_data x ! ((j div m) * k + t) * nd_data w ! ((j mod m) * k + t)) [0..<k]))
                        [0..<rows * m]\<rparr>)"

subsection \<open>Selection on the last axis\<close>

text \<open>\<open>nd_last_at a j\<close> is \<^verbatim>\<open>a[..., j]\<close>.\<close>

definition nd_last_at :: "'a ndarray \<Rightarrow> nat \<Rightarrow> 'a ndarray" where
  "nd_last_at a j =
     \<lparr>nd_shape = butlast (nd_shape a),
      nd_data = map (\<lambda>i. nd_data a ! (i * last (nd_shape a) + j)) [0..<prod_list (butlast (nd_shape a))]\<rparr>"

section \<open>Shapes of results\<close>

lemma nd_map_simps [simp]:
  "nd_shape (nd_map f a) = nd_shape a" "nd_data (nd_map f a) = map f (nd_data a)"
  by (simp_all add: nd_map_def)

lemma nd_map2_simps [simp]:
  "nd_shape (nd_map2 f a b) = nd_shape a" "nd_data (nd_map2 f a b) = map2 f (nd_data a) (nd_data b)"
  by (simp_all add: nd_map2_def)

lemma nd_wf_length: "nd_wf a \<Longrightarrow> length (nd_data a) = nd_size a"
  by (simp add: nd_wf_def nd_size_def)

lemma nd_wf_map [simp]: "nd_wf (nd_map f a) = nd_wf a"
  by (simp add: nd_wf_def)

lemma nd_wf_map2 [intro]: "nd_wf a \<Longrightarrow> nd_wf b \<Longrightarrow> nd_shape a = nd_shape b \<Longrightarrow> nd_wf (nd_map2 f a b)"
  by (simp add: nd_wf_def)

lemma ndarray_eqI: "nd_shape a = nd_shape b \<Longrightarrow> nd_data a = nd_data b \<Longrightarrow> a = (b :: 'a ndarray)"
  by simp

text \<open>Two arrays of one shape are equal when their elements are.\<close>

lemma nd_eq_nthI:
  assumes "nd_wf a" "nd_wf b" "nd_shape a = nd_shape b"
    and "\<And>i. i < nd_size a \<Longrightarrow> nd_data a ! i = nd_data b ! i"
  shows "a = (b :: 'a ndarray)"
  using assms by (intro ndarray_eqI nth_equalityI) (auto simp: nd_wf_def nd_size_def)

lemma bcast_index_less:
  assumes "list_all2 (\<lambda>s t. s = t \<or> s = 1) ss ts" and "i < prod_list ts"
  shows "bcast_index ss ts i < prod_list ss"
  using assms
proof (induction arbitrary: i rule: list_all2_induct)
  case Nil
  then show ?case by simp
next
  case (Cons s ss t ts)
  have pos: "0 < prod_list ts" using Cons.prems by (cases "prod_list ts") auto
  then have b: "bcast_index ss ts (i mod prod_list ts) < prod_list ss" by (intro Cons.IH) simp
  show ?case
  proof (cases "s = 1")
    case True
    with b show ?thesis by simp
  next
    case False
    with Cons.hyps have "s = t" by simp
    with Cons.prems have "i div prod_list ts < s" by (simp add: less_mult_imp_div_less)
    then have "Suc (i div prod_list ts) * prod_list ss \<le> s * prod_list ss"
      by (intro mult_le_mono1) simp
    with b False show ?thesis by simp
  qed
qed

lemma prod_list_pad [simp]: "prod_list (pad_shape shape target) = prod_list shape"
  by (simp add: pad_shape_def prod_list_replicate)

lemma bcast_index_pad_less:
  "broadcastable shape target \<Longrightarrow> i < prod_list target \<Longrightarrow>
     bcast_index (pad_shape shape target) target i < prod_list shape"
  using bcast_index_less [of "pad_shape shape target" target i] by (simp add: broadcastable_def)

lemma nd_broadcast_to_wf: "nd_broadcast_to a target = Inr b \<Longrightarrow> nd_wf b \<and> nd_shape b = target"
  by (auto simp: nd_broadcast_to_def res_simps nd_wf_def)

lemma sum_index_less:
  fixes j :: nat
  assumes "j < outer * inner" and "k < n"
  shows "(j div inner) * (n * inner) + k * inner + j mod inner < outer * (n * inner)"
proof -
  have inner: "0 < inner" using assms by (cases inner) auto
  have "j div inner < outer" using assms by (simp add: less_mult_imp_div_less)
  then have o: "Suc (j div inner) * (n * inner) \<le> outer * (n * inner)" by (intro mult_le_mono1) simp
  have "inner + k * inner \<le> n * inner" using mult_le_mono1 [of "Suc k" n inner] assms by simp
  moreover have "j mod inner < inner" using inner by simp
  ultimately have "k * inner + j mod inner < n * inner" by linarith
  with o show ?thesis by simp
qed

lemma prod_list_split:
  "ax < length shape \<Longrightarrow> prod_list shape = prod_list (take ax shape) * (shape ! ax * prod_list (drop (Suc ax) shape))"
  for shape :: "nat list"
  by (subst id_take_nth_drop [of ax shape]) auto

lemma nd_sum_wf: "nd_sum a axis keepdims = Inr b \<Longrightarrow> nd_wf b"
  by (auto simp: nd_sum_def res_simps nd_wf_def sum_data_def Let_def)

lemma nd_matmul_t_wf: "nd_wf (nd_matmul_t x w)"
  by (simp add: nd_matmul_t_def nd_wf_def Let_def)

lemma row_index_less: "i < r \<Longrightarrow> t < k \<Longrightarrow> i * k + t < r * k" for i :: nat
  using mult_le_mono1 [of "Suc i" r k] by simp

lemma nd_size_butlast: "nd_shape a \<noteq> [] \<Longrightarrow> nd_size a = prod_list (butlast (nd_shape a)) * last (nd_shape a)"
  using prod_list.append [of "butlast (nd_shape a)" "[last (nd_shape a)]"] by (simp add: nd_size_def)

lemma nd_last_at_wf: "nd_wf (nd_last_at a j)"
  by (simp add: nd_last_at_def nd_wf_def)

section \<open>Additivity\<close>

text \<open>\<open>splits x a b\<close>: the arrays \<open>a\<close> and \<open>b\<close> are additive shares of \<open>x\<close>.\<close>

definition splits :: "u64array \<Rightarrow> u64array \<Rightarrow> u64array \<Rightarrow> bool" where
  "splits x a b \<longleftrightarrow> nd_wf a \<and> nd_wf b \<and> nd_shape a = nd_shape b \<and> x = nd_add a b"

lemma splits_wf: "splits x a b \<Longrightarrow> nd_wf x \<and> nd_shape x = nd_shape a \<and> nd_shape b = nd_shape a"
  by (auto simp: splits_def)

lemma splits_nth:
  "splits x a b \<Longrightarrow> i < nd_size a \<Longrightarrow> nd_data x ! i = nd_data a ! i + nd_data b ! i"
  by (auto simp: splits_def nd_wf_def nd_size_def)

lemma splitsI:
  assumes "nd_wf a" "nd_wf b" "nd_wf x" "nd_shape a = nd_shape b" "nd_shape x = nd_shape a"
    and "\<And>i. i < nd_size a \<Longrightarrow> nd_data x ! i = nd_data a ! i + nd_data b ! i"
  shows "splits x a b"
  unfolding splits_def
  by (intro conjI assms nd_eq_nthI nd_wf_map2) (use assms in \<open>auto simp: nd_wf_def nd_size_def\<close>)

lemma splits_broadcast:
  assumes "splits x a b" and "nd_broadcast_to a target = Inr a'" and "nd_broadcast_to b target = Inr b'"
  shows "\<exists>x'. nd_broadcast_to x target = Inr x' \<and> splits x' a' b'"
proof -
  note w = splits_wf [OF assms(1)]
  have br: "broadcastable (nd_shape a) target" using assms(2) by (simp add: nd_broadcast_to_def res_simps)
  let ?x = "\<lparr>nd_shape = target,
     nd_data = map (\<lambda>i. nd_data x ! bcast_index (pad_shape (nd_shape a) target) target i) [0..<prod_list target]\<rparr>"
  have x: "nd_broadcast_to x target = Inr ?x" using w br by (simp add: nd_broadcast_to_def)
  have "splits ?x a' b'"
  proof (rule splitsI)
    fix i assume "i < nd_size a'"
    with nd_broadcast_to_wf [OF assms(2)] have i: "i < prod_list target" by (simp add: nd_size_def)
    with bcast_index_pad_less [OF br i] show "nd_data ?x ! i = nd_data a' ! i + nd_data b' ! i"
      using assms w by (auto simp: nd_broadcast_to_def res_simps splits_nth nd_size_def)
  qed (use nd_broadcast_to_wf [OF assms(2)] nd_broadcast_to_wf [OF assms(3)] in \<open>auto simp: nd_wf_def\<close>)
  with x show ?thesis by blast
qed

lemma sum_list_map_add:
  "sum_list (map (\<lambda>k. f k + g k) ks) = sum_list (map f ks) + (sum_list (map g ks) :: 'a::comm_monoid_add)"
  by (induction ks) (auto simp: ac_simps)

lemma sum_list_map_cong: "(\<And>k. k \<in> set ks \<Longrightarrow> f k = g k) \<Longrightarrow> sum_list (map f ks) = sum_list (map g ks)"
  by (metis map_cong)

lemma splits_sum:
  assumes "splits x a b" and "nd_sum a axis kd = Inr a'" and "nd_sum b axis kd = Inr b'"
  shows "\<exists>x'. nd_sum x axis kd = Inr x' \<and> splits x' a' b'"
proof -
  note w = splits_wf [OF assms(1)]
  obtain ax where ax: "norm_axis axis (length (nd_shape a)) = Inr ax" "ax < length (nd_shape a)"
    using assms(2) by (auto simp: nd_sum_def res_simps norm_axis_def Let_def split: if_splits)
  let ?S = "nd_shape a"
  let ?sh = "take ax ?S @ (if kd then [1] else []) @ drop (Suc ax) ?S"
  let ?x = "\<lparr>nd_shape = ?sh, nd_data = sum_data ?S ax (nd_data x)\<rparr>"
  have x: "nd_sum x axis kd = Inr ?x" and a': "a' = \<lparr>nd_shape = ?sh, nd_data = sum_data ?S ax (nd_data a)\<rparr>"
    and b': "b' = \<lparr>nd_shape = ?sh, nd_data = sum_data ?S ax (nd_data b)\<rparr>"
    using assms w ax by (auto simp: nd_sum_def)
  have sz: "nd_size a = prod_list (take ax ?S) * (?S ! ax * prod_list (drop (Suc ax) ?S))"
    using prod_list_split [OF ax(2)] by (simp add: nd_size_def)
  have "splits ?x a' b'"
  proof (rule splitsI)
    fix j assume "j < nd_size a'"
    then have j: "j < prod_list (take ax ?S) * prod_list (drop (Suc ax) ?S)"
      by (cases kd) (simp_all add: a' nd_size_def)
    have "nd_data x ! i = nd_data a ! i + nd_data b ! i"
      if "i = (j div prod_list (drop (Suc ax) ?S)) * (?S ! ax * prod_list (drop (Suc ax) ?S))
                + k * prod_list (drop (Suc ax) ?S) + j mod prod_list (drop (Suc ax) ?S)" and "k < ?S ! ax" for i k
      using sum_index_less [OF j that(2)] splits_nth [OF assms(1), of i] sz that(1) by simp
    then show "nd_data ?x ! j = nd_data a' ! j + nd_data b' ! j"
      using j by (auto simp: a' b' sum_data_def Let_def sum_list_map_add [symmetric] intro!: sum_list_map_cong)
  qed (auto simp: a' b' nd_wf_def sum_data_def Let_def)
  with x show ?thesis by blast
qed

lemma splits_matmul:
  assumes "splits x a b" and "nd_shape a \<noteq> []"
  shows "splits (nd_matmul_t x w) (nd_matmul_t a w) (nd_matmul_t b w)"
proof (rule splitsI)
  note v = splits_wf [OF assms(1)]
  let ?k = "last (nd_shape a)" and ?m = "hd (nd_shape w)" and ?r = "prod_list (butlast (nd_shape a))"
  have sz: "nd_size a = ?r * ?k" by (rule nd_size_butlast [OF assms(2)])
  fix j assume "j < nd_size (nd_matmul_t a w)"
  then have j: "j < ?r * ?m" by (simp add: nd_matmul_t_def nd_size_def Let_def)
  then have "j div ?m < ?r" by (simp add: less_mult_imp_div_less)
  then have "(j div ?m) * ?k + t < nd_size a" if "t < ?k" for t
    unfolding sz using that by (rule row_index_less)
  then show "nd_data (nd_matmul_t x w) ! j = nd_data (nd_matmul_t a w) ! j + nd_data (nd_matmul_t b w) ! j"
    using j v splits_nth [OF assms(1)]
    by (auto simp: nd_matmul_t_def Let_def sum_list_map_add [symmetric] algebra_simps intro!: sum_list_map_cong)
qed (use splits_wf [OF assms(1)] in \<open>auto simp: nd_wf_def nd_matmul_t_def Let_def\<close>)

lemma splits_last_at:
  assumes "splits x a b" and "nd_shape a \<noteq> []" and "j < last (nd_shape a)"
  shows "splits (nd_last_at x j) (nd_last_at a j) (nd_last_at b j)"
proof (rule splitsI)
  note v = splits_wf [OF assms(1)]
  let ?k = "last (nd_shape a)" and ?r = "prod_list (butlast (nd_shape a))"
  have sz: "nd_size a = ?r * ?k" by (rule nd_size_butlast [OF assms(2)])
  fix i assume "i < nd_size (nd_last_at a j)"
  then have i: "i < ?r" by (simp add: nd_last_at_def nd_size_def)
  then have "i * ?k + j < nd_size a" unfolding sz using assms(3) by (rule row_index_less)
  with i v splits_nth [OF assms(1)]
  show "nd_data (nd_last_at x j) ! i = nd_data (nd_last_at a j) ! i + nd_data (nd_last_at b j) ! i"
    by (simp add: nd_last_at_def)
qed (use splits_wf [OF assms(1)] in \<open>auto simp: nd_wf_def nd_last_at_def\<close>)

end
