(* ===== verification/Shared_Frames.thy ===== *)
theory Shared_Frames
  imports Point_Fss Ring_Tensor
begin

text \<open>
  The data of \<^verbatim>\<open>runtime/shared_mpc.py\<close>: shared tensors, public quantized matrices, Beaver triples, the
  opening frames with their wire format, the truncation masks and the states between the two
  halves of an interactive operation. Each constructor \<open>mk_X\<close> is the class with its
  \<^verbatim>\<open>__post_init__\<close>. The element type and contiguity checks of the source hold by typing here: a ring
  array is a \<^typ>\<open>u64array\<close> and a bit array a \<^typ>\<open>bool ndarray\<close>.
\<close>

section \<open>Shapes and ring arrays\<close>

definition shape_ints :: "int list \<Rightarrow> nat list res" where
  "shape_ints value =
     raise_if (value = [] \<or> list_ex (\<lambda>item. item \<le> 0) value) (SharedMPCError ''shared tensor shape is invalid'')
       (Inr (map nat value))"

abbreviation shape_of :: "nat list \<Rightarrow> nat list res" where
  "shape_of shape \<equiv> shape_ints (map int shape)"

fun bounded_elements_from :: "nat \<Rightarrow> nat list \<Rightarrow> nat \<Rightarrow> nat res" where
  "bounded_elements_from elements [] maximum = Inr elements"
| "bounded_elements_from elements (dimension # rest) maximum =
     raise_if (dimension > maximum div elements) (SharedMPCError ''shared tensor shape is too large'')
       (bounded_elements_from (elements * dimension) rest maximum)"

definition bounded_elements :: "nat list \<Rightarrow> nat \<Rightarrow> nat res" where
  "bounded_elements shape maximum = bounded_elements_from 1 shape maximum"

text \<open>An argument that the source accepts as \<^verbatim>\<open>uint64\<close> array or as signed integers.\<close>

datatype array_arg = U64Arr u64array | I64Arr i64array

definition ring_array :: "array_arg \<Rightarrow> u64array" where
  "ring_array value = (case value of U64Arr a \<Rightarrow> a | I64Arr a \<Rightarrow> ring_of_ints a)"

definition random_ring :: "nat list \<Rightarrow> entropy \<Rightarrow> (u64array \<times> entropy) res" where
  "random_ring shape e =
     bindE (shape_of shape) (\<lambda>target.
       let (bs, e') = token_bytes (prod_list target * 8) e
       in Inr (\<lparr>nd_shape = target, nd_data = frombuffer_u64 bs\<rparr>, e'))"

section \<open>Shared tensors and public matrices\<close>

record SharedTensor =
  st_session_id :: string
  st_tensor_id :: string
  st_party :: nat
  st_values :: u64array
  st_scale :: int

abbreviation st_shape :: "SharedTensor \<Rightarrow> nat list" where
  "st_shape t \<equiv> nd_shape (st_values t)"

definition mk_SharedTensor :: "string \<Rightarrow> string \<Rightarrow> nat \<Rightarrow> u64array \<Rightarrow> int \<Rightarrow> SharedTensor res" where
  "mk_SharedTensor session_id tensor_id party values scale =
     raise_if (session_id = [] \<or> tensor_id = []) (SharedMPCError ''shared tensor identifiers are required'')
    (raise_if (party \<notin> {0, 1}) (SharedMPCError ''shared tensor party must be zero or one'')
    (raise_if (nd_shape values = [] \<or> nd_size values = 0) (SharedMPCError ''shared tensor cannot be scalar or empty'')
    (raise_if (scale \<le> 0) (SharedMPCError ''shared tensor scale must be positive'')
    (Inr \<lparr>st_session_id = session_id, st_tensor_id = tensor_id, st_party = party,
          st_values = values, st_scale = scale\<rparr>))))"

record PublicQuantizedMatrix =
  qm_coefficients :: i64array
  qm_row_multipliers :: i64array
  qm_scale :: int

definition mk_PublicQuantizedMatrix :: "i64array \<Rightarrow> i64array \<Rightarrow> int \<Rightarrow> PublicQuantizedMatrix res" where
  "mk_PublicQuantizedMatrix coefficients multipliers scale =
     raise_if (list_ex (\<lambda>c. c < - 128 \<or> c > 127) (nd_data coefficients))
       (SharedMPCError ''quantized public coefficients must fit signed int8'')
    (raise_if (length (nd_shape coefficients) \<noteq> 2 \<or> nd_size coefficients = 0)
       (SharedMPCError ''quantized public matrix must be non-empty and two-dimensional'')
    (raise_if (nd_shape multipliers \<noteq> [nd_shape coefficients ! 0] \<or> list_ex (\<lambda>m. m \<le> 0) (nd_data multipliers))
       (SharedMPCError ''quantized public row multipliers are invalid'')
    (raise_if (scale \<le> 0 \<or> scale AND (scale - 1) \<noteq> 0)
       (SharedMPCError ''quantized public scale must be a positive power of two'')
    (Inr \<lparr>qm_coefficients = coefficients, qm_row_multipliers = multipliers, qm_scale = scale\<rparr>))))"

definition PublicQuantizedMatrix_unit :: "i64array \<Rightarrow> PublicQuantizedMatrix res" where
  "PublicQuantizedMatrix_unit values =
     raise_if (length (nd_shape values) \<noteq> 2) (SharedMPCError ''quantized public matrix must be two-dimensional'')
       (mk_PublicQuantizedMatrix values
          \<lparr>nd_shape = [nd_shape values ! 0], nd_data = replicate (nd_shape values ! 0) 1\<rparr> 1)"

definition matrix_row :: "'a ndarray \<Rightarrow> nat \<Rightarrow> 'a list" where
  "matrix_row m r = map (\<lambda>j. nd_data m ! (r * (nd_shape m ! 1) + j)) [0..<nd_shape m ! 1]"

definition row_weight :: "PublicQuantizedMatrix \<Rightarrow> nat \<Rightarrow> int" where
  "row_weight m r = sum_list (map abs (matrix_row (qm_coefficients m) r)) * (nd_data (qm_row_multipliers m) ! r)"

definition scaled_bound :: "PublicQuantizedMatrix \<Rightarrow> int \<Rightarrow> int res" where
  "scaled_bound m input_bound =
     raise_if (input_bound \<le> 0) (SharedMPCError ''public linear signed bound must be positive'')
       (let bound = Max (row_weight m ` {0..<nd_shape (qm_coefficients m) ! 0}) * input_bound
        in raise_if (bound \<ge> 2 ^ 62) (SharedMPCError ''quantized public linear exceeds signed truncation range'')
             (Inr bound))"

definition output_bound :: "PublicQuantizedMatrix \<Rightarrow> int \<Rightarrow> int res" where
  "output_bound m input_bound =
     bindE (scaled_bound m input_bound) (\<lambda>bound.
       Inr (if qm_scale m = 1 then bound
            else drop_bit (bit_length (nat (qm_scale m)) - 1) bound + 1))"

section \<open>Beaver triples and opening frames\<close>

record BeaverTripleShare =
  bt_session_id :: string
  bt_triple_id :: string
  bt_party :: nat
  bt_a :: u64array
  bt_b :: u64array
  bt_c :: u64array

abbreviation bt_shape :: "BeaverTripleShare \<Rightarrow> nat list" where
  "bt_shape t \<equiv> nd_shape (bt_a t)"

definition mk_BeaverTripleShare ::
  "string \<Rightarrow> string \<Rightarrow> nat \<Rightarrow> u64array \<Rightarrow> u64array \<Rightarrow> u64array \<Rightarrow> BeaverTripleShare res" where
  "mk_BeaverTripleShare session_id triple_id party a b c =
     raise_if (session_id = [] \<or> triple_id = []) (SharedMPCError ''Beaver triple identifiers are required'')
    (raise_if (party \<notin> {0, 1}) (SharedMPCError ''Beaver triple party must be zero or one'')
    (raise_if (nd_shape a \<noteq> nd_shape b \<or> nd_shape a \<noteq> nd_shape c \<or> nd_shape a = [])
       (SharedMPCError ''Beaver triple share shapes do not match'')
    (Inr \<lparr>bt_session_id = session_id, bt_triple_id = triple_id, bt_party = party,
          bt_a = a, bt_b = b, bt_c = c\<rparr>)))"

record OpeningFrame =
  of_session_id :: string
  of_operation_id :: string
  of_party :: nat
  of_d :: u64array
  of_e :: u64array

definition mk_OpeningFrame :: "string \<Rightarrow> string \<Rightarrow> nat \<Rightarrow> u64array \<Rightarrow> u64array \<Rightarrow> OpeningFrame res" where
  "mk_OpeningFrame session_id operation_id party d e =
     raise_if (session_id = [] \<or> operation_id = [] \<or> party \<notin> {0, 1})
       (SharedMPCError ''opening frame identity is invalid'')
    (raise_if (nd_shape d \<noteq> nd_shape e \<or> nd_shape d = [] \<or> nd_size d = 0)
       (SharedMPCError ''opening frame tensors are invalid'')
    (Inr \<lparr>of_session_id = session_id, of_operation_id = operation_id, of_party = party, of_d = d, of_e = e\<rparr>))"

record ValueOpeningFrame =
  vf_session_id :: string
  vf_operation_id :: string
  vf_party :: nat
  vf_value :: u64array

definition mk_ValueOpeningFrame :: "string \<Rightarrow> string \<Rightarrow> nat \<Rightarrow> u64array \<Rightarrow> ValueOpeningFrame res" where
  "mk_ValueOpeningFrame session_id operation_id party v =
     raise_if (session_id = [] \<or> operation_id = [] \<or> party \<notin> {0, 1})
       (SharedMPCError ''value opening identity is invalid'')
    (raise_if (nd_shape v = [] \<or> nd_size v = 0) (SharedMPCError ''value opening tensor is invalid'')
    (Inr \<lparr>vf_session_id = session_id, vf_operation_id = operation_id, vf_party = party, vf_value = v\<rparr>))"

section \<open>Wire format\<close>

text \<open>
  MessagePack is a library the sources call: \<open>packb\<close> and \<open>unpackb\<close> are parameters over the values
  below, and \<open>unpackb\<close> returns \<open>None\<close> where the library raises. A map is the list of its pairs;
  a later pair with the same key overrides an earlier one, as in the decoded \<^verbatim>\<open>dict\<close>.
\<close>

datatype mval =
    MNil
  | MBool bool
  | MInt int
  | MFloat
  | MStr string
  | MBin bytes
  | MArr "mval list"
  | MMap "(mval \<times> mval) list"

type_synonym packer = "mval \<Rightarrow> bytes"
type_synonym unpacker = "bytes \<Rightarrow> mval option"

definition field :: "(mval \<times> mval) list \<Rightarrow> string \<Rightarrow> mval" where
  "field kvs k = (case map_of (rev kvs) (MStr k) of Some v \<Rightarrow> v | None \<Rightarrow> MNil)"

definition fields_are :: "(mval \<times> mval) list \<Rightarrow> string list \<Rightarrow> bool" where
  "fields_are kvs names \<longleftrightarrow> set (map fst kvs) = MStr ` set names"

fun mint_list :: "mval list \<Rightarrow> int list option" where
  "mint_list [] = Some []"
| "mint_list (MInt i # vs) = map_option ((#) i) (mint_list vs)"
| "mint_list (_ # vs) = None"

definition shape_value :: "mval \<Rightarrow> nat list res" where
  "shape_value value =
     (case value of
        MArr vs \<Rightarrow> (case mint_list vs of
                     Some is \<Rightarrow> shape_ints is
                   | None \<Rightarrow> Inl (SharedMPCError ''shared tensor shape is invalid''))
      | _ \<Rightarrow> Inl (SharedMPCError ''shared tensor shape is invalid''))"

definition bytes_field :: "mval \<Rightarrow> nat \<Rightarrow> py_error \<Rightarrow> bytes res" where
  "bytes_field value expected err =
     (case value of MBin bs \<Rightarrow> raise_if (length bs \<noteq> expected) err (Inr bs) | _ \<Rightarrow> Inl err)"

definition str_field :: "mval \<Rightarrow> py_error \<Rightarrow> string res" where
  "str_field value err = (case value of MStr s \<Rightarrow> Inr s | _ \<Rightarrow> Inl err)"

definition party_field :: "mval \<Rightarrow> py_error \<Rightarrow> nat res" where
  "party_field value err = (case value of MInt i \<Rightarrow> raise_if (i \<notin> {0, 1}) err (Inr (nat i)) | _ \<Rightarrow> Inl err)"

definition u64_reshape :: "bytes \<Rightarrow> nat list \<Rightarrow> u64array" where
  "u64_reshape bs shape = \<lparr>nd_shape = shape, nd_data = frombuffer_u64 bs\<rparr>"

definition max_opening_elements :: nat where
  "max_opening_elements = 16777216"

definition OpeningFrame_doc :: "OpeningFrame \<Rightarrow> mval" where
  "OpeningFrame_doc f = MMap
     [(MStr ''v'', MInt 1), (MStr ''s'', MStr (of_session_id f)), (MStr ''o'', MStr (of_operation_id f)),
      (MStr ''p'', MInt (int (of_party f))),
      (MStr ''h'', MArr (map (\<lambda>n. MInt (int n)) (nd_shape (of_d f)))),
      (MStr ''d'', MBin (tobytes_u64 (nd_data (of_d f)))), (MStr ''e'', MBin (tobytes_u64 (nd_data (of_e f))))]"

definition OpeningFrame_pack :: "packer \<Rightarrow> OpeningFrame \<Rightarrow> bytes" where
  "OpeningFrame_pack packb f = packb (OpeningFrame_doc f)"

definition OpeningFrame_unpack :: "unpacker \<Rightarrow> bytes \<Rightarrow> nat \<Rightarrow> OpeningFrame res" where
  "OpeningFrame_unpack unpackb payload max_elements =
     raise_if (payload = [] \<or> length payload > max_elements * 16 + 4096)
       (SharedMPCError ''opening frame is empty or too large'')
     (case unpackb payload of
        None \<Rightarrow> Inl (SharedMPCError ''opening frame is malformed'')
      | Some (MMap kvs) \<Rightarrow>
          raise_if (\<not> fields_are kvs [''v'', ''s'', ''o'', ''p'', ''h'', ''d'', ''e''])
            (SharedMPCError ''opening frame fields are invalid'')
         (raise_if (field kvs ''v'' \<noteq> MInt 1) (SharedMPCError ''opening frame version is unsupported'')
         (bindE (shape_value (field kvs ''h'')) (\<lambda>shape.
          bindE (bounded_elements shape max_elements) (\<lambda>elements.
          bindE (bytes_field (field kvs ''d'') (elements * 8) (SharedMPCError ''opening frame d payload is invalid'')) (\<lambda>d.
          bindE (bytes_field (field kvs ''e'') (elements * 8) (SharedMPCError ''opening frame e payload is invalid'')) (\<lambda>e.
          bindE (str_field (field kvs ''s'') (SharedMPCError ''opening frame identifiers are invalid'')) (\<lambda>s.
          bindE (str_field (field kvs ''o'') (SharedMPCError ''opening frame identifiers are invalid'')) (\<lambda>oid.
          bindE (party_field (field kvs ''p'') (SharedMPCError ''opening frame party is invalid'')) (\<lambda>party.
            mk_OpeningFrame s oid party (u64_reshape d shape) (u64_reshape e shape))))))))))
      | Some _ \<Rightarrow> Inl (SharedMPCError ''opening frame fields are invalid''))"

definition ValueOpeningFrame_doc :: "ValueOpeningFrame \<Rightarrow> mval" where
  "ValueOpeningFrame_doc f = MMap
     [(MStr ''v'', MInt 1), (MStr ''s'', MStr (vf_session_id f)), (MStr ''o'', MStr (vf_operation_id f)),
      (MStr ''p'', MInt (int (vf_party f))),
      (MStr ''h'', MArr (map (\<lambda>n. MInt (int n)) (nd_shape (vf_value f)))),
      (MStr ''x'', MBin (tobytes_u64 (nd_data (vf_value f))))]"

definition ValueOpeningFrame_pack :: "packer \<Rightarrow> ValueOpeningFrame \<Rightarrow> bytes" where
  "ValueOpeningFrame_pack packb f = packb (ValueOpeningFrame_doc f)"

definition ValueOpeningFrame_unpack :: "unpacker \<Rightarrow> bytes \<Rightarrow> nat \<Rightarrow> ValueOpeningFrame res" where
  "ValueOpeningFrame_unpack unpackb payload max_elements =
     raise_if (payload = [] \<or> length payload > max_elements * 8 + 8192)
       (SharedMPCError ''value opening frame is empty or too large'')
     (case unpackb payload of
        None \<Rightarrow> Inl (SharedMPCError ''value opening frame is malformed'')
      | Some (MMap kvs) \<Rightarrow>
          raise_if (\<not> fields_are kvs [''v'', ''s'', ''o'', ''p'', ''h'', ''x''])
            (SharedMPCError ''value opening frame fields are invalid'')
         (raise_if (field kvs ''v'' \<noteq> MInt 1) (SharedMPCError ''value opening frame version is unsupported'')
         (bindE (shape_value (field kvs ''h'')) (\<lambda>shape.
          bindE (bounded_elements shape max_elements) (\<lambda>elements.
          bindE (bytes_field (field kvs ''x'') (elements * 8) (SharedMPCError ''value opening frame payload is invalid'')) (\<lambda>x.
          bindE (str_field (field kvs ''s'') (SharedMPCError ''value opening frame identifiers are invalid'')) (\<lambda>s.
          bindE (str_field (field kvs ''o'') (SharedMPCError ''value opening frame identifiers are invalid'')) (\<lambda>oid.
          bindE (party_field (field kvs ''p'') (SharedMPCError ''value opening frame party is invalid'')) (\<lambda>party.
            mk_ValueOpeningFrame s oid party (u64_reshape x shape)))))))))
      | Some _ \<Rightarrow> Inl (SharedMPCError ''value opening frame fields are invalid''))"

section \<open>Truncation masks\<close>

record TruncationMaskShare =
  tm_session_id :: string
  tm_mask_id :: string
  tm_party :: nat
  tm_bits :: nat
  tm_random_bits :: nat
  tm_maximum_magnitude :: int
  tm_session_security_bits :: int
  tm_per_element_security_bits :: int
  tm_opened_element_budget :: int
  tm_value :: u64array
  tm_shifted :: u64array

text \<open>
  \<^verbatim>\<open>ceil(log2(budget))\<close> is computed in floating point by the source; it is exact for every budget
  that the bound on the random bits leaves possible.
\<close>

definition TruncationMaskShare_check :: "TruncationMaskShare \<Rightarrow> TruncationMaskShare res" where
  "TruncationMaskShare_check m =
     raise_if (tm_session_id m = [] \<or> tm_mask_id m = [] \<or> tm_party m \<notin> {0, 1})
       (SharedMPCError ''truncation mask identity is invalid'')
    (raise_if (\<not> (0 < tm_bits m \<and> tm_bits m < 63)) (SharedMPCError ''truncation mask bit count is invalid'')
    (raise_if (tm_opened_element_budget m \<le> 0) (SharedMPCError ''truncation mask security accounting is invalid'')
    (let required = tm_session_security_bits m + int (ceil_log2 (nat (tm_opened_element_budget m))) in
     raise_if (tm_maximum_magnitude m \<le> 0) (SharedMPCError ''truncation mask magnitude is invalid'')
    (raise_if (tm_session_security_bits m < 16 \<or> tm_per_element_security_bits m < required
         \<or> \<not> (tm_bits m < tm_random_bits m \<and> tm_random_bits m \<le> 61)
         \<or> int (tm_random_bits m) \<le> tm_per_element_security_bits m
         \<or> tm_maximum_magnitude m > 2 ^ nat (int (tm_random_bits m) - tm_per_element_security_bits m))
       (SharedMPCError ''truncation mask security accounting is invalid'')
    (raise_if (nd_shape (tm_value m) \<noteq> nd_shape (tm_shifted m) \<or> nd_shape (tm_value m) = [])
       (SharedMPCError ''truncation mask tensors are invalid'')
    (Inr m))))))"

record ExactTruncationMaskShare =
  xm_session_id :: string
  xm_mask_id :: string
  xm_party :: nat
  xm_bits :: nat
  xm_opened_element_budget :: int
  xm_value :: u64array
  xm_shifted :: u64array
  xm_low_bit_shares :: u64array
  xm_sign_bit_share :: u64array

definition ExactTruncationMaskShare_check :: "ExactTruncationMaskShare \<Rightarrow> ExactTruncationMaskShare res" where
  "ExactTruncationMaskShare_check m =
     raise_if (xm_session_id m = [] \<or> xm_mask_id m = [] \<or> xm_party m \<notin> {0, 1})
       (SharedMPCError ''exact truncation mask identity is invalid'')
    (raise_if (\<not> (0 < xm_bits m \<and> xm_bits m < 63) \<or> xm_opened_element_budget m \<le> 0)
       (SharedMPCError ''exact truncation mask budget or bit width is invalid'')
    (raise_if (nd_shape (xm_value m) = [] \<or> nd_size (xm_value m) = 0
         \<or> nd_size (xm_value m) > 1048576 div xm_bits m
         \<or> nd_shape (xm_shifted m) \<noteq> nd_shape (xm_value m)
         \<or> nd_shape (xm_low_bit_shares m) \<noteq> nd_shape (xm_value m) @ [xm_bits m]
         \<or> nd_shape (xm_sign_bit_share m) \<noteq> nd_shape (xm_value m))
       (SharedMPCError ''exact truncation mask tensors are invalid'')
    (Inr m)))"

record FssTruncationMaskShare =
  fm_session_id :: string
  fm_mask_id :: string
  fm_party :: nat
  fm_bits :: nat
  fm_opened_element_budget :: int
  fm_value :: u64array
  fm_shifted :: u64array
  fm_sign_bit_share :: u64array
  fm_comparison_keys :: "PointKeyShare list"
  fm_xor_mask_share :: "bool ndarray"
  fm_ring_mask_share :: u64array
  fm_comparison_bits :: nat
  fm_high_bit_shares :: u64array

definition fss_gate_id :: "string \<Rightarrow> nat \<Rightarrow> string" where
  "fss_gate_id mask_id index = mask_id @ ''.'' @ str_nat index"

definition FssTruncationMaskShare_check :: "FssTruncationMaskShare \<Rightarrow> FssTruncationMaskShare res" where
  "FssTruncationMaskShare_check m =
     raise_if (fm_session_id m = [] \<or> fm_mask_id m = [] \<or> fm_party m \<notin> {0, 1})
       (SharedMPCError ''FSS truncation mask identity is invalid'')
    (raise_if (\<not> (0 < fm_bits m \<and> fm_bits m < 63)
         \<or> \<not> (0 < fm_comparison_bits m \<and> fm_comparison_bits m \<le> min 10 (fm_bits m))
         \<or> (fm_bits m \<le> 10 \<and> fm_comparison_bits m \<noteq> fm_bits m))
       (SharedMPCError ''FSS truncation comparison width is unsupported'')
    (raise_if (fm_opened_element_budget m \<le> 0) (SharedMPCError ''FSS truncation opening budget is invalid'')
    (raise_if (nd_shape (fm_value m) = [] \<or> nd_size (fm_value m) = 0 \<or> nd_size (fm_value m) > 1048576 div fm_bits m)
       (SharedMPCError ''FSS truncation mask exceeds the bounded uint64 tensor contract'')
    (raise_if (nd_shape (fm_shifted m) \<noteq> nd_shape (fm_value m) \<or> nd_shape (fm_sign_bit_share m) \<noteq> nd_shape (fm_value m)
         \<or> nd_shape (fm_ring_mask_share m) \<noteq> nd_shape (fm_value m))
       (SharedMPCError ''FSS truncation ring shares have invalid shape or type'')
    (raise_if (nd_shape (fm_high_bit_shares m) \<noteq> nd_shape (fm_value m) @ [fm_bits m - fm_comparison_bits m])
       (SharedMPCError ''FSS high-bit carry shares have invalid shape or type'')
    (raise_if (nd_shape (fm_xor_mask_share m) \<noteq> nd_shape (fm_value m))
       (SharedMPCError ''FSS truncation bit share has invalid shape or type'')
    (raise_if (length (fm_comparison_keys m) \<noteq> nd_size (fm_value m)
         \<or> list_ex (\<lambda>(index, key). pk_session_id key \<noteq> fm_session_id m \<or> pk_party key \<noteq> fm_party m
               \<or> pk_bits key \<noteq> fm_comparison_bits m \<or> pk_gate_id key \<noteq> fss_gate_id (fm_mask_id m) index)
             (enumerate 0 (fm_comparison_keys m)))
       (SharedMPCError ''FSS truncation comparison keys do not match mask'')
    (Inr m))))))))"

definition FssTruncationMaskShare_key_bytes :: "FssTruncationMaskShare \<Rightarrow> nat" where
  "FssTruncationMaskShare_key_bytes m = sum_list (map key_bytes (fm_comparison_keys m))"

text \<open>The mask of an exact truncation is of either kind.\<close>

datatype exact_mask = ExactMask ExactTruncationMaskShare | FssMask FssTruncationMaskShare

fun em_session_id :: "exact_mask \<Rightarrow> string" where
  "em_session_id (ExactMask m) = xm_session_id m"
| "em_session_id (FssMask m) = fm_session_id m"

fun em_mask_id :: "exact_mask \<Rightarrow> string" where
  "em_mask_id (ExactMask m) = xm_mask_id m"
| "em_mask_id (FssMask m) = fm_mask_id m"

fun em_party :: "exact_mask \<Rightarrow> nat" where
  "em_party (ExactMask m) = xm_party m"
| "em_party (FssMask m) = fm_party m"

fun em_bits :: "exact_mask \<Rightarrow> nat" where
  "em_bits (ExactMask m) = xm_bits m"
| "em_bits (FssMask m) = fm_bits m"

fun em_opened_element_budget :: "exact_mask \<Rightarrow> int" where
  "em_opened_element_budget (ExactMask m) = xm_opened_element_budget m"
| "em_opened_element_budget (FssMask m) = fm_opened_element_budget m"

fun em_value :: "exact_mask \<Rightarrow> u64array" where
  "em_value (ExactMask m) = xm_value m"
| "em_value (FssMask m) = fm_value m"

fun em_shifted :: "exact_mask \<Rightarrow> u64array" where
  "em_shifted (ExactMask m) = xm_shifted m"
| "em_shifted (FssMask m) = fm_shifted m"

fun em_sign_bit_share :: "exact_mask \<Rightarrow> u64array" where
  "em_sign_bit_share (ExactMask m) = xm_sign_bit_share m"
| "em_sign_bit_share (FssMask m) = fm_sign_bit_share m"

section \<open>States between the halves of an interactive operation\<close>

record MultiplicationState =
  ms_operation_id :: string
  ms_triple :: BeaverTripleShare
  ms_output_scale :: int

record TruncationState =
  ts_operation_id :: string
  ts_mask :: TruncationMaskShare
  ts_output_scale :: int
  ts_offset :: nat

record ExactTruncationState =
  es_operation_id :: string
  es_mask :: exact_mask
  es_output_scale :: int

record SharedMPCStats =
  multiplication_rounds :: nat
  opened_elements :: nat
  uploaded_bytes :: nat
  downloaded_bytes :: nat

section \<open>Shapes\<close>

abbreviation shape_ok :: "nat list \<Rightarrow> bool" where
  "shape_ok shape \<equiv> shape \<noteq> [] \<and> list_all (\<lambda>d. 0 < d) shape"

lemma shape_of_ok: "shape_of shape = (if shape_ok shape then Inr shape else Inl (SharedMPCError ''shared tensor shape is invalid''))"
  by (auto simp: shape_ints_def raise_if_def list_ex_iff list_all_iff comp_def)

lemma shape_ints_Inr: "shape_ints is = Inr shape \<Longrightarrow> shape_ok shape \<and> is = map int shape"
proof -
  assume a: "shape_ints is = Inr shape"
  then have s: "shape = map nat is" and pos: "\<forall>i \<in> set is. 0 < i" and ne: "is \<noteq> []"
    by (auto simp: shape_ints_def res_simps list_ex_iff)
  have "map (\<lambda>i. int (nat i)) is = is" using pos by (intro map_idI) auto
  with s pos ne show ?thesis by (auto simp: list_all_iff comp_def)
qed

lemma prod_list_pos: "list_all (\<lambda>d. 0 < d) shape \<Longrightarrow> 0 < prod_list (shape :: nat list)"
  by (induction shape) auto

lemma prod_list_zero: "prod_list shape \<noteq> 0 \<Longrightarrow> list_all (\<lambda>d. 0 < d) (shape :: nat list)"
  by (induction shape) auto

lemma bounded_elements_from_ok:
  "0 < e \<Longrightarrow> list_all (\<lambda>d. 0 < d) shape \<Longrightarrow> e * prod_list shape \<le> maximum \<Longrightarrow>
     bounded_elements_from e shape maximum = Inr (e * prod_list shape)"
proof (induction shape arbitrary: e)
  case (Cons d ds)
  have "1 \<le> prod_list ds" using Cons.prems(2) prod_list_pos [of ds] by simp
  then have "d * e * 1 \<le> d * e * prod_list ds" by (intro mult_le_mono2)
  also have "d * e * prod_list ds = e * prod_list (d # ds)" by (simp add: mult.commute mult.left_commute)
  also note Cons.prems(3)
  finally have "d * e \<le> maximum" by simp
  with Cons.prems(1) have "d \<le> maximum div e" by (simp add: less_eq_div_iff_mult_less_eq)
  with Cons show ?case by (simp add: mult.assoc)
qed simp

lemma bounded_elements_ok:
  "list_all (\<lambda>d. 0 < d) shape \<Longrightarrow> prod_list shape \<le> maximum \<Longrightarrow>
     bounded_elements shape maximum = Inr (prod_list shape)"
  using bounded_elements_from_ok [of 1 shape maximum] by (simp add: bounded_elements_def)

lemma bounded_elements_from_bound:
  "0 < e \<Longrightarrow> e \<le> maximum \<Longrightarrow> list_all (\<lambda>d. 0 < d) shape \<Longrightarrow>
     bounded_elements_from e shape maximum = Inr n \<Longrightarrow> n = e * prod_list shape \<and> n \<le> maximum"
proof (induction shape arbitrary: e)
  case (Cons d ds)
  from Cons.prems have "e * d \<le> maximum"
    by (simp add: res_simps less_eq_div_iff_mult_less_eq mult.commute not_less)
  with Cons.IH [of "e * d"] Cons.prems show ?case by (simp add: res_simps mult.assoc)
qed simp

lemma bounded_elements_bound:
  "shape_ok shape \<Longrightarrow> bounded_elements shape maximum = Inr n \<Longrightarrow> n = prod_list shape \<and> n \<le> maximum"
proof (cases "1 \<le> maximum")
  case True
  then show "shape_ok shape \<Longrightarrow> bounded_elements shape maximum = Inr n \<Longrightarrow> ?thesis"
    using bounded_elements_from_bound [of 1 maximum shape n] by (simp add: bounded_elements_def)
next
  case False
  then show "shape_ok shape \<Longrightarrow> bounded_elements shape maximum = Inr n \<Longrightarrow> ?thesis"
    by (cases shape) (auto simp: bounded_elements_def res_simps)
qed

lemma random_ring_ok:
  "shape_ok shape \<Longrightarrow> \<exists>a e'. random_ring shape e = Inr (a, e') \<and> nd_shape a = shape \<and> nd_wf a"
  by (auto simp: random_ring_def shape_of_ok token_bytes_def nd_wf_def length_frombuffer_u64 mult.commute)

section \<open>Wire round trips\<close>

lemma mint_list_ints [simp]: "mint_list (map (\<lambda>n. MInt (int n)) ns) = Some (map int ns)"
  by (induction ns) auto

lemma shape_value_ok: "shape_ok shape \<Longrightarrow> shape_value (MArr (map (\<lambda>n. MInt (int n)) shape)) = Inr shape"
  by (simp add: shape_value_def shape_of_ok)

lemma shape_value_Inr: "shape_value v = Inr shape \<Longrightarrow> shape_ok shape"
  by (auto simp: shape_value_def dest: shape_ints_Inr split: mval.splits option.splits)

lemma bytes_field_Inr: "bytes_field v n err = Inr bs \<longleftrightarrow> v = MBin bs \<and> length bs = n"
  by (auto simp: bytes_field_def res_simps split: mval.splits)

lemma u64_reshape_wf: "length bs = prod_list shape * 8 \<Longrightarrow> nd_wf (u64_reshape bs shape)"
  by (simp add: u64_reshape_def nd_wf_def length_frombuffer_u64 mult.commute)

lemma u64_reshape_tobytes [simp]: "nd_shape a = shape \<Longrightarrow> u64_reshape (tobytes_u64 (nd_data a)) shape = a" for a :: u64array
  by (simp add: u64_reshape_def)

lemma party_field_int [simp]: "p \<in> {0, 1} \<Longrightarrow> party_field (MInt (int p)) err = Inr p"
  by (auto simp: party_field_def)

lemma str_field_str [simp]: "str_field (MStr s) err = Inr s"
  by (simp add: str_field_def)

lemma bytes_field_bin [simp]: "length bs = n \<Longrightarrow> bytes_field (MBin bs) n err = Inr bs"
  by (simp add: bytes_field_Inr)

text \<open>
  Any payload that \<^verbatim>\<open>ValueOpeningFrame.unpack\<close> accepts, whatever the decoder returned, is a frame
  with a valid identity whose tensor has positive dimensions, exactly as many elements as its shape
  says, and at most \<open>max_elements\<close> of them.
\<close>

lemma value_frame_unpack_valid:
  assumes "ValueOpeningFrame_unpack unpackb payload max_elements = Inr f"
  shows "vf_session_id f \<noteq> [] \<and> vf_operation_id f \<noteq> [] \<and> vf_party f \<in> {0, 1}
    \<and> nd_wf (vf_value f) \<and> shape_ok (nd_shape (vf_value f)) \<and> nd_size (vf_value f) \<le> max_elements"
proof -
  from assms obtain kvs shape elements x s oid party where
    sh: "shape_value (field kvs ''h'') = Inr shape" and el: "bounded_elements shape max_elements = Inr elements"
    and x: "bytes_field (field kvs ''x'') (elements * 8) (SharedMPCError ''value opening frame payload is invalid'') = Inr x"
    and f: "mk_ValueOpeningFrame s oid party (u64_reshape x shape) = Inr f"
    by (auto simp: ValueOpeningFrame_unpack_def res_simps split: option.splits mval.splits)
  note ok = shape_value_Inr [OF sh]
  note b = bounded_elements_bound [OF ok el]
  have "length x = prod_list shape * 8" using x b by (simp add: bytes_field_Inr)
  from u64_reshape_wf [OF this] f ok b show ?thesis
    by (auto simp: mk_ValueOpeningFrame_def res_simps u64_reshape_def nd_size_def)
qed

definition demo_nd :: "nat list \<Rightarrow> 'a list \<Rightarrow> 'a ndarray" where
  "demo_nd shape xs = \<lparr>nd_shape = shape, nd_data = xs\<rparr>"

definition demo_value_frame :: ValueOpeningFrame where
  "demo_value_frame = \<lparr>vf_session_id = ''s'', vf_operation_id = ''op'', vf_party = 0, vf_value = demo_nd [1, 2] [5, 7]\<rparr>"

lemma demo_value_unpack:
  "ValueOpeningFrame_unpack (\<lambda>_. Some (ValueOpeningFrame_doc demo_value_frame)) [1] 4 = Inr demo_value_frame"
  by (simp add: ValueOpeningFrame_unpack_def ValueOpeningFrame_doc_def demo_value_frame_def demo_nd_def fields_are_def field_def
      shape_value_def shape_ints_def bounded_elements_def u64_reshape_def mk_ValueOpeningFrame_def nd_size_def party_field_def
      del: tobytes_u64.simps)

lemma opening_frame_decode:
  assumes "mk_OpeningFrame s oid p d e = Inr f" and "nd_wf d" and "nd_wf e" and "nd_size d \<le> max_elements"
    and "unpackb (packb (OpeningFrame_doc f)) = Some (OpeningFrame_doc f)"
    and "0 < length (packb (OpeningFrame_doc f))" and "length (packb (OpeningFrame_doc f)) \<le> max_elements * 16 + 4096"
  shows "OpeningFrame_unpack unpackb (OpeningFrame_pack packb f) max_elements = Inr f"
proof -
  have f: "f = \<lparr>of_session_id = s, of_operation_id = oid, of_party = p, of_d = d, of_e = e\<rparr>"
    and p: "p \<in> {0, 1}" and sh: "nd_shape e = nd_shape d" and ok: "shape_ok (nd_shape d)"
    using assms(1) by (auto simp: mk_OpeningFrame_def res_simps nd_size_def prod_list_zero)
  have el: "bounded_elements (nd_shape d) max_elements = Inr (nd_size d)"
    using bounded_elements_ok [of "nd_shape d" max_elements] ok assms(4) by (simp add: nd_size_def)
  have len: "length (nd_data d) = nd_size d" "length (nd_data e) = nd_size d"
    using assms(2,3) sh by (simp_all add: nd_wf_def nd_size_def)
  show ?thesis
    using assms(1,5-7) p el len shape_value_ok [OF ok] sh
    by (simp add: OpeningFrame_unpack_def OpeningFrame_pack_def) (simp add: f OpeningFrame_doc_def fields_are_def field_def)
qed

lemma value_frame_decode:
  assumes "mk_ValueOpeningFrame s oid p v = Inr f" and "nd_wf v" and "nd_size v \<le> max_elements"
    and "unpackb (packb (ValueOpeningFrame_doc f)) = Some (ValueOpeningFrame_doc f)"
    and "0 < length (packb (ValueOpeningFrame_doc f))" and "length (packb (ValueOpeningFrame_doc f)) \<le> max_elements * 8 + 8192"
  shows "ValueOpeningFrame_unpack unpackb (ValueOpeningFrame_pack packb f) max_elements = Inr f"
proof -
  have f: "f = \<lparr>vf_session_id = s, vf_operation_id = oid, vf_party = p, vf_value = v\<rparr>"
    and p: "p \<in> {0, 1}" and ok: "shape_ok (nd_shape v)"
    using assms(1) by (auto simp: mk_ValueOpeningFrame_def res_simps nd_size_def prod_list_zero)
  have el: "bounded_elements (nd_shape v) max_elements = Inr (nd_size v)"
    using bounded_elements_ok [of "nd_shape v" max_elements] ok assms(3) by (simp add: nd_size_def)
  have len: "length (nd_data v) = nd_size v" using assms(2) by (simp add: nd_wf_def nd_size_def)
  show ?thesis
    using assms(1,4-6) p el len shape_value_ok [OF ok]
    by (simp add: ValueOpeningFrame_unpack_def ValueOpeningFrame_pack_def)
      (simp add: f ValueOpeningFrame_doc_def fields_are_def field_def)
qed

section \<open>Bounds of public matrices\<close>

lemma pow2_of_and_pred:
  assumes "0 < n" and "int n AND (int n - 1) = 0"
  shows "n = 2 ^ (bit_length n - 1)"
proof (rule ccontr)
  let ?k = "bit_length n - 1"
  assume ne: "n \<noteq> 2 ^ ?k"
  have bl: "0 < bit_length n" using assms(1) by (subst bit_length.simps) simp
  have up: "n < 2 * 2 ^ ?k" using bit_length_less [of n] bl
    by (metis Suc_diff_1 power_Suc)
  have lo: "2 ^ ?k \<le> n" using bit_length_lower [OF assms(1)] .
  with ne have lt: "2 ^ ?k \<le> n - 1" "n - 1 < 2 * 2 ^ ?k" using up by auto
  have "n div 2 ^ ?k = 1" "(n - 1) div 2 ^ ?k = 1"
    using up lo lt by (auto simp: div_nat_eqI)
  then have "bit n ?k" "bit (n - 1) ?k" by (simp_all add: bit_iff_odd)
  then have "bit (int n) ?k" "bit (int (n - 1)) ?k" by (simp_all only: bit_of_nat_iff_bit possible_bit_int simp_thms)
  moreover have "int (n - 1) = int n - 1" using assms(1) by simp
  ultimately have "bit (int n) ?k" "bit (int n - 1) ?k" by simp_all
  then have "bit (int n AND (int n - 1)) ?k" by (simp add: bit_and_iff)
  with assms(2) show False by simp
qed


lemma sum_abs_bound:
  fixes cs xs :: "int list"
  assumes "length cs = length xs" and "\<forall>x \<in> set xs. \<bar>x\<bar> \<le> B"
  shows "\<bar>sum_list (map2 (*) cs xs)\<bar> \<le> sum_list (map abs cs) * B"
  using assms
proof (induction cs xs rule: list_induct2)
  case (Cons c cs x xs)
  have "\<bar>c * x\<bar> \<le> \<bar>c\<bar> * B" using Cons.prems by (simp add: abs_mult mult_left_mono)
  with Cons.IH Cons.prems show ?case by (simp add: algebra_simps)
qed simp

lemma div_pow_abs:
  fixes v :: int
  assumes "\<bar>v\<bar> \<le> b"
  shows "\<bar>v div 2 ^ k\<bar> \<le> b div 2 ^ k + 1" "\<bar>v div 2 ^ k + 1\<bar> \<le> b div 2 ^ k + 1"
proof -
  have "v div 2 ^ k \<le> b div 2 ^ k" using assms by (intro zdiv_mono1) auto
  moreover have "(- b) div 2 ^ k \<le> v div 2 ^ k" using assms by (intro zdiv_mono1) auto
  moreover have "- (b div 2 ^ k) - 1 \<le> (- b) div 2 ^ k" by (simp add: zdiv_zminus1_eq_if)
  moreover have "0 \<le> b div 2 ^ k" using assms by (simp add: pos_imp_zdiv_nonneg_iff)
  ultimately show "\<bar>v div 2 ^ k\<bar> \<le> b div 2 ^ k + 1" "\<bar>v div 2 ^ k + 1\<bar> \<le> b div 2 ^ k + 1"
    by (simp_all add: abs_le_iff)
qed

text \<open>
  The bounds of a public quantized matrix are sound. For every row and every input whose entries
  are at most the input bound in absolute value, the scaled row product stays below \<open>2 ^ 62\<close>, where
  exact truncation is defined, and its quotient by the scale, rounded down or up by one, is
  within the declared output bound.
\<close>

lemma quantized_row_bound:
  assumes "mk_PublicQuantizedMatrix C M sc = Inr m" and "output_bound m B = Inr ob"
    and "r < nd_shape C ! 0" and "length xs = nd_shape C ! 1" and "\<forall>x \<in> set xs. \<bar>x\<bar> \<le> B"
    and "v = sum_list (map2 (*) (matrix_row C r) xs) * (nd_data M ! r)" and "nd_wf M"
  shows "\<bar>v\<bar> < 2 ^ 62 \<and> (sc = 1 \<longrightarrow> \<bar>v\<bar> \<le> ob) \<and> (sc \<noteq> 1 \<longrightarrow> \<bar>v div sc\<bar> \<le> ob \<and> \<bar>v div sc + 1\<bar> \<le> ob)"
proof -
  have m: "m = \<lparr>qm_coefficients = C, qm_row_multipliers = M, qm_scale = sc\<rparr>"
    and Mpos: "\<forall>x \<in> set (nd_data M). 0 < x" and Msh: "nd_shape M = [nd_shape C ! 0]"
    and sc: "0 < sc" "sc AND (sc - 1) = 0"
    using assms(1) by (auto simp: mk_PublicQuantizedMatrix_def res_simps list_ex_iff not_le)
  obtain bound where B: "0 < B" and bd: "bound = Max (row_weight m ` {0..<nd_shape C ! 0}) * B" "bound < 2 ^ 62"
    and ob: "ob = (if sc = 1 then bound else drop_bit (bit_length (nat sc) - 1) bound + 1)"
    using assms(2) by (auto simp: output_bound_def scaled_bound_def res_simps Let_def m not_le)
  have Mr: "0 < nd_data M ! r" using Mpos Msh assms(3,7) by (simp add: nd_wf_def)
  have "\<bar>v\<bar> = \<bar>sum_list (map2 (*) (matrix_row C r) xs)\<bar> * (nd_data M ! r)" using Mr by (simp add: assms(6) abs_mult)
  also have "\<dots> \<le> (sum_list (map abs (matrix_row C r)) * B) * (nd_data M ! r)"
    using Mr assms(4,5) by (intro mult_right_mono sum_abs_bound) (auto simp: matrix_row_def)
  also have "\<dots> = row_weight m r * B" by (simp add: row_weight_def m)
  also have "\<dots> \<le> bound" unfolding bd using B assms(3) by (intro mult_right_mono Max_ge) auto
  finally have v: "\<bar>v\<bar> \<le> bound" .
  have "nat sc = 2 ^ (bit_length (nat sc) - 1)" using pow2_of_and_pred [of "nat sc"] sc by simp
  then have "sc = 2 ^ (bit_length (nat sc) - 1)" using sc by (metis int_nat_eq less_imp_le of_nat_numeral of_nat_power)
  with div_pow_abs [OF v, of "bit_length (nat sc) - 1"]
  have "\<bar>v div sc\<bar> \<le> bound div sc + 1" "\<bar>v div sc + 1\<bar> \<le> bound div sc + 1"
    "drop_bit (bit_length (nat sc) - 1) bound = bound div sc"
    by (metis drop_bit_eq_div)+
  with v bd(2) ob show ?thesis by auto
qed

end
