(* ===== verification/Burn_Ledger.thy ===== *)
theory Burn_Ledger
  imports Prelude
begin

text \<open>
  The burn ledgers of \<^verbatim>\<open>runtime/shared_mpc.py\<close>: the protocol \<^verbatim>\<open>BurnLedger\<close>, the bounded
  process-local \<^verbatim>\<open>PreprocessingBurnLedger\<close> and the restart-durable \<^verbatim>\<open>SQLitePreprocessingBurnLedger\<close>.
  The protocol's promise is the locale \<open>burn_ledger\<close>, both implementations are interpretations of
  it, and the two agree step by step while the process-local one is below its capacity.
\<close>

section \<open>The process-local ledger\<close>

type_synonym burn_key = "string \<times> nat \<times> string \<times> string"
type_synonym profile = "int \<times> int \<times> int"

abbreviation profile_budget :: "profile \<Rightarrow> int" where
  "profile_budget pr \<equiv> snd (snd pr)"

text \<open>\<open>Burn\<close> operations return the new ledger with the outcome; an exception is an \<open>Inl\<close>.\<close>

record 'l burn_ops =
  bl_burn :: "'l \<Rightarrow> string \<Rightarrow> nat \<Rightarrow> string \<Rightarrow> string \<Rightarrow> 'l \<times> unit res"
  bl_burn_truncation :: "'l \<Rightarrow> string \<Rightarrow> nat \<Rightarrow> string \<Rightarrow> profile \<Rightarrow> int \<Rightarrow> 'l \<times> unit res"

record mem_ledger =
  ml_capacity :: int
  ml_burned :: "burn_key set"
  ml_truncation :: "(string \<times> nat) \<rightharpoonup> (profile \<times> int)"

definition mem_ledger_init :: "int \<Rightarrow> mem_ledger res" where
  "mem_ledger_init capacity =
     raise_if (capacity \<le> 0) (SharedMPCError ''preprocessing burn-ledger capacity must be positive'')
       (Inr \<lparr>ml_capacity = capacity, ml_burned = {}, ml_truncation = Map.empty\<rparr>)"

definition mem_burn :: "mem_ledger \<Rightarrow> string \<Rightarrow> nat \<Rightarrow> string \<Rightarrow> string \<Rightarrow> mem_ledger \<times> unit res" where
  "mem_burn l session_id party kind material_id =
     (let key = (session_id, party, kind, material_id) in
      if key \<in> ml_burned l then (l, Inl (SharedMPCError (kind @ '' preprocessing was already consumed'')))
      else if int (card (ml_burned l)) \<ge> ml_capacity l
      then (l, Inl (SharedMPCError ''preprocessing burn ledger is full''))
      else (l\<lparr>ml_burned := insert key (ml_burned l)\<rparr>, Inr ()))"

definition mem_burn_truncation ::
  "mem_ledger \<Rightarrow> string \<Rightarrow> nat \<Rightarrow> string \<Rightarrow> profile \<Rightarrow> int \<Rightarrow> mem_ledger \<times> unit res" where
  "mem_burn_truncation l session_id party material_id profile element_count =
     (let material_key = (session_id, party, ''truncation'', material_id);
          session_key = (session_id, party) in
      if material_key \<in> ml_burned l
      then (l, Inl (SharedMPCError ''truncation preprocessing was already consumed''))
      else let (current_profile, used) =
                 (case ml_truncation l session_key of None \<Rightarrow> (profile, 0) | Some v \<Rightarrow> v) in
      if current_profile \<noteq> profile
      then (l, Inl (SharedMPCError ''truncation masks use inconsistent session security accounting''))
      else if used + element_count > profile_budget profile
      then (l, Inl (SharedMPCError ''truncation session opening budget exhausted''))
      else if int (card (ml_burned l)) \<ge> ml_capacity l
      then (l, Inl (SharedMPCError ''preprocessing burn ledger is full''))
      else (l\<lparr>ml_burned := insert material_key (ml_burned l),
              ml_truncation := (ml_truncation l)(session_key \<mapsto> (profile, used + element_count))\<rparr>, Inr ()))"

definition mem_ops :: "mem_ledger burn_ops" where
  "mem_ops = \<lparr>bl_burn = mem_burn, bl_burn_truncation = mem_burn_truncation\<rparr>"

definition DEFAULT_BURN_LEDGER :: mem_ledger where
  "DEFAULT_BURN_LEDGER = \<lparr>ml_capacity = 1000000, ml_burned = {}, ml_truncation = Map.empty\<rparr>"

section \<open>The SQLite ledger\<close>

text \<open>
  The two tables are association lists in insertion order. An \<^verbatim>\<open>INSERT\<close> whose primary key is present
  raises \<^verbatim>\<open>sqlite3.IntegrityError\<close>; the connection used as a context manager commits when the block
  ends and rolls back when it raises. A closed connection raises \<^verbatim>\<open>sqlite3.ProgrammingError\<close>. A statement binds
  Python integers of 64 bits, and raises \<^verbatim>\<open>OverflowError\<close> for any other before it runs (\<open>sql_bind\<close>). The sum
  of \<^verbatim>\<open>UPDATE\<close> is computed by SQLite: element counts are sizes of tensors, and for counts that are not negative
  every account stays between zero and a budget of 64 bits (\<open>accounts_fit\<close>), so that the sum is the integer one.
\<close>

definition fits64 :: "int \<Rightarrow> bool" where
  "fits64 i \<longleftrightarrow> - (2 ^ 63) \<le> i \<and> i < 2 ^ 63"

definition sql_bind :: "int list \<Rightarrow> 'a res \<Rightarrow> 'a res" where
  "sql_bind values statement =
     raise_if (list_ex (\<lambda>i. \<not> fits64 i) values) (OverflowError ''Python int too large to convert to SQLite INTEGER'') statement"

definition profile_ints :: "profile \<Rightarrow> int list" where
  "profile_ints profile = (case profile of (security_bits, per_element_bits, budget) \<Rightarrow> [security_bits, per_element_bits, budget])"

record sql_db =
  db_burned :: "burn_key list"
  db_sessions :: "((string \<times> nat) \<times> profile \<times> int) list"

record sql_ledger =
  sl_db :: sql_db
  sl_open :: bool

definition sql_ledger_open :: "sql_db option \<Rightarrow> sql_ledger" where
  "sql_ledger_open file =
     \<lparr>sl_db = (case file of None \<Rightarrow> \<lparr>db_burned = [], db_sessions = []\<rparr> | Some db \<Rightarrow> db), sl_open = True\<rparr>"

definition insert_burned :: "burn_key \<Rightarrow> sql_db \<Rightarrow> sql_db res" where
  "insert_burned key db =
     (if key \<in> set (db_burned db) then Inl (IntegrityError ''UNIQUE constraint failed: burned'')
      else Inr (db\<lparr>db_burned := db_burned db @ [key]\<rparr>))"

definition insert_session :: "string \<times> nat \<Rightarrow> profile \<Rightarrow> sql_db \<Rightarrow> sql_db res" where
  "insert_session key profile db =
     (if key \<in> fst ` set (db_sessions db)
      then Inl (IntegrityError ''UNIQUE constraint failed: truncation_sessions'')
      else Inr (db\<lparr>db_sessions := db_sessions db @ [(key, profile, 0)]\<rparr>))"

definition update_used :: "string \<times> nat \<Rightarrow> int \<Rightarrow> sql_db \<Rightarrow> sql_db" where
  "update_used key count db =
     db\<lparr>db_sessions := map (\<lambda>(k, pr, used). if k = key then (k, pr, used + count) else (k, pr, used))
                           (db_sessions db)\<rparr>"

definition with_connection :: "sql_ledger \<Rightarrow> (sql_db \<Rightarrow> sql_db res) \<Rightarrow> sql_ledger \<times> unit res" where
  "with_connection l body =
     (if \<not> sl_open l then (l, Inl (ProgrammingError ''Cannot operate on a closed database.''))
      else case body (sl_db l) of
             Inl e \<Rightarrow> (l, Inl e)
           | Inr db \<Rightarrow> (l\<lparr>sl_db := db\<rparr>, Inr ()))"

definition on_integrity :: "py_error \<Rightarrow> 'l \<times> unit res \<Rightarrow> 'l \<times> unit res" where
  "on_integrity e r = (case r of (l, Inl (IntegrityError _)) \<Rightarrow> (l, Inl e) | _ \<Rightarrow> r)"

definition sql_burn :: "sql_ledger \<Rightarrow> string \<Rightarrow> nat \<Rightarrow> string \<Rightarrow> string \<Rightarrow> sql_ledger \<times> unit res" where
  "sql_burn l session_id party kind material_id =
     on_integrity (SharedMPCError (kind @ '' preprocessing was already consumed''))
       (with_connection l (\<lambda>db. sql_bind [int party] (insert_burned (session_id, party, kind, material_id) db)))"

definition sql_burn_truncation ::
  "sql_ledger \<Rightarrow> string \<Rightarrow> nat \<Rightarrow> string \<Rightarrow> profile \<Rightarrow> int \<Rightarrow> sql_ledger \<times> unit res" where
  "sql_burn_truncation l session_id party material_id profile element_count =
     on_integrity (SharedMPCError ''truncation preprocessing was already consumed'')
       (with_connection l (\<lambda>db. sql_bind [int party] (
          bindE (case map_of (db_sessions db) (session_id, party) of
                   None \<Rightarrow> sql_bind (int party # profile_ints profile)
                     (bindE (insert_session (session_id, party) profile db) (\<lambda>db'. Inr (profile, 0, db')))
                 | Some (current, used) \<Rightarrow> Inr (current, used, db))
            (\<lambda>(current, used, db).
             raise_if (current \<noteq> profile)
               (SharedMPCError ''truncation masks use inconsistent session security accounting'')
             (raise_if (used + element_count > profile_budget profile)
               (SharedMPCError ''truncation session opening budget exhausted'')
             (bindE (sql_bind [int party] (insert_burned (session_id, party, ''truncation'', material_id) db)) (\<lambda>db.
              sql_bind [element_count, int party] (Inr (update_used (session_id, party) element_count db)))))))))"

definition sql_close :: "sql_ledger \<Rightarrow> sql_ledger" where
  "sql_close l = l\<lparr>sl_open := False\<rparr>"

definition sql_ops :: "sql_ledger burn_ops" where
  "sql_ops = \<lparr>bl_burn = sql_burn, bl_burn_truncation = sql_burn_truncation\<rparr>"

section \<open>Histories of ledger calls\<close>

datatype burn_op = Burn string nat string string | BurnTruncation string nat string profile int

fun op_key :: "burn_op \<Rightarrow> burn_key" where
  "op_key (Burn s p k m) = (s, p, k, m)"
| "op_key (BurnTruncation s p m pr n) = (s, p, ''truncation'', m)"

fun op_elements :: "string \<times> nat \<Rightarrow> burn_op \<Rightarrow> int" where
  "op_elements sk (BurnTruncation s p m pr n) = (if (s, p) = sk then n else 0)"
| "op_elements sk (Burn s p k m) = 0"

fun burn_step :: "'l burn_ops \<Rightarrow> burn_op \<Rightarrow> 'l \<Rightarrow> 'l \<times> unit res" where
  "burn_step ops (Burn s p k m) l = bl_burn ops l s p k m"
| "burn_step ops (BurnTruncation s p m pr n) l = bl_burn_truncation ops l s p m pr n"

text \<open>\<open>burn_run\<close> performs the calls in order and returns the accepted ones; a rejected call is skipped.\<close>

fun burn_run :: "'l burn_ops \<Rightarrow> burn_op list \<Rightarrow> 'l \<Rightarrow> 'l \<times> burn_op list" where
  "burn_run ops [] l = (l, [])"
| "burn_run ops (c # cs) l =
     (let (l', r) = burn_step ops c l; (l'', acc) = burn_run ops cs l'
      in (l'', (case r of Inl _ \<Rightarrow> acc | Inr _ \<Rightarrow> c # acc)))"

text \<open>The elements a truncation account records, and that no account exceeds its profile's budget.\<close>

definition account_used :: "((string \<times> nat) \<rightharpoonup> (profile \<times> int)) \<Rightarrow> string \<times> nat \<Rightarrow> int" where
  "account_used acct sk = (case acct sk of None \<Rightarrow> 0 | Some (_, used) \<Rightarrow> used)"

definition within_budget :: "((string \<times> nat) \<rightharpoonup> (profile \<times> int)) \<Rightarrow> bool" where
  "within_budget acct \<longleftrightarrow> (\<forall>v \<in> ran acct. snd v \<le> profile_budget (fst v))"

lemma within_budgetD: "within_budget acct \<Longrightarrow> acct sk = Some (pr, used) \<Longrightarrow> used \<le> profile_budget pr"
  unfolding within_budget_def using ranI [of acct sk] by fastforce

lemma ran_upd_subset: "ran (m(k \<mapsto> v)) \<subseteq> insert v (ran m)"
  by (auto simp: ran_def split: if_splits)

lemma within_budget_upd:
  "within_budget acct \<Longrightarrow> used \<le> profile_budget pr \<Longrightarrow> within_budget (acct(sk \<mapsto> (pr, used)))"
  unfolding within_budget_def
proof (rule ballI)
  fix v assume "\<forall>v \<in> ran acct. snd v \<le> profile_budget (fst v)" "used \<le> profile_budget pr"
    "v \<in> ran (acct(sk \<mapsto> (pr, used)))"
  with ran_upd_subset [of acct sk "(pr, used)"] have "v = (pr, used) \<or> v \<in> ran acct" by blast
  then show "snd v \<le> profile_budget (fst v)"
    using \<open>\<forall>v \<in> ran acct. _ v\<close> \<open>used \<le> _\<close> by (elim disjE) simp_all
qed

lemma within_budget_empty [simp]: "within_budget Map.empty"
  by (simp add: within_budget_def)

section \<open>The protocol's contract\<close>

text \<open>
  \<open>consumed\<close> are the burned keys and \<open>account\<close> the truncation account of a session. An accepted call
  adds a key that was not there; a rejected one changes nothing; a truncation call keeps the
  session's profile and stays within the budget of that profile.
\<close>

locale burn_ledger =
  fixes ops :: "'l burn_ops"
    and inv :: "'l \<Rightarrow> bool"
    and consumed :: "'l \<Rightarrow> burn_key set"
    and account :: "'l \<Rightarrow> (string \<times> nat) \<rightharpoonup> (profile \<times> int)"
  assumes step_rejected: "inv l \<Longrightarrow> burn_step ops c l = (l', Inl e) \<Longrightarrow> l' = l"
    and step_inv: "inv l \<Longrightarrow> burn_step ops c l = (l', r) \<Longrightarrow> inv l'"
    and step_fresh: "inv l \<Longrightarrow> burn_step ops c l = (l', Inr u) \<Longrightarrow> op_key c \<notin> consumed l"
    and step_consumed: "inv l \<Longrightarrow> burn_step ops c l = (l', Inr u) \<Longrightarrow> consumed l' = insert (op_key c) (consumed l)"
    and burn_account: "inv l \<Longrightarrow> burn_step ops (Burn s p k m) l = (l', Inr u) \<Longrightarrow> account l' = account l"
    and truncation_profile: "inv l \<Longrightarrow> burn_step ops (BurnTruncation s p m pr n) l = (l', Inr u) \<Longrightarrow>
          account l (s, p) = Some (pr', used) \<Longrightarrow> pr' = pr"
    and truncation_budget: "inv l \<Longrightarrow> burn_step ops (BurnTruncation s p m pr n) l = (l', Inr u) \<Longrightarrow>
          account_used (account l) (s, p) + n \<le> profile_budget pr"
    and truncation_account: "inv l \<Longrightarrow> burn_step ops (BurnTruncation s p m pr n) l = (l', Inr u) \<Longrightarrow>
          account l' = (account l)((s, p) \<mapsto> (pr, account_used (account l) (s, p) + n))"
begin

lemma run_inv: "inv l \<Longrightarrow> inv (fst (burn_run ops cs l))"
proof (induction cs arbitrary: l)
  case (Cons c cs)
  obtain l' r where s: "burn_step ops c l = (l', r)" by fastforce
  from Cons.IH [OF step_inv [OF Cons.prems s]] s show ?case by (auto simp: Let_def split: prod.splits)
qed simp

lemma run_consumed:
  "inv l \<Longrightarrow> burn_run ops cs l = (l', acc) \<Longrightarrow>
     consumed l' = consumed l \<union> op_key ` set acc \<and> distinct (map op_key acc)
     \<and> op_key ` set acc \<inter> consumed l = {}"
proof (induction cs arbitrary: l l' acc)
  case (Cons c cs)
  obtain l1 r where s: "burn_step ops c l = (l1, r)" by fastforce
  obtain l2 acc2 where t: "burn_run ops cs l1 = (l2, acc2)" by fastforce
  note ih = Cons.IH [OF step_inv [OF Cons.prems(1) s] t]
  from Cons.prems(2) s t have l': "l' = l2" by (simp add: Let_def)
  show ?case
  proof (cases r)
    case (Inl e)
    with s step_rejected [OF Cons.prems(1)] have "l1 = l" by blast
    with ih l' Inl Cons.prems(2) s t show ?thesis by simp
  next
    case (Inr u)
    note s' = s [unfolded Inr]
    from Inr Cons.prems(2) s t have "acc = c # acc2" by simp
    with ih l' step_fresh [OF Cons.prems(1) s'] step_consumed [OF Cons.prems(1) s'] show ?thesis by auto
  qed
qed simp

text \<open>One use: whatever calls are made, every material key is accepted at most once.\<close>

lemma single_use: "inv l \<Longrightarrow> distinct (map op_key (snd (burn_run ops cs l)))"
  using run_consumed [of l cs] by (metis prod.collapse)

text \<open>The account of a session holds exactly the elements accepted, and never exceeds its budget.\<close>

lemma step_used:
  assumes "inv l" and "burn_step ops c l = (l', Inr u)"
  shows "account_used (account l') sk = account_used (account l) sk + op_elements sk c"
proof (cases c)
  case (Burn s p k m)
  with burn_account [OF assms(1)] assms(2) show ?thesis by (metis add.right_neutral op_elements.simps(2))
next
  case (BurnTruncation s p m pr n)
  from truncation_account [OF assms(1)] assms(2) BurnTruncation
  have "account l' = (account l)((s, p) \<mapsto> (pr, account_used (account l) (s, p) + n))" by metis
  then show ?thesis by (simp add: BurnTruncation account_used_def)
qed

lemma run_used:
  "inv l \<Longrightarrow> burn_run ops cs l = (l', acc) \<Longrightarrow>
     account_used (account l') sk = account_used (account l) sk + sum_list (map (op_elements sk) acc)"
proof (induction cs arbitrary: l l' acc)
  case (Cons c cs)
  obtain l1 r where s: "burn_step ops c l = (l1, r)" by fastforce
  obtain l2 acc2 where t: "burn_run ops cs l1 = (l2, acc2)" by fastforce
  note ih = Cons.IH [OF step_inv [OF Cons.prems(1) s] t]
  show ?case
  proof (cases r)
    case (Inl e)
    with step_rejected [OF Cons.prems(1)] s have "l1 = l" by blast
    with ih Cons.prems s t Inl show ?thesis by simp
  next
    case (Inr u)
    with step_used [OF Cons.prems(1)] s have "account_used (account l1) sk = account_used (account l) sk + op_elements sk c"
      by blast
    with ih Cons.prems s t Inr show ?thesis by auto
  qed
qed simp

lemma step_within_budget:
  assumes "inv l" "burn_step ops c l = (l', r)" and "within_budget (account l)"
  shows "within_budget (account l')"
proof (cases r)
  case (Inl e)
  with assms step_rejected show ?thesis by blast
next
  case (Inr u)
  note acc = assms(2) [unfolded Inr]
  show ?thesis
  proof (cases c)
    case (Burn s p k m)
    with burn_account [OF assms(1)] acc assms(3) show ?thesis by metis
  next
    case (BurnTruncation s p m pr n)
    note acc' = acc [unfolded BurnTruncation]
    from truncation_account [OF assms(1) acc'] truncation_budget [OF assms(1) acc'] assms(3)
    show ?thesis by (simp add: within_budget_upd)
  qed
qed

lemma run_within_budget:
  "inv l \<Longrightarrow> within_budget (account l) \<Longrightarrow> within_budget (account (fst (burn_run ops cs l)))"
proof (induction cs arbitrary: l)
  case (Cons c cs)
  obtain l1 r where s: "burn_step ops c l = (l1, r)" by fastforce
  from Cons.IH [OF step_inv [OF Cons.prems(1) s] step_within_budget [OF Cons.prems(1) s Cons.prems(2)]] s
  show ?case by (auto simp: Let_def split: prod.splits)
qed simp

lemma step_profile:
  assumes "inv l" "burn_step ops c l = (l', r)" and "account l sk = Some (pr, used)"
  shows "\<exists>used'. account l' sk = Some (pr, used')"
proof (cases r)
  case (Inl e)
  with assms step_rejected show ?thesis by blast
next
  case (Inr u)
  note acc = assms(2) [unfolded Inr]
  show ?thesis
  proof (cases c)
    case (Burn s p k m)
    with burn_account [OF assms(1)] acc assms(3) show ?thesis by metis
  next
    case (BurnTruncation s p m pr' n)
    note acc' = acc [unfolded BurnTruncation]
    from truncation_account [OF assms(1) acc'] truncation_profile [OF assms(1) acc', of pr used] assms(3)
    show ?thesis by (cases "sk = (s, p)") simp_all
  qed
qed

lemma run_profile:
  "inv l \<Longrightarrow> account l sk = Some (pr, used) \<Longrightarrow> \<exists>used'. account (fst (burn_run ops cs l)) sk = Some (pr, used')"
proof (induction cs arbitrary: l used)
  case (Cons c cs)
  obtain l1 r where s: "burn_step ops c l = (l1, r)" by fastforce
  obtain used1 where "account l1 sk = Some (pr, used1)" using step_profile [OF Cons.prems(1) s Cons.prems(2)] by blast
  from Cons.IH [OF step_inv [OF Cons.prems(1) s] this] s show ?case by (auto simp: Let_def split: prod.splits)
qed simp

lemma accepted_profile:
  "inv l \<Longrightarrow> BurnTruncation s p m pr n \<in> set (snd (burn_run ops cs l)) \<Longrightarrow>
     \<exists>used. account (fst (burn_run ops cs l)) (s, p) = Some (pr, used)"
proof (induction cs arbitrary: l)
  case (Cons c cs)
  obtain l1 r where s: "burn_step ops c l = (l1, r)" by fastforce
  note i1 = step_inv [OF Cons.prems(1) s]
  obtain l2 acc where t: "burn_run ops cs l1 = (l2, acc)" by fastforce
  have "(\<exists>u. r = Inr u \<and> c = BurnTruncation s p m pr n) \<or> BurnTruncation s p m pr n \<in> set acc"
    using Cons.prems(2) s t by (cases r) auto
  then show ?case
  proof
    assume "\<exists>u. r = Inr u \<and> c = BurnTruncation s p m pr n"
    with s have "burn_step ops (BurnTruncation s p m pr n) l = (l1, Inr ())" by simp
    from truncation_account [OF Cons.prems(1) this] run_profile [OF i1, of "(s, p)" pr _ cs] s t
    show ?thesis by (simp add: Let_def)
  next
    assume "BurnTruncation s p m pr n \<in> set acc"
    with Cons.IH [OF i1] s t show ?thesis by (simp add: Let_def)
  qed
qed simp

text \<open>
  The budget bounds what a session opens: all accepted truncation calls of one session together
  open at most the budget of the profile that any of them names.
\<close>

lemma budget_respected:
  assumes "inv l" and "account l = Map.empty" and "burn_run ops cs l = (l', acc)"
    and "BurnTruncation s p m pr n \<in> set acc"
  shows "sum_list (map (op_elements (s, p)) acc) \<le> profile_budget pr"
proof -
  obtain used where u: "account l' (s, p) = Some (pr, used)"
    using accepted_profile [OF assms(1), of s p m pr n cs] assms(3,4) by auto
  have "within_budget (account l')" using run_within_budget [OF assms(1), of cs] assms(2,3) by simp
  then have "used \<le> profile_budget pr" using u by (rule within_budgetD)
  moreover have "used = sum_list (map (op_elements (s, p)) acc)"
    using run_used [OF assms(1,3), of "(s, p)"] u assms(2) by (simp add: account_used_def)
  ultimately show ?thesis by simp
qed

end

section \<open>Both ledgers implement the contract\<close>

lemmas mem_step_defs = mem_ops_def mem_burn_def mem_burn_truncation_def Let_def

definition mem_inv :: "mem_ledger \<Rightarrow> bool" where
  "mem_inv l \<longleftrightarrow> finite (ml_burned l) \<and> int (card (ml_burned l)) \<le> max 0 (ml_capacity l)"

lemma mem_step_inv: "mem_inv l \<Longrightarrow> burn_step mem_ops c l = (l', r) \<Longrightarrow> mem_inv l'"
  by (cases c) (auto simp: mem_step_defs mem_inv_def split: if_splits prod.splits option.splits)

interpretation ml: burn_ledger mem_ops mem_inv ml_burned ml_truncation
proof (unfold_locales, goal_cases)
  case (1 l c l' e)
  then show ?case by (cases c) (auto simp: mem_step_defs split: if_splits prod.splits option.splits)
next
  case (2 l c l' r)
  then show ?case by (rule mem_step_inv)
next
  case (3 l c l' u)
  then show ?case by (cases c) (auto simp: mem_step_defs split: if_splits prod.splits option.splits)
next
  case (4 l c l' u)
  then show ?case by (cases c) (auto simp: mem_step_defs split: if_splits prod.splits option.splits)
qed (auto simp: mem_step_defs account_used_def split: if_splits prod.splits option.splits)

lemmas sql_step_defs = sql_ops_def sql_burn_def sql_burn_truncation_def with_connection_def on_integrity_def
  insert_burned_def insert_session_def sql_bind_def raise_if_def

definition sql_inv :: "sql_ledger \<Rightarrow> bool" where
  "sql_inv l \<longleftrightarrow> distinct (db_burned (sl_db l)) \<and> distinct (map fst (db_sessions (sl_db l)))"

abbreviation sql_consumed :: "sql_ledger \<Rightarrow> burn_key set" where
  "sql_consumed l \<equiv> set (db_burned (sl_db l))"

abbreviation sql_account :: "sql_ledger \<Rightarrow> (string \<times> nat) \<rightharpoonup> (profile \<times> int)" where
  "sql_account l \<equiv> map_of (db_sessions (sl_db l))"

lemma map_of_update_used:
  "map_of (db_sessions (update_used key n db)) sk =
     (case map_of (db_sessions db) sk of None \<Rightarrow> None
      | Some (pr, used) \<Rightarrow> Some (pr, if sk = key then used + n else used))"
proof -
  have "map_of (map (\<lambda>(k, pr, used). if k = key then (k, pr, used + n) else (k, pr, used)) rows) sk =
     (case map_of rows sk of None \<Rightarrow> None
      | Some (pr, used) \<Rightarrow> Some (pr, if sk = key then used + n else used))" for rows :: "((string \<times> nat) \<times> profile \<times> int) list"
    by (induction rows) auto
  then show ?thesis by (simp add: update_used_def)
qed

lemma update_used_simps [simp]:
  "db_burned (update_used key n db) = db_burned db"
  "map fst (db_sessions (update_used key n db)) = map fst (db_sessions db)"
  by (auto simp: update_used_def)

text \<open>What an accepted call of the SQLite ledger finds and leaves.\<close>

lemma sql_burn_accepted:
  "sql_burn l s p k m = (l', Inr u) \<longleftrightarrow>
     sl_open l \<and> fits64 (int p) \<and> (s, p, k, m) \<notin> sql_consumed l
     \<and> l' = l\<lparr>sl_db := (sl_db l)\<lparr>db_burned := db_burned (sl_db l) @ [(s, p, k, m)]\<rparr>\<rparr>"
  by (auto simp: sql_step_defs split: sum.splits)

lemma map_of_append_fresh:
  "k \<notin> fst ` set rows \<Longrightarrow> map_of (rows @ [(k, v)]) = (map_of rows)(k \<mapsto> v)"
  by (induction rows) (auto simp: fun_eq_iff)

lemma sql_truncation_None:
  assumes "sql_account l (s, p) = None"
  shows "sql_burn_truncation l s p m pr n = (l', Inr u) \<longleftrightarrow>
    sl_open l \<and> fits64 (int p) \<and> list_all fits64 (profile_ints pr) \<and> fits64 n
    \<and> (s, p, ''truncation'', m) \<notin> sql_consumed l \<and> n \<le> profile_budget pr
    \<and> l' = l\<lparr>sl_db := update_used (s, p) n ((sl_db l)\<lparr>db_sessions := db_sessions (sl_db l) @ [((s, p), pr, 0)],
                                    db_burned := db_burned (sl_db l) @ [(s, p, ''truncation'', m)]\<rparr>)\<rparr>"
proof -
  have "(s, p) \<notin> fst ` set (db_sessions (sl_db l))" using assms by (simp add: map_of_eq_None_iff)
  with assms show ?thesis
    by (cases "n \<le> profile_budget pr")
      (auto simp: sql_burn_truncation_def with_connection_def on_integrity_def insert_burned_def
        insert_session_def sql_bind_def raise_if_def list_ex_iff list_all_iff split: if_splits)
qed

lemma sql_truncation_Some:
  assumes "sql_account l (s, p) = Some (pr', used)"
  shows "sql_burn_truncation l s p m pr n = (l', Inr u) \<longleftrightarrow>
    sl_open l \<and> fits64 (int p) \<and> fits64 n \<and> pr' = pr \<and> (s, p, ''truncation'', m) \<notin> sql_consumed l \<and> used + n \<le> profile_budget pr
    \<and> l' = l\<lparr>sl_db := update_used (s, p) n
                ((sl_db l)\<lparr>db_burned := db_burned (sl_db l) @ [(s, p, ''truncation'', m)]\<rparr>)\<rparr>"
  using assms
  by (auto simp: sql_burn_truncation_def with_connection_def on_integrity_def insert_burned_def
      sql_bind_def raise_if_def split: if_splits)

lemma sql_truncation_accepted:
  assumes "sql_burn_truncation l s p m pr n = (l', Inr u)"
  shows "sl_open l" "sl_open l'" "(s, p, ''truncation'', m) \<notin> sql_consumed l"
    "sql_account l (s, p) = Some (pr', used) \<Longrightarrow> pr' = pr"
    "account_used (sql_account l) (s, p) + n \<le> profile_budget pr"
    "db_burned (sl_db l') = db_burned (sl_db l) @ [(s, p, ''truncation'', m)]"
    "sql_account l' = (sql_account l)((s, p) \<mapsto> (pr, account_used (sql_account l) (s, p) + n))"
    "distinct (map fst (db_sessions (sl_db l))) \<Longrightarrow> distinct (map fst (db_sessions (sl_db l')))"
proof -
  have all: "sl_open l \<and> sl_open l' \<and> (s, p, ''truncation'', m) \<notin> sql_consumed l
    \<and> (sql_account l (s, p) = Some (pr', used) \<longrightarrow> pr' = pr)
    \<and> account_used (sql_account l) (s, p) + n \<le> profile_budget pr
    \<and> db_burned (sl_db l') = db_burned (sl_db l) @ [(s, p, ''truncation'', m)]
    \<and> sql_account l' = (sql_account l)((s, p) \<mapsto> (pr, account_used (sql_account l) (s, p) + n))
    \<and> (distinct (map fst (db_sessions (sl_db l))) \<longrightarrow> distinct (map fst (db_sessions (sl_db l'))))"
  proof (cases "sql_account l (s, p)")
    case None
    then have f: "(s, p) \<notin> fst ` set (db_sessions (sl_db l))" by (simp add: map_of_eq_None_iff)
    from None assms show ?thesis
      by (auto simp: sql_truncation_None map_of_update_used fun_eq_iff account_used_def
          map_of_append_fresh [OF f] f split: option.splits)
  next
    case (Some v)
    obtain pr0 used0 where v: "v = (pr0, used0)" by (cases v)
    from Some assms show ?thesis
      unfolding v sql_truncation_Some [OF Some [unfolded v]]
      by (simp add: map_of_update_used fun_eq_iff account_used_def split: option.splits)
  qed
  then show "sl_open l" "sl_open l'" "(s, p, ''truncation'', m) \<notin> sql_consumed l"
    "sql_account l (s, p) = Some (pr', used) \<Longrightarrow> pr' = pr"
    "account_used (sql_account l) (s, p) + n \<le> profile_budget pr"
    "db_burned (sl_db l') = db_burned (sl_db l) @ [(s, p, ''truncation'', m)]"
    "sql_account l' = (sql_account l)((s, p) \<mapsto> (pr, account_used (sql_account l) (s, p) + n))"
    "distinct (map fst (db_sessions (sl_db l))) \<Longrightarrow> distinct (map fst (db_sessions (sl_db l')))"
    by blast+
qed

lemma sql_rejected: "burn_step sql_ops c l = (l', Inl e) \<Longrightarrow> l' = l"
  by (cases c) (auto simp: sql_ops_def sql_burn_def sql_burn_truncation_def with_connection_def on_integrity_def
      split: sum.splits py_error.splits if_splits)

lemma sql_ops_simps [simp]: "bl_burn sql_ops = sql_burn" "bl_burn_truncation sql_ops = sql_burn_truncation"
  by (simp_all add: sql_ops_def)

lemma sql_accepted_inv: "sql_inv l \<Longrightarrow> burn_step sql_ops c l = (l', Inr u) \<Longrightarrow> sql_inv l'"
  by (cases c) (auto simp: sql_inv_def sql_burn_accepted sql_truncation_accepted)

interpretation sl: burn_ledger sql_ops sql_inv sql_consumed sql_account
proof (unfold_locales, goal_cases)
  case (1 l c l' e)
  then show ?case by (blast intro: sql_rejected)
next
  case (2 l c l' r)
  then show ?case by (cases r) (use sql_rejected sql_accepted_inv in blast)+
next
  case (3 l c l' u)
  then show ?case by (cases c) (auto simp: sql_burn_accepted dest: sql_truncation_accepted)
next
  case (4 l c l' u)
  then show ?case by (cases c) (auto simp: sql_burn_accepted dest: sql_truncation_accepted)
next
  case (5 l s p k m l' u)
  then show ?case by (simp add: sql_burn_accepted)
next
  case (6 l s p m pr n l' u pr' used)
  then show ?case using sql_truncation_accepted(4) by simp
next
  case (7 l s p m pr n l' u)
  then show ?case using sql_truncation_accepted(5) by simp
next
  case (8 l s p m pr n l' u)
  then show ?case using sql_truncation_accepted(7) by simp
qed

section \<open>The two ledgers simulate each other\<close>

definition ledger_sim :: "mem_ledger \<Rightarrow> sql_ledger \<Rightarrow> bool" where
  "ledger_sim m s \<longleftrightarrow> mem_inv m \<and> sql_inv s \<and> sl_open s
     \<and> ml_burned m = sql_consumed s \<and> ml_truncation m = sql_account s"

text \<open>
  A call whose integers SQLite can bind, with an element count that is the size of a tensor.
\<close>

fun op_fits :: "burn_op \<Rightarrow> bool" where
  "op_fits (Burn s p k m) = fits64 (int p)"
| "op_fits (BurnTruncation s p m pr n) = (fits64 (int p) \<and> list_all fits64 (profile_ints pr) \<and> fits64 n \<and> 0 \<le> n)"

lemma sql_truncation_accept_iff:
  assumes fits: "op_fits (BurnTruncation s p m pr n)"
  shows "(\<exists>l' u. sql_burn_truncation l s p m pr n = (l', Inr u)) \<longleftrightarrow>
     sl_open l \<and> (s, p, ''truncation'', m) \<notin> sql_consumed l
     \<and> sql_account l (s, p) \<in> {None, Some (pr, account_used (sql_account l) (s, p))}
     \<and> account_used (sql_account l) (s, p) + n \<le> profile_budget pr"
proof (cases "sql_account l (s, p)")
  case None
  then show ?thesis using fits by (simp add: sql_truncation_None account_used_def)
next
  case (Some v)
  obtain pr0 used0 where v: "v = (pr0, used0)" by (cases v)
  show ?thesis unfolding sql_truncation_Some [OF Some [unfolded v]]
    using Some v fits by (auto simp: account_used_def)
qed

lemma mem_truncation_accept_iff:
  "int (card (ml_burned l)) < ml_capacity l \<Longrightarrow>
   (\<exists>l' u. mem_burn_truncation l s p m pr n = (l', Inr u)) \<longleftrightarrow>
     (s, p, ''truncation'', m) \<notin> ml_burned l
     \<and> ml_truncation l (s, p) \<in> {None, Some (pr, account_used (ml_truncation l) (s, p))}
     \<and> account_used (ml_truncation l) (s, p) + n \<le> profile_budget pr"
  by (cases "ml_truncation l (s, p)") (auto simp: mem_step_defs account_used_def split: if_splits)

lemma accept_iff:
  assumes "ledger_sim m s" and "int (card (ml_burned m)) < ml_capacity m" and fits: "op_fits c"
  shows "(\<exists>m' u. burn_step mem_ops c m = (m', Inr u)) \<longleftrightarrow> (\<exists>s' u. burn_step sql_ops c s = (s', Inr u))"
proof (cases c)
  case (Burn si p k mi)
  with assms show ?thesis by (auto simp: mem_step_defs ledger_sim_def sql_burn_accepted)
next
  case (BurnTruncation si p mi pr n)
  have "mem_inv m" "sl_open s" "ml_burned m = sql_consumed s" "ml_truncation m = sql_account s"
    using assms(1) by (simp_all add: ledger_sim_def)
  with mem_truncation_accept_iff [OF assms(2), of si p mi pr n] sql_truncation_accept_iff [of si p mi pr n s] fits
  show ?thesis by (simp add: BurnTruncation mem_ops_def)
qed

lemma step_sim:
  assumes "ledger_sim m s" and "int (card (ml_burned m)) < ml_capacity m"
    and "burn_step mem_ops c m = (m', r)" and "burn_step sql_ops c s = (s', r')" and fits: "op_fits c"
  shows "ledger_sim m' s' \<and> isl r = isl r'"
proof -
  note sim = assms(1) [unfolded ledger_sim_def]
  show ?thesis
  proof (cases "isl r")
    case True
    then obtain e where r: "r = Inl e" by (auto simp: isl_def)
    with assms(3) accept_iff [OF assms(1,2) fits] assms(4) have "isl r'" by (cases r') auto
    then obtain e' where "r' = Inl e'" by (auto simp: isl_def)
    with r assms sim ml.step_rejected sql_rejected show ?thesis by (metis isl_def)
  next
    case False
    then have r: "r = Inr ()" by (cases r) auto
    with assms(3) accept_iff [OF assms(1,2) fits] assms(4) have r': "r' = Inr ()" by (cases r') auto
    note a = assms(3) [unfolded r] and b = assms(4) [unfolded r']
    have "sl_open s'" using b sim by (cases c) (auto simp: sql_burn_accepted dest: sql_truncation_accepted)
    moreover have "ml_truncation m' = sql_account s'"
    proof (cases c)
      case (Burn si p k mi)
      with ml.burn_account sl.burn_account a b sim show ?thesis by metis
    next
      case (BurnTruncation si p mi pr n)
      with ml.truncation_account [of m si p mi pr n m' "()"] sl.truncation_account [of s si p mi pr n s' "()"] a b sim
      show ?thesis by simp
    qed
    ultimately show ?thesis
      using r r' sim ml.step_consumed [OF _ a] sl.step_consumed [OF _ b] ml.step_inv [OF _ a] sl.step_inv [OF _ b]
      by (simp add: ledger_sim_def)
  qed
qed

lemma run_sim:
  "ledger_sim m s \<Longrightarrow> list_all op_fits cs \<Longrightarrow> int (card (ml_burned m) + length cs) \<le> ml_capacity m \<Longrightarrow>
     snd (burn_run mem_ops cs m) = snd (burn_run sql_ops cs s)
     \<and> ledger_sim (fst (burn_run mem_ops cs m)) (fst (burn_run sql_ops cs s))"
proof (induction cs arbitrary: m s)
  case (Cons c cs)
  obtain m1 r where m1: "burn_step mem_ops c m = (m1, r)" by fastforce
  obtain s1 r' where s1: "burn_step sql_ops c s = (s1, r')" by fastforce
  have "int (card (ml_burned m)) < ml_capacity m" "op_fits c" using Cons.prems(2,3) by simp_all
  from step_sim [OF Cons.prems(1) this(1) m1 s1 this(2)] have sim: "ledger_sim m1 s1" and rr: "isl r = isl r'" by auto
  have i: "mem_inv m" using Cons.prems(1) by (simp add: ledger_sim_def)
  then have "card (ml_burned m1) \<le> Suc (card (ml_burned m))" "ml_capacity m1 = ml_capacity m"
    using m1 by (cases c; auto simp: mem_step_defs mem_inv_def card_insert_if split: if_splits prod.splits option.splits)+
  with Cons.prems(2,3) have "int (card (ml_burned m1) + length cs) \<le> ml_capacity m1" "list_all op_fits cs" by simp_all
  with Cons.IH [OF sim] m1 s1 rr show ?case by (cases r; cases r') (auto simp: Let_def split: prod.splits)
qed simp

section \<open>Properties\<close>

lemma burn_run_append:
  "burn_run ops (cs @ ds) l =
     (let (l', a) = burn_run ops cs l; (l'', b) = burn_run ops ds l' in (l'', a @ b))"
  by (induction cs arbitrary: l) (auto simp: Let_def split: prod.splits sum.splits)

lemma mem_inv_init: "mem_ledger_init cap = Inr l \<Longrightarrow> mem_inv l \<and> ml_truncation l = Map.empty \<and> ml_burned l = {}"
  by (auto simp: mem_ledger_init_def res_simps mem_inv_def)

lemma sql_inv_open [simp]: "sql_inv (sql_ledger_open None)" "sql_account (sql_ledger_open None) = Map.empty"
  by (simp_all add: sql_inv_def sql_ledger_open_def)

lemma sql_consumed_open: "sql_consumed (sql_ledger_open None) = {}"
  by (simp add: sql_ledger_open_def)

text \<open>
  C18: The SQLite ledger survives a restart. After any calls on a new database, closing the
  connection and opening the file again, no further calls can be accepted for material consumed
  before the restart, nor twice after it: the accepted keys of both runs together are distinct.
\<close>

theorem sql_restart_single_use:
  "let (l1, acc1) = burn_run sql_ops cs (sql_ledger_open None);
       (l2, acc2) = burn_run sql_ops ds (sql_ledger_open (Some (sl_db (sql_close l1))))
   in distinct (map op_key (acc1 @ acc2))"
proof -
  obtain l1 acc1 where r1: "burn_run sql_ops cs (sql_ledger_open None) = (l1, acc1)" by fastforce
  let ?l = "sql_ledger_open (Some (sl_db (sql_close l1)))"
  obtain l2 acc2 where r2: "burn_run sql_ops ds ?l = (l2, acc2)" by fastforce
  have db: "sl_db ?l = sl_db l1" by (simp add: sql_ledger_open_def sql_close_def)
  have "sql_inv l1" using sl.run_inv [of "sql_ledger_open None" cs] r1 by simp
  with db have i: "sql_inv ?l" by (simp add: sql_inv_def)
  from sl.run_consumed [OF sql_inv_open(1) r1] sl.run_consumed [OF i r2] db
  have "distinct (map op_key (acc1 @ acc2))" by (auto simp: sql_consumed_open)
  with r1 r2 show ?thesis by simp
qed

text \<open>
  C22: The statistical-security budget of truncation openings is enforced by both ledgers: whatever
  calls are made on a new ledger, the accepted truncation calls of one session and party together
  open at most the budget of the profile named by any of them.
\<close>

theorem opening_budget_respected:
  assumes "mem_ledger_init cap = Inr l"
    and "acc = snd (burn_run mem_ops cs l) \<or> acc = snd (burn_run sql_ops cs (sql_ledger_open None))"
    and "BurnTruncation s p m pr n \<in> set acc"
  shows "sum_list (map (op_elements (s, p)) acc) \<le> profile_budget pr"
  using assms(2)
proof
  assume a: "acc = snd (burn_run mem_ops cs l)"
  obtain l' where "burn_run mem_ops cs l = (l', acc)" using a by (metis prod.collapse)
  with mem_inv_init [OF assms(1)] assms(3) show ?thesis by (blast intro: ml.budget_respected)
next
  assume a: "acc = snd (burn_run sql_ops cs (sql_ledger_open None))"
  obtain l' where "burn_run sql_ops cs (sql_ledger_open None) = (l', acc)" using a by (metis prod.collapse)
  with assms(3) sql_inv_open show ?thesis by (blast intro: sl.budget_respected)
qed

definition demo_burns :: "burn_op list" where
  "demo_burns = [BurnTruncation ''s'' 0 ''m'' (40, 45, 20) 12, BurnTruncation ''s'' 0 ''n'' (40, 45, 20) 9,
                 BurnTruncation ''s'' 0 ''k'' (40, 45, 20) 8, BurnTruncation ''s'' 0 ''m'' (40, 45, 20) 0]"

lemma demo_burns_mem:
  "snd (burn_run mem_ops demo_burns DEFAULT_BURN_LEDGER) =
     [BurnTruncation ''s'' 0 ''m'' (40, 45, 20) 12, BurnTruncation ''s'' 0 ''k'' (40, 45, 20) 8]"
  by (simp add: demo_burns_def DEFAULT_BURN_LEDGER_def mem_step_defs)

lemma default_ledger_init: "mem_ledger_init 1000000 = Inr DEFAULT_BURN_LEDGER"
  by (simp add: mem_ledger_init_def DEFAULT_BURN_LEDGER_def)

theorem opening_budget_respected_witness:
  "sum_list (map (op_elements (''s'', 0)) (snd (burn_run mem_ops demo_burns DEFAULT_BURN_LEDGER))) \<le> 20"
  using opening_budget_respected [OF default_ledger_init disjI1 [OF refl], where cs = demo_burns and s = "''s''" and p = 0
      and m = "''m''" and pr = "(40, 45, 20)" and n = 12] demo_burns_mem
  by simp

text \<open>The accounts of either ledger stay within 64 bits while the calls do.\<close>

definition accounts_within :: "((string \<times> nat) \<rightharpoonup> (profile \<times> int)) \<Rightarrow> bool" where
  "accounts_within acct \<longleftrightarrow> (\<forall>sk pr used. acct sk = Some (pr, used) \<longrightarrow> 0 \<le> used \<and> used \<le> profile_budget pr \<and> fits64 (profile_budget pr))"

lemma accounts_step:
  assumes "sql_inv l" and "accounts_within (sql_account l)" and "op_fits c" and "burn_step sql_ops c l = (l', r)"
  shows "accounts_within (sql_account l')"
proof (cases r)
  case (Inl e)
  with assms(4) have "l' = l" by (auto intro: sql_rejected)
  with assms(2) show ?thesis by simp
next
  case (Inr u)
  note a = assms(4) [unfolded Inr]
  show ?thesis
  proof (cases c)
    case (Burn s p k m)
    with sl.burn_account [OF assms(1)] a assms(2) show ?thesis by metis
  next
    case (BurnTruncation s p m pr n)
    note t = a [unfolded BurnTruncation]
    have "fits64 (profile_budget pr)" "0 \<le> n" using assms(3) BurnTruncation by (auto simp: profile_ints_def split: prod.splits)
    moreover have "0 \<le> account_used (sql_account l) (s, p)"
      using assms(2) by (auto simp: accounts_within_def account_used_def split: option.splits)
    ultimately show ?thesis
      unfolding sl.truncation_account [OF assms(1) t]
      using assms(2) sl.truncation_budget [OF assms(1) t] by (auto simp: accounts_within_def)
  qed
qed

lemma accounts_run:
  "sql_inv l \<Longrightarrow> accounts_within (sql_account l) \<Longrightarrow> list_all op_fits cs \<Longrightarrow> accounts_within (sql_account (fst (burn_run sql_ops cs l)))"
proof (induction cs arbitrary: l)
  case (Cons c cs)
  obtain l' r where s: "burn_step sql_ops c l = (l', r)" by fastforce
  have "accounts_within (sql_account l')" by (rule accounts_step [OF Cons.prems(1,2) _ s]) (use Cons.prems(3) in simp)
  with Cons.IH [OF sl.step_inv [OF Cons.prems(1) s]] Cons.prems(3) s show ?case by (auto simp: Let_def split: prod.splits)
qed simp

lemma accounts_fit:
  assumes "list_all op_fits cs" and "sql_account (fst (burn_run sql_ops cs (sql_ledger_open None))) sk = Some (pr, used)"
  shows "fits64 used"
proof -
  have "accounts_within (sql_account (sql_ledger_open None))" by (simp add: accounts_within_def)
  from accounts_run [OF sql_inv_open(1) this assms(1)] assms(2) have "0 \<le> used" "used \<le> profile_budget pr" "fits64 (profile_budget pr)"
    unfolding accounts_within_def by blast+
  then show ?thesis by (simp add: fits64_def)
qed

text \<open>
  C38: The process-local ledger and the SQLite ledger accept the same calls. For calls whose integers
  SQLite can bind, with element counts that are not negative, and while the number of calls does not exceed
  the capacity of the process-local ledger, the two accept exactly the same calls and end with the same
  consumed keys and truncation accounts. The exceptions of rejected calls may differ: a call that breaks
  several rules is refused by the first that each ledger checks.
\<close>

theorem ledgers_agree:
  assumes "mem_ledger_init cap = Inr m" and "int (length cs) \<le> cap" and "list_all op_fits cs"
  shows "snd (burn_run mem_ops cs m) = snd (burn_run sql_ops cs (sql_ledger_open None))
    \<and> ml_burned (fst (burn_run mem_ops cs m)) = set (db_burned (sl_db (fst (burn_run sql_ops cs (sql_ledger_open None)))))
    \<and> ml_truncation (fst (burn_run mem_ops cs m)) = map_of (db_sessions (sl_db (fst (burn_run sql_ops cs (sql_ledger_open None)))))"
proof -
  have m: "m = \<lparr>ml_capacity = cap, ml_burned = {}, ml_truncation = Map.empty\<rparr>"
    using assms(1) by (simp add: mem_ledger_init_def res_simps)
  have "ledger_sim m (sql_ledger_open None)"
    using mem_inv_init [OF assms(1)] sql_inv_open sql_consumed_open by (simp add: ledger_sim_def sql_ledger_open_def)
  from run_sim [OF this, of cs] assms(2,3) show ?thesis by (simp add: m ledger_sim_def)
qed

theorem ledgers_agree_witness:
  "snd (burn_run sql_ops demo_burns (sql_ledger_open None)) =
     [BurnTruncation ''s'' 0 ''m'' (40, 45, 20) 12, BurnTruncation ''s'' 0 ''k'' (40, 45, 20) 8]"
  using ledgers_agree [OF default_ledger_init, of demo_burns] demo_burns_mem by (simp add: demo_burns_def profile_ints_def fits64_def)

end
