(* ===== verification/Party_Runtime.thy ===== *)
theory Party_Runtime
  imports Shared_Frames Burn_Ledger
begin

text \<open>
  \<^verbatim>\<open>PartyRuntime\<close> of \<^verbatim>\<open>runtime/shared_mpc.py\<close>: one party's local view of additive sharing over
  \<open>2 ^ 64\<close>. Local operations return a tensor or raise; interactive operations are split by the source
  into a \<^verbatim>\<open>begin\<close> that consumes preprocessing and produces the frame to send, and a \<^verbatim>\<open>finish\<close> that combines
  the two frames. The burn ledger is shared between runtimes, so its state is an argument of the
  operations that use it. The lemmas show that a pair of runtimes computes on the shared values what
  one would compute on the clear ones.
\<close>

section \<open>State\<close>

record 'c PartyRuntime =
  rt_session_id :: string
  rt_party :: nat
  rt_stats :: SharedMPCStats
  rt_burned_triples :: "string set"
  rt_burned_masks :: "string set"
  rt_compiled_matrices :: "(nat \<times> nat \<times> digest) \<rightharpoonup> 'c"
  rt_minimum_bits :: int
  rt_truncation_profile :: "profile option"
  rt_truncation_opened :: nat

definition PartyRuntime_init :: "string \<Rightarrow> nat \<Rightarrow> int \<Rightarrow> 'c PartyRuntime res" where
  "PartyRuntime_init session_id party minimum_bits =
     raise_if (session_id = [] \<or> party \<notin> {0, 1} \<or> minimum_bits < 16)
       (SharedMPCError ''party runtime identity is invalid'')
       (Inr \<lparr>rt_session_id = session_id, rt_party = party,
             rt_stats = \<lparr>multiplication_rounds = 0, opened_elements = 0, uploaded_bytes = 0, downloaded_bytes = 0\<rparr>,
             rt_burned_triples = {}, rt_burned_masks = {}, rt_compiled_matrices = Map.empty,
             rt_minimum_bits = minimum_bits, rt_truncation_profile = None, rt_truncation_opened = 0\<rparr>)"

fun check_each :: "'c PartyRuntime \<Rightarrow> nat list \<Rightarrow> int \<Rightarrow> SharedTensor list \<Rightarrow> unit res" where
  "check_each rt shape scale [] = Inr ()"
| "check_each rt shape scale (v # vs) =
     raise_if (st_session_id v \<noteq> rt_session_id rt \<or> st_party v \<noteq> rt_party rt)
       (SharedMPCError ''shared tensor belongs to another party or session'')
    (raise_if (st_shape v \<noteq> shape) (SharedMPCError ''shared tensor shapes do not match'')
    (raise_if (st_scale v \<noteq> scale) (SharedMPCError ''shared tensor scales do not match'')
    (check_each rt shape scale vs)))"

definition check :: "'c PartyRuntime \<Rightarrow> SharedTensor list \<Rightarrow> unit res" where
  "check rt values =
     (case values of [] \<Rightarrow> Inr () | v # _ \<Rightarrow> check_each rt (st_shape v) (st_scale v) values)"

definition result_tensor :: "'c PartyRuntime \<Rightarrow> string \<Rightarrow> u64array \<Rightarrow> int \<Rightarrow> SharedTensor res" where
  "result_tensor rt tensor_id values scale = mk_SharedTensor (rt_session_id rt) tensor_id (rt_party rt) values scale"

section \<open>Local operations\<close>

definition party_add :: "'c PartyRuntime \<Rightarrow> SharedTensor \<Rightarrow> SharedTensor \<Rightarrow> string \<Rightarrow> SharedTensor res" where
  "party_add rt left right tensor_id =
     bindE (check rt [left, right]) (\<lambda>_.
       result_tensor rt tensor_id (nd_add (st_values left) (st_values right)) (st_scale left))"

definition add_public :: "'c PartyRuntime \<Rightarrow> SharedTensor \<Rightarrow> array_arg \<Rightarrow> string \<Rightarrow> SharedTensor res" where
  "add_public rt value clear tensor_id =
     bindE (check rt [value]) (\<lambda>_.
       bindE (if rt_party rt = 0
              then bindE (nd_broadcast_to (ring_array clear) (st_shape value)) (\<lambda>c. Inr (nd_add (st_values value) c))
              else Inr (st_values value))
         (\<lambda>result. result_tensor rt tensor_id result (st_scale value)))"

text \<open>A Python integer that fits neither \<^verbatim>\<open>int64\<close> nor \<^verbatim>\<open>uint64\<close> raises in the conversion.\<close>

definition ring_scalar :: "int \<Rightarrow> 64 word res" where
  "ring_scalar clear =
     raise_if (clear < - (2 ^ 63) \<or> clear \<ge> 2 ^ 64) (OverflowError ''Python int too large to convert to C long'')
       (Inr (word_of_int clear))"

definition mul_public :: "'c PartyRuntime \<Rightarrow> SharedTensor \<Rightarrow> int \<Rightarrow> string \<Rightarrow> SharedTensor res" where
  "mul_public rt value clear tensor_id =
     bindE (check rt [value]) (\<lambda>_. bindE (ring_scalar clear) (\<lambda>c.
       result_tensor rt tensor_id (nd_map (\<lambda>v. v * c) (st_values value)) (st_scale value)))"

definition mul_public_tensor :: "'c PartyRuntime \<Rightarrow> SharedTensor \<Rightarrow> array_arg \<Rightarrow> string \<Rightarrow> SharedTensor res" where
  "mul_public_tensor rt value clear tensor_id =
     bindE (check rt [value]) (\<lambda>_.
       bindE (nd_broadcast_to (ring_array clear) (st_shape value)) (\<lambda>c.
         result_tensor rt tensor_id (nd_mul (st_values value) c) (st_scale value)))"

definition sum_last :: "'c PartyRuntime \<Rightarrow> SharedTensor \<Rightarrow> string \<Rightarrow> SharedTensor res" where
  "sum_last rt value tensor_id =
     bindE (check rt [value]) (\<lambda>_. bindE (nd_sum (st_values value) (- 1) True) (\<lambda>result.
       result_tensor rt tensor_id result (st_scale value)))"

definition sum_axis :: "'c PartyRuntime \<Rightarrow> SharedTensor \<Rightarrow> int \<Rightarrow> string \<Rightarrow> bool \<Rightarrow> SharedTensor res" where
  "sum_axis rt value axis tensor_id keepdims =
     bindE (check rt [value]) (\<lambda>_. bindE (nd_sum (st_values value) axis keepdims) (\<lambda>result.
       result_tensor rt tensor_id result (st_scale value)))"

definition broadcast_last :: "'c PartyRuntime \<Rightarrow> SharedTensor \<Rightarrow> int \<Rightarrow> string \<Rightarrow> SharedTensor res" where
  "broadcast_last rt value width tensor_id =
     bindE (check rt [value]) (\<lambda>_.
       raise_if (last (st_shape value) \<noteq> 1 \<or> width \<le> 0)
         (SharedMPCError ''shared tensor cannot be broadcast to requested width'')
       (bindE (nd_broadcast_to (st_values value) (butlast (st_shape value) @ [nat width])) (\<lambda>result.
         result_tensor rt tensor_id result (st_scale value))))"

definition reinterpret_scale :: "'c PartyRuntime \<Rightarrow> SharedTensor \<Rightarrow> int \<Rightarrow> string \<Rightarrow> SharedTensor res" where
  "reinterpret_scale rt value scale tensor_id =
     bindE (check rt [value]) (\<lambda>_. result_tensor rt tensor_id (st_values value) scale)"

text \<open>
  The optional matrix executor compiles an \<^verbatim>\<open>int8\<close> matrix and multiplies ring arrays by it; compiled
  matrices are cached under their shape and SHA-256 digest.
\<close>

record 'c matrix_executor =
  mx_compile :: "i64array \<Rightarrow> 'c"
  mx_wrap64 :: "'c \<Rightarrow> u64array \<Rightarrow> u64array"

definition int8_bytes :: "i64array \<Rightarrow> bytes" where
  "int8_bytes m = map word_of_int (nd_data m)"

definition row_bound :: "i64array \<Rightarrow> int \<Rightarrow> int" where
  "row_bound m signed_bound =
     Max ((\<lambda>r. sum_list (map abs (matrix_row m r))) ` {0..<nd_shape m ! 0}) * signed_bound"

definition linear_public ::
  "(bytes \<Rightarrow> digest) \<Rightarrow> 'c matrix_executor option \<Rightarrow> 'c PartyRuntime \<Rightarrow> SharedTensor \<Rightarrow> i64array \<Rightarrow> string \<Rightarrow> int
    \<Rightarrow> 'c PartyRuntime \<times> SharedTensor res" where
  "linear_public sha executor rt value weight tensor_id signed_bound =
     onS (check rt [value]) rt (\<lambda>_.
     raiseS (length (nd_shape weight) \<noteq> 2 \<or> nd_shape weight ! 1 \<noteq> last (st_shape value))
       (SharedMPCError ''public linear weight shape is invalid'') rt
    (raiseS (list_ex (\<lambda>w. w < - 128 \<or> w > 127) (nd_data weight))
       (SharedMPCError ''public linear weights must fit signed int8'') rt
    (raiseS (signed_bound \<le> 0) (SharedMPCError ''public linear signed bound must be positive'') rt
    (raiseS (nd_shape weight ! 0 = 0)
       (ValueError ''zero-size array to reduction operation maximum which has no identity'') rt
    (raiseS (row_bound weight signed_bound \<ge> 2 ^ 63)
       (SharedMPCError ''public linear output exceeds signed ring range'') rt
    (case executor of
       None \<Rightarrow> (rt, result_tensor rt tensor_id (nd_matmul_t (st_values value) (ring_of_ints weight)) (st_scale value))
     | Some mx \<Rightarrow>
         (let key = (nd_shape weight ! 0, nd_shape weight ! 1, sha (int8_bytes weight));
              (rt', compiled) = (case rt_compiled_matrices rt key of
                 Some c \<Rightarrow> (rt, c)
               | None \<Rightarrow> (let c = mx_compile mx weight
                         in (rt\<lparr>rt_compiled_matrices := (rt_compiled_matrices rt)(key \<mapsto> c)\<rparr>, c)))
          in (rt', result_tensor rt' tensor_id (mx_wrap64 mx compiled (st_values value)) (st_scale value)))))))))"

section \<open>Multiplication\<close>

definition upload :: "nat \<Rightarrow> 'c PartyRuntime \<Rightarrow> 'c PartyRuntime" where
  "upload n rt = rt\<lparr>rt_stats := (rt_stats rt)\<lparr>uploaded_bytes := uploaded_bytes (rt_stats rt) + n\<rparr>\<rparr>"

definition begin_multiply ::
  "'l burn_ops \<Rightarrow> packer \<Rightarrow> 'c PartyRuntime \<times> 'l \<Rightarrow> SharedTensor \<Rightarrow> SharedTensor \<Rightarrow> BeaverTripleShare \<Rightarrow> string
    \<Rightarrow> ('c PartyRuntime \<times> 'l) \<times> (MultiplicationState \<times> OpeningFrame) res" where
  "begin_multiply ops packb s left right triple operation_id =
     (let (rt, l) = s in
      raiseS (st_shape left \<noteq> st_shape right) (SharedMPCError ''multiplication tensor shapes do not match'') s
     (onS (check rt [left]) s (\<lambda>_. onS (check rt [right]) s (\<lambda>_.
      raiseS (bt_session_id triple \<noteq> rt_session_id rt \<or> bt_party triple \<noteq> rt_party rt \<or> bt_shape triple \<noteq> st_shape left)
        (SharedMPCError ''Beaver triple does not match multiplication'') s
     (raiseS (bt_triple_id triple \<in> rt_burned_triples rt)
        (SharedMPCError ''Beaver triple has already been consumed'') s
     (let (l', burned) = bl_burn ops l (rt_session_id rt) (rt_party rt) ''multiplication'' (bt_triple_id triple) in
      onS burned (rt, l') (\<lambda>_.
      let rt' = rt\<lparr>rt_burned_triples := insert (bt_triple_id triple) (rt_burned_triples rt)\<rparr> in
      onS (mk_OpeningFrame (rt_session_id rt) operation_id (rt_party rt)
             (nd_sub (st_values left) (bt_a triple)) (nd_sub (st_values right) (bt_b triple)))
        (rt', l') (\<lambda>frame.
      ((upload (length (OpeningFrame_pack packb frame)) rt', l'),
       Inr (\<lparr>ms_operation_id = operation_id, ms_triple = triple, ms_output_scale = st_scale left * st_scale right\<rparr>,
            frame))))))))))"

definition multiply_result :: "nat \<Rightarrow> BeaverTripleShare \<Rightarrow> u64array \<Rightarrow> u64array \<Rightarrow> u64array" where
  "multiply_result party triple d e =
     (let result = nd_add (nd_add (bt_c triple) (nd_mul d (bt_b triple))) (nd_mul e (bt_a triple))
      in if party = 0 then nd_add result (nd_mul d e) else result)"

definition finish_multiply ::
  "packer \<Rightarrow> 'c PartyRuntime \<Rightarrow> MultiplicationState \<Rightarrow> OpeningFrame \<Rightarrow> OpeningFrame \<Rightarrow> string
    \<Rightarrow> 'c PartyRuntime \<times> SharedTensor res" where
  "finish_multiply packb rt state local peer tensor_id =
     raiseS (of_session_id local \<noteq> rt_session_id rt \<or> of_session_id peer \<noteq> rt_session_id rt
         \<or> of_operation_id local \<noteq> ms_operation_id state \<or> of_operation_id peer \<noteq> ms_operation_id state
         \<or> of_party local \<noteq> rt_party rt \<or> of_party peer = rt_party rt
         \<or> nd_shape (of_d local) \<noteq> bt_shape (ms_triple state) \<or> nd_shape (of_d peer) \<noteq> bt_shape (ms_triple state))
       (SharedMPCError ''multiplication opening does not match state'') rt
     (let d = nd_add (of_d local) (of_d peer);
          e = nd_add (of_e local) (of_e peer);
          st = rt_stats rt;
          rt' = rt\<lparr>rt_stats := st\<lparr>multiplication_rounds := multiplication_rounds st + 1,
                                 opened_elements := opened_elements st + (nd_size d + nd_size e),
                                 downloaded_bytes := downloaded_bytes st + length (OpeningFrame_pack packb peer)\<rparr>\<rparr>
      in (rt', result_tensor rt' tensor_id (multiply_result (rt_party rt) (ms_triple state) d e) (ms_output_scale state)))"

section \<open>Probabilistic truncation\<close>

definition offset_share :: "nat \<Rightarrow> 64 word" where
  "offset_share party = (if party = 0 then 2 ^ 62 else 0)"

definition begin_truncate ::
  "'l burn_ops \<Rightarrow> 'c PartyRuntime \<times> 'l \<Rightarrow> SharedTensor \<Rightarrow> TruncationMaskShare \<Rightarrow> string \<Rightarrow> int
    \<Rightarrow> ('c PartyRuntime \<times> 'l) \<times> (TruncationState \<times> ValueOpeningFrame) res" where
  "begin_truncate ops s value msk operation_id signed_bound =
     (let (rt, l) = s in
      onS (check rt [value]) s (\<lambda>_.
      raiseS (tm_session_id msk \<noteq> rt_session_id rt \<or> tm_party msk \<noteq> rt_party rt)
        (SharedMPCError ''truncation mask belongs to another party or session'') s
     (raiseS (nd_shape (tm_value msk) \<noteq> st_shape value)
        (SharedMPCError ''truncation mask shape does not match tensor'') s
     (raiseS (tm_mask_id msk \<in> rt_burned_masks rt) (SharedMPCError ''truncation mask was already consumed'') s
     (raiseS (signed_bound \<le> 0 \<or> signed_bound > tm_maximum_magnitude msk)
        (SharedMPCError ''truncation input exceeds statistically hidden range'') s
     (let profile = (tm_session_security_bits msk, tm_per_element_security_bits msk, tm_opened_element_budget msk);
          sz = nd_size (st_values value) in
      raiseS (tm_session_security_bits msk < rt_minimum_bits rt)
        (SharedMPCError ''truncation mask misses session statistical-security target'') s
     (raiseS (rt_truncation_profile rt \<noteq> None \<and> rt_truncation_profile rt \<noteq> Some profile)
        (SharedMPCError ''truncation masks use inconsistent session security accounting'') s
     (let rt = rt\<lparr>rt_truncation_profile := Some profile\<rparr> in
      raiseS (int (rt_truncation_opened rt + sz) > tm_opened_element_budget msk)
        (SharedMPCError ''truncation session opening budget exhausted'') (rt, l)
     (raiseS (st_scale value mod 2 ^ tm_bits msk \<noteq> 0)
        (SharedMPCError ''tensor scale cannot be truncated by requested bits'') (rt, l)
     (let (l', burned) = bl_burn_truncation ops l (rt_session_id rt) (rt_party rt) (tm_mask_id msk) profile (int sz) in
      onS burned (rt, l') (\<lambda>_.
      let rt = rt\<lparr>rt_burned_masks := insert (tm_mask_id msk) (rt_burned_masks rt),
                   rt_truncation_opened := rt_truncation_opened rt + sz\<rparr> in
      onS (mk_ValueOpeningFrame (rt_session_id rt) operation_id (rt_party rt)
             (nd_map (\<lambda>v. v + offset_share (rt_party rt)) (nd_add (st_values value) (tm_value msk))))
        (rt, l') (\<lambda>frame.
      ((rt, l'), Inr (\<lparr>ts_operation_id = operation_id, ts_mask = msk,
                       ts_output_scale = st_scale value div 2 ^ tm_bits msk, ts_offset = 2 ^ 62\<rparr>, frame))))))))))))))"

definition truncate_result :: "nat \<Rightarrow> nat \<Rightarrow> nat \<Rightarrow> u64array \<Rightarrow> u64array \<Rightarrow> u64array" where
  "truncate_result party bits offset shifted opened =
     (let public = nd_map (\<lambda>c. drop_bit bits c - of_nat (drop_bit bits offset)) opened;
          result = nd_map (\<lambda>v. 0 - v) shifted
      in if party = 0 then nd_add result public else result)"

definition finish_truncate ::
  "'c PartyRuntime \<Rightarrow> TruncationState \<Rightarrow> ValueOpeningFrame \<Rightarrow> ValueOpeningFrame \<Rightarrow> string
    \<Rightarrow> 'c PartyRuntime \<times> SharedTensor res" where
  "finish_truncate rt state local peer tensor_id =
     raiseS (ts_operation_id state \<noteq> vf_operation_id local \<or> vf_operation_id local \<noteq> vf_operation_id peer
         \<or> vf_session_id local \<noteq> rt_session_id rt \<or> vf_session_id peer \<noteq> rt_session_id rt
         \<or> vf_party local \<noteq> rt_party rt \<or> vf_party peer = rt_party rt
         \<or> nd_shape (vf_value local) \<noteq> nd_shape (tm_value (ts_mask state))
         \<or> nd_shape (vf_value peer) \<noteq> nd_shape (tm_value (ts_mask state)))
       (SharedMPCError ''truncation opening does not match state'') rt
     (let opened = nd_add (vf_value local) (vf_value peer);
          rt' = rt\<lparr>rt_stats := (rt_stats rt)\<lparr>opened_elements := opened_elements (rt_stats rt) + nd_size opened\<rparr>\<rparr>
      in (rt', result_tensor rt' tensor_id
                 (truncate_result (rt_party rt) (tm_bits (ts_mask state)) (ts_offset state) (tm_shifted (ts_mask state)) opened)
                 (ts_output_scale state)))"

section \<open>Exact truncation\<close>

definition begin_exact_truncate ::
  "'l burn_ops \<Rightarrow> packer \<Rightarrow> 'c PartyRuntime \<times> 'l \<Rightarrow> SharedTensor \<Rightarrow> exact_mask \<Rightarrow> string \<Rightarrow> int
    \<Rightarrow> ('c PartyRuntime \<times> 'l) \<times> (ExactTruncationState \<times> ValueOpeningFrame) res" where
  "begin_exact_truncate ops packb s value msk operation_id signed_bound =
     (let (rt, l) = s; sz = nd_size (st_values value) in
      onS (check rt [value]) s (\<lambda>_.
      raiseS (em_session_id msk \<noteq> rt_session_id rt \<or> em_party msk \<noteq> rt_party rt \<or> nd_shape (em_value msk) \<noteq> st_shape value)
        (SharedMPCError ''exact truncation mask does not match party or tensor'') s
     (raiseS (operation_id = [] \<or> em_mask_id msk \<in> rt_burned_masks rt)
        (SharedMPCError ''exact truncation mask is invalid or already consumed'') s
     (raiseS (\<not> (0 < signed_bound \<and> signed_bound < 2 ^ 62))
        (SharedMPCError ''exact truncation requires a strict signed gap'') s
     (raiseS (st_scale value mod 2 ^ em_bits msk \<noteq> 0)
        (SharedMPCError ''tensor scale cannot be truncated by requested bits'') s
     (let profile = (64, 64, em_opened_element_budget msk) in
      raiseS (rt_truncation_profile rt \<noteq> None \<and> rt_truncation_profile rt \<noteq> Some profile)
        (SharedMPCError ''truncation masks use inconsistent session security accounting'') s
     (raiseS (int (rt_truncation_opened rt + sz) > em_opened_element_budget msk)
        (SharedMPCError ''truncation session opening budget exhausted'') s
     (let (l', burned) = bl_burn_truncation ops l (rt_session_id rt) (rt_party rt) (em_mask_id msk) profile (int sz) in
      onS burned (rt, l') (\<lambda>_.
      let rt = rt\<lparr>rt_truncation_profile := Some profile, rt_truncation_opened := rt_truncation_opened rt + sz,
                   rt_burned_masks := insert (em_mask_id msk) (rt_burned_masks rt)\<rparr> in
      onS (mk_ValueOpeningFrame (rt_session_id rt) operation_id (rt_party rt)
             (nd_map (\<lambda>v. v + offset_share (rt_party rt)) (nd_add (st_values value) (em_value msk))))
        (rt, l') (\<lambda>frame.
      ((upload (length (ValueOpeningFrame_pack packb frame)) rt, l'),
       Inr (\<lparr>es_operation_id = operation_id, es_mask = msk, es_output_scale = st_scale value div 2 ^ em_bits msk\<rparr>,
            frame))))))))))))"

definition open_exact ::
  "packer \<Rightarrow> 'c PartyRuntime \<Rightarrow> ExactTruncationState \<Rightarrow> ValueOpeningFrame \<Rightarrow> ValueOpeningFrame
    \<Rightarrow> 'c PartyRuntime \<times> u64array res" where
  "open_exact packb rt state local peer =
     raiseS (vf_session_id local \<noteq> rt_session_id rt \<or> vf_session_id peer \<noteq> rt_session_id rt
         \<or> es_operation_id state \<noteq> vf_operation_id local \<or> vf_operation_id local \<noteq> vf_operation_id peer
         \<or> vf_party local \<noteq> rt_party rt \<or> vf_party peer = rt_party rt
         \<or> nd_shape (vf_value local) \<noteq> nd_shape (em_value (es_mask state))
         \<or> nd_shape (vf_value peer) \<noteq> nd_shape (em_value (es_mask state)))
       (SharedMPCError ''exact truncation opening does not match state'') rt
     (let opened = nd_add (vf_value local) (vf_value peer);
          st = rt_stats rt
      in (rt\<lparr>rt_stats := st\<lparr>opened_elements := opened_elements st + nd_size opened,
                            downloaded_bytes := downloaded_bytes st + length (ValueOpeningFrame_pack packb peer)\<rparr>\<rparr>,
          Inr opened))"

definition carry_start_values :: "u64array \<Rightarrow> u64array \<Rightarrow> u64array" where
  "carry_start_values low0 opened = nd_map2 (\<lambda>m c. m * (1 - (c AND 1))) low0 opened"

definition exact_carry_start ::
  "packer \<Rightarrow> 'c PartyRuntime \<Rightarrow> ExactTruncationState \<Rightarrow> ValueOpeningFrame \<Rightarrow> ValueOpeningFrame
    \<Rightarrow> 'c PartyRuntime \<times> (u64array \<times> SharedTensor) res" where
  "exact_carry_start packb rt state local peer =
     (case es_mask state of
        FssMask _ \<Rightarrow> (rt, Inl (SharedMPCError ''exact carry requires Beaver comparison shares''))
      | ExactMask msk \<Rightarrow>
          (let (rt', r) = open_exact packb rt state local peer in
           (rt', bindE r (\<lambda>opened.
             bindE (result_tensor rt' (es_operation_id state @ '':carry:0'')
                      (carry_start_values (nd_last_at (xm_low_bit_shares msk) 0) opened) 1)
               (\<lambda>carry. Inr (opened, carry))))))"

definition mask_bit_shares :: "exact_mask \<Rightarrow> nat \<Rightarrow> u64array" where
  "mask_bit_shares msk k = (case msk of
     ExactMask m \<Rightarrow> nd_last_at (xm_low_bit_shares m) k
   | FssMask m \<Rightarrow> nd_last_at (fm_high_bit_shares m) (k - fm_comparison_bits m))"

definition carry_bit_values :: "u64array \<Rightarrow> u64array \<Rightarrow> u64array \<Rightarrow> u64array \<Rightarrow> nat \<Rightarrow> u64array" where
  "carry_bit_values mask_bits opened carry product k =
     (let public_zero = nd_map (\<lambda>c. 1 - (drop_bit k c AND 1)) opened
      in nd_add product (nd_mul public_zero
           (nd_sub (nd_add mask_bits carry) (nd_map (\<lambda>p. 2 * p) product))))"

definition exact_carry_bit ::
  "'c PartyRuntime \<Rightarrow> ExactTruncationState \<Rightarrow> u64array \<Rightarrow> SharedTensor \<Rightarrow> SharedTensor \<Rightarrow> nat \<Rightarrow> SharedTensor res" where
  "exact_carry_bit rt state opened carry product k =
     bindE (check rt [carry, product]) (\<lambda>_.
       raise_if (\<not> (0 < k \<and> k < em_bits (es_mask state)) \<or> nd_shape opened \<noteq> st_shape carry
           \<or> (case es_mask state of FssMask m \<Rightarrow> k < fm_comparison_bits m | ExactMask _ \<Rightarrow> False))
         (SharedMPCError ''exact truncation carry step is invalid'')
         (result_tensor rt (es_operation_id state @ '':carry:'' @ str_nat k)
            (carry_bit_values (mask_bit_shares (es_mask state) k) opened (st_values carry) (st_values product) k) 1))"

definition fss_carry_values :: "nat \<Rightarrow> u64array \<Rightarrow> u64array \<Rightarrow> u64array" where
  "fss_carry_values party ring_mask comparison =
     (let share = nd_map2 (\<lambda>m b. m * (1 - 2 * b)) ring_mask comparison
      in if party = 0 then nd_add share comparison else share)"

definition fss_carry_share ::
  "'c PartyRuntime \<Rightarrow> ExactTruncationState \<Rightarrow> u64array \<Rightarrow> u64array \<Rightarrow> SharedTensor res" where
  "fss_carry_share rt state opened public_comparison =
     (case es_mask state of
        ExactMask _ \<Rightarrow> Inl (SharedMPCError ''FSS carry requires FSS comparison shares'')
      | FssMask msk \<Rightarrow>
          raise_if (nd_shape opened \<noteq> nd_shape (fm_value msk) \<or> nd_shape public_comparison \<noteq> nd_shape opened
              \<or> list_ex (\<lambda>b. b > 1) (nd_data public_comparison))
            (SharedMPCError ''FSS comparison result is invalid'')
            (result_tensor rt (es_operation_id state @ '':carry:fss'')
               (fss_carry_values (rt_party rt) (fm_ring_mask_share msk) public_comparison) 1))"

definition exact_result :: "nat \<Rightarrow> nat \<Rightarrow> u64array \<Rightarrow> u64array \<Rightarrow> u64array \<Rightarrow> u64array \<Rightarrow> u64array" where
  "exact_result party bits sign_share shifted opened carry =
     (let wrap = nd_map2 (\<lambda>s c. s * (1 - drop_bit 63 c)) sign_share opened;
          result = nd_add (nd_sub (nd_map uminus shifted) carry) (nd_map (\<lambda>w. w * 2 ^ (64 - bits)) wrap)
      in if party = 0
         then nd_add result (nd_map (\<lambda>c. drop_bit bits c - of_nat (drop_bit bits (2 ^ 62))) opened)
         else result)"

definition finish_exact_truncate ::
  "'c PartyRuntime \<Rightarrow> ExactTruncationState \<Rightarrow> u64array \<Rightarrow> SharedTensor \<Rightarrow> string \<Rightarrow> SharedTensor res" where
  "finish_exact_truncate rt state opened carry tensor_id =
     bindE (check rt [carry]) (\<lambda>_.
       raise_if (st_shape carry \<noteq> nd_shape (em_value (es_mask state)) \<or> nd_shape opened \<noteq> st_shape carry)
         (SharedMPCError ''exact truncation correction shape is invalid'')
         (result_tensor rt tensor_id
            (exact_result (rt_party rt) (em_bits (es_mask state)) (em_sign_bit_share (es_mask state))
               (em_shifted (es_mask state)) opened (st_values carry))
            (es_output_scale state)))"

text \<open>Reconstruction of the two shares (\<^verbatim>\<open>reconstruct\<close>).\<close>

definition reconstruct :: "SharedTensor \<Rightarrow> SharedTensor \<Rightarrow> u64array res" where
  "reconstruct first second =
     raise_if (st_session_id first \<noteq> st_session_id second \<or> st_party first = st_party second
         \<or> st_shape first \<noteq> st_shape second \<or> st_scale first \<noteq> st_scale second)
       (SharedMPCError ''shares cannot be reconstructed together'')
       (Inr (nd_add (st_values first) (st_values second)))"

end
