(* ===== verification/Exact_Shift.thy ===== *)
theory Exact_Shift
  imports Prelude
begin

text \<open>
  The ring arithmetic behind truncation. A masked value \<open>c = x + 2 ^ 62 + r\<close> is opened; from \<open>c\<close> and
  shares of the shifted mask the parties form shares of \<open>x\<close> divided by \<open>2 ^ b\<close>. The lemmas give the
  wrap identity of exact truncation, the recurrence of its carry bit, and the rounding error of
  probabilistic truncation.
\<close>

section \<open>Integer identities\<close>

lemma diff_div_carry:
  fixes c r m :: int
  assumes "0 < m"
  shows "(c - r) div m = c div m - r div m - of_bool (c mod m < r mod m)"
proof -
  have c: "c = c div m * m + c mod m" and r: "r = r div m * m + r mod m" by simp_all
  have "c - r = (c mod m - r mod m) + (c div m - r div m) * m"
    by (subst c, subst r) (simp add: algebra_simps)
  then have "(c - r) div m = (c div m - r div m) + (c mod m - r mod m) div m"
    using assms by (metis add.commute div_mult_self1 less_irrefl)
  moreover have "(c mod m - r mod m) div m = - of_bool (c mod m < r mod m)"
  proof (cases "c mod m < r mod m")
    case True
    have "(c mod m - r mod m) div m = - 1"
      using assms True pos_mod_bound [OF assms, of r] pos_mod_sign [OF assms, of c]
      by (intro int_div_pos_eq [where r = "c mod m - r mod m + m"]) simp_all
    with True show ?thesis by simp
  next
    case False
    with pos_mod_bound [OF assms, of c] pos_mod_sign [OF assms, of r] show ?thesis
      by (simp add: div_pos_pos_trivial)
  qed
  ultimately show ?thesis by simp
qed

lemma add_div_carry:
  fixes x r m :: int
  assumes "0 < m"
  shows "(x + r) div m = x div m + r div m + of_bool (m \<le> x mod m + r mod m)"
proof -
  have x: "x = x div m * m + x mod m" and r: "r = r div m * m + r mod m" by simp_all
  have "x + r = (x mod m + r mod m) + (x div m + r div m) * m"
    by (subst x, subst r) (simp add: algebra_simps)
  then have "(x + r) div m = (x div m + r div m) + (x mod m + r mod m) div m"
    using assms by (metis add.commute div_mult_self1 less_irrefl)
  moreover have "(x mod m + r mod m) div m = of_bool (m \<le> x mod m + r mod m)"
  proof (cases "m \<le> x mod m + r mod m")
    case True
    have "(x mod m + r mod m) div m = 1"
      using assms True pos_mod_bound [OF assms, of x] pos_mod_bound [OF assms, of r]
      by (intro int_div_pos_eq [where r = "x mod m + r mod m - m"]) simp_all
    with True show ?thesis by simp
  next
    case False
    with assms pos_mod_sign [OF assms, of x] pos_mod_sign [OF assms, of r] show ?thesis
      by (simp add: div_pos_pos_trivial)
  qed
  ultimately show ?thesis by simp
qed

lemma wrap_identity:
  fixes X r c W :: int
  assumes "c = X + r - W * 2 ^ 64" and "b \<le> 64"
  shows "X div 2 ^ b = c div 2 ^ b - r div 2 ^ b - of_bool (c mod 2 ^ b < r mod 2 ^ b) + W * 2 ^ (64 - b)"
proof -
  have "(2 :: int) ^ 64 = 2 ^ (64 - b) * 2 ^ b" using assms(2) by (simp flip: power_add)
  then have "X = (c - r) + (W * 2 ^ (64 - b)) * 2 ^ b" using assms(1) by simp
  then have "X div 2 ^ b = (c - r) div 2 ^ b + W * 2 ^ (64 - b)" by (metis add.commute div_mult_self1 power_not_zero zero_neq_numeral)
  then show ?thesis by (simp add: diff_div_carry)
qed

section \<open>Ring words\<close>

definition low_gt :: "nat \<Rightarrow> 64 word \<Rightarrow> 64 word \<Rightarrow> bool" where
  "low_gt b r c \<longleftrightarrow> take_bit b c < take_bit b r"

definition masked :: "64 word \<Rightarrow> 64 word \<Rightarrow> 64 word" where
  "masked x r = x + r + 2 ^ 62"

definition exact_floor :: "nat \<Rightarrow> 64 word \<Rightarrow> 64 word" where
  "exact_floor b x = word_of_int (sint x div 2 ^ b)"

definition signed_within :: "int \<Rightarrow> 64 word \<Rightarrow> bool" where
  "signed_within bound x \<longleftrightarrow> \<bar>sint x\<bar> \<le> bound"

lemma uint_lt64: "uint (w :: 64 word) < 2 ^ 64"
  using unsigned_less [of w, where 'a = int] by simp

lemma uint_drop_bit_int: "uint (drop_bit b (w :: 64 word)) = uint w div 2 ^ b"
proof -
  have "take_bit 64 (uint w) = uint w" using uint_lt64 [of w] by (simp add: take_bit_int_eq_self)
  then have "uint (drop_bit b w) = drop_bit b (uint w)" by (simp add: unsigned_drop_bit_eq)
  then show ?thesis by (simp only: drop_bit_eq_div)
qed

lemma drop_bit_of_int: "drop_bit b (w :: 64 word) = word_of_int (uint w div 2 ^ b)"
  by (metis uint_drop_bit_int word_of_int_uint)

lemma low_gt_uint: "low_gt b r c \<longleftrightarrow> uint c mod 2 ^ b < uint r mod 2 ^ b"
  by (simp only: low_gt_def word_less_def unsigned_take_bit_eq take_bit_eq_mod [of b "uint c"] take_bit_eq_mod [of b "uint r"])


lemma low_gt_zero [simp]: "\<not> low_gt 0 r c"
  by (simp add: low_gt_def)

lemma low_gt_Suc:
  assumes "k < 64"
  shows "low_gt (Suc k) r c \<longleftrightarrow> (bit r k \<and> \<not> bit c k) \<or> (bit r k = bit c k \<and> low_gt k r c)"
proof -
  have top: "uint w mod 2 ^ Suc k = uint w mod 2 ^ k + of_bool (bit w k) * 2 ^ k" for w :: "64 word"
  proof -
    have "bit (uint w) k = bit w k" using assms by (simp add: bit_uint_iff)
    then have "(uint w div 2 ^ k) mod 2 = of_bool (bit w k)" by (simp add: bit_iff_odd mod_2_eq_odd)
    moreover have "uint w mod 2 ^ Suc k = uint w mod 2 ^ k + 2 ^ k * (uint w div 2 ^ k mod 2)"
      using zmod_zmult2_eq [of 2 "uint w" "2 ^ k"] by (simp add: mult.commute)
    ultimately show ?thesis by simp
  qed
  have lt: "uint w mod 2 ^ k < 2 ^ k" "0 \<le> uint w mod 2 ^ k" for w :: "64 word" by simp_all
  have "uint c mod 2 ^ k < uint r mod 2 ^ k + 2 ^ k" "\<not> uint c mod 2 ^ k + 2 ^ k < uint r mod 2 ^ k"
    using lt(1) [of c] lt(2) [of r] lt(1) [of r] lt(2) [of c] by linarith+
  then show ?thesis unfolding low_gt_uint top by (cases "bit r k"; cases "bit c k") simp_all
qed

text \<open>One step of the carry chain, with \<open>p\<close> the product of the mask bit and the carry so far.\<close>

lemma carry_step:
  assumes "k < 64"
  shows "of_bool (bit r k) * of_bool (low_gt k r c)
     + (1 - (drop_bit k c AND 1)) * (of_bool (bit r k) + of_bool (low_gt k r c)
         - 2 * (of_bool (bit r k) * of_bool (low_gt k r c))) = (of_bool (low_gt (Suc k) r c) :: 64 word)"
proof -
  have "drop_bit k c AND 1 = of_bool (bit c k)" by (simp add: and_one_eq bit_iff_odd_drop_bit odd_iff_mod_2_eq_one)
  then show ?thesis unfolding low_gt_Suc [OF assms] by auto
qed

lemma carry_first: "of_bool (bit r 0) * (1 - (c AND 1)) = (of_bool (low_gt 1 r c) :: 64 word)"
  using carry_step [of 0 r c] by (simp add: mult.commute)


section \<open>Exact and probabilistic truncation\<close>

lemma masked_int:
  assumes "\<bar>sint x\<bar> \<le> 2 ^ 62"
  shows "uint (masked x r) = sint x + 2 ^ 62 + uint r - of_bool (2 ^ 64 \<le> sint x + 2 ^ 62 + uint r) * 2 ^ 64"
proof -
  have "masked x r = word_of_int (sint x + 2 ^ 62 + uint r)" by (simp add: masked_def add.assoc add.commute)
  then have m: "uint (masked x r) = (sint x + 2 ^ 62 + uint r) mod 2 ^ 64" by (simp only: uint_word_of_int) simp
  have r: "0 \<le> uint r" "uint r < 2 ^ 64" using uint_lt64 [of r] by simp_all
  have "(sint x + 2 ^ 62 + uint r) mod 2 ^ 64 = sint x + 2 ^ 62 + uint r - of_bool (2 ^ 64 \<le> sint x + 2 ^ 62 + uint r) * 2 ^ 64"
    using assms r by (auto simp: abs_le_iff mod_pos_pos_trivial int_mod_pos_eq [where q = 1] split: if_splits)
  with m show ?thesis by simp
qed

text \<open>
  The wrap of the masked value is the sign of the mask when the opened sign is clear, because the
  offset input lies below \<open>2 ^ 63\<close>.
\<close>

lemma wrap_bit:
  assumes "\<bar>sint x\<bar> < 2 ^ 62"
  shows "of_bool (2 ^ 64 \<le> sint x + 2 ^ 62 + uint r) = uint r div 2 ^ 63 * (1 - uint (masked x r) div 2 ^ 63)"
proof -
  have r: "0 \<le> uint r" "uint r < 2 ^ 64" using uint_lt64 [of r] by simp_all
  have m: "uint (masked x r) = sint x + 2 ^ 62 + uint r - of_bool (2 ^ 64 \<le> sint x + 2 ^ 62 + uint r) * 2 ^ 64"
    using masked_int assms by simp
  have div: "v div 2 ^ 63 = of_bool (2 ^ 63 \<le> v)" if "0 \<le> v" "v < 2 ^ 64" for v :: int
    using that by (cases "2 ^ 63 \<le> v") (auto simp: div_pos_pos_trivial int_div_pos_eq [where r = "v - 2 ^ 63"])
  have mm: "0 \<le> uint (masked x r)" "uint (masked x r) < 2 ^ 64" using uint_lt64 by simp_all
  show ?thesis unfolding div [OF r] div [OF mm] using m r assms by (auto simp: abs_less_iff split: if_splits)
qed

lemma offset_word: "b \<le> 62 \<Longrightarrow> of_nat (drop_bit b (2 ^ 62)) = (word_of_int (2 ^ (62 - b)) :: 64 word)"
proof -
  assume "b \<le> 62"
  then have p: "(2 :: nat) ^ 62 = 2 ^ (62 - b) * 2 ^ b" by (simp flip: power_add)
  have "drop_bit b ((2 :: nat) ^ 62) = 2 ^ (62 - b)" unfolding drop_bit_eq_div p by simp
  then show ?thesis by simp
qed

lemma exact_shift_word:
  assumes "\<bar>sint x\<bar> < 2 ^ 62" and "0 < b" and "b < 63"
  shows "drop_bit b (masked x r) - of_nat (drop_bit b (2 ^ 62)) - drop_bit b r - of_bool (low_gt b r (masked x r))
     + drop_bit 63 r * (1 - drop_bit 63 (masked x r)) * 2 ^ (64 - b) = exact_floor b x"
proof -
  let ?c = "masked x r"
  let ?W = "of_bool (2 ^ 64 \<le> sint x + 2 ^ 62 + uint r) :: int"
  have "b \<le> 64" using assms(3) by simp
  with masked_int [of x r] assms(1)
  have w: "(sint x + 2 ^ 62) div 2 ^ b = uint ?c div 2 ^ b - uint r div 2 ^ b
       - of_bool (uint ?c mod 2 ^ b < uint r mod 2 ^ b) + ?W * 2 ^ (64 - b)"
    by (intro wrap_identity) simp_all
  have p: "(2 :: int) ^ 62 = 2 ^ (62 - b) * 2 ^ b" using assms(3) by (simp flip: power_add)
  have o: "(sint x + 2 ^ 62) div 2 ^ b = sint x div 2 ^ b + 2 ^ (62 - b)" unfolding p by simp
  have "of_nat (drop_bit b (2 ^ 62)) = (word_of_int (2 ^ (62 - b)) :: 64 word)"
    using assms(3) by (intro offset_word) simp
  moreover have "of_bool (low_gt b r ?c) = (word_of_int (of_bool (uint ?c mod 2 ^ b < uint r mod 2 ^ b)) :: 64 word)"
    by (simp add: low_gt_uint)
  moreover have "drop_bit 63 r * (1 - drop_bit 63 ?c) = word_of_int ?W"
    unfolding wrap_bit [OF assms(1)] by (simp add: drop_bit_of_int)
  moreover have "sint x div 2 ^ b = uint ?c div 2 ^ b - 2 ^ (62 - b) - uint r div 2 ^ b
       - of_bool (uint ?c mod 2 ^ b < uint r mod 2 ^ b) + ?W * 2 ^ (64 - b)" using w o by linarith
  moreover have "(2 :: 64 word) ^ (64 - b) = word_of_int (2 ^ (64 - b))" by simp
  ultimately show ?thesis
    unfolding exact_floor_def drop_bit_of_int [of b] by (simp only: of_int_add of_int_diff of_int_mult)
qed


lemma probabilistic_shift_word:
  assumes "\<bar>sint x\<bar> \<le> 2 ^ 61" and "uint r < 2 ^ 61" and "0 < b" and "b < 63"
  shows "drop_bit b (masked x r) - of_nat (drop_bit b (2 ^ 62)) - drop_bit b r
     = word_of_int (sint x div 2 ^ b + of_bool (2 ^ b \<le> sint x mod 2 ^ b + uint r mod 2 ^ b))"
proof -
  have c: "uint (masked x r) = (sint x + uint r) + 2 ^ 62"
    using masked_int [of x r] assms(1,2) by (simp add: abs_le_iff)
  have p: "(2 :: int) ^ 62 = 2 ^ (62 - b) * 2 ^ b" using assms(4) by (simp flip: power_add)
  have "((sint x + uint r) + 2 ^ 62) div 2 ^ b = (sint x + uint r) div 2 ^ b + 2 ^ (62 - b)" unfolding p by simp
  with c have "uint (masked x r) div 2 ^ b = (sint x + uint r) div 2 ^ b + 2 ^ (62 - b)" by simp
  moreover have "(sint x + uint r) div 2 ^ b = sint x div 2 ^ b + uint r div 2 ^ b
      + of_bool (2 ^ b \<le> sint x mod 2 ^ b + uint r mod 2 ^ b)" by (rule add_div_carry) simp
  moreover have "of_nat (drop_bit b (2 ^ 62)) = (word_of_int (2 ^ (62 - b)) :: 64 word)"
    using assms(4) by (intro offset_word) simp
  ultimately show ?thesis
    unfolding drop_bit_of_int [of b] by (simp only: of_int_add of_int_diff) simp
qed

end
