(* ===== verification/Party_Correct.thy ===== *)
theory Party_Correct
  imports Party_Runtime Exact_Shift
begin

text \<open>
  Correctness of the party runtime. Two runtimes of one session hold the two shares of a tensor; the
  lemmas show that every local operation and every pair of \<^verbatim>\<open>begin\<close> and \<^verbatim>\<open>finish\<close> keeps them shares of the
  value that the operation computes in the clear. The local operations share one contract, the
  locale \<open>local_linear\<close>, of which each is an interpretation.
\<close>

section \<open>Pairs of runtimes and shares\<close>

definition peers :: "'c PartyRuntime \<Rightarrow> 'c PartyRuntime \<Rightarrow> bool" where
  "peers r0 r1 \<longleftrightarrow> rt_session_id r0 \<noteq> [] \<and> rt_session_id r1 = rt_session_id r0 \<and> rt_party r0 = 0 \<and> rt_party r1 = 1"

definition tensor_ok :: "u64array \<Rightarrow> bool" where
  "tensor_ok x \<longleftrightarrow> nd_shape x \<noteq> [] \<and> nd_size x \<noteq> 0"

definition shares_of :: "string \<Rightarrow> u64array \<Rightarrow> int \<Rightarrow> SharedTensor \<Rightarrow> SharedTensor \<Rightarrow> bool" where
  "shares_of sid x sc t0 t1 \<longleftrightarrow> st_session_id t0 = sid \<and> st_session_id t1 = sid \<and> st_party t0 = 0 \<and> st_party t1 = 1
     \<and> st_scale t0 = sc \<and> st_scale t1 = sc \<and> 0 < sc \<and> tensor_ok x \<and> splits x (st_values t0) (st_values t1)"

lemma shares_ofD:
  assumes "shares_of sid x sc t0 t1"
  shows "splits x (st_values t0) (st_values t1)" "tensor_ok x" "0 < sc" "st_scale t0 = sc" "st_scale t1 = sc"
    "nd_shape (st_values t0) = nd_shape x" "nd_shape (st_values t1) = nd_shape x" "nd_wf x"
    "nd_wf (st_values t0)" "nd_wf (st_values t1)"
proof -
  have s: "splits x (st_values t0) (st_values t1)" using assms by (simp add: shares_of_def)
  then show "splits x (st_values t0) (st_values t1)" .
  show "nd_wf (st_values t0)" "nd_wf (st_values t1)" using s by (simp_all add: splits_def)
  show "nd_shape (st_values t0) = nd_shape x" "nd_shape (st_values t1) = nd_shape x" "nd_wf x"
    using splits_wf [OF s] by simp_all
  show "tensor_ok x" "0 < sc" "st_scale t0 = sc" "st_scale t1 = sc" using assms by (simp_all add: shares_of_def)
qed

lemma reconstruct_shares: "shares_of sid x sc t0 t1 \<Longrightarrow> reconstruct t0 t1 = Inr x"
  by (auto simp: shares_of_def reconstruct_def splits_def raise_if_def)

lemma result_shares:
  assumes "peers r0 r1" and "splits x a b" and "tensor_ok x" and "0 < sc" and "tid \<noteq> []"
  shows "\<exists>t0 t1. result_tensor r0 tid a sc = Inr t0 \<and> result_tensor r1 tid b sc = Inr t1
     \<and> shares_of (rt_session_id r0) x sc t0 t1"
  using assms splits_wf [OF assms(2)]
  by (simp add: result_tensor_def mk_SharedTensor_def peers_def shares_of_def tensor_ok_def nd_size_def)

lemma check_shares:
  assumes "peers r0 r1" and "shares_of (rt_session_id r0) x sc t0 t1"
  shows "check r0 [t0] = Inr ()" "check r1 [t1] = Inr ()"
  using assms by (auto simp: check_def peers_def shares_of_def)

lemma check_shares2:
  assumes "peers r0 r1" and "shares_of (rt_session_id r0) x sc t0 t1" and "shares_of (rt_session_id r0) y sc u0 u1"
    and "nd_shape y = nd_shape x"
  shows "check r0 [t0, u0] = Inr ()" "check r1 [t1, u1] = Inr ()"
  using assms shares_ofD(6,7) [OF assms(2)] shares_ofD(6,7) [OF assms(3)]
  by (auto simp: check_def peers_def shares_of_def)

section \<open>Additivity of array operations\<close>

lemma nd_nth_map2:
  "nd_wf a \<Longrightarrow> nd_wf b \<Longrightarrow> nd_shape b = nd_shape a \<Longrightarrow> i < nd_size a \<Longrightarrow>
     nd_data (nd_map2 f a b) ! i = f (nd_data a ! i) (nd_data b ! i)"
  by (simp add: nd_wf_def nd_size_def)

lemma nd_nth_map: "nd_wf a \<Longrightarrow> i < nd_size a \<Longrightarrow> nd_data (nd_map f a) ! i = f (nd_data a ! i)"
  by (simp add: nd_wf_def nd_size_def)

lemma nd_size_shape: "nd_shape a = nd_shape b \<Longrightarrow> nd_size a = nd_size b"
  by (simp add: nd_size_def)

lemma nd_size_maps [simp]: "nd_size (nd_map f a) = nd_size a" "nd_size (nd_map2 g a b) = nd_size a"
  by (simp_all add: nd_size_def)

lemmas nd_pointwise = nd_nth_map2 nd_nth_map nd_wf_map2

text \<open>Equality of arrays of one shape is pointwise equality.\<close>

lemma nd_ext:
  assumes "nd_shape a = nd_shape b" "length (nd_data a) = n" "length (nd_data b) = n"
    and "\<And>i. i < n \<Longrightarrow> nd_data a ! i = nd_data b ! i"
  shows "a = (b :: 'a ndarray)"
  using assms by (intro ndarray_eqI nth_equalityI) auto

lemma splits_map:
  assumes "splits x a b" and "\<And>u v. h (u + v) = f u + g v"
  shows "splits (nd_map h x) (nd_map f a) (nd_map g b)"
  using assms unfolding splits_def
  by (auto intro!: nd_ext [where n = "nd_size a"] simp: nd_wf_def nd_size_def)

lemma splits_map2:
  assumes "splits x a b" and "nd_wf c" and "nd_shape c = nd_shape x" and "\<And>u v w. h (u + v) w = f u w + g v w"
  shows "splits (nd_map2 h x c) (nd_map2 f a c) (nd_map2 g b c)"
  using assms unfolding splits_def
  by (auto intro!: nd_ext [where n = "nd_size a"] simp: nd_wf_def nd_size_def)

lemma splits_add:
  assumes "splits x a b" and "splits y c d" and "nd_shape y = nd_shape x"
  shows "splits (nd_add x y) (nd_add a c) (nd_add b d)"
  using assms unfolding splits_def
  by (auto intro!: nd_ext [where n = "nd_size a"] simp: nd_wf_def nd_size_def)

section \<open>The contract of local operations\<close>

text \<open>
  \<open>local_op f\<close> is the shape of every local operation of the runtime: check the tensor, apply the
  party's array function, build the result at the same scale. \<open>local_linear\<close> states that \<open>f\<close> acts on
  shares as \<open>g\<close> acts on the shared value.
\<close>

definition local_op :: "(nat \<Rightarrow> u64array \<Rightarrow> u64array res) \<Rightarrow> 'c PartyRuntime \<Rightarrow> SharedTensor \<Rightarrow> string \<Rightarrow> SharedTensor res" where
  "local_op f rt value tensor_id =
     bindE (check rt [value]) (\<lambda>_. bindE (f (rt_party rt) (st_values value)) (\<lambda>result.
       result_tensor rt tensor_id result (st_scale value)))"

locale local_linear =
  fixes f :: "nat \<Rightarrow> u64array \<Rightarrow> u64array res" and g :: "u64array \<Rightarrow> u64array res"
  assumes on_shares: "splits x a b \<Longrightarrow> nd_shape x \<noteq> [] \<Longrightarrow> g x = Inr y \<Longrightarrow>
            \<exists>a' b'. f 0 a = Inr a' \<and> f 1 b = Inr b' \<and> splits y a' b'"
begin

lemma op_shares:
  assumes "peers r0 r1" and "shares_of (rt_session_id r0) x sc t0 t1" and "g x = Inr y" and "tensor_ok y" and "tid \<noteq> []"
  shows "\<exists>u0 u1. local_op f r0 t0 tid = Inr u0 \<and> local_op f r1 t1 tid = Inr u1
     \<and> shares_of (rt_session_id r0) y sc u0 u1"
proof -
  note d = shares_ofD [OF assms(2)]
  from on_shares [OF d(1) _ assms(3)] d(2) obtain a b where
    ab: "f 0 (st_values t0) = Inr a" "f 1 (st_values t1) = Inr b" "splits y a b" by (auto simp: tensor_ok_def)
  from result_shares [OF assms(1) ab(3) assms(4) d(3) assms(5)] ab(1,2) check_shares [OF assms(1,2)] d(4,5) assms(1)
  show ?thesis by (simp add: local_op_def peers_def)
qed

end

definition add_public_values :: "array_arg \<Rightarrow> nat \<Rightarrow> u64array \<Rightarrow> u64array res" where
  "add_public_values c party v =
     (if party = 0 then bindE (nd_broadcast_to (ring_array c) (nd_shape v)) (\<lambda>c. Inr (nd_add v c)) else Inr v)"

definition mul_public_values :: "int \<Rightarrow> u64array \<Rightarrow> u64array res" where
  "mul_public_values c v = bindE (ring_scalar c) (\<lambda>c. Inr (nd_map (\<lambda>v. v * c) v))"

definition mul_tensor_values :: "array_arg \<Rightarrow> u64array \<Rightarrow> u64array res" where
  "mul_tensor_values c v = bindE (nd_broadcast_to (ring_array c) (nd_shape v)) (\<lambda>c. Inr (nd_mul v c))"

definition broadcast_values :: "int \<Rightarrow> u64array \<Rightarrow> u64array res" where
  "broadcast_values width v =
     raise_if (last (nd_shape v) \<noteq> 1 \<or> width \<le> 0)
       (SharedMPCError ''shared tensor cannot be broadcast to requested width'')
       (nd_broadcast_to v (butlast (nd_shape v) @ [nat width]))"

lemma local_op_forms:
  "add_public rt v c tid = local_op (add_public_values c) rt v tid"
  "mul_public rt v k tid = local_op (\<lambda>_. mul_public_values k) rt v tid"
  "mul_public_tensor rt v c tid = local_op (\<lambda>_. mul_tensor_values c) rt v tid"
  "sum_last rt v tid = local_op (\<lambda>_ x. nd_sum x (- 1) True) rt v tid"
  "sum_axis rt v axis tid kd = local_op (\<lambda>_ x. nd_sum x axis kd) rt v tid"
  "broadcast_last rt v width tid = local_op (\<lambda>_. broadcast_values width) rt v tid"
  by (auto simp: local_op_def add_public_def add_public_values_def mul_public_def mul_public_values_def
      mul_public_tensor_def mul_tensor_values_def sum_last_def sum_axis_def broadcast_last_def broadcast_values_def
      bindE_def raise_if_def split: sum.splits)

lemma broadcast_shape_ok:
  "nd_shape a = nd_shape b \<Longrightarrow> nd_broadcast_to a t = Inr a' \<Longrightarrow> \<exists>b'. nd_broadcast_to b t = Inr b'"
  by (auto simp: nd_broadcast_to_def res_simps)

lemma splits_add_public:
  assumes "splits x a b" and "nd_wf c" and "nd_shape c = nd_shape x"
  shows "splits (nd_add x c) (nd_add a c) b"
  using assms unfolding splits_def
  by (auto intro!: nd_ext [where n = "nd_size a"] simp: nd_wf_def nd_size_def)

interpretation addp: local_linear "add_public_values c" "add_public_values c 0" for c
proof
  fix x a b y :: u64array
  assume s: "splits x a b" and y: "add_public_values c 0 x = Inr y"
  note w = splits_wf [OF s]
  from y obtain k where k: "nd_broadcast_to (ring_array c) (nd_shape x) = Inr k" "y = nd_add x k"
    by (auto simp: add_public_values_def res_simps)
  from splits_add_public [OF s] nd_broadcast_to_wf [OF k(1)] k w
  show "\<exists>a' b'. add_public_values c 0 a = Inr a' \<and> add_public_values c 1 b = Inr b' \<and> splits y a' b'"
    by (simp add: add_public_values_def)
qed

interpretation mulp: local_linear "\<lambda>_. mul_public_values k" "mul_public_values k" for k
proof
  fix x a b y :: u64array
  assume s: "splits x a b" and y: "mul_public_values k x = Inr y"
  then obtain w where "ring_scalar k = Inr w" "y = nd_map (\<lambda>v. v * w) x" by (auto simp: mul_public_values_def res_simps)
  with splits_map [OF s, of "\<lambda>v. v * w" "\<lambda>v. v * w" "\<lambda>v. v * w"]
  show "\<exists>a' b'. mul_public_values k a = Inr a' \<and> mul_public_values k b = Inr b' \<and> splits y a' b'"
    by (simp add: mul_public_values_def distrib_right)
qed

interpretation mult: local_linear "\<lambda>_. mul_tensor_values c" "mul_tensor_values c" for c
proof
  fix x a b y :: u64array
  assume s: "splits x a b" and y: "mul_tensor_values c x = Inr y"
  note w = splits_wf [OF s]
  from y obtain k where k: "nd_broadcast_to (ring_array c) (nd_shape x) = Inr k" "y = nd_mul x k"
    by (auto simp: mul_tensor_values_def res_simps)
  from splits_map2 [OF s, of k "(*)" "(*)" "(*)"] nd_broadcast_to_wf [OF k(1)] k w
  show "\<exists>a' b'. mul_tensor_values c a = Inr a' \<and> mul_tensor_values c b = Inr b' \<and> splits y a' b'"
    by (simp add: mul_tensor_values_def distrib_right)
qed

lemma nd_sum_total: "nd_shape a = nd_shape b \<Longrightarrow> nd_sum a axis kd = Inr a' \<Longrightarrow> \<exists>b'. nd_sum b axis kd = Inr b'"
  by (auto simp: nd_sum_def res_simps)

interpretation suma: local_linear "\<lambda>_ x. nd_sum x axis kd" "\<lambda>x. nd_sum x axis kd" for axis kd
proof
  fix x a b y :: u64array
  assume s: "splits x a b" and y: "nd_sum x axis kd = Inr y"
  note w = splits_wf [OF s]
  obtain a' b' where ab: "nd_sum a axis kd = Inr a'" "nd_sum b axis kd = Inr b'"
    using nd_sum_total [of x a, OF _ y] nd_sum_total [of x b, OF _ y] w by auto
  with splits_sum [OF s ab] y show "\<exists>a' b'. nd_sum a axis kd = Inr a' \<and> nd_sum b axis kd = Inr b' \<and> splits y a' b'"
    by auto
qed

interpretation bcast: local_linear "\<lambda>_. broadcast_values width" "broadcast_values width" for width
proof
  fix x a b y :: u64array
  assume s: "splits x a b" and y: "broadcast_values width x = Inr y"
  note w = splits_wf [OF s]
  let ?t = "butlast (nd_shape x) @ [nat width]"
  from y have g: "\<not> (last (nd_shape x) \<noteq> 1 \<or> width \<le> 0)" and y': "nd_broadcast_to x ?t = Inr y"
    by (auto simp: broadcast_values_def res_simps)
  obtain a' b' where ab: "nd_broadcast_to a ?t = Inr a'" "nd_broadcast_to b ?t = Inr b'"
    using broadcast_shape_ok [of x a, OF _ y'] broadcast_shape_ok [of x b, OF _ y'] w by auto
  with splits_broadcast [OF s ab] y' g w
  show "\<exists>a' b'. broadcast_values width a = Inr a' \<and> broadcast_values width b = Inr b' \<and> splits y a' b'"
    by (auto simp: broadcast_values_def)
qed

interpretation matp: local_linear "\<lambda>_ x. Inr (nd_matmul_t x w)" "\<lambda>x. Inr (nd_matmul_t x w)" for w
proof
  fix x a b y :: u64array
  assume s: "splits x a b" and "nd_shape x \<noteq> []" and y: "Inr (nd_matmul_t x w) = Inr y"
  with splits_matmul [OF s, of w] splits_wf [OF s]
  show "\<exists>a' b'. Inr (nd_matmul_t a w) = Inr a' \<and> Inr (nd_matmul_t b w) = Inr b' \<and> splits y a' b'"
    by auto
qed

lemma splits_data:
  assumes "splits x a b" and "nd_shape x = sh"
  shows "nd_shape a = sh" "nd_shape b = sh" "length (nd_data x) = prod_list sh"
    "length (nd_data a) = prod_list sh" "length (nd_data b) = prod_list sh"
    "\<And>i. i < prod_list sh \<Longrightarrow> nd_data x ! i = nd_data a ! i + nd_data b ! i"
  using assms by (auto simp: splits_def nd_wf_def)

lemma splits_dataI:
  assumes "nd_shape x = sh" "nd_shape a = sh" "nd_shape b = sh" "length (nd_data x) = prod_list sh"
    "length (nd_data a) = prod_list sh" "length (nd_data b) = prod_list sh"
    and "\<And>i. i < prod_list sh \<Longrightarrow> nd_data x ! i = nd_data a ! i + nd_data b ! i"
  shows "splits x a b"
  using assms by (intro splitsI) (simp_all add: nd_wf_def nd_size_def)

section \<open>Multiplication\<close>

definition triple_shares :: "string \<Rightarrow> nat list \<Rightarrow> string \<Rightarrow> BeaverTripleShare \<Rightarrow> BeaverTripleShare \<Rightarrow> bool" where
  "triple_shares sid shape tid t0 t1 \<longleftrightarrow>
     bt_session_id t0 = sid \<and> bt_session_id t1 = sid \<and> bt_party t0 = 0 \<and> bt_party t1 = 1
     \<and> bt_triple_id t0 = tid \<and> bt_triple_id t1 = tid
     \<and> (\<exists>A B. nd_shape A = shape \<and> nd_shape B = shape \<and> splits A (bt_a t0) (bt_a t1) \<and> splits B (bt_b t0) (bt_b t1)
           \<and> splits (nd_mul A B) (bt_c t0) (bt_c t1))"

lemma beaver_product:
  assumes "splits X x0 x1" "splits Y y0 y1" "nd_shape Y = nd_shape X" "triple_shares sid (nd_shape X) tid t0 t1"
    and d: "d = nd_add (nd_sub x0 (bt_a t0)) (nd_sub x1 (bt_a t1))"
    and e: "e = nd_add (nd_sub y0 (bt_b t0)) (nd_sub y1 (bt_b t1))"
  shows "splits (nd_mul X Y) (multiply_result 0 t0 d e) (multiply_result 1 t1 d e)"
proof -
  obtain A B where t: "nd_shape A = nd_shape X" "nd_shape B = nd_shape X" "splits A (bt_a t0) (bt_a t1)"
    "splits B (bt_b t0) (bt_b t1)" "splits (nd_mul A B) (bt_c t0) (bt_c t1)"
    using assms(4) by (auto simp: triple_shares_def)
  let ?sh = "nd_shape X"
  have tc: "nd_shape (nd_mul A B) = ?sh" using t(1) by simp
  note X = splits_data [OF assms(1) refl] and Y = splits_data [OF assms(2,3)] and A = splits_data [OF t(3,1)]
    and B = splits_data [OF t(4,2)] and C = splits_data [OF t(5) tc]
  note len = X(1-5) Y(1-5) A(1-5) B(1-5) C(1,2,4,5)
  show ?thesis
  proof (rule splits_dataI [where sh = ?sh])
    fix i assume i: "i < prod_list ?sh"
    have "nd_data A ! i * nd_data B ! i = nd_data (bt_c t0) ! i + nd_data (bt_c t1) ! i"
      using C(6) [OF i] i len by simp
    then have prod: "nd_data (bt_c t0) ! i = (nd_data (bt_a t0) ! i + nd_data (bt_a t1) ! i) *
        (nd_data (bt_b t0) ! i + nd_data (bt_b t1) ! i) - nd_data (bt_c t1) ! i"
      using A(6) [OF i] B(6) [OF i] by simp
    show "nd_data (nd_mul X Y) ! i = nd_data (multiply_result 0 t0 d e) ! i + nd_data (multiply_result 1 t1 d e) ! i"
      using i len X(6) [OF i] Y(6) [OF i] unfolding d e
      by (simp add: multiply_result_def Let_def prod) (simp add: algebra_simps)
  qed (use len in \<open>simp_all add: multiply_result_def Let_def d e\<close>)
qed


definition opening_of :: "'c PartyRuntime \<Rightarrow> string \<Rightarrow> SharedTensor \<Rightarrow> SharedTensor \<Rightarrow> BeaverTripleShare \<Rightarrow> OpeningFrame" where
  "opening_of rt op x y t = \<lparr>of_session_id = rt_session_id rt, of_operation_id = op, of_party = rt_party rt,
     of_d = nd_sub (st_values x) (bt_a t), of_e = nd_sub (st_values y) (bt_b t)\<rparr>"

lemma begin_multiply_eq:
  assumes "st_shape y = st_shape x" "check rt [x] = Inr ()" "check rt [y] = Inr ()" "tensor_ok (st_values x)"
    and "bt_session_id t = rt_session_id rt" "bt_party t = rt_party rt" "bt_shape t = st_shape x"
    and "bt_triple_id t \<notin> rt_burned_triples rt"
    and "bl_burn ops l (rt_session_id rt) (rt_party rt) ''multiplication'' (bt_triple_id t) = (l', Inr ())"
    and "rt_session_id rt \<noteq> []" "rt_party rt \<in> {0, 1}" "op \<noteq> []"
  shows "begin_multiply ops packb (rt, l) x y t op =
    ((upload (length (OpeningFrame_pack packb (opening_of rt op x y t)))
        (rt\<lparr>rt_burned_triples := insert (bt_triple_id t) (rt_burned_triples rt)\<rparr>), l'),
     Inr (\<lparr>ms_operation_id = op, ms_triple = t, ms_output_scale = st_scale x * st_scale y\<rparr>, opening_of rt op x y t))"
  using assms by (auto simp: begin_multiply_def mk_OpeningFrame_def opening_of_def tensor_ok_def Let_def)

lemma upload_simps [simp]:
  "rt_session_id (upload n rt) = rt_session_id rt" "rt_party (upload n rt) = rt_party rt"
  "rt_burned_triples (upload n rt) = rt_burned_triples rt" "rt_burned_masks (upload n rt) = rt_burned_masks rt"
  "rt_compiled_matrices (upload n rt) = rt_compiled_matrices rt" "rt_minimum_bits (upload n rt) = rt_minimum_bits rt"
  "rt_truncation_profile (upload n rt) = rt_truncation_profile rt" "rt_truncation_opened (upload n rt) = rt_truncation_opened rt"
  by (simp_all add: upload_def)

lemma finish_multiply_eq:
  assumes "rt_session_id rt = sid" "rt_party rt = p" "p' \<noteq> p" "nd_shape d = bt_shape t" "nd_shape d' = bt_shape t"
  shows "\<exists>st. finish_multiply packb rt \<lparr>ms_operation_id = op, ms_triple = t, ms_output_scale = sc\<rparr>
       \<lparr>of_session_id = sid, of_operation_id = op, of_party = p, of_d = d, of_e = e\<rparr>
       \<lparr>of_session_id = sid, of_operation_id = op, of_party = p', of_d = d', of_e = e'\<rparr> tid
     = (rt\<lparr>rt_stats := st\<rparr>, mk_SharedTensor sid tid p (multiply_result p t (nd_add d d') (nd_add e e')) sc)"
  using assms by (simp add: finish_multiply_def Let_def result_tensor_def) blast

lemma multiply_pair:
  assumes "peers r0 r1" and "shares_of (rt_session_id r0) X sx x0 x1" and "shares_of (rt_session_id r0) Y sy y0 y1"
    and "nd_shape Y = nd_shape X" and "triple_shares (rt_session_id r0) (nd_shape X) k t0 t1"
    and "k \<notin> rt_burned_triples r0" and "k \<notin> rt_burned_triples r1"
    and "bl_burn ops l0 (rt_session_id r0) 0 ''multiplication'' k = (l0', Inr ())"
    and "bl_burn ops l1 (rt_session_id r0) 1 ''multiplication'' k = (l1', Inr ())"
    and "op \<noteq> []" and "tid \<noteq> []"
  shows "\<exists>m0 m1 a0 a1 b0 b1 u0 u1.
      begin_multiply ops packb (r0, l0) x0 y0 t0 op
        = ((r0\<lparr>rt_burned_triples := insert k (rt_burned_triples r0), rt_stats := a0\<rparr>, l0'), Inr (m0, opening_of r0 op x0 y0 t0))
    \<and> begin_multiply ops packb (r1, l1) x1 y1 t1 op
        = ((r1\<lparr>rt_burned_triples := insert k (rt_burned_triples r1), rt_stats := a1\<rparr>, l1'), Inr (m1, opening_of r1 op x1 y1 t1))
    \<and> finish_multiply packb (r0\<lparr>rt_burned_triples := insert k (rt_burned_triples r0), rt_stats := a0\<rparr>) m0
        (opening_of r0 op x0 y0 t0) (opening_of r1 op x1 y1 t1) tid
        = (r0\<lparr>rt_burned_triples := insert k (rt_burned_triples r0), rt_stats := b0\<rparr>, Inr u0)
    \<and> finish_multiply packb (r1\<lparr>rt_burned_triples := insert k (rt_burned_triples r1), rt_stats := a1\<rparr>) m1
        (opening_of r1 op x1 y1 t1) (opening_of r0 op x0 y0 t0) tid
        = (r1\<lparr>rt_burned_triples := insert k (rt_burned_triples r1), rt_stats := b1\<rparr>, Inr u1)
    \<and> shares_of (rt_session_id r0) (nd_mul X Y) (sx * sy) u0 u1"
proof -
  note x = shares_ofD [OF assms(2)] and y = shares_ofD [OF assms(3)]
  note c = check_shares [OF assms(1,2)] check_shares [OF assms(1,3)]
  have p: "rt_party r0 = 0" "rt_party r1 = 1" "rt_session_id r1 = rt_session_id r0" "rt_session_id r0 \<noteq> []"
    using assms(1) by (auto simp: peers_def)
  have t: "bt_session_id t0 = rt_session_id r0" "bt_session_id t1 = rt_session_id r0" "bt_party t0 = 0" "bt_party t1 = 1"
    "bt_triple_id t0 = k" "bt_triple_id t1 = k" using assms(5) by (auto simp: triple_shares_def)
  have sh: "bt_shape t0 = nd_shape X" "bt_shape t1 = nd_shape X"
    using assms(5) by (auto simp: triple_shares_def dest: splits_wf)
  have ok: "tensor_ok (st_values x0)" "tensor_ok (st_values x1)" using x(2,6,7) by (auto simp: tensor_ok_def nd_size_def)
  have b0: "begin_multiply ops packb (r0, l0) x0 y0 t0 op = ((upload (length (OpeningFrame_pack packb (opening_of r0 op x0 y0 t0)))
        (r0\<lparr>rt_burned_triples := insert (bt_triple_id t0) (rt_burned_triples r0)\<rparr>), l0'),
     Inr (\<lparr>ms_operation_id = op, ms_triple = t0, ms_output_scale = st_scale x0 * st_scale y0\<rparr>, opening_of r0 op x0 y0 t0))"
    by (rule begin_multiply_eq) (use x y c p t sh ok assms in simp_all)
  have b1: "begin_multiply ops packb (r1, l1) x1 y1 t1 op = ((upload (length (OpeningFrame_pack packb (opening_of r1 op x1 y1 t1)))
        (r1\<lparr>rt_burned_triples := insert (bt_triple_id t1) (rt_burned_triples r1)\<rparr>), l1'),
     Inr (\<lparr>ms_operation_id = op, ms_triple = t1, ms_output_scale = st_scale x1 * st_scale y1\<rparr>, opening_of r1 op x1 y1 t1))"
    by (rule begin_multiply_eq) (use x y c p t sh ok assms in simp_all)
  let ?d = "nd_add (nd_sub (st_values x0) (bt_a t0)) (nd_sub (st_values x1) (bt_a t1))"
  let ?e = "nd_add (nd_sub (st_values y0) (bt_b t0)) (nd_sub (st_values y1) (bt_b t1))"
  have comm: "nd_add (nd_sub (st_values x1) (bt_a t1)) (nd_sub (st_values x0) (bt_a t0)) = ?d"
    "nd_add (nd_sub (st_values y1) (bt_b t1)) (nd_sub (st_values y0) (bt_b t0)) = ?e"
    using x y by (auto intro!: ndarray_eqI nth_equalityI simp: assms(4) add.commute)
  have S: "splits (nd_mul X Y) (multiply_result 0 t0 ?d ?e) (multiply_result 1 t1 ?d ?e)"
    by (rule beaver_product [OF x(1) y(1) assms(4,5) refl refl])
  have ok': "tensor_ok (nd_mul X Y)" using x(2) by (simp add: tensor_ok_def nd_size_def)
  have pos: "0 < sx * sy" using x(3) y(3) by simp
  obtain u0 u1 where u: "result_tensor r0 tid (multiply_result 0 t0 ?d ?e) (sx * sy) = Inr u0"
    "result_tensor r1 tid (multiply_result 1 t1 ?d ?e) (sx * sy) = Inr u1"
    "shares_of (rt_session_id r0) (nd_mul X Y) (sx * sy) u0 u1"
    using result_shares [OF assms(1) S ok' pos assms(11)] by blast
  let ?q0 = "\<lambda>st. r0\<lparr>rt_burned_triples := insert k (rt_burned_triples r0), rt_stats := st\<rparr>"
  let ?q1 = "\<lambda>st. r1\<lparr>rt_burned_triples := insert k (rt_burned_triples r1), rt_stats := st\<rparr>"
  have f0: "\<exists>st. finish_multiply packb (?q0 a) \<lparr>ms_operation_id = op, ms_triple = t0, ms_output_scale = sx * sy\<rparr>
      (opening_of r0 op x0 y0 t0) (opening_of r1 op x1 y1 t1) tid = (?q0 st, Inr u0)" for a
    using finish_multiply_eq [of "?q0 a" "rt_session_id r0" 0 1 "nd_sub (st_values x0) (bt_a t0)" t0 "nd_sub (st_values x1) (bt_a t1)"
        packb op "sx * sy" "nd_sub (st_values y0) (bt_b t0)" "nd_sub (st_values y1) (bt_b t1)" tid] p x sh u(1)
    by (simp add: opening_of_def result_tensor_def)
  have f1: "\<exists>st. finish_multiply packb (?q1 a) \<lparr>ms_operation_id = op, ms_triple = t1, ms_output_scale = sx * sy\<rparr>
      (opening_of r1 op x1 y1 t1) (opening_of r0 op x0 y0 t0) tid = (?q1 st, Inr u1)" for a
    using finish_multiply_eq [of "?q1 a" "rt_session_id r0" 1 0 "nd_sub (st_values x1) (bt_a t1)" t1 "nd_sub (st_values x0) (bt_a t0)"
        packb op "sx * sy" "nd_sub (st_values y1) (bt_b t1)" "nd_sub (st_values y0) (bt_b t0)" tid] p x sh u(2) comm
    by (simp add: opening_of_def result_tensor_def)
  have sc: "st_scale x0 * st_scale y0 = sx * sy" "st_scale x1 * st_scale y1 = sx * sy" using x(4,5) y(4,5) by simp_all
  let ?a0 = "(rt_stats r0)\<lparr>uploaded_bytes := uploaded_bytes (rt_stats r0) + length (OpeningFrame_pack packb (opening_of r0 op x0 y0 t0))\<rparr>"
  let ?a1 = "(rt_stats r1)\<lparr>uploaded_bytes := uploaded_bytes (rt_stats r1) + length (OpeningFrame_pack packb (opening_of r1 op x1 y1 t1))\<rparr>"
  let ?m0 = "\<lparr>ms_operation_id = op, ms_triple = t0, ms_output_scale = sx * sy\<rparr>"
  let ?m1 = "\<lparr>ms_operation_id = op, ms_triple = t1, ms_output_scale = sx * sy\<rparr>"
  obtain c0 c1 where c: "finish_multiply packb (?q0 ?a0) ?m0 (opening_of r0 op x0 y0 t0) (opening_of r1 op x1 y1 t1) tid = (?q0 c0, Inr u0)"
    "finish_multiply packb (?q1 ?a1) ?m1 (opening_of r1 op x1 y1 t1) (opening_of r0 op x0 y0 t0) tid = (?q1 c1, Inr u1)"
    using f0 [of ?a0] f1 [of ?a1] by blast
  show ?thesis
    unfolding b0 b1 upload_def t sc
    by (rule exI [of _ ?m0], rule exI [of _ ?m1], rule exI [of _ ?a0], rule exI [of _ ?a1], rule exI [of _ c0], rule exI [of _ c1],
        rule exI [of _ u0], rule exI [of _ u1]) (use c u(3) in simp)
qed

text \<open>
  Secure multiplication is correct. When two runtimes of a session hold shares of tensors \<open>X\<close> and
  \<open>Y\<close> of one shape and a fresh Beaver triple that their ledgers accept, both openings succeed, and after
  exchanging the frames both finish with shares of the element-wise product, at the product scale.
\<close>

lemma multiply_correct:
  assumes "peers r0 r1" and "shares_of (rt_session_id r0) X sx x0 x1" and "shares_of (rt_session_id r0) Y sy y0 y1"
    and "nd_shape Y = nd_shape X" and "triple_shares (rt_session_id r0) (nd_shape X) k t0 t1"
    and "k \<notin> rt_burned_triples r0" and "k \<notin> rt_burned_triples r1"
    and "bl_burn ops l0 (rt_session_id r0) 0 ''multiplication'' k = (l0', Inr ())"
    and "bl_burn ops l1 (rt_session_id r0) 1 ''multiplication'' k = (l1', Inr ())"
    and "op \<noteq> []" and "tid \<noteq> []"
  shows "\<exists>q0 q1 m0 m1 f0 f1 u0 u1.
      begin_multiply ops packb (r0, l0) x0 y0 t0 op = ((q0, l0'), Inr (m0, f0))
    \<and> begin_multiply ops packb (r1, l1) x1 y1 t1 op = ((q1, l1'), Inr (m1, f1))
    \<and> snd (finish_multiply packb q0 m0 f0 f1 tid) = Inr u0
    \<and> snd (finish_multiply packb q1 m1 f1 f0 tid) = Inr u1
    \<and> shares_of (rt_session_id r0) (nd_mul X Y) (sx * sy) u0 u1"
  using multiply_pair [OF assms, of packb] by (elim exE conjE) (intro exI conjI, assumption+, simp_all)

definition demo_rt :: "nat \<Rightarrow> unit PartyRuntime" where
  "demo_rt p = \<lparr>rt_session_id = ''s'', rt_party = p,
     rt_stats = \<lparr>multiplication_rounds = 0, opened_elements = 0, uploaded_bytes = 0, downloaded_bytes = 0\<rparr>,
     rt_burned_triples = {}, rt_burned_masks = {}, rt_compiled_matrices = Map.empty,
     rt_minimum_bits = 40, rt_truncation_profile = None, rt_truncation_opened = 0\<rparr>"

definition demo_tensor :: "nat \<Rightarrow> 64 word list \<Rightarrow> int \<Rightarrow> SharedTensor" where
  "demo_tensor p xs sc = \<lparr>st_session_id = ''s'', st_tensor_id = ''x'', st_party = p,
     st_values = demo_nd [length xs] xs, st_scale = sc\<rparr>"

lemma demo_rt_init: "PartyRuntime_init ''s'' 0 40 = Inr (demo_rt 0)" "PartyRuntime_init ''s'' 1 40 = Inr (demo_rt 1)"
  by (simp_all add: PartyRuntime_init_def demo_rt_def)

lemma demo_peers: "peers (demo_rt 0) (demo_rt 1)"
  by (simp add: peers_def demo_rt_def)

lemma demo_rt_simps [simp]:
  "rt_session_id (demo_rt p) = ''s''" "rt_party (demo_rt p) = p" "rt_burned_triples (demo_rt p) = {}"
  "rt_burned_masks (demo_rt p) = {}" "rt_truncation_profile (demo_rt p) = None" "rt_truncation_opened (demo_rt p) = 0"
  "rt_minimum_bits (demo_rt p) = 40" "rt_compiled_matrices (demo_rt p) = Map.empty"
  by (simp_all add: demo_rt_def)

lemma demo_splits: "length xs = length zs \<Longrightarrow> length ys = length zs \<Longrightarrow> map2 (+) ys zs = xs \<Longrightarrow>
   splits (demo_nd [length zs] xs) (demo_nd [length zs] ys) (demo_nd [length zs] zs)"
  by (auto simp: splits_def nd_wf_def demo_nd_def nd_map2_def)

lemma demo_shares:
  assumes "length xs = length zs" "length ys = length zs" "map2 (+) ys zs = xs" "zs \<noteq> []" "0 < sc"
  shows "shares_of ''s'' (demo_nd [length zs] xs) sc (demo_tensor 0 ys sc) (demo_tensor 1 zs sc)"
  using assms demo_splits [OF assms(1-3)]
  by (simp add: shares_of_def demo_tensor_def tensor_ok_def) (simp add: demo_nd_def nd_size_def)

definition demo_triple :: "nat \<Rightarrow> BeaverTripleShare" where
  "demo_triple p = \<lparr>bt_session_id = ''s'', bt_triple_id = ''t'', bt_party = p,
     bt_a = demo_nd [1] [if p = 0 then 1 else 2], bt_b = demo_nd [1] [if p = 0 then 9 else - 4],
     bt_c = demo_nd [1] [if p = 0 then 7 else 8]\<rparr>"

lemma demo_triple_shares: "triple_shares ''s'' [1] ''t'' (demo_triple 0) (demo_triple 1)"
  unfolding triple_shares_def
  by (simp add: demo_triple_def)
    (rule exI [of _ "demo_nd [1] [3]"], rule conjI, simp add: demo_nd_def, rule exI [of _ "demo_nd [1] [5]"],
      simp add: splits_def nd_wf_def demo_nd_def nd_map2_def)

end
