(* ===== verification/Party_Truncation.thy ===== *)
theory Party_Truncation
  imports Party_Correct
begin

text \<open>
  Truncation in the party runtime: what the opened masked value is, how the shares of the mask turn it
  into shares of the quotient, the carry chain of exact truncation step by step, and the correctness of
  the two halves of probabilistic truncation run by both parties.
\<close>

section \<open>Opened masked values\<close>

definition masked_share :: "nat \<Rightarrow> u64array \<Rightarrow> u64array \<Rightarrow> u64array" where
  "masked_share party x m = nd_map (\<lambda>v. v + offset_share party) (nd_add x m)"

lemma opened_masked:
  assumes "splits X x0 x1" and "splits R r0 r1" and "nd_shape R = nd_shape X"
  shows "nd_add (masked_share 0 x0 r0) (masked_share 1 x1 r1) = nd_map2 masked X R"
    and "nd_add (masked_share 1 x1 r1) (masked_share 0 x0 r0) = nd_map2 masked X R"
proof -
  note x = splits_data [OF assms(1) refl] and r = splits_data [OF assms(2,3)]
  show "nd_add (masked_share 0 x0 r0) (masked_share 1 x1 r1) = nd_map2 masked X R"
    "nd_add (masked_share 1 x1 r1) (masked_share 0 x0 r0) = nd_map2 masked X R"
    using x r by (auto intro!: nd_ext [where n = "prod_list (nd_shape X)"]
        simp: masked_share_def masked_def offset_share_def ac_simps)
qed

lemma truncate_splits:
  assumes "splits X x0 x1" and "nd_wf R" and "nd_shape R = nd_shape X"
    and "splits (nd_map (drop_bit b) R) s0 s1" and "opened = nd_map2 masked X R" and "0 < b" "b < 63"
    and "\<forall>x \<in> set (nd_data X). \<bar>sint x\<bar> \<le> 2 ^ 61" and "\<forall>r \<in> set (nd_data R). uint r < 2 ^ 61"
  shows "splits (nd_map2 (\<lambda>x r. word_of_int (sint x div 2 ^ b + of_bool (2 ^ b \<le> sint x mod 2 ^ b + uint r mod 2 ^ b))) X R)
     (truncate_result 0 b (2 ^ 62) s0 opened) (truncate_result 1 b (2 ^ 62) s1 opened)"
proof -
  let ?sh = "nd_shape X"
  have R: "length (nd_data R) = prod_list ?sh" using assms(2,3) by (simp add: nd_wf_def)
  have rs: "nd_shape (nd_map (drop_bit b) R) = ?sh" using assms(3) by simp
  note x = splits_data [OF assms(1) refl] and s = splits_data [OF assms(4) rs]
  show ?thesis
  proof (rule splits_dataI [where sh = ?sh])
    fix i assume i: "i < prod_list ?sh"
    let ?x = "nd_data X ! i" and ?r = "nd_data R ! i"
    have "\<bar>sint ?x\<bar> \<le> 2 ^ 61" "uint ?r < 2 ^ 61" using assms(8,9) i R x(3) by auto
    from probabilistic_shift_word [OF this assms(6,7)] s(6) [OF i] i R x(3) s(1-5)
    show "nd_data (nd_map2 (\<lambda>x r. word_of_int (sint x div 2 ^ b + of_bool (2 ^ b \<le> sint x mod 2 ^ b + uint r mod 2 ^ b))) X R) ! i
      = nd_data (truncate_result 0 b (2 ^ 62) s0 opened) ! i + nd_data (truncate_result 1 b (2 ^ 62) s1 opened) ! i"
      by (simp add: truncate_result_def assms(5) Let_def) (simp add: algebra_simps)
  qed (use x s R assms(5) in \<open>simp_all add: truncate_result_def Let_def\<close>)
qed

lemma exact_splits:
  assumes "splits X x0 x1" and "nd_wf R" and "nd_shape R = nd_shape X"
    and "splits (nd_map (drop_bit b) R) s0 s1" and "splits (nd_map (drop_bit 63) R) g0 g1" and "opened = nd_map2 masked X R"
    and "splits (nd_map2 (\<lambda>r c. of_bool (low_gt b r c)) R opened) k0 k1"
    and "0 < b" "b < 63" and "\<forall>x \<in> set (nd_data X). \<bar>sint x\<bar> < 2 ^ 62"
  shows "splits (nd_map (exact_floor b) X) (exact_result 0 b g0 s0 opened k0) (exact_result 1 b g1 s1 opened k1)"
proof -
  let ?sh = "nd_shape X"
  have R: "length (nd_data R) = prod_list ?sh" using assms(2,3) by (simp add: nd_wf_def)
  have sh: "nd_shape (nd_map (drop_bit b) R) = ?sh" "nd_shape (nd_map (drop_bit 63) R) = ?sh"
    "nd_shape (nd_map2 (\<lambda>r c. of_bool (low_gt b r c)) R opened) = ?sh" using assms(3) by simp_all
  note x = splits_data [OF assms(1) refl] and s = splits_data [OF assms(4) sh(1)] and g = splits_data [OF assms(5) sh(2)]
    and k = splits_data [OF assms(7) sh(3)]
  show ?thesis
  proof (rule splits_dataI [where sh = ?sh])
    fix i assume i: "i < prod_list ?sh"
    let ?x = "nd_data X ! i" and ?r = "nd_data R ! i"
    have "\<bar>sint ?x\<bar> < 2 ^ 62" using assms(10) i x(3) by auto
    note ex = exact_shift_word [OF this assms(8,9), of ?r]
    have e: "drop_bit b ?r = nd_data s0 ! i + nd_data s1 ! i" "drop_bit 63 ?r = nd_data g0 ! i + nd_data g1 ! i"
      "of_bool (low_gt b ?r (masked ?x ?r)) = nd_data k0 ! i + nd_data k1 ! i"
      using s(6) [OF i] g(6) [OF i] k(6) [OF i] i R x(3) by (simp_all add: assms(6))
    show "nd_data (nd_map (exact_floor b) X) ! i
      = nd_data (exact_result 0 b g0 s0 opened k0) ! i + nd_data (exact_result 1 b g1 s1 opened k1) ! i"
      using i R x(3) s(1-5) g(1-5) k(1,2,4,5) ex [symmetric] unfolding e
      by (simp add: exact_result_def assms(6) Let_def) (simp add: algebra_simps)
  qed (use x s g k R assms(6) in \<open>simp_all add: exact_result_def Let_def\<close>)
qed

lemma carry_start_splits:
  assumes "splits (nd_map (\<lambda>r. of_bool (bit r 0)) R) b0 b1" and "nd_wf c" and "nd_shape c = nd_shape R"
  shows "splits (nd_map2 (\<lambda>r c. of_bool (low_gt 1 r c)) R c) (carry_start_values b0 c) (carry_start_values b1 c)"
proof -
  have "nd_map2 (\<lambda>r c. of_bool (low_gt 1 r c)) R c
      = nd_map2 (\<lambda>m c. m * (1 - (c AND 1))) (nd_map (\<lambda>r. of_bool (bit r 0)) R) c"
    unfolding carry_first [symmetric] by (intro ndarray_eqI nth_equalityI) simp_all
  then show ?thesis unfolding carry_start_values_def
    using splits_map2 [OF assms(1,2), of "\<lambda>m c. m * (1 - (c AND 1))" "\<lambda>m c. m * (1 - (c AND 1))" "\<lambda>m c. m * (1 - (c AND 1))"] assms(3)
    by (simp add: distrib_right)
qed

lemma carry_bit_splits:
  assumes "nd_wf R" "nd_wf c" "nd_shape c = nd_shape R" "k < 64"
    and "splits (nd_map (\<lambda>r. of_bool (bit r k)) R) b0 b1"
    and "splits (nd_map2 (\<lambda>r c. of_bool (low_gt k r c)) R c) k0 k1"
    and "splits (nd_mul (nd_map (\<lambda>r. of_bool (bit r k)) R) (nd_map2 (\<lambda>r c. of_bool (low_gt k r c)) R c)) p0 p1"
  shows "splits (nd_map2 (\<lambda>r c. of_bool (low_gt (Suc k) r c)) R c)
     (carry_bit_values b0 c k0 p0 k) (carry_bit_values b1 c k1 p1 k)"
proof -
  let ?sh = "nd_shape R"
  have L: "length (nd_data R) = prod_list ?sh" "length (nd_data c) = prod_list ?sh" using assms(1-3) by (simp_all add: nd_wf_def)
  note b = splits_data [OF assms(5), of ?sh, simplified] and kk = splits_data [OF assms(6), of ?sh, simplified]
    and p = splits_data [OF assms(7), of ?sh, simplified]
  show ?thesis
  proof (rule splits_dataI [where sh = ?sh])
    fix i assume i: "i < prod_list ?sh"
    let ?r = "nd_data R ! i" and ?c = "nd_data c ! i"
    have e: "of_bool (bit ?r k) = nd_data b0 ! i + nd_data b1 ! i" "of_bool (low_gt k ?r ?c) = nd_data k0 ! i + nd_data k1 ! i"
      and e': "of_bool (bit ?r k) * of_bool (low_gt k ?r ?c) = nd_data p0 ! i + nd_data p1 ! i"
      using b(6) [OF i] kk(6) [OF i] p(6) [OF i] i L by simp_all
    show "nd_data (nd_map2 (\<lambda>r c. of_bool (low_gt (Suc k) r c)) R c) ! i
      = nd_data (carry_bit_values b0 c k0 p0 k) ! i + nd_data (carry_bit_values b1 c k1 p1 k) ! i"
      using i L b(1,2,4,5) kk(1,2,4,5) p(1,2,4,5) assms(3) carry_step [OF assms(4), of ?r ?c, symmetric] unfolding e' unfolding e
      by (simp add: carry_bit_values_def Let_def) (simp add: algebra_simps)
  qed (use L b kk p assms(3) in \<open>simp_all add: carry_bit_values_def Let_def\<close>)
qed


section \<open>Probabilistic truncation\<close>

definition truncation_shares :: "string \<Rightarrow> u64array \<Rightarrow> TruncationMaskShare \<Rightarrow> TruncationMaskShare \<Rightarrow> bool" where
  "truncation_shares sid R m0 m1 \<longleftrightarrow>
     tm_session_id m0 = sid \<and> tm_party m0 = 0 \<and> TruncationMaskShare_check m0 = Inr m0
     \<and> m1 = m0\<lparr>tm_party := 1, tm_value := tm_value m1, tm_shifted := tm_shifted m1\<rparr>
     \<and> splits R (tm_value m0) (tm_value m1) \<and> splits (nd_map (drop_bit (tm_bits m0)) R) (tm_shifted m0) (tm_shifted m1)
     \<and> (\<forall>r \<in> set (nd_data R). uint r < 2 ^ tm_random_bits m0)"

abbreviation mask_profile :: "TruncationMaskShare \<Rightarrow> profile" where
  "mask_profile m \<equiv> (tm_session_security_bits m, tm_per_element_security_bits m, tm_opened_element_budget m)"

text \<open>What a party's runtime and ledger must satisfy for a truncation to be accepted.\<close>

definition truncation_ready ::
  "'l burn_ops \<Rightarrow> 'c PartyRuntime \<Rightarrow> 'l \<Rightarrow> string \<Rightarrow> profile \<Rightarrow> nat \<Rightarrow> 'l \<Rightarrow> bool" where
  "truncation_ready ops rt l mid pr sz l' \<longleftrightarrow>
     mid \<notin> rt_burned_masks rt \<and> rt_truncation_profile rt \<in> {None, Some pr}
     \<and> int (rt_truncation_opened rt + sz) \<le> profile_budget pr
     \<and> bl_burn_truncation ops l (rt_session_id rt) (rt_party rt) mid pr (int sz) = (l', Inr ())"

definition value_opening :: "'c PartyRuntime \<Rightarrow> string \<Rightarrow> u64array \<Rightarrow> u64array \<Rightarrow> ValueOpeningFrame" where
  "value_opening rt op x m = \<lparr>vf_session_id = rt_session_id rt, vf_operation_id = op, vf_party = rt_party rt,
     vf_value = masked_share (rt_party rt) x m\<rparr>"

lemma begin_truncate_eq:
  assumes "check rt [x] = Inr ()" "tensor_ok (st_values x)" "rt_session_id rt \<noteq> []" "rt_party rt \<in> {0, 1}" "op \<noteq> []"
    and "tm_session_id m = rt_session_id rt" "tm_party m = rt_party rt" "nd_shape (tm_value m) = st_shape x"
    and "truncation_ready ops rt l (tm_mask_id m) (mask_profile m) (nd_size (st_values x)) l'"
    and "0 < bound" "bound \<le> tm_maximum_magnitude m" "rt_minimum_bits rt \<le> tm_session_security_bits m"
    and "st_scale x mod 2 ^ tm_bits m = 0"
  shows "\<exists>q. begin_truncate ops (rt, l) x m op bound = ((q, l'),
       Inr (\<lparr>ts_operation_id = op, ts_mask = m, ts_output_scale = st_scale x div 2 ^ tm_bits m, ts_offset = 2 ^ 62\<rparr>,
            value_opening rt op (st_values x) (tm_value m)))
     \<and> rt_session_id q = rt_session_id rt \<and> rt_party q = rt_party rt"
  using assms
  by (auto simp: begin_truncate_def mk_ValueOpeningFrame_def value_opening_def masked_share_def tensor_ok_def Let_def
      truncation_ready_def nd_size_def)


lemma truncation_mask_bounds:
  assumes "TruncationMaskShare_check m = Inr m"
  shows "0 < tm_bits m" "tm_bits m < 63" "tm_random_bits m \<le> 61" "tm_maximum_magnitude m \<le> 2 ^ 61"
    "tm_bits m < tm_random_bits m" "tm_mask_id m \<noteq> []"
proof -
  have m: "0 < tm_bits m" "tm_bits m < 63" "tm_bits m < tm_random_bits m" "tm_random_bits m \<le> 61" "tm_mask_id m \<noteq> []"
    "16 \<le> tm_per_element_security_bits m"
    "tm_maximum_magnitude m \<le> 2 ^ nat (int (tm_random_bits m) - tm_per_element_security_bits m)"
    using assms by (auto simp: TruncationMaskShare_check_def res_simps Let_def not_less)
  have "(2 :: int) ^ nat (int (tm_random_bits m) - tm_per_element_security_bits m) \<le> 2 ^ 61"
    using m(4,6) by (intro power_increasing) auto
  with m show "0 < tm_bits m" "tm_bits m < 63" "tm_random_bits m \<le> 61" "tm_maximum_magnitude m \<le> 2 ^ 61"
    "tm_bits m < tm_random_bits m" "tm_mask_id m \<noteq> []" by linarith+
qed

lemma finish_truncate_eq:
  assumes "rt_session_id q = sid" "rt_party q = p" "p' \<noteq> p" "nd_shape a = nd_shape (tm_value m)" "nd_shape b = nd_shape (tm_value m)"
  shows "snd (finish_truncate q \<lparr>ts_operation_id = op, ts_mask = m, ts_output_scale = sc, ts_offset = off\<rparr>
       \<lparr>vf_session_id = sid, vf_operation_id = op, vf_party = p, vf_value = a\<rparr>
       \<lparr>vf_session_id = sid, vf_operation_id = op, vf_party = p', vf_value = b\<rparr> tid)
     = mk_SharedTensor sid tid p (truncate_result p (tm_bits m) off (tm_shifted m) (nd_add a b)) sc"
  using assms by (simp add: finish_truncate_def Let_def result_tensor_def)

lemma div_pow_pos: "0 < (sc :: int) \<Longrightarrow> sc mod 2 ^ b = 0 \<Longrightarrow> 0 < sc div 2 ^ b"
  by (metis div_mult_mod_eq mult_zero_left add.right_neutral less_irrefl pos_imp_zdiv_nonneg_iff
      order_less_le zero_less_numeral zero_less_power)

text \<open>
  C29: Probabilistic truncation divides by a power of two with an error of at most one unit. When the
  shared values are within the declared bound, the mask shares are valid and both ledgers accept
  the mask, both parties finish with shares of \<open>X\<close> divided by \<open>2 ^ bits\<close>, rounded down or up: the unit is
  added exactly when the low bits of value and mask carry.
\<close>

theorem truncate_correct:
  assumes "peers r0 r1" and "shares_of (rt_session_id r0) X sc x0 x1"
    and "truncation_shares (rt_session_id r0) R m0 m1" and "nd_shape R = nd_shape X"
    and "truncation_ready ops r0 l0 (tm_mask_id m0) (mask_profile m0) (nd_size X) l0'"
    and "truncation_ready ops r1 l1 (tm_mask_id m0) (mask_profile m0) (nd_size X) l1'"
    and "rt_minimum_bits r0 \<le> tm_session_security_bits m0" and "rt_minimum_bits r1 \<le> tm_session_security_bits m0"
    and "0 < bound" and "bound \<le> tm_maximum_magnitude m0" and "\<forall>x \<in> set (nd_data X). \<bar>sint x\<bar> \<le> bound"
    and "sc mod 2 ^ tm_bits m0 = 0" and "op \<noteq> []" and "tid \<noteq> []"
  shows "\<exists>q0 q1 s0 s1 f0 f1 u0 u1.
      begin_truncate ops (r0, l0) x0 m0 op bound = ((q0, l0'), Inr (s0, f0))
    \<and> begin_truncate ops (r1, l1) x1 m1 op bound = ((q1, l1'), Inr (s1, f1))
    \<and> snd (finish_truncate q0 s0 f0 f1 tid) = Inr u0 \<and> snd (finish_truncate q1 s1 f1 f0 tid) = Inr u1
    \<and> shares_of (rt_session_id r0)
        (nd_map2 (\<lambda>x r. word_of_int (sint x div 2 ^ tm_bits m0
            + of_bool (2 ^ tm_bits m0 \<le> sint x mod 2 ^ tm_bits m0 + uint r mod 2 ^ tm_bits m0))) X R)
        (sc div 2 ^ tm_bits m0) u0 u1"
proof -
  let ?b = "tm_bits m0" and ?sid = "rt_session_id r0"
  let ?Z = "nd_map2 (\<lambda>x r. word_of_int (sint x div 2 ^ ?b + of_bool (2 ^ ?b \<le> sint x mod 2 ^ ?b + uint r mod 2 ^ ?b))) X R"
  note x = shares_ofD [OF assms(2)] and c = check_shares [OF assms(1,2)]
  have p: "rt_party r0 = 0" "rt_party r1 = 1" "rt_session_id r1 = ?sid" "?sid \<noteq> []"
    using assms(1) by (auto simp: peers_def)
  have m: "tm_session_id m0 = ?sid" "tm_party m0 = 0" "TruncationMaskShare_check m0 = Inr m0"
    and m1: "m1 = m0\<lparr>tm_party := 1, tm_value := tm_value m1, tm_shifted := tm_shifted m1\<rparr>"
    and R: "splits R (tm_value m0) (tm_value m1)" and S: "splits (nd_map (drop_bit ?b) R) (tm_shifted m0) (tm_shifted m1)"
    and Rb: "\<forall>r \<in> set (nd_data R). uint r < 2 ^ tm_random_bits m0"
    using assms(3) unfolding truncation_shares_def by blast+
  have m1f: "tm_session_id m1 = ?sid" "tm_party m1 = 1" "tm_bits m1 = ?b" "tm_mask_id m1 = tm_mask_id m0"
    "mask_profile m1 = mask_profile m0" "tm_maximum_magnitude m1 = tm_maximum_magnitude m0"
    by (subst m1, simp add: m(1))+
  note bd = truncation_mask_bounds [OF m(3)]
  note rw = splits_data [OF R assms(4)]
  have sz: "nd_size (st_values x0) = nd_size X" "nd_size (st_values x1) = nd_size X" using x(6,7) by (simp_all add: nd_size_def)
  have ok: "tensor_ok (st_values x0)" "tensor_ok (st_values x1)" using x(2,6,7) by (auto simp: tensor_ok_def nd_size_def)
  obtain q0 where b0: "begin_truncate ops (r0, l0) x0 m0 op bound = ((q0, l0'),
       Inr (\<lparr>ts_operation_id = op, ts_mask = m0, ts_output_scale = st_scale x0 div 2 ^ tm_bits m0, ts_offset = 2 ^ 62\<rparr>,
            value_opening r0 op (st_values x0) (tm_value m0)))" "rt_session_id q0 = ?sid" "rt_party q0 = 0"
    using begin_truncate_eq [of r0 x0 op m0 ops l0 l0' bound] x c p m rw assms sz ok by auto
  obtain q1 where b1: "begin_truncate ops (r1, l1) x1 m1 op bound = ((q1, l1'),
       Inr (\<lparr>ts_operation_id = op, ts_mask = m1, ts_output_scale = st_scale x1 div 2 ^ tm_bits m1, ts_offset = 2 ^ 62\<rparr>,
            value_opening r1 op (st_values x1) (tm_value m1)))" "rt_session_id q1 = ?sid" "rt_party q1 = 1"
    using begin_truncate_eq [of r1 x1 op m1 ops l1 l1' bound] x c p m1f rw assms sz ok by auto
  have bX: "\<forall>x \<in> set (nd_data X). \<bar>sint x\<bar> \<le> 2 ^ 61" using assms(10,11) bd(4) by fastforce
  have bR: "\<forall>r \<in> set (nd_data R). uint r < 2 ^ 61"
  proof
    fix r assume "r \<in> set (nd_data R)"
    with Rb have "uint r < 2 ^ tm_random_bits m0" by blast
    also have "\<dots> \<le> (2 :: int) ^ 61" using bd(3) by (intro power_increasing) auto
    finally show "uint r < 2 ^ 61" .
  qed
  have wR: "nd_wf R" using splits_wf [OF R] by simp
  have T: "splits ?Z (truncate_result 0 ?b (2 ^ 62) (tm_shifted m0) (nd_map2 masked X R))
      (truncate_result 1 ?b (2 ^ 62) (tm_shifted m1) (nd_map2 masked X R))"
    by (rule truncate_splits [OF x(1) wR assms(4) S refl bd(1,2) bX bR])
  have ok': "tensor_ok ?Z" using x(2) by (simp add: tensor_ok_def nd_size_def)
  have pos: "0 < sc div 2 ^ ?b" by (rule div_pow_pos [OF x(3) assms(12)])
  obtain u0 u1 where u: "result_tensor r0 tid (truncate_result 0 ?b (2 ^ 62) (tm_shifted m0) (nd_map2 masked X R)) (sc div 2 ^ ?b) = Inr u0"
    "result_tensor r1 tid (truncate_result 1 ?b (2 ^ 62) (tm_shifted m1) (nd_map2 masked X R)) (sc div 2 ^ ?b) = Inr u1"
    "shares_of ?sid ?Z (sc div 2 ^ ?b) u0 u1"
    using result_shares [OF assms(1) T ok' pos assms(14)] by blast
  have "snd (finish_truncate q0 \<lparr>ts_operation_id = op, ts_mask = m0, ts_output_scale = sc div 2 ^ ?b, ts_offset = 2 ^ 62\<rparr>
      (value_opening r0 op (st_values x0) (tm_value m0)) (value_opening r1 op (st_values x1) (tm_value m1)) tid) = Inr u0"
    using u(1) p b0 rw x(6,7) opened_masked [OF x(1) R assms(4)]
    by (simp add: value_opening_def finish_truncate_eq result_tensor_def masked_share_def)
  moreover have "snd (finish_truncate q1 \<lparr>ts_operation_id = op, ts_mask = m1, ts_output_scale = sc div 2 ^ ?b, ts_offset = 2 ^ 62\<rparr>
      (value_opening r1 op (st_values x1) (tm_value m1)) (value_opening r0 op (st_values x0) (tm_value m0)) tid) = Inr u1"
    using u(2) p b1 rw x(6,7) opened_masked [OF x(1) R assms(4)] m1f
    by (simp add: value_opening_def finish_truncate_eq result_tensor_def masked_share_def)
  ultimately show ?thesis using b0(1) b1(1) u(3) x(4,5) m1f(3) by auto
qed

definition demo_truncation_mask :: "nat \<Rightarrow> TruncationMaskShare" where
  "demo_truncation_mask p = \<lparr>tm_session_id = ''s'', tm_mask_id = ''m'', tm_party = p, tm_bits = 2, tm_random_bits = 61,
     tm_maximum_magnitude = 1024, tm_session_security_bits = 40, tm_per_element_security_bits = 41,
     tm_opened_element_budget = 2, tm_value = demo_nd [1] [if p = 0 then 5 else 2],
     tm_shifted = demo_nd [1] [if p = 0 then 3 else - 2]\<rparr>"

lemma demo_truncation_shares:
  "truncation_shares ''s'' (demo_nd [1] [7]) (demo_truncation_mask 0) (demo_truncation_mask 1)"
proof -
  have "ceil_log2 2 = 1" by code_simp
  then have "TruncationMaskShare_check (demo_truncation_mask 0) = Inr (demo_truncation_mask 0)"
    by (simp add: TruncationMaskShare_check_def demo_truncation_mask_def demo_nd_def)
  moreover have "drop_bit 2 (7 :: 64 word) = 1" by code_simp
  ultimately show ?thesis
    by (simp add: truncation_shares_def) (simp add: demo_truncation_mask_def splits_def nd_wf_def demo_nd_def nd_map2_def nd_map_def)
qed

theorem truncate_correct_witness:
  "\<exists>q0 q1 l0 l1 s0 s1 f0 f1 u0 u1.
      begin_truncate mem_ops (demo_rt 0, DEFAULT_BURN_LEDGER) (demo_tensor 0 [90] 4) (demo_truncation_mask 0) ''op'' 200
        = ((q0, l0), Inr (s0, f0))
    \<and> begin_truncate mem_ops (demo_rt 1, DEFAULT_BURN_LEDGER) (demo_tensor 1 [11] 4) (demo_truncation_mask 1) ''op'' 200
        = ((q1, l1), Inr (s1, f1))
    \<and> snd (finish_truncate q0 s0 f0 f1 ''z'') = Inr u0 \<and> snd (finish_truncate q1 s1 f1 f0 ''z'') = Inr u1
    \<and> reconstruct u0 u1 = Inr (demo_nd [1] [26])"
proof -
  let ?X = "demo_nd [1] [101]" and ?R = "demo_nd [1] [7]"
  let ?l = "\<lambda>p. DEFAULT_BURN_LEDGER\<lparr>ml_burned := {(''s'', p, ''truncation'', ''m'')},
      ml_truncation := [(''s'', p) \<mapsto> ((40, 41, 2), 1)]\<rparr>"
  have X: "shares_of ''s'' ?X 4 (demo_tensor 0 [90] 4) (demo_tensor 1 [11] 4)"
    using demo_shares [of "[101]" "[11]" "[90]" 4] by simp
  have r: "truncation_ready mem_ops (demo_rt p) DEFAULT_BURN_LEDGER (tm_mask_id (demo_truncation_mask 0))
      (mask_profile (demo_truncation_mask 0)) (nd_size ?X) (?l p)" for p
    by (simp add: truncation_ready_def demo_truncation_mask_def mem_ops_def mem_burn_truncation_def DEFAULT_BURN_LEDGER_def
        demo_nd_def nd_size_def)
  have z: "nd_map2 (\<lambda>(x :: 64 word) (r :: 64 word). word_of_int (sint x div 2 ^ tm_bits (demo_truncation_mask 0)
      + of_bool (2 ^ tm_bits (demo_truncation_mask 0) \<le> sint x mod 2 ^ tm_bits (demo_truncation_mask 0)
          + uint r mod 2 ^ tm_bits (demo_truncation_mask 0)))) ?X ?R = demo_nd [1] [26 :: 64 word]"
    by (simp add: demo_nd_def nd_map2_def demo_truncation_mask_def)
  note ex = truncate_correct [OF demo_peers, of ?X 4 "demo_tensor 0 [90] 4" "demo_tensor 1 [11] 4" ?R
      "demo_truncation_mask 0" "demo_truncation_mask 1" mem_ops DEFAULT_BURN_LEDGER "?l 0" DEFAULT_BURN_LEDGER "?l 1" 200 "''op''" "''z''"]
  have "\<exists>q0 q1 s0 s1 f0 f1 u0 u1.
      begin_truncate mem_ops (demo_rt 0, DEFAULT_BURN_LEDGER) (demo_tensor 0 [90] 4) (demo_truncation_mask 0) ''op'' 200
        = ((q0, ?l 0), Inr (s0, f0))
    \<and> begin_truncate mem_ops (demo_rt 1, DEFAULT_BURN_LEDGER) (demo_tensor 1 [11] 4) (demo_truncation_mask 1) ''op'' 200
        = ((q1, ?l 1), Inr (s1, f1))
    \<and> snd (finish_truncate q0 s0 f0 f1 ''z'') = Inr u0 \<and> snd (finish_truncate q1 s1 f1 f0 ''z'') = Inr u1
    \<and> shares_of ''s'' (demo_nd [1] [26]) (4 div 2 ^ tm_bits (demo_truncation_mask 0)) u0 u1"
    using ex [unfolded z] X r [of 0] r [of 1] demo_truncation_shares by (simp add: demo_truncation_mask_def demo_nd_def)
  then show ?thesis by (elim exE conjE) (intro exI conjI, assumption+, rule reconstruct_shares)
qed

end
