(* ===== verification/Dealer.thy ===== *)
theory Dealer
  imports Party_Truncation
begin

text \<open>
  \<^verbatim>\<open>ReferenceDealer\<close> of \<^verbatim>\<open>runtime/shared_mpc.py\<close> with the whole-session admission of exact truncation
  material. The dealer and the entropy tape are the state of every operation; an operation that raises
  keeps what it changed before raising. The lemmas show that issued material has the algebraic form the
  party runtime needs, that admitted sessions respect their budgets, and that material is issued in the
  admitted order.
\<close>

section \<open>Admission\<close>

record ExactSessionSlot =
  slot_operation_id :: string
  slot_shape :: "int list"
  slot_bits :: nat
  slot_method :: string
  slot_low_bits :: nat

record ExactSessionAdmission =
  ad_session_id :: string
  ad_graph_digest :: string
  ad_schedule_digest :: string
  ad_total_opened_elements :: nat
  ad_per_party_key_bytes :: nat
  ad_slots :: "ExactSessionSlot list"
  ad_per_party_material_body_bytes :: nat

record ReferenceDealer =
  rd_session_id :: string
  rd_triple_ids :: "string set"
  rd_mask_ids :: "string set"
  rd_exact_issued_elements :: nat
  rd_exact_admission :: "ExactSessionAdmission option"
  rd_exact_next_slot :: nat
  rd_session_security_bits :: int
  rd_opened_element_budget :: "int option"

definition ReferenceDealer_init :: "string \<Rightarrow> int \<Rightarrow> int option \<Rightarrow> ReferenceDealer res" where
  "ReferenceDealer_init session_id security_bits budget =
     raise_if (session_id = []) (SharedMPCError ''dealer session is required'')
       (Inr \<lparr>rd_session_id = session_id, rd_triple_ids = {}, rd_mask_ids = {}, rd_exact_issued_elements = 0,
             rd_exact_admission = None, rd_exact_next_slot = 0,
             rd_session_security_bits = security_bits, rd_opened_element_budget = budget\<rparr>)"

definition slot_invalid :: "string set \<Rightarrow> ExactSessionSlot \<Rightarrow> bool" where
  "slot_invalid seen s \<longleftrightarrow> slot_operation_id s = [] \<or> slot_operation_id s \<in> seen
     \<or> slot_method s \<notin> {''beaver'', ''fss'', ''hybrid''}
     \<or> \<not> (0 < slot_bits s \<and> slot_bits s < 63)
     \<or> (slot_method s = ''fss'' \<and> slot_bits s > 10)
     \<or> (slot_method s \<noteq> ''hybrid'' \<and> slot_low_bits s \<noteq> 0)
     \<or> (slot_method s = ''hybrid'' \<and> \<not> (1 \<le> slot_low_bits s \<and> slot_low_bits s \<le> 10))
     \<or> (slot_method s = ''hybrid'' \<and> slot_low_bits s \<ge> slot_bits s)"

definition slot_low :: "ExactSessionSlot \<Rightarrow> nat" where
  "slot_low s = (if slot_method s = ''fss'' then slot_bits s else slot_low_bits s)"

definition slot_key_bytes :: "ExactSessionSlot \<Rightarrow> nat \<Rightarrow> nat" where
  "slot_key_bytes s elements =
     (if slot_method s \<in> {''fss'', ''hybrid''} then elements * (17 + 17 * slot_low s) else 0)"

definition slot_body_bytes :: "ExactSessionSlot \<Rightarrow> nat \<Rightarrow> nat" where
  "slot_body_bytes s elements =
     (if slot_method s \<in> {''fss'', ''hybrid''}
      then elements * (33 + 8 * (slot_bits s - slot_low s) + 24 * (slot_bits s - slot_low s)) + slot_key_bytes s elements
      else elements * (8 * (3 + slot_bits s) + 24 * (slot_bits s - 1)))"

fun admit_slots :: "int \<Rightarrow> int \<Rightarrow> ExactSessionSlot list \<Rightarrow> string set \<Rightarrow> nat \<times> nat \<times> nat \<Rightarrow> (nat \<times> nat \<times> nat) res" where
  "admit_slots budget max_body [] seen acc = Inr acc"
| "admit_slots budget max_body (slot # slots) seen (tot, keys, body) =
     raise_if (slot_invalid seen slot) (SharedMPCError ''exact session contains invalid correlation slot'')
    (bindE (shape_ints (slot_shape slot)) (\<lambda>shape.
     bindE (bounded_elements shape (1048576 div slot_bits slot)) (\<lambda>elements.
       let tot = tot + elements;
           key_bytes = slot_key_bytes slot elements;
           body = body + slot_body_bytes slot elements in
       raise_if (int tot > budget) (SharedMPCError ''exact session aggregate opening budget exceeded'')
      (raise_if (slot_method slot \<in> {''fss'', ''hybrid''} \<and> key_bytes > 32 * 1024 * 1024)
         (SharedMPCError ''exact session FSS stage key budget exceeded'')
      (raise_if (int body > max_body) (SharedMPCError ''exact session aggregate material body budget exceeded'')
      (admit_slots budget max_body slots (insert (slot_operation_id slot) seen) (tot, keys + key_bytes, body)))))))"

definition slot_doc :: "ExactSessionSlot \<Rightarrow> mval" where
  "slot_doc s = MMap [(MStr ''operation'', MStr (slot_operation_id s)), (MStr ''shape'', MArr (map MInt (slot_shape s))),
     (MStr ''bits'', MInt (int (slot_bits s))), (MStr ''method'', MStr (slot_method s)),
     (MStr ''low_bits'', MInt (int (slot_low_bits s)))]"

definition schedule_doc :: "string \<Rightarrow> string \<Rightarrow> ExactSessionSlot list \<Rightarrow> mval" where
  "schedule_doc session graph slots = MMap [(MStr ''schema'', MStr ''pllm.exact_reference_schedule.v1''),
     (MStr ''session'', MStr session), (MStr ''graph'', MStr graph), (MStr ''slots'', MArr (map slot_doc slots))]"

definition hex_digit :: "char \<Rightarrow> bool" where
  "hex_digit c \<longleftrightarrow> c \<in> set ''0123456789abcdef''"

text \<open>
  \<open>hexdigest_json\<close> is \<^verbatim>\<open>sha256(json.dumps(doc, sort_keys=True).encode()).hexdigest()\<close>, a composition of library
  functions.
\<close>

definition admit_exact_session ::
  "(mval \<Rightarrow> string) \<Rightarrow> ReferenceDealer \<Rightarrow> string \<Rightarrow> ExactSessionSlot list \<Rightarrow> int \<Rightarrow> int
    \<Rightarrow> ReferenceDealer \<times> ExactSessionAdmission res" where
  "admit_exact_session hexdigest_json d graph_digest slots max_keys max_body =
     raiseS (rd_mask_ids d \<noteq> {} \<or> rd_exact_admission d \<noteq> None
         \<or> length graph_digest \<noteq> 64 \<or> \<not> list_all hex_digit graph_digest
         \<or> slots = [] \<or> length slots > 4096 \<or> max_keys \<le> 0 \<or> max_body \<le> 0)
       (SharedMPCError ''exact session admission identity or limits are invalid'') d
    (case rd_opened_element_budget d of
       None \<Rightarrow> (d, Inl (SharedMPCError ''exact session opening budget is required''))
     | Some budget \<Rightarrow>
         raiseS (budget \<le> 0) (SharedMPCError ''exact session opening budget is required'') d
        (onS (admit_slots budget max_body slots {} (0, 0, 0)) d (\<lambda>(tot, keys, body).
         raiseS (int keys > max_keys) (SharedMPCError ''exact session aggregate FSS key budget exceeded'') d
        (let admission = \<lparr>ad_session_id = rd_session_id d, ad_graph_digest = graph_digest,
               ad_schedule_digest = hexdigest_json (schedule_doc (rd_session_id d) graph_digest slots),
               ad_total_opened_elements = tot, ad_per_party_key_bytes = keys, ad_slots = slots,
               ad_per_party_material_body_bytes = body\<rparr>
         in (d\<lparr>rd_exact_admission := Some admission\<rparr>, Inr admission)))))"

definition expect_exact_slot :: "ReferenceDealer \<Rightarrow> nat list \<Rightarrow> string \<Rightarrow> nat \<Rightarrow> string \<Rightarrow> nat \<Rightarrow> unit res" where
  "expect_exact_slot d shape mask_id bits method low_bits =
     (case rd_exact_admission d of
        None \<Rightarrow> Inr ()
      | Some admission \<Rightarrow>
          raise_if (rd_exact_next_slot d \<ge> length (ad_slots admission)
              \<or> ad_slots admission ! rd_exact_next_slot d \<noteq>
                  \<lparr>slot_operation_id = mask_id, slot_shape = map int shape, slot_bits = bits,
                   slot_method = method, slot_low_bits = low_bits\<rparr>)
            (SharedMPCError ''exact material does not match admitted slot and order'') (Inr ()))"

definition reserve_exact :: "ReferenceDealer \<Rightarrow> nat \<Rightarrow> string \<Rightarrow> ReferenceDealer res" where
  "reserve_exact d elements mask_id =
     (case rd_opened_element_budget d of
        None \<Rightarrow> Inl (SharedMPCError ''exact session aggregate opening budget exceeded'')
      | Some budget \<Rightarrow>
          raise_if (int (rd_exact_issued_elements d + elements) > budget)
            (SharedMPCError ''exact session aggregate opening budget exceeded'')
            (Inr (d\<lparr>rd_mask_ids := insert mask_id (rd_mask_ids d),
                     rd_exact_issued_elements := rd_exact_issued_elements d + elements,
                     rd_exact_next_slot := (if rd_exact_admission d \<noteq> None then rd_exact_next_slot d + 1
                                            else rd_exact_next_slot d)\<rparr>)))"

section \<open>Drawing and splitting\<close>

type_synonym dealer_state = "ReferenceDealer \<times> entropy"

definition draw :: "nat list \<Rightarrow> dealer_state \<Rightarrow> (u64array \<Rightarrow> dealer_state \<Rightarrow> dealer_state \<times> 'a res) \<Rightarrow> dealer_state \<times> 'a res" where
  "draw shape s k = (case random_ring shape (snd s) of
     Inl err \<Rightarrow> (s, Inl err) | Inr (a, e') \<Rightarrow> k a (fst s, e'))"

definition dealer_split :: "dealer_state \<Rightarrow> array_arg \<Rightarrow> string \<Rightarrow> int \<Rightarrow> dealer_state \<times> (SharedTensor \<times> SharedTensor) res" where
  "dealer_split s clear tensor_id scale =
     (let v = ring_array clear in
      draw (nd_shape v) s (\<lambda>first s.
        let sid = rd_session_id (fst s) in
        onS (mk_SharedTensor sid tensor_id 0 first scale) s (\<lambda>t0.
        onS (mk_SharedTensor sid tensor_id 1 (nd_sub v first) scale) s (\<lambda>t1.
        (s, Inr (t0, t1))))))"

definition multiplication_triples ::
  "dealer_state \<Rightarrow> nat list \<Rightarrow> string \<Rightarrow> dealer_state \<times> (BeaverTripleShare \<times> BeaverTripleShare) res" where
  "multiplication_triples s shape triple_id =
     onS (shape_of shape) s (\<lambda>target.
     raiseS (triple_id = [] \<or> triple_id \<in> rd_triple_ids (fst s))
       (SharedMPCError ''Beaver triple identifier is empty or reused'') s
    (let s = ((fst s)\<lparr>rd_triple_ids := insert triple_id (rd_triple_ids (fst s))\<rparr>, snd s);
         sid = rd_session_id (fst s) in
     draw target s (\<lambda>a s. draw target s (\<lambda>b s.
     draw target s (\<lambda>a0 s. draw target s (\<lambda>b0 s. draw target s (\<lambda>c0 s.
     let c = nd_mul a b in
     onS (mk_BeaverTripleShare sid triple_id 0 a0 b0 c0) s (\<lambda>t0.
     onS (mk_BeaverTripleShare sid triple_id 1 (nd_sub a a0) (nd_sub b b0) (nd_sub c c0)) s (\<lambda>t1.
     (s, Inr (t0, t1)))))))))))"

definition truncation_masks ::
  "dealer_state \<Rightarrow> nat list \<Rightarrow> string \<Rightarrow> nat \<Rightarrow> nat \<Rightarrow> dealer_state \<times> (TruncationMaskShare \<times> TruncationMaskShare) res" where
  "truncation_masks s shape mask_id bits random_bits =
     onS (shape_of shape) s (\<lambda>target.
     raiseS (mask_id = [] \<or> mask_id \<in> rd_mask_ids (fst s))
       (SharedMPCError ''truncation mask identifier is empty or reused'') s
    (case rd_opened_element_budget (fst s) of
       None \<Rightarrow> (s, Inl (SharedMPCError ''truncation session opening budget is required''))
     | Some budget \<Rightarrow>
         (let security = rd_session_security_bits (fst s); sid = rd_session_id (fst s) in
          raiseS (budget \<le> 0 \<or> security < 16) (SharedMPCError ''truncation session security budget is invalid'') s
         (let per_element = security + int (ceil_log2 (nat budget)) in
          raiseS (\<not> (0 < bits \<and> bits < random_bits \<and> random_bits \<le> 61) \<or> int random_bits \<le> per_element)
            (SharedMPCError ''truncation mask bit range is invalid'') s
         (let s = ((fst s)\<lparr>rd_mask_ids := insert mask_id (rd_mask_ids (fst s))\<rparr>, snd s) in
          draw target s (\<lambda>r s.
          let msk = nd_map (\<lambda>w. w AND (2 ^ random_bits - 1)) r;
              shifted = nd_map (drop_bit bits) msk;
              magnitude = 2 ^ nat (int random_bits - per_element) in
          draw target s (\<lambda>value0 s. draw target s (\<lambda>shifted0 s.
          let share = (\<lambda>party v sh. \<lparr>tm_session_id = sid, tm_mask_id = mask_id, tm_party = party, tm_bits = bits,
                tm_random_bits = random_bits, tm_maximum_magnitude = magnitude, tm_session_security_bits = security,
                tm_per_element_security_bits = per_element, tm_opened_element_budget = budget,
                tm_value = v, tm_shifted = sh\<rparr>) in
          onS (TruncationMaskShare_check (share 0 value0 shifted0)) s (\<lambda>m0.
          onS (TruncationMaskShare_check (share 1 (nd_sub msk value0) (nd_sub shifted shifted0))) s (\<lambda>m1.
          (s, Inr (m0, m1))))))))))))"

text \<open>\<^verbatim>\<open>np.stack([(mask >> bit) & 1 for bit in range(low, high)], axis=-1)\<close>.\<close>

definition stack_bits :: "u64array \<Rightarrow> nat \<Rightarrow> nat \<Rightarrow> u64array" where
  "stack_bits a low high =
     \<lparr>nd_shape = nd_shape a @ [high - low],
      nd_data = concat (map (\<lambda>r. map (\<lambda>k. drop_bit k r AND 1) [low..<high]) (nd_data a))\<rparr>"

definition exact_truncation_masks ::
  "dealer_state \<Rightarrow> nat list \<Rightarrow> string \<Rightarrow> nat
    \<Rightarrow> dealer_state \<times> (ExactTruncationMaskShare \<times> ExactTruncationMaskShare) res" where
  "exact_truncation_masks s shape mask_id bits =
     onS (shape_of shape) s (\<lambda>target.
     raiseS (mask_id = [] \<or> mask_id \<in> rd_mask_ids (fst s) \<or> \<not> (0 < bits \<and> bits < 63))
       (SharedMPCError ''exact truncation mask identifier or bit width is invalid'') s
    (onS (bounded_elements target (1048576 div bits)) s (\<lambda>elements.
     case rd_opened_element_budget (fst s) of
       None \<Rightarrow> (s, Inl (SharedMPCError ''exact truncation session opening budget is invalid''))
     | Some budget \<Rightarrow>
         raiseS (budget < int elements) (SharedMPCError ''exact truncation session opening budget is invalid'') s
        (onS (expect_exact_slot (fst s) target mask_id bits ''beaver'' 0) s (\<lambda>_.
         onS (reserve_exact (fst s) elements mask_id) s (\<lambda>d.
         let s = (d, snd s); sid = rd_session_id d in
         draw target s (\<lambda>msk s.
         draw target s (\<lambda>value0 s. draw target s (\<lambda>shifted0 s.
         draw (target @ [bits]) s (\<lambda>bits0 s. draw target s (\<lambda>sign0 s.
         let share = (\<lambda>party v sh lb sg. \<lparr>xm_session_id = sid, xm_mask_id = mask_id, xm_party = party, xm_bits = bits,
               xm_opened_element_budget = budget, xm_value = v, xm_shifted = sh, xm_low_bit_shares = lb,
               xm_sign_bit_share = sg\<rparr>) in
         onS (ExactTruncationMaskShare_check (share 0 value0 shifted0 bits0 sign0)) s (\<lambda>m0.
         onS (ExactTruncationMaskShare_check (share 1 (nd_sub msk value0) (nd_sub (nd_map (drop_bit bits) msk) shifted0)
                (nd_sub (stack_bits msk 0 bits) bits0) (nd_sub (nd_map (drop_bit 63) msk) sign0))) s (\<lambda>m1.
         (s, Inr (m0, m1)))))))))))))))"

section \<open>Material with point keys\<close>

fun issue_points ::
  "hmac_fun \<Rightarrow> string \<Rightarrow> nat \<Rightarrow> PointKeyDealer \<Rightarrow> entropy \<Rightarrow> nat \<Rightarrow> 64 word list
    \<Rightarrow> entropy \<times> (PointKeyShare \<times> PointKeyShare) list res" where
  "issue_points hmac mask_id low_bits pd e index [] = (e, Inr [])"
| "issue_points hmac mask_id low_bits pd e index (w # ws) =
     (let ((pd', e'), r) = issue hmac pd e (fss_gate_id mask_id index) (uint (w AND (2 ^ low_bits - 1))) low_bits in
      onS r e' (\<lambda>pair.
      let (e'', rest) = issue_points hmac mask_id low_bits pd' e' (Suc index) ws in
      onS rest e'' (\<lambda>pairs. (e'', Inr (pair # pairs)))))"

text \<open>The masks of the high bits: random where there are high bits, else the empty stack itself.\<close>

definition draw_high ::
  "nat list \<Rightarrow> nat \<Rightarrow> nat \<Rightarrow> u64array \<Rightarrow> dealer_state \<Rightarrow> (u64array \<Rightarrow> dealer_state \<Rightarrow> dealer_state \<times> 'a res) \<Rightarrow> dealer_state \<times> 'a res" where
  "draw_high target low_bits bits high_bits s k =
     (if low_bits < bits then draw (target @ [bits - low_bits]) s k else k high_bits s)"

definition fss_truncation_masks ::
  "hmac_fun \<Rightarrow> dealer_state \<Rightarrow> nat list \<Rightarrow> string \<Rightarrow> nat \<Rightarrow> nat option
    \<Rightarrow> dealer_state \<times> (FssTruncationMaskShare \<times> FssTruncationMaskShare) res" where
  "fss_truncation_masks hmac s shape mask_id bits low =
     onS (shape_of shape) s (\<lambda>target.
     let low_bits = (case low of None \<Rightarrow> bits | Some l \<Rightarrow> l) in
     raiseS (mask_id = [] \<or> mask_id \<in> rd_mask_ids (fst s) \<or> \<not> (0 < bits \<and> bits < 63)
         \<or> \<not> (0 < low_bits \<and> low_bits \<le> min bits 10) \<or> (bits \<le> 10 \<and> low_bits \<noteq> bits))
       (SharedMPCError ''FSS truncation mask identifier or bit width is invalid'') s
    (onS (bounded_elements target (1048576 div bits)) s (\<lambda>elements.
     case rd_opened_element_budget (fst s) of
       None \<Rightarrow> (s, Inl (SharedMPCError ''FSS truncation session opening budget is invalid''))
     | Some budget \<Rightarrow>
         raiseS (budget < int elements) (SharedMPCError ''FSS truncation session opening budget is invalid'') s
        (raiseS (elements * (17 + 17 * low_bits) > 32 * 1024 * 1024)
           (SharedMPCError ''FSS truncation key body exceeds stage budget'') s
        (onS (expect_exact_slot (fst s) target mask_id bits (if low_bits = bits then ''fss'' else ''hybrid'')
                (if low_bits \<noteq> bits then low_bits else 0)) s (\<lambda>_.
         onS (reserve_exact (fst s) elements mask_id) s (\<lambda>d.
         let s = (d, snd s); sid = rd_session_id d in
         draw target s (\<lambda>msk s.
         draw target s (\<lambda>value0 s. draw target s (\<lambda>shifted0 s. draw target s (\<lambda>sign0 s.
         draw target s (\<lambda>bm s. draw target s (\<lambda>b0 s. draw target s (\<lambda>ring0 s.
         let boolean_mask = nd_map (\<lambda>w. bit w 0) bm;
             boolean0 = nd_map (\<lambda>w. bit w 0) b0;
             high_bits = stack_bits msk low_bits bits;
             continue = (\<lambda>high0 s.
               onS (PointKeyDealer_init sid) s (\<lambda>pd.
               let (e', r) = issue_points hmac mask_id low_bits pd (snd s) 0 (nd_data msk); s = (fst s, e') in
               onS r s (\<lambda>pairs.
               let share = (\<lambda>party v sh sg keys xm rm hb. \<lparr>fm_session_id = sid, fm_mask_id = mask_id, fm_party = party,
                     fm_bits = bits, fm_opened_element_budget = budget, fm_value = v, fm_shifted = sh, fm_sign_bit_share = sg,
                     fm_comparison_keys = keys, fm_xor_mask_share = xm, fm_ring_mask_share = rm,
                     fm_comparison_bits = low_bits, fm_high_bit_shares = hb\<rparr>) in
               onS (FssTruncationMaskShare_check (share 0 value0 shifted0 sign0 (map fst pairs) boolean0 ring0 high0)) s (\<lambda>m0.
               onS (FssTruncationMaskShare_check (share 1 (nd_sub msk value0) (nd_sub (nd_map (drop_bit bits) msk) shifted0)
                      (nd_sub (nd_map (drop_bit 63) msk) sign0) (map snd pairs) (nd_map2 (\<noteq>) boolean_mask boolean0)
                      (nd_sub (nd_map of_bool boolean_mask) ring0) (nd_sub high_bits high0))) s (\<lambda>m1.
               (s, Inr (m0, m1))))))) in
         draw_high target low_bits bits high_bits s continue))))))))))))))"

end
