(* ===== verification/Dealer_Correct.thy ===== *)
theory Dealer_Correct
  imports Dealer
begin

text \<open>
  What the dealer issues. Under its guards every issuing operation succeeds for every entropy tape, and
  the material has the algebraic form on which multiplication and truncation rely. Admission respects
  its budgets, and after an admission exact material is issued in the admitted order only.
\<close>

section \<open>Issued material\<close>

lemma draw_ok:
  assumes "shape_ok shape"
  obtains a e' where "random_ring shape e = Inr (a, e')" "nd_shape a = shape" "nd_wf a"
  using random_ring_ok [OF assms, of e] by blast

lemma splits_sub: "nd_wf v \<Longrightarrow> nd_wf a \<Longrightarrow> nd_shape a = nd_shape v \<Longrightarrow> splits v a (nd_sub v a)"
  unfolding splits_def by (auto intro!: nd_ext [where n = "nd_size v"] simp: nd_wf_def nd_size_def)

lemma shape_ok_append: "shape_ok shape \<Longrightarrow> 0 < n \<Longrightarrow> shape_ok (shape @ [n])"
  by simp

text \<open>
  Splitting a clear tensor succeeds for every entropy tape, and the two tensors are shares of it:
  reconstructing them returns exactly the ring encoding of the input.
\<close>

lemma split_reconstruct:
  assumes "nd_wf (ring_array clear)" and "nd_shape (ring_array clear) \<noteq> []" and "nd_size (ring_array clear) \<noteq> 0"
    and "rd_session_id d \<noteq> []" and "tid \<noteq> []" and "0 < scale"
  shows "\<exists>e' t0 t1. dealer_split (d, e) clear tid scale = ((d, e'), Inr (t0, t1))
     \<and> shares_of (rd_session_id d) (ring_array clear) scale t0 t1 \<and> reconstruct t0 t1 = Inr (ring_array clear)"
proof -
  let ?v = "ring_array clear"
  have ok: "shape_ok (nd_shape ?v)" using assms(2,3) prod_list_zero by (auto simp: nd_size_def)
  obtain a e' where a: "random_ring (nd_shape ?v) e = Inr (a, e')" "nd_shape a = nd_shape ?v" "nd_wf a"
    using draw_ok [OF ok] by metis
  let ?t0 = "\<lparr>st_session_id = rd_session_id d, st_tensor_id = tid, st_party = 0, st_values = a, st_scale = scale\<rparr>"
  let ?t1 = "\<lparr>st_session_id = rd_session_id d, st_tensor_id = tid, st_party = 1, st_values = nd_sub ?v a, st_scale = scale\<rparr>"
  have "dealer_split (d, e) clear tid scale = ((d, e'), Inr (?t0, ?t1))"
    using assms a(2) by (simp add: dealer_split_def draw_def Let_def a(1) mk_SharedTensor_def nd_size_def)
  moreover have "shares_of (rd_session_id d) ?v scale ?t0 ?t1"
    using assms splits_sub [OF assms(1) a(3,2)] by (simp add: shares_of_def tensor_ok_def)
  ultimately show ?thesis using reconstruct_shares by blast
qed

lemma multiplication_triples_ok:
  assumes "shape_ok shape" and "rd_session_id d \<noteq> []" and "tid \<noteq> []" and "tid \<notin> rd_triple_ids d"
  shows "\<exists>e' t0 t1. multiplication_triples (d, e) shape tid
       = ((d\<lparr>rd_triple_ids := insert tid (rd_triple_ids d)\<rparr>, e'), Inr (t0, t1))
     \<and> triple_shares (rd_session_id d) shape tid t0 t1"
proof -
  obtain a e1 where a: "random_ring shape e = Inr (a, e1)" "nd_shape a = shape" "nd_wf a" using draw_ok [OF assms(1)] by metis
  obtain b e2 where b: "random_ring shape e1 = Inr (b, e2)" "nd_shape b = shape" "nd_wf b" using draw_ok [OF assms(1)] by metis
  obtain a0 e3 where a0: "random_ring shape e2 = Inr (a0, e3)" "nd_shape a0 = shape" "nd_wf a0" using draw_ok [OF assms(1)] by metis
  obtain b0 e4 where b0: "random_ring shape e3 = Inr (b0, e4)" "nd_shape b0 = shape" "nd_wf b0" using draw_ok [OF assms(1)] by metis
  obtain c0 e5 where c0: "random_ring shape e4 = Inr (c0, e5)" "nd_shape c0 = shape" "nd_wf c0" using draw_ok [OF assms(1)] by metis
  let ?t0 = "\<lparr>bt_session_id = rd_session_id d, bt_triple_id = tid, bt_party = 0, bt_a = a0, bt_b = b0, bt_c = c0\<rparr>"
  let ?t1 = "\<lparr>bt_session_id = rd_session_id d, bt_triple_id = tid, bt_party = 1, bt_a = nd_sub a a0, bt_b = nd_sub b b0,
     bt_c = nd_sub (nd_mul a b) c0\<rparr>"
  have "multiplication_triples (d, e) shape tid = ((d\<lparr>rd_triple_ids := insert tid (rd_triple_ids d)\<rparr>, e5), Inr (?t0, ?t1))"
    using assms a(2) b(2) a0(2) b0(2) c0(2)
    by (simp add: multiplication_triples_def draw_def shape_of_ok a(1) b(1) a0(1) b0(1) c0(1) mk_BeaverTripleShare_def Let_def)
  moreover have "triple_shares (rd_session_id d) shape tid ?t0 ?t1"
    unfolding triple_shares_def
    by (intro conjI exI [of _ a] exI [of _ b]) (use a b a0 b0 c0 in \<open>auto intro!: splits_sub nd_wf_map2\<close>)
  ultimately show ?thesis by blast
qed

lemma mask_uint_bound: "uint (w AND (2 ^ n - 1) :: 64 word) < 2 ^ n"
proof -
  have "w AND (2 ^ n - 1) = take_bit n w" by (simp add: take_bit_eq_mask mask_eq_exp_minus_1)
  then show ?thesis by (simp add: unsigned_take_bit_eq)
qed


lemma truncation_masks_ok:
  assumes "shape_ok shape" and "rd_session_id d \<noteq> []" and "mid \<noteq> []" and "mid \<notin> rd_mask_ids d"
    and "rd_opened_element_budget d = Some budget" and "0 < budget" and "16 \<le> rd_session_security_bits d"
    and "0 < bits" "bits < rb" "rb \<le> 61" and "rd_session_security_bits d + int (ceil_log2 (nat budget)) < int rb"
  shows "\<exists>e' R m0 m1. truncation_masks (d, e) shape mid bits rb
       = ((d\<lparr>rd_mask_ids := insert mid (rd_mask_ids d)\<rparr>, e'), Inr (m0, m1))
     \<and> truncation_shares (rd_session_id d) R m0 m1 \<and> nd_shape R = shape \<and> tm_bits m0 = bits \<and> tm_mask_id m0 = mid
     \<and> mask_profile m0 = (rd_session_security_bits d, rd_session_security_bits d + int (ceil_log2 (nat budget)), budget)
     \<and> tm_maximum_magnitude m0 = 2 ^ nat (int rb - (rd_session_security_bits d + int (ceil_log2 (nat budget))))"
proof -
  obtain r e1 where r: "random_ring shape e = Inr (r, e1)" "nd_shape r = shape" "nd_wf r" using draw_ok [OF assms(1)] by metis
  obtain v e2 where v: "random_ring shape e1 = Inr (v, e2)" "nd_shape v = shape" "nd_wf v" using draw_ok [OF assms(1)] by metis
  obtain h e3 where h: "random_ring shape e2 = Inr (h, e3)" "nd_shape h = shape" "nd_wf h" using draw_ok [OF assms(1)] by metis
  let ?R = "nd_map (\<lambda>w. w AND (2 ^ rb - 1)) r"
  let ?per = "rd_session_security_bits d + int (ceil_log2 (nat budget))"
  let ?m = "\<lambda>p v s. \<lparr>tm_session_id = rd_session_id d, tm_mask_id = mid, tm_party = p, tm_bits = bits,
     tm_random_bits = rb, tm_maximum_magnitude = 2 ^ nat (int rb - ?per), tm_session_security_bits = rd_session_security_bits d,
     tm_per_element_security_bits = ?per, tm_opened_element_budget = budget, tm_value = v, tm_shifted = s\<rparr>"
  have chk: "TruncationMaskShare_check (?m p v s) = Inr (?m p v s)"
    if "p \<in> {0, 1}" "nd_shape v = shape" "nd_shape s = shape" for p v s
    using that assms by (auto simp: TruncationMaskShare_check_def Let_def)
  let ?m0 = "?m 0 v h" and ?m1 = "?m 1 (nd_sub ?R v) (nd_sub (nd_map (drop_bit bits) ?R) h)"
  have "truncation_masks (d, e) shape mid bits rb = ((d\<lparr>rd_mask_ids := insert mid (rd_mask_ids d)\<rparr>, e3), Inr (?m0, ?m1))"
    using assms r(2) v(2) h(2) chk [of 0 v h] chk [of 1 "nd_sub ?R v" "nd_sub (nd_map (drop_bit bits) ?R) h"]
    by (simp add: truncation_masks_def shape_of_ok draw_def Let_def r(1) v(1) h(1))
  moreover have "truncation_shares (rd_session_id d) ?R ?m0 ?m1"
    unfolding truncation_shares_def
    using r v h chk [of 0 v h] by (auto intro!: splits_sub simp: mask_uint_bound)
  ultimately show ?thesis
    using r(2) by (intro exI [of _ e3] exI [of _ ?R] exI [of _ ?m0] exI [of _ ?m1]) auto
qed

lemma concat_map_nth:
  assumes "\<And>x. length (f x) = n" and "i < length xs" and "j < n"
  shows "concat (map f xs) ! (i * n + j) = f (xs ! i) ! j"
  using assms(2)
proof (induction xs arbitrary: i)
  case (Cons x xs)
  show ?case
  proof (cases i)
    case 0
    with assms show ?thesis by (simp add: nth_append)
  next
    case (Suc k)
    with Cons.prems Cons.IH [of k] assms(1) show ?thesis by (simp add: nth_append add.assoc)
  qed
qed simp

lemma length_concat_map: "(\<And>x. length (f x) = n) \<Longrightarrow> length (concat (map f xs)) = length xs * n"
  by (induction xs) auto

lemma stack_bits_wf: "nd_wf a \<Longrightarrow> nd_wf (stack_bits a low high)"
  by (simp add: stack_bits_def nd_wf_def length_concat_map)

lemma stack_bits_shape [simp]: "nd_shape (stack_bits a low high) = nd_shape a @ [high - low]"
  by (simp add: stack_bits_def)

lemma drop_bit_and_one: "drop_bit k (w :: 64 word) AND 1 = of_bool (bit w k)"
  by (simp add: and_one_eq bit_iff_odd_drop_bit odd_iff_mod_2_eq_one)

lemma stack_bits_last_at:
  assumes "nd_wf a" and "j < high - low"
  shows "nd_last_at (stack_bits a low high) j = nd_map (\<lambda>r. of_bool (bit r (low + j))) a"
proof (rule nd_ext [where n = "nd_size a"])
  fix i assume i: "i < nd_size a"
  have "concat (map (\<lambda>r. map (\<lambda>k. drop_bit k r AND 1) [low..<high]) (nd_data a)) ! (i * (high - low) + j)
      = map (\<lambda>k. drop_bit k (nd_data a ! i) AND 1) [low..<high] ! j"
    by (rule concat_map_nth) (use assms i in \<open>auto simp: nd_wf_def nd_size_def\<close>)
  with i assms show "nd_data (nd_last_at (stack_bits a low high) j) ! i = nd_data (nd_map (\<lambda>r. of_bool (bit r (low + j))) a) ! i"
    by (simp add: nd_last_at_def stack_bits_def nd_wf_def nd_size_def drop_bit_and_one)
qed (use assms in \<open>auto simp: nd_last_at_def stack_bits_def nd_wf_def nd_size_def\<close>)


definition exact_mask_shares ::
  "string \<Rightarrow> u64array \<Rightarrow> nat \<Rightarrow> string \<Rightarrow> int \<Rightarrow> ExactTruncationMaskShare \<Rightarrow> ExactTruncationMaskShare \<Rightarrow> bool" where
  "exact_mask_shares sid R b mid budget m0 m1 \<longleftrightarrow>
     xm_session_id m0 = sid \<and> xm_session_id m1 = sid \<and> xm_party m0 = 0 \<and> xm_party m1 = 1
     \<and> xm_mask_id m0 = mid \<and> xm_mask_id m1 = mid \<and> xm_bits m0 = b \<and> xm_bits m1 = b
     \<and> xm_opened_element_budget m0 = budget \<and> xm_opened_element_budget m1 = budget \<and> 0 < b \<and> b < 63
     \<and> splits R (xm_value m0) (xm_value m1) \<and> splits (nd_map (drop_bit b) R) (xm_shifted m0) (xm_shifted m1)
     \<and> splits (stack_bits R 0 b) (xm_low_bit_shares m0) (xm_low_bit_shares m1)
     \<and> splits (nd_map (drop_bit 63) R) (xm_sign_bit_share m0) (xm_sign_bit_share m1)"

text \<open>The dealer accepts the next exact mask: a fresh identity within the budgets and the admitted order.\<close>

definition exact_ready :: "ReferenceDealer \<Rightarrow> nat list \<Rightarrow> string \<Rightarrow> nat \<Rightarrow> int \<Rightarrow> bool" where
  "exact_ready d shape mid b budget \<longleftrightarrow> rd_session_id d \<noteq> [] \<and> shape_ok shape \<and> mid \<noteq> [] \<and> mid \<notin> rd_mask_ids d
     \<and> 0 < b \<and> b < 63 \<and> prod_list shape \<le> 1048576 div b \<and> rd_opened_element_budget d = Some budget
     \<and> int (rd_exact_issued_elements d + prod_list shape) \<le> budget"

definition after_exact :: "ReferenceDealer \<Rightarrow> nat \<Rightarrow> string \<Rightarrow> ReferenceDealer" where
  "after_exact d elements mid = d\<lparr>rd_mask_ids := insert mid (rd_mask_ids d),
     rd_exact_issued_elements := rd_exact_issued_elements d + elements,
     rd_exact_next_slot := (if rd_exact_admission d \<noteq> None then rd_exact_next_slot d + 1 else rd_exact_next_slot d)\<rparr>"

lemma reserve_exact_ok:
  "exact_ready d shape mid b budget \<Longrightarrow> reserve_exact d (prod_list shape) mid = Inr (after_exact d (prod_list shape) mid)"
  by (simp add: exact_ready_def reserve_exact_def after_exact_def)

lemma exact_budget_pos: "exact_ready d shape mid b budget \<Longrightarrow> 0 < budget \<and> int (prod_list shape) \<le> budget"
  using prod_list_pos [of shape] by (auto simp: exact_ready_def)

lemma exact_masks_ok:
  assumes "exact_ready d shape mid b budget" and "expect_exact_slot d shape mid b ''beaver'' 0 = Inr ()"
  shows "\<exists>e' R m0 m1. exact_truncation_masks (d, e) shape mid b = ((after_exact d (prod_list shape) mid, e'), Inr (m0, m1))
     \<and> exact_mask_shares (rd_session_id d) R b mid budget m0 m1 \<and> nd_shape R = shape"
proof -
  note rdy = assms(1) [unfolded exact_ready_def]
  have ok: "shape_ok shape" and okb: "shape_ok (shape @ [b])" using rdy by auto
  obtain r e1 where r: "random_ring shape e = Inr (r, e1)" "nd_shape r = shape" "nd_wf r" using draw_ok [OF ok] by metis
  obtain v e2 where v: "random_ring shape e1 = Inr (v, e2)" "nd_shape v = shape" "nd_wf v" using draw_ok [OF ok] by metis
  obtain h e3 where h: "random_ring shape e2 = Inr (h, e3)" "nd_shape h = shape" "nd_wf h" using draw_ok [OF ok] by metis
  obtain l e4 where l: "random_ring (shape @ [b]) e3 = Inr (l, e4)" "nd_shape l = shape @ [b]" "nd_wf l" using draw_ok [OF okb] by metis
  obtain g e5 where g: "random_ring shape e4 = Inr (g, e5)" "nd_shape g = shape" "nd_wf g" using draw_ok [OF ok] by metis
  let ?mk = "\<lambda>p v sh lb sg. \<lparr>xm_session_id = rd_session_id d, xm_mask_id = mid, xm_party = p, xm_bits = b,
     xm_opened_element_budget = budget, xm_value = v, xm_shifted = sh, xm_low_bit_shares = lb, xm_sign_bit_share = sg\<rparr>"
  have chk: "ExactTruncationMaskShare_check (?mk p v sh lb sg) = Inr (?mk p v sh lb sg)"
    if "p \<in> {0, 1}" "nd_shape v = shape" "nd_shape sh = shape" "nd_shape lb = shape @ [b]" "nd_shape sg = shape" for p v sh lb sg
    using that rdy exact_budget_pos [OF assms(1)] prod_list_pos [of shape]
    by (auto simp: ExactTruncationMaskShare_check_def nd_size_def)
  let ?m0 = "?mk 0 v h l g"
  let ?m1 = "?mk 1 (nd_sub r v) (nd_sub (nd_map (drop_bit b) r) h) (nd_sub (stack_bits r 0 b) l) (nd_sub (nd_map (drop_bit 63) r) g)"
  have sb: "nd_shape (stack_bits r 0 b) = shape @ [b]" "nd_wf (stack_bits r 0 b)"
    using r stack_bits_wf [OF r(3)] by simp_all
  have c0: "ExactTruncationMaskShare_check ?m0 = Inr ?m0" and c1: "ExactTruncationMaskShare_check ?m1 = Inr ?m1"
    using r v h l g sb by (intro chk; simp)+
  have sid: "rd_session_id (after_exact d n mid) = rd_session_id d" for n by (simp add: after_exact_def)
  have be: "bounded_elements shape (1048576 div b) = Inr (prod_list shape)" using rdy bounded_elements_ok by blast
  have "exact_truncation_masks (d, e) shape mid b = ((after_exact d (prod_list shape) mid, e5), Inr (?m0, ?m1))"
    using rdy assms(2) exact_budget_pos [OF assms(1)] c0 c1
    by (simp add: exact_truncation_masks_def shape_of_ok be reserve_exact_ok [OF assms(1)] draw_def Let_def sid
        r(1) v(1) h(1) l(1) g(1))
  moreover have "exact_mask_shares (rd_session_id d) r b mid budget ?m0 ?m1"
    unfolding exact_mask_shares_def using rdy r v h l g sb by (auto intro!: splits_sub)
  ultimately show ?thesis using r(2) by blast
qed


section \<open>Point-key material\<close>

text \<open>Gate identities of one mask are distinct because decimal text determines the number.\<close>

fun dec_val :: "string \<Rightarrow> nat \<Rightarrow> nat" where
  "dec_val [] a = a"
| "dec_val (c # cs) a = dec_val cs (10 * a + (of_char c - 48))"

lemma dec_val_append: "dec_val (xs @ ys) a = dec_val ys (dec_val xs a)"
  by (induction xs arbitrary: a) auto

lemma of_char_digit: "d < 10 \<Longrightarrow> of_char (char_of (48 + d :: nat)) = (48 + d :: nat)"
  by (simp add: of_char_of)

lemma dec_val_str_nat: "dec_val (str_nat n) 0 = n"
proof (induction n rule: str_nat.induct)
  case (1 n)
  show ?case
  proof (cases "n < 10")
    case True
    then show ?thesis by (subst str_nat.simps) (simp add: of_char_digit)
  next
    case False
    have "n mod 10 < 10" by simp
    with False "1" show ?thesis by (subst str_nat.simps) (simp add: dec_val_append of_char_digit)
  qed
qed

lemma str_nat_inj: "str_nat m = str_nat n \<longleftrightarrow> m = n"
  by (metis dec_val_str_nat)

lemma fss_gate_id_inj [simp]: "fss_gate_id mid i = fss_gate_id mid j \<longleftrightarrow> i = j"
  by (simp add: fss_gate_id_def str_nat_inj)

lemma fss_gate_id_nonempty [simp]: "fss_gate_id mid i \<noteq> []"
  by (simp add: fss_gate_id_def)

lemma issue_state:
  assumes "issue hmac d e gate point bits = ((d', e'), Inr ks)"
  shows "d' = d\<lparr>dl_issued := insert gate (dl_issued d)\<rparr>"
  using assms by (auto simp: issue_def issue_tree_def Let_def split: if_splits prod.splits)

text \<open>The pair of keys of one element: usable by both parties and comparing with the low bits of the mask.\<close>

definition comparison_pair :: "hmac_fun \<Rightarrow> string \<Rightarrow> string \<Rightarrow> nat \<Rightarrow> 64 word \<Rightarrow> PointKeyShare \<times> PointKeyShare \<Rightarrow> bool" where
  "comparison_pair hmac sid gate low r ks \<longleftrightarrow> (case ks of (k0, k1) \<Rightarrow>
     (\<exists>s d e. dl_session_id d = sid \<and> issue hmac d e gate (uint (r AND (2 ^ low - 1))) low = (s, Inr (k0, k1))))"

lemma issue_points_ok:
  assumes "dl_session_id pd = sid" "sid \<noteq> []" "1 \<le> low" "low \<le> max_bits" "\<forall>i \<ge> n. fss_gate_id mid i \<notin> dl_issued pd"
  shows "\<exists>e' pairs. issue_points hmac mid low pd e n ws = (e', Inr pairs) \<and> length pairs = length ws
     \<and> (\<forall>i < length ws. comparison_pair hmac sid (fss_gate_id mid (n + i)) low (ws ! i) (pairs ! i))"
  using assms
proof (induction ws arbitrary: pd e n)
  case (Cons w ws)
  let ?pt = "uint (w AND (2 ^ low - 1))"
  obtain s ks where i: "issue hmac pd e (fss_gate_id mid n) ?pt low = (s, Inr ks)"
    using issue_succeeds [of pd "fss_gate_id mid n" low ?pt hmac e] Cons.prems mask_uint_bound by auto
  obtain pd' e1 where s: "s = (pd', e1)" by (cases s)
  have pd': "pd' = pd\<lparr>dl_issued := insert (fss_gate_id mid n) (dl_issued pd)\<rparr>" using issue_state i s by blast
  obtain e2 pairs where p: "issue_points hmac mid low pd' e1 (Suc n) ws = (e2, Inr pairs)" "length pairs = length ws"
    "\<forall>i < length ws. comparison_pair hmac sid (fss_gate_id mid (Suc n + i)) low (ws ! i) (pairs ! i)"
    using Cons.IH [of pd' "Suc n" e1] Cons.prems pd' by auto
  have "comparison_pair hmac sid (fss_gate_id mid n) low w ks"
    using i [unfolded s] Cons.prems(1) by (cases ks) (auto simp: comparison_pair_def)
  with p i s show ?case by (auto simp: nth_Cons less_Suc_eq_0_disj split: nat.splits)
qed simp


definition fss_mask_shares ::
  "hmac_fun \<Rightarrow> string \<Rightarrow> u64array \<Rightarrow> nat \<Rightarrow> nat \<Rightarrow> string \<Rightarrow> int \<Rightarrow> FssTruncationMaskShare \<Rightarrow> FssTruncationMaskShare \<Rightarrow> bool" where
  "fss_mask_shares hmac sid R b low mid budget m0 m1 \<longleftrightarrow>
     fm_session_id m0 = sid \<and> fm_session_id m1 = sid \<and> fm_party m0 = 0 \<and> fm_party m1 = 1
     \<and> fm_mask_id m0 = mid \<and> fm_mask_id m1 = mid \<and> fm_bits m0 = b \<and> fm_bits m1 = b
     \<and> fm_comparison_bits m0 = low \<and> fm_comparison_bits m1 = low
     \<and> fm_opened_element_budget m0 = budget \<and> fm_opened_element_budget m1 = budget
     \<and> 0 < b \<and> b < 63 \<and> 0 < low \<and> low \<le> min b 10
     \<and> splits R (fm_value m0) (fm_value m1) \<and> splits (nd_map (drop_bit b) R) (fm_shifted m0) (fm_shifted m1)
     \<and> splits (nd_map (drop_bit 63) R) (fm_sign_bit_share m0) (fm_sign_bit_share m1)
     \<and> splits (stack_bits R low b) (fm_high_bit_shares m0) (fm_high_bit_shares m1)
     \<and> nd_wf (fm_xor_mask_share m0) \<and> nd_wf (fm_xor_mask_share m1)
     \<and> nd_shape (fm_xor_mask_share m0) = nd_shape R \<and> nd_shape (fm_xor_mask_share m1) = nd_shape R
     \<and> splits (nd_map of_bool (nd_map2 (\<noteq>) (fm_xor_mask_share m0) (fm_xor_mask_share m1)))
           (fm_ring_mask_share m0) (fm_ring_mask_share m1)
     \<and> length (fm_comparison_keys m0) = nd_size R \<and> length (fm_comparison_keys m1) = nd_size R
     \<and> (\<forall>i < nd_size R. comparison_pair hmac sid (fss_gate_id mid i) low (nd_data R ! i)
            (fm_comparison_keys m0 ! i, fm_comparison_keys m1 ! i))"

lemma comparison_pair_keys:
  assumes "comparison_pair hmac sid gate low r (k0, k1)"
  shows "pk_session_id k0 = sid" "pk_session_id k1 = sid" "pk_party k0 = 0" "pk_party k1 = 1"
    "pk_bits k0 = low" "pk_bits k1 = low" "pk_gate_id k0 = gate" "pk_gate_id k1 = gate"
  using assms issue_ok by (fastforce simp: comparison_pair_def)+

lemma fss_check_ok:
  assumes "fm_session_id m \<noteq> []" "fm_mask_id m \<noteq> []" "fm_party m \<in> {0, 1}" "0 < fm_bits m" "fm_bits m < 63"
    "0 < fm_comparison_bits m" "fm_comparison_bits m \<le> min 10 (fm_bits m)" "fm_bits m \<le> 10 \<longrightarrow> fm_comparison_bits m = fm_bits m"
    "0 < fm_opened_element_budget m" "shape_ok (nd_shape (fm_value m))" "nd_size (fm_value m) \<le> 1048576 div fm_bits m"
    "nd_shape (fm_shifted m) = nd_shape (fm_value m)" "nd_shape (fm_sign_bit_share m) = nd_shape (fm_value m)"
    "nd_shape (fm_ring_mask_share m) = nd_shape (fm_value m)"
    "nd_shape (fm_high_bit_shares m) = nd_shape (fm_value m) @ [fm_bits m - fm_comparison_bits m]"
    "nd_shape (fm_xor_mask_share m) = nd_shape (fm_value m)" "length (fm_comparison_keys m) = nd_size (fm_value m)"
    "\<forall>i < nd_size (fm_value m). pk_session_id (fm_comparison_keys m ! i) = fm_session_id m
        \<and> pk_party (fm_comparison_keys m ! i) = fm_party m \<and> pk_bits (fm_comparison_keys m ! i) = fm_comparison_bits m
        \<and> pk_gate_id (fm_comparison_keys m ! i) = fss_gate_id (fm_mask_id m) i"
  shows "FssTruncationMaskShare_check m = Inr m"
proof -
  have k: "\<not> list_ex (\<lambda>(index, key). pk_session_id key \<noteq> fm_session_id m \<or> pk_party key \<noteq> fm_party m
               \<or> pk_bits key \<noteq> fm_comparison_bits m \<or> pk_gate_id key \<noteq> fss_gate_id (fm_mask_id m) index)
             (enumerate 0 (fm_comparison_keys m))"
    using assms(17,18) by (auto simp: list_ex_iff in_set_enumerate_eq)
  have "nd_size (fm_value m) \<noteq> 0" using assms(10) prod_list_pos [of "nd_shape (fm_value m)"] by (simp add: nd_size_def)
  with assms k show ?thesis unfolding FssTruncationMaskShare_check_def by auto
qed


lemma fss_high_draw:
  assumes "shape_ok shape" and "low \<le> b" and "nd_wf R" and "nd_shape R = shape"
  obtains h e' where "nd_shape h = shape @ [b - low]" "nd_wf h"
    "\<And>k d. draw_high shape low b (stack_bits R low b) (d, e) k = (k h (d, e') :: dealer_state \<times> (FssTruncationMaskShare \<times> FssTruncationMaskShare) res)"
proof (cases "low < b")
  case True
  then have "shape_ok (shape @ [b - low])" using assms(1) by simp
  then obtain h e' where "random_ring (shape @ [b - low]) e = Inr (h, e')" "nd_shape h = shape @ [b - low]" "nd_wf h"
    using draw_ok by metis
  with True that [of h e'] show ?thesis by (simp add: draw_high_def draw_def)
next
  case False
  with assms stack_bits_wf [OF assms(3)] that [of "stack_bits R low b" e] show ?thesis by (simp add: draw_high_def)
qed

lemma fss_masks_ok:
  assumes "exact_ready d shape mid b budget" and "low_bits = (case low of None \<Rightarrow> b | Some l \<Rightarrow> l)"
    and "0 < low_bits" "low_bits \<le> min b 10" "b \<le> 10 \<longrightarrow> low_bits = b"
    and "prod_list shape * (17 + 17 * low_bits) \<le> 32 * 1024 * 1024"
    and "expect_exact_slot d shape mid b (if low_bits = b then ''fss'' else ''hybrid'')
           (if low_bits \<noteq> b then low_bits else 0) = Inr ()"
  shows "\<exists>e' R m0 m1. fss_truncation_masks hmac (d, e) shape mid b low = ((after_exact d (prod_list shape) mid, e'), Inr (m0, m1))
     \<and> fss_mask_shares hmac (rd_session_id d) R b low_bits mid budget m0 m1 \<and> nd_shape R = shape
     \<and> FssTruncationMaskShare_check m0 = Inr m0 \<and> FssTruncationMaskShare_check m1 = Inr m1"
proof -
  note rdy = assms(1) [unfolded exact_ready_def]
  let ?sid = "rd_session_id d" and ?d = "after_exact d (prod_list shape) mid"
  have ok: "shape_ok shape" using rdy by auto
  obtain r e1 where r: "random_ring shape e = Inr (r, e1)" "nd_shape r = shape" "nd_wf r" using draw_ok [OF ok] by metis
  obtain v e2 where v: "random_ring shape e1 = Inr (v, e2)" "nd_shape v = shape" "nd_wf v" using draw_ok [OF ok] by metis
  obtain s e3 where s: "random_ring shape e2 = Inr (s, e3)" "nd_shape s = shape" "nd_wf s" using draw_ok [OF ok] by metis
  obtain g e4 where g: "random_ring shape e3 = Inr (g, e4)" "nd_shape g = shape" "nd_wf g" using draw_ok [OF ok] by metis
  obtain bm e5 where bm: "random_ring shape e4 = Inr (bm, e5)" "nd_shape bm = shape" "nd_wf bm" using draw_ok [OF ok] by metis
  obtain b0 e6 where b0: "random_ring shape e5 = Inr (b0, e6)" "nd_shape b0 = shape" "nd_wf b0" using draw_ok [OF ok] by metis
  obtain q e7 where q: "random_ring shape e6 = Inr (q, e7)" "nd_shape q = shape" "nd_wf q" using draw_ok [OF ok] by metis
  have lb: "low_bits \<le> b" using assms(4) by simp
  obtain h e8 where h: "nd_shape h = shape @ [b - low_bits]" "nd_wf h"
    "\<And>k d. draw_high shape low_bits b (stack_bits r low_bits b) (d, e7) k = (k h (d, e8) :: dealer_state \<times> (FssTruncationMaskShare \<times> FssTruncationMaskShare) res)"
    using fss_high_draw [OF ok lb r(3,2), of e7] by blast
  let ?pd = "\<lparr>dl_session_id = ?sid, dl_issued = {}\<rparr>"
  obtain e9 pairs where p: "issue_points hmac mid low_bits ?pd e8 0 (nd_data r) = (e9, Inr pairs)"
    "length pairs = length (nd_data r)"
    "\<forall>i < length (nd_data r). comparison_pair hmac ?sid (fss_gate_id mid (0 + i)) low_bits (nd_data r ! i) (pairs ! i)"
    using issue_points_ok [of ?pd ?sid low_bits 0 mid hmac e8 "nd_data r"] rdy assms(3,4) by (auto simp: max_bits_def)
  let ?B = "nd_map (\<lambda>w. bit w 0) bm" and ?C = "nd_map (\<lambda>w. bit w 0) b0"
  let ?mk = "\<lambda>party v sh sg keys xm rm hb. \<lparr>fm_session_id = ?sid, fm_mask_id = mid, fm_party = party,
     fm_bits = b, fm_opened_element_budget = budget, fm_value = v, fm_shifted = sh, fm_sign_bit_share = sg,
     fm_comparison_keys = keys, fm_xor_mask_share = xm, fm_ring_mask_share = rm,
     fm_comparison_bits = low_bits, fm_high_bit_shares = hb\<rparr>"
  let ?x = "?mk 0 v s g (map fst pairs) ?C q h"
  let ?y = "?mk 1 (nd_sub r v) (nd_sub (nd_map (drop_bit b) r) s) (nd_sub (nd_map (drop_bit 63) r) g) (map snd pairs)
     (nd_map2 (\<noteq>) ?B ?C) (nd_sub (nd_map of_bool ?B) q) (nd_sub (stack_bits r low_bits b) h)"
  have len: "length pairs = prod_list shape" "length (nd_data r) = prod_list shape" using p(2) r by (simp_all add: nd_wf_def)
  have kp: "comparison_pair hmac ?sid (fss_gate_id mid i) low_bits (nd_data r ! i) (fst (pairs ! i), snd (pairs ! i))"
    if "i < prod_list shape" for i using p(3) that len by simp
  note kf = comparison_pair_keys [OF kp]
  note common = rdy assms(3-5) exact_budget_pos [OF assms(1)] r v s g bm b0 q h(1,2) len
  have c0: "FssTruncationMaskShare_check ?x = Inr ?x"
    by (rule fss_check_ok) (use common kf in \<open>simp_all add: nd_size_def\<close>)
  have c1: "FssTruncationMaskShare_check ?y = Inr ?y"
    by (rule fss_check_ok) (use common kf in \<open>simp_all add: nd_size_def\<close>)
  have be: "bounded_elements shape (1048576 div b) = Inr (prod_list shape)" using rdy bounded_elements_ok by blast
  have sid: "rd_session_id ?d = ?sid" by (simp add: after_exact_def)
  have pdi: "PointKeyDealer_init ?sid = Inr ?pd" using rdy by (simp add: PointKeyDealer_init_def)
  have nb: "(b \<le> 10 \<and> low_bits \<noteq> b) = False" using assms(5) by auto
  have "fss_truncation_masks hmac (d, e) shape mid b low = ((?d, e9), Inr (?x, ?y))"
    using rdy assms(3-7) exact_budget_pos [OF assms(1)] c0 c1
    by (simp add: fss_truncation_masks_def shape_of_ok be reserve_exact_ok [OF assms(1)] assms(2) [symmetric] draw_def Let_def sid
        r(1) v(1) s(1) g(1) bm(1) b0(1) q(1) pdi p(1) h(3) nb)
  moreover have "fss_mask_shares hmac ?sid r b low_bits mid budget ?x ?y"
  proof -
    have xor: "nd_map2 (\<noteq>) ?C (nd_map2 (\<noteq>) ?B ?C) = ?B"
      by (rule nd_ext [where n = "prod_list shape"]) (use bm b0 in \<open>auto simp: nd_wf_def\<close>)
    have w: "nd_wf (nd_map2 (\<noteq>) ?B ?C)" using bm b0 by (intro nd_wf_map2) auto
    show ?thesis
      unfolding fss_mask_shares_def using rdy assms(3,4) r v s g bm b0 q h(1,2) len kp xor w stack_bits_wf [OF r(3)]
      by (auto intro!: splits_sub simp: nd_size_def)
  qed
  ultimately show ?thesis using r(2) c0 c1 by blast
qed

section \<open>Order and budget of issuance\<close>

lemma exact_masks_reject:
  assumes "\<And>budget. \<not> (exact_ready d shape mid b budget \<and> expect_exact_slot d shape mid b ''beaver'' 0 = Inr ())"
    and "rd_session_id d \<noteq> []"
  shows "\<exists>err. exact_truncation_masks (d, e) shape mid b = ((d, e), Inl err)"
proof (cases "shape_ok shape \<and> mid \<noteq> [] \<and> mid \<notin> rd_mask_ids d \<and> 0 < b \<and> b < 63")
  case False
  then show ?thesis by (auto simp: exact_truncation_masks_def shape_of_ok raiseS_def)
next
  case True
  show ?thesis
  proof (cases "bounded_elements shape (1048576 div b)")
    case (Inl err)
    with True show ?thesis by (simp add: exact_truncation_masks_def shape_of_ok)
  next
    case (Inr n)
    then have n: "n = prod_list shape" "n \<le> 1048576 div b" using True bounded_elements_bound by blast+
    show ?thesis
    proof (cases "rd_opened_element_budget d")
      case None
      with True Inr show ?thesis by (simp add: exact_truncation_masks_def shape_of_ok)
    next
      case (Some budget)
      have "\<exists>err. reserve_exact d n mid = Inl err" if "expect_exact_slot d shape mid b ''beaver'' 0 = Inr ()"
        using assms(1) [of budget] that True Some n assms(2) by (auto simp: exact_ready_def reserve_exact_def raise_if_def)
      then show ?thesis using True Inr Some
        by (cases "expect_exact_slot d shape mid b ''beaver'' 0")
          (auto simp: exact_truncation_masks_def shape_of_ok raiseS_def)
    qed
  qed
qed

lemma fss_masks_reject:
  assumes "low_bits = (case low of None \<Rightarrow> b | Some l \<Rightarrow> l)" and "rd_session_id d \<noteq> []"
    and "\<And>budget. \<not> (exact_ready d shape mid b budget \<and> 0 < low_bits \<and> low_bits \<le> min b 10 \<and> (b \<le> 10 \<longrightarrow> low_bits = b)
      \<and> prod_list shape * (17 + 17 * low_bits) \<le> 32 * 1024 * 1024
      \<and> expect_exact_slot d shape mid b (if low_bits = b then ''fss'' else ''hybrid'')
           (if low_bits \<noteq> b then low_bits else 0) = Inr ())"
  shows "\<exists>err. fss_truncation_masks hmac (d, e) shape mid b low = ((d, e), Inl err)"
proof (cases "shape_ok shape \<and> mid \<noteq> [] \<and> mid \<notin> rd_mask_ids d \<and> 0 < b \<and> b < 63
    \<and> 0 < low_bits \<and> low_bits \<le> min b 10 \<and> (b \<le> 10 \<longrightarrow> low_bits = b)")
  case False
  then show ?thesis by (auto simp: fss_truncation_masks_def shape_of_ok raiseS_def assms(1) [symmetric] Let_def)
next
  case True
  show ?thesis
  proof (cases "bounded_elements shape (1048576 div b)")
    case (Inl err)
    with True show ?thesis by (auto simp: fss_truncation_masks_def shape_of_ok assms(1) [symmetric] Let_def raiseS_def)
  next
    case (Inr n)
    then have n: "n = prod_list shape" "n \<le> 1048576 div b" using True bounded_elements_bound by blast+
    show ?thesis
    proof (cases "rd_opened_element_budget d")
      case None
      with True Inr show ?thesis by (auto simp: fss_truncation_masks_def shape_of_ok assms(1) [symmetric] Let_def raiseS_def)
    next
      case (Some budget)
      let ?x = "expect_exact_slot d shape mid b (if low_bits = b then ''fss'' else ''hybrid'') (if low_bits \<noteq> b then low_bits else 0)"
      have "\<exists>err. reserve_exact d n mid = Inl err" if "?x = Inr ()" "n * (17 + 17 * low_bits) \<le> 32 * 1024 * 1024"
        using assms(3) [of budget] that True Some n assms(2) by (auto simp: exact_ready_def reserve_exact_def raise_if_def)
      then show ?thesis using True Inr Some
        by (cases ?x) (auto simp: fss_truncation_masks_def shape_of_ok raiseS_def assms(1) [symmetric] Let_def)
    qed
  qed
qed


datatype exact_call = CallExact "nat list" string nat | CallFss "nat list" string nat "nat option"

fun call_slot :: "exact_call \<Rightarrow> ExactSessionSlot" where
  "call_slot (CallExact shape mid b) =
     \<lparr>slot_operation_id = mid, slot_shape = map int shape, slot_bits = b, slot_method = ''beaver'', slot_low_bits = 0\<rparr>"
| "call_slot (CallFss shape mid b low) =
     (let l = (case low of None \<Rightarrow> b | Some l \<Rightarrow> l) in
      \<lparr>slot_operation_id = mid, slot_shape = map int shape, slot_bits = b,
       slot_method = (if l = b then ''fss'' else ''hybrid''), slot_low_bits = (if l \<noteq> b then l else 0)\<rparr>)"

fun call_step :: "hmac_fun \<Rightarrow> exact_call \<Rightarrow> dealer_state \<Rightarrow> dealer_state \<times> bool" where
  "call_step hmac (CallExact shape mid b) s =
     (let (s', r) = exact_truncation_masks s shape mid b in (s', \<not> isl r))"
| "call_step hmac (CallFss shape mid b low) s =
     (let (s', r) = fss_truncation_masks hmac s shape mid b low in (s', \<not> isl r))"

text \<open>\<open>call_run\<close> makes the calls in order and returns the slots of those that were issued.\<close>

fun call_run :: "hmac_fun \<Rightarrow> exact_call list \<Rightarrow> dealer_state \<Rightarrow> dealer_state \<times> ExactSessionSlot list" where
  "call_run hmac [] s = (s, [])"
| "call_run hmac (c # cs) s =
     (let (s', ok) = call_step hmac c s; (s'', issued) = call_run hmac cs s'
      in (s'', if ok then call_slot c # issued else issued))"

definition slot_elements :: "ExactSessionSlot \<Rightarrow> nat" where
  "slot_elements s = prod_list (map nat (slot_shape s))"

lemma expect_admitted:
  assumes "rd_exact_admission d = Some adm"
    and "expect_exact_slot d shape mid b m l = Inr ()"
  shows "rd_exact_next_slot d < length (ad_slots adm)
    \<and> ad_slots adm ! rd_exact_next_slot d = \<lparr>slot_operation_id = mid, slot_shape = map int shape, slot_bits = b,
         slot_method = m, slot_low_bits = l\<rparr>"
  using assms by (auto simp: expect_exact_slot_def res_simps)

lemma call_step_cases:
  assumes "rd_session_id d \<noteq> []" and "call_step hmac c (d, e) = (s', ok)"
  shows "(\<not> ok \<and> s' = (d, e))
    \<or> (ok \<and> (\<exists>n e' budget. s' = (after_exact d n (slot_operation_id (call_slot c)), e') \<and> n = slot_elements (call_slot c)
        \<and> rd_opened_element_budget d = Some budget \<and> int (rd_exact_issued_elements d + n) \<le> budget
        \<and> (\<forall>adm. rd_exact_admission d = Some adm \<longrightarrow> rd_exact_next_slot d < length (ad_slots adm)
              \<and> ad_slots adm ! rd_exact_next_slot d = call_slot c)))"
proof (cases c)
  case (CallExact shape mid b)
  show ?thesis
  proof (cases "\<exists>budget. exact_ready d shape mid b budget \<and> expect_exact_slot d shape mid b ''beaver'' 0 = Inr ()")
    case True
    then obtain budget where r: "exact_ready d shape mid b budget" "expect_exact_slot d shape mid b ''beaver'' 0 = Inr ()" by blast
    from exact_masks_ok [OF r, of e] assms(2) CallExact r(1) expect_admitted [OF _ r(2)]
    show ?thesis by (auto simp: exact_ready_def slot_elements_def comp_def)
  next
    case False
    with exact_masks_reject [OF _ assms(1), of shape mid b e] assms(2) CallExact show ?thesis by auto
  qed
next
  case (CallFss shape mid b low)
  define l where "l = (case low of None \<Rightarrow> b | Some l \<Rightarrow> l)"
  show ?thesis
  proof (cases "\<exists>budget. exact_ready d shape mid b budget \<and> 0 < l \<and> l \<le> min b 10 \<and> (b \<le> 10 \<longrightarrow> l = b)
      \<and> prod_list shape * (17 + 17 * l) \<le> 32 * 1024 * 1024
      \<and> expect_exact_slot d shape mid b (if l = b then ''fss'' else ''hybrid'') (if l \<noteq> b then l else 0) = Inr ()")
    case True
    then obtain budget where r: "exact_ready d shape mid b budget" "0 < l" "l \<le> min b 10" "b \<le> 10 \<longrightarrow> l = b"
      "prod_list shape * (17 + 17 * l) \<le> 32 * 1024 * 1024"
      "expect_exact_slot d shape mid b (if l = b then ''fss'' else ''hybrid'') (if l \<noteq> b then l else 0) = Inr ()" by blast
    from fss_masks_ok [OF r(1) l_def r(2-6), of hmac e] assms(2) CallFss r(1) expect_admitted [OF _ r(6)]
    show ?thesis unfolding CallFss call_slot.simps l_def [symmetric] by (auto simp: exact_ready_def slot_elements_def comp_def)
  next
    case False
    with fss_masks_reject [OF l_def assms(1), of shape mid hmac e] assms(2) CallFss show ?thesis by auto
  qed
qed


lemma after_exact_simps [simp]:
  "rd_session_id (after_exact d n mid) = rd_session_id d"
  "rd_exact_admission (after_exact d n mid) = rd_exact_admission d"
  "rd_opened_element_budget (after_exact d n mid) = rd_opened_element_budget d"
  "rd_exact_issued_elements (after_exact d n mid) = rd_exact_issued_elements d + n"
  "rd_exact_admission d = Some adm \<Longrightarrow> rd_exact_next_slot (after_exact d n mid) = Suc (rd_exact_next_slot d)"
  by (simp_all add: after_exact_def)

lemma call_run_issued:
  assumes "rd_session_id d \<noteq> []" and "rd_exact_admission d = Some adm" and "call_run hmac cs (d, e) = ((d', e'), issued)"
  shows "issued = take (length issued) (drop (rd_exact_next_slot d) (ad_slots adm))
    \<and> rd_exact_next_slot d' = rd_exact_next_slot d + length issued
    \<and> rd_exact_issued_elements d' = rd_exact_issued_elements d + sum_list (map slot_elements issued)"
  using assms
proof (induction cs arbitrary: d e issued)
  case (Cons c cs)
  obtain s1 ok where c: "call_step hmac c (d, e) = (s1, ok)" by fastforce
  obtain d1 e1 where s1: "s1 = (d1, e1)" by (cases s1)
  obtain issued1 where r: "call_run hmac cs (d1, e1) = ((d', e'), issued1)" "issued = (if ok then call_slot c # issued1 else issued1)"
    using Cons.prems(3) c s1 by (auto simp: Let_def split: prod.splits)
  show ?case
  proof (cases ok)
    case False
    with call_step_cases [OF Cons.prems(1) c] s1 have "d1 = d" by auto
    with Cons.IH [OF _ _ r(1)] Cons.prems r(2) False show ?thesis by simp
  next
    case True
    let ?n = "rd_exact_next_slot d"
    from call_step_cases [OF Cons.prems(1) c] s1 True Cons.prems(2) have
      st: "d1 = after_exact d (slot_elements (call_slot c)) (slot_operation_id (call_slot c))"
      and nx: "?n < length (ad_slots adm)" "ad_slots adm ! ?n = call_slot c" by auto
    have "drop ?n (ad_slots adm) = call_slot c # drop (Suc ?n) (ad_slots adm)"
      using Cons_nth_drop_Suc [OF nx(1)] nx(2) by simp
    with Cons.IH [OF _ _ r(1)] Cons.prems(1,2) st r(2) True show ?thesis by simp
  qed
qed simp

lemma admit_slots_bounds:
  assumes "admit_slots budget max_body slots seen (t0, k0, b0) = Inr (t, k, bd)"
    and "int t0 \<le> budget" and "int b0 \<le> max_body"
  shows "t = t0 + sum_list (map slot_elements slots) \<and> int t \<le> budget \<and> int bd \<le> max_body
     \<and> distinct (map slot_operation_id slots) \<and> slot_operation_id ` set slots \<inter> seen = {}"
  using assms
proof (induction slots arbitrary: seen t0 k0 b0)
  case (Cons s ss)
  from Cons.prems(1) obtain shape n where
    v: "\<not> slot_invalid seen s" and sh: "shape_ints (slot_shape s) = Inr shape"
    and n: "bounded_elements shape (1048576 div slot_bits s) = Inr n"
    and rest: "admit_slots budget max_body ss (insert (slot_operation_id s) seen)
        (t0 + n, k0 + slot_key_bytes s n, b0 + slot_body_bytes s n) = Inr (t, k, bd)"
    and bd: "int (t0 + n) \<le> budget" "int (b0 + slot_body_bytes s n) \<le> max_body"
    by (auto simp: res_simps Let_def not_less)
  note ok = shape_ints_Inr [OF sh]
  have "n = slot_elements s" using bounded_elements_bound [of shape _ n] n ok by (auto simp: slot_elements_def comp_def)
  with Cons.IH [OF rest bd] v show ?case by (auto simp: slot_invalid_def)
qed simp

lemma admit_total:
  assumes "admit_exact_session hexdigest_json d graph slots max_keys max_body = (d', Inr adm)"
  shows "ad_slots adm = slots \<and> distinct (map slot_operation_id slots)
    \<and> ad_total_opened_elements adm = sum_list (map slot_elements slots)
    \<and> (\<exists>budget. rd_opened_element_budget d = Some budget \<and> int (ad_total_opened_elements adm) \<le> budget)
    \<and> int (ad_per_party_key_bytes adm) \<le> max_keys \<and> int (ad_per_party_material_body_bytes adm) \<le> max_body
    \<and> d' = d\<lparr>rd_exact_admission := Some adm\<rparr>"
proof -
  from assms obtain budget t k b where bud: "rd_opened_element_budget d = Some budget" "0 < budget" "0 < max_body"
    and sl: "admit_slots budget max_body slots {} (0, 0, 0) = Inr (t, k, b)" and k: "int k \<le> max_keys"
    and adm: "ad_slots adm = slots" "ad_total_opened_elements adm = t" "ad_per_party_key_bytes adm = k"
      "ad_per_party_material_body_bytes adm = b" and d': "d' = d\<lparr>rd_exact_admission := Some adm\<rparr>"
    by (auto simp: admit_exact_session_def res_simps Let_def not_le not_less split: option.splits)
  from admit_slots_bounds [OF sl] bud k adm d' show ?thesis by auto
qed

text \<open>
  Admission of an exact session is sound: the admitted total is the number of elements of all
  slots, it respects the session's opening budget, the aggregate key and body sizes respect the
  limits, and no operation identifier occurs twice.
\<close>

lemma admission_within_budget:
  assumes "admit_exact_session hexdigest_json d graph slots max_keys max_body = (d', Inr adm)"
  shows "ad_slots adm = slots \<and> distinct (map slot_operation_id slots)
    \<and> ad_total_opened_elements adm = sum_list (map slot_elements slots)
    \<and> (\<exists>budget. rd_opened_element_budget d = Some budget \<and> int (ad_total_opened_elements adm) \<le> budget)
    \<and> int (ad_per_party_key_bytes adm) \<le> max_keys \<and> int (ad_per_party_material_body_bytes adm) \<le> max_body
    \<and> d' = d\<lparr>rd_exact_admission := Some adm\<rparr>"
  using assms by (rule admit_total)

text \<open>
  After a new dealer admitted a session, whatever exact and point-key masks are requested in
  whatever order, the masks it issues are an initial part of the admitted slots in the admitted order,
  and together they open no more elements than were admitted.
\<close>

lemma admitted_order:
  assumes "ReferenceDealer_init sid sec budget = Inr d"
    and "admit_exact_session hexdigest_json d graph slots max_keys max_body = (d1, Inr adm)"
  shows "\<exists>n. snd (call_run hmac cs (d1, e)) = take n slots
    \<and> rd_exact_issued_elements (fst (fst (call_run hmac cs (d1, e)))) = sum_list (map slot_elements (take n slots))
    \<and> sum_list (map slot_elements (take n slots)) \<le> ad_total_opened_elements adm"
proof -
  have d: "rd_session_id d \<noteq> []" "rd_exact_next_slot d = 0" "rd_exact_issued_elements d = 0"
    using assms(1) by (auto simp: ReferenceDealer_init_def res_simps)
  have adm: "ad_slots adm = slots" "d1 = d\<lparr>rd_exact_admission := Some adm\<rparr>"
    "ad_total_opened_elements adm = sum_list (map slot_elements slots)"
    using assms(2) admit_total [OF assms(2)] by auto
  obtain d' e' issued where r: "call_run hmac cs (d1, e) = ((d', e'), issued)" by (metis prod.collapse)
  from call_run_issued [OF _ _ r, of adm] d adm have i: "issued = take (length issued) slots"
    "rd_exact_issued_elements d' = sum_list (map slot_elements issued)" by auto
  have "sum_list (map slot_elements issued) \<le> sum_list (map slot_elements slots)"
    by (subst i(1)) (metis append_take_drop_id map_append sum_list_append le_add1)
  with i r adm(3) show ?thesis by (metis fst_conv snd_conv)
qed


lemma hybrid_small_reject:
  assumes "rd_session_id d \<noteq> []" and "slot_method (call_slot c) = ''hybrid''" and "slot_bits (call_slot c) \<le> 10"
  shows "\<not> snd (call_step hmac c (d, e))"
proof (cases c)
  case (CallExact shape mid b)
  with assms show ?thesis by simp
next
  case (CallFss shape mid b low)
  define l where "l = (case low of None \<Rightarrow> b | Some l \<Rightarrow> l)"
  have "l \<noteq> b" "b \<le> 10" using assms(2,3) CallFss by (auto simp: l_def Let_def split: if_splits)
  with fss_masks_reject [OF l_def assms(1), of shape mid hmac e] CallFss show ?thesis by auto
qed

text \<open>
  C40: A session whose first slot is a hybrid of at most ten bits is admitted and then stuck: the dealer
  refuses every hybrid mask of that width, and because material is issued in the admitted order it issues
  no exact material at all for the session, whatever is requested.
\<close>

theorem hybrid_slot_unissuable:
  assumes "ReferenceDealer_init sid sec budget = Inr d"
    and "admit_exact_session hexdigest_json d graph (s # slots) max_keys max_body = (d1, Inr adm)"
    and "slot_method s = ''hybrid''" and "slot_bits s \<le> 10"
  shows "call_run hmac cs (d1, e) = ((d1, e), [])"
proof -
  have d: "rd_session_id d1 \<noteq> []" "rd_exact_next_slot d1 = 0" "rd_exact_admission d1 = Some adm" "ad_slots adm = s # slots"
    using assms(1) admit_total [OF assms(2)] by (auto simp: ReferenceDealer_init_def res_simps)
  have "call_step hmac c (d1, e) = ((d1, e), False)" for c
  proof -
    obtain s' ok where st: "call_step hmac c (d1, e) = (s', ok)" by fastforce
    have "\<not> ok"
    proof
      assume ok
      with call_step_cases [OF d(1) st] d have "call_slot c = s" by auto
      with hybrid_small_reject [OF d(1), of c hmac e] assms(3,4) st \<open>ok\<close> show False by simp
    qed
    with call_step_cases [OF d(1) st] st show ?thesis by auto
  qed
  then show ?thesis by (induction cs) simp_all
qed

definition demo_rd :: ReferenceDealer where
  "demo_rd = \<lparr>rd_session_id = ''s'', rd_triple_ids = {}, rd_mask_ids = {}, rd_exact_issued_elements = 0,
     rd_exact_admission = None, rd_exact_next_slot = 0, rd_session_security_bits = 40, rd_opened_element_budget = Some 100\<rparr>"

definition demo_slot :: "string \<Rightarrow> int list \<Rightarrow> nat \<Rightarrow> string \<Rightarrow> nat \<Rightarrow> ExactSessionSlot" where
  "demo_slot i shape b m l = \<lparr>slot_operation_id = i, slot_shape = shape, slot_bits = b, slot_method = m, slot_low_bits = l\<rparr>"

definition demo_slots :: "ExactSessionSlot list" where
  "demo_slots = [demo_slot ''a'' [2] 8 ''beaver'' 0, demo_slot ''b'' [3] 4 ''fss'' 0]"

definition demo_admission :: "ExactSessionSlot list \<Rightarrow> nat \<Rightarrow> nat \<Rightarrow> nat \<Rightarrow> ExactSessionAdmission" where
  "demo_admission slots t k b = \<lparr>ad_session_id = ''s'', ad_graph_digest = replicate 64 (CHR ''a''), ad_schedule_digest = ''h'',
     ad_total_opened_elements = t, ad_per_party_key_bytes = k, ad_slots = slots, ad_per_party_material_body_bytes = b\<rparr>"

lemma demo_rd_init: "ReferenceDealer_init ''s'' 40 (Some 100) = Inr demo_rd"
  by (simp add: ReferenceDealer_init_def demo_rd_def)

lemma demo_admit:
  "admit_exact_session (\<lambda>_. ''h'') demo_rd (replicate 64 (CHR ''a'')) demo_slots 100000 100000
     = (demo_rd\<lparr>rd_exact_admission := Some (demo_admission demo_slots 5 255 866)\<rparr>, Inr (demo_admission demo_slots 5 255 866))"
  by (simp add: admit_exact_session_def demo_rd_def demo_slots_def demo_slot_def demo_admission_def slot_invalid_def
      shape_ints_def bounded_elements_def slot_key_bytes_def slot_body_bytes_def slot_low_def hex_digit_def list_all_iff Let_def)

lemma demo_admit_hybrid:
  "admit_exact_session (\<lambda>_. ''h'') demo_rd (replicate 64 (CHR ''a'')) [demo_slot ''a'' [1] 8 ''hybrid'' 4] 100000 100000
     = (demo_rd\<lparr>rd_exact_admission := Some (demo_admission [demo_slot ''a'' [1] 8 ''hybrid'' 4] 1 85 246)\<rparr>,
        Inr (demo_admission [demo_slot ''a'' [1] 8 ''hybrid'' 4] 1 85 246))"
  by (simp add: admit_exact_session_def demo_rd_def demo_slot_def demo_admission_def slot_invalid_def
      shape_ints_def bounded_elements_def slot_key_bytes_def slot_body_bytes_def slot_low_def hex_digit_def list_all_iff Let_def)

theorem hybrid_slot_unissuable_witness:
  "snd (call_run demo_hmac [CallFss [1] ''a'' 8 (Some 4)]
     (demo_rd\<lparr>rd_exact_admission := Some (demo_admission [demo_slot ''a'' [1] 8 ''hybrid'' 4] 1 85 246)\<rparr>, \<lambda>_. 0)) = []"
  using hybrid_slot_unissuable [OF demo_rd_init demo_admit_hybrid, of demo_hmac "[CallFss [1] ''a'' 8 (Some 4)]" "\<lambda>_. 0"]
  by (simp add: demo_slot_def)

end
