(* ===== verification/Inventory.thy ===== *)
theory Inventory
  imports Dealer
begin

text \<open>
  \<^verbatim>\<open>LocalPreprocessingInventory\<close> of \<^verbatim>\<open>runtime/shared_party.py\<close>: one party's stock of one-use preprocessing
  material, keyed by operation. The dictionaries are finite maps. The taking operations share the
  contract of a one-use source, the locale \<open>one_use_source\<close>.
\<close>

record Inventory =
  iv_session_id :: string
  iv_party :: nat
  iv_capacity :: int
  iv_triples :: "string \<rightharpoonup> BeaverTripleShare"
  iv_masks :: "string \<rightharpoonup> TruncationMaskShare"
  iv_exact_masks :: "string \<rightharpoonup> ExactTruncationMaskShare"
  iv_fss_masks :: "string \<rightharpoonup> FssTruncationMaskShare"
  iv_fss_key_bytes :: nat
  iv_max_fss_key_bytes :: int
  iv_cancelled :: bool
  iv_exact_admission :: "ExactSessionAdmission option"

definition Inventory_init :: "string \<Rightarrow> nat \<Rightarrow> int \<Rightarrow> int \<Rightarrow> Inventory res" where
  "Inventory_init session_id party capacity max_fss_key_bytes =
     raise_if (party \<notin> {0, 1} \<or> capacity \<le> 0 \<or> max_fss_key_bytes \<le> 0)
       (ValueError ''invalid preprocessing inventory configuration'')
       (Inr \<lparr>iv_session_id = session_id, iv_party = party, iv_capacity = capacity, iv_triples = Map.empty,
             iv_masks = Map.empty, iv_exact_masks = Map.empty, iv_fss_masks = Map.empty, iv_fss_key_bytes = 0,
             iv_max_fss_key_bytes = max_fss_key_bytes, iv_cancelled = False, iv_exact_admission = None\<rparr>)"

definition remaining :: "Inventory \<Rightarrow> nat" where
  "remaining i = card (dom (iv_triples i)) + card (dom (iv_masks i)) + card (dom (iv_exact_masks i)) + card (dom (iv_fss_masks i))"

definition require_space :: "Inventory \<Rightarrow> string \<Rightarrow> unit res" where
  "require_space i operation_id =
     raise_if (iv_cancelled i) (SharedMPCError ''preprocessing inventory was cancelled'')
    (raise_if (operation_id = [] \<or> operation_id \<in> dom (iv_triples i) \<or> operation_id \<in> dom (iv_masks i)
         \<or> operation_id \<in> dom (iv_exact_masks i) \<or> operation_id \<in> dom (iv_fss_masks i))
       (SharedMPCError ''preprocessing operation identifier is invalid or duplicated'')
    (raise_if (int (remaining i) \<ge> iv_capacity i) (SharedMPCError ''preprocessing inventory capacity exhausted'')
    (Inr ())))"

definition require_identity :: "Inventory \<Rightarrow> string \<Rightarrow> nat \<Rightarrow> unit res" where
  "require_identity i session_id party =
     raise_if (session_id \<noteq> iv_session_id i \<or> party \<noteq> iv_party i)
       (SharedMPCError ''preprocessing request belongs to another party or session'') (Inr ())"

section \<open>Adding material\<close>

definition add_triple :: "Inventory \<Rightarrow> string \<Rightarrow> BeaverTripleShare \<Rightarrow> Inventory res" where
  "add_triple i operation_id triple =
     bindE (require_space i operation_id) (\<lambda>_.
       raise_if (bt_session_id triple \<noteq> iv_session_id i \<or> bt_party triple \<noteq> iv_party i)
         (SharedMPCError ''preprocessing triple belongs to another party or session'')
         (Inr (i\<lparr>iv_triples := (iv_triples i)(operation_id \<mapsto> triple)\<rparr>)))"

definition add_truncation :: "Inventory \<Rightarrow> string \<Rightarrow> TruncationMaskShare \<Rightarrow> Inventory res" where
  "add_truncation i operation_id m =
     bindE (require_space i operation_id) (\<lambda>_.
       raise_if (tm_session_id m \<noteq> iv_session_id i \<or> tm_party m \<noteq> iv_party i)
         (SharedMPCError ''truncation mask belongs to another party or session'')
         (Inr (i\<lparr>iv_masks := (iv_masks i)(operation_id \<mapsto> m)\<rparr>)))"

definition add_exact_truncation :: "Inventory \<Rightarrow> string \<Rightarrow> ExactTruncationMaskShare \<Rightarrow> Inventory res" where
  "add_exact_truncation i operation_id m =
     bindE (require_space i operation_id) (\<lambda>_.
       raise_if (xm_session_id m \<noteq> iv_session_id i \<or> xm_party m \<noteq> iv_party i)
         (SharedMPCError ''exact truncation mask belongs to another party or session'')
         (Inr (i\<lparr>iv_exact_masks := (iv_exact_masks i)(operation_id \<mapsto> m)\<rparr>)))"

text \<open>
  The comparison keys are expanded when the mask is added. When an expansion fails every key of the
  offered mask is cancelled; the second component is the offered mask after the call.
\<close>

definition add_fss_truncation ::
  "hmac_fun \<Rightarrow> Inventory \<Rightarrow> string \<Rightarrow> FssTruncationMaskShare \<Rightarrow> (Inventory \<times> FssTruncationMaskShare) \<times> unit res" where
  "add_fss_truncation hmac i operation_id m =
     onS (require_space i operation_id) (i, m) (\<lambda>_.
     raiseS (fm_session_id m \<noteq> iv_session_id i \<or> fm_party m \<noteq> iv_party i \<or> fm_mask_id m \<noteq> operation_id)
       (SharedMPCError ''FSS truncation mask belongs to another party or session'') (i, m)
    (raiseS (int (iv_fss_key_bytes i + FssTruncationMaskShare_key_bytes m) > iv_max_fss_key_bytes i)
       (SharedMPCError ''FSS preprocessing key budget exceeded'') (i, m)
    (case mapE (PointKeyShare_prepare hmac) (fm_comparison_keys m) of
       Inr keys \<Rightarrow>
         (let m' = m\<lparr>fm_comparison_keys := keys\<rparr>
          in ((i\<lparr>iv_fss_masks := (iv_fss_masks i)(operation_id \<mapsto> m'),
                 iv_fss_key_bytes := iv_fss_key_bytes i + FssTruncationMaskShare_key_bytes m\<rparr>, m'), Inr ()))
     | Inl (DpfReferenceError _) \<Rightarrow>
         ((i, m\<lparr>fm_comparison_keys := map PointKeyShare_cancel (fm_comparison_keys m)\<rparr>),
          Inl (SharedMPCError ''FSS key expansion failed''))
     | Inl err \<Rightarrow> ((i, m), Inl err))))"

section \<open>Checking and taking material\<close>

definition carry_id :: "string \<Rightarrow> nat \<Rightarrow> string" where
  "carry_id operation_id k = operation_id @ ''.carry.'' @ str_nat k"

definition carry_triples_ready :: "Inventory \<Rightarrow> string \<Rightarrow> nat list \<Rightarrow> nat list \<Rightarrow> bool" where
  "carry_triples_ready i operation_id shape ks =
     list_all (\<lambda>k. case iv_triples i (carry_id operation_id k) of None \<Rightarrow> False | Some t \<Rightarrow> bt_shape t = shape) ks"

definition preflight_fss_truncation :: "Inventory \<Rightarrow> string \<Rightarrow> string \<Rightarrow> nat list \<Rightarrow> nat \<Rightarrow> nat \<Rightarrow> unit res" where
  "preflight_fss_truncation i session_id operation_id shape party bits =
     bindE (require_identity i session_id party) (\<lambda>_.
     raise_if (iv_cancelled i) (SharedMPCError ''preprocessing inventory was cancelled'')
    (case iv_fss_masks i operation_id of
       None \<Rightarrow> Inl (SharedMPCError ''FSS truncation comparison material is incomplete'')
     | Some m \<Rightarrow>
         raise_if (nd_shape (fm_value m) \<noteq> shape \<or> fm_bits m \<noteq> bits
             \<or> list_ex (\<lambda>key. expanded_bytes key = 0) (fm_comparison_keys m))
           (SharedMPCError ''FSS truncation comparison material is incomplete'')
        (raise_if (\<not> carry_triples_ready i operation_id shape [fm_comparison_bits m..<bits])
           (SharedMPCError ''FSS high-bit carry material is incomplete'') (Inr ()))))"

definition preflight_exact_truncation :: "Inventory \<Rightarrow> string \<Rightarrow> string \<Rightarrow> nat list \<Rightarrow> nat \<Rightarrow> nat \<Rightarrow> unit res" where
  "preflight_exact_truncation i session_id operation_id shape party bits =
     bindE (require_identity i session_id party) (\<lambda>_.
     raise_if (iv_cancelled i) (SharedMPCError ''preprocessing inventory was cancelled'')
    (case iv_exact_masks i operation_id of
       None \<Rightarrow> Inl (SharedMPCError ''matching exact truncation mask is unavailable'')
     | Some m \<Rightarrow>
         raise_if (nd_shape (xm_value m) \<noteq> shape \<or> xm_bits m \<noteq> bits)
           (SharedMPCError ''matching exact truncation mask is unavailable'')
        (raise_if (\<not> carry_triples_ready i operation_id shape [1..<bits])
           (SharedMPCError ''exact truncation comparison material is incomplete'') (Inr ()))))"

definition take_fss_truncation ::
  "Inventory \<Rightarrow> string \<Rightarrow> string \<Rightarrow> nat list \<Rightarrow> nat \<Rightarrow> nat \<Rightarrow> Inventory \<times> FssTruncationMaskShare res" where
  "take_fss_truncation i session_id operation_id shape party bits =
     onS (preflight_fss_truncation i session_id operation_id shape party bits) i (\<lambda>_.
     case iv_fss_masks i operation_id of
       None \<Rightarrow> (i, Inl (KeyError operation_id))
     | Some m \<Rightarrow> (i\<lparr>iv_fss_masks := (iv_fss_masks i)(operation_id := None),
                     iv_fss_key_bytes := iv_fss_key_bytes i - FssTruncationMaskShare_key_bytes m\<rparr>, Inr m))"

definition take_multiplication ::
  "Inventory \<Rightarrow> string \<Rightarrow> string \<Rightarrow> nat list \<Rightarrow> nat \<Rightarrow> Inventory \<times> BeaverTripleShare res" where
  "take_multiplication i session_id operation_id shape party =
     onS (require_identity i session_id party) i (\<lambda>_.
     let i' = i\<lparr>iv_triples := (iv_triples i)(operation_id := None)\<rparr> in
     case iv_triples i operation_id of
       None \<Rightarrow> (i', Inl (SharedMPCError ''multiplication preprocessing is unavailable or consumed''))
     | Some t \<Rightarrow> (i', raise_if (nd_shape (bt_a t) \<noteq> shape)
                      (SharedMPCError ''multiplication preprocessing shape mismatch'') (Inr t)))"

definition take_truncation ::
  "Inventory \<Rightarrow> string \<Rightarrow> string \<Rightarrow> nat list \<Rightarrow> nat \<Rightarrow> nat \<Rightarrow> Inventory \<times> TruncationMaskShare res" where
  "take_truncation i session_id operation_id shape party bits =
     onS (require_identity i session_id party) i (\<lambda>_.
     let i' = i\<lparr>iv_masks := (iv_masks i)(operation_id := None)\<rparr> in
     case iv_masks i operation_id of
       None \<Rightarrow> (i', Inl (SharedMPCError ''truncation preprocessing is unavailable or consumed''))
     | Some m \<Rightarrow> (i', raise_if (nd_shape (tm_value m) \<noteq> shape \<or> tm_bits m \<noteq> bits)
                      (SharedMPCError ''truncation preprocessing parameters mismatch'') (Inr m)))"

definition take_exact_truncation ::
  "Inventory \<Rightarrow> string \<Rightarrow> string \<Rightarrow> nat list \<Rightarrow> nat \<Rightarrow> nat \<Rightarrow> Inventory \<times> ExactTruncationMaskShare res" where
  "take_exact_truncation i session_id operation_id shape party bits =
     onS (require_identity i session_id party) i (\<lambda>_.
     raiseS (iv_cancelled i) (SharedMPCError ''preprocessing inventory was cancelled'') i
    (let i' = i\<lparr>iv_exact_masks := (iv_exact_masks i)(operation_id := None)\<rparr> in
     case iv_exact_masks i operation_id of
       None \<Rightarrow> (i', Inl (SharedMPCError ''exact truncation preprocessing is unavailable or consumed''))
     | Some m \<Rightarrow> (i', raise_if (nd_shape (xm_value m) \<noteq> shape \<or> xm_bits m \<noteq> bits)
                      (SharedMPCError ''exact truncation preprocessing parameters mismatch'') (Inr m))))"

definition inventory_cancel :: "Inventory \<Rightarrow> Inventory" where
  "inventory_cancel i = i\<lparr>iv_triples := Map.empty, iv_masks := Map.empty, iv_exact_masks := Map.empty,
     iv_fss_masks := Map.empty, iv_fss_key_bytes := 0, iv_cancelled := True\<rparr>"

fun preflight_slots :: "Inventory \<Rightarrow> ExactSessionSlot list \<Rightarrow> unit res" where
  "preflight_slots i [] = Inr ()"
| "preflight_slots i (slot # slots) =
     bindE (if slot_method slot \<in> {''fss'', ''hybrid''}
            then (case iv_fss_masks i (slot_operation_id slot) of
                    None \<Rightarrow> Inl (SharedMPCError ''FSS comparison width differs from session admission'')
                  | Some m \<Rightarrow>
                      raise_if (fm_comparison_bits m \<noteq> (if slot_method slot = ''fss'' then slot_bits slot else slot_low_bits slot))
                        (SharedMPCError ''FSS comparison width differs from session admission'')
                        (preflight_fss_truncation i (iv_session_id i) (slot_operation_id slot) (map nat (slot_shape slot))
                           (iv_party i) (slot_bits slot)))
            else preflight_exact_truncation i (iv_session_id i) (slot_operation_id slot) (map nat (slot_shape slot))
                   (iv_party i) (slot_bits slot))
       (\<lambda>_. preflight_slots i slots)"

definition bind_exact_admission :: "Inventory \<Rightarrow> ExactSessionAdmission \<Rightarrow> Inventory res" where
  "bind_exact_admission i admission =
     raise_if (iv_cancelled i \<or> iv_exact_admission i \<noteq> None \<or> ad_session_id admission \<noteq> iv_session_id i
         \<or> dom (iv_exact_masks i) \<union> dom (iv_fss_masks i) \<noteq> slot_operation_id ` set (ad_slots admission)
         \<or> iv_masks i \<noteq> Map.empty)
       (SharedMPCError ''exact session material does not match admission'')
    (bindE (preflight_slots i (ad_slots admission)) (\<lambda>_. Inr (i\<lparr>iv_exact_admission := Some admission\<rparr>)))"

section \<open>The contract of a one-use source\<close>

text \<open>
  \<open>stock s\<close> are the operations for which the source holds material. A request succeeds only for an
  operation in stock and removes it; it never adds to the stock.
\<close>

locale one_use_source =
  fixes take1 :: "'s \<Rightarrow> 'q \<Rightarrow> 's \<times> 'm res" and op_of :: "'q \<Rightarrow> string" and stock :: "'s \<Rightarrow> string set"
  assumes taken_from_stock: "take1 s q = (s', Inr m) \<Longrightarrow> op_of q \<in> stock s"
    and taken_removed: "take1 s q = (s', Inr m) \<Longrightarrow> op_of q \<notin> stock s'"
    and stock_shrinks: "take1 s q = (s', r) \<Longrightarrow> stock s' \<subseteq> stock s"
begin

fun taken :: "'s \<Rightarrow> 'q list \<Rightarrow> 's \<times> string list" where
  "taken s [] = (s, [])"
| "taken s (q # qs) =
     (let (s', r) = take1 s q; (s'', ops) = taken s' qs
      in (s'', (case r of Inl _ \<Rightarrow> ops | Inr _ \<Rightarrow> op_of q # ops)))"

lemma taken_once: "distinct (snd (taken s qs)) \<and> set (snd (taken s qs)) \<subseteq> stock s"
proof (induction qs arbitrary: s)
  case (Cons q qs)
  obtain s' r where t: "take1 s q = (s', r)" by fastforce
  have ih: "distinct (snd (taken s' qs))" "set (snd (taken s' qs)) \<subseteq> stock s'" using Cons by auto
  show ?case
  proof (cases r)
    case (Inl e)
    with t ih stock_shrinks [OF t] show ?thesis by (auto simp: Let_def split: prod.splits)
  next
    case (Inr m)
    note t' = t [unfolded Inr]
    from t' Inr ih stock_shrinks [OF t] taken_from_stock [OF t'] taken_removed [OF t'] show ?thesis
      by (auto simp: Let_def split: prod.splits)
  qed
qed simp

end

interpretation src_mul: one_use_source
  "\<lambda>i (sid, oid, shape, party). take_multiplication i sid oid shape party" "\<lambda>(sid, oid, shape, party). oid" "\<lambda>i. dom (iv_triples i)"
  by unfold_locales (auto simp: take_multiplication_def onS_def Let_def split: sum.splits option.splits if_splits)

interpretation src_trunc: one_use_source
  "\<lambda>i (sid, oid, shape, party, bits). take_truncation i sid oid shape party bits" "\<lambda>(sid, oid, shape, party, bits). oid"
  "\<lambda>i. dom (iv_masks i)"
  by unfold_locales (auto simp: take_truncation_def onS_def Let_def split: sum.splits option.splits if_splits)

interpretation src_exact: one_use_source
  "\<lambda>i (sid, oid, shape, party, bits). take_exact_truncation i sid oid shape party bits" "\<lambda>(sid, oid, shape, party, bits). oid"
  "\<lambda>i. dom (iv_exact_masks i)"
  by unfold_locales (auto simp: take_exact_truncation_def onS_def raiseS_def Let_def split: sum.splits option.splits if_splits)

interpretation src_fss: one_use_source
  "\<lambda>i (sid, oid, shape, party, bits). take_fss_truncation i sid oid shape party bits" "\<lambda>(sid, oid, shape, party, bits). oid"
  "\<lambda>i. dom (iv_fss_masks i)"
  by unfold_locales (auto simp: take_fss_truncation_def onS_def Let_def split: sum.splits option.splits if_splits)

section \<open>Histories of inventory calls\<close>

datatype inv_call =
    AddTriple string BeaverTripleShare
  | AddTruncation string TruncationMaskShare
  | AddExact string ExactTruncationMaskShare
  | AddFss string FssTruncationMaskShare
  | BindAdmission ExactSessionAdmission
  | TakeMultiplication string string "nat list" nat
  | TakeTruncation string string "nat list" nat nat
  | TakeExact string string "nat list" nat nat
  | TakeFss string string "nat list" nat nat
  | Cancel

definition settle :: "Inventory \<Rightarrow> Inventory res \<Rightarrow> Inventory \<times> bool" where
  "settle i r = (case r of Inl _ \<Rightarrow> (i, False) | Inr i' \<Rightarrow> (i', True))"

text \<open>\<open>inv_step\<close> performs a call and tells whether it succeeded.\<close>

fun inv_step :: "hmac_fun \<Rightarrow> inv_call \<Rightarrow> Inventory \<Rightarrow> Inventory \<times> bool" where
  "inv_step hmac (AddTriple oid t) i = settle i (add_triple i oid t)"
| "inv_step hmac (AddTruncation oid m) i = settle i (add_truncation i oid m)"
| "inv_step hmac (AddExact oid m) i = settle i (add_exact_truncation i oid m)"
| "inv_step hmac (AddFss oid m) i = (let ((i', _), r) = add_fss_truncation hmac i oid m in (i', \<not> isl r))"
| "inv_step hmac (BindAdmission a) i = settle i (bind_exact_admission i a)"
| "inv_step hmac (TakeMultiplication s oid shape p) i = (let (i', r) = take_multiplication i s oid shape p in (i', \<not> isl r))"
| "inv_step hmac (TakeTruncation s oid shape p b) i = (let (i', r) = take_truncation i s oid shape p b in (i', \<not> isl r))"
| "inv_step hmac (TakeExact s oid shape p b) i = (let (i', r) = take_exact_truncation i s oid shape p b in (i', \<not> isl r))"
| "inv_step hmac (TakeFss s oid shape p b) i = (let (i', r) = take_fss_truncation i s oid shape p b in (i', \<not> isl r))"
| "inv_step hmac Cancel i = (inventory_cancel i, True)"

definition fss_bytes_held :: "Inventory \<Rightarrow> nat" where
  "fss_bytes_held i = (\<Sum>oid\<in>dom (iv_fss_masks i). FssTruncationMaskShare_key_bytes (the (iv_fss_masks i oid)))"

text \<open>
  The inventory's invariant: the dictionaries are finite and no operation is in two of them, the number
  of entries stays within the capacity, and the key-byte counter is exactly what is held and within its limit.
\<close>

definition inv_ok :: "Inventory \<Rightarrow> bool" where
  "inv_ok i \<longleftrightarrow> finite (dom (iv_triples i)) \<and> finite (dom (iv_masks i)) \<and> finite (dom (iv_exact_masks i)) \<and> finite (dom (iv_fss_masks i))
     \<and> dom (iv_triples i) \<inter> dom (iv_masks i) = {} \<and> dom (iv_triples i) \<inter> dom (iv_exact_masks i) = {}
     \<and> dom (iv_triples i) \<inter> dom (iv_fss_masks i) = {} \<and> dom (iv_masks i) \<inter> dom (iv_exact_masks i) = {}
     \<and> dom (iv_masks i) \<inter> dom (iv_fss_masks i) = {} \<and> dom (iv_exact_masks i) \<inter> dom (iv_fss_masks i) = {}
     \<and> int (remaining i) \<le> iv_capacity i
     \<and> iv_fss_key_bytes i = fss_bytes_held i \<and> int (iv_fss_key_bytes i) \<le> iv_max_fss_key_bytes i"

lemma require_space_Inr:
  "require_space i oid = Inr u \<longleftrightarrow> \<not> iv_cancelled i \<and> oid \<noteq> [] \<and> oid \<notin> dom (iv_triples i) \<and> oid \<notin> dom (iv_masks i)
     \<and> oid \<notin> dom (iv_exact_masks i) \<and> oid \<notin> dom (iv_fss_masks i) \<and> int (remaining i) < iv_capacity i"
  by (auto simp: require_space_def res_simps)

lemma mapE_prepare_bytes:
  "mapE (PointKeyShare_prepare hmac) ks = Inr ks' \<Longrightarrow> sum_list (map key_bytes ks') = sum_list (map key_bytes ks)"
proof (induction ks arbitrary: ks')
  case (Cons k ks)
  then obtain k' ks2 where k: "PointKeyShare_prepare hmac k = Inr k'" "mapE (PointKeyShare_prepare hmac) ks = Inr ks2" "ks' = k' # ks2"
    by (auto simp: res_simps)
  have "key_bytes k' = key_bytes k" using k(1) by (auto simp: PointKeyShare_prepare_def res_simps Let_def key_bytes_def)
  with Cons.IH [OF k(2)] k(3) show ?case by simp
qed simp

lemma card_dom_remove: "card (dom (m(k := None))) \<le> card (dom m)" if "finite (dom m)"
  using that by (simp add: card_mono)

lemma inv_ok_remove:
  assumes "inv_ok i"
  shows "inv_ok (i\<lparr>iv_triples := (iv_triples i)(k := None)\<rparr>)" "inv_ok (i\<lparr>iv_masks := (iv_masks i)(k := None)\<rparr>)"
    "inv_ok (i\<lparr>iv_exact_masks := (iv_exact_masks i)(k := None)\<rparr>)"
  using assms card_dom_remove [of "iv_triples i" k] card_dom_remove [of "iv_masks i" k] card_dom_remove [of "iv_exact_masks i" k]
  by (auto simp: inv_ok_def remaining_def fss_bytes_held_def)

lemma inv_ok_take_fss:
  assumes "inv_ok i" and "iv_fss_masks i oid = Some m"
  shows "inv_ok (i\<lparr>iv_fss_masks := (iv_fss_masks i)(oid := None),
      iv_fss_key_bytes := iv_fss_key_bytes i - FssTruncationMaskShare_key_bytes m\<rparr>)"
proof -
  have f: "finite (dom (iv_fss_masks i))" "oid \<in> dom (iv_fss_masks i)" using assms by (auto simp: inv_ok_def)
  have "fss_bytes_held i = FssTruncationMaskShare_key_bytes m
      + (\<Sum>k\<in>dom (iv_fss_masks i) - {oid}. FssTruncationMaskShare_key_bytes (the (iv_fss_masks i k)))"
    unfolding fss_bytes_held_def using sum.remove [OF f, of "\<lambda>k. FssTruncationMaskShare_key_bytes (the (iv_fss_masks i k))"] assms(2)
    by simp
  moreover have "(\<Sum>k\<in>dom (iv_fss_masks i) - {oid}. FssTruncationMaskShare_key_bytes (the (((iv_fss_masks i)(oid := None)) k)))
      = (\<Sum>k\<in>dom (iv_fss_masks i) - {oid}. FssTruncationMaskShare_key_bytes (the (iv_fss_masks i k)))"
    by (rule sum.cong) auto
  ultimately show ?thesis using assms f card_dom_remove [OF f(1), of oid]
    by (auto simp: inv_ok_def remaining_def fss_bytes_held_def)
qed

lemma inv_ok_add_fss:
  assumes "inv_ok i" and "require_space i oid = Inr u" and "n = FssTruncationMaskShare_key_bytes m"
    and "int (iv_fss_key_bytes i + n) \<le> iv_max_fss_key_bytes i"
  shows "inv_ok (i\<lparr>iv_fss_masks := (iv_fss_masks i)(oid \<mapsto> m), iv_fss_key_bytes := iv_fss_key_bytes i + n\<rparr>)"
proof -
  have f: "finite (dom (iv_fss_masks i))" using assms by (auto simp: inv_ok_def)
  have o: "oid \<notin> dom (iv_fss_masks i)" using assms(2) by (simp add: require_space_Inr)
  have "(\<Sum>k\<in>dom (iv_fss_masks i). FssTruncationMaskShare_key_bytes (the (((iv_fss_masks i)(oid \<mapsto> m)) k)))
      = fss_bytes_held i"
    unfolding fss_bytes_held_def using o by (intro sum.cong) auto
  then show ?thesis using assms f o
    by (auto simp: inv_ok_def remaining_def fss_bytes_held_def require_space_Inr)
qed

lemma inv_ok_add:
  assumes "inv_ok i" and "require_space i oid = Inr u"
  shows "inv_ok (i\<lparr>iv_triples := (iv_triples i)(oid \<mapsto> t)\<rparr>)" "inv_ok (i\<lparr>iv_masks := (iv_masks i)(oid \<mapsto> a)\<rparr>)"
    "inv_ok (i\<lparr>iv_exact_masks := (iv_exact_masks i)(oid \<mapsto> x)\<rparr>)"
  using assms by (auto simp: inv_ok_def remaining_def fss_bytes_held_def require_space_Inr)


lemma inv_ok_init: "Inventory_init sid p cap mx = Inr i \<Longrightarrow> inv_ok i"
  by (auto simp: Inventory_init_def res_simps inv_ok_def remaining_def fss_bytes_held_def)

lemma inv_step_ok:
  assumes "inv_ok i"
  shows "inv_ok (fst (inv_step hmac c i))"
proof (cases c)
  case (AddTriple oid t)
  with assms inv_ok_add(1) [OF assms] show ?thesis
    by (auto simp: settle_def add_triple_def res_simps split: sum.splits)
next
  case (AddTruncation oid m)
  with assms inv_ok_add(2) [OF assms] show ?thesis
    by (auto simp: settle_def add_truncation_def res_simps split: sum.splits)
next
  case (AddExact oid m)
  with assms inv_ok_add(3) [OF assms] show ?thesis
    by (auto simp: settle_def add_exact_truncation_def res_simps split: sum.splits)
next
  case (AddFss oid m)
  show ?thesis
  proof (cases "snd (inv_step hmac c i)")
    case True
    obtain i' m' r where a0: "add_fss_truncation hmac i oid m = ((i', m'), r)" by (metis prod.collapse)
    with True AddFss have a: "add_fss_truncation hmac i oid m = ((i', m'), Inr ())" by (cases r) auto
    then obtain u keys where sp: "require_space i oid = Inr u"
      and lim: "int (iv_fss_key_bytes i + FssTruncationMaskShare_key_bytes m) \<le> iv_max_fss_key_bytes i"
      and k: "mapE (PointKeyShare_prepare hmac) (fm_comparison_keys m) = Inr keys"
      and i': "i' = i\<lparr>iv_fss_masks := (iv_fss_masks i)(oid \<mapsto> m\<lparr>fm_comparison_keys := keys\<rparr>),
                 iv_fss_key_bytes := iv_fss_key_bytes i + FssTruncationMaskShare_key_bytes m\<rparr>"
      by (auto simp: add_fss_truncation_def res_simps Let_def split: sum.splits py_error.splits)
    have "FssTruncationMaskShare_key_bytes m = FssTruncationMaskShare_key_bytes (m\<lparr>fm_comparison_keys := keys\<rparr>)"
      using mapE_prepare_bytes [OF k] by (simp add: FssTruncationMaskShare_key_bytes_def)
    from inv_ok_add_fss [OF assms sp this lim] AddFss a i' show ?thesis by simp
  next
    case False
    with assms AddFss show ?thesis
      by (auto simp: add_fss_truncation_def onS_def raiseS_def Let_def split: sum.splits py_error.splits if_splits)
  qed
next
  case (BindAdmission a)
  with assms show ?thesis
    by (auto simp: settle_def bind_exact_admission_def res_simps inv_ok_def remaining_def fss_bytes_held_def split: sum.splits)
next
  case (TakeMultiplication s oid shape p)
  with assms inv_ok_remove(1) [OF assms, of oid] show ?thesis
    by (auto simp: take_multiplication_def onS_def Let_def split: sum.splits option.splits)
next
  case (TakeTruncation s oid shape p b)
  with assms inv_ok_remove(2) [OF assms, of oid] show ?thesis
    by (auto simp: take_truncation_def onS_def Let_def split: sum.splits option.splits)
next
  case (TakeExact s oid shape p b)
  with assms inv_ok_remove(3) [OF assms, of oid] show ?thesis
    by (auto simp: take_exact_truncation_def onS_def raiseS_def Let_def split: sum.splits option.splits)
next
  case (TakeFss s oid shape p b)
  with assms inv_ok_take_fss [OF assms, of oid] show ?thesis
    by (auto simp: take_fss_truncation_def onS_def Let_def split: sum.splits option.splits)
next
  case Cancel
  with assms show ?thesis
    by (simp add: inventory_cancel_def inv_ok_def remaining_def fss_bytes_held_def)
qed

text \<open>
  From a new inventory, whatever sequence of additions, bindings, takes and cancellations is made,
  every operation has material of at most one kind, the number of entries never exceeds the capacity,
  and the counter of point-key bytes is exactly the size of the keys held and never exceeds its limit.
\<close>

lemma inventory_invariant:
  assumes "Inventory_init sid p cap mx = Inr i"
  shows "inv_ok (fold (\<lambda>c s. fst (inv_step hmac c s)) cs i)"
proof -
  have "inv_ok j \<Longrightarrow> inv_ok (fold (\<lambda>c s. fst (inv_step hmac c s)) cs j)" for j
    by (induction cs arbitrary: j) (auto intro: inv_step_ok)
  with inv_ok_init [OF assms] show ?thesis by blast
qed

definition demo_inventory :: Inventory where
  "demo_inventory = \<lparr>iv_session_id = ''s'', iv_party = 0, iv_capacity = 8, iv_triples = Map.empty, iv_masks = Map.empty,
     iv_exact_masks = Map.empty, iv_fss_masks = Map.empty, iv_fss_key_bytes = 0, iv_max_fss_key_bytes = 1024,
     iv_cancelled = False, iv_exact_admission = None\<rparr>"

lemma demo_inventory_init: "Inventory_init ''s'' 0 8 1024 = Inr demo_inventory"
  by (simp add: Inventory_init_def demo_inventory_def)

text \<open>
  Cancelling an inventory is final: afterwards, in any continuation, no addition, binding or take
  succeeds any more and the inventory stays empty.
\<close>

lemma inventory_cancel_final:
  "c \<noteq> Cancel \<Longrightarrow> inv_step hmac c (fold (\<lambda>c s. fst (inv_step hmac c s)) cs (inventory_cancel i))
     = (inventory_cancel i, False)"
proof -
  have dead: "inv_step hmac c (inventory_cancel i) = (inventory_cancel i, False)" if "c \<noteq> Cancel" for c
    using that
    by (cases c) (auto simp: inventory_cancel_def settle_def add_triple_def add_truncation_def add_exact_truncation_def
        add_fss_truncation_def bind_exact_admission_def require_space_def take_multiplication_def take_truncation_def
        take_exact_truncation_def take_fss_truncation_def preflight_fss_truncation_def require_identity_def
        raise_if_def onS_def raiseS_def Let_def split: sum.splits)
  have "fst (inv_step hmac c (inventory_cancel i)) = inventory_cancel i" for c
    using dead [of c] by (cases "c = Cancel") (auto simp: inventory_cancel_def)
  then have "fold (\<lambda>c s. fst (inv_step hmac c s)) cs (inventory_cancel i) = inventory_cancel i"
    by (induction cs) simp_all
  then show "c \<noteq> Cancel \<Longrightarrow> ?thesis" using dead by simp
qed

end
