(* ===== verification/Shared_Session.thy ===== *)
theory Shared_Session
  imports Shared_Frames
begin

text \<open>
  \<^verbatim>\<open>runtime/shared_session.py\<close>: the session commitment and its wire form, peer frames, the state machine of
  one party's session, and the registry of live sessions. Clock readings are arguments; SHA-256 and MessagePack
  are parameters. The peer connection over a transport is in the next theory.
\<close>

section \<open>Hexadecimal text\<close>

definition hex_char :: "nat \<Rightarrow> char" where
  "hex_char n = ''0123456789abcdef'' ! n"

fun hex_of :: "bytes \<Rightarrow> string" where
  "hex_of [] = []"
| "hex_of (b # bs) = hex_char (unat b div 16) # hex_char (unat b mod 16) # hex_of bs"

definition hex_value :: "char \<Rightarrow> nat option" where
  "hex_value c =
     (let n = of_char c :: nat in
      if 48 \<le> n \<and> n \<le> 57 then Some (n - 48)
      else if 97 \<le> n \<and> n \<le> 102 then Some (n - 87)
      else if 65 \<le> n \<and> n \<le> 70 then Some (n - 55) else None)"

definition is_space :: "char \<Rightarrow> bool" where
  "is_space c \<longleftrightarrow> (of_char c :: nat) \<in> {9, 10, 11, 12, 13, 32}"

text \<open>\<^verbatim>\<open>bytes.fromhex\<close> skips white space between bytes and accepts digits of either case.\<close>

fun fromhex :: "string \<Rightarrow> bytes res" where
  "fromhex [] = Inr []"
| "fromhex [c] = (if is_space c then Inr [] else Inl (ValueError ''non-hexadecimal number found in fromhex() arg''))"
| "fromhex (c # d # cs) =
     (if is_space c then fromhex (d # cs)
      else case (hex_value c, hex_value d) of
        (Some h, Some l) \<Rightarrow> bindE (fromhex cs) (\<lambda>bs. Inr (of_nat (16 * h + l) # bs))
      | _ \<Rightarrow> Inl (ValueError ''non-hexadecimal number found in fromhex() arg''))"

section \<open>Session commitment\<close>

record SharedSessionCommitment =
  sc_session_id :: string
  sc_model_id :: string
  sc_model_fingerprint :: string
  sc_graph_fingerprint :: string
  sc_scale_fingerprint :: string
  sc_party_fingerprints :: "string \<times> string"
  sc_maximum_operations :: int

definition SharedSessionCommitment_check :: "SharedSessionCommitment \<Rightarrow> SharedSessionCommitment res" where
  "SharedSessionCommitment_check c =
     raise_if (sc_session_id c = [] \<or> sc_model_id c = []) (SharedSessionError ''shared session identity is invalid'')
    (raise_if (fst (sc_party_fingerprints c) = snd (sc_party_fingerprints c))
       (SharedSessionError ''shared session party fingerprints must be distinct'')
    (raise_if (list_ex (\<lambda>f. length f \<noteq> 64)
         [sc_model_fingerprint c, sc_graph_fingerprint c, sc_scale_fingerprint c,
          fst (sc_party_fingerprints c), snd (sc_party_fingerprints c)])
       (SharedSessionError ''shared session fingerprint is invalid'')
    (raise_if (sc_maximum_operations c \<le> 0) (SharedSessionError ''shared session operation budget is invalid'')
    (Inr c))))"

definition commitment_doc :: "SharedSessionCommitment \<Rightarrow> mval res" where
  "commitment_doc c =
     bindE (fromhex (sc_model_fingerprint c)) (\<lambda>f.
     bindE (fromhex (sc_graph_fingerprint c)) (\<lambda>g.
     bindE (fromhex (sc_scale_fingerprint c)) (\<lambda>s.
     bindE (fromhex (fst (sc_party_fingerprints c))) (\<lambda>p0.
     bindE (fromhex (snd (sc_party_fingerprints c))) (\<lambda>p1.
       Inr (MMap [(MStr ''v'', MInt 1), (MStr ''s'', MStr (sc_session_id c)), (MStr ''m'', MStr (sc_model_id c)),
         (MStr ''f'', MBin f), (MStr ''g'', MBin g), (MStr ''c'', MBin s),
         (MStr ''p'', MArr [MBin p0, MBin p1]), (MStr ''n'', MInt (sc_maximum_operations c))]))))))"

definition commitment_pack :: "packer \<Rightarrow> SharedSessionCommitment \<Rightarrow> bytes res" where
  "commitment_pack packb c = bindE (commitment_doc c) (\<lambda>doc. Inr (packb doc))"

definition digest_field :: "mval \<Rightarrow> py_error \<Rightarrow> string res" where
  "digest_field value err = bindE (bytes_field value 32 err) (\<lambda>bs. Inr (hex_of bs))"

definition commitment_unpack :: "unpacker \<Rightarrow> bytes \<Rightarrow> SharedSessionCommitment res" where
  "commitment_unpack unpackb payload =
     raise_if (payload = [] \<or> length payload > 4096)
       (SharedSessionError ''shared session commitment is empty or too large'')
     (case unpackb payload of
        None \<Rightarrow> Inl (SharedSessionError ''shared session commitment is malformed'')
      | Some (MMap kvs) \<Rightarrow>
          raise_if (\<not> fields_are kvs [''v'', ''s'', ''m'', ''f'', ''g'', ''c'', ''p'', ''n''])
            (SharedSessionError ''shared session commitment fields are invalid'')
         (raise_if (field kvs ''v'' \<noteq> MInt 1) (SharedSessionError ''shared session commitment version is unsupported'')
         (bindE (digest_field (field kvs ''f'') (SharedSessionError ''shared session fingerprint is invalid'')) (\<lambda>f.
          bindE (digest_field (field kvs ''g'') (SharedSessionError ''shared session fingerprint is invalid'')) (\<lambda>g.
          bindE (digest_field (field kvs ''c'') (SharedSessionError ''shared session fingerprint is invalid'')) (\<lambda>s.
          bindE (case field kvs ''p'' of
                   MArr [a, b] \<Rightarrow>
                     bindE (digest_field a (SharedSessionError ''shared session party fingerprints are invalid'')) (\<lambda>p0.
                     bindE (digest_field b (SharedSessionError ''shared session party fingerprints are invalid'')) (\<lambda>p1.
                     Inr (p0, p1)))
                 | _ \<Rightarrow> Inl (SharedSessionError ''shared session party fingerprints are invalid'')) (\<lambda>parties.
          bindE (str_field (field kvs ''s'') (SharedSessionError ''shared session identity is invalid'')) (\<lambda>sid.
          bindE (str_field (field kvs ''m'') (SharedSessionError ''shared session identity is invalid'')) (\<lambda>mid.
          case field kvs ''n'' of
            MInt n \<Rightarrow> SharedSessionCommitment_check
              \<lparr>sc_session_id = sid, sc_model_id = mid, sc_model_fingerprint = f, sc_graph_fingerprint = g,
               sc_scale_fingerprint = s, sc_party_fingerprints = parties, sc_maximum_operations = n\<rparr>
          | _ \<Rightarrow> Inl (SharedSessionError ''shared session operation budget is invalid'')))))))))
      | Some _ \<Rightarrow> Inl (SharedSessionError ''shared session commitment fields are invalid''))"

definition commitment_digest :: "packer \<Rightarrow> (bytes \<Rightarrow> digest) \<Rightarrow> SharedSessionCommitment \<Rightarrow> bytes res" where
  "commitment_digest packb sha c = bindE (commitment_pack packb c) (\<lambda>bs. Inr (digest_bytes (sha bs)))"

section \<open>Peer frames\<close>

record PeerFrame =
  pf_session_id :: string
  pf_channel_id :: bytes
  pf_sender_party :: int
  pf_sequence :: int
  pf_kind :: string
  pf_operation_id :: string
  pf_payload :: bytes

text \<open>Length in bytes of the UTF-8 encoding.\<close>

definition utf8_len :: "string \<Rightarrow> nat" where
  "utf8_len s = sum_list (map (\<lambda>c. if (of_char c :: nat) < 128 then 1 else 2) s)"

definition PeerFrame_check :: "PeerFrame \<Rightarrow> PeerFrame res" where
  "PeerFrame_check f =
     raise_if (pf_session_id f = [] \<or> pf_kind f = [] \<or> pf_operation_id f = [])
       (SharedSessionError ''peer frame identity is invalid'')
    (raise_if (utf8_len (pf_session_id f) > 128) (SharedSessionError ''peer frame session identifier is invalid'')
    (raise_if (utf8_len (pf_kind f) > 64) (SharedSessionError ''peer frame kind is invalid'')
    (raise_if (utf8_len (pf_operation_id f) > 128) (SharedSessionError ''peer frame operation identifier is invalid'')
    (raise_if (length (pf_channel_id f) \<noteq> 32) (SharedSessionError ''peer frame channel binding is invalid'')
    (raise_if (pf_sender_party f \<notin> {0, 1}) (SharedSessionError ''peer frame sender is invalid'')
    (raise_if (pf_sequence f < 0 \<or> pf_sequence f \<ge> 2 ^ 64) (SharedSessionError ''peer frame sequence is invalid'')
    (Inr f)))))))"

definition PeerFrame_doc :: "PeerFrame \<Rightarrow> mval" where
  "PeerFrame_doc f = MMap [(MStr ''v'', MInt 1), (MStr ''s'', MStr (pf_session_id f)), (MStr ''c'', MBin (pf_channel_id f)),
     (MStr ''r'', MInt (pf_sender_party f)), (MStr ''q'', MInt (pf_sequence f)), (MStr ''k'', MStr (pf_kind f)),
     (MStr ''o'', MStr (pf_operation_id f)), (MStr ''p'', MBin (pf_payload f))]"

definition PeerFrame_pack :: "packer \<Rightarrow> PeerFrame \<Rightarrow> bytes" where
  "PeerFrame_pack packb f = packb (PeerFrame_doc f)"

definition int_field :: "mval \<Rightarrow> py_error \<Rightarrow> int res" where
  "int_field value err = (case value of MInt i \<Rightarrow> Inr i | _ \<Rightarrow> Inl err)"

definition bin_field :: "mval \<Rightarrow> py_error \<Rightarrow> bytes res" where
  "bin_field value err = (case value of MBin bs \<Rightarrow> Inr bs | _ \<Rightarrow> Inl err)"

definition PeerFrame_unpack :: "unpacker \<Rightarrow> bytes \<Rightarrow> nat \<Rightarrow> PeerFrame res" where
  "PeerFrame_unpack unpackb payload max_payload_bytes =
     raise_if (payload = [] \<or> length payload > max_payload_bytes + 4096)
       (SharedSessionError ''peer frame is empty or too large'')
     (case unpackb payload of
        None \<Rightarrow> Inl (SharedSessionError ''peer frame is malformed'')
      | Some (MMap kvs) \<Rightarrow>
          raise_if (\<not> fields_are kvs [''v'', ''s'', ''c'', ''r'', ''q'', ''k'', ''o'', ''p''])
            (SharedSessionError ''peer frame fields are invalid'')
         (raise_if (field kvs ''v'' \<noteq> MInt 1) (SharedSessionError ''peer frame version is unsupported'')
         (let err = SharedSessionError ''peer frame field types are invalid'' in
          bindE (str_field (field kvs ''s'') err) (\<lambda>s.
          bindE (bin_field (field kvs ''c'') err) (\<lambda>c.
          bindE (int_field (field kvs ''r'') err) (\<lambda>r.
          bindE (int_field (field kvs ''q'') err) (\<lambda>q.
          bindE (str_field (field kvs ''k'') err) (\<lambda>k.
          bindE (str_field (field kvs ''o'') err) (\<lambda>oid.
          bindE (bin_field (field kvs ''p'') err) (\<lambda>p.
          bindE (PeerFrame_check \<lparr>pf_session_id = s, pf_channel_id = c, pf_sender_party = r, pf_sequence = q,
                    pf_kind = k, pf_operation_id = oid, pf_payload = p\<rparr>) (\<lambda>frame.
            raise_if (length (pf_payload frame) > max_payload_bytes) (SharedSessionError ''peer frame payload is too large'')
              (Inr frame)))))))))))
      | Some _ \<Rightarrow> Inl (SharedSessionError ''peer frame fields are invalid''))"

section \<open>Session state machine\<close>

datatype SessionStatus = ACTIVE | ABORTED | CLOSED

record SharedSessionState =
  ss_commitment :: SharedSessionCommitment
  ss_party :: nat
  ss_status :: SessionStatus
  ss_abort_reason :: "string option"
  ss_last_activity :: int
  ss_next_outbound :: nat
  ss_next_inbound :: nat
  ss_operations :: "string set"
  ss_channel_id :: "bytes option"

definition SharedSessionState_init :: "SharedSessionCommitment \<Rightarrow> nat \<Rightarrow> int \<Rightarrow> SharedSessionState res" where
  "SharedSessionState_init commitment party now =
     raise_if (party \<notin> {0, 1}) (ValueError ''shared session party must be zero or one'')
       (Inr \<lparr>ss_commitment = commitment, ss_party = party, ss_status = ACTIVE, ss_abort_reason = None,
             ss_last_activity = now, ss_next_outbound = 0, ss_next_inbound = 0, ss_operations = {}, ss_channel_id = None\<rparr>)"

definition abort_locked :: "string \<Rightarrow> int \<Rightarrow> SharedSessionState \<Rightarrow> SharedSessionState" where
  "abort_locked reason now s = s\<lparr>ss_status := ABORTED, ss_abort_reason := Some reason, ss_last_activity := now\<rparr>"

text \<open>\<^verbatim>\<open>abort_reason or default\<close>: an empty or missing reason gives the default text.\<close>

definition reason_or :: "SharedSessionState \<Rightarrow> string \<Rightarrow> string" where
  "reason_or s dflt = (case ss_abort_reason s of Some r \<Rightarrow> (if r = [] then dflt else r) | None \<Rightarrow> dflt)"

definition require_active :: "SharedSessionState \<Rightarrow> unit res" where
  "require_active s = raise_if (ss_status s \<noteq> ACTIVE) (SharedSessionError (reason_or s ''shared session is not active'')) (Inr ())"

definition session_abort :: "string \<Rightarrow> int \<Rightarrow> SharedSessionState \<Rightarrow> SharedSessionState" where
  "session_abort reason now s = (if ss_status s = ACTIVE then abort_locked reason now s else s)"

definition fail_aborted :: "string \<Rightarrow> int \<Rightarrow> SharedSessionState \<Rightarrow> SharedSessionState \<times> 'a res" where
  "fail_aborted reason now s =
     (let s' = abort_locked reason now s in (s', Inl (SharedSessionError (reason_or s' ''shared session aborted''))))"

definition channel_prefix :: bytes where
  "channel_prefix = map (\<lambda>c. of_nat (of_char c)) ''pllm/shared-peer-channel/v1'' @ [0]"

definition establish ::
  "packer \<Rightarrow> (bytes \<Rightarrow> digest) \<Rightarrow> SharedSessionState \<Rightarrow> SharedSessionCommitment \<Rightarrow> bytes \<Rightarrow> bytes \<Rightarrow> string \<Rightarrow> int
    \<Rightarrow> SharedSessionState \<times> unit res" where
  "establish packb sha s peer_commitment local_nonce peer_nonce fingerprint now =
     onS (require_active s) s (\<lambda>_.
     if ss_channel_id s \<noteq> None then fail_aborted ''shared session handshake was repeated'' now s
     else if peer_commitment \<noteq> ss_commitment s then fail_aborted ''peer shared session commitment does not match'' now s
     else if fingerprint \<noteq> (if ss_party s = 0 then snd (sc_party_fingerprints (ss_commitment s))
                            else fst (sc_party_fingerprints (ss_commitment s)))
     then fail_aborted ''authenticated peer fingerprint does not match commitment'' now s
     else if length local_nonce \<noteq> 32 \<or> length peer_nonce \<noteq> 32 \<or> local_nonce = peer_nonce
     then fail_aborted ''shared session handshake nonce is invalid'' now s
     else
       (let nonces = (if ss_party s = 0 then (local_nonce, peer_nonce) else (peer_nonce, local_nonce)) in
        onS (commitment_digest packb sha (ss_commitment s)) s (\<lambda>dg.
        (s\<lparr>ss_channel_id := Some (digest_bytes (sha (channel_prefix @ dg @ fst nonces @ snd nonces))),
           ss_last_activity := now\<rparr>, Inr ()))))"

definition outbound :: "SharedSessionState \<Rightarrow> string \<Rightarrow> string \<Rightarrow> bytes \<Rightarrow> int \<Rightarrow> SharedSessionState \<times> PeerFrame res" where
  "outbound s kind operation_id payload now =
     onS (require_active s) s (\<lambda>_.
     case ss_channel_id s of
       None \<Rightarrow> fail_aborted ''shared session handshake is incomplete'' now s
     | Some channel \<Rightarrow>
         if operation_id \<in> ss_operations s then fail_aborted ''shared operation identifier was reused'' now s
         else if int (card (ss_operations s)) \<ge> sc_maximum_operations (ss_commitment s)
         then fail_aborted ''shared session operation budget exhausted'' now s
         else
           (let s' = s\<lparr>ss_operations := insert operation_id (ss_operations s)\<rparr> in
            onS (PeerFrame_check \<lparr>pf_session_id = sc_session_id (ss_commitment s), pf_channel_id = channel,
                   pf_sender_party = int (ss_party s), pf_sequence = int (ss_next_outbound s),
                   pf_kind = kind, pf_operation_id = operation_id, pf_payload = payload\<rparr>) s' (\<lambda>frame.
            (s'\<lparr>ss_next_outbound := ss_next_outbound s + 1, ss_last_activity := now\<rparr>, Inr frame))))"

definition accept :: "SharedSessionState \<Rightarrow> PeerFrame \<Rightarrow> string option \<Rightarrow> int \<Rightarrow> SharedSessionState \<times> unit res" where
  "accept s frame expected_kind now =
     onS (require_active s) s (\<lambda>_.
     if pf_session_id frame \<noteq> sc_session_id (ss_commitment s)
     then fail_aborted ''peer frame belongs to another session'' now s
     else if ss_channel_id s = None \<or> Some (pf_channel_id frame) \<noteq> ss_channel_id s
     then fail_aborted ''peer frame belongs to another authenticated channel'' now s
     else if pf_sender_party frame \<noteq> 1 - int (ss_party s)
     then fail_aborted ''peer frame sender identity is invalid'' now s
     else if pf_sequence frame \<noteq> int (ss_next_inbound s)
     then fail_aborted ''peer frame sequence is replayed or out of order'' now s
     else if expected_kind \<noteq> None \<and> Some (pf_kind frame) \<noteq> expected_kind
     then fail_aborted ''peer frame kind is unexpected'' now s
     else (s\<lparr>ss_next_inbound := ss_next_inbound s + 1, ss_last_activity := now\<rparr>, Inr ()))"

definition session_close :: "SharedSessionState \<Rightarrow> int \<Rightarrow> SharedSessionState \<times> unit res" where
  "session_close s now =
     onS (require_active s) s (\<lambda>_. (s\<lparr>ss_status := CLOSED, ss_last_activity := now\<rparr>, Inr ()))"

definition channel_id :: "SharedSessionState \<Rightarrow> bytes res" where
  "channel_id s =
     bindE (require_active s) (\<lambda>_. case ss_channel_id s of
       None \<Rightarrow> Inl (SharedSessionError ''shared session handshake is incomplete'') | Some c \<Rightarrow> Inr c)"

section \<open>Registry\<close>

record SharedSessionRegistry =
  sr_capacity :: int
  sr_idle_seconds :: int
  sr_sessions :: "string \<rightharpoonup> SharedSessionState"

definition Registry_init :: "int \<Rightarrow> int \<Rightarrow> SharedSessionRegistry res" where
  "Registry_init capacity idle_seconds =
     raise_if (capacity \<le> 0 \<or> idle_seconds \<le> 0) (ValueError ''shared session registry limits must be positive'')
       (Inr \<lparr>sr_capacity = capacity, sr_idle_seconds = idle_seconds, sr_sessions = Map.empty\<rparr>)"

text \<open>
  Expiry drops every session idle since before the cut-off; \<open>expired_locked\<close> are the dropped sessions,
  aborted, as whoever still holds one sees it.
\<close>

definition expired_locked :: "SharedSessionRegistry \<Rightarrow> int \<Rightarrow> string \<rightharpoonup> SharedSessionState" where
  "expired_locked r now = (\<lambda>k. case sr_sessions r k of
     None \<Rightarrow> None
   | Some s \<Rightarrow> if ss_last_activity s < now - sr_idle_seconds r
              then Some (session_abort ''shared session expired'' now s) else None)"

definition expire_locked :: "SharedSessionRegistry \<Rightarrow> int \<Rightarrow> SharedSessionRegistry" where
  "expire_locked r now =
     r\<lparr>sr_sessions := (\<lambda>k. case sr_sessions r k of
         None \<Rightarrow> None
       | Some s \<Rightarrow> if ss_last_activity s < now - sr_idle_seconds r then None else Some s)\<rparr>"

definition registry_create ::
  "SharedSessionRegistry \<Rightarrow> SharedSessionCommitment \<Rightarrow> nat \<Rightarrow> int \<Rightarrow> SharedSessionRegistry \<times> SharedSessionState res" where
  "registry_create r commitment party now =
     (let r = expire_locked r now in
      raiseS (sc_session_id commitment \<in> dom (sr_sessions r))
        (SharedSessionError ''shared session identifier already exists'') r
     (raiseS (int (card (dom (sr_sessions r))) \<ge> sr_capacity r)
        (SharedSessionError ''shared session capacity exhausted'') r
     (onS (SharedSessionState_init commitment party now) r (\<lambda>s.
      (r\<lparr>sr_sessions := (sr_sessions r)(sc_session_id commitment \<mapsto> s)\<rparr>, Inr s)))))"

definition registry_get :: "SharedSessionRegistry \<Rightarrow> string \<Rightarrow> int \<Rightarrow> SharedSessionRegistry \<times> SharedSessionState res" where
  "registry_get r session_id now =
     (let r = expire_locked r now in
      case sr_sessions r session_id of
        None \<Rightarrow> (r, Inl (SharedSessionError ''shared session is unknown or expired''))
      | Some s \<Rightarrow> (r, Inr s))"

section \<open>Wire round trips\<close>

lemma hex_table: "list_all (\<lambda>n. hex_value (hex_char n) = Some n \<and> \<not> is_space (hex_char n)) [0..<16]"
  by code_simp

lemma hex_value_char: "n < 16 \<Longrightarrow> hex_value (hex_char n) = Some n"
  and hex_char_not_space: "n < 16 \<Longrightarrow> \<not> is_space (hex_char n)"
  using hex_table by (simp_all add: list_all_iff)

lemma fromhex_hex [simp]: "fromhex (hex_of bs) = Inr bs"
proof (induction bs)
  case (Cons b bs)
  have "unat b < 256" using unsigned_less [of b, where 'a = nat] by simp
  then have d: "unat b div 16 < 16" "unat b mod 16 < 16" by auto
  have "of_nat (16 * (unat b div 16) + unat b mod 16) = b" by (simp add: mult.commute)
  with Cons d show ?case by (simp add: hex_value_char hex_char_not_space)
qed simp

lemma length_hex [simp]: "length (hex_of bs) = 2 * length bs"
  by (induction bs) auto

text \<open>A fingerprint as \<^verbatim>\<open>hexdigest\<close> writes it: the lower-case text of 32 bytes.\<close>

definition is_hexdigest :: "string \<Rightarrow> bool" where
  "is_hexdigest f \<longleftrightarrow> (\<exists>bs. length bs = 32 \<and> f = hex_of bs)"

lemma commitment_decode:
  assumes "SharedSessionCommitment_check c = Inr c"
    and "is_hexdigest (sc_model_fingerprint c)" and "is_hexdigest (sc_graph_fingerprint c)"
    and "is_hexdigest (sc_scale_fingerprint c)" and "is_hexdigest (fst (sc_party_fingerprints c))"
    and "is_hexdigest (snd (sc_party_fingerprints c))"
    and "\<And>doc. commitment_doc c = Inr doc \<Longrightarrow> unpackb (packb doc) = Some doc \<and> 0 < length (packb doc) \<and> length (packb doc) \<le> 4096"
  shows "\<exists>payload. commitment_pack packb c = Inr payload \<and> commitment_unpack unpackb payload = Inr c"
proof -
  obtain f g s p q where h: "sc_model_fingerprint c = hex_of f" "sc_graph_fingerprint c = hex_of g"
    "sc_scale_fingerprint c = hex_of s" "fst (sc_party_fingerprints c) = hex_of p" "snd (sc_party_fingerprints c) = hex_of q"
    and l: "length f = 32" "length g = 32" "length s = 32" "length p = 32" "length q = 32"
    using assms(2-6) unfolding is_hexdigest_def by blast
  let ?kvs = "[(MStr ''v'', MInt 1), (MStr ''s'', MStr (sc_session_id c)), (MStr ''m'', MStr (sc_model_id c)),
         (MStr ''f'', MBin f), (MStr ''g'', MBin g), (MStr ''c'', MBin s),
         (MStr ''p'', MArr [MBin p, MBin q]), (MStr ''n'', MInt (sc_maximum_operations c))]"
  have doc: "commitment_doc c = Inr (MMap ?kvs)" by (simp add: commitment_doc_def h)
  note k = assms(7) [OF doc]
  have c: "c = \<lparr>sc_session_id = sc_session_id c, sc_model_id = sc_model_id c, sc_model_fingerprint = hex_of f,
     sc_graph_fingerprint = hex_of g, sc_scale_fingerprint = hex_of s, sc_party_fingerprints = (hex_of p, hex_of q),
     sc_maximum_operations = sc_maximum_operations c\<rparr>"
    using h by (metis SharedSessionCommitment.surjective old.unit.exhaust prod.collapse)
  have "fields_are ?kvs [''v'', ''s'', ''m'', ''f'', ''g'', ''c'', ''p'', ''n'']" by (auto simp: fields_are_def)
  then have "commitment_unpack unpackb (packb (MMap ?kvs)) = SharedSessionCommitment_check c"
    using k l by (subst c) (simp add: commitment_unpack_def field_def digest_field_def)
  with doc assms(1) show ?thesis by (simp add: commitment_pack_def)
qed

definition demo_commitment :: SharedSessionCommitment where
  "demo_commitment = \<lparr>sc_session_id = ''s'', sc_model_id = ''m'', sc_model_fingerprint = hex_of (replicate 32 1),
     sc_graph_fingerprint = hex_of (replicate 32 2), sc_scale_fingerprint = hex_of (replicate 32 3),
     sc_party_fingerprints = (hex_of (replicate 32 4), hex_of (replicate 32 5)), sc_maximum_operations = 9\<rparr>"

lemma hex_of_inj [simp]: "hex_of a = hex_of b \<longleftrightarrow> a = b"
  by (metis fromhex_hex sum.inject(2))

lemma demo_commitment_ok: "SharedSessionCommitment_check demo_commitment = Inr demo_commitment"
proof -
  have "replicate 32 (4 :: byte) \<noteq> replicate 32 5" by (simp add: replicate_eq_replicate)
  then show ?thesis by (simp add: SharedSessionCommitment_check_def demo_commitment_def)
qed

lemma peer_frame_decode:
  assumes "PeerFrame_check f = Inr f" and "length (pf_payload f) \<le> max_payload"
    and "unpackb (packb (PeerFrame_doc f)) = Some (PeerFrame_doc f)"
    and "0 < length (packb (PeerFrame_doc f))" and "length (packb (PeerFrame_doc f)) \<le> max_payload + 4096"
  shows "PeerFrame_unpack unpackb (PeerFrame_pack packb f) max_payload = Inr f"
proof -
  have fa: "fields_are [(MStr ''v'', MInt 1), (MStr ''s'', MStr (pf_session_id f)), (MStr ''c'', MBin (pf_channel_id f)),
     (MStr ''r'', MInt (pf_sender_party f)), (MStr ''q'', MInt (pf_sequence f)), (MStr ''k'', MStr (pf_kind f)),
     (MStr ''o'', MStr (pf_operation_id f)), (MStr ''p'', MBin (pf_payload f))]
     [''v'', ''s'', ''c'', ''r'', ''q'', ''k'', ''o'', ''p'']" by (auto simp: fields_are_def)
  have chk: "PeerFrame_check \<lparr>pf_session_id = pf_session_id f, pf_channel_id = pf_channel_id f, pf_sender_party = pf_sender_party f,
     pf_sequence = pf_sequence f, pf_kind = pf_kind f, pf_operation_id = pf_operation_id f, pf_payload = pf_payload f\<rparr> = Inr f"
    using assms(1) by (cases f) simp
  show ?thesis
    using assms fa chk
    by (simp add: PeerFrame_unpack_def PeerFrame_pack_def) (simp add: PeerFrame_doc_def field_def int_field_def bin_field_def)
qed

section \<open>Runs of the session state machine\<close>

datatype session_call =
    Establish SharedSessionCommitment bytes bytes string
  | Outbound string string bytes
  | Accept PeerFrame "string option"
  | CloseSession
  | Abort string

datatype session_event = Sent PeerFrame | Accepted PeerFrame | Other

text \<open>One call with its clock reading: the new state and, when it succeeded, what it did.\<close>

fun session_step ::
  "packer \<Rightarrow> (bytes \<Rightarrow> digest) \<Rightarrow> session_call \<times> int \<Rightarrow> SharedSessionState \<Rightarrow> SharedSessionState \<times> session_event option" where
  "session_step packb sha (Establish c ln pn fp, now) s =
     (let (s', r) = establish packb sha s c ln pn fp now in (s', case r of Inl _ \<Rightarrow> None | Inr _ \<Rightarrow> Some Other))"
| "session_step packb sha (Outbound k oid p, now) s =
     (let (s', r) = outbound s k oid p now in (s', case r of Inl _ \<Rightarrow> None | Inr f \<Rightarrow> Some (Sent f)))"
| "session_step packb sha (Accept f ek, now) s =
     (let (s', r) = accept s f ek now in (s', case r of Inl _ \<Rightarrow> None | Inr _ \<Rightarrow> Some (Accepted f)))"
| "session_step packb sha (CloseSession, now) s =
     (let (s', r) = session_close s now in (s', case r of Inl _ \<Rightarrow> None | Inr _ \<Rightarrow> Some Other))"
| "session_step packb sha (Abort reason, now) s = (session_abort reason now s, Some Other)"

inductive session_run ::
  "packer \<Rightarrow> (bytes \<Rightarrow> digest) \<Rightarrow> SharedSessionState \<Rightarrow> PeerFrame list \<Rightarrow> PeerFrame list \<Rightarrow> SharedSessionState \<Rightarrow> bool"
  for packb sha s0 where
    start: "session_run packb sha s0 [] [] s0"
  | failed: "session_run packb sha s0 sent got s \<Longrightarrow> session_step packb sha c s = (s', None) \<Longrightarrow> session_run packb sha s0 sent got s'"
  | other: "session_run packb sha s0 sent got s \<Longrightarrow> session_step packb sha c s = (s', Some Other) \<Longrightarrow> session_run packb sha s0 sent got s'"
  | sent: "session_run packb sha s0 sent got s \<Longrightarrow> session_step packb sha c s = (s', Some (Sent f)) \<Longrightarrow>
      session_run packb sha s0 (sent @ [f]) got s'"
  | accepted: "session_run packb sha s0 sent got s \<Longrightarrow> session_step packb sha c s = (s', Some (Accepted f)) \<Longrightarrow>
      session_run packb sha s0 sent (got @ [f]) s'"

inductive_cases session_run_cases: "session_run packb sha s0 sent got s"

definition session_inv :: "SharedSessionCommitment \<Rightarrow> nat \<Rightarrow> PeerFrame list \<Rightarrow> PeerFrame list \<Rightarrow> SharedSessionState \<Rightarrow> bool" where
  "session_inv c pt sent got s \<longleftrightarrow> ss_commitment s = c \<and> ss_party s = pt \<and> finite (ss_operations s)
     \<and> ss_next_outbound s = length sent \<and> ss_next_inbound s = length got
     \<and> map pf_sequence sent = map int [0..<length sent] \<and> map pf_sequence got = map int [0..<length got]
     \<and> distinct (map pf_operation_id sent) \<and> set (map pf_operation_id sent) \<subseteq> ss_operations s
     \<and> int (card (ss_operations s)) \<le> max 0 (sc_maximum_operations c)
     \<and> (\<forall>f \<in> set sent. pf_sender_party f = int pt \<and> Some (pf_channel_id f) = ss_channel_id s)
     \<and> (\<forall>f \<in> set got. pf_sender_party f = 1 - int pt \<and> Some (pf_channel_id f) = ss_channel_id s
          \<and> pf_session_id f = sc_session_id c)"

text \<open>The fields that matter for the frames of a session; an aborting call keeps all of them.\<close>

definition frame_view :: "SharedSessionState \<Rightarrow> SharedSessionCommitment \<times> nat \<times> nat \<times> nat \<times> bytes option" where
  "frame_view s = (ss_commitment s, ss_party s, ss_next_outbound s, ss_next_inbound s, ss_channel_id s)"

lemma fail_aborted_view:
  "fail_aborted r now s = (s', x) \<Longrightarrow> frame_view s' = frame_view s \<and> ss_operations s' = ss_operations s \<and> isl x"
  by (auto simp: fail_aborted_def abort_locked_def Let_def frame_view_def)

lemma establish_view:
  assumes "establish packb sha s c ln pn fp now = (s', r)"
  shows "ss_operations s' = ss_operations s \<and> (frame_view s' = frame_view s
     \<or> (ss_channel_id s = None \<and> (\<exists>ch. frame_view s' = frame_view (s\<lparr>ss_channel_id := Some ch\<rparr>))))"
  using assms by (auto simp: establish_def onS_def Let_def frame_view_def dest: fail_aborted_view
      split: sum.splits if_splits)

lemma outbound_ok:
  assumes "outbound s k oid p now = (s', Inr f)"
  shows "ss_operations s' = insert oid (ss_operations s) \<and> oid \<notin> ss_operations s
    \<and> int (card (ss_operations s)) < sc_maximum_operations (ss_commitment s)
    \<and> frame_view s' = frame_view (s\<lparr>ss_next_outbound := ss_next_outbound s + 1\<rparr>)
    \<and> pf_sequence f = int (ss_next_outbound s) \<and> pf_operation_id f = oid \<and> pf_sender_party f = int (ss_party s)
    \<and> Some (pf_channel_id f) = ss_channel_id s"
  using assms by (auto simp: outbound_def res_simps Let_def frame_view_def PeerFrame_check_def
      dest: fail_aborted_view split: option.splits if_splits)

lemma outbound_err:
  assumes "outbound s k oid p now = (s', Inl e)"
  shows "frame_view s' = frame_view s \<and> (ss_operations s' = ss_operations s
     \<or> (ss_operations s' = insert oid (ss_operations s) \<and> oid \<notin> ss_operations s
         \<and> int (card (ss_operations s)) < sc_maximum_operations (ss_commitment s)))"
  using assms by (auto simp: outbound_def onS_def Let_def frame_view_def dest: fail_aborted_view
      split: sum.splits option.splits if_splits)

lemma accept_ok:
  assumes "accept s f ek now = (s', Inr u)"
  shows "ss_operations s' = ss_operations s \<and> frame_view s' = frame_view (s\<lparr>ss_next_inbound := ss_next_inbound s + 1\<rparr>)
    \<and> pf_sequence f = int (ss_next_inbound s) \<and> pf_sender_party f = 1 - int (ss_party s)
    \<and> Some (pf_channel_id f) = ss_channel_id s \<and> pf_session_id f = sc_session_id (ss_commitment s)"
  using assms by (auto simp: accept_def res_simps frame_view_def dest: fail_aborted_view split: if_splits)

lemma accept_err:
  assumes "accept s f ek now = (s', Inl e)"
  shows "ss_operations s' = ss_operations s \<and> frame_view s' = frame_view s"
  using assms by (auto simp: accept_def onS_def frame_view_def dest: fail_aborted_view split: sum.splits if_splits)

lemma other_view:
  "session_close s now = (s', r) \<Longrightarrow> ss_operations s' = ss_operations s \<and> frame_view s' = frame_view s"
  "session_abort reason now s = s' \<Longrightarrow> ss_operations s' = ss_operations s \<and> frame_view s' = frame_view s"
  by (auto simp: session_close_def session_abort_def abort_locked_def onS_def frame_view_def split: sum.splits if_splits)

lemma session_inv_view:
  assumes "session_inv c pt sent got s" and "ss_operations s' = ss_operations s" and "frame_view s' = frame_view s"
  shows "session_inv c pt sent got s'"
  using assms by (auto simp: session_inv_def frame_view_def)

lemma session_inv_grow:
  assumes "session_inv c pt sent got s" and "ss_operations s' = insert oid (ss_operations s)" and "oid \<notin> ss_operations s"
    and "int (card (ss_operations s)) < sc_maximum_operations (ss_commitment s)" and "frame_view s' = frame_view s"
  shows "session_inv c pt sent got s'"
  using assms by (auto simp: session_inv_def frame_view_def)

lemma session_step_inv:
  assumes "session_inv c pt sent got s" and "session_step packb sha x s = (s', ev)"
  shows "session_inv c pt (sent @ (case ev of Some (Sent f) \<Rightarrow> [f] | _ \<Rightarrow> []))
     (got @ (case ev of Some (Accepted f) \<Rightarrow> [f] | _ \<Rightarrow> [])) s'"
proof -
  obtain call now where x: "x = (call, now)" by (cases x)
  show ?thesis
  proof (cases call)
    case (Establish pc ln pn fp)
    obtain r where e: "establish packb sha s pc ln pn fp now = (s', r)" "ev = (case r of Inl _ \<Rightarrow> None | Inr _ \<Rightarrow> Some Other)"
      using assms(2) x Establish by (auto split: prod.splits)
    have "session_inv c pt sent got s'"
    proof (cases "frame_view s' = frame_view s")
      case True
      with establish_view [OF e(1)] session_inv_view [OF assms(1)] show ?thesis by blast
    next
      case False
      with establish_view [OF e(1)] obtain ch where n: "ss_channel_id s = None" "ss_operations s' = ss_operations s"
        "frame_view s' = frame_view (s\<lparr>ss_channel_id := Some ch\<rparr>)" by blast
      then have "sent = []" "got = []" using assms(1) by (auto simp: session_inv_def)
      with n assms(1) show ?thesis by (auto simp: session_inv_def frame_view_def)
    qed
    with e(2) show ?thesis by (cases r) simp_all
  next
    case (Outbound k oid p)
    obtain r where o: "outbound s k oid p now = (s', r)" "ev = (case r of Inl _ \<Rightarrow> None | Inr f \<Rightarrow> Some (Sent f))"
      using assms(2) x Outbound by (auto split: prod.splits)
    show ?thesis
    proof (cases r)
      case (Inl e)
      from outbound_err [OF o(1) [unfolded Inl]] have "session_inv c pt sent got s'"
        using session_inv_view [OF assms(1), of s'] session_inv_grow [OF assms(1), of s' oid] by auto
      with Inl o(2) show ?thesis by simp
    next
      case (Inr f)
      from outbound_ok [OF o(1) [unfolded Inr]] assms(1) Inr o(2) show ?thesis
        by (auto simp: session_inv_def frame_view_def)
    qed
  next
    case (Accept f ek)
    obtain r where a: "accept s f ek now = (s', r)" "ev = (case r of Inl _ \<Rightarrow> None | Inr _ \<Rightarrow> Some (Accepted f))"
      using assms(2) x Accept by (auto split: prod.splits)
    show ?thesis
    proof (cases r)
      case (Inl e)
      with accept_err a(1) session_inv_view [OF assms(1)] have "session_inv c pt sent got s'" by blast
      with Inl a(2) show ?thesis by simp
    next
      case (Inr u)
      from accept_ok [OF a(1) [unfolded Inr]] assms(1) Inr a(2) show ?thesis
        by (auto simp: session_inv_def frame_view_def)
    qed
  next
    case CloseSession
    with assms(2) x session_inv_view [OF assms(1)] other_view(1) show ?thesis by (auto split: prod.splits sum.splits)
  next
    case (Abort reason)
    with assms(2) x session_inv_view [OF assms(1)] other_view(2) show ?thesis by auto
  qed
qed

text \<open>
  C35: In every history of a session, the frames it sends are numbered consecutively from zero, carry
  distinct operation identifiers, are at most as many as the committed operation budget, and the frames
  it accepts are numbered consecutively from zero, come from the other party and from the
  established channel of this session.
\<close>

theorem session_frames_in_order:
  assumes "SharedSessionState_init c p now = Inr s0" and "session_run packb sha s0 sent got s"
    and "0 < sc_maximum_operations c"
  shows "map pf_sequence sent = map int [0..<length sent] \<and> map pf_sequence got = map int [0..<length got]
    \<and> distinct (map pf_operation_id sent) \<and> int (length sent) \<le> sc_maximum_operations c
    \<and> (\<forall>f \<in> set got. pf_sender_party f = 1 - int p \<and> Some (pf_channel_id f) = ss_channel_id s)"
proof -
  have s0: "session_inv c p [] [] s0"
    using assms(1) by (auto simp: SharedSessionState_init_def res_simps session_inv_def)
  from assms(2) have inv: "session_inv c p sent got s"
  proof induction
    case start
    show ?case by (rule s0)
  next
    case (failed sent got s x s')
    from session_step_inv [OF failed.IH failed.hyps(2)] show ?case by simp
  next
    case (other sent got s x s')
    from session_step_inv [OF other.IH other.hyps(2)] show ?case by simp
  next
    case (sent sent got s x s' f)
    from session_step_inv [OF sent.IH sent.hyps(2)] show ?case by simp
  next
    case (accepted sent got s x s' f)
    from session_step_inv [OF accepted.IH accepted.hyps(2)] show ?case by simp
  qed
  have "length sent = card (set (map pf_operation_id sent))"
    using inv distinct_card [of "map pf_operation_id sent"] by (simp add: session_inv_def)
  also have "\<dots> \<le> card (ss_operations s)" using inv by (intro card_mono) (auto simp: session_inv_def)
  finally have "int (length sent) \<le> sc_maximum_operations c" using inv assms(3) by (simp add: session_inv_def)
  with inv show ?thesis by (simp add: session_inv_def)
qed


lemma establish_succeeds:
  assumes "ss_status s = ACTIVE" "ss_channel_id s = None" "length ln = 32" "length pn = 32" "ln \<noteq> pn"
    and "fp = (if ss_party s = 0 then snd (sc_party_fingerprints (ss_commitment s)) else fst (sc_party_fingerprints (ss_commitment s)))"
    and "commitment_digest packb sha (ss_commitment s) = Inr dg"
  shows "establish packb sha s (ss_commitment s) ln pn fp now =
    (s\<lparr>ss_channel_id := Some (digest_bytes (sha (channel_prefix @ dg @ (if ss_party s = 0 then ln @ pn else pn @ ln)))),
        ss_last_activity := now\<rparr>, Inr ())"
  using assms by (simp add: establish_def require_active_def Let_def)

text \<open>
  An aborted or closed session is final: no further establish, send, accept or close succeeds, and
  its status and sequence numbers never change again.
\<close>

lemma session_terminal:
  assumes "ss_status s \<noteq> ACTIVE"
  shows "session_step packb sha x s = (s, None) \<or> session_step packb sha x s = (s, Some Other) \<and> (\<exists>reason. fst x = Abort reason)"
proof -
  obtain call now where x: "x = (call, now)" by (cases x)
  show ?thesis using assms unfolding x
    by (cases call) (auto simp: establish_def outbound_def accept_def session_close_def session_abort_def require_active_def)
qed

text \<open>
  A frame is accepted at most once: after a session accepted a frame, accepting the same frame again
  raises and aborts the session.
\<close>

lemma replay_aborts:
  assumes "accept s f ek now = (s', Inr ())" and "ss_status s' = ACTIVE"
  shows "\<exists>s''. accept s' f ek' now' = (s'', Inl (SharedSessionError ''peer frame sequence is replayed or out of order''))
    \<and> ss_status s'' = ABORTED"
proof -
  note a = accept_ok [OF assms(1)]
  have st: "require_active s' = Inr ()" using assms(2) by (simp add: require_active_def)
  obtain ch where "ss_channel_id s = Some ch" using a by (metis)
  with a st show ?thesis
    by (auto simp: accept_def frame_view_def fail_aborted_def abort_locked_def reason_or_def Let_def)
qed

definition demo_state :: "nat \<Rightarrow> SharedSessionState" where
  "demo_state p = \<lparr>ss_commitment = demo_commitment, ss_party = p, ss_status = ACTIVE, ss_abort_reason = None,
     ss_last_activity = 0, ss_next_outbound = 0, ss_next_inbound = 0, ss_operations = {}, ss_channel_id = None\<rparr>"

lemma demo_state_init: "p \<in> {0, 1} \<Longrightarrow> SharedSessionState_init demo_commitment p 0 = Inr (demo_state p)"
  by (auto simp: SharedSessionState_init_def demo_state_def)

definition demo_open :: "nat \<Rightarrow> SharedSessionState" where
  "demo_open p = (demo_state p)\<lparr>ss_channel_id := Some (replicate 32 0)\<rparr>"

definition demo_peer_frame :: "int \<Rightarrow> PeerFrame" where
  "demo_peer_frame p = \<lparr>pf_session_id = ''s'', pf_channel_id = replicate 32 0, pf_sender_party = p, pf_sequence = 0,
     pf_kind = ''k'', pf_operation_id = ''o'', pf_payload = [9]\<rparr>"

lemma demo_run:
  "session_run (\<lambda>_. [1]) (\<lambda>_. 0) (demo_state 0) ([] @ [demo_peer_frame 0]) []
     ((demo_open 0)\<lparr>ss_last_activity := 4, ss_next_outbound := 1, ss_operations := {''o''}\<rparr>)"
proof (rule session_run.sent)
  have z: "digest_bytes 0 = replicate 32 0" by (simp add: digest_bytes_def map_replicate_const)
  have dg: "commitment_digest (\<lambda>_. [1]) (\<lambda>_. 0) demo_commitment = Inr (digest_bytes 0)"
    by (simp add: commitment_digest_def commitment_pack_def commitment_doc_def demo_commitment_def)
  have e: "establish (\<lambda>_. [1]) (\<lambda>_. 0) (demo_state 0) demo_commitment (replicate 32 1) (replicate 32 2)
      (snd (sc_party_fingerprints demo_commitment)) 3 = ((demo_open 0)\<lparr>ss_last_activity := 3\<rparr>, Inr ())"
    using establish_succeeds [of "demo_state 0" "replicate 32 1" "replicate 32 2" _ "\<lambda>_. [1]" "\<lambda>_. 0" "digest_bytes 0" 3] dg
    by (simp add: demo_state_def demo_open_def z replicate_eq_replicate)
  show "session_run (\<lambda>_. [1]) (\<lambda>_. 0) (demo_state 0) [] [] ((demo_open 0)\<lparr>ss_last_activity := 3\<rparr>)"
    by (rule session_run.other [OF session_run.start, where c = "(Establish demo_commitment (replicate 32 1) (replicate 32 2)
          (snd (sc_party_fingerprints demo_commitment)), 3)"]) (simp add: e)
  show "session_step (\<lambda>_. [1]) (\<lambda>_. 0) (Outbound ''k'' ''o'' [9], 4) ((demo_open 0)\<lparr>ss_last_activity := 3\<rparr>)
      = ((demo_open 0)\<lparr>ss_last_activity := 4, ss_next_outbound := 1, ss_operations := {''o''}\<rparr>, Some (Sent (demo_peer_frame 0)))"
    by (simp add: outbound_def require_active_def demo_open_def demo_state_def demo_commitment_def demo_peer_frame_def
        PeerFrame_check_def utf8_len_def Let_def)
qed

theorem session_frames_in_order_witness:
  "map pf_sequence [demo_peer_frame 0] = [0] \<and> int (length [demo_peer_frame 0]) \<le> sc_maximum_operations demo_commitment"
  using session_frames_in_order [OF demo_state_init demo_run] by (simp add: demo_commitment_def)

text \<open>
  A fingerprint is only checked for its length, so a commitment may carry one that is not the
  lower-case hexadecimal text of 32 bytes. No payload unpacks to such a commitment, so the handshake
  of two parties that both hold it always fails on the comparison of commitments.
\<close>

lemma noncanonical_commitment_unreachable:
  assumes "\<not> is_hexdigest (sc_model_fingerprint c)"
  shows "commitment_unpack unpackb payload \<noteq> Inr c"
proof
  assume u: "commitment_unpack unpackb payload = Inr c"
  then obtain kvs where k: "unpackb payload = Some (MMap kvs)"
    by (auto simp: commitment_unpack_def res_simps split: option.splits mval.splits)
  from u have "digest_field (field kvs ''f'') (SharedSessionError ''shared session fingerprint is invalid'') = Inr (sc_model_fingerprint c)"
    by (cases "field kvs ''n''") (auto simp: k commitment_unpack_def res_simps SharedSessionCommitment_check_def)
  then show False using assms by (auto simp: digest_field_def is_hexdigest_def bytes_field_def res_simps split: mval.splits if_splits)
qed

definition demo_upper :: SharedSessionCommitment where
  "demo_upper = demo_commitment\<lparr>sc_model_fingerprint := replicate 64 (CHR ''A'')\<rparr>"

lemma hex_of_no_upper: "CHR ''A'' \<notin> set (hex_of bs)"
proof (induction bs)
  case (Cons b bs)
  have t: "list_all (\<lambda>n. hex_char n \<noteq> CHR ''A'') [0..<16]" by code_simp
  have "unat b < 256" using unsigned_less [of b, where 'a = nat] by simp
  then have "unat b div 16 < 16" "unat b mod 16 < 16" by auto
  with t have "hex_char (unat b div 16) \<noteq> CHR ''A''" "hex_char (unat b mod 16) \<noteq> CHR ''A''" by (simp_all only: list_all_iff) auto
  with Cons show ?case by simp
qed simp

end
