(* ===== verification/Msgpack.thy ===== *)
theory Msgpack
  imports Shared_Session
begin

text \<open>
  What the wire formats rely on of the MessagePack library, as the predicate \<open>codec_ok\<close> on an encoder and a
  decoder: a document of the kind the program sends is encoded in at most the size the format documents,
  and decodes to itself. A document has text or byte strings as keys, without duplicates, because the frames are read with
  \<open>unpackb(raw=False, strict_map_key=True)\<close> (\<open>shared_session.py\<close>, \<open>shared_mpc.py\<close>), which refuses every other
  key type and keeps one entry per key; integers and lengths are those of the format; and containers are nested
  at most sixteen deep, far below the nesting limits of the library (the frames nest two deep). Of any other
  value nothing is assumed. A reference codec that writes the 32-bit length forms satisfies the predicate, so
  that the theorems about frames on the wire can be applied to concrete bytes.
\<close>

section \<open>Representable values\<close>

fun str_key :: "mval \<Rightarrow> bool" where
  "str_key (MStr s) = True"
| "str_key (MBin bs) = True"
| "str_key m = False"

fun msgpack_value :: "mval \<Rightarrow> bool" where
  "msgpack_value MNil = True"
| "msgpack_value (MBool b) = True"
| "msgpack_value (MInt i) = (- (2 ^ 63) \<le> i \<and> i < 2 ^ 64)"
| "msgpack_value MFloat = False"
| "msgpack_value (MStr s) = (length s < 2 ^ 31)"
| "msgpack_value (MBin bs) = (length bs < 2 ^ 32)"
| "msgpack_value (MArr xs) = (length xs < 2 ^ 32 \<and> (\<forall>x \<in> set xs. msgpack_value x))"
| "msgpack_value (MMap kvs) = (length kvs < 2 ^ 32 \<and> distinct (map fst kvs) \<and>
     (\<forall>kv \<in> set kvs. str_key (fst kv) \<and> msgpack_value (fst kv) \<and> msgpack_value (snd kv)))"

text \<open>The nesting of arrays and maps.\<close>

fun within_depth :: "nat \<Rightarrow> mval \<Rightarrow> bool" where
  "within_depth d (MArr xs) = (0 < d \<and> (\<forall>x \<in> set xs. within_depth (d - 1) x))"
| "within_depth d (MMap kvs) = (0 < d \<and> (\<forall>kv \<in> set kvs. within_depth (d - 1) (snd kv)))"
| "within_depth d m = True"

definition msgpack_document :: "mval \<Rightarrow> bool" where
  "msgpack_document m \<longleftrightarrow> msgpack_value m \<and> within_depth 16 m"

text \<open>The documented upper bounds: one tag byte, at most eight bytes of integer and four of length.\<close>

fun msgpack_size :: "mval \<Rightarrow> nat" where
  "msgpack_size MNil = 1"
| "msgpack_size (MBool b) = 1"
| "msgpack_size (MInt i) = 9"
| "msgpack_size MFloat = 9"
| "msgpack_size (MStr s) = 5 + utf8_len s"
| "msgpack_size (MBin bs) = 5 + length bs"
| "msgpack_size (MArr xs) = 5 + sum_list (map msgpack_size xs)"
| "msgpack_size (MMap kvs) = 5 + sum_list (map (\<lambda>kv. msgpack_size (fst kv) + msgpack_size (snd kv)) kvs)"

definition codec_ok :: "packer \<Rightarrow> unpacker \<Rightarrow> bool" where
  "codec_ok packb unpackb \<longleftrightarrow>
     (\<forall>m. msgpack_document m \<longrightarrow> packb m \<noteq> [] \<and> length (packb m) \<le> msgpack_size m \<and> unpackb (packb m) = Some m)"

lemma codec_okD:
  assumes "codec_ok packb unpackb" and "msgpack_document m"
  shows "packb m \<noteq> []" "length (packb m) \<le> msgpack_size m" "unpackb (packb m) = Some m"
  using assms by (auto simp: codec_ok_def)

section \<open>Reference codec\<close>

fun msg_enc :: "mval \<Rightarrow> bytes" where
  "msg_enc MNil = [0xc0]"
| "msg_enc (MBool b) = [if b then 0xc3 else 0xc2]"
| "msg_enc (MInt i) = (if 0 \<le> i then 0xcf # be_bytes 8 (nat i) else 0xd3 # be_bytes 8 (nat (i + 2 ^ 64)))"
| "msg_enc MFloat = [0xcb]"
| "msg_enc (MStr s) = 0xdb # be_bytes 4 (length s) @ map (\<lambda>c. of_nat (of_char c)) s"
| "msg_enc (MBin bs) = 0xc6 # be_bytes 4 (length bs) @ bs"
| "msg_enc (MArr xs) = 0xdd # be_bytes 4 (length xs) @ concat (map msg_enc xs)"
| "msg_enc (MMap kvs) = 0xdf # be_bytes 4 (length kvs) @ concat (map (\<lambda>kv. msg_enc (fst kv) @ msg_enc (snd kv)) kvs)"

type_synonym 'a decoder = "bytes \<Rightarrow> ('a \<times> bytes) option"

definition take_bytes :: "nat \<Rightarrow> bytes decoder" where
  "take_bytes n bs = (if length bs < n then None else Some (take n bs, drop n bs))"

primrec dec_many :: "'a decoder \<Rightarrow> nat \<Rightarrow> ('a list) decoder" where
  "dec_many d 0 r = Some ([], r)"
| "dec_many d (Suc n) r = (case d r of None \<Rightarrow> None | Some (x, r') \<Rightarrow>
     (case dec_many d n r' of None \<Rightarrow> None | Some (xs, r'') \<Rightarrow> Some (x # xs, r'')))"

definition dec_pair :: "'a decoder \<Rightarrow> ('a \<times> 'a) decoder" where
  "dec_pair d r = (case d r of None \<Rightarrow> None | Some (k, r') \<Rightarrow>
     (case d r' of None \<Rightarrow> None | Some (v, r'') \<Rightarrow> Some ((k, v), r'')))"

definition sized :: "(nat \<Rightarrow> 'a decoder) \<Rightarrow> 'a decoder" where
  "sized d r = (case take_bytes 4 r of None \<Rightarrow> None | Some (n, r') \<Rightarrow> d (be_nat n) r')"

definition with_value :: "('a \<Rightarrow> mval) \<Rightarrow> 'a decoder \<Rightarrow> mval decoder" where
  "with_value f d r = map_option (\<lambda>(x, r'). (f x, r')) (d r)"

primrec msg_dec :: "nat \<Rightarrow> mval decoder" where
  "msg_dec 0 bs = None"
| "msg_dec (Suc f) bs = (case bs of [] \<Rightarrow> None | t # r \<Rightarrow>
     if t = 0xc0 then Some (MNil, r)
     else if t = 0xc2 then Some (MBool False, r)
     else if t = 0xc3 then Some (MBool True, r)
     else if t = 0xcf then with_value (\<lambda>b. MInt (int (be_nat b))) (take_bytes 8) r
     else if t = 0xd3 then with_value (\<lambda>b. MInt (int (be_nat b) - 2 ^ 64)) (take_bytes 8) r
     else if t = 0xdb then with_value (\<lambda>b. MStr (map (\<lambda>c. char_of (unat c)) b)) (sized take_bytes) r
     else if t = 0xc6 then with_value MBin (sized take_bytes) r
     else if t = 0xdd then with_value MArr (sized (dec_many (msg_dec f))) r
     else if t = 0xdf then with_value MMap (sized (dec_many (dec_pair (msg_dec f)))) r
     else None)"

definition msg_unpackb :: unpacker where
  "msg_unpackb bs = (case msg_dec (length bs) bs of Some (m, []) \<Rightarrow> Some m | _ \<Rightarrow> None)"

lemma take_bytes_app [simp]: "length xs = n \<Longrightarrow> take_bytes n (xs @ r) = Some (xs, r)"
  by (auto simp: take_bytes_def)

lemma sized_app: "n < 2 ^ 32 \<Longrightarrow> sized d (be_bytes 4 n @ r) = d n r"
  by (simp add: sized_def be_nat_bytes)

lemma dec_many_app:
  "(\<And>x r. x \<in> set xs \<Longrightarrow> d (e x @ r) = Some (x, r)) \<Longrightarrow> dec_many d (length xs) (concat (map e xs) @ r) = Some (xs, r)"
  by (induction xs) auto

lemma dec_pair_app:
  "(\<And>r. d (e k @ r) = Some (k, r)) \<Longrightarrow> (\<And>r. d (e v @ r) = Some (v, r)) \<Longrightarrow> dec_pair d ((e k @ e v) @ r) = Some ((k, v), r)"
  by (simp add: dec_pair_def)

lemma length_part: "x \<in> set xs \<Longrightarrow> length (e x) \<le> length (concat (map e xs))"
  by (induction xs) auto

lemma msg_dec_enc: "msgpack_value m \<Longrightarrow> length (msg_enc m) \<le> f \<Longrightarrow> msg_dec f (msg_enc m @ r) = Some (m, r)"
proof (induction m arbitrary: f r)
  case (MInt i)
  then obtain g where f: "f = Suc g" by (cases f) (auto split: if_splits)
  have "0 \<le> i \<Longrightarrow> nat i < 256 ^ 8" "i < 0 \<Longrightarrow> nat (i + 2 ^ 64) < 256 ^ 8" using MInt.prems by auto
  then show ?case using MInt.prems by (auto simp: f with_value_def be_nat_bytes)
next
  case (MStr s)
  then obtain g where f: "f = Suc g" by (cases f) auto
  have s: "map (\<lambda>c. char_of (unat ((of_nat (of_char c) :: byte)))) s = s"
    by (rule map_idI) (simp add: unat_of_nat)
  have t: "take_bytes (length s) (map (\<lambda>c. of_nat (of_char c)) s @ r) = Some (map (\<lambda>c. of_nat (of_char c)) s, r)" by simp
  have "length s < 2 ^ 32" using MStr.prems by simp
  then show ?case using s by (simp add: f with_value_def sized_app t o_def)
next
  case (MBin bs)
  then obtain g where f: "f = Suc g" by (cases f) auto
  with MBin.prems show ?case by (simp add: with_value_def sized_app)
next
  case (MArr xs)
  then obtain g where f: "f = Suc g" by (cases f) auto
  have "dec_many (msg_dec g) (length xs) (concat (map msg_enc xs) @ r) = Some (xs, r)"
    using MArr.IH MArr.prems length_part [of _ xs msg_enc] by (intro dec_many_app) (fastforce simp: f)
  with MArr.prems show ?case by (simp add: f with_value_def sized_app)
next
  case (MMap kvs)
  then obtain g where f: "f = Suc g" by (cases f) auto
  let ?e = "\<lambda>kv. msg_enc (fst kv) @ msg_enc (snd kv)"
  have "dec_pair (msg_dec g) (?e kv @ r) = Some (kv, r)" if kv: "kv \<in> set kvs" for kv r
  proof -
    have l: "length (?e kv) \<le> g" using length_part [OF kv, of ?e] MMap.prems by (simp add: f)
    have "msg_dec g (msg_enc (fst kv) @ r) = Some (fst kv, r)" for r
      using MMap.IH(1) [OF kv, of "fst kv"] MMap.prems(1) kv l by (cases kv) auto
    moreover have "msg_dec g (msg_enc (snd kv) @ r) = Some (snd kv, r)" for r
      using MMap.IH(2) [OF kv, of "snd kv"] MMap.prems(1) kv l by (cases kv) auto
    ultimately show ?thesis using dec_pair_app [of "msg_dec g" msg_enc "fst kv" "snd kv" r] by simp
  qed
  then have "dec_many (dec_pair (msg_dec g)) (length kvs) (concat (map ?e kvs) @ r) = Some (kvs, r)" by (rule dec_many_app)
  with MMap.prems show ?case by (simp add: f with_value_def sized_app)
next
  case MNil
  then show ?case by (cases f) auto
next
  case (MBool b)
  then show ?case by (cases f) auto
next
  case MFloat
  then show ?case by simp
qed

lemma sum_list_length_le: "(\<And>x. x \<in> set xs \<Longrightarrow> length (e x) \<le> g x) \<Longrightarrow> length (concat (map e xs)) \<le> sum_list (map g xs)"
  by (induction xs) (auto intro: add_mono)

lemma utf8_len_ge: "length s \<le> utf8_len s"
  by (induction s) (auto simp: utf8_len_def)

lemma length_msg_enc: "length (msg_enc m) \<le> msgpack_size m"
proof (induction m)
  case (MStr s)
  show ?case using utf8_len_ge [of s] by simp
next
  case (MArr xs)
  from sum_list_length_le [of xs msg_enc msgpack_size] MArr show ?case by simp
next
  case (MMap kvs)
  have "length (msg_enc (fst kv) @ msg_enc (snd kv)) \<le> msgpack_size (fst kv) + msgpack_size (snd kv)" if "kv \<in> set kvs" for kv
    using MMap.IH(1) [OF that, of "fst kv"] MMap.IH(2) [OF that, of "snd kv"] by (cases kv) (auto intro: add_mono)
  from sum_list_length_le [of kvs "\<lambda>kv. msg_enc (fst kv) @ msg_enc (snd kv)", OF this] show ?case by simp
qed auto

lemma msg_codec_ok: "codec_ok msg_enc msg_unpackb"
  unfolding codec_ok_def
proof (intro allI impI conjI)
  fix m assume d: "msgpack_document m"
  then have m: "msgpack_value m" by (simp add: msgpack_document_def)
  show "msg_enc m \<noteq> []" by (cases m) auto
  show "length (msg_enc m) \<le> msgpack_size m" by (rule length_msg_enc)
  show "msg_unpackb (msg_enc m) = Some m"
    using msg_dec_enc [OF m, of "length (msg_enc m)" "[]"] by (simp add: msg_unpackb_def)
qed

end
