(* ===== verification/Peer_Connection.thy ===== *)
theory Peer_Connection
  imports Msgpack
begin

text \<open>
  \<^verbatim>\<open>SharedPeerConnection\<close> of \<^verbatim>\<open>runtime/shared_session.py\<close>: the handshake, sending, receiving with its inbox,
  and the exchange of two payloads. The transport is explicit: what it delivers or raises is a list of
  incoming events in the connection, and the outcome of a write is an argument. A wait for data that
  never comes ends in \<^verbatim>\<open>TimeoutError\<close>. Each clock reading is an argument or part of an event.
\<close>

section \<open>Connection\<close>

record SharedPeerStats =
  sent_frames :: nat
  received_frames :: nat
  ps_uploaded_bytes :: nat
  ps_downloaded_bytes :: nat

text \<open>One delivery of the transport, or the exception the read raises, with the clock reading after it.\<close>

type_synonym incoming = "bytes res \<times> int"

record Connection =
  pc_state :: SharedSessionState
  pc_max_payload_bytes :: nat
  pc_peer_fingerprint :: string
  pc_stats :: SharedPeerStats
  pc_handshake_complete :: bool
  pc_inbox :: "(string \<times> string) \<rightharpoonup> bytes"
  pc_incoming :: "incoming list"
  pc_socket_open :: bool

definition Connection_init :: "SharedSessionState \<Rightarrow> int \<Rightarrow> string \<Rightarrow> int \<Rightarrow> Connection res" where
  "Connection_init state max_payload_bytes fingerprint timeout_seconds =
     raise_if (max_payload_bytes \<le> 0) (ValueError ''peer payload limit must be positive'')
    (raise_if (timeout_seconds \<le> 0) (ValueError ''peer timeout must be positive'')
    (Inr \<lparr>pc_state = state, pc_max_payload_bytes = nat max_payload_bytes, pc_peer_fingerprint = fingerprint,
       pc_stats = \<lparr>sent_frames = 0, received_frames = 0, ps_uploaded_bytes = 0, ps_downloaded_bytes = 0\<rparr>,
       pc_handshake_complete = False, pc_inbox = Map.empty, pc_incoming = [], pc_socket_open = True\<rparr>))"

text \<open>
  The handlers of the connection: the session is aborted with the exception's class in the reason, and
  a timeout also closes the socket and is raised as a session error.
\<close>

definition on_failure :: "string \<Rightarrow> string \<Rightarrow> int \<Rightarrow> Connection \<times> 'a res \<Rightarrow> Connection \<times> 'a res" where
  "on_failure label timed_out now cr = (case cr of
       (c, Inr x) \<Rightarrow> (c, Inr x)
     | (c, Inl e) \<Rightarrow>
         (let c' = c\<lparr>pc_state := session_abort (label @ exc_name e) now (pc_state c)\<rparr> in
          case e of TimeoutError _ \<Rightarrow> (c'\<lparr>pc_socket_open := False\<rparr>, Inl (SharedSessionError timed_out))
                  | _ \<Rightarrow> (c', Inl e)))"

definition lift_state :: "Connection \<Rightarrow> SharedSessionState \<times> 'a res \<Rightarrow> Connection \<times> 'a res" where
  "lift_state c sr = (c\<lparr>pc_state := fst sr\<rparr>, snd sr)"

section \<open>Handshake\<close>

definition handshake_payload :: "packer \<Rightarrow> Connection \<Rightarrow> bytes \<Rightarrow> bytes res" where
  "handshake_payload packb c nonce =
     bindE (commitment_pack packb (ss_commitment (pc_state c))) (\<lambda>cb.
       Inr (packb (MMap [(MStr ''v'', MInt 1), (MStr ''c'', MBin cb),
         (MStr ''p'', MInt (int (ss_party (pc_state c)))), (MStr ''n'', MBin nonce)])))"

definition handshake_fields :: "nat \<Rightarrow> mval \<Rightarrow> (bytes \<times> bytes) res" where
  "handshake_fields party item =
     (case item of
        MMap kvs \<Rightarrow>
          raise_if (\<not> fields_are kvs [''v'', ''c'', ''p'', ''n''] \<or> field kvs ''v'' \<noteq> MInt 1
              \<or> field kvs ''p'' \<noteq> MInt (1 - int party)) (SharedSessionError ''peer handshake fields are invalid'')
          (case (field kvs ''c'', field kvs ''n'') of
             (MBin cb, MBin nonce) \<Rightarrow> Inr (cb, nonce)
           | _ \<Rightarrow> Inl (SharedSessionError ''peer handshake fields are invalid''))
      | _ \<Rightarrow> Inl (SharedSessionError ''peer handshake fields are invalid''))"

text \<open>
  The arguments of a handshake are the drawn nonce, the outcome of the write and what the read
  delivers. The class of the exception a malformed document raises inside the MessagePack library is
  not distinguished.
\<close>

type_synonym handshake_io = "bytes \<times> (unit res \<times> int) \<times> incoming"

definition handshake :: "packer \<Rightarrow> unpacker \<Rightarrow> (bytes \<Rightarrow> digest) \<Rightarrow> handshake_io \<Rightarrow> Connection \<Rightarrow> Connection \<times> unit res" where
  "handshake packb unpackb sha io c =
     (if pc_handshake_complete c then (c, Inr ())
      else
        let (nonce, written, delivered) = io in
        onS (handshake_payload packb c nonce) c (\<lambda>payload.
        let (c', r) = on_failure ''peer handshake failed: '' ''shared peer handshake timed out''
          (if isl (fst written) then snd written else snd delivered)
         (onS (fst written) c (\<lambda>_.
          onS (fst delivered) c (\<lambda>raw.
          raiseS (raw = [] \<or> length raw > 8192) (SharedSessionError ''peer handshake is invalid'') c
         (onS (case unpackb raw of None \<Rightarrow> Inl (LibraryError ''UnpackException'' []) | Some item \<Rightarrow> Inr item) c (\<lambda>item.
          onS (handshake_fields (ss_party (pc_state c)) item) c (\<lambda>(cb, peer_nonce).
          onS (commitment_unpack unpackb cb) c (\<lambda>peer_commitment.
          lift_state c (establish packb sha (pc_state c) peer_commitment nonce peer_nonce
            (pc_peer_fingerprint c) (snd delivered))))))))) in
        onS r c' (\<lambda>_. (c'\<lparr>pc_handshake_complete := True\<rparr>, Inr ()))))"

section \<open>Send, receive and exchange\<close>

definition peer_send ::
  "packer \<Rightarrow> unpacker \<Rightarrow> (bytes \<Rightarrow> digest) \<Rightarrow> handshake_io \<Rightarrow> Connection \<Rightarrow> string \<Rightarrow> string \<Rightarrow> bytes \<Rightarrow> int \<Rightarrow> unit res \<times> int
    \<Rightarrow> Connection \<times> bytes res" where
  "peer_send packb unpackb sha io c kind operation_id payload now written =
     (let (c, h) = handshake packb unpackb sha io c in
      onS h c (\<lambda>_.
      if length payload > pc_max_payload_bytes c
      then (c\<lparr>pc_state := session_abort ''outbound peer payload is too large'' now (pc_state c)\<rparr>,
            Inl (SharedSessionError ''outbound peer payload is too large''))
      else
        let (c, r) = lift_state c (outbound (pc_state c) kind operation_id payload now) in
        onS r c (\<lambda>frame.
        let packed = PeerFrame_pack packb frame in
        on_failure ''peer send failed: '' ''shared peer send timed out'' (snd written)
          (onS (fst written) c (\<lambda>_.
           (c\<lparr>pc_stats := (pc_stats c)\<lparr>sent_frames := sent_frames (pc_stats c) + 1,
                ps_uploaded_bytes := ps_uploaded_bytes (pc_stats c) + length packed\<rparr>\<rparr>, Inr packed))))))"

fun receive_loop :: "unpacker \<Rightarrow> string \<times> string \<Rightarrow> Connection \<Rightarrow> incoming list \<Rightarrow> Connection \<times> bytes res" where
  "receive_loop unpackb expected c [] = (c\<lparr>pc_incoming := []\<rparr>, Inl (TimeoutError []))"
| "receive_loop unpackb expected c ((Inl e, t) # evs) = (c\<lparr>pc_incoming := evs\<rparr>, Inl e)"
| "receive_loop unpackb expected c ((Inr raw, t) # evs) =
     (let c = c\<lparr>pc_incoming := evs\<rparr> in
      onS (PeerFrame_unpack unpackb raw (pc_max_payload_bytes c)) c (\<lambda>frame.
      let (c, r) = lift_state c (accept (pc_state c) frame None t) in
      onS r c (\<lambda>_.
      let c = c\<lparr>pc_stats := (pc_stats c)\<lparr>received_frames := received_frames (pc_stats c) + 1,
                  ps_downloaded_bytes := ps_downloaded_bytes (pc_stats c) + length raw\<rparr>\<rparr>;
          key = (pf_kind frame, pf_operation_id frame) in
      if key = expected then (c, Inr (pf_payload frame))
      else if key \<in> dom (pc_inbox c) \<or> int (card (dom (pc_inbox c))) \<ge> sc_maximum_operations (ss_commitment (pc_state c))
      then (c, Inl (SharedSessionError ''peer response operation is duplicated or excessive''))
      else receive_loop unpackb expected (c\<lparr>pc_inbox := (pc_inbox c)(key \<mapsto> pf_payload frame)\<rparr>) evs)))"

definition peer_receive ::
  "packer \<Rightarrow> unpacker \<Rightarrow> (bytes \<Rightarrow> digest) \<Rightarrow> handshake_io \<Rightarrow> Connection \<Rightarrow> string \<Rightarrow> string \<Rightarrow> int \<Rightarrow> Connection \<times> bytes res" where
  "peer_receive packb unpackb sha io c kind operation_id now =
     (let (c, h) = handshake packb unpackb sha io c in
      onS h c (\<lambda>_.
      on_failure ''peer receive failed: '' ''shared peer receive timed out'' now
        (case pc_inbox c (kind, operation_id) of
           Some queued \<Rightarrow>
             (let c = c\<lparr>pc_inbox := (pc_inbox c)((kind, operation_id) := None)\<rparr> in
              raiseS (ss_status (pc_state c) \<noteq> ACTIVE) (SharedSessionError ''shared session is not active'') c
                (c, Inr queued))
         | None \<Rightarrow> receive_loop unpackb (kind, operation_id) c (pc_incoming c))))"

text \<open>The deadline of an exchange cancels the pending wait, which raises \<^verbatim>\<open>CancelledError\<close> inside it.\<close>

definition peer_exchange ::
  "packer \<Rightarrow> unpacker \<Rightarrow> (bytes \<Rightarrow> digest) \<Rightarrow> handshake_io \<Rightarrow> Connection \<Rightarrow> string \<Rightarrow> string \<Rightarrow> bytes \<Rightarrow> int \<Rightarrow> unit res \<times> int
    \<Rightarrow> Connection \<times> bytes res" where
  "peer_exchange packb unpackb sha io c kind operation_id payload now written =
     (let (c, r) = peer_send packb unpackb sha io c kind operation_id payload now written;
          (c, r) = onS r c (\<lambda>_. peer_receive packb unpackb sha io c kind operation_id now) in
      case r of
        Inl (LibraryError cls m) \<Rightarrow>
          if cls = ''CancelledError''
          then (c\<lparr>pc_state := session_abort ''shared peer exchange timed out'' now (pc_state c), pc_socket_open := False\<rparr>,
                Inl (SharedSessionError ''shared peer exchange timed out''))
          else (c, r)
      | _ \<Rightarrow> (c, r))"

definition peer_close :: "Connection \<Rightarrow> int \<Rightarrow> Connection" where
  "peer_close c now =
     (if ss_status (pc_state c) = ACTIVE then c\<lparr>pc_state := fst (session_close (pc_state c) now), pc_socket_open := False\<rparr>
      else c\<lparr>pc_socket_open := False\<rparr>)"

section \<open>Two connected parties\<close>

text \<open>What one party writes the other party's transport delivers.\<close>

definition deliver :: "bytes res \<Rightarrow> int \<Rightarrow> Connection \<Rightarrow> Connection" where
  "deliver w now c = (case w of Inl _ \<Rightarrow> c | Inr raw \<Rightarrow> c\<lparr>pc_incoming := pc_incoming c @ [(Inr raw, now)]\<rparr>)"

type_synonym request = "string \<times> string \<times> bytes"

definition no_io :: handshake_io where
  "no_io = ([], (Inr (), 0), (Inl (TimeoutError []), 0))"

definition sent_by :: "packer \<Rightarrow> unpacker \<Rightarrow> (bytes \<Rightarrow> digest) \<Rightarrow> int \<Rightarrow> Connection \<Rightarrow> request \<Rightarrow> bytes res" where
  "sent_by packb unpackb sha now c q = (case q of (kind, oid, payload) \<Rightarrow>
     snd (peer_send packb unpackb sha no_io c kind oid payload now (Inr (), now)))"

definition exchange_one :: "packer \<Rightarrow> unpacker \<Rightarrow> (bytes \<Rightarrow> digest) \<Rightarrow> int \<Rightarrow> Connection \<Rightarrow> request \<Rightarrow> Connection \<times> bytes res" where
  "exchange_one packb unpackb sha now c q = (case q of (kind, oid, payload) \<Rightarrow>
     peer_exchange packb unpackb sha no_io c kind oid payload now (Inr (), now))"

definition exchange_two ::
  "packer \<Rightarrow> unpacker \<Rightarrow> (bytes \<Rightarrow> digest) \<Rightarrow> int \<Rightarrow> Connection \<Rightarrow> request \<Rightarrow> Connection \<Rightarrow> request
    \<Rightarrow> (Connection \<times> bytes res) \<times> (Connection \<times> bytes res)" where
  "exchange_two packb unpackb sha now c0 q0 c1 q1 =
     (exchange_one packb unpackb sha now (deliver (sent_by packb unpackb sha now c1 q1) now c0) q0,
      exchange_one packb unpackb sha now (deliver (sent_by packb unpackb sha now c0 q0) now c1) q1)"

section \<open>Frames on the wire\<close>

text \<open>The size limits under which every frame is encodable: NumPy arrays have at most 64 dimensions.\<close>

definition wire_array :: "u64array \<Rightarrow> nat \<Rightarrow> bool" where
  "wire_array a n \<longleftrightarrow> nd_wf a \<and> length (nd_shape a) \<le> 64 \<and> nd_size a \<le> n \<and> n \<le> 2 ^ 24"

definition wire_id :: "string \<Rightarrow> bool" where
  "wire_id s \<longleftrightarrow> s \<noteq> [] \<and> utf8_len s \<le> 128"

lemma dim_le_size: "prod_list sh \<noteq> 0 \<Longrightarrow> n \<in> set sh \<Longrightarrow> n \<le> prod_list (sh :: nat list)"
proof (induction sh)
  case (Cons a sh)
  have "n = a \<or> n \<le> prod_list sh" using Cons by auto
  moreover have "a \<noteq> 0" "prod_list sh \<noteq> 0" using Cons.prems(1) by auto
  ultimately show ?case using mult_le_mono [of 1 a n "prod_list sh"] by auto
qed simp

lemma length_utf8: "utf8_len s \<le> n \<Longrightarrow> length s \<le> n"
  using utf8_len_ge [of s] by simp

lemma shape_doc:
  assumes "nd_size a \<noteq> 0" "wire_array a n"
  shows "\<forall>x \<in> set (map (\<lambda>n. MInt (int n)) (nd_shape a)). msgpack_value x"
    "sum_list (map msgpack_size (map (\<lambda>n. MInt (int n)) (nd_shape a))) = 9 * length (nd_shape a)"
proof -
  have "int d < 2 ^ 64" if "d \<in> set (nd_shape a)" for d
    using dim_le_size [OF _ that] assms by (simp add: nd_size_def wire_array_def)
  then show "\<forall>x \<in> set (map (\<lambda>n. MInt (int n)) (nd_shape a)). msgpack_value x" by auto
qed (simp add: sum_list_triv o_def)

lemma array_doc:
  assumes "wire_array a n"
  shows "length (tobytes_u64 (nd_data a)) = 8 * nd_size a" "8 * nd_size a < 2 ^ 32"
  using assms by (auto simp: wire_array_def nd_wf_def nd_size_def)

lemma opening_frame_wire:
  assumes "codec_ok packb unpackb" and "mk_OpeningFrame s oid p d e = Inr f" and "wire_array d n" and "wire_array e n"
    and "utf8_len s \<le> 128" and "utf8_len oid \<le> 128"
  shows "OpeningFrame_unpack unpackb (OpeningFrame_pack packb f) n = Inr f"
    and "length (OpeningFrame_pack packb f) \<le> 16 * nd_size d + 1024"
proof -
  have f: "f = \<lparr>of_session_id = s, of_operation_id = oid, of_party = p, of_d = d, of_e = e\<rparr>"
    and p: "p \<in> {0, 1}" and sh: "nd_shape e = nd_shape d" and z: "nd_size d \<noteq> 0"
    using assms(2) by (auto simp: mk_OpeningFrame_def res_simps nd_size_def)
  have sz: "nd_size e = nd_size d" using sh by (simp add: nd_size_def)
  note ids = length_utf8 [OF assms(5)] length_utf8 [OF assms(6)]
  have v: "msgpack_document (OpeningFrame_doc f)"
    using shape_doc(1) [OF z assms(3)] array_doc [OF assms(3)] array_doc [OF assms(4)] p ids assms(3)
    by (auto simp: msgpack_document_def f OpeningFrame_doc_def wire_array_def)
  note c = codec_okD [OF assms(1) v]
  have k: "msgpack_size (OpeningFrame_doc f) \<le> 16 * nd_size d + 1024"
    using shape_doc(2) [OF z assms(3)] array_doc(1) [OF assms(3)] array_doc(1) [OF assms(4)] sz assms(3,5,6)
    by (simp add: f OpeningFrame_doc_def wire_array_def utf8_len_def o_def)
  show "length (OpeningFrame_pack packb f) \<le> 16 * nd_size d + 1024"
    using c(2) k by (simp add: OpeningFrame_pack_def)
  then show "OpeningFrame_unpack unpackb (OpeningFrame_pack packb f) n = Inr f"
    using c assms(2-4) by (intro opening_frame_decode) (auto simp: wire_array_def OpeningFrame_pack_def)
qed

lemma value_frame_wire:
  assumes "codec_ok packb unpackb" and "mk_ValueOpeningFrame s oid p v = Inr f" and "wire_array v n"
    and "utf8_len s \<le> 128" and "utf8_len oid \<le> 128"
  shows "ValueOpeningFrame_unpack unpackb (ValueOpeningFrame_pack packb f) n = Inr f"
    and "length (ValueOpeningFrame_pack packb f) \<le> 8 * nd_size v + 1024"
proof -
  have f: "f = \<lparr>vf_session_id = s, vf_operation_id = oid, vf_party = p, vf_value = v\<rparr>"
    and p: "p \<in> {0, 1}" and z: "nd_size v \<noteq> 0"
    using assms(2) by (auto simp: mk_ValueOpeningFrame_def res_simps nd_size_def)
  note ids = length_utf8 [OF assms(4)] length_utf8 [OF assms(5)]
  have v: "msgpack_document (ValueOpeningFrame_doc f)"
    using shape_doc(1) [OF z assms(3)] array_doc [OF assms(3)] p ids assms(3)
    by (auto simp: msgpack_document_def f ValueOpeningFrame_doc_def wire_array_def)
  note c = codec_okD [OF assms(1) v]
  have k: "msgpack_size (ValueOpeningFrame_doc f) \<le> 8 * nd_size v + 1024"
    using shape_doc(2) [OF z assms(3)] array_doc(1) [OF assms(3)] assms(3-5)
    by (simp add: f ValueOpeningFrame_doc_def wire_array_def utf8_len_def o_def)
  show "length (ValueOpeningFrame_pack packb f) \<le> 8 * nd_size v + 1024"
    using c(2) k by (simp add: ValueOpeningFrame_pack_def)
  then show "ValueOpeningFrame_unpack unpackb (ValueOpeningFrame_pack packb f) n = Inr f"
    using c assms(2,3) by (intro value_frame_decode) (auto simp: wire_array_def ValueOpeningFrame_pack_def)
qed

lemma peer_frame_wire:
  assumes "codec_ok packb unpackb" and "PeerFrame_check f = Inr f" and "length (pf_payload f) \<le> n" and "n \<le> 2 ^ 31"
  shows "PeerFrame_unpack unpackb (PeerFrame_pack packb f) n = Inr f"
    and "length (PeerFrame_pack packb f) \<le> length (pf_payload f) + 1024"
proof -
  have b: "utf8_len (pf_session_id f) \<le> 128" "utf8_len (pf_kind f) \<le> 64" "utf8_len (pf_operation_id f) \<le> 128"
    "length (pf_channel_id f) = 32" "pf_sender_party f \<in> {0, 1}" "0 \<le> pf_sequence f" "pf_sequence f < 2 ^ 64"
    using assms(2) by (auto simp: PeerFrame_check_def res_simps)
  have v: "msgpack_document (PeerFrame_doc f)"
    using b length_utf8 [OF b(1)] length_utf8 [OF b(2)] length_utf8 [OF b(3)] assms(3,4) by (auto simp: msgpack_document_def PeerFrame_doc_def)
  note c = codec_okD [OF assms(1) v]
  have k: "msgpack_size (PeerFrame_doc f) \<le> length (pf_payload f) + 1024"
    using b by (simp add: PeerFrame_doc_def utf8_len_def)
  show "length (PeerFrame_pack packb f) \<le> length (pf_payload f) + 1024" using c(2) k by (simp add: PeerFrame_pack_def)
  then show "PeerFrame_unpack unpackb (PeerFrame_pack packb f) n = Inr f"
    using c assms(2,3) by (intro peer_frame_decode) (auto simp: PeerFrame_pack_def)
qed

text \<open>
  Opening frames, value-opening frames and peer frames survive the wire: for every MessagePack codec
  that decodes the string-keyed documents it encoded within the documented sizes, unpacking the packed bytes of a frame
  the constructor accepts returns that frame, for all arrays up to \<open>2 ^ 24\<close> elements.
\<close>

lemma frames_roundtrip:
  assumes "codec_ok packb unpackb" and "utf8_len s \<le> 128" and "utf8_len oid \<le> 128"
  shows "(\<forall>p d e f. mk_OpeningFrame s oid p d e = Inr f \<longrightarrow> wire_array d n \<longrightarrow> wire_array e n
            \<longrightarrow> OpeningFrame_unpack unpackb (OpeningFrame_pack packb f) n = Inr f)
    \<and> (\<forall>p v f. mk_ValueOpeningFrame s oid p v = Inr f \<longrightarrow> wire_array v n
            \<longrightarrow> ValueOpeningFrame_unpack unpackb (ValueOpeningFrame_pack packb f) n = Inr f)
    \<and> (\<forall>f m. PeerFrame_check f = Inr f \<longrightarrow> length (pf_payload f) \<le> m \<longrightarrow> m \<le> 2 ^ 31
            \<longrightarrow> PeerFrame_unpack unpackb (PeerFrame_pack packb f) m = Inr f)"
  using opening_frame_wire(1) [OF assms(1) _ _ _ assms(2,3)] value_frame_wire(1) [OF assms(1) _ _ assms(2,3)]
    peer_frame_wire(1) [OF assms(1)] by blast

section \<open>Exchange between linked connections\<close>

text \<open>An established connection with nothing undelivered.\<close>

definition live :: "Connection \<Rightarrow> bool" where
  "live c \<longleftrightarrow> pc_handshake_complete c \<and> ss_status (pc_state c) = ACTIVE \<and> finite (ss_operations (pc_state c))
     \<and> ss_next_outbound (pc_state c) \<le> card (ss_operations (pc_state c)) \<and> pc_incoming c = [] \<and> pc_inbox c = Map.empty
     \<and> ss_party (pc_state c) \<in> {0, 1}"

text \<open>The two ends of one authenticated channel, with their sequence numbers in step.\<close>

definition linked :: "Connection \<Rightarrow> Connection \<Rightarrow> bool" where
  "linked c d \<longleftrightarrow> live c \<and> live d \<and> ss_party (pc_state d) = 1 - ss_party (pc_state c)
     \<and> ss_commitment (pc_state d) = ss_commitment (pc_state c)
     \<and> ss_channel_id (pc_state d) = ss_channel_id (pc_state c)
     \<and> (\<exists>ch. ss_channel_id (pc_state c) = Some ch \<and> length ch = 32)
     \<and> ss_next_outbound (pc_state c) = ss_next_inbound (pc_state d)
     \<and> ss_next_outbound (pc_state d) = ss_next_inbound (pc_state c)
     \<and> pc_max_payload_bytes d = pc_max_payload_bytes c"

lemma linked_sym: "linked c d \<Longrightarrow> linked d c"
  by (auto simp: linked_def live_def)

definition can_exchange :: "Connection \<Rightarrow> string \<Rightarrow> string \<Rightarrow> bytes \<Rightarrow> bool" where
  "can_exchange c kind oid payload \<longleftrightarrow>
     kind \<noteq> [] \<and> utf8_len kind \<le> 64 \<and> wire_id oid \<and> wire_id (sc_session_id (ss_commitment (pc_state c)))
     \<and> oid \<notin> ss_operations (pc_state c)
     \<and> int (card (ss_operations (pc_state c))) < sc_maximum_operations (ss_commitment (pc_state c))
     \<and> sc_maximum_operations (ss_commitment (pc_state c)) \<le> 2 ^ 64
     \<and> length payload \<le> pc_max_payload_bytes c \<and> pc_max_payload_bytes c \<le> 2 ^ 31"

definition sent_frame :: "Connection \<Rightarrow> string \<Rightarrow> string \<Rightarrow> bytes \<Rightarrow> PeerFrame" where
  "sent_frame c kind oid payload =
     \<lparr>pf_session_id = sc_session_id (ss_commitment (pc_state c)), pf_channel_id = the (ss_channel_id (pc_state c)),
      pf_sender_party = int (ss_party (pc_state c)), pf_sequence = int (ss_next_outbound (pc_state c)),
      pf_kind = kind, pf_operation_id = oid, pf_payload = payload\<rparr>"

text \<open>The effect of a completed exchange on one end.\<close>

definition advanced :: "string \<Rightarrow> Connection \<Rightarrow> Connection \<Rightarrow> bool" where
  "advanced oid c d \<longleftrightarrow> pc_handshake_complete d \<and> ss_status (pc_state d) = ACTIVE
     \<and> ss_operations (pc_state d) = insert oid (ss_operations (pc_state c))
     \<and> ss_next_outbound (pc_state d) = Suc (ss_next_outbound (pc_state c))
     \<and> ss_next_inbound (pc_state d) = Suc (ss_next_inbound (pc_state c))
     \<and> ss_commitment (pc_state d) = ss_commitment (pc_state c) \<and> ss_party (pc_state d) = ss_party (pc_state c)
     \<and> ss_channel_id (pc_state d) = ss_channel_id (pc_state c) \<and> pc_incoming d = [] \<and> pc_inbox d = pc_inbox c
     \<and> pc_max_payload_bytes d = pc_max_payload_bytes c"

lemma handshake_done [simp]: "pc_handshake_complete c \<Longrightarrow> handshake packb unpackb sha io c = (c, Inr ())"
  by (simp add: handshake_def)

lemma sent_frame_ok:
  assumes "linked c d" and "can_exchange c kind oid payload"
  shows "PeerFrame_check (sent_frame c kind oid payload) = Inr (sent_frame c kind oid payload)"
proof -
  have "int (ss_next_outbound (pc_state c)) < 2 ^ 64" using assms by (auto simp: linked_def live_def can_exchange_def)
  with assms show ?thesis
    by (auto simp: PeerFrame_check_def sent_frame_def linked_def live_def can_exchange_def wire_id_def)
qed

lemma peer_send_ok:
  assumes "linked c d" and "can_exchange c kind oid payload" and "pc_state c' = pc_state c"
    "pc_handshake_complete c'" "pc_max_payload_bytes c' = pc_max_payload_bytes c"
  shows "\<exists>e st. peer_send packb unpackb sha io c' kind oid payload now (Inr (), t)
       = (c'\<lparr>pc_state := e, pc_stats := st\<rparr>, Inr (PeerFrame_pack packb (sent_frame c kind oid payload)))
    \<and> e = (pc_state c)\<lparr>ss_operations := insert oid (ss_operations (pc_state c)),
         ss_next_outbound := Suc (ss_next_outbound (pc_state c)), ss_last_activity := now\<rparr>"
proof -
  obtain ch where ch: "ss_channel_id (pc_state c) = Some ch" using assms(1) by (auto simp: linked_def)
  have st: "ss_status (pc_state c) = ACTIVE" using assms(1) by (simp add: linked_def live_def)
  note k = sent_frame_ok [OF assms(1,2), unfolded sent_frame_def]
  show ?thesis
    using assms(2-5) k ch st
    by (simp add: peer_send_def outbound_def require_active_def can_exchange_def lift_state_def Let_def on_failure_def sent_frame_def)
      blast
qed

lemma receive_ok:
  assumes "codec_ok packb unpackb" and "linked c d" and "can_exchange d kind oid payload"
    and "pc_inbox e = Map.empty" "pc_handshake_complete e" "pc_max_payload_bytes e = pc_max_payload_bytes c"
    and "pc_incoming e = [(Inr (PeerFrame_pack packb (sent_frame d kind oid payload)), t)]"
    and "pc_state e = (pc_state c)\<lparr>ss_operations := ops, ss_next_outbound := n, ss_last_activity := a\<rparr>"
  shows "\<exists>st. peer_receive packb unpackb sha io e kind oid now =
     (e\<lparr>pc_incoming := [], pc_state := (pc_state e)\<lparr>ss_next_inbound := Suc (ss_next_inbound (pc_state c)), ss_last_activity := t\<rparr>,
        pc_stats := st\<rparr>, Inr payload)"
proof -
  let ?f = "sent_frame d kind oid payload"
  obtain ch where ch: "ss_channel_id (pc_state c) = Some ch" using assms(2) by (auto simp: linked_def)
  have u: "PeerFrame_unpack unpackb (PeerFrame_pack packb ?f) (pc_max_payload_bytes c) = Inr ?f"
    using assms(2,3) sent_frame_ok [OF linked_sym [OF assms(2)] assms(3)]
    by (intro peer_frame_wire(1) [OF assms(1)]) (auto simp: sent_frame_def can_exchange_def linked_def)
  have a: "accept (pc_state e) ?f None t = ((pc_state e)\<lparr>ss_next_inbound := Suc (ss_next_inbound (pc_state c)), ss_last_activity := t\<rparr>, Inr ())"
    using assms(2,8) ch by (auto simp: accept_def require_active_def sent_frame_def linked_def live_def)
  have k: "(pf_kind ?f, pf_operation_id ?f) = (kind, oid)" "pf_payload ?f = payload" by (simp_all add: sent_frame_def)
  show ?thesis
    using assms(4-7) u a k
    by (simp add: peer_receive_def on_failure_def lift_state_def Let_def) blast
qed

lemma exchange_one_ok:
  assumes "codec_ok packb unpackb" and "linked c d" and "can_exchange c kind oid p" and "can_exchange d kind oid q"
  shows "\<exists>e. exchange_one packb unpackb sha now (deliver (sent_by packb unpackb sha now d (kind, oid, q)) now c) (kind, oid, p)
       = (e, Inr q) \<and> advanced oid c e"
proof -
  let ?w = "PeerFrame_pack packb (sent_frame d kind oid q)"
  have l: "pc_handshake_complete c" "pc_handshake_complete d" "pc_incoming c = []" "pc_inbox c = Map.empty"
    "ss_status (pc_state c) = ACTIVE"
    using assms(2) by (auto simp: linked_def live_def)
  have s: "sent_by packb unpackb sha now d (kind, oid, q) = Inr ?w"
    using peer_send_ok [OF linked_sym [OF assms(2)] assms(4) refl l(2) refl, of packb unpackb sha no_io now now]
    by (auto simp: sent_by_def)
  let ?c = "c\<lparr>pc_incoming := [(Inr ?w, now)]\<rparr>"
  have d: "deliver (Inr ?w) now c = ?c" using l by (simp add: deliver_def)
  have hc: "pc_handshake_complete ?c" using l by simp
  obtain st where ps: "peer_send packb unpackb sha no_io ?c kind oid p now (Inr (), now)
       = (?c\<lparr>pc_state := (pc_state c)\<lparr>ss_operations := insert oid (ss_operations (pc_state c)),
         ss_next_outbound := Suc (ss_next_outbound (pc_state c)), ss_last_activity := now\<rparr>, pc_stats := st\<rparr>,
         Inr (PeerFrame_pack packb (sent_frame c kind oid p)))"
    using peer_send_ok [OF assms(2,3), of ?c packb unpackb sha no_io now now] hc by auto
  let ?e = "?c\<lparr>pc_state := (pc_state c)\<lparr>ss_operations := insert oid (ss_operations (pc_state c)),
         ss_next_outbound := Suc (ss_next_outbound (pc_state c)), ss_last_activity := now\<rparr>, pc_stats := st\<rparr>"
  have "\<exists>st'. peer_receive packb unpackb sha no_io ?e kind oid now =
     (?e\<lparr>pc_incoming := [], pc_state := (pc_state ?e)\<lparr>ss_next_inbound := Suc (ss_next_inbound (pc_state c)), ss_last_activity := now\<rparr>,
        pc_stats := st'\<rparr>, Inr q)"
    by (rule receive_ok [OF assms(1,2,4)]) (use l in simp_all)
  then obtain st' where r: "peer_receive packb unpackb sha no_io ?e kind oid now =
     (?e\<lparr>pc_incoming := [], pc_state := (pc_state ?e)\<lparr>ss_next_inbound := Suc (ss_next_inbound (pc_state c)), ss_last_activity := now\<rparr>,
        pc_stats := st'\<rparr>, Inr q)" by blast
  show ?thesis unfolding s d exchange_one_def peer_exchange_def
    using l by (simp add: ps r advanced_def)
qed

lemma exchange_pair:
  assumes "codec_ok packb unpackb" and "linked c d" and "can_exchange c kind oid p" and "can_exchange d kind oid q"
  shows "\<exists>c' d'. exchange_two packb unpackb sha now c (kind, oid, p) d (kind, oid, q) = ((c', Inr q), (d', Inr p))
    \<and> linked c' d' \<and> advanced oid c c' \<and> advanced oid d d'"
proof -
  obtain c' where c: "exchange_one packb unpackb sha now (deliver (sent_by packb unpackb sha now d (kind, oid, q)) now c) (kind, oid, p)
       = (c', Inr q)" "advanced oid c c'" using exchange_one_ok [OF assms] by blast
  obtain d' where d: "exchange_one packb unpackb sha now (deliver (sent_by packb unpackb sha now c (kind, oid, p)) now d) (kind, oid, q)
       = (d', Inr p)" "advanced oid d d'" using exchange_one_ok [OF assms(1) linked_sym [OF assms(2)] assms(4,3)] by blast
  have "linked c' d'" using c(2) d(2) assms by (auto simp: linked_def live_def advanced_def can_exchange_def)
  with c d show ?thesis by (simp add: exchange_two_def)
qed

text \<open>
  C14: An exchange delivers. On the two ends of an authenticated channel that are in step, exchanging
  under the same kind and a fresh operation identifier returns to each party exactly the payload of
  the other, and leaves both ends in step for the next exchange.
\<close>

theorem exchange_delivers:
  assumes "codec_ok packb unpackb" and "linked c d" and "can_exchange c kind oid p" and "can_exchange d kind oid q"
  shows "\<exists>c' d'. exchange_two packb unpackb sha now c (kind, oid, p) d (kind, oid, q) = ((c', Inr q), (d', Inr p))
    \<and> linked c' d' \<and> advanced oid c c' \<and> advanced oid d d'"
  using exchange_pair [OF assms] .

definition demo_conn :: "nat \<Rightarrow> Connection" where
  "demo_conn p = \<lparr>pc_state = demo_open p, pc_max_payload_bytes = 4096,
     pc_peer_fingerprint = hex_of (replicate 32 (if p = 0 then 5 else 4)),
     pc_stats = \<lparr>sent_frames = 0, received_frames = 0, ps_uploaded_bytes = 0, ps_downloaded_bytes = 0\<rparr>,
     pc_handshake_complete = True, pc_inbox = Map.empty, pc_incoming = [], pc_socket_open = True\<rparr>"

lemma demo_linked: "linked (demo_conn 0) (demo_conn 1)"
  by (simp add: linked_def live_def demo_conn_def demo_open_def demo_state_def)

theorem exchange_delivers_witness:
  "\<exists>c' d'. exchange_two msg_enc msg_unpackb (\<lambda>_. 0) 3 (demo_conn 0) (''k'', ''op'', [1, 2]) (demo_conn 1) (''k'', ''op'', [9])
     = ((c', Inr [9]), (d', Inr [1, 2])) \<and> linked c' d'"
proof -
  have "can_exchange (demo_conn p) ''k'' ''op'' [1, 2]" "can_exchange (demo_conn p) ''k'' ''op'' [9]" for p
    by (simp_all add: can_exchange_def wire_id_def demo_conn_def demo_open_def demo_state_def demo_commitment_def utf8_len_def)
  from exchange_delivers [OF msg_codec_ok demo_linked this(1) this(2), of "\<lambda>_. 0" 3] show ?thesis by blast
qed

section \<open>Handshake between two parties\<close>

definition canonical_commitment :: "SharedSessionCommitment \<Rightarrow> bool" where
  "canonical_commitment c \<longleftrightarrow> SharedSessionCommitment_check c = Inr c
     \<and> is_hexdigest (sc_model_fingerprint c) \<and> is_hexdigest (sc_graph_fingerprint c) \<and> is_hexdigest (sc_scale_fingerprint c)
     \<and> is_hexdigest (fst (sc_party_fingerprints c)) \<and> is_hexdigest (snd (sc_party_fingerprints c))
     \<and> utf8_len (sc_session_id c) \<le> 128 \<and> utf8_len (sc_model_id c) \<le> 128 \<and> sc_maximum_operations c < 2 ^ 64"

lemma commitment_wire:
  assumes "codec_ok packb unpackb" and "canonical_commitment c"
  shows "\<exists>cb. commitment_pack packb c = Inr cb \<and> commitment_unpack unpackb cb = Inr c \<and> length cb \<le> 1024"
proof -
  obtain f g s p q where h: "sc_model_fingerprint c = hex_of f" "sc_graph_fingerprint c = hex_of g"
    "sc_scale_fingerprint c = hex_of s" "fst (sc_party_fingerprints c) = hex_of p" "snd (sc_party_fingerprints c) = hex_of q"
    and l: "length f = 32" "length g = 32" "length s = 32" "length p = 32" "length q = 32"
    using assms(2) unfolding canonical_commitment_def is_hexdigest_def by blast
  have cc: "SharedSessionCommitment_check c = Inr c" "utf8_len (sc_session_id c) \<le> 128" "utf8_len (sc_model_id c) \<le> 128"
    "sc_maximum_operations c < 2 ^ 64" using assms(2) by (auto simp: canonical_commitment_def)
  have pos: "0 < sc_maximum_operations c" using cc(1) by (auto simp: SharedSessionCommitment_check_def res_simps)
  let ?doc = "MMap [(MStr ''v'', MInt 1), (MStr ''s'', MStr (sc_session_id c)), (MStr ''m'', MStr (sc_model_id c)),
         (MStr ''f'', MBin f), (MStr ''g'', MBin g), (MStr ''c'', MBin s),
         (MStr ''p'', MArr [MBin p, MBin q]), (MStr ''n'', MInt (sc_maximum_operations c))]"
  have doc: "commitment_doc c = Inr ?doc" by (simp add: commitment_doc_def h)
  have v: "msgpack_document ?doc" using l cc pos length_utf8 [OF cc(2)] length_utf8 [OF cc(3)] by (auto simp: msgpack_document_def)
  note k = codec_okD [OF assms(1) v]
  have sz: "msgpack_size ?doc \<le> 1024" using l cc by (simp add: utf8_len_def)
  have "\<exists>payload. commitment_pack packb c = Inr payload \<and> commitment_unpack unpackb payload = Inr c"
    by (rule commitment_decode) (use cc assms(2) k sz doc in \<open>auto simp: canonical_commitment_def\<close>)
  with k(2) sz doc show ?thesis by (simp add: commitment_pack_def)
qed

text \<open>A connection over a session that has only been created.\<close>

definition unestablished :: "SharedSessionCommitment \<Rightarrow> nat \<Rightarrow> Connection \<Rightarrow> bool" where
  "unestablished cm p c \<longleftrightarrow> \<not> pc_handshake_complete c \<and> pc_inbox c = Map.empty \<and> pc_incoming c = []
     \<and> pc_peer_fingerprint c = (if p = 0 then snd (sc_party_fingerprints cm) else fst (sc_party_fingerprints cm))
     \<and> (\<exists>now. SharedSessionState_init cm p now = Inr (pc_state c))"

lemma unestablishedD:
  assumes "unestablished cm p c"
  shows "p \<in> {0, 1}" "ss_party (pc_state c) = p" "ss_commitment (pc_state c) = cm" "ss_status (pc_state c) = ACTIVE"
    "ss_channel_id (pc_state c) = None" "ss_operations (pc_state c) = {}" "ss_next_outbound (pc_state c) = 0"
    "ss_next_inbound (pc_state c) = 0" "\<not> pc_handshake_complete c"
proof -
  obtain now where i: "SharedSessionState_init cm p now = Inr (pc_state c)" and h: "\<not> pc_handshake_complete c"
    using assms by (auto simp: unestablished_def)
  then have "p \<in> {0, 1}" and s: "pc_state c = \<lparr>ss_commitment = cm, ss_party = p, ss_status = ACTIVE, ss_abort_reason = None,
             ss_last_activity = now, ss_next_outbound = 0, ss_next_inbound = 0, ss_operations = {}, ss_channel_id = None\<rparr>"
    by (simp_all add: SharedSessionState_init_def raise_if_def split: if_splits)
  then show "p \<in> {0, 1}" "ss_party (pc_state c) = p" "ss_commitment (pc_state c) = cm" "ss_status (pc_state c) = ACTIVE"
    "ss_channel_id (pc_state c) = None" "ss_operations (pc_state c) = {}" "ss_next_outbound (pc_state c) = 0"
    "ss_next_inbound (pc_state c) = 0" "\<not> pc_handshake_complete c" using h by simp_all
qed

lemma handshake_payload_wire:
  assumes "codec_ok packb unpackb" and "unestablished cm p c" and "canonical_commitment cm" and "length nonce = 32"
    and cb: "commitment_pack packb cm = Inr cb" "length cb \<le> 1024"
  shows "\<exists>w. handshake_payload packb c nonce = Inr w \<and> w \<noteq> [] \<and> length w \<le> 8192
    \<and> (\<exists>item. unpackb w = Some item \<and> (p' = 1 - p \<longrightarrow> handshake_fields p' item = Inr (cb, nonce)))"
proof -
  let ?doc = "MMap [(MStr ''v'', MInt 1), (MStr ''c'', MBin cb), (MStr ''p'', MInt (int p)), (MStr ''n'', MBin nonce)]"
  have p: "p \<in> {0, 1}" using unestablishedD [OF assms(2)] by simp
  have v: "msgpack_document ?doc" using p assms(4,6) by (auto simp: msgpack_document_def)
  note k = codec_okD [OF assms(1) v]
  have "msgpack_size ?doc \<le> 8192" using assms(4,6) by (simp add: utf8_len_def)
  moreover have "p' = 1 - p \<longrightarrow> handshake_fields p' ?doc = Inr (cb, nonce)"
    using p by (auto simp: handshake_fields_def fields_are_def field_def)
  ultimately show ?thesis
    using k cb unestablishedD [OF assms(2)] by (auto simp: handshake_payload_def)
qed

lemma handshake_one:
  assumes "codec_ok packb unpackb" and "unestablished cm p c" and "unestablished cm (1 - p) d" and "canonical_commitment cm"
    and "length nc = 32" "length nd = 32" "nc \<noteq> nd" and "handshake_payload packb d nd = Inr w"
    and dg: "commitment_digest packb sha cm = Inr dg"
  shows "handshake packb unpackb sha (nc, (Inr (), t), (Inr w, now)) c =
    (c\<lparr>pc_state := (pc_state c)\<lparr>ss_channel_id := Some (digest_bytes (sha (channel_prefix @ dg @ (if p = 0 then nc @ nd else nd @ nc)))),
        ss_last_activity := now\<rparr>, pc_handshake_complete := True\<rparr>, Inr ())"
proof -
  obtain cb where cb: "commitment_pack packb cm = Inr cb" "commitment_unpack unpackb cb = Inr cm" "length cb \<le> 1024"
    using commitment_wire [OF assms(1,4)] by blast
  note c = unestablishedD [OF assms(2)] and d = unestablishedD [OF assms(3)]
  have p: "p = 1 - (1 - p)" using c(1) by auto
  obtain item where w: "w \<noteq> []" "length w \<le> 8192" "unpackb w = Some item" "handshake_fields p item = Inr (cb, nd)"
    using handshake_payload_wire [OF assms(1,3,4,6) cb(1,3), of p] assms(8) p by auto
  obtain w' where w': "handshake_payload packb c nc = Inr w'"
    using handshake_payload_wire [OF assms(1,2,4,5) cb(1,3)] by blast
  have e: "establish packb sha (pc_state c) cm nc nd (pc_peer_fingerprint c) now =
    ((pc_state c)\<lparr>ss_channel_id := Some (digest_bytes (sha (channel_prefix @ dg @ (if p = 0 then nc @ nd else nd @ nc)))),
        ss_last_activity := now\<rparr>, Inr ())"
    using establish_succeeds [of "pc_state c" nc nd "pc_peer_fingerprint c" packb sha dg now] c assms(2,5-7) dg
    by (auto simp: unestablished_def)
  show ?thesis using w w' c e cb by (simp add: handshake_def lift_state_def on_failure_def)
qed

text \<open>
  C36: The handshake links. Two parties that hold the same canonical commitment, draw different nonces
  and see each other's committed fingerprint both complete the handshake on the other's message, and
  their connections then share one channel binding and are in step.
\<close>

theorem handshake_links:
  assumes "codec_ok packb unpackb" and "canonical_commitment cm" and "unestablished cm 0 c" and "unestablished cm 1 d"
    and "length n0 = 32" "length n1 = 32" "n0 \<noteq> n1" and "pc_max_payload_bytes d = pc_max_payload_bytes c"
  shows "\<exists>w0 w1 c' d'. handshake_payload packb c n0 = Inr w0 \<and> handshake_payload packb d n1 = Inr w1
    \<and> handshake packb unpackb sha (n0, (Inr (), t), (Inr w1, now)) c = (c', Inr ())
    \<and> handshake packb unpackb sha (n1, (Inr (), t'), (Inr w0, now')) d = (d', Inr ()) \<and> linked c' d'"
proof -
  obtain cb where cb: "commitment_pack packb cm = Inr cb" "commitment_unpack unpackb cb = Inr cm" "length cb \<le> 1024"
    using commitment_wire [OF assms(1,2)] by blast
  obtain w0 w1 where w: "handshake_payload packb c n0 = Inr w0" "handshake_payload packb d n1 = Inr w1"
    using handshake_payload_wire [OF assms(1,3,2,5) cb(1,3)] handshake_payload_wire [OF assms(1,4,2,6) cb(1,3)] by blast
  have dg: "commitment_digest packb sha cm = Inr (digest_bytes (sha cb))" using cb by (simp add: commitment_digest_def)
  have ud: "unestablished cm (1 - 0) d" and uc: "unestablished cm (1 - 1) c" using assms(3,4) by simp_all
  note h0 = handshake_one [OF assms(1,3) ud assms(2,5,6,7) w(2) dg]
    and h1 = handshake_one [OF assms(1,4) uc assms(2,6,5) assms(7) [symmetric] w(1) dg]
  show ?thesis using unestablishedD [OF assms(3)] unestablishedD [OF assms(4)] assms(3,4,8) w
    by (simp add: h0 h1 linked_def live_def) (simp add: unestablished_def)
qed

definition demo_fresh :: "nat \<Rightarrow> Connection" where
  "demo_fresh p = (demo_conn p)\<lparr>pc_state := demo_state p, pc_handshake_complete := False\<rparr>"

theorem handshake_links_witness:
  "\<exists>w0 w1 c' d'. handshake_payload msg_enc (demo_fresh 0) (replicate 32 1) = Inr w0
    \<and> handshake_payload msg_enc (demo_fresh 1) (replicate 32 2) = Inr w1
    \<and> handshake msg_enc msg_unpackb (\<lambda>_. 7) (replicate 32 1, (Inr (), 2), (Inr w1, 3)) (demo_fresh 0) = (c', Inr ())
    \<and> handshake msg_enc msg_unpackb (\<lambda>_. 7) (replicate 32 2, (Inr (), 2), (Inr w0, 3)) (demo_fresh 1) = (d', Inr ())
    \<and> linked c' d'"
proof (rule handshake_links [OF msg_codec_ok])
  have h: "is_hexdigest (hex_of (replicate 32 b))" for b unfolding is_hexdigest_def by (rule exI [of _ "replicate 32 b"]) simp
  show "canonical_commitment demo_commitment"
    unfolding canonical_commitment_def using demo_commitment_ok h by (simp add: demo_commitment_def utf8_len_def)
  show "unestablished demo_commitment 0 (demo_fresh 0)" "unestablished demo_commitment 1 (demo_fresh 1)"
    using demo_state_init [of 0] demo_state_init [of 1]
    by (auto simp: unestablished_def demo_fresh_def demo_conn_def demo_commitment_def intro!: exI [of _ 0])
qed (simp_all add: replicate_eq_replicate demo_fresh_def demo_conn_def)

end
