(* ===== verification/Compute_Party.thy ===== *)
theory Compute_Party
  imports Inventory Peer_Connection Party_Truncation Dealer_Correct
begin

text \<open>
  \<^verbatim>\<open>SharedComputeParty\<close> and \<^verbatim>\<open>NetworkSharedMLP\<close> of \<^verbatim>\<open>runtime/shared_party.py\<close>: one party's interactive
  operations over a live connection. An asynchronous method is a resumption: it ends with a state and a
  result, or it waits at an exchange with its peer and continues with what the exchange returned.
  Two such methods run in lock step, each exchange going through the two connections.
\<close>

section \<open>Resumptions\<close>

datatype ('s, 'a) proc =
    Ret 's "'a res"
  | Exch string string bytes 's "'s \<Rightarrow> bytes res \<Rightarrow> ('s, 'a) proc"

primrec thenP :: "('s, 'a) proc \<Rightarrow> ('s \<Rightarrow> 'a \<Rightarrow> ('s, 'b) proc) \<Rightarrow> ('s, 'b) proc" where
  "thenP (Ret s r) k = (case r of Inl e \<Rightarrow> Ret s (Inl e) | Inr x \<Rightarrow> k s x)"
| "thenP (Exch kind oid payload s f) k = Exch kind oid payload s (\<lambda>s' r. thenP (f s' r) k)"

text \<open>\<open>on_raise h p\<close>: an exception of \<open>p\<close> runs the handler on the state and is raised again.\<close>

primrec on_raise :: "('s \<Rightarrow> py_error \<Rightarrow> 's) \<Rightarrow> ('s, 'a) proc \<Rightarrow> ('s, 'a) proc" where
  "on_raise h (Ret s r) = (case r of Inl e \<Rightarrow> Ret (h s e) (Inl e) | Inr x \<Rightarrow> Ret s (Inr x))"
| "on_raise h (Exch kind oid payload s f) = Exch kind oid payload s (\<lambda>s' r. on_raise h (f s' r))"

definition exchangeP :: "string \<Rightarrow> string \<Rightarrow> bytes \<Rightarrow> 's \<Rightarrow> ('s, bytes) proc" where
  "exchangeP kind oid payload s = Exch kind oid payload s Ret"

type_synonym 's exchange2 = "'s \<Rightarrow> request \<Rightarrow> 's \<Rightarrow> request \<Rightarrow> ('s \<times> bytes res) \<times> ('s \<times> bytes res)"
type_synonym 's exchange1 = "'s \<Rightarrow> request \<Rightarrow> 's \<times> bytes res"

text \<open>A party whose peer is gone waits in vain; two waiting parties exchange.\<close>

primrec run1 :: "'s exchange1 \<Rightarrow> ('s, 'a) proc \<Rightarrow> 's \<times> 'a res" where
  "run1 x (Ret s r) = (s, r)"
| "run1 x (Exch kind oid payload s f) = (case x s (kind, oid, payload) of (s', r) \<Rightarrow> run1 x (f s' r))"

primrec run2 :: "'s exchange1 \<Rightarrow> 's exchange2 \<Rightarrow> ('s, 'a) proc \<Rightarrow> ('s, 'b) proc \<Rightarrow> ('s \<times> 'a res) \<times> ('s \<times> 'b res)" where
  "run2 x xx (Ret s r) q = ((s, r), run1 x q)"
| "run2 x xx (Exch kind oid payload s f) q = (case q of
      Ret s' r' \<Rightarrow> (case x s (kind, oid, payload) of (t, r) \<Rightarrow> (run1 x (f t r), (s', r')))
    | Exch kind' oid' payload' s' f' \<Rightarrow>
        (case xx s (kind, oid, payload) s' (kind', oid', payload') of ((t, r), (t', r')) \<Rightarrow> run2 x xx (f t r) (f' t' r')))"

section \<open>State of a compute party\<close>

record ('l, 'c) compute =
  cp_runtime :: "'c PartyRuntime"
  cp_ledger :: 'l
  cp_peer :: Connection
  cp_inventory :: Inventory
  cp_max_opening_elements :: nat
  cp_truncation :: string

definition methods :: "string list" where
  "methods = [''probabilistic'', ''exact'', ''fss'', ''fss_lowbits_exact_highbits'']"

definition SharedComputeParty_init ::
  "'c PartyRuntime \<Rightarrow> 'l \<Rightarrow> Connection \<Rightarrow> Inventory \<Rightarrow> int \<Rightarrow> string \<Rightarrow> ('l, 'c) compute res" where
  "SharedComputeParty_init runtime ledger peer preprocessing max_opening truncation =
     (let cm = ss_commitment (pc_state peer) in
      raise_if (max_opening \<le> 0) (ValueError ''opening element limit must be positive'')
     (raise_if (truncation \<notin> set methods) (SharedMPCError ''shared truncation method is unsupported'')
     (raise_if (rt_session_id runtime \<noteq> sc_session_id cm \<or> rt_party runtime \<noteq> ss_party (pc_state peer)
          \<or> iv_session_id preprocessing \<noteq> rt_session_id runtime \<or> iv_party preprocessing \<noteq> rt_party runtime)
        (SharedMPCError ''shared compute party bindings do not match'')
     (raise_if (truncation \<noteq> ''probabilistic'' \<and> (case iv_exact_admission preprocessing of
           None \<Rightarrow> True
         | Some a \<Rightarrow> ad_session_id a \<noteq> rt_session_id runtime \<or> ad_graph_digest a \<noteq> sc_graph_fingerprint cm))
        (SharedMPCError ''exact truncation lacks a peer-bound session admission'')
     (Inr \<lparr>cp_runtime = runtime, cp_ledger = ledger, cp_peer = peer, cp_inventory = preprocessing,
           cp_max_opening_elements = nat max_opening, cp_truncation = truncation\<rparr>)))))"

definition abort_peer :: "string \<Rightarrow> int \<Rightarrow> ('l, 'c) compute \<Rightarrow> py_error \<Rightarrow> ('l, 'c) compute" where
  "abort_peer label now s e =
     s\<lparr>cp_peer := (cp_peer s)\<lparr>pc_state := session_abort (label @ exc_name e) now (pc_state (cp_peer s))\<rparr>\<rparr>"

definition cancel_and_abort :: "string \<Rightarrow> int \<Rightarrow> ('l, 'c) compute \<Rightarrow> py_error \<Rightarrow> ('l, 'c) compute" where
  "cancel_and_abort label now s e = abort_peer label now (s\<lparr>cp_inventory := inventory_cancel (cp_inventory s)\<rparr>) e"

text \<open>Calls of the runtime, with or without the ledger, and of the inventory.\<close>

definition rt_call :: "('l, 'c) compute \<Rightarrow> 'c PartyRuntime \<times> 'a res \<Rightarrow> (('l, 'c) compute, 'a) proc" where
  "rt_call s rr = Ret (s\<lparr>cp_runtime := fst rr\<rparr>) (snd rr)"

definition rtl_call :: "('l, 'c) compute \<Rightarrow> ('c PartyRuntime \<times> 'l) \<times> 'a res \<Rightarrow> (('l, 'c) compute, 'a) proc" where
  "rtl_call s rr = Ret (s\<lparr>cp_runtime := fst (fst rr), cp_ledger := snd (fst rr)\<rparr>) (snd rr)"

definition inv_call_of :: "('l, 'c) compute \<Rightarrow> Inventory \<times> 'a res \<Rightarrow> (('l, 'c) compute, 'a) proc" where
  "inv_call_of s ir = Ret (s\<lparr>cp_inventory := fst ir\<rparr>) (snd ir)"

abbreviation cp_session :: "('l, 'c) compute \<Rightarrow> string" where
  "cp_session s \<equiv> rt_session_id (cp_runtime s)"

abbreviation cp_party :: "('l, 'c) compute \<Rightarrow> nat" where
  "cp_party s \<equiv> rt_party (cp_runtime s)"

section \<open>Multiplication\<close>

definition compute_multiply ::
  "'l burn_ops \<Rightarrow> packer \<Rightarrow> unpacker \<Rightarrow> int \<Rightarrow> ('l, 'c) compute \<Rightarrow> SharedTensor \<Rightarrow> SharedTensor \<Rightarrow> string
    \<Rightarrow> (('l, 'c) compute, SharedTensor) proc" where
  "compute_multiply ops packb unpackb now s left right oid =
     thenP (inv_call_of s (take_multiplication (cp_inventory s) (cp_session s) oid (st_shape left) (cp_party s))) (\<lambda>s triple.
     on_raise (abort_peer ''shared multiplication failed: '' now)
      (thenP (rtl_call s (begin_multiply ops packb (cp_runtime s, cp_ledger s) left right triple oid)) (\<lambda>s (state, opening).
       thenP (exchangeP ''multiply.open'' oid (OpeningFrame_pack packb opening) s) (\<lambda>s payload.
       thenP (Ret s (OpeningFrame_unpack unpackb payload (cp_max_opening_elements s))) (\<lambda>s peer_opening.
       rt_call s (finish_multiply packb (cp_runtime s) state opening peer_opening (oid @ ''.result'')))))))"

section \<open>Truncation\<close>

definition truncate_probabilistic ::
  "'l burn_ops \<Rightarrow> packer \<Rightarrow> unpacker \<Rightarrow> int \<Rightarrow> ('l, 'c) compute \<Rightarrow> SharedTensor \<Rightarrow> string \<Rightarrow> nat \<Rightarrow> int
    \<Rightarrow> (('l, 'c) compute, SharedTensor) proc" where
  "truncate_probabilistic ops packb unpackb now s value oid bits signed_bound =
     thenP (inv_call_of s (take_truncation (cp_inventory s) (cp_session s) oid (st_shape value) (cp_party s) bits)) (\<lambda>s msk.
     on_raise (abort_peer ''shared truncation failed: '' now)
      (thenP (rtl_call s (begin_truncate ops (cp_runtime s, cp_ledger s) value msk oid signed_bound)) (\<lambda>s (state, opening).
       thenP (exchangeP ''truncate.open'' oid (ValueOpeningFrame_pack packb opening) s) (\<lambda>s payload.
       thenP (Ret s (ValueOpeningFrame_unpack unpackb payload (cp_max_opening_elements s))) (\<lambda>s peer_opening.
       rt_call s (finish_truncate (cp_runtime s) state opening peer_opening (oid @ ''.result'')))))))"

text \<open>The carry chain over the public bits of the opened value, one multiplication per bit.\<close>

fun carry_loop ::
  "'l burn_ops \<Rightarrow> packer \<Rightarrow> unpacker \<Rightarrow> int \<Rightarrow> string \<Rightarrow> ExactTruncationState \<Rightarrow> u64array \<Rightarrow> nat list
    \<Rightarrow> ('l, 'c) compute \<Rightarrow> SharedTensor \<Rightarrow> (('l, 'c) compute, SharedTensor) proc" where
  "carry_loop ops packb unpackb now oid state opened [] s carry = Ret s (Inr carry)"
| "carry_loop ops packb unpackb now oid state opened (k # ks) s carry =
     thenP (Ret s (mk_SharedTensor (cp_session s) (oid @ ''.mask_bit.'' @ str_nat k) (cp_party s)
                     (mask_bit_shares (es_mask state) k) 1)) (\<lambda>s mask_bit.
     thenP (compute_multiply ops packb unpackb now s carry mask_bit (carry_id oid k)) (\<lambda>s product.
     thenP (Ret s (exact_carry_bit (cp_runtime s) state opened carry product k)) (\<lambda>s carry.
     carry_loop ops packb unpackb now oid state opened ks s carry)))"

definition truncate_exact ::
  "'l burn_ops \<Rightarrow> packer \<Rightarrow> unpacker \<Rightarrow> int \<Rightarrow> ('l, 'c) compute \<Rightarrow> SharedTensor \<Rightarrow> string \<Rightarrow> nat \<Rightarrow> int
    \<Rightarrow> (('l, 'c) compute, SharedTensor) proc" where
  "truncate_exact ops packb unpackb now s value oid bits signed_bound =
     on_raise (cancel_and_abort ''shared exact truncation failed: '' now)
      (thenP (Ret s (raise_if (cp_truncation s \<notin> {''exact'', ''fss_lowbits_exact_highbits''})
                (SharedMPCError ''exact Beaver truncation is not selected for this party'')
                (preflight_exact_truncation (cp_inventory s) (cp_session s) oid (st_shape value) (cp_party s) bits))) (\<lambda>s _.
       thenP (inv_call_of s (take_exact_truncation (cp_inventory s) (cp_session s) oid (st_shape value) (cp_party s) bits)) (\<lambda>s msk.
       thenP (rtl_call s (begin_exact_truncate ops packb (cp_runtime s, cp_ledger s) value (ExactMask msk) oid signed_bound))
        (\<lambda>s (state, opening).
       thenP (exchangeP ''truncate.exact.open'' oid (ValueOpeningFrame_pack packb opening) s) (\<lambda>s payload.
       thenP (Ret s (ValueOpeningFrame_unpack unpackb payload (cp_max_opening_elements s))) (\<lambda>s peer_opening.
       thenP (rt_call s (exact_carry_start packb (cp_runtime s) state opening peer_opening)) (\<lambda>s (opened, carry).
       thenP (carry_loop ops packb unpackb now oid state opened [1..<bits] s carry) (\<lambda>s carry.
       Ret s (finish_exact_truncate (cp_runtime s) state opened carry (oid @ ''.result''))))))))))"

text \<open>
  The shares of the comparison with the hidden mask: one point-key evaluation per element, masked by
  the party's share of a random bit. The keys are consumed by the evaluation and the mask object is
  dropped afterwards.
\<close>

definition comparison_share :: "hmac_fun \<Rightarrow> nat \<Rightarrow> PointKeyShare \<times> 64 word \<times> bool \<Rightarrow> bool res" where
  "comparison_share hmac low kws = (case kws of (key, w, secret) \<Rightarrow>
     bindE (snd (less_than_share hmac key (uint (w AND (2 ^ low - 1))))) (\<lambda>b. Inr (b \<noteq> secret)))"

definition comparison_shares :: "hmac_fun \<Rightarrow> FssTruncationMaskShare \<Rightarrow> u64array \<Rightarrow> bool list res" where
  "comparison_shares hmac msk opened =
     raise_if (length (fm_comparison_keys msk) \<noteq> nd_size opened \<or> nd_size (fm_xor_mask_share msk) \<noteq> nd_size opened)
       (ValueError ''zip() arguments have different lengths'')
       (mapE (comparison_share hmac (fm_comparison_bits msk))
          (zip (fm_comparison_keys msk) (zip (nd_data opened) (nd_data (fm_xor_mask_share msk)))))"

definition count_bits :: "nat \<Rightarrow> ('l, 'c) compute \<Rightarrow> ('l, 'c) compute" where
  "count_bits n s = s\<lparr>cp_runtime := (cp_runtime s)\<lparr>rt_stats := (rt_stats (cp_runtime s))
     \<lparr>uploaded_bytes := uploaded_bytes (rt_stats (cp_runtime s)) + n,
      downloaded_bytes := downloaded_bytes (rt_stats (cp_runtime s)) + n\<rparr>\<rparr>\<rparr>"

definition truncate_fss ::
  "hmac_fun \<Rightarrow> 'l burn_ops \<Rightarrow> packer \<Rightarrow> unpacker \<Rightarrow> int \<Rightarrow> ('l, 'c) compute \<Rightarrow> SharedTensor \<Rightarrow> string \<Rightarrow> nat \<Rightarrow> int
    \<Rightarrow> (('l, 'c) compute, SharedTensor) proc" where
  "truncate_fss hmac ops packb unpackb now s value oid bits signed_bound =
     on_raise (cancel_and_abort ''shared FSS truncation failed: '' now)
      (thenP (Ret s (raise_if (cp_truncation s \<notin> {''fss'', ''fss_lowbits_exact_highbits''} \<or> (cp_truncation s = ''fss'' \<and> bits > 10))
                (SharedMPCError ''FSS truncation is not selected for this shift width'')
                (preflight_fss_truncation (cp_inventory s) (cp_session s) oid (st_shape value) (cp_party s) bits))) (\<lambda>s _.
       thenP (inv_call_of s (take_fss_truncation (cp_inventory s) (cp_session s) oid (st_shape value) (cp_party s) bits)) (\<lambda>s msk.
       thenP (rtl_call s (begin_exact_truncate ops packb (cp_runtime s, cp_ledger s) value (FssMask msk) oid signed_bound))
        (\<lambda>s (state, opening).
       thenP (exchangeP ''truncate.fss.open'' oid (ValueOpeningFrame_pack packb opening) s) (\<lambda>s payload.
       thenP (Ret s (ValueOpeningFrame_unpack unpackb payload (cp_max_opening_elements s))) (\<lambda>s peer_opening.
       thenP (rt_call s (open_exact packb (cp_runtime s) state opening peer_opening)) (\<lambda>s opened.
       thenP (Ret s (comparison_shares hmac msk opened)) (\<lambda>s comparison.
       thenP (Ret s (pack_bit_shares comparison)) (\<lambda>s packed.
       thenP (exchangeP ''truncate.fss.bit'' (oid @ ''.bit'') packed s) (\<lambda>s payload.
       thenP (Ret s (unpack_bit_shares payload (int (nd_size opened)))) (\<lambda>s peer_bits.
       thenP (Ret (count_bits (length packed) s) (Inr ())) (\<lambda>s _.
       thenP (Ret s (fss_carry_share (cp_runtime s) state opened
                \<lparr>nd_shape = nd_shape opened, nd_data = map2 (\<lambda>a b. of_bool (a \<noteq> b)) comparison peer_bits\<rparr>)) (\<lambda>s carry.
       thenP (carry_loop ops packb unpackb now oid state opened [fm_comparison_bits msk..<bits] s carry) (\<lambda>s carry.
       Ret s (finish_exact_truncate (cp_runtime s) state opened carry (oid @ ''.result''))))))))))))))))"

definition compute_truncate ::
  "hmac_fun \<Rightarrow> 'l burn_ops \<Rightarrow> packer \<Rightarrow> unpacker \<Rightarrow> int \<Rightarrow> ('l, 'c) compute \<Rightarrow> SharedTensor \<Rightarrow> string \<Rightarrow> nat \<Rightarrow> int
    \<Rightarrow> (('l, 'c) compute, SharedTensor) proc" where
  "compute_truncate hmac ops packb unpackb now s value oid bits signed_bound =
     (if cp_truncation s = ''exact'' then truncate_exact ops packb unpackb now s value oid bits signed_bound
      else if cp_truncation s \<in> {''fss'', ''fss_lowbits_exact_highbits''}
      then truncate_fss hmac ops packb unpackb now s value oid bits signed_bound
      else truncate_probabilistic ops packb unpackb now s value oid bits signed_bound)"

end
