(* ===== verification/Lock_Step.thy ===== *)
theory Lock_Step
  imports Compute_Party
begin

text \<open>
  Two compute parties running one protocol in lock step. \<open>lock\<close> is the relational specification of two
  resumptions that exchange the same frames and both return; its composition rules mirror the sequencing
  of the code. The invariant \<open>paired\<close> ties the connections, the runtimes and the inventories of the two
  parties together. On it rest the network multiplication and the carry chain.
\<close>

section \<open>Lock step\<close>

text \<open>
  \<open>lock xx p q P\<close>: the two resumptions perform the same number of exchanges, both return a value, and \<open>P\<close>
  holds of their final states and values.
\<close>

primrec lock :: "'s exchange2 \<Rightarrow> ('s, 'a) proc \<Rightarrow> ('s, 'b) proc \<Rightarrow> ('s \<Rightarrow> 'a \<Rightarrow> 's \<Rightarrow> 'b \<Rightarrow> bool) \<Rightarrow> bool" where
  "lock xx (Ret s r) q P = (case q of
      Ret s' r' \<Rightarrow> (\<exists>u u'. r = Inr u \<and> r' = Inr u' \<and> P s u s' u')
    | Exch kind' oid' payload' s' f' \<Rightarrow> False)"
| "lock xx (Exch kind oid payload s f) q P = (case q of
      Ret s' r' \<Rightarrow> False
    | Exch kind' oid' payload' s' f' \<Rightarrow>
        (case xx s (kind, oid, payload) s' (kind', oid', payload') of ((t, r), (t', r')) \<Rightarrow> lock xx (f t r) (f' t' r') P))"

lemma proc_induct [case_names Ret Exch]:
  assumes "\<And>s r. P (Ret s r)" and "\<And>kind oid payload s f. (\<And>t r. P (f t r)) \<Longrightarrow> P (Exch kind oid payload s f)"
  shows "P p"
proof (induction p)
  case (Exch kind oid payload s f)
  show ?case by (rule assms(2)) (rule Exch.IH [OF rangeI rangeI])
qed (rule assms(1))

lemma lock_run2:
  "lock xx p q P \<Longrightarrow> \<exists>s u s' u'. run2 x xx p q = ((s, Inr u), (s', Inr u')) \<and> P s u s' u'"
proof (induction p arbitrary: q rule: proc_induct)
  case (Ret s r)
  then show ?case by (cases q) auto
next
  case (Exch kind oid payload s f)
  then show ?case by (cases q) (auto split: prod.splits)
qed

lemma lock_then:
  assumes "lock xx p q P" and "\<And>s u s' u'. P s u s' u' \<Longrightarrow> lock xx (k s u) (k' s' u') Q"
  shows "lock xx (thenP p k) (thenP q k') Q"
  using assms(1)
proof (induction p arbitrary: q rule: proc_induct)
  case (Ret s r)
  then show ?case using assms(2) by (cases q) auto
next
  case (Exch kind oid payload s f)
  then show ?case by (cases q) (auto split: prod.splits)
qed

lemma lock_raise: "lock xx p q P \<Longrightarrow> lock xx (on_raise h p) (on_raise h' q) P"
proof (induction p arbitrary: q rule: proc_induct)
  case (Ret s r)
  then show ?case by (cases q) auto
next
  case (Exch kind oid payload s f)
  then show ?case by (cases q) (auto split: prod.splits)
qed

lemma lock_mono: "lock xx p q P \<Longrightarrow> (\<And>s u s' u'. P s u s' u' \<Longrightarrow> Q s u s' u') \<Longrightarrow> lock xx p q Q"
proof (induction p arbitrary: q rule: proc_induct)
  case (Ret s r)
  then show ?case by (cases q) auto
next
  case (Exch kind oid payload s f)
  then show ?case by (cases q) (auto split: prod.splits)
qed

lemma lock_exchange:
  assumes "xx s (kind, oid, p) s' (kind, oid, p') = ((t, Inr p'), (t', Inr p))" and "lock xx (k t p') (k' t' p) Q"
  shows "lock xx (thenP (exchangeP kind oid p s) k) (thenP (exchangeP kind oid p' s') k') Q"
  using assms by (simp add: exchangeP_def)

section \<open>Two compute parties\<close>

definition pair_exchange :: "packer \<Rightarrow> unpacker \<Rightarrow> (bytes \<Rightarrow> digest) \<Rightarrow> int \<Rightarrow> (('l, 'c) compute) exchange2" where
  "pair_exchange packb unpackb sha now s q s' q' =
     (case exchange_two packb unpackb sha now (cp_peer s) q (cp_peer s') q' of
        ((c, r), (c', r')) \<Rightarrow> ((s\<lparr>cp_peer := c\<rparr>, r), (s'\<lparr>cp_peer := c'\<rparr>, r')))"

definition lone_exchange :: "packer \<Rightarrow> unpacker \<Rightarrow> (bytes \<Rightarrow> digest) \<Rightarrow> int \<Rightarrow> (('l, 'c) compute) exchange1" where
  "lone_exchange packb unpackb sha now s q =
     (case exchange_one packb unpackb sha now (cp_peer s) q of (c, r) \<Rightarrow> (s\<lparr>cp_peer := c\<rparr>, r))"

text \<open>The two parties of one session, bound to the two ends of a channel and to their inventories.\<close>

definition bound :: "string \<Rightarrow> nat \<Rightarrow> ('l, 'c) compute \<Rightarrow> bool" where
  "bound sid p s \<longleftrightarrow> cp_session s = sid \<and> cp_party s = p \<and> iv_session_id (cp_inventory s) = sid \<and> iv_party (cp_inventory s) = p
     \<and> ss_party (pc_state (cp_peer s)) = p \<and> sc_session_id (ss_commitment (pc_state (cp_peer s))) = sid
     \<and> cp_max_opening_elements s \<le> 2 ^ 24
     \<and> 16 * cp_max_opening_elements s + 1024 \<le> pc_max_payload_bytes (cp_peer s) \<and> pc_max_payload_bytes (cp_peer s) \<le> 2 ^ 31
     \<and> sc_maximum_operations (ss_commitment (pc_state (cp_peer s))) \<le> 2 ^ 64"

definition paired :: "string \<Rightarrow> ('l, 'c) compute \<Rightarrow> ('l, 'c) compute \<Rightarrow> bool" where
  "paired sid s0 s1 \<longleftrightarrow> wire_id sid \<and> bound sid 0 s0 \<and> bound sid 1 s1 \<and> linked (cp_peer s0) (cp_peer s1)
     \<and> cp_max_opening_elements s1 = cp_max_opening_elements s0"

abbreviation used_ops :: "('l, 'c) compute \<Rightarrow> string set" where
  "used_ops s \<equiv> ss_operations (pc_state (cp_peer s))"

abbreviation op_limit :: "('l, 'c) compute \<Rightarrow> int" where
  "op_limit s \<equiv> sc_maximum_operations (ss_commitment (pc_state (cp_peer s)))"

text \<open>The operation identifiers of the next exchanges are fresh at both ends, distinct and within the budget.\<close>

definition fresh_ops :: "string list \<Rightarrow> ('l, 'c) compute \<Rightarrow> bool" where
  "fresh_ops oids s \<longleftrightarrow> distinct oids \<and> (\<forall>oid \<in> set oids. wire_id oid \<and> oid \<notin> used_ops s)
     \<and> int (card (used_ops s) + length oids) \<le> op_limit s"

lemma paired_peers: "paired sid s0 s1 \<Longrightarrow> peers (cp_runtime s0) (cp_runtime s1)"
  by (auto simp: paired_def bound_def peers_def wire_id_def)

lemma pairedD:
  assumes "paired sid s0 s1"
  shows "cp_session s0 = sid" "cp_session s1 = sid" "cp_party s0 = 0" "cp_party s1 = 1"
    "iv_session_id (cp_inventory s0) = sid" "iv_session_id (cp_inventory s1) = sid"
    "iv_party (cp_inventory s0) = 0" "iv_party (cp_inventory s1) = 1"
    "cp_max_opening_elements s1 = cp_max_opening_elements s0" "utf8_len sid \<le> 128" "sid \<noteq> []" "cp_max_opening_elements s0 \<le> 2 ^ 24"
  using assms by (auto simp: paired_def bound_def wire_id_def)

text \<open>A change of state that an exchange makes, or that only touches runtime, ledger and inventory.\<close>

definition same_binding :: "('l, 'c) compute \<Rightarrow> ('l, 'c) compute \<Rightarrow> bool" where
  "same_binding s t \<longleftrightarrow> cp_session t = cp_session s \<and> cp_party t = cp_party s \<and> cp_peer t = cp_peer s
     \<and> iv_session_id (cp_inventory t) = iv_session_id (cp_inventory s) \<and> iv_party (cp_inventory t) = iv_party (cp_inventory s)
     \<and> cp_max_opening_elements t = cp_max_opening_elements s"

lemma paired_same: "paired sid s0 s1 \<Longrightarrow> same_binding s0 t0 \<Longrightarrow> same_binding s1 t1 \<Longrightarrow> paired sid t0 t1"
  by (auto simp: paired_def bound_def same_binding_def)

lemma fresh_ops_same: "fresh_ops oids s \<Longrightarrow> cp_peer t = cp_peer s \<Longrightarrow> fresh_ops oids t"
  by (auto simp: fresh_ops_def)

lemma pair_exchange_ok:
  assumes "codec_ok packb unpackb" and "paired sid s0 s1" and "fresh_ops (oid # oids) s0" and "fresh_ops (oid # oids) s1"
    and "kind \<noteq> []" "utf8_len kind \<le> 64"
    and "length p \<le> pc_max_payload_bytes (cp_peer s0)" "length q \<le> pc_max_payload_bytes (cp_peer s1)"
  shows "\<exists>c0 c1. pair_exchange packb unpackb sha now s0 (kind, oid, p) s1 (kind, oid, q)
       = ((s0\<lparr>cp_peer := c0\<rparr>, Inr q), (s1\<lparr>cp_peer := c1\<rparr>, Inr p))
    \<and> paired sid (s0\<lparr>cp_peer := c0\<rparr>) (s1\<lparr>cp_peer := c1\<rparr>)
    \<and> fresh_ops oids (s0\<lparr>cp_peer := c0\<rparr>) \<and> fresh_ops oids (s1\<lparr>cp_peer := c1\<rparr>)"
proof -
  have l: "linked (cp_peer s0) (cp_peer s1)" using assms(2) by (simp add: paired_def)
  then have fin: "finite (used_ops s0)" "finite (used_ops s1)" by (auto simp: linked_def live_def)
  have e: "can_exchange (cp_peer s0) kind oid p" "can_exchange (cp_peer s1) kind oid q"
    using assms by (auto simp: can_exchange_def paired_def bound_def fresh_ops_def)
  obtain c0 c1 where x: "exchange_two packb unpackb sha now (cp_peer s0) (kind, oid, p) (cp_peer s1) (kind, oid, q)
      = ((c0, Inr q), (c1, Inr p))" "linked c0 c1" "advanced oid (cp_peer s0) c0" "advanced oid (cp_peer s1) c1"
    using exchange_pair [OF assms(1) l e] by blast
  have "paired sid (s0\<lparr>cp_peer := c0\<rparr>) (s1\<lparr>cp_peer := c1\<rparr>)"
    using assms(2) x(2-4) by (auto simp: paired_def bound_def advanced_def)
  moreover have "fresh_ops oids (s0\<lparr>cp_peer := c0\<rparr>)" "fresh_ops oids (s1\<lparr>cp_peer := c1\<rparr>)"
    using assms(3,4) x(3,4) fin by (auto simp: fresh_ops_def advanced_def)
  ultimately show ?thesis using x(1) by (intro exI [of _ c0] exI [of _ c1]) (simp add: pair_exchange_def)
qed

section \<open>Multiplication over the network\<close>

text \<open>One scheduled multiplication: its operation, shape and triple, with the two parties' shares.\<close>

type_synonym job = "string \<times> nat list \<times> string \<times> BeaverTripleShare \<times> BeaverTripleShare"

abbreviation job_op :: "job \<Rightarrow> string" where "job_op j \<equiv> fst j"
abbreviation job_id :: "job \<Rightarrow> string" where "job_id j \<equiv> fst (snd (snd j))"

text \<open>The ledger accepts the triples in this order.\<close>

fun burns_ok :: "'l burn_ops \<Rightarrow> 'l \<Rightarrow> string \<Rightarrow> nat \<Rightarrow> string list \<Rightarrow> bool" where
  "burns_ok ops l sid p [] = True"
| "burns_ok ops l sid p (k # ks) =
     (case bl_burn ops l sid p ''multiplication'' k of (l', r) \<Rightarrow> r = Inr () \<and> burns_ok ops l' sid p ks)"

definition holds :: "'l burn_ops \<Rightarrow> string \<Rightarrow> nat \<Rightarrow> job list \<Rightarrow> ('l, 'c) compute \<Rightarrow> bool" where
  "holds ops sid p jobs s \<longleftrightarrow>
     (\<forall>(oid, sh, k, t0, t1) \<in> set jobs. iv_triples (cp_inventory s) oid = Some (if p = 0 then t0 else t1)
        \<and> k \<notin> rt_burned_triples (cp_runtime s))
     \<and> burns_ok ops (cp_ledger s) sid p (map job_id jobs)"

definition stocked :: "'l burn_ops \<Rightarrow> string \<Rightarrow> job list \<Rightarrow> ('l, 'c) compute \<Rightarrow> ('l, 'c) compute \<Rightarrow> bool" where
  "stocked ops sid jobs s0 s1 \<longleftrightarrow>
     (\<forall>(oid, sh, k, t0, t1) \<in> set jobs. triple_shares sid sh k t0 t1) \<and> distinct (map job_op jobs) \<and> distinct (map job_id jobs)
     \<and> holds ops sid 0 jobs s0 \<and> holds ops sid 1 jobs s1"

text \<open>What a multiplication leaves alone.\<close>

definition kept :: "('l, 'c) compute \<Rightarrow> ('l, 'c) compute \<Rightarrow> bool" where
  "kept s t \<longleftrightarrow> cp_truncation t = cp_truncation s \<and> cp_max_opening_elements t = cp_max_opening_elements s
     \<and> rt_minimum_bits (cp_runtime t) = rt_minimum_bits (cp_runtime s)
     \<and> rt_burned_masks (cp_runtime t) = rt_burned_masks (cp_runtime s)
     \<and> rt_truncation_profile (cp_runtime t) = rt_truncation_profile (cp_runtime s)
     \<and> rt_truncation_opened (cp_runtime t) = rt_truncation_opened (cp_runtime s)
     \<and> iv_masks (cp_inventory t) = iv_masks (cp_inventory s) \<and> iv_exact_masks (cp_inventory t) = iv_exact_masks (cp_inventory s)
     \<and> iv_fss_masks (cp_inventory t) = iv_fss_masks (cp_inventory s) \<and> iv_cancelled (cp_inventory t) = iv_cancelled (cp_inventory s)"

lemma kept_trans: "kept s t \<Longrightarrow> kept t u \<Longrightarrow> kept s u" and kept_refl: "kept s s"
  by (auto simp: kept_def)

text \<open>The state after a party's side of a multiplication, for given statistics and connection.\<close>

definition multiplied ::
  "string \<Rightarrow> string \<Rightarrow> 'l \<Rightarrow> SharedMPCStats \<Rightarrow> Connection \<Rightarrow> ('l, 'c) compute \<Rightarrow> ('l, 'c) compute" where
  "multiplied oid k l st c s = s\<lparr>cp_inventory := (cp_inventory s)\<lparr>iv_triples := (iv_triples (cp_inventory s))(oid := None)\<rparr>,
     cp_runtime := (cp_runtime s)\<lparr>rt_burned_triples := insert k (rt_burned_triples (cp_runtime s)), rt_stats := st\<rparr>,
     cp_ledger := l, cp_peer := c\<rparr>"

lemma multiplied_kept: "kept s (multiplied oid k l st c s)"
  by (simp add: kept_def multiplied_def)

lemma multiplied_holds:
  assumes "holds ops sid p ((oid, sh, k, t0, t1) # jobs) s" and "oid \<notin> set (map job_op jobs)" "k \<notin> set (map job_id jobs)"
    and "bl_burn ops (cp_ledger s) sid p ''multiplication'' k = (l, Inr ())"
  shows "holds ops sid p jobs (multiplied oid k l st c s)"
  using assms by (force simp: holds_def multiplied_def)

lemma take_multiplication_ok:
  assumes "iv_session_id i = sid" "iv_party i = p" "iv_triples i oid = Some t" "nd_shape (bt_a t) = sh"
  shows "take_multiplication i sid oid sh p = (i\<lparr>iv_triples := (iv_triples i)(oid := None)\<rparr>, Inr t)"
  using assms by (simp add: take_multiplication_def require_identity_def)

lemma opening_of_wire:
  assumes "codec_ok packb unpackb" and "rt_session_id r = sid" "rt_party r \<in> {0, 1}" "wire_id sid" "wire_id oid"
    and "nd_wf (st_values x)" "nd_wf (st_values y)" "nd_shape (st_values y) = nd_shape (st_values x)"
    and "nd_wf (bt_a t)" "nd_wf (bt_b t)" "nd_shape (bt_a t) = nd_shape (st_values x)" "nd_shape (bt_b t) = nd_shape (st_values x)"
    and "tensor_ok (st_values x)" "length (nd_shape (st_values x)) \<le> 64" "nd_size (st_values x) \<le> n" "n \<le> 2 ^ 24"
  shows "OpeningFrame_unpack unpackb (OpeningFrame_pack packb (opening_of r oid x y t)) n = Inr (opening_of r oid x y t)"
    and "length (OpeningFrame_pack packb (opening_of r oid x y t)) \<le> 16 * n + 1024"
proof -
  let ?d = "nd_sub (st_values x) (bt_a t)" and ?e = "nd_sub (st_values y) (bt_b t)"
  have mk: "mk_OpeningFrame sid oid (rt_party r) ?d ?e = Inr (opening_of r oid x y t)"
    using assms by (auto simp: mk_OpeningFrame_def opening_of_def tensor_ok_def wire_id_def nd_size_def)
  have w: "wire_array ?d n" "wire_array ?e n"
    using assms by (auto simp: wire_array_def nd_size_def)
  have ids: "utf8_len sid \<le> 128" "utf8_len oid \<le> 128" using assms by (auto simp: wire_id_def)
  note r = opening_frame_wire [OF assms(1) mk w ids]
  show "OpeningFrame_unpack unpackb (OpeningFrame_pack packb (opening_of r oid x y t)) n = Inr (opening_of r oid x y t)" by (rule r(1))
  have "nd_size ?d \<le> n" using w by (simp add: wire_array_def)
  with r(2) show "length (OpeningFrame_pack packb (opening_of r oid x y t)) \<le> 16 * n + 1024" by linarith
qed

lemma thenP_Inr [simp]: "thenP (Ret s (Inr x)) k = k s x"
  by simp

lemma compute_multiply_step:
  assumes "iv_session_id (cp_inventory s) = cp_session s" "iv_party (cp_inventory s) = cp_party s"
    and "iv_triples (cp_inventory s) oid = Some t" "nd_shape (bt_a t) = st_shape x"
    and "begin_multiply ops packb (cp_runtime s, cp_ledger s) x y t oid
        = (((cp_runtime s)\<lparr>rt_burned_triples := insert k (rt_burned_triples (cp_runtime s)), rt_stats := a\<rparr>, l), Inr (m, f))"
  shows "compute_multiply ops packb unpackb now s x y oid =
    on_raise (abort_peer ''shared multiplication failed: '' now)
      (thenP (exchangeP ''multiply.open'' oid (OpeningFrame_pack packb f) (multiplied oid k l a (cp_peer s) s)) (\<lambda>s payload.
       thenP (Ret s (OpeningFrame_unpack unpackb payload (cp_max_opening_elements s))) (\<lambda>s peer_opening.
       rt_call s (finish_multiply packb (cp_runtime s) m f peer_opening (oid @ ''.result'')))))"
  using assms take_multiplication_ok [of "cp_inventory s" "cp_session s" "cp_party s" oid t "st_shape x"]
  by (simp add: compute_multiply_def inv_call_of_def rtl_call_def multiplied_def)

lemma multiply_lock:
  assumes codec: "codec_ok packb unpackb" and pr: "paired sid s0 s1"
    and st: "stocked ops sid ((oid, nd_shape X, k, t0, t1) # jobs) s0 s1"
    and fr: "fresh_ops (oid # oids) s0" "fresh_ops (oid # oids) s1"
    and X: "shares_of sid X sx x0 x1" and Y: "shares_of sid Y sy y0 y1" and sh: "nd_shape Y = nd_shape X"
    and sz: "length (nd_shape X) \<le> 64" "nd_size X \<le> cp_max_opening_elements s0"
  shows "lock (pair_exchange packb unpackb sha now) (compute_multiply ops packb unpackb now s0 x0 y0 oid)
     (compute_multiply ops packb unpackb now s1 x1 y1 oid)
     (\<lambda>s0' u0 s1' u1. paired sid s0' s1' \<and> stocked ops sid jobs s0' s1' \<and> fresh_ops oids s0' \<and> fresh_ops oids s1'
        \<and> shares_of sid (nd_mul X Y) (sx * sy) u0 u1 \<and> kept s0 s0' \<and> kept s1 s1')"
proof -
  note b = pairedD [OF pr] and x = shares_ofD [OF X] and y = shares_ofD [OF Y]
  have wid: "wire_id sid" "wire_id oid" using pr fr by (auto simp: paired_def fresh_ops_def)
  have T: "triple_shares sid (nd_shape X) k t0 t1" and d: "oid \<notin> set (map job_op jobs)" "k \<notin> set (map job_id jobs)"
    and h: "holds ops sid 0 ((oid, nd_shape X, k, t0, t1) # jobs) s0" "holds ops sid 1 ((oid, nd_shape X, k, t0, t1) # jobs) s1"
    using st by (auto simp: stocked_def)
  obtain l0 l1 where l: "bl_burn ops (cp_ledger s0) sid 0 ''multiplication'' k = (l0, Inr ())"
    "bl_burn ops (cp_ledger s1) sid 1 ''multiplication'' k = (l1, Inr ())"
    using h by (auto simp: holds_def split: prod.splits)
  have tr: "iv_triples (cp_inventory s0) oid = Some t0" "iv_triples (cp_inventory s1) oid = Some t1"
    "k \<notin> rt_burned_triples (cp_runtime s0)" "k \<notin> rt_burned_triples (cp_runtime s1)" using h by (auto simp: holds_def)
  have tw: "nd_shape (bt_a t0) = nd_shape X" "nd_shape (bt_a t1) = nd_shape X" "nd_shape (bt_b t0) = nd_shape X"
    "nd_shape (bt_b t1) = nd_shape X" "nd_wf (bt_a t0)" "nd_wf (bt_a t1)" "nd_wf (bt_b t0)" "nd_wf (bt_b t1)"
    using T by (auto simp: triple_shares_def splits_def)
  have oid: "oid \<noteq> []" "oid @ ''.result'' \<noteq> []" using wid by (auto simp: wire_id_def)
  let ?f0 = "opening_of (cp_runtime s0) oid x0 y0 t0" and ?f1 = "opening_of (cp_runtime s1) oid x1 y1 t1"
  let ?m0 = "\<lambda>st c. multiplied oid k l0 st c s0" and ?m1 = "\<lambda>st c. multiplied oid k l1 st c s1"
  obtain m0 m1 a0 a1 b0 b1 u0 u1 where
    bg: "begin_multiply ops packb (cp_runtime s0, cp_ledger s0) x0 y0 t0 oid
        = (((cp_runtime s0)\<lparr>rt_burned_triples := insert k (rt_burned_triples (cp_runtime s0)), rt_stats := a0\<rparr>, l0), Inr (m0, ?f0))"
      "begin_multiply ops packb (cp_runtime s1, cp_ledger s1) x1 y1 t1 oid
        = (((cp_runtime s1)\<lparr>rt_burned_triples := insert k (rt_burned_triples (cp_runtime s1)), rt_stats := a1\<rparr>, l1), Inr (m1, ?f1))"
    and fin: "finish_multiply packb ((cp_runtime s0)\<lparr>rt_burned_triples := insert k (rt_burned_triples (cp_runtime s0)), rt_stats := a0\<rparr>)
        m0 ?f0 ?f1 (oid @ ''.result'')
        = ((cp_runtime s0)\<lparr>rt_burned_triples := insert k (rt_burned_triples (cp_runtime s0)), rt_stats := b0\<rparr>, Inr u0)"
      "finish_multiply packb ((cp_runtime s1)\<lparr>rt_burned_triples := insert k (rt_burned_triples (cp_runtime s1)), rt_stats := a1\<rparr>)
        m1 ?f1 ?f0 (oid @ ''.result'')
        = ((cp_runtime s1)\<lparr>rt_burned_triples := insert k (rt_burned_triples (cp_runtime s1)), rt_stats := b1\<rparr>, Inr u1)"
    and u: "shares_of sid (nd_mul X Y) (sx * sy) u0 u1"
    using multiply_pair [OF paired_peers [OF pr], of X sx x0 x1 Y sy y0 y1 k t0 t1 ops "cp_ledger s0" l0 "cp_ledger s1" l1 oid
        "oid @ ''.result''" packb] b X Y sh T tr l oid by auto
  have ok: "tensor_ok (st_values x0)" "tensor_ok (st_values x1)" using x by (auto simp: tensor_ok_def nd_size_def)
  have n: "nd_size (st_values x0) = nd_size X" "nd_size (st_values x1) = nd_size X" using x by (auto simp: nd_size_def)
  note w0 = opening_of_wire [OF codec, of "cp_runtime s0" sid oid x0 y0 t0 "cp_max_opening_elements s0"]
    and w1 = opening_of_wire [OF codec, of "cp_runtime s1" sid oid x1 y1 t1 "cp_max_opening_elements s0"]
  have un: "OpeningFrame_unpack unpackb (OpeningFrame_pack packb ?f0) (cp_max_opening_elements s0) = Inr ?f0"
    "OpeningFrame_unpack unpackb (OpeningFrame_pack packb ?f1) (cp_max_opening_elements s0) = Inr ?f1"
    using w0(1) w1(1) b wid x y sh tw ok n sz by simp_all
  have ln: "length (OpeningFrame_pack packb ?f0) \<le> 16 * cp_max_opening_elements s0 + 1024"
    "length (OpeningFrame_pack packb ?f1) \<le> 16 * cp_max_opening_elements s0 + 1024"
    using w0(2) w1(2) b wid x y sh tw ok n sz by simp_all
  have pb: "length (OpeningFrame_pack packb ?f0) \<le> pc_max_payload_bytes (cp_peer s0)"
    "length (OpeningFrame_pack packb ?f1) \<le> pc_max_payload_bytes (cp_peer s1)"
    using ln pr by (auto simp: paired_def bound_def)
  have pr': "paired sid (?m0 a0 (cp_peer s0)) (?m1 a1 (cp_peer s1))"
    by (rule paired_same [OF pr]) (simp_all add: same_binding_def multiplied_def)
  have fr': "fresh_ops (oid # oids) (?m0 a0 (cp_peer s0))" "fresh_ops (oid # oids) (?m1 a1 (cp_peer s1))"
    by (rule fresh_ops_same [OF fr(1)], simp add: multiplied_def, rule fresh_ops_same [OF fr(2)], simp add: multiplied_def)
  obtain c0 c1 where ex: "pair_exchange packb unpackb sha now (?m0 a0 (cp_peer s0)) (''multiply.open'', oid, OpeningFrame_pack packb ?f0)
        (?m1 a1 (cp_peer s1)) (''multiply.open'', oid, OpeningFrame_pack packb ?f1)
      = ((?m0 a0 c0, Inr (OpeningFrame_pack packb ?f1)), (?m1 a1 c1, Inr (OpeningFrame_pack packb ?f0)))"
    "paired sid (?m0 a0 c0) (?m1 a1 c1)" "fresh_ops oids (?m0 a0 c0)" "fresh_ops oids (?m1 a1 c1)"
    using pair_exchange_ok [OF codec pr' fr', of "''multiply.open''" "OpeningFrame_pack packb ?f0" "OpeningFrame_pack packb ?f1" sha now] pb
    by (auto simp: multiplied_def utf8_len_def)
  have fp: "paired sid (?m0 b0 c0) (?m1 b1 c1)"
    by (rule paired_same [OF ex(2)]) (simp_all add: same_binding_def multiplied_def)
  have ff: "fresh_ops oids (?m0 b0 c0)" "fresh_ops oids (?m1 b1 c1)"
    by (rule fresh_ops_same [OF ex(3)], simp add: multiplied_def, rule fresh_ops_same [OF ex(4)], simp add: multiplied_def)
  have fs: "stocked ops sid jobs (?m0 b0 c0) (?m1 b1 c1)"
    using st multiplied_holds [OF h(1) d l(1)] multiplied_holds [OF h(2) d l(2)] by (auto simp: stocked_def)
  have r: "rt_call (?m0 a0 c0) (finish_multiply packb (cp_runtime (?m0 a0 c0)) m0 ?f0 ?f1 (oid @ ''.result'')) = Ret (?m0 b0 c0) (Inr u0)"
    "rt_call (?m1 a1 c1) (finish_multiply packb (cp_runtime (?m1 a1 c1)) m1 ?f1 ?f0 (oid @ ''.result'')) = Ret (?m1 b1 c1) (Inr u1)"
    using fin by (simp_all add: rt_call_def multiplied_def)
  have mx: "cp_max_opening_elements (?m0 a0 c0) = cp_max_opening_elements s0" "cp_max_opening_elements (?m1 a1 c1) = cp_max_opening_elements s0"
    using b(9) by (simp_all add: multiplied_def)
  have st0: "iv_session_id (cp_inventory s0) = cp_session s0" "iv_party (cp_inventory s0) = cp_party s0" "nd_shape (bt_a t0) = st_shape x0"
    and st1: "iv_session_id (cp_inventory s1) = cp_session s1" "iv_party (cp_inventory s1) = cp_party s1" "nd_shape (bt_a t1) = st_shape x1"
    using b x tw by simp_all
  note k0 = compute_multiply_step [OF st0(1,2) tr(1) st0(3) bg(1), of unpackb now]
    and k1 = compute_multiply_step [OF st1(1,2) tr(2) st1(3) bg(2), of unpackb now]
  show ?thesis unfolding k0 k1
    by (rule lock_raise, rule lock_exchange, rule ex(1)) (use un r fp ff fs u in \<open>simp add: mx multiplied_kept\<close>)
qed

section \<open>The carry chain over the network\<close>

definition carry_at :: "nat \<Rightarrow> u64array \<Rightarrow> u64array \<Rightarrow> u64array" where
  "carry_at k R c = nd_map2 (\<lambda>r c. of_bool (low_gt k r c)) R c"

definition bit_at :: "nat \<Rightarrow> u64array \<Rightarrow> u64array" where
  "bit_at k R = nd_map (\<lambda>r. of_bool (bit r k)) R"

text \<open>Two truncation states of the parties whose masks share the bits of one random tensor from position \<open>j\<close> on.\<close>

definition mask_pair :: "string \<Rightarrow> nat \<Rightarrow> nat \<Rightarrow> u64array \<Rightarrow> ExactTruncationState \<Rightarrow> ExactTruncationState \<Rightarrow> bool" where
  "mask_pair oid j b R st0 st1 \<longleftrightarrow> es_operation_id st0 = oid \<and> es_operation_id st1 = oid
     \<and> em_bits (es_mask st0) = b \<and> em_bits (es_mask st1) = b \<and> 0 < j \<and> b \<le> 64
     \<and> (case es_mask st0 of FssMask m \<Rightarrow> fm_comparison_bits m \<le> j | ExactMask _ \<Rightarrow> True)
     \<and> (case es_mask st1 of FssMask m \<Rightarrow> fm_comparison_bits m \<le> j | ExactMask _ \<Rightarrow> True)
     \<and> (\<forall>k. j \<le> k \<longrightarrow> k < b \<longrightarrow> splits (bit_at k R) (mask_bit_shares (es_mask st0) k) (mask_bit_shares (es_mask st1) k))"

lemma mask_pair_Suc: "mask_pair oid j b R st0 st1 \<Longrightarrow> mask_pair oid (Suc j) b R st0 st1"
  by (auto simp: mask_pair_def split: exact_mask.splits)

lemma exact_carry_bit_ok:
  assumes "peers r0 r1" and "mask_pair oid k b R st0 st1" "k < b" and "nd_wf R" "nd_wf c" "nd_shape c = nd_shape R" "tensor_ok R"
    and "shares_of (rt_session_id r0) (carry_at k R c) 1 c0 c1"
    and "shares_of (rt_session_id r0) (nd_mul (carry_at k R c) (bit_at k R)) 1 p0 p1"
  shows "\<exists>u0 u1. exact_carry_bit r0 st0 c c0 p0 k = Inr u0 \<and> exact_carry_bit r1 st1 c c1 p1 k = Inr u1
    \<and> shares_of (rt_session_id r0) (carry_at (Suc k) R c) 1 u0 u1"
proof -
  note x = shares_ofD [OF assms(8)] and p = shares_ofD [OF assms(9)]
  have mc: "nd_mul (carry_at k R c) (bit_at k R) = nd_mul (bit_at k R) (carry_at k R c)"
    using assms(4-6) by (intro nd_ext [where n = "nd_size R"]) (simp_all add: carry_at_def bit_at_def nd_wf_def nd_size_def mult.commute)
  have S: "splits (carry_at (Suc k) R c) (carry_bit_values (mask_bit_shares (es_mask st0) k) c (st_values c0) (st_values p0) k)
     (carry_bit_values (mask_bit_shares (es_mask st1) k) c (st_values c1) (st_values p1) k)"
    unfolding carry_at_def
    by (rule carry_bit_splits) (use assms x(1) p(1) mc in \<open>auto simp: mask_pair_def carry_at_def bit_at_def\<close>)
  have ok: "tensor_ok (carry_at (Suc k) R c)" using assms(7) by (simp add: carry_at_def tensor_ok_def)
  have sh: "nd_shape c = st_shape c0" "nd_shape c = st_shape c1" using x(6,7) assms(6) by (simp_all add: carry_at_def)
  have ck: "check r0 [c0, p0] = Inr ()" "check r1 [c1, p1] = Inr ()"
    using check_shares2 [OF assms(1,8,9)] by simp_all
  have ops: "es_operation_id st0 = oid" "es_operation_id st1 = oid" "em_bits (es_mask st0) = b" "em_bits (es_mask st1) = b" "0 < k"
    "\<not> (case es_mask st0 of FssMask m \<Rightarrow> k < fm_comparison_bits m | ExactMask _ \<Rightarrow> False)"
    "\<not> (case es_mask st1 of FssMask m \<Rightarrow> k < fm_comparison_bits m | ExactMask _ \<Rightarrow> False)"
    using assms(2) by (auto simp: mask_pair_def split: exact_mask.splits)
  have id: "oid @ '':carry:'' @ str_nat k \<noteq> []" by simp
  show ?thesis
    using result_shares [OF assms(1) S ok _ id] ck ops sh assms(3)
    by (simp add: exact_carry_bit_def raise_if_def)
qed

type_synonym carry_material = "nat \<Rightarrow> string \<times> BeaverTripleShare \<times> BeaverTripleShare"

definition carry_jobs :: "string \<Rightarrow> nat list \<Rightarrow> carry_material \<Rightarrow> nat \<Rightarrow> nat \<Rightarrow> job list" where
  "carry_jobs oid sh m j b = map (\<lambda>k. (carry_id oid k, sh, m k)) [j..<b]"

lemma carry_jobs_step: "j < b \<Longrightarrow> carry_jobs oid sh m j b = (carry_id oid j, sh, m j) # carry_jobs oid sh m (Suc j) b"
  by (simp add: carry_jobs_def upt_conv_Cons)

lemma carry_loop_lock:
  assumes codec: "codec_ok packb unpackb" and R: "nd_wf R" "nd_wf c" "nd_shape c = nd_shape R" "tensor_ok R"
    and sz: "length (nd_shape R) \<le> 64" "nd_size R \<le> n"
    and "mask_pair oid j b R st0 st1" and "j \<le> b" and "paired sid s0 s1" and "cp_max_opening_elements s0 = n"
    and "stocked ops sid (carry_jobs oid (nd_shape R) m j b @ jobs) s0 s1"
    and "fresh_ops (map (carry_id oid) [j..<b] @ oids) s0" "fresh_ops (map (carry_id oid) [j..<b] @ oids) s1"
    and "shares_of sid (carry_at j R c) 1 c0 c1"
  shows "lock (pair_exchange packb unpackb sha now)
     (carry_loop ops packb unpackb now oid st0 c [j..<b] s0 c0) (carry_loop ops packb unpackb now oid st1 c [j..<b] s1 c1)
     (\<lambda>s0' u0 s1' u1. paired sid s0' s1' \<and> stocked ops sid jobs s0' s1' \<and> fresh_ops oids s0' \<and> fresh_ops oids s1'
        \<and> shares_of sid (carry_at b R c) 1 u0 u1 \<and> kept s0 s0' \<and> kept s1 s1')"
  using assms(8-)
proof (induction "b - j" arbitrary: j s0 s1 c0 c1)
  case 0
  then show ?case by (simp add: kept_refl carry_jobs_def)
next
  case (Suc i)
  then have j: "j < b" by simp
  let ?B = "bit_at j R" and ?C = "carry_at j R c"
  have pe: "peers (cp_runtime s0) (cp_runtime s1)" and sid: "cp_session s0 = sid" "cp_session s1 = sid" "cp_party s0 = 0" "cp_party s1 = 1"
    using paired_peers [OF Suc.prems(3)] pairedD [OF Suc.prems(3)] by simp_all
  have Bs: "splits ?B (mask_bit_shares (es_mask st0) j) (mask_bit_shares (es_mask st1) j)"
    using Suc.prems(1) j by (simp add: mask_pair_def)
  have Bok: "tensor_ok ?B" using R(4) by (simp add: bit_at_def tensor_ok_def)
  obtain b0 b1 where B: "mk_SharedTensor sid (oid @ ''.mask_bit.'' @ str_nat j) 0 (mask_bit_shares (es_mask st0) j) 1 = Inr b0"
      "mk_SharedTensor sid (oid @ ''.mask_bit.'' @ str_nat j) 1 (mask_bit_shares (es_mask st1) j) 1 = Inr b1"
      "shares_of sid ?B 1 b0 b1"
    using result_shares [OF pe Bs Bok, of 1 "oid @ ''.mask_bit.'' @ str_nat j"] sid by (auto simp: result_tensor_def)
  have shC: "nd_shape ?C = nd_shape R" "nd_shape ?B = nd_shape ?C" by (simp_all add: carry_at_def bit_at_def)
  obtain k t0 t1 where m: "m j = (k, t0, t1)" by (cases "m j")
  have stk: "stocked ops sid ((carry_id oid j, nd_shape ?C, k, t0, t1) # (carry_jobs oid (nd_shape R) m (Suc j) b @ jobs)) s0 s1"
    using Suc.prems(5) j by (simp add: carry_jobs_step m shC)
  have fr: "fresh_ops (carry_id oid j # (map (carry_id oid) [Suc j..<b] @ oids)) s0"
    "fresh_ops (carry_id oid j # (map (carry_id oid) [Suc j..<b] @ oids)) s1"
    using Suc.prems(6,7) j by (simp_all add: upt_conv_Cons)
  have nC: "nd_size ?C \<le> cp_max_opening_elements s0" using sz(2) Suc.prems(4) by (simp add: carry_at_def)
  note M = multiply_lock [OF codec Suc.prems(3) stk fr Suc.prems(8) B(3) shC(2) _ nC, of sha now]
  have "lock (pair_exchange packb unpackb sha now)
     (thenP (compute_multiply ops packb unpackb now s0 c0 b0 (carry_id oid j)) (\<lambda>s product.
       thenP (Ret s (exact_carry_bit (cp_runtime s) st0 c c0 product j)) (\<lambda>s carry.
       carry_loop ops packb unpackb now oid st0 c [Suc j..<b] s carry)))
     (thenP (compute_multiply ops packb unpackb now s1 c1 b1 (carry_id oid j)) (\<lambda>s product.
       thenP (Ret s (exact_carry_bit (cp_runtime s) st1 c c1 product j)) (\<lambda>s carry.
       carry_loop ops packb unpackb now oid st1 c [Suc j..<b] s carry)))
     (\<lambda>s0' u0 s1' u1. paired sid s0' s1' \<and> stocked ops sid jobs s0' s1' \<and> fresh_ops oids s0' \<and> fresh_ops oids s1'
        \<and> shares_of sid (carry_at b R c) 1 u0 u1 \<and> kept s0 s0' \<and> kept s1 s1')"
  proof (rule lock_then [OF M])
    show "length (nd_shape ?C) \<le> 64" using sz(1) shC by simp
    fix s0' p0 s1' p1
    assume H: "paired sid s0' s1' \<and> stocked ops sid (carry_jobs oid (nd_shape R) m (Suc j) b @ jobs) s0' s1'
      \<and> fresh_ops (map (carry_id oid) [Suc j..<b] @ oids) s0' \<and> fresh_ops (map (carry_id oid) [Suc j..<b] @ oids) s1'
      \<and> shares_of sid (nd_mul ?C ?B) (1 * 1) p0 p1 \<and> kept s0 s0' \<and> kept s1 s1'"
    have pe': "peers (cp_runtime s0') (cp_runtime s1')" and sid': "cp_session s0' = sid"
      using paired_peers pairedD H by blast+
    obtain u0 u1 where u: "exact_carry_bit (cp_runtime s0') st0 c c0 p0 j = Inr u0"
      "exact_carry_bit (cp_runtime s1') st1 c c1 p1 j = Inr u1" "shares_of sid (carry_at (Suc j) R c) 1 u0 u1"
      using exact_carry_bit_ok [OF pe' Suc.prems(1) j R, of c0 c1 p0 p1] Suc.prems(8) H sid' by auto
    have n': "cp_max_opening_elements s0' = n" using H Suc.prems(4) by (simp add: kept_def)
    have "lock (pair_exchange packb unpackb sha now)
     (carry_loop ops packb unpackb now oid st0 c [Suc j..<b] s0' u0) (carry_loop ops packb unpackb now oid st1 c [Suc j..<b] s1' u1)
     (\<lambda>s0'' v0 s1'' v1. paired sid s0'' s1'' \<and> stocked ops sid jobs s0'' s1'' \<and> fresh_ops oids s0'' \<and> fresh_ops oids s1''
        \<and> shares_of sid (carry_at b R c) 1 v0 v1 \<and> kept s0' s0'' \<and> kept s1' s1'')"
      using Suc.hyps(1) [of "Suc j"] Suc.hyps(2) Suc.prems(1) j H u(3) n' by (simp add: mask_pair_Suc)
    then show "lock (pair_exchange packb unpackb sha now)
       (thenP (Ret s0' (exact_carry_bit (cp_runtime s0') st0 c c0 p0 j)) (\<lambda>s carry.
         carry_loop ops packb unpackb now oid st0 c [Suc j..<b] s carry))
       (thenP (Ret s1' (exact_carry_bit (cp_runtime s1') st1 c c1 p1 j)) (\<lambda>s carry.
         carry_loop ops packb unpackb now oid st1 c [Suc j..<b] s carry))
       (\<lambda>s0' u0 s1' u1. paired sid s0' s1' \<and> stocked ops sid jobs s0' s1' \<and> fresh_ops oids s0' \<and> fresh_ops oids s1'
        \<and> shares_of sid (carry_at b R c) 1 u0 u1 \<and> kept s0 s0' \<and> kept s1 s1')"
      unfolding u(1,2) thenP_Inr by (rule lock_mono) (use H kept_trans in blast)
  qed
  then show ?case using j B(1,2) sid by (simp add: upt_conv_Cons)
qed

end
