(* ===== verification/Exact_Protocol.thy ===== *)
theory Exact_Protocol
  imports Lock_Step
begin

text \<open>
  The masked opening and the exact truncation of \<^verbatim>\<open>SharedComputeParty\<close> run by two parties over their
  connections: the opening reveals only the masked sum, the carry chain computes the borrow of the low
  bits, and the finished shares reconstruct to the floor of the quotient.
\<close>

section \<open>Opening a masked value over the network\<close>

definition exact_profile :: "int \<Rightarrow> profile" where
  "exact_profile budget = (64, 64, budget)"

text \<open>The runtime and the ledger of a party accept the next exact opening.\<close>

definition opening_ready :: "'l burn_ops \<Rightarrow> ('l, 'c) compute \<Rightarrow> string \<Rightarrow> int \<Rightarrow> nat \<Rightarrow> 'l \<Rightarrow> bool" where
  "opening_ready ops s mid budget sz l \<longleftrightarrow> mid \<notin> rt_burned_masks (cp_runtime s)
     \<and> rt_truncation_profile (cp_runtime s) \<in> {None, Some (exact_profile budget)}
     \<and> int (rt_truncation_opened (cp_runtime s) + sz) \<le> budget
     \<and> bl_burn_truncation ops (cp_ledger s) (cp_session s) (cp_party s) mid (exact_profile budget) (int sz) = (l, Inr ())"

definition opened_rt :: "string \<Rightarrow> int \<Rightarrow> nat \<Rightarrow> SharedMPCStats \<Rightarrow> 'c PartyRuntime \<Rightarrow> 'c PartyRuntime" where
  "opened_rt mid budget sz st rt = rt\<lparr>rt_truncation_profile := Some (exact_profile budget),
     rt_truncation_opened := rt_truncation_opened rt + sz, rt_burned_masks := insert mid (rt_burned_masks rt), rt_stats := st\<rparr>"

definition after_open :: "string \<Rightarrow> int \<Rightarrow> nat \<Rightarrow> SharedMPCStats \<Rightarrow> 'l \<Rightarrow> Connection \<Rightarrow> ('l, 'c) compute \<Rightarrow> ('l, 'c) compute" where
  "after_open mid budget sz st l c s = s\<lparr>cp_runtime := opened_rt mid budget sz st (cp_runtime s), cp_ledger := l, cp_peer := c\<rparr>"

lemma after_open_simps [simp]:
  "cp_session (after_open mid budget sz st l c s) = cp_session s" "cp_party (after_open mid budget sz st l c s) = cp_party s"
  "cp_inventory (after_open mid budget sz st l c s) = cp_inventory s" "cp_peer (after_open mid budget sz st l c s) = c"
  "cp_ledger (after_open mid budget sz st l c s) = l"
  "cp_max_opening_elements (after_open mid budget sz st l c s) = cp_max_opening_elements s"
  "cp_truncation (after_open mid budget sz st l c s) = cp_truncation s"
  "rt_burned_triples (cp_runtime (after_open mid budget sz st l c s)) = rt_burned_triples (cp_runtime s)"
  by (simp_all add: after_open_def opened_rt_def)

lemma after_open_stats: "(after_open mid budget sz st l c s)\<lparr>cp_runtime := (cp_runtime (after_open mid budget sz st l c s))\<lparr>rt_stats := st'\<rparr>\<rparr>
    = after_open mid budget sz st' l c s"
  by (simp add: after_open_def opened_rt_def)

text \<open>The two masks share one random tensor \<open>R\<close>.\<close>

definition masks_of :: "string \<Rightarrow> u64array \<Rightarrow> nat \<Rightarrow> string \<Rightarrow> int \<Rightarrow> exact_mask \<Rightarrow> exact_mask \<Rightarrow> bool" where
  "masks_of sid R b mid budget m0 m1 \<longleftrightarrow> em_session_id m0 = sid \<and> em_session_id m1 = sid \<and> em_party m0 = 0 \<and> em_party m1 = 1
     \<and> em_bits m0 = b \<and> em_bits m1 = b \<and> em_mask_id m0 = mid \<and> em_mask_id m1 = mid
     \<and> em_opened_element_budget m0 = budget \<and> em_opened_element_budget m1 = budget \<and> 0 < b \<and> b < 63
     \<and> splits R (em_value m0) (em_value m1) \<and> splits (nd_map (drop_bit b) R) (em_shifted m0) (em_shifted m1)
     \<and> splits (nd_map (drop_bit 63) R) (em_sign_bit_share m0) (em_sign_bit_share m1)"

lemma begin_exact_eq:
  assumes "check (cp_runtime s) [x] = Inr ()" "tensor_ok (st_values x)" "cp_session s \<noteq> []" "cp_party s \<in> {0, 1}" "oid \<noteq> []"
    and "em_session_id m = cp_session s" "em_party m = cp_party s" "nd_shape (em_value m) = st_shape x"
    and "em_opened_element_budget m = budget" "em_mask_id m = mid"
    and "opening_ready ops s mid budget (nd_size (st_values x)) l"
    and "0 < bd" "bd < 2 ^ 62" "st_scale x mod 2 ^ em_bits m = 0"
  shows "\<exists>st. begin_exact_truncate ops packb (cp_runtime s, cp_ledger s) x m oid bd =
     ((opened_rt mid budget (nd_size (st_values x)) st (cp_runtime s), l),
      Inr (\<lparr>es_operation_id = oid, es_mask = m, es_output_scale = st_scale x div 2 ^ em_bits m\<rparr>,
           value_opening (cp_runtime s) oid (st_values x) (em_value m)))"
proof -
  let ?f = "value_opening (cp_runtime s) oid (st_values x) (em_value m)"
  have mk: "mk_ValueOpeningFrame (cp_session s) oid (cp_party s)
      (nd_map (\<lambda>v. v + offset_share (cp_party s)) (nd_add (st_values x) (em_value m))) = Inr ?f"
    using assms by (auto simp: mk_ValueOpeningFrame_def value_opening_def masked_share_def tensor_ok_def nd_size_def)
  show ?thesis
    using assms mk
    by (auto simp: begin_exact_truncate_def opening_ready_def exact_profile_def opened_rt_def upload_def Let_def)
qed

lemma value_opening_wire:
  assumes "codec_ok packb unpackb" and "rt_session_id r = sid" "rt_party r \<in> {0, 1}" "wire_id sid" "wire_id oid"
    and "nd_wf x" "nd_wf m" "nd_shape m = nd_shape x" "tensor_ok x" "length (nd_shape x) \<le> 64" "nd_size x \<le> n" "n \<le> 2 ^ 24"
  shows "ValueOpeningFrame_unpack unpackb (ValueOpeningFrame_pack packb (value_opening r oid x m)) n = Inr (value_opening r oid x m)"
    and "length (ValueOpeningFrame_pack packb (value_opening r oid x m)) \<le> 16 * n + 1024"
proof -
  let ?v = "masked_share (rt_party r) x m"
  have mk: "mk_ValueOpeningFrame sid oid (rt_party r) ?v = Inr (value_opening r oid x m)"
    using assms by (auto simp: mk_ValueOpeningFrame_def value_opening_def masked_share_def tensor_ok_def wire_id_def nd_size_def)
  have w: "wire_array ?v n" using assms by (auto simp: wire_array_def nd_size_def masked_share_def)
  have ids: "utf8_len sid \<le> 128" "utf8_len oid \<le> 128" using assms by (auto simp: wire_id_def)
  note r = value_frame_wire [OF assms(1) mk w ids]
  show "ValueOpeningFrame_unpack unpackb (ValueOpeningFrame_pack packb (value_opening r oid x m)) n = Inr (value_opening r oid x m)"
    by (rule r(1))
  have "nd_size ?v \<le> n" using w by (simp add: wire_array_def)
  with r(2) show "length (ValueOpeningFrame_pack packb (value_opening r oid x m)) \<le> 16 * n + 1024" by linarith
qed

lemma stocked_cong:
  assumes "stocked ops sid jobs s0 s1"
    and "iv_triples (cp_inventory t0) = iv_triples (cp_inventory s0)" "iv_triples (cp_inventory t1) = iv_triples (cp_inventory s1)"
    and "rt_burned_triples (cp_runtime t0) = rt_burned_triples (cp_runtime s0)"
    and "rt_burned_triples (cp_runtime t1) = rt_burned_triples (cp_runtime s1)"
    and "cp_ledger t0 = cp_ledger s0" "cp_ledger t1 = cp_ledger s1"
  shows "stocked ops sid jobs t0 t1"
  using assms by (simp add: stocked_def holds_def)

text \<open>One party's part of the opening, with what follows it.\<close>

definition open_then where
  "open_then ops packb unpackb kind oid x m bd s k =
     thenP (rtl_call s (begin_exact_truncate ops packb (cp_runtime s, cp_ledger s) x m oid bd)) (\<lambda>s (state, opening).
     thenP (exchangeP kind oid (ValueOpeningFrame_pack packb opening) s) (\<lambda>s payload.
     thenP (Ret s (ValueOpeningFrame_unpack unpackb payload (cp_max_opening_elements s))) (\<lambda>s peer_opening.
     k s state opening peer_opening)))"

lemma open_lock:
  assumes codec: "codec_ok packb unpackb" and pr: "paired sid s0 s1"
    and fr: "fresh_ops (oid # oids) s0" "fresh_ops (oid # oids) s1" and kind: "kind \<noteq> []" "utf8_len kind \<le> 64"
    and X: "shares_of sid X sc x0 x1" and M: "masks_of sid R b mid budget m0 m1" and sh: "nd_shape R = nd_shape X"
    and rdy: "opening_ready ops s0 mid budget (nd_size X) l0" "opening_ready ops s1 mid budget (nd_size X) l1"
    and bd: "0 < bd" "bd < 2 ^ 62" and sc: "sc mod 2 ^ b = 0"
    and sz: "length (nd_shape X) \<le> 64" "nd_size X \<le> cp_max_opening_elements s0"
    and cont: "\<And>a0 a1 c0 c1. paired sid (after_open mid budget (nd_size X) a0 l0 c0 s0) (after_open mid budget (nd_size X) a1 l1 c1 s1) \<Longrightarrow>
       fresh_ops oids (after_open mid budget (nd_size X) a0 l0 c0 s0) \<Longrightarrow> fresh_ops oids (after_open mid budget (nd_size X) a1 l1 c1 s1) \<Longrightarrow>
       lock (pair_exchange packb unpackb sha now)
         (k0 (after_open mid budget (nd_size X) a0 l0 c0 s0) \<lparr>es_operation_id = oid, es_mask = m0, es_output_scale = sc div 2 ^ b\<rparr>
            (value_opening (cp_runtime s0) oid (st_values x0) (em_value m0)) (value_opening (cp_runtime s1) oid (st_values x1) (em_value m1)))
         (k1 (after_open mid budget (nd_size X) a1 l1 c1 s1) \<lparr>es_operation_id = oid, es_mask = m1, es_output_scale = sc div 2 ^ b\<rparr>
            (value_opening (cp_runtime s1) oid (st_values x1) (em_value m1)) (value_opening (cp_runtime s0) oid (st_values x0) (em_value m0))) Q"
  shows "lock (pair_exchange packb unpackb sha now) (open_then ops packb unpackb kind oid x0 m0 bd s0 k0)
     (open_then ops packb unpackb kind oid x1 m1 bd s1 k1) Q"
proof -
  note b = pairedD [OF pr] and x = shares_ofD [OF X] and pe = paired_peers [OF pr]
  have ck: "check (cp_runtime s0) [x0] = Inr ()" "check (cp_runtime s1) [x1] = Inr ()" using check_shares [OF pe] X b by simp_all
  have wid: "wire_id sid" "wire_id oid" using pr fr by (auto simp: paired_def fresh_ops_def)
  have mw: "nd_wf (em_value m0)" "nd_wf (em_value m1)" "nd_shape (em_value m0) = nd_shape X" "nd_shape (em_value m1) = nd_shape X"
    using M sh by (auto simp: masks_of_def splits_def)
  have ok: "tensor_ok (st_values x0)" "tensor_ok (st_values x1)" and n: "nd_size (st_values x0) = nd_size X" "nd_size (st_values x1) = nd_size X"
    using x by (auto simp: tensor_ok_def nd_size_def)
  let ?f0 = "value_opening (cp_runtime s0) oid (st_values x0) (em_value m0)"
    and ?f1 = "value_opening (cp_runtime s1) oid (st_values x1) (em_value m1)"
  let ?t0 = "\<lambda>a c. after_open mid budget (nd_size X) a l0 c s0" and ?t1 = "\<lambda>a c. after_open mid budget (nd_size X) a l1 c s1"
  have "\<exists>st. begin_exact_truncate ops packb (cp_runtime s0, cp_ledger s0) x0 m0 oid bd =
     ((opened_rt mid budget (nd_size (st_values x0)) st (cp_runtime s0), l0),
      Inr (\<lparr>es_operation_id = oid, es_mask = m0, es_output_scale = st_scale x0 div 2 ^ em_bits m0\<rparr>, ?f0))"
    by (rule begin_exact_eq) (use ck ok b wid M mw x rdy bd sc n in \<open>auto simp: masks_of_def wire_id_def\<close>)
  then obtain a0 where b0: "rtl_call s0 (begin_exact_truncate ops packb (cp_runtime s0, cp_ledger s0) x0 m0 oid bd)
      = Ret (?t0 a0 (cp_peer s0)) (Inr (\<lparr>es_operation_id = oid, es_mask = m0, es_output_scale = sc div 2 ^ b\<rparr>, ?f0))"
    using x M n by (auto simp: rtl_call_def after_open_def masks_of_def)
  have "\<exists>st. begin_exact_truncate ops packb (cp_runtime s1, cp_ledger s1) x1 m1 oid bd =
     ((opened_rt mid budget (nd_size (st_values x1)) st (cp_runtime s1), l1),
      Inr (\<lparr>es_operation_id = oid, es_mask = m1, es_output_scale = st_scale x1 div 2 ^ em_bits m1\<rparr>, ?f1))"
    by (rule begin_exact_eq) (use ck ok b wid M mw x rdy bd sc n in \<open>auto simp: masks_of_def wire_id_def\<close>)
  then obtain a1 where b1: "rtl_call s1 (begin_exact_truncate ops packb (cp_runtime s1, cp_ledger s1) x1 m1 oid bd)
      = Ret (?t1 a1 (cp_peer s1)) (Inr (\<lparr>es_operation_id = oid, es_mask = m1, es_output_scale = sc div 2 ^ b\<rparr>, ?f1))"
    using x M n by (auto simp: rtl_call_def after_open_def masks_of_def)
  note w0 = value_opening_wire [OF codec, of "cp_runtime s0" sid oid "st_values x0" "em_value m0" "cp_max_opening_elements s0"]
    and w1 = value_opening_wire [OF codec, of "cp_runtime s1" sid oid "st_values x1" "em_value m1" "cp_max_opening_elements s0"]
  have un: "ValueOpeningFrame_unpack unpackb (ValueOpeningFrame_pack packb ?f0) (cp_max_opening_elements s0) = Inr ?f0"
    "ValueOpeningFrame_unpack unpackb (ValueOpeningFrame_pack packb ?f1) (cp_max_opening_elements s0) = Inr ?f1"
    using w0(1) w1(1) b wid x mw ok n sz by simp_all
  have ln: "length (ValueOpeningFrame_pack packb ?f0) \<le> 16 * cp_max_opening_elements s0 + 1024"
    "length (ValueOpeningFrame_pack packb ?f1) \<le> 16 * cp_max_opening_elements s0 + 1024"
    using w0(2) w1(2) b wid x mw ok n sz by simp_all
  have pb: "length (ValueOpeningFrame_pack packb ?f0) \<le> pc_max_payload_bytes (cp_peer s0)"
    "length (ValueOpeningFrame_pack packb ?f1) \<le> pc_max_payload_bytes (cp_peer s1)" using ln pr by (auto simp: paired_def bound_def)
  have pr': "paired sid (?t0 a0 (cp_peer s0)) (?t1 a1 (cp_peer s1))" by (rule paired_same [OF pr]) (simp_all add: same_binding_def)
  have fr': "fresh_ops (oid # oids) (?t0 a0 (cp_peer s0))" "fresh_ops (oid # oids) (?t1 a1 (cp_peer s1))"
    by (rule fresh_ops_same [OF fr(1)], simp, rule fresh_ops_same [OF fr(2)], simp)
  obtain c0 c1 where ex: "pair_exchange packb unpackb sha now (?t0 a0 (cp_peer s0)) (kind, oid, ValueOpeningFrame_pack packb ?f0)
        (?t1 a1 (cp_peer s1)) (kind, oid, ValueOpeningFrame_pack packb ?f1)
      = ((?t0 a0 c0, Inr (ValueOpeningFrame_pack packb ?f1)), (?t1 a1 c1, Inr (ValueOpeningFrame_pack packb ?f0)))"
    "paired sid (?t0 a0 c0) (?t1 a1 c1)" "fresh_ops oids (?t0 a0 c0)" "fresh_ops oids (?t1 a1 c1)"
    using pair_exchange_ok [OF codec pr' fr' kind, of "ValueOpeningFrame_pack packb ?f0" "ValueOpeningFrame_pack packb ?f1" sha now] pb
    by (auto simp: after_open_def)
  show ?thesis unfolding open_then_def b0 b1 thenP_Inr prod.case
    by (rule lock_exchange, rule ex(1)) (use un b(9) cont [OF ex(2-4)] in simp)
qed

section \<open>Exact truncation over the network\<close>

lemma open_exact_eq:
  assumes "rt_session_id rt = sid" "rt_party rt = p" "p' \<noteq> p" "nd_shape a = nd_shape (em_value m)" "nd_shape b = nd_shape (em_value m)"
  shows "\<exists>st. open_exact packb rt \<lparr>es_operation_id = oid, es_mask = m, es_output_scale = q\<rparr>
       \<lparr>vf_session_id = sid, vf_operation_id = oid, vf_party = p, vf_value = a\<rparr>
       \<lparr>vf_session_id = sid, vf_operation_id = oid, vf_party = p', vf_value = b\<rparr>
     = (rt\<lparr>rt_stats := st\<rparr>, Inr (nd_add a b))"
  using assms by (simp add: open_exact_def Let_def) blast

lemma open_exact_pair:
  assumes "paired sid s0 s1" and "shares_of sid X sc x0 x1" and "masks_of sid R b mid budget m0 m1" and "nd_shape R = nd_shape X"
  shows "\<exists>st0. open_exact packb (cp_runtime (after_open mid budget n a0 l0 c0 s0)) \<lparr>es_operation_id = oid, es_mask = m0, es_output_scale = q\<rparr>
       (value_opening (cp_runtime s0) oid (st_values x0) (em_value m0)) (value_opening (cp_runtime s1) oid (st_values x1) (em_value m1))
     = (cp_runtime (after_open mid budget n st0 l0 c0 s0), Inr (nd_map2 masked X R))" (is ?A)
    and "\<exists>st1. open_exact packb (cp_runtime (after_open mid budget n a1 l1 c1 s1)) \<lparr>es_operation_id = oid, es_mask = m1, es_output_scale = q\<rparr>
       (value_opening (cp_runtime s1) oid (st_values x1) (em_value m1)) (value_opening (cp_runtime s0) oid (st_values x0) (em_value m0))
     = (cp_runtime (after_open mid budget n st1 l1 c1 s1), Inr (nd_map2 masked X R))" (is ?B)
proof -
  note b = pairedD [OF assms(1)] and x = shares_ofD [OF assms(2)]
  have R: "splits R (em_value m0) (em_value m1)" using assms(3) by (simp add: masks_of_def)
  note o = opened_masked [OF x(1) R assms(4)]
  have sh: "nd_shape (em_value m0) = nd_shape X" "nd_shape (em_value m1) = nd_shape X" using R assms(4) by (auto simp: splits_def)
  have vs: "nd_shape (masked_share p y m) = nd_shape y" for p y m by (simp add: masked_share_def)
  show ?A
    using open_exact_eq [of "cp_runtime (after_open mid budget n a0 l0 c0 s0)" sid 0 1 "masked_share 0 (st_values x0) (em_value m0)" m0
        "masked_share 1 (st_values x1) (em_value m1)" packb oid q] b x sh o(1) vs
    by (auto simp: value_opening_def after_open_def opened_rt_def)
  show ?B
    using open_exact_eq [of "cp_runtime (after_open mid budget n a1 l1 c1 s1)" sid 1 0 "masked_share 1 (st_values x1) (em_value m1)" m1
        "masked_share 0 (st_values x0) (em_value m0)" packb oid q] b x sh o(2) vs
    by (auto simp: value_opening_def after_open_def opened_rt_def)
qed

lemma finish_exact_pair:
  assumes "peers r0 r1" and "shares_of (rt_session_id r0) X sc x0 x1" and "masks_of (rt_session_id r0) R b mid budget m0 m1"
    and "nd_shape R = nd_shape X" and "c = nd_map2 masked X R" and "shares_of (rt_session_id r0) (carry_at b R c) 1 k0 k1"
    and "\<forall>x \<in> set (nd_data X). \<bar>sint x\<bar> < 2 ^ 62" and "sc mod 2 ^ b = 0" and "tid \<noteq> []"
  shows "\<exists>u0 u1. finish_exact_truncate r0 \<lparr>es_operation_id = oid, es_mask = m0, es_output_scale = sc div 2 ^ b\<rparr> c k0 tid = Inr u0
    \<and> finish_exact_truncate r1 \<lparr>es_operation_id = oid, es_mask = m1, es_output_scale = sc div 2 ^ b\<rparr> c k1 tid = Inr u1
    \<and> shares_of (rt_session_id r0) (nd_map (exact_floor b) X) (sc div 2 ^ b) u0 u1"
proof -
  note x = shares_ofD [OF assms(2)] and k = shares_ofD [OF assms(6)]
  have M: "splits R (em_value m0) (em_value m1)" "splits (nd_map (drop_bit b) R) (em_shifted m0) (em_shifted m1)"
    "splits (nd_map (drop_bit 63) R) (em_sign_bit_share m0) (em_sign_bit_share m1)" "0 < b" "b < 63" "em_bits m0 = b" "em_bits m1 = b"
    using assms(3) by (auto simp: masks_of_def)
  have wR: "nd_wf R" using splits_wf [OF M(1)] by simp
  have S: "splits (nd_map (exact_floor b) X) (exact_result 0 b (em_sign_bit_share m0) (em_shifted m0) c (st_values k0))
      (exact_result 1 b (em_sign_bit_share m1) (em_shifted m1) c (st_values k1))"
    by (rule exact_splits [OF x(1) wR assms(4) M(2,3) assms(5) _ M(4,5) assms(7)]) (use k(1) in \<open>simp add: carry_at_def\<close>)
  have ok: "tensor_ok (nd_map (exact_floor b) X)" using x(2) by (simp add: tensor_ok_def)
  have pos: "0 < sc div 2 ^ b" by (rule div_pow_pos [OF x(3) assms(8)])
  have sh: "nd_shape (em_value m0) = nd_shape X" "nd_shape (em_value m1) = nd_shape X" "nd_shape c = nd_shape X"
    "nd_shape (st_values k0) = nd_shape X" "nd_shape (st_values k1) = nd_shape X"
    using M(1) assms(4,5) k(6,7) by (auto simp: splits_def carry_at_def)
  show ?thesis
    using result_shares [OF assms(1) S ok pos assms(9)] check_shares [OF assms(1,6)] sh M(6,7) assms(1)
    by (simp add: finish_exact_truncate_def peers_def)
qed

lemma stacked_splits:
  assumes "splits (stack_bits R lo hi) a b" and "nd_wf R" and "lo \<le> k" "k < hi"
  shows "splits (bit_at k R) (nd_last_at a (k - lo)) (nd_last_at b (k - lo))"
proof -
  have sh: "nd_shape a = nd_shape R @ [hi - lo]" using splits_wf [OF assms(1)] by simp
  have "splits (nd_last_at (stack_bits R lo hi) (k - lo)) (nd_last_at a (k - lo)) (nd_last_at b (k - lo))"
    by (rule splits_last_at [OF assms(1)]) (use sh assms in simp_all)
  then show ?thesis using stack_bits_last_at [OF assms(2), of "k - lo" hi lo] assms by (simp add: bit_at_def)
qed

lemma exact_start_pair:
  assumes "peers r0 r1" and "masks_of sid R b mid budget (ExactMask m0) (ExactMask m1)"
    and "splits (stack_bits R 0 b) (xm_low_bit_shares m0) (xm_low_bit_shares m1)" and "nd_wf c" "nd_shape c = nd_shape R" "tensor_ok R"
    and "oid \<noteq> []"
  shows "\<exists>k0 k1. result_tensor r0 (oid @ '':carry:0'') (carry_start_values (nd_last_at (xm_low_bit_shares m0) 0) c) 1 = Inr k0
    \<and> result_tensor r1 (oid @ '':carry:0'') (carry_start_values (nd_last_at (xm_low_bit_shares m1) 0) c) 1 = Inr k1
    \<and> shares_of (rt_session_id r0) (carry_at 1 R c) 1 k0 k1"
proof -
  have b: "0 < b" and wR: "nd_wf R" using assms(2) by (auto simp: masks_of_def dest: splits_wf)
  have "splits (nd_map (\<lambda>r. of_bool (bit r 0)) R) (nd_last_at (xm_low_bit_shares m0) 0) (nd_last_at (xm_low_bit_shares m1) 0)"
    using stacked_splits [OF assms(3) wR, of 0] b by (simp add: bit_at_def)
  from carry_start_splits [OF this assms(4,5)] have S: "splits (carry_at 1 R c)
      (carry_start_values (nd_last_at (xm_low_bit_shares m0) 0) c) (carry_start_values (nd_last_at (xm_low_bit_shares m1) 0) c)"
    by (simp add: carry_at_def)
  have ok: "tensor_ok (carry_at 1 R c)" using assms(6) by (simp add: carry_at_def tensor_ok_def)
  show ?thesis using result_shares [OF assms(1) S ok, of 1 "oid @ '':carry:0''"] by simp
qed

lemma exact_mask_pair:
  assumes "masks_of sid R b mid budget (ExactMask m0) (ExactMask m1)"
    and "splits (stack_bits R 0 b) (xm_low_bit_shares m0) (xm_low_bit_shares m1)"
  shows "mask_pair oid 1 b R \<lparr>es_operation_id = oid, es_mask = ExactMask m0, es_output_scale = q\<rparr>
     \<lparr>es_operation_id = oid, es_mask = ExactMask m1, es_output_scale = q\<rparr>"
proof -
  have b: "b < 63" and wR: "nd_wf R" using assms(1) by (auto simp: masks_of_def dest: splits_wf)
  have "splits (bit_at k R) (nd_last_at (xm_low_bit_shares m0) k) (nd_last_at (xm_low_bit_shares m1) k)" if "k < b" for k
    using stacked_splits [OF assms(2) wR, of k] that by simp
  with assms(1) b show ?thesis by (auto simp: mask_pair_def masks_of_def mask_bit_shares_def)
qed

text \<open>The part of exact truncation that follows the opening.\<close>

definition exact_tail where
  "exact_tail ops packb unpackb now oid bits s state opening peer_opening =
     thenP (rt_call s (exact_carry_start packb (cp_runtime s) state opening peer_opening)) (\<lambda>s (opened, carry).
     thenP (carry_loop ops packb unpackb now oid state opened [1..<bits] s carry) (\<lambda>s carry.
     Ret s (finish_exact_truncate (cp_runtime s) state opened carry (oid @ ''.result''))))"

lemma take_exact_ok:
  assumes "iv_session_id i = sid" "iv_party i = p" "\<not> iv_cancelled i" "iv_exact_masks i oid = Some m"
    and "nd_shape (xm_value m) = sh" "xm_bits m = b" "carry_triples_ready i oid sh [1..<b]"
  shows "preflight_exact_truncation i sid oid sh p b = Inr ()"
    "take_exact_truncation i sid oid sh p b = (i\<lparr>iv_exact_masks := (iv_exact_masks i)(oid := None)\<rparr>, Inr m)"
  using assms by (simp_all add: preflight_exact_truncation_def take_exact_truncation_def require_identity_def)

lemma truncate_exact_step:
  assumes "cp_truncation s = ''exact''" "iv_session_id (cp_inventory s) = cp_session s" "iv_party (cp_inventory s) = cp_party s"
    and "\<not> iv_cancelled (cp_inventory s)" "iv_exact_masks (cp_inventory s) oid = Some m"
    and "nd_shape (xm_value m) = st_shape x" "xm_bits m = b" "carry_triples_ready (cp_inventory s) oid (st_shape x) [1..<b]"
  shows "truncate_exact ops packb unpackb now s x oid b bd = on_raise (cancel_and_abort ''shared exact truncation failed: '' now)
     (open_then ops packb unpackb ''truncate.exact.open'' oid x (ExactMask m) bd
       (s\<lparr>cp_inventory := (cp_inventory s)\<lparr>iv_exact_masks := (iv_exact_masks (cp_inventory s))(oid := None)\<rparr>\<rparr>)
       (exact_tail ops packb unpackb now oid b))"
  using assms take_exact_ok [of "cp_inventory s" "cp_session s" "cp_party s" oid m "st_shape x" b]
  by (simp add: truncate_exact_def inv_call_of_def open_then_def exact_tail_def)

lemma stockedD:
  assumes "stocked ops sid jobs s0 s1" and "(oid, sh, k, t0, t1) \<in> set jobs"
  shows "triple_shares sid sh k t0 t1" "iv_triples (cp_inventory s0) oid = Some t0" "iv_triples (cp_inventory s1) oid = Some t1"
  using assms unfolding stocked_def holds_def by fastforce+

lemma carry_ready:
  assumes "stocked ops sid (carry_jobs oid sh m j b @ jobs) s0 s1"
  shows "carry_triples_ready (cp_inventory s0) oid sh [j..<b]" "carry_triples_ready (cp_inventory s1) oid sh [j..<b]"
proof -
  have "\<exists>t0 t1. iv_triples (cp_inventory s0) (carry_id oid k) = Some t0 \<and> iv_triples (cp_inventory s1) (carry_id oid k) = Some t1
     \<and> bt_shape t0 = sh \<and> bt_shape t1 = sh" if "j \<le> k" "k < b" for k
  proof -
    obtain i t0 t1 where m: "m k = (i, t0, t1)" by (cases "m k")
    have "(carry_id oid k, sh, i, t0, t1) \<in> set (carry_jobs oid sh m j b @ jobs)" using that m by (force simp: carry_jobs_def)
    then have "triple_shares sid sh i t0 t1" "iv_triples (cp_inventory s0) (carry_id oid k) = Some t0"
      "iv_triples (cp_inventory s1) (carry_id oid k) = Some t1"
      by (rule stockedD [OF assms])+
    then show ?thesis by (auto simp: triple_shares_def splits_def)
  qed
  then show "carry_triples_ready (cp_inventory s0) oid sh [j..<b]" "carry_triples_ready (cp_inventory s1) oid sh [j..<b]"
    by (fastforce simp: carry_triples_ready_def list_all_iff)+
qed

text \<open>What an exact truncation consumes, for both parties: a pair of masks under the operation and a triple per carry bit.\<close>

definition exact_material ::
  "'l burn_ops \<Rightarrow> string \<Rightarrow> string \<Rightarrow> u64array \<Rightarrow> nat \<Rightarrow> string \<Rightarrow> int \<Rightarrow> carry_material \<Rightarrow> job list
    \<Rightarrow> ('l, 'c) compute \<Rightarrow> ('l, 'c) compute \<Rightarrow> bool" where
  "exact_material ops sid oid R b mid budget m jobs s0 s1 \<longleftrightarrow>
     (\<exists>m0 m1 l0 l1. iv_exact_masks (cp_inventory s0) oid = Some m0 \<and> iv_exact_masks (cp_inventory s1) oid = Some m1
        \<and> exact_mask_shares sid R b mid budget m0 m1
        \<and> \<not> iv_cancelled (cp_inventory s0) \<and> \<not> iv_cancelled (cp_inventory s1)
        \<and> opening_ready ops s0 mid budget (nd_size R) l0 \<and> opening_ready ops s1 mid budget (nd_size R) l1
        \<and> stocked ops sid (carry_jobs oid (nd_shape R) m 1 b @ jobs) (s0\<lparr>cp_ledger := l0\<rparr>) (s1\<lparr>cp_ledger := l1\<rparr>))"

lemma exact_tail_lock:
  assumes codec: "codec_ok packb unpackb" and pr: "paired sid s0 s1" and X: "shares_of sid X sc x0 x1"
    and M: "masks_of sid R b mid budget (ExactMask m0) (ExactMask m1)"
    and low: "splits (stack_bits R 0 b) (xm_low_bit_shares m0) (xm_low_bit_shares m1)" and sh: "nd_shape R = nd_shape X"
    and sc: "sc mod 2 ^ b = 0" and sz: "length (nd_shape X) \<le> 64" "nd_size X \<le> cp_max_opening_elements s0" and oid: "oid \<noteq> []"
    and bX: "\<forall>x \<in> set (nd_data X). \<bar>sint x\<bar> < 2 ^ 62"
    and pt: "paired sid (after_open mid budget n a0 l0 c0 s0) (after_open mid budget n a1 l1 c1 s1)"
    and fr: "fresh_ops (map (carry_id oid) [1..<b] @ oids) (after_open mid budget n a0 l0 c0 s0)"
      "fresh_ops (map (carry_id oid) [1..<b] @ oids) (after_open mid budget n a1 l1 c1 s1)"
    and stk: "stocked ops sid (carry_jobs oid (nd_shape R) m 1 b @ jobs) (s0\<lparr>cp_ledger := l0\<rparr>) (s1\<lparr>cp_ledger := l1\<rparr>)"
  shows "lock (pair_exchange packb unpackb sha now)
    (exact_tail ops packb unpackb now oid b (after_open mid budget n a0 l0 c0 s0) \<lparr>es_operation_id = oid, es_mask = ExactMask m0, es_output_scale = sc div 2 ^ b\<rparr>
       (value_opening (cp_runtime s0) oid (st_values x0) (em_value (ExactMask m0))) (value_opening (cp_runtime s1) oid (st_values x1) (em_value (ExactMask m1))))
    (exact_tail ops packb unpackb now oid b (after_open mid budget n a1 l1 c1 s1) \<lparr>es_operation_id = oid, es_mask = ExactMask m1, es_output_scale = sc div 2 ^ b\<rparr>
       (value_opening (cp_runtime s1) oid (st_values x1) (em_value (ExactMask m1))) (value_opening (cp_runtime s0) oid (st_values x0) (em_value (ExactMask m0))))
    (\<lambda>s0' u0 s1' u1. paired sid s0' s1' \<and> stocked ops sid jobs s0' s1' \<and> fresh_ops oids s0' \<and> fresh_ops oids s1'
        \<and> shares_of sid (nd_map (exact_floor b) X) (sc div 2 ^ b) u0 u1)"
proof -
  let ?c = "nd_map2 masked X R" and ?t0 = "\<lambda>a. after_open mid budget n a l0 c0 s0" and ?t1 = "\<lambda>a. after_open mid budget n a l1 c1 s1"
  let ?S = "\<lambda>m. \<lparr>es_operation_id = oid, es_mask = ExactMask m, es_output_scale = sc div 2 ^ b\<rparr>"
  note x = shares_ofD [OF X] and op = open_exact_pair [OF pr X M sh, of packb n]
  have wR: "nd_wf R" using M by (auto simp: masks_of_def dest: splits_wf)
  have wc: "nd_wf ?c" "nd_shape ?c = nd_shape R" using x wR sh by auto
  have okR: "tensor_ok R" using x(2) sh by (simp add: tensor_ok_def nd_size_def)
  obtain d0 where o0: "open_exact packb (cp_runtime (?t0 a0)) (?S m0) (value_opening (cp_runtime s0) oid (st_values x0) (em_value (ExactMask m0)))
      (value_opening (cp_runtime s1) oid (st_values x1) (em_value (ExactMask m1))) = (cp_runtime (?t0 d0), Inr ?c)"
    using op(1) by blast
  obtain d1 where o1: "open_exact packb (cp_runtime (?t1 a1)) (?S m1) (value_opening (cp_runtime s1) oid (st_values x1) (em_value (ExactMask m1)))
      (value_opening (cp_runtime s0) oid (st_values x0) (em_value (ExactMask m0))) = (cp_runtime (?t1 d1), Inr ?c)"
    using op(2) by blast
  have pd: "paired sid (?t0 d0) (?t1 d1)" by (rule paired_same [OF pt]) (simp_all add: same_binding_def)
  note pe = paired_peers [OF pd] and b = pairedD [OF pd]
  obtain k0 k1 where k: "result_tensor (cp_runtime (?t0 d0)) (oid @ '':carry:0'') (carry_start_values (nd_last_at (xm_low_bit_shares m0) 0) ?c) 1 = Inr k0"
    "result_tensor (cp_runtime (?t1 d1)) (oid @ '':carry:0'') (carry_start_values (nd_last_at (xm_low_bit_shares m1) 0) ?c) 1 = Inr k1"
    "shares_of sid (carry_at 1 R ?c) 1 k0 k1"
    using exact_start_pair [OF pe M low wc okR oid] b(1) by auto
  have st0: "rt_call (?t0 a0) (exact_carry_start packb (cp_runtime (?t0 a0)) (?S m0) (value_opening (cp_runtime s0) oid (st_values x0) (em_value (ExactMask m0)))
      (value_opening (cp_runtime s1) oid (st_values x1) (em_value (ExactMask m1)))) = Ret (?t0 d0) (Inr (?c, k0))"
    using o0 k(1) by (simp add: exact_carry_start_def rt_call_def after_open_def opened_rt_def)
  have st1: "rt_call (?t1 a1) (exact_carry_start packb (cp_runtime (?t1 a1)) (?S m1) (value_opening (cp_runtime s1) oid (st_values x1) (em_value (ExactMask m1)))
      (value_opening (cp_runtime s0) oid (st_values x0) (em_value (ExactMask m0)))) = Ret (?t1 d1) (Inr (?c, k1))"
    using o1 k(2) by (simp add: exact_carry_start_def rt_call_def after_open_def opened_rt_def)
  have fr': "fresh_ops (map (carry_id oid) [1..<b] @ oids) (?t0 d0)" "fresh_ops (map (carry_id oid) [1..<b] @ oids) (?t1 d1)"
    by (rule fresh_ops_same [OF fr(1)], simp, rule fresh_ops_same [OF fr(2)], simp)
  have stk': "stocked ops sid (carry_jobs oid (nd_shape R) m 1 b @ jobs) (?t0 d0) (?t1 d1)"
    by (rule stocked_cong [OF stk]) simp_all
  have b1: "1 \<le> b" using M by (simp add: masks_of_def)
  have szR: "length (nd_shape R) \<le> 64" "nd_size R \<le> cp_max_opening_elements s0" using sz sh by (simp_all add: nd_size_def)
  have mx: "cp_max_opening_elements (?t0 d0) = cp_max_opening_elements s0" by simp
  note L = carry_loop_lock [OF codec wR wc okR szR exact_mask_pair [OF M low] b1 pd mx stk' fr' k(3), of sha now]
  show ?thesis unfolding exact_tail_def st0 st1 thenP_Inr prod.case
  proof (rule lock_then [OF L])
    fix s0' u0 s1' u1
    assume H: "paired sid s0' s1' \<and> stocked ops sid jobs s0' s1' \<and> fresh_ops oids s0' \<and> fresh_ops oids s1'
        \<and> shares_of sid (carry_at b R ?c) 1 u0 u1 \<and> kept (?t0 d0) s0' \<and> kept (?t1 d1) s1'"
    have pe': "peers (cp_runtime s0') (cp_runtime s1')" and sid: "cp_session s0' = sid" using H paired_peers pairedD by blast+
    obtain v0 v1 where v: "finish_exact_truncate (cp_runtime s0') (?S m0) ?c u0 (oid @ ''.result'') = Inr v0"
      "finish_exact_truncate (cp_runtime s1') (?S m1) ?c u1 (oid @ ''.result'') = Inr v1"
      "shares_of sid (nd_map (exact_floor b) X) (sc div 2 ^ b) v0 v1"
      using finish_exact_pair [OF pe', of X sc x0 x1 R b mid budget "ExactMask m0" "ExactMask m1" ?c u0 u1 "oid @ ''.result''" oid]
        X M sh H bX sc sid by auto
    with H show "lock (pair_exchange packb unpackb sha now)
       (Ret s0' (finish_exact_truncate (cp_runtime s0') (?S m0) ?c u0 (oid @ ''.result'')))
       (Ret s1' (finish_exact_truncate (cp_runtime s1') (?S m1) ?c u1 (oid @ ''.result'')))
       (\<lambda>s0' u0 s1' u1. paired sid s0' s1' \<and> stocked ops sid jobs s0' s1' \<and> fresh_ops oids s0' \<and> fresh_ops oids s1'
        \<and> shares_of sid (nd_map (exact_floor b) X) (sc div 2 ^ b) u0 u1)" by simp
  qed
qed

lemma truncate_exact_lock:
  assumes codec: "codec_ok packb unpackb" and pr: "paired sid s0 s1" and X: "shares_of sid X sc x0 x1"
    and meth: "cp_truncation s0 = ''exact''" "cp_truncation s1 = ''exact''"
    and mat: "exact_material ops sid oid R b mid budget m jobs s0 s1" and sh: "nd_shape R = nd_shape X"
    and fr: "fresh_ops (oid # map (carry_id oid) [1..<b] @ oids) s0" "fresh_ops (oid # map (carry_id oid) [1..<b] @ oids) s1"
    and bd: "0 < bd" "bd < 2 ^ 62" and sc: "sc mod 2 ^ b = 0" and bX: "\<forall>x \<in> set (nd_data X). \<bar>sint x\<bar> < 2 ^ 62"
    and sz: "length (nd_shape X) \<le> 64" "nd_size X \<le> cp_max_opening_elements s0"
  shows "lock (pair_exchange packb unpackb sha now)
     (truncate_exact ops packb unpackb now s0 x0 oid b bd) (truncate_exact ops packb unpackb now s1 x1 oid b bd)
     (\<lambda>s0' u0 s1' u1. paired sid s0' s1' \<and> stocked ops sid jobs s0' s1' \<and> fresh_ops oids s0' \<and> fresh_ops oids s1'
        \<and> shares_of sid (nd_map (exact_floor b) X) (sc div 2 ^ b) u0 u1)"
proof -
  obtain m0 m1 l0 l1 where i: "iv_exact_masks (cp_inventory s0) oid = Some m0" "iv_exact_masks (cp_inventory s1) oid = Some m1"
    and ms: "exact_mask_shares sid R b mid budget m0 m1"
    and nc: "\<not> iv_cancelled (cp_inventory s0)" "\<not> iv_cancelled (cp_inventory s1)"
    and rdy: "opening_ready ops s0 mid budget (nd_size R) l0" "opening_ready ops s1 mid budget (nd_size R) l1"
    and stk: "stocked ops sid (carry_jobs oid (nd_shape R) m 1 b @ jobs) (s0\<lparr>cp_ledger := l0\<rparr>) (s1\<lparr>cp_ledger := l1\<rparr>)"
    using mat unfolding exact_material_def by blast
  note bi = pairedD [OF pr] and x = shares_ofD [OF X]
  have M: "masks_of sid R b mid budget (ExactMask m0) (ExactMask m1)" and low: "splits (stack_bits R 0 b) (xm_low_bit_shares m0) (xm_low_bit_shares m1)"
    and bits: "xm_bits m0 = b" "xm_bits m1 = b" using ms by (auto simp: exact_mask_shares_def masks_of_def)
  have ms: "nd_shape (xm_value m0) = st_shape x0" "nd_shape (xm_value m1) = st_shape x1"
    using M sh x by (auto simp: masks_of_def splits_def)
  have cr: "carry_triples_ready (cp_inventory s0) oid (st_shape x0) [1..<b]" "carry_triples_ready (cp_inventory s1) oid (st_shape x1) [1..<b]"
    using carry_ready [OF stk] x(6,7) sh by simp_all
  let ?s0 = "s0\<lparr>cp_inventory := (cp_inventory s0)\<lparr>iv_exact_masks := (iv_exact_masks (cp_inventory s0))(oid := None)\<rparr>\<rparr>"
    and ?s1 = "s1\<lparr>cp_inventory := (cp_inventory s1)\<lparr>iv_exact_masks := (iv_exact_masks (cp_inventory s1))(oid := None)\<rparr>\<rparr>"
  have idn: "iv_session_id (cp_inventory s0) = cp_session s0" "iv_party (cp_inventory s0) = cp_party s0"
    "iv_session_id (cp_inventory s1) = cp_session s1" "iv_party (cp_inventory s1) = cp_party s1" using bi by simp_all
  note t0 = truncate_exact_step [OF meth(1) idn(1,2) nc(1) i(1) ms(1) bits(1) cr(1), of ops packb unpackb now bd]
    and t1 = truncate_exact_step [OF meth(2) idn(3,4) nc(2) i(2) ms(2) bits(2) cr(2), of ops packb unpackb now bd]
  have pr': "paired sid ?s0 ?s1" by (rule paired_same [OF pr]) (simp_all add: same_binding_def)
  have fr': "fresh_ops (oid # map (carry_id oid) [1..<b] @ oids) ?s0" "fresh_ops (oid # map (carry_id oid) [1..<b] @ oids) ?s1"
    by (rule fresh_ops_same [OF fr(1)], simp, rule fresh_ops_same [OF fr(2)], simp)
  have rdy': "opening_ready ops ?s0 mid budget (nd_size X) l0" "opening_ready ops ?s1 mid budget (nd_size X) l1"
    using rdy sh by (simp_all add: opening_ready_def nd_size_def)
  have stk': "stocked ops sid (carry_jobs oid (nd_shape R) m 1 b @ jobs) (?s0\<lparr>cp_ledger := l0\<rparr>) (?s1\<lparr>cp_ledger := l1\<rparr>)"
    by (rule stocked_cong [OF stk]) simp_all
  have mx: "nd_size X \<le> cp_max_opening_elements ?s0" using sz(2) by simp
  have kd: "''truncate.exact.open'' \<noteq> []" "utf8_len ''truncate.exact.open'' \<le> 64" by (simp_all add: utf8_len_def)
  have oid: "oid \<noteq> []" using fr by (auto simp: fresh_ops_def wire_id_def)
  show ?thesis unfolding t0 t1
    by (rule lock_raise, rule open_lock [OF codec pr' fr' kd X M sh rdy' bd sc sz(1) mx])
      (rule exact_tail_lock [OF codec pr' X M low sh sc sz(1) mx oid bX _ _ _ stk'])
qed

end
