(* ===== verification/Compute_Correct.thy ===== *)
theory Compute_Correct
  imports Exact_Protocol
begin

text \<open>
  Truncation with one-use point keys over the network, and the end-to-end theorems of
  \<^verbatim>\<open>SharedComputeParty\<close>: multiplication, exact truncation and truncation with point keys, each with two
  concrete parties for which its hypotheses hold.
\<close>

section \<open>Truncation with point keys over the network\<close>

lemma mapE_index: "(\<And>i. i < length xs \<Longrightarrow> f (xs ! i) = Inr (g i)) \<Longrightarrow> mapE f xs = Inr (map g [0..<length xs])"
proof (induction xs arbitrary: g)
  case (Cons x xs)
  have "f x = Inr (g 0)" using Cons.prems [of 0] by simp
  moreover have "mapE f xs = Inr (map (g \<circ> Suc) [0..<length xs])"
    using Cons.prems [of "Suc _"] by (intro Cons.IH) auto
  ultimately show ?case by (simp add: upt_conv_Cons map_Suc_upt [symmetric] del: upt_Suc)
qed simp

text \<open>The mask as the inventory holds it: the keys of a dealt mask, expanded.\<close>

definition expanded :: "hmac_fun \<Rightarrow> FssTruncationMaskShare \<Rightarrow> FssTruncationMaskShare \<Rightarrow> bool" where
  "expanded hmac m p \<longleftrightarrow> (\<exists>ks. mapE (PointKeyShare_prepare hmac) (fm_comparison_keys m) = Inr ks \<and> p = m\<lparr>fm_comparison_keys := ks\<rparr>)"

lemma low_bits_less: "uint ((c :: 64 word) AND (2 ^ low - 1)) < uint (r AND (2 ^ low - 1)) \<longleftrightarrow> low_gt low r c"
  by (simp add: low_gt_def word_less_def take_bit_eq_mask mask_eq_exp_minus_1)

lemma key_comparison:
  assumes "comparison_pair hmac sid gate low r (k0, k1)" and "low \<le> 10"
    and "PointKeyShare_prepare hmac k0 = Inr p0" "PointKeyShare_prepare hmac k1 = Inr p1"
  shows "\<exists>b0 b1. snd (less_than_share hmac p0 (uint (c AND (2 ^ low - 1)))) = Inr b0
    \<and> snd (less_than_share hmac p1 (uint (c AND (2 ^ low - 1)))) = Inr b1 \<and> (b0 \<noteq> b1) = low_gt low r c"
proof -
  obtain s d e where i: "issue hmac d e gate (uint (r AND (2 ^ low - 1))) low = (s, Inr (k0, k1))"
    using assms(1) by (auto simp: comparison_pair_def)
  note k = issue_ok [OF i]
  let ?v = "uint (c AND (2 ^ low - 1))"
  have v: "0 \<le> ?v" "?v < 2 ^ low" using mask_uint_bound by auto
  obtain b0 b1 where b: "snd (less_than_share hmac k0 ?v) = Inr b0" "snd (less_than_share hmac k1 ?v) = Inr b1"
    "(b0 \<noteq> b1) = (?v < uint (r AND (2 ^ low - 1)))" using issue_less_than [OF i v] by blast
  have "snd (less_than_share hmac p0 ?v) = Inr b0" "snd (less_than_share hmac p1 ?v) = Inr b1"
    using prepare_then_less_than [of k0 ?v hmac] prepare_then_less_than [of k1 ?v hmac] k v assms(3,4) b by auto
  with b(3) show ?thesis by (auto simp: low_bits_less)
qed

lemma expandedD:
  assumes "expanded hmac m p"
  shows "p = m\<lparr>fm_comparison_keys := fm_comparison_keys p\<rparr>" "length (fm_comparison_keys p) = length (fm_comparison_keys m)"
    "\<And>i. i < length (fm_comparison_keys m) \<Longrightarrow> PointKeyShare_prepare hmac (fm_comparison_keys m ! i) = Inr (fm_comparison_keys p ! i)"
  using assms mapE_nth mapE_length by (fastforce simp: expanded_def)+

lemma expandedD_fields [simp]:
  assumes "expanded hmac m p"
  shows "fm_session_id p = fm_session_id m" "fm_mask_id p = fm_mask_id m" "fm_party p = fm_party m" "fm_bits p = fm_bits m"
    "fm_opened_element_budget p = fm_opened_element_budget m" "fm_value p = fm_value m" "fm_shifted p = fm_shifted m"
    "fm_sign_bit_share p = fm_sign_bit_share m" "fm_xor_mask_share p = fm_xor_mask_share m"
    "fm_ring_mask_share p = fm_ring_mask_share m" "fm_comparison_bits p = fm_comparison_bits m" "fm_high_bit_shares p = fm_high_bit_shares m"
  using assms by (auto simp: expanded_def)

lemma comparison_pairs:
  assumes S: "fss_mask_shares hmac sid R b low mid budget m0 m1" and E: "expanded hmac m0 p0" "expanded hmac m1 p1"
    and c: "nd_wf c" "nd_shape c = nd_shape R"
  shows "\<exists>B0 B1. comparison_shares hmac p0 c = Inr B0 \<and> comparison_shares hmac p1 c = Inr B1
     \<and> length B0 = nd_size R \<and> length B1 = nd_size R
     \<and> (\<forall>i < nd_size R. (B0 ! i \<noteq> B1 ! i) = (low_gt low (nd_data R ! i) (nd_data c ! i)
            \<noteq> (nd_data (fm_xor_mask_share m0) ! i \<noteq> nd_data (fm_xor_mask_share m1) ! i)))"
proof -
  let ?n = "nd_size R" and ?x0 = "nd_data (fm_xor_mask_share m0)" and ?x1 = "nd_data (fm_xor_mask_share m1)"
  let ?k0 = "fm_comparison_keys p0" and ?k1 = "fm_comparison_keys p1"
  have s: "length (fm_comparison_keys m0) = ?n" "length (fm_comparison_keys m1) = ?n" "low \<le> 10"
    "fm_comparison_bits m0 = low" "fm_comparison_bits m1 = low" "length ?x0 = ?n" "length ?x1 = ?n"
    "nd_size (fm_xor_mask_share m0) = ?n" "nd_size (fm_xor_mask_share m1) = ?n"
    using S by (auto simp: fss_mask_shares_def nd_wf_def nd_size_def)
  have cn: "length (nd_data c) = ?n" "nd_size c = ?n" using c by (simp_all add: nd_wf_def nd_size_def)
  have kl: "length ?k0 = ?n" "length ?k1 = ?n" using expandedD(2) [OF E(1)] expandedD(2) [OF E(2)] s by simp_all
  have "\<exists>b0 b1. snd (less_than_share hmac (?k0 ! i) (uint (nd_data c ! i AND (2 ^ low - 1)))) = Inr b0
      \<and> snd (less_than_share hmac (?k1 ! i) (uint (nd_data c ! i AND (2 ^ low - 1)))) = Inr b1
      \<and> (b0 \<noteq> b1) = low_gt low (nd_data R ! i) (nd_data c ! i)" if i: "i < ?n" for i
  proof -
    have "comparison_pair hmac sid (fss_gate_id mid i) low (nd_data R ! i) (fm_comparison_keys m0 ! i, fm_comparison_keys m1 ! i)"
      using S i by (simp add: fss_mask_shares_def)
    from key_comparison [OF this s(3)] expandedD(3) [OF E(1)] expandedD(3) [OF E(2)] i s show ?thesis by simp
  qed
  then obtain b0 b1 where b: "\<And>i. i < ?n \<Longrightarrow> snd (less_than_share hmac (?k0 ! i) (uint (nd_data c ! i AND (2 ^ low - 1)))) = Inr (b0 i)
      \<and> snd (less_than_share hmac (?k1 ! i) (uint (nd_data c ! i AND (2 ^ low - 1)))) = Inr (b1 i)
      \<and> (b0 i \<noteq> b1 i) = low_gt low (nd_data R ! i) (nd_data c ! i)" by metis
  have z: "length (zip ?k0 (zip (nd_data c) ?x0)) = ?n" "length (zip ?k1 (zip (nd_data c) ?x1)) = ?n" using kl cn s by simp_all
  have "mapE (comparison_share hmac low) (zip ?k0 (zip (nd_data c) ?x0)) = Inr (map (\<lambda>i. b0 i \<noteq> ?x0 ! i) [0..<?n])"
    using mapE_index [of "zip ?k0 (zip (nd_data c) ?x0)" "comparison_share hmac low" "\<lambda>i. b0 i \<noteq> ?x0 ! i"] b z kl cn s
    by (simp add: comparison_share_def)
  moreover have "mapE (comparison_share hmac low) (zip ?k1 (zip (nd_data c) ?x1)) = Inr (map (\<lambda>i. b1 i \<noteq> ?x1 ! i) [0..<?n])"
    using mapE_index [of "zip ?k1 (zip (nd_data c) ?x1)" "comparison_share hmac low" "\<lambda>i. b1 i \<noteq> ?x1 ! i"] b z kl cn s
    by (simp add: comparison_share_def)
  ultimately have "comparison_shares hmac p0 c = Inr (map (\<lambda>i. b0 i \<noteq> ?x0 ! i) [0..<?n])"
    "comparison_shares hmac p1 c = Inr (map (\<lambda>i. b1 i \<noteq> ?x1 ! i) [0..<?n])"
    using E kl cn s by (simp_all add: comparison_shares_def)
  then show ?thesis using b by auto
qed

definition public_bits :: "u64array \<Rightarrow> bool list \<Rightarrow> bool list \<Rightarrow> u64array" where
  "public_bits c B0 B1 = \<lparr>nd_shape = nd_shape c, nd_data = map2 (\<lambda>a b. of_bool (a \<noteq> b)) B0 B1\<rparr>"

lemma public_bits_comm: "length B0 = length B1 \<Longrightarrow> public_bits c B1 B0 = public_bits c B0 B1"
  unfolding public_bits_def by (auto intro!: nth_equalityI)

lemma fss_carry_splits:
  assumes S: "fss_mask_shares hmac sid R b low mid budget m0 m1" and R: "nd_wf R" and c: "nd_wf c" "nd_shape c = nd_shape R"
    and B: "length B0 = nd_size R" "length B1 = nd_size R"
    and eq: "\<forall>i < nd_size R. (B0 ! i \<noteq> B1 ! i) = (low_gt low (nd_data R ! i) (nd_data c ! i)
            \<noteq> (nd_data (fm_xor_mask_share m0) ! i \<noteq> nd_data (fm_xor_mask_share m1) ! i))"
  shows "splits (carry_at low R c) (fss_carry_values 0 (fm_ring_mask_share m0) (public_bits c B0 B1))
     (fss_carry_values 1 (fm_ring_mask_share m1) (public_bits c B0 B1))"
proof -
  let ?sh = "nd_shape R" and ?P = "public_bits c B0 B1"
  let ?Z = "nd_map of_bool (nd_map2 (\<noteq>) (fm_xor_mask_share m0) (fm_xor_mask_share m1)) :: u64array"
  have z: "splits ?Z (fm_ring_mask_share m0) (fm_ring_mask_share m1)" and x: "nd_wf (fm_xor_mask_share m0)" "nd_wf (fm_xor_mask_share m1)"
    "nd_shape (fm_xor_mask_share m0) = ?sh" "nd_shape (fm_xor_mask_share m1) = ?sh"
    using S by (auto simp: fss_mask_shares_def)
  have zs: "nd_shape ?Z = ?sh" using x by simp
  note rm = splits_data [OF z zs]
  have L: "length (nd_data R) = prod_list ?sh" "length (nd_data c) = prod_list ?sh" "length (nd_data (fm_xor_mask_share m0)) = prod_list ?sh"
    "length (nd_data (fm_xor_mask_share m1)) = prod_list ?sh" "length B0 = prod_list ?sh" "length B1 = prod_list ?sh"
    using R c x B by (simp_all add: nd_wf_def nd_size_def)
  show ?thesis
  proof (rule splits_dataI [where sh = ?sh])
    fix i assume i: "i < prod_list ?sh"
    have e: "(of_bool (nd_data (fm_xor_mask_share m0) ! i \<noteq> nd_data (fm_xor_mask_share m1) ! i) :: 64 word)
        = nd_data (fm_ring_mask_share m0) ! i + nd_data (fm_ring_mask_share m1) ! i"
      using rm(6) [OF i] i L by simp
    have q: "(B0 ! i \<noteq> B1 ! i) = (low_gt low (nd_data R ! i) (nd_data c ! i)
        \<noteq> (nd_data (fm_xor_mask_share m0) ! i \<noteq> nd_data (fm_xor_mask_share m1) ! i))" using eq i by (simp add: nd_size_def)
    have w: "of_bool g = (of_bool y :: 64 word) * (1 - 2 * of_bool p) + of_bool p" if "p = (g \<noteq> y)" for g y p
      using that by (cases g; cases y) simp_all
    have "(of_bool (low_gt low (nd_data R ! i) (nd_data c ! i)) :: 64 word)
        = (nd_data (fm_ring_mask_share m0) ! i + nd_data (fm_ring_mask_share m1) ! i) * (1 - 2 * of_bool (B0 ! i \<noteq> B1 ! i)) + of_bool (B0 ! i \<noteq> B1 ! i)"
      unfolding e [symmetric] by (rule w [OF q])
    then show "nd_data (carry_at low R c) ! i = nd_data (fss_carry_values 0 (fm_ring_mask_share m0) ?P) ! i
        + nd_data (fss_carry_values 1 (fm_ring_mask_share m1) ?P) ! i"
      using i L rm(1,2,4,5) by (simp add: carry_at_def fss_carry_values_def public_bits_def Let_def algebra_simps)
  qed (use L rm x c in \<open>simp_all add: carry_at_def fss_carry_values_def public_bits_def Let_def\<close>)
qed

text \<open>What follows the opening, up to the exchange of the comparison bits and after it.\<close>

definition fss_finish where
  "fss_finish ops packb unpackb now oid bits msk state opened comparison s peer_bits =
     thenP (Ret s (fss_carry_share (cp_runtime s) state opened (public_bits opened comparison peer_bits))) (\<lambda>s carry.
     thenP (carry_loop ops packb unpackb now oid state opened [fm_comparison_bits msk..<bits] s carry) (\<lambda>s carry.
     Ret s (finish_exact_truncate (cp_runtime s) state opened carry (oid @ ''.result''))))"

definition fss_tail where
  "fss_tail hmac ops packb unpackb now oid bits msk s state opening peer_opening =
     thenP (rt_call s (open_exact packb (cp_runtime s) state opening peer_opening)) (\<lambda>s opened.
     thenP (Ret s (comparison_shares hmac msk opened)) (\<lambda>s comparison.
     thenP (Ret s (pack_bit_shares comparison)) (\<lambda>s packed.
     thenP (exchangeP ''truncate.fss.bit'' (oid @ ''.bit'') packed s) (\<lambda>s payload.
     thenP (Ret s (unpack_bit_shares payload (int (nd_size opened)))) (\<lambda>s peer_bits.
     thenP (Ret (count_bits (length packed) s) (Inr ())) (\<lambda>s _.
     fss_finish ops packb unpackb now oid bits msk state opened comparison s peer_bits))))))"

lemma take_fss_ok:
  assumes "iv_session_id i = sid" "iv_party i = p" "\<not> iv_cancelled i" "iv_fss_masks i oid = Some m"
    and "nd_shape (fm_value m) = sh" "fm_bits m = b" "\<forall>k \<in> set (fm_comparison_keys m). expanded_bytes k \<noteq> 0"
    and "carry_triples_ready i oid sh [fm_comparison_bits m..<b]"
  shows "preflight_fss_truncation i sid oid sh p b = Inr ()"
    "take_fss_truncation i sid oid sh p b = (i\<lparr>iv_fss_masks := (iv_fss_masks i)(oid := None),
       iv_fss_key_bytes := iv_fss_key_bytes i - FssTruncationMaskShare_key_bytes m\<rparr>, Inr m)"
  using assms by (simp_all add: preflight_fss_truncation_def take_fss_truncation_def require_identity_def list_ex_iff raise_if_def onS_def)

definition fss_taken :: "string \<Rightarrow> FssTruncationMaskShare \<Rightarrow> ('l, 'c) compute \<Rightarrow> ('l, 'c) compute" where
  "fss_taken oid m s = s\<lparr>cp_inventory := (cp_inventory s)\<lparr>iv_fss_masks := (iv_fss_masks (cp_inventory s))(oid := None),
     iv_fss_key_bytes := iv_fss_key_bytes (cp_inventory s) - FssTruncationMaskShare_key_bytes m\<rparr>\<rparr>"

lemma truncate_fss_step:
  assumes "cp_truncation s = ''fss'' \<and> b \<le> 10 \<or> cp_truncation s = ''fss_lowbits_exact_highbits''"
    "iv_session_id (cp_inventory s) = cp_session s" "iv_party (cp_inventory s) = cp_party s"
    and "\<not> iv_cancelled (cp_inventory s)" "iv_fss_masks (cp_inventory s) oid = Some m"
    and "nd_shape (fm_value m) = st_shape x" "fm_bits m = b" "\<forall>k \<in> set (fm_comparison_keys m). expanded_bytes k \<noteq> 0"
    and "carry_triples_ready (cp_inventory s) oid (st_shape x) [fm_comparison_bits m..<b]"
  shows "truncate_fss hmac ops packb unpackb now s x oid b bd = on_raise (cancel_and_abort ''shared FSS truncation failed: '' now)
     (open_then ops packb unpackb ''truncate.fss.open'' oid x (FssMask m) bd (fss_taken oid m s)
       (fss_tail hmac ops packb unpackb now oid b m))"
  using assms(1) take_fss_ok [OF assms(2-9)]
  by (auto simp: truncate_fss_def inv_call_of_def open_then_def fss_tail_def fss_finish_def public_bits_def fss_taken_def)

lemma prepare_loop_length: "prepare_loop hmac k is running prefix = Inr f \<Longrightarrow> length f = length prefix"
  by (induction hmac k "is" running prefix rule: prepare_loop.induct) (auto simp: res_simps set_bit_byte_def)

lemma expanded_bytes_nonzero:
  assumes "expanded hmac m p" and "k \<in> set (fm_comparison_keys p)"
  shows "expanded_bytes k \<noteq> 0"
proof -
  obtain i where i: "i < length (fm_comparison_keys p)" "k = fm_comparison_keys p ! i" using assms(2) by (metis in_set_conv_nth)
  note e = expandedD [OF assms(1)]
  have "PointKeyShare_prepare hmac (fm_comparison_keys m ! i) = Inr k" using e(2,3) i by simp
  then obtain f where f: "prepare_loop hmac (fm_comparison_keys m ! i) (rev [0..<2 ^ pk_bits (fm_comparison_keys m ! i)]) False
      (replicate ((2 ^ pk_bits (fm_comparison_keys m ! i) + 7) div 8) 0) = Inr f" "k = (fm_comparison_keys m ! i)\<lparr>pk_prefix := Some f\<rparr>"
    by (auto simp: PointKeyShare_prepare_def res_simps Let_def)
  have "length f = (2 ^ pk_bits (fm_comparison_keys m ! i) + 7) div 8" using prepare_loop_length [OF f(1)] by simp
  moreover have "(8 :: nat) \<le> 2 ^ n + 7" for n using one_le_power [of "2 :: nat" n] by linarith
  ultimately show ?thesis using f(2) by (simp add: expanded_bytes_def div_eq_0_iff not_less)
qed

lemma packed_length:
  assumes "pack_bit_shares bits = Inr q"
  shows "length q \<le> length bits"
proof -
  have "length (pack_bits_from i bs p) = length p" for i bs and p :: bytes
    by (induction i bs p rule: pack_bits_from.induct) simp_all
  with assms show ?thesis by (auto simp: pack_bit_shares_def res_simps)
qed

lemma fss_mask_pair:
  assumes "fss_mask_shares hmac sid R b low mid budget m0 m1" and "expanded hmac m0 p0" "expanded hmac m1 p1" and "nd_wf R"
  shows "mask_pair oid low b R \<lparr>es_operation_id = oid, es_mask = FssMask p0, es_output_scale = q\<rparr>
     \<lparr>es_operation_id = oid, es_mask = FssMask p1, es_output_scale = q\<rparr>"
proof -
  have "splits (stack_bits R low b) (fm_high_bit_shares m0) (fm_high_bit_shares m1)" using assms(1) by (simp add: fss_mask_shares_def)
  from stacked_splits [OF this assms(4)] assms show ?thesis by (auto simp: mask_pair_def fss_mask_shares_def mask_bit_shares_def)
qed

lemma fss_masks_of:
  assumes "fss_mask_shares hmac sid R b low mid budget m0 m1" and "expanded hmac m0 p0" "expanded hmac m1 p1"
  shows "masks_of sid R b mid budget (FssMask p0) (FssMask p1)"
  using assms by (simp add: masks_of_def fss_mask_shares_def)

lemma fss_carry_pair:
  assumes S: "fss_mask_shares hmac sid R b low mid budget m0 m1" and E: "expanded hmac m0 p0" "expanded hmac m1 p1"
    and R: "nd_wf R" "tensor_ok R" and c: "nd_wf c" "nd_shape c = nd_shape R" and pe: "peers r0 r1"
    and B: "length B0 = nd_size R" "length B1 = nd_size R"
      "\<forall>i < nd_size R. (B0 ! i \<noteq> B1 ! i) = (low_gt low (nd_data R ! i) (nd_data c ! i)
            \<noteq> (nd_data (fm_xor_mask_share m0) ! i \<noteq> nd_data (fm_xor_mask_share m1) ! i))"
  shows "\<exists>k0 k1. fss_carry_share r0 \<lparr>es_operation_id = oid, es_mask = FssMask p0, es_output_scale = q\<rparr> c (public_bits c B0 B1) = Inr k0
    \<and> fss_carry_share r1 \<lparr>es_operation_id = oid, es_mask = FssMask p1, es_output_scale = q\<rparr> c (public_bits c B1 B0) = Inr k1
    \<and> shares_of (rt_session_id r0) (carry_at low R c) 1 k0 k1"
proof -
  let ?P = "public_bits c B0 B1"
  have sw: "public_bits c B1 B0 = ?P" by (rule public_bits_comm) (use B in simp)
  have one: "\<not> (1 :: 64 word) < of_bool q" for q by (cases q) simp_all
  have bits: "\<not> list_ex (\<lambda>b. 1 < b) (nd_data ?P)" by (auto simp: public_bits_def list_ex_iff one)
  note sp = fss_carry_splits [OF S R(1) c B]
  have ok: "tensor_ok (carry_at low R c)" using R(2) by (simp add: carry_at_def tensor_ok_def)
  have sh: "nd_shape (fm_value p0) = nd_shape c" "nd_shape (fm_value p1) = nd_shape c" "nd_shape ?P = nd_shape c"
    using S E c by (auto simp: fss_mask_shares_def splits_def public_bits_def)
  obtain k0 k1 where k: "result_tensor r0 (oid @ '':carry:fss'') (fss_carry_values 0 (fm_ring_mask_share m0) ?P) 1 = Inr k0"
    "result_tensor r1 (oid @ '':carry:fss'') (fss_carry_values 1 (fm_ring_mask_share m1) ?P) 1 = Inr k1"
    "shares_of (rt_session_id r0) (carry_at low R c) 1 k0 k1"
    using result_shares [OF pe sp ok, of 1 "oid @ '':carry:fss''"] by auto
  have pt: "rt_party r0 = 0" "rt_party r1 = 1" using pe by (simp_all add: peers_def)
  show ?thesis unfolding sw fss_carry_share_def using k bits sh pt E by simp
qed

definition fss_material ::
  "hmac_fun \<Rightarrow> 'l burn_ops \<Rightarrow> string \<Rightarrow> string \<Rightarrow> u64array \<Rightarrow> nat \<Rightarrow> nat \<Rightarrow> string \<Rightarrow> int \<Rightarrow> carry_material \<Rightarrow> job list
    \<Rightarrow> ('l, 'c) compute \<Rightarrow> ('l, 'c) compute \<Rightarrow> bool" where
  "fss_material hmac ops sid oid R b low mid budget m jobs s0 s1 \<longleftrightarrow>
     (\<exists>m0 m1 p0 p1 l0 l1. fss_mask_shares hmac sid R b low mid budget m0 m1 \<and> expanded hmac m0 p0 \<and> expanded hmac m1 p1
        \<and> iv_fss_masks (cp_inventory s0) oid = Some p0 \<and> iv_fss_masks (cp_inventory s1) oid = Some p1
        \<and> \<not> iv_cancelled (cp_inventory s0) \<and> \<not> iv_cancelled (cp_inventory s1)
        \<and> opening_ready ops s0 mid budget (nd_size R) l0 \<and> opening_ready ops s1 mid budget (nd_size R) l1
        \<and> stocked ops sid (carry_jobs oid (nd_shape R) m low b @ jobs) (s0\<lparr>cp_ledger := l0\<rparr>) (s1\<lparr>cp_ledger := l1\<rparr>))"

lemma count_bits_after_open: "\<exists>st. count_bits n (after_open mid budget k a l c s) = after_open mid budget k st l c s"
  by (rule exI [of _ "a\<lparr>uploaded_bytes := uploaded_bytes a + n, downloaded_bytes := downloaded_bytes a + n\<rparr>"])
    (simp add: count_bits_def after_open_def opened_rt_def)

lemma rt_call_after_open:
  "rt_call (after_open mid budget n a l c s) (cp_runtime (after_open mid budget n d l c s), r) = Ret (after_open mid budget n d l c s) r"
  by (simp add: rt_call_def after_open_def)

lemma fss_finish_lock:
  assumes codec: "codec_ok packb unpackb" and X: "shares_of sid X sc x0 x1"
    and S: "fss_mask_shares hmac sid R b low mid budget m0 m1" and E: "expanded hmac m0 p0" "expanded hmac m1 p1"
    and sh: "nd_shape R = nd_shape X" and c: "c = nd_map2 masked X R"
    and sc: "sc mod 2 ^ b = 0" and sz: "length (nd_shape X) \<le> 64" "nd_size X \<le> cp_max_opening_elements t0"
    and bX: "\<forall>x \<in> set (nd_data X). \<bar>sint x\<bar> < 2 ^ 62"
    and pt: "paired sid t0 t1" and fr: "fresh_ops (map (carry_id oid) [low..<b] @ oids) t0" "fresh_ops (map (carry_id oid) [low..<b] @ oids) t1"
    and stk: "stocked ops sid (carry_jobs oid (nd_shape R) m low b @ jobs) t0 t1"
    and B: "length B0 = nd_size R" "length B1 = nd_size R"
      "\<forall>i < nd_size R. (B0 ! i \<noteq> B1 ! i) = (low_gt low (nd_data R ! i) (nd_data c ! i)
            \<noteq> (nd_data (fm_xor_mask_share m0) ! i \<noteq> nd_data (fm_xor_mask_share m1) ! i))"
  shows "lock (pair_exchange packb unpackb sha now)
    (fss_finish ops packb unpackb now oid b p0 \<lparr>es_operation_id = oid, es_mask = FssMask p0, es_output_scale = sc div 2 ^ b\<rparr> c B0 t0 B1)
    (fss_finish ops packb unpackb now oid b p1 \<lparr>es_operation_id = oid, es_mask = FssMask p1, es_output_scale = sc div 2 ^ b\<rparr> c B1 t1 B0)
    (\<lambda>s0' u0 s1' u1. paired sid s0' s1' \<and> stocked ops sid jobs s0' s1' \<and> fresh_ops oids s0' \<and> fresh_ops oids s1'
        \<and> shares_of sid (nd_map (exact_floor b) X) (sc div 2 ^ b) u0 u1)"
proof -
  let ?S = "\<lambda>p. \<lparr>es_operation_id = oid, es_mask = FssMask p, es_output_scale = sc div 2 ^ b\<rparr>"
  note x = shares_ofD [OF X] and M = fss_masks_of [OF S E] and pe = paired_peers [OF pt] and bi = pairedD [OF pt]
  have wR: "nd_wf R" using S by (auto simp: fss_mask_shares_def dest: splits_wf)
  have wc: "nd_wf c" "nd_shape c = nd_shape R" using x wR sh by (auto simp: c)
  have okR: "tensor_ok R" using x(2) sh by (simp add: tensor_ok_def nd_size_def)
  have lb: "low \<le> b" "fm_comparison_bits p0 = low" "fm_comparison_bits p1 = low" using S E by (auto simp: fss_mask_shares_def)
  obtain k0 k1 where k: "fss_carry_share (cp_runtime t0) (?S p0) c (public_bits c B0 B1) = Inr k0"
    "fss_carry_share (cp_runtime t1) (?S p1) c (public_bits c B1 B0) = Inr k1" "shares_of sid (carry_at low R c) 1 k0 k1"
    using fss_carry_pair [OF S E wR okR wc pe B, of oid "sc div 2 ^ b"] bi(1) by auto
  have szR: "length (nd_shape R) \<le> 64" "nd_size R \<le> cp_max_opening_elements t0" using sz sh by (simp_all add: nd_size_def)
  note L = carry_loop_lock [OF codec wR wc okR szR fss_mask_pair [OF S E wR] lb(1) pt refl stk fr k(3), of sha now]
  show ?thesis unfolding fss_finish_def k(1,2) lb(2,3) thenP_Inr
  proof (rule lock_then [OF L])
    fix s0' u0 s1' u1
    assume H: "paired sid s0' s1' \<and> stocked ops sid jobs s0' s1' \<and> fresh_ops oids s0' \<and> fresh_ops oids s1'
        \<and> shares_of sid (carry_at b R c) 1 u0 u1 \<and> kept t0 s0' \<and> kept t1 s1'"
    have pe': "peers (cp_runtime s0') (cp_runtime s1')" and sid: "cp_session s0' = sid" using H paired_peers pairedD by blast+
    obtain v0 v1 where v: "finish_exact_truncate (cp_runtime s0') (?S p0) c u0 (oid @ ''.result'') = Inr v0"
      "finish_exact_truncate (cp_runtime s1') (?S p1) c u1 (oid @ ''.result'') = Inr v1"
      "shares_of sid (nd_map (exact_floor b) X) (sc div 2 ^ b) v0 v1"
      using finish_exact_pair [OF pe', of X sc x0 x1 R b mid budget "FssMask p0" "FssMask p1" c u0 u1 "oid @ ''.result''" oid]
        X M sh H bX sc sid c by auto
    with H show "lock (pair_exchange packb unpackb sha now)
       (Ret s0' (finish_exact_truncate (cp_runtime s0') (?S p0) c u0 (oid @ ''.result'')))
       (Ret s1' (finish_exact_truncate (cp_runtime s1') (?S p1) c u1 (oid @ ''.result'')))
       (\<lambda>s0' u0 s1' u1. paired sid s0' s1' \<and> stocked ops sid jobs s0' s1' \<and> fresh_ops oids s0' \<and> fresh_ops oids s1'
        \<and> shares_of sid (nd_map (exact_floor b) X) (sc div 2 ^ b) u0 u1)" by simp
  qed
qed

lemma fss_tail_lock:
  assumes codec: "codec_ok packb unpackb" and pr: "paired sid s0 s1" and X: "shares_of sid X sc x0 x1"
    and S: "fss_mask_shares hmac sid R b low mid budget m0 m1" and E: "expanded hmac m0 p0" "expanded hmac m1 p1"
    and sh: "nd_shape R = nd_shape X" and sc: "sc mod 2 ^ b = 0"
    and sz: "length (nd_shape X) \<le> 64" "nd_size X \<le> cp_max_opening_elements s0"
    and bX: "\<forall>x \<in> set (nd_data X). \<bar>sint x\<bar> < 2 ^ 62"
    and pt: "paired sid (after_open mid budget n a0 l0 c0 s0) (after_open mid budget n a1 l1 c1 s1)"
    and fr: "fresh_ops ((oid @ ''.bit'') # map (carry_id oid) [low..<b] @ oids) (after_open mid budget n a0 l0 c0 s0)"
      "fresh_ops ((oid @ ''.bit'') # map (carry_id oid) [low..<b] @ oids) (after_open mid budget n a1 l1 c1 s1)"
    and stk: "stocked ops sid (carry_jobs oid (nd_shape R) m low b @ jobs) (s0\<lparr>cp_ledger := l0\<rparr>) (s1\<lparr>cp_ledger := l1\<rparr>)"
  shows "lock (pair_exchange packb unpackb sha now)
    (fss_tail hmac ops packb unpackb now oid b p0 (after_open mid budget n a0 l0 c0 s0) \<lparr>es_operation_id = oid, es_mask = FssMask p0, es_output_scale = sc div 2 ^ b\<rparr>
       (value_opening (cp_runtime s0) oid (st_values x0) (em_value (FssMask p0))) (value_opening (cp_runtime s1) oid (st_values x1) (em_value (FssMask p1))))
    (fss_tail hmac ops packb unpackb now oid b p1 (after_open mid budget n a1 l1 c1 s1) \<lparr>es_operation_id = oid, es_mask = FssMask p1, es_output_scale = sc div 2 ^ b\<rparr>
       (value_opening (cp_runtime s1) oid (st_values x1) (em_value (FssMask p1))) (value_opening (cp_runtime s0) oid (st_values x0) (em_value (FssMask p0))))
    (\<lambda>s0' u0 s1' u1. paired sid s0' s1' \<and> stocked ops sid jobs s0' s1' \<and> fresh_ops oids s0' \<and> fresh_ops oids s1'
        \<and> shares_of sid (nd_map (exact_floor b) X) (sc div 2 ^ b) u0 u1)"
proof -
  let ?c = "nd_map2 masked X R"
  let ?t0 = "\<lambda>a c. after_open mid budget n a l0 c s0" and ?t1 = "\<lambda>a c. after_open mid budget n a l1 c s1"
  note x = shares_ofD [OF X] and M = fss_masks_of [OF S E]
  note op = open_exact_pair [OF pr X M sh, of packb n]
  have wR: "nd_wf R" using S by (auto simp: fss_mask_shares_def dest: splits_wf)
  have wc: "nd_wf ?c" "nd_shape ?c = nd_shape R" "nd_size ?c = nd_size R" using x wR sh by (auto simp: nd_size_def)
  have nR: "nd_size R = nd_size X" "nd_size R \<noteq> 0" using sh x(2) by (simp_all add: nd_size_def tensor_ok_def)
  obtain d0 where o0: "rt_call (?t0 a0 c0) (open_exact packb (cp_runtime (?t0 a0 c0)) \<lparr>es_operation_id = oid, es_mask = FssMask p0, es_output_scale = sc div 2 ^ b\<rparr>
       (value_opening (cp_runtime s0) oid (st_values x0) (em_value (FssMask p0))) (value_opening (cp_runtime s1) oid (st_values x1) (em_value (FssMask p1))))
     = Ret (?t0 d0 c0) (Inr ?c)" using op(1) [of a0 l0 c0 oid "sc div 2 ^ b"] by (auto simp: rt_call_after_open)
  obtain d1 where o1: "rt_call (?t1 a1 c1) (open_exact packb (cp_runtime (?t1 a1 c1)) \<lparr>es_operation_id = oid, es_mask = FssMask p1, es_output_scale = sc div 2 ^ b\<rparr>
       (value_opening (cp_runtime s1) oid (st_values x1) (em_value (FssMask p1))) (value_opening (cp_runtime s0) oid (st_values x0) (em_value (FssMask p0))))
     = Ret (?t1 d1 c1) (Inr ?c)" using op(2) [of a1 l1 c1 oid "sc div 2 ^ b"] by (auto simp: rt_call_after_open)
  obtain B0 B1 where B: "comparison_shares hmac p0 ?c = Inr B0" "comparison_shares hmac p1 ?c = Inr B1" "length B0 = nd_size R" "length B1 = nd_size R"
    and eq: "\<forall>i < nd_size R. (B0 ! i \<noteq> B1 ! i) = (low_gt low (nd_data R ! i) (nd_data ?c ! i)
            \<noteq> (nd_data (fm_xor_mask_share m0) ! i \<noteq> nd_data (fm_xor_mask_share m1) ! i))"
    using comparison_pairs [OF S E wc(1,2)] by blast
  have ne: "B0 \<noteq> []" "B1 \<noteq> []" using B nR by auto
  obtain q0 q1 where q: "pack_bit_shares B0 = Inr q0" "pack_bit_shares B1 = Inr q1"
    using ne by (auto simp: pack_bit_shares_def)
  have ub: "unpack_bit_shares q0 (int (nd_size ?c)) = Inr B0" "unpack_bit_shares q1 (int (nd_size ?c)) = Inr B1"
    using pack_unpack_bits [OF q(1)] pack_unpack_bits [OF q(2)] B wc by simp_all
  have ql: "length q0 \<le> nd_size X" "length q1 \<le> nd_size X"
    using packed_length [OF q(1)] packed_length [OF q(2)] B nR by simp_all
  have pb: "length q0 \<le> pc_max_payload_bytes (cp_peer (?t0 d0 c0))" "length q1 \<le> pc_max_payload_bytes (cp_peer (?t1 d1 c1))"
    using ql sz(2) pt pairedD(9) [OF pr] by (auto simp: paired_def bound_def)
  have pd: "paired sid (?t0 d0 c0) (?t1 d1 c1)" by (rule paired_same [OF pt]) (simp_all add: same_binding_def)
  have fd: "fresh_ops ((oid @ ''.bit'') # map (carry_id oid) [low..<b] @ oids) (?t0 d0 c0)" "fresh_ops ((oid @ ''.bit'') # map (carry_id oid) [low..<b] @ oids) (?t1 d1 c1)"
    by (rule fresh_ops_same [OF fr(1)], simp, rule fresh_ops_same [OF fr(2)], simp)
  have kd: "''truncate.fss.bit'' \<noteq> []" "utf8_len ''truncate.fss.bit'' \<le> 64" by (simp_all add: utf8_len_def)
  obtain e0 e1 where ex: "pair_exchange packb unpackb sha now (?t0 d0 c0) (''truncate.fss.bit'', oid @ ''.bit'', q0) (?t1 d1 c1) (''truncate.fss.bit'', oid @ ''.bit'', q1)
      = ((?t0 d0 e0, Inr q1), (?t1 d1 e1, Inr q0))" "paired sid (?t0 d0 e0) (?t1 d1 e1)"
    "fresh_ops (map (carry_id oid) [low..<b] @ oids) (?t0 d0 e0)" "fresh_ops (map (carry_id oid) [low..<b] @ oids) (?t1 d1 e1)"
    using pair_exchange_ok [OF codec pd fd kd pb, of sha now] by (auto simp: after_open_def)
  obtain f0 f1 where cb: "count_bits (length q0) (?t0 d0 e0) = ?t0 f0 e0" "count_bits (length q1) (?t1 d1 e1) = ?t1 f1 e1"
    using count_bits_after_open by metis
  have pf: "paired sid (?t0 f0 e0) (?t1 f1 e1)" by (rule paired_same [OF ex(2)]) (simp_all add: same_binding_def)
  have ff: "fresh_ops (map (carry_id oid) [low..<b] @ oids) (?t0 f0 e0)" "fresh_ops (map (carry_id oid) [low..<b] @ oids) (?t1 f1 e1)"
    by (rule fresh_ops_same [OF ex(3)], simp, rule fresh_ops_same [OF ex(4)], simp)
  have sf: "stocked ops sid (carry_jobs oid (nd_shape R) m low b @ jobs) (?t0 f0 e0) (?t1 f1 e1)" by (rule stocked_cong [OF stk]) simp_all
  have mx: "nd_size X \<le> cp_max_opening_elements (?t0 f0 e0)" using sz(2) by simp
  note F = fss_finish_lock [OF codec X S E sh refl sc sz(1) mx bX pf ff sf B(3,4) eq, of sha now]
  show ?thesis unfolding fss_tail_def o0 o1 thenP_Inr B(1,2) q
    by (rule lock_exchange, rule ex(1)) (use ub cb F in simp)
qed

lemma truncate_fss_lock:
  assumes codec: "codec_ok packb unpackb" and pr: "paired sid s0 s1" and X: "shares_of sid X sc x0 x1"
    and meth: "cp_truncation s0 = ''fss'' \<and> b \<le> 10 \<or> cp_truncation s0 = ''fss_lowbits_exact_highbits''" "cp_truncation s1 = cp_truncation s0"
    and mat: "fss_material hmac ops sid oid R b low mid budget m jobs s0 s1" and sh: "nd_shape R = nd_shape X"
    and fr: "fresh_ops (oid # (oid @ ''.bit'') # map (carry_id oid) [low..<b] @ oids) s0"
      "fresh_ops (oid # (oid @ ''.bit'') # map (carry_id oid) [low..<b] @ oids) s1"
    and bd: "0 < bd" "bd < 2 ^ 62" and sc: "sc mod 2 ^ b = 0" and bX: "\<forall>x \<in> set (nd_data X). \<bar>sint x\<bar> < 2 ^ 62"
    and sz: "length (nd_shape X) \<le> 64" "nd_size X \<le> cp_max_opening_elements s0"
  shows "lock (pair_exchange packb unpackb sha now)
     (truncate_fss hmac ops packb unpackb now s0 x0 oid b bd) (truncate_fss hmac ops packb unpackb now s1 x1 oid b bd)
     (\<lambda>s0' u0 s1' u1. paired sid s0' s1' \<and> stocked ops sid jobs s0' s1' \<and> fresh_ops oids s0' \<and> fresh_ops oids s1'
        \<and> shares_of sid (nd_map (exact_floor b) X) (sc div 2 ^ b) u0 u1)"
proof -
  obtain m0 m1 p0 p1 l0 l1 where S: "fss_mask_shares hmac sid R b low mid budget m0 m1" and E: "expanded hmac m0 p0" "expanded hmac m1 p1"
    and i: "iv_fss_masks (cp_inventory s0) oid = Some p0" "iv_fss_masks (cp_inventory s1) oid = Some p1"
    and nc: "\<not> iv_cancelled (cp_inventory s0)" "\<not> iv_cancelled (cp_inventory s1)"
    and rdy: "opening_ready ops s0 mid budget (nd_size R) l0" "opening_ready ops s1 mid budget (nd_size R) l1"
    and stk: "stocked ops sid (carry_jobs oid (nd_shape R) m low b @ jobs) (s0\<lparr>cp_ledger := l0\<rparr>) (s1\<lparr>cp_ledger := l1\<rparr>)"
    using mat unfolding fss_material_def by blast
  note bi = pairedD [OF pr] and x = shares_ofD [OF X] and M = fss_masks_of [OF S E]
  have f: "fm_bits p0 = b" "fm_bits p1 = b" "fm_comparison_bits p0 = low" "fm_comparison_bits p1 = low"
    using S E by (auto simp: fss_mask_shares_def)
  have ms: "nd_shape (fm_value p0) = st_shape x0" "nd_shape (fm_value p1) = st_shape x1" using M sh x by (auto simp: masks_of_def splits_def)
  have ks: "\<forall>k \<in> set (fm_comparison_keys p0). expanded_bytes k \<noteq> 0" "\<forall>k \<in> set (fm_comparison_keys p1). expanded_bytes k \<noteq> 0"
    using expanded_bytes_nonzero E by blast+
  have cr: "carry_triples_ready (cp_inventory s0) oid (st_shape x0) [fm_comparison_bits p0..<b]"
    "carry_triples_ready (cp_inventory s1) oid (st_shape x1) [fm_comparison_bits p1..<b]"
    using carry_ready [OF stk] x(6,7) sh f by simp_all
  have idn: "iv_session_id (cp_inventory s0) = cp_session s0" "iv_party (cp_inventory s0) = cp_party s0"
    "iv_session_id (cp_inventory s1) = cp_session s1" "iv_party (cp_inventory s1) = cp_party s1" using bi by simp_all
  have meth1: "cp_truncation s1 = ''fss'' \<and> b \<le> 10 \<or> cp_truncation s1 = ''fss_lowbits_exact_highbits''" using meth by simp
  let ?s0 = "fss_taken oid p0 s0" and ?s1 = "fss_taken oid p1 s1"
  note t0 = truncate_fss_step [OF meth(1) idn(1,2) nc(1) i(1) ms(1) f(1) ks(1) cr(1), of hmac ops packb unpackb now bd]
    and t1 = truncate_fss_step [OF meth1 idn(3,4) nc(2) i(2) ms(2) f(2) ks(2) cr(2), of hmac ops packb unpackb now bd]
  have pr': "paired sid ?s0 ?s1" by (rule paired_same [OF pr]) (simp_all add: same_binding_def fss_taken_def)
  have fr': "fresh_ops (oid # (oid @ ''.bit'') # map (carry_id oid) [low..<b] @ oids) ?s0"
    "fresh_ops (oid # (oid @ ''.bit'') # map (carry_id oid) [low..<b] @ oids) ?s1"
    by (rule fresh_ops_same [OF fr(1)], simp add: fss_taken_def, rule fresh_ops_same [OF fr(2)], simp add: fss_taken_def)
  have rdy': "opening_ready ops ?s0 mid budget (nd_size X) l0" "opening_ready ops ?s1 mid budget (nd_size X) l1"
    using rdy sh by (simp_all add: opening_ready_def nd_size_def fss_taken_def)
  have stk': "stocked ops sid (carry_jobs oid (nd_shape R) m low b @ jobs) (?s0\<lparr>cp_ledger := l0\<rparr>) (?s1\<lparr>cp_ledger := l1\<rparr>)"
    by (rule stocked_cong [OF stk]) (simp_all add: fss_taken_def)
  have mx: "nd_size X \<le> cp_max_opening_elements ?s0" using sz(2) by (simp add: fss_taken_def)
  have kd: "''truncate.fss.open'' \<noteq> []" "utf8_len ''truncate.fss.open'' \<le> 64" by (simp_all add: utf8_len_def)
  show ?thesis unfolding t0 t1
    by (rule lock_raise, rule open_lock [OF codec pr' fr' kd X M sh rdy' bd sc sz(1) mx])
      (rule fss_tail_lock [OF codec pr' X S E sh sc sz(1) mx bX _ _ _ stk'])
qed

section \<open>End-to-end correctness\<close>

text \<open>
  C6: Network multiplication is correct end to end. Two compute parties of one session that hold shares
  of \<open>X\<close> and \<open>Y\<close> and whose inventories hold a dealt triple for the operation both return, over the real
  frames, and their results are shares of the element-wise product; the connections stay in step.
\<close>

theorem network_multiply:
  assumes "codec_ok packb unpackb" and "paired sid s0 s1" and "stocked ops sid [(oid, nd_shape X, k, t0, t1)] s0 s1"
    and "fresh_ops [oid] s0" "fresh_ops [oid] s1" and "shares_of sid X sx x0 x1" and "shares_of sid Y sy y0 y1"
    and "nd_shape Y = nd_shape X" and "length (nd_shape X) \<le> 64" and "nd_size X \<le> cp_max_opening_elements s0"
  shows "\<exists>s0' s1' u0 u1. run2 (lone_exchange packb unpackb sha now) (pair_exchange packb unpackb sha now)
      (compute_multiply ops packb unpackb now s0 x0 y0 oid) (compute_multiply ops packb unpackb now s1 x1 y1 oid)
      = ((s0', Inr u0), (s1', Inr u1)) \<and> paired sid s0' s1' \<and> shares_of sid (nd_mul X Y) (sx * sy) u0 u1"
  using lock_run2 [OF multiply_lock [OF assms(1-3) assms(4-5) assms(6-10), of sha now], of "lone_exchange packb unpackb sha now"]
  by blast

text \<open>
  C8: Exact truncation is exact end to end. For every shift width, two parties holding shares of
  bounded values and the dealt mask and carry triples both return from the network protocol (one
  masked opening and one multiplication per carry bit), and their results are shares of the values
  divided by \<open>2 ^ bits\<close> and rounded down, with no error in any element.
\<close>

theorem network_exact_truncation:
  assumes "codec_ok packb unpackb" and "paired sid s0 s1" and "shares_of sid X sc x0 x1"
    and "cp_truncation s0 = ''exact''" "cp_truncation s1 = ''exact''"
    and "exact_material ops sid oid R b mid budget m [] s0 s1" and "nd_shape R = nd_shape X"
    and "fresh_ops (oid # map (carry_id oid) [1..<b]) s0" "fresh_ops (oid # map (carry_id oid) [1..<b]) s1"
    and "0 < bd" "bd < 2 ^ 62" and "sc mod 2 ^ b = 0" and "\<forall>x \<in> set (nd_data X). \<bar>sint x\<bar> < 2 ^ 62"
    and "length (nd_shape X) \<le> 64" "nd_size X \<le> cp_max_opening_elements s0"
  shows "\<exists>s0' s1' u0 u1. run2 (lone_exchange packb unpackb sha now) (pair_exchange packb unpackb sha now)
      (compute_truncate hmac ops packb unpackb now s0 x0 oid b bd) (compute_truncate hmac ops packb unpackb now s1 x1 oid b bd)
      = ((s0', Inr u0), (s1', Inr u1)) \<and> paired sid s0' s1'
    \<and> shares_of sid (nd_map (\<lambda>x. word_of_int (sint x div 2 ^ b)) X) (sc div 2 ^ b) u0 u1"
proof -
  have e: "exact_floor b = (\<lambda>x. word_of_int (sint x div 2 ^ b))" by (simp add: exact_floor_def fun_eq_iff)
  have fr: "fresh_ops (oid # map (carry_id oid) [1..<b] @ []) s0" "fresh_ops (oid # map (carry_id oid) [1..<b] @ []) s1" using assms(8,9) by simp_all
  note L = truncate_exact_lock [OF assms(1-7) fr assms(10-15), of sha now, unfolded e]
  show ?thesis using lock_run2 [OF L, of "lone_exchange packb unpackb sha now"] assms(4,5) by (simp add: compute_truncate_def) blast
qed

text \<open>
  C9: Truncation with point keys is exact end to end. With the comparison of the low bits by expanded
  one-use point keys and the carry triples of the remaining bits, both methods \<^verbatim>\<open>fss\<close> and
  \<^verbatim>\<open>fss_lowbits_exact_highbits\<close> return at both parties shares of the values divided by \<open>2 ^ bits\<close> and
  rounded down.
\<close>

theorem network_fss_truncation:
  assumes "codec_ok packb unpackb" and "paired sid s0 s1" and "shares_of sid X sc x0 x1"
    and "cp_truncation s0 = ''fss'' \<and> b \<le> 10 \<or> cp_truncation s0 = ''fss_lowbits_exact_highbits''" "cp_truncation s1 = cp_truncation s0"
    and "fss_material hmac ops sid oid R b low mid budget m [] s0 s1" and "nd_shape R = nd_shape X"
    and "fresh_ops (oid # (oid @ ''.bit'') # map (carry_id oid) [low..<b]) s0" "fresh_ops (oid # (oid @ ''.bit'') # map (carry_id oid) [low..<b]) s1"
    and "0 < bd" "bd < 2 ^ 62" and "sc mod 2 ^ b = 0" and "\<forall>x \<in> set (nd_data X). \<bar>sint x\<bar> < 2 ^ 62"
    and "length (nd_shape X) \<le> 64" "nd_size X \<le> cp_max_opening_elements s0"
  shows "\<exists>s0' s1' u0 u1. run2 (lone_exchange packb unpackb sha now) (pair_exchange packb unpackb sha now)
      (compute_truncate hmac ops packb unpackb now s0 x0 oid b bd) (compute_truncate hmac ops packb unpackb now s1 x1 oid b bd)
      = ((s0', Inr u0), (s1', Inr u1)) \<and> paired sid s0' s1'
    \<and> shares_of sid (nd_map (\<lambda>x. word_of_int (sint x div 2 ^ b)) X) (sc div 2 ^ b) u0 u1"
proof -
  have e: "exact_floor b = (\<lambda>x. word_of_int (sint x div 2 ^ b))" by (simp add: exact_floor_def fun_eq_iff)
  have fr: "fresh_ops (oid # (oid @ ''.bit'') # map (carry_id oid) [low..<b] @ []) s0"
    "fresh_ops (oid # (oid @ ''.bit'') # map (carry_id oid) [low..<b] @ []) s1" using assms(8,9) by simp_all
  note L = truncate_fss_lock [OF assms(1-7) fr assms(10-15), of sha now, unfolded e]
  have ct: "compute_truncate hmac ops packb unpackb now s0 x0 oid b bd = truncate_fss hmac ops packb unpackb now s0 x0 oid b bd"
    "compute_truncate hmac ops packb unpackb now s1 x1 oid b bd = truncate_fss hmac ops packb unpackb now s1 x1 oid b bd"
    using assms(4,5) by (auto simp: compute_truncate_def)
  show ?thesis using lock_run2 [OF L, of "lone_exchange packb unpackb sha now"] unfolding ct by blast
qed

section \<open>A concrete pair of parties\<close>

definition demo_stock :: "nat \<Rightarrow> string \<Rightarrow> Inventory" where
  "demo_stock p oid = \<lparr>iv_session_id = ''s'', iv_party = p, iv_capacity = 9, iv_triples = [oid \<mapsto> demo_triple p],
     iv_masks = Map.empty, iv_exact_masks = Map.empty, iv_fss_masks = Map.empty, iv_fss_key_bytes = 0,
     iv_max_fss_key_bytes = 1000, iv_cancelled = False, iv_exact_admission = None\<rparr>"

definition demo_party :: "string \<Rightarrow> nat \<Rightarrow> Inventory \<Rightarrow> (mem_ledger, unit) compute" where
  "demo_party method p iv = \<lparr>cp_runtime = demo_rt p, cp_ledger = DEFAULT_BURN_LEDGER, cp_peer = demo_conn p,
     cp_inventory = iv, cp_max_opening_elements = 4, cp_truncation = method\<rparr>"

lemma demo_conn_simps [simp]:
  "pc_state (demo_conn p) = demo_open p" "pc_max_payload_bytes (demo_conn p) = 4096"
  "ss_operations (demo_open p) = {}" "ss_commitment (demo_open p) = demo_commitment" "ss_party (demo_open p) = p"
  "sc_maximum_operations demo_commitment = 9" "sc_session_id demo_commitment = ''s''"
  by (simp_all add: demo_conn_def demo_open_def demo_state_def demo_commitment_def)

lemma demo_paired:
  assumes "iv_session_id i0 = ''s''" "iv_party i0 = 0" "iv_session_id i1 = ''s''" "iv_party i1 = 1"
  shows "paired ''s'' (demo_party method 0 i0) (demo_party method 1 i1)"
  using assms demo_linked by (simp add: paired_def bound_def demo_party_def wire_id_def utf8_len_def)

lemma demo_fresh_ops:
  "distinct oids \<Longrightarrow> \<forall>oid \<in> set oids. oid \<noteq> [] \<and> length oid \<le> 64 \<Longrightarrow> length oids \<le> 9 \<Longrightarrow> fresh_ops oids (demo_party method p i)"
proof -
  have "utf8_len s \<le> 2 * length s" for s :: string by (induction s) (auto simp: utf8_len_def)
  then have u: "length s \<le> 64 \<Longrightarrow> utf8_len s \<le> 128" for s :: string by (rule order_trans) simp
  assume "distinct oids" "\<forall>oid \<in> set oids. oid \<noteq> [] \<and> length oid \<le> 64" "length oids \<le> 9"
  then show ?thesis using u by (auto simp: fresh_ops_def wire_id_def demo_party_def)
qed

lemma mem_burn_fresh: "k \<notin> ml_burned l \<Longrightarrow> int (card (ml_burned l)) < ml_capacity l \<Longrightarrow> k = (sid, p, kind, i) \<Longrightarrow>
   bl_burn mem_ops l sid p kind i = (l\<lparr>ml_burned := insert k (ml_burned l)\<rparr>, Inr ())"
  by (simp add: mem_ops_def mem_burn_def)

lemma demo_stocked:
  assumes "iv_triples (cp_inventory s0) oid = Some (demo_triple 0)" "iv_triples (cp_inventory s1) oid = Some (demo_triple 1)"
    and "rt_burned_triples (cp_runtime s0) = {}" "rt_burned_triples (cp_runtime s1) = {}"
    and "(''s'', 0, ''multiplication'', ''t'') \<notin> ml_burned (cp_ledger s0)" "(''s'', 1, ''multiplication'', ''t'') \<notin> ml_burned (cp_ledger s1)"
    and "int (card (ml_burned (cp_ledger s0))) < ml_capacity (cp_ledger s0)" "int (card (ml_burned (cp_ledger s1))) < ml_capacity (cp_ledger s1)"
  shows "stocked mem_ops ''s'' [(oid, [1], ''t'', demo_triple 0, demo_triple 1)] s0 s1"
  using assms demo_triple_shares by (simp add: stocked_def holds_def mem_ops_def mem_burn_def)

theorem network_multiply_witness:
  "\<exists>s0' s1' u0 u1. run2 (lone_exchange msg_enc msg_unpackb (\<lambda>_. 0) 3) (pair_exchange msg_enc msg_unpackb (\<lambda>_. 0) 3)
      (compute_multiply mem_ops msg_enc msg_unpackb 3 (demo_party ''exact'' 0 (demo_stock 0 ''op'')) (demo_tensor 0 [6] 4) (demo_tensor 0 [10] 2) ''op'')
      (compute_multiply mem_ops msg_enc msg_unpackb 3 (demo_party ''exact'' 1 (demo_stock 1 ''op'')) (demo_tensor 1 [1] 4) (demo_tensor 1 [1] 2) ''op'')
      = ((s0', Inr u0), (s1', Inr u1)) \<and> reconstruct u0 u1 = Inr (demo_nd [1] [77])"
proof -
  have X: "shares_of ''s'' (demo_nd [1] [7]) 4 (demo_tensor 0 [6] 4) (demo_tensor 1 [1] 4)" using demo_shares [of "[7]" "[1]" "[6]" 4] by simp
  have Y: "shares_of ''s'' (demo_nd [1] [11]) 2 (demo_tensor 0 [10] 2) (demo_tensor 1 [1] 2)" using demo_shares [of "[11]" "[1]" "[10]" 2] by simp
  have pr: "paired ''s'' (demo_party ''exact'' 0 (demo_stock 0 ''op'')) (demo_party ''exact'' 1 (demo_stock 1 ''op''))"
    by (rule demo_paired) (simp_all add: demo_stock_def)
  have st: "stocked mem_ops ''s'' [(''op'', nd_shape (demo_nd [1] [7 :: 64 word]), ''t'', demo_triple 0, demo_triple 1)]
      (demo_party ''exact'' 0 (demo_stock 0 ''op'')) (demo_party ''exact'' 1 (demo_stock 1 ''op''))"
    using demo_stocked [of "demo_party ''exact'' 0 (demo_stock 0 ''op'')" "''op''" "demo_party ''exact'' 1 (demo_stock 1 ''op'')"]
    by (simp add: demo_party_def demo_stock_def DEFAULT_BURN_LEDGER_def demo_nd_def)
  have fr: "fresh_ops [''op''] (demo_party ''exact'' p (demo_stock p ''op''))" for p by (rule demo_fresh_ops) simp_all
  have m: "nd_mul (demo_nd [1] [7]) (demo_nd [1] [11]) = demo_nd [1] [77 :: 64 word]" by (simp add: demo_nd_def nd_map2_def)
  show ?thesis
    using network_multiply [OF msg_codec_ok pr st fr fr X Y, of "\<lambda>_. 0" 3] reconstruct_shares unfolding m
    by (simp add: demo_nd_def demo_party_def nd_size_def) blast
qed

definition demo_exact_mask :: "nat \<Rightarrow> ExactTruncationMaskShare" where
  "demo_exact_mask p = \<lparr>xm_session_id = ''s'', xm_mask_id = ''m'', xm_party = p, xm_bits = 2, xm_opened_element_budget = 2,
     xm_value = demo_nd [1] [if p = 0 then 5 else 2], xm_shifted = demo_nd [1] [if p = 0 then 3 else - 2],
     xm_low_bit_shares = demo_nd [1, 2] (if p = 0 then [4, 5] else [- 3, - 4]),
     xm_sign_bit_share = demo_nd [1] [if p = 0 then 9 else - 9]\<rparr>"

definition demo_exact_party :: "string \<Rightarrow> nat \<Rightarrow> (mem_ledger, unit) compute" where
  "demo_exact_party oid p = demo_party ''exact'' p ((demo_stock p (carry_id oid 1))\<lparr>iv_exact_masks := [oid \<mapsto> demo_exact_mask p]\<rparr>)"

definition demo_opened_ledger :: "nat \<Rightarrow> mem_ledger" where
  "demo_opened_ledger p = DEFAULT_BURN_LEDGER\<lparr>ml_burned := {(''s'', p, ''truncation'', ''m'')},
      ml_truncation := [(''s'', p) \<mapsto> (exact_profile 2, 1)]\<rparr>"

lemma demo_opening_ready:
  "opening_ready mem_ops (demo_party method p i) ''m'' 2 1 (demo_opened_ledger p)"
  by (simp add: opening_ready_def demo_party_def demo_opened_ledger_def exact_profile_def mem_ops_def mem_burn_truncation_def
      DEFAULT_BURN_LEDGER_def)

lemma demo_seven: "drop_bit 2 (7 :: 64 word) = 1" "drop_bit 63 (7 :: 64 word) = 0" "(7 :: 64 word) AND 1 = 1" "drop_bit 1 (7 :: 64 word) AND 1 = 1"
  by code_simp+

lemma demo_exact_shares: "exact_mask_shares ''s'' (demo_nd [1] [7]) 2 ''m'' 2 (demo_exact_mask 0) (demo_exact_mask 1)"
proof -
  have "[0..<2] = [0, 1 :: nat]" by (simp add: upt_rec)
  then have st: "stack_bits (demo_nd [1] [7]) 0 2 = demo_nd [1, 2] [1, 1]"
    using demo_seven by (simp add: stack_bits_def demo_nd_def)
  show ?thesis unfolding exact_mask_shares_def st
    using demo_seven by (simp add: demo_exact_mask_def splits_def nd_wf_def demo_nd_def nd_map2_def nd_map_def)
qed

lemma demo_exact_material:
  "exact_material mem_ops ''s'' oid (demo_nd [1] [7]) 2 ''m'' 2 (\<lambda>_. (''t'', demo_triple 0, demo_triple 1)) []
     (demo_exact_party oid 0) (demo_exact_party oid 1)"
proof -
  have j: "carry_jobs oid (nd_shape (demo_nd [1] [7 :: 64 word])) (\<lambda>_. (''t'', demo_triple 0, demo_triple 1)) 1 2 @ []
      = [(carry_id oid 1, [1], ''t'', demo_triple 0, demo_triple 1)]"
    by (simp add: carry_jobs_def demo_nd_def upt_rec)
  have "stocked mem_ops ''s'' [(carry_id oid 1, [1], ''t'', demo_triple 0, demo_triple 1)]
      ((demo_exact_party oid 0)\<lparr>cp_ledger := demo_opened_ledger 0\<rparr>) ((demo_exact_party oid 1)\<lparr>cp_ledger := demo_opened_ledger 1\<rparr>)"
    by (rule demo_stocked) (simp_all add: demo_exact_party_def demo_party_def demo_stock_def demo_opened_ledger_def DEFAULT_BURN_LEDGER_def)
  moreover have "nd_size (demo_nd [1] [7 :: 64 word]) = 1" by (simp add: demo_nd_def nd_size_def)
  ultimately show ?thesis unfolding exact_material_def j
    using demo_exact_shares demo_opening_ready [of "''exact''"]
    by (intro exI [of _ "demo_exact_mask 0"] exI [of _ "demo_exact_mask 1"] exI [of _ "demo_opened_ledger 0"] exI [of _ "demo_opened_ledger 1"])
      (simp add: demo_exact_party_def demo_party_def demo_stock_def)
qed

lemma demo_X: "shares_of ''s'' (demo_nd [1] [13]) 4 (demo_tensor 0 [6] 4) (demo_tensor 1 [7] 4)"
  using demo_shares [of "[13]" "[7]" "[6]" 4] by simp

lemma demo_quotient: "nd_map (\<lambda>x. word_of_int (sint x div 2 ^ 2)) (demo_nd [1] [13 :: 64 word]) = demo_nd [1] [3 :: 64 word]"
  by (simp add: demo_nd_def nd_map_def)

theorem network_exact_truncation_witness:
  "\<exists>s0' s1' u0 u1. run2 (lone_exchange msg_enc msg_unpackb (\<lambda>_. 0) 3) (pair_exchange msg_enc msg_unpackb (\<lambda>_. 0) 3)
      (compute_truncate demo_hmac mem_ops msg_enc msg_unpackb 3 (demo_exact_party ''op'' 0) (demo_tensor 0 [6] 4) ''op'' 2 100)
      (compute_truncate demo_hmac mem_ops msg_enc msg_unpackb 3 (demo_exact_party ''op'' 1) (demo_tensor 1 [7] 4) ''op'' 2 100)
      = ((s0', Inr u0), (s1', Inr u1)) \<and> reconstruct u0 u1 = Inr (demo_nd [1] [3])"
proof -
  have pr: "paired ''s'' (demo_exact_party ''op'' 0) (demo_exact_party ''op'' 1)"
    unfolding demo_exact_party_def by (rule demo_paired) (simp_all add: demo_stock_def)
  have u: "[1..<2] = [1 :: nat]" by (simp add: upt_rec)
  have c: "carry_id ''op'' 1 = ''op.carry.1''" by code_simp
  have fr: "fresh_ops (''op'' # map (carry_id ''op'') [1..<2]) (demo_exact_party ''op'' p)" for p
    unfolding demo_exact_party_def u list.map append.simps c by (rule demo_fresh_ops) simp_all
  have ct: "cp_truncation (demo_exact_party ''op'' p) = ''exact''" "cp_max_opening_elements (demo_exact_party ''op'' p) = 4" for p
    by (simp_all add: demo_exact_party_def demo_party_def)
  have ex: "\<exists>s0' s1' u0 u1. run2 (lone_exchange msg_enc msg_unpackb (\<lambda>_. 0) 3) (pair_exchange msg_enc msg_unpackb (\<lambda>_. 0) 3)
      (compute_truncate demo_hmac mem_ops msg_enc msg_unpackb 3 (demo_exact_party ''op'' 0) (demo_tensor 0 [6] 4) ''op'' 2 100)
      (compute_truncate demo_hmac mem_ops msg_enc msg_unpackb 3 (demo_exact_party ''op'' 1) (demo_tensor 1 [7] 4) ''op'' 2 100)
      = ((s0', Inr u0), (s1', Inr u1)) \<and> paired ''s'' s0' s1'
    \<and> shares_of ''s'' (nd_map (\<lambda>x. word_of_int (sint x div 2 ^ 2)) (demo_nd [1] [13 :: 64 word])) (4 div 2 ^ 2) u0 u1"
    by (rule network_exact_truncation [OF msg_codec_ok pr demo_X _ _ demo_exact_material _ fr fr])
      (simp_all add: ct demo_nd_def nd_size_def)
  then show ?thesis unfolding demo_quotient using reconstruct_shares by blast
qed

section \<open>A concrete point-key mask\<close>

definition demo_keys :: "PointKeyShare \<times> PointKeyShare" where
  "demo_keys = (case snd (issue demo_hmac demo_dealer (\<lambda>i. of_nat i) (fss_gate_id ''m'' 0) 3 2) of Inr ks \<Rightarrow> ks | Inl _ \<Rightarrow> undefined)"

definition demo_fss_mask :: "nat \<Rightarrow> FssTruncationMaskShare" where
  "demo_fss_mask p = \<lparr>fm_session_id = ''s'', fm_mask_id = ''m'', fm_party = p, fm_bits = 2, fm_opened_element_budget = 2,
     fm_value = demo_nd [1] [if p = 0 then 5 else 2], fm_shifted = demo_nd [1] [if p = 0 then 3 else - 2],
     fm_sign_bit_share = demo_nd [1] [if p = 0 then 9 else - 9],
     fm_comparison_keys = [if p = 0 then fst demo_keys else snd demo_keys],
     fm_xor_mask_share = demo_nd [1] [p = 0], fm_ring_mask_share = demo_nd [1] [if p = 0 then 5 else - 4],
     fm_comparison_bits = 2, fm_high_bit_shares = demo_nd [1, 0] []\<rparr>"

definition demo_expanded :: "nat \<Rightarrow> FssTruncationMaskShare" where
  "demo_expanded p = (demo_fss_mask p)\<lparr>fm_comparison_keys :=
     (case mapE (PointKeyShare_prepare demo_hmac) (fm_comparison_keys (demo_fss_mask p)) of Inr ks \<Rightarrow> ks | Inl _ \<Rightarrow> [])\<rparr>"

definition demo_fss_party :: "nat \<Rightarrow> (mem_ledger, unit) compute" where
  "demo_fss_party p = demo_party ''fss'' p ((demo_stock p ''x'')\<lparr>iv_fss_masks := [''op'' \<mapsto> demo_expanded p]\<rparr>)"

lemma demo_keys_issued: "\<exists>s. issue demo_hmac demo_dealer (\<lambda>i. of_nat i) (fss_gate_id ''m'' 0) 3 2 = (s, Inr demo_keys)"
proof -
  obtain s ks where "issue demo_hmac demo_dealer (\<lambda>i. of_nat i) (fss_gate_id ''m'' 0) 3 2 = (s, Inr ks)"
    using issue_succeeds [of demo_dealer "fss_gate_id ''m'' 0" 2 3 demo_hmac "\<lambda>i. of_nat i"]
    by (auto simp: demo_dealer_def max_bits_def fss_gate_id_def)
  then show ?thesis by (simp add: demo_keys_def)
qed

lemma demo_key_pair: "comparison_pair demo_hmac ''s'' (fss_gate_id ''m'' 0) 2 7 (fst demo_keys, snd demo_keys)"
proof -
  have "uint ((7 :: 64 word) AND (2 ^ 2 - 1)) = 3" by code_simp
  then show ?thesis unfolding comparison_pair_def prod.case
    using demo_keys_issued by (elim exE) (rule exI, rule exI [of _ demo_dealer], rule exI [of _ "\<lambda>i. of_nat i"], simp add: demo_dealer_def)
qed

lemma demo_expanded_ok: "expanded demo_hmac (demo_fss_mask 0) (demo_expanded 0)" "expanded demo_hmac (demo_fss_mask 1) (demo_expanded 1)"
proof -
  obtain s where "issue demo_hmac demo_dealer (\<lambda>i. of_nat i) (fss_gate_id ''m'' 0) 3 2 = (s, Inr (fst demo_keys, snd demo_keys))"
    using demo_keys_issued by auto
  note k = issue_ok [OF this]
  have "\<exists>p. PointKeyShare_prepare demo_hmac (fst demo_keys) = Inr p" "\<exists>p. PointKeyShare_prepare demo_hmac (snd demo_keys) = Inr p"
    using prepare_then_less_than [of "fst demo_keys" 0 demo_hmac] prepare_then_less_than [of "snd demo_keys" 0 demo_hmac] k by auto
  then show "expanded demo_hmac (demo_fss_mask 0) (demo_expanded 0)" "expanded demo_hmac (demo_fss_mask 1) (demo_expanded 1)"
    by (auto simp: expanded_def demo_expanded_def demo_fss_mask_def)
qed

lemma demo_fss_shares: "fss_mask_shares demo_hmac ''s'' (demo_nd [1] [7]) 2 2 ''m'' 2 (demo_fss_mask 0) (demo_fss_mask 1)"
proof -
  have st: "stack_bits (demo_nd [1] [7]) 2 2 = demo_nd [1, 0] []" by (simp add: stack_bits_def demo_nd_def)
  show ?thesis unfolding fss_mask_shares_def st
    using demo_seven demo_key_pair by (simp add: demo_fss_mask_def splits_def nd_wf_def demo_nd_def nd_map2_def nd_map_def nd_size_def)
qed

lemma demo_fss_material:
  "fss_material demo_hmac mem_ops ''s'' ''op'' (demo_nd [1] [7]) 2 2 ''m'' 2 (\<lambda>_. undefined) [] (demo_fss_party 0) (demo_fss_party 1)"
proof -
  have "nd_size (demo_nd [1] [7 :: 64 word]) = 1" by (simp add: demo_nd_def nd_size_def)
  then show ?thesis unfolding fss_material_def
    using demo_fss_shares demo_expanded_ok demo_opening_ready [of "''fss''"]
    by (intro exI [of _ "demo_fss_mask 0"] exI [of _ "demo_fss_mask 1"] exI [of _ "demo_expanded 0"] exI [of _ "demo_expanded 1"]
        exI [of _ "demo_opened_ledger 0"] exI [of _ "demo_opened_ledger 1"])
      (simp add: demo_fss_party_def demo_party_def demo_stock_def carry_jobs_def stocked_def holds_def)
qed

theorem network_fss_truncation_witness:
  "\<exists>s0' s1' u0 u1. run2 (lone_exchange msg_enc msg_unpackb (\<lambda>_. 0) 3) (pair_exchange msg_enc msg_unpackb (\<lambda>_. 0) 3)
      (compute_truncate demo_hmac mem_ops msg_enc msg_unpackb 3 (demo_fss_party 0) (demo_tensor 0 [6] 4) ''op'' 2 100)
      (compute_truncate demo_hmac mem_ops msg_enc msg_unpackb 3 (demo_fss_party 1) (demo_tensor 1 [7] 4) ''op'' 2 100)
      = ((s0', Inr u0), (s1', Inr u1)) \<and> reconstruct u0 u1 = Inr (demo_nd [1] [3])"
proof -
  have pr: "paired ''s'' (demo_fss_party 0) (demo_fss_party 1)"
    unfolding demo_fss_party_def by (rule demo_paired) (simp_all add: demo_stock_def)
  have fr: "fresh_ops (''op'' # (''op'' @ ''.bit'') # map (carry_id ''op'') [2..<2]) (demo_fss_party p)" for p
    unfolding demo_fss_party_def by (rule demo_fresh_ops) simp_all
  have me: "cp_truncation (demo_fss_party 0) = ''fss'' \<and> (2 :: nat) \<le> 10 \<or> cp_truncation (demo_fss_party 0) = ''fss_lowbits_exact_highbits''"
    "cp_truncation (demo_fss_party 1) = cp_truncation (demo_fss_party 0)"
    by (simp_all add: demo_fss_party_def demo_party_def)
  have ct: "cp_truncation (demo_fss_party p) = ''fss''" "cp_max_opening_elements (demo_fss_party p) = 4" for p
    by (simp_all add: demo_fss_party_def demo_party_def)
  have ex: "\<exists>s0' s1' u0 u1. run2 (lone_exchange msg_enc msg_unpackb (\<lambda>_. 0) 3) (pair_exchange msg_enc msg_unpackb (\<lambda>_. 0) 3)
      (compute_truncate demo_hmac mem_ops msg_enc msg_unpackb 3 (demo_fss_party 0) (demo_tensor 0 [6] 4) ''op'' 2 100)
      (compute_truncate demo_hmac mem_ops msg_enc msg_unpackb 3 (demo_fss_party 1) (demo_tensor 1 [7] 4) ''op'' 2 100)
      = ((s0', Inr u0), (s1', Inr u1)) \<and> paired ''s'' s0' s1'
    \<and> shares_of ''s'' (nd_map (\<lambda>x. word_of_int (sint x div 2 ^ 2)) (demo_nd [1] [13 :: 64 word])) (4 div 2 ^ 2) u0 u1"
    by (rule network_fss_truncation [OF msg_codec_ok pr demo_X me demo_fss_material _ fr fr])
      (simp_all add: ct demo_nd_def nd_size_def)
  then show ?thesis unfolding demo_quotient using reconstruct_shares by blast
qed

end
