(* ===== verification/Party_Linear.thy ===== *)
theory Party_Linear
  imports Party_Truncation
begin

text \<open>
  Local operations of the party runtime on pairs of shares: addition, public scaling, change of the scale and
  the public linear layer, with or without the optional matrix executor and its cache.
\<close>

section \<open>Local operations on pairs of shares\<close>

lemma add_shares:
  assumes "peers r0 r1" and "shares_of (rt_session_id r0) x sc t0 t1" and "shares_of (rt_session_id r0) y sc u0 u1"
    and "nd_shape y = nd_shape x" and "tid \<noteq> []"
  shows "\<exists>v0 v1. party_add r0 t0 u0 tid = Inr v0 \<and> party_add r1 t1 u1 tid = Inr v1
     \<and> shares_of (rt_session_id r0) (nd_add x y) sc v0 v1"
proof -
  note d = shares_ofD [OF assms(2)] and e = shares_ofD [OF assms(3)]
  have "tensor_ok (nd_add x y)" using d(2) by (simp add: tensor_ok_def)
  from result_shares [OF assms(1) splits_add [OF d(1) e(1) assms(4)] this d(3) assms(5)] d(4,5) check_shares2 [OF assms(1-4)]
  show ?thesis by (simp add: party_add_def)
qed

lemma reinterpret_shares:
  assumes "peers r0 r1" and "shares_of (rt_session_id r0) x sc t0 t1" and "0 < sc'" and "tid \<noteq> []"
  shows "\<exists>v0 v1. reinterpret_scale r0 t0 sc' tid = Inr v0 \<and> reinterpret_scale r1 t1 sc' tid = Inr v1
     \<and> shares_of (rt_session_id r0) x sc' v0 v1"
  using result_shares [OF assms(1) shares_ofD(1,2) [OF assms(2)] assms(3,4)] check_shares [OF assms(1,2)]
  by (simp add: reinterpret_scale_def)

lemma mul_public_shares:
  assumes "peers r0 r1" and "shares_of (rt_session_id r0) x sc t0 t1" and "ring_scalar k = Inr w" and "tid \<noteq> []"
  shows "\<exists>v0 v1. mul_public r0 t0 k tid = Inr v0 \<and> mul_public r1 t1 k tid = Inr v1
     \<and> shares_of (rt_session_id r0) (nd_map (\<lambda>v. v * w) x) sc v0 v1"
proof -
  have "mul_public_values k x = Inr (nd_map (\<lambda>v. v * w) x)" using assms(3) by (simp add: mul_public_values_def)
  moreover have "tensor_ok (nd_map (\<lambda>v. v * w) x)" using shares_ofD(2) [OF assms(2)] by (simp add: tensor_ok_def)
  ultimately show ?thesis using mulp.op_shares [OF assms(1,2)] assms(4) by (simp add: local_op_forms)
qed

section \<open>Public linear layers\<close>

text \<open>
  The cached matrix executor is correct for the matrices of a set \<open>W\<close>: the library call computes the
  matrix product for each of them, every cached entry under one of their keys does so too, and no two of
  them share a key.
\<close>

definition matrix_key :: "(bytes \<Rightarrow> digest) \<Rightarrow> i64array \<Rightarrow> nat \<times> nat \<times> digest" where
  "matrix_key sha w = (nd_shape w ! 0, nd_shape w ! 1, sha (int8_bytes w))"

definition multiplies_by :: "'c matrix_executor \<Rightarrow> 'c \<Rightarrow> i64array \<Rightarrow> bool" where
  "multiplies_by mx c w \<longleftrightarrow> (\<forall>x. mx_wrap64 mx c x = nd_matmul_t x (ring_of_ints w))"

definition executor_ok :: "(bytes \<Rightarrow> digest) \<Rightarrow> 'c matrix_executor option \<Rightarrow> i64array set \<Rightarrow> 'c PartyRuntime \<Rightarrow> bool" where
  "executor_ok sha ex W rt \<longleftrightarrow> (case ex of None \<Rightarrow> True | Some mx \<Rightarrow>
     inj_on (matrix_key sha) W \<and> (\<forall>w \<in> W. multiplies_by mx (mx_compile mx w) w
       \<and> (\<forall>c. rt_compiled_matrices rt (matrix_key sha w) = Some c \<longrightarrow> multiplies_by mx c w)))"

definition linear_ok :: "i64array \<Rightarrow> nat \<Rightarrow> int \<Rightarrow> bool" where
  "linear_ok w k bd \<longleftrightarrow> length (nd_shape w) = 2 \<and> nd_shape w ! 1 = k \<and> nd_shape w ! 0 \<noteq> 0
     \<and> (\<forall>c \<in> set (nd_data w). - 128 \<le> c \<and> c \<le> 127) \<and> 0 < bd \<and> row_bound w bd < 2 ^ 63"

definition same_session :: "'c PartyRuntime \<Rightarrow> 'c PartyRuntime \<Rightarrow> bool" where
  "same_session rt rt' \<longleftrightarrow> (\<exists>m. rt' = rt\<lparr>rt_compiled_matrices := m\<rparr>)"

lemma same_session_simps [simp]:
  assumes "same_session rt rt'"
  shows "rt_session_id rt' = rt_session_id rt" "rt_party rt' = rt_party rt" "rt_burned_triples rt' = rt_burned_triples rt"
    "rt_burned_masks rt' = rt_burned_masks rt" "rt_minimum_bits rt' = rt_minimum_bits rt"
    "rt_truncation_profile rt' = rt_truncation_profile rt" "rt_truncation_opened rt' = rt_truncation_opened rt"
  using assms by (auto simp: same_session_def)

lemma same_session_refl [simp]: "same_session rt rt" "same_session rt (rt\<lparr>rt_compiled_matrices := m\<rparr>)"
  unfolding same_session_def by (rule exI [of _ "rt_compiled_matrices rt"], simp) (rule exI, rule refl)

lemma same_session_trans: "same_session a b \<Longrightarrow> same_session b c \<Longrightarrow> same_session a c"
  unfolding same_session_def by (elim exE) (hypsubst, rule exI, simp)

lemma linear_public_eq:
  assumes "check rt [t] = Inr ()" and "linear_ok w (last (st_shape t)) bd" and "executor_ok sha ex W rt" and "w \<in> W"
  shows "\<exists>rt'. linear_public sha ex rt t w tid bd = (rt', result_tensor rt tid (nd_matmul_t (st_values t) (ring_of_ints w)) (st_scale t))
     \<and> same_session rt rt' \<and> executor_ok sha ex W rt'"
proof -
  have g: "\<not> list_ex (\<lambda>c. c < - 128 \<or> c > 127) (nd_data w)" using assms(2) by (auto simp: linear_ok_def list_ex_iff)
  show ?thesis
  proof (cases ex)
    case None
    have "linear_public sha ex rt t w tid bd = (rt, result_tensor rt tid (nd_matmul_t (st_values t) (ring_of_ints w)) (st_scale t))"
      using assms g None by (simp add: linear_public_def linear_ok_def)
    with assms(3) show ?thesis by (intro exI [of _ rt]) simp
  next
    case (Some mx)
    let ?k = "matrix_key sha w"
    note e = assms(3) [unfolded executor_ok_def Some option.case]
    show ?thesis
    proof (cases "rt_compiled_matrices rt ?k")
      case None
      let ?rt = "rt\<lparr>rt_compiled_matrices := (rt_compiled_matrices rt)(?k \<mapsto> mx_compile mx w)\<rparr>"
      have "executor_ok sha ex W ?rt" using e assms(4) by (auto simp: executor_ok_def Some dest: inj_onD)
      moreover have "multiplies_by mx (mx_compile mx w) w" using e assms(4) by blast
      ultimately show ?thesis using assms(1,2) g None
        by (intro exI [of _ ?rt])
          (simp add: linear_public_def linear_ok_def Some matrix_key_def multiplies_by_def result_tensor_def Let_def)
    next
      case (Some c)
      then have "multiplies_by mx c w" using e assms(4) by blast
      with assms g Some \<open>ex = Some mx\<close> show ?thesis
        by (intro exI [of _ rt]) (simp add: linear_public_def linear_ok_def matrix_key_def multiplies_by_def Let_def)
    qed
  qed
qed

lemma matmul_shape: "nd_shape (nd_matmul_t x w) = butlast (nd_shape x) @ [hd (nd_shape w)]"
  by (simp add: nd_matmul_t_def Let_def)

lemma peers_same: "peers r0 r1 \<Longrightarrow> same_session r0 q0 \<Longrightarrow> same_session r1 q1 \<Longrightarrow> peers q0 q1"
  by (simp add: peers_def)

lemma linear_shares:
  assumes "peers r0 r1" and "shares_of (rt_session_id r0) x sc t0 t1" and "linear_ok w (last (nd_shape x)) bd" and "w \<in> W"
    and "executor_ok sha ex W r0" "executor_ok sha ex W r1" and "tid \<noteq> []"
  shows "\<exists>q0 q1 u0 u1. linear_public sha ex r0 t0 w tid bd = (q0, Inr u0) \<and> linear_public sha ex r1 t1 w tid bd = (q1, Inr u1)
     \<and> same_session r0 q0 \<and> same_session r1 q1 \<and> executor_ok sha ex W q0 \<and> executor_ok sha ex W q1
     \<and> shares_of (rt_session_id r0) (nd_matmul_t x (ring_of_ints w)) sc u0 u1"
proof -
  note d = shares_ofD [OF assms(2)] and c = check_shares [OF assms(1,2)]
  let ?y = "nd_matmul_t x (ring_of_ints w)"
  have ne: "nd_shape x \<noteq> []" "nd_size x \<noteq> 0" using d(2) by (auto simp: tensor_ok_def)
  have "hd (nd_shape w) \<noteq> 0" using assms(3) by (cases "nd_shape w") (auto simp: linear_ok_def)
  then have ok: "tensor_ok ?y" using nd_size_butlast [OF ne(1)] ne(2)
    by (simp add: tensor_ok_def matmul_shape nd_size_def ring_of_ints_def)
  have s: "splits ?y (nd_matmul_t (st_values t0) (ring_of_ints w)) (nd_matmul_t (st_values t1) (ring_of_ints w))"
    using splits_matmul [OF d(1)] d(6) ne by simp
  obtain u0 u1 where u: "result_tensor r0 tid (nd_matmul_t (st_values t0) (ring_of_ints w)) sc = Inr u0"
    "result_tensor r1 tid (nd_matmul_t (st_values t1) (ring_of_ints w)) sc = Inr u1" "shares_of (rt_session_id r0) ?y sc u0 u1"
    using result_shares [OF assms(1) s ok d(3) assms(7)] by blast
  have l: "linear_ok w (last (st_shape t0)) bd" "linear_ok w (last (st_shape t1)) bd" using assms(3) d(6,7) by simp_all
  obtain q0 q1 where q: "linear_public sha ex r0 t0 w tid bd = (q0, Inr u0)" "same_session r0 q0" "executor_ok sha ex W q0"
    "linear_public sha ex r1 t1 w tid bd = (q1, Inr u1)" "same_session r1 q1" "executor_ok sha ex W q1"
    using linear_public_eq [OF c(1) l(1) assms(5,4), of tid] linear_public_eq [OF c(2) l(2) assms(6,4), of tid] d(4,5) u(1,2) by auto
  with u(3) show ?thesis by blast
qed

end
