(* ===== verification/Shared_MLP.thy ===== *)
theory Shared_MLP
  imports Party_Linear
begin

text \<open>
  The shared MLP of \<^verbatim>\<open>runtime/shared_mlp.py\<close>: checked weights, the party that keeps the scale growth exactly,
  the static-scale party that truncates after each product, and the reference in the clear. Each round is
  one operation of a party on its runtime and ledger; between rounds the parties exchange opening frames.
\<close>

section \<open>Weights\<close>

record SharedMLPWeights =
  mw_gate :: i64array
  mw_up :: i64array
  mw_down :: i64array
  mw_gate_matrix :: PublicQuantizedMatrix
  mw_up_matrix :: PublicQuantizedMatrix
  mw_down_matrix :: PublicQuantizedMatrix

definition ones :: "nat \<Rightarrow> i64array" where
  "ones n = \<lparr>nd_shape = [n], nd_data = replicate n 1\<rparr>"

definition weight_matrix :: "i64array \<Rightarrow> i64array option \<Rightarrow> int \<Rightarrow> PublicQuantizedMatrix res" where
  "weight_matrix v multipliers scale =
     mk_PublicQuantizedMatrix v (case multipliers of None \<Rightarrow> ones (nd_shape v ! 0) | Some m \<Rightarrow> m) scale"

definition not_int8 :: "i64array \<Rightarrow> bool" where
  "not_int8 v \<longleftrightarrow> list_ex (\<lambda>c. c < - 128) (nd_data v) \<or> list_ex (\<lambda>c. c > 127) (nd_data v)"

definition mk_SharedMLPWeights ::
  "i64array \<Rightarrow> i64array \<Rightarrow> i64array \<Rightarrow> i64array option \<Rightarrow> i64array option \<Rightarrow> i64array option \<Rightarrow> int \<Rightarrow> int \<Rightarrow> int
    \<Rightarrow> SharedMLPWeights res" where
  "mk_SharedMLPWeights gate up down gate_rows up_rows down_rows gate_scale up_scale down_scale =
     raise_if (length (nd_shape gate) \<noteq> 2 \<or> nd_shape up \<noteq> nd_shape gate)
       (SharedMPCError ''gate and up weights must be equal-shape matrices'')
    (raise_if (length (nd_shape down) \<noteq> 2 \<or> nd_shape down ! 1 \<noteq> nd_shape gate ! 0)
       (SharedMPCError ''down weight does not match intermediate width'')
    (raise_if (nd_shape down ! 0 \<noteq> nd_shape gate ! 1)
       (SharedMPCError ''down weight output does not match hidden width'')
    (raise_if (not_int8 gate \<or> not_int8 up \<or> not_int8 down) (SharedMPCError ''shared MLP weights must fit int8'')
    (bindE (weight_matrix gate gate_rows gate_scale) (\<lambda>g.
     bindE (weight_matrix up up_rows up_scale) (\<lambda>u.
     bindE (weight_matrix down down_rows down_scale) (\<lambda>d.
     Inr \<lparr>mw_gate = gate, mw_up = up, mw_down = down, mw_gate_matrix = g, mw_up_matrix = u, mw_down_matrix = d\<rparr>)))))))"

section \<open>States between the rounds\<close>

record SharedMLPProjection =
  pj_gate :: SharedTensor
  pj_up :: SharedTensor
  pj_gate_bound :: int
  pj_up_bound :: int

record GateSquareState =
  gs_projection :: SharedMLPProjection
  gs_multiplication :: MultiplicationState
  gs_opening :: OpeningFrame

record GateProductState =
  gp_multiplication :: MultiplicationState
  gp_opening :: OpeningFrame
  gp_output_bound :: int

record ActivationTruncationState =
  at_projection :: SharedMLPProjection
  at_truncation :: TruncationState
  at_opening :: ValueOpeningFrame
  at_output_bound :: int

record StaticGateProductState =
  sg_multiplication :: MultiplicationState
  sg_opening :: OpeningFrame
  sg_output_bound :: int

record ProductTruncationState =
  pt_truncation :: TruncationState
  pt_opening :: ValueOpeningFrame
  pt_output_bound :: int

text \<open>\<^verbatim>\<open>np.max(np.sum(np.abs(m), axis=1))\<close>; the maximum of no rows raises.\<close>

definition row_norm :: "i64array \<Rightarrow> int res" where
  "row_norm m =
     raise_if (nd_shape m ! 0 = 0) (ValueError ''zero-size array to reduction operation maximum which has no identity'')
       (Inr (Max ((\<lambda>r. sum_list (map abs (matrix_row m r))) ` {0..<nd_shape m ! 0})))"

text \<open>A quantized weight is plain when its scale and all its row multipliers are one.\<close>

definition scaled_matrix :: "PublicQuantizedMatrix \<Rightarrow> bool" where
  "scaled_matrix m \<longleftrightarrow> qm_scale m \<noteq> 1 \<or> list_ex (\<lambda>k. k \<noteq> 1) (nd_data (qm_row_multipliers m))"

definition any_scaled :: "SharedMLPWeights \<Rightarrow> bool" where
  "any_scaled w \<longleftrightarrow> list_ex scaled_matrix [mw_gate_matrix w, mw_up_matrix w, mw_down_matrix w]"

text \<open>A party holds its runtime and its weights; the ledger is shared, so the state is the runtime and the ledger.\<close>

definition lift_rt :: "'l \<Rightarrow> 'c PartyRuntime \<times> 'a res \<Rightarrow> ('c PartyRuntime \<times> 'l) \<times> 'a res" where
  "lift_rt l rr = ((fst rr, l), snd rr)"

section \<open>The exact-scale party\<close>

definition SharedMLPParty_init :: "'c PartyRuntime \<Rightarrow> SharedMLPWeights \<Rightarrow> ('c PartyRuntime \<times> SharedMLPWeights) res" where
  "SharedMLPParty_init runtime weights =
     raise_if (any_scaled weights) (SharedMPCError ''legacy local MLP does not support quantized weight scales'')
       (Inr (runtime, weights))"

definition mlp_project ::
  "(bytes \<Rightarrow> digest) \<Rightarrow> 'c matrix_executor option \<Rightarrow> SharedMLPWeights \<Rightarrow> 'c PartyRuntime \<Rightarrow> SharedTensor \<Rightarrow> int
    \<Rightarrow> 'c PartyRuntime \<times> SharedMLPProjection res" where
  "mlp_project sha ex w rt hidden signed_bound =
     onS (row_norm (mw_gate w)) rt (\<lambda>gate_norm. onS (row_norm (mw_up w)) rt (\<lambda>up_norm.
     bindS (linear_public sha ex rt hidden (mw_gate w) ''mlp.gate'' signed_bound) (\<lambda>rt gate.
     bindS (linear_public sha ex rt hidden (mw_up w) ''mlp.up'' signed_bound) (\<lambda>rt up.
     (rt, Inr \<lparr>pj_gate = gate, pj_up = up, pj_gate_bound = signed_bound * gate_norm, pj_up_bound = signed_bound * up_norm\<rparr>)))))"

definition mlp_begin_gate_square ::
  "'l burn_ops \<Rightarrow> packer \<Rightarrow> 'c PartyRuntime \<times> 'l \<Rightarrow> SharedMLPProjection \<Rightarrow> BeaverTripleShare
    \<Rightarrow> ('c PartyRuntime \<times> 'l) \<times> GateSquareState res" where
  "mlp_begin_gate_square ops packb s projection triple =
     bindS (begin_multiply ops packb s (pj_gate projection) (pj_gate projection) triple ''mlp.gate_square'') (\<lambda>s (state, opening).
     (s, Inr \<lparr>gs_projection = projection, gs_multiplication = state, gs_opening = opening\<rparr>))"

definition mlp_finish_gate_square ::
  "'l burn_ops \<Rightarrow> packer \<Rightarrow> 'c PartyRuntime \<times> 'l \<Rightarrow> GateSquareState \<Rightarrow> OpeningFrame \<Rightarrow> BeaverTripleShare
    \<Rightarrow> ('c PartyRuntime \<times> 'l) \<times> GateProductState res" where
  "mlp_finish_gate_square ops packb s state peer product_triple =
     (let pj = gs_projection state; input_scale = st_scale (pj_gate pj) in
      bindS (lift_rt (snd s) (finish_multiply packb (fst s) (gs_multiplication state) (gs_opening state) peer ''mlp.gate_squared''))
       (\<lambda>s gate_square.
      onS (mul_public (fst s) (pj_gate pj) (2 * input_scale) ''mlp.gate_linear_numerator'') s (\<lambda>linear.
      onS (reinterpret_scale (fst s) linear (input_scale * input_scale) ''mlp.gate_linear_aligned'') s (\<lambda>linear.
      onS (party_add (fst s) linear gate_square ''mlp.activation_numerator'') s (\<lambda>numerator.
      onS (reinterpret_scale (fst s) numerator (4 * input_scale * input_scale) ''mlp.activated_gate'') s (\<lambda>activated.
      bindS (begin_multiply ops packb s activated (pj_up pj) product_triple ''mlp.gate_product'') (\<lambda>s (multiplication, opening).
      (s, Inr \<lparr>gp_multiplication = multiplication, gp_opening = opening,
               gp_output_bound = (2 * input_scale * pj_gate_bound pj + pj_gate_bound pj * pj_gate_bound pj) * pj_up_bound pj\<rparr>))))))))"

definition mlp_finish ::
  "(bytes \<Rightarrow> digest) \<Rightarrow> 'c matrix_executor option \<Rightarrow> packer \<Rightarrow> SharedMLPWeights \<Rightarrow> 'c PartyRuntime \<Rightarrow> GateProductState
    \<Rightarrow> OpeningFrame \<Rightarrow> 'c PartyRuntime \<times> SharedTensor res" where
  "mlp_finish sha ex packb w rt state peer =
     bindS (finish_multiply packb rt (gp_multiplication state) (gp_opening state) peer ''mlp.product'') (\<lambda>rt product.
     linear_public sha ex rt product (mw_down w) ''mlp.output'' (gp_output_bound state))"

section \<open>The static-scale party\<close>

definition StaticSharedMLPParty_init :: "'c PartyRuntime \<Rightarrow> SharedMLPWeights \<Rightarrow> ('c PartyRuntime \<times> SharedMLPWeights) res" where
  "StaticSharedMLPParty_init runtime weights =
     raise_if (any_scaled weights) (SharedMPCError ''static local MLP does not support quantized weight scales'')
       (Inr (runtime, weights))"

definition static_project ::
  "(bytes \<Rightarrow> digest) \<Rightarrow> 'c matrix_executor option \<Rightarrow> SharedMLPWeights \<Rightarrow> 'c PartyRuntime \<Rightarrow> SharedTensor \<Rightarrow> int
    \<Rightarrow> 'c PartyRuntime \<times> (SharedMLPProjection \<times> int \<times> int) res" where
  "static_project sha ex w rt hidden signed_bound =
     raiseS (signed_bound \<le> 0) (SharedMPCError ''shared MLP input bound must be positive'') rt
    (onS (row_norm (mw_gate w)) rt (\<lambda>gate_norm. onS (row_norm (mw_up w)) rt (\<lambda>up_norm.
     bindS (linear_public sha ex rt hidden (mw_gate w) ''mlp.static.gate'' signed_bound) (\<lambda>rt gate.
     bindS (linear_public sha ex rt hidden (mw_up w) ''mlp.static.up'' signed_bound) (\<lambda>rt up.
     (rt, Inr (\<lparr>pj_gate = gate, pj_up = up, pj_gate_bound = signed_bound * gate_norm, pj_up_bound = signed_bound * up_norm\<rparr>,
               signed_bound * gate_norm, signed_bound * up_norm)))))))"

definition static_begin_gate_square ::
  "'l burn_ops \<Rightarrow> packer \<Rightarrow> 'c PartyRuntime \<times> 'l \<Rightarrow> SharedMLPProjection \<Rightarrow> BeaverTripleShare
    \<Rightarrow> ('c PartyRuntime \<times> 'l) \<times> GateSquareState res" where
  "static_begin_gate_square ops packb s projection triple =
     bindS (begin_multiply ops packb s (pj_gate projection) (pj_gate projection) triple ''mlp.static.gate_square'')
      (\<lambda>s (state, opening). (s, Inr \<lparr>gs_projection = projection, gs_multiplication = state, gs_opening = opening\<rparr>))"

definition not_power_of_two :: "int \<Rightarrow> bool" where
  "not_power_of_two s \<longleftrightarrow> s AND (s - 1) \<noteq> 0"

definition begin_activation_truncation ::
  "'l burn_ops \<Rightarrow> packer \<Rightarrow> 'c PartyRuntime \<times> 'l \<Rightarrow> GateSquareState \<Rightarrow> OpeningFrame \<Rightarrow> TruncationMaskShare \<Rightarrow> int
    \<Rightarrow> ('c PartyRuntime \<times> 'l) \<times> ActivationTruncationState res" where
  "begin_activation_truncation ops packb s state peer msk gate_bound =
     (let pj = gs_projection state; scale = st_scale (pj_gate pj);
          numerator_bound = 2 * scale * gate_bound + gate_bound * gate_bound;
          truncate_bits = bit_length (nat scale) + 1 in
      bindS (lift_rt (snd s) (finish_multiply packb (fst s) (gs_multiplication state) (gs_opening state) peer
                                ''mlp.static.gate_squared'')) (\<lambda>s gate_square.
      raiseS (scale < 2 \<or> not_power_of_two scale)
        (SharedMPCError ''static shared MLP scale must be a power of two of at least two'') s
     (raiseS (gate_bound > scale) (SharedMPCError ''quadratic SiLU is calibrated only for gate values in [-1, 1]'') s
     (onS (mul_public (fst s) (pj_gate pj) (2 * scale) ''mlp.static.gate_linear_numerator'') s (\<lambda>linear.
      onS (reinterpret_scale (fst s) linear (scale * scale) ''mlp.static.gate_linear_aligned'') s (\<lambda>linear.
      onS (party_add (fst s) linear gate_square ''mlp.static.activation_numerator'') s (\<lambda>numerator.
      onS (reinterpret_scale (fst s) numerator (4 * scale * scale) ''mlp.static.activation_scaled'') s (\<lambda>numerator.
      bindS (begin_truncate ops s numerator msk ''mlp.static.activation_truncate'' numerator_bound) (\<lambda>s (truncation, opening).
      (s, Inr \<lparr>at_projection = pj, at_truncation = truncation, at_opening = opening,
               at_output_bound = drop_bit truncate_bits numerator_bound + 1\<rparr>))))))))))"

definition begin_gate_product ::
  "'l burn_ops \<Rightarrow> packer \<Rightarrow> 'c PartyRuntime \<times> 'l \<Rightarrow> ActivationTruncationState \<Rightarrow> ValueOpeningFrame \<Rightarrow> BeaverTripleShare \<Rightarrow> int
    \<Rightarrow> ('c PartyRuntime \<times> 'l) \<times> StaticGateProductState res" where
  "begin_gate_product ops packb s state peer triple up_bound =
     bindS (lift_rt (snd s) (finish_truncate (fst s) (at_truncation state) (at_opening state) peer ''mlp.static.activated_gate''))
      (\<lambda>s activated.
     bindS (begin_multiply ops packb s activated (pj_up (at_projection state)) triple ''mlp.static.gate_product'')
      (\<lambda>s (multiplication, opening).
     (s, Inr \<lparr>sg_multiplication = multiplication, sg_opening = opening, sg_output_bound = at_output_bound state * up_bound\<rparr>)))"

text \<open>\<^verbatim>\<open>int(np.sqrt(n))\<close> goes through a double; \<open>fsqrt\<close> stands for it.\<close>

definition begin_product_truncation ::
  "(int \<Rightarrow> int) \<Rightarrow> 'l burn_ops \<Rightarrow> packer \<Rightarrow> 'c PartyRuntime \<times> 'l \<Rightarrow> StaticGateProductState \<Rightarrow> OpeningFrame \<Rightarrow> TruncationMaskShare
    \<Rightarrow> ('c PartyRuntime \<times> 'l) \<times> ProductTruncationState res" where
  "begin_product_truncation fsqrt ops packb s state peer msk =
     bindS (lift_rt (snd s) (finish_multiply packb (fst s) (sg_multiplication state) (sg_opening state) peer
                               ''mlp.static.product_scaled'')) (\<lambda>s product.
     let scale = fsqrt (st_scale product) in
     raiseS (scale * scale \<noteq> st_scale product \<or> not_power_of_two scale)
       (SharedMPCError ''static shared MLP product scale is invalid'') s
    (bindS (begin_truncate ops s product msk ''mlp.static.product_truncate'' (sg_output_bound state)) (\<lambda>s (truncation, opening).
     (s, Inr \<lparr>pt_truncation = truncation, pt_opening = opening,
              pt_output_bound = drop_bit (bit_length (nat scale) - 1) (sg_output_bound state) + 1\<rparr>))))"

definition static_finish ::
  "(bytes \<Rightarrow> digest) \<Rightarrow> 'c matrix_executor option \<Rightarrow> SharedMLPWeights \<Rightarrow> 'c PartyRuntime \<Rightarrow> ProductTruncationState
    \<Rightarrow> ValueOpeningFrame \<Rightarrow> 'c PartyRuntime \<times> SharedTensor res" where
  "static_finish sha ex w rt state peer =
     bindS (finish_truncate rt (pt_truncation state) (pt_opening state) peer ''mlp.static.product'') (\<lambda>rt product.
     linear_public sha ex rt product (mw_down w) ''mlp.static.output'' (pt_output_bound state))"

section \<open>Reference in the clear\<close>

definition np_matmul_t :: "u64array \<Rightarrow> i64array \<Rightarrow> u64array res" where
  "np_matmul_t x w =
     raise_if (nd_shape x = [] \<or> last (nd_shape x) \<noteq> nd_shape w ! 1) (ValueError ''matmul: operands have mismatched core dimensions'')
       (Inr (nd_matmul_t x (ring_of_ints w)))"

definition np_uint64 :: "int \<Rightarrow> 64 word res" where
  "np_uint64 n = raise_if (n < 0 \<or> n \<ge> 2 ^ 64) (OverflowError ''Python integer out of bounds for uint64'') (Inr (word_of_int n))"

definition clear_mlp_reference :: "u64array \<Rightarrow> SharedMLPWeights \<Rightarrow> int \<Rightarrow> (u64array \<times> int) res" where
  "clear_mlp_reference hidden w scale =
     bindE (np_matmul_t hidden (mw_gate w)) (\<lambda>gate.
     bindE (np_matmul_t hidden (mw_up w)) (\<lambda>up.
     bindE (np_uint64 (2 * scale)) (\<lambda>k.
     let activated_numerator = nd_add (nd_map (\<lambda>g. k * g) gate) (nd_mul gate gate);
         product = nd_mul activated_numerator up in
     bindE (np_matmul_t product (mw_down w)) (\<lambda>output.
     Inr (output, 4 * scale * scale * scale)))))"

section \<open>The exact-scale pipeline\<close>

text \<open>
  One party's whole run with the frames of its peer as input: it returns the frames it sends and its
  share of the output.
\<close>

definition mlp_run ::
  "(bytes \<Rightarrow> digest) \<Rightarrow> 'c matrix_executor option \<Rightarrow> 'l burn_ops \<Rightarrow> packer \<Rightarrow> SharedMLPWeights \<Rightarrow> 'c PartyRuntime \<times> 'l
    \<Rightarrow> SharedTensor \<Rightarrow> int \<Rightarrow> BeaverTripleShare \<Rightarrow> BeaverTripleShare \<Rightarrow> OpeningFrame \<Rightarrow> OpeningFrame
    \<Rightarrow> ('c PartyRuntime \<times> 'l) \<times> (OpeningFrame \<times> OpeningFrame \<times> SharedTensor) res" where
  "mlp_run sha ex ops packb w s hidden bound square_triple product_triple peer_square peer_product =
     bindS (lift_rt (snd s) (mlp_project sha ex w (fst s) hidden bound)) (\<lambda>s projection.
     bindS (mlp_begin_gate_square ops packb s projection square_triple) (\<lambda>s square.
     bindS (mlp_finish_gate_square ops packb s square peer_square product_triple) (\<lambda>s product.
     bindS (lift_rt (snd s) (mlp_finish sha ex packb w (fst s) product peer_product)) (\<lambda>s output.
     (s, Inr (gs_opening square, gp_opening product, output))))))"

definition burned_rt :: "string \<Rightarrow> SharedMPCStats \<Rightarrow> 'c PartyRuntime \<Rightarrow> 'c PartyRuntime" where
  "burned_rt k st rt = rt\<lparr>rt_burned_triples := insert k (rt_burned_triples rt), rt_stats := st\<rparr>"

lemma burned_rt_simps [simp]:
  "rt_session_id (burned_rt k st rt) = rt_session_id rt" "rt_party (burned_rt k st rt) = rt_party rt"
  "rt_burned_triples (burned_rt k st rt) = insert k (rt_burned_triples rt)" "rt_compiled_matrices (burned_rt k st rt) = rt_compiled_matrices rt"
  by (simp_all add: burned_rt_def)

lemma executor_ok_same:
  "executor_ok sha ex W rt \<Longrightarrow> rt_compiled_matrices rt' = rt_compiled_matrices rt \<Longrightarrow> executor_ok sha ex W rt'"
  by (simp add: executor_ok_def split: option.splits)

lemma burned_peers: "peers r0 r1 \<Longrightarrow> peers (burned_rt k a r0) (burned_rt k' b r1)"
  by (simp add: peers_def)

lemma multiply_pair_rt:
  assumes "peers r0 r1" and "shares_of sid X sx x0 x1" and "shares_of sid Y sy y0 y1" and "sid = rt_session_id r0"
    and "nd_shape Y = nd_shape X" and "triple_shares sid (nd_shape X) k t0 t1"
    and "k \<notin> rt_burned_triples r0" and "k \<notin> rt_burned_triples r1"
    and "bl_burn ops l0 sid 0 ''multiplication'' k = (l0', Inr ())"
    and "bl_burn ops l1 sid 1 ''multiplication'' k = (l1', Inr ())"
    and "op \<noteq> []" and "tid \<noteq> []"
  obtains m0 m1 f0 f1 a0 a1 b0 b1 u0 u1 where
      "begin_multiply ops packb (r0, l0) x0 y0 t0 op = ((burned_rt k a0 r0, l0'), Inr (m0, f0))"
      "begin_multiply ops packb (r1, l1) x1 y1 t1 op = ((burned_rt k a1 r1, l1'), Inr (m1, f1))"
      "finish_multiply packb (burned_rt k a0 r0) m0 f0 f1 tid = (burned_rt k b0 r0, Inr u0)"
      "finish_multiply packb (burned_rt k a1 r1) m1 f1 f0 tid = (burned_rt k b1 r1, Inr u1)"
      "shares_of sid (nd_mul X Y) (sx * sy) u0 u1"
  using multiply_pair [OF assms(1) assms(2,3) [unfolded assms(4)] assms(5) assms(6) [unfolded assms(4)] assms(7,8)
      assms(9,10) [unfolded assms(4)] assms(11,12), of packb] that unfolding burned_rt_def assms(4) by blast

text \<open>The numerator of the quadratic activation, on shares.\<close>

definition activation_numerator :: "64 word \<Rightarrow> u64array \<Rightarrow> u64array" where
  "activation_numerator k g = nd_add (nd_map (\<lambda>g. k * g) g) (nd_mul g g)"

lemma activation_shares:
  assumes p: "peers r0 r1" and sid: "sid = rt_session_id r0" and g: "shares_of sid G sc g0 g1" and q: "shares_of sid (nd_mul G G) (sc * sc) q0 q1"
    and k: "np_uint64 (2 * sc) = Inr k" and ids: "i \<noteq> []" "j \<noteq> []" "l \<noteq> []" "m \<noteq> []"
  obtains a0 a1 b0 b1 c0 c1 d0 d1 where
    "mul_public r0 g0 (2 * sc) i = Inr a0" "reinterpret_scale r0 a0 (sc * sc) j = Inr b0" "party_add r0 b0 q0 l = Inr c0"
    "reinterpret_scale r0 c0 (4 * sc * sc) m = Inr d0"
    "mul_public r1 g1 (2 * sc) i = Inr a1" "reinterpret_scale r1 a1 (sc * sc) j = Inr b1" "party_add r1 b1 q1 l = Inr c1"
    "reinterpret_scale r1 c1 (4 * sc * sc) m = Inr d1"
    "shares_of sid (activation_numerator k G) (4 * sc * sc) d0 d1"
proof -
  have pos: "0 < sc * sc" "0 < 4 * sc * sc" using shares_ofD(3) [OF g] by simp_all
  have "ring_scalar (2 * sc) = Inr k" using k by (auto simp: ring_scalar_def np_uint64_def res_simps)
  from mul_public_shares [OF p g [unfolded sid] this ids(1)] obtain a0 a1 where
    a: "mul_public r0 g0 (2 * sc) i = Inr a0" "mul_public r1 g1 (2 * sc) i = Inr a1"
      "shares_of (rt_session_id r0) (nd_map (\<lambda>g. g * k) G) sc a0 a1" by blast
  from reinterpret_shares [OF p a(3) pos(1) ids(2)] obtain b0 b1 where
    b: "reinterpret_scale r0 a0 (sc * sc) j = Inr b0" "reinterpret_scale r1 a1 (sc * sc) j = Inr b1"
      "shares_of (rt_session_id r0) (nd_map (\<lambda>g. g * k) G) (sc * sc) b0 b1" by blast
  from add_shares [OF p b(3) q [unfolded sid] _ ids(3)] obtain c0 c1 where
    c: "party_add r0 b0 q0 l = Inr c0" "party_add r1 b1 q1 l = Inr c1"
      "shares_of (rt_session_id r0) (nd_add (nd_map (\<lambda>g. g * k) G) (nd_mul G G)) (sc * sc) c0 c1" by auto
  from reinterpret_shares [OF p c(3) pos(2) ids(4)] obtain d0 d1 where
    d: "reinterpret_scale r0 c0 (4 * sc * sc) m = Inr d0" "reinterpret_scale r1 c1 (4 * sc * sc) m = Inr d1"
      "shares_of (rt_session_id r0) (nd_add (nd_map (\<lambda>g. g * k) G) (nd_mul G G)) (4 * sc * sc) d0 d1" by blast
  have "(\<lambda>g. g * k) = (\<lambda>g. k * g)" by (simp add: fun_eq_iff mult.commute)
  with a b c d show ?thesis by (intro that) (simp_all add: activation_numerator_def sid)
qed

text \<open>What a party needs to run the exact-scale pipeline: admissible bounds, and two fresh triples its ledger accepts.\<close>

definition mlp_bounds_ok :: "SharedMLPWeights \<Rightarrow> nat \<Rightarrow> int \<Rightarrow> int \<Rightarrow> bool" where
  "mlp_bounds_ok w k sc bd \<longleftrightarrow> linear_ok (mw_gate w) k bd \<and> linear_ok (mw_up w) k bd \<and> 2 * sc < 2 ^ 64
     \<and> (\<forall>gn un. row_norm (mw_gate w) = Inr gn \<and> row_norm (mw_up w) = Inr un \<longrightarrow>
          linear_ok (mw_down w) (nd_shape (mw_gate w) ! 0) ((2 * sc * (bd * gn) + (bd * gn) * (bd * gn)) * (bd * un)))"

definition two_burns :: "'l burn_ops \<Rightarrow> string \<Rightarrow> nat \<Rightarrow> string \<Rightarrow> string \<Rightarrow> 'c PartyRuntime \<Rightarrow> 'l \<Rightarrow> bool" where
  "two_burns ops sid p k k' rt l \<longleftrightarrow> k \<notin> rt_burned_triples rt \<and> k' \<notin> rt_burned_triples rt \<and> k \<noteq> k'
     \<and> (\<exists>l' l''. bl_burn ops l sid p ''multiplication'' k = (l', Inr ()) \<and> bl_burn ops l' sid p ''multiplication'' k' = (l'', Inr ()))"

lemma project_shares:
  assumes p: "peers r0 r1" and sid: "sid = rt_session_id r0" and X: "shares_of sid X sc x0 x1"
    and w: "mw_gate w \<in> W" "mw_up w \<in> W" and e: "executor_ok sha ex W r0" "executor_ok sha ex W r1"
    and l: "linear_ok (mw_gate w) (last (nd_shape X)) bd" "linear_ok (mw_up w) (last (nd_shape X)) bd"
    and n: "row_norm (mw_gate w) = Inr gn" "row_norm (mw_up w) = Inr un"
  obtains q0 q1 g0 g1 v0 v1 where
    "mlp_project sha ex w r0 x0 bd = (q0, Inr \<lparr>pj_gate = g0, pj_up = v0, pj_gate_bound = bd * gn, pj_up_bound = bd * un\<rparr>)"
    "mlp_project sha ex w r1 x1 bd = (q1, Inr \<lparr>pj_gate = g1, pj_up = v1, pj_gate_bound = bd * gn, pj_up_bound = bd * un\<rparr>)"
    "same_session r0 q0" "same_session r1 q1" "executor_ok sha ex W q0" "executor_ok sha ex W q1"
    "shares_of sid (nd_matmul_t X (ring_of_ints (mw_gate w))) sc g0 g1"
    "shares_of sid (nd_matmul_t X (ring_of_ints (mw_up w))) sc v0 v1"
proof -
  obtain a0 a1 g0 g1 where g: "linear_public sha ex r0 x0 (mw_gate w) ''mlp.gate'' bd = (a0, Inr g0)"
      "linear_public sha ex r1 x1 (mw_gate w) ''mlp.gate'' bd = (a1, Inr g1)" "same_session r0 a0" "same_session r1 a1"
      "executor_ok sha ex W a0" "executor_ok sha ex W a1" "shares_of sid (nd_matmul_t X (ring_of_ints (mw_gate w))) sc g0 g1"
    using linear_shares [OF p X [unfolded sid] l(1) w(1) e, of "''mlp.gate''"] unfolding sid by auto
  have X': "shares_of (rt_session_id a0) X sc x0 x1" using X sid g(3) by simp
  obtain q0 q1 v0 v1 where v: "linear_public sha ex a0 x0 (mw_up w) ''mlp.up'' bd = (q0, Inr v0)"
      "linear_public sha ex a1 x1 (mw_up w) ''mlp.up'' bd = (q1, Inr v1)" "same_session a0 q0" "same_session a1 q1"
      "executor_ok sha ex W q0" "executor_ok sha ex W q1" "shares_of sid (nd_matmul_t X (ring_of_ints (mw_up w))) sc v0 v1"
    using linear_shares [OF peers_same [OF p g(3,4)] X' l(2) w(2) g(5,6), of "''mlp.up''"] g(3) sid by auto
  have "same_session r0 q0" "same_session r1 q1" using g(3,4) v(3,4) by (auto intro: same_session_trans)
  then show ?thesis using that g(1,2,7) v n by (simp add: mlp_project_def)
qed

lemma norms_exist: "linear_ok w k bd \<Longrightarrow> \<exists>n. row_norm w = Inr n"
  by (simp add: row_norm_def linear_ok_def)

text \<open>The two multiplication rounds between the projections and the down projection.\<close>

lemma mlp_rounds:
  assumes pq: "peers q0 q1" and sq: "sid = rt_session_id q0" and G: "shares_of sid G sc (pj_gate pa) (pj_gate pb)"
    and U: "shares_of sid U sc (pj_up pa) (pj_up pb)" and sh: "nd_shape U = nd_shape G" and k2: "np_uint64 (2 * sc) = Inr k2"
    and t: "triple_shares sid (nd_shape G) k s0 s1" "triple_shares sid (nd_shape G) k' t0 t1"
    and b: "two_burns ops sid 0 k k' q0 l0" "two_burns ops sid 1 k k' q1 l1"
  obtains c0 c1 S0 S1 d0 d1 P0 P1 w0 w1 z0 z1 where
      "mlp_begin_gate_square ops packb (q0, l0) pa s0 = (c0, Inr S0)" "mlp_begin_gate_square ops packb (q1, l1) pb s1 = (c1, Inr S1)"
      "mlp_finish_gate_square ops packb c0 S0 (gs_opening S1) t0 = (d0, Inr P0)"
      "mlp_finish_gate_square ops packb c1 S1 (gs_opening S0) t1 = (d1, Inr P1)"
      "finish_multiply packb (fst d0) (gp_multiplication P0) (gp_opening P0) (gp_opening P1) ''mlp.product'' = (w0, Inr z0)"
      "finish_multiply packb (fst d1) (gp_multiplication P1) (gp_opening P1) (gp_opening P0) ''mlp.product'' = (w1, Inr z1)"
      "shares_of sid (nd_mul (activation_numerator k2 G) U) (4 * sc * sc * sc) z0 z1"
      "peers w0 w1" "rt_session_id w0 = sid"
      "rt_compiled_matrices w0 = rt_compiled_matrices q0" "rt_compiled_matrices w1 = rt_compiled_matrices q1"
      "gp_output_bound P0 = (2 * sc * pj_gate_bound pa + pj_gate_bound pa * pj_gate_bound pa) * pj_up_bound pa"
      "gp_output_bound P1 = (2 * sc * pj_gate_bound pb + pj_gate_bound pb * pj_gate_bound pb) * pj_up_bound pb"
proof -
  obtain l0' l0'' l1' l1'' where l: "bl_burn ops l0 sid 0 ''multiplication'' k = (l0', Inr ())"
    "bl_burn ops l0' sid 0 ''multiplication'' k' = (l0'', Inr ())" "bl_burn ops l1 sid 1 ''multiplication'' k = (l1', Inr ())"
    "bl_burn ops l1' sid 1 ''multiplication'' k' = (l1'', Inr ())" and kk: "k \<noteq> k'" "k \<notin> rt_burned_triples q0" "k \<notin> rt_burned_triples q1"
      "k' \<notin> rt_burned_triples q0" "k' \<notin> rt_burned_triples q1"
    using b by (auto simp: two_burns_def)
  obtain m0 m1 f0 f1 a0 a1 b0 b1 y0 y1 where M:
      "begin_multiply ops packb (q0, l0) (pj_gate pa) (pj_gate pa) s0 ''mlp.gate_square'' = ((burned_rt k a0 q0, l0'), Inr (m0, f0))"
      "begin_multiply ops packb (q1, l1) (pj_gate pb) (pj_gate pb) s1 ''mlp.gate_square'' = ((burned_rt k a1 q1, l1'), Inr (m1, f1))"
      "finish_multiply packb (burned_rt k a0 q0) m0 f0 f1 ''mlp.gate_squared'' = (burned_rt k b0 q0, Inr y0)"
      "finish_multiply packb (burned_rt k a1 q1) m1 f1 f0 ''mlp.gate_squared'' = (burned_rt k b1 q1, Inr y1)"
      "shares_of sid (nd_mul G G) (sc * sc) y0 y1"
    by (rule multiply_pair_rt [OF pq G G sq refl t(1) kk(2,3) l(1,3), of "''mlp.gate_square''" "''mlp.gate_squared''"]) simp_all
  let ?e0 = "burned_rt k b0 q0" and ?e1 = "burned_rt k b1 q1"
  note pe = burned_peers [OF pq, of k b0 k b1]
  have se: "sid = rt_session_id ?e0" using sq by simp
  obtain c0 c1 d0 d1 n0 n1 i0 i1 where A: "mul_public ?e0 (pj_gate pa) (2 * sc) ''mlp.gate_linear_numerator'' = Inr c0"
    "reinterpret_scale ?e0 c0 (sc * sc) ''mlp.gate_linear_aligned'' = Inr d0"
    "party_add ?e0 d0 y0 ''mlp.activation_numerator'' = Inr n0" "reinterpret_scale ?e0 n0 (4 * sc * sc) ''mlp.activated_gate'' = Inr i0"
    "mul_public ?e1 (pj_gate pb) (2 * sc) ''mlp.gate_linear_numerator'' = Inr c1"
    "reinterpret_scale ?e1 c1 (sc * sc) ''mlp.gate_linear_aligned'' = Inr d1"
    "party_add ?e1 d1 y1 ''mlp.activation_numerator'' = Inr n1" "reinterpret_scale ?e1 n1 (4 * sc * sc) ''mlp.activated_gate'' = Inr i1"
    and N: "shares_of sid (activation_numerator k2 G) (4 * sc * sc) i0 i1"
    by (rule activation_shares [OF pe se G M(5) k2, of "''mlp.gate_linear_numerator''" "''mlp.gate_linear_aligned''"
        "''mlp.activation_numerator''" "''mlp.activated_gate''"]) simp_all
  have shN: "nd_shape U = nd_shape (activation_numerator k2 G)" "triple_shares sid (nd_shape (activation_numerator k2 G)) k' t0 t1"
    using sh t(2) by (simp_all add: activation_numerator_def)
  have kb: "k' \<notin> rt_burned_triples ?e0" "k' \<notin> rt_burned_triples ?e1" using kk by simp_all
  obtain n0 n1 h0 h1 a0' a1' b0' b1' z0 z1 where M2:
      "begin_multiply ops packb (?e0, l0') i0 (pj_up pa) t0 ''mlp.gate_product'' = ((burned_rt k' a0' ?e0, l0''), Inr (n0, h0))"
      "begin_multiply ops packb (?e1, l1') i1 (pj_up pb) t1 ''mlp.gate_product'' = ((burned_rt k' a1' ?e1, l1''), Inr (n1, h1))"
      "finish_multiply packb (burned_rt k' a0' ?e0) n0 h0 h1 ''mlp.product'' = (burned_rt k' b0' ?e0, Inr z0)"
      "finish_multiply packb (burned_rt k' a1' ?e1) n1 h1 h0 ''mlp.product'' = (burned_rt k' b1' ?e1, Inr z1)"
      "shares_of sid (nd_mul (activation_numerator k2 G) U) (4 * sc * sc * sc) z0 z1"
    by (rule multiply_pair_rt [OF pe N U se shN kb l(2,4), of "''mlp.gate_product''" "''mlp.product''"]) simp_all
  have g: "st_scale (pj_gate pa) = sc" "st_scale (pj_gate pb) = sc" using shares_ofD(4,5) [OF G] by simp_all
  note run = mlp_begin_gate_square_def mlp_finish_gate_square_def lift_rt_def
  show ?thesis
    by (rule that [of "(burned_rt k a0 q0, l0')" "\<lparr>gs_projection = pa, gs_multiplication = m0, gs_opening = f0\<rparr>"
          "(burned_rt k a1 q1, l1')" "\<lparr>gs_projection = pb, gs_multiplication = m1, gs_opening = f1\<rparr>" "(burned_rt k' a0' ?e0, l0'')"
          "\<lparr>gp_multiplication = n0, gp_opening = h0, gp_output_bound = (2 * sc * pj_gate_bound pa + pj_gate_bound pa * pj_gate_bound pa) * pj_up_bound pa\<rparr>"
          "(burned_rt k' a1' ?e1, l1'')"
          "\<lparr>gp_multiplication = n1, gp_opening = h1, gp_output_bound = (2 * sc * pj_gate_bound pb + pj_gate_bound pb * pj_gate_bound pb) * pj_up_bound pb\<rparr>"
          "burned_rt k' b0' ?e0" z0 "burned_rt k' b1' ?e1" z1])
      (use M A M2 g sq burned_peers [OF pe] in \<open>simp_all add: run\<close>)
qed

text \<open>
  C13: The shared quadratic-SiLU MLP computes its clear reference. Two parties that hold shares of the hidden
  state, admissible bounds and two fresh triples run projection, squaring, gating and the down projection,
  each consuming the frames the other emits; both return, and their outputs are shares of
  \<^verbatim>\<open>clear_mlp_reference\<close>, at the scale the reference reports.
\<close>

theorem mlp_matches_reference:
  assumes "mk_SharedMLPWeights gate up down grows urows drows gs us ds = Inr w"
    and "peers r0 r1" and "shares_of (rt_session_id r0) X sc x0 x1"
    and "executor_ok sha ex {gate, up, down} r0" and "executor_ok sha ex {gate, up, down} r1"
    and "mlp_bounds_ok w (last (nd_shape X)) sc bd"
    and "triple_shares (rt_session_id r0) (butlast (nd_shape X) @ [nd_shape gate ! 0]) k s0 s1"
    and "triple_shares (rt_session_id r0) (butlast (nd_shape X) @ [nd_shape gate ! 0]) k' t0 t1"
    and "two_burns ops (rt_session_id r0) 0 k k' r0 l0" and "two_burns ops (rt_session_id r0) 1 k k' r1 l1"
  shows "\<exists>f0 f1 h0 h1 z0 z1 u0 u1 Y sc'.
      mlp_run sha ex ops packb w (r0, l0) x0 bd s0 t0 f1 h1 = (z0, Inr (f0, h0, u0))
    \<and> mlp_run sha ex ops packb w (r1, l1) x1 bd s1 t1 f0 h0 = (z1, Inr (f1, h1, u1))
    \<and> clear_mlp_reference X w sc = Inr (Y, sc') \<and> shares_of (rt_session_id r0) Y sc' u0 u1"
proof -
  let ?sid = "rt_session_id r0" and ?W = "{gate, up, down}"
  let ?G = "nd_matmul_t X (ring_of_ints gate)" and ?U = "nd_matmul_t X (ring_of_ints up)"
  have w: "mw_gate w = gate" "mw_up w = up" "mw_down w = down" and sh: "length (nd_shape gate) = 2" "nd_shape up = nd_shape gate"
    "nd_shape down ! 1 = nd_shape gate ! 0"
    using assms(1) by (auto simp: mk_SharedMLPWeights_def res_simps)
  have hd: "hd (nd_shape gate) = nd_shape gate ! 0" using sh(1) by (cases "nd_shape gate") auto
  have b: "linear_ok gate (last (nd_shape X)) bd" "linear_ok up (last (nd_shape X)) bd" "2 * sc < 2 ^ 64"
    using assms(6) by (auto simp: mlp_bounds_ok_def w)
  obtain gn un where n: "row_norm gate = Inr gn" "row_norm up = Inr un" using norms_exist b by blast
  let ?ob = "(2 * sc * (bd * gn) + (bd * gn) * (bd * gn)) * (bd * un)"
  have d: "linear_ok down (nd_shape gate ! 0) ?ob" using assms(6) n by (simp add: mlp_bounds_ok_def w)
  obtain k2 where k2: "np_uint64 (2 * sc) = Inr k2" using b(3) shares_ofD(3) [OF assms(3)] by (simp add: np_uint64_def)
  let ?p = "\<lambda>g v. \<lparr>pj_gate = g, pj_up = v, pj_gate_bound = bd * gn, pj_up_bound = bd * un\<rparr>"
  obtain q0 q1 g0 g1 v0 v1 where pj: "mlp_project sha ex w r0 x0 bd = (q0, Inr (?p g0 v0))" "mlp_project sha ex w r1 x1 bd = (q1, Inr (?p g1 v1))"
    "same_session r0 q0" "same_session r1 q1" "executor_ok sha ex ?W q0" "executor_ok sha ex ?W q1"
    and G: "shares_of ?sid ?G sc g0 g1" and U: "shares_of ?sid ?U sc v0 v1"
    by (rule project_shares [OF assms(2) refl assms(3), of w ?W sha ex bd gn un]) (use w b n assms(4,5) in auto)
  have shG: "nd_shape ?G = butlast (nd_shape X) @ [nd_shape gate ! 0]" "nd_shape ?U = nd_shape ?G"
    by (simp_all add: matmul_shape ring_of_ints_def hd sh(2))
  have tb: "two_burns ops ?sid 0 k k' q0 l0" "two_burns ops ?sid 1 k k' q1 l1" using assms(9,10) pj(3,4) by (simp_all add: two_burns_def)
  have GU: "shares_of ?sid ?G sc (pj_gate (?p g0 v0)) (pj_gate (?p g1 v1))" "shares_of ?sid ?U sc (pj_up (?p g0 v0)) (pj_up (?p g1 v1))"
    and sq: "?sid = rt_session_id q0" using G U pj(3) by simp_all
  let ?P = "nd_mul (activation_numerator k2 ?G) ?U"
  obtain c0 c1 S0 S1 d0 d1 P0 P1 w0 w1 z0 z1 where R:
      "mlp_begin_gate_square ops packb (q0, l0) (?p g0 v0) s0 = (c0, Inr S0)" "mlp_begin_gate_square ops packb (q1, l1) (?p g1 v1) s1 = (c1, Inr S1)"
      "mlp_finish_gate_square ops packb c0 S0 (gs_opening S1) t0 = (d0, Inr P0)"
      "mlp_finish_gate_square ops packb c1 S1 (gs_opening S0) t1 = (d1, Inr P1)"
      "finish_multiply packb (fst d0) (gp_multiplication P0) (gp_opening P0) (gp_opening P1) ''mlp.product'' = (w0, Inr z0)"
      "finish_multiply packb (fst d1) (gp_multiplication P1) (gp_opening P1) (gp_opening P0) ''mlp.product'' = (w1, Inr z1)"
      and P: "shares_of ?sid ?P (4 * sc * sc * sc) z0 z1" "peers w0 w1" "rt_session_id w0 = ?sid"
      and cm: "rt_compiled_matrices w0 = rt_compiled_matrices q0" "rt_compiled_matrices w1 = rt_compiled_matrices q1"
      and ob: "gp_output_bound P0 = ?ob" "gp_output_bound P1 = ?ob"
    by (rule mlp_rounds [OF peers_same [OF assms(2) pj(3,4)] sq GU shG(2) k2 assms(7,8) [folded shG(1)] tb, of packb])
      (simp_all only: SharedMLPProjection.simps)
  have lastP: "last (nd_shape ?P) = nd_shape gate ! 0" "nd_shape ?P \<noteq> []" using shG(1) by (simp_all add: activation_numerator_def)
  have e: "executor_ok sha ex ?W w0" "executor_ok sha ex ?W w1" using executor_ok_same pj(5,6) cm by blast+
  obtain o0 o1 u0 u1 where O: "linear_public sha ex w0 z0 down ''mlp.output'' ?ob = (o0, Inr u0)"
    "linear_public sha ex w1 z1 down ''mlp.output'' ?ob = (o1, Inr u1)"
    "shares_of ?sid (nd_matmul_t ?P (ring_of_ints down)) (4 * sc * sc * sc) u0 u1"
    using linear_shares [OF P(2) P(1) [folded P(3)], of down ?ob ?W sha ex "''mlp.output''"] d lastP e P(3) by auto
  have lx: "nd_shape X \<noteq> []" using shares_ofD(2) [OF assms(3)] by (simp add: tensor_ok_def)
  have ref: "clear_mlp_reference X w sc = Inr (nd_matmul_t ?P (ring_of_ints down), 4 * sc * sc * sc)"
    using b(1,2) k2 lastP sh(3) lx by (simp add: clear_mlp_reference_def np_matmul_t_def w linear_ok_def activation_numerator_def Let_def)
  have "\<exists>z. mlp_run sha ex ops packb w (r0, l0) x0 bd s0 t0 (gs_opening S1) (gp_opening P1) = (z, Inr (gs_opening S0, gp_opening P0, u0))"
    "\<exists>z. mlp_run sha ex ops packb w (r1, l1) x1 bd s1 t1 (gs_opening S0) (gp_opening P0) = (z, Inr (gs_opening S1, gp_opening P1, u1))"
    using pj(1,2) R O(1,2) ob by (simp_all add: mlp_run_def lift_rt_def mlp_finish_def w)
  with ref O(3) show ?thesis by blast
qed

definition demo_weights :: SharedMLPWeights where
  "demo_weights = (let m = \<lambda>v. \<lparr>qm_coefficients = demo_nd [1, 1] [v], qm_row_multipliers = demo_nd [1] [1], qm_scale = 1\<rparr>
     in \<lparr>mw_gate = demo_nd [1, 1] [3], mw_up = demo_nd [1, 1] [2], mw_down = demo_nd [1, 1] [5],
         mw_gate_matrix = m 3, mw_up_matrix = m 2, mw_down_matrix = m 5\<rparr>)"

lemma demo_weights_ok:
  "mk_SharedMLPWeights (demo_nd [1, 1] [3]) (demo_nd [1, 1] [2]) (demo_nd [1, 1] [5]) None None None 1 1 1 = Inr demo_weights"
  by (simp add: mk_SharedMLPWeights_def weight_matrix_def mk_PublicQuantizedMatrix_def demo_weights_def demo_nd_def ones_def not_int8_def
      nd_size_def)

definition demo_triple2 :: "nat \<Rightarrow> BeaverTripleShare" where
  "demo_triple2 p = (demo_triple p)\<lparr>bt_triple_id := ''t2''\<rparr>"

lemma demo_triple2_shares: "triple_shares ''s'' [1] ''t2'' (demo_triple2 0) (demo_triple2 1)"
  using demo_triple_shares by (simp add: triple_shares_def demo_triple2_def)

lemma demo_norms: "row_norm (demo_nd [1, 1] [v]) = Inr \<bar>v\<bar>" "row_bound (demo_nd [1, 1] [v]) b = \<bar>v\<bar> * b"
  by (simp_all add: row_norm_def row_bound_def matrix_row_def demo_nd_def)

theorem mlp_matches_reference_witness:
  "\<exists>f0 f1 h0 h1 z0 z1 u0 u1.
      mlp_run (\<lambda>_. 0) None mem_ops (\<lambda>_. [1]) demo_weights (demo_rt 0, DEFAULT_BURN_LEDGER) (demo_tensor 0 [5] 4) 10
        (demo_triple 0) (demo_triple2 0) f1 h1 = (z0, Inr (f0, h0, u0))
    \<and> mlp_run (\<lambda>_. 0) None mem_ops (\<lambda>_. [1]) demo_weights (demo_rt 1, DEFAULT_BURN_LEDGER) (demo_tensor 1 [2] 4) 10
        (demo_triple 1) (demo_triple2 1) f0 h0 = (z1, Inr (f1, h1, u1))
    \<and> reconstruct u0 u1 = Inr (demo_nd [1] [42630])"
proof -
  have X: "shares_of ''s'' (demo_nd [1] [7]) 4 (demo_tensor 0 [5] 4) (demo_tensor 1 [2] 4)" using demo_shares [of "[7]" "[2]" "[5]" 4] by simp
  have w: "mw_gate demo_weights = demo_nd [1, 1] [3]" "mw_up demo_weights = demo_nd [1, 1] [2]" "mw_down demo_weights = demo_nd [1, 1] [5]"
    by (simp_all add: demo_weights_def Let_def)
  have b: "mlp_bounds_ok demo_weights (last (nd_shape (demo_nd [1] [7 :: 64 word]))) 4 10"
    by (simp add: mlp_bounds_ok_def w demo_norms [simplified] linear_ok_def) (simp add: demo_nd_def)
  have t: "two_burns mem_ops ''s'' p ''t'' ''t2'' (demo_rt p) DEFAULT_BURN_LEDGER" for p
    by (simp add: two_burns_def mem_ops_def mem_burn_def DEFAULT_BURN_LEDGER_def)
  have e: "executor_ok (\<lambda>_. 0) None W rt" for W and rt :: "unit PartyRuntime" by (simp add: executor_ok_def)
  have ref: "clear_mlp_reference (demo_nd [1] [7]) demo_weights 4 = Inr (demo_nd [1] [42630], 256)"
    by (simp add: clear_mlp_reference_def np_matmul_t_def np_uint64_def w demo_nd_def nd_matmul_t_def ring_of_ints_def nd_map_def
        nd_map2_def Let_def)
  have sh: "butlast (nd_shape (demo_nd [1] [7 :: 64 word])) @ [nd_shape (demo_nd [1, 1] [3 :: int]) ! 0] = [1]" by (simp add: demo_nd_def)
  have "\<exists>f0 f1 h0 h1 z0 z1 u0 u1 Y sc'.
      mlp_run (\<lambda>_. 0) None mem_ops (\<lambda>_. [1]) demo_weights (demo_rt 0, DEFAULT_BURN_LEDGER) (demo_tensor 0 [5] 4) 10
        (demo_triple 0) (demo_triple2 0) f1 h1 = (z0, Inr (f0, h0, u0))
    \<and> mlp_run (\<lambda>_. 0) None mem_ops (\<lambda>_. [1]) demo_weights (demo_rt 1, DEFAULT_BURN_LEDGER) (demo_tensor 1 [2] 4) 10
        (demo_triple 1) (demo_triple2 1) f0 h0 = (z1, Inr (f1, h1, u1))
    \<and> clear_mlp_reference (demo_nd [1] [7]) demo_weights 4 = Inr (Y, sc') \<and> shares_of (rt_session_id (demo_rt 0)) Y sc' u0 u1"
    by (rule mlp_matches_reference [OF demo_weights_ok demo_peers _ e e b])
      (use X demo_triple_shares demo_triple2_shares t [of 0] t [of 1] sh in simp_all)
  then show ?thesis unfolding ref using reconstruct_shares by auto blast
qed

end
