(* ===== verification/Network_MLP.thy ===== *)
theory Network_MLP
  imports Compute_Correct Shared_MLP
begin

text \<open>
  Quantized layers of a compute party and the network MLP (\<^verbatim>\<open>SharedComputeParty.quantized_linear\<close>,
  \<^verbatim>\<open>SharedMLPBounds\<close> and \<^verbatim>\<open>NetworkSharedMLP\<close> of \<^verbatim>\<open>runtime/shared_party.py\<close>). The declared bounds are sound for
  the integer computation, and a quantized layer run by two parties over the network is exact.
\<close>

section \<open>Quantized linear layers\<close>

definition quantized_linear ::
  "hmac_fun \<Rightarrow> (bytes \<Rightarrow> digest) \<Rightarrow> 'c matrix_executor option \<Rightarrow> 'l burn_ops \<Rightarrow> packer \<Rightarrow> unpacker \<Rightarrow> int \<Rightarrow> ('l, 'c) compute
    \<Rightarrow> SharedTensor \<Rightarrow> PublicQuantizedMatrix \<Rightarrow> string \<Rightarrow> int \<Rightarrow> (('l, 'c) compute, SharedTensor \<times> int) proc" where
  "quantized_linear hmac sha ex ops packb unpackb now s value matrix oid signed_bound =
     thenP (Ret s (scaled_bound matrix signed_bound)) (\<lambda>s bound.
     thenP (rt_call s (linear_public sha ex (cp_runtime s) value (qm_coefficients matrix) (oid @ ''.coefficients'') signed_bound))
      (\<lambda>s result.
     thenP (Ret s (mul_public_tensor (cp_runtime s) result (I64Arr (qm_row_multipliers matrix)) (oid @ ''.row_scale''))) (\<lambda>s result.
     if qm_scale matrix = 1 then Ret s (Inr (result, bound))
     else
       thenP (Ret s (reinterpret_scale (cp_runtime s) result (st_scale value * qm_scale matrix) (oid @ ''.scaled''))) (\<lambda>s result.
       thenP (compute_truncate hmac ops packb unpackb now s result (oid @ ''.truncate'') (bit_length (nat (qm_scale matrix)) - 1) bound)
        (\<lambda>s result.
       thenP (Ret s (output_bound matrix signed_bound)) (\<lambda>s out. Ret s (Inr (result, out))))))))"

section \<open>The network MLP\<close>

record SharedMLPBounds =
  mb_hidden :: int
  mb_gate :: int
  mb_up :: int
  mb_activation_numerator :: int
  mb_activation :: int
  mb_product :: int
  mb_output :: int

definition NetworkSharedMLP_init :: "SharedMLPWeights \<Rightarrow> string \<Rightarrow> (SharedMLPWeights \<times> string) res" where
  "NetworkSharedMLP_init weights prefix =
     raise_if (prefix = []) (SharedMPCError ''network shared MLP prefix cannot be empty'') (Inr (weights, prefix))"

definition network_bounds :: "SharedMLPWeights \<Rightarrow> int \<Rightarrow> int \<Rightarrow> SharedMLPBounds res" where
  "network_bounds w hidden_bound scale =
     bindE (output_bound (mw_gate_matrix w) hidden_bound) (\<lambda>gate.
     bindE (output_bound (mw_up_matrix w) hidden_bound) (\<lambda>up.
     let numerator = 2 * scale * gate + gate * gate;
         activation = drop_bit (bit_length (nat scale) + 1) numerator + 1;
         product = activation * up in
     bindE (output_bound (mw_down_matrix w) (drop_bit (bit_length (nat scale) - 1) product + 1)) (\<lambda>out.
     Inr \<lparr>mb_hidden = hidden_bound, mb_gate = gate, mb_up = up, mb_activation_numerator = numerator, mb_activation = activation,
          mb_product = product, mb_output = out\<rparr>)))"

definition network_mlp_run ::
  "hmac_fun \<Rightarrow> (bytes \<Rightarrow> digest) \<Rightarrow> 'c matrix_executor option \<Rightarrow> 'l burn_ops \<Rightarrow> packer \<Rightarrow> unpacker \<Rightarrow> int \<Rightarrow> SharedMLPWeights \<Rightarrow> string
    \<Rightarrow> ('l, 'c) compute \<Rightarrow> SharedTensor \<Rightarrow> int \<Rightarrow> (('l, 'c) compute, SharedTensor) proc" where
  "network_mlp_run hmac sha ex ops packb unpackb now w prefix s hidden hidden_bound =
     (let scale = st_scale hidden in
      thenP (Ret s (raise_if (scale < 2 \<or> not_power_of_two scale)
               (SharedMPCError ''network shared MLP scale must be a power of two of at least two'')
               (network_bounds w hidden_bound scale))) (\<lambda>s bounds.
      thenP (Ret s (raise_if (mb_gate bounds > scale)
               (SharedMPCError ''quadratic SiLU is calibrated only for gate values in [-1, 1]'') (Inr ()))) (\<lambda>s _.
      thenP (quantized_linear hmac sha ex ops packb unpackb now s hidden (mw_gate_matrix w) (prefix @ ''.gate_quantize'') hidden_bound)
       (\<lambda>s (gate, gate_bound).
      thenP (quantized_linear hmac sha ex ops packb unpackb now s hidden (mw_up_matrix w) (prefix @ ''.up_quantize'') hidden_bound)
       (\<lambda>s (up, up_bound).
      thenP (Ret s (raise_if (gate_bound \<noteq> mb_gate bounds \<or> up_bound \<noteq> mb_up bounds)
               (SharedMPCError ''network shared MLP quantization bound mismatch'') (Inr ()))) (\<lambda>s _.
      thenP (compute_multiply ops packb unpackb now s gate gate (prefix @ ''.gate_square'')) (\<lambda>s square.
      thenP (Ret s (mul_public (cp_runtime s) gate (2 * scale) (prefix @ ''.gate_linear''))) (\<lambda>s linear.
      thenP (Ret s (reinterpret_scale (cp_runtime s) linear (scale * scale) (prefix @ ''.gate_aligned''))) (\<lambda>s linear.
      thenP (Ret s (party_add (cp_runtime s) linear square (prefix @ ''.activation_numerator''))) (\<lambda>s numerator.
      thenP (Ret s (reinterpret_scale (cp_runtime s) numerator (4 * scale * scale) (prefix @ ''.activation_scaled''))) (\<lambda>s numerator.
      thenP (compute_truncate hmac ops packb unpackb now s numerator (prefix @ ''.activation_truncate'')
               (bit_length (nat scale) + 1) (mb_activation_numerator bounds)) (\<lambda>s activation.
      thenP (compute_multiply ops packb unpackb now s activation up (prefix @ ''.gate_product'')) (\<lambda>s product.
      thenP (compute_truncate hmac ops packb unpackb now s product (prefix @ ''.product_truncate'')
               (bit_length (nat scale) - 1) (mb_product bounds)) (\<lambda>s product.
      thenP (quantized_linear hmac sha ex ops packb unpackb now s product (mw_down_matrix w) (prefix @ ''.down_quantize'')
               (drop_bit (bit_length (nat scale) - 1) (mb_product bounds) + 1)) (\<lambda>s (out, out_bound).
      Ret s (raise_if (out_bound \<noteq> mb_output bounds) (SharedMPCError ''network shared MLP output bound mismatch'') (Inr out)))))))))))))))))"

section \<open>Soundness of the declared bounds\<close>

text \<open>\<open>rounded v q n\<close>: \<open>n\<close> is the quotient rounded down, or one more, as either truncation method returns it.\<close>

definition rounded :: "int \<Rightarrow> int \<Rightarrow> int \<Rightarrow> bool" where
  "rounded v q n \<longleftrightarrow> n = v div q \<or> n = v div q + 1"

definition quantized_value :: "PublicQuantizedMatrix \<Rightarrow> int list \<Rightarrow> nat \<Rightarrow> int \<Rightarrow> bool" where
  "quantized_value m xs r n \<longleftrightarrow>
     (let v = sum_list (map2 (*) (matrix_row (qm_coefficients m) r) xs) * (nd_data (qm_row_multipliers m) ! r)
      in if qm_scale m = 1 then n = v else rounded v (qm_scale m) n)"

definition matrix_wf :: "PublicQuantizedMatrix \<Rightarrow> bool" where
  "matrix_wf m \<longleftrightarrow> mk_PublicQuantizedMatrix (qm_coefficients m) (qm_row_multipliers m) (qm_scale m) = Inr m \<and> nd_wf (qm_row_multipliers m)"

definition rows_wf :: "i64array option \<Rightarrow> bool" where
  "rows_wf m \<longleftrightarrow> (case m of None \<Rightarrow> True | Some a \<Rightarrow> nd_wf a)"

lemma weight_matrix_wf: "weight_matrix v rows sc = Inr m \<Longrightarrow> rows_wf rows \<Longrightarrow> matrix_wf m \<and> qm_coefficients m = v"
  by (auto simp: weight_matrix_def mk_PublicQuantizedMatrix_def matrix_wf_def rows_wf_def ones_def nd_wf_def res_simps split: option.splits)

lemma weights_matrices:
  assumes "mk_SharedMLPWeights gate up down grows urows drows gs us ds = Inr w"
  shows "weight_matrix gate grows gs = Inr (mw_gate_matrix w)" "weight_matrix up urows us = Inr (mw_up_matrix w)"
    "weight_matrix down drows ds = Inr (mw_down_matrix w)" "nd_shape up = nd_shape gate" "nd_shape down ! 1 = nd_shape gate ! 0"
  using assms by (auto simp: mk_SharedMLPWeights_def res_simps)

lemma quantized_value_bound:
  assumes "matrix_wf m" and "output_bound m B = Inr ob" and "r < nd_shape (qm_coefficients m) ! 0"
    and "length xs = nd_shape (qm_coefficients m) ! 1" and "\<forall>x \<in> set xs. \<bar>x\<bar> \<le> B" and "quantized_value m xs r n"
  shows "\<bar>n\<bar> \<le> ob"
  using quantized_row_bound [of "qm_coefficients m" "qm_row_multipliers m" "qm_scale m" m B ob r xs, OF _ assms(2-5) refl] assms(1,6)
  by (auto simp: matrix_wf_def quantized_value_def rounded_def Let_def split: if_splits)

lemma rounded_bound:
  assumes "\<bar>v\<bar> \<le> b" and "rounded v (2 ^ k) n"
  shows "\<bar>n\<bar> \<le> drop_bit k b + 1"
  using div_pow_abs [OF assms(1), of k] assms(2) by (auto simp: rounded_def drop_bit_eq_div)

lemma activation_bound:
  fixes g :: int
  assumes "\<bar>g\<bar> \<le> G" and "0 \<le> sc"
  shows "\<bar>2 * sc * g + g * g\<bar> \<le> 2 * sc * G + G * G"
proof -
  have "\<bar>2 * sc * g\<bar> \<le> 2 * sc * G" using assms by (simp add: abs_mult mult_left_mono)
  moreover have "\<bar>g * g\<bar> \<le> G * G" unfolding abs_mult using assms by (intro mult_mono) auto
  ultimately show ?thesis by linarith
qed

text \<open>
  The bounds that the network MLP declares to its truncations are sound. For every hidden vector within
  the hidden bound, the quantized gate and up projections, the numerator of the quadratic activation, the
  activation, the gated product and the output all stay within the declared bounds, whichever way each
  truncation rounds.
\<close>

lemma network_bounds_sound:
  assumes "mk_SharedMLPWeights gate up down grows urows drows gs us ds = Inr w" and "rows_wf grows" "rows_wf urows" "rows_wf drows"
    and "network_bounds w B sc = Inr b" and "2 \<le> sc" and "\<not> not_power_of_two sc"
    and "length xs = nd_shape gate ! 1" and "\<forall>x \<in> set xs. \<bar>x\<bar> \<le> B" and "rows = nd_shape gate ! 0"
    and "\<forall>r < rows. quantized_value (mw_gate_matrix w) xs r (g r) \<and> quantized_value (mw_up_matrix w) xs r (u r)
           \<and> rounded (2 * sc * g r + g r * g r) (4 * sc) (a r) \<and> rounded (a r * u r) sc (y r)"
    and "j < nd_shape down ! 0" and "quantized_value (mw_down_matrix w) (map y [0..<rows]) j out"
  shows "(\<forall>r < rows. \<bar>g r\<bar> \<le> mb_gate b \<and> \<bar>u r\<bar> \<le> mb_up b \<and> \<bar>2 * sc * g r + g r * g r\<bar> \<le> mb_activation_numerator b
            \<and> \<bar>a r\<bar> \<le> mb_activation b \<and> \<bar>a r * u r\<bar> \<le> mb_product b)
       \<and> \<bar>out\<bar> \<le> mb_output b"
proof -
  let ?k = "bit_length (nat sc) - 1"
  have m: "matrix_wf (mw_gate_matrix w)" "matrix_wf (mw_up_matrix w)" "matrix_wf (mw_down_matrix w)"
    "qm_coefficients (mw_gate_matrix w) = gate" "qm_coefficients (mw_up_matrix w) = up" "qm_coefficients (mw_down_matrix w) = down"
    and sh: "nd_shape up = nd_shape gate" "nd_shape down ! 1 = nd_shape gate ! 0"
    using weights_matrices [OF assms(1)] weight_matrix_wf assms(2-4) by blast+
  have "int (nat sc) AND (int (nat sc) - 1) = 0" using assms(6,7) by (simp add: not_power_of_two_def)
  then have "nat sc = 2 ^ ?k" using pow2_of_and_pred [of "nat sc"] assms(6) by simp
  then have sc: "sc = 2 ^ ?k" using assms(6) by (metis int_nat_eq order_trans zero_le_numeral of_nat_numeral of_nat_power)
  have bl: "0 < bit_length (nat sc)" using assms(6) by (subst bit_length.simps) simp
  have e: "bit_length (nat sc) + 1 = ?k + 2" using bl by simp
  have sc4: "4 * sc = 2 ^ (bit_length (nat sc) + 1)" unfolding e power_add using sc by simp
  obtain G U O where B: "output_bound (mw_gate_matrix w) B = Inr G" "output_bound (mw_up_matrix w) B = Inr U"
    "mb_gate b = G" "mb_up b = U" "mb_activation_numerator b = 2 * sc * G + G * G"
    "mb_activation b = drop_bit (bit_length (nat sc) + 1) (2 * sc * G + G * G) + 1" "mb_product b = mb_activation b * U"
    "output_bound (mw_down_matrix w) (drop_bit ?k (mb_product b) + 1) = Inr (mb_output b)"
    using assms(5) by (auto simp: network_bounds_def res_simps Let_def)
  have row: "\<bar>g r\<bar> \<le> G \<and> \<bar>u r\<bar> \<le> U \<and> \<bar>2 * sc * g r + g r * g r\<bar> \<le> mb_activation_numerator b
            \<and> \<bar>a r\<bar> \<le> mb_activation b \<and> \<bar>a r * u r\<bar> \<le> mb_product b" if r: "r < rows" for r
  proof -
    have v: "\<bar>g r\<bar> \<le> G" "\<bar>u r\<bar> \<le> U"
      using quantized_value_bound [OF m(1) B(1), of r xs "g r"] quantized_value_bound [OF m(2) B(2), of r xs "u r"] assms(8-11) m sh r by auto
    have n: "\<bar>2 * sc * g r + g r * g r\<bar> \<le> mb_activation_numerator b" using activation_bound [OF v(1)] assms(6) B(5) by simp
    have a: "\<bar>a r\<bar> \<le> mb_activation b" using rounded_bound [OF n] assms(11) r unfolding sc4 B(5,6) by blast
    have "\<bar>a r * u r\<bar> \<le> mb_product b" using a v(2) unfolding B(7) abs_mult by (intro mult_mono) auto
    with v n a show ?thesis by blast
  qed
  have "\<forall>x \<in> set (map y [0..<rows]). \<bar>x\<bar> \<le> drop_bit ?k (mb_product b) + 1"
    using rounded_bound [of _ "mb_product b" ?k, folded sc] row assms(11) by auto blast
  from quantized_value_bound [OF m(3) B(8) _ _ this assms(13)] assms(10,12) sh m
  have "\<bar>out\<bar> \<le> mb_output b" by simp
  with row B(3,4) show ?thesis by simp
qed

section \<open>Quantized layers over the network\<close>

text \<open>The exact quantized product over the integers.\<close>

definition row_dot :: "PublicQuantizedMatrix \<Rightarrow> u64array \<Rightarrow> nat \<Rightarrow> int" where
  "row_dot m X i =
     (let C = qm_coefficients m; k = nd_shape C ! 1; n = nd_shape C ! 0
      in sum_list (map (\<lambda>t. sint (nd_data X ! ((i div n) * k + t)) * nd_data C ! ((i mod n) * k + t)) [0..<k])
           * nd_data (qm_row_multipliers m) ! (i mod n))"

definition quantized_exact :: "PublicQuantizedMatrix \<Rightarrow> u64array \<Rightarrow> u64array" where
  "quantized_exact m X =
     \<lparr>nd_shape = butlast (nd_shape X) @ [nd_shape (qm_coefficients m) ! 0],
      nd_data = map (\<lambda>i. word_of_int (row_dot m X i div qm_scale m))
                    [0..<prod_list (butlast (nd_shape X)) * nd_shape (qm_coefficients m) ! 0]\<rparr>"

lemma bcast_index_last: "i < prod_list (ts @ [k]) \<Longrightarrow> bcast_index (replicate (length ts) 1 @ [k]) (ts @ [k]) i = i mod k"
proof (induction ts arbitrary: i)
  case Nil
  then show ?case by (cases "k = 1") auto
next
  case (Cons t ts)
  have "0 < prod_list (ts @ [k])" using Cons.prems by (cases "prod_list (ts @ [k])") auto
  then have "bcast_index (replicate (length ts) 1 @ [k]) (ts @ [k]) (i mod prod_list (ts @ [k])) = (i mod prod_list (ts @ [k])) mod k"
    by (intro Cons.IH) simp
  also have "\<dots> = i mod k" by (simp add: mod_mod_cancel)
  finally show ?case by simp
qed

lemma broadcast_rows:
  assumes "nd_shape M = [k]"
  shows "nd_broadcast_to M (ts @ [k]) = Inr \<lparr>nd_shape = ts @ [k], nd_data = map (\<lambda>i. nd_data M ! (i mod k)) [0..<prod_list (ts @ [k])]\<rparr>"
proof -
  have p: "pad_shape [k] (ts @ [k]) = replicate (length ts) 1 @ [k]" by (simp add: pad_shape_def)
  have "list_all2 (\<lambda>s t. s = t \<or> s = 1) (replicate (length ts) 1 @ [k]) (ts @ [k])"
    by (rule list_all2_appendI) (simp_all add: list_all2_conv_all_nth)
  then have "broadcastable [k] (ts @ [k])" unfolding broadcastable_def p by simp
  then show ?thesis unfolding nd_broadcast_to_def assms p using bcast_index_last [of _ ts k] by simp
qed

text \<open>On the ring, the coefficients and the row multipliers compute the integer dot product.\<close>

definition ring_linear :: "PublicQuantizedMatrix \<Rightarrow> u64array \<Rightarrow> u64array" where
  "ring_linear m X =
     \<lparr>nd_shape = butlast (nd_shape X) @ [nd_shape (qm_coefficients m) ! 0],
      nd_data = map (\<lambda>i. word_of_int (row_dot m X i)) [0..<prod_list (butlast (nd_shape X)) * nd_shape (qm_coefficients m) ! 0]\<rparr>"

lemma word_of_int_sum_list: "word_of_int (sum_list xs) = sum_list (map word_of_int xs)"
  by (induction xs) auto

lemma ring_linear_eq:
  assumes "matrix_wf m" and "last (nd_shape X) = nd_shape (qm_coefficients m) ! 1" and "nd_wf X" and "nd_shape X \<noteq> []" and "nd_wf (qm_coefficients m)"
  shows "mul_tensor_values (I64Arr (qm_row_multipliers m)) (nd_matmul_t X (ring_of_ints (qm_coefficients m))) = Inr (ring_linear m X)"
proof -
  let ?C = "qm_coefficients m" and ?M = "qm_row_multipliers m"
  let ?n = "nd_shape ?C ! 0" and ?k = "nd_shape ?C ! 1" and ?r = "prod_list (butlast (nd_shape X))"
  have C: "length (nd_shape ?C) = 2" "nd_shape ?M = [?n]" "nd_wf ?M" using assms(1) by (auto simp: matrix_wf_def mk_PublicQuantizedMatrix_def res_simps)
  then have hd: "hd (nd_shape ?C) = ?n" "prod_list (nd_shape ?C) = ?n * ?k"
    by (cases "nd_shape ?C"; cases "tl (nd_shape ?C)"; simp)+
  have bc: "nd_broadcast_to (ring_of_ints ?M) (butlast (nd_shape X) @ [?n]) = Inr \<lparr>nd_shape = butlast (nd_shape X) @ [?n],
      nd_data = map (\<lambda>i. nd_data (ring_of_ints ?M) ! (i mod ?n)) [0..<?r * ?n]\<rparr>"
    using broadcast_rows [of "ring_of_ints ?M" ?n "butlast (nd_shape X)"] C(2) by (simp add: ring_of_ints_def)
  have el: "nd_data (nd_matmul_t X (ring_of_ints ?C)) ! i * nd_data (ring_of_ints ?M) ! (i mod ?n) = word_of_int (row_dot m X i)"
    if i: "i < ?r * ?n" for i
  proof -
    have n: "0 < ?n" using i by (cases ?n) auto
    have "(i mod ?n) * ?k + t < length (nd_data ?C)" if "t < ?k" for t
      using row_index_less [of "i mod ?n" ?n t ?k] that n assms(5) hd(2) by (simp add: nd_wf_def)
    moreover have "i mod ?n < length (nd_data ?M)" using n C(2,3) by (simp add: nd_wf_def)
    ultimately show ?thesis using i hd(1) assms(2)
      by (simp add: nd_matmul_t_def ring_of_ints_def Let_def row_dot_def word_of_int_sum_list comp_def)
        (rule arg_cong2 [where f = "(*)"], auto intro!: sum_list_map_cong)
  qed
  have "length (nd_data (nd_matmul_t X (ring_of_ints ?C))) = ?r * ?n" using hd(1) by (simp add: nd_matmul_t_def ring_of_ints_def Let_def)
  moreover have "nd_shape (nd_matmul_t X (ring_of_ints ?C)) = butlast (nd_shape X) @ [?n]" using hd(1) by (simp add: matmul_shape ring_of_ints_def)
  ultimately show ?thesis using bc el
    by (auto simp: mul_tensor_values_def ring_array_def ring_linear_def intro!: nd_ext [where n = "?r * ?n"])
qed

lemma row_dot_bound:
  assumes "matrix_wf m" and "output_bound m B = Inr ob" and "\<forall>x \<in> set (nd_data X). \<bar>sint x\<bar> \<le> B" and "nd_wf X" and "nd_shape X \<noteq> []"
    and "last (nd_shape X) = nd_shape (qm_coefficients m) ! 1" and "i < prod_list (butlast (nd_shape X)) * nd_shape (qm_coefficients m) ! 0"
  shows "\<bar>row_dot m X i\<bar> < 2 ^ 62" "\<bar>row_dot m X i div qm_scale m\<bar> \<le> ob"
proof -
  let ?C = "qm_coefficients m"
  let ?n = "nd_shape ?C ! 0" and ?k = "nd_shape ?C ! 1" and ?r = "prod_list (butlast (nd_shape X))"
  let ?xs = "map (\<lambda>t. sint (nd_data X ! ((i div ?n) * ?k + t))) [0..<?k]"
  have n: "0 < ?n" using assms(7) by (cases ?n) auto
  have len: "length (nd_data X) = ?r * ?k" using assms(4,6) nd_size_butlast [OF assms(5)] by (simp add: nd_wf_def nd_size_def)
  have "i div ?n < ?r" using assms(7) by (simp add: less_mult_imp_div_less)
  then have "(i div ?n) * ?k + t < length (nd_data X)" if "t < ?k" for t unfolding len using that by (rule row_index_less)
  then have xs: "\<forall>x \<in> set ?xs. \<bar>x\<bar> \<le> B" using assms(3) by auto
  have "map2 (*) (matrix_row ?C (i mod ?n)) ?xs = map (\<lambda>t. sint (nd_data X ! ((i div ?n) * ?k + t)) * nd_data ?C ! ((i mod ?n) * ?k + t)) [0..<?k]"
    by (simp add: matrix_row_def map2_map_map mult.commute)
  then have "row_dot m X i = sum_list (map2 (*) (matrix_row ?C (i mod ?n)) ?xs) * (nd_data (qm_row_multipliers m) ! (i mod ?n))"
    by (simp add: row_dot_def Let_def)
  from quantized_row_bound [OF _ assms(2) _ _ xs this, of "qm_scale m"] assms(1) n
  show "\<bar>row_dot m X i\<bar> < 2 ^ 62" "\<bar>row_dot m X i div qm_scale m\<bar> \<le> ob" by (cases "qm_scale m = 1"; simp add: matrix_wf_def)+
qed

lemma sint_word_of_int_small: "\<bar>v\<bar> < 2 ^ 62 \<Longrightarrow> sint (word_of_int v :: 64 word) = v"
  by (simp add: signed_of_int signed_take_bit_int_eq_self_iff abs_less_iff)

lemma quantized_exact_floor:
  assumes "\<And>i. i < prod_list (butlast (nd_shape X)) * nd_shape (qm_coefficients m) ! 0 \<Longrightarrow> \<bar>row_dot m X i\<bar> < 2 ^ 62" and "qm_scale m = 2 ^ b"
  shows "nd_map (exact_floor b) (ring_linear m X) = quantized_exact m X" and "\<forall>x \<in> set (nd_data (ring_linear m X)). \<bar>sint x\<bar> < 2 ^ 62"
  using assms by (auto simp: ring_linear_def quantized_exact_def nd_map_def exact_floor_def sint_word_of_int_small)


lemma scaled_bound_linear:
  assumes "matrix_wf m" and "nd_wf (qm_coefficients m)" and "scaled_bound m B = Inr bd" and "k = nd_shape (qm_coefficients m) ! 1"
  shows "linear_ok (qm_coefficients m) k B"
proof -
  let ?C = "qm_coefficients m" and ?M = "qm_row_multipliers m"
  let ?n = "nd_shape ?C ! 0"
  note f = assms(1) [unfolded matrix_wf_def mk_PublicQuantizedMatrix_def res_simps]
  have M: "nd_shape ?M = [?n]" "\<forall>x \<in> set (nd_data ?M). 0 < x" "length (nd_data ?M) = ?n" using f by (auto simp: nd_wf_def list_ex_iff not_le)
  have len: "length (nd_shape ?C) = 2" "nd_size ?C \<noteq> 0" using f by auto
  then have n: "?n \<noteq> 0" by (cases "nd_shape ?C") (auto simp: nd_size_def)
  have B: "0 < B" "Max (row_weight m ` {0..<?n}) * B < 2 ^ 62" using assms(3) by (auto simp: scaled_bound_def res_simps Let_def not_le)
  have le: "sum_list (map abs (matrix_row ?C r)) \<le> Max (row_weight m ` {0..<?n})" if "r < ?n" for r
  proof -
    have "0 \<le> sum_list (map abs (matrix_row ?C r))" by (rule sum_list_nonneg) auto
    moreover have "1 \<le> nd_data ?M ! r" using M that by (simp add: int_one_le_iff_zero_less)
    ultimately have "sum_list (map abs (matrix_row ?C r)) \<le> row_weight m r" unfolding row_weight_def by (simp add: mult_le_cancel_left1)
    also have "\<dots> \<le> Max (row_weight m ` {0..<?n})" using that by (intro Max_ge) auto
    finally show ?thesis .
  qed
  have "Max ((\<lambda>r. sum_list (map abs (matrix_row ?C r))) ` {0..<?n}) \<le> Max (row_weight m ` {0..<?n})" using le n by (subst Max_le_iff) auto
  then have "row_bound ?C B \<le> Max (row_weight m ` {0..<?n}) * B" unfolding row_bound_def using B(1) by (intro mult_right_mono) auto
  with B n len f assms(4) show ?thesis by (auto simp: linear_ok_def list_ex_iff not_less)
qed

text \<open>The local part of a quantized layer, on both parties.\<close>

lemma quantized_local:
  assumes p: "peers r0 r1" and sid: "sid = rt_session_id r0" and X: "shares_of sid X sc x0 x1" and m: "matrix_wf m" "nd_wf (qm_coefficients m)"
    and sh: "last (nd_shape X) = nd_shape (qm_coefficients m) ! 1" and sb: "scaled_bound m B = Inr bd"
    and W: "qm_coefficients m \<in> W" and e: "executor_ok sha ex W r0" "executor_ok sha ex W r1" and i: "i \<noteq> []" "j \<noteq> []" "k \<noteq> []"
  obtains q0 q1 a0 a1 b0 b1 c0 c1 where
    "linear_public sha ex r0 x0 (qm_coefficients m) i B = (q0, Inr a0)" "linear_public sha ex r1 x1 (qm_coefficients m) i B = (q1, Inr a1)"
    "mul_public_tensor q0 a0 (I64Arr (qm_row_multipliers m)) j = Inr b0" "mul_public_tensor q1 a1 (I64Arr (qm_row_multipliers m)) j = Inr b1"
    "shares_of sid (ring_linear m X) sc b0 b1"
    "reinterpret_scale q0 b0 (sc * qm_scale m) k = Inr c0" "reinterpret_scale q1 b1 (sc * qm_scale m) k = Inr c1"
    "shares_of sid (ring_linear m X) (sc * qm_scale m) c0 c1"
    "same_session r0 q0" "same_session r1 q1" "executor_ok sha ex W q0" "executor_ok sha ex W q1"
proof -
  note x = shares_ofD [OF X]
  have xn: "nd_shape X \<noteq> []" "nd_size X \<noteq> 0" using x(2) by (auto simp: tensor_ok_def)
  note mf = m(1) [unfolded matrix_wf_def mk_PublicQuantizedMatrix_def res_simps]
  have lin: "linear_ok (qm_coefficients m) (last (nd_shape X)) B" by (rule scaled_bound_linear [OF m sb sh])
  obtain q0 q1 a0 a1 where A: "linear_public sha ex r0 x0 (qm_coefficients m) i B = (q0, Inr a0)" "linear_public sha ex r1 x1 (qm_coefficients m) i B = (q1, Inr a1)"
      "same_session r0 q0" "same_session r1 q1" "executor_ok sha ex W q0" "executor_ok sha ex W q1"
      "shares_of sid (nd_matmul_t X (ring_of_ints (qm_coefficients m))) sc a0 a1"
    using linear_shares [OF p X [unfolded sid] lin W e i(1)] sid by auto
  note pq = peers_same [OF p A(3,4)]
  have sq: "sid = rt_session_id q0" using sid A(3) by simp
  have rows: "nd_shape (qm_coefficients m) ! 0 \<noteq> 0" using lin by (simp add: linear_ok_def)
  have ok: "tensor_ok (ring_linear m X)"
    using xn rows nd_size_butlast [OF xn(1)] by (simp add: tensor_ok_def ring_linear_def nd_size_def)
  obtain b0 b1 where B: "mul_public_tensor q0 a0 (I64Arr (qm_row_multipliers m)) j = Inr b0" "mul_public_tensor q1 a1 (I64Arr (qm_row_multipliers m)) j = Inr b1"
      "shares_of sid (ring_linear m X) sc b0 b1"
    using mult.op_shares [OF pq A(7) [unfolded sq] ring_linear_eq [OF m(1) sh x(8) xn(1) m(2)] ok i(2)] sq by (auto simp: local_op_forms)
  have "0 < sc * qm_scale m" using x(3) mf by simp
  from reinterpret_shares [OF pq B(3) [unfolded sq] this i(3)] obtain c0 c1 where
    C: "reinterpret_scale q0 b0 (sc * qm_scale m) k = Inr c0" "reinterpret_scale q1 b1 (sc * qm_scale m) k = Inr c1"
      "shares_of sid (ring_linear m X) (sc * qm_scale m) c0 c1" using sq by auto
  show ?thesis by (rule that [OF A(1,2) B C A(3-6)])
qed

definition with_rt :: "'c PartyRuntime \<Rightarrow> ('l, 'c) compute \<Rightarrow> ('l, 'c) compute" where
  "with_rt q s = s\<lparr>cp_runtime := q\<rparr>"

lemma with_rt_simps [simp]:
  "cp_runtime (with_rt q s) = q" "cp_ledger (with_rt q s) = cp_ledger s" "cp_peer (with_rt q s) = cp_peer s"
  "cp_inventory (with_rt q s) = cp_inventory s" "cp_max_opening_elements (with_rt q s) = cp_max_opening_elements s"
  "cp_truncation (with_rt q s) = cp_truncation s"
  by (simp_all add: with_rt_def)

lemma quantized_linear_step:
  assumes "scaled_bound m B = Inr bd" and "linear_public sha ex (cp_runtime s) x (qm_coefficients m) (oid @ ''.coefficients'') B = (q, Inr a)"
    and "mul_public_tensor q a (I64Arr (qm_row_multipliers m)) (oid @ ''.row_scale'') = Inr b"
    and "reinterpret_scale q b (st_scale x * qm_scale m) (oid @ ''.scaled'') = Inr c" and "output_bound m B = Inr ob"
  shows "quantized_linear hmac sha ex ops packb unpackb now s x m oid B =
    (if qm_scale m = 1 then Ret (with_rt q s) (Inr (b, bd))
     else thenP (compute_truncate hmac ops packb unpackb now (with_rt q s) c (oid @ ''.truncate'') (bit_length (nat (qm_scale m)) - 1) bd)
       (\<lambda>s r. Ret s (Inr (r, ob))))"
  using assms by (simp add: quantized_linear_def rt_call_def with_rt_def)

text \<open>
  What two parties need for a quantized layer: nothing when the scale is one, otherwise the exact truncation
  method, its mask and its carry triples. The jobs and operations that follow are listed too.
\<close>

definition layer_material ::
  "'l burn_ops \<Rightarrow> string \<Rightarrow> string \<Rightarrow> PublicQuantizedMatrix \<Rightarrow> nat list \<Rightarrow> job list \<Rightarrow> string list
    \<Rightarrow> ('l, 'c) compute \<Rightarrow> ('l, 'c) compute \<Rightarrow> bool" where
  "layer_material ops sid oid m shape jobs oids s0 s1 \<longleftrightarrow>
     (if qm_scale m = 1 then stocked ops sid jobs s0 s1 \<and> fresh_ops oids s0 \<and> fresh_ops oids s1
      else (let b = bit_length (nat (qm_scale m)) - 1; tid = oid @ ''.truncate'' in
        cp_truncation s0 = ''exact'' \<and> cp_truncation s1 = ''exact''
        \<and> fresh_ops (tid # map (carry_id tid) [1..<b] @ oids) s0 \<and> fresh_ops (tid # map (carry_id tid) [1..<b] @ oids) s1
        \<and> (\<exists>R mid budget cm. nd_shape R = shape \<and> exact_material ops sid tid R b mid budget cm jobs s0 s1)))"

lemma exact_material_rt:
  assumes "exact_material ops sid oid R b mid budget m jobs s0 s1" and "same_session (cp_runtime s0) q0" "same_session (cp_runtime s1) q1"
  shows "exact_material ops sid oid R b mid budget m jobs (with_rt q0 s0) (with_rt q1 s1)"
proof -
  have o: "opening_ready ops (with_rt q s) mid budget k l = opening_ready ops s mid budget k l" if "same_session (cp_runtime s) q"
    for q and s :: "('a, 'b) compute" and k l
    using that by (simp add: opening_ready_def)
  have st: "stocked ops sid j ((with_rt q0 s0)\<lparr>cp_ledger := l0\<rparr>) ((with_rt q1 s1)\<lparr>cp_ledger := l1\<rparr>)"
    if "stocked ops sid j (s0\<lparr>cp_ledger := l0\<rparr>) (s1\<lparr>cp_ledger := l1\<rparr>)" for j l0 l1
    by (rule stocked_cong [OF that]) (use assms(2,3) in \<open>simp_all add: with_rt_def\<close>)
  show ?thesis using assms(1) unfolding exact_material_def o [OF assms(2)] o [OF assms(3)] with_rt_simps
    by (blast intro: st)
qed

lemma quantized_linear_lock:
  assumes codec: "codec_ok packb unpackb" and pr: "paired sid s0 s1" and X: "shares_of sid X sc x0 x1"
    and m: "matrix_wf m" "nd_wf (qm_coefficients m)" and sh: "last (nd_shape X) = nd_shape (qm_coefficients m) ! 1"
    and sb: "scaled_bound m B = Inr bd" and pos: "qm_scale m = 1 \<or> 0 < bd" and bX: "\<forall>x \<in> set (nd_data X). \<bar>sint x\<bar> \<le> B"
    and W: "qm_coefficients m \<in> W" and e: "executor_ok sha ex W (cp_runtime s0)" "executor_ok sha ex W (cp_runtime s1)"
    and mat: "layer_material ops sid oid m (butlast (nd_shape X) @ [nd_shape (qm_coefficients m) ! 0]) jobs oids s0 s1"
    and sz: "length (nd_shape X) \<le> 64" "prod_list (butlast (nd_shape X)) * nd_shape (qm_coefficients m) ! 0 \<le> cp_max_opening_elements s0"
    and ob: "output_bound m B = Inr ob"
  shows "lock (pair_exchange packb unpackb sha' now)
     (quantized_linear hmac sha ex ops packb unpackb now s0 x0 m oid B) (quantized_linear hmac sha ex ops packb unpackb now s1 x1 m oid B)
     (\<lambda>s0' u0 s1' u1. paired sid s0' s1' \<and> stocked ops sid jobs s0' s1' \<and> fresh_ops oids s0' \<and> fresh_ops oids s1'
        \<and> shares_of sid (quantized_exact m X) sc (fst u0) (fst u1) \<and> snd u0 = ob \<and> snd u1 = ob)"
proof -
  note bi = pairedD [OF pr] and x = shares_ofD [OF X]
  have xn: "nd_shape X \<noteq> []" using x(2) by (auto simp: tensor_ok_def)
  let ?b = "bit_length (nat (qm_scale m)) - 1"
  have "0 < qm_scale m" "qm_scale m AND (qm_scale m - 1) = 0" using m(1) by (auto simp: matrix_wf_def mk_PublicQuantizedMatrix_def res_simps)
  then have q: "qm_scale m = 2 ^ ?b" using pow2_of_and_pred [of "nat (qm_scale m)"]
    by (metis int_nat_eq less_imp_le of_nat_numeral of_nat_power zero_less_nat_eq)
  have F: "nd_map (exact_floor ?b) (ring_linear m X) = quantized_exact m X" "\<forall>x \<in> set (nd_data (ring_linear m X)). \<bar>sint x\<bar> < 2 ^ 62"
    by (rule quantized_exact_floor [OF row_dot_bound(1) [OF m(1) ob bX x(8) xn sh] q], assumption)+
  have sid: "sid = cp_session s0" using bi by simp
  obtain q0 q1 a0 a1 b0 b1 c0 c1 where L:
    "linear_public sha ex (cp_runtime s0) x0 (qm_coefficients m) (oid @ ''.coefficients'') B = (q0, Inr a0)"
    "linear_public sha ex (cp_runtime s1) x1 (qm_coefficients m) (oid @ ''.coefficients'') B = (q1, Inr a1)"
    "mul_public_tensor q0 a0 (I64Arr (qm_row_multipliers m)) (oid @ ''.row_scale'') = Inr b0"
    "mul_public_tensor q1 a1 (I64Arr (qm_row_multipliers m)) (oid @ ''.row_scale'') = Inr b1"
    and S: "shares_of sid (ring_linear m X) sc b0 b1"
    and C: "reinterpret_scale q0 b0 (sc * qm_scale m) (oid @ ''.scaled'') = Inr c0" "reinterpret_scale q1 b1 (sc * qm_scale m) (oid @ ''.scaled'') = Inr c1"
    and T: "shares_of sid (ring_linear m X) (sc * qm_scale m) c0 c1"
    and ss: "same_session (cp_runtime s0) q0" "same_session (cp_runtime s1) q1"
    by (rule quantized_local [OF paired_peers [OF pr] sid X m sh sb W e, of "oid @ ''.coefficients''" "oid @ ''.row_scale''" "oid @ ''.scaled''"]) auto
  note st = quantized_linear_step [OF sb L(1,3) C(1) [folded x(4)] ob, of hmac ops packb unpackb now]
    quantized_linear_step [OF sb L(2,4) C(2) [folded x(5)] ob, of hmac ops packb unpackb now]
  let ?s0 = "with_rt q0 s0" and ?s1 = "with_rt q1 s1"
  have pr': "paired sid ?s0 ?s1" by (rule paired_same [OF pr]) (use ss in \<open>simp_all add: same_binding_def\<close>)
  show ?thesis
  proof (cases "qm_scale m = 1")
    case True
    then have z: "ring_linear m X = quantized_exact m X" by (simp add: quantized_exact_def ring_linear_def)
    have k: "stocked ops sid jobs s0 s1" "fresh_ops oids s0" "fresh_ops oids s1" using mat True by (simp_all add: layer_material_def)
    have "stocked ops sid jobs ?s0 ?s1" by (rule stocked_cong [OF k(1)]) (use ss in simp_all)
    moreover have "fresh_ops oids ?s0" "fresh_ops oids ?s1" by (rule fresh_ops_same [OF k(2)], simp, rule fresh_ops_same [OF k(3)], simp)
    moreover have "ob = bd" using ob sb True by (simp add: output_bound_def)
    ultimately show ?thesis unfolding st using True pr' S z by simp
  next
    case False
    let ?t = "oid @ ''.truncate''"
    have ex: "cp_truncation ?s0 = ''exact''" "cp_truncation ?s1 = ''exact''" using mat False by (simp_all add: layer_material_def Let_def)
    have fr: "fresh_ops (?t # map (carry_id ?t) [1..<?b] @ oids) ?s0" "fresh_ops (?t # map (carry_id ?t) [1..<?b] @ oids) ?s1"
      using mat False by (simp_all add: layer_material_def Let_def fresh_ops_def)
    obtain R mid budget cm where M: "nd_shape R = nd_shape (ring_linear m X)" "exact_material ops sid ?t R ?b mid budget cm jobs ?s0 ?s1"
      using mat False exact_material_rt [OF _ ss] by (auto simp: layer_material_def Let_def ring_linear_def) blast
    have bd: "0 < bd" "bd < 2 ^ 62" using pos False sb by (auto simp: scaled_bound_def res_simps Let_def not_le)
    have scm: "sc * qm_scale m mod 2 ^ ?b = 0" "sc * qm_scale m div 2 ^ ?b = sc" unfolding q [symmetric] using \<open>0 < qm_scale m\<close> by simp_all
    have z: "length (nd_shape (ring_linear m X)) \<le> 64" "nd_size (ring_linear m X) \<le> cp_max_opening_elements ?s0"
      using sz xn by (simp_all add: ring_linear_def nd_size_def)
    note tr = truncate_exact_lock [OF codec pr' T ex M(2,1) fr bd scm(1) F(2) z, of sha' now, unfolded F(1) scm(2)]
    have ct: "compute_truncate hmac ops packb unpackb now ?s0 c0 ?t ?b bd = truncate_exact ops packb unpackb now ?s0 c0 ?t ?b bd"
      "compute_truncate hmac ops packb unpackb now ?s1 c1 ?t ?b bd = truncate_exact ops packb unpackb now ?s1 c1 ?t ?b bd"
      using ex by (simp_all add: compute_truncate_def)
    show ?thesis unfolding st if_not_P [OF False] ct by (rule lock_then [OF tr]) simp
  qed
qed

lemma quantized_exact_bound:
  assumes "matrix_wf m" and "output_bound m B = Inr ob" and "\<forall>x \<in> set (nd_data X). \<bar>sint x\<bar> \<le> B" and "nd_wf X" and "nd_shape X \<noteq> []"
    and "last (nd_shape X) = nd_shape (qm_coefficients m) ! 1"
  shows "\<forall>x \<in> set (nd_data (quantized_exact m X)). \<bar>sint x\<bar> \<le> ob"
proof -
  have q: "0 < qm_scale m" using assms(1) by (auto simp: matrix_wf_def mk_PublicQuantizedMatrix_def res_simps)
  have s: "sint (word_of_int (v div qm_scale m) :: 64 word) = v div qm_scale m" if v: "\<bar>v\<bar> < 2 ^ 62" for v
  proof -
    have "v div qm_scale m \<le> (2 ^ 62 - 1) div qm_scale m" "(- (2 ^ 62)) div qm_scale m \<le> v div qm_scale m" using v q by (auto intro: zdiv_mono1)
    moreover have "(2 ^ 62 - 1) div qm_scale m \<le> 2 ^ 62 - 1" using q zdiv_mono2 [of "2 ^ 62 - 1" 1 "qm_scale m"] by simp
    moreover have "- (2 ^ 62) \<le> (- (2 ^ 62)) div qm_scale m" using q zdiv_mono2_neg [of "- (2 ^ 62)" 1 "qm_scale m"] by simp
    ultimately show ?thesis by (simp add: signed_of_int signed_take_bit_int_eq_self_iff)
  qed
  show ?thesis using row_dot_bound [OF assms(1-6)] s by (auto simp: quantized_exact_def)
qed

text \<open>
  C15: A quantized layer over the network with the truncation method \<^verbatim>\<open>exact\<close> is exact. Two compute parties that
  are configured with that method (the matrix scale is one, or \<open>layer_material\<close> requires it of both), hold the dealt
  material of the layer and shares of a tensor within the signed bound, both return from \<^verbatim>\<open>quantized_linear\<close> shares of the integer matrix product with row multipliers,
  divided by the matrix scale and rounded down, at the input scale; both report the same output bound, and
  every element of the result is within it.
\<close>

theorem network_quantized_linear:
  assumes "codec_ok packb unpackb" and "paired sid s0 s1" and "shares_of sid X sc x0 x1"
    and "mk_PublicQuantizedMatrix C M q = Inr m" and "nd_wf C" "nd_wf M" and "last (nd_shape X) = nd_shape C ! 1"
    and "scaled_bound m B = Inr bd" and "q = 1 \<or> 0 < bd" and "\<forall>x \<in> set (nd_data X). \<bar>sint x\<bar> \<le> B" and "C \<in> W"
    and "executor_ok sha ex W (cp_runtime s0)" "executor_ok sha ex W (cp_runtime s1)"
    and "layer_material ops sid oid m (butlast (nd_shape X) @ [nd_shape C ! 0]) [] [] s0 s1"
    and "length (nd_shape X) \<le> 64" "prod_list (butlast (nd_shape X)) * nd_shape C ! 0 \<le> cp_max_opening_elements s0"
  shows "\<exists>s0' s1' u0 u1 ob. run2 (lone_exchange packb unpackb sha' now) (pair_exchange packb unpackb sha' now)
      (quantized_linear hmac sha ex ops packb unpackb now s0 x0 m oid B) (quantized_linear hmac sha ex ops packb unpackb now s1 x1 m oid B)
      = ((s0', Inr (u0, ob)), (s1', Inr (u1, ob))) \<and> paired sid s0' s1'
    \<and> shares_of sid (quantized_exact m X) sc u0 u1 \<and> (\<forall>x \<in> set (nd_data (quantized_exact m X)). \<bar>sint x\<bar> \<le> ob)"
proof -
  have m: "qm_coefficients m = C" "qm_row_multipliers m = M" "qm_scale m = q" using assms(4) by (auto simp: mk_PublicQuantizedMatrix_def res_simps)
  have mw: "matrix_wf m" "nd_wf (qm_coefficients m)" using assms(4-6) by (simp_all add: matrix_wf_def m)
  obtain ob where ob: "output_bound m B = Inr ob" using assms(8) by (simp add: output_bound_def)
  note x = shares_ofD [OF assms(3)]
  have xn: "nd_shape X \<noteq> []" using x(2) by (auto simp: tensor_ok_def)
  note L = quantized_linear_lock [OF assms(1-3) mw _ assms(8) _ assms(10) _ assms(12,13) _ assms(15) _ ob, unfolded m,
      OF assms(7,9,11,14,16), of sha' now hmac]
  have v: "\<forall>x \<in> set (nd_data (quantized_exact m X)). \<bar>sint x\<bar> \<le> ob"
    using quantized_exact_bound [OF mw(1) ob assms(10) x(8) xn] assms(7) by (simp add: m)
  from lock_run2 [OF L, of "lone_exchange packb unpackb sha' now"] v show ?thesis by (auto simp: prod_eq_iff)
qed

definition demo_qmatrix :: PublicQuantizedMatrix where
  "demo_qmatrix = \<lparr>qm_coefficients = demo_nd [1, 1] [3], qm_row_multipliers = demo_nd [1] [2], qm_scale = 4\<rparr>"

theorem network_quantized_linear_witness:
  "\<exists>s0' s1' u0 u1 ob. run2 (lone_exchange msg_enc msg_unpackb (\<lambda>_. 0) 3) (pair_exchange msg_enc msg_unpackb (\<lambda>_. 0) 3)
      (quantized_linear demo_hmac (\<lambda>_. 0) None mem_ops msg_enc msg_unpackb 3 (demo_exact_party ''op.truncate'' 0) (demo_tensor 0 [6] 4) demo_qmatrix ''op'' 20)
      (quantized_linear demo_hmac (\<lambda>_. 0) None mem_ops msg_enc msg_unpackb 3 (demo_exact_party ''op.truncate'' 1) (demo_tensor 1 [7] 4) demo_qmatrix ''op'' 20)
      = ((s0', Inr (u0, ob)), (s1', Inr (u1, ob))) \<and> reconstruct u0 u1 = Inr (demo_nd [1] [19])"
proof -
  let ?p = "demo_exact_party ''op.truncate''"
  have pr: "paired ''s'' (?p 0) (?p 1)" unfolding demo_exact_party_def by (rule demo_paired) (simp_all add: demo_stock_def)
  have mk: "mk_PublicQuantizedMatrix (demo_nd [1, 1] [3]) (demo_nd [1] [2]) 4 = Inr demo_qmatrix"
    by (simp add: mk_PublicQuantizedMatrix_def demo_qmatrix_def demo_nd_def nd_size_def)
  have sb: "scaled_bound demo_qmatrix 20 = Inr 120"
    by (simp add: scaled_bound_def row_weight_def matrix_row_def demo_qmatrix_def demo_nd_def)
  have e: "executor_ok (\<lambda>_. 0) None W rt" for W and rt :: "unit PartyRuntime" by (simp add: executor_ok_def)
  have b: "bit_length 4 = 3" by (simp add: bit_length.simps)
  have u: "[1..<2] = [1 :: nat]" by (simp add: upt_rec)
  have c: "carry_id ''op.truncate'' 1 = ''op.truncate.carry.1''" by code_simp
  have fr: "fresh_ops (''op.truncate'' # map (carry_id ''op.truncate'') [1..<2]) (?p p)" for p
    unfolding demo_exact_party_def u list.map c by (rule demo_fresh_ops) simp_all
  have ct: "cp_truncation (?p p) = ''exact''" "cp_max_opening_elements (?p p) = 4" for p
    by (simp_all add: demo_exact_party_def demo_party_def)
  have sh: "butlast (nd_shape (demo_nd [1] [13 :: 64 word])) @ [nd_shape (demo_nd [1, 1] [3 :: int]) ! 0] = [1]" by (simp add: demo_nd_def)
  have rs: "nd_shape (demo_nd [1] [7 :: 64 word]) = [1]" by (simp add: demo_nd_def)
  have lm: "layer_material mem_ops ''s'' ''op'' demo_qmatrix [1] [] [] (?p 0) (?p 1)"
  proof -
    have q: "qm_scale demo_qmatrix = 4" by (simp add: demo_qmatrix_def)
    show ?thesis unfolding layer_material_def q
      using fr [of 0] fr [of 1] ct demo_exact_material [of "''op.truncate''"] rs
      by (simp add: b Let_def numeral_2_eq_2 [symmetric] del: upt_Suc) blast
  qed
  have qe: "quantized_exact demo_qmatrix (demo_nd [1] [13]) = demo_nd [1] [19]"
    by (simp add: quantized_exact_def row_dot_def demo_qmatrix_def demo_nd_def)
  have "\<exists>s0' s1' u0 u1 ob. run2 (lone_exchange msg_enc msg_unpackb (\<lambda>_. 0) 3) (pair_exchange msg_enc msg_unpackb (\<lambda>_. 0) 3)
      (quantized_linear demo_hmac (\<lambda>_. 0) None mem_ops msg_enc msg_unpackb 3 (?p 0) (demo_tensor 0 [6] 4) demo_qmatrix ''op'' 20)
      (quantized_linear demo_hmac (\<lambda>_. 0) None mem_ops msg_enc msg_unpackb 3 (?p 1) (demo_tensor 1 [7] 4) demo_qmatrix ''op'' 20)
      = ((s0', Inr (u0, ob)), (s1', Inr (u1, ob))) \<and> paired ''s'' s0' s1'
    \<and> shares_of ''s'' (quantized_exact demo_qmatrix (demo_nd [1] [13])) 4 u0 u1
    \<and> (\<forall>x \<in> set (nd_data (quantized_exact demo_qmatrix (demo_nd [1] [13]))). \<bar>sint x\<bar> \<le> ob)"
    by (rule network_quantized_linear [OF msg_codec_ok pr demo_X mk _ _ _ sb _ _ singletonI e e])
      (use lm ct in \<open>simp_all add: sh\<close>, simp_all add: demo_nd_def nd_wf_def)
  then show ?thesis unfolding qe using reconstruct_shares by blast
qed

end
