(* ===== verification/Shared_Lookup.thy ===== *)
theory Shared_Lookup
  imports Shared_MLP Dealer_Correct
begin

text \<open>
  Private embedding lookup on secret-shared one-hot selectors (\<^verbatim>\<open>runtime/shared_lookup.py\<close>): the key of a query, the dense
  reference encoder and the embedding party. The two parties' results are shares of the selected row of the public
  table.
  The byte encoding of a key is in \<open>Share_Codec\<close>.
\<close>

section \<open>Lookup keys\<close>

record PrivateLookupKey =
  lk_session_id :: string
  lk_query_id :: string
  lk_commitment_digest :: bytes
  lk_channel_id :: bytes
  lk_table_fingerprint :: bytes
  lk_party :: nat
  lk_shares :: u64array

definition mk_PrivateLookupKey ::
  "string \<Rightarrow> string \<Rightarrow> bytes \<Rightarrow> bytes \<Rightarrow> bytes \<Rightarrow> nat \<Rightarrow> u64array \<Rightarrow> PrivateLookupKey res" where
  "mk_PrivateLookupKey session_id query_id commitment_digest channel_id table_fingerprint party shares =
     raise_if (session_id = [] \<or> query_id = []) (SharedMPCError ''private lookup identifiers cannot be empty'')
    (raise_if (length commitment_digest \<noteq> 32 \<or> length channel_id \<noteq> 32 \<or> length table_fingerprint \<noteq> 32 \<or> party \<notin> {0, 1})
       (SharedMPCError ''private lookup binding is invalid'')
    (raise_if (length (nd_shape shares) \<noteq> 2 \<or> \<not> (0 < nd_shape shares ! 1 \<and> nd_shape shares ! 1 \<le> 1000000))
       (SharedMPCError ''private lookup shares have invalid dimensions'')
    (Inr \<lparr>lk_session_id = session_id, lk_query_id = query_id, lk_commitment_digest = commitment_digest, lk_channel_id = channel_id,
          lk_table_fingerprint = table_fingerprint, lk_party = party, lk_shares = shares\<rparr>)))"

text \<open>
  The dense encoder draws one random row per token for the first party; the second party's row is its
  negation with one added at the token's column.
\<close>

definition lookup_first :: "nat \<Rightarrow> nat \<Rightarrow> bytes \<Rightarrow> u64array" where
  "lookup_first n vocab bs = \<lparr>nd_shape = [n, vocab], nd_data = frombuffer_u64 bs\<rparr>"

definition lookup_second :: "u64array \<Rightarrow> int list \<Rightarrow> u64array" where
  "lookup_second first tokens =
     (let vocab = nd_shape first ! 1 in
      \<lparr>nd_shape = nd_shape first,
       nd_data = map (\<lambda>i. 0 - nd_data first ! i + (if int (i mod vocab) = tokens ! (i div vocab) then 1 else 0))
                     [0..<length tokens * vocab]\<rparr>)"

definition lookup_generate ::
  "string \<Rightarrow> string \<Rightarrow> i64array \<Rightarrow> int \<Rightarrow> bytes \<Rightarrow> bytes \<Rightarrow> bytes \<Rightarrow> int \<Rightarrow> int \<Rightarrow> entropy
    \<Rightarrow> entropy \<times> (PrivateLookupKey \<times> PrivateLookupKey) res" where
  "lookup_generate session_id query_id tokens vocabulary_size digest channel fingerprint maximum_tokens maximum_bytes e =
     raiseS (length (nd_shape tokens) \<noteq> 1 \<or> \<not> (0 < int (nd_size tokens) \<and> int (nd_size tokens) \<le> maximum_tokens))
       (SharedMPCError ''private lookup tokens must be a non-empty vector'') e
    (raiseS (vocabulary_size \<le> 0 \<or> list_ex (\<lambda>t. t < 0) (nd_data tokens) \<or> list_ex (\<lambda>t. t \<ge> vocabulary_size) (nd_data tokens))
       (SharedMPCError ''private lookup token is outside vocabulary'') e
    (let byte_count = nd_size tokens * nat vocabulary_size * 8 in
     raiseS (int byte_count > maximum_bytes) (SharedMPCError ''dense reference lookup exceeds memory limit'') e
    (let (bs, e') = token_bytes byte_count e;
         first = lookup_first (nd_size tokens) (nat vocabulary_size) bs;
         second = lookup_second first (nd_data tokens) in
     onS (mk_PrivateLookupKey session_id query_id digest channel fingerprint 0 first) e' (\<lambda>k0.
     onS (mk_PrivateLookupKey session_id query_id digest channel fingerprint 1 second) e' (\<lambda>k1.
     (e', Inr (k0, k1)))))))"

section \<open>Embedding parties\<close>

record SharedEmbeddingParty =
  ep_session_id :: string
  ep_commitment_digest :: bytes
  ep_channel_id :: bytes
  ep_party :: nat
  ep_table :: i64array
  ep_table_ring :: u64array
  ep_scale :: int
  ep_table_fingerprint :: bytes

definition table_fingerprint :: "(bytes \<Rightarrow> digest) \<Rightarrow> i64array \<Rightarrow> bytes" where
  "table_fingerprint sha table = digest_bytes (sha (tobytes_u64 (nd_data (ring_of_ints table))))"

definition SharedEmbeddingParty_init ::
  "(bytes \<Rightarrow> digest) \<Rightarrow> string \<Rightarrow> bytes \<Rightarrow> bytes \<Rightarrow> nat \<Rightarrow> i64array \<Rightarrow> int \<Rightarrow> SharedEmbeddingParty res" where
  "SharedEmbeddingParty_init sha session_id digest channel party table scale =
     raise_if (party \<notin> {0, 1} \<or> length (nd_shape table) \<noteq> 2 \<or> nd_size table = 0 \<or> scale \<le> 0)
       (SharedMPCError ''shared embedding configuration is invalid'')
    (raise_if (length digest \<noteq> 32 \<or> length channel \<noteq> 32) (SharedMPCError ''shared embedding commitment is invalid'')
    (Inr \<lparr>ep_session_id = session_id, ep_commitment_digest = digest, ep_channel_id = channel, ep_party = party, ep_table = table,
          ep_table_ring = ring_of_ints table, ep_scale = scale, ep_table_fingerprint = table_fingerprint sha table\<rparr>))"

text \<open>\<open>nd_matmul x w\<close> is \<^verbatim>\<open>np.matmul(x, w)\<close> of two matrices. The set of used queries belongs to the caller.\<close>

definition nd_matmul :: "u64array \<Rightarrow> u64array \<Rightarrow> u64array" where
  "nd_matmul x w =
     (let r = nd_shape x ! 0; k = nd_shape x ! 1; m = nd_shape w ! 1
      in \<lparr>nd_shape = [r, m],
          nd_data = map (\<lambda>j. sum_list (map (\<lambda>t. nd_data x ! ((j div m) * k + t) * nd_data w ! (t * m + j mod m)) [0..<k])) [0..<r * m]\<rparr>)"

definition embedding_lookup :: "SharedEmbeddingParty \<Rightarrow> string set \<Rightarrow> PrivateLookupKey \<Rightarrow> string set \<times> SharedTensor res" where
  "embedding_lookup ep used key =
     raiseS (lk_session_id key \<noteq> ep_session_id ep \<or> lk_commitment_digest key \<noteq> ep_commitment_digest ep
         \<or> lk_channel_id key \<noteq> ep_channel_id ep \<or> lk_party key \<noteq> ep_party ep)
       (SharedMPCError ''private lookup key belongs to another party, session, or channel'') used
    (raiseS (lk_table_fingerprint key \<noteq> ep_table_fingerprint ep) (SharedMPCError ''private lookup key targets another table'') used
    (raiseS (nd_shape (lk_shares key) ! 1 \<noteq> nd_shape (ep_table ep) ! 0) (SharedMPCError ''private lookup vocabulary mismatch'') used
    (raiseS (lk_query_id key \<in> used) (SharedMPCError ''private lookup key was already consumed'') used
    (let used' = insert (lk_query_id key) used in
     (used', mk_SharedTensor (ep_session_id ep) (''lookup.'' @ lk_query_id key) (ep_party ep)
               (nd_matmul (lk_shares key) (ep_table_ring ep)) (ep_scale ep))))))"

section \<open>Correctness\<close>

text \<open>The rows of the table at the tokens.\<close>

definition table_rows :: "i64array \<Rightarrow> int list \<Rightarrow> u64array" where
  "table_rows table tokens =
     (let m = nd_shape table ! 1 in
      \<lparr>nd_shape = [length tokens, m],
       nd_data = map (\<lambda>j. word_of_int (nd_data table ! (nat (tokens ! (j div m)) * m + j mod m))) [0..<length tokens * m]\<rparr>)"

lemma sum_list_single:
  assumes "k < n"
  shows "sum_list (map (\<lambda>t. if t = k then f t else 0) [0..<n]) = (f k :: 'a :: comm_monoid_add)"
proof -
  have "sum_list (map (\<lambda>t. if t = k then f t else 0) [0..<n]) = (\<Sum>t = 0..<n. if t = k then f t else 0)"
    by (simp add: interv_sum_list_conv_sum_set_nat)
  then show ?thesis using assms by simp
qed

lemma lookup_row:
  fixes first :: u64array
  assumes "nd_shape first = [n, V]" "length tokens = n" "r < n" "t < V"
  shows "nd_data (lookup_second first tokens) ! (r * V + t)
     = - nd_data first ! (r * V + t) + (if int t = tokens ! r then 1 else 0)"
proof -
  have i: "r * V + t < n * V" using assms(3,4) by (rule row_index_less)
  have "(r * V + t) div V = r" "(r * V + t) mod V = t" using assms(4) by simp_all
  with i assms(1,2) show ?thesis by (simp add: lookup_second_def Let_def)
qed

lemma lookup_splits:
  assumes sh: "nd_shape first = [n, V]" and len: "length tokens = n" and tok: "\<forall>x \<in> set tokens. 0 \<le> x \<and> x < int V"
    and tb: "nd_shape table = [V, m]" "nd_wf table"
  shows "splits (table_rows table tokens) (nd_matmul first (ring_of_ints table)) (nd_matmul (lookup_second first tokens) (ring_of_ints table))"
proof (rule splits_dataI [where sh = "[n, m]"])
  let ?T = "ring_of_ints table"
  fix j assume "j < prod_list [n, m]"
  then have j: "j < n * m" by simp
  let ?r = "j div m" and ?c = "j mod m"
  have r: "?r < n" using j by (simp add: less_mult_imp_div_less)
  have m: "0 < m" using j by (cases m) auto
  let ?k = "nat (tokens ! ?r)"
  have "tokens ! ?r \<in> set tokens" using r len by simp
  then have k: "?k < V" "int ?k = tokens ! ?r" using tok by auto
  have T: "length (nd_data ?T) = V * m" using tb by (simp add: nd_wf_def ring_of_ints_def)
  have idx: "?k * m + ?c < length (nd_data table)" using row_index_less [OF k(1), of ?c m] m tb by (simp add: nd_wf_def)
  have el: "nd_data first ! (?r * V + t) * c + nd_data (lookup_second first tokens) ! (?r * V + t) * c = (if t = ?k then c else 0)"
    if "t < V" for t c
  proof -
    have "(int t = tokens ! ?r) = (t = ?k)" using k(2) by auto
    then show ?thesis using lookup_row [OF sh len r that] by (simp add: distrib_right [symmetric])
  qed
  have "nd_data (nd_matmul first ?T) ! j + nd_data (nd_matmul (lookup_second first tokens) ?T) ! j
     = sum_list (map (\<lambda>t. nd_data first ! (?r * V + t) * nd_data ?T ! (t * m + ?c)
          + nd_data (lookup_second first tokens) ! (?r * V + t) * nd_data ?T ! (t * m + ?c)) [0..<V])"
    using j sh tb(1) by (simp add: nd_matmul_def Let_def ring_of_ints_def sum_list_map_add lookup_second_def)
  also have "\<dots> = sum_list (map (\<lambda>t. if t = ?k then nd_data ?T ! (t * m + ?c) else 0) [0..<V])"
    by (intro sum_list_map_cong) (simp add: el)
  also have "\<dots> = nd_data ?T ! (?k * m + ?c)" by (rule sum_list_single [OF k(1)])
  finally show "nd_data (table_rows table tokens) ! j
      = nd_data (nd_matmul first ?T) ! j + nd_data (nd_matmul (lookup_second first tokens) ?T) ! j"
    using j len tb(1) idx by (simp add: table_rows_def Let_def ring_of_ints_def)
qed (use sh len tb(1) in \<open>simp_all add: nd_matmul_def table_rows_def lookup_second_def ring_of_ints_def Let_def\<close>)

text \<open>
  C27: Private lookup returns shares of the looked-up rows. For every entropy tape, the keys generated for a
  vector of tokens make two embedding parties with the same table return shares of exactly the table rows of
  those tokens; each party accepts the query once and rejects the same key afterwards.
\<close>

theorem lookup_correct:
  assumes "lookup_generate sid qid tokens (int (nd_shape table ! 0)) dg ch (table_fingerprint sha table) mt mb e = (e', Inr (k0, k1))"
    and "SharedEmbeddingParty_init sha sid dg ch 0 table sc = Inr p0" and "SharedEmbeddingParty_init sha sid dg ch 1 table sc = Inr p1"
    and "nd_wf tokens" and "nd_wf table" and "qid \<notin> used0" and "qid \<notin> used1"
  shows "\<exists>t0 t1. embedding_lookup p0 used0 k0 = (insert qid used0, Inr t0) \<and> embedding_lookup p1 used1 k1 = (insert qid used1, Inr t1)
     \<and> shares_of sid (table_rows table (nd_data tokens)) sc t0 t1
     \<and> snd (embedding_lookup p0 (insert qid used0) k0) = Inl (SharedMPCError ''private lookup key was already consumed'')
     \<and> snd (embedding_lookup p1 (insert qid used1) k1) = Inl (SharedMPCError ''private lookup key was already consumed'')"
proof -
  let ?n = "nd_size tokens" and ?V = "nd_shape table ! 0" and ?m = "nd_shape table ! 1"
  let ?bs = "fst (token_bytes (?n * ?V * 8) e)"
  have g: "nd_size tokens \<noteq> 0" "\<forall>t \<in> set (nd_data tokens). 0 \<le> t \<and> t < int ?V"
    and sid: "sid \<noteq> []" "qid \<noteq> []"
    and k: "k0 = \<lparr>lk_session_id = sid, lk_query_id = qid, lk_commitment_digest = dg, lk_channel_id = ch,
        lk_table_fingerprint = table_fingerprint sha table, lk_party = 0, lk_shares = lookup_first ?n ?V ?bs\<rparr>"
      "k1 = \<lparr>lk_session_id = sid, lk_query_id = qid, lk_commitment_digest = dg, lk_channel_id = ch,
        lk_table_fingerprint = table_fingerprint sha table, lk_party = 1, lk_shares = lookup_second (lookup_first ?n ?V ?bs) (nd_data tokens)\<rparr>"
    using assms(1) by (auto simp: lookup_generate_def res_simps mk_PrivateLookupKey_def list_ex_iff not_less not_le Let_def case_prod_beta)
  have t: "nd_shape table = [?V, ?m]" "nd_size table \<noteq> 0" "0 < sc" and p: "p0 = \<lparr>ep_session_id = sid, ep_commitment_digest = dg,
        ep_channel_id = ch, ep_party = 0, ep_table = table, ep_table_ring = ring_of_ints table, ep_scale = sc,
        ep_table_fingerprint = table_fingerprint sha table\<rparr>" "p1 = p0\<lparr>ep_party := 1\<rparr>"
    using assms(2,3) by (auto simp: SharedEmbeddingParty_init_def res_simps length_Suc_conv numeral_2_eq_2 not_le)
  have len: "length (nd_data tokens) = ?n" using assms(4) by (simp add: nd_wf_def nd_size_def)
  have fs: "nd_shape (lookup_first ?n ?V ?bs) = [?n, ?V]" by (simp add: lookup_first_def)
  note S = lookup_splits [OF fs len g(2) t(1) assms(5)]
  have m0: "?m \<noteq> 0" using t(1,2) by (metis mult_is_0 nd_size_def prod_list.Cons prod_list.Nil mult.right_neutral)
  have ok: "tensor_ok (table_rows table (nd_data tokens))"
    using g(1) len m0 by (simp add: tensor_ok_def table_rows_def nd_size_def Let_def)
  have sh: "nd_shape (lookup_second (lookup_first ?n ?V ?bs) (nd_data tokens)) = [?n, ?V]" using fs by (simp add: lookup_second_def Let_def)
  let ?t = "\<lambda>p v. \<lparr>st_session_id = sid, st_tensor_id = ''lookup.'' @ qid, st_party = p, st_values = v, st_scale = sc\<rparr>"
  have mk: "mk_SharedTensor sid (''lookup.'' @ qid) pp (nd_matmul x (ring_of_ints table)) sc = Inr (?t pp (nd_matmul x (ring_of_ints table)))"
    if "pp \<in> {0, 1}" "nd_shape x = [?n, ?V]" for pp x
    using that sid g(1) m0 t(3) by (auto simp: mk_SharedTensor_def nd_matmul_def nd_size_def ring_of_ints_def Let_def)
  have "shares_of sid (table_rows table (nd_data tokens)) sc (?t 0 (nd_matmul (lk_shares k0) (ring_of_ints table)))
     (?t 1 (nd_matmul (lk_shares k1) (ring_of_ints table)))" using S ok t(3) by (simp add: shares_of_def k)
  then show ?thesis using assms(6,7) mk [of 0 "lk_shares k0"] mk [of 1 "lk_shares k1"] fs sh
    by (intro exI conjI) (auto simp: embedding_lookup_def p k)
qed

definition demo_table :: i64array where
  "demo_table = demo_nd [2, 1] [10, 20]"

definition demo_embedding :: "nat \<Rightarrow> SharedEmbeddingParty" where
  "demo_embedding p = \<lparr>ep_session_id = ''s'', ep_commitment_digest = replicate 32 1, ep_channel_id = replicate 32 2, ep_party = p,
     ep_table = demo_table, ep_table_ring = ring_of_ints demo_table, ep_scale = 4, ep_table_fingerprint = table_fingerprint (\<lambda>_. 0) demo_table\<rparr>"

theorem lookup_correct_witness:
  "\<exists>e k0 k1 t0 t1. lookup_generate ''s'' ''q'' (demo_nd [1] [1]) 2 (replicate 32 1) (replicate 32 2)
        (table_fingerprint (\<lambda>_. 0) demo_table) 4 64 (\<lambda>_. 7) = (e, Inr (k0, k1))
    \<and> embedding_lookup (demo_embedding 0) {} k0 = ({''q''}, Inr t0) \<and> embedding_lookup (demo_embedding 1) {} k1 = ({''q''}, Inr t1)
    \<and> reconstruct t0 t1 = Inr (demo_nd [1, 1] [20])"
proof -
  have V: "int (nd_shape demo_table ! 0) = 2" by (simp add: demo_table_def demo_nd_def)
  obtain e k0 k1 where g: "lookup_generate ''s'' ''q'' (demo_nd [1] [1]) (int (nd_shape demo_table ! 0)) (replicate 32 1) (replicate 32 2)
        (table_fingerprint (\<lambda>_. 0) demo_table) 4 64 (\<lambda>_. 7) = (e, Inr (k0, k1))"
    unfolding V by (auto simp: lookup_generate_def mk_PrivateLookupKey_def lookup_first_def lookup_second_def table_fingerprint_def
        demo_nd_def nd_size_def Let_def case_prod_beta)
  have p: "SharedEmbeddingParty_init (\<lambda>_. 0) ''s'' (replicate 32 1) (replicate 32 2) p demo_table 4 = Inr (demo_embedding p)" if "p \<in> {0, 1}" for p
    using that by (auto simp: SharedEmbeddingParty_init_def demo_embedding_def demo_table_def demo_nd_def nd_size_def)
  have wf: "nd_wf (demo_nd [1] [1 :: int])" "nd_wf demo_table" by (simp_all add: nd_wf_def demo_nd_def demo_table_def)
  have rows: "table_rows demo_table (nd_data (demo_nd [1] [1])) = demo_nd [1, 1] [20]" by (simp add: table_rows_def demo_table_def demo_nd_def)
  have "\<exists>t0 t1. embedding_lookup (demo_embedding 0) {} k0 = (insert ''q'' {}, Inr t0) \<and> embedding_lookup (demo_embedding 1) {} k1 = (insert ''q'' {}, Inr t1)
     \<and> shares_of ''s'' (table_rows demo_table (nd_data (demo_nd [1] [1]))) 4 t0 t1
     \<and> snd (embedding_lookup (demo_embedding 0) (insert ''q'' {}) k0) = Inl (SharedMPCError ''private lookup key was already consumed'')
     \<and> snd (embedding_lookup (demo_embedding 1) (insert ''q'' {}) k1) = Inl (SharedMPCError ''private lookup key was already consumed'')"
    by (rule lookup_correct [OF g p p wf]) simp_all
  with g [unfolded V] show ?thesis unfolding rows using reconstruct_shares by blast
qed

end
