(* ===== verification/Shared_Output.thy ===== *)
theory Shared_Output
  imports Shared_Lookup
begin

text \<open>
  The output head and joint token selection (\<^verbatim>\<open>runtime/shared_output.py\<close>): projection to the vocabulary, the reference
  selector that draws shares of the winning index, and the client that reconstructs the token once per generation. The
  reconstructed token is the first index of the largest logit. The byte encoding of a token share is in \<open>Share_Codec\<close>.
\<close>

section \<open>Token shares\<close>

record TokenShare =
  tk_session_id :: string
  tk_generation_id :: string
  tk_commitment_digest :: bytes
  tk_channel_id :: bytes
  tk_party :: nat
  tk_value :: int

definition mk_TokenShare :: "string \<Rightarrow> string \<Rightarrow> bytes \<Rightarrow> bytes \<Rightarrow> nat \<Rightarrow> int \<Rightarrow> TokenShare res" where
  "mk_TokenShare session_id generation_id commitment_digest channel_id party value =
     raise_if (session_id = [] \<or> generation_id = [] \<or> length commitment_digest \<noteq> 32 \<or> length channel_id \<noteq> 32)
       (SharedMPCError ''token share identifiers must not be empty'')
    (raise_if (party \<notin> {0, 1} \<or> \<not> (0 \<le> value \<and> value < 2 ^ 64)) (SharedMPCError ''token share is outside the ring'')
    (Inr \<lparr>tk_session_id = session_id, tk_generation_id = generation_id, tk_commitment_digest = commitment_digest,
          tk_channel_id = channel_id, tk_party = party, tk_value = value\<rparr>))"

section \<open>Output head\<close>

text \<open>The head keeps the runtime and the checked weight.\<close>

definition SharedOutputHeadParty_init :: "'c PartyRuntime \<Rightarrow> i64array \<Rightarrow> ('c PartyRuntime \<times> i64array) res" where
  "SharedOutputHeadParty_init runtime weight =
     raise_if (length (nd_shape weight) \<noteq> 2 \<or> nd_size weight = 0) (SharedMPCError ''output-head weight must be a non-empty matrix'')
    (raise_if (list_ex (\<lambda>c. c < - 128) (nd_data weight) \<or> list_ex (\<lambda>c. c > 127) (nd_data weight))
       (SharedMPCError ''output-head weight must fit signed int8'')
    (Inr (runtime, weight)))"

definition head_project ::
  "(bytes \<Rightarrow> digest) \<Rightarrow> 'c matrix_executor option \<Rightarrow> i64array \<Rightarrow> 'c PartyRuntime \<Rightarrow> SharedTensor \<Rightarrow> string \<Rightarrow> int
    \<Rightarrow> 'c PartyRuntime \<times> SharedTensor res" where
  "head_project sha ex weight rt hidden generation_id signed_bound =
     linear_public sha ex rt hidden weight (generation_id @ ''.logits'') signed_bound"

section \<open>Selection\<close>

text \<open>\<^verbatim>\<open>np.argmax\<close> returns the first index of a maximal element.\<close>

fun argmax_from :: "nat \<Rightarrow> int \<Rightarrow> nat \<Rightarrow> int list \<Rightarrow> nat" where
  "argmax_from best v i [] = best"
| "argmax_from best v i (x # xs) = (if x > v then argmax_from i x (Suc i) xs else argmax_from best v (Suc i) xs)"

definition np_argmax :: "int list \<Rightarrow> nat" where
  "np_argmax xs = argmax_from 0 (hd xs) 1 (tl xs)"

definition select_pair ::
  "SharedTensor \<Rightarrow> SharedTensor \<Rightarrow> string \<Rightarrow> bytes \<Rightarrow> bytes \<Rightarrow> entropy \<Rightarrow> entropy \<times> (TokenShare \<times> TokenShare) res" where
  "select_pair first second generation_id digest channel e =
     onS (reconstruct first second) e (\<lambda>ring.
     raiseS (length (nd_shape ring) \<noteq> 2 \<or> nd_shape ring ! 0 \<noteq> 1) (SharedMPCError ''reference selector expects one logits row'') e
    (let token = int (np_argmax (map sint (nd_data ring)));
         (bs, e') = token_bytes 8 e;
         first_value = uint (u64_of_bytes bs);
         second_value = (token - first_value) mod 2 ^ 64 in
     onS (mk_TokenShare (st_session_id first) generation_id digest channel 0 first_value) e' (\<lambda>t0.
     onS (mk_TokenShare (st_session_id first) generation_id digest channel 1 second_value) e' (\<lambda>t1.
     (e', Inr (t0, t1))))))"

definition reconstruct_token ::
  "TokenShare \<Rightarrow> TokenShare \<Rightarrow> int \<Rightarrow> bytes \<Rightarrow> bytes \<Rightarrow> string \<Rightarrow> string set \<Rightarrow> string set \<times> int res" where
  "reconstruct_token first second vocabulary_size digest channel generation_id consumed =
     raiseS (tk_session_id first \<noteq> tk_session_id second \<or> tk_generation_id first \<noteq> tk_generation_id second
         \<or> tk_commitment_digest first \<noteq> tk_commitment_digest second \<or> tk_commitment_digest first \<noteq> digest
         \<or> tk_channel_id first \<noteq> tk_channel_id second \<or> tk_channel_id first \<noteq> channel \<or> tk_party first = tk_party second)
       (SharedMPCError ''token shares do not belong together'') consumed
    (raiseS (tk_generation_id first \<noteq> generation_id) (SharedMPCError ''token shares belong to an unexpected generation'') consumed
    (raiseS (tk_generation_id first \<in> consumed) (SharedMPCError ''token shares were already consumed'') consumed
    (let consumed' = insert (tk_generation_id first) consumed;
         token = (tk_value first + tk_value second) mod 2 ^ 64 in
     raiseS (token \<ge> vocabulary_size) (SharedMPCError ''reconstructed token is outside vocabulary'') consumed'
     (consumed', Inr token))))"

lemma argmax_from_spec:
  assumes "best < i" "ys ! best = v" "\<forall>j < i. ys ! j \<le> v" "\<forall>j < best. ys ! j < v" "ys = take i ys @ xs" "i \<le> length ys"
  shows "argmax_from best v i xs < length ys \<and> (\<forall>j < length ys. ys ! j \<le> ys ! argmax_from best v i xs)
     \<and> (\<forall>j < argmax_from best v i xs. ys ! j < ys ! argmax_from best v i xs)"
  using assms
proof (induction best v i xs rule: argmax_from.induct)
  case (1 best v i)
  then have "length ys = i" by (metis append_Nil2 length_take min.absorb2)
  with 1 show ?case by auto
next
  case (2 best v i x xs)
  have i: "i < length ys" "ys ! i = x" "ys = take (Suc i) ys @ xs"
    using 2(7,8) by (metis length_append length_Cons length_take less_add_Suc1 min.absorb2 add_Suc_right,
        metis nth_append_length length_take min.absorb2,
        metis append.assoc append_Cons append_Nil length_take min.absorb2 nth_append_length take_Suc_conv_app_nth length_append length_Cons less_add_Suc1 add_Suc_right)
  show ?case
  proof (cases "x > v")
    case True
    have "\<forall>j < Suc i. ys ! j \<le> x" "\<forall>j < i. ys ! j < x" using 2(5) True i by (auto simp: less_Suc_eq)
    with 2(1) [OF True, of ] i True show ?thesis by auto
  next
    case False
    have "\<forall>j < Suc i. ys ! j \<le> v" using 2(5) False i by (auto simp: less_Suc_eq)
    with 2(2) [OF False] 2(3,4,6) i False show ?thesis by auto
  qed
qed

lemma np_argmax_spec:
  assumes "xs \<noteq> []"
  shows "np_argmax xs < length xs" "\<forall>j < length xs. xs ! j \<le> xs ! np_argmax xs" "\<forall>j < np_argmax xs. xs ! j < xs ! np_argmax xs"
  using argmax_from_spec [of 0 1 xs "hd xs" "tl xs"] assms by (cases xs; simp add: np_argmax_def)+

lemma select_reconstruct:
  assumes L: "shares_of sid L sc l0 l1" and sh: "nd_shape L = [1, n]" and n: "int n < 2 ^ 64"
    and ids: "sid \<noteq> []" "gen \<noteq> []" "length dg = 32" "length ch = 32" "gen \<notin> consumed"
  shows "\<exists>e' t0 t1. select_pair l0 l1 gen dg ch e = (e', Inr (t0, t1))
    \<and> reconstruct_token t0 t1 (int n) dg ch gen consumed = (insert gen consumed, Inr (int (np_argmax (map sint (nd_data L)))))
    \<and> reconstruct_token t0 t1 (int n) dg ch gen (insert gen consumed)
        = (insert gen consumed, Inl (SharedMPCError ''token shares were already consumed''))"
proof -
  let ?k = "np_argmax (map sint (nd_data L))" and ?u = "uint (u64_of_bytes (fst (token_bytes 8 e)))"
  have len: "length (nd_data L) = n" "nd_data L \<noteq> []"
    using shares_ofD(2,8) [OF L] sh by (auto simp: nd_wf_def tensor_ok_def nd_size_def)
  have k: "?k < n" using np_argmax_spec(1) [of "map sint (nd_data L)"] len by simp
  have u: "0 \<le> ?u" "?u < 2 ^ 64" using uint_lt64 by simp_all
  have sum: "(?u + (int ?k - ?u) mod 2 ^ 64) mod 2 ^ 64 = int ?k" using k n by (simp add: mod_add_right_eq)
  have s: "st_session_id l0 = sid" using L by (simp add: shares_of_def)
  note r = reconstruct_shares [OF L]
  let ?t = "\<lambda>p v. \<lparr>tk_session_id = sid, tk_generation_id = gen, tk_commitment_digest = dg, tk_channel_id = ch, tk_party = p, tk_value = v\<rparr>"
  have "select_pair l0 l1 gen dg ch e = (snd (token_bytes 8 e), Inr (?t 0 ?u, ?t 1 ((int ?k - ?u) mod 2 ^ 64)))"
    using r sh s ids u by (simp add: select_pair_def mk_TokenShare_def case_prod_beta Let_def)
  moreover have "reconstruct_token (?t 0 ?u) (?t 1 ((int ?k - ?u) mod 2 ^ 64)) (int n) dg ch gen consumed = (insert gen consumed, Inr (int ?k))"
    using ids k sum by (simp add: reconstruct_token_def Let_def)
  moreover have "reconstruct_token (?t 0 ?u) (?t 1 ((int ?k - ?u) mod 2 ^ 64)) (int n) dg ch gen (insert gen consumed)
        = (insert gen consumed, Inl (SharedMPCError ''token shares were already consumed''))"
    by (simp add: reconstruct_token_def)
  ultimately show ?thesis by blast
qed

text \<open>
  C28: Token selection on shared logits is exact and one-use. When two parties project one shared hidden row
  through the output head, the reference selector splits the index of the first largest logit, for every
  entropy tape; reconstruction returns that index exactly once per generation.
\<close>

theorem token_selection:
  assumes "SharedOutputHeadParty_init r0 weight = Inr (r0, w)" and "SharedOutputHeadParty_init r1 weight = Inr (r1, w)"
    and "peers r0 r1" and "shares_of (rt_session_id r0) X sc x0 x1" and "nd_shape X = [1, nd_shape w ! 1]"
    and "executor_ok sha ex {w} r0" "executor_ok sha ex {w} r1" and "0 < bd" and "row_bound w bd < 2 ^ 63" and "int (nd_shape w ! 0) < 2 ^ 64"
    and "gen \<noteq> []" "length dg = 32" "length ch = 32" "gen \<notin> consumed"
  shows "\<exists>q0 q1 l0 l1 e' t0 t1 k. head_project sha ex w r0 x0 gen bd = (q0, Inr l0) \<and> head_project sha ex w r1 x1 gen bd = (q1, Inr l1)
    \<and> select_pair l0 l1 gen dg ch e = (e', Inr (t0, t1))
    \<and> reconstruct_token t0 t1 (int (nd_shape w ! 0)) dg ch gen consumed = (insert gen consumed, Inr (int k))
    \<and> k < nd_shape w ! 0
    \<and> (\<forall>j < nd_shape w ! 0. sint (nd_data (nd_matmul_t X (ring_of_ints w)) ! j) \<le> sint (nd_data (nd_matmul_t X (ring_of_ints w)) ! k))
    \<and> (\<forall>j < k. sint (nd_data (nd_matmul_t X (ring_of_ints w)) ! j) < sint (nd_data (nd_matmul_t X (ring_of_ints w)) ! k))
    \<and> reconstruct_token t0 t1 (int (nd_shape w ! 0)) dg ch gen (insert gen consumed)
        = (insert gen consumed, Inl (SharedMPCError ''token shares were already consumed''))"
proof -
  let ?L = "nd_matmul_t X (ring_of_ints w)" and ?n = "nd_shape w ! 0"
  have w: "length (nd_shape w) = 2" "nd_size w \<noteq> 0" "\<forall>c \<in> set (nd_data w). - 128 \<le> c \<and> c \<le> 127"
    using assms(1) by (auto simp: SharedOutputHeadParty_init_def res_simps list_ex_iff not_less)
  then obtain a b where ab: "nd_shape w = [a, b]" by (auto simp: length_Suc_conv numeral_2_eq_2)
  with w(2) have "a \<noteq> 0" by (simp add: nd_size_def)
  with w ab assms(5,8,9) have lin: "linear_ok w (last (nd_shape X)) bd" by (simp add: linear_ok_def)
  obtain q0 q1 l0 l1 where P: "head_project sha ex w r0 x0 gen bd = (q0, Inr l0)" "head_project sha ex w r1 x1 gen bd = (q1, Inr l1)"
    and L: "shares_of (rt_session_id r0) ?L sc l0 l1"
    using linear_shares [OF assms(3,4) lin singletonI assms(6,7), of "gen @ ''.logits''"] by (auto simp: head_project_def)
  have sh: "nd_shape ?L = [1, ?n]" using assms(5) ab by (simp add: matmul_shape ring_of_ints_def)
  have sid: "rt_session_id r0 \<noteq> []" using assms(3) by (simp add: peers_def)
  obtain e' t0 t1 where S: "select_pair l0 l1 gen dg ch e = (e', Inr (t0, t1))"
    "reconstruct_token t0 t1 (int ?n) dg ch gen consumed = (insert gen consumed, Inr (int (np_argmax (map sint (nd_data ?L)))))"
    "reconstruct_token t0 t1 (int ?n) dg ch gen (insert gen consumed) = (insert gen consumed, Inl (SharedMPCError ''token shares were already consumed''))"
    using select_reconstruct [OF L sh assms(10) sid assms(11-14), of e] by blast
  have len: "length (nd_data ?L) = ?n" using shares_ofD(8) [OF L] sh by (simp add: nd_wf_def)
  then have "map sint (nd_data ?L) \<noteq> []" using \<open>a \<noteq> 0\<close> ab by auto
  note m = np_argmax_spec [OF this]
  show ?thesis using P S m len by (intro exI conjI) auto
qed

theorem token_selection_witness:
  "\<exists>q0 q1 l0 l1 e' t0 t1. head_project (\<lambda>_. 0) None (demo_nd [2, 1] [3, 5]) (demo_rt 0) \<lparr>st_session_id = ''s'', st_tensor_id = ''x'',
        st_party = 0, st_values = demo_nd [1, 1] [4], st_scale = 4\<rparr> ''g'' 10 = (q0, Inr l0)
    \<and> head_project (\<lambda>_. 0) None (demo_nd [2, 1] [3, 5]) (demo_rt 1) \<lparr>st_session_id = ''s'', st_tensor_id = ''x'',
        st_party = 1, st_values = demo_nd [1, 1] [3], st_scale = 4\<rparr> ''g'' 10 = (q1, Inr l1)
    \<and> select_pair l0 l1 ''g'' (replicate 32 1) (replicate 32 2) (\<lambda>_. 9) = (e', Inr (t0, t1))
    \<and> reconstruct_token t0 t1 2 (replicate 32 1) (replicate 32 2) ''g'' {} = ({''g''}, Inr 1)"
proof -
  let ?w = "demo_nd [2, 1] [3, 5 :: int]"
  let ?x = "\<lambda>p v. \<lparr>st_session_id = ''s'', st_tensor_id = ''x'', st_party = p, st_values = demo_nd [1, 1] [v], st_scale = 4\<rparr>"
  have i: "SharedOutputHeadParty_init (demo_rt p) ?w = Inr (demo_rt p, ?w)" for p
    by (simp add: SharedOutputHeadParty_init_def demo_nd_def nd_size_def)
  have X: "shares_of (rt_session_id (demo_rt 0)) (demo_nd [1, 1] [7]) 4 (?x 0 4) (?x 1 3)"
    by (simp add: shares_of_def tensor_ok_def splits_def nd_wf_def nd_size_def demo_nd_def nd_map2_def)
  have e: "executor_ok (\<lambda>_. 0) None {?w} rt" for rt :: "unit PartyRuntime" by (simp add: executor_ok_def)
  have u: "[0..<2] = [0, 1 :: nat]" by (simp add: upt_rec)
  have s2: "{0..<2 :: nat} = {0, 1}" by auto
  have rb: "row_bound ?w 10 < 2 ^ 63" by (simp add: row_bound_def matrix_row_def demo_nd_def s2)
  have L: "nd_data (nd_matmul_t (demo_nd [1, 1] [7]) (ring_of_ints ?w)) = [21, 35]"
    by (simp add: nd_matmul_t_def ring_of_ints_def demo_nd_def Let_def u)
  have sh: "nd_shape ?w ! 0 = 2" "nd_shape (demo_nd [1, 1] [7 :: 64 word]) = [1, nd_shape ?w ! 1]" by (simp_all add: demo_nd_def)
  have lt: "(\<forall>j < 2. P j) \<longleftrightarrow> P 0 \<and> P (1 :: nat)" for P by (auto simp: less_2_cases_iff)
  have k1: "k = 1" if "k < 2" "\<forall>j < (2 :: nat). sint ([21, 35 :: 64 word] ! j) \<le> sint ([21, 35 :: 64 word] ! k)" for k
    using that unfolding lt by (auto simp: less_2_cases_iff)
  from token_selection [OF i i demo_peers X sh(2) e e, of 10 "''g''" "replicate 32 1" "replicate 32 2" "{}" "\<lambda>_. 9"] rb sh(1)
  obtain q0 q1 l0 l1 e' t0 t1 k where "head_project (\<lambda>_. 0) None ?w (demo_rt 0) (?x 0 4) ''g'' 10 = (q0, Inr l0)"
    "head_project (\<lambda>_. 0) None ?w (demo_rt 1) (?x 1 3) ''g'' 10 = (q1, Inr l1)"
    "select_pair l0 l1 ''g'' (replicate 32 1) (replicate 32 2) (\<lambda>_. 9) = (e', Inr (t0, t1))"
    "reconstruct_token t0 t1 2 (replicate 32 1) (replicate 32 2) ''g'' {} = ({''g''}, Inr (int k))" "k < 2"
    "\<forall>j < 2. sint ([21, 35 :: 64 word] ! j) \<le> sint ([21, 35 :: 64 word] ! k)" unfolding L by auto
  with k1 show ?thesis by fastforce
qed

end
