(* ===== verification/Correlation_Ledger.thy ===== *)
theory Correlation_Ledger
  imports Prelude
begin

text \<open>
  The durable correlation ledger (\<^verbatim>\<open>runtime/correlation_ledger.py\<close>): a SQLite database of correlations with their
  states and an event log, on which rows are added, reserved, consumed and burned. A correlation is consumed or
  burned at most once, its events form the only chain the code allows, and a reservation takes the lowest available rows.
\<close>

section \<open>Tables\<close>

datatype corr_state = Available | Reserved | Consumed | Burned

text \<open>Clock readings are numbers that the caller supplies; identifiers come from \<^verbatim>\<open>autoincrement\<close> and are never reused.\<close>

record corr_row =
  cr_id :: nat
  cr_model_id :: string
  cr_stage_id :: string
  cr_key_id :: string
  cr_payload_path :: "string option"
  cr_state :: corr_state
  cr_created_at :: int
  cr_reserved_at :: "int option"
  cr_consumed_at :: "int option"

record corr_event =
  ev_sequence :: nat
  ev_correlation_id :: nat
  ev_event :: string
  ev_created_at :: int

record corr_db =
  cd_rows :: "corr_row list"
  cd_events :: "corr_event list"
  cd_last_id :: nat
  cd_last_sequence :: nat

record DurableCorrelationLedger =
  dl_db :: corr_db
  dl_connected :: bool

record CorrelationReservation =
  rv_correlation_id :: nat
  rv_model_id :: string
  rv_stage_id :: string
  rv_key_id :: string
  rv_reserved_at :: int

definition ledger_connect :: "corr_db option \<Rightarrow> DurableCorrelationLedger" where
  "ledger_connect file =
     \<lparr>dl_db = (case file of None \<Rightarrow> \<lparr>cd_rows = [], cd_events = [], cd_last_id = 0, cd_last_sequence = 0\<rparr> | Some db \<Rightarrow> db),
      dl_connected = True\<rparr>"

definition ledger_close :: "DurableCorrelationLedger \<Rightarrow> DurableCorrelationLedger" where
  "ledger_close l = l\<lparr>dl_connected := False\<rparr>"

section \<open>Statements\<close>

definition insert_event :: "nat \<Rightarrow> string \<Rightarrow> int \<Rightarrow> corr_db \<Rightarrow> corr_db" where
  "insert_event cid event now db =
     db\<lparr>cd_events := cd_events db @ [\<lparr>ev_sequence = cd_last_sequence db + 1, ev_correlation_id = cid, ev_event = event, ev_created_at = now\<rparr>],
        cd_last_sequence := cd_last_sequence db + 1\<rparr>"

definition insert_correlation :: "string \<Rightarrow> string \<Rightarrow> string \<Rightarrow> string option \<Rightarrow> int \<Rightarrow> corr_db \<Rightarrow> corr_db" where
  "insert_correlation model stage key payload now db =
     db\<lparr>cd_rows := cd_rows db @ [\<lparr>cr_id = cd_last_id db + 1, cr_model_id = model, cr_stage_id = stage, cr_key_id = key,
           cr_payload_path = payload, cr_state = Available, cr_created_at = now, cr_reserved_at = None, cr_consumed_at = None\<rparr>],
        cd_last_id := cd_last_id db + 1\<rparr>"

text \<open>An update of the rows with one identifier and state, with the number of rows it changed.\<close>

definition update_rows :: "nat \<Rightarrow> corr_state \<Rightarrow> (corr_row \<Rightarrow> corr_row) \<Rightarrow> corr_db \<Rightarrow> corr_db \<times> nat" where
  "update_rows cid st f db =
     (db\<lparr>cd_rows := map (\<lambda>r. if cr_id r = cid \<and> cr_state r = st then f r else r) (cd_rows db)\<rparr>,
      length (filter (\<lambda>r. cr_id r = cid \<and> cr_state r = st) (cd_rows db)))"

text \<open>A transaction commits what its body returns; when the body raises, the database is as before.\<close>

definition transaction :: "DurableCorrelationLedger \<Rightarrow> (corr_db \<Rightarrow> (corr_db \<times> 'a) res) \<Rightarrow> DurableCorrelationLedger \<times> 'a res" where
  "transaction l body =
     raiseS (\<not> dl_connected l) (ProgrammingError ''Cannot operate on a closed database.'') l
     (case body (dl_db l) of Inl e \<Rightarrow> (l, Inl e) | Inr (db, x) \<Rightarrow> (l\<lparr>dl_db := db\<rparr>, Inr x))"

section \<open>Operations\<close>

fun add_entries :: "string \<Rightarrow> string \<Rightarrow> string \<Rightarrow> string \<Rightarrow> int \<Rightarrow> nat list \<Rightarrow> corr_db \<Rightarrow> corr_db" where
  "add_entries model stage key prefix now [] db = db"
| "add_entries model stage key prefix now (i # is) db =
     (let db = insert_correlation model stage key (if prefix \<noteq> [] then Some (prefix @ str_nat i) else None) now db
      in add_entries model stage key prefix now is (insert_event (cd_last_id db) ''created'' now db))"

definition ledger_add :: "DurableCorrelationLedger \<Rightarrow> string \<Rightarrow> string \<Rightarrow> string \<Rightarrow> int \<Rightarrow> string \<Rightarrow> int \<Rightarrow> DurableCorrelationLedger \<times> unit res" where
  "ledger_add l model stage key count prefix now =
     raiseS (count < 1) (ValueError ''count must be positive'') l
     (transaction l (\<lambda>db. Inr (add_entries model stage key prefix now [0..<nat count] db, ())))"

definition available_rows :: "string \<Rightarrow> string \<Rightarrow> string \<Rightarrow> corr_db \<Rightarrow> corr_row list" where
  "available_rows model stage key db = sort_key cr_id
     (filter (\<lambda>r. cr_model_id r = model \<and> cr_stage_id r = stage \<and> cr_key_id r = key \<and> cr_state r = Available) (cd_rows db))"

definition ledger_reserve :: "DurableCorrelationLedger \<Rightarrow> string \<Rightarrow> string \<Rightarrow> string \<Rightarrow> int \<Rightarrow> DurableCorrelationLedger \<times> CorrelationReservation res" where
  "ledger_reserve l model stage key now =
     transaction l (\<lambda>db. case available_rows model stage key db of
        [] \<Rightarrow> Inl (CorrelationUnavailable (''no available correlation for '' @ model @ ''/'' @ stage @ ''/'' @ key))
      | row # _ \<Rightarrow>
          (let cid = cr_id row;
               (db, updated) = update_rows cid Available (\<lambda>r. r\<lparr>cr_state := Reserved, cr_reserved_at := Some now\<rparr>) db in
           raise_if (updated \<noteq> 1) (CorrelationUnavailable ''correlation was reserved concurrently'')
             (Inr (insert_event cid ''reserved'' now db,
                   \<lparr>rv_correlation_id = cid, rv_model_id = model, rv_stage_id = stage, rv_key_id = key, rv_reserved_at = now\<rparr>))))"

definition ledger_consume :: "DurableCorrelationLedger \<Rightarrow> nat \<Rightarrow> int \<Rightarrow> DurableCorrelationLedger \<times> unit res" where
  "ledger_consume l cid now =
     transaction l (\<lambda>db.
       let (db, updated) = update_rows cid Reserved (\<lambda>r. r\<lparr>cr_state := Consumed, cr_consumed_at := Some now\<rparr>) db in
       raise_if (updated \<noteq> 1) (CorrelationUnavailable ''correlation is not reserved'')
         (Inr (insert_event cid ''consumed'' now db, ())))"

fun burn_each :: "int \<Rightarrow> nat list \<Rightarrow> corr_db \<Rightarrow> corr_db" where
  "burn_each now [] db = db"
| "burn_each now (cid # cids) db =
     burn_each now cids (insert_event cid ''burned'' now
       (fst (update_rows cid Reserved (\<lambda>r. r\<lparr>cr_state := Burned, cr_consumed_at := Some now\<rparr>) db)))"

definition stale_ids :: "int \<Rightarrow> corr_db \<Rightarrow> nat list" where
  "stale_ids cutoff db = map cr_id (filter (\<lambda>r. cr_state r = Reserved \<and> (case cr_reserved_at r of None \<Rightarrow> False | Some t \<Rightarrow> t < cutoff)) (cd_rows db))"

definition burn_stale_reservations :: "DurableCorrelationLedger \<Rightarrow> int \<Rightarrow> int \<Rightarrow> int \<Rightarrow> DurableCorrelationLedger \<times> nat res" where
  "burn_stale_reservations l older_than clock now =
     transaction l (\<lambda>db. let ids = stale_ids (clock - older_than) db in Inr (burn_each now ids db, length ids))"

definition ledger_counts :: "DurableCorrelationLedger \<Rightarrow> string \<Rightarrow> string \<Rightarrow> string \<Rightarrow> (corr_state \<Rightarrow> nat) res" where
  "ledger_counts l model stage key =
     raise_if (\<not> dl_connected l) (ProgrammingError ''Cannot operate on a closed database.'')
       (Inr (\<lambda>st. length (filter (\<lambda>r. cr_model_id r = model \<and> cr_stage_id r = stage \<and> cr_key_id r = key \<and> cr_state r = st) (cd_rows (dl_db l)))))"

definition event_chain :: "DurableCorrelationLedger \<Rightarrow> (nat \<times> nat \<times> string) list res" where
  "event_chain l =
     raise_if (\<not> dl_connected l) (ProgrammingError ''Cannot operate on a closed database.'')
       (Inr (map (\<lambda>e. (ev_sequence e, ev_correlation_id e, ev_event e)) (sort_key ev_sequence (cd_events (dl_db l)))))"

section \<open>Histories\<close>

datatype ledger_call =
    CAdd string string string int string int
  | CReserve string string string int
  | CConsume nat int
  | CBurnStale int int int
  | CReopen
  | CClose

text \<open>A step with the identifier it reserved, if any.\<close>

fun ledger_step :: "ledger_call \<Rightarrow> DurableCorrelationLedger \<Rightarrow> DurableCorrelationLedger \<times> nat option" where
  "ledger_step (CAdd m s k n p t) l = (fst (ledger_add l m s k n p t), None)"
| "ledger_step (CReserve m s k t) l = (case ledger_reserve l m s k t of (l', r) \<Rightarrow> (l', case r of Inl _ \<Rightarrow> None | Inr v \<Rightarrow> Some (rv_correlation_id v)))"
| "ledger_step (CConsume c t) l = (fst (ledger_consume l c t), None)"
| "ledger_step (CBurnStale a c t) l = (fst (burn_stale_reservations l a c t), None)"
| "ledger_step CReopen l = (ledger_connect (Some (dl_db l)), None)"
| "ledger_step CClose l = (ledger_close l, None)"

fun ledger_run :: "ledger_call list \<Rightarrow> DurableCorrelationLedger \<Rightarrow> DurableCorrelationLedger \<times> nat list" where
  "ledger_run [] l = (l, [])"
| "ledger_run (c # cs) l = (case ledger_step c l of (l', r) \<Rightarrow>
     (case ledger_run cs l' of (l'', rs) \<Rightarrow> (l'', (case r of None \<Rightarrow> rs | Some i \<Rightarrow> i # rs))))"

section \<open>The life cycle of a correlation\<close>

fun path :: "corr_state \<Rightarrow> string list" where
  "path Available = [''created'']"
| "path Reserved = [''created'', ''reserved'']"
| "path Consumed = [''created'', ''reserved'', ''consumed'']"
| "path Burned = [''created'', ''reserved'', ''burned'']"

definition events_of :: "nat \<Rightarrow> corr_db \<Rightarrow> string list" where
  "events_of cid db = map ev_event (filter (\<lambda>e. ev_correlation_id e = cid) (cd_events db))"

definition db_ok :: "corr_db \<Rightarrow> bool" where
  "db_ok db \<longleftrightarrow> distinct (map cr_id (cd_rows db)) \<and> (\<forall>r \<in> set (cd_rows db). cr_id r \<le> cd_last_id db)
     \<and> (\<forall>e \<in> set (cd_events db). ev_correlation_id e \<le> cd_last_id db)
     \<and> map ev_sequence (cd_events db) = [1..<Suc (cd_last_sequence db)]
     \<and> (\<forall>r \<in> set (cd_rows db). events_of (cr_id r) db = path (cr_state r))"

lemma events_of_insert: "events_of i (insert_event cid ev now db) = events_of i db @ (if i = cid then [ev] else [])"
  by (simp add: events_of_def insert_event_def)

lemma insert_event_simps [simp]:
  "cd_rows (insert_event cid ev now db) = cd_rows db" "cd_last_id (insert_event cid ev now db) = cd_last_id db"
  by (simp_all add: insert_event_def)

lemma db_ok_append_event:
  assumes "distinct (map cr_id rows)" "\<forall>r \<in> set rows. cr_id r \<le> n" "\<forall>e \<in> set (cd_events db). ev_correlation_id e \<le> n" "cid \<le> n"
    and "map ev_sequence (cd_events db) = [1..<Suc (cd_last_sequence db)]" "cd_rows db = rows" "cd_last_id db = n"
    and "\<forall>r \<in> set rows. events_of (cr_id r) db @ (if cr_id r = cid then [ev] else []) = path (cr_state r)"
  shows "db_ok (insert_event cid ev now db)"
  unfolding db_ok_def using assms by (auto simp: events_of_insert) (auto simp: insert_event_def)

lemma db_okD:
  assumes "db_ok db"
  shows "distinct (map cr_id (cd_rows db))" "\<forall>r \<in> set (cd_rows db). cr_id r \<le> cd_last_id db"
    "\<forall>e \<in> set (cd_events db). ev_correlation_id e \<le> cd_last_id db" "map ev_sequence (cd_events db) = [1..<Suc (cd_last_sequence db)]"
    "\<forall>r \<in> set (cd_rows db). events_of (cr_id r) db = path (cr_state r)"
  using assms by (simp_all add: db_ok_def)

lemma add_entry_ok:
  assumes "db_ok db"
  shows "db_ok (insert_event (Suc (cd_last_id db)) ''created'' now (insert_correlation m s k p now db))"
proof (rule db_ok_append_event [OF _ _ _ _ _ refl refl])
  note d = db_okD [OF assms]
  have e: "events_of (Suc (cd_last_id db)) db = []" using d(3) by (auto simp: events_of_def filter_empty_conv)
  have n: "\<forall>r \<in> set (cd_rows db). cr_id r \<noteq> Suc (cd_last_id db)" using d(2) by auto
  have ev: "events_of i (insert_correlation m s k p now db) = events_of i db" for i by (simp add: events_of_def insert_correlation_def)
  show "\<forall>r \<in> set (cd_rows (insert_correlation m s k p now db)). events_of (cr_id r) (insert_correlation m s k p now db)
      @ (if cr_id r = Suc (cd_last_id db) then [''created''] else []) = path (cr_state r)"
    unfolding ev using d(5) e n by (auto simp: insert_correlation_def)
  show "distinct (map cr_id (cd_rows (insert_correlation m s k p now db)))" using d(1) n by (auto simp: insert_correlation_def)
qed (use db_okD [OF assms] in \<open>auto simp: insert_correlation_def le_SucI\<close>)

text \<open>One step of the life cycle: the row with this identifier moves on, and the event is logged.\<close>

definition moves :: "corr_state \<Rightarrow> corr_state \<Rightarrow> string \<Rightarrow> (corr_row \<Rightarrow> corr_row) \<Rightarrow> bool" where
  "moves st st' ev f \<longleftrightarrow> path st' = path st @ [ev] \<and> (\<forall>r. cr_id (f r) = cr_id r \<and> cr_state (f r) = st')"

lemma row_unique: "distinct (map cr_id rows) \<Longrightarrow> r \<in> set rows \<Longrightarrow> r' \<in> set rows \<Longrightarrow> cr_id r' = cr_id r \<Longrightarrow> r' = r"
  by (metis distinct_map inj_onD)

lemma move_ok:
  assumes "db_ok db" and "moves st st' ev f" and "r \<in> set (cd_rows db)" "cr_id r = cid" "cr_state r = st"
  shows "db_ok (insert_event cid ev now (fst (update_rows cid st f db)))"
proof (rule db_ok_append_event [OF _ _ _ _ _ refl refl])
  note d = db_okD [OF assms(1)]
  let ?g = "\<lambda>r. if cr_id r = cid \<and> cr_state r = st then f r else r" and ?db = "fst (update_rows cid st f db)"
  have id: "cr_id (?g x) = cr_id x" for x using assms(2) by (simp add: moves_def)
  have rows: "cd_rows ?db = map ?g (cd_rows db)" "events_of i ?db = events_of i db" for i by (simp_all add: update_rows_def events_of_def)
  have "map cr_id (cd_rows ?db) = map cr_id (cd_rows db)" unfolding rows using id by simp
  then show "distinct (map cr_id (cd_rows ?db))" using d(1) by simp
  have li: "cd_last_id ?db = cd_last_id db" by (simp add: update_rows_def)
  show "\<forall>x \<in> set (cd_rows ?db). cr_id x \<le> cd_last_id ?db" using d(2) id unfolding li rows by (simp only: set_map ball_simps)
  show "\<forall>x \<in> set (cd_rows ?db). events_of (cr_id x) ?db @ (if cr_id x = cid then [ev] else []) = path (cr_state x)"
  proof
    fix x assume "x \<in> set (cd_rows ?db)"
    then obtain y where y: "y \<in> set (cd_rows db)" "x = ?g y" unfolding rows by auto
    show "events_of (cr_id x) ?db @ (if cr_id x = cid then [ev] else []) = path (cr_state x)"
    proof (cases "cr_id y = cid")
      case True
      then have "y = r" using row_unique [OF d(1) assms(3) y(1)] assms(4) by simp
      with assms d(5) y rows(2) show ?thesis by (auto simp: moves_def)
    next
      case False
      with d(5) y rows(2) show ?thesis by auto
    qed
  qed
  show "cid \<le> cd_last_id ?db" using d(2) assms(3,4) by (auto simp: update_rows_def)
qed (use db_okD [OF assms(1)] in \<open>simp_all add: update_rows_def\<close>)

definition spent :: "corr_db \<Rightarrow> nat set" where
  "spent db = {cr_id r | r. r \<in> set (cd_rows db) \<and> cr_state r \<noteq> Available}"

lemma spent_insert_event [simp]: "spent (insert_event cid ev now db) = spent db"
  by (simp add: spent_def)

lemma spent_update:
  assumes "moves st st' ev f" "st' \<noteq> Available"
  shows "spent (fst (update_rows cid st f db)) = spent db \<union> {cr_id r | r. r \<in> set (cd_rows db) \<and> cr_id r = cid \<and> cr_state r = st}"
proof -
  let ?g = "\<lambda>r. if cr_id r = cid \<and> cr_state r = st then f r else r"
  have g: "cr_id (?g x) = cr_id x" "cr_state (?g x) \<noteq> Available \<longleftrightarrow> cr_state x \<noteq> Available \<or> cr_id x = cid \<and> cr_state x = st" for x
    using assms by (auto simp: moves_def)
  have "spent (fst (update_rows cid st f db)) = {cr_id (?g x) | x. x \<in> set (cd_rows db) \<and> cr_state (?g x) \<noteq> Available}"
  proof -
    have "cd_rows (fst (update_rows cid st f db)) = map ?g (cd_rows db)" by (simp add: update_rows_def)
    then show ?thesis unfolding spent_def by (simp only: set_map) blast
  qed
  also have "\<dots> = {cr_id x | x. x \<in> set (cd_rows db) \<and> (cr_state x \<noteq> Available \<or> cr_id x = cid \<and> cr_state x = st)}" unfolding g ..
  finally show ?thesis unfolding spent_def by blast
qed

lemma move_spent: "moves st st' ev f \<Longrightarrow> st' \<noteq> Available \<Longrightarrow> st \<noteq> Available \<Longrightarrow> spent (fst (update_rows cid st f db)) = spent db"
  by (auto simp: spent_update) (auto simp: spent_def)

lemma reserve_spent:
  assumes "moves Available st' ev f" "st' \<noteq> Available" and "r \<in> set (cd_rows db)" "cr_id r = cid" "cr_state r = Available"
  shows "spent (fst (update_rows cid Available f db)) = insert cid (spent db)"
  unfolding spent_update [OF assms(1,2)] using assms(3-5) by auto

lemma updated_one:
  assumes "update_rows cid st f db = (db', Suc 0)"
  shows "db' = fst (update_rows cid st f db) \<and> (\<exists>r \<in> set (cd_rows db). cr_id r = cid \<and> cr_state r = st)"
proof -
  have "length (filter (\<lambda>r. cr_id r = cid \<and> cr_state r = st) (cd_rows db)) = Suc 0" using assms by (simp add: update_rows_def)
  then have "filter (\<lambda>r. cr_id r = cid \<and> cr_state r = st) (cd_rows db) \<noteq> []" by auto
  then show ?thesis using assms by (auto simp: filter_empty_conv)
qed

lemma moves_intros:
  "moves Available Reserved ''reserved'' (\<lambda>r. r\<lparr>cr_state := Reserved, cr_reserved_at := Some now\<rparr>)"
  "moves Reserved Consumed ''consumed'' (\<lambda>r. r\<lparr>cr_state := Consumed, cr_consumed_at := Some now\<rparr>)"
  "moves Reserved Burned ''burned'' (\<lambda>r. r\<lparr>cr_state := Burned, cr_consumed_at := Some now\<rparr>)"
  by (simp_all add: moves_def)

lemma add_entries_ok: "db_ok db \<Longrightarrow> db_ok (add_entries m s k p now ns db) \<and> spent (add_entries m s k p now ns db) = spent db"
proof (induction ns arbitrary: db)
  case (Cons i ns)
  let ?p = "if p \<noteq> [] then Some (p @ str_nat i) else None"
  let ?db = "insert_correlation m s k ?p now db"
  have l: "cd_last_id ?db = Suc (cd_last_id db)" by (simp add: insert_correlation_def)
  have "db_ok (insert_event (cd_last_id ?db) ''created'' now ?db)" unfolding l by (rule add_entry_ok [OF Cons.prems])
  moreover have "spent ?db = spent db" by (auto simp: spent_def insert_correlation_def)
  ultimately show ?case using Cons.IH by (simp add: Let_def)
qed simp

lemma burn_each_ok:
  assumes "db_ok db" and "distinct cids" and "\<forall>c \<in> set cids. \<exists>r \<in> set (cd_rows db). cr_id r = c \<and> cr_state r = Reserved"
  shows "db_ok (burn_each now cids db) \<and> spent (burn_each now cids db) = spent db"
  using assms
proof (induction cids arbitrary: db)
  case (Cons c cids)
  let ?f = "\<lambda>r. r\<lparr>cr_state := Burned, cr_consumed_at := Some now\<rparr>"
  let ?db = "insert_event c ''burned'' now (fst (update_rows c Reserved ?f db))"
  obtain r where r: "r \<in> set (cd_rows db)" "cr_id r = c" "cr_state r = Reserved" using Cons.prems(3) by auto
  have ok: "db_ok ?db" by (rule move_ok [OF Cons.prems(1) moves_intros(3) r])
  have sp: "spent ?db = spent db" using move_spent [OF moves_intros(3)] by simp
  have "\<forall>c \<in> set cids. \<exists>r \<in> set (cd_rows ?db). cr_id r = c \<and> cr_state r = Reserved"
    using Cons.prems(2,3) by (fastforce simp: update_rows_def)
  with Cons.IH [OF ok] Cons.prems(2) sp show ?case by simp
qed simp

lemma stale_ids_ok:
  assumes "db_ok db"
  shows "distinct (stale_ids t db)" "\<forall>c \<in> set (stale_ids t db). \<exists>r \<in> set (cd_rows db). cr_id r = c \<and> cr_state r = Reserved"
  using db_okD(1) [OF assms] by (auto simp: stale_ids_def distinct_map_filter)

lemma reserve_ok:
  assumes "db_ok (dl_db l)" and "ledger_reserve l m s k t = (l', Inr v)"
  shows "db_ok (dl_db l') \<and> spent (dl_db l') = insert (rv_correlation_id v) (spent (dl_db l)) \<and> rv_correlation_id v \<notin> spent (dl_db l)"
proof -
  let ?f = "\<lambda>r. r\<lparr>cr_state := Reserved, cr_reserved_at := Some t\<rparr>"
  obtain row rest where a: "available_rows m s k (dl_db l) = row # rest" and v: "rv_correlation_id v = cr_id row"
    and l': "dl_db l' = insert_event (cr_id row) ''reserved'' t (fst (update_rows (cr_id row) Available ?f (dl_db l)))"
    using assms(2) by (auto simp: ledger_reserve_def transaction_def raiseS_def raise_if_def Let_def split: if_splits sum.splits list.splits prod.splits)
  have "row \<in> set (available_rows m s k (dl_db l))" using a by simp
  then have r: "row \<in> set (cd_rows (dl_db l))" "cr_state row = Available" by (auto simp: available_rows_def)
  have "db_ok (dl_db l')" unfolding l' by (rule move_ok [OF assms(1) moves_intros(1) r(1) refl r(2)])
  moreover have "spent (dl_db l') = insert (cr_id row) (spent (dl_db l))"
    unfolding l' spent_insert_event by (rule reserve_spent [OF moves_intros(1) _ r(1) refl r(2)]) simp
  moreover have "cr_id row \<notin> spent (dl_db l)"
    using row_unique [OF db_okD(1) [OF assms(1)] r(1)] r(2) by (auto simp: spent_def)
  ultimately show ?thesis by (simp add: v)
qed

lemma transaction_Inl: "transaction l body = (l', Inl e) \<Longrightarrow> l' = l"
  by (auto simp: transaction_def raiseS_def split: if_splits sum.splits prod.splits)

lemma filter_unique:
  assumes "distinct (map cr_id rows)" "row \<in> set rows" "cr_state row = st"
  shows "filter (\<lambda>x. cr_id x = cr_id row \<and> cr_state x = st) rows = [row]"
proof -
  obtain xs ys where rows: "rows = xs @ row # ys" using assms(2) by (meson split_list)
  with assms have "\<forall>x \<in> set xs \<union> set ys. cr_id x \<noteq> cr_id row" by (auto simp: image_iff)
  then have "filter (\<lambda>x. cr_id x = cr_id row \<and> cr_state x = st) xs = []" "filter (\<lambda>x. cr_id x = cr_id row \<and> cr_state x = st) ys = []"
    by (auto simp: filter_empty_conv)
  with rows assms(3) show ?thesis by simp
qed

lemma step_ok:
  assumes "db_ok (dl_db l)" and "ledger_step c l = (l', r)"
  shows "db_ok (dl_db l') \<and> spent (dl_db l') = spent (dl_db l) \<union> set_option r \<and> set_option r \<inter> spent (dl_db l) = {}"
proof (cases c)
  case (CAdd m s k n p t)
  then show ?thesis using assms add_entries_ok [OF assms(1)] by (auto simp: ledger_add_def transaction_def raiseS_def split: if_splits)
next
  case (CReserve m s k t)
  obtain l1 q where q: "ledger_reserve l m s k t = (l1, q)" by force
  show ?thesis
  proof (cases q)
    case (Inl e)
    then have "l1 = l" using q transaction_Inl unfolding ledger_reserve_def by blast
    with Inl q CReserve assms show ?thesis by auto
  next
    case (Inr v)
    with reserve_ok [OF assms(1)] q CReserve assms(2) show ?thesis by auto
  qed
next
  case (CConsume cid t)
  let ?f = "\<lambda>r. r\<lparr>cr_state := Consumed, cr_consumed_at := Some t\<rparr>"
  show ?thesis
  proof (cases "dl_connected l \<and> snd (update_rows cid Reserved ?f (dl_db l)) = Suc 0")
    case True
    then obtain db' where u: "update_rows cid Reserved ?f (dl_db l) = (db', Suc 0)" by (metis prod.collapse)
    from updated_one [OF u] obtain x where x: "x \<in> set (cd_rows (dl_db l))" "cr_id x = cid" "cr_state x = Reserved" by blast
    have "dl_db l' = insert_event cid ''consumed'' t (fst (update_rows cid Reserved ?f (dl_db l)))" "r = None"
      using assms(2) True u CConsume by (auto simp: ledger_consume_def transaction_def)
    with move_ok [OF assms(1) moves_intros(2) x] move_spent [OF moves_intros(2)] show ?thesis by simp
  next
    case False
    then have "l' = l" "r = None" using assms(2) CConsume by (auto simp: ledger_consume_def transaction_def raiseS_def raise_if_def case_prod_beta)
    with assms(1) show ?thesis by simp
  qed
next
  case (CBurnStale a b t)
  then show ?thesis using assms burn_each_ok [OF assms(1) stale_ids_ok [OF assms(1)]]
    by (auto simp: burn_stale_reservations_def transaction_def raiseS_def Let_def split: if_splits)
qed (use assms in \<open>auto simp: ledger_connect_def ledger_close_def\<close>)

lemma run_ok:
  "db_ok (dl_db l) \<Longrightarrow> ledger_run cs l = (l', rs) \<Longrightarrow>
     db_ok (dl_db l') \<and> spent (dl_db l') = spent (dl_db l) \<union> set rs \<and> distinct rs \<and> set rs \<inter> spent (dl_db l) = {}"
proof (induction cs arbitrary: l rs l')
  case (Cons c cs)
  obtain l1 r where s: "ledger_step c l = (l1, r)" by force
  obtain l2 q where t: "ledger_run cs l1 = (l2, q)" by force
  note a = step_ok [OF Cons.prems(1) s]
  from Cons.IH [OF _ t] a Cons.prems(2) s t show ?case by (cases r) auto
qed auto

text \<open>
  C30: Correlation material is used at most once, across restarts. Whatever sequence of additions,
  reservations, consumptions, burns, closes and reopenings is made on a new database, no identifier is
  reserved twice, exactly the reserved identifiers have left the available state, and the event log is
  numbered without gaps and records for every entry one path created, reserved, consumed or burned that ends
  in its state.
\<close>

theorem correlation_single_use:
  assumes "ledger_run cs (ledger_connect None) = (l, rs)"
  shows "distinct rs \<and> set rs = {cr_id r | r. r \<in> set (cd_rows (dl_db l)) \<and> cr_state r \<noteq> Available}
    \<and> map ev_sequence (cd_events (dl_db l)) = [1..<Suc (cd_last_sequence (dl_db l))]
    \<and> (\<forall>r \<in> set (cd_rows (dl_db l)). map ev_event (filter (\<lambda>e. ev_correlation_id e = cr_id r) (cd_events (dl_db l))) = path (cr_state r))"
proof -
  have z: "db_ok (dl_db (ledger_connect None))" "spent (dl_db (ledger_connect None)) = {}" by (simp_all add: ledger_connect_def db_ok_def spent_def)
  from run_ok [OF z(1) assms] z(2) show ?thesis by (auto simp: spent_def db_ok_def events_of_def)
qed

text \<open>
  A reservation takes the lowest available entry of its key, and only that. On a consistent open ledger,
  \<^verbatim>\<open>reserve\<close> succeeds exactly when an available entry exists, returns the smallest such identifier, and
  otherwise leaves the database as it was.
\<close>

lemma reserve_lowest:
  assumes "ledger_run cs (ledger_connect None) = (l, rs)" and "dl_connected l"
    and "S = {cr_id r | r. r \<in> set (cd_rows (dl_db l)) \<and> cr_model_id r = m \<and> cr_stage_id r = s \<and> cr_key_id r = k \<and> cr_state r = Available}"
  shows "(case ledger_reserve l m s k t of
       (l', Inl e) \<Rightarrow> S = {} \<and> l' = l \<and> e = CorrelationUnavailable (''no available correlation for '' @ m @ ''/'' @ s @ ''/'' @ k)
     | (l', Inr v) \<Rightarrow> S \<noteq> {} \<and> rv_correlation_id v = Min S)"
proof -
  let ?f = "\<lambda>r. r\<lparr>cr_state := Reserved, cr_reserved_at := Some t\<rparr>"
  have ok: "db_ok (dl_db l)" using run_ok [OF _ assms(1)] by (simp add: ledger_connect_def db_ok_def)
  have S: "S = cr_id ` set (available_rows m s k (dl_db l))" unfolding assms(3) available_rows_def by auto
  show ?thesis
  proof (cases "available_rows m s k (dl_db l)")
    case Nil
    then show ?thesis using S assms(2) by (simp add: ledger_reserve_def transaction_def)
  next
    case (Cons row rest)
    have "sorted (map cr_id (row # rest))" unfolding Cons [symmetric] available_rows_def by (rule sorted_sort_key)
    then have mn: "Min S = cr_id row" unfolding S Cons by (intro Min_eqI) auto
    have "row \<in> set (available_rows m s k (dl_db l))" using Cons by simp
    then have r: "row \<in> set (cd_rows (dl_db l))" "cr_state row = Available" by (auto simp: available_rows_def)
    have "filter (\<lambda>x. cr_id x = cr_id row \<and> cr_state x = Available) (cd_rows (dl_db l)) = [row]"
      by (rule filter_unique [OF db_okD(1) [OF ok] r])
    then have "snd (update_rows (cr_id row) Available ?f (dl_db l)) = Suc 0" by (simp add: update_rows_def)
    then show ?thesis using Cons S mn assms(2) by (auto simp: ledger_reserve_def transaction_def case_prod_beta Let_def)
  qed
qed

definition demo_calls :: "ledger_call list" where
  "demo_calls = [CAdd ''m'' ''s'' ''k'' 3 [] 1, CReserve ''m'' ''s'' ''k'' 2, CReopen, CReserve ''m'' ''s'' ''k'' 3, CConsume 1 4]"

definition demo_ledger :: "DurableCorrelationLedger" where
  "demo_ledger = fst (ledger_run demo_calls (ledger_connect None))"

lemma demo_ledger_run: "ledger_run demo_calls (ledger_connect None) = (demo_ledger, [1, 2])" "dl_connected demo_ledger"
  "map (\<lambda>r. (cr_id r, cr_state r)) (cd_rows (dl_db demo_ledger)) = [(1, Consumed), (2, Reserved), (3, Available)]"
proof -
  have "snd (ledger_run demo_calls (ledger_connect None)) = [1, 2]" by code_simp
  then show "ledger_run demo_calls (ledger_connect None) = (demo_ledger, [1, 2])" by (simp add: demo_ledger_def prod_eq_iff)
  show "dl_connected demo_ledger"
    "map (\<lambda>r. (cr_id r, cr_state r)) (cd_rows (dl_db demo_ledger)) = [(1, Consumed), (2, Reserved), (3, Available)]" by code_simp+
qed

theorem correlation_single_use_witness:
  "distinct [1, 2 :: nat] \<and> set [1, 2] = {cr_id r | r. r \<in> set (cd_rows (dl_db demo_ledger)) \<and> cr_state r \<noteq> Available}"
  using correlation_single_use [OF demo_ledger_run(1)] by blast

end
