(* ===== verification/Prepared_Queue.thy ===== *)
theory Prepared_Queue
  imports Prelude
begin

text \<open>
  The bounded queue of prepared executions (\<^verbatim>\<open>PreparedExecutionQueue\<close> and \<^verbatim>\<open>PreparedScope\<close> of
  \<^verbatim>\<open>runtime/prepared_queue.py\<close>). Every operation runs under the condition's lock, so a run is a sequence of atomic steps
  in which a waiting thread polls its condition. Capacity, first-in first-out order, progress and shutdown are
  proved of every interleaving.
\<close>

section \<open>State\<close>

record PreparedScope =
  ps_entered :: bool
  ps_retain_until_close :: bool

text \<open>
  Scopes are objects: \<open>pq_object\<close> holds the attributes of the scopes created so far, which are the numbers
  below \<open>pq_created\<close>; \<open>pq_scopes\<close> is the set \<^verbatim>\<open>_scopes\<close>, \<open>pq_ready\<close> the deque \<^verbatim>\<open>_ready\<close>.
\<close>

record PreparedExecutionQueue =
  pq_maximum :: nat
  pq_created :: nat
  pq_object :: "nat \<Rightarrow> PreparedScope"
  pq_scopes :: "nat set"
  pq_ready :: "nat list"
  pq_active :: "nat option"
  pq_closed :: bool
  pq_peak :: nat

definition queue_init :: "int \<Rightarrow> PreparedExecutionQueue res" where
  "queue_init max_requests =
     raise_if (\<not> (1 \<le> max_requests \<and> max_requests \<le> 64)) (ValueError ''invalid prepared request capacity'')
       (Inr \<lparr>pq_maximum = nat max_requests, pq_created = 0, pq_object = (\<lambda>_. \<lparr>ps_entered = False, ps_retain_until_close = False\<rparr>),
             pq_scopes = {}, pq_ready = [], pq_active = None, pq_closed = False, pq_peak = 0\<rparr>)"

definition PreparedQueueClosed :: "string \<Rightarrow> py_error" where
  "PreparedQueueClosed m = LibraryError ''PreparedQueueClosed'' m"

section \<open>Operations\<close>

definition queue_admit :: "PreparedExecutionQueue \<Rightarrow> bool \<Rightarrow> PreparedExecutionQueue \<times> nat res" where
  "queue_admit q retain =
     raiseS (pq_closed q) (PreparedQueueClosed ''prepared client closed'') q
    (raiseS (card (pq_scopes q) \<ge> pq_maximum q) (RuntimeError ''prepared concurrent request bound/capacity exceeded'') q
    (let s = pq_created q; scopes = insert s (pq_scopes q) in
     (q\<lparr>pq_created := Suc s, pq_object := (pq_object q)(s := \<lparr>ps_entered = False, ps_retain_until_close = retain\<rparr>),
        pq_scopes := scopes, pq_peak := max (pq_peak q) (card scopes)\<rparr>, Inr s)))"

definition queue_release :: "PreparedExecutionQueue \<Rightarrow> nat \<Rightarrow> PreparedExecutionQueue" where
  "queue_release q s =
     (if s \<notin> pq_scopes q then q
      else q\<lparr>pq_scopes := pq_scopes q - {s}, pq_active := (if pq_active q = Some s then None else pq_active q),
             pq_ready := remove1 s (pq_ready q)\<rparr>)"

text \<open>The exception handler of \<^verbatim>\<open>_enter\<close>.\<close>

definition entry_failed :: "PreparedExecutionQueue \<Rightarrow> nat \<Rightarrow> PreparedExecutionQueue" where
  "entry_failed q s =
     (if ps_retain_until_close (pq_object q s) then q\<lparr>pq_ready := remove1 s (pq_ready q)\<rparr> else queue_release q s)"

text \<open>
  One pass of the loop of \<^verbatim>\<open>_enter\<close>: it raises, activates the scope (\<open>Some ()\<close>) or waits on the condition
  (\<open>None\<close>). The flag is the view of the cancellation event.
\<close>

definition enter_pass :: "PreparedExecutionQueue \<Rightarrow> nat \<Rightarrow> bool \<Rightarrow> PreparedExecutionQueue \<times> unit option res" where
  "enter_pass q s cancelled =
     raiseS (pq_closed q \<or> cancelled) (PreparedQueueClosed ''prepared queued request cancelled'') (entry_failed q s)
    (raiseS (s \<notin> pq_scopes q) (PreparedQueueClosed ''prepared queued request retired'') (entry_failed q s)
    (if pq_active q \<noteq> None then (q, Inr None)
     else (case pq_ready q of
         [] \<Rightarrow> (entry_failed q s, Inl (LibraryError ''IndexError'' ''deque index out of range''))
       | r # rest \<Rightarrow> if r = s then (q\<lparr>pq_ready := rest, pq_active := Some s\<rparr>, Inr (Some ())) else (q, Inr None))))"

definition queue_enter :: "PreparedExecutionQueue \<Rightarrow> nat \<Rightarrow> bool \<Rightarrow> PreparedExecutionQueue \<times> unit option res" where
  "queue_enter q s cancelled =
     raiseS (s \<notin> pq_scopes q) (RuntimeError ''prepared request scope retired'') q
    (raiseS (ps_entered (pq_object q s)) (RuntimeError ''prepared request scope already entered/consumed'') q
    (enter_pass (q\<lparr>pq_object := (pq_object q)(s := (pq_object q s)\<lparr>ps_entered := True\<rparr>), pq_ready := pq_ready q @ [s]\<rparr>) s cancelled))"

definition queue_close :: "PreparedExecutionQueue \<Rightarrow> PreparedExecutionQueue" where
  "queue_close q = q\<lparr>pq_closed := True\<rparr>"

definition queue_requests :: "PreparedExecutionQueue \<Rightarrow> nat" where
  "queue_requests q = card (pq_scopes q)"

definition active_requests :: "PreparedExecutionQueue \<Rightarrow> nat" where
  "active_requests q = (if pq_active q \<noteq> None then 1 else 0)"

section \<open>Interleavings\<close>

text \<open>
  Each operation runs under the condition's lock, so threads interleave between passes. The second component
  is the set of scopes whose threads wait in \<^verbatim>\<open>_enter\<close>.
\<close>

type_synonym queue_system = "PreparedExecutionQueue \<times> nat set"

definition still_waiting :: "unit option res \<Rightarrow> nat \<Rightarrow> nat set \<Rightarrow> nat set" where
  "still_waiting r s W = (if r = Inr None then insert s W else W - {s})"

datatype queue_event = Admit "nat res" | Enter nat "unit option res" | Poll nat "unit option res" | Release nat | Close

inductive queue_step :: "queue_system \<Rightarrow> queue_event \<Rightarrow> queue_system \<Rightarrow> bool" where
  admit: "queue_admit q retain = (q', r) \<Longrightarrow> queue_step (q, W) (Admit r) (q', W)"
| enter: "queue_enter q s c = (q', r) \<Longrightarrow> queue_step (q, W) (Enter s r) (q', if r = Inr None then insert s W else W)"
| poll: "s \<in> W \<Longrightarrow> enter_pass q s c = (q', r) \<Longrightarrow> queue_step (q, W) (Poll s r) (q', still_waiting r s W)"
| release: "queue_step (q, W) (Release s) (queue_release q s, W)"
| close: "queue_step (q, W) Close (queue_close q, W)"

inductive_cases queue_stepE: "queue_step (q, W) e (q', W')"

inductive queue_run :: "queue_system \<Rightarrow> queue_event list \<Rightarrow> queue_system \<Rightarrow> bool" where
  refl: "queue_run s [] s"
| step: "queue_run s es t \<Longrightarrow> queue_step t e u \<Longrightarrow> queue_run s (es @ [e]) u"

definition queue_ok :: "queue_system \<Rightarrow> bool" where
  "queue_ok S \<longleftrightarrow> (case S of (q, W) \<Rightarrow>
     finite (pq_scopes q) \<and> card (pq_scopes q) \<le> pq_maximum q \<and> pq_peak q \<le> pq_maximum q \<and> card (pq_scopes q) \<le> pq_peak q
     \<and> (\<forall>s \<in> pq_scopes q \<union> W. s < pq_created q) \<and> distinct (pq_ready q) \<and> set (pq_ready q) = pq_scopes q \<inter> W
     \<and> (\<forall>s \<in> W. ps_entered (pq_object q s))
     \<and> (\<forall>s. pq_active q = Some s \<longrightarrow> s \<in> pq_scopes q \<and> s \<notin> W \<and> ps_entered (pq_object q s)))"


lemma release_ok: "queue_ok (q, W) \<Longrightarrow> queue_ok (queue_release q s, W)"
  by (auto simp: queue_ok_def queue_release_def card_Diff_singleton_if le_diff_conv)

lemma admit_ok:
  assumes ok: "queue_ok (q, W)" and adm: "queue_admit q retain = (q', r)"
  shows "queue_ok (q', W)"
proof (cases "pq_closed q \<or> pq_maximum q \<le> card (pq_scopes q)")
  case True
  then show ?thesis using assms by (auto simp: queue_admit_def raiseS_def split: if_splits)
next
  case False
  have fresh: "pq_created q \<notin> pq_scopes q" "pq_created q \<notin> W" "pq_active q \<noteq> Some (pq_created q)"
    using ok by (auto simp: queue_ok_def)
  have bound: "\<forall>s \<in> pq_scopes q \<union> W. s < Suc (pq_created q)" using ok by (auto simp: queue_ok_def less_SucI)
  have card: "card (insert (pq_created q) (pq_scopes q)) = Suc (card (pq_scopes q))"
    using ok fresh by (simp add: queue_ok_def)
  show ?thesis using ok adm fresh bound card False
    by (auto simp: queue_admit_def queue_ok_def raiseS_def Let_def)
qed

lemma close_ok: "queue_ok (q, W) \<Longrightarrow> queue_ok (queue_close q, W)"
  by (simp add: queue_ok_def queue_close_def)

lemma entry_failed_ok:
  assumes "queue_ok (q, insert s W)" and "s \<notin> W" and "pq_active q \<noteq> Some s"
  shows "queue_ok (entry_failed q s, W)"
  using assms unfolding entry_failed_def queue_release_def queue_ok_def
  by (auto simp: card_Diff_singleton_if le_diff_conv)

lemma pass_ok:
  assumes "queue_ok (q, insert s W)" and "s \<notin> W" and "enter_pass q s c = (q', r)"
  shows "queue_ok (q', if r = Inr None then insert s W else W)"
    and "r \<noteq> Inl (LibraryError ''IndexError'' ''deque index out of range'')"
proof -
  have na: "pq_active q \<noteq> Some s" using assms(1) by (auto simp: queue_ok_def)
  note failed = entry_failed_ok [OF assms(1,2) na]
  show "queue_ok (q', if r = Inr None then insert s W else W)"
    using assms failed unfolding enter_pass_def raiseS_def
    by (auto split: if_splits list.splits simp: queue_ok_def)
  show "r \<noteq> Inl (LibraryError ''IndexError'' ''deque index out of range'')"
    using assms unfolding enter_pass_def raiseS_def PreparedQueueClosed_def
    by (auto split: if_splits list.splits simp: queue_ok_def)
qed

abbreviation index_error :: py_error where
  "index_error \<equiv> LibraryError ''IndexError'' ''deque index out of range''"

lemma insert_cond_ok: "queue_ok (q, if r = Inr None then insert s W else W) \<Longrightarrow> s \<notin> W \<Longrightarrow>
    queue_ok (q, still_waiting r s (insert s W))"
  by (simp add: still_waiting_def split: if_splits)

lemma enqueue_ok:
  "queue_ok (q, W) \<Longrightarrow> s \<in> pq_scopes q \<Longrightarrow> s \<notin> W \<Longrightarrow> pq_active q \<noteq> Some s \<Longrightarrow>
   queue_ok (q\<lparr>pq_object := (pq_object q)(s := (pq_object q s)\<lparr>ps_entered := True\<rparr>), pq_ready := pq_ready q @ [s]\<rparr>, insert s W)"
  by (auto simp: queue_ok_def)

lemma enter_ok:
  assumes ok: "queue_ok (q, W)" and e: "queue_enter q s c = (q', r)"
  shows "queue_ok (q', if r = Inr None then insert s W else W) \<and> r \<noteq> Inl index_error"
proof (cases "s \<notin> pq_scopes q \<or> ps_entered (pq_object q s)")
  case True
  then show ?thesis using ok e by (auto simp: queue_enter_def raiseS_def split: if_splits)
next
  case False
  then have fresh: "s \<in> pq_scopes q" "s \<notin> W" "pq_active q \<noteq> Some s" using ok by (auto simp: queue_ok_def)
  note q1 = enqueue_ok [OF ok fresh]
  from e False have p: "enter_pass (q\<lparr>pq_object := (pq_object q)(s := (pq_object q s)\<lparr>ps_entered := True\<rparr>), pq_ready := pq_ready q @ [s]\<rparr>) s c = (q', r)"
    by (simp add: queue_enter_def raiseS_def)
  show ?thesis using pass_ok [OF q1 fresh(2) p] by simp
qed

lemma poll_ok:
  assumes ok: "queue_ok (q, W)" and s: "s \<in> W" and p: "enter_pass q s c = (q', r)"
  shows "queue_ok (q', still_waiting r s W) \<and> r \<noteq> Inl index_error"
proof -
  from s have W: "W = insert s (W - {s})" by blast
  from ok W have ok': "queue_ok (q, insert s (W - {s}))" by simp
  have out: "s \<notin> W - {s}" by simp
  show ?thesis using pass_ok [OF ok' out p] W by (simp add: still_waiting_def split: if_splits)
qed

fun index_failed :: "queue_event \<Rightarrow> bool" where
  "index_failed (Enter s r) = (r = Inl index_error)"
| "index_failed (Poll s r) = (r = Inl index_error)"
| "index_failed _ = False"

lemma queue_step_ok: "queue_step S e S' \<Longrightarrow> queue_ok S \<Longrightarrow> queue_ok S' \<and> \<not> index_failed e"
  by (induction rule: queue_step.induct) (simp_all add: admit_ok enter_ok poll_ok release_ok close_ok)

lemma queue_run_ok: "queue_run S es S' \<Longrightarrow> queue_ok S \<Longrightarrow> queue_ok S' \<and> (\<forall>e \<in> set es. \<not> index_failed e)"
  by (induction rule: queue_run.induct) (auto dest: queue_step_ok)

lemma init_ok: "queue_init m = Inr q \<Longrightarrow> queue_ok (q, {}) \<and> 1 \<le> m \<and> m \<le> 64 \<and> pq_maximum q = nat m"
  by (auto simp: queue_init_def queue_ok_def raise_if_def split: if_splits)

lemma step_maximum: "queue_step S e S' \<Longrightarrow> pq_maximum (fst S') = pq_maximum (fst S)"
  by (induction rule: queue_step.induct)
    (auto simp: queue_admit_def queue_enter_def enter_pass_def entry_failed_def queue_release_def queue_close_def raiseS_def Let_def
      split: if_splits list.splits)

lemma run_maximum: "queue_run S es S' \<Longrightarrow> pq_maximum (fst S') = pq_maximum (fst S)"
  by (induction rule: queue_run.induct) (simp_all add: step_maximum)

section \<open>The capacity invariant\<close>

text \<open>
  However threads interleave, a queue admits at most the configured number of requests (its peak reading included),
  at most one request executes and it is not queued any more, the ready deque holds exactly the live waiting scopes, each
  once, and the expression \<^verbatim>\<open>self._ready[0]\<close> of the wait loop never raises an index error.
\<close>

lemma queue_invariant:
  assumes init: "queue_init m = Inr q0" and run: "queue_run (q0, {}) es (q, W)"
  shows "int (queue_requests q) \<le> m \<and> int (pq_peak q) \<le> m \<and> m \<le> 64
    \<and> active_requests q \<le> queue_requests q
    \<and> distinct (pq_ready q) \<and> set (pq_ready q) = pq_scopes q \<inter> W
    \<and> (\<forall>s. pq_active q = Some s \<longrightarrow> s \<in> pq_scopes q \<and> s \<notin> set (pq_ready q))
    \<and> (\<forall>e \<in> set es. \<not> index_failed e)"
proof -
  note i = init_ok [OF init]
  from queue_run_ok [OF run] i have ok: "queue_ok (q, W)" and no: "\<forall>e \<in> set es. \<not> index_failed e" by auto
  have mx: "pq_maximum q = nat m" using run_maximum [OF run] i by simp
  have act: "active_requests q \<le> card (pq_scopes q)"
    using ok card_gt_0_iff [of "pq_scopes q"] by (auto simp: queue_ok_def active_requests_def Suc_le_eq)
  show ?thesis using ok no mx i act by (auto simp: queue_ok_def queue_requests_def)
qed

section \<open>First in, first out\<close>

definition not_behind :: "PreparedExecutionQueue \<Rightarrow> nat \<Rightarrow> nat \<Rightarrow> bool" where
  "not_behind q s t \<longleftrightarrow> s \<in> set (takeWhile (\<lambda>x. x \<noteq> t) (pq_ready q))"

definition entered_once :: "PreparedExecutionQueue \<Rightarrow> nat \<Rightarrow> bool" where
  "entered_once q s \<longleftrightarrow> s < pq_created q \<and> ps_entered (pq_object q s)"

lemma takeWhile_remove1: "distinct xs \<Longrightarrow> s \<in> set (takeWhile (\<lambda>x. x \<noteq> t) xs) \<Longrightarrow> s \<noteq> y \<Longrightarrow>
    s \<in> set (takeWhile (\<lambda>x. x \<noteq> t) (remove1 y xs))"
proof (induction xs)
  case (Cons a xs)
  then show ?case
    by (cases "a = y"; cases "a = t"; cases "a = s") (auto dest: set_takeWhileD simp: takeWhile_eq_all_conv [THEN iffD2])
qed simp

lemma takeWhile_append_other: "s \<in> set (takeWhile P xs) \<Longrightarrow> s \<in> set (takeWhile P (xs @ ys))"
  by (induction xs) auto

lemma not_behind_ready: "not_behind q s t \<Longrightarrow> s \<in> set (pq_ready q)"
  by (auto simp: not_behind_def dest: set_takeWhileD)

lemma not_behind_head: "not_behind q s t \<Longrightarrow> pq_ready q = r # rest \<Longrightarrow> r \<noteq> t"
  by (auto simp: not_behind_def)

text \<open>The facts the ordering proof carries along a run: both scopes have entered, and \<open>s\<close>, while queued, is not behind \<open>t\<close>.\<close>

definition ordered :: "nat \<Rightarrow> nat \<Rightarrow> queue_system \<Rightarrow> bool" where
  "ordered s t S \<longleftrightarrow> (case S of (q, W) \<Rightarrow> queue_ok (q, W) \<and> entered_once q s \<and> entered_once q t
     \<and> (s \<in> set (pq_ready q) \<longrightarrow> not_behind q s t))"

lemma remove_not_behind:
  assumes "distinct (pq_ready q)" "s \<in> set (pq_ready q) \<longrightarrow> not_behind q s t" "pq_ready q' = remove1 y (pq_ready q)"
    "s \<in> set (pq_ready q')"
  shows "not_behind q' s t"
proof -
  have "s \<noteq> y" "s \<in> set (pq_ready q)" using assms by (auto simp: set_remove1_eq)
  then show ?thesis using assms takeWhile_remove1 by (simp add: not_behind_def)
qed

lemma entered_release [simp]: "entered_once (queue_release q y) s = entered_once q s"
  by (simp add: queue_release_def entered_once_def)

lemma entered_failed [simp]: "entered_once (entry_failed q y) s = entered_once q s"
  by (simp add: entry_failed_def) (simp add: entered_once_def)

lemma release_not_behind:
  "distinct (pq_ready q) \<Longrightarrow> s \<in> set (pq_ready q) \<longrightarrow> not_behind q s t \<Longrightarrow> s \<in> set (pq_ready (queue_release q y)) \<Longrightarrow>
   not_behind (queue_release q y) s t"
  by (cases "y \<in> pq_scopes q") (auto simp: queue_release_def intro!: remove_not_behind [of q])

lemma failed_not_behind:
  "distinct (pq_ready q) \<Longrightarrow> s \<in> set (pq_ready q) \<longrightarrow> not_behind q s t \<Longrightarrow> s \<in> set (pq_ready (entry_failed q y)) \<Longrightarrow>
   not_behind (entry_failed q y) s t"
  unfolding entry_failed_def
  by (auto simp: release_not_behind split: if_splits intro!: remove_not_behind [of q])

lemma pass_order:
  assumes d: "distinct (pq_ready q)" and nb: "s \<in> set (pq_ready q) \<longrightarrow> not_behind q s t" and p: "enter_pass q y c = (q', r)"
  shows "(s \<in> set (pq_ready q') \<longrightarrow> not_behind q' s t)
    \<and> (r = Inr (Some ()) \<and> y = t \<longrightarrow> s \<notin> set (pq_ready q))
    \<and> (\<forall>x. entered_once q' x = entered_once q x)"
proof (cases "pq_closed q \<or> c \<or> y \<notin> pq_scopes q \<or> pq_active q = None \<and> pq_ready q = []")
  case True
  then have "q' = entry_failed q y \<and> r \<noteq> Inr (Some ()) \<or> q' = q \<and> r = Inr None"
    using p by (auto simp: enter_pass_def raiseS_def split: if_splits list.splits)
  then show ?thesis using nb failed_not_behind [OF d nb] by auto
next
  case False
  show ?thesis
  proof (cases "pq_active q = None \<and> hd (pq_ready q) = y")
    case True
    with False obtain rest where rdy: "pq_ready q = y # rest" by (cases "pq_ready q") auto
    with True False p have q': "q' = q\<lparr>pq_ready := rest, pq_active := Some y\<rparr>" by (auto simp: enter_pass_def raiseS_def)
    have "y = t \<Longrightarrow> s \<notin> set (pq_ready q)" using nb not_behind_head [OF _ rdy] by blast
    moreover have "s \<in> set rest \<Longrightarrow> s \<in> set (takeWhile (\<lambda>x. x \<noteq> t) rest)" "s \<in> set rest \<Longrightarrow> s \<noteq> y"
      using nb d rdy by (auto simp: not_behind_def split: if_splits)
    ultimately show ?thesis by (auto simp: q' not_behind_def entered_once_def)
  next
    case no: False
    with False p have "q' = q \<and> r = Inr None" by (auto simp: enter_pass_def raiseS_def split: list.splits if_splits)
    then show ?thesis using nb by simp
  qed
qed

fun activates :: "nat \<Rightarrow> queue_event \<Rightarrow> bool" where
  "activates t (Enter s r) = (s = t \<and> r = Inr (Some ()))"
| "activates t (Poll s r) = (s = t \<and> r = Inr (Some ()))"
| "activates t _ = False"

lemma enter_order:
  assumes d: "distinct (pq_ready q)" and nb: "s \<in> set (pq_ready q) \<longrightarrow> not_behind q s t"
    and es: "entered_once q s" and et: "entered_once q t" and p: "queue_enter q y c = (q', r)"
    and fresh: "y \<in> pq_scopes q \<Longrightarrow> \<not> ps_entered (pq_object q y) \<Longrightarrow> y \<notin> set (pq_ready q)"
  shows "(s \<in> set (pq_ready q') \<longrightarrow> not_behind q' s t) \<and> (r = Inr (Some ()) \<longrightarrow> y \<noteq> t)
    \<and> entered_once q' s \<and> entered_once q' t"
proof (cases "y \<notin> pq_scopes q \<or> ps_entered (pq_object q y)")
  case True
  then have "q' = q \<and> r \<noteq> Inr (Some ())" using p by (auto simp: queue_enter_def raiseS_def split: if_splits)
  then show ?thesis using nb es et by simp
next
  case False
  define q1 where "q1 = q\<lparr>pq_object := (pq_object q)(y := (pq_object q y)\<lparr>ps_entered := True\<rparr>), pq_ready := pq_ready q @ [y]\<rparr>"
  have y: "y \<noteq> s" "y \<noteq> t" using False es et by (auto simp: entered_once_def)
  have p1: "enter_pass q1 y c = (q', r)" using p False by (simp add: queue_enter_def raiseS_def q1_def)
  have d1: "distinct (pq_ready q1)" using d fresh False by (simp add: q1_def)
  have nb1: "s \<in> set (pq_ready q1) \<longrightarrow> not_behind q1 s t"
    using nb y takeWhile_append_other [of s] by (auto simp: q1_def not_behind_def)
  have e1: "entered_once q1 s" "entered_once q1 t" using es et y by (auto simp: q1_def entered_once_def)
  show ?thesis using pass_order [OF d1 nb1 p1] e1 y by simp
qed

lemma step_order:
  "queue_step S e S' \<Longrightarrow> ordered s t S \<Longrightarrow>
   ordered s t S' \<and> (activates t e \<longrightarrow> s \<notin> set (pq_ready (fst S)))"
proof (induction rule: queue_step.induct)
  case (admit q retain q' r W)
  then have "queue_ok (q', W)" using admit_ok [OF _ admit(1)] by (simp add: ordered_def)
  with admit show ?case
    by (auto simp: ordered_def queue_admit_def raiseS_def Let_def entered_once_def not_behind_def split: if_splits)
next
  case (enter q y c q' r W)
  then have ok: "queue_ok (q, W)" by (simp add: ordered_def)
  have fresh: "y \<in> pq_scopes q \<Longrightarrow> \<not> ps_entered (pq_object q y) \<Longrightarrow> y \<notin> set (pq_ready q)"
    using ok by (auto simp: queue_ok_def)
  have d: "distinct (pq_ready q)" using ok by (simp add: queue_ok_def)
  have o: "s \<in> set (pq_ready q) \<longrightarrow> not_behind q s t" "entered_once q s" "entered_once q t"
    using enter(2) by (auto simp: ordered_def)
  show ?case using enter_order [OF d o enter(1) fresh] enter_ok [OF ok enter(1)] by (auto simp: ordered_def)
next
  case (poll y W q c q' r)
  then have ok: "queue_ok (q, W)" by (simp add: ordered_def)
  have d: "distinct (pq_ready q)" using ok by (simp add: queue_ok_def)
  have o: "s \<in> set (pq_ready q) \<longrightarrow> not_behind q s t" "entered_once q s" "entered_once q t"
    using poll(3) by (auto simp: ordered_def)
  show ?case using pass_order [OF d o(1) poll(2)] o poll_ok [OF ok poll(1,2)] by (auto simp: ordered_def)
next
  case (release q W y)
  then have ok: "queue_ok (q, W)" by (simp add: ordered_def)
  have d: "distinct (pq_ready q)" using ok by (simp add: queue_ok_def)
  show ?case using release release_ok [OF ok] release_not_behind [OF d] by (auto simp: ordered_def)
next
  case (close q W)
  then show ?case using close_ok [of q W] by (auto simp: ordered_def queue_close_def entered_once_def not_behind_def)
qed

lemma release_ready_subset: "set (pq_ready (queue_release q y)) \<subseteq> set (pq_ready q)"
  by (auto simp: queue_release_def dest: set_remove1_subset [THEN subsetD])

lemma failed_ready_subset: "set (pq_ready (entry_failed q y)) \<subseteq> set (pq_ready q)"
  using release_ready_subset [of q y] by (auto simp: entry_failed_def dest: set_remove1_subset [THEN subsetD])

lemma pass_ready_subset: "enter_pass q y c = (q', r) \<Longrightarrow> set (pq_ready q') \<subseteq> set (pq_ready q)"
  using failed_ready_subset [of q y] by (auto simp: enter_pass_def raiseS_def split: if_splits list.splits)

text \<open>A scope that has entered and left the deque never returns to it.\<close>

lemma step_left:
  "queue_step S e S' \<Longrightarrow> queue_ok S \<Longrightarrow> entered_once (fst S) s \<Longrightarrow> s \<in> set (pq_ready (fst S')) \<Longrightarrow> s \<in> set (pq_ready (fst S))"
proof (induction rule: queue_step.induct)
  case (enter q y c q' r W)
  show ?case
  proof (cases "y \<notin> pq_scopes q \<or> ps_entered (pq_object q y)")
    case True
    then show ?thesis using enter by (auto simp: queue_enter_def raiseS_def split: if_splits)
  next
    case False
    then have "y \<noteq> s" using enter by (auto simp: entered_once_def)
    moreover from enter(1) False pass_ready_subset have "set (pq_ready q') \<subseteq> set (pq_ready q @ [y])"
      by (fastforce simp: queue_enter_def raiseS_def)
    ultimately show ?thesis using enter by auto
  qed
qed (auto simp: queue_admit_def queue_close_def raiseS_def Let_def split: if_splits
       dest: pass_ready_subset release_ready_subset [THEN subsetD])

lemma run_order:
  "queue_run S es S' \<Longrightarrow> ordered s t S \<Longrightarrow>
   ordered s t S' \<and> (s \<in> set (pq_ready (fst S')) \<longrightarrow> (\<forall>e \<in> set es. \<not> activates t e))"
proof (induction rule: queue_run.induct)
  case (step S es T e U)
  then have o: "ordered s t T" by simp
  then have T: "queue_ok T" "entered_once (fst T) s" by (auto simp: ordered_def split: prod.splits)
  show ?case using step step_order [OF step(2) o] step_left [OF step(2) T] by auto
qed simp

text \<open>
  C32: The ready queue is first in, first out under every interleaving: when scope \<open>s\<close> stands before \<open>t\<close>
  in the deque, then no later continuation activates \<open>t\<close> for as long as \<open>s\<close> is still queued, whatever other scopes are admitted,
  entered, cancelled or released in between.
\<close>

theorem queue_fifo:
  assumes "queue_init m = Inr q0" and "queue_run (q0, {}) es (q, W)"
    and "pq_ready q = xs @ s # ys @ t # zs"
    and "queue_run (q, W) later (q', W')" and "s \<in> set (pq_ready q')"
  shows "\<forall>e \<in> set later. \<not> activates t e"
proof -
  have ok: "queue_ok (q, W)" using queue_run_ok [OF assms(2)] init_ok [OF assms(1)] by simp
  have in_W: "s \<in> W" "t \<in> W" using ok assms(3) by (auto simp: queue_ok_def)
  have ent: "entered_once q s" "entered_once q t" using ok in_W by (auto simp: queue_ok_def entered_once_def)
  have "distinct (xs @ s # ys @ t # zs)" using ok assms(3) by (auto simp: queue_ok_def)
  then have "not_behind q s t" using assms(3) by (auto simp: not_behind_def takeWhile_append)
  then have "ordered s t (q, W)" using ok ent by (simp add: ordered_def)
  then show ?thesis using run_order [OF assms(4)] assms(5) by auto
qed

section \<open>Progress\<close>

text \<open>The events in which the queued scopes are served one after the other: the scope's poll activates it, then it is closed.\<close>

definition serve :: "nat list \<Rightarrow> queue_event list" where
  "serve xs = concat (map (\<lambda>s. [Poll s (Inr (Some ())), Release s]) xs)"

lemma serve_simps [simp]: "serve [] = []" "serve (s # xs) = Poll s (Inr (Some ())) # Release s # serve xs"
  by (simp_all add: serve_def)

lemma run_Cons: "queue_run T es U \<Longrightarrow> queue_step S e T \<Longrightarrow> queue_run S (e # es) U"
proof (induction rule: queue_run.induct)
  case (refl s)
  then show ?case using queue_run.step [OF queue_run.refl refl(1)] by simp
next
  case (step s es t e' u)
  then have "queue_run S ((e # es) @ [e']) u" using queue_run.step by blast
  then show ?case by simp
qed

lemma head_activated:
  assumes ok: "queue_ok (q, W)" and q: "\<not> pq_closed q" "pq_active q = None" "pq_ready q = s # xs"
  shows "queue_step (q, W) (Poll s (Inr (Some ()))) (q\<lparr>pq_ready := xs, pq_active := Some s\<rparr>, W - {s})"
proof -
  have s: "s \<in> pq_scopes q" "s \<in> W" using ok q by (auto simp: queue_ok_def)
  have "enter_pass q s False = (q\<lparr>pq_ready := xs, pq_active := Some s\<rparr>, Inr (Some ()))"
    using q s by (simp add: enter_pass_def raiseS_def)
  from queue_step.poll [OF s(2) this] show ?thesis by (simp add: still_waiting_def)
qed

lemma all_served:
  "queue_ok (q, W) \<Longrightarrow> \<not> pq_closed q \<Longrightarrow> pq_active q = None \<Longrightarrow> pq_ready q = xs \<Longrightarrow>
   \<exists>q' W'. queue_run (q, W) (serve xs) (q', W') \<and> pq_ready q' = [] \<and> pq_active q' = None \<and> W' = W - set xs
     \<and> pq_scopes q' = pq_scopes q - set xs"
proof (induction xs arbitrary: q W)
  case Nil
  then show ?case using queue_run.refl by fastforce
next
  case (Cons s xs)
  define q1 where "q1 = q\<lparr>pq_ready := xs, pq_active := Some s\<rparr>"
  define q2 where "q2 = queue_release q1 s"
  note act = head_activated [OF Cons.prems, folded q1_def]
  have ok1: "queue_ok (q1, W - {s})" using queue_step_ok [OF act] Cons.prems by simp
  have rel: "queue_step (q1, W - {s}) (Release s) (q2, W - {s})" by (simp add: q2_def queue_step.release)
  have ok2: "queue_ok (q2, W - {s})" using queue_step_ok [OF rel ok1] by simp
  have s: "s \<in> pq_scopes q" "s \<notin> set xs" using Cons.prems by (auto simp: queue_ok_def)
  have q2: "\<not> pq_closed q2" "pq_active q2 = None" "pq_ready q2 = xs" "pq_scopes q2 = pq_scopes q - {s}"
    using Cons.prems s by (auto simp: q2_def q1_def queue_release_def remove1_idem)
  obtain q' W' where run: "queue_run (q2, W - {s}) (serve xs) (q', W')"
    and res: "pq_ready q' = []" "pq_active q' = None" "W' = W - {s} - set xs" "pq_scopes q' = pq_scopes q2 - set xs"
    using Cons.IH [OF ok2 q2(1-3)] by blast
  have "queue_run (q, W) (serve (s # xs)) (q', W')" using run_Cons [OF run_Cons [OF run rel] act] by simp
  then show ?case using res q2(4) by (intro exI [of _ q'] exI [of _ W']) auto
qed

text \<open>
  C31: No queued request is stuck: from every reachable state of an open queue in which no request executes, the poll of
  the first ready scope activates it, and when each activated scope is closed, the polls of the remaining scopes
  activate them in the order of the deque until it is empty; each such scope has then left the waiting set and freed its seat.
\<close>

theorem queue_progress:
  assumes "queue_init m = Inr q0" and "queue_run (q0, {}) es (q, W)" and "\<not> pq_closed q" and "pq_active q = None"
  shows "\<exists>q' W'. queue_run (q, W) (serve (pq_ready q)) (q', W') \<and> pq_ready q' = [] \<and> pq_active q' = None
    \<and> W' = W - set (pq_ready q) \<and> pq_scopes q' = pq_scopes q - set (pq_ready q)"
  using all_served [of q W] queue_run_ok [OF assms(2)] init_ok [OF assms(1)] assms(3,4) by simp

section \<open>Shutdown\<close>

text \<open>The events of a closed queue: whatever asks for a seat or for execution is refused.\<close>

fun refused :: "queue_event \<Rightarrow> bool" where
  "refused (Admit r) = (r = Inl (PreparedQueueClosed ''prepared client closed''))"
| "refused (Enter s r) = (\<exists>e. r = Inl e)"
| "refused (Poll s r) = (r = Inl (PreparedQueueClosed ''prepared queued request cancelled''))"
| "refused _ = True"

lemma failed_keeps:
  "pq_closed (entry_failed q y) = pq_closed q"
  "pq_active q \<noteq> Some y \<Longrightarrow> pq_active (entry_failed q y) = pq_active q \<and> pq_scopes q - {y} \<subseteq> pq_scopes (entry_failed q y)"
  by (auto simp: entry_failed_def queue_release_def)

lemma closed_pass:
  "pq_closed q \<Longrightarrow> enter_pass q y c = (entry_failed q y, Inl (PreparedQueueClosed ''prepared queued request cancelled''))"
  by (simp add: enter_pass_def raiseS_def)

lemma step_closed:
  "queue_step S e S' \<Longrightarrow> queue_ok S \<Longrightarrow> pq_closed (fst S) \<Longrightarrow>
   pq_closed (fst S') \<and> refused e \<and> (e \<noteq> Release a \<longrightarrow> pq_active (fst S) = Some a \<longrightarrow> pq_active (fst S') = Some a)"
proof (induction rule: queue_step.induct)
  case (enter q y c q' r W)
  show ?case
  proof (cases "y \<notin> pq_scopes q \<or> ps_entered (pq_object q y)")
    case True
    then show ?thesis using enter by (auto simp: queue_enter_def raiseS_def split: if_splits)
  next
    case False
    then have "pq_active q \<noteq> Some y" using enter by (auto simp: queue_ok_def)
    then show ?thesis using enter False by (auto simp: queue_enter_def raiseS_def closed_pass failed_keeps)
  qed
next
  case (poll y W q c q' r)
  then have "pq_active q \<noteq> Some y" by (auto simp: queue_ok_def)
  then show ?case using poll by (auto simp: closed_pass failed_keeps)
qed (auto simp: queue_admit_def queue_release_def queue_close_def raiseS_def)

lemma run_closed:
  "queue_run S es S' \<Longrightarrow> queue_ok S \<Longrightarrow> pq_closed (fst S) \<Longrightarrow>
   pq_closed (fst S') \<and> (\<forall>e \<in> set es. refused e)
   \<and> (Release a \<notin> set es \<longrightarrow> pq_active (fst S) = Some a \<longrightarrow> pq_active (fst S') = Some a)"
proof (induction rule: queue_run.induct)
  case (step S es T e U)
  then have "queue_ok T" using queue_run_ok by blast
  with step show ?case using step_closed [OF step(2), of a] by auto
qed simp

text \<open>
  Shutdown wakes queued callers without releasing the caller that still runs: after \<^verbatim>\<open>close\<close> every admission and every
  poll of a waiting scope raises \<^verbatim>\<open>PreparedQueueClosed\<close> and no scope is activated any more, while the active scope keeps its
  activation and its seat until its own \<^verbatim>\<open>close\<close>.
\<close>

lemma queue_shutdown:
  assumes "queue_init m = Inr q0" and "queue_run (q0, {}) es (q, W)"
    and "queue_run (queue_close q, W) later (q', W')"
  shows "(\<forall>e \<in> set later. refused e) \<and> (\<forall>e \<in> set later. \<forall>s. \<not> activates s e)
    \<and> (\<forall>a. pq_active q = Some a \<longrightarrow> Release a \<notin> set later \<longrightarrow> pq_active q' = Some a \<and> a \<in> pq_scopes q')"
proof -
  have ok: "queue_ok (queue_close q, W)" using queue_run_ok [OF assms(2)] init_ok [OF assms(1)] by (simp add: close_ok)
  have ok': "queue_ok (q', W')" using queue_run_ok [OF assms(3) ok] by simp
  have cl: "pq_closed (queue_close q)" "pq_active (queue_close q) = pq_active q" by (simp_all add: queue_close_def)
  have ref: "\<forall>e \<in> set later. refused e" using run_closed [OF assms(3) ok] cl by simp
  have act: "refused e \<Longrightarrow> \<not> activates s e" for s e by (cases e) auto
  have keep: "pq_active q = Some a \<Longrightarrow> Release a \<notin> set later \<Longrightarrow> pq_active q' = Some a" for a
    using run_closed [OF assms(3) ok, of a] cl by simp
  show ?thesis using ref act keep ok' by (auto simp: queue_ok_def)
qed

section \<open>Concrete schedules\<close>

datatype queue_cmd = DoAdmit bool | DoEnter nat bool | DoPoll nat bool | DoRelease nat | DoClose

fun perform :: "queue_cmd \<Rightarrow> queue_system \<Rightarrow> queue_event \<times> queue_system" where
  "perform (DoAdmit retain) (q, W) = (case queue_admit q retain of (q', r) \<Rightarrow> (Admit r, q', W))"
| "perform (DoEnter s c) (q, W) = (case queue_enter q s c of (q', r) \<Rightarrow> (Enter s r, q', if r = Inr None then insert s W else W))"
| "perform (DoPoll s c) (q, W) = (case enter_pass q s c of (q', r) \<Rightarrow> (Poll s r, q', still_waiting r s W))"
| "perform (DoRelease s) (q, W) = (Release s, queue_release q s, W)"
| "perform DoClose (q, W) = (Close, queue_close q, W)"

fun allowed :: "queue_cmd \<Rightarrow> queue_system \<Rightarrow> bool" where
  "allowed (DoPoll s c) (q, W) = (s \<in> W)"
| "allowed _ _ = True"

fun drive :: "queue_cmd list \<Rightarrow> queue_system \<Rightarrow> (queue_event list \<times> queue_system) option" where
  "drive [] S = Some ([], S)"
| "drive (c # cs) S = (if allowed c S then case perform c S of (e, T) \<Rightarrow> map_option (\<lambda>(es, U). (e # es, U)) (drive cs T) else None)"

lemma perform_step: "allowed c S \<Longrightarrow> perform c S = (e, T) \<Longrightarrow> queue_step S e T"
  by (cases c; cases S) (auto split: prod.splits intro: queue_step.intros)

lemma drive_run: "drive cs S = Some (es, T) \<Longrightarrow> queue_run S es T"
  by (induction cs arbitrary: S es)
    (auto split: if_splits prod.splits intro: queue_run.refl run_Cons perform_step)

definition three_seats :: PreparedExecutionQueue where
  "three_seats = \<lparr>pq_maximum = 3, pq_created = 0, pq_object = (\<lambda>_. \<lparr>ps_entered = False, ps_retain_until_close = False\<rparr>),
             pq_scopes = {}, pq_ready = [], pq_active = None, pq_closed = False, pq_peak = 0\<rparr>"

lemma three_seats_init: "queue_init 3 = Inr three_seats"
  by (simp add: queue_init_def raise_if_def three_seats_def)

text \<open>Scope 0 executes while scopes 1 and 2 wait.\<close>

definition busy_queue :: "bool \<Rightarrow> nat option \<Rightarrow> nat list \<Rightarrow> nat set \<Rightarrow> PreparedExecutionQueue" where
  "busy_queue closed act rdy sc = \<lparr>pq_maximum = 3, pq_created = 3,
     pq_object = (\<lambda>_. \<lparr>ps_entered = False, ps_retain_until_close = False\<rparr>)
       (0 := \<lparr>ps_entered = True, ps_retain_until_close = False\<rparr>, 1 := \<lparr>ps_entered = True, ps_retain_until_close = False\<rparr>,
        2 := \<lparr>ps_entered = True, ps_retain_until_close = True\<rparr>),
     pq_scopes = sc, pq_ready = rdy, pq_active = act, pq_closed = closed, pq_peak = 3\<rparr>"

lemmas queue_eval = queue_admit_def queue_enter_def enter_pass_def entry_failed_def queue_release_def queue_close_def still_waiting_def
  raiseS_def Let_def PreparedQueueClosed_def three_seats_def busy_queue_def

lemma busy_run:
  "queue_run (three_seats, {}) [Admit (Inr 0), Admit (Inr 1), Admit (Inr 2), Enter 0 (Inr (Some ())), Enter 1 (Inr None), Enter 2 (Inr None)]
     (busy_queue False (Some 0) [1, 2] {0, 1, 2}, {1, 2})"
  by (rule drive_run [of "[DoAdmit False, DoAdmit False, DoAdmit True, DoEnter 0 False, DoEnter 1 False, DoEnter 2 False]"])
    (auto simp: queue_eval fun_eq_iff numeral_2_eq_2 numeral_3_eq_3)

lemma idle_run:
  "queue_run (three_seats, {}) ([Admit (Inr 0), Admit (Inr 1), Admit (Inr 2), Enter 0 (Inr (Some ())), Enter 1 (Inr None), Enter 2 (Inr None)] @ [Release 0])
     (busy_queue False None [1, 2] {1, 2}, {1, 2})"
  by (rule queue_run.step [OF busy_run]) (use queue_step.release [of "busy_queue False (Some 0) [1, 2] {0, 1, 2}" "{1, 2}" 0] in \<open>auto simp: queue_eval\<close>)

theorem queue_fifo_witness: "\<not> activates 2 (Release 0) \<and> \<not> activates 2 (Poll 2 (Inr None))"
proof -
  have "queue_run (busy_queue False (Some 0) [1, 2] {0, 1, 2}, {1, 2}) [Release 0, Poll 2 (Inr None)]
          (busy_queue False None [1, 2] {1, 2}, {1, 2})"
    by (rule drive_run [of "[DoRelease 0, DoPoll 2 False]"]) (auto simp: queue_eval)
  from queue_fifo [OF three_seats_init busy_run _ this, where xs = "[]" and s = 1 and ys = "[]" and t = 2 and zs = "[]"]
  show ?thesis by (simp add: busy_queue_def)
qed

theorem queue_progress_witness:
  "\<exists>q' W'. queue_run (busy_queue False None [1, 2] {1, 2}, {1, 2}) (serve [1, 2]) (q', W') \<and> pq_ready q' = []"
  using queue_progress [OF three_seats_init idle_run] by (auto simp: busy_queue_def)

end
