(* ===== verification/Scalar_Fss.thy ===== *)
theory Scalar_Fss
  imports Dealer_Correct
begin

text \<open>
  The scalar gates of \<^verbatim>\<open>runtime/scalar_fss_reference.py\<close>: specifications of piecewise affine functions with comparison
  predicates over a 2- to 8-bit ring, the one-use gate share of a party, and the issuer, which draws the mask, shares the translated table of
  coefficients and issues two point keys per predicate through \<^verbatim>\<open>Point_Fss\<close>. The random source is the entropy tape of \<^verbatim>\<open>Point_Fss\<close>.
\<close>

section \<open>Random draws\<close>

text \<open>
  \<^verbatim>\<open>secrets.randbits\<close> draws whole bytes in big-endian order and drops the surplus low bits; \<^verbatim>\<open>secrets.randbelow\<close>
  draws candidates of the bit length of its bound until one is below it. On a tape without such a candidate the
  call does not return, which is the value \<open>None\<close>.
\<close>

definition randbits :: "nat \<Rightarrow> entropy \<Rightarrow> nat \<times> entropy" where
  "randbits k e = (let n = (k + 7) div 8; (bs, e') = token_bytes n e in (be_nat bs div 2 ^ (8 * n - k), e'))"

partial_function (option) randbelow :: "nat \<Rightarrow> entropy \<Rightarrow> (nat \<times> entropy) option" where
  "randbelow n e =
     (let (r, e') = randbits (bit_length n) e in if r < n then Some (r, e') else randbelow n e')"

section \<open>Affine scalar specifications\<close>

record AffineScalarSpec =
  sp_bits :: nat
  sp_boundaries :: "int list"
  sp_coefficients :: "(int \<times> int) list"
  sp_predicates :: "int list"

definition uint64_pair :: "int \<times> int \<Rightarrow> bool" where
  "uint64_pair c \<longleftrightarrow> 0 \<le> fst c \<and> fst c < 2 ^ 64 \<and> 0 \<le> snd c \<and> snd c < 2 ^ 64"

definition mk_AffineScalarSpec :: "int \<Rightarrow> int list \<Rightarrow> (int \<times> int) list \<Rightarrow> int list \<Rightarrow> AffineScalarSpec res" where
  "mk_AffineScalarSpec bits boundaries coefficients predicates =
     raise_if (\<not> (2 \<le> bits \<and> bits \<le> 8)) (ScalarFssError ''dense scalar reference supports only 2-8-bit rings'')
    (raise_if (length boundaries < 2 \<or> 9 < length boundaries \<or> hd boundaries \<noteq> 0 \<or> last boundaries \<noteq> 2 ^ nat bits
         \<or> list_ex (\<lambda>(a, b). b \<le> a) (zip boundaries (tl boundaries)))
       (ScalarFssError ''scalar intervals must form a bounded full partition'')
    (raise_if (length coefficients \<noteq> length boundaries - 1 \<or> list_ex (\<lambda>c. \<not> uint64_pair c) coefficients)
       (ScalarFssError ''every interval needs exactly two uint64 affine coefficients'')
    (raise_if (8 < length predicates \<or> list_ex (\<lambda>p. \<not> (0 < p \<and> p < 2 ^ nat bits)) predicates)
       (ScalarFssError ''scalar predicate threshold is unsupported'')
    (Inr \<lparr>sp_bits = nat bits, sp_boundaries = boundaries, sp_coefficients = coefficients, sp_predicates = predicates\<rparr>))))"

definition public_shape :: "AffineScalarSpec \<Rightarrow> nat \<times> nat \<times> nat \<times> nat" where
  "public_shape s = (sp_bits s, 2 * length (sp_predicates s), min (length (sp_coefficients s) + 1) (2 ^ sp_bits s), 2)"

section \<open>Gate shares\<close>

record ScalarGateShare =
  sg_session_id :: string
  sg_gate_id :: string
  sg_party :: nat
  sg_spec :: AffineScalarSpec
  sg_mask_share :: "64 word"
  sg_table :: "(64 word \<times> 64 word) list"
  sg_keys :: "(PointKeyShare \<times> PointKeyShare) list"
  sg_carry_shares :: "bool list"
  sg_consumed :: bool

definition theta_id :: "string \<Rightarrow> nat \<Rightarrow> string" where
  "theta_id gate i = gate @ ''.theta.'' @ str_nat i"

definition mask_id :: "string \<Rightarrow> nat \<Rightarrow> string" where
  "mask_id gate i = gate @ ''.mask.'' @ str_nat i"

definition key_mismatch :: "string \<Rightarrow> string \<Rightarrow> nat \<Rightarrow> nat \<times> PointKeyShare \<times> PointKeyShare \<Rightarrow> bool" where
  "key_mismatch sid gate party t = (case t of (i, l, r) \<Rightarrow>
     pk_session_id l \<noteq> sid \<or> pk_session_id r \<noteq> sid \<or> pk_party l \<noteq> party \<or> pk_party r \<noteq> party
     \<or> pk_gate_id l \<noteq> theta_id gate i \<or> pk_gate_id r \<noteq> mask_id gate i)"

definition ScalarGateShare_init ::
  "string \<Rightarrow> string \<Rightarrow> nat \<Rightarrow> AffineScalarSpec \<Rightarrow> 64 word \<Rightarrow> (64 word \<times> 64 word) list \<Rightarrow> (PointKeyShare \<times> PointKeyShare) list
    \<Rightarrow> bool list \<Rightarrow> ScalarGateShare res" where
  "ScalarGateShare_init session_id gate_id party spec mask_share table keys carries =
     raise_if (session_id = [] \<or> gate_id = [] \<or> party \<notin> {0, 1} \<or> length table \<noteq> 2 ^ sp_bits spec
         \<or> length keys \<noteq> length (sp_predicates spec) \<or> length carries \<noteq> length (sp_predicates spec)
         \<or> list_ex (key_mismatch session_id gate_id party) (enumerate 0 keys))
       (ScalarFssError ''scalar FSS gate has invalid shape or identity'')
       (Inr \<lparr>sg_session_id = session_id, sg_gate_id = gate_id, sg_party = party, sg_spec = spec, sg_mask_share = mask_share,
             sg_table = table, sg_keys = keys, sg_carry_shares = carries, sg_consumed = False\<rparr>)"

definition offline_bytes :: "ScalarGateShare \<Rightarrow> nat" where
  "offline_bytes g = length (sg_table g) * 16 + sum_list (map (\<lambda>(l, r). key_bytes l + key_bytes r) (sg_keys g)) + length (sg_carry_shares g)"

definition ScalarGateShare_cancel :: "ScalarGateShare \<Rightarrow> ScalarGateShare" where
  "ScalarGateShare_cancel g = g\<lparr>sg_consumed := True,
     sg_keys := map (\<lambda>(l, r). (PointKeyShare_cancel l, PointKeyShare_cancel r)) (sg_keys g)\<rparr>"

text \<open>The generator over the pairs of keys and the carry shares; keys it has evaluated stay consumed when it raises.\<close>

fun eval_predicates ::
  "hmac_fun \<Rightarrow> int \<Rightarrow> (PointKeyShare \<times> PointKeyShare) list \<Rightarrow> bool list \<Rightarrow> (PointKeyShare \<times> PointKeyShare) list \<times> bool list res" where
  "eval_predicates hmac x [] [] = ([], Inr [])"
| "eval_predicates hmac x ((l, r) # ks) (c # cs) =
     (case less_than_share hmac l x of
        (l', Inl e) \<Rightarrow> ((l', r) # ks, Inl e)
      | (l', Inr vl) \<Rightarrow> (case less_than_share hmac r x of
          (r', Inl e) \<Rightarrow> ((l', r') # ks, Inl e)
        | (r', Inr vr) \<Rightarrow> (case eval_predicates hmac x ks cs of
            (ks', rest) \<Rightarrow> ((l', r') # ks', bindE rest (\<lambda>vs. Inr (((vl \<noteq> vr) \<noteq> c) # vs))))))"
| "eval_predicates hmac x ks cs = (ks, Inl (ValueError ''zip() arguments have different lengths''))"

definition scalar_evaluate :: "hmac_fun \<Rightarrow> ScalarGateShare \<Rightarrow> int \<Rightarrow> ScalarGateShare \<times> ((64 word \<times> 64 word) \<times> bool list) res" where
  "scalar_evaluate hmac g x =
     raiseS (sg_consumed g) (ScalarFssError ''scalar FSS gate already consumed'') g
       (let g = g\<lparr>sg_consumed := True\<rparr>;
            (g, r) = (if \<not> (0 \<le> x \<and> x < 2 ^ sp_bits (sg_spec g))
              then (g, Inl (ScalarFssError ''public masked scalar is outside the gate domain''))
              else let coefficients = sg_table g ! nat x;
                       (ks, ps) = eval_predicates hmac x (sg_keys g) (sg_carry_shares g)
                   in (g\<lparr>sg_keys := ks\<rparr>, bindE ps (\<lambda>ps. Inr (coefficients, ps))))
        in (ScalarGateShare_cancel g, r))"

section \<open>Issuance\<close>

record ScalarGateIssuer =
  si_dealer :: PointKeyDealer
  si_issued :: "string set"
  si_session_id :: string

definition ScalarGateIssuer_init :: "string \<Rightarrow> ScalarGateIssuer res" where
  "ScalarGateIssuer_init sid =
     bindE (PointKeyDealer_init sid) (\<lambda>d. Inr \<lparr>si_dealer = d, si_issued = {}, si_session_id = sid\<rparr>)"

text \<open>\<^verbatim>\<open>next\<close> over the enumerated upper boundaries; without an interval it raises \<^verbatim>\<open>StopIteration\<close>.\<close>

fun first_interval :: "nat \<Rightarrow> int list \<Rightarrow> int \<Rightarrow> nat res" where
  "first_interval i [] v = Inl (LibraryError ''StopIteration'' [])"
| "first_interval i (u # us) v = (if v < u then Inr i else first_interval (Suc i) us v)"

definition table_row :: "AffineScalarSpec \<Rightarrow> nat \<Rightarrow> nat \<Rightarrow> (64 word \<times> 64 word) res" where
  "table_row spec msk v =
     (let private_value = (int v - int msk) mod 2 ^ sp_bits spec
      in bindE (first_interval 0 (tl (sp_boundaries spec)) private_value) (\<lambda>i.
           Inr (of_int (fst (sp_coefficients spec ! i)), of_int (snd (sp_coefficients spec ! i)))))"

fun reshape_pairs :: "64 word list \<Rightarrow> (64 word \<times> 64 word) list" where
  "reshape_pairs (a # b # ws) = (a, b) # reshape_pairs ws"
| "reshape_pairs _ = []"

text \<open>The keys and carries of the predicates, in the order in which the issuer draws them.\<close>

fun issue_predicates ::
  "hmac_fun \<Rightarrow> nat \<Rightarrow> nat \<Rightarrow> string \<Rightarrow> nat \<Rightarrow> int list \<Rightarrow> PointKeyDealer \<times> entropy
    \<Rightarrow> (PointKeyDealer \<times> entropy) \<times> ((PointKeyShare \<times> PointKeyShare) list \<times> (PointKeyShare \<times> PointKeyShare) list \<times> bool list \<times> bool list) res" where
  "issue_predicates hmac bits msk gate i [] s = (s, Inr ([], [], [], []))"
| "issue_predicates hmac bits msk gate i (p # ps) s =
     bindS (issue hmac (fst s) (snd s) (theta_id gate i) ((int msk + p) mod 2 ^ bits) bits) (\<lambda>s (l0, l1).
     bindS (issue hmac (fst s) (snd s) (mask_id gate i) (int msk) bits) (\<lambda>s (r0, r1).
     let (first_carry, e) = randbits 1 (snd s); c0 = first_carry = 1 in
     bindS (issue_predicates hmac bits msk gate (Suc i) ps (fst s, e)) (\<lambda>s (ks0, ks1, cs0, cs1).
     (s, Inr ((l0, r0) # ks0, (l1, r1) # ks1, c0 # cs0, (c0 \<noteq> (2 ^ bits \<le> int msk + p)) # cs1)))))"

definition scalar_issue ::
  "hmac_fun \<Rightarrow> AffineScalarSpec \<Rightarrow> string \<Rightarrow> ScalarGateIssuer \<times> entropy
    \<Rightarrow> ((ScalarGateIssuer \<times> entropy) \<times> (ScalarGateShare \<times> ScalarGateShare) res) option" where
  "scalar_issue hmac spec gate_id s =
     (let (si, e) = s in
      if gate_id = [] \<or> gate_id \<in> si_issued si
      then Some (s, Inl (ScalarFssError ''scalar gate identity was already issued''))
      else let si = si\<lparr>si_issued := insert gate_id (si_issued si)\<rparr>; modulus = 2 ^ sp_bits spec
      in case randbelow modulus e of
           None \<Rightarrow> None
         | Some (msk, e) \<Rightarrow> Some
             (let (share_bytes, e) = token_bytes 8 e;
                  share0 = u64_of_bytes share_bytes;
                  share1 = of_nat msk - share0
              in onS (mapE (table_row spec msk) [0..<modulus]) (si, e) (\<lambda>table.
                 let (table_bytes, e) = token_bytes (modulus * 16) e;
                     first = reshape_pairs (frombuffer_u64 table_bytes);
                     second = map2 (\<lambda>t f. (fst t - fst f, snd t - snd f)) table first;
                     ((d, e), r) = issue_predicates hmac (sp_bits spec) msk gate_id 0 (sp_predicates spec) (si_dealer si, e);
                     si = si\<lparr>si_dealer := d\<rparr>
                 in onS r (si, e) (\<lambda>(ks0, ks1, cs0, cs1).
                    onS (ScalarGateShare_init (si_session_id si) gate_id 0 spec share0 first ks0 cs0) (si, e) (\<lambda>g0.
                    onS (ScalarGateShare_init (si_session_id si) gate_id 1 spec share1 second ks1 cs1) (si, e) (\<lambda>g1.
                    ((si, e), Inr (g0, g1))))))))"

section \<open>Draws return\<close>

lemma randbits_rest [simp]: "snd (randbits k e) = (\<lambda>i. e (i + (k + 7) div 8))"
  by (simp add: randbits_def token_bytes_def Let_def)

definition candidate :: "nat \<Rightarrow> entropy \<Rightarrow> nat \<Rightarrow> nat" where
  "candidate n e j = fst (randbits (bit_length n) (\<lambda>i. e (i + j * ((bit_length n + 7) div 8))))"

lemma candidate_Suc: "candidate n (snd (randbits (bit_length n) e)) j = candidate n e (Suc j)"
  by (simp add: candidate_def ac_simps)

lemma randbelow_returns: "candidate n e j < n \<Longrightarrow> \<exists>r e'. randbelow n e = Some (r, e') \<and> r < n"
proof (induction j arbitrary: e)
  case 0
  then show ?case by (subst randbelow.simps) (simp add: candidate_def case_prod_beta)
next
  case (Suc j)
  then obtain r e' where "randbelow n (snd (randbits (bit_length n) e)) = Some (r, e')" "r < n"
    using candidate_Suc by metis
  then show ?case by (subst randbelow.simps) (auto simp: case_prod_beta)
qed

section \<open>Tables\<close>

lemma first_interval_ok:
  "us \<noteq> [] \<Longrightarrow> v < last us \<Longrightarrow> \<exists>i. first_interval k us v = Inr (k + i) \<and> i < length us \<and> v < us ! i \<and> (\<forall>j < i. us ! j \<le> v)"
proof (induction us arbitrary: k)
  case (Cons u us)
  show ?case
  proof (cases "v < u")
    case True
    then show ?thesis by (intro exI [of _ 0]) simp
  next
    case False
    with Cons.prems have "us \<noteq> []" "v < last us" by (auto split: if_splits)
    then obtain i where "first_interval (Suc k) us v = Inr (Suc k + i)" "i < length us" "v < us ! i" "\<forall>j < i. us ! j \<le> v"
      using Cons.IH by blast
    with False show ?thesis by (intro exI [of _ "Suc i"]) (auto simp: less_Suc_eq_0_disj)
  qed
qed simp

text \<open>The interval of a valid specification that holds a value, and its coefficients in the ring.\<close>

definition interval_at :: "AffineScalarSpec \<Rightarrow> int \<Rightarrow> nat \<Rightarrow> bool" where
  "interval_at spec x i \<longleftrightarrow> i < length (sp_coefficients spec) \<and> sp_boundaries spec ! i \<le> x \<and> x < sp_boundaries spec ! Suc i"

lemma spec_fields:
  assumes "mk_AffineScalarSpec bits bs cs ps = Inr spec"
  shows "2 \<le> bits" "bits \<le> 8" "spec = \<lparr>sp_bits = nat bits, sp_boundaries = bs, sp_coefficients = cs, sp_predicates = ps\<rparr>"
    "length bs = Suc (length cs)" "cs \<noteq> []" "hd bs = 0" "last bs = 2 ^ nat bits" "\<forall>p \<in> set ps. 0 < p \<and> p < 2 ^ nat bits"
  using assms by (auto simp: mk_AffineScalarSpec_def res_simps list_ex_iff)

lemma interval_found:
  assumes spec: "mk_AffineScalarSpec bits bs cs ps = Inr spec" and x: "0 \<le> x" "x < 2 ^ sp_bits spec"
  shows "\<exists>i. first_interval 0 (tl (sp_boundaries spec)) x = Inr i \<and> interval_at spec x i"
proof -
  note f = spec_fields [OF spec]
  obtain u us where bs: "bs = 0 # u # us" using f by (cases bs; cases "tl bs") auto
  have "x < last (u # us)" using f x bs by simp
  then obtain i where i: "first_interval 0 (u # us) x = Inr i" "i < length (u # us)" "x < (u # us) ! i" "\<forall>j < i. (u # us) ! j \<le> x"
    using first_interval_ok [of "u # us" x 0] by auto
  have "bs ! i \<le> x" using i(4) x bs by (cases i) auto
  then show ?thesis using i f bs by (intro exI [of _ i]) (simp add: interval_at_def)
qed

lemma interval_unique:
  assumes spec: "mk_AffineScalarSpec bits bs cs ps = Inr spec" and i: "interval_at spec x i" and j: "interval_at spec x j"
  shows "i = j"
proof -
  note f = spec_fields [OF spec]
  have steps: "bs ! k < bs ! Suc k" if "Suc k < length bs" for k
  proof -
    have "\<forall>t \<in> set (zip bs (tl bs)). \<not> (case t of (a, b) \<Rightarrow> b \<le> a)"
      using spec by (auto simp: mk_AffineScalarSpec_def res_simps list_ex_iff)
    moreover have "(bs ! k, bs ! Suc k) \<in> set (zip bs (tl bs))"
      using that by (auto simp: in_set_zip nth_tl intro!: exI [of _ k])
    ultimately show ?thesis by fastforce
  qed
  have mono: "m \<le> n \<Longrightarrow> n < length bs \<Longrightarrow> bs ! m \<le> bs ! n" for m n
  proof (induction n rule: dec_induct)
    case (step n)
    then show ?case using steps [of n] by simp
  qed simp
  have no: False if "a < b" "interval_at spec x a" "interval_at spec x b" for a b
    using mono [of "Suc a" b] that f by (simp add: interval_at_def)
  show ?thesis using no [of i j] no [of j i] i j by (metis linorder_neqE_nat)
qed

lemma length_reshape_pairs: "length ws = 2 * n \<Longrightarrow> length (reshape_pairs ws) = n"
proof (induction n arbitrary: ws)
  case (Suc n)
  then obtain a b us where "ws = a # b # us" "length us = 2 * n" by (cases ws; cases "tl ws") auto
  with Suc.IH show ?case by simp
qed simp

section \<open>Predicates\<close>

text \<open>The comparison of a private value with a threshold, from the comparisons of its masked form.\<close>

lemma masked_comparison:
  fixes x m p M :: int
  assumes "0 \<le> x" "x < M" "0 \<le> m" "m < M" "0 < p" "p < M"
  shows "((((x + m) mod M < (m + p) mod M) \<noteq> ((x + m) mod M < m)) \<noteq> (M \<le> m + p)) = (x < p)"
proof -
  have wrap: "(a + b) mod M = (if a + b < M then a + b else a + b - M)" if "0 \<le> a" "a < M" "0 \<le> b" "b < M" for a b
  proof (cases "a + b < M")
    case False
    then have "(a + b - M) mod M = a + b - M" using that by (intro mod_pos_pos_trivial) auto
    then show ?thesis using False by simp
  qed (use that in simp)
  show ?thesis using assms by (auto simp: wrap)
qed

section \<open>Identities\<close>

lemma str_nat_no_dot: "CHR ''.'' \<notin> set (str_nat n)"
proof (induction n rule: str_nat.induct)
  case (1 n)
  have d: "char_of (48 + k) \<noteq> CHR ''.''" if "k < 10" for k :: nat
    using that by (auto simp: char_of_eq_iff take_bit_eq_mod)
  show ?case using "1" d [of n] d [of "n mod 10"] by (subst str_nat.simps) auto
qed

lemma last_dot_split:
  "CHR ''.'' \<notin> set ys \<Longrightarrow> CHR ''.'' \<notin> set ys' \<Longrightarrow> xs @ CHR ''.'' # ys = xs' @ CHR ''.'' # ys' \<Longrightarrow> xs = xs' \<and> ys = ys'"
  by (auto simp: append_eq_append_conv2 append_eq_Cons_conv Cons_eq_append_conv)

lemma theta_id_alt: "theta_id g i = (g @ ''.theta'') @ CHR ''.'' # str_nat i"
  by (simp add: theta_id_def)

lemma mask_id_alt: "mask_id g i = (g @ ''.mask'') @ CHR ''.'' # str_nat i"
  by (simp add: mask_id_def)

lemma gate_ids_inj [simp]:
  "theta_id g i = theta_id h j \<longleftrightarrow> g = h \<and> i = j" "mask_id g i = mask_id h j \<longleftrightarrow> g = h \<and> i = j"
  "theta_id g i \<noteq> mask_id h j" "mask_id g i \<noteq> theta_id h j"
proof -
  note split = last_dot_split [OF str_nat_no_dot str_nat_no_dot]
  show "theta_id g i = theta_id h j \<longleftrightarrow> g = h \<and> i = j"
    using split [of "g @ ''.theta''" i "h @ ''.theta''" j] str_nat_inj by (auto simp: theta_id_alt)
  show "mask_id g i = mask_id h j \<longleftrightarrow> g = h \<and> i = j"
    using split [of "g @ ''.mask''" i "h @ ''.mask''" j] str_nat_inj by (auto simp: mask_id_alt)
  have "g @ ''.theta'' \<noteq> h @ ''.mask''" for g h :: string
  proof
    assume "g @ ''.theta'' = h @ ''.mask''"
    then have "last (g @ ''.theta'') = last (h @ ''.mask'')" by simp
    then show False by simp
  qed
  then show "theta_id g i \<noteq> mask_id h j" "mask_id g i \<noteq> theta_id h j"
    using split [of "g @ ''.theta''" i "h @ ''.mask''" j] split [of "h @ ''.theta''" j "g @ ''.mask''" i]
    by (auto simp: theta_id_alt mask_id_alt)
qed

lemma gate_ids_nonempty [simp]: "theta_id g i \<noteq> []" "mask_id g i \<noteq> []"
  by (simp_all add: theta_id_def mask_id_def)

section \<open>Issued predicates\<close>

definition own_ids :: "string \<Rightarrow> string set" where
  "own_ids g = range (theta_id g) \<union> range (mask_id g)"

lemma issue_dealer:
  "dl_session_id (fst (fst (issue hmac d e g p b))) = dl_session_id d
   \<and> dl_issued (fst (fst (issue hmac d e g p b))) \<subseteq> insert g (dl_issued d)"
  by (auto simp: issue_def issue_tree_def Let_def split: prod.splits)

lemma issue_predicates_dealer:
  "dl_session_id (fst (fst (issue_predicates hmac b m g i ps s))) = dl_session_id (fst s)
   \<and> dl_issued (fst (fst (issue_predicates hmac b m g i ps s))) \<subseteq> dl_issued (fst s) \<union> own_ids g"
proof (induction ps arbitrary: i s)
  case (Cons p ps)
  define L where "L = issue hmac (fst s) (snd s) (theta_id g i) ((int m + p) mod 2 ^ b) b"
  define R where "R = issue hmac (fst (fst L)) (snd (fst L)) (mask_id g i) (int m) b"
  define C where "C = issue_predicates hmac b m g (Suc i) ps (fst (fst R), snd (randbits 1 (snd (fst R))))"
  have LRC: "dl_session_id (fst (fst L)) = dl_session_id (fst s)" "dl_issued (fst (fst L)) \<subseteq> insert (theta_id g i) (dl_issued (fst s))"
    "dl_session_id (fst (fst R)) = dl_session_id (fst (fst L))" "dl_issued (fst (fst R)) \<subseteq> insert (mask_id g i) (dl_issued (fst (fst L)))"
    "dl_session_id (fst (fst C)) = dl_session_id (fst (fst R))" "dl_issued (fst (fst C)) \<subseteq> dl_issued (fst (fst R)) \<union> own_ids g"
    using Cons.IH [of "Suc i" "(fst (fst R), snd (randbits 1 (snd (fst R))))"] by (simp_all add: L_def R_def C_def issue_dealer)
  have ids: "theta_id g i \<in> own_ids g" "mask_id g i \<in> own_ids g" by (auto simp: own_ids_def)
  have "fst (issue_predicates hmac b m g i (p # ps) s) \<in> {fst L, fst R, fst C}"
    unfolding C_def R_def L_def by (auto simp: bindS_def Let_def case_prod_beta split: prod.splits sum.splits)
  then show ?case
  proof (elim insertE emptyE)
    assume "fst (issue_predicates hmac b m g i (p # ps) s) = fst L"
    then show ?thesis using LRC(1,2) ids by auto
  next
    assume "fst (issue_predicates hmac b m g i (p # ps) s) = fst R"
    then show ?thesis using LRC(1-4) ids by auto
  next
    assume "fst (issue_predicates hmac b m g i (p # ps) s) = fst C"
    then show ?thesis using LRC ids by auto
  qed
qed auto

text \<open>What the two shares of one predicate compute for every private value.\<close>

definition predicates_ok :: "hmac_fun \<Rightarrow> nat \<Rightarrow> nat \<Rightarrow> int list \<Rightarrow> (PointKeyShare \<times> PointKeyShare) list \<times> (PointKeyShare \<times> PointKeyShare) list
    \<times> bool list \<times> bool list \<Rightarrow> bool" where
  "predicates_ok hmac bits m ps r = (case r of (ks0, ks1, cs0, cs1) \<Rightarrow>
     \<forall>x. 0 \<le> x \<longrightarrow> x < 2 ^ bits \<longrightarrow> (\<exists>p0 p1.
       snd (eval_predicates hmac ((x + int m) mod 2 ^ bits) ks0 cs0) = Inr p0
       \<and> snd (eval_predicates hmac ((x + int m) mod 2 ^ bits) ks1 cs1) = Inr p1
       \<and> length p0 = length ps \<and> length p1 = length ps \<and> map2 (\<noteq>) p0 p1 = map (\<lambda>p. x < p) ps))"

definition well_named :: "string \<Rightarrow> string \<Rightarrow> nat \<Rightarrow> nat \<Rightarrow> (PointKeyShare \<times> PointKeyShare) list \<Rightarrow> bool" where
  "well_named sid gate party i ks \<longleftrightarrow> \<not> list_ex (key_mismatch sid gate party) (enumerate i ks)"

lemma predicates_ok_Cons:
  assumes L: "issue hmac d e g1 ((int m + p) mod 2 ^ bits) bits = (s, Inr (l0, l1))"
    and R: "issue hmac d' e' g2 (int m) bits = (s', Inr (r0, r1))"
    and p: "0 < p" "p < 2 ^ bits" and rest: "predicates_ok hmac bits m ps (ks0, ks1, cs0, cs1)"
  shows "predicates_ok hmac bits m (p # ps)
    ((l0, r0) # ks0, (l1, r1) # ks1, c # cs0, (c \<noteq> (2 ^ bits \<le> int m + p)) # cs1)"
  unfolding predicates_ok_def prod.case
proof (intro allI impI)
  fix x :: int assume x: "0 \<le> x" "x < 2 ^ bits"
  define v where "v = (x + int m) mod 2 ^ bits"
  have v: "0 \<le> v" "v < 2 ^ bits" by (simp_all add: v_def)
  have m: "0 \<le> int m" "int m < 2 ^ bits" using issue_ok [OF R] by auto
  obtain a0 a1 where a: "snd (less_than_share hmac l0 v) = Inr a0" "snd (less_than_share hmac l1 v) = Inr a1"
    "(a0 \<noteq> a1) = (v < (int m + p) mod 2 ^ bits)" using issue_less_than [OF L v] by blast
  obtain b0 b1 where b: "snd (less_than_share hmac r0 v) = Inr b0" "snd (less_than_share hmac r1 v) = Inr b1"
    "(b0 \<noteq> b1) = (v < int m)" using issue_less_than [OF R v] by blast
  obtain p0 p1 where q: "snd (eval_predicates hmac v ks0 cs0) = Inr p0" "snd (eval_predicates hmac v ks1 cs1) = Inr p1"
    "length p0 = length ps" "length p1 = length ps" "map2 (\<noteq>) p0 p1 = map (\<lambda>p. x < p) ps"
    using rest x unfolding predicates_ok_def prod.case v_def by blast
  have cmp: "((((a0 \<noteq> b0) \<noteq> c)) \<noteq> ((a1 \<noteq> b1) \<noteq> (c \<noteq> (2 ^ bits \<le> int m + p)))) = (x < p)"
    using masked_comparison [of x "2 ^ bits" "int m" p] x m p a(3) b(3) unfolding v_def by argo
  have step: "snd (eval_predicates hmac v ((l, r) # ks) (k # cs)) = Inr (((u \<noteq> w) \<noteq> k) # vs)"
    if "snd (less_than_share hmac l v) = Inr u" "snd (less_than_share hmac r v) = Inr w" "snd (eval_predicates hmac v ks cs) = Inr vs"
    for l r ks k cs u w vs
    using that by (cases "less_than_share hmac l v"; cases "less_than_share hmac r v"; cases "eval_predicates hmac v ks cs") simp
  have e0: "snd (eval_predicates hmac v ((l0, r0) # ks0) (c # cs0)) = Inr (((a0 \<noteq> b0) \<noteq> c) # p0)"
    by (rule step [OF a(1) b(1) q(1)])
  have e1: "snd (eval_predicates hmac v ((l1, r1) # ks1) ((c \<noteq> (2 ^ bits \<le> int m + p)) # cs1))
      = Inr (((a1 \<noteq> b1) \<noteq> (c \<noteq> (2 ^ bits \<le> int m + p))) # p1)"
    by (rule step [OF a(2) b(2) q(2)])
  have "map2 (\<noteq>) (((a0 \<noteq> b0) \<noteq> c) # p0) (((a1 \<noteq> b1) \<noteq> (c \<noteq> (2 ^ bits \<le> int m + p))) # p1) = map (\<lambda>p. x < p) (p # ps)"
    using cmp q(5) by simp
  with e0 e1 q(3,4) show "\<exists>p0 p1. snd (eval_predicates hmac ((x + int m) mod 2 ^ bits) ((l0, r0) # ks0) (c # cs0)) = Inr p0
      \<and> snd (eval_predicates hmac ((x + int m) mod 2 ^ bits) ((l1, r1) # ks1) ((c \<noteq> (2 ^ bits \<le> int m + p)) # cs1)) = Inr p1
      \<and> length p0 = length (p # ps) \<and> length p1 = length (p # ps) \<and> map2 (\<noteq>) p0 p1 = map (\<lambda>p. x < p) (p # ps)"
    unfolding v_def [symmetric] by fastforce
qed

lemma issue_predicates_ok:
  assumes "1 \<le> bits" "bits \<le> max_bits" "m < 2 ^ bits" "\<forall>p \<in> set ps. 0 < p \<and> p < 2 ^ bits"
    and "dl_session_id (fst s) \<noteq> []" "\<forall>j \<ge> i. theta_id gate j \<notin> dl_issued (fst s) \<and> mask_id gate j \<notin> dl_issued (fst s)"
  shows "\<exists>s' ks0 ks1 cs0 cs1. issue_predicates hmac bits m gate i ps s = (s', Inr (ks0, ks1, cs0, cs1))
    \<and> length ks0 = length ps \<and> length ks1 = length ps \<and> length cs0 = length ps \<and> length cs1 = length ps
    \<and> well_named (dl_session_id (fst s)) gate 0 i ks0 \<and> well_named (dl_session_id (fst s)) gate 1 i ks1
    \<and> predicates_ok hmac bits m ps (ks0, ks1, cs0, cs1)"
  using assms(4-)
proof (induction ps arbitrary: i s)
  case Nil
  then show ?case by (auto simp: well_named_def predicates_ok_def)
next
  case (Cons p ps)
  have p: "0 < p" "p < 2 ^ bits" using Cons.prems by auto
  have m: "0 \<le> int m" "int m < 2 ^ bits" using assms(3) by (simp_all add: zless_nat_eq_int_zless flip: nat_less_iff)
  obtain sL l0 l1 where L: "issue hmac (fst s) (snd s) (theta_id gate i) ((int m + p) mod 2 ^ bits) bits = (sL, Inr (l0, l1))"
    using issue_succeeds [of "fst s" "theta_id gate i" bits "(int m + p) mod 2 ^ bits" hmac "snd s"] Cons.prems assms(1,2) by auto
  have dL: "fst sL = (fst s)\<lparr>dl_issued := insert (theta_id gate i) (dl_issued (fst s))\<rparr>"
    using issue_state [of hmac "fst s" "snd s" _ _ _ "fst sL" "snd sL"] L by simp
  obtain sR r0 r1 where R: "issue hmac (fst sL) (snd sL) (mask_id gate i) (int m) bits = (sR, Inr (r0, r1))"
    using issue_succeeds [of "fst sL" "mask_id gate i" bits "int m" hmac "snd sL"] Cons.prems assms(1,2) m dL by auto
  have dR: "fst sR = (fst sL)\<lparr>dl_issued := insert (mask_id gate i) (dl_issued (fst sL))\<rparr>"
    using issue_state [of hmac "fst sL" "snd sL" _ _ _ "fst sR" "snd sR"] R by simp
  define s2 where "s2 = (fst sR, snd (randbits 1 (snd sR)))"
  have sid: "dl_session_id (fst s2) = dl_session_id (fst s)" by (simp add: s2_def dR dL)
  have "dl_session_id (fst s2) \<noteq> []" "\<forall>j \<ge> Suc i. theta_id gate j \<notin> dl_issued (fst s2) \<and> mask_id gate j \<notin> dl_issued (fst s2)"
    "\<forall>p \<in> set ps. 0 < p \<and> p < 2 ^ bits"
    using Cons.prems by (auto simp: s2_def dR dL)
  then obtain s' ks0 ks1 cs0 cs1 where C: "issue_predicates hmac bits m gate (Suc i) ps s2 = (s', Inr (ks0, ks1, cs0, cs1))"
    and len: "length ks0 = length ps" "length ks1 = length ps" "length cs0 = length ps" "length cs1 = length ps"
    and nm: "well_named (dl_session_id (fst s)) gate 0 (Suc i) ks0" "well_named (dl_session_id (fst s)) gate 1 (Suc i) ks1"
    and ok: "predicates_ok hmac bits m ps (ks0, ks1, cs0, cs1)"
    using Cons.IH [of s2 "Suc i"] unfolding sid by blast
  define c where "c = (fst (randbits 1 (snd sR)) = 1)"
  have run: "issue_predicates hmac bits m gate i (p # ps) s
      = (s', Inr ((l0, r0) # ks0, (l1, r1) # ks1, c # cs0, (c \<noteq> (2 ^ bits \<le> int m + p)) # cs1))"
    using L R C by (simp add: s2_def c_def case_prod_beta Let_def)
  have names: "well_named (dl_session_id (fst s)) gate 0 i ((l0, r0) # ks0)" "well_named (dl_session_id (fst s)) gate 1 i ((l1, r1) # ks1)"
    using nm issue_ok [OF L] issue_ok [OF R] by (auto simp: well_named_def key_mismatch_def dL)
  show ?case using run len names predicates_ok_Cons [OF L R p ok] by fastforce
qed

section \<open>Reachable issuers\<close>

inductive issuer_reach :: "hmac_fun \<Rightarrow> ScalarGateIssuer \<Rightarrow> bool" for hmac where
  fresh: "ScalarGateIssuer_init sid = Inr si \<Longrightarrow> issuer_reach hmac si"
| issued: "issuer_reach hmac si \<Longrightarrow> scalar_issue hmac spec gate (si, e) = Some ((si', e'), r) \<Longrightarrow> issuer_reach hmac si'"

definition issuer_ok :: "ScalarGateIssuer \<Rightarrow> bool" where
  "issuer_ok si \<longleftrightarrow> si_session_id si \<noteq> [] \<and> dl_session_id (si_dealer si) = si_session_id si
     \<and> dl_issued (si_dealer si) \<subseteq> (\<Union>g \<in> si_issued si. own_ids g)"

lemma issue_keeps_issuer:
  assumes ok: "issuer_ok si" and run: "scalar_issue hmac spec gate (si, e) = Some ((si', e'), r)"
  shows "issuer_ok si'"
proof -
  define D where "D = (\<lambda>m e. fst (fst (issue_predicates hmac (sp_bits spec) m gate 0 (sp_predicates spec) (si_dealer si, e))))"
  have D: "dl_session_id (D m e) = si_session_id si" "dl_issued (D m e) \<subseteq> dl_issued (si_dealer si) \<union> own_ids gate" for m e
    using issue_predicates_dealer [of hmac "sp_bits spec" m gate 0 "sp_predicates spec" "(si_dealer si, e)"] ok
    by (auto simp: D_def issuer_ok_def)
  have "si' = si \<or> si' = si\<lparr>si_issued := insert gate (si_issued si)\<rparr>
      \<or> (\<exists>m e. si' = si\<lparr>si_issued := insert gate (si_issued si), si_dealer := D m e\<rparr>)"
    using run unfolding scalar_issue_def D_def
    by (auto simp: Let_def onS_def case_prod_beta split: if_splits option.splits sum.splits)
  then show ?thesis using ok D by (fastforce simp: issuer_ok_def)
qed

lemma reach_ok: "issuer_reach hmac si \<Longrightarrow> issuer_ok si"
proof (induction rule: issuer_reach.induct)
  case (fresh sid si)
  then show ?case by (auto simp: ScalarGateIssuer_init_def PointKeyDealer_init_def issuer_ok_def res_simps)
qed (blast intro: issue_keeps_issuer)

section \<open>Correctness of a gate\<close>

lemma evaluate_fresh:
  "\<not> sg_consumed g \<Longrightarrow> 0 \<le> v \<Longrightarrow> v < 2 ^ sp_bits (sg_spec g) \<Longrightarrow>
   snd (scalar_evaluate hmac g v) = bindE (snd (eval_predicates hmac v (sg_keys g) (sg_carry_shares g))) (\<lambda>ps. Inr (sg_table g ! nat v, ps))"
  by (simp add: scalar_evaluate_def Let_def case_prod_beta)

lemma evaluate_once: "snd (scalar_evaluate hmac (fst (scalar_evaluate hmac g v)) w) = Inl (ScalarFssError ''scalar FSS gate already consumed'')"
  by (simp add: scalar_evaluate_def raiseS_def ScalarGateShare_cancel_def Let_def case_prod_beta)

lemma table_rows_ok:
  assumes spec: "mk_AffineScalarSpec bits bs cs ps = Inr spec"
  shows "\<exists>rows. mapE (table_row spec m) [0..<2 ^ sp_bits spec] = Inr rows \<and> length rows = 2 ^ sp_bits spec
    \<and> (\<forall>x. 0 \<le> x \<longrightarrow> x < 2 ^ sp_bits spec \<longrightarrow> (\<exists>i. interval_at spec x i
         \<and> rows ! nat ((x + int m) mod 2 ^ sp_bits spec) = (of_int (fst (cs ! i)), of_int (snd (cs ! i)))))"
proof -
  let ?M = "2 ^ sp_bits spec :: nat" and ?N = "2 ^ sp_bits spec :: int"
  have cs: "sp_coefficients spec = cs" using spec_fields [OF spec] by simp
  define iv where "iv = (\<lambda>x. THE i. first_interval 0 (tl (sp_boundaries spec)) x = Inr i)"
  have iv: "first_interval 0 (tl (sp_boundaries spec)) x = Inr (iv x) \<and> interval_at spec x (iv x)" if "0 \<le> x" "x < ?N" for x
    using interval_found [OF spec that] by (auto simp: iv_def)
  define row :: "nat \<Rightarrow> 64 word \<times> 64 word" where
    "row = (\<lambda>v. (of_int (fst (cs ! iv ((int v - int m) mod ?N))), of_int (snd (cs ! iv ((int v - int m) mod ?N)))))"
  have "mapE (table_row spec m) [0..<?M] = Inr (map row [0..<?M])"
    by (rule mapE_all_Inr) (simp add: table_row_def Let_def iv cs row_def)
  moreover have "\<exists>i. interval_at spec x i \<and> map row [0..<?M] ! nat ((x + int m) mod ?N) = (of_int (fst (cs ! i)), of_int (snd (cs ! i)))"
    if x: "0 \<le> x" "x < ?N" for x
  proof -
    have v: "nat ((x + int m) mod ?N) < ?M" by (simp add: nat_less_iff)
    have "((x + int m) mod ?N - int m) mod ?N = x mod ?N" by (simp add: mod_diff_left_eq)
    then have "((x + int m) mod ?N - int m) mod ?N = x" using x by simp
    then show ?thesis using v iv [OF x] by (intro exI [of _ "iv x"]) (simp add: row_def)
  qed
  ultimately show ?thesis by auto
qed

lemma scalar_issue_ok:
  assumes ok: "issuer_ok si" and spec: "mk_AffineScalarSpec bits bs cs ps = Inr spec" and gate: "gate \<noteq> []" "gate \<notin> si_issued si"
    and draw: "candidate (2 ^ sp_bits spec) e j < 2 ^ sp_bits spec"
  shows "\<exists>s' m share0 rows first ks0 ks1 cs0 cs1 g0 g1. scalar_issue hmac spec gate (si, e) = Some (s', Inr (g0, g1))
    \<and> g0 = \<lparr>sg_session_id = si_session_id si, sg_gate_id = gate, sg_party = 0, sg_spec = spec, sg_mask_share = share0, sg_table = first,
          sg_keys = ks0, sg_carry_shares = cs0, sg_consumed = False\<rparr>
    \<and> g1 = \<lparr>sg_session_id = si_session_id si, sg_gate_id = gate, sg_party = 1, sg_spec = spec, sg_mask_share = of_nat m - share0,
          sg_table = map2 (\<lambda>t f. (fst t - fst f, snd t - snd f)) rows first, sg_keys = ks1, sg_carry_shares = cs1, sg_consumed = False\<rparr>
    \<and> m < 2 ^ sp_bits spec \<and> mapE (table_row spec m) [0..<2 ^ sp_bits spec] = Inr rows \<and> length first = 2 ^ sp_bits spec
    \<and> predicates_ok hmac (sp_bits spec) m ps (ks0, ks1, cs0, cs1)"
proof -
  note f = spec_fields [OF spec]
  have sp: "sp_predicates spec = ps" "1 \<le> sp_bits spec" "sp_bits spec \<le> max_bits" using f by (auto simp: max_bits_def)
  obtain m e1 where m: "randbelow (2 ^ sp_bits spec) e = Some (m, e1)" "m < 2 ^ sp_bits spec"
    using randbelow_returns [OF draw] by blast
  obtain rows where rows: "mapE (table_row spec m) [0..<2 ^ sp_bits spec] = Inr rows" "length rows = 2 ^ sp_bits spec"
    using table_rows_ok [OF spec, of m] by blast
  define e2 where "e2 = snd (token_bytes 8 e1)"
  define tb where "tb = token_bytes (2 ^ sp_bits spec * 16) e2"
  define first where "first = reshape_pairs (frombuffer_u64 (fst tb))"
  have first: "length first = 2 ^ sp_bits spec"
    unfolding first_def by (intro length_reshape_pairs length_frombuffer_u64) (simp add: tb_def)
  have fresh: "theta_id gate j \<notin> dl_issued (si_dealer si)" "mask_id gate j \<notin> dl_issued (si_dealer si)" for j
    using ok gate(2) by (auto simp: issuer_ok_def own_ids_def)
  obtain s' ks0 ks1 cs0 cs1 where P: "issue_predicates hmac (sp_bits spec) m gate 0 ps (si_dealer si, snd tb) = (s', Inr (ks0, ks1, cs0, cs1))"
    and len: "length ks0 = length ps" "length ks1 = length ps" "length cs0 = length ps" "length cs1 = length ps"
    and nm: "well_named (si_session_id si) gate 0 0 ks0" "well_named (si_session_id si) gate 1 0 ks1"
    and pok: "predicates_ok hmac (sp_bits spec) m ps (ks0, ks1, cs0, cs1)"
    using issue_predicates_ok [of "sp_bits spec" m ps "(si_dealer si, snd tb)" 0 gate hmac] sp m(2) f(3,8) ok fresh
    by (auto simp: issuer_ok_def)
  have init: "ScalarGateShare_init (si_session_id si) gate p spec share table ks carries
      = Inr \<lparr>sg_session_id = si_session_id si, sg_gate_id = gate, sg_party = p, sg_spec = spec, sg_mask_share = share, sg_table = table,
          sg_keys = ks, sg_carry_shares = carries, sg_consumed = False\<rparr>"
    if "p \<in> {0, 1}" "length table = 2 ^ sp_bits spec" "length ks = length ps" "length carries = length ps" "well_named (si_session_id si) gate p 0 ks"
    for p share table ks carries
    using that ok gate sp by (simp add: ScalarGateShare_init_def well_named_def issuer_ok_def)
  show ?thesis
    using gate m rows P first init [of 0 first ks0 cs0] len nm pok
      init [of 1 "map2 (\<lambda>t f. (fst t - fst f, snd t - snd f)) rows first" ks1 cs1]
    unfolding scalar_issue_def e2_def [symmetric]
    by (simp add: Let_def case_prod_beta sp(1) flip: e2_def) (simp add: flip: tb_def first_def, blast)
qed


text \<open>
  C26: A scalar gate evaluates its specification on shares. Whatever gates were issued before, a fresh identity
  with a valid specification is issued on every entropy tape on which \<^verbatim>\<open>randbelow\<close> returns. The mask shares add
  up to a mask of the ring, and for every private value \<open>x\<close> the two parties, evaluating once at the public
  masked value, obtain shares of the affine coefficients of the one interval that holds \<open>x\<close> and bits that XOR to the comparison
  of \<open>x\<close> with every predicate threshold. A second evaluation of a share is refused.
\<close>

theorem scalar_gate_correct:
  assumes "issuer_reach hmac si" and "mk_AffineScalarSpec bits bs cs ps = Inr spec" and "gate \<noteq> []" and "gate \<notin> si_issued si"
    and "candidate (2 ^ nat bits) e j < 2 ^ nat bits"
  shows "\<exists>s' g0 g1 m. scalar_issue hmac spec gate (si, e) = Some (s', Inr (g0, g1))
    \<and> sg_mask_share g0 + sg_mask_share g1 = of_nat m \<and> m < 2 ^ nat bits
    \<and> (\<forall>x. 0 \<le> x \<longrightarrow> x < 2 ^ nat bits \<longrightarrow> (\<exists>a0 b0 p0 a1 b1 p1 i.
         snd (scalar_evaluate hmac g0 ((x + int m) mod 2 ^ nat bits)) = Inr ((a0, b0), p0)
         \<and> snd (scalar_evaluate hmac g1 ((x + int m) mod 2 ^ nat bits)) = Inr ((a1, b1), p1)
         \<and> interval_at spec x i \<and> a0 + a1 = of_int (fst (cs ! i)) \<and> b0 + b1 = of_int (snd (cs ! i))
         \<and> length p0 = length ps \<and> length p1 = length ps \<and> map2 (\<noteq>) p0 p1 = map (\<lambda>p. x < p) ps))
    \<and> (\<forall>v w. snd (scalar_evaluate hmac (fst (scalar_evaluate hmac g0 v)) w) = Inl (ScalarFssError ''scalar FSS gate already consumed'')
         \<and> snd (scalar_evaluate hmac (fst (scalar_evaluate hmac g1 v)) w) = Inl (ScalarFssError ''scalar FSS gate already consumed''))"
proof -
  have b: "sp_bits spec = nat bits" using spec_fields [OF assms(2)] by simp
  let ?M = "2 ^ nat bits :: int"
  obtain s' m share0 rows first ks0 ks1 cs0 cs1 g0 g1 where run: "scalar_issue hmac spec gate (si, e) = Some (s', Inr (g0, g1))"
    and g0: "g0 = \<lparr>sg_session_id = si_session_id si, sg_gate_id = gate, sg_party = 0, sg_spec = spec, sg_mask_share = share0, sg_table = first,
          sg_keys = ks0, sg_carry_shares = cs0, sg_consumed = False\<rparr>"
    and g1: "g1 = \<lparr>sg_session_id = si_session_id si, sg_gate_id = gate, sg_party = 1, sg_spec = spec, sg_mask_share = of_nat m - share0,
          sg_table = map2 (\<lambda>t f. (fst t - fst f, snd t - snd f)) rows first, sg_keys = ks1, sg_carry_shares = cs1, sg_consumed = False\<rparr>"
    and m: "m < 2 ^ nat bits" and rows: "mapE (table_row spec m) [0..<2 ^ nat bits] = Inr rows" and first: "length first = 2 ^ nat bits"
    and pok: "predicates_ok hmac (nat bits) m ps (ks0, ks1, cs0, cs1)"
    using scalar_issue_ok [OF reach_ok [OF assms(1)] assms(2-4) assms(5) [folded b], of hmac] unfolding b by blast
  have tab: "length rows = 2 ^ nat bits" "\<And>x. 0 \<le> x \<Longrightarrow> x < ?M \<Longrightarrow> \<exists>i. interval_at spec x i
      \<and> rows ! nat ((x + int m) mod ?M) = (of_int (fst (cs ! i)), of_int (snd (cs ! i)))"
    using table_rows_ok [OF assms(2), of m] rows unfolding b by auto
  have "\<exists>a0 b0 p0 a1 b1 p1 i. snd (scalar_evaluate hmac g0 ((x + int m) mod ?M)) = Inr ((a0, b0), p0)
      \<and> snd (scalar_evaluate hmac g1 ((x + int m) mod ?M)) = Inr ((a1, b1), p1)
      \<and> interval_at spec x i \<and> a0 + a1 = of_int (fst (cs ! i)) \<and> b0 + b1 = of_int (snd (cs ! i))
      \<and> length p0 = length ps \<and> length p1 = length ps \<and> map2 (\<noteq>) p0 p1 = map (\<lambda>p. x < p) ps"
    if x: "0 \<le> x" "x < ?M" for x
  proof -
    define v where "v = (x + int m) mod ?M"
    have v: "0 \<le> v" "v < ?M" "nat v < 2 ^ nat bits" by (simp_all add: v_def nat_less_iff)
    obtain i where i: "interval_at spec x i" "rows ! nat v = (of_int (fst (cs ! i)), of_int (snd (cs ! i)))"
      using tab(2) [OF x] unfolding v_def by blast
    obtain p0 p1 where p: "snd (eval_predicates hmac v ks0 cs0) = Inr p0" "snd (eval_predicates hmac v ks1 cs1) = Inr p1"
      "length p0 = length ps" "length p1 = length ps" "map2 (\<noteq>) p0 p1 = map (\<lambda>p. x < p) ps"
      using pok x unfolding predicates_ok_def prod.case v_def by blast
    have e0: "snd (scalar_evaluate hmac g0 v) = Inr ((fst (first ! nat v), snd (first ! nat v)), p0)"
      using evaluate_fresh [of g0 v hmac] v p by (simp add: g0 b)
    have e1: "snd (scalar_evaluate hmac g1 v) = Inr ((of_int (fst (cs ! i)) - fst (first ! nat v), of_int (snd (cs ! i)) - snd (first ! nat v)), p1)"
      using evaluate_fresh [of g1 v hmac] v p i first tab(1) by (simp add: g1 b)
    show ?thesis unfolding v_def [symmetric] using e0 e1 i p(3-5) by (metis add_diff_cancel_left' diff_add_cancel add.commute)
  qed
  moreover have "sg_mask_share g0 + sg_mask_share g1 = of_nat m" by (simp add: g0 g1)
  ultimately show ?thesis using run m evaluate_once by blast
qed

theorem scalar_gate_correct_witness:
  "\<exists>si spec s' g0 g1 v a0 b0 p0 a1 b1 p1. ScalarGateIssuer_init ''s'' = Inr si \<and> mk_AffineScalarSpec 2 [0, 1, 4] [(5, 6), (7, 8)] [2] = Inr spec
     \<and> scalar_issue demo_hmac spec ''g'' (si, \<lambda>_. 0) = Some (s', Inr (g0, g1))
     \<and> snd (scalar_evaluate demo_hmac g0 v) = Inr ((a0, b0), p0) \<and> snd (scalar_evaluate demo_hmac g1 v) = Inr ((a1, b1), p1)
     \<and> a0 + a1 = 7 \<and> b0 + b1 = 8 \<and> map2 (\<noteq>) p0 p1 = [False]"
proof -
  obtain si where si: "ScalarGateIssuer_init ''s'' = Inr si" "si_issued si = {}"
    by (simp add: ScalarGateIssuer_init_def PointKeyDealer_init_def)
  obtain spec where spec: "mk_AffineScalarSpec 2 [0, 1, 4] [(5, 6), (7, 8)] [2] = Inr spec"
    "sp_boundaries spec = [0, 1, 4]" "sp_coefficients spec = [(5, 6), (7, 8)]"
    by (simp add: mk_AffineScalarSpec_def uint64_pair_def)
  have c: "candidate (2 ^ nat 2) (\<lambda>_. 0) 0 < 2 ^ nat 2"
    by (simp add: candidate_def randbits_def token_bytes_def be_nat_def Let_def bit_length.simps)
  from scalar_gate_correct [OF issuer_reach.fresh [OF si(1)] spec(1) _ _ c, of "''g''" demo_hmac] si(2)
  obtain s' g0 g1 m where run: "scalar_issue demo_hmac spec ''g'' (si, \<lambda>_. 0) = Some (s', Inr (g0, g1))"
    and ev: "\<forall>x. 0 \<le> x \<longrightarrow> x < 2 ^ nat 2 \<longrightarrow> (\<exists>a0 b0 p0 a1 b1 p1 i.
         snd (scalar_evaluate demo_hmac g0 ((x + int m) mod 2 ^ nat 2)) = Inr ((a0, b0), p0)
         \<and> snd (scalar_evaluate demo_hmac g1 ((x + int m) mod 2 ^ nat 2)) = Inr ((a1, b1), p1)
         \<and> interval_at spec x i \<and> a0 + a1 = of_int (fst ([(5, 6), (7, 8)] ! i :: int \<times> int)) \<and> b0 + b1 = of_int (snd ([(5, 6), (7, 8)] ! i :: int \<times> int))
         \<and> length p0 = length [2 :: int] \<and> length p1 = length [2 :: int] \<and> map2 (\<noteq>) p0 p1 = map (\<lambda>p. x < p) [2])"
    by auto
  have i: "i = 1" if "interval_at spec 3 i" for i
    using that spec(2,3) by (auto simp: interval_at_def less_Suc_eq numeral_2_eq_2)
  show ?thesis using si(1) spec(1) run ev [rule_format, of 3] i by fastforce
qed

lemma randbelow_only: "randbelow n e = Some y \<Longrightarrow> \<exists>j. candidate n e j < n"
proof (erule randbelow.raw_induct [rotated])
  fix f n e y
  assume IH: "\<And>n e y. f n e = Some y \<Longrightarrow> \<exists>j. candidate n e j < n"
    and run: "(let (r, e') = randbits (bit_length n) e in if r < n then Some (r, e') else f n e') = Some y"
  show "\<exists>j. candidate n e j < n"
  proof (cases "fst (randbits (bit_length n) e) < n")
    case True
    then show ?thesis by (intro exI [of _ 0]) (simp add: candidate_def)
  next
    case False
    then have "f n (snd (randbits (bit_length n) e)) = Some y" using run by (simp add: case_prod_beta)
    then show ?thesis using IH candidate_Suc by metis
  qed
qed

text \<open>
  C39: The issuer returns exactly when its random source lets it. A call with an identity that is empty or taken returns
  at once with the error; any other call returns if and only if some draw of \<^verbatim>\<open>secrets.randbelow\<close> is below the size of the ring, and
  loops without end on every other tape.
\<close>

theorem scalar_issue_terminates:
  "scalar_issue hmac spec gate (si, e) \<noteq> None \<longleftrightarrow>
     gate = [] \<or> gate \<in> si_issued si \<or> (\<exists>j. candidate (2 ^ sp_bits spec) e j < 2 ^ sp_bits spec)"
proof (cases "gate = [] \<or> gate \<in> si_issued si")
  case True
  then show ?thesis by (auto simp: scalar_issue_def)
next
  case False
  have "scalar_issue hmac spec gate (si, e) \<noteq> None \<longleftrightarrow> randbelow (2 ^ sp_bits spec) e \<noteq> None"
    using False by (cases "randbelow (2 ^ sp_bits spec) e") (auto simp: scalar_issue_def Let_def case_prod_beta simp del: not_None_eq)
  also have "\<dots> \<longleftrightarrow> (\<exists>j. candidate (2 ^ sp_bits spec) e j < 2 ^ sp_bits spec)"
    using randbelow_only randbelow_returns by blast
  finally show ?thesis using False by simp
qed

end
