(* ===== verification/Authenticated_MPC.thy ===== *)
theory Authenticated_MPC
  imports Ring_Tensor
begin

text \<open>
  The authenticated arithmetic of \<^verbatim>\<open>runtime/authenticated_mpc.py\<close>: values shared between client and server together with shares
  of their product with a secret key, the trusted preprocessor that issues masks, correlations and triples, and the runtime's operations on
  them. Arrays are \<^verbatim>\<open>int64\<close>, so every sum and product wraps at 64 bits before its residue is taken. The pure index operations
  \<^verbatim>\<open>transpose\<close>, \<^verbatim>\<open>take\<close> and \<^verbatim>\<open>concatenate\<close> are left out.
\<close>

section \<open>Signed 64-bit arrays\<close>

text \<open>
  An \<^verbatim>\<open>int64\<close> array holds words; sums and products wrap, and \<open>%\<close> reads the word as a signed number and returns the
  residue in \<open>[0, p)\<close>, as Python's does.
\<close>

type_synonym s64array = "64 word ndarray"

definition smod :: "int \<Rightarrow> 64 word \<Rightarrow> 64 word" where
  "smod p x = of_int (sint x mod p)"

text \<open>Element-wise arithmetic with NumPy's broadcasting of both operands.\<close>

definition bdim :: "nat \<Rightarrow> nat \<Rightarrow> nat res" where
  "bdim s t = (if s = t \<or> t = 1 then Inr s else if s = 1 then Inr t
     else Inl (ValueError ''operands could not be broadcast together''))"

definition bshape :: "nat list \<Rightarrow> nat list \<Rightarrow> nat list res" where
  "bshape s t = (let n = max (length s) (length t);
       pad = (\<lambda>u. replicate (n - length u) 1 @ u)
     in mapE (\<lambda>(a, b). bdim a b) (zip (pad s) (pad t)))"

definition bmap2 :: "('a \<Rightarrow> 'b \<Rightarrow> 'c) \<Rightarrow> 'a ndarray \<Rightarrow> 'b ndarray \<Rightarrow> 'c ndarray res" where
  "bmap2 f a b =
     bindE (bshape (nd_shape a) (nd_shape b)) (\<lambda>s.
     bindE (nd_broadcast_to a s) (\<lambda>a.
     bindE (nd_broadcast_to b s) (\<lambda>b. Inr (nd_map2 f a b))))"

section \<open>Shares\<close>

record MPCStats =
  ms_opened_values :: nat
  ms_uploaded_bytes :: nat
  ms_downloaded_bytes :: nat
  ms_opening_rounds :: nat
  ms_multiplication_rounds :: nat
  ms_linear_rounds :: nat

record PartyShare =
  sh_value :: s64array
  sh_mac :: s64array

record AuthenticatedValue =
  av_client :: PartyShare
  av_server :: PartyShare
  av_modulus :: int

definition av_shape :: "AuthenticatedValue \<Rightarrow> nat list" where
  "av_shape v = nd_shape (sh_value (av_client v))"

definition av_size :: "AuthenticatedValue \<Rightarrow> nat" where
  "av_size v = prod_list (nd_shape (sh_value (av_client v)))"

definition tamper_client :: "AuthenticatedValue \<Rightarrow> s64array \<Rightarrow> s64array \<Rightarrow> AuthenticatedValue res" where
  "tamper_client v value_delta mac_delta =
     (let p = av_modulus v in
      bindE (bmap2 (\<lambda>x d. smod p (x + d)) (sh_value (av_client v)) value_delta) (\<lambda>value.
      bindE (bmap2 (\<lambda>x d. smod p (x + d)) (sh_mac (av_client v)) mac_delta) (\<lambda>mac.
      Inr \<lparr>av_client = \<lparr>sh_value = value, sh_mac = mac\<rparr>, av_server = av_server v, av_modulus = p\<rparr>)))"

record InputMask =
  im_clear_mask :: s64array
  im_shared_mask :: AuthenticatedValue

record LinearCorrelation =
  lc_random_input :: AuthenticatedValue
  lc_transformed_input :: AuthenticatedValue
  lc_input_shape :: "nat list"
  lc_output_shape :: "nat list"

record MultiplicationTriple =
  mt_a :: AuthenticatedValue
  mt_b :: AuthenticatedValue
  mt_c :: AuthenticatedValue

record BitDecompositionMask =
  bm_random_value :: AuthenticatedValue
  bm_random_bits :: AuthenticatedValue
  bm_bit_width :: nat

section \<open>The preprocessor\<close>

text \<open>
  NumPy's generator is a parameter of the preprocessor: the sequence of numbers that \<^verbatim>\<open>rng.integers(0, modulus)\<close> draws.
\<close>

record TrustedPreprocessor =
  tp_modulus :: int
  tp_alpha :: int
  tp_rng :: "nat \<Rightarrow> int"

definition TrustedPreprocessor_init :: "int \<Rightarrow> int \<Rightarrow> (nat \<Rightarrow> int) \<Rightarrow> TrustedPreprocessor res" where
  "TrustedPreprocessor_init modulus alpha rng =
     raise_if (modulus \<le> 2) (ValueError ''modulus must be an odd prime larger than two'')
    (raise_if (\<not> (0 < alpha \<and> alpha < modulus)) (ValueError ''alpha must be nonzero in the field'')
    (Inr \<lparr>tp_modulus = modulus, tp_alpha = alpha, tp_rng = rng\<rparr>))"

definition pre_random :: "TrustedPreprocessor \<Rightarrow> nat list \<Rightarrow> TrustedPreprocessor \<times> s64array" where
  "pre_random t shape = (let n = prod_list shape in
     (t\<lparr>tp_rng := (\<lambda>i. tp_rng t (i + n))\<rparr>, \<lparr>nd_shape = shape, nd_data = map (\<lambda>i. of_int (tp_rng t i)) [0..<n]\<rparr>))"

definition pre_share :: "TrustedPreprocessor \<Rightarrow> s64array \<Rightarrow> TrustedPreprocessor \<times> AuthenticatedValue" where
  "pre_share t clear =
     (let p = tp_modulus t;
          val = nd_map (smod p) clear;
          (t, client_value) = pre_random t (nd_shape val);
          server_value = nd_map2 (\<lambda>v c. smod p (v - c)) val client_value;
          (t, client_mac) = pre_random t (nd_shape val);
          server_mac = nd_map2 (\<lambda>v c. smod p (of_int (tp_alpha t) * v - c)) val client_mac
      in (t, \<lparr>av_client = \<lparr>sh_value = client_value, sh_mac = client_mac\<rparr>,
              av_server = \<lparr>sh_value = server_value, sh_mac = server_mac\<rparr>, av_modulus = p\<rparr>))"

definition pre_input_mask :: "TrustedPreprocessor \<Rightarrow> nat list \<Rightarrow> TrustedPreprocessor \<times> InputMask" where
  "pre_input_mask t shape =
     (let (t, clear) = pre_random t shape; (t, shared) = pre_share t clear
      in (t, \<lparr>im_clear_mask = clear, im_shared_mask = shared\<rparr>))"

definition matmul_last :: "s64array \<Rightarrow> s64array \<Rightarrow> int \<Rightarrow> s64array res" where
  "matmul_last x w p =
     raise_if (last (nd_shape x) \<noteq> nd_shape w ! 1) (MPCShapeError ''matrix multiplication width mismatch'')
       (Inr (nd_map (smod p) (nd_matmul_t x w)))"

definition pre_linear_correlation :: "TrustedPreprocessor \<Rightarrow> s64array \<Rightarrow> nat list \<Rightarrow> TrustedPreprocessor \<times> LinearCorrelation res" where
  "pre_linear_correlation t weight shape =
     (let weight_mod = nd_map (smod (tp_modulus t)) weight in
      raiseS (length (nd_shape weight_mod) \<noteq> 2) (MPCShapeError ''weight must be a matrix'') t
     (raiseS (shape = [] \<or> last shape \<noteq> nd_shape weight_mod ! 1) (MPCShapeError ''linear correlation input width mismatch'') t
     (let (t, random_input) = pre_random t shape in
      onS (matmul_last random_input weight_mod (tp_modulus t)) t (\<lambda>transformed.
      let (t, shared_input) = pre_share t random_input; (t, shared_output) = pre_share t transformed in
      (t, Inr \<lparr>lc_random_input = shared_input, lc_transformed_input = shared_output, lc_input_shape = shape,
               lc_output_shape = nd_shape transformed\<rparr>)))))"

definition pre_multiplication_triple :: "TrustedPreprocessor \<Rightarrow> nat list \<Rightarrow> TrustedPreprocessor \<times> MultiplicationTriple" where
  "pre_multiplication_triple t shape =
     (let (t, a) = pre_random t shape;
          (t, b) = pre_random t shape;
          c = nd_map2 (\<lambda>x y. smod (tp_modulus t) (x * y)) a b;
          (t, sa) = pre_share t a; (t, sb) = pre_share t b; (t, sc) = pre_share t c
      in (t, \<lparr>mt_a = sa, mt_b = sb, mt_c = sc\<rparr>))"

text \<open>\<^verbatim>\<open>bit_width or modulus.bit_length()\<close>: a width of zero falls back as a missing one does.\<close>

definition pre_bit_mask :: "TrustedPreprocessor \<Rightarrow> nat list \<Rightarrow> nat \<Rightarrow> TrustedPreprocessor \<times> BitDecompositionMask res" where
  "pre_bit_mask t shape bit_width =
     (let width = (if bit_width = 0 then bit_length (nat (tp_modulus t)) else bit_width) in
      raiseS (2 ^ width \<le> tp_modulus t) (ValueError ''bit width must represent every field element'') t
     (let (t, random_value) = pre_random t shape;
          bits = \<lparr>nd_shape = shape @ [width],
                  nd_data = concat (map (\<lambda>x. map (\<lambda>k. of_bool (bit x k)) [0..<width]) (nd_data random_value))\<rparr>;
          (t, sv) = pre_share t random_value; (t, sb) = pre_share t bits
      in (t, Inr \<lparr>bm_random_value = sv, bm_random_bits = sb, bm_bit_width = width\<rparr>)))"

section \<open>The arithmetic runtime\<close>

record AuthenticatedMPC =
  am_modulus :: int
  am_alpha :: int
  am_stats :: MPCStats

definition AuthenticatedMPC_init :: "TrustedPreprocessor \<Rightarrow> AuthenticatedMPC" where
  "AuthenticatedMPC_init t = \<lparr>am_modulus = tp_modulus t, am_alpha = tp_alpha t,
     am_stats = \<lparr>ms_opened_values = 0, ms_uploaded_bytes = 0, ms_downloaded_bytes = 0, ms_opening_rounds = 0,
                 ms_multiplication_rounds = 0, ms_linear_rounds = 0\<rparr>\<rparr>"

fun check_compatible :: "AuthenticatedMPC \<Rightarrow> AuthenticatedValue list \<Rightarrow> nat list \<Rightarrow> unit res" where
  "check_compatible m [] shape = Inr ()"
| "check_compatible m (v # vs) shape =
     raise_if (av_modulus v \<noteq> am_modulus m) (MPCShapeError ''field mismatch'')
    (raise_if (av_shape v \<noteq> shape) (MPCShapeError ''share shape mismatch'') (check_compatible m vs shape))"

definition compatible :: "AuthenticatedMPC \<Rightarrow> AuthenticatedValue list \<Rightarrow> unit res" where
  "compatible m vs = (if vs = [] then Inr () else check_compatible m vs (av_shape (hd vs)))"

definition open_without_stats :: "AuthenticatedMPC \<Rightarrow> AuthenticatedValue \<Rightarrow> s64array res" where
  "open_without_stats m v =
     (let p = am_modulus m in
      bindE (compatible m [v]) (\<lambda>_.
      bindE (bmap2 (\<lambda>a b. smod p (a + b)) (sh_value (av_client v)) (sh_value (av_server v))) (\<lambda>clear.
      bindE (bmap2 (\<lambda>a b. smod p (a + b)) (sh_mac (av_client v)) (sh_mac (av_server v))) (\<lambda>mac.
      let expected = nd_map (\<lambda>x. smod p (of_int (am_alpha m) * x)) clear in
      raise_if (mac \<noteq> expected) (AuthenticationError ''authenticated share check failed'') (Inr clear)))))"

definition open_many :: "AuthenticatedMPC \<Rightarrow> AuthenticatedValue list \<Rightarrow> bool \<Rightarrow> bool \<Rightarrow> AuthenticatedMPC \<times> s64array list res" where
  "open_many m vs to_client count_round =
     onS (mapE (open_without_stats m) vs) m (\<lambda>clear_values.
     let count = sum_list (map av_size vs); st = am_stats m in
     (m\<lparr>am_stats := st\<lparr>ms_opened_values := ms_opened_values st + count,
          ms_uploaded_bytes := ms_uploaded_bytes st + count * 16,
          ms_downloaded_bytes := (if to_client then ms_downloaded_bytes st + count * 8 else ms_downloaded_bytes st),
          ms_opening_rounds := (if vs \<noteq> [] \<and> count_round then ms_opening_rounds st + 1 else ms_opening_rounds st)\<rparr>\<rparr>,
      Inr clear_values))"

definition mpc_open :: "AuthenticatedMPC \<Rightarrow> AuthenticatedValue \<Rightarrow> bool \<Rightarrow> AuthenticatedMPC \<times> s64array res" where
  "mpc_open m v to_client = bindS (open_many m [v] to_client True) (\<lambda>m vs. (m, Inr (vs ! 0)))"

definition mpc_input :: "AuthenticatedMPC \<Rightarrow> s64array \<Rightarrow> InputMask \<Rightarrow> AuthenticatedMPC \<times> AuthenticatedValue res" where
  "mpc_input m clear msk =
     (let p = am_modulus m; val = nd_map (smod p) clear in
      raiseS (nd_shape val \<noteq> nd_shape (im_clear_mask msk)) (MPCShapeError ''input mask shape mismatch'') m
     (let epsilon = nd_map2 (\<lambda>v c. smod p (v - c)) val (im_clear_mask msk);
          shared = im_shared_mask msk in
      onS (bmap2 (\<lambda>v e. smod p (v + e)) (sh_value (av_server shared)) epsilon) m (\<lambda>value.
      onS (bmap2 (\<lambda>v e. smod p (v + of_int (am_alpha m) * e)) (sh_mac (av_server shared)) epsilon) m (\<lambda>mac.
      (m\<lparr>am_stats := (am_stats m)\<lparr>ms_uploaded_bytes := ms_uploaded_bytes (am_stats m) + nd_size epsilon * 8\<rparr>\<rparr>,
       Inr \<lparr>av_client = av_client shared, av_server = \<lparr>sh_value = value, sh_mac = mac\<rparr>, av_modulus = p\<rparr>)))))"

definition public_value :: "AuthenticatedMPC \<Rightarrow> s64array \<Rightarrow> nat list option \<Rightarrow> AuthenticatedValue res" where
  "public_value m clear shape =
     bindE (case shape of None \<Rightarrow> Inr clear | Some s \<Rightarrow> nd_broadcast_to clear s) (\<lambda>v.
     let v = nd_map (smod (am_modulus m)) v; zeros = nd_map (\<lambda>_. 0) v in
     Inr \<lparr>av_client = \<lparr>sh_value = zeros, sh_mac = zeros\<rparr>,
          av_server = \<lparr>sh_value = v, sh_mac = nd_map (\<lambda>x. smod (am_modulus m) (of_int (am_alpha m) * x)) v\<rparr>, av_modulus = am_modulus m\<rparr>)"

text \<open>Both shares and both authentication shares of a local operation are computed by one array expression.\<close>

definition on_arrays2 :: "(s64array \<Rightarrow> s64array \<Rightarrow> s64array res) \<Rightarrow> int \<Rightarrow> AuthenticatedValue \<Rightarrow> AuthenticatedValue \<Rightarrow> AuthenticatedValue res" where
  "on_arrays2 f p x y =
     bindE (f (sh_value (av_client x)) (sh_value (av_client y))) (\<lambda>cv.
     bindE (f (sh_mac (av_client x)) (sh_mac (av_client y))) (\<lambda>cm.
     bindE (f (sh_value (av_server x)) (sh_value (av_server y))) (\<lambda>sv.
     bindE (f (sh_mac (av_server x)) (sh_mac (av_server y))) (\<lambda>sm.
     Inr \<lparr>av_client = \<lparr>sh_value = cv, sh_mac = cm\<rparr>, av_server = \<lparr>sh_value = sv, sh_mac = sm\<rparr>, av_modulus = p\<rparr>))))"

definition on_arrays :: "(s64array \<Rightarrow> s64array res) \<Rightarrow> int \<Rightarrow> AuthenticatedValue \<Rightarrow> AuthenticatedValue res" where
  "on_arrays f p x = on_arrays2 (\<lambda>a _. f a) p x x"

definition mpc_add :: "AuthenticatedMPC \<Rightarrow> AuthenticatedValue \<Rightarrow> AuthenticatedValue \<Rightarrow> AuthenticatedValue res" where
  "mpc_add m x y = bindE (compatible m [x, y]) (\<lambda>_. on_arrays2 (bmap2 (\<lambda>a b. smod (am_modulus m) (a + b))) (am_modulus m) x y)"

definition mpc_sub :: "AuthenticatedMPC \<Rightarrow> AuthenticatedValue \<Rightarrow> AuthenticatedValue \<Rightarrow> AuthenticatedValue res" where
  "mpc_sub m x y = bindE (compatible m [x, y]) (\<lambda>_. on_arrays2 (bmap2 (\<lambda>a b. smod (am_modulus m) (a - b))) (am_modulus m) x y)"

definition mpc_add_public :: "AuthenticatedMPC \<Rightarrow> AuthenticatedValue \<Rightarrow> s64array \<Rightarrow> AuthenticatedValue res" where
  "mpc_add_public m x clear =
     (let p = am_modulus m; public = nd_map (smod p) clear in
      bindE (bmap2 (\<lambda>a c. smod p (a + c)) (sh_value (av_server x)) public) (\<lambda>sv.
      bindE (bmap2 (\<lambda>a c. smod p (a + of_int (am_alpha m) * c)) (sh_mac (av_server x)) public) (\<lambda>sm.
      Inr \<lparr>av_client = av_client x, av_server = \<lparr>sh_value = sv, sh_mac = sm\<rparr>, av_modulus = p\<rparr>)))"

definition mpc_mul_public :: "AuthenticatedMPC \<Rightarrow> AuthenticatedValue \<Rightarrow> s64array \<Rightarrow> AuthenticatedValue res" where
  "mpc_mul_public m x clear =
     (let p = am_modulus m; public = nd_map (smod p) clear in on_arrays (\<lambda>a. bmap2 (\<lambda>a c. smod p (a * c)) a public) p x)"

definition nd_reshape :: "nat list \<Rightarrow> 'a ndarray \<Rightarrow> 'a ndarray res" where
  "nd_reshape target a =
     raise_if (prod_list target \<noteq> nd_size a) (ValueError ''cannot reshape array'') (Inr \<lparr>nd_shape = target, nd_data = nd_data a\<rparr>)"

definition mpc_reshape :: "AuthenticatedValue \<Rightarrow> nat list \<Rightarrow> AuthenticatedValue res" where
  "mpc_reshape x target = on_arrays (nd_reshape target) (av_modulus x) x"

definition mpc_broadcast_to :: "AuthenticatedValue \<Rightarrow> nat list \<Rightarrow> AuthenticatedValue res" where
  "mpc_broadcast_to x target = on_arrays (\<lambda>a. nd_broadcast_to a target) (av_modulus x) x"

definition mpc_sum :: "AuthenticatedMPC \<Rightarrow> AuthenticatedValue \<Rightarrow> int \<Rightarrow> bool \<Rightarrow> AuthenticatedValue res" where
  "mpc_sum m x axis keepdims =
     on_arrays (\<lambda>a. bindE (nd_sum a axis keepdims) (\<lambda>b. Inr (nd_map (smod (am_modulus m)) b))) (am_modulus m) x"

definition mpc_linear_public :: "AuthenticatedMPC \<Rightarrow> AuthenticatedValue \<Rightarrow> s64array \<Rightarrow> AuthenticatedValue res" where
  "mpc_linear_public m x weight =
     (let p = am_modulus m; weight_mod = nd_map (smod p) weight in
      raise_if (length (nd_shape weight_mod) \<noteq> 2 \<or> nd_shape weight_mod ! 1 \<noteq> last (av_shape x)) (MPCShapeError ''public linear weight width mismatch'')
        (on_arrays (\<lambda>a. matmul_last a weight_mod p) p x))"

section \<open>Linear layers and multiplication\<close>

fun linear_differences ::
  "AuthenticatedMPC \<Rightarrow> (AuthenticatedValue \<times> s64array \<times> LinearCorrelation) list \<Rightarrow> (AuthenticatedValue list \<times> s64array list) res" where
  "linear_differences m [] = Inr ([], [])"
| "linear_differences m ((x, weight, corr) # rest) =
     raise_if (av_shape x \<noteq> lc_input_shape corr) (MPCShapeError ''linear input and correlation shape mismatch'')
     (let weight_mod = nd_map (smod (am_modulus m)) weight in
      raise_if (length (nd_shape weight_mod) \<noteq> 2 \<or> nd_shape weight_mod ! 1 \<noteq> last (av_shape x)) (MPCShapeError ''linear weight width mismatch'')
     (bindE (mpc_sub m x (lc_random_input corr)) (\<lambda>difference.
      bindE (linear_differences m rest) (\<lambda>(ds, ws). Inr (difference # ds, weight_mod # ws)))))"

definition linear_output :: "AuthenticatedMPC \<Rightarrow> s64array \<times> s64array \<times> LinearCorrelation \<Rightarrow> AuthenticatedValue res" where
  "linear_output m t = (case t of (clear_difference, weight_mod, corr) \<Rightarrow>
     (let p = am_modulus m; base = lc_transformed_input corr in
      bindE (matmul_last clear_difference weight_mod p) (\<lambda>transformed.
      bindE (bmap2 (\<lambda>b t. smod p (b + t)) (sh_value (av_server base)) transformed) (\<lambda>value.
      bindE (bmap2 (\<lambda>b t. smod p (b + of_int (am_alpha m) * t)) (sh_mac (av_server base)) transformed) (\<lambda>mac.
      Inr \<lparr>av_client = av_client base, av_server = \<lparr>sh_value = value, sh_mac = mac\<rparr>, av_modulus = p\<rparr>)))))"

definition count_linear :: "bool \<Rightarrow> AuthenticatedMPC \<Rightarrow> AuthenticatedMPC" where
  "count_linear b m = (if b then m\<lparr>am_stats := (am_stats m)\<lparr>ms_linear_rounds := ms_linear_rounds (am_stats m) + 1\<rparr>\<rparr> else m)"

definition linear_many ::
  "AuthenticatedMPC \<Rightarrow> AuthenticatedValue list \<Rightarrow> s64array list \<Rightarrow> LinearCorrelation list \<Rightarrow> AuthenticatedMPC \<times> AuthenticatedValue list res" where
  "linear_many m xs weights corrs =
     raiseS (\<not> (length xs = length weights \<and> length weights = length corrs)) (ValueError ''linear input lists must have the same length'') m
    (onS (linear_differences m (zip xs (zip weights corrs))) m (\<lambda>(differences, weight_mods).
     bindS (open_many m differences False True) (\<lambda>m opened.
     onS (mapE (linear_output m) (zip opened (zip weight_mods corrs))) m (\<lambda>outputs.
     (count_linear (xs \<noteq> []) m, Inr outputs)))))"

definition mpc_linear ::
  "AuthenticatedMPC \<Rightarrow> AuthenticatedValue \<Rightarrow> s64array \<Rightarrow> LinearCorrelation \<Rightarrow> AuthenticatedMPC \<times> AuthenticatedValue res" where
  "mpc_linear m x weight corr = bindS (linear_many m [x] [weight] [corr]) (\<lambda>m outs. (m, Inr (outs ! 0)))"

fun multiply_differences ::
  "AuthenticatedMPC \<Rightarrow> (AuthenticatedValue \<times> AuthenticatedValue \<times> MultiplicationTriple) list \<Rightarrow> AuthenticatedValue list res" where
  "multiply_differences m [] = Inr []"
| "multiply_differences m ((x, y, t) # rest) =
     bindE (compatible m [x, y, mt_a t, mt_b t, mt_c t]) (\<lambda>_.
     bindE (mpc_sub m x (mt_a t)) (\<lambda>d.
     bindE (mpc_sub m y (mt_b t)) (\<lambda>e.
     bindE (multiply_differences m rest) (\<lambda>ds. Inr (d # e # ds)))))"

text \<open>The share \<open>c + d * b + e * a\<close>, with the public term added to the server's share only.\<close>

definition beaver :: "int \<Rightarrow> s64array \<Rightarrow> s64array \<Rightarrow> s64array \<Rightarrow> s64array \<Rightarrow> s64array \<Rightarrow> s64array option \<Rightarrow> s64array res" where
  "beaver p c d b e a term =
     bindE (bmap2 (*) d b) (\<lambda>db.
     bindE (bmap2 (+) c db) (\<lambda>s.
     bindE (bmap2 (*) e a) (\<lambda>ea.
     bindE (bmap2 (+) s ea) (\<lambda>s.
     bindE (case term of None \<Rightarrow> Inr s | Some de \<Rightarrow> bmap2 (+) s de) (\<lambda>s.
     Inr (nd_map (smod p) s))))))"

definition multiply_output :: "AuthenticatedMPC \<Rightarrow> s64array \<Rightarrow> s64array \<Rightarrow> MultiplicationTriple \<Rightarrow> AuthenticatedValue res" where
  "multiply_output m d e t =
     (let p = am_modulus m; a = mt_a t; b = mt_b t; c = mt_c t in
      bindE (beaver p (sh_value (av_client c)) d (sh_value (av_client b)) e (sh_value (av_client a)) None) (\<lambda>client_value.
      bindE (bmap2 (*) d e) (\<lambda>de.
      bindE (beaver p (sh_value (av_server c)) d (sh_value (av_server b)) e (sh_value (av_server a)) (Some de)) (\<lambda>server_value.
      bindE (beaver p (sh_mac (av_client c)) d (sh_mac (av_client b)) e (sh_mac (av_client a)) None) (\<lambda>client_mac.
      bindE (bmap2 (*) (nd_map (\<lambda>x. of_int (am_alpha m) * x) d) e) (\<lambda>ade.
      bindE (beaver p (sh_mac (av_server c)) d (sh_mac (av_server b)) e (sh_mac (av_server a)) (Some ade)) (\<lambda>server_mac.
      Inr \<lparr>av_client = \<lparr>sh_value = client_value, sh_mac = client_mac\<rparr>,
           av_server = \<lparr>sh_value = server_value, sh_mac = server_mac\<rparr>, av_modulus = p\<rparr>)))))))"

fun multiply_outputs :: "AuthenticatedMPC \<Rightarrow> s64array list \<Rightarrow> MultiplicationTriple list \<Rightarrow> AuthenticatedValue list res" where
  "multiply_outputs m (d # e # opened) (t # ts) =
     bindE (multiply_output m d e t) (\<lambda>out. bindE (multiply_outputs m opened ts) (\<lambda>outs. Inr (out # outs)))"
| "multiply_outputs m opened ts = Inr []"

definition count_multiply :: "bool \<Rightarrow> AuthenticatedMPC \<Rightarrow> AuthenticatedMPC" where
  "count_multiply b m = (if b then m\<lparr>am_stats := (am_stats m)\<lparr>ms_multiplication_rounds := ms_multiplication_rounds (am_stats m) + 1\<rparr>\<rparr> else m)"

definition multiply_many ::
  "AuthenticatedMPC \<Rightarrow> AuthenticatedValue list \<Rightarrow> AuthenticatedValue list \<Rightarrow> MultiplicationTriple list \<Rightarrow> AuthenticatedMPC \<times> AuthenticatedValue list res" where
  "multiply_many m xs ys ts =
     raiseS (\<not> (length xs = length ys \<and> length ys = length ts)) (ValueError ''multiplication input lists must have the same length'') m
    (onS (multiply_differences m (zip xs (zip ys ts))) m (\<lambda>differences.
     bindS (open_many m differences True True) (\<lambda>m opened.
     onS (multiply_outputs m opened ts) m (\<lambda>outputs.
     (count_multiply (xs \<noteq> []) m, Inr outputs)))))"

definition mpc_multiply :: "AuthenticatedMPC \<Rightarrow> AuthenticatedValue \<Rightarrow> AuthenticatedValue \<Rightarrow> MultiplicationTriple \<Rightarrow> AuthenticatedMPC \<times> AuthenticatedValue res" where
  "mpc_multiply m x y t = bindS (multiply_many m [x] [y] [t]) (\<lambda>m outs. (m, Inr (outs ! 0)))"

definition mpc_square :: "AuthenticatedMPC \<Rightarrow> AuthenticatedValue \<Rightarrow> MultiplicationTriple \<Rightarrow> AuthenticatedMPC \<times> AuthenticatedValue res" where
  "mpc_square m x t = mpc_multiply m x x t"

definition scalar :: "int \<Rightarrow> s64array" where
  "scalar c = \<lparr>nd_shape = [], nd_data = [of_int c]\<rparr>"

text \<open>Horner's rule over the remaining coefficients, highest first.\<close>

fun horner :: "AuthenticatedMPC \<Rightarrow> AuthenticatedValue \<Rightarrow> int list \<Rightarrow> MultiplicationTriple list \<Rightarrow> AuthenticatedValue \<Rightarrow> AuthenticatedMPC \<times> AuthenticatedValue res" where
  "horner m x [] ts result = (m, Inr result)"
| "horner m x (c # cs) [] result = (m, Inl (ValueError ''insufficient multiplication triples''))"
| "horner m x (c # cs) (t # ts) result =
     bindS (mpc_multiply m result x t) (\<lambda>m r. onS (mpc_add_public m r (scalar c)) m (\<lambda>r. horner m x cs ts r))"

definition mpc_polynomial :: "AuthenticatedMPC \<Rightarrow> AuthenticatedValue \<Rightarrow> int list \<Rightarrow> MultiplicationTriple list \<Rightarrow> AuthenticatedMPC \<times> AuthenticatedValue res" where
  "mpc_polynomial m x coefficients ts =
     (let coeffs = map (\<lambda>c. c mod am_modulus m) coefficients in
      raiseS (coeffs = []) (ValueError ''polynomial needs at least one coefficient'') m
     (onS (mpc_mul_public m x (scalar 0)) m (\<lambda>zero.
      onS (mpc_add_public m zero (scalar (last coeffs))) m (\<lambda>result.
      if length coeffs = 1 then (m, Inr result) else horner m x (rev (butlast coeffs)) ts result))))"

definition mpc_centered :: "AuthenticatedMPC \<Rightarrow> s64array \<Rightarrow> s64array" where
  "mpc_centered m x = nd_map (\<lambda>v. let raw = smod (am_modulus m) v in
     if sint raw > am_modulus m div 2 then raw - of_int (am_modulus m) else raw) x"

section \<open>Words and residues\<close>

lemma sint_of_int_small: "- (2 ^ 63) \<le> x \<Longrightarrow> x < 2 ^ 63 \<Longrightarrow> sint (of_int x :: 64 word) = x"
  by (simp add: signed_of_int signed_take_bit_int_eq_self)

text \<open>A word expression equals the number it stands for when that number is representable.\<close>

lemma smod64_of_int:
  assumes "x = of_int n" "0 \<le> n" "n < 2 ^ 63" "0 < p"
  shows "smod p x = of_int (n mod p)"
  using assms by (simp add: smod_def sint_of_int_small)

lemma smod64_of_int':
  assumes "x = of_int n" "- (2 ^ 63) \<le> n" "n < 2 ^ 63"
  shows "smod p x = of_int (n mod p)"
  using assms by (simp add: smod_def sint_of_int_small)

section \<open>Broadcasting equal shapes and scalars\<close>

lemma bcast_index_self: "i < prod_list s \<Longrightarrow> bcast_index s s i = i"
proof (induction s arbitrary: i)
  case (Cons a s)
  then have pos: "0 < prod_list s" by (cases "prod_list s") auto
  then have "bcast_index s s (i mod prod_list s) = i mod prod_list s" by (intro Cons.IH) simp
  moreover have "a = 1 \<Longrightarrow> i mod prod_list s = i" using Cons.prems by simp
  ultimately show ?case by (cases "a = 1") simp_all
qed simp

lemma bcast_index_ones: "bcast_index (replicate n 1) ts i = 0"
  by (induction n arbitrary: ts i) (case_tac ts; simp)+

lemma broadcast_self [simp]: "nd_wf a \<Longrightarrow> nd_shape a = s \<Longrightarrow> nd_broadcast_to a s = Inr a"
  by (auto simp: nd_broadcast_to_def broadcastable_def pad_shape_def nd_wf_def bcast_index_self list_all2_same
      intro!: ndarray_eqI nth_equalityI)

lemma mapE_bdim_same: "mapE (\<lambda>(a, b). bdim a b) (zip s s) = Inr s"
  by (induction s) (auto simp: bdim_def)

lemma bshape_same [simp]: "bshape s s = Inr s"
  by (simp add: bshape_def mapE_bdim_same)

lemma bmap2_same: "nd_wf a \<Longrightarrow> nd_wf b \<Longrightarrow> nd_shape b = nd_shape a \<Longrightarrow> bmap2 f a b = Inr (nd_map2 f a b)"
  by (simp add: bmap2_def)

lemma mapE_bdim_ones: "mapE (\<lambda>(a, b). bdim a b) (zip s (replicate (length s) 1)) = Inr s"
  by (induction s) (auto simp: bdim_def)

lemma bshape_scalar [simp]: "bshape s [] = Inr s"
  using mapE_bdim_ones [of s] by (simp add: bshape_def)

lemma broadcast_scalar [simp]: "nd_shape a = [] \<Longrightarrow> nd_broadcast_to a s = Inr \<lparr>nd_shape = s, nd_data = replicate (prod_list s) (nd_data a ! 0)\<rparr>"
  using bcast_index_ones [of "length s" s]
  by (simp add: nd_broadcast_to_def broadcastable_def pad_shape_def list_all2_conv_all_nth map_replicate_const)

lemma bmap2_scalar: "nd_wf a \<Longrightarrow> bmap2 f a (scalar c) = Inr (nd_map (\<lambda>x. f x (of_int c)) a)"
proof -
  assume a: "nd_wf a"
  then have "map2 f (nd_data a) (replicate (prod_list (nd_shape a)) (of_int c)) = map (\<lambda>x. f x (of_int c)) (nd_data a)"
    by (intro nth_equalityI) (auto simp: nd_wf_def)
  then show ?thesis using a by (simp add: bmap2_def scalar_def nd_map2_def nd_map_def)
qed

end
