(* ===== verification/Authenticated_Correct.thy ===== *)
theory Authenticated_Correct
  imports Authenticated_MPC
begin

text \<open>
  Correctness of \<^verbatim>\<open>Authenticated_MPC\<close>: every operation keeps the invariant that the value shares add up to the value and
  the authentication shares to its product with the key, as long as the field is small enough for 64-bit products; openings of such values
  succeed and return the value. Two theorems show the limits: what an opening detects of a tampered share, and that a larger
  field, which the constructor accepts, breaks honest computations.
\<close>

section \<open>The field and authenticated elements\<close>

text \<open>
  The bounds under which no 64-bit expression of the runtime overflows: the largest is the server's authentication
  share of a product, \<open>c + d * b + e * a + alpha * d * e\<close>.
\<close>

definition field_ok :: "int \<Rightarrow> int \<Rightarrow> bool" where
  "field_ok p al \<longleftrightarrow> 2 < p \<and> 0 < al \<and> al < p \<and> p ^ 3 + 2 * p ^ 2 + p < 2 ^ 63"

definition residue :: "int \<Rightarrow> int \<Rightarrow> bool" where
  "residue p x \<longleftrightarrow> 0 \<le> x \<and> x < p"

text \<open>The invariant of one element: the value shares add up to it and the authentication shares to \<open>alpha\<close> times it.\<close>

definition elem :: "int \<Rightarrow> int \<Rightarrow> int \<Rightarrow> int \<Rightarrow> int \<Rightarrow> int \<Rightarrow> int \<Rightarrow> bool" where
  "elem p al x cv sv cm sm \<longleftrightarrow> residue p x \<and> residue p cv \<and> residue p sv \<and> residue p cm \<and> residue p sm
     \<and> (cv + sv) mod p = x \<and> (cm + sm) mod p = al * x mod p"

definition cell :: "s64array \<Rightarrow> nat \<Rightarrow> int" where
  "cell a i = sint (nd_data a ! i)"

definition authentic :: "int \<Rightarrow> int \<Rightarrow> int ndarray \<Rightarrow> AuthenticatedValue \<Rightarrow> bool" where
  "authentic p al X v \<longleftrightarrow> av_modulus v = p \<and> nd_wf X
     \<and> (\<forall>a \<in> {sh_value (av_client v), sh_value (av_server v), sh_mac (av_client v), sh_mac (av_server v)}. nd_wf a \<and> nd_shape a = nd_shape X)
     \<and> (\<forall>i < nd_size X. elem p al (nd_data X ! i) (cell (sh_value (av_client v)) i) (cell (sh_value (av_server v)) i)
          (cell (sh_mac (av_client v)) i) (cell (sh_mac (av_server v)) i))"

lemma field_bounds:
  assumes "field_ok p al"
  shows "2 < p" "0 < al" "al < p" "p < 2147483648" "p * p < 4611686018427387904" "p ^ 3 + 2 * (p * p) + p < 9223372036854775808"
proof -
  have f: "2 < p" "0 < al" "al < p" "p ^ 3 + 2 * (p * p) + p < 9223372036854775808" using assms by (auto simp: field_ok_def power2_eq_square)
  have "2 * (p * p) \<le> p ^ 3" using f(1) mult_right_mono [of 2 p "p * p"] by (simp add: power3_eq_cube)
  then have sq: "p * p < 4611686018427387904" using f by linarith
  have "p < 2147483648"
  proof (rule ccontr)
    assume "\<not> p < 2147483648"
    then have "(2147483648 :: int) * 2147483648 \<le> p * p" using f(1) by (intro mult_mono) auto
    with sq show False by simp
  qed
  with f sq show "2 < p" "0 < al" "al < p" "p < 2147483648" "p * p < 4611686018427387904"
    "p ^ 3 + 2 * (p * p) + p < 9223372036854775808" by auto
qed

lemma residue_mod [simp]: "0 < p \<Longrightarrow> residue p (x mod p)"
  by (simp add: residue_def)

lemma of_int_cell: "of_int (cell a i) = nd_data a ! i"
  by (simp add: cell_def)

lemma sint_smod:
  assumes "x = of_int n" "- 9223372036854775808 \<le> n" "n < 9223372036854775808" "0 < p" "p < 2147483648"
  shows "sint (smod p x) = n mod p"
proof -
  have "0 \<le> n mod p" "n mod p < p" using assms(4) by simp_all
  then have "- 9223372036854775808 \<le> n mod p" "n mod p < 9223372036854775808" using assms(5) by linarith+
  then show ?thesis using assms smod64_of_int' [of x n p] by (simp add: sint_of_int_small)
qed

text \<open>Element-wise values of the array expressions of the runtime.\<close>

lemma prod_residue: "residue p x \<Longrightarrow> residue p y \<Longrightarrow> 0 \<le> x * y \<and> x * y \<le> p * p"
  by (auto simp: residue_def intro!: mult_mono)

lemma alpha_residue: "field_ok p al \<Longrightarrow> residue p al"
  by (simp add: field_ok_def residue_def)

lemma sint_smod_linear:
  assumes f: "field_ok p al" and r: "residue p (sint a)" "residue p (sint b)"
  shows "sint (smod p (a + b)) = (sint a + sint b) mod p" "sint (smod p (a - b)) = (sint a - sint b) mod p"
    "sint (smod p (a + of_int al * b)) = (sint a + al * sint b) mod p" "sint (smod p (of_int al * a - b)) = (al * sint a - sint b) mod p"
    "sint (smod p (of_int al * a)) = (al * sint a) mod p" "sint (smod p (a * b)) = (sint a * sint b) mod p"
proof -
  note F = field_bounds [OF f]
  have R: "0 \<le> sint a" "sint a < p" "0 \<le> sint b" "sint b < p" using r by (auto simp: residue_def)
  have P: "0 \<le> al * sint a \<and> al * sint a \<le> p * p" "0 \<le> al * sint b \<and> al * sint b \<le> p * p" "0 \<le> sint a * sint b \<and> sint a * sint b \<le> p * p"
    using prod_residue alpha_residue [OF f] r by blast+
  note S = sint_smod [OF _ _ _ _ F(4)]
  show "sint (smod p (a + b)) = (sint a + sint b) mod p" by (rule S) (use F R in auto)
  show "sint (smod p (a - b)) = (sint a - sint b) mod p" by (rule S) (use F R in auto)
  show "sint (smod p (a + of_int al * b)) = (sint a + al * sint b) mod p" by (rule S, simp) (use F R P in linarith)+
  show "sint (smod p (of_int al * a - b)) = (al * sint a - sint b) mod p" by (rule S, simp) (use F R P in linarith)+
  show "sint (smod p (of_int al * a)) = (al * sint a) mod p" by (rule S, simp) (use F R P in linarith)+
  show "sint (smod p (a * b)) = (sint a * sint b) mod p" by (rule S, simp) (use F R P in linarith)+
qed

lemma sint_smod_beaver:
  assumes f: "field_ok p al" and r: "residue p (sint a)" "residue p (sint b)" "residue p (sint c)" "residue p (sint d)" "residue p (sint e)"
  shows "sint (smod p (c + d * b + e * a)) = (sint c + sint d * sint b + sint e * sint a) mod p"
    "sint (smod p (c + d * b + e * a + d * e)) = (sint c + sint d * sint b + sint e * sint a + sint d * sint e) mod p"
    "sint (smod p (c + d * b + e * a + of_int al * d * e)) = (sint c + sint d * sint b + sint e * sint a + al * sint d * sint e) mod p"
proof -
  note F = field_bounds [OF f]
  have P: "0 \<le> sint d * sint b \<and> sint d * sint b \<le> p * p" "0 \<le> sint e * sint a \<and> sint e * sint a \<le> p * p"
    "0 \<le> sint d * sint e \<and> sint d * sint e \<le> p * p" using r prod_residue by blast+
  have al: "0 \<le> al" "al \<le> p" using F by auto
  have "al * (sint d * sint e) \<le> p * (p * p)" using mult_mono [OF al(2) conjunct2 [OF P(3)]] al P(3) by simp
  moreover have "0 \<le> al * (sint d * sint e)" using al P(3) by simp
  ultimately have A: "0 \<le> al * sint d * sint e" "al * sint d * sint e \<le> p ^ 3" by (simp_all add: power3_eq_cube mult.assoc)
  have sq: "p * p \<le> p ^ 3" using F mult_right_mono [of 1 p "p * p"] by (simp add: power3_eq_cube)
  have c: "0 \<le> sint c" "sint c < p" using r by (auto simp: residue_def)
  note S = sint_smod [OF _ _ _ _ F(4)]
  show "sint (smod p (c + d * b + e * a)) = (sint c + sint d * sint b + sint e * sint a) mod p"
    by (rule S, simp) (use F P A sq c in linarith)+
  show "sint (smod p (c + d * b + e * a + d * e)) = (sint c + sint d * sint b + sint e * sint a + sint d * sint e) mod p"
    by (rule S, simp) (use F P A sq c in linarith)+
  show "sint (smod p (c + d * b + e * a + of_int al * d * e)) = (sint c + sint d * sint b + sint e * sint a + al * sint d * sint e) mod p"
    by (rule S, simp) (use F P A sq c in linarith)+
qed

section \<open>Authenticated values\<close>

lemma authenticI:
  assumes "av_modulus v = p" "nd_wf X"
    "nd_wf (sh_value (av_client v))" "nd_wf (sh_value (av_server v))" "nd_wf (sh_mac (av_client v))" "nd_wf (sh_mac (av_server v))"
    "nd_shape (sh_value (av_client v)) = nd_shape X" "nd_shape (sh_value (av_server v)) = nd_shape X"
    "nd_shape (sh_mac (av_client v)) = nd_shape X" "nd_shape (sh_mac (av_server v)) = nd_shape X"
    "\<And>i. i < nd_size X \<Longrightarrow> elem p al (nd_data X ! i) (cell (sh_value (av_client v)) i) (cell (sh_value (av_server v)) i)
       (cell (sh_mac (av_client v)) i) (cell (sh_mac (av_server v)) i)"
  shows "authentic p al X v"
  using assms by (auto simp: authentic_def)

lemma authenticD:
  assumes "authentic p al X v"
  shows "av_modulus v = p" "nd_wf X"
    "nd_wf (sh_value (av_client v))" "nd_wf (sh_value (av_server v))" "nd_wf (sh_mac (av_client v))" "nd_wf (sh_mac (av_server v))"
    "nd_shape (sh_value (av_client v)) = nd_shape X" "nd_shape (sh_value (av_server v)) = nd_shape X"
    "nd_shape (sh_mac (av_client v)) = nd_shape X" "nd_shape (sh_mac (av_server v)) = nd_shape X"
    "av_shape v = nd_shape X"
    "\<And>i. i < nd_size X \<Longrightarrow> elem p al (nd_data X ! i) (cell (sh_value (av_client v)) i) (cell (sh_value (av_server v)) i)
       (cell (sh_mac (av_client v)) i) (cell (sh_mac (av_server v)) i)"
  using assms by (auto simp: authentic_def av_shape_def)

lemma cell_map2 [simp]:
  "nd_wf a \<Longrightarrow> nd_wf b \<Longrightarrow> nd_shape b = nd_shape a \<Longrightarrow> i < nd_size a \<Longrightarrow> cell (nd_map2 f a b) i = sint (f (nd_data a ! i) (nd_data b ! i))"
  by (simp add: cell_def nd_wf_def nd_size_def)

lemma cell_map [simp]: "nd_wf a \<Longrightarrow> i < nd_size a \<Longrightarrow> cell (nd_map f a) i = sint (f (nd_data a ! i))"
  by (simp add: cell_def nd_wf_def nd_size_def)

text \<open>A runtime that works in the field of \<open>p\<close> with the key \<open>al\<close>.\<close>

definition runs_in :: "int \<Rightarrow> int \<Rightarrow> AuthenticatedMPC \<Rightarrow> bool" where
  "runs_in p al m \<longleftrightarrow> field_ok p al \<and> am_modulus m = p \<and> am_alpha m = al"

lemma compatible_ok:
  "(\<forall>v \<in> set vs. av_modulus v = am_modulus m \<and> av_shape v = s) \<Longrightarrow> compatible m vs = Inr ()"
proof -
  assume a: "\<forall>v \<in> set vs. av_modulus v = am_modulus m \<and> av_shape v = s"
  have "check_compatible m vs s = Inr ()" using a by (induction vs) auto
  moreover have "vs \<noteq> [] \<Longrightarrow> av_shape (hd vs) = s" using a by simp
  ultimately show ?thesis by (simp add: compatible_def)
qed

lemma size_of_shape: "nd_shape a = nd_shape X \<Longrightarrow> nd_size a = nd_size X"
  by (simp add: nd_size_def)

section \<open>Operations keep values authentic\<close>

lemma elem_residues:
  assumes "elem p al x cv sv cm sm"
  shows "residue p x" "residue p cv" "residue p sv" "residue p cm" "residue p sm"
  using assms by (simp_all add: elem_def)

lemma word_eq_sintI: "sint w = n \<Longrightarrow> w = of_int n" for w :: "64 word"
  by auto

lemma sint_injD: "sint v = sint w \<Longrightarrow> v = w" for v w :: "64 word"
  by (metis word_eq_sintI)

lemma mod_shift: "u = w + p * t \<Longrightarrow> u mod p = w mod p" for p :: int
  by simp

lemma mod_shiftE:
  fixes p :: int
  assumes "u mod p = w mod p" obtains t where "u = w + p * t"
proof -
  have "u = w + p * (u div p - w div p)" using assms mult_div_mod_eq [of p u] mult_div_mod_eq [of p w] unfolding right_diff_distrib by linarith
  then show ?thesis using that by blast
qed

lemma elemE:
  assumes "elem p al x cv sv cm sm" obtains s t where "cv + sv = x + p * s" "cm + sm = al * x + p * t"
proof -
  have "(cv + sv) mod p = x mod p" "(cm + sm) mod p = (al * x) mod p" using assms by (auto simp: elem_def residue_def)
  then show ?thesis using that by (elim mod_shiftE) blast
qed

lemma elem_modI:
  assumes "0 < p" "cv + sv = x + p * s" "cm + sm = al * x + p * t"
  shows "elem p al (x mod p) (cv mod p) (sv mod p) (cm mod p) (sm mod p)"
proof -
  have "(cv mod p + sv mod p) mod p = x mod p" "(cm mod p + sm mod p) mod p = al * x mod p"
    using mod_shift [OF assms(2)] mod_shift [OF assms(3)] by (simp_all add: mod_add_eq)
  then show ?thesis using assms(1) by (simp add: elem_def mod_mult_right_eq)
qed

lemma residue_self: "residue p x \<Longrightarrow> x mod p = x"
  by (simp add: residue_def)

text \<open>Elements combine linearly, with the same coefficients on all four shares.\<close>

lemma elem_combine:
  assumes p: "0 < p" and e1: "elem p al x a b c d" and e2: "elem p al y a' b' c' d'"
  shows "elem p al ((j * x + k * y) mod p) ((j * a + k * a') mod p) ((j * b + k * b') mod p) ((j * c + k * c') mod p) ((j * d + k * d') mod p)"
proof -
  obtain s t where 1: "a + b = x + p * s" "c + d = al * x + p * t" by (rule elemE [OF e1])
  obtain s' t' where 2: "a' + b' = y + p * s'" "c' + d' = al * y + p * t'" by (rule elemE [OF e2])
  show ?thesis
  proof (rule elem_modI [OF p])
    show "j * a + k * a' + (j * b + k * b') = j * x + k * y + p * (j * s + k * s')" using 1 2 by algebra
    show "j * c + k * c' + (j * d + k * d') = al * (j * x + k * y) + p * (j * t + k * t')" using 1 2 by algebra
  qed
qed

text \<open>A public number is added on the server's side only.\<close>

lemma elem_public:
  assumes p: "0 < p" and e: "elem p al x cv sv cm sm"
  shows "elem p al ((x + k) mod p) cv ((sv + k) mod p) cm ((sm + al * k) mod p)"
proof -
  obtain s t where 1: "cv + sv = x + p * s" "cm + sm = al * x + p * t" by (rule elemE [OF e])
  have "elem p al ((x + k) mod p) (cv mod p) ((sv + k) mod p) (cm mod p) ((sm + al * k) mod p)"
  proof (rule elem_modI [OF p])
    show "cv + (sv + k) = x + k + p * s" using 1 by simp
    show "cm + (sm + al * k) = al * (x + k) + p * t" using 1 by algebra
  qed
  then show ?thesis using elem_residues [OF e] by (simp add: residue_self)
qed

lemma elem_beaver:
  assumes p: "0 < p" and a: "elem p al x a0 a1 a2 a3" and b: "elem p al y b0 b1 b2 b3" and c: "elem p al (x * y mod p) c0 c1 c2 c3"
  shows "elem p al ((x + d) * (y + e) mod p) ((c0 + d * b0 + e * a0) mod p) ((c1 + d * b1 + e * a1 + d * e) mod p)
    ((c2 + d * b2 + e * a2) mod p) ((c3 + d * b3 + e * a3 + al * d * e) mod p)"
proof -
  obtain s t where 1: "a0 + a1 = x + p * s" "a2 + a3 = al * x + p * t" by (rule elemE [OF a])
  obtain s' t' where 2: "b0 + b1 = y + p * s'" "b2 + b3 = al * y + p * t'" by (rule elemE [OF b])
  obtain s'' t'' where 3: "c0 + c1 = x * y mod p + p * s''" "c2 + c3 = al * (x * y mod p) + p * t''" by (rule elemE [OF c])
  define q where "q = x * y div p"
  have xy: "x * y mod p = x * y - p * q" by (simp add: q_def minus_mult_div_eq_mod)
  show ?thesis
  proof (rule elem_modI [OF p])
    show "c0 + d * b0 + e * a0 + (c1 + d * b1 + e * a1 + d * e) = (x + d) * (y + e) + p * (s'' - q + d * s' + e * s)"
      using 1 2 3(1) xy by algebra
    show "c2 + d * b2 + e * a2 + (c3 + d * b3 + e * a3 + al * d * e) = al * ((x + d) * (y + e)) + p * (t'' - al * q + d * t' + e * t)"
      using 1 2 3(2) xy by algebra
  qed
qed

lemma cell_residues:
  assumes "authentic p al X v" "i < nd_size X"
  shows "residue p (sint (nd_data (sh_value (av_client v)) ! i))" "residue p (sint (nd_data (sh_value (av_server v)) ! i))"
    "residue p (sint (nd_data (sh_mac (av_client v)) ! i))" "residue p (sint (nd_data (sh_mac (av_server v)) ! i))"
  using elem_residues [OF authenticD(12) [OF assms]] by (simp_all add: cell_def)

lemma open_authentic:
  assumes m: "runs_in p al m" and v: "authentic p al X v"
  shows "open_without_stats m v = Inr (nd_map of_int X)"
proof -
  note D = authenticD [OF v] and F = m [unfolded runs_in_def]
  let ?cv = "sh_value (av_client v)" and ?sv = "sh_value (av_server v)" and ?cm = "sh_mac (av_client v)" and ?sm = "sh_mac (av_server v)"
  have comp: "compatible m [v] = Inr ()" using D F by (intro compatible_ok [where s = "nd_shape X"]) auto
  have bv: "bmap2 f ?cv ?sv = Inr (nd_map2 f ?cv ?sv)" "bmap2 f ?cm ?sm = Inr (nd_map2 f ?cm ?sm)" for f :: "64 word \<Rightarrow> 64 word \<Rightarrow> 64 word"
    using D by (auto intro: bmap2_same)
  have add: "smod p (nd_data ?cv ! i + nd_data ?sv ! i) = of_int (nd_data X ! i)"
    "smod p (nd_data ?cm ! i + nd_data ?sm ! i) = smod p (of_int al * of_int (nd_data X ! i))" if i: "i < nd_size X" for i
  proof -
    note R = cell_residues [OF v i] and E = D(12) [OF i, unfolded elem_def cell_def]
    have "sint (smod p (nd_data ?cv ! i + nd_data ?sv ! i)) = nd_data X ! i" using sint_smod_linear(1) [OF _ R(1,2)] F E by auto
    then show one: "smod p (nd_data ?cv ! i + nd_data ?sv ! i) = of_int (nd_data X ! i)" by (rule word_eq_sintI)
    have x: "residue p (sint (of_int (nd_data X ! i) :: 64 word))" "sint (of_int (nd_data X ! i) :: 64 word) = nd_data X ! i"
      using E F field_bounds(4) [of p al] by (auto simp: residue_def sint_of_int_small)
    have "sint (smod p (nd_data ?cm ! i + nd_data ?sm ! i)) = sint (smod p (of_int al * of_int (nd_data X ! i)))"
      using sint_smod_linear(1) [OF _ R(3,4)] sint_smod_linear(5) [OF _ x(1) x(1)] F E x(2) by auto
    then show "smod p (nd_data ?cm ! i + nd_data ?sm ! i) = smod p (of_int al * of_int (nd_data X ! i))" by (rule sint_injD)
  qed
  have clear: "nd_map2 (\<lambda>a b. smod p (a + b)) ?cv ?sv = nd_map of_int X"
    by (rule nd_eq_nthI) (use D add in \<open>auto simp: nd_wf_def nd_size_def\<close>)
  have mac: "nd_map2 (\<lambda>a b. smod p (a + b)) ?cm ?sm = nd_map (\<lambda>x. smod p (of_int al * x)) (nd_map of_int X)"
    by (rule nd_eq_nthI) (use D add in \<open>auto simp: nd_wf_def nd_size_def\<close>)
  show ?thesis using F comp bv clear mac by (simp add: open_without_stats_def Let_def)
qed

lemma authentic_mkI:
  assumes "nd_wf X" "nd_wf cv" "nd_wf sv" "nd_wf cm" "nd_wf sm"
    "nd_shape cv = nd_shape X" "nd_shape sv = nd_shape X" "nd_shape cm = nd_shape X" "nd_shape sm = nd_shape X"
    "\<And>i. i < nd_size X \<Longrightarrow> elem p al (nd_data X ! i) (cell cv i) (cell sv i) (cell cm i) (cell sm i)"
  shows "authentic p al X \<lparr>av_client = \<lparr>sh_value = cv, sh_mac = cm\<rparr>, av_server = \<lparr>sh_value = sv, sh_mac = sm\<rparr>, av_modulus = p\<rparr>"
  by (rule authenticI) (use assms in auto)

text \<open>
  A value all of whose arrays have the shape \<open>s\<close>: on such values the broadcasting of the array expressions is the
  element-wise operation.
\<close>

definition shaped :: "nat list \<Rightarrow> s64array \<Rightarrow> bool" where
  "shaped s a \<longleftrightarrow> nd_wf a \<and> nd_shape a = s"

lemma shapedD: "shaped s a \<Longrightarrow> nd_wf a" "shaped s a \<Longrightarrow> nd_shape a = s" "shaped s a \<Longrightarrow> nd_size a = prod_list s"
  by (simp_all add: shaped_def nd_size_def)

lemma shaped_map2 [simp]: "shaped s a \<Longrightarrow> shaped s b \<Longrightarrow> shaped s (nd_map2 f a b)"
  by (auto simp: shaped_def)

lemma shaped_map [simp]: "shaped s (nd_map f a) = shaped s (a :: s64array)" for f :: "64 word \<Rightarrow> 64 word"
  by (simp add: shaped_def)

lemma bmap2_shaped: "shaped s a \<Longrightarrow> shaped s b \<Longrightarrow> bmap2 f a b = Inr (nd_map2 f a b)"
  by (simp add: shaped_def bmap2_same)

lemma data_map2: "shaped s a \<Longrightarrow> shaped s b \<Longrightarrow> i < prod_list s \<Longrightarrow> nd_data (nd_map2 f a b) ! i = f (nd_data a ! i) (nd_data b ! i)"
  by (simp add: shaped_def nd_wf_def)

lemma data_map: "shaped s a \<Longrightarrow> i < prod_list s \<Longrightarrow> nd_data (nd_map f a) ! i = f (nd_data a ! i)"
  by (simp add: shaped_def nd_wf_def)

lemma authentic_shaped:
  assumes "authentic p al X v"
  shows "shaped (nd_shape X) (sh_value (av_client v))" "shaped (nd_shape X) (sh_value (av_server v))"
    "shaped (nd_shape X) (sh_mac (av_client v))" "shaped (nd_shape X) (sh_mac (av_server v))"
  using authenticD [OF assms] by (auto simp: shaped_def)

lemma authentic_shapedI:
  assumes "nd_wf X" "shaped (nd_shape X) cv" "shaped (nd_shape X) sv" "shaped (nd_shape X) cm" "shaped (nd_shape X) sm"
    "\<And>i. i < prod_list (nd_shape X) \<Longrightarrow> elem p al (nd_data X ! i) (sint (nd_data cv ! i)) (sint (nd_data sv ! i)) (sint (nd_data cm ! i)) (sint (nd_data sm ! i))"
  shows "authentic p al X \<lparr>av_client = \<lparr>sh_value = cv, sh_mac = cm\<rparr>, av_server = \<lparr>sh_value = sv, sh_mac = sm\<rparr>, av_modulus = p\<rparr>"
  by (rule authentic_mkI) (use assms in \<open>auto simp: shaped_def cell_def nd_size_def\<close>)

lemma authentic_elem:
  assumes "authentic p al X v" "i < prod_list (nd_shape X)"
  shows "elem p al (nd_data X ! i) (sint (nd_data (sh_value (av_client v)) ! i)) (sint (nd_data (sh_value (av_server v)) ! i))
       (sint (nd_data (sh_mac (av_client v)) ! i)) (sint (nd_data (sh_mac (av_server v)) ! i))"
  using authenticD(12) [OF assms(1)] assms(2) by (simp add: cell_def nd_size_def)

lemma authentic_length: "authentic p al X v \<Longrightarrow> length (nd_data X) = prod_list (nd_shape X)"
  using authenticD(2) by (simp add: nd_wf_def)

lemma map2_authentic:
  assumes x: "authentic p al X x" and y: "authentic p al Y y" and sh: "nd_shape Y = nd_shape X" and p: "0 < p"
    and el: "\<And>a b. residue p (sint a) \<Longrightarrow> residue p (sint b) \<Longrightarrow> sint (f a b) = (j * sint a + k * sint b) mod p"
  shows "\<exists>z. on_arrays2 (bmap2 f) p x y = Inr z \<and> authentic p al (nd_map2 (\<lambda>a b. (j * a + k * b) mod p) X Y) z"
proof -
  note S = authentic_shaped [OF x] authentic_shaped [OF y, unfolded sh]
  note b = bmap2_shaped [OF S(1) S(5)] bmap2_shaped [OF S(2) S(6)] bmap2_shaped [OF S(3) S(7)] bmap2_shaped [OF S(4) S(8)]
  show ?thesis unfolding on_arrays2_def b bindE_Inr
  proof (intro exI conjI, rule refl, rule authentic_shapedI)
    fix i assume "i < prod_list (nd_shape (nd_map2 (\<lambda>a b. (j * a + k * b) mod p) X Y))"
    then have i: "i < prod_list (nd_shape X)" "i < prod_list (nd_shape Y)" using sh by simp_all
    note E1 = authentic_elem [OF x i(1)] and E2 = authentic_elem [OF y i(2)]
    have "nd_data (nd_map2 (\<lambda>a b. (j * a + k * b) mod p) X Y) ! i = (j * nd_data X ! i + k * nd_data Y ! i) mod p"
      using i authentic_length [OF x] authentic_length [OF y] by simp
    then show "elem p al (nd_data (nd_map2 (\<lambda>a b. (j * a + k * b) mod p) X Y) ! i)
        (sint (nd_data (nd_map2 f (sh_value (av_client x)) (sh_value (av_client y))) ! i))
        (sint (nd_data (nd_map2 f (sh_value (av_server x)) (sh_value (av_server y))) ! i))
        (sint (nd_data (nd_map2 f (sh_mac (av_client x)) (sh_mac (av_client y))) ! i))
        (sint (nd_data (nd_map2 f (sh_mac (av_server x)) (sh_mac (av_server y))) ! i))"
      using elem_combine [OF p E1 E2, of j k] el elem_residues [OF E1] elem_residues [OF E2]
      unfolding data_map2 [OF S(1) S(5) i(1)] data_map2 [OF S(2) S(6) i(1)] data_map2 [OF S(3) S(7) i(1)] data_map2 [OF S(4) S(8) i(1)]
      by simp
  qed (use S authenticD(2) [OF x] authenticD(2) [OF y] sh in auto)
qed

lemma compatible_authentic:
  "runs_in p al m \<Longrightarrow> (\<forall>v \<in> set vs. \<exists>X. authentic p al X v \<and> nd_shape X = s) \<Longrightarrow> compatible m vs = Inr ()"
  by (rule compatible_ok [where s = s]) (auto simp: runs_in_def dest: authenticD(1,11))

lemma sub_authentic:
  assumes m: "runs_in p al m" and x: "authentic p al X x" and y: "authentic p al Y y" and sh: "nd_shape Y = nd_shape X"
  shows "\<exists>z. mpc_sub m x y = Inr z \<and> authentic p al (nd_map2 (\<lambda>a b. (a - b) mod p) X Y) z"
proof -
  have f: "field_ok p al" "am_modulus m = p" "0 < p" using m by (auto simp: runs_in_def field_ok_def)
  have "compatible m [x, y] = Inr ()" by (rule compatible_authentic [OF m, where s = "nd_shape X"]) (use x y sh in auto)
  moreover have "sint (smod p (a - b)) = (1 * sint a + (- 1) * sint b) mod p" if "residue p (sint a)" "residue p (sint b)" for a b
    using sint_smod_linear(2) [OF f(1) that] by simp
  note map2_authentic [OF x y sh f(3) this]
  ultimately show ?thesis using f by (auto simp: mpc_sub_def)
qed

lemma add_authentic:
  assumes m: "runs_in p al m" and x: "authentic p al X x" and y: "authentic p al Y y" and sh: "nd_shape Y = nd_shape X"
  shows "\<exists>z. mpc_add m x y = Inr z \<and> authentic p al (nd_map2 (\<lambda>a b. (a + b) mod p) X Y) z"
proof -
  have f: "field_ok p al" "am_modulus m = p" "0 < p" using m by (auto simp: runs_in_def field_ok_def)
  have "compatible m [x, y] = Inr ()" by (rule compatible_authentic [OF m, where s = "nd_shape X"]) (use x y sh in auto)
  moreover have "sint (smod p (a + b)) = (1 * sint a + 1 * sint b) mod p" if "residue p (sint a)" "residue p (sint b)" for a b
    using sint_smod_linear(1) [OF f(1) that] by simp
  note map2_authentic [OF x y sh f(3) this]
  ultimately show ?thesis using f by (auto simp: mpc_add_def)
qed

section \<open>Multiplication\<close>

text \<open>An opened array: the words of an array of residues.\<close>

definition opened :: "int \<Rightarrow> int ndarray \<Rightarrow> s64array \<Rightarrow> bool" where
  "opened p D d \<longleftrightarrow> nd_wf D \<and> d = nd_map of_int D \<and> (\<forall>x \<in> set (nd_data D). residue p x)"

lemma openedD:
  assumes f: "field_ok p al" and d: "opened p D d"
  shows "shaped (nd_shape D) d" "i < prod_list (nd_shape D) \<Longrightarrow> sint (nd_data d ! i) = nd_data D ! i"
    "i < prod_list (nd_shape D) \<Longrightarrow> residue p (sint (nd_data d ! i))"
proof -
  show "shaped (nd_shape D) d" using d by (auto simp: opened_def shaped_def)
  assume i: "i < prod_list (nd_shape D)"
  then have r: "residue p (nd_data D ! i)" and e: "nd_data d ! i = of_int (nd_data D ! i)" using d by (auto simp: opened_def nd_wf_def)
  then show "sint (nd_data d ! i) = nd_data D ! i" using field_bounds(4) [OF f] by (simp add: sint_of_int_small residue_def)
  with r show "residue p (sint (nd_data d ! i))" by simp
qed

lemma opened_authentic: "authentic p al X v \<Longrightarrow> opened p X (nd_map of_int X)"
  unfolding opened_def using authenticD(2) elem_residues(1) [OF authenticD(12)]
  by (fastforce simp: in_set_conv_nth nd_wf_length)

lemma beaver_shaped:
  assumes "shaped s c" "shaped s d" "shaped s b" "shaped s e" "shaped s a"
  shows "beaver p c d b e a None = Inr (nd_map (smod p) (nd_map2 (+) (nd_map2 (+) c (nd_map2 (*) d b)) (nd_map2 (*) e a)))"
    "shaped s t \<Longrightarrow> beaver p c d b e a (Some t)
       = Inr (nd_map (smod p) (nd_map2 (+) (nd_map2 (+) (nd_map2 (+) c (nd_map2 (*) d b)) (nd_map2 (*) e a)) t))"
proof -
  have b: "shaped s x \<Longrightarrow> shaped s y \<Longrightarrow> bmap2 f x y = Inr (nd_map2 f x y)" for x y :: s64array and f :: "64 word \<Rightarrow> 64 word \<Rightarrow> 64 word"
    by (rule bmap2_shaped)
  show "beaver p c d b e a None = Inr (nd_map (smod p) (nd_map2 (+) (nd_map2 (+) c (nd_map2 (*) d b)) (nd_map2 (*) e a)))"
    using assms by (simp add: beaver_def b)
  show "shaped s t \<Longrightarrow> beaver p c d b e a (Some t)
       = Inr (nd_map (smod p) (nd_map2 (+) (nd_map2 (+) (nd_map2 (+) c (nd_map2 (*) d b)) (nd_map2 (*) e a)) t))"
    using assms by (simp add: beaver_def b)
qed

lemma beaver_data:
  assumes "shaped s c" "shaped s d" "shaped s b" "shaped s e" "shaped s a" "i < prod_list s"
  shows "nd_data (nd_map (smod p) (nd_map2 (+) (nd_map2 (+) c (nd_map2 (*) d b)) (nd_map2 (*) e a))) ! i
      = smod p (nd_data c ! i + nd_data d ! i * nd_data b ! i + nd_data e ! i * nd_data a ! i)"
    "shaped s t \<Longrightarrow> nd_data (nd_map (smod p) (nd_map2 (+) (nd_map2 (+) (nd_map2 (+) c (nd_map2 (*) d b)) (nd_map2 (*) e a)) t)) ! i
      = smod p (nd_data c ! i + nd_data d ! i * nd_data b ! i + nd_data e ! i * nd_data a ! i + nd_data t ! i)"
  using assms by (simp_all add: shaped_def nd_wf_def)

lemma multiply_output_authentic:
  assumes m: "runs_in p al m" and a: "authentic p al A (mt_a t)" and b: "authentic p al B (mt_b t)"
    and c: "authentic p al (nd_map2 (\<lambda>x y. x * y mod p) A B) (mt_c t)" and sh: "nd_shape B = nd_shape A"
    and d: "opened p D d" "nd_shape D = nd_shape A" and e: "opened p E e" "nd_shape E = nd_shape A"
  shows "\<exists>z. multiply_output m d e t = Inr z \<and> authentic p al
    \<lparr>nd_shape = nd_shape A, nd_data = map (\<lambda>i. (nd_data A ! i + nd_data D ! i) * (nd_data B ! i + nd_data E ! i) mod p) [0..<prod_list (nd_shape A)]\<rparr> z"
proof -
  have f: "field_ok p al" "am_modulus m = p" "am_alpha m = al" "0 < p" using m by (auto simp: runs_in_def field_ok_def)
  let ?s = "nd_shape A"
  have c': "nd_shape (nd_map2 (\<lambda>x y. x * y mod p) A B) = ?s" by simp
  note SA = authentic_shaped [OF a] and SB = authentic_shaped [OF b, unfolded sh] and SC = authentic_shaped [OF c, unfolded c']
  have Sd: "shaped ?s d" "shaped ?s e" using openedD(1) [OF f(1) d(1)] openedD(1) [OF f(1) e(1)] d(2) e(2) by simp_all
  have de: "bmap2 (*) d e = Inr (nd_map2 (*) d e)" "shaped ?s (nd_map2 (*) d e)" using Sd by (simp_all add: bmap2_shaped)
  let ?ad = "nd_map (\<lambda>x. of_int al * x) d"
  have ade: "bmap2 (*) ?ad e = Inr (nd_map2 (*) ?ad e)" "shaped ?s (nd_map2 (*) ?ad e)"
    using Sd by (auto intro!: bmap2_shaped shaped_map2)
  note B = beaver_shaped(1) [OF SC(1) Sd(1) SB(1) Sd(2) SA(1)] beaver_shaped(2) [OF SC(2) Sd(1) SB(2) Sd(2) SA(2) de(2)]
    beaver_shaped(1) [OF SC(3) Sd(1) SB(3) Sd(2) SA(3)] beaver_shaped(2) [OF SC(4) Sd(1) SB(4) Sd(2) SA(4) ade(2)]
  show ?thesis unfolding multiply_output_def Let_def f(2,3) B de(1) ade(1) bindE_Inr
  proof (intro exI conjI, rule refl, rule authentic_shapedI, goal_cases)
    case (6 i)
    then have i: "i < prod_list ?s" by simp
    have iB: "i < prod_list (nd_shape B)" and iD: "i < prod_list (nd_shape D)" and iE: "i < prod_list (nd_shape E)"
      and iC: "i < prod_list (nd_shape (nd_map2 (\<lambda>x y. x * y mod p) A B))" using i sh d(2) e(2) by simp_all
    note EA = authentic_elem [OF a i] and EB = authentic_elem [OF b iB]
    have "nd_data (nd_map2 (\<lambda>x y. x * y mod p) A B) ! i = nd_data A ! i * nd_data B ! i mod p"
      using i iB authentic_length [OF a] authentic_length [OF b] by simp
    with authentic_elem [OF c iC] have EC: "elem p al (nd_data A ! i * nd_data B ! i mod p)
        (sint (nd_data (sh_value (av_client (mt_c t))) ! i)) (sint (nd_data (sh_value (av_server (mt_c t))) ! i))
        (sint (nd_data (sh_mac (av_client (mt_c t))) ! i)) (sint (nd_data (sh_mac (av_server (mt_c t))) ! i))" by simp
    note RD = openedD(2,3) [OF f(1) d(1) iD] and RE = openedD(2,3) [OF f(1) e(1) iE]
    note RA = elem_residues [OF EA] and RB = elem_residues [OF EB] and RC = elem_residues [OF EC]
    have de_i: "nd_data (nd_map2 (*) d e) ! i = nd_data d ! i * nd_data e ! i"
      and ade_i: "nd_data (nd_map2 (*) ?ad e) ! i = of_int al * nd_data d ! i * nd_data e ! i"
      using Sd i by (simp_all add: shaped_def nd_wf_def)
    note W = sint_smod_beaver [OF f(1)]
    show ?case
      unfolding beaver_data(1) [OF SC(1) Sd(1) SB(1) Sd(2) SA(1) i] beaver_data(2) [OF SC(2) Sd(1) SB(2) Sd(2) SA(2) i de(2)] de_i ade_i
        beaver_data(1) [OF SC(3) Sd(1) SB(3) Sd(2) SA(3) i] beaver_data(2) [OF SC(4) Sd(1) SB(4) Sd(2) SA(4) i ade(2)]
        W(1) [OF RA(2) RB(2) RC(2) RD(2) RE(2)] W(2) [OF RA(3) RB(3) RC(3) RD(2) RE(2)]
        W(1) [OF RA(4) RB(4) RC(4) RD(2) RE(2)] W(3) [OF RA(5) RB(5) RC(5) RD(2) RE(2)] RD(1) RE(1)
      using elem_beaver [OF f(4) EA EB EC, of "nd_data D ! i" "nd_data E ! i"] i by simp
  qed (use SA SB SC Sd de ade in \<open>auto simp: nd_wf_def intro!: shaped_map2\<close>)
qed

text \<open>Triples whose components are authentic and multiply.\<close>

definition auth_triple :: "int \<Rightarrow> int \<Rightarrow> nat list \<Rightarrow> MultiplicationTriple \<Rightarrow> bool" where
  "auth_triple p al s t \<longleftrightarrow> (\<exists>A B. authentic p al A (mt_a t) \<and> authentic p al B (mt_b t)
     \<and> authentic p al (nd_map2 (\<lambda>x y. x * y mod p) A B) (mt_c t) \<and> nd_shape A = s \<and> nd_shape B = s)"

definition same_field :: "AuthenticatedMPC \<Rightarrow> AuthenticatedMPC \<Rightarrow> bool" where
  "same_field m m' \<longleftrightarrow> am_modulus m' = am_modulus m \<and> am_alpha m' = am_alpha m"

lemma same_field_runs: "same_field m m' \<Longrightarrow> runs_in p al m \<Longrightarrow> runs_in p al m'"
  by (simp add: same_field_def runs_in_def)

lemma open_many_authentic:
  assumes m: "runs_in p al m" and vs: "list_all2 (authentic p al) Xs vs"
  shows "\<exists>m'. open_many m vs tc cr = (m', Inr (map (nd_map of_int) Xs)) \<and> same_field m m'
    \<and> ms_opened_values (am_stats m') = ms_opened_values (am_stats m) + sum_list (map nd_size Xs)
    \<and> ms_multiplication_rounds (am_stats m') = ms_multiplication_rounds (am_stats m)"
proof -
  have "mapE (open_without_stats m) vs = Inr (map (nd_map of_int) Xs)"
    using vs by (induction rule: list_all2_induct) (auto simp: open_authentic [OF m])
  moreover have "map av_size vs = map nd_size Xs"
    using vs by (induction rule: list_all2_induct) (auto simp: av_size_def nd_size_def dest: authenticD(7))
  ultimately show ?thesis by (simp add: open_many_def same_field_def Let_def)
qed

text \<open>The two differences that a multiplication opens.\<close>

lemma differences_authentic:
  assumes m: "runs_in p al m" and x: "authentic p al X x" and y: "authentic p al Y y" and sh: "nd_shape X = s" "nd_shape Y = s"
    and t: "authentic p al A (mt_a t)" "authentic p al B (mt_b t)" "authentic p al (nd_map2 (\<lambda>x y. x * y mod p) A B) (mt_c t)" "nd_shape A = s" "nd_shape B = s"
  shows "\<exists>d e. multiply_differences m ((x, y, t) # rest) = bindE (multiply_differences m rest) (\<lambda>ds. Inr (d # e # ds))
    \<and> authentic p al (nd_map2 (\<lambda>a b. (a - b) mod p) X A) d \<and> authentic p al (nd_map2 (\<lambda>a b. (a - b) mod p) Y B) e"
proof -
  obtain d where d: "mpc_sub m x (mt_a t) = Inr d" "authentic p al (nd_map2 (\<lambda>a b. (a - b) mod p) X A) d"
    using sub_authentic [OF m x t(1)] sh t(4) by auto
  obtain e where e: "mpc_sub m y (mt_b t) = Inr e" "authentic p al (nd_map2 (\<lambda>a b. (a - b) mod p) Y B) e"
    using sub_authentic [OF m y t(2)] sh t(5) by auto
  have c: "nd_shape (nd_map2 (\<lambda>x y. x * y mod p) A B) = s" using t(4) by simp
  have "\<forall>v \<in> set [x, y, mt_a t, mt_b t, mt_c t]. \<exists>X. authentic p al X v \<and> nd_shape X = s"
    using x y sh t(1,2,4,5) t(3) c by auto
  then have "compatible m [x, y, mt_a t, mt_b t, mt_c t] = Inr ()" by (rule compatible_authentic [OF m])
  then show ?thesis using d e by auto
qed

lemma product_of_differences: "(a + (x - a) mod p) * (b + (y - b) mod p) mod p = x * y mod p" for p :: int
proof -
  have "((a + (x - a) mod p) mod p) * ((b + (y - b) mod p) mod p) mod p = (x mod p) * (y mod p) mod p"
    by (simp add: mod_add_right_eq)
  then show ?thesis by (simp add: mod_mult_eq)
qed

lemma multiply_authentic:
  assumes m: "runs_in p al m" and x: "authentic p al X x" and y: "authentic p al Y y" and sh: "nd_shape Y = nd_shape X"
    and t: "auth_triple p al (nd_shape X) t"
  shows "\<exists>m' z. mpc_multiply m x y t = (m', Inr z) \<and> same_field m m' \<and> authentic p al (nd_map2 (\<lambda>a b. a * b mod p) X Y) z
    \<and> ms_opened_values (am_stats m') = ms_opened_values (am_stats m) + 2 * nd_size X
    \<and> ms_multiplication_rounds (am_stats m') = ms_multiplication_rounds (am_stats m) + 1"
proof -
  obtain A B where T: "authentic p al A (mt_a t)" "authentic p al B (mt_b t)" "authentic p al (nd_map2 (\<lambda>x y. x * y mod p) A B) (mt_c t)"
    "nd_shape A = nd_shape X" "nd_shape B = nd_shape X" using t by (auto simp: auth_triple_def)
  obtain d e where diff: "multiply_differences m [(x, y, t)] = Inr [d, e]"
    and D: "authentic p al (nd_map2 (\<lambda>a b. (a - b) mod p) X A) d" and E: "authentic p al (nd_map2 (\<lambda>a b. (a - b) mod p) Y B) e"
    using differences_authentic [OF m x y refl sh T, of "[]"] by auto
  obtain m' where op: "open_many m [d, e] True True = (m', Inr [nd_map of_int (nd_map2 (\<lambda>a b. (a - b) mod p) X A), nd_map of_int (nd_map2 (\<lambda>a b. (a - b) mod p) Y B)])"
    and m': "same_field m m'" "ms_opened_values (am_stats m') = ms_opened_values (am_stats m) + 2 * nd_size X"
      "ms_multiplication_rounds (am_stats m') = ms_multiplication_rounds (am_stats m)"
    using open_many_authentic [OF m, of "[nd_map2 (\<lambda>a b. (a - b) mod p) X A, nd_map2 (\<lambda>a b. (a - b) mod p) Y B]" "[d, e]" True True] D E sh
    by (auto simp: nd_size_def)
  obtain z where z: "multiply_output m' (nd_map of_int (nd_map2 (\<lambda>a b. (a - b) mod p) X A)) (nd_map of_int (nd_map2 (\<lambda>a b. (a - b) mod p) Y B)) t = Inr z"
    and Z: "authentic p al \<lparr>nd_shape = nd_shape A, nd_data = map (\<lambda>i. (nd_data A ! i + nd_data (nd_map2 (\<lambda>a b. (a - b) mod p) X A) ! i)
        * (nd_data B ! i + nd_data (nd_map2 (\<lambda>a b. (a - b) mod p) Y B) ! i) mod p) [0..<prod_list (nd_shape A)]\<rparr> z"
    using multiply_output_authentic [OF same_field_runs [OF m'(1) m] T(1-3) _ opened_authentic [OF D] _ opened_authentic [OF E]] T(4,5) sh by auto
  have "\<lparr>nd_shape = nd_shape A, nd_data = map (\<lambda>i. (nd_data A ! i + nd_data (nd_map2 (\<lambda>a b. (a - b) mod p) X A) ! i)
        * (nd_data B ! i + nd_data (nd_map2 (\<lambda>a b. (a - b) mod p) Y B) ! i) mod p) [0..<prod_list (nd_shape A)]\<rparr>
      = nd_map2 (\<lambda>a b. a * b mod p) X Y"
    using T(4,5) sh authentic_length [OF x] authentic_length [OF y] authentic_length [OF T(1)] authentic_length [OF T(2)]
    by (intro ndarray_eqI nth_equalityI) (auto simp: product_of_differences)
  with Z have "authentic p al (nd_map2 (\<lambda>a b. a * b mod p) X Y) z" by simp
  then show ?thesis using diff op z m'
    by (intro exI [of _ "count_multiply True m'"] exI [of _ z]) (simp add: mpc_multiply_def multiply_many_def count_multiply_def same_field_def)
qed

section \<open>Public scalars and polynomials\<close>

lemma scalar_smod:
  assumes "field_ok p al" "residue p c"
  shows "nd_map (smod p) (scalar c) = scalar c"
  using assms field_bounds(4) [OF assms(1)]
  by (simp add: scalar_def smod_def nd_map_def residue_def sint_of_int_small)

lemma sint_residue_of_int: "field_ok p al \<Longrightarrow> residue p c \<Longrightarrow> sint (of_int c :: 64 word) = c \<and> residue p (sint (of_int c :: 64 word))"
  using field_bounds(4) [of p al] by (simp add: residue_def sint_of_int_small)

lemma add_scalar_authentic:
  assumes m: "runs_in p al m" and x: "authentic p al X x" and c: "residue p c"
  shows "\<exists>z. mpc_add_public m x (scalar c) = Inr z \<and> authentic p al (nd_map (\<lambda>a. (a + c) mod p) X) z"
proof -
  have f: "field_ok p al" "am_modulus m = p" "am_alpha m = al" "0 < p" using m by (auto simp: runs_in_def field_ok_def)
  note S = authentic_shaped [OF x] and C = sint_residue_of_int [OF f(1) c]
  let ?sv = "nd_map (\<lambda>a. smod p (a + of_int c)) (sh_value (av_server x))"
  let ?sm = "nd_map (\<lambda>a. smod p (a + of_int al * of_int c)) (sh_mac (av_server x))"
  have run: "mpc_add_public m x (scalar c) = Inr \<lparr>av_client = \<lparr>sh_value = sh_value (av_client x), sh_mac = sh_mac (av_client x)\<rparr>,
      av_server = \<lparr>sh_value = ?sv, sh_mac = ?sm\<rparr>, av_modulus = p\<rparr>"
    using shapedD(1) [OF S(2)] shapedD(1) [OF S(4)] f scalar_smod [OF f(1) c] by (simp add: mpc_add_public_def bmap2_scalar)
  show ?thesis unfolding run
  proof (intro exI conjI, rule refl, rule authentic_shapedI, goal_cases)
    case (6 i)
    then have i: "i < prod_list (nd_shape X)" by simp
    note E = authentic_elem [OF x i]
    note R = elem_residues [OF E]
    have "sint (nd_data ?sv ! i) = (sint (nd_data (sh_value (av_server x)) ! i) + c) mod p"
      unfolding data_map [OF S(2) i] using sint_smod_linear(1) [OF f(1) R(3) conjunct2 [OF C]] C by simp
    moreover have "sint (nd_data ?sm ! i) = (sint (nd_data (sh_mac (av_server x)) ! i) + al * c) mod p"
      unfolding data_map [OF S(4) i] using sint_smod_linear(3) [OF f(1) R(5) conjunct2 [OF C]] C by simp
    ultimately show ?case using elem_public [OF f(4) E, of c] i authentic_length [OF x] by simp
  qed (use S authenticD(2) [OF x] in \<open>auto simp: shaped_def\<close>)
qed

lemma mul_scalar_authentic:
  assumes m: "runs_in p al m" and x: "authentic p al X x" and c: "residue p c"
  shows "\<exists>z. mpc_mul_public m x (scalar c) = Inr z \<and> authentic p al (nd_map (\<lambda>a. a * c mod p) X) z"
proof -
  have f: "field_ok p al" "am_modulus m = p" "am_alpha m = al" "0 < p" using m by (auto simp: runs_in_def field_ok_def)
  note S = authentic_shaped [OF x] and C = sint_residue_of_int [OF f(1) c]
  let ?f = "nd_map (\<lambda>a. smod p (a * of_int c)) :: s64array \<Rightarrow> s64array"
  have run: "mpc_mul_public m x (scalar c) = Inr \<lparr>av_client = \<lparr>sh_value = ?f (sh_value (av_client x)), sh_mac = ?f (sh_mac (av_client x))\<rparr>,
      av_server = \<lparr>sh_value = ?f (sh_value (av_server x)), sh_mac = ?f (sh_mac (av_server x))\<rparr>, av_modulus = p\<rparr>"
    using S [THEN shapedD(1)] f scalar_smod [OF f(1) c] by (simp add: mpc_mul_public_def on_arrays_def on_arrays2_def bmap2_scalar)
  show ?thesis unfolding run
  proof (intro exI conjI, rule refl, rule authentic_shapedI, goal_cases)
    case (6 i)
    then have i: "i < prod_list (nd_shape X)" by simp
    note E = authentic_elem [OF x i]
    note R = elem_residues [OF E]
    have w: "sint (smod p (a * of_int c)) = (c * sint a + 0 * sint a) mod p" if "residue p (sint a)" for a
      using sint_smod_linear(6) [OF f(1) that conjunct2 [OF C]] C by (simp add: mult.commute)
    show ?case unfolding data_map [OF S(1) i] data_map [OF S(2) i] data_map [OF S(3) i] data_map [OF S(4) i]
        w [OF R(2)] w [OF R(3)] w [OF R(4)] w [OF R(5)]
      using elem_combine [OF f(4) E E, of c 0] i authentic_length [OF x] by (simp add: mult.commute)
  qed (use S authenticD(2) [OF x] in \<open>auto simp: shaped_def\<close>)
qed

text \<open>The polynomial that coefficients, lowest first, stand for, and Horner's rule modulo \<open>p\<close>.\<close>

definition poly_at :: "int list \<Rightarrow> int \<Rightarrow> int" where
  "poly_at cs x = (\<Sum>i<length cs. cs ! i * x ^ i)"

definition horner_mod :: "int \<Rightarrow> int list \<Rightarrow> int \<Rightarrow> int \<Rightarrow> int" where
  "horner_mod p cs x r = foldl (\<lambda>acc c. ((acc * x mod p) + c) mod p) r cs"

lemma poly_at_Cons: "poly_at (c # cs) x = c + x * poly_at cs x"
  unfolding poly_at_def length_Cons sum.lessThan_Suc_shift by (simp add: sum_distrib_left mult.left_commute)

lemma horner_mod_poly: "r mod p = poly_at ds x mod p \<Longrightarrow> horner_mod p cs x r mod p = poly_at (rev cs @ ds) x mod p"
proof (induction cs arbitrary: r ds)
  case (Cons c cs)
  have "((r * x mod p) + c) mod p mod p = (((r mod p) * x) mod p + c) mod p" by (simp add: mod_mult_left_eq)
  also have "\<dots> = poly_at (c # ds) x mod p" unfolding Cons.prems by (simp add: poly_at_Cons mod_simps algebra_simps)
  finally show ?case using Cons.IH by (simp add: horner_mod_def)
qed (simp add: horner_mod_def)

lemma horner_authentic:
  assumes "\<forall>c \<in> set cs. residue p c" "length cs \<le> length ts" "list_all (auth_triple p al (nd_shape X)) ts"
    and x: "authentic p al X x" and "runs_in p al m" and "authentic p al (nd_map g X) r"
  shows "\<exists>m' z. horner m x cs ts r = (m', Inr z) \<and> same_field m m' \<and> authentic p al (nd_map (\<lambda>a. horner_mod p cs a (g a)) X) z
    \<and> ms_multiplication_rounds (am_stats m') = ms_multiplication_rounds (am_stats m) + length cs"
  using assms(1-3,5-)
proof (induction cs arbitrary: ts m g r)
  case Nil
  then show ?case by (auto simp: same_field_def horner_mod_def)
next
  case (Cons c cs)
  obtain t ts' where ts: "ts = t # ts'" using Cons.prems(2) by (cases ts) auto
  have t: "auth_triple p al (nd_shape (nd_map g X)) t" using Cons.prems(3) ts by simp
  obtain m1 z1 where 1: "mpc_multiply m r x t = (m1, Inr z1)" "same_field m m1"
    "authentic p al (nd_map2 (\<lambda>a b. a * b mod p) (nd_map g X) X) z1" "ms_multiplication_rounds (am_stats m1) = ms_multiplication_rounds (am_stats m) + 1"
    using multiply_authentic [OF Cons.prems(4) Cons.prems(5) x _ t] by auto
  have eq: "nd_map2 (\<lambda>a b. a * b mod p) (nd_map g X) X = nd_map (\<lambda>a. g a * a mod p) X"
    by (rule ndarray_eqI) (auto intro!: nth_equalityI)
  have m1: "runs_in p al m1" using same_field_runs [OF 1(2) Cons.prems(4)] .
  obtain z2 where 2: "mpc_add_public m1 z1 (scalar c) = Inr z2" "authentic p al (nd_map (\<lambda>a. (a + c) mod p) (nd_map (\<lambda>a. g a * a mod p) X)) z2"
    using add_scalar_authentic [OF m1 1(3) [unfolded eq]] Cons.prems(1) by auto
  have "authentic p al (nd_map (\<lambda>a. ((g a * a mod p) + c) mod p) X) z2" using 2(2) by (simp add: nd_map_def comp_def)
  then obtain m' z where 3: "horner m1 x cs ts' z2 = (m', Inr z)" "same_field m1 m'"
    "authentic p al (nd_map (\<lambda>a. horner_mod p cs a (((g a * a mod p) + c) mod p)) X) z"
    "ms_multiplication_rounds (am_stats m') = ms_multiplication_rounds (am_stats m1) + length cs"
    using Cons.IH [OF _ _ _ m1, of ts' "\<lambda>a. ((g a * a mod p) + c) mod p" z2] Cons.prems(1-3) ts by auto
  show ?case using 1 2 3 ts by (auto simp: same_field_def horner_mod_def)
qed

lemma polynomial_authentic:
  assumes m: "runs_in p al m" and x: "authentic p al X x" and cs: "cs \<noteq> []" "length cs \<le> Suc (length ts)"
    and ts: "list_all (auth_triple p al (nd_shape X)) ts"
  shows "\<exists>m' z. mpc_polynomial m x cs ts = (m', Inr z) \<and> same_field m m' \<and> authentic p al (nd_map (\<lambda>a. poly_at cs a mod p) X) z
    \<and> ms_multiplication_rounds (am_stats m') = ms_multiplication_rounds (am_stats m) + (length cs - 1)"
proof -
  have f: "field_ok p al" "am_modulus m = p" "0 < p" using m by (auto simp: runs_in_def field_ok_def)
  let ?cs = "map (\<lambda>c. c mod p) cs"
  have r0: "residue p 0" using f(3) by (simp add: residue_def)
  have rl: "residue p (last ?cs)" and rb: "\<forall>c \<in> set (rev (butlast ?cs)). residue p c"
    using f(3) cs by (auto simp: last_map dest!: in_set_butlastD)
  obtain z0 where z0: "mpc_mul_public m x (scalar 0) = Inr z0" "authentic p al (nd_map (\<lambda>a. a * 0 mod p) X) z0"
    using mul_scalar_authentic [OF m x r0] by auto
  obtain z1 where z1: "mpc_add_public m z0 (scalar (last ?cs)) = Inr z1" "authentic p al (nd_map (\<lambda>a. (a + last ?cs) mod p) (nd_map (\<lambda>a. a * 0 mod p) X)) z1"
    using add_scalar_authentic [OF m z0(2) rl] by auto
  have "authentic p al (nd_map (\<lambda>a. last ?cs) X) z1" using z1(2) rl by (simp add: nd_map_def comp_def residue_self)
  moreover have len: "length (rev (butlast ?cs)) \<le> length ts" using cs(2) by simp
  ultimately have "\<exists>m' z. horner m x (rev (butlast ?cs)) ts z1 = (m', Inr z) \<and> same_field m m'
    \<and> authentic p al (nd_map (\<lambda>a. horner_mod p (rev (butlast ?cs)) a (last ?cs)) X) z
    \<and> ms_multiplication_rounds (am_stats m') = ms_multiplication_rounds (am_stats m) + length (rev (butlast ?cs))"
    using horner_authentic [OF rb len ts x m] by blast
  then
  obtain m' z where h: "horner m x (rev (butlast ?cs)) ts z1 = (m', Inr z)" "same_field m m'"
    "authentic p al (nd_map (\<lambda>a. horner_mod p (rev (butlast ?cs)) a (last ?cs)) X) z"
    "ms_multiplication_rounds (am_stats m') = ms_multiplication_rounds (am_stats m) + (length cs - 1)" by auto
  have res: "horner_mod p ds a r = horner_mod p ds a r mod p" if "residue p r" for ds a r
    using that by (induction ds rule: rev_induct) (auto simp: horner_mod_def residue_self)
  have pm: "poly_at (map (\<lambda>c. c mod p) ds) a mod p = poly_at ds a mod p" for ds a
  proof (induction ds)
    case (Cons d ds)
    have "poly_at (map (\<lambda>c. c mod p) (d # ds)) a mod p = (d mod p + a * (poly_at (map (\<lambda>c. c mod p) ds) a mod p) mod p) mod p"
      unfolding list.map poly_at_Cons mod_add_right_eq mod_mult_right_eq ..
    also have "\<dots> = poly_at (d # ds) a mod p" unfolding Cons.IH poly_at_Cons mod_mult_right_eq mod_add_eq ..
    finally show ?case .
  qed simp
  have "horner_mod p (rev (butlast ?cs)) a (last ?cs) = poly_at cs a mod p" for a
  proof -
    have "horner_mod p (rev (butlast ?cs)) a (last ?cs) mod p = poly_at (rev (rev (butlast ?cs)) @ [last ?cs]) a mod p"
      by (rule horner_mod_poly) (simp add: poly_at_def)
    also have "\<dots> = poly_at cs a mod p" using cs(1) pm [of cs a] by simp
    finally show ?thesis using res [OF rl] by simp
  qed
  with h(3) have "authentic p al (nd_map (\<lambda>a. poly_at cs a mod p) X) z" by simp
  then show ?thesis
    using z0(1) z1(1) h cs f(2) by (cases "length cs = 1") (auto simp: mpc_polynomial_def Let_def length_Suc_conv)
qed

section \<open>Issued material\<close>

definition draws_in :: "TrustedPreprocessor \<Rightarrow> bool" where
  "draws_in t \<longleftrightarrow> (\<forall>i. residue (tp_modulus t) (tp_rng t i))"

definition issues_in :: "int \<Rightarrow> int \<Rightarrow> TrustedPreprocessor \<Rightarrow> bool" where
  "issues_in p al t \<longleftrightarrow> field_ok p al \<and> tp_modulus t = p \<and> tp_alpha t = al \<and> draws_in t"

lemma random_ok:
  assumes t: "issues_in p al t"
  shows "\<exists>t' R. pre_random t s = (t', nd_map of_int R) \<and> issues_in p al t' \<and> opened p R (nd_map of_int R) \<and> nd_shape R = s"
proof -
  let ?R = "\<lparr>nd_shape = s, nd_data = map (tp_rng t) [0..<prod_list s]\<rparr>"
  have "opened p ?R (nd_map of_int ?R)" using t by (auto simp: opened_def issues_in_def draws_in_def nd_wf_def)
  then show ?thesis using t
    by (intro exI [of _ "fst (pre_random t s)"] exI [of _ ?R]) (auto simp: pre_random_def Let_def issues_in_def draws_in_def nd_map_def)
qed

lemma smod_opened: "field_ok p al \<Longrightarrow> opened p D d \<Longrightarrow> nd_map (smod p) d = d"
proof -
  assume f: "field_ok p al" and d: "opened p D d"
  have "smod p (nd_data d ! i) = nd_data d ! i" if "i < prod_list (nd_shape D)" for i
    using openedD(3) [OF f d that] by (simp add: smod_def residue_self)
  then show ?thesis using openedD(1) [OF f d] by (intro ndarray_eqI nth_equalityI) (auto simp: shaped_def nd_wf_def)
qed

lemma share_authentic:
  assumes t: "issues_in p al t" and d: "opened p X d"
  shows "\<exists>t' v. pre_share t d = (t', v) \<and> issues_in p al t' \<and> authentic p al X v"
proof -
  have f: "field_ok p al" "tp_modulus t = p" "tp_alpha t = al" "0 < p" using t by (auto simp: issues_in_def field_ok_def)
  let ?s = "nd_shape X"
  have ds: "shaped ?s d" by (rule openedD(1) [OF f(1) d])
  obtain t1 R where R: "pre_random t ?s = (t1, nd_map of_int R)" "issues_in p al t1" "opened p R (nd_map of_int R)" "nd_shape R = ?s"
    using random_ok [OF t] by blast
  obtain t2 Q where Q: "pre_random t1 ?s = (t2, nd_map of_int Q)" "issues_in p al t2" "opened p Q (nd_map of_int Q)" "nd_shape Q = ?s"
    using random_ok [OF R(2)] by blast
  have a1: "tp_alpha t2 = al" using Q(2) by (simp add: issues_in_def)
  let ?cv = "nd_map of_int R :: s64array" and ?cm = "nd_map of_int Q :: s64array"
  have S: "shaped ?s ?cv" "shaped ?s ?cm" using openedD(1) [OF f(1) R(3)] openedD(1) [OF f(1) Q(3)] R(4) Q(4) by simp_all
  let ?sv = "nd_map2 (\<lambda>v c. smod p (v - c)) d ?cv" and ?sm = "nd_map2 (\<lambda>v c. smod p (of_int al * v - c)) d ?cm"
  have run: "pre_share t d = (t2, \<lparr>av_client = \<lparr>sh_value = ?cv, sh_mac = ?cm\<rparr>, av_server = \<lparr>sh_value = ?sv, sh_mac = ?sm\<rparr>, av_modulus = p\<rparr>)"
    using f R(1) Q(1) a1 smod_opened [OF f(1) d] shapedD(2) [OF ds] by (simp add: pre_share_def Let_def)
  have "authentic p al X \<lparr>av_client = \<lparr>sh_value = ?cv, sh_mac = ?cm\<rparr>, av_server = \<lparr>sh_value = ?sv, sh_mac = ?sm\<rparr>, av_modulus = p\<rparr>"
  proof (rule authentic_shapedI, goal_cases)
    case (6 i)
    note xi = openedD(2,3) [OF f(1) d 6] and ri = openedD(2,3) [OF f(1) R(3), unfolded R(4), OF 6] and qi = openedD(2,3) [OF f(1) Q(3), unfolded Q(4), OF 6]
    have sv: "sint (nd_data ?sv ! i) = (nd_data X ! i - nd_data R ! i) mod p"
      unfolding data_map2 [OF ds S(1) 6] sint_smod_linear(2) [OF f(1) xi(2) ri(2)] xi(1) ri(1) ..
    have sm: "sint (nd_data ?sm ! i) = (al * nd_data X ! i - nd_data Q ! i) mod p"
      unfolding data_map2 [OF ds S(2) 6] sint_smod_linear(4) [OF f(1) xi(2) qi(2)] xi(1) qi(1) ..
    have r: "residue p (nd_data X ! i)" "residue p (nd_data R ! i)" "residue p (nd_data Q ! i)" using xi ri qi by simp_all
    show ?case unfolding sv sm ri(1) qi(1) using r f(4) by (simp add: elem_def mod_add_right_eq residue_self)
  qed (use d ds S in \<open>auto simp: opened_def\<close>)
  then show ?thesis using run Q(2) by blast
qed

lemma opened_product:
  assumes f: "field_ok p al" and a: "opened p A a" and b: "opened p B b" and sh: "nd_shape B = nd_shape A"
  shows "opened p (nd_map2 (\<lambda>x y. x * y mod p) A B) (nd_map2 (\<lambda>x y. smod p (x * y)) a b)"
proof -
  have p: "0 < p" using f by (simp add: field_ok_def)
  have wf: "nd_wf A" "nd_wf B" using a b by (auto simp: opened_def)
  have S: "shaped (nd_shape A) a" "shaped (nd_shape A) b" using openedD(1) [OF f a] openedD(1) [OF f b] sh by simp_all
  have "smod p (nd_data a ! i * nd_data b ! i) = of_int (nd_data A ! i * nd_data B ! i mod p)" if i: "i < prod_list (nd_shape A)" for i
  proof -
    have ib: "i < prod_list (nd_shape B)" using i sh by simp
    show ?thesis using sint_smod_linear(6) [OF f openedD(3) [OF f a i] openedD(3) [OF f b ib]] openedD(2) [OF f a i] openedD(2) [OF f b ib]
      by (intro word_eq_sintI) simp
  qed
  then have "nd_map2 (\<lambda>x y. smod p (x * y)) a b = nd_map of_int (nd_map2 (\<lambda>x y. x * y mod p) A B)"
    using S wf sh by (intro ndarray_eqI nth_equalityI) (auto simp: shaped_def nd_wf_def)
  moreover have "\<forall>x \<in> set (nd_data (nd_map2 (\<lambda>x y. x * y mod p) A B)). residue p x" using p by (auto simp: set_zip)
  ultimately show ?thesis using wf sh by (auto simp: opened_def)
qed

lemma triple_authentic:
  assumes t: "issues_in p al t"
  shows "\<exists>t' tr. pre_multiplication_triple t s = (t', tr) \<and> issues_in p al t' \<and> auth_triple p al s tr"
proof -
  have f: "field_ok p al" using t by (simp add: issues_in_def)
  obtain t1 A where A: "pre_random t s = (t1, nd_map of_int A)" "issues_in p al t1" "opened p A (nd_map of_int A)" "nd_shape A = s"
    using random_ok [OF t] by blast
  obtain t2 B where B: "pre_random t1 s = (t2, nd_map of_int B)" "issues_in p al t2" "opened p B (nd_map of_int B)" "nd_shape B = s"
    using random_ok [OF A(2)] by blast
  have C: "opened p (nd_map2 (\<lambda>x y. x * y mod p) A B) (nd_map2 (\<lambda>x y. smod p (x * y)) (nd_map of_int A) (nd_map of_int B))"
    by (rule opened_product [OF f A(3) B(3)]) (simp add: A(4) B(4))
  obtain t3 a where a: "pre_share t2 (nd_map of_int A) = (t3, a)" "issues_in p al t3" "authentic p al A a" using share_authentic [OF B(2) A(3)] by blast
  obtain t4 b where b: "pre_share t3 (nd_map of_int B) = (t4, b)" "issues_in p al t4" "authentic p al B b" using share_authentic [OF a(2) B(3)] by blast
  obtain t5 c where c: "pre_share t4 (nd_map2 (\<lambda>x y. smod p (x * y)) (nd_map of_int A) (nd_map of_int B)) = (t5, c)" "issues_in p al t5"
    "authentic p al (nd_map2 (\<lambda>x y. x * y mod p) A B) c" using share_authentic [OF b(2) C] by blast
  have p2: "tp_modulus t2 = p" using B(2) by (simp add: issues_in_def)
  show ?thesis using A B a b c p2 by (auto simp: pre_multiplication_triple_def auth_triple_def)
qed

lemma input_authentic:
  assumes t: "issues_in p al t" and m: "runs_in p al m" and d: "opened p X (nd_map (smod p) d)" "shaped (nd_shape X) d"
  shows "\<exists>t' msk m' v. pre_input_mask t (nd_shape X) = (t', msk) \<and> issues_in p al t' \<and> mpc_input m d msk = (m', Inr v) \<and> same_field m m'
    \<and> authentic p al X v \<and> ms_multiplication_rounds (am_stats m') = ms_multiplication_rounds (am_stats m)"
proof -
  have f: "field_ok p al" "am_modulus m = p" "am_alpha m = al" "0 < p" using m by (auto simp: runs_in_def field_ok_def)
  let ?s = "nd_shape X" and ?d = "nd_map (smod p) d"
  obtain t1 R where R: "pre_random t ?s = (t1, nd_map of_int R)" "issues_in p al t1" "opened p R (nd_map of_int R)" "nd_shape R = ?s"
    using random_ok [OF t] by blast
  obtain t2 r where r: "pre_share t1 (nd_map of_int R) = (t2, r)" "issues_in p al t2" "authentic p al R r" using share_authentic [OF R(2,3)] by blast
  let ?e = "nd_map2 (\<lambda>v c. smod p (v - c)) ?d (nd_map of_int R)"
  have S: "shaped ?s ?d" "shaped ?s (nd_map of_int R)" "shaped ?s ?e" using openedD(1) [OF f(1) d(1)] openedD(1) [OF f(1) R(3)] R(4) by simp_all
  note T = authentic_shaped [OF r(3), unfolded R(4)]
  let ?sv = "nd_map2 (\<lambda>v e. smod p (v + e)) (sh_value (av_server r)) ?e" and ?sm = "nd_map2 (\<lambda>v e. smod p (v + of_int al * e)) (sh_mac (av_server r)) ?e"
  let ?v = "\<lparr>av_client = \<lparr>sh_value = sh_value (av_client r), sh_mac = sh_mac (av_client r)\<rparr>, av_server = \<lparr>sh_value = ?sv, sh_mac = ?sm\<rparr>, av_modulus = p\<rparr>"
  have "authentic p al X ?v"
  proof (rule authentic_shapedI, goal_cases)
    case (6 i)
    then have ir: "i < prod_list (nd_shape R)" by (simp add: R(4))
    note E = authentic_elem [OF r(3) ir]
    note xi = openedD(2,3) [OF f(1) d(1) 6] and ri = openedD(2,3) [OF f(1) R(3) ir]
    have e: "sint (nd_data ?e ! i) = (nd_data X ! i - nd_data R ! i) mod p"
      unfolding data_map2 [OF S(1,2) 6] sint_smod_linear(2) [OF f(1) xi(2) ri(2)] xi(1) ri(1) ..
    have re: "residue p (sint (nd_data ?e ! i))" unfolding e by (rule residue_mod [OF f(4)])
    have sv: "sint (nd_data ?sv ! i) = (sint (nd_data (sh_value (av_server r)) ! i) + (nd_data X ! i - nd_data R ! i) mod p) mod p"
      unfolding data_map2 [OF T(2) S(3) 6] sint_smod_linear(1) [OF f(1) elem_residues(3) [OF E] re] e ..
    have sm: "sint (nd_data ?sm ! i) = (sint (nd_data (sh_mac (av_server r)) ! i) + al * ((nd_data X ! i - nd_data R ! i) mod p)) mod p"
      unfolding data_map2 [OF T(4) S(3) 6] sint_smod_linear(3) [OF f(1) elem_residues(5) [OF E] re] e ..
    have "(nd_data R ! i + (nd_data X ! i - nd_data R ! i) mod p) mod p = nd_data X ! i"
      using xi by (simp add: mod_add_right_eq residue_self)
    then show ?case unfolding sv sm using elem_public [OF f(4) E, of "(nd_data X ! i - nd_data R ! i) mod p"] by simp
  qed (use d S T in \<open>auto simp: opened_def\<close>)
  moreover have "mpc_input m d \<lparr>im_clear_mask = nd_map of_int R, im_shared_mask = r\<rparr>
      = (m\<lparr>am_stats := (am_stats m)\<lparr>ms_uploaded_bytes := ms_uploaded_bytes (am_stats m) + nd_size ?e * 8\<rparr>\<rparr>, Inr ?v)"
    unfolding mpc_input_def Let_def f InputMask.simps bmap2_shaped [OF T(2) S(3)] bmap2_shaped [OF T(4) S(3)] onS_Inr
    using d(2) R(4) by (simp add: shaped_def)
  ultimately show ?thesis using R(1) r by (fastforce simp: pre_input_mask_def same_field_def)
qed

section \<open>Linear layers\<close>

lemma of_int_sum_list: "of_int (sum_list xs) = (sum_list (map of_int xs) :: 'a :: ring_1)"
  by (induction xs) auto

lemma matmul_of_int:
  assumes "nd_wf X" "nd_shape X \<noteq> []" "nd_wf W" "nd_shape W = [n, last (nd_shape X)]"
  shows "nd_matmul_t (nd_map of_int X :: s64array) (nd_map of_int W) = nd_map of_int (nd_matmul_t X W)"
proof (rule ndarray_eqI)
  let ?k = "last (nd_shape X)" and ?r = "prod_list (butlast (nd_shape X))"
  have sz: "length (nd_data X) = ?r * ?k" using assms nd_size_butlast [of X] by (simp add: nd_wf_length)
  have wl: "length (nd_data W) = n * ?k" using assms by (simp add: nd_wf_def)
  show "nd_data (nd_matmul_t (nd_map of_int X :: s64array) (nd_map of_int W)) = nd_data (nd_map of_int (nd_matmul_t X W))"
  proof (rule nth_equalityI)
    fix j assume "j < length (nd_data (nd_matmul_t (nd_map of_int X :: s64array) (nd_map of_int W)))"
    then have j: "j < ?r * n" using assms by (simp add: nd_matmul_t_def Let_def)
    then have "j div n < ?r" "j mod n < n" by (auto simp: less_mult_imp_div_less) (metis mod_less_divisor mult_0_right not_gr_zero not_less_zero)
    then have ix: "(j div n) * ?k + t < ?r * ?k" "(j mod n) * ?k + t < n * ?k" if "t < ?k" for t using row_index_less that by auto
    show "nd_data (nd_matmul_t (nd_map of_int X :: s64array) (nd_map of_int W)) ! j = nd_data (nd_map of_int (nd_matmul_t X W)) ! j"
      using j assms ix sz wl
      by (simp add: nd_matmul_t_def Let_def of_int_sum_list comp_def) (intro arg_cong [of _ _ sum_list] map_cong; simp)
  qed (use assms in \<open>simp add: nd_matmul_t_def Let_def\<close>)
qed (simp add: nd_matmul_t_def Let_def)

lemma matmul_entry:
  assumes "nd_shape W = [n, last (nd_shape X)]" "j < prod_list (butlast (nd_shape X)) * n"
  shows "nd_data (nd_matmul_t X W) ! j
    = sum_list (map (\<lambda>t. nd_data X ! ((j div n) * last (nd_shape X) + t) * nd_data W ! ((j mod n) * last (nd_shape X) + t)) [0..<last (nd_shape X)])"
  using assms by (simp add: nd_matmul_t_def Let_def)

lemma matmul_last_shape: "nd_shape W = [n, k] \<Longrightarrow> nd_shape (nd_matmul_t X W) = butlast (nd_shape X) @ [n]"
  by (simp add: nd_matmul_t_def Let_def)

text \<open>A weight of \<open>n\<close> rows whose products with residues of width \<open>k\<close> fit the signed 64-bit sum.\<close>

definition weight_ok :: "int \<Rightarrow> nat \<Rightarrow> nat \<Rightarrow> int ndarray \<Rightarrow> s64array \<Rightarrow> bool" where
  "weight_ok p n k W w \<longleftrightarrow> opened p W w \<and> nd_shape W = [n, k] \<and> int k * (p * p) < 2 ^ 63"

lemma index_bounds:
  fixes j :: nat
  assumes "j < r * n"
  shows "j div n < r" "j mod n < n"
  using assms by (auto simp: less_mult_imp_div_less) (metis mod_less_divisor mult_0_right not_gr_zero not_less_zero)

lemma entry_bound:
  assumes D: "opened p D d" and W: "weight_ok p n (last (nd_shape D)) W w" and ne: "nd_shape D \<noteq> []"
    and j: "j < prod_list (butlast (nd_shape D)) * n"
  shows "0 \<le> nd_data (nd_matmul_t D W) ! j \<and> nd_data (nd_matmul_t D W) ! j < 2 ^ 63"
proof -
  let ?k = "last (nd_shape D)" and ?r = "prod_list (butlast (nd_shape D))"
  have ix: "j div n < ?r" "j mod n < n" using index_bounds [OF j] .
  have sz: "length (nd_data D) = ?r * ?k" using D ne nd_size_butlast [of D] by (simp add: opened_def nd_wf_length)
  have wl: "length (nd_data W) = n * ?k" and ws: "nd_shape W = [n, ?k]" using W by (auto simp: opened_def weight_ok_def nd_wf_def)
  let ?e = "\<lambda>t. nd_data D ! ((j div n) * ?k + t) * nd_data W ! ((j mod n) * ?k + t)"
  have e: "0 \<le> ?e t \<and> ?e t \<le> p * p" if "t < ?k" for t
  proof (rule prod_residue)
    show "residue p (nd_data D ! ((j div n) * ?k + t))" using D row_index_less [OF ix(1) that] sz by (auto simp: opened_def)
    show "residue p (nd_data W ! ((j mod n) * ?k + t))" using W row_index_less [OF ix(2) that] wl by (auto simp: opened_def weight_ok_def)
  qed
  have "sum_list (map ?e [0..<?k]) \<le> sum_list (map (\<lambda>_. p * p) [0..<?k])" using e by (intro sum_list_mono) auto
  moreover have "0 \<le> sum_list (map ?e [0..<?k])" using e by (intro sum_list_nonneg) auto
  moreover have "sum_list (map (\<lambda>_. p * p) [0..<?k]) = int ?k * (p * p)" by (simp add: map_replicate_const sum_list_replicate)
  ultimately show ?thesis using W unfolding matmul_entry [OF ws j] weight_ok_def by simp
qed

lemma matmul_opened:
  assumes f: "field_ok p al" and D: "opened p D d" and W: "weight_ok p n (last (nd_shape D)) W w" and ne: "nd_shape D \<noteq> []"
  shows "\<exists>z. matmul_last d w p = Inr z \<and> opened p (nd_map (\<lambda>x. x mod p) (nd_matmul_t D W)) z"
proof -
  have p: "0 < p" using f by (simp add: field_ok_def)
  have ws: "nd_shape W = [n, last (nd_shape D)]" using W by (simp add: weight_ok_def)
  have d: "d = nd_map of_int D" "nd_wf D" and w: "w = nd_map of_int W" "nd_wf W" using D W by (auto simp: opened_def weight_ok_def)
  have mm: "nd_matmul_t d w = nd_map of_int (nd_matmul_t D W)" unfolding d(1) w(1) by (rule matmul_of_int [OF d(2) ne w(2) ws])
  have sm: "smod p (of_int x) = of_int (x mod p)" if "x \<in> set (nd_data (nd_matmul_t D W))" for x
  proof -
    from that obtain j where "j < length (nd_data (nd_matmul_t D W))" "x = nd_data (nd_matmul_t D W) ! j" by (auto simp: in_set_conv_nth)
    moreover have "length (nd_data (nd_matmul_t D W)) = prod_list (butlast (nd_shape D)) * n" using ws by (simp add: nd_matmul_t_def Let_def)
    ultimately have "0 \<le> x" "x < 2 ^ 63" using entry_bound [OF D W ne] by auto
    then show ?thesis using smod64_of_int [OF refl] p by blast
  qed
  have "nd_map (smod p) (nd_matmul_t d w) = nd_map of_int (nd_map (\<lambda>x. x mod p) (nd_matmul_t D W))"
    unfolding mm using sm by (intro ndarray_eqI) auto
  then show ?thesis using d w ws p by (auto simp: matmul_last_def opened_def nd_matmul_t_wf)
qed

text \<open>The masked input and the mask recombine in the product.\<close>

lemma matmul_recombine:
  fixes p :: int
  assumes sh: "nd_shape R = nd_shape X" "nd_wf X" "nd_wf R" "nd_shape X \<noteq> []" and W: "nd_shape W = [n, last (nd_shape X)]"
    and j: "j < prod_list (butlast (nd_shape X)) * n"
  shows "(nd_data (nd_matmul_t R W) ! j mod p + nd_data (nd_matmul_t (nd_map2 (\<lambda>a b. (a - b) mod p) X R) W) ! j mod p) mod p
    = nd_data (nd_matmul_t X W) ! j mod p"
proof -
  let ?k = "last (nd_shape X)" and ?D = "nd_map2 (\<lambda>a b. (a - b) mod p) X R"
  let ?i = "\<lambda>t. (j div n) * ?k + t" and ?w = "\<lambda>t. nd_data W ! ((j mod n) * ?k + t)"
  have len: "length (nd_data X) = prod_list (butlast (nd_shape X)) * ?k" "length (nd_data R) = length (nd_data X)"
    using sh nd_size_butlast [of X] by (simp_all add: nd_wf_length) (simp add: nd_wf_def nd_size_def)
  have i: "?i t < length (nd_data X)" if "t < ?k" for t using row_index_less [OF index_bounds(1) [OF j] that] len by simp
  define q where "q = (\<lambda>t. (nd_data X ! ?i t - nd_data R ! ?i t) div p)"
  have step: "nd_data R ! ?i t * ?w t + nd_data ?D ! ?i t * ?w t = nd_data X ! ?i t * ?w t + - (p * (q t * ?w t))" if "t \<in> set [0..<?k]" for t
  proof -
    have "nd_data X ! ?i t - nd_data R ! ?i t - p * q t = (nd_data X ! ?i t - nd_data R ! ?i t) mod p" by (simp only: q_def minus_mult_div_eq_mod)
    then have "nd_data ?D ! ?i t = nd_data X ! ?i t - nd_data R ! ?i t - p * q t" using i [of t] that len by simp
    then show ?thesis by algebra
  qed
  have "nd_data (nd_matmul_t R W) ! j + nd_data (nd_matmul_t ?D W) ! j
      = sum_list (map (\<lambda>t. nd_data X ! ?i t * ?w t + - (p * (q t * ?w t))) [0..<?k])"
  proof -
    have "nd_data (nd_matmul_t R W) ! j + nd_data (nd_matmul_t ?D W) ! j = sum_list (map (\<lambda>t. nd_data R ! ?i t * ?w t + nd_data ?D ! ?i t * ?w t) [0..<?k])"
      using W j sh by (simp add: matmul_entry [where n = n] sum_list_map_add [symmetric])
    also have "\<dots> = sum_list (map (\<lambda>t. nd_data X ! ?i t * ?w t + - (p * (q t * ?w t))) [0..<?k])" by (rule sum_list_map_cong [OF step])
    finally show ?thesis .
  qed
  also have "\<dots> = nd_data (nd_matmul_t X W) ! j + p * sum_list (map (\<lambda>t. - (q t * ?w t)) [0..<?k])"
    unfolding matmul_entry [OF W j] sum_list_map_add sum_list_const_mult [symmetric] by simp
  finally show ?thesis using mod_shift by (simp add: mod_add_eq)
qed

lemma linear_output_authentic:
  assumes m: "runs_in p al m" and R: "nd_shape R = nd_shape X" "nd_wf X" "nd_wf R" "nd_shape X \<noteq> []"
    and base: "authentic p al (nd_map (\<lambda>x. x mod p) (nd_matmul_t R W)) (lc_transformed_input c)"
    and W: "weight_ok p n (last (nd_shape X)) W w" and D: "opened p (nd_map2 (\<lambda>a b. (a - b) mod p) X R) d"
  shows "\<exists>z. linear_output m (d, w, c) = Inr z \<and> authentic p al (nd_map (\<lambda>x. x mod p) (nd_matmul_t X W)) z"
proof -
  have f: "field_ok p al" "am_modulus m = p" "am_alpha m = al" "0 < p" using m by (auto simp: runs_in_def field_ok_def)
  let ?D = "nd_map2 (\<lambda>a b. (a - b) mod p) X R" and ?b = "lc_transformed_input c"
  have ws: "nd_shape W = [n, last (nd_shape X)]" using W by (simp add: weight_ok_def)
  have WD: "weight_ok p n (last (nd_shape ?D)) W w" "nd_shape ?D \<noteq> []" using W R by simp_all
  obtain z where z: "matmul_last d w p = Inr z" "opened p (nd_map (\<lambda>x. x mod p) (nd_matmul_t ?D W)) z"
    using matmul_opened [OF f(1) D WD] by blast
  let ?s = "butlast (nd_shape X) @ [n]"
  have shp: "nd_shape (nd_map (\<lambda>x. x mod p) (nd_matmul_t R W)) = ?s" "nd_shape (nd_map (\<lambda>x. x mod p) (nd_matmul_t ?D W)) = ?s"
    "nd_shape (nd_map (\<lambda>x. x mod p) (nd_matmul_t X W)) = ?s"
    using matmul_last_shape [OF ws, of R] matmul_last_shape [OF ws, of ?D] matmul_last_shape [OF ws, of X] R by simp_all
  note T = authentic_shaped [OF base, unfolded shp] and Z = openedD(1) [OF f(1) z(2), unfolded shp]
  show ?thesis unfolding linear_output_def Let_def prod.case f z(1) bindE_Inr bmap2_shaped [OF T(2) Z] bmap2_shaped [OF T(4) Z]
  proof (intro exI conjI)
    have "authentic p al (nd_map (\<lambda>x. x mod p) (nd_matmul_t X W)) \<lparr>av_client = \<lparr>sh_value = sh_value (av_client ?b), sh_mac = sh_mac (av_client ?b)\<rparr>,
        av_server = \<lparr>sh_value = nd_map2 (\<lambda>b t. smod p (b + t)) (sh_value (av_server ?b)) z,
          sh_mac = nd_map2 (\<lambda>b t. smod p (b + of_int al * t)) (sh_mac (av_server ?b)) z\<rparr>, av_modulus = p\<rparr>"
    proof (rule authentic_shapedI, goal_cases)
      case (6 i)
      then have i: "i < prod_list ?s" unfolding shp .
      then have j: "i < prod_list (butlast (nd_shape X)) * n" by simp
      have ib: "i < prod_list (nd_shape (nd_map (\<lambda>x. x mod p) (nd_matmul_t R W)))" and iz: "i < prod_list (nd_shape (nd_map (\<lambda>x. x mod p) (nd_matmul_t ?D W)))"
        using i shp by simp_all
      note E = authentic_elem [OF base ib] and zi = openedD(2,3) [OF f(1) z(2) iz]
      have len: "length (nd_data (nd_matmul_t R W)) = prod_list ?s" "length (nd_data (nd_matmul_t ?D W)) = prod_list ?s"
        "length (nd_data (nd_matmul_t X W)) = prod_list ?s"
        using nd_matmul_t_wf [of R W] nd_matmul_t_wf [of ?D W] nd_matmul_t_wf [of X W] shp by (simp_all add: nd_wf_def)
      have rec: "(nd_data (nd_map (\<lambda>x. x mod p) (nd_matmul_t R W)) ! i + nd_data (nd_map (\<lambda>x. x mod p) (nd_matmul_t ?D W)) ! i) mod p
          = nd_data (nd_map (\<lambda>x. x mod p) (nd_matmul_t X W)) ! i"
        using matmul_recombine [OF R ws j, of p] i len by simp
      show ?case unfolding data_map2 [OF T(2) Z i] data_map2 [OF T(4) Z i]
          sint_smod_linear(1) [OF f(1) elem_residues(3) [OF E] zi(2)] sint_smod_linear(3) [OF f(1) elem_residues(5) [OF E] zi(2)] zi(1)
        using elem_public [OF f(4) E, of "nd_data (nd_map (\<lambda>x. x mod p) (nd_matmul_t ?D W)) ! i"] unfolding rec .
    qed (use T Z shp nd_matmul_t_wf in auto)
    then show "authentic p al (nd_map (\<lambda>x. x mod p) (nd_matmul_t X W)) \<lparr>av_client = av_client ?b,
        av_server = \<lparr>sh_value = nd_map2 (\<lambda>b t. smod p (b + t)) (sh_value (av_server ?b)) z,
          sh_mac = nd_map2 (\<lambda>b t. smod p (b + of_int al * t)) (sh_mac (av_server ?b)) z\<rparr>, av_modulus = p\<rparr>" by (cases "av_client ?b") simp
  qed simp
qed

lemma linear_correlation_authentic:
  assumes t: "issues_in p al t" and s: "s \<noteq> []" and W: "weight_ok p n (last s) W (nd_map (smod p) weight)"
  shows "\<exists>t' c R. pre_linear_correlation t weight s = (t', Inr c) \<and> issues_in p al t' \<and> lc_input_shape c = s \<and> nd_shape R = s
    \<and> authentic p al R (lc_random_input c) \<and> authentic p al (nd_map (\<lambda>x. x mod p) (nd_matmul_t R W)) (lc_transformed_input c)"
proof -
  have f: "field_ok p al" "tp_modulus t = p" using t by (auto simp: issues_in_def)
  obtain t1 R where R: "pre_random t s = (t1, nd_map of_int R)" "issues_in p al t1" "opened p R (nd_map of_int R)" "nd_shape R = s"
    using random_ok [OF t] by blast
  obtain z where z: "matmul_last (nd_map of_int R) (nd_map (smod p) weight) p = Inr z" "opened p (nd_map (\<lambda>x. x mod p) (nd_matmul_t R W)) z"
    using matmul_opened [OF f(1) R(3), of n W "nd_map (smod p) weight"] W s R(4) by auto
  obtain t2 a where a: "pre_share t1 (nd_map of_int R) = (t2, a)" "issues_in p al t2" "authentic p al R a" using share_authentic [OF R(2,3)] by blast
  obtain t3 b where b: "pre_share t2 z = (t3, b)" "issues_in p al t3" "authentic p al (nd_map (\<lambda>x. x mod p) (nd_matmul_t R W)) b"
    using share_authentic [OF a(2) z(2)] by blast
  have w: "nd_shape weight = [n, last s]" using W by (auto simp: weight_ok_def opened_def nd_map_def)
  have p1: "tp_modulus t1 = p" using R(2) by (simp add: issues_in_def)
  show ?thesis using f(2) R z a b w s p1 by (auto simp: pre_linear_correlation_def Let_def)
qed

lemma linear_authentic:
  assumes m: "runs_in p al m" and x: "authentic p al X x" and s: "nd_shape X \<noteq> []" and W: "weight_ok p n (last (nd_shape X)) W (nd_map (smod p) weight)"
    and c: "lc_input_shape c = nd_shape X" "nd_shape R = nd_shape X" "authentic p al R (lc_random_input c)"
      "authentic p al (nd_map (\<lambda>x. x mod p) (nd_matmul_t R W)) (lc_transformed_input c)"
  shows "\<exists>m' z. mpc_linear m x weight c = (m', Inr z) \<and> same_field m m' \<and> authentic p al (nd_map (\<lambda>x. x mod p) (nd_matmul_t X W)) z"
proof -
  have f: "am_modulus m = p" using m by (simp add: runs_in_def)
  let ?D = "nd_map2 (\<lambda>a b. (a - b) mod p) X R"
  obtain d where d: "mpc_sub m x (lc_random_input c) = Inr d" "authentic p al ?D d" using sub_authentic [OF m x c(3,2)] by blast
  obtain m' where op: "open_many m [d] False True = (m', Inr [nd_map of_int ?D])" "same_field m m'"
    using open_many_authentic [OF m, of "[?D]" "[d]" False True] d(2) by auto
  note wf = authenticD(2) [OF x] authenticD(2) [OF c(3)]
  obtain z where z: "linear_output m' (nd_map of_int ?D, nd_map (smod p) weight, c) = Inr z" "authentic p al (nd_map (\<lambda>x. x mod p) (nd_matmul_t X W)) z"
    using linear_output_authentic [OF same_field_runs [OF op(2) m] c(2) wf s c(4) W opened_authentic [OF d(2)]] by blast
  have w: "length (nd_shape weight) = 2" "nd_shape weight ! 1 = last (nd_shape X)"
    using W by (auto simp: weight_ok_def opened_def) (metis One_nat_def length_Cons list.size(3) nd_map_simps(1) nth_Cons_0 nth_Cons_Suc numeral_2_eq_2)+
  have "linear_differences m [(x, weight, c)] = Inr ([d], [nd_map (smod p) weight])"
    using d(1) c(1) w f authenticD(11) [OF x] by (simp add: Let_def)
  then show ?thesis using op z
    by (intro exI [of _ "count_linear True m'"] exI [of _ z]) (simp add: mpc_linear_def linear_many_def count_linear_def same_field_def)
qed

section \<open>End-to-end computation\<close>

text \<open>A sequence of triples for one shape, as a caller draws them from the preprocessor.\<close>

fun issue_triples :: "nat \<Rightarrow> TrustedPreprocessor \<Rightarrow> nat list \<Rightarrow> TrustedPreprocessor \<times> MultiplicationTriple list" where
  "issue_triples 0 t s = (t, [])"
| "issue_triples (Suc n) t s = (let (t, tr) = pre_multiplication_triple t s; (t, trs) = issue_triples n t s in (t, tr # trs))"

lemma issue_triples_authentic:
  "issues_in p al t \<Longrightarrow> \<exists>t' ts. issue_triples n t s = (t', ts) \<and> issues_in p al t' \<and> length ts = n \<and> list_all (auth_triple p al s) ts"
proof (induction n arbitrary: t)
  case (Suc n)
  then obtain t1 tr where 1: "pre_multiplication_triple t s = (t1, tr)" "issues_in p al t1" "auth_triple p al s tr" using triple_authentic by blast
  with Suc.IH [OF 1(2)] show ?case by auto
qed simp

text \<open>The residues of an \<^verbatim>\<open>int64\<close> array.\<close>

definition residues_of :: "int \<Rightarrow> s64array \<Rightarrow> int ndarray" where
  "residues_of p a = nd_map (\<lambda>x. sint x mod p) a"

lemma opened_residues: "0 < p \<Longrightarrow> nd_wf a \<Longrightarrow> opened p (residues_of p a) (nd_map (smod p) a)"
  by (auto simp: opened_def residues_of_def smod_def nd_map_def nd_wf_def)

lemma issues_init: "TrustedPreprocessor_init p al rng = Inr t \<Longrightarrow> field_ok p al \<Longrightarrow> (\<forall>i. residue p (rng i)) \<Longrightarrow>
    issues_in p al t \<and> runs_in p al (AuthenticatedMPC_init t)"
  by (auto simp: TrustedPreprocessor_init_def res_simps issues_in_def draws_in_def runs_in_def AuthenticatedMPC_init_def)

lemma mpc_open_authentic:
  assumes m: "runs_in p al m" and v: "authentic p al X v"
  shows "\<exists>m'. mpc_open m v tc = (m', Inr (nd_map of_int X))"
  using open_many_authentic [OF m, of "[X]" "[v]" tc True] v by (auto simp: mpc_open_def)

text \<open>
  C24: Authenticated polynomial evaluation is exact. A client value entered through an input mask, a polynomial of any
  degree evaluated with that many triples of the preprocessor, and the opening of the result all succeed, use one multiplication
  round per degree, and return the value of the polynomial at every element modulo the field, for every key, every generator and every
  modulus \<open>p\<close> with \<open>p ^ 3 + 2 * p ^ 2 + p < 2 ^ 63\<close>, for which the 64-bit products of the server's authentication share cannot overflow.
  The constructor accepts larger moduli; they are excluded.
\<close>

theorem auth_polynomial:
  assumes "TrustedPreprocessor_init p al rng = Inr t0" and "p ^ 3 + 2 * p ^ 2 + p < 2 ^ 63" and "\<forall>i. 0 \<le> rng i \<and> rng i < p"
    and "nd_wf clear" and "coefficients \<noteq> []"
  shows "\<exists>t1 msk m1 x t2 ts m2 y m3.
    pre_input_mask t0 (nd_shape clear) = (t1, msk) \<and> mpc_input (AuthenticatedMPC_init t0) clear msk = (m1, Inr x)
    \<and> issue_triples (length coefficients - 1) t1 (nd_shape clear) = (t2, ts)
    \<and> mpc_polynomial m1 x coefficients ts = (m2, Inr y)
    \<and> ms_multiplication_rounds (am_stats m2) = length coefficients - 1
    \<and> mpc_open m2 y True = (m3, Inr (nd_map (\<lambda>v. of_int (poly_at coefficients (sint v mod p) mod p)) clear))"
proof -
  have f: "field_ok p al" using assms(1,2) by (auto simp: TrustedPreprocessor_init_def res_simps field_ok_def)
  have p: "0 < p" using f by (simp add: field_ok_def)
  have i: "issues_in p al t0" "runs_in p al (AuthenticatedMPC_init t0)" using issues_init [OF assms(1) f] assms(3) by (auto simp: residue_def)
  let ?X = "residues_of p clear"
  have X: "nd_shape ?X = nd_shape clear" by (simp add: residues_of_def)
  have d: "opened p ?X (nd_map (smod p) clear)" "shaped (nd_shape ?X) clear" using opened_residues [OF p assms(4)] assms(4) by (auto simp: shaped_def X)
  obtain t1 msk m1 x where 1: "pre_input_mask t0 (nd_shape clear) = (t1, msk)" "issues_in p al t1" "mpc_input (AuthenticatedMPC_init t0) clear msk = (m1, Inr x)"
    "same_field (AuthenticatedMPC_init t0) m1" "authentic p al ?X x" "ms_multiplication_rounds (am_stats m1) = 0"
    using input_authentic [OF i d] unfolding X by (auto simp: AuthenticatedMPC_init_def)
  obtain t2 ts where 2: "issue_triples (length coefficients - 1) t1 (nd_shape clear) = (t2, ts)" "length ts = length coefficients - 1" "list_all (auth_triple p al (nd_shape ?X)) ts"
    using issue_triples_authentic [OF 1(2)] unfolding X by blast
  note m1 = same_field_runs [OF 1(4) i(2)]
  have len: "length coefficients \<le> Suc (length ts)" using 2(2) assms(5) by (simp add: Suc_le_eq)
  obtain m2 y where 3: "mpc_polynomial m1 x coefficients ts = (m2, Inr y)" "same_field m1 m2" "authentic p al (nd_map (\<lambda>a. poly_at coefficients a mod p) ?X) y"
    "ms_multiplication_rounds (am_stats m2) = length coefficients - 1"
    using polynomial_authentic [OF m1 1(5) assms(5) len 2(3)] 1(6) by auto
  obtain m3 where 4: "mpc_open m2 y True = (m3, Inr (nd_map of_int (nd_map (\<lambda>a. poly_at coefficients a mod p) ?X)))"
    using mpc_open_authentic [OF same_field_runs [OF 3(2) m1] 3(3)] by blast
  have "nd_map of_int (nd_map (\<lambda>a. poly_at coefficients a mod p) ?X) = (nd_map (\<lambda>v. of_int (poly_at coefficients (sint v mod p) mod p)) clear :: s64array)"
    by (simp add: residues_of_def nd_map_def)
  then show ?thesis using 1 2 3 4 by metis
qed

theorem auth_polynomial_witness:
  "\<exists>t1 msk m1 x t2 ts m2 y m3.
    pre_input_mask \<lparr>tp_modulus = 65537, tp_alpha = 12345, tp_rng = (\<lambda>i. int (7 * i mod 1000))\<rparr> [2] = (t1, msk)
    \<and> mpc_input (AuthenticatedMPC_init \<lparr>tp_modulus = 65537, tp_alpha = 12345, tp_rng = (\<lambda>i. int (7 * i mod 1000))\<rparr>)
        \<lparr>nd_shape = [2], nd_data = [3, 10 :: 64 word]\<rparr> msk = (m1, Inr x)
    \<and> issue_triples 2 t1 [2] = (t2, ts) \<and> mpc_polynomial m1 x [1, 2, 3] ts = (m2, Inr y) \<and> ms_multiplication_rounds (am_stats m2) = 2
    \<and> mpc_open m2 y True = (m3, Inr \<lparr>nd_shape = [2], nd_data = [34, 321 :: 64 word]\<rparr>)"
proof -
  have "TrustedPreprocessor_init 65537 12345 (\<lambda>i. int (7 * i mod 1000)) = Inr \<lparr>tp_modulus = 65537, tp_alpha = 12345, tp_rng = (\<lambda>i. int (7 * i mod 1000))\<rparr>"
    by (simp add: TrustedPreprocessor_init_def)
  moreover have "\<forall>i. 0 \<le> int (7 * i mod 1000) \<and> int (7 * i mod 1000) < 65537"
  proof
    fix i :: nat
    have "7 * i mod 1000 < 1000" by simp
    then show "0 \<le> int (7 * i mod 1000) \<and> int (7 * i mod 1000) < 65537" by linarith
  qed
  ultimately show ?thesis
    using auth_polynomial [of 65537 12345 "\<lambda>i. int (7 * i mod 1000)" _ "\<lparr>nd_shape = [2], nd_data = [3, 10 :: 64 word]\<rparr>" "[1, 2, 3]"]
    by (simp add: nd_wf_def nd_map_def poly_at_def numeral_2_eq_2)
qed

text \<open>
  An authenticated linear layer is exact. With a correlation of the preprocessor for a weight matrix whose row sums fit the 64-bit product, a
  client value entered through an input mask passes the layer, its opening succeeds, and every output is the product of the matrix with the input modulo the field.
\<close>

lemma auth_linear:
  assumes "TrustedPreprocessor_init p al rng = Inr t0" and "p ^ 3 + 2 * p ^ 2 + p < 2 ^ 63" and "\<forall>i. 0 \<le> rng i \<and> rng i < p"
    and "nd_wf clear" and "nd_shape clear \<noteq> []" and "nd_wf weight" and "nd_shape weight = [n, last (nd_shape clear)]"
    and "int (last (nd_shape clear)) * (p * p) < 2 ^ 63"
  shows "\<exists>t1 msk m1 x t2 c m2 y m3.
    pre_input_mask t0 (nd_shape clear) = (t1, msk) \<and> mpc_input (AuthenticatedMPC_init t0) clear msk = (m1, Inr x)
    \<and> pre_linear_correlation t1 weight (nd_shape clear) = (t2, Inr c) \<and> mpc_linear m1 x weight c = (m2, Inr y)
    \<and> mpc_open m2 y True = (m3, Inr (nd_map (\<lambda>v. of_int (v mod p)) (nd_matmul_t (residues_of p clear) (residues_of p weight))))"
proof -
  have f: "field_ok p al" using assms(1,2) by (auto simp: TrustedPreprocessor_init_def res_simps field_ok_def)
  have p: "0 < p" using f by (simp add: field_ok_def)
  have i: "issues_in p al t0" "runs_in p al (AuthenticatedMPC_init t0)" using issues_init [OF assms(1) f] assms(3) by (auto simp: residue_def)
  let ?X = "residues_of p clear" and ?W = "residues_of p weight"
  have X: "nd_shape ?X = nd_shape clear" by (simp add: residues_of_def)
  have d: "opened p ?X (nd_map (smod p) clear)" "shaped (nd_shape ?X) clear" using opened_residues [OF p assms(4)] assms(4) by (auto simp: shaped_def X)
  have W: "weight_ok p n (last (nd_shape clear)) ?W (nd_map (smod p) weight)"
    using opened_residues [OF p assms(6)] assms(7,8) by (simp add: weight_ok_def residues_of_def)
  obtain t1 msk m1 x where 1: "pre_input_mask t0 (nd_shape clear) = (t1, msk)" "issues_in p al t1" "mpc_input (AuthenticatedMPC_init t0) clear msk = (m1, Inr x)"
    "same_field (AuthenticatedMPC_init t0) m1" "authentic p al ?X x"
    using input_authentic [OF i d] unfolding X by blast
  obtain t2 c R where 2: "pre_linear_correlation t1 weight (nd_shape clear) = (t2, Inr c)" "lc_input_shape c = nd_shape clear" "nd_shape R = nd_shape clear"
    "authentic p al R (lc_random_input c)" "authentic p al (nd_map (\<lambda>x. x mod p) (nd_matmul_t R ?W)) (lc_transformed_input c)"
    using linear_correlation_authentic [OF 1(2) assms(5) W] by blast
  note m1 = same_field_runs [OF 1(4) i(2)]
  obtain m2 y where 3: "mpc_linear m1 x weight c = (m2, Inr y)" "same_field m1 m2" "authentic p al (nd_map (\<lambda>x. x mod p) (nd_matmul_t ?X ?W)) y"
    using linear_authentic [OF m1 1(5), of n ?W weight c R] 2 W assms(5) unfolding X by blast
  obtain m3 where 4: "mpc_open m2 y True = (m3, Inr (nd_map of_int (nd_map (\<lambda>x. x mod p) (nd_matmul_t ?X ?W))))"
    using mpc_open_authentic [OF same_field_runs [OF 3(2) m1] 3(3)] by blast
  have "nd_map of_int (nd_map (\<lambda>x. x mod p) (nd_matmul_t ?X ?W)) = (nd_map (\<lambda>v. of_int (v mod p)) (nd_matmul_t ?X ?W) :: s64array)"
    by (simp add: nd_map_def)
  then show ?thesis using 1 2 3 4 by metis
qed

section \<open>Forgeries\<close>

lemma tampered_opening:
  assumes m: "runs_in p al m" and v: "authentic p al X v" and dv: "opened p V dv" "nd_shape V = nd_shape X" and dm: "opened p M dm" "nd_shape M = nd_shape X"
    and w: "tamper_client v dv dm = Inr w" and op: "open_without_stats m w = Inr c" and i: "i < prod_list (nd_shape X)"
  shows "p dvd al * nd_data V ! i - nd_data M ! i"
proof -
  have f: "field_ok p al" "am_modulus m = p" "am_alpha m = al" "0 < p" using m by (auto simp: runs_in_def field_ok_def)
  note S = authentic_shaped [OF v] and mv = authenticD(1) [OF v]
  have D: "shaped (nd_shape X) dv" "shaped (nd_shape X) dm" using openedD(1) [OF f(1) dv(1)] openedD(1) [OF f(1) dm(1)] dv(2) dm(2) by simp_all
  let ?add = "\<lambda>x d. smod p (x + d)"
  let ?cv = "nd_map2 ?add (sh_value (av_client v)) dv" and ?cm = "nd_map2 ?add (sh_mac (av_client v)) dm"
  have w': "w = \<lparr>av_client = \<lparr>sh_value = ?cv, sh_mac = ?cm\<rparr>, av_server = av_server v, av_modulus = p\<rparr>"
    using w unfolding tamper_client_def Let_def mv bmap2_shaped [OF S(1) D(1)] bmap2_shaped [OF S(3) D(2)] by simp
  let ?clear = "nd_map2 ?add ?cv (sh_value (av_server v))" and ?mac = "nd_map2 ?add ?cm (sh_mac (av_server v))"
  have T: "shaped (nd_shape X) ?cv" "shaped (nd_shape X) ?cm" using S D by simp_all
  have C: "shaped (nd_shape X) ?clear" "shaped (nd_shape X) ?mac" using S T by simp_all
  have bs: "bmap2 ?add ?cv (sh_value (av_server v)) = Inr ?clear" "bmap2 ?add ?cm (sh_mac (av_server v)) = Inr ?mac"
    using bmap2_shaped [OF T(1) S(2)] bmap2_shaped [OF T(2) S(4)] by blast+
  have eq: "?mac = nd_map (\<lambda>x. smod p (of_int al * x)) ?clear"
    using op unfolding open_without_stats_def Let_def f w' PartyShare.simps AuthenticatedValue.simps bs
    by (simp add: bindE_eq_Inr raise_if_eq_Inr)
  have iV: "i < prod_list (nd_shape V)" and iM: "i < prod_list (nd_shape M)" using i dv(2) dm(2) by simp_all
  note E = authentic_elem [OF v i] and vi = openedD(2,3) [OF f(1) dv(1) iV] and mi = openedD(2,3) [OF f(1) dm(1) iM]
  note R = elem_residues [OF E]
  let ?a = "sint (nd_data (sh_value (av_client v)) ! i)" and ?b = "sint (nd_data (sh_value (av_server v)) ! i)"
  let ?c = "sint (nd_data (sh_mac (av_client v)) ! i)" and ?d = "sint (nd_data (sh_mac (av_server v)) ! i)"
  have cv: "sint (nd_data ?cv ! i) = (?a + nd_data V ! i) mod p" and cm: "sint (nd_data ?cm ! i) = (?c + nd_data M ! i) mod p"
    unfolding data_map2 [OF S(1) D(1) i] data_map2 [OF S(3) D(2) i] sint_smod_linear(1) [OF f(1) R(2) vi(2)] sint_smod_linear(1) [OF f(1) R(4) mi(2)] vi(1) mi(1)
    by (rule refl)+
  have rcv: "residue p (sint (nd_data ?cv ! i))" "residue p (sint (nd_data ?cm ! i))" unfolding cv cm using f(4) by simp_all
  have clear: "sint (nd_data ?clear ! i) = ((?a + nd_data V ! i) mod p + ?b) mod p"
    unfolding data_map2 [OF T(1) S(2) i] sint_smod_linear(1) [OF f(1) rcv(1) R(3)] cv ..
  have mac: "sint (nd_data ?mac ! i) = ((?c + nd_data M ! i) mod p + ?d) mod p"
    unfolding data_map2 [OF T(2) S(4) i] sint_smod_linear(1) [OF f(1) rcv(2) R(5)] cm ..
  have rc: "residue p (sint (nd_data ?clear ! i))" unfolding clear using f(4) by simp
  have "sint (nd_data ?mac ! i) = (al * sint (nd_data ?clear ! i)) mod p"
    unfolding eq data_map [OF C(1) i] by (rule sint_smod_linear(5) [OF f(1) rc rc])
  then have "(?c + nd_data M ! i + ?d) mod p = (al * (?a + nd_data V ! i + ?b)) mod p"
    unfolding clear mac by (simp add: mod_add_left_eq mod_mult_right_eq)
  then obtain k where k: "?c + nd_data M ! i + ?d = al * (?a + nd_data V ! i + ?b) + p * k" by (rule mod_shiftE)
  obtain s t where st: "?a + ?b = nd_data X ! i + p * s" "?c + ?d = al * nd_data X ! i + p * t" by (rule elemE [OF E])
  have "al * nd_data V ! i - nd_data M ! i = p * (t - al * s - k)" using k st by algebra
  then show ?thesis by simp
qed

lemma prime_cancels:
  fixes p :: int
  assumes prime: "\<forall>d > 0. d dvd p \<longrightarrow> d = 1 \<or> d = p" and p: "2 < p" and d: "0 < d" "d < p" and "p dvd a * d"
  shows "p dvd a"
proof -
  have g: "0 < gcd p d" "gcd p d dvd p" using p by auto
  have "gcd p d \<noteq> p"
  proof
    assume "gcd p d = p"
    then have "p dvd d" by (metis gcd_dvd2)
    then show False using d zdvd_imp_le by fastforce
  qed
  with prime[rule_format, OF g] have "gcd p d = 1" by blast
  then have "coprime p d" by (simp only: coprime_iff_gcd_eq_1)
  then show ?thesis using assms(5) by (simp add: coprime_dvd_mult_left_iff)
qed

text \<open>
  C33: A forgery passes for at most one key. When the modulus \<open>p\<close> is prime with \<open>p ^ 3 + 2 * p ^ 2 + p < 2 ^ 63\<close> (part of
  \<open>runs_in\<close>; the larger moduli that the constructor accepts are excluded, their products can wrap) and a client adds fixed differences to its value and authentication shares, the
  value difference being non-zero in some element, then two openings that accept the forgery have been made under the same key, whatever the
  shared values are. Of the \<open>p - 1\<close> possible keys at most one accepts it.
\<close>

theorem forgery_key_unique:
  assumes "\<forall>d > 0. d dvd p \<longrightarrow> d = 1 \<or> d = p"
    and "runs_in p al1 m1" "authentic p al1 X1 v1" and "runs_in p al2 m2" "authentic p al2 X2 v2" "nd_shape X2 = nd_shape X1"
    and "nd_wf V" "nd_wf M" "nd_shape V = nd_shape X1" "nd_shape M = nd_shape X1" "\<forall>x \<in> set (nd_data V) \<union> set (nd_data M). 0 \<le> x \<and> x < p"
    and "i < prod_list (nd_shape X1)" "nd_data V ! i \<noteq> 0"
    and "tamper_client v1 (nd_map of_int V) (nd_map of_int M) = Inr w1" "snd (mpc_open m1 w1 c) = Inr r1"
    and "tamper_client v2 (nd_map of_int V) (nd_map of_int M) = Inr w2" "snd (mpc_open m2 w2 c) = Inr r2"
  shows "al1 = al2"
proof -
  have o: "opened p V (nd_map of_int V)" "opened p M (nd_map of_int M)" using assms(7,8,11) by (auto simp: opened_def residue_def)
  have op: "\<exists>c. open_without_stats m w = Inr c" if "snd (mpc_open m w c) = Inr r" for m w r
    using that by (cases "open_without_stats m w") (auto simp: mpc_open_def open_many_def)
  have "p dvd al1 * nd_data V ! i - nd_data M ! i" "p dvd al2 * nd_data V ! i - nd_data M ! i"
    using tampered_opening [OF assms(2,3) o(1) _ o(2) _ assms(14)] op [OF assms(15)]
      tampered_opening [OF assms(4,5) o(1) _ o(2) _ assms(16)] op [OF assms(17)] assms(6,9,10,12) by auto
  then have "p dvd (al1 - al2) * nd_data V ! i" by (metis (no_types, lifting) diff_diff_eq2 diff_add_cancel dvd_diff left_diff_distrib)
  moreover have "0 < nd_data V ! i \<and> nd_data V ! i < p"
    using assms(7,9,11,12,13) by (metis UnI1 less_le nd_wf_def nth_mem)
  ultimately have d: "p dvd al1 - al2" using prime_cancels [OF assms(1)] assms(2) by (auto simp: runs_in_def field_ok_def)
  have b: "0 < al1" "al1 < p" "0 < al2" "al2 < p" using assms(2,4) by (auto simp: runs_in_def field_ok_def)
  show ?thesis using d b zdvd_imp_le [of p "al1 - al2"] zdvd_imp_le [of p "al2 - al1"] by (cases al1 al2 rule: linorder_cases) (auto simp: dvd_diff_commute)
qed

theorem forgery_key_unique_witness:
  "\<exists>m v w r. snd (mpc_open m v True) = Inr \<lparr>nd_shape = [1], nd_data = [0 :: 64 word]\<rparr>
     \<and> tamper_client v \<lparr>nd_shape = [1], nd_data = [1]\<rparr> \<lparr>nd_shape = [1], nd_data = [2]\<rparr> = Inr w \<and> snd (mpc_open m w True) = Inr r \<and> am_alpha m = (2 :: int)"
proof -
  let ?z = "\<lparr>nd_shape = [1], nd_data = [0 :: 64 word]\<rparr>"
  define m where "m = AuthenticatedMPC_init \<lparr>tp_modulus = 5, tp_alpha = 2, tp_rng = (\<lambda>_. 0)\<rparr>"
  define v where "v = \<lparr>av_client = \<lparr>sh_value = ?z, sh_mac = ?z\<rparr>, av_server = \<lparr>sh_value = ?z, sh_mac = ?z\<rparr>, av_modulus = 5 :: int\<rparr>"
  define w where "w = \<lparr>av_client = \<lparr>sh_value = \<lparr>nd_shape = [1], nd_data = [1 :: 64 word]\<rparr>, sh_mac = \<lparr>nd_shape = [1], nd_data = [2]\<rparr>\<rparr>, av_server = \<lparr>sh_value = ?z, sh_mac = ?z\<rparr>, av_modulus = 5 :: int\<rparr>"
  have r: "runs_in 5 2 m" by (simp add: runs_in_def field_ok_def m_def AuthenticatedMPC_init_def)
  have a: "authentic 5 2 \<lparr>nd_shape = [1], nd_data = [0]\<rparr> v" by (simp add: authentic_def v_def nd_wf_def nd_size_def cell_def elem_def residue_def)
  have t: "tamper_client v (nd_map of_int \<lparr>nd_shape = [1], nd_data = [1]\<rparr>) (nd_map of_int \<lparr>nd_shape = [1], nd_data = [2]\<rparr>) = Inr w"
    unfolding v_def w_def by code_simp
  have o: "snd (mpc_open m w True) = Inr \<lparr>nd_shape = [1], nd_data = [1]\<rparr>" "snd (mpc_open m v True) = Inr ?z" unfolding m_def v_def w_def by code_simp+
  have d: "\<forall>d > 0. d dvd (5 :: int) \<longrightarrow> d = 1 \<or> d = 5"
  proof (intro allI impI)
    fix d :: int assume "0 < d" "d dvd 5"
    moreover from this have "d \<in> {1, 2, 3, 4, 5}" using zdvd_imp_le [of d 5] by auto
    ultimately show "d = 1 \<or> d = 5" by auto
  qed
  have "2 = (2 :: int)"
    by (rule forgery_key_unique [OF d r a r a, of "\<lparr>nd_shape = [1], nd_data = [1]\<rparr>" "\<lparr>nd_shape = [1], nd_data = [2]\<rparr>" 0, OF _ _ _ _ _ _ _ _ t o(1) t o(1)]) (auto simp: nd_wf_def)
  then have "am_alpha m = 2" using r by (simp add: runs_in_def)
  moreover have "tamper_client v \<lparr>nd_shape = [1], nd_data = [1]\<rparr> \<lparr>nd_shape = [1], nd_data = [2]\<rparr> = Inr w" using t by (simp add: nd_map_def)
  ultimately show ?thesis using o by blast
qed

text \<open>
  Overflow breaks honest computations. The preprocessor accepts the Mersenne prime \<open>2 ^ 31 - 1\<close> as a modulus, and with it
  the product of an honestly shared value with itself is rejected at its opening as if it had been tampered with: the
  product of the key with the two opened differences does not fit 64 bits.
\<close>

lemma large_modulus_rejects:
  "\<exists>t x m z. TrustedPreprocessor_init 2147483647 2147483646 (\<lambda>_. 0) = Inr t
     \<and> public_value (AuthenticatedMPC_init t) \<lparr>nd_shape = [1], nd_data = [2147483646]\<rparr> None = Inr x
     \<and> mpc_multiply (AuthenticatedMPC_init t) x x (snd (pre_multiplication_triple t [1])) = (m, Inr z)
     \<and> snd (mpc_open m z True) = Inl (AuthenticationError ''authenticated share check failed'')"
proof -
  define t where "t = \<lparr>tp_modulus = 2147483647, tp_alpha = 2147483646, tp_rng = (\<lambda>_. 0)\<rparr>"
  have t: "TrustedPreprocessor_init 2147483647 2147483646 (\<lambda>_. 0) = Inr t" by (simp add: TrustedPreprocessor_init_def t_def)
  define x where "x = \<lparr>av_client = \<lparr>sh_value = \<lparr>nd_shape = [1], nd_data = [0]\<rparr>, sh_mac = \<lparr>nd_shape = [1], nd_data = [0]\<rparr>\<rparr>,
    av_server = \<lparr>sh_value = \<lparr>nd_shape = [1], nd_data = [2147483646 :: 64 word]\<rparr>, sh_mac = \<lparr>nd_shape = [1], nd_data = [1 :: 64 word]\<rparr>\<rparr>, av_modulus = 2147483647 :: int\<rparr>"
  have x: "public_value (AuthenticatedMPC_init t) \<lparr>nd_shape = [1], nd_data = [2147483646]\<rparr> None = Inr x"
    unfolding t_def x_def by code_simp
  have "case mpc_multiply (AuthenticatedMPC_init t) x x (snd (pre_multiplication_triple t [1])) of
      (m, Inr z) \<Rightarrow> snd (mpc_open m z True) = Inl (AuthenticationError ''authenticated share check failed'') | _ \<Rightarrow> False"
    unfolding t_def x_def by code_simp
  then show ?thesis using t x by (auto split: prod.splits sum.splits)
qed

end
