(* ===== verification/Preparation_Protocol.thy ===== *)
theory Preparation_Protocol
  imports Msgpack
begin

text \<open>
  The records of \<^verbatim>\<open>runtime/preparation_protocol.py\<close> with their validation: ring profiles, preparation requests,
  correction pushes, session authorizations and acknowledgements, and the identifiers derived for the rows of a bulk preparation. SHA-256 and MessagePack are
  parameters. The decoders, which coerce arbitrary values, are left out; the mask expansion is with the engine that uses it.
\<close>

section \<open>Ring profiles and shared checks\<close>

record SeededRingProfile =
  rp_signed_output_bound :: int
  rp_ring :: string
  rp_modulus :: int
  rp_wire_bits :: int

fun profile_for :: "int \<Rightarrow> nat list \<Rightarrow> SeededRingProfile res" where
  "profile_for bound [] = Inl (ProtocolError ''stage signed output exceeds exact ring range'')"
| "profile_for bound (bits # widths) =
     (if bound < 2 ^ (bits - 1)
      then Inr \<lparr>rp_signed_output_bound = bound, rp_ring = ''u'' @ str_nat bits, rp_modulus = 2 ^ bits, rp_wire_bits = int bits\<rparr>
      else profile_for bound widths)"

definition seeded_ring_profile :: "int \<Rightarrow> SeededRingProfile res" where
  "seeded_ring_profile bound =
     raise_if (bound < 0) (ProtocolError ''signed output bound must be non-negative'') (profile_for bound [16, 24, 32])"

text \<open>The pattern \<^verbatim>\<open>[0-9a-f]{32}\<close> matched against the whole text.\<close>

definition lower_hex :: "char \<Rightarrow> bool" where
  "lower_hex c \<longleftrightarrow> c \<in> set ''0123456789abcdef''"

definition validate_attempt_id :: "string \<Rightarrow> unit res" where
  "validate_attempt_id v =
     raise_if (\<not> (length v = 32 \<and> list_all lower_hex v)) (ProtocolError ''attempt id must encode at least 128 random bits'') (Inr ())"

definition validate_identifiers :: "string list \<Rightarrow> string \<Rightarrow> unit res" where
  "validate_identifiers values kind =
     raise_if (list_ex (\<lambda>v. v = []) values) (ProtocolError (kind @ '' identifiers and commitments must be non-empty''))
    (raise_if (list_ex (\<lambda>v. utf8_len v > 512) values) (ProtocolError (kind @ '' identifier is too large'')) (Inr ()))"

definition validate_shape :: "int \<Rightarrow> int \<Rightarrow> int \<Rightarrow> string \<Rightarrow> int option \<Rightarrow> int option \<Rightarrow> unit res" where
  "validate_shape rows in_features out_features kind max_rows max_tensor_elements =
     raise_if (rows \<le> 0 \<or> in_features \<le> 0 \<or> out_features \<le> 0) (ProtocolError (kind @ '' shape must be positive''))
    (raise_if (case max_rows of None \<Rightarrow> False | Some n \<Rightarrow> rows > n) (ProtocolError (kind @ '' row count exceeds model context''))
    (raise_if (case max_tensor_elements of None \<Rightarrow> False | Some n \<Rightarrow> max (rows * in_features) (rows * out_features) > n)
       (ProtocolError (kind @ '' tensor allocation is too large'')) (Inr ())))"

section \<open>Prepared stages\<close>

text \<open>The fields that a preparation request and a correction push share, in the order of the source.\<close>

record PreparedBinding =
  pb_attempt_id :: string
  pb_session_id :: string
  pb_model :: string
  pb_body_fingerprint :: string
  pb_stage_id :: string
  pb_weight_digest :: string
  pb_rows :: int
  pb_in_features :: int
  pb_out_features :: int
  pb_weight_bits :: int
  pb_activation_bits :: int
  pb_signed_output_bound :: int
  pb_ring :: string
  pb_modulus :: int
  pb_wire_bits :: int

record PreparationRequest = PreparedBinding +
  pr_seed :: bytes

record CorrectionPush = PreparedBinding +
  cp_correction :: "32 word ndarray"
  cp_server_ns :: int
  cp_output_residue_bits :: "bytes option"

text \<open>The tuple of \<^verbatim>\<open>metadata\<close>; a stage request may carry no ring, which equals none of the texts.\<close>

record StageMetadata =
  sm_session_id :: string
  sm_model :: string
  sm_body_fingerprint :: string
  sm_attempt_id :: string
  sm_stage_id :: string
  sm_weight_digest :: string
  sm_rows :: int
  sm_in_features :: int
  sm_out_features :: int
  sm_weight_bits :: int
  sm_activation_bits :: int
  sm_signed_output_bound :: int
  sm_ring :: "string option"
  sm_modulus :: int
  sm_wire_bits :: int

definition prepared_metadata :: "'a PreparedBinding_scheme \<Rightarrow> StageMetadata" where
  "prepared_metadata b = \<lparr>sm_session_id = pb_session_id b, sm_model = pb_model b, sm_body_fingerprint = pb_body_fingerprint b,
     sm_attempt_id = pb_attempt_id b, sm_stage_id = pb_stage_id b, sm_weight_digest = pb_weight_digest b, sm_rows = pb_rows b,
     sm_in_features = pb_in_features b, sm_out_features = pb_out_features b, sm_weight_bits = pb_weight_bits b,
     sm_activation_bits = pb_activation_bits b, sm_signed_output_bound = pb_signed_output_bound b, sm_ring = Some (pb_ring b),
     sm_modulus = pb_modulus b, sm_wire_bits = pb_wire_bits b\<rparr>"

definition prepared_profile :: "'a PreparedBinding_scheme \<Rightarrow> SeededRingProfile" where
  "prepared_profile b = \<lparr>rp_signed_output_bound = pb_signed_output_bound b, rp_ring = pb_ring b, rp_modulus = pb_modulus b, rp_wire_bits = pb_wire_bits b\<rparr>"

definition prepared_identifiers :: "'a PreparedBinding_scheme \<Rightarrow> string list" where
  "prepared_identifiers b = [pb_session_id b, pb_model b, pb_body_fingerprint b, pb_stage_id b, pb_weight_digest b]"

text \<open>\<^verbatim>\<open>self.profile != seeded_ring_profile(self.signed_output_bound)\<close>, where the call itself may raise.\<close>

definition check_profile :: "'a PreparedBinding_scheme \<Rightarrow> string \<Rightarrow> unit res" where
  "check_profile b msg = bindE (seeded_ring_profile (pb_signed_output_bound b)) (\<lambda>p.
     raise_if (prepared_profile b \<noteq> p) (ProtocolError msg) (Inr ()))"

definition PreparationRequest_validate :: "PreparationRequest \<Rightarrow> int option \<Rightarrow> int option \<Rightarrow> unit res" where
  "PreparationRequest_validate r max_rows max_tensor_elements =
     bindE (validate_attempt_id (pb_attempt_id r)) (\<lambda>_.
     raise_if (length (pr_seed r) \<noteq> 32) (ProtocolError ''preparation seed must be 32 bytes'')
    (bindE (validate_identifiers (prepared_identifiers r) ''preparation'') (\<lambda>_.
     bindE (validate_shape (pb_rows r) (pb_in_features r) (pb_out_features r) ''preparation'' max_rows max_tensor_elements) (\<lambda>_.
     raise_if (pb_weight_bits r \<notin> {4, 8} \<or> pb_activation_bits r \<notin> {4, 8}) (ProtocolError ''unsupported preparation quantization'')
       (check_profile r ''seeded ring profile is insufficient or inconsistent'')))))"

definition CorrectionPush_validate :: "CorrectionPush \<Rightarrow> int option \<Rightarrow> int option \<Rightarrow> unit res" where
  "CorrectionPush_validate c max_rows max_tensor_elements =
     bindE (validate_attempt_id (pb_attempt_id c)) (\<lambda>_.
     bindE (validate_identifiers (prepared_identifiers c) ''correction'') (\<lambda>_.
     bindE (validate_shape (pb_rows c) (pb_in_features c) (pb_out_features c) ''correction'' max_rows max_tensor_elements) (\<lambda>_.
     raise_if (pb_weight_bits c \<notin> {4, 8} \<or> pb_activation_bits c \<notin> {4, 8}) (ProtocolError ''unsupported correction quantization'')
    (bindE (check_profile c ''invalid correction ring profile'') (\<lambda>_.
     raise_if (case cp_output_residue_bits c of None \<Rightarrow> False
         | Some widths \<Rightarrow> int (length widths) \<noteq> pb_out_features c \<or> pb_rows c * pb_out_features c > 4000000
             \<or> list_ex (\<lambda>w. \<not> (1 \<le> int (unat w) \<and> int (unat w) \<le> pb_wire_bits c)) widths)
       (ProtocolError ''invalid correction residue layout'') (Inr ()))))))"

text \<open>The identifier of one row of a bulk preparation: the first 16 bytes of a hash over the binding and the row.\<close>

definition row_domain :: "'a PreparedBinding_scheme \<Rightarrow> int \<Rightarrow> mval" where
  "row_domain b row = MArr [MStr (pb_session_id b), MStr (pb_model b), MStr (pb_body_fingerprint b), MStr (pb_attempt_id b),
     MStr (pb_stage_id b), MStr (pb_weight_digest b), MInt (pb_rows b), MInt (pb_in_features b), MInt (pb_out_features b),
     MInt (pb_weight_bits b), MInt (pb_activation_bits b), MInt (pb_signed_output_bound b), MStr (pb_ring b),
     MInt (pb_modulus b), MInt (pb_wire_bits b), MInt row]"

definition ascii :: "string \<Rightarrow> bytes" where
  "ascii s = map (\<lambda>c. of_nat (of_char c)) s"

definition derive_id ::
  "packer \<Rightarrow> (bytes \<Rightarrow> digest) \<Rightarrow> unit res \<Rightarrow> 'a PreparedBinding_scheme \<Rightarrow> int \<Rightarrow> string res" where
  "derive_id packb sha256 valid b row =
     bindE valid (\<lambda>_.
     raise_if (row < 0 \<or> row \<ge> pb_rows b) (ProtocolError ''bulk preparation row index is out of bounds'')
       (Inr (hex_of (take 16 (digest_bytes (sha256 (ascii ''pllm-online-attempt-id-v1'' @ [0] @ packb (row_domain b row))))))))"

definition request_attempt_id :: "packer \<Rightarrow> (bytes \<Rightarrow> digest) \<Rightarrow> PreparationRequest \<Rightarrow> int \<Rightarrow> string res" where
  "request_attempt_id packb sha256 r row = derive_id packb sha256 (PreparationRequest_validate r None None) r row"

definition correction_attempt_id :: "packer \<Rightarrow> (bytes \<Rightarrow> digest) \<Rightarrow> CorrectionPush \<Rightarrow> int \<Rightarrow> string res" where
  "correction_attempt_id packb sha256 c row = derive_id packb sha256 (CorrectionPush_validate c None None) c row"

section \<open>Session authorizations\<close>

record SessionAuthorization =
  sa_session_id :: string
  sa_model :: string
  sa_body_fingerprint :: string
  sa_stage_commitment :: string
  sa_weight_bits :: int
  sa_activation_bits :: int
  sa_max_attempts :: int
  sa_rows :: int
  sa_stage_ids :: "string list"
  sa_verification_component :: string
  sa_verification_target_failure_bits :: int
  sa_stage_rows :: "int list"

fun index_of :: "'a \<Rightarrow> 'a list \<Rightarrow> nat option" where
  "index_of x [] = None"
| "index_of x (y # ys) = (if x = y then Some 0 else map_option Suc (index_of x ys))"

definition rows_for :: "SessionAuthorization \<Rightarrow> string \<Rightarrow> int res" where
  "rows_for a stage_id = (case index_of stage_id (sa_stage_ids a) of
     None \<Rightarrow> Inl (ProtocolError ''unauthorized preparation stage'')
   | Some index \<Rightarrow> if sa_stage_rows a \<noteq> []
       then (if index < length (sa_stage_rows a) then Inr (sa_stage_rows a ! index) else Inl (LibraryError ''IndexError'' ''tuple index out of range''))
       else Inr (sa_rows a))"

definition check_verification :: "string \<Rightarrow> int \<Rightarrow> unit res" where
  "check_verification component bits =
     (if component = ''none'' then raise_if (bits \<noteq> 0) (ProtocolError ''disabled verification requires a zero failure target'') (Inr ())
      else if component = ''pllm/freivalds-verify/v1'' then raise_if (\<not> (1 \<le> bits \<and> bits \<le> 80)) (ProtocolError ''invalid Freivalds failure target'') (Inr ())
      else Inl (ProtocolError ''unsupported verification component''))"

definition SessionAuthorization_validate :: "SessionAuthorization \<Rightarrow> unit res" where
  "SessionAuthorization_validate a =
     bindE (validate_identifiers [sa_session_id a, sa_model a, sa_body_fingerprint a, sa_stage_commitment a] ''session authorization'') (\<lambda>_.
     raise_if (sa_weight_bits a \<notin> {4, 8} \<or> sa_activation_bits a \<notin> {4, 8}) (ProtocolError ''unsupported session authorization quantization'')
    (raise_if (sa_max_attempts a \<le> 0) (ProtocolError ''session authorization attempt budget must be positive'')
    (bindE (validate_identifiers (sa_stage_ids a) ''session authorization stage'') (\<lambda>_.
     bindE (check_verification (sa_verification_component a) (sa_verification_target_failure_bits a)) (\<lambda>_.
     raise_if (sa_rows a \<le> 0 \<or> sa_stage_ids a = [] \<or> \<not> distinct (sa_stage_ids a)) (ProtocolError ''invalid session authorization inventory shape'')
    (raise_if (sa_stage_rows a \<noteq> [] \<and> (length (sa_stage_rows a) \<noteq> length (sa_stage_ids a)
         \<or> list_ex (\<lambda>n. \<not> (1 \<le> n \<and> n \<le> sa_rows a)) (sa_stage_rows a)))
       (ProtocolError ''invalid stage-specific preparation rows'')
    (raise_if (sa_max_attempts a \<noteq> (if sa_stage_rows a \<noteq> [] then sum_list (sa_stage_rows a) else sa_rows a * int (length (sa_stage_ids a))))
       (ProtocolError ''session authorization attempt budget mismatch'') (Inr ()))))))))"

section \<open>Acknowledgements\<close>

record PreparationAck =
  pa_attempt_id :: string
  pa_stage_id :: string
  pa_correction_bytes :: int
  pa_server_ns :: int
  pa_push_ns :: int
  pa_verification_component :: string
  pa_verification_checks :: int
  pa_verification_max_row_l1 :: int
  pa_verification_material_id :: bytes
  pa_verification_tag :: bytes
  pa_verification_payload :: bytes
  pa_correction_rows :: "int option"
  pa_correction_row_payload_bytes :: "int option"
  pa_correction_ack_bytes :: "int option"
  pa_correction_row_payload_bits_per_row :: "int option"

definition validate_body_counts :: "PreparationAck \<Rightarrow> unit res" where
  "validate_body_counts a =
     (let counts = [pa_correction_rows a, pa_correction_row_payload_bytes a, pa_correction_ack_bytes a, pa_correction_row_payload_bits_per_row a] in
      if list_all (\<lambda>c. c = None) counts then Inr ()
      else case (pa_correction_rows a, pa_correction_row_payload_bytes a, pa_correction_ack_bytes a, pa_correction_row_payload_bits_per_row a) of
        (Some rows, Some payload, Some ack, Some bits) \<Rightarrow>
          raise_if (rows < 0 \<or> payload < 0 \<or> ack < 0 \<or> bits < 0 \<or> rows = 0 \<or> payload > pa_correction_bytes a \<or> bits = 0
              \<or> (rows * bits + 7) div 8 \<noteq> payload)
            (ProtocolError ''invalid correction body accounting'') (Inr ())
      | _ \<Rightarrow> Inl (ProtocolError ''invalid correction body accounting''))"

definition material_body_bytes_by_phase :: "PreparationAck \<Rightarrow> int \<Rightarrow> int \<Rightarrow> (int \<times> int) res" where
  "material_body_bytes_by_phase a prefill_rows decode_rows =
     bindE (validate_body_counts a) (\<lambda>_.
     case (pa_correction_rows a, pa_correction_row_payload_bits_per_row a) of
       (Some rows, Some bits) \<Rightarrow>
         raise_if (prefill_rows < 0 \<or> decode_rows < 0 \<or> prefill_rows + decode_rows > rows
             \<or> int (length (pa_verification_payload a)) mod rows \<noteq> 0)
           (ProtocolError ''invalid preparation phase accounting'')
         (let prefix_bits = prefill_rows * bits;
              end_bits = (prefill_rows + decode_rows) * bits;
              prefix_bytes = (if prefill_rows = rows then (prefix_bits + 7) div 8 else prefix_bits div 8);
              end_bytes = (if prefill_rows + decode_rows = rows then (end_bits + 7) div 8 else end_bits div 8);
              decode_bytes = (if decode_rows \<noteq> 0 then max 0 (end_bytes - (prefix_bits + 7) div 8) else 0);
              verification_row_bytes = int (length (pa_verification_payload a)) div rows
          in Inr (prefix_bytes + prefill_rows * verification_row_bytes, decode_bytes + decode_rows * verification_row_bytes))
     | _ \<Rightarrow> Inl (ProtocolError ''invalid preparation phase accounting''))"

definition validate_verification :: "PreparationAck \<Rightarrow> unit res" where
  "validate_verification a =
     (if pa_verification_component a = ''none''
      then raise_if (pa_verification_checks a \<noteq> 0 \<or> pa_verification_max_row_l1 a \<noteq> 0 \<or> pa_verification_material_id a \<noteq> []
          \<or> pa_verification_tag a \<noteq> [] \<or> pa_verification_payload a \<noteq> [])
        (ProtocolError ''disabled verification carries material'') (Inr ())
      else raise_if (pa_verification_component a \<noteq> ''pllm/freivalds-verify/v1'') (ProtocolError ''unsupported verification acknowledgement'')
     (raise_if (\<not> (1 \<le> pa_verification_checks a \<and> pa_verification_checks a \<le> 8) \<or> pa_verification_max_row_l1 a \<le> 0)
        (ProtocolError ''invalid Freivalds verification metadata'')
     (raise_if (length (pa_verification_material_id a) \<noteq> 32 \<or> length (pa_verification_tag a) \<noteq> 16)
        (ProtocolError ''invalid Freivalds material identity'')
     (raise_if (pa_verification_payload a = [] \<or> length (pa_verification_payload a) mod 4 \<noteq> 0)
        (ProtocolError ''invalid Freivalds projection payload'') (Inr ())))))"

section \<open>Facts\<close>

lemma attempt_ids_agree:
  assumes "prepared_metadata r = prepared_metadata c" and "PreparationRequest_validate r None None = Inr ()" and "CorrectionPush_validate c None None = Inr ()"
  shows "request_attempt_id packb sha256 r row = correction_attempt_id packb sha256 c row"
  using assms by (simp add: request_attempt_id_def correction_attempt_id_def derive_id_def row_domain_def prepared_metadata_def)

lemma index_of_nth: "distinct xs \<Longrightarrow> i < length xs \<Longrightarrow> index_of (xs ! i) xs = Some i"
proof (induction xs arbitrary: i)
  case (Cons x xs)
  then show ?case by (cases i) auto
qed simp

lemma mapE_rows_for:
  assumes "distinct (sa_stage_ids a)" and "sa_stage_rows a \<noteq> [] \<Longrightarrow> length (sa_stage_rows a) = length (sa_stage_ids a)"
  shows "mapE (rows_for a) (sa_stage_ids a) = Inr (if sa_stage_rows a \<noteq> [] then sa_stage_rows a else replicate (length (sa_stage_ids a)) (sa_rows a))"
proof -
  let ?rs = "if sa_stage_rows a \<noteq> [] then sa_stage_rows a else replicate (length (sa_stage_ids a)) (sa_rows a)"
  have r: "rows_for a (sa_stage_ids a ! i) = Inr (?rs ! i)" if "i < length (sa_stage_ids a)" for i
    using that assms index_of_nth [OF assms(1) that] by (simp add: rows_for_def)
  have "\<And>x. x \<in> set (sa_stage_ids a) \<Longrightarrow> rows_for a x = Inr (projr (rows_for a x))"
  proof -
    fix x assume "x \<in> set (sa_stage_ids a)"
    then obtain i where "i < length (sa_stage_ids a)" "x = sa_stage_ids a ! i" by (metis in_set_conv_nth)
    then show "rows_for a x = Inr (projr (rows_for a x))" using r by simp
  qed
  then have "mapE (rows_for a) (sa_stage_ids a) = Inr (map (\<lambda>x. projr (rows_for a x)) (sa_stage_ids a))" by (rule mapE_all_Inr)
  moreover have "map (\<lambda>x. projr (rows_for a x)) (sa_stage_ids a) = ?rs" using r assms(2) by (intro nth_equalityI) auto
  ultimately show ?thesis by simp
qed

text \<open>
  The attempt budget of a session is exactly its inventory. For every authorization that validates, each of its stages has a
  number of rows, and these numbers add up to the attempt budget.
\<close>

lemma authorization_budget:
  assumes "SessionAuthorization_validate a = Inr ()"
  shows "\<exists>rs. mapE (rows_for a) (sa_stage_ids a) = Inr rs \<and> sum_list rs = sa_max_attempts a \<and> 0 < sa_max_attempts a \<and> list_all (\<lambda>n. 1 \<le> n \<and> n \<le> sa_rows a) rs"
proof -
  have v: "distinct (sa_stage_ids a)" "sa_stage_rows a \<noteq> [] \<Longrightarrow> length (sa_stage_rows a) = length (sa_stage_ids a) \<and> (\<forall>n \<in> set (sa_stage_rows a). 1 \<le> n \<and> n \<le> sa_rows a)"
    "0 < sa_rows a" "0 < sa_max_attempts a"
    "sa_max_attempts a = (if sa_stage_rows a \<noteq> [] then sum_list (sa_stage_rows a) else sa_rows a * int (length (sa_stage_ids a)))"
    using assms by (auto simp: SessionAuthorization_validate_def res_simps list_ex_iff split: if_splits)
  show ?thesis using v mapE_rows_for [OF v(1)] by (auto simp: sum_list_replicate mult.commute list_all_iff)
qed

text \<open>
  Bytes are attributed to phases without double counting. Whenever an acknowledgement attributes its body bytes to the
  prefill and the decode rows, both amounts are non-negative and together at most the row payload and the verification
  payload; when the two phases cover all rows, at most the one byte that both phases share is left over.
\<close>

lemma phase_bytes_bounded:
  assumes "material_body_bytes_by_phase a prefill_rows decode_rows = Inr (p, d)"
  shows "\<exists>rows payload. pa_correction_rows a = Some rows \<and> pa_correction_row_payload_bytes a = Some payload \<and> 0 \<le> p \<and> 0 \<le> d
    \<and> p + d \<le> payload + int (length (pa_verification_payload a))
    \<and> (if prefill_rows + decode_rows = rows then payload + int (length (pa_verification_payload a)) - 1 \<le> p + d else True)"
proof -
  define vl where "vl = int (length (pa_verification_payload a))"
  obtain rows bits where o: "pa_correction_rows a = Some rows" "pa_correction_row_payload_bits_per_row a = Some bits"
    and v: "validate_body_counts a = Inr ()"
    and g: "0 \<le> prefill_rows" "0 \<le> decode_rows" "prefill_rows + decode_rows \<le> rows" "vl mod rows = 0"
    using assms by (auto simp: material_body_bytes_by_phase_def bindE_eq_Inr raise_if_eq_Inr Let_def vl_def split: option.splits)
  obtain payload where c: "pa_correction_row_payload_bytes a = Some payload" "0 < rows" "0 < bits" "(rows * bits + 7) div 8 = payload"
    using v o by (auto simp: validate_body_counts_def raise_if_eq_Inr Let_def split: if_splits option.splits)
  define x where "x = prefill_rows * bits"
  define y where "y = (prefill_rows + decode_rows) * bits"
  define r where "r = vl div rows"
  have vr: "vl = rows * r" "0 \<le> r" using g(4) c(2) by (auto simp: r_def vl_def pos_imp_zdiv_nonneg_iff)
  define px where "px = (if prefill_rows = rows then (x + 7) div 8 else x div 8)"
  define ey where "ey = (if prefill_rows + decode_rows = rows then (y + 7) div 8 else y div 8)"
  define dy where "dy = (if decode_rows \<noteq> 0 then max 0 (ey - (x + 7) div 8) else 0)"
  have "material_body_bytes_by_phase a prefill_rows decode_rows = Inr (px + prefill_rows * r, dy + decode_rows * r)"
    using o v g by (simp add: material_body_bytes_by_phase_def Let_def x_def y_def px_def ey_def dy_def r_def vl_def)
  then have pd: "p = px + prefill_rows * r" "d = dy + decode_rows * r" using assms by simp_all
  have xy: "0 \<le> x" "x \<le> y" "y \<le> rows * bits" "prefill_rows + decode_rows = rows \<Longrightarrow> y = rows * bits"
    using g c(2,3) by (auto simp: x_def y_def intro!: mult_right_mono)
  have n: "0 \<le> px" "0 \<le> dy" using xy by (auto simp: px_def dy_def)
  have pay: "px + dy \<le> payload" "prefill_rows + decode_rows = rows \<Longrightarrow> payload - 1 \<le> px + dy"
  proof -
    have f: "x div 8 \<le> (x + 7) div 8" "(x + 7) div 8 \<le> x div 8 + 1" "(x + 7) div 8 \<le> payload" "ey \<le> payload"
      using xy c(4) by (auto simp: ey_def intro!: zdiv_mono1)
    have full: "prefill_rows = rows \<Longrightarrow> decode_rows = 0" using g by simp
    show "px + dy \<le> payload"
    proof (cases "prefill_rows = rows")
      case True
      then show ?thesis using full f(3) by (simp add: px_def dy_def)
    next
      case False
      then show ?thesis using f by (auto simp: px_def dy_def max_def split: if_splits)
    qed
    show "payload - 1 \<le> px + dy" if s: "prefill_rows + decode_rows = rows"
    proof (cases "prefill_rows = rows")
      case True
      then have "x = rows * bits" by (simp add: x_def)
      then show ?thesis using True n c(4) by (simp add: px_def)
    next
      case False
      then have "ey = payload" "decode_rows \<noteq> 0" using s xy(4) c(4) by (auto simp: ey_def)
      then show ?thesis using f False by (auto simp: px_def dy_def max_def)
    qed
  qed
  have vs: "(prefill_rows + decode_rows) * r \<le> vl" "prefill_rows + decode_rows = rows \<Longrightarrow> (prefill_rows + decode_rows) * r = vl"
    using g(3) vr by (auto intro: mult_right_mono)
  have z: "0 \<le> prefill_rows * r" "0 \<le> decode_rows * r" using g vr by simp_all
  show ?thesis
    using o(1) c(1) pd n z pay vs unfolding vl_def [symmetric] by (auto simp: distrib_right)
qed

end
