(* ===== verification/Correction_Rendezvous.thy ===== *)
theory Correction_Rendezvous
  imports Preparation_Protocol "HOL-Library.AList"
begin

text \<open>
  \<^verbatim>\<open>runtime/correction_rendezvous.py\<close>: the rendezvous of pushed corrections with activated stage requests. Each method
  is one definition over the whole state, as it runs under the lock; clock readings are arguments. Dictionaries are association lists in insertion order.
\<close>

section \<open>State\<close>

text \<open>The fields of \<^verbatim>\<open>MaskedStageRequest\<close> that the rendezvous reads.\<close>

record MaskedStageRequest =
  rq_model :: string
  rq_stage_id :: string
  rq_correlation_id :: string
  rq_masked_input :: "32 word ndarray"
  rq_modulus :: int
  rq_wire_bits :: int
  rq_ring :: "string option"
  rq_body_fingerprint :: string
  rq_weight_digest :: string
  rq_weight_bits :: int
  rq_activation_bits :: int
  rq_session_id :: string
  rq_out_features :: int
  rq_signed_output_bound :: int

text \<open>
  Objects with an identity: futures live in a store, and an entry is identified by its future, which no other entry shares. A session
  carries the number of its creation.
\<close>

datatype future = Pending | Done CorrectionPush | Cancelled

record Entry =
  en_created :: int
  en_future :: nat
  en_correction :: "CorrectionPush option"
  en_correction_bytes :: int
  en_activated :: bool
  en_preloaded :: bool
  en_activation_metadata :: "StageMetadata option"

record RSession =
  se_object :: nat
  se_expected :: SessionAuthorization
  se_burned :: "bytes set"
  se_last_active :: int
  se_authorized :: bool

type_synonym rkey = "string \<times> bytes"

record CorrectionRendezvous =
  rv_timeout :: int
  rv_capacity :: int
  rv_max_bytes :: int
  rv_session_capacity :: int
  rv_session_idle_timeout :: int
  rv_entries :: "(rkey \<times> Entry) list"
  rv_sessions :: "(string \<times> RSession) list"
  rv_bytes :: int
  rv_authorizations :: int
  rv_authorization_bytes :: int
  rv_attempts :: int
  rv_consumed :: int
  rv_failures :: int
  rv_futures :: "nat \<Rightarrow> future"
  rv_next :: nat

definition CorrectionRendezvous_init :: "int \<Rightarrow> int \<Rightarrow> int \<Rightarrow> int option \<Rightarrow> int \<Rightarrow> CorrectionRendezvous res" where
  "CorrectionRendezvous_init timeout capacity max_bytes session_capacity session_idle_timeout =
     (let session_capacity = (case session_capacity of None \<Rightarrow> capacity | Some n \<Rightarrow> n) in
      raise_if (timeout \<le> 0 \<or> capacity \<le> 0 \<or> max_bytes \<le> 0 \<or> session_capacity \<le> 0 \<or> session_idle_timeout \<le> 0)
        (ValueError ''rendezvous limits must be positive'')
        (Inr \<lparr>rv_timeout = timeout, rv_capacity = capacity, rv_max_bytes = max_bytes, rv_session_capacity = session_capacity,
              rv_session_idle_timeout = session_idle_timeout, rv_entries = [], rv_sessions = [], rv_bytes = 0, rv_authorizations = 0,
              rv_authorization_bytes = 0, rv_attempts = 0, rv_consumed = 0, rv_failures = 0, rv_futures = (\<lambda>_. Pending), rv_next = 0\<rparr>))"

definition rendezvous_key :: "string \<Rightarrow> string \<Rightarrow> rkey res" where
  "rendezvous_key session_id attempt_id =
     bindE (validate_attempt_id attempt_id) (\<lambda>_. bindE (fromhex attempt_id) (\<lambda>b. Inr (session_id, b)))"

definition request_metadata :: "MaskedStageRequest \<Rightarrow> string option \<Rightarrow> int option \<Rightarrow> StageMetadata" where
  "request_metadata r correlation_id rows =
     \<lparr>sm_session_id = rq_session_id r, sm_model = rq_model r, sm_body_fingerprint = rq_body_fingerprint r,
      sm_attempt_id = (case correlation_id of Some c \<Rightarrow> if c = [] then rq_correlation_id r else c | None \<Rightarrow> rq_correlation_id r),
      sm_stage_id = rq_stage_id r, sm_weight_digest = rq_weight_digest r,
      sm_rows = (case rows of Some n \<Rightarrow> n
        | None \<Rightarrow> if length (nd_shape (rq_masked_input r)) = 1 then 1 else int (hd (nd_shape (rq_masked_input r)))),
      sm_in_features = int (last (nd_shape (rq_masked_input r))), sm_out_features = rq_out_features r,
      sm_weight_bits = rq_weight_bits r, sm_activation_bits = rq_activation_bits r, sm_signed_output_bound = rq_signed_output_bound r,
      sm_ring = rq_ring r, sm_modulus = rq_modulus r, sm_wire_bits = rq_wire_bits r\<rparr>"

section \<open>Burning and expiry\<close>

definition future_cancel :: "nat \<Rightarrow> CorrectionRendezvous \<Rightarrow> CorrectionRendezvous" where
  "future_cancel f s = (if rv_futures s f = Pending then s\<lparr>rv_futures := (rv_futures s)(f := Cancelled)\<rparr> else s)"

definition cancel_entry_locked :: "Entry \<Rightarrow> CorrectionRendezvous \<Rightarrow> CorrectionRendezvous" where
  "cancel_entry_locked e s = future_cancel (en_future e) (s\<lparr>rv_bytes := rv_bytes s - en_correction_bytes e\<rparr>)"

definition pop_entry :: "rkey \<Rightarrow> CorrectionRendezvous \<Rightarrow> CorrectionRendezvous" where
  "pop_entry key s = (case map_of (rv_entries s) key of
     None \<Rightarrow> s
   | Some e \<Rightarrow> cancel_entry_locked e (s\<lparr>rv_entries := AList.delete key (rv_entries s)\<rparr>))"

definition session_update :: "string \<Rightarrow> (RSession \<Rightarrow> RSession) \<Rightarrow> CorrectionRendezvous \<Rightarrow> CorrectionRendezvous" where
  "session_update sid f s = s\<lparr>rv_sessions := map (\<lambda>(i, se). (i, if i = sid then f se else se)) (rv_sessions s)\<rparr>"

definition entry_update :: "rkey \<Rightarrow> (Entry \<Rightarrow> Entry) \<Rightarrow> CorrectionRendezvous \<Rightarrow> CorrectionRendezvous" where
  "entry_update key f s = s\<lparr>rv_entries := map (\<lambda>(k, e). (k, if k = key then f e else e)) (rv_entries s)\<rparr>"

definition add_failure :: "CorrectionRendezvous \<Rightarrow> CorrectionRendezvous" where
  "add_failure s = s\<lparr>rv_failures := rv_failures s + 1\<rparr>"

definition burn_locked :: "rkey \<Rightarrow> bool \<Rightarrow> CorrectionRendezvous \<Rightarrow> CorrectionRendezvous" where
  "burn_locked key failure s =
     (let s = pop_entry key s;
          s = session_update (fst key) (\<lambda>se. se\<lparr>se_burned := insert (snd key) (se_burned se)\<rparr>) s
      in if failure then add_failure s else s)"

definition terminal_locked :: "string \<Rightarrow> CorrectionRendezvous \<Rightarrow> CorrectionRendezvous" where
  "terminal_locked sid s =
     (let s = s\<lparr>rv_sessions := AList.delete sid (rv_sessions s)\<rparr>
      in fold (\<lambda>(key, e) s. if fst key = sid
           then add_failure (cancel_entry_locked e (s\<lparr>rv_entries := AList.delete key (rv_entries s)\<rparr>)) else s) (rv_entries s) s)"

definition cleanup_locked :: "int \<Rightarrow> CorrectionRendezvous \<Rightarrow> CorrectionRendezvous" where
  "cleanup_locked now s =
     (let s = fold (\<lambda>(key, e) s. if \<not> en_preloaded e \<and> en_created e \<le> now - rv_timeout s then burn_locked key True s else s) (rv_entries s) s
      in fold (\<lambda>(sid, se) s. if se_last_active se \<le> now - rv_session_idle_timeout s then terminal_locked sid s else s) (rv_sessions s) s)"

section \<open>Sessions\<close>

definition register_session :: "SessionAuthorization \<Rightarrow> int \<Rightarrow> CorrectionRendezvous \<Rightarrow> CorrectionRendezvous \<times> unit res" where
  "register_session a now s =
     onS (SessionAuthorization_validate a) s (\<lambda>_.
     let s = cleanup_locked now s in
     raiseS (map_of (rv_sessions s) (sa_session_id a) \<noteq> None) (RendezvousError ''correction session is already registered'') s
    (raiseS (int (length (rv_sessions s)) \<ge> rv_session_capacity s) (RendezvousError ''correction session capacity exceeded'') s
    (s\<lparr>rv_sessions := rv_sessions s @ [(sa_session_id a, \<lparr>se_object = rv_next s, se_expected = a, se_burned = {}, se_last_active = now, se_authorized = False\<rparr>)],
       rv_next := rv_next s + 1\<rparr>, Inr ())))"

definition authorize_session :: "SessionAuthorization \<Rightarrow> int \<Rightarrow> int \<Rightarrow> CorrectionRendezvous \<Rightarrow> CorrectionRendezvous \<times> unit res" where
  "authorize_session a payload_bytes now s =
     onS (SessionAuthorization_validate a) s (\<lambda>_.
     let s = cleanup_locked now s in
     case map_of (rv_sessions s) (sa_session_id a) of
       None \<Rightarrow> (s, Inl (RendezvousError ''correction session is not active''))
     | Some se \<Rightarrow>
         raiseS (a \<noteq> se_expected se) (RendezvousError ''session authorization metadata mismatch'') s
        (raiseS (se_authorized se) (RendezvousError ''session authorization was already consumed'') s
        (raiseS (payload_bytes \<le> 0) (RendezvousError ''session authorization payload is empty'') s
        (let s = session_update (sa_session_id a) (\<lambda>se. se\<lparr>se_authorized := True, se_last_active := now\<rparr>) s
         in (s\<lparr>rv_authorizations := rv_authorizations s + 1, rv_authorization_bytes := rv_authorization_bytes s + payload_bytes\<rparr>, Inr ())))))"

section \<open>Attempts\<close>

definition active_for :: "string \<Rightarrow> CorrectionRendezvous \<Rightarrow> nat" where
  "active_for sid s = length (filter (\<lambda>(k, _). fst k = sid) (rv_entries s))"

definition entry_locked :: "rkey \<Rightarrow> int \<Rightarrow> CorrectionRendezvous \<Rightarrow> CorrectionRendezvous \<times> Entry res" where
  "entry_locked key now s =
     (let s = cleanup_locked now s in
      case map_of (rv_sessions s) (fst key) of
        None \<Rightarrow> (s, Inl (RendezvousError ''correction session is not active''))
      | Some se \<Rightarrow>
          raiseS (\<not> se_authorized se) (RendezvousError ''correction session is not authorized'') s
         (let s = session_update (fst key) (\<lambda>se. se\<lparr>se_last_active := now\<rparr>) s in
          raiseS (snd key \<in> se_burned se) (RendezvousError ''attempt was already consumed or burned'') s
         (case map_of (rv_entries s) key of
            Some e \<Rightarrow> (s, Inr e)
          | None \<Rightarrow>
              raiseS (int (length (rv_entries s)) \<ge> rv_capacity s) (RendezvousError ''correction rendezvous capacity exceeded'') (add_failure s)
             (raiseS (int (card (se_burned se) + active_for (fst key) s) \<ge> sa_max_attempts (se_expected se))
                (RendezvousError ''session attempt capacity exceeded'') (add_failure s)
             (let e = \<lparr>en_created = now, en_future = rv_next s, en_correction = None, en_correction_bytes = 0, en_activated = False,
                       en_preloaded = False, en_activation_metadata = None\<rparr>
              in (s\<lparr>rv_entries := rv_entries s @ [(key, e)], rv_futures := (rv_futures s)(rv_next s := Pending), rv_next := rv_next s + 1,
                    rv_attempts := rv_attempts s + 1\<rparr>, Inr e))))))"

definition push :: "CorrectionPush \<Rightarrow> int \<Rightarrow> int \<Rightarrow> CorrectionRendezvous \<Rightarrow> CorrectionRendezvous \<times> unit res" where
  "push c payload_bytes now s =
     onS (rendezvous_key (pb_session_id c) (pb_attempt_id c)) s (\<lambda>key.
     bindS (entry_locked key now s) (\<lambda>s e.
     raiseS (en_activated e \<and> Some (prepared_metadata c) \<noteq> en_activation_metadata e)
       (RendezvousError ''correction and activation metadata mismatch'') (burn_locked key True s)
    (raiseS (en_correction e \<noteq> None) (RendezvousError ''duplicate correction push'') (burn_locked key True s)
    (raiseS (payload_bytes \<le> 0 \<or> rv_bytes s + payload_bytes > rv_max_bytes s)
       (RendezvousError ''correction rendezvous byte capacity exceeded'') (burn_locked key True s)
    (let s = entry_update key (\<lambda>e. e\<lparr>en_correction := Some c, en_correction_bytes := payload_bytes\<rparr>) s;
         s = s\<lparr>rv_bytes := rv_bytes s + payload_bytes\<rparr>
     in if rv_futures s (en_future e) = Pending then (s\<lparr>rv_futures := (rv_futures s)(en_future e := Done c)\<rparr>, Inr ())
        else (burn_locked key True s, Inl (RendezvousError ''correction arrived after attempt cancellation'')))))))"

section \<open>Bulk preloading\<close>

definition row_correction :: "CorrectionPush \<Rightarrow> nat \<Rightarrow> string \<Rightarrow> CorrectionPush" where
  "row_correction c row attempt_id = c\<lparr>pb_attempt_id := attempt_id, pb_rows := 1,
     cp_correction := \<lparr>nd_shape = [1, nat (pb_out_features c)],
       nd_data = take (nat (pb_out_features c)) (drop (row * nat (pb_out_features c)) (nd_data (cp_correction c)))\<rparr>,
     cp_output_residue_bits := None\<rparr>"

definition preloaded_entry :: "CorrectionPush \<Rightarrow> int \<Rightarrow> int \<Rightarrow> nat \<Rightarrow> nat \<times> rkey \<times> string \<Rightarrow> rkey \<times> Entry" where
  "preloaded_entry c payload_bytes now base t = (case t of (row, key, attempt_id) \<Rightarrow>
     (key, \<lparr>en_created = now, en_future = base + row, en_correction = Some (row_correction c row attempt_id),
        en_correction_bytes = payload_bytes div pb_rows c + of_bool (int row < payload_bytes mod pb_rows c),
        en_activated = False, en_preloaded = True, en_activation_metadata = None\<rparr>))"

definition preload_bulk ::
  "packer \<Rightarrow> (bytes \<Rightarrow> digest) \<Rightarrow> CorrectionPush \<Rightarrow> int \<Rightarrow> int \<Rightarrow> CorrectionRendezvous \<Rightarrow> CorrectionRendezvous \<times> unit res" where
  "preload_bulk packb sha256 c payload_bytes now s =
     onS (CorrectionPush_validate c None None) s (\<lambda>_.
     raiseS (map int (nd_shape (cp_correction c)) \<noteq> [pb_rows c, pb_out_features c]) (RendezvousError ''correction shape mismatch'') s
    (raiseS (payload_bytes \<le> 0) (RendezvousError ''correction payload is empty'') s
    (onS (mapE (\<lambda>row. correction_attempt_id packb sha256 c (int row)) [0..<nat (pb_rows c)]) s (\<lambda>attempt_ids.
     onS (mapE (rendezvous_key (pb_session_id c)) attempt_ids) s (\<lambda>keys.
     raiseS (\<not> distinct keys) (RendezvousError ''bulk correction contains duplicate attempt keys'') s
    (let s = cleanup_locked now s in
     case map_of (rv_sessions s) (pb_session_id c) of
       None \<Rightarrow> (s, Inl (RendezvousError ''correction session is not active''))
     | Some se \<Rightarrow>
         raiseS (\<not> se_authorized se) (RendezvousError ''correction session is not authorized'') s
        (raiseS (pb_model c \<noteq> sa_model (se_expected se) \<or> pb_body_fingerprint c \<noteq> sa_body_fingerprint (se_expected se)
             \<or> pb_weight_bits c \<noteq> sa_weight_bits (se_expected se) \<or> pb_activation_bits c \<noteq> sa_activation_bits (se_expected se))
           (RendezvousError ''correction and session authorization metadata mismatch'') s
        (raiseS (list_ex (\<lambda>k. snd k \<in> se_burned se) keys) (RendezvousError ''attempt was already consumed or burned'') s
        (raiseS (list_ex (\<lambda>k. map_of (rv_entries s) k \<noteq> None) keys) (RendezvousError ''duplicate correction push'') s
        (raiseS (int (length (rv_entries s)) + pb_rows c > rv_capacity s) (RendezvousError ''correction rendezvous capacity exceeded'') s
        (raiseS (int (card (se_burned se) + active_for (pb_session_id c) s) + pb_rows c > sa_max_attempts (se_expected se))
           (RendezvousError ''session attempt capacity exceeded'') s
        (raiseS (rv_bytes s + payload_bytes > rv_max_bytes s) (RendezvousError ''correction rendezvous byte capacity exceeded'') s
        (let rows = nat (pb_rows c);
             entries = map (preloaded_entry c payload_bytes now (rv_next s)) (zip [0..<rows] (zip keys attempt_ids));
             s = s\<lparr>rv_entries := rv_entries s @ entries,
                   rv_futures := (\<lambda>f. if rv_next s \<le> f \<and> f < rv_next s + rows
                      then Done (row_correction c (f - rv_next s) (attempt_ids ! (f - rv_next s))) else rv_futures s f),
                   rv_next := rv_next s + rows, rv_bytes := rv_bytes s + payload_bytes\<rparr>;
             s = session_update (pb_session_id c) (\<lambda>se. se\<lparr>se_last_active := now\<rparr>) s
         in (s\<lparr>rv_attempts := rv_attempts s + pb_rows c\<rparr>, Inr ()))))))))))))))"

section \<open>Activation and delivery\<close>

definition activate :: "MaskedStageRequest \<Rightarrow> int \<Rightarrow> CorrectionRendezvous \<Rightarrow> CorrectionRendezvous \<times> nat res" where
  "activate r now s =
     onS (rendezvous_key (rq_session_id r) (rq_correlation_id r)) s (\<lambda>key.
     let metadata = request_metadata r None None in
     bindS (entry_locked key now s) (\<lambda>s e.
     case map_of (rv_sessions s) (rq_session_id r) of
       None \<Rightarrow> (s, Inl (KeyError (rq_session_id r)))
     | Some se \<Rightarrow>
         raiseS (rq_model r \<noteq> sa_model (se_expected se) \<or> rq_body_fingerprint r \<noteq> sa_body_fingerprint (se_expected se))
           (RendezvousError ''activation and session authorization metadata mismatch'') (burn_locked key True s)
        (raiseS (en_activated e) (RendezvousError ''duplicate activation attempt'') (burn_locked key True s)
        (let s = entry_update key (\<lambda>e. e\<lparr>en_activated := True, en_created := (if en_preloaded e then now else en_created e),
                    en_preloaded := False, en_activation_metadata := Some metadata\<rparr>) s in
         raiseS (case en_correction e of None \<Rightarrow> False | Some c \<Rightarrow> prepared_metadata c \<noteq> metadata)
           (RendezvousError ''correction and activation metadata mismatch'') (burn_locked key True s)
           (s, Inr (en_future e))))))"

definition holds_entry :: "CorrectionRendezvous \<Rightarrow> rkey \<Rightarrow> nat \<Rightarrow> bool" where
  "holds_entry s key f \<longleftrightarrow> (case map_of (rv_entries s) key of None \<Rightarrow> False | Some e \<Rightarrow> en_future e = f)"

definition abort :: "MaskedStageRequest \<Rightarrow> nat \<Rightarrow> CorrectionRendezvous \<Rightarrow> CorrectionRendezvous \<times> unit res" where
  "abort r f s = onS (rendezvous_key (rq_session_id r) (rq_correlation_id r)) s (\<lambda>key.
     (if holds_entry s key f then burn_locked key True s else s, Inr ()))"

text \<open>
  The coroutine \<^verbatim>\<open>correction\<close> between its suspension points: \<open>correction_begin\<close> up to the wait, and \<open>correction_resume\<close> after it with the outcome of
  the wait: the value of the future, a timeout, or a cancellation of the future or of the task itself. A timeout and a cancelled task
  cancel the future before the coroutine runs again (\<open>future_cancel\<close>).
\<close>

definition correction_begin :: "MaskedStageRequest \<Rightarrow> nat \<Rightarrow> int \<Rightarrow> CorrectionRendezvous \<Rightarrow> int res" where
  "correction_begin r f now s =
     bindE (rendezvous_key (rq_session_id r) (rq_correlation_id r)) (\<lambda>key.
     case map_of (rv_entries s) key of
       None \<Rightarrow> Inl (RendezvousError ''attempt was concurrently burned'')
     | Some e \<Rightarrow> raise_if (en_future e \<noteq> f) (RendezvousError ''attempt was concurrently burned'')
         (Inr (max 0 (rv_timeout s - (now - en_created e)))))"

datatype outcome = Arrived CorrectionPush | TimedOut | FutureCancelled | TaskCancelled

definition abort_raise :: "MaskedStageRequest \<Rightarrow> nat \<Rightarrow> py_error \<Rightarrow> CorrectionRendezvous \<Rightarrow> CorrectionRendezvous \<times> CorrectionPush res" where
  "abort_raise r f e s = bindS (abort r f s) (\<lambda>s _. (s, Inl e))"

definition correction_resume :: "MaskedStageRequest \<Rightarrow> nat \<Rightarrow> outcome \<Rightarrow> CorrectionRendezvous \<Rightarrow> CorrectionRendezvous \<times> CorrectionPush res" where
  "correction_resume r f out s =
     onS (rendezvous_key (rq_session_id r) (rq_correlation_id r)) s (\<lambda>key.
     case out of
       TimedOut \<Rightarrow> abort_raise r f (RendezvousError ''correction rendezvous timed out'') s
     | FutureCancelled \<Rightarrow> abort_raise r f (RendezvousError ''activation attempt cancelled'') s
     | TaskCancelled \<Rightarrow> abort_raise r f (LibraryError ''CancelledError'' []) s
     | Arrived c \<Rightarrow>
         if prepared_metadata c \<noteq> request_metadata r None None
         then abort_raise r f (RendezvousError ''correction and activation metadata mismatch'') s
         else raiseS (\<not> holds_entry s key f) (RendezvousError ''attempt was concurrently burned'') s
           (let s = burn_locked key False s in (s\<lparr>rv_consumed := rv_consumed s + 1\<rparr>, Inr c)))"

section \<open>Prepared batches\<close>

definition batch_correction :: "MaskedStageRequest \<Rightarrow> RSession \<Rightarrow> CorrectionRendezvous \<Rightarrow> rkey \<times> string \<Rightarrow> CorrectionPush res" where
  "batch_correction r se s t = (case t of (key, correlation_id) \<Rightarrow>
     raise_if (snd key \<in> se_burned se) (RendezvousError ''attempt was already consumed or burned'')
     (case map_of (rv_entries s) key of
        None \<Rightarrow> Inl (RendezvousError ''prepared correction is not preloaded'')
      | Some e \<Rightarrow> (case en_correction e of
          None \<Rightarrow> Inl (RendezvousError ''prepared correction is not preloaded'')
        | Some c \<Rightarrow>
            raise_if (en_activated e) (RendezvousError ''duplicate activation attempt'')
           (raise_if (prepared_metadata c \<noteq> request_metadata r (Some correlation_id) (Some 1))
              (RendezvousError ''correction and activation metadata mismatch'') (Inr c)))))"

definition use_batch_row :: "MaskedStageRequest \<Rightarrow> rkey \<times> string \<Rightarrow> CorrectionRendezvous \<Rightarrow> CorrectionRendezvous" where
  "use_batch_row r t s = (case t of (key, correlation_id) \<Rightarrow>
     burn_locked key False (entry_update key (\<lambda>e. e\<lparr>en_activated := True, en_preloaded := False,
       en_activation_metadata := Some (request_metadata r (Some correlation_id) (Some 1))\<rparr>) s))"

definition consume_preloaded_batch ::
  "MaskedStageRequest \<Rightarrow> string list \<Rightarrow> int \<Rightarrow> CorrectionRendezvous \<Rightarrow> CorrectionRendezvous \<times> CorrectionPush list res" where
  "consume_preloaded_batch r correlation_ids now s =
     (let rows = (if length (nd_shape (rq_masked_input r)) = 1 then 1 else hd (nd_shape (rq_masked_input r))) in
      raiseS (rows \<noteq> length correlation_ids \<or> correlation_ids = []) (RendezvousError ''prepared batch correlation count mismatch'') s
     (onS (mapE (rendezvous_key (rq_session_id r)) correlation_ids) s (\<lambda>keys.
      raiseS (\<not> distinct keys) (RendezvousError ''prepared batch correlation ids must be unique'') s
     (let s = cleanup_locked now s in
      case map_of (rv_sessions s) (rq_session_id r) of
        None \<Rightarrow> (s, Inl (RendezvousError ''correction session is not active''))
      | Some se \<Rightarrow>
          raiseS (\<not> se_authorized se) (RendezvousError ''correction session is not authorized'') s
         (raiseS (rq_model r \<noteq> sa_model (se_expected se) \<or> rq_body_fingerprint r \<noteq> sa_body_fingerprint (se_expected se))
            (RendezvousError ''activation and session authorization metadata mismatch'') s
         (case mapE (batch_correction r se s) (zip keys correlation_ids) of
            Inl e \<Rightarrow> (fold (\<lambda>key. burn_locked key True) keys s, Inl e)
          | Inr corrections \<Rightarrow>
              (let s = fold (use_batch_row r) (zip keys correlation_ids) s;
                   s = session_update (rq_session_id r) (\<lambda>se. se\<lparr>se_last_active := now\<rparr>) s
               in (s\<lparr>rv_consumed := rv_consumed s + int rows\<rparr>, Inr corrections))))))))"

section \<open>Release\<close>

fun burn_reserved :: "string \<Rightarrow> string list \<Rightarrow> CorrectionRendezvous \<Rightarrow> CorrectionRendezvous \<times> unit res" where
  "burn_reserved sid [] s = (s, Inr ())"
| "burn_reserved sid (a # as) s = onS (rendezvous_key sid a) s (\<lambda>key.
     burn_reserved sid as (if map_of (rv_entries s) key \<noteq> None then burn_locked key False s else s))"

definition rendezvous_close :: "CorrectionRendezvous \<Rightarrow> CorrectionRendezvous" where
  "rendezvous_close s = (fold (\<lambda>(k, e). cancel_entry_locked e) (rv_entries s) s)\<lparr>rv_entries := [], rv_sessions := [], rv_bytes := 0\<rparr>"

record rendezvous_stats =
  rs_entries :: nat
  rs_bytes :: int
  rs_sessions :: nat
  rs_authorized_sessions :: nat
  rs_burned :: nat

definition rendezvous_stats_of :: "int \<Rightarrow> CorrectionRendezvous \<Rightarrow> CorrectionRendezvous \<times> rendezvous_stats" where
  "rendezvous_stats_of now s =
     (let s = cleanup_locked now s in
      (s, \<lparr>rs_entries = length (rv_entries s), rs_bytes = rv_bytes s, rs_sessions = length (rv_sessions s),
           rs_authorized_sessions = length (filter (\<lambda>(_, se). se_authorized se) (rv_sessions s)),
           rs_burned = sum_list (map (\<lambda>(_, se). card (se_burned se)) (rv_sessions s))\<rparr>))"

end
