(* ===== verification/Rendezvous_Correct.thy ===== *)
theory Rendezvous_Correct
  imports Correction_Rendezvous
begin

text \<open>
  Correctness of \<^verbatim>\<open>Correction_Rendezvous\<close>: the invariant of its state and of the logs of accepted and delivered corrections, which every
  method preserves; the limits and the single use of corrections over every history; delivery in either order of arrival; and a rejected batch that
  spends the budget of its session.
\<close>

section \<open>Invariant\<close>

text \<open>
  The invariant relates the state to two histories: the accepted corrections and the delivered ones, each under the session object and the attempt.
\<close>

type_synonym attempt_log = "((nat \<times> bytes) \<times> CorrectionPush) list"

definition owner_of :: "CorrectionRendezvous \<Rightarrow> rkey \<Rightarrow> nat \<times> bytes" where
  "owner_of s key = (se_object (the (map_of (rv_sessions s) (fst key))), snd key)"

definition entry_ok :: "attempt_log \<Rightarrow> CorrectionRendezvous \<Rightarrow> rkey \<Rightarrow> Entry \<Rightarrow> bool" where
  "entry_ok ps s k e \<longleftrightarrow> (\<exists>se. map_of (rv_sessions s) (fst k) = Some se \<and> se_authorized se \<and> snd k \<notin> se_burned se
     \<and> en_future e < rv_next s \<and> 0 \<le> en_correction_bytes e \<and> (en_correction e = None \<longrightarrow> en_correction_bytes e = 0)
     \<and> (\<forall>c. rv_futures s (en_future e) = Done c \<longleftrightarrow> en_correction e = Some c)
     \<and> (\<forall>c. en_correction e = Some c \<longrightarrow> ((se_object se, snd k), c) \<in> set ps))"

definition session_ok :: "attempt_log \<Rightarrow> attempt_log \<Rightarrow> CorrectionRendezvous \<Rightarrow> string \<Rightarrow> RSession \<Rightarrow> bool" where
  "session_ok ps ds s sid se \<longleftrightarrow> se_object se < rv_next s \<and> finite (se_burned se)
     \<and> (\<forall>a c. ((se_object se, a), c) \<in> set ps \<longrightarrow>
          a \<in> se_burned se \<or> (\<exists>e. map_of (rv_entries s) (sid, a) = Some e \<and> en_correction e = Some c))
     \<and> (\<forall>a c. ((se_object se, a), c) \<in> set ds \<longrightarrow> a \<in> se_burned se)"

definition log_ok :: "attempt_log \<Rightarrow> attempt_log \<Rightarrow> CorrectionRendezvous \<Rightarrow> bool" where
  "log_ok ps ds s \<longleftrightarrow> distinct (map fst ps) \<and> distinct (map fst ds) \<and> set ds \<subseteq> set ps \<and> (\<forall>((ob, a), c) \<in> set ps. ob < rv_next s)"

definition keyed :: "CorrectionRendezvous \<Rightarrow> bool" where
  "keyed s \<longleftrightarrow> distinct (map fst (rv_entries s)) \<and> distinct (map fst (rv_sessions s))
     \<and> distinct (map (en_future \<circ> snd) (rv_entries s)) \<and> distinct (map (se_object \<circ> snd) (rv_sessions s))"

definition held_bytes :: "(rkey \<times> Entry) list \<Rightarrow> int" where
  "held_bytes es = sum_list (map (en_correction_bytes \<circ> snd) es)"

definition bounded :: "int \<times> int \<times> int \<Rightarrow> CorrectionRendezvous \<Rightarrow> bool" where
  "bounded L s \<longleftrightarrow> (rv_capacity s, rv_max_bytes s, rv_session_capacity s) = L \<and> rv_bytes s = held_bytes (rv_entries s)
     \<and> rv_bytes s \<le> rv_max_bytes s \<and> int (length (rv_entries s)) \<le> rv_capacity s \<and> int (length (rv_sessions s)) \<le> rv_session_capacity s"

definition rv_inv :: "int \<times> int \<times> int \<Rightarrow> attempt_log \<Rightarrow> attempt_log \<Rightarrow> CorrectionRendezvous \<Rightarrow> bool" where
  "rv_inv L ps ds s \<longleftrightarrow> keyed s \<and> bounded L s \<and> log_ok ps ds s
     \<and> (\<forall>k e. map_of (rv_entries s) k = Some e \<longrightarrow> entry_ok ps s k e)
     \<and> (\<forall>sid se. map_of (rv_sessions s) sid = Some se \<longrightarrow> session_ok ps ds s sid se)"

lemma rv_invD:
  assumes "rv_inv L ps ds s"
  shows "keyed s" "bounded L s" "log_ok ps ds s" "map_of (rv_entries s) k = Some e \<Longrightarrow> entry_ok ps s k e"
    "map_of (rv_sessions s) sid = Some se \<Longrightarrow> session_ok ps ds s sid se"
  using assms unfolding rv_inv_def by blast+

lemma entry_okE:
  assumes "entry_ok ps s k e"
  obtains se where "map_of (rv_sessions s) (fst k) = Some se" "se_authorized se" "snd k \<notin> se_burned se" "en_future e < rv_next s"
    "0 \<le> en_correction_bytes e" "en_correction e = None \<longrightarrow> en_correction_bytes e = 0"
    "\<forall>c. rv_futures s (en_future e) = Done c \<longleftrightarrow> en_correction e = Some c" "\<forall>c. en_correction e = Some c \<longrightarrow> ((se_object se, snd k), c) \<in> set ps"
  using assms unfolding entry_ok_def by (elim exE conjE) (rule that)

text \<open>Counters do not matter.\<close>

lemma rv_inv_counters [simp]:
  "rv_inv L ps ds (s\<lparr>rv_failures := x\<rparr>) = rv_inv L ps ds s" "rv_inv L ps ds (s\<lparr>rv_consumed := x\<rparr>) = rv_inv L ps ds s"
  "rv_inv L ps ds (s\<lparr>rv_attempts := x\<rparr>) = rv_inv L ps ds s"
  "rv_inv L ps ds (s\<lparr>rv_authorizations := x, rv_authorization_bytes := y\<rparr>) = rv_inv L ps ds s"
  by (simp_all add: rv_inv_def keyed_def bounded_def log_ok_def entry_ok_def session_ok_def)

lemma rv_inv_add_failure [simp]: "rv_inv L ps ds (add_failure s) = rv_inv L ps ds s"
  by (simp add: add_failure_def)

section \<open>Removal of entries\<close>

text \<open>A removal keeps a selection of the entries and of the sessions, and cancels futures that were pending.\<close>

lemma map_of_filter_key: "map_of (filter (\<lambda>x. P (fst x)) xs) k = (if P k then map_of xs k else None)"
  by (induction xs) auto

lemma map_of_select:
  "map_of (map (\<lambda>(i, x). (i, g i x)) (filter (\<lambda>x. S (fst x)) xs)) k = (if S k then map_option (g k) (map_of xs k) else None)"
  by (induction xs) auto

lemma delete_filter: "AList.delete k xs = filter (\<lambda>x. fst x \<noteq> k) xs"
  by (induction xs) auto

definition same_done :: "CorrectionRendezvous \<Rightarrow> CorrectionRendezvous \<Rightarrow> bool" where
  "same_done s t \<longleftrightarrow> (\<forall>f c. rv_futures t f = Done c \<longleftrightarrow> rv_futures s f = Done c)"

lemma held_filter_le: "(\<And>k e. (k, e) \<in> set es \<Longrightarrow> 0 \<le> en_correction_bytes e) \<Longrightarrow> held_bytes (filter P es) \<le> held_bytes es"
  by (induction es) (fastforce simp: held_bytes_def)+

lemma held_delete:
  assumes "distinct (map fst es)" and "map_of es k = Some e"
  shows "held_bytes (filter (\<lambda>x. fst x \<noteq> k) es) = held_bytes es - en_correction_bytes e"
  using assms
proof (induction es)
  case (Cons x es)
  show ?case
  proof (cases "fst x = k")
    case True
    then have "filter (\<lambda>x. fst x \<noteq> k) es = es" using Cons.prems(1) by (auto intro!: filter_True simp: rev_image_eqI)
    with True Cons show ?thesis by (auto simp: held_bytes_def)
  next
    case False
    with Cons show ?thesis by (auto simp: held_bytes_def)
  qed
qed simp

lemma entries_mem: "keyed s \<Longrightarrow> (k, e) \<in> set (rv_entries s) \<longleftrightarrow> map_of (rv_entries s) k = Some e"
  by (auto simp: keyed_def)

lemma rv_inv_remove:
  assumes inv: "rv_inv L ps ds s"
    and es: "rv_entries t = filter (\<lambda>x. K (fst x)) (rv_entries s)"
    and ss: "rv_sessions t = map (\<lambda>(i, se). (i, g i se)) (filter (\<lambda>x. S (fst x)) (rv_sessions s))"
    and g: "\<And>sid se. se_object (g sid se) = se_object se \<and> (se_authorized se \<longrightarrow> se_authorized (g sid se))"
    and burn: "\<And>sid se. S sid \<Longrightarrow> map_of (rv_sessions s) sid = Some se \<Longrightarrow> se_burned (g sid se) = se_burned se \<union> {a. B (sid, a)}"
    and KS: "\<And>k. K k \<Longrightarrow> map_of (rv_entries s) k \<noteq> None \<Longrightarrow> S (fst k) \<and> \<not> B k"
    and KB: "\<And>k. \<not> K k \<Longrightarrow> S (fst k) \<Longrightarrow> B k" and fin: "\<And>sid. finite {a. B (sid, a)}"
    and rest: "rv_next t = rv_next s" "same_done s t" "rv_bytes t = held_bytes (rv_entries t)" "rv_max_bytes t = rv_max_bytes s"
      "rv_capacity t = rv_capacity s" "rv_session_capacity t = rv_session_capacity s"
  shows "rv_inv L ps ds t"
proof -
  note I = rv_invD [OF inv]
  have st: "map_of (rv_sessions t) sid = (if S sid then map_option (g sid) (map_of (rv_sessions s) sid) else None)" for sid
    unfolding ss by (rule map_of_select)
  have et: "map_of (rv_entries t) k = (if K k then map_of (rv_entries s) k else None)" for k unfolding es by (rule map_of_filter_key)
  have k: "keyed t"
    using I(1) g unfolding keyed_def es ss
    by (auto simp: split_beta comp_def intro!: distinct_map_filter)
  have pos: "0 \<le> en_correction_bytes e" if "(k, e) \<in> set (rv_entries s)" for k e
    using I(4) [of k e] that I(1) by (auto simp: entries_mem entry_ok_def)
  have b: "bounded L t"
    using I(2) rest held_filter_le [of "rv_entries s", OF pos] unfolding bounded_def
    by (auto simp: es ss) (meson dual_order.trans length_filter_le of_nat_mono)+
  have "entry_ok ps t k e" if "map_of (rv_entries t) k = Some e" for k e
  proof -
    have K: "K k" "map_of (rv_entries s) k = Some e" using that by (auto simp: et split: if_splits)
    with KS have S: "S (fst k)" "\<not> B k" by auto
    obtain se where se: "map_of (rv_sessions s) (fst k) = Some se" "se_authorized se" "snd k \<notin> se_burned se" "en_future e < rv_next s"
      "0 \<le> en_correction_bytes e" "en_correction e = None \<longrightarrow> en_correction_bytes e = 0"
      "\<forall>c. rv_futures s (en_future e) = Done c \<longleftrightarrow> en_correction e = Some c" "\<forall>c. en_correction e = Some c \<longrightarrow> ((se_object se, snd k), c) \<in> set ps"
      using I(4) [OF K(2)] by (rule entry_okE)
    have "snd k \<notin> se_burned (g (fst k) se)" using burn [OF S(1) se(1)] se(3) S(2) by (cases k) auto
    moreover have "se_object (g (fst k) se) = se_object se" "se_authorized (g (fst k) se)" using g se(2) by auto
    ultimately show ?thesis unfolding entry_ok_def
      by (intro exI [of _ "g (fst k) se"]) (use se(1,4-) S(1) rest(1,2) in \<open>simp add: st same_done_def\<close>)
  qed
  moreover have "session_ok ps ds t sid se'" if m: "map_of (rv_sessions t) sid = Some se'" for sid se'
  proof -
    obtain se where se: "S sid" "map_of (rv_sessions s) sid = Some se" "se' = g sid se" using m unfolding st by (auto split: if_splits)
    note ok = I(5) [OF se(2), unfolded session_ok_def]
    have bu: "se_burned se' = se_burned se \<union> {a. B (sid, a)}" using burn [OF se(1,2)] se(3) by simp
    have "a \<in> se_burned se' \<or> (\<exists>e. map_of (rv_entries t) (sid, a) = Some e \<and> en_correction e = Some c)" if "((se_object se, a), c) \<in> set ps" for a c
      using ok that KB [of "(sid, a)"] se(1) by (auto simp: bu et)
    moreover have "a \<in> se_burned se'" if "((se_object se, a), c) \<in> set ds" for a c using ok that by (auto simp: bu)
    ultimately show ?thesis unfolding session_ok_def using g [of sid se] rest(1) ok fin by (auto simp: se(3)) (use bu se(3) in auto)
  qed
  ultimately show ?thesis using k b I(3) rest(1) by (auto simp: rv_inv_def log_ok_def)
qed

lemma same_done_refl [simp]: "same_done s s"
  by (simp add: same_done_def)

lemma future_cancel_done [simp]: "rv_futures (future_cancel f t) g = Done c \<longleftrightarrow> rv_futures t g = Done c"
  by (auto simp: future_cancel_def)

lemma same_done_cancel [simp]: "same_done s (future_cancel f t) = same_done s t"
  by (simp add: same_done_def)

lemma same_done_fields [simp]:
  "same_done s (t\<lparr>rv_entries := x\<rparr>) = same_done s t" "same_done s (t\<lparr>rv_sessions := y\<rparr>) = same_done s t" "same_done s (t\<lparr>rv_bytes := z\<rparr>) = same_done s t"
  "same_done s (t\<lparr>rv_failures := u\<rparr>) = same_done s t"
  by (simp_all add: same_done_def)

lemma future_cancel_fields [simp]:
  "rv_entries (future_cancel f s) = rv_entries s" "rv_sessions (future_cancel f s) = rv_sessions s" "rv_bytes (future_cancel f s) = rv_bytes s"
  "rv_next (future_cancel f s) = rv_next s" "rv_capacity (future_cancel f s) = rv_capacity s" "rv_max_bytes (future_cancel f s) = rv_max_bytes s"
  "rv_session_capacity (future_cancel f s) = rv_session_capacity s" "rv_timeout (future_cancel f s) = rv_timeout s"
  by (simp_all add: future_cancel_def)

lemma rv_inv_future_cancel [simp]: "rv_inv L ps ds (future_cancel f s) = rv_inv L ps ds s"
  by (simp add: rv_inv_def keyed_def bounded_def log_ok_def entry_ok_def session_ok_def)

lemma session_update_fields [simp]:
  "rv_entries (session_update i f s) = rv_entries s" "rv_bytes (session_update i f s) = rv_bytes s" "rv_next (session_update i f s) = rv_next s"
  "rv_futures (session_update i f s) = rv_futures s" "rv_capacity (session_update i f s) = rv_capacity s"
  "rv_max_bytes (session_update i f s) = rv_max_bytes s" "rv_session_capacity (session_update i f s) = rv_session_capacity s"
  "same_done t (session_update i f s) = same_done t s" "rv_timeout (session_update i f s) = rv_timeout s"
  by (simp_all add: session_update_def same_done_def)

lemma session_update_map:
  "rv_sessions (session_update i f s) = map (\<lambda>(j, se). (j, if j = i then f se else se)) (filter (\<lambda>x. True) (rv_sessions s))"
  by (simp add: session_update_def)

lemma session_update_of: "map_of (rv_sessions (session_update i f s)) j = (if j = i then map_option f (map_of (rv_sessions s) j) else map_of (rv_sessions s) j)"
  unfolding session_update_map map_of_select [of "\<lambda>j se. if j = i then f se else se" "\<lambda>_. True"] by (simp add: option.map_ident)

lemma add_failure_fields [simp]:
  "rv_entries (add_failure s) = rv_entries s" "rv_sessions (add_failure s) = rv_sessions s" "rv_bytes (add_failure s) = rv_bytes s"
  "rv_next (add_failure s) = rv_next s" "rv_futures (add_failure s) = rv_futures s" "rv_capacity (add_failure s) = rv_capacity s"
  "rv_max_bytes (add_failure s) = rv_max_bytes s" "rv_session_capacity (add_failure s) = rv_session_capacity s" "same_done t (add_failure s) = same_done t s"
  by (simp_all add: add_failure_def same_done_def)

section \<open>Burning\<close>

lemma pop_entry_fields:
  "rv_entries (pop_entry key s) = filter (\<lambda>x. fst x \<noteq> key) (rv_entries s)" "rv_sessions (pop_entry key s) = rv_sessions s"
  "rv_next (pop_entry key s) = rv_next s" "rv_capacity (pop_entry key s) = rv_capacity s" "rv_max_bytes (pop_entry key s) = rv_max_bytes s"
  "rv_session_capacity (pop_entry key s) = rv_session_capacity s" "same_done s (pop_entry key s)"
proof -
  have "map_of (rv_entries s) key = None \<Longrightarrow> filter (\<lambda>x. fst x \<noteq> key) (rv_entries s) = rv_entries s"
    by (rule filter_True) (auto simp: map_of_eq_None_iff rev_image_eqI)
  then show "rv_entries (pop_entry key s) = filter (\<lambda>x. fst x \<noteq> key) (rv_entries s)" "rv_sessions (pop_entry key s) = rv_sessions s"
    "rv_next (pop_entry key s) = rv_next s" "rv_capacity (pop_entry key s) = rv_capacity s" "rv_max_bytes (pop_entry key s) = rv_max_bytes s"
    "rv_session_capacity (pop_entry key s) = rv_session_capacity s" "same_done s (pop_entry key s)"
    by (auto simp: pop_entry_def cancel_entry_locked_def delete_filter split: option.splits)
qed

lemma pop_entry_bytes:
  assumes "keyed s" and "rv_bytes s = held_bytes (rv_entries s)"
  shows "rv_bytes (pop_entry key s) = held_bytes (rv_entries (pop_entry key s))"
proof (cases "map_of (rv_entries s) key")
  case None
  then show ?thesis using assms(2) by (simp add: pop_entry_def)
next
  case (Some e)
  then show ?thesis using assms held_delete [OF _ Some] by (simp add: pop_entry_def cancel_entry_locked_def delete_filter keyed_def)
qed

lemma burn_entries [simp]: "rv_entries (burn_locked key b s) = filter (\<lambda>x. fst x \<noteq> key) (rv_entries s)"
  by (simp add: burn_locked_def Let_def pop_entry_fields)

lemma burn_sessions:
  "rv_sessions (burn_locked key b s)
     = map (\<lambda>(i, se). (i, if i = fst key then se\<lparr>se_burned := insert (snd key) (se_burned se)\<rparr> else se)) (filter (\<lambda>x. True) (rv_sessions s))"
  by (simp add: burn_locked_def Let_def session_update_map pop_entry_fields)

lemma burn_fields [simp]:
  "rv_next (burn_locked key b s) = rv_next s" "rv_capacity (burn_locked key b s) = rv_capacity s" "rv_max_bytes (burn_locked key b s) = rv_max_bytes s"
  "rv_session_capacity (burn_locked key b s) = rv_session_capacity s" "same_done s (burn_locked key b s)"
  by (simp_all add: burn_locked_def Let_def pop_entry_fields)

lemma rv_inv_burn:
  assumes inv: "rv_inv L ps ds s"
  shows "rv_inv L ps ds (burn_locked key b s)"
proof (rule rv_inv_remove [OF inv burn_entries [of key b s] burn_sessions, where B = "\<lambda>k. k = key"])
  note I = rv_invD [OF inv]
  have "rv_bytes (pop_entry key s) = held_bytes (rv_entries (pop_entry key s))" using pop_entry_bytes I(1,2) by (auto simp: bounded_def)
  then show "rv_bytes (burn_locked key b s) = held_bytes (rv_entries (burn_locked key b s))"
    by (simp add: burn_locked_def Let_def pop_entry_fields)
  show "finite {a. (sid, a) = key}" for sid by (rule finite_subset [of _ "{snd key}"]) auto
qed (auto simp: prod_eq_iff)

section \<open>The end of a session\<close>

definition drop_step :: "string \<Rightarrow> rkey \<times> Entry \<Rightarrow> CorrectionRendezvous \<Rightarrow> CorrectionRendezvous" where
  "drop_step sid x s = (if fst (fst x) = sid
     then add_failure (cancel_entry_locked (snd x) (s\<lparr>rv_entries := AList.delete (fst x) (rv_entries s)\<rparr>)) else s)"

lemma drop_fold:
  "rv_entries (fold (drop_step sid) xs s) = filter (\<lambda>x. \<not> (fst (fst x) = sid \<and> fst x \<in> fst ` set xs)) (rv_entries s)
   \<and> rv_bytes (fold (drop_step sid) xs s) = rv_bytes s - held_bytes (filter (\<lambda>x. fst (fst x) = sid) xs)
   \<and> rv_sessions (fold (drop_step sid) xs s) = rv_sessions s \<and> rv_next (fold (drop_step sid) xs s) = rv_next s
   \<and> rv_capacity (fold (drop_step sid) xs s) = rv_capacity s \<and> rv_max_bytes (fold (drop_step sid) xs s) = rv_max_bytes s
   \<and> rv_session_capacity (fold (drop_step sid) xs s) = rv_session_capacity s
   \<and> rv_session_idle_timeout (fold (drop_step sid) xs s) = rv_session_idle_timeout s \<and> same_done s (fold (drop_step sid) xs s)"
proof (induction xs arbitrary: s)
  case Nil
  then show ?case by (simp add: held_bytes_def)
next
  case (Cons x xs)
  have "same_done s t \<Longrightarrow> same_done t u \<Longrightarrow> same_done s u" for t u by (simp add: same_done_def)
  moreover have "same_done s (drop_step sid x s)" by (simp add: drop_step_def cancel_entry_locked_def)
  moreover have "rv_session_idle_timeout (drop_step sid x s) = rv_session_idle_timeout s"
    by (simp add: drop_step_def cancel_entry_locked_def add_failure_def future_cancel_def)
  moreover have "filter (\<lambda>y. \<not> (fst (fst y) = sid \<and> fst y \<in> fst ` set xs)) (rv_entries (drop_step sid x s))
      = filter (\<lambda>y. \<not> (fst (fst y) = sid \<and> fst y \<in> fst ` set (x # xs))) (rv_entries s)"
  proof -
    have "rv_entries (drop_step sid x s) = filter (\<lambda>y. \<not> (fst (fst y) = sid \<and> fst y = fst x)) (rv_entries s)"
      by (auto simp: drop_step_def cancel_entry_locked_def delete_filter intro!: filter_cong filter_True [symmetric] dest: arg_cong [where f = fst])
    then show ?thesis unfolding filter_filter by (auto intro!: filter_cong)
  qed
  moreover have "rv_bytes (drop_step sid x s) - held_bytes (filter (\<lambda>y. fst (fst y) = sid) xs) = rv_bytes s - held_bytes (filter (\<lambda>y. fst (fst y) = sid) (x # xs))"
    "rv_sessions (drop_step sid x s) = rv_sessions s" "rv_next (drop_step sid x s) = rv_next s" "rv_capacity (drop_step sid x s) = rv_capacity s"
    "rv_max_bytes (drop_step sid x s) = rv_max_bytes s" "rv_session_capacity (drop_step sid x s) = rv_session_capacity s"
    by (simp_all add: drop_step_def cancel_entry_locked_def held_bytes_def)
  ultimately show ?case using Cons [of "drop_step sid x s"] by simp
qed

lemma terminal_fold: "terminal_locked sid s = fold (drop_step sid) (rv_entries s) (s\<lparr>rv_sessions := AList.delete sid (rv_sessions s)\<rparr>)"
proof -
  have "(\<lambda>(key, e) s. if fst key = sid then add_failure (cancel_entry_locked e (s\<lparr>rv_entries := AList.delete key (rv_entries s)\<rparr>)) else s) = drop_step sid"
    by (intro ext) (simp add: drop_step_def case_prod_beta)
  then show ?thesis by (simp add: terminal_locked_def Let_def)
qed

lemma terminal_fields:
  "rv_entries (terminal_locked sid s) = filter (\<lambda>x. fst (fst x) \<noteq> sid) (rv_entries s)"
  "rv_sessions (terminal_locked sid s) = map (\<lambda>(i, se). (i, se)) (filter (\<lambda>x. fst x \<noteq> sid) (rv_sessions s))"
  "rv_bytes (terminal_locked sid s) = rv_bytes s - held_bytes (filter (\<lambda>x. fst (fst x) = sid) (rv_entries s))"
  "rv_next (terminal_locked sid s) = rv_next s" "rv_capacity (terminal_locked sid s) = rv_capacity s"
  "rv_max_bytes (terminal_locked sid s) = rv_max_bytes s" "rv_session_capacity (terminal_locked sid s) = rv_session_capacity s"
  "same_done s (terminal_locked sid s)"
  unfolding terminal_fold using drop_fold [of sid "rv_entries s" "s\<lparr>rv_sessions := AList.delete sid (rv_sessions s)\<rparr>"]
  by (auto simp: delete_filter same_done_def intro!: filter_cong)

lemma held_partition: "held_bytes (filter P es) + held_bytes (filter (\<lambda>x. \<not> P x) es) = held_bytes es"
  by (induction es) (auto simp: held_bytes_def)

lemma rv_inv_terminal:
  assumes inv: "rv_inv L ps ds s"
  shows "rv_inv L ps ds (terminal_locked sid s)"
proof (rule rv_inv_remove [OF inv terminal_fields(1) [of sid s] terminal_fields(2), where B = "\<lambda>k. False"])
  note I = rv_invD [OF inv]
  show "rv_bytes (terminal_locked sid s) = held_bytes (rv_entries (terminal_locked sid s))"
    using held_partition [of "\<lambda>x. fst (fst x) = sid" "rv_entries s"] I(2) by (simp add: terminal_fields bounded_def)
qed (auto simp: terminal_fields)

lemma fold_keeps: "(\<And>x s. P s \<Longrightarrow> P (f x s)) \<Longrightarrow> P s \<Longrightarrow> P (fold f xs s)"
  by (induction xs arbitrary: s) auto

lemma rv_inv_cleanup: "rv_inv L ps ds s \<Longrightarrow> rv_inv L ps ds (cleanup_locked now s)"
  unfolding cleanup_locked_def Let_def
  by (intro fold_keeps [where P = "rv_inv L ps ds"]) (auto intro: rv_inv_burn rv_inv_terminal)

lemma distinct_map_inj: "distinct (map f xs) \<Longrightarrow> x \<in> set xs \<Longrightarrow> y \<in> set xs \<Longrightarrow> f x = f y \<Longrightarrow> x = y"
  by (auto simp: distinct_map dest: inj_onD)

lemma object_inj:
  assumes "keyed s" "map_of (rv_sessions s) i = Some a" "map_of (rv_sessions s) j = Some b" "se_object a = se_object b"
  shows "i = j \<and> a = b"
  using distinct_map_inj [of "se_object \<circ> snd" "rv_sessions s" "(i, a)" "(j, b)"] assms by (auto simp: keyed_def dest: map_of_SomeD)

lemma future_inj:
  assumes "keyed s" "map_of (rv_entries s) k = Some d" "map_of (rv_entries s) l = Some e" "en_future d = en_future e"
  shows "k = l \<and> d = e"
  using distinct_map_inj [of "en_future \<circ> snd" "rv_entries s" "(k, d)" "(l, e)"] assms by (auto simp: keyed_def dest: map_of_SomeD)

section \<open>Changes that keep the entries\<close>

lemma rv_inv_touch:
  assumes inv: "rv_inv L ps ds s"
    and f: "\<And>se. se_object (f se) = se_object se \<and> se_burned (f se) = se_burned se \<and> (se_authorized se \<longrightarrow> se_authorized (f se))"
  shows "rv_inv L ps ds (session_update sid f s)"
  by (rule rv_inv_remove [OF inv _ session_update_map, where K = "\<lambda>_. True" and B = "\<lambda>_. False"])
     (use f rv_invD(2) [OF inv] in \<open>auto simp: bounded_def\<close>)

lemma map_of_update: "map_of (map (\<lambda>(k, e). (k, if k = key then f e else e)) es) k = (if k = key then map_option f (map_of es k) else map_of es k)"
  by (induction es) auto

lemma entry_update_fields [simp]:
  "rv_sessions (entry_update key f s) = rv_sessions s" "rv_bytes (entry_update key f s) = rv_bytes s" "rv_next (entry_update key f s) = rv_next s"
  "rv_futures (entry_update key f s) = rv_futures s" "rv_capacity (entry_update key f s) = rv_capacity s"
  "rv_max_bytes (entry_update key f s) = rv_max_bytes s" "rv_session_capacity (entry_update key f s) = rv_session_capacity s"
  "map fst (rv_entries (entry_update key f s)) = map fst (rv_entries s)" "length (rv_entries (entry_update key f s)) = length (rv_entries s)"
  by (auto simp: entry_update_def split_beta)

lemma entry_update_of: "map_of (rv_entries (entry_update key f s)) k = (if k = key then map_option f (map_of (rv_entries s) k) else map_of (rv_entries s) k)"
  by (simp add: entry_update_def map_of_update)

lemma entry_update_futures:
  "(\<And>e. en_future (f e) = en_future e) \<Longrightarrow> map (en_future \<circ> snd) (rv_entries (entry_update key f s)) = map (en_future \<circ> snd) (rv_entries s)"
  by (auto simp: entry_update_def split_beta)

lemma held_update:
  assumes "distinct (map fst es)" "map_of es key = Some e"
  shows "held_bytes (map (\<lambda>(k, e). (k, if k = key then f e else e)) es) = held_bytes es - en_correction_bytes e + en_correction_bytes (f e)"
  using assms
proof (induction es)
  case (Cons x es)
  show ?case
  proof (cases "fst x = key")
    case True
    then have eq: "map (\<lambda>(k, e). (k, if k = key then f e else e)) es = es"
      using Cons.prems(1) by (intro map_idI) (auto simp: rev_image_eqI)
    obtain e0 where x: "x = (key, e0)" using True by (cases x) auto
    with Cons.prems(2) show ?thesis unfolding held_bytes_def list.map eq x by simp
  next
    case False
    with Cons show ?thesis by (auto simp: held_bytes_def split_beta)
  qed
qed simp

lemma rv_inv_entry_touch:
  assumes inv: "rv_inv L ps ds s"
    and f: "\<And>e. en_future (f e) = en_future e \<and> en_correction (f e) = en_correction e \<and> en_correction_bytes (f e) = en_correction_bytes e"
  shows "rv_inv L ps ds (entry_update key f s)"
proof -
  note I = rv_invD [OF inv]
  have "map (en_correction_bytes \<circ> snd) (rv_entries (entry_update key f s)) = map (en_correction_bytes \<circ> snd) (rv_entries s)"
    using f by (auto simp: entry_update_def split_beta)
  then have b: "held_bytes (rv_entries (entry_update key f s)) = held_bytes (rv_entries s)" by (simp only: held_bytes_def)
  have k: "keyed (entry_update key f s)" using I(1) entry_update_futures [of f key s] f by (simp only: keyed_def entry_update_fields)
  have e: "entry_ok ps (entry_update key f s) k e" if m: "map_of (rv_entries (entry_update key f s)) k = Some e" for k e
  proof -
    obtain e' where e': "map_of (rv_entries s) k = Some e'" "e = (if k = key then f e' else e')" using m by (auto simp: entry_update_of split: if_splits)
    with I(4) [OF e'(1)] f [of e'] show ?thesis by (cases "k = key") (simp_all add: entry_ok_def)
  qed
  have "session_ok ps ds (entry_update key f s) sid se" if "map_of (rv_sessions (entry_update key f s)) sid = Some se" for sid se
    using I(5) [of sid se] that f by (fastforce simp: session_ok_def entry_update_of)
  with k e b I(2,3) show ?thesis by (auto simp: rv_inv_def bounded_def log_ok_def)
qed

section \<open>New entries\<close>

definition accepted :: "nat \<Rightarrow> (rkey \<times> Entry) list \<Rightarrow> attempt_log" where
  "accepted ob xs = concat (map (\<lambda>(k, e). case en_correction e of None \<Rightarrow> [] | Some c \<Rightarrow> [((ob, snd k), c)]) xs)"

lemma accepted_mem: "((o', a), c) \<in> set (accepted ob xs) \<longleftrightarrow> o' = ob \<and> (\<exists>k e. (k, e) \<in> set xs \<and> snd k = a \<and> en_correction e = Some c)"
proof (induction xs)
  case (Cons x xs)
  then show ?case by (cases x; cases "en_correction (snd x)") (auto simp: accepted_def, blast+)
qed (simp add: accepted_def)

lemma accepted_distinct:
  assumes "distinct (map fst xs)" and "\<And>k. k \<in> fst ` set xs \<Longrightarrow> fst k = sid"
  shows "distinct (map fst (accepted ob xs))"
  using assms
proof (induction xs)
  case (Cons x xs)
  obtain k e where x: "x = (k, e)" by (cases x)
  have "(ob, snd k) \<notin> fst ` set (accepted ob xs)"
  proof
    assume "(ob, snd k) \<in> fst ` set (accepted ob xs)"
    then obtain c k' e' where "(k', e') \<in> set xs" "snd k' = snd k" by (auto simp: accepted_mem)
    moreover from this have "fst k' = fst k" using Cons.prems(2) [of k'] Cons.prems(2) [of k] x by (force simp: rev_image_eqI)
    ultimately have "(k, e') \<in> set xs" by (metis prod_eqI)
    then show False using Cons.prems(1) x by (auto simp: rev_image_eqI)
  qed
  with Cons x show ?case by (cases "en_correction e") (auto simp: accepted_def)
qed (simp add: accepted_def)

lemma rv_inv_add:
  assumes inv: "rv_inv L ps ds s"
    and se: "map_of (rv_sessions s) sid = Some se" "se_authorized se"
    and xs: "distinct (map fst xs)" "\<And>k e. (k, e) \<in> set xs \<Longrightarrow> fst k = sid \<and> snd k \<notin> se_burned se \<and> map_of (rv_entries s) k = None
       \<and> 0 \<le> en_correction_bytes e \<and> (en_correction e = None \<longrightarrow> en_correction_bytes e = 0)"
      "map (en_future \<circ> snd) xs = [rv_next s..<rv_next s + length xs]"
    and fut: "\<And>f c. f < rv_next s \<Longrightarrow> rv_futures t f = Done c \<longleftrightarrow> rv_futures s f = Done c"
      "\<And>k e c. (k, e) \<in> set xs \<Longrightarrow> rv_futures t (en_future e) = Done c \<longleftrightarrow> en_correction e = Some c"
    and t: "rv_entries t = rv_entries s @ xs" "rv_sessions t = rv_sessions s" "rv_next t = rv_next s + length xs" "rv_bytes t = rv_bytes s + held_bytes xs"
      "rv_max_bytes t = rv_max_bytes s" "rv_capacity t = rv_capacity s" "rv_session_capacity t = rv_session_capacity s"
    and bnd: "rv_bytes t \<le> rv_max_bytes t" "int (length (rv_entries t)) \<le> rv_capacity t"
  shows "rv_inv L (ps @ accepted (se_object se) xs) ds t"
proof -
  note I = rv_invD [OF inv]
  have old: "map_of (rv_entries t) k = Some e" if "map_of (rv_entries s) k = Some e" for k e using that xs(2) by (auto simp: t map_add_def split: option.splits)
  have cases: "map_of (rv_entries s) k = Some e \<or> (k, e) \<in> set xs" if "map_of (rv_entries t) k = Some e" for k e
    using that by (auto simp: t dest: map_of_SomeD)
  have new: "map_of (rv_entries t) k = Some e" if "(k, e) \<in> set xs" for k e
    using xs(2) [OF that] that xs(1) by (auto simp: t map_add_def)
  have fx: "rv_next s \<le> en_future e \<and> en_future e < rv_next s + length xs" if "(k, e) \<in> set xs" for k e
  proof -
    have "en_future e \<in> set (map (en_future \<circ> snd) xs)" using that by force
    then show ?thesis unfolding xs(3) by simp
  qed
  have of: "en_future e < rv_next s" if "(k, e) \<in> set (rv_entries s)" for k e
    using I(4) [of k e] that I(1) by (auto simp: entries_mem entry_ok_def)
  have k: "keyed t"
  proof -
    have "fst ` set (rv_entries s) \<inter> fst ` set xs = {}" using xs(2) by (auto simp: map_of_eq_None_iff) (metis fst_conv image_eqI map_of_eq_None_iff)
    moreover have "(en_future \<circ> snd) ` set (rv_entries s) \<inter> (en_future \<circ> snd) ` set xs = {}" using fx of by fastforce
    moreover have "distinct (map (en_future \<circ> snd) xs)" unfolding xs(3) by simp
    ultimately show ?thesis using I(1) xs(1) by (simp add: keyed_def t)
  qed
  have e: "entry_ok (ps @ accepted (se_object se) xs) t k e" if m: "map_of (rv_entries t) k = Some e" for k e
    using cases [OF m]
  proof
    assume m: "map_of (rv_entries s) k = Some e"
    then show ?thesis using I(4) [OF m] fut(1) [of "en_future e"] by (fastforce simp: entry_ok_def t)
  next
    assume x: "(k, e) \<in> set xs"
    then have "((se_object se, snd k), c) \<in> set (accepted (se_object se) xs)" if "en_correction e = Some c" for c
      using that unfolding accepted_mem by blast
    then show ?thesis using xs(2) [OF x] se fx [OF x] fut(2) [OF x] by (auto simp: entry_ok_def t)
  qed
  have fresh: "((se_object se, snd k), c) \<notin> set ps" if "(k, e) \<in> set xs" for k e c
  proof
    assume "((se_object se, snd k), c) \<in> set ps"
    with I(5) [OF se(1)] have "snd k \<in> se_burned se \<or> (\<exists>e. map_of (rv_entries s) (sid, snd k) = Some e)" unfolding session_ok_def by blast
    with xs(2) [OF that] show False by (cases k) auto
  qed
  have l: "log_ok (ps @ accepted (se_object se) xs) ds t"
  proof -
    have "distinct (map fst (accepted (se_object se) xs))" by (rule accepted_distinct [OF xs(1), of sid]) (use xs(2) in auto)
    moreover have "fst ` set ps \<inter> fst ` set (accepted (se_object se) xs) = {}" using fresh by (fastforce simp: accepted_mem)
    moreover have "se_object se < rv_next s" using I(5) [OF se(1)] by (simp add: session_ok_def)
    ultimately show ?thesis using I(3) by (fastforce simp: log_ok_def t accepted_mem)
  qed
  have "session_ok (ps @ accepted (se_object se) xs) ds t sid' se'" if m: "map_of (rv_sessions t) sid' = Some se'" for sid' se'
  proof -
    have m': "map_of (rv_sessions s) sid' = Some se'" using m by (simp add: t)
    have same: "sid' = sid \<and> se' = se" if "se_object se' = se_object se"
      using object_inj [OF I(1) m' se(1) that] .
    have "\<exists>e. map_of (rv_entries t) (sid', a) = Some e \<and> en_correction e = Some c" if "((se_object se', a), c) \<in> set (accepted (se_object se) xs)" for a c
    proof -
      from that obtain k e where "(k, e) \<in> set xs" "snd k = a" "en_correction e = Some c" "se_object se' = se_object se" by (auto simp: accepted_mem)
      then show ?thesis using new [of k e] xs(2) [of k e] same by (cases k) auto
    qed
    then show ?thesis using I(5) [OF m'] old by (fastforce simp: session_ok_def t)
  qed
  moreover have "bounded L t" using I(2) bnd by (simp add: bounded_def t held_bytes_def)
  ultimately show ?thesis using k e l by (auto simp: rv_inv_def)
qed

section \<open>Deposits and deliveries\<close>

lemma rv_inv_deposit:
  assumes inv: "rv_inv L ps ds s" and e: "map_of (rv_entries s) key = Some e" "en_correction e = None"
    and n: "0 \<le> n" "rv_bytes s + n \<le> rv_max_bytes s"
    and t: "t = (entry_update key (\<lambda>e. e\<lparr>en_correction := Some c, en_correction_bytes := n\<rparr>) s)
      \<lparr>rv_bytes := rv_bytes s + n, rv_futures := (rv_futures s)(en_future e := Done c)\<rparr>"
  shows "rv_inv L (ps @ [(owner_of s key, c)]) ds t"
proof -
  note I = rv_invD [OF inv]
  let ?f = "\<lambda>e. e\<lparr>en_correction := Some c, en_correction_bytes := n\<rparr>"
  obtain se where se: "map_of (rv_sessions s) (fst key) = Some se" "se_authorized se" "snd key \<notin> se_burned se" "en_future e < rv_next s"
    "en_correction e = None \<longrightarrow> en_correction_bytes e = 0" using I(4) [OF e(1)] by (rule entry_okE)
  have o: "owner_of s key = (se_object se, snd key)" using se(1) by (simp add: owner_of_def)
  have T: "rv_sessions t = rv_sessions s" "rv_next t = rv_next s" "rv_futures t = (rv_futures s)(en_future e := Done c)" "map fst (rv_entries t) = map fst (rv_entries s)"
    "map_of (rv_entries t) k = (if k = key then Some (?f e) else map_of (rv_entries s) k)" for k
    using e(1) by (simp_all add: t entry_update_of)
  have "held_bytes (rv_entries t) = held_bytes (rv_entries s) + n"
    using held_update [of "rv_entries s" key e ?f] I(1) e se(5) by (simp add: t entry_update_def keyed_def)
  then have b: "bounded L t" using I(2) n by (simp add: bounded_def t)
  have fs: "map (en_future \<circ> snd) (rv_entries t) = map (en_future \<circ> snd) (rv_entries s)" using entry_update_futures [of ?f key s] by (simp add: t)
  have k: "keyed t" using I(1) unfolding keyed_def T(1,4) fs .
  have en: "entry_ok (ps @ [(owner_of s key, c)]) t k d" if m: "map_of (rv_entries t) k = Some d" for k d
  proof (cases "k = key")
    case True
    then have "d = ?f e" using m T(5) by simp
    then show ?thesis unfolding entry_ok_def by (intro exI [of _ se]) (use True se n o in \<open>simp add: T(1-3)\<close>)
  next
    case False
    then have m': "map_of (rv_entries s) k = Some d" using m T(5) by simp
    then have "en_future d \<noteq> en_future e" using future_inj [OF I(1) m' e(1)] False by auto
    with I(4) [OF m'] show ?thesis by (fastforce simp: entry_ok_def T(1-3))
  qed
  have old: "\<exists>e'. map_of (rv_entries s) (i, a) = Some e' \<and> en_correction e' = Some c' \<Longrightarrow> \<exists>e'. map_of (rv_entries t) (i, a) = Some e' \<and> en_correction e' = Some c'" for i a c'
    using e T(5) by auto
  have fresh: "((se_object se, snd key), d) \<notin> set ps" for d
  proof
    assume "((se_object se, snd key), d) \<in> set ps"
    with I(5) [OF se(1)] have "snd key \<in> se_burned se \<or> (\<exists>e. map_of (rv_entries s) (fst key, snd key) = Some e \<and> en_correction e = Some d)"
      unfolding session_ok_def by blast
    with se(3) e show False by auto
  qed
  then have l: "log_ok (ps @ [(owner_of s key, c)]) ds t" using I(3) I(5) [OF se(1)] unfolding log_ok_def o T(2) session_ok_def by auto
  have ss: "session_ok (ps @ [(owner_of s key, c)]) ds t i si" if m: "map_of (rv_sessions t) i = Some si" for i si
  proof -
    have m': "map_of (rv_sessions s) i = Some si" using m by (simp add: T(1))
    have "\<exists>e'. map_of (rv_entries t) (i, a) = Some e' \<and> en_correction e' = Some c'" if "((se_object si, a), c') = (owner_of s key, c)" for a c'
      using that object_inj [OF I(1) m' se(1)] T(5) unfolding o by auto
    note new = this
    note ok = I(5) [OF m', unfolded session_ok_def]
    have "a \<in> se_burned si \<or> (\<exists>e'. map_of (rv_entries t) (i, a) = Some e' \<and> en_correction e' = Some c')"
      if "((se_object si, a), c') \<in> set (ps @ [(owner_of s key, c)])" for a c'
    proof (cases "((se_object si, a), c') \<in> set ps")
      case True
      with ok have "a \<in> se_burned si \<or> (\<exists>e'. map_of (rv_entries s) (i, a) = Some e' \<and> en_correction e' = Some c')" by blast
      then show ?thesis using old [of i a c'] by blast
    next
      case False
      with that new [of a c'] show ?thesis by auto
    qed
    then show ?thesis using ok unfolding session_ok_def T(2) by blast
  qed
  show ?thesis unfolding rv_inv_def using k b l en ss by blast
qed

lemma owner_of_burn [simp]: "owner_of (burn_locked key b s) k = owner_of s k"
proof -
  have "map_option se_object (map_of (rv_sessions (burn_locked key b s)) (fst k)) = map_option se_object (map_of (rv_sessions s) (fst k))"
    unfolding burn_sessions map_of_select [of "\<lambda>i se. if i = fst key then se\<lparr>se_burned := insert (snd key) (se_burned se)\<rparr> else se" "\<lambda>_. True"]
    by (cases "map_of (rv_sessions s) (fst k)") simp_all
  then have "map_of (rv_sessions s) (fst k) \<noteq> None \<Longrightarrow> ?thesis" by (auto simp: owner_of_def)
  moreover have "map_of (rv_sessions s) (fst k) = None \<Longrightarrow> ?thesis"
    using \<open>map_option se_object (map_of (rv_sessions (burn_locked key b s)) (fst k)) = _\<close> by (simp add: owner_of_def)
  ultimately show ?thesis by blast
qed

lemma burned_now: "map_of (rv_sessions (burn_locked key b s)) (fst key) = Some se \<Longrightarrow> snd key \<in> se_burned se"
  unfolding burn_sessions map_of_select [of "\<lambda>i se. if i = fst key then se\<lparr>se_burned := insert (snd key) (se_burned se)\<rparr> else se" "\<lambda>_. True"]
  by auto

lemma rv_inv_deliver:
  assumes inv: "rv_inv L ps ds s" and e: "map_of (rv_entries s) key = Some e" "en_correction e = Some c"
  shows "rv_inv L ps (ds @ [(owner_of s key, c)]) (burn_locked key b s)"
proof -
  note I = rv_invD [OF inv] and J = rv_invD [OF rv_inv_burn [OF inv, of key b]]
  obtain se where se: "map_of (rv_sessions s) (fst key) = Some se" "snd key \<notin> se_burned se" "\<forall>c. en_correction e = Some c \<longrightarrow> ((se_object se, snd key), c) \<in> set ps"
    using I(4) [OF e(1)] by (rule entry_okE)
  have o: "owner_of s key = (se_object se, snd key)" using se(1) by (simp add: owner_of_def)
  have "((se_object se, snd key), d) \<notin> set ds" for d using I(5) [OF se(1)] se(2) by (auto simp: session_ok_def)
  then have l: "log_ok ps (ds @ [(owner_of s key, c)]) (burn_locked key b s)" using J(3) e(2) se(3) unfolding log_ok_def o by auto
  have "session_ok ps (ds @ [(owner_of s key, c)]) (burn_locked key b s) i si" if m: "map_of (rv_sessions (burn_locked key b s)) i = Some si" for i si
  proof -
    have "a \<in> se_burned si" if "(se_object si, a) = owner_of s key" for a
    proof -
      let ?T = "burn_locked key b s"
      have "owner_of ?T key = owner_of s key" by simp
      moreover have "map_of (rv_sessions ?T) (fst key) \<noteq> None" using se(1)
        unfolding burn_sessions map_of_select [of "\<lambda>i se. if i = fst key then se\<lparr>se_burned := insert (snd key) (se_burned se)\<rparr> else se" "\<lambda>_. True"] by simp
      then obtain sk where sk: "map_of (rv_sessions ?T) (fst key) = Some sk" by blast
      moreover have "se_object sk = se_object se" using sk calculation(1) unfolding o by (simp add: owner_of_def)
      ultimately have "i = fst key \<and> si = sk" using object_inj [OF J(1) m sk] that o by auto
      then show ?thesis using burned_now [OF sk] that o by auto
    qed
    then show ?thesis using J(5) [OF m] unfolding session_ok_def by auto
  qed
  then show ?thesis unfolding rv_inv_def using J l by blast
qed

section \<open>Operations\<close>

lemma inv_register: "rv_inv L ps ds s \<Longrightarrow> rv_inv L ps ds (fst (register_session a now s))"
proof -
  assume inv: "rv_inv L ps ds s"
  define t where "t = cleanup_locked now s"
  have it: "rv_inv L ps ds t" using inv unfolding t_def by (rule rv_inv_cleanup)
  note I = rv_invD [OF it]
  let ?n = "(sa_session_id a, \<lparr>se_object = rv_next t, se_expected = a, se_burned = {}, se_last_active = now, se_authorized = False\<rparr>)"
  have "rv_inv L ps ds (t\<lparr>rv_sessions := rv_sessions t @ [?n], rv_next := rv_next t + 1\<rparr>)" (is "rv_inv L ps ds ?u")
    if new: "map_of (rv_sessions t) (sa_session_id a) = None" and cap: "int (length (rv_sessions t)) < rv_session_capacity t"
  proof -
    have m: "map_of (rv_sessions ?u) i = (if i = sa_session_id a then Some (snd ?n) else map_of (rv_sessions t) i)" for i
      using new by (auto simp: map_add_def split: option.splits)
    have "se_object si < rv_next t" if "(i, si) \<in> set (rv_sessions t)" for i si
      using I(5) [of i si] that I(1) by (auto simp: session_ok_def keyed_def)
    then have "keyed ?u" using I(1) new by (fastforce simp: keyed_def map_of_eq_None_iff)
    moreover have "bounded L ?u" using I(2) cap by (simp add: bounded_def)
    moreover have "log_ok ps ds ?u" using I(3) by (fastforce simp: log_ok_def)
    moreover have "entry_ok ps ?u k e" if "map_of (rv_entries ?u) k = Some e" for k e
    proof -
      have "entry_ok ps t k e" using I(4) [of k e] that by simp
      moreover from this have "fst k \<noteq> sa_session_id a" using new by (auto simp: entry_ok_def)
      ultimately show ?thesis unfolding entry_ok_def m by (auto intro: less_SucI)
    qed
    moreover have "session_ok ps ds ?u i si" if ms: "map_of (rv_sessions ?u) i = Some si" for i si
    proof (cases "i = sa_session_id a")
      case True
      have "\<forall>a c. ((rv_next t, a), c) \<notin> set ps" "\<forall>a c. ((rv_next t, a), c) \<notin> set ds" using I(3) by (auto simp: log_ok_def)
      then show ?thesis using ms True unfolding m by (auto simp: session_ok_def)
    next
      case False
      then show ?thesis using I(5) [of i si] ms unfolding m by (simp add: session_ok_def)
    qed
    ultimately show ?thesis unfolding rv_inv_def by blast
  qed
  then show ?thesis using inv it
    by (cases "SessionAuthorization_validate a") (auto simp: register_session_def raiseS_def Let_def simp flip: t_def)
qed

lemma inv_authorize: "rv_inv L ps ds s \<Longrightarrow> rv_inv L ps ds (fst (authorize_session a n now s))"
proof -
  assume inv: "rv_inv L ps ds s"
  have "rv_inv L ps ds (session_update (sa_session_id a) (\<lambda>se. se\<lparr>se_authorized := True, se_last_active := now\<rparr>) (cleanup_locked now s))"
    by (rule rv_inv_touch [OF rv_inv_cleanup [OF inv]]) simp
  then show ?thesis using inv rv_inv_cleanup [OF inv, of now]
    by (cases "SessionAuthorization_validate a") (auto simp: authorize_session_def raiseS_def Let_def split: option.splits)
qed

lemma entry_locked_ok:
  assumes inv: "rv_inv L ps ds s" and run: "entry_locked key now s = (t, r)"
  shows "rv_inv L ps ds t" "r = Inr e \<Longrightarrow> map_of (rv_entries t) key = Some e"
proof -
  define u where "u = cleanup_locked now s"
  have iu: "rv_inv L ps ds u" using inv unfolding u_def by (rule rv_inv_cleanup)
  let ?v = "session_update (fst key) (\<lambda>se. se\<lparr>se_last_active := now\<rparr>) u"
  have iv: "rv_inv L ps ds ?v" by (rule rv_inv_touch [OF iu]) simp
  have res: "rv_inv L ps ds t \<and> (r = Inr e \<longrightarrow> map_of (rv_entries t) key = Some e)"
  proof (cases "map_of (rv_sessions u) (fst key)")
    case None
    then show ?thesis using run iu by (auto simp: entry_locked_def Let_def simp flip: u_def)
  next
    case (Some se)
    show ?thesis
    proof (cases "se_authorized se \<and> snd key \<notin> se_burned se \<and> map_of (rv_entries u) key = None
        \<and> int (length (rv_entries u)) < rv_capacity u \<and> int (card (se_burned se) + active_for (fst key) ?v) < sa_max_attempts (se_expected se)")
      case False
      then show ?thesis using run iu iv Some
        by (auto simp: entry_locked_def Let_def raiseS_def split: if_splits option.splits simp flip: u_def)
    next
      case True
      let ?e = "\<lparr>en_created = now, en_future = rv_next ?v, en_correction = None, en_correction_bytes = 0, en_activated = False,
                 en_preloaded = False, en_activation_metadata = None\<rparr>"
      have t: "t = ?v\<lparr>rv_entries := rv_entries ?v @ [(key, ?e)], rv_futures := (rv_futures ?v)(rv_next ?v := Pending), rv_next := rv_next ?v + 1, rv_attempts := rv_attempts ?v + 1\<rparr>"
        and r: "r = Inr ?e" using run Some True by (auto simp: entry_locked_def Let_def raiseS_def simp flip: u_def)
      have "rv_inv L (ps @ accepted (se_object se) [(key, ?e)]) ds t"
        by (rule rv_inv_add [OF iv, of "fst key" "se\<lparr>se_last_active := now\<rparr>", simplified])
           (use Some True iv in \<open>auto simp: session_update_of t held_bytes_def rv_inv_def bounded_def\<close>)
      then show ?thesis using r True by (auto simp: accepted_def t map_add_def)
    qed
  qed
  then show "rv_inv L ps ds t" "r = Inr e \<Longrightarrow> map_of (rv_entries t) key = Some e" by blast+
qed

lemma owner_update [simp]: "owner_of (entry_update key f s) k = owner_of s k"
  by (simp add: owner_of_def)

lemma burn_after_deposit:
  assumes "keyed s" "map_of (rv_entries s) key = Some e" "en_correction_bytes e = 0"
  shows "burn_locked key b ((entry_update key (\<lambda>e. e\<lparr>en_correction := c, en_correction_bytes := n\<rparr>) s)\<lparr>rv_bytes := rv_bytes s + n\<rparr>) = burn_locked key b s"
proof -
  let ?f = "\<lambda>e. e\<lparr>en_correction := c, en_correction_bytes := n\<rparr>"
  let ?t = "(entry_update key ?f s)\<lparr>rv_bytes := rv_bytes s + n\<rparr>"
  have "filter (\<lambda>x. fst x \<noteq> key) (map (\<lambda>(k, e). (k, if k = key then ?f e else e)) es) = filter (\<lambda>x. fst x \<noteq> key) es" for es
    by (induction es) auto
  then have d: "AList.delete key (rv_entries ?t) = AList.delete key (rv_entries s)" by (simp add: entry_update_def delete_filter)
  have m: "map_of (rv_entries ?t) key = Some (?f e)" using assms(2) by (simp add: entry_update_of)
  have "pop_entry key ?t = pop_entry key s"
    unfolding pop_entry_def m assms(2) option.case d using assms(3)
    by (auto simp: cancel_entry_locked_def future_cancel_def entry_update_def)
  then show ?thesis by (simp add: burn_locked_def)
qed

lemma push_ok:
  assumes inv: "rv_inv L ps ds s" and key: "rendezvous_key (pb_session_id c) (pb_attempt_id c) = Inr key" and run: "push c n now s = (t, r)"
  shows "rv_inv L (if r = Inr () then ps @ [(owner_of t key, c)] else ps) ds t"
proof -
  obtain u q where u: "entry_locked key now s = (u, q)" by (cases "entry_locked key now s")
  note iu = entry_locked_ok [OF inv u]
  show ?thesis
  proof (cases q)
    case (Inl e)
    then show ?thesis using run u key iu(1) by (auto simp: push_def)
  next
    case (Inr e)
    note m = iu(2) [OF Inr] and I = rv_invD [OF iu(1)]
    let ?f = "\<lambda>e. e\<lparr>en_correction := Some c, en_correction_bytes := n\<rparr>"
    let ?u = "(entry_update key ?f u)\<lparr>rv_bytes := rv_bytes u + n\<rparr>"
    have bu: "rv_inv L ps ds (burn_locked key True u)" by (rule rv_inv_burn [OF iu(1)])
    show ?thesis
    proof (cases "(en_activated e \<and> Some (prepared_metadata c) \<noteq> en_activation_metadata e) \<or> en_correction e \<noteq> None \<or> n \<le> 0 \<or> rv_bytes u + n > rv_max_bytes u")
      case True
      then show ?thesis using run u key Inr bu by (auto simp: push_def raiseS_def split: if_splits)
    next
      case False
      then have e: "en_correction e = None" and n: "0 \<le> n" "rv_bytes u + n \<le> rv_max_bytes u" by auto
      have z: "en_correction_bytes e = 0" using I(4) [OF m] e by (auto simp: entry_ok_def)
      show ?thesis
      proof (cases "rv_futures u (en_future e) = Pending")
        case True
        then have t: "t = ?u\<lparr>rv_futures := (rv_futures u)(en_future e := Done c)\<rparr>" "r = Inr ()"
          using run u key Inr False by (auto simp: push_def raiseS_def Let_def)
        have "owner_of t key = owner_of u key" by (simp add: t(1) owner_of_def)
        then show ?thesis using rv_inv_deposit [OF iu(1) m e n refl] t by simp
      next
        case fut: False
        then have "t = burn_locked key True ?u" "r \<noteq> Inr ()" using run u key Inr False by (auto simp: push_def raiseS_def Let_def)
        then show ?thesis using bu burn_after_deposit [OF I(1) m z] by simp
      qed
    qed
  qed
qed

lemma activate_ok: "rv_inv L ps ds s \<Longrightarrow> rv_inv L ps ds (fst (activate r now s))"
proof -
  assume inv: "rv_inv L ps ds s"
  show ?thesis
  proof (cases "rendezvous_key (rq_session_id r) (rq_correlation_id r)")
    case (Inl e)
    then show ?thesis using inv by (simp add: activate_def)
  next
    case (Inr key)
    obtain u q where u: "entry_locked key now s = (u, q)" by (cases "entry_locked key now s")
    note iu = entry_locked_ok(1) [OF inv u]
    have "rv_inv L ps ds (entry_update key (\<lambda>e. e\<lparr>en_activated := True, en_created := (if en_preloaded e then now else en_created e),
        en_preloaded := False, en_activation_metadata := Some (request_metadata r None None)\<rparr>) u)" by (rule rv_inv_entry_touch [OF iu]) simp
    then show ?thesis using Inr u iu
      by (cases q) (auto simp: activate_def Let_def raiseS_def intro: rv_inv_burn split: option.splits)
  qed
qed

lemma abort_ok: "rv_inv L ps ds s \<Longrightarrow> rv_inv L ps ds (fst (abort r f s))"
  by (cases "rendezvous_key (rq_session_id r) (rq_correlation_id r)") (auto simp: abort_def intro: rv_inv_burn)

lemma abort_raise_ok: "rv_inv L ps ds s \<Longrightarrow> rv_inv L ps ds (fst (abort_raise r f e s)) \<and> snd (abort_raise r f e s) \<noteq> Inr c"
  using abort_ok [of L ps ds s r f] by (cases "abort r f s"; cases "snd (abort r f s)") (auto simp: abort_raise_def)

lemma resume_ok:
  assumes inv: "rv_inv L ps ds s" and key: "rendezvous_key (rq_session_id r) (rq_correlation_id r) = Inr key"
    and run: "correction_resume r f out s = (t, q)" and out: "\<And>c. out = Arrived c \<Longrightarrow> rv_futures s f = Done c"
  shows "rv_inv L ps (case q of Inl _ \<Rightarrow> ds | Inr c \<Rightarrow> ds @ [(owner_of t key, c)]) t"
    and "q = Inr c \<Longrightarrow> out = Arrived c \<and> prepared_metadata c = request_metadata r None None"
proof -
  have ab: "rv_inv L ps ds (fst (abort_raise r f e s)) \<and> (\<exists>e'. snd (abort_raise r f e s) = Inl e')" for e
    using abort_raise_ok [OF inv, of r f e] by (cases "snd (abort_raise r f e s)") auto
  have ab': "abort_raise r f e s = (t', q') \<Longrightarrow> rv_inv L ps ds t' \<and> (\<exists>e'. q' = Inl e')" for e t' q' using ab [of e] by simp
  have good: "rv_inv L ps (ds @ [(owner_of s key, c)]) (burn_locked key False s)" if h: "holds_entry s key f" and d: "rv_futures s f = Done c" for c
  proof -
    obtain e where e: "map_of (rv_entries s) key = Some e" "en_future e = f" using h by (auto simp: holds_entry_def split: option.splits)
    have "en_correction e = Some c" using rv_invD(4) [OF inv e(1)] d e(2) by (auto simp: entry_ok_def)
    then show ?thesis using rv_inv_deliver [OF inv e(1)] by blast
  qed
  have ow: "owner_of ((burn_locked key False s)\<lparr>rv_consumed := x\<rparr>) key = owner_of s key" for x
    using owner_of_burn [of key False s key] by (simp add: owner_of_def)
  show "rv_inv L ps (case q of Inl _ \<Rightarrow> ds | Inr c \<Rightarrow> ds @ [(owner_of t key, c)]) t"
  proof (cases out)
    case (Arrived c)
    then show ?thesis using run key inv ab [of "RendezvousError ''correction and activation metadata mismatch''"] good [OF _ out [OF Arrived]]
      by (auto simp: correction_resume_def raiseS_def Let_def ow split: if_splits sum.splits)
  qed (use run key in \<open>auto simp: correction_resume_def dest!: ab'\<close>)
  show "out = Arrived c \<and> prepared_metadata c = request_metadata r None None" if "q = Inr c"
    using that run key by (cases out) (auto simp: correction_resume_def raiseS_def Let_def split: if_splits dest!: ab')
qed

lemma burn_many_ok: "rv_inv L ps ds s \<Longrightarrow> rv_inv L ps ds (fold (\<lambda>key. burn_locked key b) keys s)"
  by (rule fold_keeps [where P = "rv_inv L ps ds"]) (auto intro: rv_inv_burn)

lemma burn_reserved_ok: "rv_inv L ps ds s \<Longrightarrow> rv_inv L ps ds (fst (burn_reserved sid as s))"
proof (induction as arbitrary: s)
  case (Cons a as)
  then show ?case by (cases "rendezvous_key sid a") (auto intro!: Cons.IH rv_inv_burn)
qed simp

lemma rv_close_ok: "rv_inv L ps ds s \<Longrightarrow> rv_inv L ps ds (rendezvous_close s)"
proof -
  assume inv: "rv_inv L ps ds s"
  note I = rv_invD [OF inv]
  have c: "rv_next (fold (\<lambda>(k, e). cancel_entry_locked e) xs u) = rv_next u \<and> rv_capacity (fold (\<lambda>(k, e). cancel_entry_locked e) xs u) = rv_capacity u
     \<and> rv_max_bytes (fold (\<lambda>(k, e). cancel_entry_locked e) xs u) = rv_max_bytes u \<and> rv_session_capacity (fold (\<lambda>(k, e). cancel_entry_locked e) xs u) = rv_session_capacity u"
    for xs :: "(rkey \<times> Entry) list" and u
    by (induction xs arbitrary: u) (auto simp: cancel_entry_locked_def)
  have "0 \<le> rv_max_bytes s" "0 \<le> rv_capacity s" "0 \<le> rv_session_capacity s"
  proof -
    have "0 \<le> en_correction_bytes e" if "(k, e) \<in> set (rv_entries s)" for k e using I(4) [of k e] that I(1) by (auto simp: entries_mem entry_ok_def)
    then have "0 \<le> held_bytes (rv_entries s)" unfolding held_bytes_def by (intro sum_list_nonneg) auto
    then show "0 \<le> rv_max_bytes s" "0 \<le> rv_capacity s" "0 \<le> rv_session_capacity s" using I(2) by (auto simp: bounded_def)
  qed
  then show ?thesis using I(2,3) by (auto simp: rv_inv_def rendezvous_close_def keyed_def bounded_def log_ok_def held_bytes_def c)
qed

section \<open>Batches\<close>

lemma use_row_ok:
  assumes "rv_inv L ps ds s" "map_of (rv_entries s) key = Some e" "en_correction e = Some c"
  shows "rv_inv L ps (ds @ [(owner_of s key, c)]) (use_batch_row r (key, i) s)"
proof -
  let ?f = "\<lambda>e. e\<lparr>en_activated := True, en_preloaded := False, en_activation_metadata := Some (request_metadata r (Some i) (Some 1))\<rparr>"
  have "rv_inv L ps ds (entry_update key ?f s)" by (rule rv_inv_entry_touch [OF assms(1)]) simp
  moreover have "map_of (rv_entries (entry_update key ?f s)) key = Some (?f e)" using assms(2) by (simp add: entry_update_of)
  ultimately have "rv_inv L ps (ds @ [(owner_of (entry_update key ?f s) key, c)]) (burn_locked key False (entry_update key ?f s))"
    by (rule rv_inv_deliver) (use assms(3) in simp)
  then show ?thesis by (simp add: use_batch_row_def)
qed

lemma use_row_entries: "k \<noteq> key \<Longrightarrow> map_of (rv_entries (use_batch_row r (key, i) s)) k = map_of (rv_entries s) k"
  by (simp add: use_batch_row_def map_of_filter_key [of "\<lambda>k. k \<noteq> key"] entry_update_of)

lemma use_row_owner: "owner_of (use_batch_row r (key, i) s) k = owner_of s k"
  by (simp add: use_batch_row_def)

lemma use_rows_ok:
  assumes "rv_inv L ps ds s" "distinct keys" "length ids = length keys" "length cs = length keys"
    and "\<And>j. j < length keys \<Longrightarrow> \<exists>e. map_of (rv_entries s) (keys ! j) = Some e \<and> en_correction e = Some (cs ! j)"
  shows "rv_inv L ps (ds @ zip (map (owner_of s) keys) cs) (fold (use_batch_row r) (zip keys ids) s)
    \<and> (\<forall>k. owner_of (fold (use_batch_row r) (zip keys ids) s) k = owner_of s k)"
  using assms
proof (induction keys arbitrary: ds s ids cs)
  case (Cons key keys)
  obtain i ids' c cs' where ic: "ids = i # ids'" "cs = c # cs'" using Cons.prems(3,4) by (cases ids; cases cs) auto
  obtain e where e: "map_of (rv_entries s) key = Some e" "en_correction e = Some c" using Cons.prems(5) [of 0] by (auto simp: ic)
  let ?t = "use_batch_row r (key, i) s"
  have it: "rv_inv L ps (ds @ [(owner_of s key, c)]) ?t" by (rule use_row_ok [OF Cons.prems(1) e])
  have "\<exists>e. map_of (rv_entries ?t) (keys ! j) = Some e \<and> en_correction e = Some (cs' ! j)" if "j < length keys" for j
  proof -
    have "keys ! j \<noteq> key" using Cons.prems(2) that by auto
    then show ?thesis using Cons.prems(5) [of "Suc j"] that by (simp add: use_row_entries ic)
  qed
  from Cons.IH [OF it, of ids' cs'] this Cons.prems(2-4) show ?case by (simp add: ic use_row_owner)
qed simp

lemma batch_ok:
  assumes inv: "rv_inv L ps ds s" and keys: "mapE (rendezvous_key (rq_session_id r)) ids = Inr keys"
    and run: "consume_preloaded_batch r ids now s = (t, q)"
  shows "rv_inv L ps (case q of Inl _ \<Rightarrow> ds | Inr cs \<Rightarrow> ds @ zip (map (owner_of t) keys) cs) t"
proof -
  define u where "u = cleanup_locked now s"
  have iu: "rv_inv L ps ds u" using inv unfolding u_def by (rule rv_inv_cleanup)
  have len: "length keys = length ids" using mapE_length [OF keys] .
  have bu: "rv_inv L ps ds (fold (\<lambda>key. burn_locked key True) keys u)" by (rule burn_many_ok [OF iu])
  have good: "rv_inv L ps (ds @ zip (map (owner_of v) keys) cs) v"
    if "mapE (batch_correction r se u) (zip keys ids) = Inr cs" "distinct keys"
      and v: "v = (session_update (rq_session_id r) (\<lambda>se. se\<lparr>se_last_active := now\<rparr>) (fold (use_batch_row r) (zip keys ids) u))\<lparr>rv_consumed := n\<rparr>" for se cs v n
  proof -
    have "\<exists>e. map_of (rv_entries u) (keys ! j) = Some e \<and> en_correction e = Some (cs ! j)" if j: "j < length keys" for j
      using mapE_nth [OF \<open>mapE (batch_correction r se u) (zip keys ids) = Inr cs\<close>, of j] j len
      by (auto simp: batch_correction_def raise_if_eq_Inr split: option.splits)
    moreover have "length cs = length keys" using mapE_length [OF \<open>mapE (batch_correction r se u) (zip keys ids) = Inr cs\<close>] len by simp
    ultimately have f: "rv_inv L ps (ds @ zip (map (owner_of u) keys) cs) (fold (use_batch_row r) (zip keys ids) u)"
      "\<And>k. owner_of (fold (use_batch_row r) (zip keys ids) u) k = owner_of u k" using use_rows_ok [OF iu \<open>distinct keys\<close> len [symmetric]] by auto
    have "owner_of (session_update i (\<lambda>se. se\<lparr>se_last_active := now\<rparr>) w) k = owner_of w k" for i w k
      by (cases "fst k = i"; cases "map_of (rv_sessions w) i") (auto simp: owner_of_def session_update_of)
    then have o: "owner_of v k = owner_of u k" for k using f(2) [of k] by (simp add: v owner_of_def)
    have mo: "map (owner_of v) keys = map (owner_of u) keys" by (simp add: o)
    have "rv_inv L ps (ds @ zip (map (owner_of u) keys) cs) v" unfolding v using rv_inv_touch [OF f(1), of "\<lambda>se. se\<lparr>se_last_active := now\<rparr>"] by simp
    then show ?thesis unfolding mo .
  qed
  show ?thesis using run keys inv iu bu
    by (auto simp: consume_preloaded_batch_def raiseS_def Let_def split: if_splits option.splits sum.splits intro!: good simp del: rv_inv_counters simp flip: u_def)
qed

section \<open>Preloading\<close>

lemma row_bytes: "0 < rows \<Longrightarrow> 0 \<le> n \<Longrightarrow> sum_list (map (\<lambda>row. n div rows + of_bool (int row < n mod rows)) [0..<nat rows]) = (n :: int)"
proof -
  assume r: "0 < rows" "0 \<le> n"
  have count: "sum_list (map (\<lambda>row. of_bool (int row < b)) [0..<k]) = b" if "0 \<le> b" "b \<le> int k" for b :: int and k
    using that
  proof (induction k arbitrary: b)
    case (Suc k)
    show ?case
    proof (cases "b = int (Suc k)")
      case True
      then have "map (\<lambda>row. of_bool (int row < b) :: int) [0..<Suc k] = replicate (Suc k) 1" by (intro nth_equalityI) (simp_all del: replicate_Suc upt_Suc)
      then show ?thesis using True by (simp add: sum_list_replicate)
    next
      case False
      then show ?thesis using Suc by simp
    qed
  qed simp
  have "n mod rows \<le> int (nat rows)" using pos_mod_bound [OF r(1), of n] r(1) by linarith
  with count [of "n mod rows" "nat rows"] r have "sum_list (map (\<lambda>row. of_bool (int row < n mod rows)) [0..<nat rows]) = n mod rows" by simp
  then show ?thesis using r by (simp add: sum_list_addf sum_list_triv)
qed

lemma preload_entries:
  fixes c :: CorrectionPush and n now :: int and base :: nat and keys :: "rkey list" and ids :: "string list"
  assumes "0 < pb_rows c" "0 \<le> n" "length keys = nat (pb_rows c)" "length ids = nat (pb_rows c)"
  defines "es \<equiv> map (preloaded_entry c n now base) (zip [0..<nat (pb_rows c)] (zip keys ids))"
  shows "map fst es = keys" "map (en_future \<circ> snd) es = [base..<base + length es]" "held_bytes es = n" "length es = nat (pb_rows c)"
    "\<And>k e. (k, e) \<in> set es \<Longrightarrow> \<exists>j < nat (pb_rows c). k = keys ! j \<and> en_future e = base + j \<and> en_correction e = Some (row_correction c j (ids ! j)) \<and> 0 \<le> en_correction_bytes e"
proof -
  let ?R = "nat (pb_rows c)"
  have nth: "es ! j = (keys ! j, \<lparr>en_created = now, en_future = base + j, en_correction = Some (row_correction c j (ids ! j)),
        en_correction_bytes = n div pb_rows c + of_bool (int j < n mod pb_rows c), en_activated = False, en_preloaded = True, en_activation_metadata = None\<rparr>)"
    if "j < ?R" for j using that assms(3,4) by (simp add: es_def preloaded_entry_def)
  show l: "length es = ?R" using assms(3,4) by (simp add: es_def)
  show "map fst es = keys" "map (en_future \<circ> snd) es = [base..<base + length es]" using nth assms(3) l by (auto intro!: nth_equalityI)
  have "map (en_correction_bytes \<circ> snd) es = map (\<lambda>row. n div pb_rows c + of_bool (int row < n mod pb_rows c)) [0..<?R]" using nth l by (auto intro!: nth_equalityI)
  then show "held_bytes es = n" using row_bytes [OF assms(1,2)] by (simp add: held_bytes_def)
  show "\<exists>j < ?R. k = keys ! j \<and> en_future e = base + j \<and> en_correction e = Some (row_correction c j (ids ! j)) \<and> 0 \<le> en_correction_bytes e" if "(k, e) \<in> set es" for k e
  proof -
    obtain j where "j < ?R" "es ! j = (k, e)" using \<open>(k, e) \<in> set es\<close> l by (metis in_set_conv_nth)
    then show ?thesis using nth [of j] assms(1,2) by (auto simp: pos_imp_zdiv_nonneg_iff)
  qed
qed

definition preloads :: "CorrectionPush \<Rightarrow> CorrectionRendezvous \<Rightarrow> rkey list \<Rightarrow> string list \<Rightarrow> attempt_log" where
  "preloads c t keys ids = map (\<lambda>(row, key, i). (owner_of t key, row_correction c row i)) (zip [0..<nat (pb_rows c)] (zip keys ids))"

lemma accepted_preloads:
  assumes "length keys = nat (pb_rows c)" "length ids = nat (pb_rows c)" and "\<And>k. k \<in> set keys \<Longrightarrow> owner_of t k = (ob, snd k)"
  shows "accepted ob (map (preloaded_entry c n now base) (zip [0..<nat (pb_rows c)] (zip keys ids))) = preloads c t keys ids"
proof -
  have "accepted ob (map (preloaded_entry c n now base) zs) = map (\<lambda>(row, key, i). (owner_of t key, row_correction c row i)) zs"
    if "\<And>z. z \<in> set zs \<Longrightarrow> fst (snd z) \<in> set keys" for zs
    using that
  proof (induction zs)
    case (Cons z zs)
    obtain row key i where z: "z = (row, key, i)" by (cases z) auto
    have "owner_of t key = (ob, snd key)" using Cons.prems [of z] z assms(3) by simp
    then show ?case using Cons z by (simp add: accepted_def preloaded_entry_def)
  qed (simp add: accepted_def)
  moreover have "fst (snd z) \<in> set keys" if "z \<in> set (zip [0..<nat (pb_rows c)] (zip keys ids))" for z
    using that by (metis prod.collapse set_zip_leftD set_zip_rightD)
  ultimately show ?thesis by (simp add: preloads_def)
qed

lemma rendezvous_key_fst: "rendezvous_key sid a = Inr k \<Longrightarrow> fst k = sid"
  by (auto simp: rendezvous_key_def bindE_eq_Inr)

lemma mapE_set: "mapE f xs = Inr ys \<Longrightarrow> y \<in> set ys \<Longrightarrow> \<exists>x \<in> set xs. f x = Inr y"
  by (induction xs arbitrary: ys) (auto simp: bindE_eq_Inr)

lemma preload_ok:
  assumes inv: "rv_inv L ps ds s" and ids: "mapE (\<lambda>row. correction_attempt_id packb sha256 c (int row)) [0..<nat (pb_rows c)] = Inr ids"
    and keys: "mapE (rendezvous_key (pb_session_id c)) ids = Inr keys" and run: "preload_bulk packb sha256 c n now s = (t, Inr ())"
  shows "rv_inv L (ps @ preloads c t keys ids) ds t"
proof -
  define u where "u = cleanup_locked now s"
  have iu: "rv_inv L ps ds u" using inv unfolding u_def by (rule rv_inv_cleanup)
  let ?es = "map (preloaded_entry c n now (rv_next u)) (zip [0..<nat (pb_rows c)] (zip keys ids))"
  let ?R = "nat (pb_rows c)"
  obtain se where v: "CorrectionPush_validate c None None = Inr ()" and n: "0 < n" and d: "distinct keys"
    and se: "map_of (rv_sessions u) (pb_session_id c) = Some se" "se_authorized se"
    and free: "list_ex (\<lambda>k. snd k \<in> se_burned se) keys = False" "list_ex (\<lambda>k. map_of (rv_entries u) k \<noteq> None) keys = False"
    and cap: "int (length (rv_entries u)) + pb_rows c \<le> rv_capacity u" "rv_bytes u + n \<le> rv_max_bytes u"
    and t: "t = (session_update (pb_session_id c) (\<lambda>se. se\<lparr>se_last_active := now\<rparr>) (u\<lparr>rv_entries := rv_entries u @ ?es,
        rv_futures := (\<lambda>f. if rv_next u \<le> f \<and> f < rv_next u + ?R then Done (row_correction c (f - rv_next u) (ids ! (f - rv_next u))) else rv_futures u f),
        rv_next := rv_next u + ?R, rv_bytes := rv_bytes u + n\<rparr>))\<lparr>rv_attempts := rv_attempts u + pb_rows c\<rparr>"
    using run ids keys by (auto simp: preload_bulk_def raiseS_eq_Inr onS_eq_Inr Let_def session_update_def split: option.splits simp flip: u_def)
  have rows: "0 < pb_rows c" using v by (auto simp: CorrectionPush_validate_def validate_shape_def res_simps)
  have len: "length ids = ?R" "length keys = ?R" using mapE_length [OF ids] mapE_length [OF keys] by simp_all
  note E = preload_entries [OF rows less_imp_le [OF n] len(2,1), where now = now and base = "rv_next u"]
  have sid: "fst k = pb_session_id c" if "k \<in> set keys" for k using mapE_set [OF keys that] rendezvous_key_fst by blast
  let ?u = "u\<lparr>rv_entries := rv_entries u @ ?es,
        rv_futures := (\<lambda>f. if rv_next u \<le> f \<and> f < rv_next u + ?R then Done (row_correction c (f - rv_next u) (ids ! (f - rv_next u))) else rv_futures u f),
        rv_next := rv_next u + ?R, rv_bytes := rv_bytes u + n\<rparr>"
  have "rv_inv L (ps @ accepted (se_object se) ?es) ds ?u"
  proof (rule rv_inv_add [OF iu se])
    show "distinct (map fst ?es)" unfolding E(1) by (rule d)
    show "map (en_future \<circ> snd) ?es = [rv_next u..<rv_next u + length ?es]" by (rule E(2))
    have mem: "k \<in> set keys" if "(k, e) \<in> set ?es" for k e using that E(1) by (metis fst_conv image_eqI list.set_map)
    show "fst k = pb_session_id c \<and> snd k \<notin> se_burned se \<and> map_of (rv_entries u) k = None \<and> 0 \<le> en_correction_bytes e \<and> (en_correction e = None \<longrightarrow> en_correction_bytes e = 0)"
      if "(k, e) \<in> set ?es" for k e using E(5) [OF that] sid [OF mem [OF that]] mem [OF that] free by (auto simp: list_ex_iff)
    show "rv_futures ?u (en_future e) = Done d \<longleftrightarrow> en_correction e = Some d" if "(k, e) \<in> set ?es" for k e d using E(5) [OF that] by auto
    show "rv_bytes ?u = rv_bytes u + held_bytes ?es" unfolding E(3) by simp
    show "rv_next ?u = rv_next u + length ?es" unfolding E(4) by simp
    show "int (length (rv_entries ?u)) \<le> rv_capacity ?u" using cap(1) E(4) rows by simp
  qed (use cap in auto)
  from rv_inv_touch [OF this, of "\<lambda>se. se\<lparr>se_last_active := now\<rparr>" "pb_session_id c"]
  have "rv_inv L (ps @ accepted (se_object se) ?es) ds t" by (simp add: t)
  moreover have "owner_of t k = (se_object se, snd k)" if "k \<in> set keys" for k using sid [OF that] se(1) by (simp add: t owner_of_def session_update_of)
  ultimately show ?thesis using accepted_preloads [OF len(2,1), of t "se_object se"] by simp
qed

lemma preload_raise:
  assumes inv: "rv_inv L ps ds s" and run: "preload_bulk packb sha256 c n now s = (t, Inl e)"
  shows "rv_inv L ps ds t"
  using run inv rv_inv_cleanup [OF inv, of now]
  by (auto simp: preload_bulk_def raiseS_def onS_def Let_def split: option.splits if_splits sum.splits)

section \<open>Runs\<close>

text \<open>
  Every history of calls, in any order and with any arguments: each rule is one call, or one of the two halves of the coroutine that waits for a
  correction. The first log lists the accepted corrections and the second the delivered ones.
\<close>

inductive rv_run :: "packer \<Rightarrow> (bytes \<Rightarrow> digest) \<Rightarrow> CorrectionRendezvous \<Rightarrow> attempt_log \<Rightarrow> attempt_log \<Rightarrow> CorrectionRendezvous \<Rightarrow> bool"
  for packb sha256 s0 where
  start: "rv_run packb sha256 s0 [] [] s0"
| register: "rv_run packb sha256 s0 ps ds s \<Longrightarrow> rv_run packb sha256 s0 ps ds (fst (register_session a now s))"
| authorize: "rv_run packb sha256 s0 ps ds s \<Longrightarrow> rv_run packb sha256 s0 ps ds (fst (authorize_session a n now s))"
| push_key: "rv_run packb sha256 s0 ps ds s \<Longrightarrow> rendezvous_key (pb_session_id c) (pb_attempt_id c) = Inl e \<Longrightarrow> rv_run packb sha256 s0 ps ds (fst (push c n now s))"
| push_entry: "rv_run packb sha256 s0 ps ds s \<Longrightarrow> rendezvous_key (pb_session_id c) (pb_attempt_id c) = Inr key \<Longrightarrow> push c n now s = (t, r)
    \<Longrightarrow> rv_run packb sha256 s0 (if r = Inr () then ps @ [(owner_of t key, c)] else ps) ds t"
| preload: "rv_run packb sha256 s0 ps ds s \<Longrightarrow> mapE (\<lambda>row. correction_attempt_id packb sha256 c (int row)) [0..<nat (pb_rows c)] = Inr ids
    \<Longrightarrow> mapE (rendezvous_key (pb_session_id c)) ids = Inr keys \<Longrightarrow> preload_bulk packb sha256 c n now s = (t, Inr ())
    \<Longrightarrow> rv_run packb sha256 s0 (ps @ preloads c t keys ids) ds t"
| preload_raises: "rv_run packb sha256 s0 ps ds s \<Longrightarrow> preload_bulk packb sha256 c n now s = (t, Inl e) \<Longrightarrow> rv_run packb sha256 s0 ps ds t"
| activation: "rv_run packb sha256 s0 ps ds s \<Longrightarrow> rv_run packb sha256 s0 ps ds (fst (activate r now s))"
| cancelled: "rv_run packb sha256 s0 ps ds s \<Longrightarrow> rv_run packb sha256 s0 ps ds (future_cancel f s)"
| resume: "rv_run packb sha256 s0 ps ds s \<Longrightarrow> rendezvous_key (rq_session_id r) (rq_correlation_id r) = Inr key
    \<Longrightarrow> (\<And>c. out = Arrived c \<Longrightarrow> rv_futures s f = Done c) \<Longrightarrow> correction_resume r f out s = (t, q)
    \<Longrightarrow> rv_run packb sha256 s0 ps (case q of Inl _ \<Rightarrow> ds | Inr c \<Rightarrow> ds @ [(owner_of t key, c)]) t"
| batch: "rv_run packb sha256 s0 ps ds s \<Longrightarrow> mapE (rendezvous_key (rq_session_id r)) ids = Inr keys \<Longrightarrow> consume_preloaded_batch r ids now s = (t, q)
    \<Longrightarrow> rv_run packb sha256 s0 ps (case q of Inl _ \<Rightarrow> ds | Inr cs \<Rightarrow> ds @ zip (map (owner_of t) keys) cs) t"
| aborted: "rv_run packb sha256 s0 ps ds s \<Longrightarrow> rv_run packb sha256 s0 ps ds (fst (abort r f s))"
| reserved: "rv_run packb sha256 s0 ps ds s \<Longrightarrow> rv_run packb sha256 s0 ps ds (fst (burn_reserved sid as s))"
| terminal: "rv_run packb sha256 s0 ps ds s \<Longrightarrow> rv_run packb sha256 s0 ps ds (terminal_locked sid s)"
| closed: "rv_run packb sha256 s0 ps ds s \<Longrightarrow> rv_run packb sha256 s0 ps ds (rendezvous_close s)"
| stats: "rv_run packb sha256 s0 ps ds s \<Longrightarrow> rv_run packb sha256 s0 ps ds (fst (rendezvous_stats_of now s))"

lemma rv_run_inv: "rv_run packb sha256 s0 ps ds s \<Longrightarrow> rv_inv L [] [] s0 \<Longrightarrow> rv_inv L ps ds s"
proof (induction rule: rv_run.induct)
  case (resume ps ds s r key out f t q)
  then show ?case using resume_ok(1) [of L ps ds s r key f out t q] by blast
next
  case (push_key ps ds s c e n now)
  then show ?case by (simp add: push_def)
next
  case (push_entry ps ds s c key n now t r)
  then show ?case using push_ok by blast
qed (auto intro: inv_register inv_authorize preload_ok preload_raise activate_ok batch_ok abort_ok burn_reserved_ok
    rv_inv_terminal rv_close_ok rv_inv_cleanup simp: rendezvous_stats_of_def Let_def)

lemma init_inv:
  assumes "CorrectionRendezvous_init timeout capacity max_bytes session_capacity idle = Inr s0"
  shows "rv_inv (capacity, max_bytes, case session_capacity of None \<Rightarrow> capacity | Some n \<Rightarrow> n) [] [] s0"
  using assms by (auto simp: CorrectionRendezvous_init_def res_simps Let_def rv_inv_def keyed_def bounded_def log_ok_def held_bytes_def)

text \<open>
  C34: The rendezvous stays within its limits. Over every history of calls the number of entries, the number of sessions and the bytes of the held
  corrections stay within the limits of the constructor, and the byte counter is exactly the sum over the held entries; every entry
  belongs to an authorized session that has not burned its attempt.
\<close>

theorem rendezvous_bounded:
  assumes "CorrectionRendezvous_init timeout capacity max_bytes session_capacity idle = Inr s0" and "rv_run packb sha256 s0 ps ds s"
  shows "int (length (rv_entries s)) \<le> capacity \<and> int (length (rv_sessions s)) \<le> (case session_capacity of None \<Rightarrow> capacity | Some n \<Rightarrow> n)
    \<and> rv_bytes s = sum_list (map (\<lambda>(k, e). en_correction_bytes e) (rv_entries s)) \<and> rv_bytes s \<le> max_bytes \<and> 0 \<le> rv_bytes s
    \<and> list_all (\<lambda>((sid, a), e). case map_of (rv_sessions s) sid of None \<Rightarrow> False | Some se \<Rightarrow> se_authorized se \<and> a \<notin> se_burned se) (rv_entries s)"
proof -
  note inv = rv_run_inv [OF assms(2) init_inv [OF assms(1)]]
  note I = rv_invD [OF inv]
  have e: "entry_ok ps s k e" if "(k, e) \<in> set (rv_entries s)" for k e using I(4) that I(1) by (simp add: entries_mem)
  have "held_bytes (rv_entries s) = sum_list (map (\<lambda>(k, e). en_correction_bytes e) (rv_entries s))"
    unfolding held_bytes_def by (rule arg_cong [where f = sum_list]) auto
  moreover have "0 \<le> en_correction_bytes e" if "(k, e) \<in> set (rv_entries s)" for k e using e [OF that] by (auto simp: entry_ok_def)
  then have "0 \<le> held_bytes (rv_entries s)" unfolding held_bytes_def by (intro sum_list_nonneg) auto
  moreover have "list_all (\<lambda>((sid, a), e). case map_of (rv_sessions s) sid of None \<Rightarrow> False | Some se \<Rightarrow> se_authorized se \<and> a \<notin> se_burned se) (rv_entries s)"
    unfolding list_all_iff using e by (fastforce simp: entry_ok_def)
  ultimately show ?thesis using I(2) by (auto simp: bounded_def)
qed

text \<open>
  C16: A correction is used once. Over every history of calls, an attempt of a session accepts at most one correction and delivers at most one; what
  it delivers is the correction it accepted.
\<close>

theorem rendezvous_single_use:
  assumes "CorrectionRendezvous_init timeout capacity max_bytes session_capacity idle = Inr s0" and "rv_run packb sha256 s0 ps ds s"
  shows "distinct (map fst ps) \<and> distinct (map fst ds) \<and> set ds \<subseteq> set ps"
  using rv_invD(3) [OF rv_run_inv [OF assms(2) init_inv [OF assms(1)]]] by (simp add: log_ok_def)

section \<open>Delivery\<close>

text \<open>What a cleanup leaves in place for one attempt: its entry, the future of the entry, and its session up to burned attempts.\<close>

definition keeps :: "rkey \<Rightarrow> Entry \<Rightarrow> RSession \<Rightarrow> future \<Rightarrow> int \<Rightarrow> CorrectionRendezvous \<Rightarrow> CorrectionRendezvous \<Rightarrow> bool" where
  "keeps key e se v b s0 s \<longleftrightarrow> keyed s \<and> (\<forall>k d. map_of (rv_entries s) k = Some d \<longrightarrow> 0 \<le> en_correction_bytes d)
     \<and> map_of (rv_entries s) key = Some e \<and> (\<exists>B. map_of (rv_sessions s) (fst key) = Some (se\<lparr>se_burned := B\<rparr>))
     \<and> rv_futures s (en_future e) = v \<and> rv_bytes s \<le> b
     \<and> rv_timeout s = rv_timeout s0 \<and> rv_session_idle_timeout s = rv_session_idle_timeout s0 \<and> rv_max_bytes s = rv_max_bytes s0"

lemma pop_other:
  assumes "keeps key e se v b s0 s" and "k \<noteq> key"
  shows "rv_futures (pop_entry k s) (en_future e) = v \<and> rv_bytes (pop_entry k s) \<le> b \<and> rv_timeout (pop_entry k s) = rv_timeout s
    \<and> rv_session_idle_timeout (pop_entry k s) = rv_session_idle_timeout s"
proof (cases "map_of (rv_entries s) k")
  case None
  then show ?thesis using assms by (simp add: pop_entry_def keeps_def)
next
  case (Some d)
  have K: "keyed s" "map_of (rv_entries s) key = Some e" "0 \<le> en_correction_bytes d" using assms(1) Some unfolding keeps_def by blast+
  have "en_future d \<noteq> en_future e" using future_inj [OF K(1) Some K(2)] assms(2) by blast
  then show ?thesis using assms(1) Some K(3) unfolding keeps_def by (auto simp: pop_entry_def cancel_entry_locked_def future_cancel_def)
qed

lemma keeps_burn:
  assumes K: "keeps key e se v b s0 s" and k: "k \<noteq> key"
  shows "keeps key e se v b s0 (burn_locked k f s)"
proof -
  note P = pop_other [OF K k]
  have keyed: "keyed (burn_locked k f s)"
    using K unfolding keeps_def keyed_def burn_entries burn_sessions by (auto simp: split_beta comp_def intro!: distinct_map_filter) (simp add: if_distrib cong: if_cong)
  have m: "map_of (rv_entries (burn_locked k f s)) l = (if l = k then None else map_of (rv_entries s) l)" for l
    using map_of_filter_key [of "\<lambda>l. l \<noteq> k" "rv_entries s" l] by simp
  obtain B where "map_of (rv_sessions s) (fst key) = Some (se\<lparr>se_burned := B\<rparr>)" using K unfolding keeps_def by blast
  then have "\<exists>B. map_of (rv_sessions (burn_locked k f s)) (fst key) = Some (se\<lparr>se_burned := B\<rparr>)"
    unfolding burn_sessions map_of_select [of "\<lambda>i se. if i = fst k then se\<lparr>se_burned := insert (snd k) (se_burned se)\<rparr> else se" "\<lambda>_. True"]
    by (cases "fst key = fst k") auto
  moreover have "rv_futures (burn_locked k f s) = rv_futures (pop_entry k s)" "rv_bytes (burn_locked k f s) = rv_bytes (pop_entry k s)"
    "rv_timeout (burn_locked k f s) = rv_timeout (pop_entry k s)" "rv_session_idle_timeout (burn_locked k f s) = rv_session_idle_timeout (pop_entry k s)"
    by (simp_all add: burn_locked_def Let_def add_failure_def session_update_def)
  ultimately show ?thesis using keyed m K P k unfolding keeps_def by (auto split: if_splits)
qed

lemma drop_step_other:
  assumes "en_future (snd x) \<noteq> f \<or> fst (fst x) \<noteq> sid"
  shows "rv_futures (drop_step sid x s) f = rv_futures s f \<and> rv_timeout (drop_step sid x s) = rv_timeout s"
  using assms by (auto simp: drop_step_def cancel_entry_locked_def future_cancel_def add_failure_def)

lemma drop_fold_other:
  assumes "\<And>x. x \<in> set xs \<Longrightarrow> en_future (snd x) \<noteq> f \<or> fst (fst x) \<noteq> sid"
  shows "rv_futures (fold (drop_step sid) xs s) f = rv_futures s f \<and> rv_timeout (fold (drop_step sid) xs s) = rv_timeout s"
  using assms
proof (induction xs arbitrary: s)
  case (Cons x xs)
  then show ?case using drop_step_other [of x f sid s] by simp
qed simp

lemma keeps_terminal:
  assumes K: "keeps key e se v b s0 s" and sid: "sid \<noteq> fst key"
  shows "keeps key e se v b s0 (terminal_locked sid s)"
proof -
  have Ks: "keyed s" "map_of (rv_entries s) key = Some e" using K unfolding keeps_def by blast+
  have other: "en_future (snd x) \<noteq> en_future e \<or> fst (fst x) \<noteq> sid" if "x \<in> set (rv_entries s)" for x
  proof -
    have "map_of (rv_entries s) (fst x) = Some (snd x)" using that entries_mem [OF Ks(1), of "fst x" "snd x"] by simp
    then show ?thesis using future_inj [OF Ks(1) _ Ks(2)] sid by metis
  qed
  have f: "rv_futures (terminal_locked sid s) (en_future e) = v" "rv_timeout (terminal_locked sid s) = rv_timeout s"
    using drop_fold_other [of "rv_entries s", OF other] K unfolding terminal_fold keeps_def by auto
  have i: "rv_session_idle_timeout (terminal_locked sid s) = rv_session_idle_timeout s"
    unfolding terminal_fold using drop_fold [of sid "rv_entries s" "s\<lparr>rv_sessions := AList.delete sid (rv_sessions s)\<rparr>"] by simp
  have keyed: "keyed (terminal_locked sid s)"
    using Ks(1) unfolding keyed_def terminal_fields by (auto simp: split_beta comp_def intro!: distinct_map_filter)
  have me: "map_of (rv_entries (terminal_locked sid s)) l = (if fst l = sid then None else map_of (rv_entries s) l)" for l
    unfolding terminal_fields using map_of_filter_key [of "\<lambda>l. fst l \<noteq> sid" "rv_entries s" l] by simp
  have ms: "map_of (rv_sessions (terminal_locked sid s)) (fst key) = map_of (rv_sessions s) (fst key)"
    unfolding terminal_fields using map_of_filter_key [of "\<lambda>l. l \<noteq> sid" "rv_sessions s" "fst key"] sid by simp
  have "0 \<le> en_correction_bytes (snd x)" if "x \<in> set (rv_entries s)" for x
    using K that Ks(1) unfolding keeps_def by (cases x) (auto simp: entries_mem)
  then have "0 \<le> held_bytes (filter (\<lambda>x. fst (fst x) = sid) (rv_entries s))" unfolding held_bytes_def by (intro sum_list_nonneg) auto
  then have "rv_bytes (terminal_locked sid s) \<le> b" using K unfolding keeps_def terminal_fields by linarith
  then show ?thesis using K keyed f i me ms sid unfolding keeps_def by (auto simp: terminal_fields(6) split: if_splits)
qed

lemma sessions_mem: "keyed s \<Longrightarrow> (i, se) \<in> set (rv_sessions s) \<longleftrightarrow> map_of (rv_sessions s) i = Some se"
  by (simp add: keyed_def)

lemma fold_keeps_mem: "(\<And>x s. x \<in> set xs \<Longrightarrow> P s \<Longrightarrow> P (f x s)) \<Longrightarrow> P s \<Longrightarrow> P (fold f xs s)"
  by (induction xs arbitrary: s) auto

lemma cleanup_keeps:
  assumes K: "keeps key e se v b s s" and e: "en_preloaded e \<or> en_created e > now - rv_timeout s" and se: "se_last_active se > now - rv_session_idle_timeout s"
  shows "keeps key e se v b s (cleanup_locked now s)"
proof -
  let ?f = "\<lambda>(key, e) s. if \<not> en_preloaded e \<and> en_created e \<le> now - rv_timeout s then burn_locked key True s else s"
  let ?g = "\<lambda>(sid, se) s. if se_last_active se \<le> now - rv_session_idle_timeout s then terminal_locked sid s else s"
  have 1: "keeps key e se v b s (fold ?f (rv_entries s) s)"
  proof (rule fold_keeps_mem [where P = "keeps key e se v b s", OF _ K])
    fix x u assume x: "x \<in> set (rv_entries s)" and u: "keeps key e se v b s u"
    have "snd x = e" if "fst x = key" using K x that unfolding keeps_def by (cases x) (auto simp: entries_mem)
    moreover have "rv_timeout u = rv_timeout s" using u by (simp add: keeps_def)
    ultimately show "keeps key e se v b s (?f x u)" using u e keeps_burn [OF u, of "fst x" True] by (cases "fst x = key") (auto simp: case_prod_beta)
  qed
  let ?w = "fold ?f (rv_entries s) s"
  obtain B where B: "map_of (rv_sessions ?w) (fst key) = Some (se\<lparr>se_burned := B\<rparr>)" and kw: "keyed ?w" using 1 unfolding keeps_def by blast
  have "keeps key e se v b s (fold ?g (rv_sessions ?w) ?w)"
  proof (rule fold_keeps_mem [where P = "keeps key e se v b s", OF _ 1])
    fix x u assume x: "x \<in> set (rv_sessions ?w)" and u: "keeps key e se v b s u"
    have "map_of (rv_sessions ?w) (fst x) = Some (snd x)" using x unfolding sessions_mem [OF kw, symmetric] prod.collapse .
    then have "snd x = se\<lparr>se_burned := B\<rparr>" if "fst x = fst key" unfolding that B by simp
    moreover have "rv_session_idle_timeout u = rv_session_idle_timeout s" using u by (simp add: keeps_def)
    ultimately show "keeps key e se v b s (?g x u)" using u se keeps_terminal [OF u] by (cases "fst x = fst key") (auto simp: case_prod_beta)
  qed
  then show ?thesis by (simp add: cleanup_locked_def Let_def)
qed

lemma keepsI:
  assumes "rv_inv L ps ds s" "map_of (rv_entries s) key = Some e" "map_of (rv_sessions s) (fst key) = Some se"
  shows "keeps key e se (rv_futures s (en_future e)) (rv_bytes s) s s"
proof -
  have "0 \<le> en_correction_bytes d" if "map_of (rv_entries s) k = Some d" for k d using rv_invD(4) [OF assms(1) that] by (rule entry_okE)
  moreover have "\<exists>B. Some se = Some (se\<lparr>se_burned := B\<rparr>)" by (rule exI [of _ "se_burned se"]) simp
  ultimately show ?thesis using rv_invD(1) [OF assms(1)] assms(2,3) by (simp add: keeps_def)
qed

lemma entry_locked_new:
  assumes "u = cleanup_locked now s" "map_of (rv_sessions u) (fst key) = Some se" "se_authorized se" "snd key \<notin> se_burned se"
    "map_of (rv_entries u) key = None" "int (length (rv_entries u)) < rv_capacity u"
    "int (card (se_burned se) + active_for (fst key) u) < sa_max_attempts (se_expected se)"
  shows "\<exists>v e. entry_locked key now s = (v, Inr e) \<and> map_of (rv_entries v) key = Some e
    \<and> e = \<lparr>en_created = now, en_future = rv_next u, en_correction = None, en_correction_bytes = 0, en_activated = False, en_preloaded = False, en_activation_metadata = None\<rparr>
    \<and> rv_futures v (en_future e) = Pending \<and> map_of (rv_sessions v) (fst key) = Some (se\<lparr>se_last_active := now\<rparr>)
    \<and> rv_bytes v = rv_bytes u \<and> rv_timeout v = rv_timeout u \<and> rv_session_idle_timeout v = rv_session_idle_timeout u \<and> rv_max_bytes v = rv_max_bytes u"
proof -
  have "active_for (fst key) (session_update (fst key) f u) = active_for (fst key) u" for f by (simp add: active_for_def)
  moreover have "rv_session_idle_timeout (session_update (fst key) f u) = rv_session_idle_timeout u" for f by (simp add: session_update_def)
  ultimately show ?thesis using assms(2-)
    by (simp add: entry_locked_def Let_def raiseS_def session_update_of map_add_def flip: assms(1))
qed

lemma entry_locked_old:
  assumes inv: "rv_inv L ps ds s" and m: "map_of (rv_entries s) key = Some e" "map_of (rv_sessions s) (fst key) = Some se"
    and e: "en_preloaded e \<or> en_created e > now - rv_timeout s" and se: "se_last_active se > now - rv_session_idle_timeout s"
  shows "\<exists>v se'. entry_locked key now s = (v, Inr e) \<and> map_of (rv_entries v) key = Some e \<and> rv_futures v (en_future e) = rv_futures s (en_future e)
    \<and> map_of (rv_sessions v) (fst key) = Some se' \<and> se_expected se' = se_expected se \<and> rv_bytes v \<le> rv_bytes s \<and> rv_max_bytes v = rv_max_bytes s"
proof -
  define u where "u = cleanup_locked now s"
  have ku: "keeps key e se (rv_futures s (en_future e)) (rv_bytes s) s u" unfolding u_def by (rule cleanup_keeps [OF keepsI [OF inv m] e se])
  then obtain B where B: "map_of (rv_sessions u) (fst key) = Some (se\<lparr>se_burned := B\<rparr>)" and mu: "map_of (rv_entries u) key = Some e"
    "rv_futures u (en_future e) = rv_futures s (en_future e)" "rv_bytes u \<le> rv_bytes s" "rv_max_bytes u = rv_max_bytes s" unfolding keeps_def by blast
  have iu: "rv_inv L ps ds u" unfolding u_def by (rule rv_inv_cleanup [OF inv])
  have "se_authorized se \<and> snd key \<notin> B" using rv_invD(4) [OF iu mu(1)] B by (auto simp: entry_ok_def)
  then show ?thesis using B mu by (auto simp: entry_locked_def Let_def raiseS_def session_update_of simp flip: u_def)
qed

text \<open>
  C17: A matching correction and activation meet, whichever arrives first. In a reachable state in which the session is authorized, the
  attempt is fresh and the limits leave room, a push and an activation with the same metadata within the timeouts both succeed in either order, the
  future of the activated attempt then holds the pushed correction, and resuming the waiting request returns exactly that correction.
\<close>

theorem rendezvous_delivers:
  assumes "CorrectionRendezvous_init timeout capacity max_bytes session_capacity idle = Inr s0" and "rv_run packb sha256 s0 ps ds s"
    and "rendezvous_key (pb_session_id c) (pb_attempt_id c) = Inr key" and "prepared_metadata c = request_metadata r None None"
    and "u = cleanup_locked t1 s" and "map_of (rv_sessions u) (pb_session_id c) = Some se" and "se_authorized se"
    and "sa_model (se_expected se) = pb_model c" and "sa_body_fingerprint (se_expected se) = pb_body_fingerprint c"
    and "snd key \<notin> se_burned se" and "map_of (rv_entries u) key = None" and "int (length (rv_entries u)) < rv_capacity u"
    and "int (card (se_burned se) + active_for (pb_session_id c) u) < sa_max_attempts (se_expected se)"
    and "0 < n" and "rv_bytes u + n \<le> rv_max_bytes u" and "t2 - t1 < rv_timeout u" and "t2 - t1 < rv_session_idle_timeout u"
  shows "(\<exists>s1 f s2 s3. activate r t1 s = (s1, Inr f) \<and> push c n t2 s1 = (s2, Inr ()) \<and> rv_futures s2 f = Done c
      \<and> correction_resume r f (Arrived c) s2 = (s3, Inr c) \<and> \<not> holds_entry s3 key f)
    \<and> (\<exists>s1 f s2 s3. push c n t1 s = (s1, Inr ()) \<and> activate r t2 s1 = (s2, Inr f) \<and> rv_futures s2 f = Done c
      \<and> correction_resume r f (Arrived c) s2 = (s3, Inr c) \<and> \<not> holds_entry s3 key f)"
proof -
  define L where "L = (capacity, max_bytes, case session_capacity of None \<Rightarrow> capacity | Some n \<Rightarrow> n)"
  have inv: "rv_inv L ps ds s" unfolding L_def by (rule rv_run_inv [OF assms(2) init_inv [OF assms(1)]])
  have sid: "fst key = pb_session_id c" by (rule rendezvous_key_fst [OF assms(3)])
  have rq: "rq_session_id r = pb_session_id c" "rq_correlation_id r = pb_attempt_id c" "rq_model r = pb_model c" "rq_body_fingerprint r = pb_body_fingerprint c"
    using assms(4) by (simp_all add: prepared_metadata_def request_metadata_def)
  let ?e = "\<lparr>en_created = t1, en_future = rv_next u, en_correction = None, en_correction_bytes = 0, en_activated = False, en_preloaded = False, en_activation_metadata = None\<rparr>"
  obtain v where el: "entry_locked key t1 s = (v, Inr ?e)" and v: "map_of (rv_entries v) key = Some ?e" "rv_futures v (en_future ?e) = Pending"
    "map_of (rv_sessions v) (fst key) = Some (se\<lparr>se_last_active := t1\<rparr>)" "rv_bytes v = rv_bytes u" "rv_timeout v = rv_timeout u"
    "rv_session_idle_timeout v = rv_session_idle_timeout u" "rv_max_bytes v = rv_max_bytes u"
    using entry_locked_new [OF assms(5), of key se] assms(6-13) unfolding sid by blast
  have iv: "rv_inv L ps ds v" by (rule entry_locked_ok(1) [OF inv el])
  have fin: "\<exists>s3. correction_resume r f (Arrived c) w = (s3, Inr c) \<and> \<not> holds_entry s3 key f" if "holds_entry w key f" for w f
    using that assms(3,4) map_of_filter_key [of "\<lambda>k. k \<noteq> key" "rv_entries w" key]
    by (simp add: correction_resume_def rq Let_def holds_entry_def)
  have "\<exists>s1 f s2. activate r t1 s = (s1, Inr f) \<and> push c n t2 s1 = (s2, Inr ()) \<and> rv_futures s2 f = Done c \<and> holds_entry s2 key f"
  proof -
    let ?g = "\<lambda>e. e\<lparr>en_activated := True, en_created := (if en_preloaded e then t1 else en_created e), en_preloaded := False, en_activation_metadata := Some (request_metadata r None None)\<rparr>"
    let ?s1 = "entry_update key ?g v"
    have a: "activate r t1 s = (?s1, Inr (rv_next u))" using assms(3,8,9) el v sid by (simp add: activate_def rq Let_def raiseS_def)
    have m1: "map_of (rv_entries ?s1) key = Some (?g ?e)" "map_of (rv_sessions ?s1) (fst key) = Some (se\<lparr>se_last_active := t1\<rparr>)" using v by (simp_all add: entry_update_of)
    have i1: "rv_inv L ps ds ?s1" by (rule rv_inv_entry_touch [OF iv]) simp
    have tm: "rv_timeout ?s1 = rv_timeout u" "rv_session_idle_timeout ?s1 = rv_session_idle_timeout u" using v by (simp_all add: entry_update_def)
    obtain w se' where w: "entry_locked key t2 ?s1 = (w, Inr (?g ?e))" "map_of (rv_entries w) key = Some (?g ?e)" "rv_futures w (en_future (?g ?e)) = rv_futures ?s1 (en_future (?g ?e))"
      "rv_bytes w \<le> rv_bytes ?s1" "rv_max_bytes w = rv_max_bytes ?s1"
      using entry_locked_old [OF i1 m1, of t2] assms(16,17) tm by auto
    have "push c n t2 ?s1 = ((entry_update key (\<lambda>e. e\<lparr>en_correction := Some c, en_correction_bytes := n\<rparr>) w)\<lparr>rv_bytes := rv_bytes w + n, rv_futures := (rv_futures w)(rv_next u := Done c)\<rparr>, Inr ())"
      using assms(3,4,14,15) w v by (simp add: push_def raiseS_def Let_def)
    then show ?thesis using a w by (auto simp: holds_entry_def entry_update_of)
  qed
  moreover have "\<exists>s1 f s2. push c n t1 s = (s1, Inr ()) \<and> activate r t2 s1 = (s2, Inr f) \<and> rv_futures s2 f = Done c \<and> holds_entry s2 key f"
  proof -
    let ?f = "\<lambda>e. e\<lparr>en_correction := Some c, en_correction_bytes := n\<rparr>"
    let ?s1 = "(entry_update key ?f v)\<lparr>rv_bytes := rv_bytes v + n, rv_futures := (rv_futures v)(rv_next u := Done c)\<rparr>"
    have p: "push c n t1 s = (?s1, Inr ())" using assms(3,14,15) el v by (simp add: push_def raiseS_def Let_def)
    have m1: "map_of (rv_entries ?s1) key = Some (?f ?e)" "map_of (rv_sessions ?s1) (fst key) = Some (se\<lparr>se_last_active := t1\<rparr>)" using v by (simp_all add: entry_update_of)
    have i1: "rv_inv L (ps @ [(owner_of v key, c)]) ds ?s1" by (rule rv_inv_deposit [OF iv v(1)]) (use assms(14,15) v in simp_all)
    have tm: "rv_timeout ?s1 = rv_timeout u" "rv_session_idle_timeout ?s1 = rv_session_idle_timeout u" using v by (simp_all add: entry_update_def)
    obtain w se' where w: "entry_locked key t2 ?s1 = (w, Inr (?f ?e))" "map_of (rv_entries w) key = Some (?f ?e)" "rv_futures w (en_future (?f ?e)) = rv_futures ?s1 (en_future (?f ?e))"
      "map_of (rv_sessions w) (fst key) = Some se'" "se_expected se' = se_expected se"
      using entry_locked_old [OF i1 m1, of t2] assms(16,17) tm by auto
    have "\<exists>s2. activate r t2 ?s1 = (s2, Inr (rv_next u)) \<and> rv_futures s2 (rv_next u) = Done c \<and> holds_entry s2 key (rv_next u)"
      using assms(3,4,8,9) w sid by (simp add: activate_def rq Let_def raiseS_def holds_entry_def entry_update_of)
    then show ?thesis using p by blast
  qed
  ultimately show ?thesis using fin by metis
qed

definition demo_authorization :: SessionAuthorization where
  "demo_authorization = \<lparr>sa_session_id = ''s'', sa_model = ''m'', sa_body_fingerprint = ''b'', sa_stage_commitment = ''c'', sa_weight_bits = 8,
     sa_activation_bits = 8, sa_max_attempts = 1, sa_rows = 1, sa_stage_ids = [''t''], sa_verification_component = ''none'',
     sa_verification_target_failure_bits = 0, sa_stage_rows = []\<rparr>"

definition demo_attempt :: "char \<Rightarrow> string" where
  "demo_attempt c = replicate 32 c"

definition demo_correction :: CorrectionPush where
  "demo_correction = \<lparr>pb_attempt_id = demo_attempt (CHR ''0''), pb_session_id = ''s'', pb_model = ''m'', pb_body_fingerprint = ''b'', pb_stage_id = ''t'',
     pb_weight_digest = ''w'', pb_rows = 1, pb_in_features = 1, pb_out_features = 1, pb_weight_bits = 8, pb_activation_bits = 8,
     pb_signed_output_bound = 5, pb_ring = ''u16'', pb_modulus = 65536, pb_wire_bits = 16, cp_correction = \<lparr>nd_shape = [1, 1], nd_data = [7]\<rparr>,
     cp_server_ns = 0, cp_output_residue_bits = None\<rparr>"

definition demo_request :: "nat \<Rightarrow> MaskedStageRequest" where
  "demo_request rows = \<lparr>rq_model = ''m'', rq_stage_id = ''t'', rq_correlation_id = demo_attempt (CHR ''0''),
     rq_masked_input = \<lparr>nd_shape = [rows, 1], nd_data = replicate rows 3\<rparr>, rq_modulus = 65536, rq_wire_bits = 16, rq_ring = Some ''u16'',
     rq_body_fingerprint = ''b'', rq_weight_digest = ''w'', rq_weight_bits = 8, rq_activation_bits = 8, rq_session_id = ''s'',
     rq_out_features = 1, rq_signed_output_bound = 5\<rparr>"

definition demo_rendezvous :: CorrectionRendezvous where
  "demo_rendezvous = (case CorrectionRendezvous_init 10 4 100 None 300 of Inr s \<Rightarrow>
     fst (authorize_session demo_authorization 1 0 (fst (register_session demo_authorization 0 s))))"

text \<open>
  A rejected batch spends the budget of its session. With a budget of one attempt, a batch of two identifiers that were never preloaded is
  rejected, but both are burned: the session has burned more attempts than its authorization allows, and the correction of the one attempt that it
  is entitled to is refused.
\<close>

lemma burned_exceeds_budget:
  "\<exists>e se. snd (consume_preloaded_batch (demo_request 2) [demo_attempt (CHR ''1''), demo_attempt (CHR ''2'')] 0 demo_rendezvous) = Inl e
    \<and> map_of (rv_sessions (fst (consume_preloaded_batch (demo_request 2) [demo_attempt (CHR ''1''), demo_attempt (CHR ''2'')] 0 demo_rendezvous))) ''s'' = Some se
    \<and> sa_max_attempts (se_expected se) < int (card (se_burned se))
    \<and> snd (push demo_correction 1 0 (fst (consume_preloaded_batch (demo_request 2) [demo_attempt (CHR ''1''), demo_attempt (CHR ''2'')] 0 demo_rendezvous)))
        = Inl (RendezvousError ''session attempt capacity exceeded'')"
proof -
  let ?b = "consume_preloaded_batch (demo_request 2) [demo_attempt (CHR ''1''), demo_attempt (CHR ''2'')] 0 demo_rendezvous"
  have "snd ?b = Inl (RendezvousError ''prepared correction is not preloaded'')" by code_simp
  moreover have "(case map_of (rv_sessions (fst ?b)) ''s'' of None \<Rightarrow> False | Some se \<Rightarrow> sa_max_attempts (se_expected se) < int (card (se_burned se)))" by code_simp
  moreover have "snd (push demo_correction 1 0 (fst ?b)) = Inl (RendezvousError ''session attempt capacity exceeded'')" by code_simp
  ultimately show ?thesis by (auto split: option.splits)
qed

lemma demo_rv_run: "CorrectionRendezvous_init 10 4 100 None 300 = Inr s0 \<Longrightarrow> rv_run packb sha256 s0 [] [] demo_rendezvous"
  by (auto simp: demo_rendezvous_def intro!: rv_run.authorize rv_run.register rv_run.start)

lemma demo_init: "\<exists>s0. CorrectionRendezvous_init 10 4 100 None 300 = Inr s0"
  by (simp add: CorrectionRendezvous_init_def)

lemma demo_key: "rendezvous_key (pb_session_id demo_correction) (pb_attempt_id demo_correction) = Inr (''s'', replicate 16 0)"
  by code_simp

theorem rendezvous_delivers_witness:
  "\<exists>s1 f s2 s3. push demo_correction 1 0 demo_rendezvous = (s1, Inr ()) \<and> activate (demo_request 1) 5 s1 = (s2, Inr f)
     \<and> correction_resume (demo_request 1) f (Arrived demo_correction) s2 = (s3, Inr demo_correction)"
proof -
  obtain s0 where s0: "CorrectionRendezvous_init 10 4 100 None 300 = Inr s0" using demo_init by blast
  let ?u = "cleanup_locked 0 demo_rendezvous"
  have meta: "prepared_metadata demo_correction = request_metadata (demo_request 1) None None"
    by (simp add: prepared_metadata_def request_metadata_def demo_correction_def demo_request_def)
  have "case map_of (rv_sessions ?u) (pb_session_id demo_correction) of None \<Rightarrow> False | Some se \<Rightarrow> se_authorized se
      \<and> sa_model (se_expected se) = pb_model demo_correction \<and> sa_body_fingerprint (se_expected se) = pb_body_fingerprint demo_correction
      \<and> snd (''s'', replicate 16 0) \<notin> se_burned se
      \<and> int (card (se_burned se) + active_for (pb_session_id demo_correction) ?u) < sa_max_attempts (se_expected se)" by code_simp
  then obtain se where se: "map_of (rv_sessions ?u) (pb_session_id demo_correction) = Some se" "se_authorized se"
    "sa_model (se_expected se) = pb_model demo_correction" "sa_body_fingerprint (se_expected se) = pb_body_fingerprint demo_correction"
    "snd (''s'', replicate 16 0) \<notin> se_burned se" "int (card (se_burned se) + active_for (pb_session_id demo_correction) ?u) < sa_max_attempts (se_expected se)"
    by (auto split: option.splits)
  have u: "rv_entries ?u = []" "rv_capacity ?u = 4" "rv_bytes ?u = 0" "rv_max_bytes ?u = 100" "rv_timeout ?u = 10" "rv_session_idle_timeout ?u = 300" by code_simp+
  show ?thesis
    using rendezvous_delivers [OF s0 demo_rv_run [OF s0, of "\<lambda>_. []" "\<lambda>_. 0"] demo_key meta refl se(1-5) _ _ se(6), of 1 5] u by auto
qed

theorem rendezvous_bounded_witness:
  "int (length (rv_entries demo_rendezvous)) \<le> 4 \<and> rv_bytes demo_rendezvous \<le> 100"
proof -
  obtain s0 where s0: "CorrectionRendezvous_init 10 4 100 None 300 = Inr s0" using demo_init by blast
  show ?thesis using rendezvous_bounded [OF s0 demo_rv_run [OF s0, of "\<lambda>_. []" "\<lambda>_. 0"]] by simp
qed

theorem rendezvous_single_use_witness:
  "\<exists>(ps :: attempt_log) s. distinct (map fst ps) \<and> map snd ps = [demo_correction] \<and> s = fst (push demo_correction 1 0 demo_rendezvous) \<and> rv_bytes s = 1"
proof -
  obtain s0 where s0: "CorrectionRendezvous_init 10 4 100 None 300 = Inr s0" using demo_init by blast
  obtain s r where p: "push demo_correction 1 0 demo_rendezvous = (s, r)" by (cases "push demo_correction 1 0 demo_rendezvous")
  have "snd (push demo_correction 1 0 demo_rendezvous) = Inr ()" "rv_bytes (fst (push demo_correction 1 0 demo_rendezvous)) = 1" by code_simp+
  then have "r = Inr ()" "rv_bytes s = 1" using p by simp_all
  then show ?thesis
    using rendezvous_single_use [OF s0 rv_run.push_entry [OF demo_rv_run [OF s0, of "\<lambda>_. []" "\<lambda>_. 0"] demo_key p]] p
    by (intro exI [of _ "[] @ [(owner_of s (''s'', replicate 16 0), demo_correction)]"] exI [of _ s]) simp
qed

end
