(* ===== verification/Runtime_Protocol.thy ===== *)
theory Runtime_Protocol
  imports Msgpack
begin

text \<open>
  The parts of \<^verbatim>\<open>runtime/protocol.py\<close> that keep state or parse bytes: the replay window of a session and the
  length-prefixed framing of request bodies. Envelope signing and the JSON forms only call libraries and are left out.
\<close>

section \<open>Replay window\<close>

record ProtocolEnvelope =
  pe_request_id :: string
  pe_session_id :: string
  pe_model :: string
  pe_kind :: string
  pe_sequence :: int
  pe_payload :: bytes
  pe_nonce :: bytes
  pe_created_at :: int
  pe_metadata :: "(string \<times> mval) list"
  pe_mac :: bytes

record ReplayWindow =
  rw_max_entries :: int
  rw_seen :: "(bytes \<times> int) list"
  rw_highest_sequence :: int

definition ReplayWindow_init :: "int \<Rightarrow> ReplayWindow" where
  "ReplayWindow_init max_entries = \<lparr>rw_max_entries = max_entries, rw_seen = [], rw_highest_sequence = -1\<rparr>"

text \<open>\<^verbatim>\<open>min(seen, key=seen.get)\<close>: the first entry, in insertion order, with the least sequence.\<close>

fun oldest :: "bytes \<times> int \<Rightarrow> (bytes \<times> int) list \<Rightarrow> bytes \<times> int" where
  "oldest b [] = b"
| "oldest b (x # xs) = oldest (if snd x < snd b then x else b) xs"

function evict :: "int \<Rightarrow> (bytes \<times> int) list \<Rightarrow> (bytes \<times> int) list res" where
  "evict n seen = (if int (length seen) > n
     then (case seen of [] \<Rightarrow> Inl (ValueError ''min() iterable argument is empty'') | x # xs \<Rightarrow> evict n (remove1 (oldest x xs) seen))
     else Inr seen)"
  by pat_completeness auto

lemma oldest_mem: "oldest b xs \<in> set (b # xs)"
  by (induction xs arbitrary: b) (auto split: if_splits)

lemma length_remove_oldest [simp]: "length (remove1 (oldest x xs) (x # xs)) = length xs"
proof -
  have "length (remove1 (oldest x xs) (x # xs)) = length (x # xs) - 1" using oldest_mem by (rule length_remove1 [THEN trans, OF if_P]) 
  then show ?thesis by simp
qed

termination evict
proof (relation "measure (\<lambda>(n, seen). length seen)")
  fix n :: int and seen x xs
  assume "seen = x # (xs :: (bytes \<times> int) list)"
  then show "((n, remove1 (oldest x xs) seen), (n, seen)) \<in> measure (\<lambda>(n, seen). length seen)"
    using length_remove_oldest [of x xs] by simp
qed simp

declare evict.simps [simp del]

definition replay_accept :: "ProtocolEnvelope \<Rightarrow> ReplayWindow \<Rightarrow> ReplayWindow \<times> unit res" where
  "replay_accept e w =
     raiseS (pe_nonce e \<in> fst ` set (rw_seen w)) (ProtocolError ''replayed nonce'') w
    (raiseS (pe_sequence e \<in> snd ` set (rw_seen w)) (ProtocolError ''replayed sequence'') w
    (let seen = rw_seen w @ [(pe_nonce e, pe_sequence e)];
         w = w\<lparr>rw_seen := seen, rw_highest_sequence := max (rw_highest_sequence w) (pe_sequence e)\<rparr>
     in onS (evict (rw_max_entries w) seen) w (\<lambda>seen. (w\<lparr>rw_seen := seen\<rparr>, Inr ()))))"

fun accept_all :: "ProtocolEnvelope list \<Rightarrow> ReplayWindow \<Rightarrow> ReplayWindow \<times> ProtocolEnvelope list" where
  "accept_all [] w = (w, [])"
| "accept_all (e # es) w = (case replay_accept e w of
     (w, Inr _) \<Rightarrow> (case accept_all es w of (w, ok) \<Rightarrow> (w, e # ok))
   | (w, Inl _) \<Rightarrow> accept_all es w)"

section \<open>Length-prefixed frames\<close>

definition bad_bound :: "int option \<Rightarrow> bool" where
  "bad_bound b = (case b of None \<Rightarrow> False | Some n \<Rightarrow> n < 0)"

definition over :: "int \<Rightarrow> int option \<Rightarrow> bool" where
  "over x b = (case b of None \<Rightarrow> False | Some n \<Rightarrow> x > n)"

fun encode_frames :: "int option \<Rightarrow> int option \<Rightarrow> nat \<Rightarrow> bytes \<Rightarrow> bytes list \<Rightarrow> bytes res" where
  "encode_frames max_count max_total index out [] = Inr out"
| "encode_frames max_count max_total index out (frame # frames) =
     raise_if (over (int index + 1) max_count) (ProtocolError ''length-prefixed frame count exceeds bound'')
    (raise_if (over (int (length out + 4 + length frame)) max_total) (ProtocolError ''length-prefixed bytes exceed bound'')
    (raise_if (length frame \<ge> 2 ^ 32) (LibraryError ''struct.error'' ''argument out of range'')
    (encode_frames max_count max_total (Suc index) (out @ be_bytes 4 (length frame) @ frame) frames)))"

definition encode_length_prefixed :: "bytes list \<Rightarrow> int option \<Rightarrow> int option \<Rightarrow> bytes res" where
  "encode_length_prefixed frames max_count max_total =
     raise_if (bad_bound max_count \<or> bad_bound max_total) (ProtocolError ''invalid length-prefixed bound'')
       (encode_frames max_count max_total 0 [] frames)"

text \<open>The generator: the frames it yields, and the error that ends it, if any.\<close>

function iter_frames :: "int option \<Rightarrow> bytes \<Rightarrow> nat \<Rightarrow> nat \<Rightarrow> bytes list \<times> py_error option" where
  "iter_frames max_count data offset count =
     (if \<not> offset < length data then ([], None)
      else if over (int count + 1) max_count then ([], Some (ProtocolError ''length-prefixed frame count exceeds bound''))
      else if length data - offset < 4 then ([], Some (ProtocolError ''truncated frame header''))
      else let size = be_nat (take 4 (drop offset data)); offset = offset + 4 in
        if length data - offset < size then ([], Some (ProtocolError ''truncated frame''))
        else case iter_frames max_count data (offset + size) (Suc count) of
          (frames, err) \<Rightarrow> (take size (drop offset data) # frames, err))"
  by pat_completeness auto

termination iter_frames
  by (relation "measure (\<lambda>(max_count, data, offset, count). length data - offset)") auto

declare iter_frames.simps [simp del]

definition iter_length_prefixed :: "bytes \<Rightarrow> int option \<Rightarrow> int option \<Rightarrow> bytes list \<times> py_error option" where
  "iter_length_prefixed data max_count max_total =
     (if bad_bound max_count \<or> bad_bound max_total then ([], Some (ProtocolError ''invalid length-prefixed bound''))
      else if over (int (length data)) max_total then ([], Some (ProtocolError ''length-prefixed bytes exceed bound''))
      else iter_frames max_count data 0 0)"

section \<open>Facts\<close>

lemma iter_step:
  assumes "length frame < 2 ^ 32" and "offset = length pre" and "\<not> over (int count + 1) max_count"
  shows "iter_frames max_count (pre @ be_bytes 4 (length frame) @ frame @ rest) offset count
    = (case iter_frames max_count (pre @ be_bytes 4 (length frame) @ frame @ rest) (offset + 4 + length frame) (Suc count) of (fs, err) \<Rightarrow> (frame # fs, err))"
  using assms be_nat_bytes [of "length frame" 4] by (subst iter_frames.simps) (simp add: Let_def)

lemma encode_iter:
  "encode_frames max_count max_total index out frames = Inr data \<Longrightarrow>
     (\<exists>rest. data = out @ rest) \<and> iter_frames max_count data (length out) index = (frames, None) \<and> (over (int (length out)) max_total \<or> \<not> over (int (length data)) max_total)"
proof (induction frames arbitrary: index out)
  case Nil
  then show ?case by (simp add: iter_frames.simps)
next
  case (Cons frame frames)
  let ?out = "out @ be_bytes 4 (length frame) @ frame"
  have c: "\<not> over (int index + 1) max_count" "\<not> over (int (length ?out)) max_total" "length frame < 2 ^ 32"
    "encode_frames max_count max_total (Suc index) ?out frames = Inr data" using Cons.prems by (auto simp: raise_if_eq_Inr ac_simps)
  from Cons.IH [OF c(4)] obtain rest where r: "data = ?out @ rest" "iter_frames max_count data (length ?out) (Suc index) = (frames, None)"
    "\<not> over (int (length data)) max_total" using c(2) by blast
  have "iter_frames max_count data (length out) index = (frame # frames, None)"
    using iter_step [OF c(3) refl c(1), of out rest] r(1,2) by (simp add: ac_simps)
  then show ?case using r by auto
qed

text \<open>
  Length-prefixed framing round-trips. Whatever sequence of frames encodes within the given bounds, the iterator over the encoded bytes, with
  the same bounds, yields exactly these frames and ends without an error.
\<close>

lemma length_prefixed_roundtrip:
  assumes "encode_length_prefixed frames max_count max_total = Inr data"
  shows "iter_length_prefixed data max_count max_total = (frames, None)"
proof -
  have b: "\<not> (bad_bound max_count \<or> bad_bound max_total)" "encode_frames max_count max_total 0 [] frames = Inr data"
    using assms by (auto simp: encode_length_prefixed_def raise_if_eq_Inr)
  have "\<not> over (int 0) max_total" using b(1) by (auto simp: over_def bad_bound_def split: option.splits)
  then show ?thesis using encode_iter [OF b(2)] b(1) by (simp add: iter_length_prefixed_def)
qed

section \<open>Replays\<close>

lemma oldest_last:
  "(\<And>x. x \<in> set xs \<Longrightarrow> snd y < snd x) \<Longrightarrow> snd y < snd b \<Longrightarrow> oldest b (xs @ [y]) = y"
  by (induction xs arbitrary: b) auto

lemma oldest_snoc: "xs \<noteq> [] \<Longrightarrow> (\<And>x. x \<in> set xs \<Longrightarrow> snd y < snd x) \<Longrightarrow> oldest (hd xs) (tl xs @ [y]) = y"
  by (cases xs) (auto intro!: oldest_last)

lemma evict_newest:
  assumes "int (length xs) = n" "\<And>x. x \<in> set xs \<Longrightarrow> snd y < snd x"
  shows "evict n (xs @ [y]) = Inr xs"
proof -
  have "remove1 (oldest (hd (xs @ [y])) (tl (xs @ [y]))) (xs @ [y]) = xs"
  proof (cases "xs = []")
    case False
    have "y \<notin> set xs" using assms(2) [of y] by auto
    then show ?thesis using oldest_snoc [OF False assms(2)] False by (simp add: remove1_append)
  qed simp
  moreover have "evict n (xs @ [y]) = evict n (remove1 (oldest (hd (xs @ [y])) (tl (xs @ [y]))) (xs @ [y]))"
  proof -
    obtain x zs where xz: "xs @ [y] = x # zs" by (cases "xs @ [y]") auto
    then have "n < int (length (x # zs))" using assms(1) by (metis length_append_singleton lessI of_nat_less_iff)
    then show ?thesis unfolding xz by (subst evict.simps) simp
  qed
  ultimately show ?thesis using assms(1) by (simp add: evict.simps)
qed

text \<open>
  A full window does not stop replays. When the window holds its maximum of entries, an envelope with a fresh nonce and a sequence below all
  held ones is accepted and immediately forgotten: the window holds the same entries afterwards, so the very same envelope is accepted again, any number of times.
\<close>

lemma full_window_replays:
  assumes "int (length (rw_seen w)) = rw_max_entries w" and "pe_nonce e \<notin> fst ` set (rw_seen w)" and "\<forall>x \<in> snd ` set (rw_seen w). pe_sequence e < x"
  shows "snd (accept_all (replicate n e) w) = replicate n e \<and> rw_seen (fst (accept_all (replicate n e) w)) = rw_seen w"
proof -
  have one: "\<exists>h. replay_accept e v = (v\<lparr>rw_highest_sequence := h\<rparr>, Inr ())" if "rw_seen v = rw_seen w" "rw_max_entries v = rw_max_entries w" for v
  proof -
    have "evict (rw_max_entries v) (rw_seen v @ [(pe_nonce e, pe_sequence e)]) = Inr (rw_seen v)"
      by (rule evict_newest) (use assms that in auto)
    moreover have "pe_sequence e \<notin> snd ` set (rw_seen v)" using assms(3) that(1) by auto
    ultimately show ?thesis using assms(2) that by (auto simp: replay_accept_def Let_def intro!: exI [of _ "max (rw_highest_sequence v) (pe_sequence e)"])
  qed
  have "snd (accept_all (replicate n e) v) = replicate n e \<and> rw_seen (fst (accept_all (replicate n e) v)) = rw_seen w"
    if "rw_seen v = rw_seen w" "rw_max_entries v = rw_max_entries w" for v
    using that
  proof (induction n arbitrary: v)
    case (Suc n)
    obtain h where h: "replay_accept e v = (v\<lparr>rw_highest_sequence := h\<rparr>, Inr ())" using one Suc.prems by blast
    show ?case using Suc.IH [of "v\<lparr>rw_highest_sequence := h\<rparr>"] Suc.prems h by (simp add: case_prod_beta)
  qed simp
  then show ?thesis by blast
qed

definition demo_envelope :: "int \<Rightarrow> ProtocolEnvelope" where
  "demo_envelope i = \<lparr>pe_request_id = ''r'', pe_session_id = ''s'', pe_model = ''m'', pe_kind = ''k'', pe_sequence = i, pe_payload = [], pe_nonce = [of_int i],
     pe_created_at = 0, pe_metadata = [], pe_mac = []\<rparr>"

text \<open>
  Until it evicts, the window is a replay guard. Over any sequence of envelopes of which no more are accepted than the window holds, the
  accepted ones have pairwise different nonces and pairwise different sequences.
\<close>

lemma replay_guard:
  assumes "accept_all es (ReplayWindow_init max_entries) = (w, ok)" and "int (length ok) \<le> max_entries"
  shows "distinct (map pe_nonce ok) \<and> distinct (map pe_sequence ok) \<and> rw_seen w = map (\<lambda>e. (pe_nonce e, pe_sequence e)) ok"
proof -
  have gen: "distinct (map pe_nonce (ok0 @ ok)) \<and> distinct (map pe_sequence (ok0 @ ok)) \<and> rw_seen w = map (\<lambda>e. (pe_nonce e, pe_sequence e)) (ok0 @ ok)"
    if "accept_all es v = (w, ok)" "rw_max_entries v = max_entries" "rw_seen v = map (\<lambda>e. (pe_nonce e, pe_sequence e)) ok0"
      "distinct (map pe_nonce ok0)" "distinct (map pe_sequence ok0)" "int (length ok0 + length ok) \<le> max_entries" for v ok0
    using that
  proof (induction es arbitrary: v ok0 ok)
    case (Cons e es)
    show ?case
    proof (cases "pe_nonce e \<in> fst ` set (rw_seen v) \<or> pe_sequence e \<in> snd ` set (rw_seen v)")
      case True
      then have "\<exists>err. replay_accept e v = (v, Inl err)" by (auto simp: replay_accept_def raiseS_def)
      then have "accept_all es v = (w, ok)" using Cons.prems(1) by auto
      then show ?thesis using Cons.IH Cons.prems(2-) by blast
    next
      case False
      let ?seen = "rw_seen v @ [(pe_nonce e, pe_sequence e)]"
      let ?v = "v\<lparr>rw_highest_sequence := max (rw_highest_sequence v) (pe_sequence e)\<rparr>"
      have run: "replay_accept e v = (case evict (rw_max_entries v) ?seen of Inl x \<Rightarrow> (?v\<lparr>rw_seen := ?seen\<rparr>, Inl x) | Inr s \<Rightarrow> (?v\<lparr>rw_seen := s\<rparr>, Inr ()))"
        using False by (auto simp: replay_accept_def raiseS_def Let_def split: sum.splits)
      show ?thesis
      proof (cases "int (length ?seen) \<le> max_entries")
        case True
        then have "evict (rw_max_entries v) ?seen = Inr ?seen" using Cons.prems(2) by (simp add: evict.simps)
        then have r: "replay_accept e v = (?v\<lparr>rw_seen := ?seen\<rparr>, Inr ())" using run by simp
        obtain ok' where ok: "ok = e # ok'" "accept_all es (?v\<lparr>rw_seen := ?seen\<rparr>) = (w, ok')" using Cons.prems(1) r by (auto split: prod.splits)
        have "distinct (map pe_nonce ((ok0 @ [e]) @ ok')) \<and> distinct (map pe_sequence ((ok0 @ [e]) @ ok')) \<and> rw_seen w = map (\<lambda>e. (pe_nonce e, pe_sequence e)) ((ok0 @ [e]) @ ok')"
          by (rule Cons.IH [OF ok(2)]) (use Cons.prems(2-) False ok(1) in \<open>auto simp: image_iff\<close>)
        then show ?thesis by (simp add: ok(1))
      next
        case full: False
        have "length ?seen = Suc (length ok0)" using Cons.prems(3) by simp
        then have l: "int (length ok0) = max_entries" "ok = []" using full Cons.prems(6) by (auto simp: length_0_conv [symmetric] simp del: length_0_conv)
        have "?seen \<noteq> []" by simp
        then obtain x xs where x: "?seen = x # xs" by (cases ?seen) auto
        have "int (length xs) = max_entries" using x l(1) Cons.prems(3) by (metis length_Cons length_append_singleton length_map Suc_inject)
        then have "\<exists>s. evict (rw_max_entries v) ?seen = Inr s"
          using Cons.prems(2) length_remove_oldest [of x xs] unfolding x by (subst evict.simps) (simp add: evict.simps)
        then have "snd (accept_all (e # es) v) \<noteq> []" using run by (auto split: prod.splits)
        then show ?thesis using Cons.prems(1) l(2) by simp
      qed
    qed
  qed simp
  show ?thesis using gen [OF assms(1), of "[]"] assms(2) by (simp add: ReplayWindow_init_def)
qed

end
