(* ===== verification/Quantized_Residues.thy ===== *)
theory Quantized_Residues
  imports Ring_Tensor
begin

text \<open>
  The integer parts of \<^verbatim>\<open>runtime/quantization.py\<close> (ranges, dot-product bounds, moduli, residues) and the byte codec of
  \<^verbatim>\<open>runtime/compact.py\<close>. Floating-point scales are left out. Where a function dispatches to the compiled extension when it is
  installed, the definition is the Python branch beside it. An \<^verbatim>\<open>int64\<close> array holds integers, an \<^verbatim>\<open>uint32\<close> array 32-bit words.
\<close>

type_synonym u32array = "32 word ndarray"

section \<open>Ranges, bounds and moduli\<close>

definition signed_qmax :: "int \<Rightarrow> int res" where
  "signed_qmax bits = raise_if (bits < 2 \<or> bits > 8) (QuantizationError ''bits must be in [2, 8]'') (Inr (2 ^ nat (bits - 1) - 1))"

definition signed_dot_bound :: "int \<Rightarrow> int \<Rightarrow> int \<Rightarrow> int res" where
  "signed_dot_bound in_features weight_bits activation_bits =
     bindE (signed_qmax weight_bits) (\<lambda>w. bindE (signed_qmax activation_bits) (\<lambda>a. Inr (in_features * w * a)))"

definition minimum_ring_bits :: "int \<Rightarrow> int \<Rightarrow> int \<Rightarrow> int res" where
  "minimum_ring_bits in_features weight_bits activation_bits =
     bindE (signed_dot_bound in_features weight_bits activation_bits) (\<lambda>bound. Inr (if bound < 2 ^ 15 then 16 else 32))"

definition PLAIN_MODULI :: "int list" where
  "PLAIN_MODULI = [65537, 786433, 1032193, 2424833, 4079617, 6537217, 10027009, 33538049, 60014593, 268369921, 536690689, 1073692673]"

definition choose_plain_modulus :: "int \<Rightarrow> int \<Rightarrow> int \<Rightarrow> int \<Rightarrow> int res" where
  "choose_plain_modulus in_features weight_bits activation_bits safety_factor =
     bindE (signed_dot_bound in_features weight_bits activation_bits) (\<lambda>bound.
       let required = bound * safety_factor + 1 in
       case find (\<lambda>modulus. modulus > required) PLAIN_MODULI of
         Some modulus \<Rightarrow> Inr modulus
       | None \<Rightarrow> Inl (QuantizationError ''no configured plaintext modulus covers bound''))"

definition choose_wire_bits :: "int \<Rightarrow> int res" where
  "choose_wire_bits modulus =
     raise_if (modulus \<le> 0) (QuantizationError ''modulus must be positive'')
       (if modulus \<le> 2 ^ 16 then Inr 16 else if modulus \<le> 2 ^ 24 then Inr 24 else if modulus \<le> 2 ^ 32 then Inr 32
        else Inl (QuantizationError ''modulus does not fit the wire codec''))"

section \<open>Residues\<close>

text \<open>NumPy reduces \<^verbatim>\<open>int64\<close> elements by a Python integer with floor semantics; a modulus outside \<^verbatim>\<open>int64\<close> raises.\<close>

definition np_mod :: "i64array \<Rightarrow> int \<Rightarrow> i64array res" where
  "np_mod values modulus =
     raise_if (modulus > 2 ^ 63 - 1) (OverflowError ''Python integer out of bounds for int64'') (Inr (nd_map (\<lambda>v. v mod modulus) values))"

definition positive_residues :: "i64array \<Rightarrow> int \<Rightarrow> u32array res" where
  "positive_residues values modulus =
     raise_if (modulus \<le> 1) (QuantizationError ''modulus must be greater than one'')
       (bindE (np_mod values modulus) (\<lambda>raw. Inr (nd_map word_of_int raw)))"

definition centered :: "int \<Rightarrow> int \<Rightarrow> int" where
  "centered modulus raw = (if raw > modulus div 2 then raw - modulus else raw)"

definition centered_residues :: "i64array \<Rightarrow> int \<Rightarrow> i64array res" where
  "centered_residues values modulus =
     raise_if (modulus \<le> 1) (QuantizationError ''modulus must be greater than one'')
       (bindE (np_mod values modulus) (\<lambda>raw. Inr (nd_map (centered modulus) raw)))"

section \<open>The compact codec\<close>

definition required_modulus_bits :: "int \<Rightarrow> int \<Rightarrow> int res" where
  "required_modulus_bits in_features qmax =
     raise_if (in_features \<le> 0) (ValueError ''in_features must be positive'')
    (raise_if (qmax \<le> 0) (ValueError ''qmax must be positive'')
       (Inr (int (ceil_log2 (nat (2 * in_features * qmax * qmax + 1))))))"

definition storage_bytes :: "int \<Rightarrow> int res" where
  "storage_bytes required_bits =
     raise_if (required_bits \<le> 0) (ValueError ''required_bits must be positive'')
       (if required_bits \<le> 16 then Inr 2 else if required_bits \<le> 24 then Inr 3 else if required_bits \<le> 32 then Inr 4
        else Inl (CompactCodecError ''values wider than 32 bits are unsupported''))"

definition as_u32 :: "int list \<Rightarrow> 32 word list res" where
  "as_u32 values =
     raise_if (list_ex (\<lambda>v. v < 0 \<or> v > 0xFFFFFFFF) values) (CompactCodecError ''value outside uint32 range'')
       (Inr (map word_of_int values))"

text \<open>The low \<open>k\<close> bytes of a word, least significant first, and the word that such bytes stand for.\<close>

definition le_bytes :: "nat \<Rightarrow> 32 word \<Rightarrow> bytes" where
  "le_bytes k w = map (\<lambda>i. ucast (drop_bit (8 * i) w)) [0..<k]"

definition le_word :: "bytes \<Rightarrow> 32 word" where
  "le_word bs = foldr (\<lambda>b acc. ucast b OR push_bit 8 acc) bs 0"

fun chunks :: "nat \<Rightarrow> nat \<Rightarrow> 'a list \<Rightarrow> 'a list list" where
  "chunks k 0 xs = []"
| "chunks k (Suc n) xs = take k xs # chunks k n (drop k xs)"

definition pack_unsigned :: "int list \<Rightarrow> int \<Rightarrow> bytes res" where
  "pack_unsigned values width =
     bindE (as_u32 values) (\<lambda>array.
     raise_if (width \<notin> {2, 3, 4}) (CompactCodecError ''width must be 2, 3, or 4 bytes'')
    (raise_if (list_ex (\<lambda>w. uint w \<ge> 2 ^ nat (8 * width)) array) (CompactCodecError ''value exceeds the wire width'')
       (Inr (concat (map (le_bytes (nat width)) array)))))"

definition unpack_unsigned :: "bytes \<Rightarrow> int \<Rightarrow> int option \<Rightarrow> 32 word list res" where
  "unpack_unsigned payload width count =
     raise_if (width \<notin> {2, 3, 4} \<or> int (length payload) mod width \<noteq> 0) (CompactCodecError ''invalid width or truncated payload'')
    (raise_if (case count of None \<Rightarrow> False | Some n \<Rightarrow> int (length payload) div width \<noteq> n) (CompactCodecError ''element count mismatch'')
       (Inr (map le_word (chunks (nat width) (length payload div nat width) payload))))"

record PackedTensor =
  pk_shape :: "nat list"
  pk_width :: int
  pk_payload :: bytes

definition from_unsigned :: "i64array \<Rightarrow> int \<Rightarrow> PackedTensor res" where
  "from_unsigned values width =
     bindE (pack_unsigned (nd_data values) width) (\<lambda>payload. Inr \<lparr>pk_shape = nd_shape values, pk_width = width, pk_payload = payload\<rparr>)"

definition to_unsigned :: "PackedTensor \<Rightarrow> u32array res" where
  "to_unsigned t =
     bindE (unpack_unsigned (pk_payload t) (pk_width t) (Some (int (prod_list (pk_shape t))))) (\<lambda>data.
       Inr \<lparr>nd_shape = pk_shape t, nd_data = data\<rparr>)"

definition from_centered :: "i64array \<Rightarrow> int \<Rightarrow> int option \<Rightarrow> PackedTensor res" where
  "from_centered values modulus width =
     raise_if (modulus \<le> 1 \<or> modulus > 0xFFFFFFFF) (CompactCodecError ''modulus must fit in uint32'')
    (bindE (np_mod values modulus) (\<lambda>residues.
     bindE (case width of Some w \<Rightarrow> if w \<noteq> 0 then Inr w else storage_bytes (int (ceil_log2 (nat modulus)))
                        | None \<Rightarrow> storage_bytes (int (ceil_log2 (nat modulus)))) (\<lambda>selected.
       from_unsigned residues selected)))"

definition to_centered :: "PackedTensor \<Rightarrow> int \<Rightarrow> i64array res" where
  "to_centered t modulus =
     bindE (to_unsigned t) (\<lambda>words. let raw = nd_map uint words in
       raise_if (list_ex (\<lambda>v. v \<ge> modulus) (nd_data raw)) (CompactCodecError ''residue is outside the declared modulus'')
         (Inr (nd_map (centered modulus) raw)))"

section \<open>Facts\<close>

lemma centered_mod:
  assumes "1 < m" "- (m - 1 - m div 2) \<le> v" "v \<le> m div 2"
  shows "centered m (v mod m) = v"
proof (cases "0 \<le> v")
  case True
  with assms have "v mod m = v" by auto
  with assms show ?thesis by (simp add: centered_def)
next
  case False
  with assms have "(v + m) mod m = v + m" by (intro mod_pos_pos_trivial) linarith+
  then have "v mod m = v + m" by simp
  with assms False show ?thesis by (simp add: centered_def)
qed

lemma centered_mod_bound:
  assumes "1 < m" "\<bar>v\<bar> \<le> b" "2 * b < m"
  shows "centered m (v mod m) = v"
  by (rule centered_mod) (use assms in auto)

lemma bit_le_word: "bit (le_word bs) n \<longleftrightarrow> n < 32 \<and> n div 8 < length bs \<and> bit (bs ! (n div 8)) (n mod 8)"
proof (induction bs arbitrary: n)
  case Nil
  then show ?case by (simp add: le_word_def)
next
  case (Cons b bs)
  have unfold: "le_word (b # bs) = ucast b OR push_bit 8 (le_word bs)" by (simp add: le_word_def)
  show ?case
  proof (cases "n < 8")
    case True
    then show ?thesis by (auto simp: unfold bit_simps)
  next
    case False
    then obtain k where n: "n = k + 8" by (metis add.commute le_Suc_ex not_less)
    then have d: "(k + 8) div 8 = Suc (k div 8)" by simp
    show ?thesis unfolding n d by (auto simp: unfold bit_simps Cons.IH dest: bit_imp_le_length)
  qed
qed

lemma length_le_bytes [simp]: "length (le_bytes k w) = k"
  by (simp add: le_bytes_def)

lemma le_word_bytes:
  assumes "uint w < 2 ^ (8 * k)"
  shows "le_word (le_bytes k w) = w"
proof (rule bit_word_eqI)
  fix n assume n: "n < LENGTH(32)"
  have high: "\<not> bit w n" if "8 * k \<le> n"
  proof -
    have "take_bit (8 * k) (uint w) = uint w" using assms by (simp add: take_bit_int_eq_self)
    then have "bit (uint w) n = (n < 8 * k \<and> bit (uint w) n)" by (metis bit_take_bit_iff)
    then show ?thesis using that n by (simp add: bit_uint_iff)
  qed
  show "bit (le_word (le_bytes k w)) n = bit w n"
  proof (cases "n < 8 * k")
    case True
    then have "n div 8 < k" by (simp add: div_less_iff_less_mult)
    then have "le_bytes k w ! (n div 8) = ucast (drop_bit (8 * (n div 8)) w)" by (simp add: le_bytes_def)
    with n \<open>n div 8 < k\<close> show ?thesis by (simp add: bit_le_word bit_simps)
  next
    case False
    then have "\<not> n div 8 < k" by (simp add: div_less_iff_less_mult)
    then show ?thesis using high False by (simp add: bit_le_word)
  qed
qed

lemma chunks_concat:
  assumes "\<And>x. x \<in> set xs \<Longrightarrow> length (f x) = k"
  shows "chunks k (length xs) (concat (map f xs)) = map f xs"
  using assms by (induction xs) auto

lemma length_concat_const: "(\<And>x. x \<in> set xs \<Longrightarrow> length (f x) = k) \<Longrightarrow> length (concat (map f xs)) = k * length xs"
  by (induction xs) auto

lemma length_chunks [simp]: "length (chunks k n xs) = n"
  by (induction n arbitrary: xs) auto

lemma pack_unsigned_eq:
  assumes "width \<in> {2, 3, 4}" and "list_all (\<lambda>v. 0 \<le> v \<and> v < 2 ^ nat (8 * width)) values"
  shows "pack_unsigned values width = Inr (concat (map (\<lambda>v. le_bytes (nat width) (word_of_int v)) values))"
proof -
  have l: "(2::int) ^ nat (8 * width) \<le> 2 ^ 32" using assms(1) by auto
  have v: "0 \<le> v" "v < 2 ^ nat (8 * width)" "v \<le> 0xFFFFFFFF" if "v \<in> set values" for v
    using assms(2) that l by (auto simp: list_all_iff)
  have u: "uint (word_of_int v :: 32 word) = v" if "v \<in> set values" for v
    using v [OF that] by (simp add: uint_word_of_int)
  have a: "as_u32 values = Inr (map word_of_int values)"
    using v by (auto simp: as_u32_def raise_if_def list_ex_iff not_less)
  have "\<not> list_ex (\<lambda>w. uint w \<ge> 2 ^ nat (8 * width)) (map word_of_int values :: 32 word list)"
    using u v by (auto simp: list_ex_iff not_le)
  then show ?thesis using assms(1) a by (simp add: pack_unsigned_def o_def)
qed

lemma unpack_pack_unsigned:
  assumes "width \<in> {2, 3, 4}" and "list_all (\<lambda>v. 0 \<le> v \<and> v < 2 ^ nat (8 * width)) values"
    and "count \<in> {None, Some (int (length values))}"
  shows "bindE (pack_unsigned values width) (\<lambda>p. unpack_unsigned p width count) = Inr (map word_of_int values)"
proof -
  let ?f = "\<lambda>v. le_bytes (nat width) (word_of_int v)"
  have len: "length (concat (map ?f values)) = nat width * length values" by (rule length_concat_const) simp
  have w: "0 < nat width" "int (nat width) = width" using assms(1) by auto
  have m: "int (nat width * length values) mod width = 0" "int (nat width * length values) div width = int (length values)"
    using w by (simp_all add: w(2))
  have u: "uint (word_of_int v :: 32 word) < 2 ^ (8 * nat width)" if "v \<in> set values" for v
  proof -
    have "nat (8 * width) = 8 * nat width" using assms(1) by auto
    then have b: "0 \<le> v" "v < 2 ^ (8 * nat width)" using assms(2) that by (auto simp: list_all_iff)
    have "uint (word_of_int v :: 32 word) \<le> v" using b(1) by (simp add: uint_word_of_int zmod_le_nonneg_dividend)
    then show ?thesis using b by simp
  qed
  have "map le_word (chunks (nat width) (length values) (concat (map ?f values))) = map word_of_int values"
    using le_word_bytes u by (subst chunks_concat) auto
  then show ?thesis
    using assms(1,3) w m len by (auto simp: pack_unsigned_eq [OF assms(1,2)] unpack_unsigned_def)
qed

lemma choose_plain_modulus_sound:
  assumes "choose_plain_modulus n wb ab safety = Inr p"
  shows "p \<in> set PLAIN_MODULI" "\<exists>b. signed_dot_bound n wb ab = Inr b \<and> b * safety + 1 < p"
proof -
  obtain b where b: "signed_dot_bound n wb ab = Inr b" "find (\<lambda>modulus. modulus > b * safety + 1) PLAIN_MODULI = Some p"
    using assms by (auto simp: choose_plain_modulus_def bindE_eq_Inr Let_def split: option.splits)
  then have "p \<in> set PLAIN_MODULI \<and> b * safety + 1 < p" by (auto simp: find_Some_iff)
  with b(1) show "p \<in> set PLAIN_MODULI" "\<exists>b. signed_dot_bound n wb ab = Inr b \<and> b * safety + 1 < p" by auto
qed

lemma plain_moduli: "p \<in> set PLAIN_MODULI \<Longrightarrow> p mod 16384 = 1 \<and> 2 \<le> p \<and> p < 2 ^ 31"
  by (auto simp: PLAIN_MODULI_def)

lemma ceil_log2_bound: "0 < n \<Longrightarrow> n \<le> 2 ^ k \<Longrightarrow> ceil_log2 n \<le> k"
proof -
  assume n: "0 < n" "n \<le> 2 ^ k"
  show ?thesis
  proof (cases "n = 1")
    case False
    then have "2 ^ (bit_length (n - 1) - 1) \<le> n - 1" using bit_length_lower [of "n - 1"] n by simp
    then have "(2::nat) ^ (bit_length (n - 1) - 1) < 2 ^ k" using n by linarith
    then have "bit_length (n - 1) - 1 < k" by simp
    then show ?thesis by (simp add: ceil_log2_def)
  qed (simp add: ceil_log2_def)
qed

lemma ceil_log2_pos: "1 < n \<Longrightarrow> 0 < ceil_log2 n"
  using bit_length_less [of "n - 1"] by (cases "bit_length (n - 1)") (auto simp: ceil_log2_def)

lemma storage_bytes_covers:
  assumes "1 < m" "m \<le> 2 ^ 32"
  shows "\<exists>w. storage_bytes (int (ceil_log2 (nat m))) = Inr w \<and> w \<in> {2, 3, 4} \<and> m \<le> 2 ^ nat (8 * w)"
proof -
  let ?k = "ceil_log2 (nat m)"
  have k: "0 < ?k" "?k \<le> 32" using assms ceil_log2_pos [of "nat m"] ceil_log2_bound [of "nat m" 32] by (auto simp: nat_le_iff)
  have "int (nat m) \<le> int (2 ^ ?k)" using ceil_log2_le [of "nat m"] assms by (intro of_nat_mono) simp
  then have m: "m \<le> 2 ^ ?k" using assms by simp
  have j: "m \<le> 2 ^ j" if "?k \<le> j" for j using m that power_increasing [of ?k j "2::int"] by linarith
  show ?thesis using k j [of 16] j [of 24] j [of 32] by (simp add: storage_bytes_def)
qed

text \<open>A tensor of centred residues survives the compact encoding. For every modulus that fits an unsigned 32-bit integer and every
  integer tensor whose elements lie in the centred range of the modulus, packing the tensor and unpacking it returns it, with the width the
  encoder chooses by itself.\<close>

lemma packed_centered_roundtrip:
  assumes "1 < modulus" and "modulus \<le> 0xFFFFFFFF" and "nd_wf values"
    and "list_all (\<lambda>v. - (modulus - 1 - modulus div 2) \<le> v \<and> v \<le> modulus div 2) (nd_data values)"
  shows "bindE (from_centered values modulus None) (\<lambda>t. to_centered t modulus) = Inr values"
proof -
  obtain w where w: "storage_bytes (int (ceil_log2 (nat modulus))) = Inr w" "w \<in> {2, 3, 4}" "modulus \<le> 2 ^ nat (8 * w)"
    using storage_bytes_covers [of modulus] assms by auto
  let ?r = "map (\<lambda>v. v mod modulus) (nd_data values)"
  have r: "0 \<le> v" "v < modulus" if v: "v \<in> set ?r" for v
  proof -
    from v obtain u where "v = u mod modulus" unfolding set_map by blast
    then show "0 \<le> v" "v < modulus" using assms(1) by simp_all
  qed
  have "list_all (\<lambda>v. 0 \<le> v \<and> v < 2 ^ nat (8 * w)) ?r" unfolding list_all_iff using r less_le_trans [OF r(2) w(3)] by blast
  from unpack_pack_unsigned [OF w(2) this, of "Some (int (length ?r))"]
  obtain p where p: "pack_unsigned ?r w = Inr p" "unpack_unsigned p w (Some (int (length ?r))) = Inr (map word_of_int ?r)"
    by (auto simp: bindE_eq_Inr)
  have l: "length (nd_data values) = prod_list (nd_shape values)" using assms(3) by (simp add: nd_wf_def)
  have u: "map uint (map word_of_int ?r :: 32 word list) = ?r"
    unfolding map_map
  proof (rule map_cong [OF refl])
    fix v
    have "0 \<le> v mod modulus" "v mod modulus < modulus" using assms(1) by simp_all
    then have "0 \<le> v mod modulus" "v mod modulus < 4294967296" using assms(2) by linarith+
    then show "(uint \<circ> ((word_of_int :: int \<Rightarrow> 32 word) \<circ> (\<lambda>v. v mod modulus))) v = v mod modulus" by (simp add: uint_word_of_int)
  qed
  have c: "map (centered modulus) ?r = nd_data values"
    unfolding map_map by (rule map_idI) (use assms(1,4) in \<open>simp add: list_all_iff centered_mod\<close>)
  have n: "\<not> list_ex (\<lambda>v. v \<ge> modulus) ?r" using r(2) by (auto simp: list_ex_iff not_le)
  have f: "from_centered values modulus None = Inr \<lparr>pk_shape = nd_shape values, pk_width = w, pk_payload = p\<rparr>"
    using assms(1,2) w(1) p(1) by (simp add: from_centered_def np_mod_def from_unsigned_def nd_map_def raise_if_def)
  have t: "to_unsigned \<lparr>pk_shape = nd_shape values, pk_width = w, pk_payload = p\<rparr> = Inr \<lparr>nd_shape = nd_shape values, nd_data = map word_of_int ?r\<rparr>"
    using p(2) l by (simp add: to_unsigned_def)
  show ?thesis
    unfolding f to_centered_def bindE_Inr t Let_def nd_map_def ndarray.simps u c using n by simp
qed

end
