(* ===== verification/Native_Matrix.thy ===== *)
theory Native_Matrix
  imports Quantized_Residues
begin

text \<open>
  The matrix kernels of \<^verbatim>\<open>runtime/native.py\<close>: the Python branch, which the source keeps as the correctness reference of the compiled
  one, with its argument checks. NumPy's \<^verbatim>\<open>int64\<close> products and sums are 64-bit words read as signed integers, so that overflow
  would show; the object-typed ones are exact integers. The lemmas show that the guards exclude every overflow and that the
  limb-wise ciphertext product is the plain matrix product modulo \<open>q\<close>.
\<close>

section \<open>Matrices\<close>

record CompiledMatrix =
  cm_reference :: "8 word ndarray"

definition mat_rows :: "'a ndarray \<Rightarrow> 'a list list" where
  "mat_rows a = chunks (nd_shape a ! 1) (nd_shape a ! 0) (nd_data a)"

definition dot :: "'a::comm_semiring_1 list \<Rightarrow> 'a list \<Rightarrow> 'a" where
  "dot xs ys = sum_list (map2 (*) xs ys)"

abbreviation cm_rows :: "CompiledMatrix \<Rightarrow> nat" where
  "cm_rows m \<equiv> nd_shape (cm_reference m) ! 0"

abbreviation cm_cols :: "CompiledMatrix \<Rightarrow> nat" where
  "cm_cols m \<equiv> nd_shape (cm_reference m) ! 1"

definition weights_of :: "CompiledMatrix \<Rightarrow> int list list" where
  "weights_of m = map (map sint) (mat_rows (cm_reference m))"

definition integer_array :: "i64array \<Rightarrow> int \<Rightarrow> int \<Rightarrow> nat \<Rightarrow> i64array res" where
  "integer_array value low high dimensions =
     raise_if (length (nd_shape value) \<noteq> dimensions) (NativeKernelError ''expected an integer tensor of another rank'')
    (raise_if (list_ex (\<lambda>v. v < low \<or> v > high) (nd_data value)) (NativeKernelError ''values out of range'') (Inr value))"

definition compile_matrix :: "i64array \<Rightarrow> CompiledMatrix res" where
  "compile_matrix weights =
     bindE (integer_array weights (- 128) 127 2) (\<lambda>w.
     raise_if (nd_shape w ! 0 = 0 \<or> nd_shape w ! 1 = 0) (NativeKernelError ''matrix dimensions must be positive'')
       (Inr \<lparr>cm_reference = nd_map word_of_int w\<rparr>))"

definition matrix_inputs :: "CompiledMatrix \<Rightarrow> i64array \<Rightarrow> int \<Rightarrow> int \<Rightarrow> bool \<Rightarrow> i64array res" where
  "matrix_inputs m inputs low high bounded =
     bindE (integer_array inputs low high 2) (\<lambda>x.
     raise_if (nd_shape x ! 1 \<noteq> cm_cols m) (NativeKernelError ''expected weights [out,in] and inputs [batch,in]'')
    (raise_if (bounded \<and> int (cm_cols m) * 128 * high > 2 ^ 63 - 1) (NativeKernelError ''dot product bound exceeds int64'') (Inr x)))"

section \<open>Kernels\<close>

text \<open>\<^verbatim>\<open>x.astype(np.int64) @ W.astype(np.int64).T\<close>, one entry.\<close>

definition dot64 :: "int list \<Rightarrow> int list \<Rightarrow> int" where
  "dot64 xs ws = sint (dot (map word_of_int xs) (map word_of_int ws) :: 64 word)"

definition product_with :: "(int list \<Rightarrow> int list \<Rightarrow> 'a) \<Rightarrow> CompiledMatrix \<Rightarrow> i64array \<Rightarrow> 'a ndarray" where
  "product_with f m x = \<lparr>nd_shape = [nd_shape x ! 0, cm_rows m],
     nd_data = concat (map (\<lambda>r. map (f r) (weights_of m)) (mat_rows x))\<rparr>"

definition modular :: "CompiledMatrix \<Rightarrow> i64array \<Rightarrow> int \<Rightarrow> u32array res" where
  "modular m inputs p =
     raise_if (\<not> (2 \<le> p \<and> p < 2 ^ 31)) (NativeKernelError ''prime-ring modulus must satisfy 2 <= modulus < 2^31'')
       (bindE (matrix_inputs m inputs 0 (p - 1) True) (\<lambda>x. Inr (product_with (\<lambda>r w. word_of_int (dot64 r w mod p)) m x)))"

definition wrap32 :: "CompiledMatrix \<Rightarrow> i64array \<Rightarrow> u32array res" where
  "wrap32 m inputs =
     bindE (matrix_inputs m inputs 0 (2 ^ 32 - 1) False) (\<lambda>x. Inr (product_with (\<lambda>r w. word_of_int (dot r w mod 2 ^ 32)) m x))"

definition wrap32_byte_dot :: "CompiledMatrix \<Rightarrow> i64array \<Rightarrow> u32array res" where
  "wrap32_byte_dot m inputs =
     raise_if (nd_shape inputs \<noteq> [1, cm_cols m]) (NativeKernelError ''byte-dot requires one integer input row matching matrix width'')
    (raise_if (cm_cols m > 131071 \<or> cm_rows m * cm_cols m > 256 * 2 ^ 20 \<or> cm_rows m * cm_cols m + 8 * cm_cols m + 4 * cm_rows m > 512 * 2 ^ 20)
       (NativeKernelError ''byte-dot geometry exceeds native bounds'')
    (bindE (matrix_inputs m inputs 0 (2 ^ 32 - 1) False) (\<lambda>x.
       Inr \<lparr>nd_shape = [1, cm_rows m],
            nd_data = map (\<lambda>w. word_of_int (sum_list (map2 (*) w (hd (mat_rows x))) AND 0xffffffff)) (weights_of m)\<rparr>)))"

definition wrap64 :: "CompiledMatrix \<Rightarrow> i64array \<Rightarrow> u64array res" where
  "wrap64 m inputs =
     raise_if (nd_shape inputs = []) (NativeKernelError ''expected an integer tensor'')
    (raise_if (last (nd_shape inputs) \<noteq> cm_cols m) (NativeKernelError ''expected weights [out,in] and inputs [...,in]'')
    (raise_if (list_ex (\<lambda>v. v < 0) (nd_data inputs)) (NativeKernelError ''ring-64 inputs must be unsigned residues'')
       (let rows = chunks (cm_cols m) (prod_list (butlast (nd_shape inputs))) (nd_data inputs) in
        Inr \<lparr>nd_shape = butlast (nd_shape inputs) @ [cm_rows m],
             nd_data = concat (map (\<lambda>r. map (\<lambda>w. word_of_int (dot r w mod 2 ^ 64)) (weights_of m)) rows)\<rparr>)))"

definition max_weight :: "CompiledMatrix \<Rightarrow> int" where
  "max_weight m = Max (set (map abs (concat (weights_of m))))"

definition clear :: "CompiledMatrix \<Rightarrow> i64array \<Rightarrow> 32 word ndarray res" where
  "clear m inputs =
     bindE (matrix_inputs m inputs (- 128) 127 True) (\<lambda>x.
     raise_if (int (cm_cols m) * max_weight m * 128 > 2 ^ 31 - 1) (NativeKernelError ''clear int32 result cannot represent the worst case'')
       (Inr (product_with (\<lambda>r w. word_of_int (dot64 r w)) m x)))"

text \<open>One column of a ciphertext product: the byte limbs from the highest down, each centred by 128 before its product with the weights.\<close>

definition limb_step :: "int list \<Rightarrow> int list \<Rightarrow> int \<Rightarrow> nat \<Rightarrow> 64 word \<Rightarrow> 64 word" where
  "limb_step w a q limb out =
     (let digits = map (\<lambda>v. (v div 2 ^ (8 * limb)) mod 256 - 128) a;
          correction = 128 * sum_list (map word_of_int w)
      in word_of_int (sint (out * 256 + dot (map word_of_int w) (map word_of_int digits) + correction) mod q))"

definition coefficient :: "int list \<Rightarrow> int list \<Rightarrow> int \<Rightarrow> 64 word" where
  "coefficient w a q = fold (limb_step w a q) (rev [0..<(bit_length (nat (q - 1)) + 7) div 8]) 0"

definition mat_cols :: "'a ndarray \<Rightarrow> 'a list list" where
  "mat_cols a = map (\<lambda>j. map (\<lambda>r. r ! j) (mat_rows a)) [0..<nd_shape a ! 1]"

definition coefficients :: "CompiledMatrix \<Rightarrow> i64array \<Rightarrow> int \<Rightarrow> u64array res" where
  "coefficients m inputs q =
     raise_if (\<not> (2 \<le> q \<and> q < 2 ^ 54)) (NativeKernelError ''ciphertext modulus must satisfy 2 <= q < 2^54'')
    (bindE (integer_array inputs 0 (q - 1) 2) (\<lambda>a.
     raise_if (nd_shape a ! 0 \<noteq> cm_cols m \<or> nd_shape a ! 1 = 0) (NativeKernelError ''expected coefficients [in,columns]'')
    (raise_if (int (cm_cols m) * max_weight m * 128 > 2 ^ 31 - 1) (NativeKernelError ''signed limb dot product exceeds int32'')
       (Inr \<lparr>nd_shape = [cm_rows m, nd_shape a ! 1],
             nd_data = concat (map (\<lambda>w. map (\<lambda>c. coefficient w c q) (mat_cols a)) (weights_of m))\<rparr>))))"

text \<open>\<^verbatim>\<open>MaskedGEMM\<close> compiles the weights for one product.\<close>

definition gemm_modular :: "i64array \<Rightarrow> i64array \<Rightarrow> int \<Rightarrow> u32array res" where
  "gemm_modular weights inputs p = bindE (compile_matrix weights) (\<lambda>m. modular m inputs p)"

section \<open>Facts\<close>

definition matrix_ok :: "CompiledMatrix \<Rightarrow> bool" where
  "matrix_ok m \<longleftrightarrow> nd_wf (cm_reference m) \<and> length (nd_shape (cm_reference m)) = 2 \<and> 0 < cm_rows m \<and> 0 < cm_cols m"

lemma compile_ok: "compile_matrix weights = Inr m \<Longrightarrow> nd_wf weights \<Longrightarrow> matrix_ok m"
  by (auto simp: compile_matrix_def integer_array_def res_inv matrix_ok_def nd_wf_def nd_map_def)

lemma chunks_lengths: "n * k \<le> length xs \<Longrightarrow> r \<in> set (chunks k n xs) \<Longrightarrow> length r = k"
proof (induction n arbitrary: xs)
  case (Suc n)
  then show ?case using Suc.IH [of "drop k xs"] by auto
qed simp

lemma set_chunks: "r \<in> set (chunks k n xs) \<Longrightarrow> set r \<subseteq> set xs"
proof (induction n arbitrary: xs)
  case (Suc n)
  then show ?case using set_take_subset [of k xs] set_drop_subset [of k xs] by fastforce
qed simp

lemma mat_rows_length: "nd_wf a \<Longrightarrow> length (nd_shape a) = 2 \<Longrightarrow> r \<in> set (mat_rows a) \<Longrightarrow> length r = nd_shape a ! 1"
proof -
  assume a: "nd_wf a" "length (nd_shape a) = 2" "r \<in> set (mat_rows a)"
  then obtain x y where "nd_shape a = [x, y]" by (auto simp: length_Suc_conv numeral_2_eq_2)
  with a show ?thesis using chunks_lengths [of x y "nd_data a" r] by (auto simp: mat_rows_def nd_wf_def)
qed

lemma length_mat_rows [simp]: "length (mat_rows a) = nd_shape a ! 0"
  by (simp add: mat_rows_def)

lemma set_mat_rows: "r \<in> set (mat_rows a) \<Longrightarrow> v \<in> set r \<Longrightarrow> v \<in> set (nd_data a)"
  using set_chunks by (fastforce simp: mat_rows_def)

lemma length_weights_of [simp]: "length (weights_of m) = cm_rows m"
  by (simp add: weights_of_def)

lemma weights_range:
  assumes "matrix_ok m" "w \<in> set (weights_of m)"
  shows "length w = cm_cols m" "list_all (\<lambda>v. \<bar>v\<bar> \<le> 128) w"
proof -
  obtain r where r: "r \<in> set (mat_rows (cm_reference m))" "w = map sint r" using assms by (auto simp: weights_of_def)
  show "length w = cm_cols m" using r mat_rows_length [of "cm_reference m" r] assms(1) by (simp add: matrix_ok_def)
  have "\<bar>sint (b :: 8 word)\<bar> \<le> 128" for b using sint_range_size [of b] by (auto simp: size_word.rep_eq)
  then show "list_all (\<lambda>v. \<bar>v\<bar> \<le> 128) w" by (simp add: r list_all_iff)
qed

lemma dot_Nil [simp]: "dot [] ys = 0" "dot xs [] = 0"
  by (simp_all add: dot_def)

lemma dot_Cons [simp]: "dot (x # xs) (y # ys) = x * y + dot xs ys"
  by (simp add: dot_def)

lemma dot_commute: "dot xs ys = dot ys xs"
  by (induction xs ys rule: list_induct2') (auto simp: ac_simps)

lemma dot_word: "dot (map word_of_int xs) (map word_of_int ys) = (word_of_int (dot xs ys) :: 'a::len word)"
proof (induction xs ys rule: list_induct2')
  case (4 x xs y ys)
  then show ?case by (simp add: wi_hom_syms)
qed auto

lemma dot_abs_le:
  fixes xs ys :: "int list"
  assumes "length xs = n" "length ys = n" "list_all (\<lambda>x. \<bar>x\<bar> \<le> a) xs" "list_all (\<lambda>y. \<bar>y\<bar> \<le> b) ys" "0 \<le> a" "0 \<le> b"
  shows "\<bar>dot xs ys\<bar> \<le> int n * a * b"
  using assms
proof (induction xs arbitrary: ys n)
  case (Cons x xs)
  then obtain y ys' n' where y: "ys = y # ys'" "n = Suc n'" by (cases ys; cases n) auto
  have i: "\<bar>dot xs ys'\<bar> \<le> int n' * a * b" using Cons y by simp
  have "\<bar>x\<bar> * \<bar>y\<bar> \<le> a * b" using Cons.prems y by (intro mult_mono) auto
  moreover have "\<bar>x * y + dot xs ys'\<bar> \<le> \<bar>x * y\<bar> + \<bar>dot xs ys'\<bar>" by (rule abs_triangle_ineq)
  ultimately have "\<bar>x * y + dot xs ys'\<bar> \<le> a * b + int n' * a * b" using i by (simp add: abs_mult)
  then show ?case using y by (simp add: algebra_simps)
qed simp

lemma sint_word_of_int64: "- (2 ^ 63) \<le> v \<Longrightarrow> v < 2 ^ 63 \<Longrightarrow> sint (word_of_int v :: 64 word) = v"
  by (simp add: sint_sbintrunc' signed_take_bit_int_eq_self)

lemma dot64_exact:
  assumes "length xs = n" "length ws = n" "list_all (\<lambda>x. \<bar>x\<bar> \<le> high) xs" "list_all (\<lambda>w. \<bar>w\<bar> \<le> 128) ws" "0 \<le> high" "int n * 128 * high \<le> 2 ^ 63 - 1"
  shows "dot64 xs ws = dot xs ws"
proof -
  have "\<bar>dot xs ws\<bar> \<le> int n * high * 128" by (rule dot_abs_le) (use assms in auto)
  then have "\<bar>dot xs ws\<bar> < 2 ^ 63" using assms(6) by (simp add: algebra_simps)
  then show ?thesis by (simp add: dot64_def dot_word abs_less_iff sint_word_of_int64)
qed

lemma concat_map_cong2:
  assumes "\<And>r w. r \<in> set rs \<Longrightarrow> w \<in> set ws \<Longrightarrow> f r w = g r w"
  shows "concat (map (\<lambda>r. map (f r) ws) rs) = concat (map (\<lambda>r. map (g r) ws) rs)"
  by (rule arg_cong [of _ _ concat]) (use assms in auto)

lemma matrix_inputs_Inr:
  "matrix_inputs m inputs low high bounded = Inr x \<longleftrightarrow> x = inputs \<and> length (nd_shape inputs) = 2 \<and> nd_shape inputs ! 1 = cm_cols m
     \<and> list_all (\<lambda>v. low \<le> v \<and> v \<le> high) (nd_data inputs) \<and> (bounded \<longrightarrow> int (cm_cols m) * 128 * high \<le> 2 ^ 63 - 1)"
  by (auto simp: matrix_inputs_def integer_array_def res_inv list_ex_iff list_all_iff not_less)

lemma product_with_cong:
  assumes "matrix_ok m" "nd_wf x" "length (nd_shape x) = 2" "nd_shape x ! 1 = cm_cols m" "list_all P (nd_data x)"
    and "\<And>r w. length r = cm_cols m \<Longrightarrow> list_all P r \<Longrightarrow> length w = cm_cols m \<Longrightarrow> list_all (\<lambda>v. \<bar>v\<bar> \<le> 128) w \<Longrightarrow> w \<in> set (weights_of m) \<Longrightarrow> f r w = g r w"
  shows "product_with f m x = product_with g m x"
proof -
  have fg: "f r w = g r w" if "r \<in> set (mat_rows x)" "w \<in> set (weights_of m)" for r w
  proof (rule assms(6))
    show "length r = cm_cols m" using mat_rows_length that(1) assms(2,3,4) by fastforce
    show "list_all P r" using set_mat_rows that(1) assms(5) by (fastforce simp: list_all_iff)
  qed (use weights_range assms(1) that(2) in auto)
  have "concat (map (\<lambda>r. map (f r) (weights_of m)) (mat_rows x)) = concat (map (\<lambda>r. map (g r) (weights_of m)) (mat_rows x))"
    by (rule concat_map_cong2) (rule fg)
  then show ?thesis by (simp add: product_with_def)
qed

lemma modular_product:
  assumes "matrix_ok m" "nd_wf inputs" "modular m inputs p = Inr y"
  shows "y = product_with (\<lambda>r w. word_of_int (dot r w mod p)) m inputs"
proof -
  have p: "2 \<le> p" "p < 2 ^ 31" and x: "length (nd_shape inputs) = 2" "nd_shape inputs ! 1 = cm_cols m"
    "list_all (\<lambda>v. 0 \<le> v \<and> v \<le> p - 1) (nd_data inputs)" "int (cm_cols m) * 128 * (p - 1) \<le> 2 ^ 63 - 1"
    and y: "y = product_with (\<lambda>r w. word_of_int (dot64 r w mod p)) m inputs"
    using assms(3) by (auto simp: modular_def res_inv matrix_inputs_Inr)
  show ?thesis
    unfolding y
  proof (rule product_with_cong [OF assms(1,2) x(1,2,3)])
    fix r w :: "int list" assume "length r = cm_cols m" "list_all (\<lambda>v. 0 \<le> v \<and> v \<le> p - 1) r" "length w = cm_cols m" "list_all (\<lambda>v. \<bar>v\<bar> \<le> 128) w"
    then have "dot64 r w = dot r w" using x(4) p by (intro dot64_exact [where high = "p - 1"]) (auto simp: list_all_iff)
    then show "(word_of_int (dot64 r w mod p) :: 32 word) = word_of_int (dot r w mod p)" by simp
  qed
qed

section \<open>The limb-wise product\<close>

lemma dot_distrib:
  fixes w :: "int list"
  shows "length a = length w \<Longrightarrow> length b = length w \<Longrightarrow> dot w (map2 (\<lambda>x y. c * x + y) a b) = c * dot w a + dot w b"
proof (induction w arbitrary: a b)
  case (Cons x w)
  then obtain y a' z b' where "a = y # a'" "b = z # b'" by (cases a; cases b) auto
  with Cons show ?case by (simp add: algebra_simps)
qed simp

lemma dot_shift: "length a = length w \<Longrightarrow> dot w (map (\<lambda>v. v - c) a) + c * sum_list w = dot w (a :: int list)"
proof (induction w arbitrary: a)
  case (Cons x w)
  then obtain y a' where a: "a = y # a'" by (cases a) auto
  then have "dot w (map (\<lambda>v. v - c) a') + c * sum_list w = dot w a'" using Cons by simp
  then show ?case by (simp add: a algebra_simps)
qed simp

lemma sum_list_abs_le: "list_all (\<lambda>v. \<bar>v\<bar> \<le> b) w \<Longrightarrow> \<bar>sum_list (w :: int list)\<bar> \<le> int (length w) * b"
proof (induction w)
  case (Cons v w)
  then have "\<bar>v + sum_list w\<bar> \<le> b + int (length w) * b" using abs_triangle_ineq [of v "sum_list w"] by simp
  then show ?case by (simp add: algebra_simps)
qed simp

lemma sum_list_word: "sum_list (map word_of_int w) = (word_of_int (sum_list w) :: 'a::len word)"
  by (induction w) (auto simp: wi_hom_syms)

definition limb_args :: "int list \<Rightarrow> int list \<Rightarrow> int \<Rightarrow> bool" where
  "limb_args w a q \<longleftrightarrow> 2 \<le> q \<and> q < 2 ^ 54 \<and> length a = length w \<and> list_all (\<lambda>v. 0 \<le> v \<and> v < q) a
     \<and> (\<exists>mw. list_all (\<lambda>v. \<bar>v\<bar> \<le> mw) w \<and> 0 \<le> mw \<and> int (length w) * mw * 128 \<le> 2 ^ 31 - 1)"

lemma limb_step_exact:
  assumes args: "limb_args w a q"
  shows "limb_step w a q limb (word_of_int (dot w (map (\<lambda>v. v div 2 ^ (8 * Suc limb)) a) mod q))
     = word_of_int (dot w (map (\<lambda>v. v div 2 ^ (8 * limb)) a) mod q)"
proof -
  obtain mw where wb: "list_all (\<lambda>v. \<bar>v\<bar> \<le> mw) w" "0 \<le> mw" "int (length w) * mw * 128 \<le> 2 ^ 31 - 1"
    and q: "2 \<le> q" "q < 2 ^ 54" and len: "length a = length w"
    using args by (auto simp: limb_args_def)
  define hi where "hi = map (\<lambda>v. v div 2 ^ (8 * Suc limb)) a"
  define u where "u = map (\<lambda>v. (v div 2 ^ (8 * limb)) mod 256) a"
  define d where "d = map (\<lambda>v. (v div 2 ^ (8 * limb)) mod 256 - 128) a"
  define o1 where "o1 = dot w hi mod q"
  have lo: "map (\<lambda>v. v div 2 ^ (8 * limb)) a = map2 (\<lambda>x y. 256 * x + y) hi u"
  proof -
    have "v div 2 ^ (8 * limb) = 256 * (v div 2 ^ (8 * Suc limb)) + (v div 2 ^ (8 * limb)) mod 256" for v :: int
    proof -
      have "v div 2 ^ (8 * Suc limb) = v div (2 ^ (8 * limb) * 256)" by (simp add: power_add mult.commute)
      then have "v div 2 ^ (8 * Suc limb) = v div 2 ^ (8 * limb) div 256" by (simp add: zdiv_zmult2_eq)
      then show ?thesis by simp
    qed
    then show ?thesis by (simp add: hi_def u_def map2_map_map)
  qed
  have du: "d = map (\<lambda>v. v - 128) u" by (simp add: d_def u_def)
  have ld: "length hi = length w" "length u = length w" "length d = length w" using len by (simp_all add: hi_def u_def d_def)
  have D: "\<bar>dot w d\<bar> \<le> int (length w) * mw * 128"
    by (rule dot_abs_le) (use len ld wb in \<open>auto simp: d_def list_all_iff abs_le_iff intro: less_imp_le [THEN order_trans]\<close>)
  have C: "\<bar>128 * sum_list w\<bar> \<le> int (length w) * mw * 128" using sum_list_abs_le [OF wb(1)] len by (simp add: abs_mult)
  have o1: "0 \<le> o1" "o1 < q" using q by (simp_all add: o1_def)
  have "\<bar>dot w d\<bar> \<le> 2147483647" "\<bar>128 * sum_list w\<bar> \<le> 2147483647" using D C wb(3) by (auto simp del: abs_mult)
  then have B: "- 2147483647 \<le> dot w d" "dot w d \<le> 2147483647" "- 2147483647 \<le> 128 * sum_list w" "128 * sum_list w \<le> 2147483647" by linarith+
  define t where "t = o1 * 256 + dot w d + 128 * sum_list w"
  have t: "- (2 ^ 63) \<le> t" "t < 2 ^ 63" using B o1 q by (simp_all add: t_def)
  have tw: "word_of_int o1 * 256 + dot (map word_of_int w) (map word_of_int d) + 128 * sum_list (map word_of_int w) = (word_of_int t :: 64 word)"
    by (simp add: dot_word sum_list_word t_def wi_hom_syms)
  have "t mod q = (256 * dot w hi + dot w u) mod q"
  proof -
    have "t = 256 * o1 + dot w u" using dot_shift [OF ld(2), of 128] by (simp add: t_def du algebra_simps)
    moreover have "(256 * (x mod q) + y) mod q = (256 * x + y) mod q" for x y :: int
      by (metis mod_add_left_eq mod_mult_right_eq)
    ultimately show ?thesis by (simp only: o1_def)
  qed
  then have tm: "t mod q = dot w (map (\<lambda>v. v div 2 ^ (8 * limb)) a) mod q"
    unfolding lo dot_distrib [OF ld(1,2)] .
  show ?thesis
    unfolding limb_step_def Let_def d_def [symmetric] hi_def [symmetric] o1_def [symmetric] tw sint_word_of_int64 [OF t] tm ..
qed

lemma coefficient_exact:
  assumes args: "limb_args w a q"
  shows "coefficient w a q = word_of_int (dot w a mod q)"
proof -
  have q: "2 \<le> q" and len: "length a = length w" and ab: "list_all (\<lambda>v. 0 \<le> v \<and> v < q) a" using args by (auto simp: limb_args_def)
  let ?K = "(bit_length (nat (q - 1)) + 7) div 8"
  let ?g = "\<lambda>j. map (\<lambda>v. v div 2 ^ (8 * j)) a"
  have z: "?g ?K = map (\<lambda>v. 0) a"
  proof -
    have "nat (q - 1) < 2 ^ bit_length (nat (q - 1))" by (rule bit_length_less)
    moreover have "bit_length (nat (q - 1)) \<le> 8 * ?K" by simp
    ultimately have "nat (q - 1) < 2 ^ (8 * ?K)" by (meson less_le_trans one_le_numeral power_increasing)
    then have "q - 1 < 2 ^ (8 * ?K)" by (metis nat_less_numeral_power_cancel_iff)
    then have "v div 2 ^ (8 * ?K) = 0" if "v \<in> set a" for v using ab that by (intro div_pos_pos_trivial) (auto simp: list_all_iff)
    then show ?thesis by auto
  qed
  have zero: "dot w (map (\<lambda>v. 0) a) = 0" using len [symmetric] by (induction w a rule: list_induct2) auto
  have "fold (limb_step w a q) (rev [j..<?K]) 0 = word_of_int (dot w (?g j) mod q)" if "j \<le> ?K" for j
    using that
  proof (induction j rule: inc_induct)
    case base
    show ?case by (simp only: z zero) simp
  next
    case (step j)
    then have "rev [j..<?K] = rev [Suc j..<?K] @ [j]" by (simp add: upt_conv_Cons)
    then show ?case using step.IH limb_step_exact [OF args, of j] by simp
  qed
  from this [of 0] show ?thesis by (simp add: coefficient_def)
qed

lemma mat_cols_length:
  assumes "nd_wf a" "length (nd_shape a) = 2" "c \<in> set (mat_cols a)"
  shows "length c = nd_shape a ! 0" "set c \<subseteq> set (nd_data a)"
proof -
  obtain j where j: "j < nd_shape a ! 1" "c = map (\<lambda>r. r ! j) (mat_rows a)" using assms(3) by (auto simp: mat_cols_def)
  then show "length c = nd_shape a ! 0" by simp
  have "r ! j \<in> set (nd_data a)" if "r \<in> set (mat_rows a)" for r
    using mat_rows_length [OF assms(1,2) that] j(1) set_mat_rows [OF that] by simp
  then show "set c \<subseteq> set (nd_data a)" using j(2) by auto
qed

text \<open>C25: The limb-wise ciphertext product is the matrix product modulo the ciphertext modulus. For every compiled matrix and every coefficient array that
  the kernel accepts, each entry that the base-256 loop computes on signed 64-bit words, from the highest limb down and with limbs centred by 128,
  is the product of the weight row and the coefficient column, taken over the integers and reduced modulo \<open>q\<close>: the guards exclude every overflow.\<close>

theorem coefficients_match_reference:
  assumes "matrix_ok m" and "nd_wf inputs" and "coefficients m inputs q = Inr y"
  shows "y = \<lparr>nd_shape = [cm_rows m, nd_shape inputs ! 1],
               nd_data = concat (map (\<lambda>w. map (\<lambda>c. word_of_int (dot w c mod q)) (mat_cols inputs)) (weights_of m))\<rparr>"
proof -
  have q: "2 \<le> q" "q < 2 ^ 54" and x: "length (nd_shape inputs) = 2" "nd_shape inputs ! 0 = cm_cols m" "list_all (\<lambda>v. 0 \<le> v \<and> v < q) (nd_data inputs)"
    and mw: "int (cm_cols m) * max_weight m * 128 \<le> 2 ^ 31 - 1"
    and y: "y = \<lparr>nd_shape = [cm_rows m, nd_shape inputs ! 1],
                  nd_data = concat (map (\<lambda>w. map (\<lambda>c. coefficient w c q) (mat_cols inputs)) (weights_of m))\<rparr>"
    using assms(3) by (auto simp: coefficients_def integer_array_def res_inv list_ex_iff list_all_iff)
  have e: "coefficient w c q = word_of_int (dot w c mod q)" if wc: "w \<in> set (weights_of m)" "c \<in> set (mat_cols inputs)" for w c
  proof (rule coefficient_exact)
    have l: "length w = cm_cols m" "length c = cm_cols m"
      using weights_range [OF assms(1) wc(1)] mat_cols_length [OF assms(2) x(1) wc(2)] x(2) by simp_all
    have b: "\<bar>v\<bar> \<le> max_weight m" if "v \<in> set w" for v using that wc(1) unfolding max_weight_def by (intro Max_ge) auto
    obtain v where "v \<in> set w" using l(1) assms(1) by (cases w) (auto simp: matrix_ok_def)
    then have "0 \<le> max_weight m" using b [of v] by simp
    moreover have "list_all (\<lambda>v. 0 \<le> v \<and> v < q) c" using mat_cols_length(2) [OF assms(2) x(1) wc(2)] x(3) by (auto simp: list_all_iff)
    ultimately show "limb_args w c q" using q l b mw by (auto simp: limb_args_def list_all_iff intro!: exI [of _ "max_weight m"])
  qed
  have "concat (map (\<lambda>w. map (\<lambda>c. coefficient w c q) (mat_cols inputs)) (weights_of m))
      = concat (map (\<lambda>w. map (\<lambda>c. word_of_int (dot w c mod q)) (mat_cols inputs)) (weights_of m))"
    by (rule concat_map_cong2) (rule e)
  then show ?thesis by (simp add: y)
qed

lemma coefficients_match_reference_witness:
  "\<exists>y. coefficients \<lparr>cm_reference = \<lparr>nd_shape = [2, 2], nd_data = [3, - 5, 0, 1]\<rparr>\<rparr>
        \<lparr>nd_shape = [2, 2], nd_data = [1099511627775, 0, 70000, 9]\<rparr> 1099511627776 = Inr y
     \<and> y = \<lparr>nd_shape = [2, 2], nd_data = [1099511277773, 1099511627731, 70000, 9]\<rparr>"
proof -
  let ?m = "\<lparr>cm_reference = \<lparr>nd_shape = [2, 2], nd_data = [3, - 5, 0, 1]\<rparr>\<rparr>"
  let ?x = "\<lparr>nd_shape = [2, 2], nd_data = [1099511627775, 0, 70000, 9]\<rparr> :: i64array"
  have ok: "matrix_ok ?m" "nd_wf ?x" by (simp_all add: matrix_ok_def nd_wf_def)
  have w: "weights_of ?m = [[3, - 5], [0, 1]]" by (simp add: weights_of_def mat_rows_def numeral_2_eq_2)
  have c: "mat_cols ?x = [[1099511627775, 70000], [0, 9]]" by (simp add: mat_cols_def mat_rows_def numeral_2_eq_2)
  obtain y where y: "coefficients ?m ?x 1099511627776 = Inr y"
    by (simp add: coefficients_def integer_array_def w max_weight_def)
  from coefficients_match_reference [OF ok y] have "y = \<lparr>nd_shape = [2, 2], nd_data = [1099511277773, 1099511627731, 70000, 9]\<rparr>"
    unfolding w c by simp
  with y show ?thesis by auto
qed

end
