(* ===== verification/Stage_Protocol.thy ===== *)
theory Stage_Protocol
  imports Quantized_Residues Correction_Rendezvous
begin

text \<open>
  \<^verbatim>\<open>runtime/stage_protocol.py\<close>: rings and residue payloads, stage correlations with masking and unmasking, the
  request and response frames of masked stages and the binary frames of prepared stages. MessagePack is a parameter. Prepared frames are modelled
  with the raw input encoding; the fully homomorphic and blinded frames are left out.
\<close>

section \<open>Rings and residue payloads\<close>

definition ring_bits :: "string \<Rightarrow> nat" where
  "ring_bits ring = (if ring = ''u16'' then 16 else if ring = ''u24'' then 24 else 32)"

definition ring_from :: "int \<Rightarrow> int \<Rightarrow> string option \<Rightarrow> string res" where
  "ring_from modulus wire_bits ring = (case ring of
     Some r \<Rightarrow>
       raise_if (r \<notin> {''u16'', ''u24'', ''u32'', ''prime''}) (ProtocolError ''unsupported ring kind'')
      (raise_if (r \<noteq> ''prime'' \<and> (modulus, wire_bits) \<noteq> (2 ^ ring_bits r, int (ring_bits r))) (ProtocolError ''ring, modulus, and wire width mismatch'')
         (Inr r))
   | None \<Rightarrow> Inr (if modulus = 2 ^ 16 \<and> wire_bits = 16 then ''u16''
       else if modulus = 2 ^ 24 \<and> wire_bits = 24 then ''u24''
       else if modulus = 2 ^ 32 \<and> wire_bits = 32 then ''u32'' else ''prime''))"

text \<open>The codec errors, which are \<^verbatim>\<open>ValueError\<close>s, become protocol errors.\<close>

definition protocol_errors :: "'a res \<Rightarrow> 'a res" where
  "protocol_errors m = (case m of
     Inl (CompactCodecError e) \<Rightarrow> Inl (ProtocolError e)
   | Inl (ValueError e) \<Rightarrow> Inl (ProtocolError e)
   | _ \<Rightarrow> m)"

definition pack_residues :: "u32array \<Rightarrow> int \<Rightarrow> bytes res" where
  "pack_residues values wire_bits =
     raise_if (wire_bits \<notin> {16, 24, 32}) (ProtocolError ''wire_bits must be 16, 24, or 32'')
       (protocol_errors (pack_unsigned (map uint (nd_data values)) (wire_bits div 8)))"

definition unpack_residues :: "bytes \<Rightarrow> int list \<Rightarrow> int \<Rightarrow> u32array res" where
  "unpack_residues payload shape wire_bits =
     raise_if (wire_bits \<notin> {16, 24, 32} \<or> list_ex (\<lambda>d. d < 0) shape) (ProtocolError ''invalid residue shape or wire width'')
       (protocol_errors (bindE (unpack_unsigned payload (wire_bits div 8) (Some (prod_list shape))) (\<lambda>data.
          Inr \<lparr>nd_shape = map nat shape, nd_data = data\<rparr>)))"

section \<open>Correlations\<close>

record StageCorrelation =
  sc_id :: string
  sc_stage_id :: string
  sc_mask :: u32array
  sc_transformed_mask :: u32array
  sc_modulus :: int
  sc_ring :: "string option"
  sc_consumed :: bool

record MaskedStageResponse =
  mr_correlation_id :: string
  mr_masked_output :: u32array
  mr_modulus :: int
  mr_wire_bits :: int
  mr_server_ns :: int
  mr_stage_id :: string
  mr_ring :: "string option"

definition or_else :: "'a option \<Rightarrow> 'a option \<Rightarrow> 'a option" where
  "or_else a b = (case a of None \<Rightarrow> b | Some x \<Rightarrow> Some x)"

definition unmask_stage_output :: "MaskedStageResponse \<Rightarrow> StageCorrelation \<Rightarrow> i64array res" where
  "unmask_stage_output response correlation =
     raise_if (mr_correlation_id response \<noteq> sc_id correlation) (ProtocolError ''stage result correlation id mismatch'')
    (raise_if (mr_modulus response \<noteq> sc_modulus correlation) (ProtocolError ''stage result modulus mismatch'')
    (let value = mr_masked_output response; transformed = sc_transformed_mask correlation in
     raise_if (nd_shape value \<noteq> nd_shape transformed) (ProtocolError ''stage result and transformed mask shapes differ'')
    (bindE (ring_from (mr_modulus response) (mr_wire_bits response) (or_else (mr_ring response) (sc_ring correlation))) (\<lambda>ring.
       if ring = ''u16'' then Inr (nd_map2 (\<lambda>v t. sint (ucast v - ucast t :: 16 word)) value transformed)
       else if ring = ''u24'' then
         Inr (nd_map2 (\<lambda>v t. let raw = (uint v - uint t) mod 2 ^ 24 in if raw \<ge> 2 ^ 23 then raw - 2 ^ 24 else raw) value transformed)
       else if ring = ''u32'' then Inr (nd_map2 (\<lambda>v t. sint (v - t)) value transformed)
       else centered_residues (nd_map2 (\<lambda>v t. uint v - uint t) value transformed) (mr_modulus response)))))"

definition encode_signed_with_mask :: "i64array \<Rightarrow> StageCorrelation \<Rightarrow> u32array res" where
  "encode_signed_with_mask signed_values correlation =
     (let mask = sc_mask correlation; ring = (case sc_ring correlation of None \<Rightarrow> ''prime'' | Some r \<Rightarrow> r) in
      raise_if (nd_shape signed_values \<noteq> nd_shape mask) (ProtocolError ''activation and correlation shapes differ'')
     (if ring = ''u16'' then Inr (nd_map2 (\<lambda>v m. ucast (word_of_int v + ucast m :: 16 word)) signed_values mask)
      else if ring = ''u24'' then Inr (nd_map2 (\<lambda>v m. word_of_int ((v + uint m) mod 2 ^ 24)) signed_values mask)
      else if ring = ''u32'' then Inr (nd_map2 (\<lambda>v m. word_of_int v + m) signed_values mask)
      else positive_residues (nd_map2 (\<lambda>v m. v + uint m) signed_values mask) (sc_modulus correlation)))"

definition decode_unmasked :: "u32array \<Rightarrow> StageCorrelation \<Rightarrow> i64array res" where
  "decode_unmasked values correlation =
     (let ring = (case sc_ring correlation of None \<Rightarrow> ''prime'' | Some r \<Rightarrow> r) in
      unmask_stage_output \<lparr>mr_correlation_id = sc_id correlation, mr_masked_output = values, mr_modulus = sc_modulus correlation,
        mr_wire_bits = (if ring = ''u16'' then 16 else if ring = ''u24'' then 24 else 32), mr_server_ns = 0, mr_stage_id = '''',
        mr_ring = Some ring\<rparr> correlation)"

section \<open>Prepared stage frames\<close>

definition BATCH_REQUEST_MAGIC :: bytes where "BATCH_REQUEST_MAGIC = ascii ''PLLMPSB1''"
definition BATCH_RESPONSE_MAGIC :: bytes where "BATCH_RESPONSE_MAGIC = ascii ''PLLMPSR1''"
definition SINGLE_REQUEST_MAGIC :: bytes where "SINGLE_REQUEST_MAGIC = ascii ''PLLMPSB2''"
definition SINGLE_RESPONSE_MAGIC :: bytes where "SINGLE_RESPONSE_MAGIC = ascii ''PLLMPSR2''"
definition PACKED_REQUEST_MAGIC :: bytes where "PACKED_REQUEST_MAGIC = ascii ''PLLMPSB3''"

lemmas magic_defs = BATCH_REQUEST_MAGIC_def BATCH_RESPONSE_MAGIC_def SINGLE_REQUEST_MAGIC_def SINGLE_RESPONSE_MAGIC_def PACKED_REQUEST_MAGIC_def

definition starts_with :: "bytes \<Rightarrow> bytes \<Rightarrow> bool" where
  "starts_with payload prefix \<longleftrightarrow> take (length prefix) payload = prefix"

definition packed_stage_id :: "string \<Rightarrow> string \<Rightarrow> bytes res" where
  "packed_stage_id value kind = (case fromhex value of
     Inl e \<Rightarrow> Inl (ProtocolError (kind @ '' must contain 128 random bits''))
   | Inr packed \<Rightarrow> raise_if (length packed \<noteq> 16) (ProtocolError (kind @ '' must contain 128 random bits'')) (Inr packed))"

definition prepared_stage_batch_rows :: "bytes \<Rightarrow> nat option res" where
  "prepared_stage_batch_rows payload =
     (let single = starts_with payload SINGLE_REQUEST_MAGIC; packed = starts_with payload PACKED_REQUEST_MAGIC in
      if \<not> single \<and> \<not> packed \<and> \<not> starts_with payload BATCH_REQUEST_MAGIC then Inr None
      else raise_if (length payload < 8 + 4) (ProtocolError ''invalid prepared stage batch header'')
        (let rows = be_nat (take 4 (drop 8 payload)) in
         raise_if (rows < 1 \<or> single \<and> rows \<noteq> 1 \<or> \<not> single \<and> \<not> packed \<and> rows \<le> 1)
           (ProtocolError ''prepared stage row count differs from its frame version'') (Inr (Some rows))))"

record PreparedStageBatchRequest =
  bq_batch_id :: string
  bq_correlation_ids :: "string list"
  bq_masked_input :: u32array
  bq_wire_bits :: int

definition MAX_VALUES :: nat where "MAX_VALUES = 4000000"
definition MAX_ROWS :: nat where "MAX_ROWS = 4096"

definition pack_encoded ::
  "packer \<Rightarrow> string \<Rightarrow> string list \<Rightarrow> bytes \<Rightarrow> nat \<Rightarrow> nat \<Rightarrow> int \<Rightarrow> int option \<Rightarrow> bytes res" where
  "pack_encoded packb batch_id correlation_ids data rows columns wire_bits input_bits =
     raise_if (rows < 1 \<or> columns < 1 \<or> wire_bits \<notin> {16, 24, 32}
         \<or> (case input_bits of None \<Rightarrow> False | Some b \<Rightarrow> \<not> (1 \<le> b \<and> b \<le> wire_bits)))
       (ProtocolError ''invalid prepared packed-input layout'')
    (let bits = nat (case input_bits of None \<Rightarrow> wire_bits | Some b \<Rightarrow> b) in
     raise_if (length data \<noteq> (rows * columns * bits + 7) div 8
         \<or> rows * columns * bits mod 8 \<noteq> 0 \<and> drop_bit (rows * columns * bits mod 8) (last data) \<noteq> 0)
       (ProtocolError ''invalid prepared encoded payload'')
    (raise_if (length correlation_ids \<noteq> rows \<or> \<not> distinct correlation_ids) (ProtocolError ''prepared stage batch tickets must be unique per row'')
    (bindE (packed_stage_id batch_id ''prepared stage batch ID'') (\<lambda>batch.
     bindE (mapE (\<lambda>item. packed_stage_id item ''prepared stage ticket'') correlation_ids) (\<lambda>tickets.
     case input_bits of
       None \<Rightarrow> Inr ((if rows = 1 then SINGLE_REQUEST_MAGIC else BATCH_REQUEST_MAGIC) @ be_bytes 4 rows
                 @ packb (MArr [MBin batch, MBin (concat tickets), MInt (int columns), MInt wire_bits, MBin data]))
     | Some b \<Rightarrow> raise_if (rows > MAX_ROWS \<or> rows * columns > MAX_VALUES) (ProtocolError ''invalid prepared packed-input layout'')
         (Inr (PACKED_REQUEST_MAGIC @ be_bytes 4 rows
            @ packb (MArr [MBin batch, MBin (concat tickets), MInt (int columns), MInt wire_bits, MInt b, MBin data]))))))))"

definition batch_request_pack :: "packer \<Rightarrow> PreparedStageBatchRequest \<Rightarrow> bytes res" where
  "batch_request_pack packb q =
     (let shape = nd_shape (bq_masked_input q) in
      raise_if (length shape \<noteq> 2 \<or> shape ! 0 < 1 \<or> shape ! 1 = 0) (ProtocolError ''prepared stage batch must be a non-empty matrix'')
     (bindE (pack_residues (bq_masked_input q) (bq_wire_bits q)) (\<lambda>data.
        pack_encoded packb (bq_batch_id q) (bq_correlation_ids q) data (shape ! 0) (shape ! 1) (bq_wire_bits q) None)))"

text \<open>\<^verbatim>\<open>unpack\<close> with \<^verbatim>\<open>expected_input_bits=None\<close>, that is, in a session that admitted the raw input encoding.\<close>

definition batch_request_unpack :: "unpacker \<Rightarrow> bytes \<Rightarrow> nat option \<Rightarrow> int option \<Rightarrow> PreparedStageBatchRequest res" where
  "batch_request_unpack unpackb payload max_rows max_tensor_elements =
     bindE (prepared_stage_batch_rows payload) (\<lambda>r. case r of
       None \<Rightarrow> Inl (ProtocolError ''invalid prepared stage batch magic'')
     | Some rows \<Rightarrow>
       raise_if (case max_rows of None \<Rightarrow> False | Some n \<Rightarrow> rows > n) (ProtocolError ''prepared stage batch row count exceeds model context'')
      (case unpackb (drop (8 + 4) payload) of
         None \<Rightarrow> Inl (ProtocolError ''invalid prepared stage batch request'')
       | Some v \<Rightarrow>
         raise_if (starts_with payload PACKED_REQUEST_MAGIC) (ProtocolError ''prepared packed-input encoding differs from admitted session'')
        (case v of MArr [b, t, c, w, d] \<Rightarrow>
          (case b of MBin batch \<Rightarrow>
           raise_if (length batch \<noteq> 16) (ProtocolError ''prepared stage batch ID must contain 128 random bits'')
          (case t of MBin tickets \<Rightarrow>
           raise_if (length tickets \<noteq> rows * 16) (ProtocolError ''prepared stage batch ticket count mismatch'')
          (case (c, w) of (MInt columns, MInt wire_bits) \<Rightarrow>
           raise_if (columns \<le> 0) (ProtocolError ''prepared stage batch width must be positive'')
          (raise_if (case max_tensor_elements of None \<Rightarrow> False | Some n \<Rightarrow> int rows * columns > n)
             (ProtocolError ''prepared stage batch tensor allocation is too large'')
          (raise_if (wire_bits \<notin> {16, 24, 32}) (ProtocolError ''invalid prepared packed-input layout'')
          (case d of MBin data \<Rightarrow>
           raise_if (int (length data) \<noteq> int rows * columns * (wire_bits div 8)) (ProtocolError ''prepared stage batch payload length mismatch'')
          (let correlation_ids = map hex_of (chunks 16 rows tickets) in
           raise_if (\<not> distinct correlation_ids) (ProtocolError ''prepared stage batch tickets must be unique per row'')
          (bindE (unpack_residues data [int rows, columns] wire_bits) (\<lambda>masked_input.
             Inr \<lparr>bq_batch_id = hex_of batch, bq_correlation_ids = correlation_ids, bq_masked_input = masked_input, bq_wire_bits = wire_bits\<rparr>)))
          | _ \<Rightarrow> Inl (ProtocolError ''prepared stage batch payload length mismatch''))))
          | _ \<Rightarrow> Inl (ProtocolError ''invalid prepared stage integer dimensions''))
          | _ \<Rightarrow> Inl (ProtocolError ''prepared stage batch ticket count mismatch''))
          | _ \<Rightarrow> Inl (ProtocolError ''prepared stage batch ID must contain 128 random bits''))
        | _ \<Rightarrow> Inl (ProtocolError ''invalid prepared stage batch request schema''))))"

record PreparedStageBatchResponse =
  bp_batch_id :: string
  bp_masked_output :: u32array
  bp_wire_bits :: int
  bp_server_ns :: int

definition batch_response_pack :: "packer \<Rightarrow> PreparedStageBatchResponse \<Rightarrow> bytes res" where
  "batch_response_pack packb p =
     (let shape = nd_shape (bp_masked_output p) in
      raise_if (length shape \<noteq> 2 \<or> shape ! 0 < 1 \<or> shape ! 1 = 0) (ProtocolError ''prepared stage batch result must be a non-empty matrix'')
     (bindE (packed_stage_id (bp_batch_id p) ''prepared stage batch ID'') (\<lambda>batch.
      bindE (pack_residues (bp_masked_output p) (bp_wire_bits p)) (\<lambda>data.
        Inr ((if shape ! 0 = 1 then SINGLE_RESPONSE_MAGIC else BATCH_RESPONSE_MAGIC) @ be_bytes 4 (shape ! 0)
          @ packb (MArr [MBin batch, MInt (int (shape ! 1)), MInt (bp_wire_bits p), MInt (bp_server_ns p), MBin data]))))))"

text \<open>
  \<^verbatim>\<open>int()\<close> and \<^verbatim>\<open>str()\<close> of a decoded value: identity on integers and texts, 0 or 1 for a Boolean, an error for nil and containers. The parameters
  \<open>other\<close> stand for the remaining cases: numbers written as text or bytes, floats, and the printed form of other values.
\<close>

fun py_int :: "(mval \<Rightarrow> int res) \<Rightarrow> mval \<Rightarrow> int res" where
  "py_int other (MInt i) = Inr i"
| "py_int other (MBool b) = Inr (if b then 1 else 0)"
| "py_int other MNil = Inl (TypeError ''int() argument must be a string, a bytes-like object or a real number'')"
| "py_int other (MArr vs) = Inl (TypeError ''int() argument must be a string, a bytes-like object or a real number'')"
| "py_int other (MMap kvs) = Inl (TypeError ''int() argument must be a string, a bytes-like object or a real number'')"
| "py_int other v = other v"

fun py_str :: "(mval \<Rightarrow> string) \<Rightarrow> mval \<Rightarrow> string" where
  "py_str other (MStr s) = s"
| "py_str other v = other v"

definition batch_response_unpack ::
  "(mval \<Rightarrow> int res) \<Rightarrow> unpacker \<Rightarrow> bytes \<Rightarrow> nat option \<Rightarrow> int option \<Rightarrow> PreparedStageBatchResponse res" where
  "batch_response_unpack other unpackb payload max_rows max_tensor_elements =
     (let single = starts_with payload SINGLE_RESPONSE_MAGIC in
      raise_if (\<not> single \<and> \<not> starts_with payload BATCH_RESPONSE_MAGIC) (ProtocolError ''invalid prepared stage batch result magic'')
     (raise_if (length payload < 8 + 4) (ProtocolError ''invalid prepared stage batch result header'')
     (let rows = be_nat (take 4 (drop 8 payload)) in
      raise_if (single \<and> rows \<noteq> 1 \<or> \<not> single \<and> rows \<le> 1) (ProtocolError ''prepared stage result row count differs from its frame version'')
     (raise_if (case max_rows of None \<Rightarrow> False | Some n \<Rightarrow> rows > n) (ProtocolError ''prepared stage batch result row count exceeds model context'')
     (case unpackb (drop (8 + 4) payload) of
        None \<Rightarrow> Inl (ProtocolError ''invalid prepared stage batch response'')
      | Some (MArr [b, c, w, ns, d]) \<Rightarrow>
        (case b of MBin batch \<Rightarrow>
         raise_if (length batch \<noteq> 16) (ProtocolError ''prepared stage batch ID must contain 128 random bits'')
        (bindE (py_int other c) (\<lambda>columns. bindE (py_int other w) (\<lambda>wire_bits.
         raise_if (columns \<le> 0) (ProtocolError ''prepared stage batch result width must be positive'')
        (raise_if (case max_tensor_elements of None \<Rightarrow> False | Some n \<Rightarrow> int rows * columns > n)
           (ProtocolError ''prepared stage batch result allocation is too large'')
        (case d of MBin data \<Rightarrow>
         raise_if (int (length data) \<noteq> int rows * columns * (wire_bits div 8)) (ProtocolError ''prepared stage batch result payload length mismatch'')
        (bindE (unpack_residues data [int rows, columns] wire_bits) (\<lambda>masked_output. bindE (py_int other ns) (\<lambda>server_ns.
           Inr \<lparr>bp_batch_id = hex_of batch, bp_masked_output = masked_output, bp_wire_bits = wire_bits, bp_server_ns = server_ns\<rparr>)))
        | _ \<Rightarrow> Inl (ProtocolError ''prepared stage batch result payload length mismatch''))))))
        | _ \<Rightarrow> Inl (ProtocolError ''prepared stage batch ID must contain 128 random bits''))
      | Some _ \<Rightarrow> Inl (ProtocolError ''invalid prepared stage batch response schema''))))))"

section \<open>Masked stage messages\<close>

text \<open>The public constant that replaces the activation scales on the wire: \<^verbatim>\<open>np.ones(rows, dtype="<f4").tobytes()\<close>.\<close>

definition unit_scales :: "nat \<Rightarrow> bytes" where
  "unit_scales rows = concat (replicate rows [0, 0, 0x80, 0x3f])"

definition REQUEST_FIELDS :: "string list" where
  "REQUEST_FIELDS = [''v'', ''model'', ''stage_id'', ''correlation_id'', ''ring'', ''modulus'', ''wire_bits'', ''body_fingerprint'', ''weight_digest'',
     ''weight_bits'', ''activation_bits'', ''session_id'', ''out_features'', ''signed_output_bound'', ''shape'', ''scales'', ''data'']"

definition RESPONSE_FIELDS :: "string list" where
  "RESPONSE_FIELDS = [''v'', ''stage_id'', ''correlation_id'', ''ring'', ''modulus'', ''wire_bits'', ''server_ns'', ''shape'', ''data'']"

abbreviation key_map :: "string list \<Rightarrow> mval list \<Rightarrow> mval" where
  "key_map names vs \<equiv> MMap (zip (map MStr names) vs)"

definition array_rows :: "nat list \<Rightarrow> nat" where
  "array_rows shape = (if length shape = 1 then 1 else hd shape)"

definition shape_mval :: "nat list \<Rightarrow> mval" where
  "shape_mval shape = MArr (map (\<lambda>d. MInt (int d)) shape)"

text \<open>\<open>scales_size\<close> is the number of activation scales of the request, which the frame checks and does not carry.\<close>

definition stage_request_pack :: "packer \<Rightarrow> nat \<Rightarrow> MaskedStageRequest \<Rightarrow> bytes res" where
  "stage_request_pack packb scales_size q =
     (let value = rq_masked_input q; rows = array_rows (nd_shape value) in
      raise_if (length (nd_shape value) \<notin> {1, 2} \<or> nd_size value = 0) (ProtocolError ''stage input must be a non-empty vector or matrix'')
     (raise_if (scales_size \<notin> {1, rows}) (ProtocolError ''activation scale count does not match stage rows'')
     (bindE (ring_from (rq_modulus q) (rq_wire_bits q) (rq_ring q)) (\<lambda>ring.
      bindE (pack_residues value (rq_wire_bits q)) (\<lambda>data.
      Inr (packb (key_map REQUEST_FIELDS [MInt 3, MStr (rq_model q), MStr (rq_stage_id q), MStr (rq_correlation_id q), MStr ring,
        MInt (rq_modulus q), MInt (rq_wire_bits q), MStr (rq_body_fingerprint q), MStr (rq_weight_digest q), MInt (rq_weight_bits q),
        MInt (rq_activation_bits q), MStr (rq_session_id q), MInt (rq_out_features q), MInt (rq_signed_output_bound q),
        shape_mval (nd_shape value), MBin (unit_scales rows), MBin data])))))))"

text \<open>\<^verbatim>\<open>tuple(int(item) for item in v)\<close>: the items of a list, the characters of a text, the bytes of a byte string, the keys of a map.\<close>

fun iter_items :: "mval \<Rightarrow> mval list res" where
  "iter_items (MArr vs) = Inr vs"
| "iter_items (MStr s) = Inr (map (\<lambda>c. MStr [c]) s)"
| "iter_items (MBin bs) = Inr (map (\<lambda>b. MInt (uint b)) bs)"
| "iter_items (MMap kvs) = Inr (rev (remdups (rev (map fst kvs))))"
| "iter_items v = Inl (TypeError ''object is not iterable'')"

definition stage_shape :: "(mval \<Rightarrow> int res) \<Rightarrow> mval \<Rightarrow> string \<Rightarrow> int list res" where
  "stage_shape other v msg =
     bindE (iter_items v) (\<lambda>items. bindE (mapE (py_int other) items) (\<lambda>shape.
     raise_if (length shape \<notin> {1, 2} \<or> list_ex (\<lambda>d. d \<le> 0) shape) (ProtocolError msg) (Inr shape)))"

definition frombuffer_f4 :: "bytes \<Rightarrow> nat res" where
  "frombuffer_f4 bs = raise_if (length bs mod 4 \<noteq> 0) (ValueError ''buffer size must be a multiple of element size'') (Inr (length bs div 4))"

definition stage_request_unpack ::
  "(mval \<Rightarrow> int res) \<Rightarrow> (mval \<Rightarrow> string) \<Rightarrow> unpacker \<Rightarrow> bytes \<Rightarrow> int option \<Rightarrow> int option \<Rightarrow> MaskedStageRequest res" where
  "stage_request_unpack other_int other_str unpackb payload max_rows max_tensor_elements =
     (case unpackb payload of
        None \<Rightarrow> Inl (ProtocolError ''invalid masked stage request'')
      | Some (MMap kvs) \<Rightarrow>
        (let f = field kvs; to_int = \<lambda>k. py_int other_int (f k); to_str = \<lambda>k. py_str other_str (f k) in
         raise_if (\<not> fields_are kvs REQUEST_FIELDS) (ProtocolError ''invalid masked stage request schema'')
        (bindE (to_int ''v'') (\<lambda>v.
         raise_if (v \<noteq> 3) (ProtocolError ''unsupported masked stage protocol'')
        (bindE (stage_shape other_int (f ''shape'') ''invalid masked stage input shape'') (\<lambda>shape.
         let rows = (if length shape = 1 then 1 else hd shape) in
         raise_if (case max_rows of None \<Rightarrow> False | Some n \<Rightarrow> rows > n) (ProtocolError ''masked stage row count exceeds model context'')
        (raise_if (case max_tensor_elements of None \<Rightarrow> False | Some n \<Rightarrow> prod_list shape > n) (ProtocolError ''masked stage tensor allocation is too large'')
        (bindE (to_int ''wire_bits'') (\<lambda>wire_bits.
         case f ''data'' of MBin data \<Rightarrow>
         raise_if (int (length data) \<noteq> prod_list shape * (wire_bits div 8)) (ProtocolError ''masked stage input payload length mismatch'')
        (case f ''scales'' of MBin scales_payload \<Rightarrow>
         bindE (frombuffer_f4 scales_payload) (\<lambda>scales_size.
         raise_if (int scales_size \<notin> {1, rows}) (ProtocolError ''activation scale count does not match stage rows'')
        (bindE (to_int ''modulus'') (\<lambda>modulus.
         bindE (ring_from modulus wire_bits (Some (to_str ''ring''))) (\<lambda>ring.
         bindE (unpack_residues data shape wire_bits) (\<lambda>masked_input.
         bindE (to_int ''weight_bits'') (\<lambda>weight_bits.
         bindE (to_int ''activation_bits'') (\<lambda>activation_bits.
         bindE (to_int ''out_features'') (\<lambda>out_features.
         bindE (to_int ''signed_output_bound'') (\<lambda>signed_output_bound.
         Inr \<lparr>rq_model = to_str ''model'', rq_stage_id = to_str ''stage_id'', rq_correlation_id = to_str ''correlation_id'', rq_masked_input = masked_input,
              rq_modulus = modulus, rq_wire_bits = wire_bits, rq_ring = Some ring, rq_body_fingerprint = to_str ''body_fingerprint'',
              rq_weight_digest = to_str ''weight_digest'', rq_weight_bits = weight_bits, rq_activation_bits = activation_bits,
              rq_session_id = to_str ''session_id'', rq_out_features = out_features, rq_signed_output_bound = signed_output_bound\<rparr>)))))))))
         | _ \<Rightarrow> Inl (ProtocolError ''invalid activation scales''))
         | _ \<Rightarrow> Inl (ProtocolError ''masked stage input payload length mismatch'')))))))))
      | Some _ \<Rightarrow> Inl (ProtocolError ''invalid masked stage request schema''))"

definition stage_response_pack :: "packer \<Rightarrow> MaskedStageResponse \<Rightarrow> bytes res" where
  "stage_response_pack packb p =
     (let value = mr_masked_output p in
      raise_if (length (nd_shape value) \<notin> {1, 2} \<or> nd_size value = 0) (ProtocolError ''stage output must be a non-empty vector or matrix'')
     (bindE (ring_from (mr_modulus p) (mr_wire_bits p) (mr_ring p)) (\<lambda>ring.
      bindE (pack_residues value (mr_wire_bits p)) (\<lambda>data.
      Inr (packb (key_map RESPONSE_FIELDS [MInt 3, MStr (mr_stage_id p), MStr (mr_correlation_id p), MStr ring, MInt (mr_modulus p),
        MInt (mr_wire_bits p), MInt (mr_server_ns p), shape_mval (nd_shape value), MBin data]))))))"

text \<open>The payload of a response is handed on unchecked: a payload that is not a byte string has no length, or one of other items, and \<open>odd_payload\<close>
  stands for what the codec then raises.\<close>

definition stage_response_unpack ::
  "(mval \<Rightarrow> int res) \<Rightarrow> (mval \<Rightarrow> string) \<Rightarrow> (mval \<Rightarrow> py_error) \<Rightarrow> unpacker \<Rightarrow> bytes \<Rightarrow> MaskedStageResponse res" where
  "stage_response_unpack other_int other_str odd_payload unpackb payload =
     (case unpackb payload of
        None \<Rightarrow> Inl (ProtocolError ''invalid masked stage response'')
      | Some (MMap kvs) \<Rightarrow>
        (let f = field kvs; to_int = \<lambda>k. py_int other_int (f k); to_str = \<lambda>k. py_str other_str (f k) in
         raise_if (\<not> fields_are kvs RESPONSE_FIELDS) (ProtocolError ''invalid masked stage response schema'')
        (bindE (to_int ''v'') (\<lambda>v.
         raise_if (v \<noteq> 3) (ProtocolError ''unsupported masked stage protocol'')
        (bindE (stage_shape other_int (f ''shape'') ''invalid stage output shape'') (\<lambda>shape.
         bindE (to_int ''wire_bits'') (\<lambda>wire_bits.
         bindE (to_int ''modulus'') (\<lambda>modulus.
         bindE (ring_from modulus wire_bits (Some (to_str ''ring''))) (\<lambda>ring.
         bindE (case f ''data'' of MBin data \<Rightarrow> unpack_residues data shape wire_bits | v \<Rightarrow> Inl (odd_payload v)) (\<lambda>masked_output.
         bindE (to_int ''server_ns'') (\<lambda>server_ns.
         Inr \<lparr>mr_correlation_id = to_str ''correlation_id'', mr_masked_output = masked_output, mr_modulus = modulus, mr_wire_bits = wire_bits,
              mr_server_ns = server_ns, mr_stage_id = to_str ''stage_id'', mr_ring = Some ring\<rparr>))))))))))
      | Some _ \<Rightarrow> Inl (ProtocolError ''invalid masked stage response schema''))"

end
