(* ===== verification/Masked_Engine.thy ===== *)
theory Masked_Engine
  imports Native_Matrix Stage_Protocol
begin

text \<open>
  The masked execution of linear stages: the stage runtime and the handlers of \<^verbatim>\<open>runtime/transformer_engine.py\<close> that execute, prepare and
  validate stages, the client's masking from \<^verbatim>\<open>runtime/native.py\<close> and \<^verbatim>\<open>runtime/transformer_client.py\<close> with the Rust kernels it always calls
  (\<^verbatim>\<open>pllm-core/src/codec.rs\<close>), and the step of \<^verbatim>\<open>runtime/server.py\<close> that adds corrections to results. SHA-256, SHAKE-256 and
  MessagePack are parameters, measured times are arguments. Floating-point scales, Metal and paged matrices, and the row-residue encoding are left out.
\<close>

section \<open>Stage runtimes\<close>

record StageSpec =
  ss_id :: string
  ss_in_features :: int
  ss_out_features :: int
  ss_weight_bits :: int
  ss_activation_bits :: int

record StageRuntime =
  rt_spec :: StageSpec
  rt_weight :: CompiledMatrix
  rt_modulus :: int
  rt_wire_bits :: int
  rt_calls :: int
  rt_rows :: int
  rt_server_ns :: int
  rt_weight_digest :: string
  rt_signed_output_bound :: int

definition split_every :: "nat \<Rightarrow> 'a list \<Rightarrow> 'a list list" where
  "split_every k xs = chunks k ((length xs + k - 1) div k) xs"

definition weight_chunks :: "8 word ndarray \<Rightarrow> 8 word list list list" where
  "weight_chunks values = split_every (max 1 (2 ^ 20 div nd_shape values ! 1)) (mat_rows values)"

definition row_weight_l1 :: "8 word list \<Rightarrow> int" where
  "row_weight_l1 row = sum_list (map (\<lambda>b. \<bar>sint b\<bar>) row)"

definition mk_StageRuntime :: "(bytes \<Rightarrow> digest) \<Rightarrow> StageSpec \<Rightarrow> CompiledMatrix \<Rightarrow> int \<Rightarrow> int \<Rightarrow> StageRuntime res" where
  "mk_StageRuntime sha256 spec weight modulus wire_bits =
     (let cs = weight_chunks (cm_reference weight);
          row_l1 = fold (\<lambda>chunk m. max m (Max (set (map row_weight_l1 chunk)))) cs 0
      in bindE (signed_qmax (ss_activation_bits spec)) (\<lambda>qmax.
           Inr \<lparr>rt_spec = spec, rt_weight = weight, rt_modulus = modulus, rt_wire_bits = wire_bits, rt_calls = 0, rt_rows = 0, rt_server_ns = 0,
                rt_weight_digest = hex_of (digest_bytes (sha256 (concat (map concat cs)))), rt_signed_output_bound = qmax * row_l1\<rparr>))"

record LoadedTransformer =
  lt_body_fingerprint :: "string option"
  lt_stages :: "(string \<times> StageRuntime) list"

record TransformerEngine =
  te_models :: "(string \<times> LoadedTransformer) list"

definition model_of :: "TransformerEngine \<Rightarrow> string \<Rightarrow> LoadedTransformer res" where
  "model_of e model_id = (case map_of (te_models e) model_id of
     None \<Rightarrow> Inl (TransformerEngineError ''unknown model'') | Some m \<Rightarrow> Inr m)"

definition runtime_of :: "TransformerEngine \<Rightarrow> string \<Rightarrow> string \<Rightarrow> StageRuntime res" where
  "runtime_of e model_id stage_id = bindE (model_of e model_id) (\<lambda>m. case map_of (lt_stages m) stage_id of
     None \<Rightarrow> Inl (TransformerEngineError ''unknown stage'') | Some rt \<Rightarrow> Inr rt)"

definition runtime_update :: "string \<Rightarrow> string \<Rightarrow> (StageRuntime \<Rightarrow> StageRuntime) \<Rightarrow> TransformerEngine \<Rightarrow> TransformerEngine" where
  "runtime_update model_id stage_id f e =
     e\<lparr>te_models := map (\<lambda>(k, m). (k, if k = model_id
        then m\<lparr>lt_stages := map (\<lambda>(j, rt). (j, if j = stage_id then f rt else rt)) (lt_stages m)\<rparr> else m)) (te_models e)\<rparr>"

definition count_call :: "int \<Rightarrow> int \<Rightarrow> int \<Rightarrow> StageRuntime \<Rightarrow> StageRuntime" where
  "count_call calls rows elapsed rt =
     rt\<lparr>rt_calls := rt_calls rt + calls, rt_rows := rt_rows rt + rows, rt_server_ns := rt_server_ns rt + elapsed\<rparr>"

section \<open>Execution\<close>

definition ring_or_prime :: "string option \<Rightarrow> string" where
  "ring_or_prime ring = (case ring of None \<Rightarrow> ''prime'' | Some r \<Rightarrow> if r = '''' then ''prime'' else r)"

definition request_profile :: "MaskedStageRequest \<Rightarrow> SeededRingProfile" where
  "request_profile q = \<lparr>rp_signed_output_bound = rq_signed_output_bound q, rp_ring = ring_or_prime (rq_ring q), rp_modulus = rq_modulus q, rp_wire_bits = rq_wire_bits q\<rparr>"

definition check_request :: "LoadedTransformer \<Rightarrow> StageRuntime \<Rightarrow> string \<Rightarrow> string \<Rightarrow> MaskedStageRequest \<Rightarrow> unit res" where
  "check_request m rt model_id stage_id q =
     (let spec = rt_spec rt; shape = nd_shape (rq_masked_input q) in
      raise_if (rq_model q \<noteq> model_id \<or> rq_stage_id q \<noteq> stage_id) (TransformerEngineError ''masked stage request route mismatch'')
     (raise_if (length shape \<noteq> 2 \<or> int (shape ! 1) \<noteq> ss_in_features spec) (TransformerEngineError ''masked stage input width mismatch'')
     (raise_if (rq_body_fingerprint q \<noteq> '''' \<and> Some (rq_body_fingerprint q) \<noteq> lt_body_fingerprint m)
        (TransformerEngineError ''masked stage model fingerprint mismatch'')
     (raise_if (rq_weight_digest q \<noteq> '''' \<and> rq_weight_digest q \<noteq> rt_weight_digest rt) (TransformerEngineError ''masked stage weight commitment mismatch'')
     (raise_if (rq_weight_bits q \<noteq> 0 \<and> rq_weight_bits q \<noteq> ss_weight_bits spec) (TransformerEngineError ''masked stage weight quantization mismatch'')
     (raise_if (rq_activation_bits q \<noteq> 0 \<and> rq_activation_bits q \<noteq> ss_activation_bits spec)
        (TransformerEngineError ''masked stage activation quantization mismatch'')
     (if rq_session_id q = '''' then Inr ()
      else raise_if (rq_out_features q \<noteq> ss_out_features spec) (TransformerEngineError ''masked stage seeded profile mismatch'')
        (bindE (seeded_ring_profile (rt_signed_output_bound rt)) (\<lambda>profile.
         raise_if (request_profile q \<noteq> profile) (TransformerEngineError ''masked stage seeded profile mismatch'') (Inr ()))))))))))"

definition concat_rows :: "'a ndarray list \<Rightarrow> 'a ndarray" where
  "concat_rows as = \<lparr>nd_shape = [sum_list (map (\<lambda>a. nd_shape a ! 0) as), nd_shape (hd as) ! 1], nd_data = concat (map nd_data as)\<rparr>"

fun split_rows :: "nat list \<Rightarrow> 'a ndarray \<Rightarrow> 'a ndarray list" where
  "split_rows [] a = []"
| "split_rows (n # ns) a = (let c = nd_shape a ! 1 in
     \<lparr>nd_shape = [n, c], nd_data = take (n * c) (nd_data a)\<rparr>
       # split_rows ns \<lparr>nd_shape = [nd_shape a ! 0 - n, c], nd_data = drop (n * c) (nd_data a)\<rparr>)"

definition stage_product :: "StageRuntime \<Rightarrow> string \<Rightarrow> int \<Rightarrow> u32array \<Rightarrow> u32array res" where
  "stage_product rt ring modulus x =
     (if ring = ''u32'' then wrap32 (rt_weight rt) (nd_map uint x) else modular (rt_weight rt) (nd_map uint x) modulus)"

text \<open>The handler after the payloads are decoded. \<open>elapsed\<close> is the measured time and \<open>share\<close> the part of it attributed to a request.\<close>

definition execute_requests ::
  "(int \<Rightarrow> nat \<Rightarrow> nat \<Rightarrow> int) \<Rightarrow> int \<Rightarrow> string \<Rightarrow> string \<Rightarrow> MaskedStageRequest list \<Rightarrow> TransformerEngine \<Rightarrow> TransformerEngine \<times> MaskedStageResponse list res" where
  "execute_requests share elapsed model_id stage_id requests e =
     onS (model_of e model_id) e (\<lambda>m. onS (runtime_of e model_id stage_id) e (\<lambda>rt.
     case map (\<lambda>q. (ring_or_prime (rq_ring q), rq_modulus q, rq_wire_bits q)) requests of
       [] \<Rightarrow> (e, Inr [])
     | (ring, modulus, wire_bits) # profiles \<Rightarrow>
         raiseS (list_ex (\<lambda>p. p \<noteq> (ring, modulus, wire_bits)) profiles) (TransformerEngineError ''masked stage arithmetic profile mismatch'') e
        (let prime_profile = (ring = ''prime'' \<and> modulus = rt_modulus rt \<and> wire_bits = rt_wire_bits rt);
             wrapping_profile = (ring \<in> {''u16'', ''u24'', ''u32''} \<and> modulus = 2 ^ nat wire_bits) in
         raiseS (\<not> prime_profile \<and> \<not> wrapping_profile) (TransformerEngineError ''masked stage arithmetic profile mismatch'') e
        (raiseS (wrapping_profile \<and> rt_signed_output_bound rt \<ge> 2 ^ nat (wire_bits - 1))
           (TransformerEngineError ''stage signed output exceeds wrapping ring range'') e
        (onS (mapE (check_request m rt model_id stage_id) requests) e (\<lambda>_.
         let row_counts = map (\<lambda>q. nd_shape (rq_masked_input q) ! 0) requests;
             combined = concat_rows (map rq_masked_input requests) in
         onS (stage_product rt ring (if wrapping_profile then modulus else rt_modulus rt) combined) e (\<lambda>output.
         let e = runtime_update model_id stage_id (count_call (int (length requests)) (int (nd_shape combined ! 0)) elapsed) e in
         (e, Inr (map2 (\<lambda>q chunk. \<lparr>mr_correlation_id = rq_correlation_id q, mr_masked_output = chunk, mr_modulus = modulus, mr_wire_bits = wire_bits,
                mr_server_ns = share elapsed (nd_shape chunk ! 0) (max 1 (nd_shape combined ! 0)), mr_stage_id = stage_id,
                mr_ring = Some (if wrapping_profile then ring else ''prime'')\<rparr>)
              requests (split_rows row_counts output))))))))))"

definition execute_stage ::
  "(mval \<Rightarrow> int res) \<Rightarrow> (mval \<Rightarrow> string) \<Rightarrow> packer \<Rightarrow> unpacker \<Rightarrow> (int \<Rightarrow> nat \<Rightarrow> nat \<Rightarrow> int) \<Rightarrow> int \<Rightarrow> string \<Rightarrow> string \<Rightarrow> bytes list
     \<Rightarrow> TransformerEngine \<Rightarrow> TransformerEngine \<times> bytes list res" where
  "execute_stage other_int other_str packb unpackb share elapsed model_id stage_id payloads e =
     onS (runtime_of e model_id stage_id) e (\<lambda>_.
     onS (mapE (\<lambda>p. stage_request_unpack other_int other_str unpackb p None None) payloads) e (\<lambda>requests.
     bindS (execute_requests share elapsed model_id stage_id requests e) (\<lambda>e results.
       (e, mapE (stage_response_pack packb) results))))"

section \<open>Preparation\<close>

definition mask_domain :: "packer \<Rightarrow> PreparationRequest \<Rightarrow> string \<Rightarrow> bytes" where
  "mask_domain packb r purpose = packb (MArr [MStr ''pllm-prepared-correction-v2'', MStr purpose, MStr (pb_session_id r), MStr (pb_model r),
     MStr (pb_body_fingerprint r), MStr (pb_attempt_id r), MStr (pb_stage_id r), MStr (pb_weight_digest r), MInt (pb_rows r), MInt (pb_in_features r),
     MInt (pb_out_features r), MInt (pb_weight_bits r), MInt (pb_activation_bits r), MStr (pb_ring r), MInt (pb_modulus r), MInt (pb_wire_bits r),
     MInt (pb_signed_output_bound r)])"

text \<open>\<open>shake256 m n\<close> is the digest of \<open>n\<close> bytes.\<close>

definition expand_preparation_mask :: "packer \<Rightarrow> (bytes \<Rightarrow> nat \<Rightarrow> bytes) \<Rightarrow> PreparationRequest \<Rightarrow> string \<Rightarrow> u32array res" where
  "expand_preparation_mask packb shake256 r purpose =
     bindE (PreparationRequest_validate r None None) (\<lambda>_.
     raise_if (purpose \<notin> {''input-r'', ''output-s''}) (ProtocolError ''unsupported preparation mask domain'')
       (let width = (if purpose = ''input-r'' then pb_in_features r else pb_out_features r);
            payload = shake256 (mask_domain packb r purpose @ pr_seed r) (nat (pb_rows r * width * (pb_wire_bits r div 8)))
        in unpack_residues payload [pb_rows r, width] (pb_wire_bits r)))"

definition expand_output_mask :: "packer \<Rightarrow> (bytes \<Rightarrow> nat \<Rightarrow> bytes) \<Rightarrow> PreparationRequest \<Rightarrow> u32array res" where
  "expand_output_mask packb shake256 r = expand_preparation_mask packb shake256 r ''output-s''"

definition validate_seeded_preparation :: "TransformerEngine \<Rightarrow> PreparationRequest \<Rightarrow> unit res" where
  "validate_seeded_preparation e r =
     bindE (model_of e (pb_model r)) (\<lambda>m. bindE (runtime_of e (pb_model r) (pb_stage_id r)) (\<lambda>rt. let spec = rt_spec rt in
     raise_if (Some (pb_body_fingerprint r) \<noteq> lt_body_fingerprint m) (TransformerEngineError ''preparation model body fingerprint mismatch'')
    (raise_if (pb_weight_digest r \<noteq> rt_weight_digest rt) (TransformerEngineError ''preparation stage weight commitment mismatch'')
    (raise_if (pb_in_features r \<noteq> ss_in_features spec) (TransformerEngineError ''preparation stage input width mismatch'')
    (raise_if (pb_out_features r \<noteq> ss_out_features spec) (TransformerEngineError ''preparation stage output width mismatch'')
    (raise_if (pb_weight_bits r \<noteq> ss_weight_bits spec \<or> pb_activation_bits r \<noteq> ss_activation_bits spec)
       (TransformerEngineError ''preparation stage quantization mismatch'')
    (bindE (seeded_ring_profile (rt_signed_output_bound rt)) (\<lambda>profile.
     raise_if (prepared_profile r \<noteq> profile) (TransformerEngineError ''preparation stage ring profile mismatch'') (Inr ()))))))))) "

definition prepare_seeded_stage ::
  "packer \<Rightarrow> (bytes \<Rightarrow> nat \<Rightarrow> bytes) \<Rightarrow> int \<Rightarrow> PreparationRequest \<Rightarrow> TransformerEngine \<Rightarrow> TransformerEngine \<times> CorrectionPush res" where
  "prepare_seeded_stage packb shake256 elapsed r e =
     onS (validate_seeded_preparation e r) e (\<lambda>_.
     onS (runtime_of e (pb_model r) (pb_stage_id r)) e (\<lambda>rt.
     onS (expand_preparation_mask packb shake256 r ''input-r'') e (\<lambda>input_mask.
     onS (expand_output_mask packb shake256 r) e (\<lambda>output_mask.
     onS (stage_product rt (pb_ring r) (pb_modulus r) input_mask) e (\<lambda>transformed.
     let difference = nd_map2 (-) transformed output_mask;
         correction = (if pb_wire_bits r < 32 then nd_map (\<lambda>w. w AND word_of_int (pb_modulus r - 1)) difference else difference) in
     (runtime_update (pb_model r) (pb_stage_id r) (count_call 1 (pb_rows r) elapsed) e,
      Inr \<lparr>pb_attempt_id = pb_attempt_id r, pb_session_id = pb_session_id r, pb_model = pb_model r, pb_body_fingerprint = pb_body_fingerprint r,
           pb_stage_id = pb_stage_id r, pb_weight_digest = pb_weight_digest r, pb_rows = pb_rows r, pb_in_features = pb_in_features r,
           pb_out_features = pb_out_features r, pb_weight_bits = pb_weight_bits r, pb_activation_bits = pb_activation_bits r,
           pb_signed_output_bound = pb_signed_output_bound r, pb_ring = pb_ring r, pb_modulus = pb_modulus r, pb_wire_bits = pb_wire_bits r,
           cp_correction = correction, cp_server_ns = elapsed, cp_output_residue_bits = None\<rparr>))))))"

definition validate_seeded_correction :: "TransformerEngine \<Rightarrow> CorrectionPush \<Rightarrow> unit res" where
  "validate_seeded_correction e c =
     bindE (model_of e (pb_model c)) (\<lambda>m. bindE (runtime_of e (pb_model c) (pb_stage_id c)) (\<lambda>rt. let spec = rt_spec rt in
     raise_if (Some (pb_body_fingerprint c) \<noteq> lt_body_fingerprint m \<or> pb_weight_digest c \<noteq> rt_weight_digest rt
         \<or> pb_in_features c \<noteq> ss_in_features spec \<or> pb_out_features c \<noteq> ss_out_features spec
         \<or> pb_weight_bits c \<noteq> ss_weight_bits spec \<or> pb_activation_bits c \<noteq> ss_activation_bits spec)
       (TransformerEngineError ''correction stage metadata mismatch'')
    (bindE (seeded_ring_profile (rt_signed_output_bound rt)) (\<lambda>profile.
     raise_if (prepared_profile c \<noteq> profile \<or> cp_output_residue_bits c \<noteq> None) (TransformerEngineError ''correction stage metadata mismatch'') (Inr ())))))"

definition validate_seeded_activation :: "TransformerEngine \<Rightarrow> MaskedStageRequest \<Rightarrow> unit res" where
  "validate_seeded_activation e q =
     bindE (model_of e (rq_model q)) (\<lambda>m. bindE (runtime_of e (rq_model q) (rq_stage_id q)) (\<lambda>rt. let spec = rt_spec rt in
     raise_if (Some (rq_body_fingerprint q) \<noteq> lt_body_fingerprint m \<or> rq_weight_digest q \<noteq> rt_weight_digest rt
         \<or> int (last (nd_shape (rq_masked_input q))) \<noteq> ss_in_features spec \<or> rq_out_features q \<noteq> ss_out_features spec
         \<or> rq_weight_bits q \<noteq> ss_weight_bits spec \<or> rq_activation_bits q \<noteq> ss_activation_bits spec)
       (TransformerEngineError ''prepared activation stage metadata mismatch'')
    (bindE (seeded_ring_profile (rt_signed_output_bound rt)) (\<lambda>profile.
     raise_if (request_profile q \<noteq> profile) (TransformerEngineError ''prepared activation stage metadata mismatch'') (Inr ())))))"

text \<open>Local correlations: the mask residues are drawn by NumPy's generator and are an argument, one array per correlation.\<close>

definition create_local_correlation :: "StageRuntime \<Rightarrow> string \<Rightarrow> string \<Rightarrow> u32array \<Rightarrow> StageCorrelation res" where
  "create_local_correlation rt stage_id correlation_id drawn =
     bindE (modular (rt_weight rt) \<lparr>nd_shape = 1 # nd_shape drawn, nd_data = map uint (nd_data drawn)\<rparr> (rt_modulus rt)) (\<lambda>t.
       Inr \<lparr>sc_id = correlation_id, sc_stage_id = stage_id, sc_mask = drawn,
            sc_transformed_mask = \<lparr>nd_shape = tl (nd_shape t), nd_data = nd_data t\<rparr>, sc_modulus = rt_modulus rt, sc_ring = Some ''prime'', sc_consumed = False\<rparr>)"

definition create_local_correlations :: "TransformerEngine \<Rightarrow> string \<Rightarrow> string \<Rightarrow> (string \<times> u32array) list \<Rightarrow> StageCorrelation list res" where
  "create_local_correlations e model_id stage_id draws =
     bindE (runtime_of e model_id stage_id) (\<lambda>rt. mapE (\<lambda>(i, drawn). create_local_correlation rt stage_id i drawn) draws)"

section \<open>The inference server's addition\<close>

definition add_correction :: "int \<Rightarrow> u32array \<Rightarrow> u32array \<Rightarrow> u32array" where
  "add_correction modulus output correction = nd_map2 (\<lambda>y c. word_of_int ((uint y + uint c) mod modulus)) output correction"

definition combine_batch ::
  "string \<Rightarrow> string \<Rightarrow> CorrectionPush \<Rightarrow> CorrectionPush list \<Rightarrow> MaskedStageResponse list \<Rightarrow> PreparedStageBatchResponse res" where
  "combine_batch batch_id stage_id root corrections results = (case results of
     [result] \<Rightarrow>
       (let correction = concat_rows (map cp_correction corrections) in
        raise_if (mr_correlation_id result \<noteq> batch_id \<or> mr_stage_id result \<noteq> stage_id \<or> mr_ring result \<noteq> Some (pb_ring root)
            \<or> mr_modulus result \<noteq> pb_modulus root \<or> mr_wire_bits result \<noteq> pb_wire_bits root \<or> nd_shape (mr_masked_output result) \<noteq> nd_shape correction)
          (ProtocolError ''prepared inference batch result mismatch'')
          (Inr \<lparr>bp_batch_id = batch_id, bp_masked_output = add_correction (mr_modulus result) (mr_masked_output result) correction,
                bp_wire_bits = mr_wire_bits result, bp_server_ns = mr_server_ns result\<rparr>))
   | _ \<Rightarrow> Inl (ProtocolError ''Runtime engine returned the wrong batch result count''))"

definition combine_result :: "string \<Rightarrow> MaskedStageRequest \<times> CorrectionPush \<times> MaskedStageResponse \<Rightarrow> MaskedStageResponse res" where
  "combine_result stage_id t = (case t of (q, correction, result) \<Rightarrow>
     raise_if (mr_correlation_id result \<noteq> rq_correlation_id q \<or> mr_stage_id result \<noteq> stage_id \<or> mr_ring result \<noteq> rq_ring q
         \<or> mr_modulus result \<noteq> rq_modulus q \<or> mr_wire_bits result \<noteq> rq_wire_bits q
         \<or> nd_shape (mr_masked_output result) \<noteq> nd_shape (cp_correction correction))
       (ProtocolError ''prepared inference result mismatch'')
       (Inr (result\<lparr>mr_masked_output := add_correction (mr_modulus result) (mr_masked_output result) (cp_correction correction)\<rparr>)))"

section \<open>The client\<close>

text \<open>The Rust kernels, on the elements of the buffers; the error of a kernel is a \<^verbatim>\<open>ValueError\<close>.\<close>

definition ring_mask :: "int \<Rightarrow> 32 word" where
  "ring_mask bits = drop_bit (nat (32 - bits)) (- 1)"

definition prepared_mask_input :: "8 word list \<Rightarrow> 32 word list \<Rightarrow> int \<Rightarrow> 32 word list res" where
  "prepared_mask_input x r bits =
     raise_if (bits \<notin> {16, 24, 32} \<or> length x > 4000000 \<or> length r \<noteq> length x) (ValueError ''invalid prepared input mask shape or ring'')
    (raise_if (list_ex (\<lambda>w. w > ring_mask bits) r) (ValueError ''prepared input mask is outside its ring'')
       (Inr (map2 (\<lambda>v w. (word_of_int (sint v) - w) AND ring_mask bits) x r)))"

definition prepared_center_output :: "32 word list \<Rightarrow> 32 word list \<Rightarrow> int \<Rightarrow> int list res" where
  "prepared_center_output y s bits =
     raise_if (bits \<notin> {16, 24, 32} \<or> length y > 4000000 \<or> length s \<noteq> length y) (ValueError ''invalid prepared output mask shape or ring'')
    (raise_if (list_ex (\<lambda>w. w > ring_mask bits) (y @ s)) (ValueError ''prepared output residue is outside its ring'')
       (let shift = nat (32 - bits) in Inr (map2 (\<lambda>a b. sint (signed_drop_bit shift (push_bit shift (a + b)))) y s)))"

definition PREPARED_CHUNK :: nat where "PREPARED_CHUNK = 4000000"

definition prepared_mask_transform :: "('a list \<Rightarrow> 32 word list \<Rightarrow> int \<Rightarrow> 'b list res) \<Rightarrow> 'a ndarray \<Rightarrow> u32array \<Rightarrow> int \<Rightarrow> 'b ndarray res" where
  "prepared_mask_transform native value masks bits =
     raise_if (nd_shape value \<noteq> nd_shape masks) (NativeKernelError ''prepared mask operands require matching typed arrays'')
    (bindE (if nd_size value \<le> PREPARED_CHUNK then native (nd_data value) (nd_data masks) bits
            else bindE (mapE (\<lambda>(v, m). native v m bits) (zip (split_every PREPARED_CHUNK (nd_data value)) (split_every PREPARED_CHUNK (nd_data masks))))
                   (\<lambda>parts. Inr (concat parts)))
       (\<lambda>data. Inr \<lparr>nd_shape = nd_shape value, nd_data = data\<rparr>))"

definition mask_prepared_input :: "8 word ndarray \<Rightarrow> u32array \<Rightarrow> int \<Rightarrow> u32array res" where
  "mask_prepared_input value masks bits = prepared_mask_transform prepared_mask_input value masks bits"

definition unmask_prepared_output :: "u32array \<Rightarrow> u32array \<Rightarrow> int \<Rightarrow> i64array res" where
  "unmask_prepared_output value masks bits = prepared_mask_transform prepared_center_output value masks bits"

text \<open>The integer part of \<^verbatim>\<open>RemoteLinear.__call__\<close>: the rows of correlations taken for the rows of a quantized activation, the masked request, and the accumulators.\<close>

definition check_rows :: "string \<Rightarrow> string \<Rightarrow> StageCorrelation list \<Rightarrow> nat \<Rightarrow> (string \<times> int) res" where
  "check_rows stage_id stage_ring rows n =
     raise_if (length rows \<noteq> n) (TransformerClientError ''correlation provider returned the wrong row count'')
    (case rows of [] \<Rightarrow> Inl (LibraryError ''IndexError'' ''list index out of range'')
     | first # _ \<Rightarrow>
       (let ring_of = \<lambda>c. (case sc_ring c of Some r \<Rightarrow> if r = '''' then stage_ring else r | None \<Rightarrow> stage_ring);
            ring = ring_of first; modulus = sc_modulus first in
        raise_if (list_ex (\<lambda>c. sc_stage_id c \<noteq> stage_id \<or> ring_of c \<noteq> ring \<or> sc_modulus c \<noteq> modulus) rows)
          (TransformerClientError ''correlation arithmetic profile mismatch'') (Inr (ring, modulus))))"

definition aggregate_rows :: "string \<Rightarrow> string \<Rightarrow> StageCorrelation list \<Rightarrow> nat \<Rightarrow> nat \<Rightarrow> string \<Rightarrow> int \<Rightarrow> StageCorrelation" where
  "aggregate_rows batch_id stage_id rows in_features out_features ring modulus =
     \<lparr>sc_id = batch_id, sc_stage_id = stage_id,
      sc_mask = \<lparr>nd_shape = [length rows, in_features], nd_data = concat (map (\<lambda>c. nd_data (sc_mask c)) rows)\<rparr>,
      sc_transformed_mask = \<lparr>nd_shape = [length rows, out_features], nd_data = concat (map (\<lambda>c. nd_data (sc_transformed_mask c)) rows)\<rparr>,
      sc_modulus = modulus, sc_ring = Some ring, sc_consumed = False\<rparr>"

definition masked_rows :: "8 word ndarray \<Rightarrow> u32array \<Rightarrow> int \<Rightarrow> u32array" where
  "masked_rows quantized masks modulus = nd_map2 (\<lambda>v m. word_of_int ((sint v + uint m) mod modulus)) quantized masks"

definition remote_linear_request :: "string \<Rightarrow> string \<Rightarrow> StageCorrelation \<Rightarrow> 8 word ndarray \<Rightarrow> int \<Rightarrow> MaskedStageRequest" where
  "remote_linear_request model_id stage_id aggregate quantized wire_bits =
     \<lparr>rq_model = model_id, rq_stage_id = stage_id, rq_correlation_id = sc_id aggregate,
      rq_masked_input = masked_rows quantized (sc_mask aggregate) (sc_modulus aggregate), rq_modulus = sc_modulus aggregate, rq_wire_bits = wire_bits,
      rq_ring = sc_ring aggregate, rq_body_fingerprint = '''', rq_weight_digest = '''', rq_weight_bits = 0, rq_activation_bits = 0, rq_session_id = '''',
      rq_out_features = 0, rq_signed_output_bound = 0\<rparr>"

text \<open>The request of \<^verbatim>\<open>PreparedRemoteLinear.__call__\<close> for a chunk with the raw encoding, whose profile is the stage's.\<close>

definition prepared_request :: "PreparationRequest \<Rightarrow> string \<Rightarrow> u32array \<Rightarrow> MaskedStageRequest" where
  "prepared_request r attempt_id complement =
     \<lparr>rq_model = pb_model r, rq_stage_id = pb_stage_id r, rq_correlation_id = attempt_id, rq_masked_input = complement, rq_modulus = pb_modulus r,
      rq_wire_bits = pb_wire_bits r, rq_ring = Some (pb_ring r), rq_body_fingerprint = pb_body_fingerprint r, rq_weight_digest = pb_weight_digest r,
      rq_weight_bits = pb_weight_bits r, rq_activation_bits = pb_activation_bits r, rq_session_id = pb_session_id r, rq_out_features = pb_out_features r,
      rq_signed_output_bound = pb_signed_output_bound r\<rparr>"

end
