(* ===== verification/Stage_Arith.thy ===== *)
theory Stage_Arith
  imports Masked_Engine
begin

text \<open>
  The arithmetic behind masked stages: masks and centring of the wrapping rings, products row by row, the chunked native kernels, and the stage
  runtime with the output bound that its constructor computes.
\<close>

section \<open>Ring arithmetic\<close>

lemma ring_mask_values: "ring_mask 16 = 0xFFFF" "ring_mask 24 = 0xFFFFFF" "ring_mask 32 = 0xFFFFFFFF"
  by code_simp+

lemma ring_mask_eq: "b \<in> {16, 24, 32} \<Longrightarrow> ring_mask b = mask (nat b)"
  by (auto simp: ring_mask_values mask_eq_exp_minus_1)

lemma uint_and_ring_mask: "b \<in> {16, 24, 32} \<Longrightarrow> uint (v AND ring_mask b) = uint v mod 2 ^ nat b"
  by (simp only: ring_mask_eq take_bit_eq_mask [symmetric] unsigned_take_bit_eq) (simp add: take_bit_eq_mod)

lemma ring_mask_le: "b \<in> {16, 24, 32} \<Longrightarrow> v \<le> ring_mask b \<longleftrightarrow> uint v < 2 ^ nat b"
  using uint_lt2p [of v] by (auto simp: ring_mask_values word_le_def)

lemma uint32_mod_ring: "b \<in> {16, 24, 32} \<Longrightarrow> (x mod 2 ^ 32) mod 2 ^ nat b = x mod (2 ^ nat b :: int)"
  by (rule mod_mod_cancel) (auto simp: le_imp_power_dvd)

lemma masked_input_entry:
  assumes "b \<in> {16, 24, 32}"
  shows "uint ((word_of_int q - r) AND ring_mask b) = (q - uint r) mod 2 ^ nat b"
proof -
  have "uint (word_of_int q - r :: 32 word) = (q - uint r) mod 2 ^ 32"
    by (simp add: uint_word_ariths uint_word_of_int mod_simps)
  then show ?thesis unfolding uint_and_ring_mask [OF assms] using uint32_mod_ring [OF assms, of "q - uint r"] by simp
qed

lemma signed_value:
  assumes "x mod 2 ^ Suc n = v mod 2 ^ Suc n" "- (2 ^ n) \<le> v" "v < 2 ^ n"
  shows "signed_take_bit n x = (v :: int)"
proof -
  have "signed_take_bit n x = signed_take_bit n v"
    using assms(1) by (simp only: take_bit_eq_mod [symmetric] signed_take_bit_eq_iff_take_bit_eq)
  then show ?thesis using assms(2,3) by (simp add: signed_take_bit_int_eq_self)
qed

lemma centered_output_entry:
  assumes b: "b \<in> {16, 24, 32}" and v: "(uint (y :: 32 word) + uint s) mod 2 ^ nat b = v mod 2 ^ nat b" "- (2 ^ nat (b - 1)) \<le> v" "v < 2 ^ nat (b - 1)"
  shows "sint (signed_drop_bit (nat (32 - b)) (push_bit (nat (32 - b)) (y + s))) = v"
proof -
  let ?k = "nat (32 - b)"
  have n: "Suc (nat (b - 1)) = nat b" "nat b + ?k = 32" "nat (b - 1) = 31 - ?k" "?k < 32" using b by auto
  have "sint (signed_drop_bit ?k (push_bit ?k (y + s))) = signed_take_bit 31 (uint (push_bit ?k (y + s))) div 2 ^ ?k"
    unfolding sint_signed_drop_bit_eq drop_bit_eq_div by (simp add: sint_uint)
  also have "signed_take_bit 31 (uint (push_bit ?k (y + s))) = v * 2 ^ ?k"
  proof (rule signed_value)
    have u: "uint (y + s) mod 2 ^ nat b = v mod 2 ^ nat b"
      using v(1) uint32_mod_ring [OF b, of "uint y + uint s"] by (simp add: uint_word_ariths)
    have "uint (push_bit ?k (y + s)) mod 2 ^ Suc 31 = (uint (y + s) * 2 ^ ?k) mod 2 ^ 32"
      unfolding unsigned_push_bit_eq by (simp add: push_bit_eq_mult take_bit_eq_mod)
    also have "\<dots> = (uint (y + s) * 2 ^ ?k) mod (2 ^ nat b * 2 ^ ?k)" using n(2) by (simp flip: power_add)
    also have "\<dots> = (v * 2 ^ ?k) mod (2 ^ nat b * 2 ^ ?k)" using u by (simp flip: mult_mod_right mod_mult_mult2)
    also have "\<dots> = (v * 2 ^ ?k) mod 2 ^ Suc 31" using n(2) by (simp flip: power_add)
    finally show "uint (push_bit ?k (y + s)) mod 2 ^ Suc 31 = (v * 2 ^ ?k) mod 2 ^ Suc 31" .
    have p: "(2 :: int) ^ 31 = 2 ^ nat (b - 1) * 2 ^ ?k" using n by (simp flip: power_add)
    show "- (2 ^ 31) \<le> v * 2 ^ ?k" using mult_right_mono [OF v(2), of "2 ^ ?k"] by (simp only: p) simp
    show "v * 2 ^ ?k < 2 ^ 31" unfolding p using v(3) by simp
  qed
  finally show ?thesis by simp
qed

lemma dot_mod:
  fixes xs ys ws :: "int list"
  assumes "length xs = length ws" "length ys = length ws" "\<And>i. i < length ws \<Longrightarrow> xs ! i mod m = ys ! i mod m"
  shows "dot xs ws mod m = dot ys ws mod m"
  using assms
proof (induction ws arbitrary: xs ys)
  case (Cons w ws)
  obtain x xs' y ys' where e: "xs = x # xs'" "ys = y # ys'" using Cons.prems(1,2) by (cases xs; cases ys) simp_all
  have "x mod m = y mod m" using Cons.prems(3) [of 0] e by simp
  moreover have "dot xs' ws mod m = dot ys' ws mod m" 
  proof (rule Cons.IH)
    show "xs' ! i mod m = ys' ! i mod m" if "i < length ws" for i using Cons.prems(3) [of "Suc i"] that e by simp
  qed (use Cons.prems e in simp_all)
  ultimately show ?case unfolding e dot_Cons by (intro mod_add_cong mod_mult_cong refl)
qed simp

lemma dot_diff:
  fixes xs ys ws :: "int list"
  shows "length xs = length ws \<Longrightarrow> length ys = length ws \<Longrightarrow> dot (map2 (-) xs ys) ws = dot xs ws - dot ys ws"
proof (induction ws arbitrary: xs ys)
  case (Cons w ws)
  then obtain x xs' y ys' where "xs = x # xs'" "ys = y # ys'" by (cases xs; cases ys) auto
  with Cons show ?case by (simp add: algebra_simps)
qed simp

section \<open>Rows and products\<close>

lemma concat_rows_nth:
  assumes "0 < length ws" "k < length rs * length ws"
  shows "concat (map (\<lambda>r. map (f r) ws) rs) ! k = f (rs ! (k div length ws)) (ws ! (k mod length ws))"
  using assms(2)
proof (induction rs arbitrary: k)
  case (Cons r rs)
  show ?case
  proof (cases "k < length ws")
    case True
    then show ?thesis using assms(1) by (simp add: nth_append)
  next
    case False
    then obtain j where k: "k = j + length ws" by (metis add.commute le_Suc_ex not_less)
    with Cons.prems have "j < length rs * length ws" by simp
    moreover have "(j + length ws) div length ws = Suc (j div length ws)" using div_add_self2 [of "length ws" j] assms(1) by auto
    ultimately show ?thesis using Cons.IH [of j] assms(1) False by (simp add: nth_append k)
  qed
qed simp

lemma length_concat_rows [simp]: "length (concat (map (\<lambda>r. map (f r) ws) rs)) = length rs * length ws"
  by (induction rs) auto

lemma product_shape [simp]: "nd_shape (product_with f m x) = [nd_shape x ! 0, cm_rows m]"
  by (simp add: product_with_def)

lemma product_length [simp]: "length (nd_data (product_with f m x)) = nd_shape x ! 0 * cm_rows m"
  by (simp add: product_with_def)

lemma product_nth:
  assumes "0 < cm_rows m" "k < nd_shape x ! 0 * cm_rows m"
  shows "nd_data (product_with f m x) ! k = f (mat_rows x ! (k div cm_rows m)) (weights_of m ! (k mod cm_rows m))"
  using concat_rows_nth [of "weights_of m" k "mat_rows x" f] assms by (simp add: product_with_def)

lemma chunks_map: "chunks k n (map f xs) = map (map f) (chunks k n xs)"
  by (induction n arbitrary: xs) (auto simp: take_map drop_map)

lemma chunks_map2: "chunks k n (map2 f xs ys) = map2 (map2 f) (chunks k n xs) (chunks k n ys)"
  by (induction n arbitrary: xs ys) (auto simp: take_zip drop_zip take_map drop_map)

lemma mat_rows_map: "mat_rows (nd_map f a) = map (map f) (mat_rows a)"
  by (simp add: mat_rows_def nd_map_def chunks_map)

lemma mat_rows_map2: "nd_shape a = nd_shape b \<Longrightarrow> mat_rows (nd_map2 f a b) = map2 (map2 f) (mat_rows a) (mat_rows b)"
  by (simp add: mat_rows_def nd_map2_def chunks_map2)

lemma mat_rows_nth_length:
  assumes "nd_wf a" "length (nd_shape a) = 2" "i < nd_shape a ! 0"
  shows "length (mat_rows a ! i) = nd_shape a ! 1"
  using mat_rows_length [OF assms(1,2), of "mat_rows a ! i"] assms(3) by simp

section \<open>Chunked kernels\<close>

lemma concat_chunks: "concat (chunks k n xs) = take (n * k) xs"
proof (induction n arbitrary: xs)
  case (Suc n)
  then show ?case by (simp add: take_add)
qed simp

lemma concat_split_every: "0 < k \<Longrightarrow> concat (split_every k xs) = xs"
proof -
  assume k: "0 < k"
  have "length xs \<le> (length xs + k - 1) div k * k"
    using k div_mult_mod_eq [of "length xs + k - 1" k] mod_less_divisor [OF k, of "length xs + k - 1"] by linarith
  then show ?thesis by (simp add: split_every_def concat_chunks)
qed

lemma chunks_le: "c \<in> set (chunks k n xs) \<Longrightarrow> length c \<le> k"
  by (induction n arbitrary: xs) auto

lemma mapE_zip_map2:
  assumes "list_all2 (\<lambda>x y. native x y = Inr (map2 f x y)) xs ys"
  shows "mapE (\<lambda>(x, y). native x y) (zip xs ys) = Inr (map2 (map2 f) xs ys)"
  using assms by (induction rule: list_all2_induct) auto

lemma prepared_mask_transform_map2:
  assumes "nd_shape value = nd_shape masks" "nd_wf value" "nd_wf masks"
    and "\<And>v m. length v = length m \<Longrightarrow> length v \<le> PREPARED_CHUNK \<Longrightarrow> set v \<subseteq> set (nd_data value) \<Longrightarrow> set m \<subseteq> set (nd_data masks)
           \<Longrightarrow> native v m bits = Inr (map2 f v m)"
  shows "prepared_mask_transform native value masks bits = Inr (nd_map2 f value masks)"
proof -
  have len: "length (nd_data value) = length (nd_data masks)" "nd_size value = length (nd_data value)"
    using assms(1-3) by (simp_all add: nd_wf_def nd_size_def)
  have P: "0 < PREPARED_CHUNK" by (simp add: PREPARED_CHUNK_def)
  show ?thesis
  proof (cases "nd_size value \<le> PREPARED_CHUNK")
    case True
    have "native (nd_data value) (nd_data masks) bits = Inr (map2 f (nd_data value) (nd_data masks))"
      using True len by (intro assms(4)) auto
    then show ?thesis using True assms(1) by (simp add: prepared_mask_transform_def nd_map2_def)
  next
    case False
    let ?v = "split_every PREPARED_CHUNK (nd_data value)" and ?m = "split_every PREPARED_CHUNK (nd_data masks)"
    let ?n = "(length (nd_data value) + PREPARED_CHUNK - 1) div PREPARED_CHUNK"
    have vm: "?v = chunks PREPARED_CHUNK ?n (nd_data value)" "?m = chunks PREPARED_CHUNK ?n (nd_data masks)"
      using len by (simp_all add: split_every_def)
    have eq_len: "list_all2 (\<lambda>x y. length x = length y) (chunks k n xs) (chunks k n ys)" if "length xs = length ys" for k n and xs :: "'x list" and ys :: "'y list"
      using that by (induction n arbitrary: xs ys) auto
    have "list_all2 (\<lambda>x y. native x y bits = Inr (map2 f x y)) ?v ?m"
    proof (rule list_all2_all_nthI)
      show l: "length ?v = length ?m" by (simp add: vm)
      fix i assume i: "i < length ?v"
      then have "?v ! i \<in> set ?v" "?m ! i \<in> set ?m" using l by auto
      moreover have "length (?v ! i) = length (?m ! i)" using list_all2_nthD [OF eq_len [OF len(1)]] i by (simp add: vm)
      ultimately show "native (?v ! i) (?m ! i) bits = Inr (map2 f (?v ! i) (?m ! i))"
        unfolding vm by (intro assms(4) chunks_le set_chunks)
    qed
    from mapE_zip_map2 [OF this]
    have "mapE (\<lambda>(v, m). native v m bits) (zip ?v ?m) = Inr (map2 (map2 f) ?v ?m)" .
    moreover have "concat (map2 (map2 f) ?v ?m) = map2 f (nd_data value) (nd_data masks)"
    proof -
      have "map2 (map2 f) ?v ?m = split_every PREPARED_CHUNK (map2 f (nd_data value) (nd_data masks))"
        unfolding vm chunks_map2 [symmetric] using len by (simp add: split_every_def)
      then show ?thesis using concat_split_every [OF P] by metis
    qed
    ultimately show ?thesis using False assms(1) by (simp add: prepared_mask_transform_def nd_map2_def)
  qed
qed

lemma mask_prepared_input_eq:
  assumes "bits \<in> {16, 24, 32}" "nd_shape q = nd_shape r" "nd_wf q" "nd_wf r" "list_all (\<lambda>w. uint w < 2 ^ nat bits) (nd_data r)"
  shows "mask_prepared_input q r bits = Inr (nd_map2 (\<lambda>v w. (word_of_int (sint v) - w) AND ring_mask bits) q r)"
  unfolding mask_prepared_input_def
proof (rule prepared_mask_transform_map2 [OF assms(2,3,4)])
  fix v :: "8 word list" and m :: "32 word list"
  assume a: "length v = length m" "length v \<le> PREPARED_CHUNK" "set m \<subseteq> set (nd_data r)"
  then have "\<not> list_ex (\<lambda>w. w > ring_mask bits) m"
    using assms(5) ring_mask_le [OF assms(1)] by (auto simp: list_ex_iff list_all_iff not_less)
  then show "prepared_mask_input v m bits = Inr (map2 (\<lambda>v w. (word_of_int (sint v) - w) AND ring_mask bits) v m)"
    using a assms(1) by (simp add: prepared_mask_input_def PREPARED_CHUNK_def)
qed

lemma unmask_prepared_output_eq:
  assumes "bits \<in> {16, 24, 32}" "nd_shape y = nd_shape s" "nd_wf y" "nd_wf s"
    and "list_all (\<lambda>w. uint w < 2 ^ nat bits) (nd_data y)" "list_all (\<lambda>w. uint w < 2 ^ nat bits) (nd_data s)"
  shows "unmask_prepared_output y s bits
    = Inr (nd_map2 (\<lambda>a b. sint (signed_drop_bit (nat (32 - bits)) (push_bit (nat (32 - bits)) (a + b)))) y s)"
  unfolding unmask_prepared_output_def
proof (rule prepared_mask_transform_map2 [OF assms(2,3,4)])
  fix v m :: "32 word list"
  assume a: "length v = length m" "length v \<le> PREPARED_CHUNK" "set v \<subseteq> set (nd_data y)" "set m \<subseteq> set (nd_data s)"
  then have "\<not> list_ex (\<lambda>w. w > ring_mask bits) (v @ m)"
    using assms(5,6) ring_mask_le [OF assms(1)] by (auto simp: list_ex_iff list_all_iff not_less)
  then show "prepared_center_output v m bits
      = Inr (map2 (\<lambda>a b. sint (signed_drop_bit (nat (32 - bits)) (push_bit (nat (32 - bits)) (a + b)))) v m)"
    using a assms(1) by (simp add: prepared_center_output_def PREPARED_CHUNK_def Let_def)
qed

section \<open>Stages\<close>

text \<open>A stage as loaded: a compiled matrix of the declared shape, and a signed output bound that covers every row.\<close>

definition stage_ok :: "StageRuntime \<Rightarrow> bool" where
  "stage_ok rt \<longleftrightarrow> matrix_ok (rt_weight rt) \<and> ss_in_features (rt_spec rt) = int (cm_cols (rt_weight rt)) \<and> ss_out_features (rt_spec rt) = int (cm_rows (rt_weight rt))
     \<and> 2 \<le> ss_activation_bits (rt_spec rt) \<and> ss_activation_bits (rt_spec rt) \<le> 8
     \<and> list_all (\<lambda>w. (2 ^ nat (ss_activation_bits (rt_spec rt) - 1) - 1) * sum_list (map abs w) \<le> rt_signed_output_bound rt) (weights_of (rt_weight rt))"

lemma fold_max_ge: "m \<le> fold (\<lambda>x m. max m (g x)) xs (m :: int)" "x \<in> set xs \<Longrightarrow> g x \<le> fold (\<lambda>x m. max m (g x)) xs m"
proof (induction xs arbitrary: m)
  case (Cons y ys)
  { case 1 show ?case using Cons.IH(1) [of "max m (g y)"] by simp }
  { case 2
    show ?case
    proof (cases "x = y")
      case True
      have "g y \<le> max m (g y)" by simp
      also have "\<dots> \<le> fold (\<lambda>x m. max m (g x)) ys (max m (g y))" by (rule Cons.IH(1))
      finally show ?thesis using True by simp
    next
      case False
      then show ?thesis using Cons.IH(2) [of "max m (g y)"] 2 by simp
    qed }
qed simp_all

lemma mk_StageRuntime_ok:
  assumes "mk_StageRuntime sha256 spec weight modulus wire_bits = Inr rt" "matrix_ok weight"
    and "ss_in_features spec = int (cm_cols weight)" "ss_out_features spec = int (cm_rows weight)"
  shows "stage_ok rt" "rt_spec rt = spec" "rt_weight rt = weight"
    "rt_weight_digest rt = hex_of (digest_bytes (sha256 (nd_data (cm_reference weight))))"
proof -
  let ?cs = "weight_chunks (cm_reference weight)"
  let ?l1 = "fold (\<lambda>chunk m. max m (Max (set (map row_weight_l1 chunk)))) ?cs 0"
  have a: "2 \<le> ss_activation_bits spec" "ss_activation_bits spec \<le> 8"
    and rt: "rt_spec rt = spec" "rt_weight rt = weight" "rt_signed_output_bound rt = (2 ^ nat (ss_activation_bits spec - 1) - 1) * ?l1"
    "rt_weight_digest rt = hex_of (digest_bytes (sha256 (concat (map concat ?cs))))"
    using assms(1) by (auto simp: mk_StageRuntime_def Let_def signed_qmax_def res_inv)
  have all: "concat ?cs = mat_rows (cm_reference weight)" unfolding weight_chunks_def by (rule concat_split_every) simp
  have l: "row_weight_l1 r \<le> ?l1" if "r \<in> set (mat_rows (cm_reference weight))" for r
  proof -
    have "r \<in> set (concat ?cs)" using that by (simp only: all)
    then obtain c where c: "c \<in> set ?cs" "r \<in> set c" unfolding set_concat by blast
    have "row_weight_l1 r \<le> Max (set (map row_weight_l1 c))" using c(2) by (intro Max_ge) auto
    also have "\<dots> \<le> ?l1" by (rule fold_max_ge(2) [OF c(1)])
    finally show ?thesis .
  qed
  have "(2 ^ nat (ss_activation_bits spec - 1) - 1) * sum_list (map abs w) \<le> rt_signed_output_bound rt" if w: "w \<in> set (weights_of weight)" for w
  proof -
    obtain r where r: "r \<in> set (mat_rows (cm_reference weight))" "w = map sint r" using w unfolding weights_of_def set_map by blast
    have "sum_list (map abs w) = row_weight_l1 r" by (simp add: r row_weight_l1_def o_def)
    then show ?thesis using l [OF r(1)] rt(3) by (simp add: mult_left_mono)
  qed
  then show "stage_ok rt" using assms(2-4) rt a by (simp add: stage_ok_def list_all_iff)
  obtain x y where xy: "nd_shape (cm_reference weight) = [x, y]" using assms(2) by (auto simp: matrix_ok_def length_Suc_conv numeral_2_eq_2)
  have "concat (mat_rows (cm_reference weight)) = nd_data (cm_reference weight)"
    using assms(2) xy by (simp add: mat_rows_def concat_chunks matrix_ok_def nd_wf_def)
  moreover have "concat (map concat xss) = concat (concat xss)" for xss :: "8 word list list list" by (induction xss) auto
  ultimately have "concat (map concat ?cs) = nd_data (cm_reference weight)" by (simp add: all)
  with rt show "rt_spec rt = spec" "rt_weight rt = weight" "rt_weight_digest rt = hex_of (digest_bytes (sha256 (nd_data (cm_reference weight))))" by simp_all
qed

section \<open>Products on a stage\<close>

lemma stage_product_eq:
  assumes "matrix_ok (rt_weight rt)" "nd_wf x" "ring = ''u32'' \<Longrightarrow> modulus = 2 ^ 32" "stage_product rt ring modulus x = Inr y"
  shows "y = product_with (\<lambda>r w. word_of_int (dot r w mod modulus)) (rt_weight rt) (nd_map uint x)"
proof (cases "ring = ''u32''")
  case True
  then show ?thesis using assms(3,4) by (auto simp: stage_product_def wrap32_def res_inv matrix_inputs_Inr)
next
  case False
  then have "modular (rt_weight rt) (nd_map uint x) modulus = Inr y" using assms(4) by (simp add: stage_product_def)
  from modular_product [OF assms(1) _ this] assms(2) show ?thesis by (simp add: nd_wf_map)
qed

lemma stage_product_shape:
  assumes "stage_product rt ring modulus x = Inr y"
  shows "length (nd_shape x) = 2" "nd_shape x ! 1 = cm_cols (rt_weight rt)"
  using assms by (auto simp: stage_product_def wrap32_def modular_def res_inv matrix_inputs_Inr split: if_splits)

lemma stage_product_again:
  assumes "stage_product rt ring modulus x = Inr y" "ring = ''u32'' \<Longrightarrow> modulus = 2 ^ 32"
    and "length (nd_shape x') = 2" "nd_shape x' ! 1 = cm_cols (rt_weight rt)" "list_all (\<lambda>w. uint w < modulus) (nd_data x')"
  shows "\<exists>y'. stage_product rt ring modulus x' = Inr y'"
proof (cases "ring = ''u32''")
  case True
  then show ?thesis using assms(2-5) by (auto simp: stage_product_def wrap32_def bindE_eq_Inr matrix_inputs_Inr list_all_iff)
next
  case False
  then have g: "2 \<le> modulus" "modulus < 2 ^ 31" "int (cm_cols (rt_weight rt)) * 128 * (modulus - 1) \<le> 2 ^ 63 - 1"
    using assms(1) by (auto simp: stage_product_def modular_def res_inv matrix_inputs_Inr)
  have "matrix_inputs (rt_weight rt) (nd_map uint x') 0 (modulus - 1) True = Inr (nd_map uint x')"
    using g(3) assms(3-5) by (auto simp: matrix_inputs_Inr list_all_iff)
  then show ?thesis using False g(1,2) by (simp add: stage_product_def modular_def)
qed

lemma dot_abs_sum:
  fixes q w :: "int list"
  assumes "length q = length w" "list_all (\<lambda>v. \<bar>v\<bar> \<le> a) q"
  shows "\<bar>dot q w\<bar> \<le> a * sum_list (map abs w)"
  using assms
proof (induction q w rule: list_induct2)
  case (Cons v q u w)
  have "\<bar>v * u + dot q w\<bar> \<le> \<bar>v * u\<bar> + \<bar>dot q w\<bar>" by (rule abs_triangle_ineq)
  also have "\<dots> \<le> a * \<bar>u\<bar> + a * sum_list (map abs w)"
    using Cons by (intro add_mono) (auto simp: abs_mult intro: mult_right_mono)
  finally show ?case by (simp add: distrib_left)
qed simp

section \<open>One entry of a prepared stage\<close>

lemma uint_residue: "b \<in> {16, 24, 32} \<Longrightarrow> uint (word_of_int (u mod 2 ^ nat b) :: 32 word) = u mod 2 ^ nat b"
proof -
  assume b: "b \<in> {16, 24, 32}"
  have "u mod 2 ^ nat b < (2::int) ^ nat b" "0 \<le> u mod (2::int) ^ nat b" by simp_all
  moreover have "(2::int) ^ nat b \<le> 2 ^ 32" using b by auto
  ultimately have "0 \<le> u mod (2::int) ^ nat b" "u mod 2 ^ nat b < (2::int) ^ 32" by linarith+
  then show ?thesis by (simp add: uint_word_of_int)
qed

lemma prepared_entry:
  assumes b: "b \<in> {16, 24, 32}" and len: "length q = length w" "length r = length w"
    and bound: "\<bar>dot (map sint q) w\<bar> < 2 ^ nat (b - 1)"
    and x: "x = map2 (\<lambda>v r. (word_of_int (sint (v :: 8 word)) - r) AND ring_mask b) q r"
    and c: "c = (word_of_int (dot (map uint r) w mod 2 ^ nat b) - s) AND ring_mask b"
  shows "sint (signed_drop_bit (nat (32 - b)) (push_bit (nat (32 - b))
      (word_of_int ((uint (word_of_int (dot (map uint x) w mod 2 ^ nat b) :: 32 word) + uint c) mod 2 ^ nat b) + s))) = dot (map sint q) w"
proof (rule centered_output_entry [OF b])
  let ?M = "(2::int) ^ nat b"
  have uc: "uint c mod ?M = (dot (map uint r) w - uint s) mod ?M"
  proof -
    let ?t = "word_of_int (dot (map uint r) w mod ?M) :: 32 word"
    have "uint (?t - s) = (dot (map uint r) w mod ?M - uint s) mod 2 ^ 32"
      using uint_residue [OF b, of "dot (map uint r) w"] by (simp add: uint_word_ariths)
    then have "uint (?t - s) mod ?M = (dot (map uint r) w mod ?M - uint s) mod ?M" by (simp only: uint32_mod_ring [OF b])
    then show ?thesis unfolding c uint_and_ring_mask [OF b] by (simp add: mod_diff_left_eq)
  qed
  have ux: "dot (map uint x) w mod ?M = (dot (map sint q) w - dot (map uint r) w) mod ?M"
  proof -
    have "dot (map uint x) w mod ?M = dot (map2 (-) (map sint q) (map uint r)) w mod ?M"
    proof (rule dot_mod)
      fix i assume "i < length w"
      moreover have "uint ((word_of_int (sint (q ! i)) - r ! i) AND ring_mask b) mod ?M = (sint (q ! i) - uint (r ! i)) mod ?M"
        by (simp only: masked_input_entry [OF b] mod_mod_trivial)
      ultimately show "map uint x ! i mod ?M = map2 (-) (map sint q) (map uint r) ! i mod ?M"
        using len by (simp add: x)
    qed (use len in \<open>simp_all add: x\<close>)
    then show ?thesis using len by (simp add: dot_diff)
  qed
  have "(uint (word_of_int ((dot (map uint x) w mod ?M + uint c) mod ?M) :: 32 word) + uint s) mod ?M = (dot (map uint x) w mod ?M + uint c mod ?M + uint s) mod ?M"
  proof -
    have "(u mod m + v mod m + z) mod m = ((u mod m + v) mod m + z) mod m" for u v z m :: int by (metis mod_add_eq mod_add_left_eq mod_mod_trivial)
    then show ?thesis unfolding uint_residue [OF b] by simp
  qed
  also have "\<dots> = dot (map sint q) w mod ?M"
  proof -
    have "((u - v) mod m + (v - z) mod m + z) mod m = u mod m" for u v z m :: int
    proof -
      have "((u - v) mod m + (v - z) mod m + z) mod m = (((u - v) + (v - z)) mod m + z) mod m" by (metis mod_add_eq mod_add_left_eq mod_mod_trivial)
      then show ?thesis by (simp add: mod_add_left_eq)
    qed
    then show ?thesis unfolding ux uc .
  qed
  finally show "(uint (word_of_int ((uint (word_of_int (dot (map uint x) w mod ?M) :: 32 word) + uint c) mod ?M) :: 32 word) + uint s) mod ?M = dot (map sint q) w mod ?M"
    unfolding uint_residue [OF b] .
qed (use bound in linarith)+

section \<open>Profiles\<close>

lemma ring_names [simp]: "str_nat 16 = ''16''" "str_nat 24 = ''24''" "str_nat 32 = ''32''"
  by code_simp+

lemma seeded_ring_profile_Inr:
  assumes "seeded_ring_profile bound = Inr p"
  shows "\<exists>b. b \<in> {16, 24, 32} \<and> rp_wire_bits p = b \<and> rp_modulus p = 2 ^ nat b \<and> rp_signed_output_bound p = bound \<and> bound < 2 ^ nat (b - 1)
    \<and> rp_ring p \<in> {''u16'', ''u24'', ''u32''} \<and> (rp_ring p = ''u32'' \<longleftrightarrow> b = 32)"
  using assms by (auto simp: seeded_ring_profile_def raise_if_eq_Inr split: if_splits)

end
