(* ===== verification/Stage_Execution.thy ===== *)
theory Stage_Execution
  imports Stage_Arith
begin

text \<open>
  What the stage handler of the engine computes: the masks that a preparation expands, single requests, batches as the requests one by one, and the
  shape and range of every response.
\<close>

section \<open>Expanded masks\<close>

lemma le_word_less: "uint (le_word bs) < 2 ^ (8 * length bs)"
proof -
  have "take_bit (8 * length bs) (le_word bs) = le_word bs"
  proof (rule bit_word_eqI)
    fix n assume "n < LENGTH(32)"
    have "n div 8 < length bs \<longleftrightarrow> n < 8 * length bs" by (simp add: div_less_iff_less_mult mult.commute)
    then show "bit (take_bit (8 * length bs) (le_word bs)) n = bit (le_word bs) n" by (auto simp: bit_take_bit_iff bit_le_word)
  qed
  then have "uint (le_word bs) = take_bit (8 * length bs) (uint (le_word bs))" by (metis unsigned_take_bit_eq)
  then show ?thesis by (metis take_bit_int_less_exp)
qed

lemma protocol_errors_Inr [simp]: "protocol_errors m = Inr y \<longleftrightarrow> m = Inr y"
  by (auto simp: protocol_errors_def split: sum.splits py_error.splits)

lemma unpack_residues_Inr:
  assumes "unpack_residues p shape wb = Inr a"
  shows "wb \<in> {16, 24, 32}" "nd_shape a = map nat shape" "nd_wf a" "list_all (\<lambda>w. uint w < 2 ^ nat wb) (nd_data a)"
proof -
  obtain data where wb: "wb \<in> {16, 24, 32}" and d: "list_all (\<lambda>d. 0 \<le> d) shape"
    and u: "unpack_unsigned p (wb div 8) (Some (prod_list shape)) = Inr data" and a: "a = \<lparr>nd_shape = map nat shape, nd_data = data\<rparr>"
    using assms by (auto simp: unpack_residues_def res_inv list_ex_iff list_all_iff not_less)
  show "wb \<in> {16, 24, 32}" "nd_shape a = map nat shape" using wb a by simp_all
  let ?w = "nat (wb div 8)"
  have w: "0 < ?w" "int ?w = wb div 8" "8 * ?w = nat wb" using wb by auto
  have l: "int (length p) mod (wb div 8) = 0" "int (length p) div (wb div 8) = prod_list shape"
    and dt: "data = map le_word (chunks ?w (length p div ?w) p)"
    using u by (auto simp: unpack_unsigned_def res_inv)
  have "int (prod_list (map nat shape)) = prod_list shape" using d by (induction shape) auto
  then have "length p div ?w = prod_list (map nat shape)" using l(2) w(2) by (metis of_nat_eq_iff zdiv_int)
  then show "nd_wf a" by (simp add: nd_wf_def a dt)
  have "length p div ?w * ?w \<le> length p" by simp
  then have "length c = ?w" if c: "c \<in> set (chunks ?w (length p div ?w) p)" for c by (rule chunks_lengths [OF _ c])
  then have "uint (le_word c) < 2 ^ nat wb" if c: "c \<in> set (chunks ?w (length p div ?w) p)" for c
    using le_word_less [of c] c by (simp only: w(3))
  then show "list_all (\<lambda>w. uint w < 2 ^ nat wb) (nd_data a)" by (simp add: a dt list_all_iff)
qed

lemma expand_preparation_mask_Inr:
  assumes "expand_preparation_mask packb shake256 r purpose = Inr a"
  shows "PreparationRequest_validate r None None = Inr ()" "pb_wire_bits r \<in> {16, 24, 32}" "nd_wf a"
    "list_all (\<lambda>w. uint w < 2 ^ nat (pb_wire_bits r)) (nd_data a)"
    "nd_shape a = [nat (pb_rows r), nat (if purpose = ''input-r'' then pb_in_features r else pb_out_features r)]"
proof -
  obtain p where u: "unpack_residues p [pb_rows r, if purpose = ''input-r'' then pb_in_features r else pb_out_features r] (pb_wire_bits r) = Inr a"
    and "PreparationRequest_validate r None None = Inr ()"
    using assms by (auto simp: expand_preparation_mask_def res_inv Let_def)
  then show "PreparationRequest_validate r None None = Inr ()" by simp
  from unpack_residues_Inr [OF u] show "pb_wire_bits r \<in> {16, 24, 32}" "nd_wf a"
    "list_all (\<lambda>w. uint w < 2 ^ nat (pb_wire_bits r)) (nd_data a)"
    "nd_shape a = [nat (pb_rows r), nat (if purpose = ''input-r'' then pb_in_features r else pb_out_features r)]" by simp_all
qed

section \<open>A single request\<close>

lemma list2_eq: "length xs = 2 \<Longrightarrow> xs = [xs ! 0, xs ! 1]"
  by (cases xs; cases "tl xs") auto

lemma concat_rows_single: "length (nd_shape a) = 2 \<Longrightarrow> concat_rows [a] = a"
  using list2_eq [of "nd_shape a"] by (intro ndarray_eqI) (simp_all add: concat_rows_def)

lemma split_rows_single: "length (nd_shape a) = 2 \<Longrightarrow> nd_wf a \<Longrightarrow> n = nd_shape a ! 0 \<Longrightarrow> split_rows [n] a = [a]"
proof -
  assume a: "length (nd_shape a) = 2" "nd_wf a" "n = nd_shape a ! 0"
  obtain x y where xy: "nd_shape a = [x, y]" using a(1) list2_eq by blast
  have "\<lparr>nd_shape = [x, y], nd_data = take (x * y) (nd_data a)\<rparr> = a" using a(2) xy by (intro ndarray_eqI) (simp_all add: nd_wf_def)
  then show ?thesis using a(3) xy by (simp add: Let_def)
qed

lemma execute_single:
  assumes m: "model_of e mid = Inr m" and rt: "runtime_of e mid sid = Inr rt" and ck: "check_request m rt mid sid q = Inr ()"
    and ring: "ring_or_prime (rq_ring q) = ring"
      "ring = ''prime'' \<and> rq_modulus q = rt_modulus rt \<and> rq_wire_bits q = rt_wire_bits rt
       \<or> ring \<in> {''u16'', ''u24'', ''u32''} \<and> rq_modulus q = 2 ^ nat (rq_wire_bits q) \<and> rt_signed_output_bound rt < 2 ^ nat (rq_wire_bits q - 1)"
    and out: "stage_product rt ring (rq_modulus q) (rq_masked_input q) = Inr out" and ok: "matrix_ok (rt_weight rt)" "nd_wf (rq_masked_input q)"
      "ring = ''u32'' \<Longrightarrow> rq_modulus q = 2 ^ 32"
  shows "\<exists>e' ns. execute_requests share elapsed mid sid [q] e = (e', Inr [\<lparr>mr_correlation_id = rq_correlation_id q, mr_masked_output = out,
     mr_modulus = rq_modulus q, mr_wire_bits = rq_wire_bits q, mr_server_ns = ns, mr_stage_id = sid, mr_ring = Some ring\<rparr>])"
proof -
  have p: "out = product_with (\<lambda>r w. word_of_int (dot r w mod rq_modulus q)) (rt_weight rt) (nd_map uint (rq_masked_input q))"
    by (rule stage_product_eq [OF ok out])
  have sh: "length (nd_shape (rq_masked_input q)) = 2" using stage_product_shape [OF out] by simp
  have o: "length (nd_shape out) = 2" "nd_wf out" "nd_shape out ! 0 = nd_shape (rq_masked_input q) ! 0"
    using sh by (simp_all add: p nd_wf_def)
  have split: "split_rows [nd_shape (rq_masked_input q) ! 0] out = [out]" by (rule split_rows_single) (use o in simp_all)
  show ?thesis
  proof (cases "ring = ''prime''")
    case True
    then have "rq_modulus q = rt_modulus rt" "rq_wire_bits q = rt_wire_bits rt" using ring(2) by auto
    then show ?thesis
      using m rt ck ring(1) out True sh split by (simp add: execute_requests_def concat_rows_single Let_def del: split_rows.simps)
  next
    case False
    then have "ring \<in> {''u16'', ''u24'', ''u32''}" "rq_modulus q = 2 ^ nat (rq_wire_bits q)" "\<not> rt_signed_output_bound rt \<ge> 2 ^ nat (rq_wire_bits q - 1)"
      using ring(2) by auto
    then show ?thesis
      using m rt ck ring(1) out False sh split by (auto simp add: execute_requests_def concat_rows_single Let_def simp del: split_rows.simps)
  qed
qed

section \<open>Batches\<close>

lemma uint_mod_word: "0 < p \<Longrightarrow> p \<le> 2 ^ 32 \<Longrightarrow> uint (word_of_int (u mod p) :: 32 word) = u mod p"
proof -
  assume p: "0 < p" "p \<le> 2 ^ 32"
  have "0 \<le> u mod p" using p by simp
  moreover have "u mod p < 2 ^ 32" by (rule less_le_trans [OF pos_mod_bound [OF p(1)] p(2)])
  ultimately show ?thesis by (simp add: uint_word_of_int)
qed


lemma nd_data_product: "nd_data (product_with f m x) = concat (map (\<lambda>r. map (f r) (weights_of m)) (mat_rows x))"
  by (simp add: product_with_def)

lemma chunks_append: "length xs = k * n \<Longrightarrow> chunks k (n + m) (xs @ ys) = chunks k n xs @ chunks k m ys"
  by (induction n arbitrary: xs) auto

lemma mat_rows_concat:
  assumes "list_all (\<lambda>x. nd_wf x \<and> nd_shape x = [nd_shape x ! 0, c]) xs"
  shows "chunks c (sum_list (map (\<lambda>x. nd_shape x ! 0) xs)) (concat (map nd_data xs)) = concat (map mat_rows xs)"
  using assms
proof (induction xs)
  case (Cons x xs)
  obtain n where n: "nd_shape x = [n, c]" using Cons.prems by auto
  then have "length (nd_data x) = c * n" using Cons.prems by (simp add: nd_wf_def mult.commute)
  from chunks_append [OF this] Cons n show ?case by (simp add: mat_rows_def)
qed simp

lemma split_rows_products:
  assumes "N = sum_list (map (\<lambda>x. nd_shape x ! 0) xs)"
  shows "split_rows (map (\<lambda>x. nd_shape x ! 0) xs) \<lparr>nd_shape = [N, cm_rows m], nd_data = concat (map (\<lambda>x. nd_data (product_with f m x)) xs)\<rparr>
    = map (product_with f m) xs"
  using assms
proof (induction xs arbitrary: N)
  case (Cons x xs)
  have l: "length (nd_data (product_with f m x)) = nd_shape x ! 0 * cm_rows m" by simp
  have h: "\<lparr>nd_shape = [nd_shape x ! 0, cm_rows m], nd_data = nd_data (product_with f m x)\<rparr> = product_with f m x" by simp
  show ?case using Cons l h by (simp add: Let_def)
qed simp

lemma product_concat_rows:
  assumes "xs \<noteq> []" "list_all (\<lambda>x. nd_wf x \<and> nd_shape x = [nd_shape x ! 0, c]) xs"
  shows "split_rows (map (\<lambda>x. nd_shape x ! 0) xs) (product_with f m (concat_rows xs)) = map (product_with f m) xs"
proof -
  have nested: "concat (map g (concat (map h zs))) = concat (map (\<lambda>z. concat (map g (h z))) zs)"
    for g :: "'p \<Rightarrow> 'q list" and h :: "'r \<Rightarrow> 'p list" and zs by (induction zs) auto
  have "nd_shape (hd xs) ! 1 = c"
  proof -
    obtain x ys where x: "xs = x # ys" using assms(1) by (cases xs) auto
    then have "nd_shape x = [nd_shape x ! 0, c]" using assms(2) by simp
    then have "nd_shape x ! 1 = [nd_shape x ! 0, c] ! 1" by (rule arg_cong)
    then show ?thesis by (simp add: x)
  qed
  then have "mat_rows (concat_rows xs) = concat (map mat_rows xs)" using mat_rows_concat [OF assms(2)] by (simp add: mat_rows_def concat_rows_def)
  then have "nd_data (product_with f m (concat_rows xs)) = concat (map (\<lambda>x. nd_data (product_with f m x)) xs)"
    unfolding nd_data_product by (simp only: nested)
  then have "product_with f m (concat_rows xs)
      = \<lparr>nd_shape = [sum_list (map (\<lambda>x. nd_shape x ! 0) xs), cm_rows m], nd_data = concat (map (\<lambda>x. nd_data (product_with f m x)) xs)\<rparr>"
    by (intro ndarray_eqI) (simp_all add: concat_rows_def)
  then show ?thesis by (simp add: split_rows_products)
qed

lemma stage_product_range:
  assumes "stage_product rt ring modulus x = Inr y" "ring = ''u32'' \<Longrightarrow> modulus = 2 ^ 32"
  shows "list_all (\<lambda>w. uint w < modulus) (nd_data x)"
proof (cases "ring = ''u32''")
  case True
  have "uint w < 2 ^ 32" for w :: "32 word" using uint_lt2p [of w] by simp
  with True show ?thesis using assms(2) by (simp add: list_all_iff)
next
  case False
  then show ?thesis using assms(1) by (auto simp: stage_product_def modular_def res_inv matrix_inputs_Inr list_all_iff)
qed

lemma mapE_all: "mapE f xs = Inr ys \<Longrightarrow> x \<in> set xs \<Longrightarrow> \<exists>y. f x = Inr y"
  by (induction xs arbitrary: ys) (auto simp: bindE_eq_Inr)

lemma check_request_shape:
  assumes "check_request m rt mid sid q = Inr ()" "stage_ok rt"
  shows "nd_shape (rq_masked_input q) = [nd_shape (rq_masked_input q) ! 0, cm_cols (rt_weight rt)]"
proof -
  have "length (nd_shape (rq_masked_input q)) = 2" "int (nd_shape (rq_masked_input q) ! 1) = ss_in_features (rt_spec rt)"
    using assms(1) by (auto simp: check_request_def res_inv Let_def)
  then show ?thesis using assms(2) list2_eq [of "nd_shape (rq_masked_input q)"] by (simp add: stage_ok_def)
qed

text \<open>A request as the decoder returns it.\<close>

definition request_decoded :: "MaskedStageRequest \<Rightarrow> bool" where
  "request_decoded q \<longleftrightarrow> nd_wf (rq_masked_input q) \<and> (\<exists>ring. rq_ring q = Some ring \<and> ring_from (rq_modulus q) (rq_wire_bits q) (rq_ring q) = Inr ring)"

lemma request_decoded_ring:
  assumes "request_decoded q"
  shows "ring_or_prime (rq_ring q) = ''u32'' \<Longrightarrow> rq_modulus q = 2 ^ 32" "nd_wf (rq_masked_input q)"
  using assms by (auto simp: request_decoded_def ring_from_def ring_or_prime_def ring_bits_def res_inv split: if_splits)

text \<open>An arithmetic profile that a stage executes, and the response to a request under it.\<close>

definition profile_ok :: "StageRuntime \<Rightarrow> string \<Rightarrow> int \<Rightarrow> int \<Rightarrow> bool" where
  "profile_ok rt ring modulus wb \<longleftrightarrow> (ring = ''prime'' \<and> modulus = rt_modulus rt \<and> wb = rt_wire_bits rt
     \<or> ring \<in> {''u16'', ''u24'', ''u32''} \<and> modulus = 2 ^ nat wb \<and> rt_signed_output_bound rt < 2 ^ nat (wb - 1)) \<and> (ring = ''u32'' \<longrightarrow> modulus = 2 ^ 32)"

definition answered :: "LoadedTransformer \<Rightarrow> StageRuntime \<Rightarrow> string \<Rightarrow> string \<Rightarrow> string \<Rightarrow> int \<Rightarrow> int \<Rightarrow> MaskedStageRequest \<Rightarrow> MaskedStageResponse \<Rightarrow> bool" where
  "answered m rt mid sid ring modulus wb q y \<longleftrightarrow>
     ring_or_prime (rq_ring q) = ring \<and> rq_modulus q = modulus \<and> rq_wire_bits q = wb \<and> nd_wf (rq_masked_input q) \<and> check_request m rt mid sid q = Inr ()
     \<and> stage_product rt ring modulus (rq_masked_input q) = Inr (mr_masked_output y)
     \<and> (\<exists>ns. y = \<lparr>mr_correlation_id = rq_correlation_id q, mr_masked_output = mr_masked_output y, mr_modulus = modulus, mr_wire_bits = wb,
          mr_server_ns = ns, mr_stage_id = sid, mr_ring = Some ring\<rparr>)"

lemma execute_answered:
  assumes "answered m rt mid sid ring modulus wb q y" "profile_ok rt ring modulus wb" "model_of e mid = Inr m" "runtime_of e mid sid = Inr rt" "stage_ok rt"
  shows "\<exists>e' ns. execute_requests share elapsed mid sid [q] e = (e', Inr [y\<lparr>mr_server_ns := ns\<rparr>])"
proof -
  have q: "ring_or_prime (rq_ring q) = ring" "rq_modulus q = modulus" "rq_wire_bits q = wb" "nd_wf (rq_masked_input q)" "check_request m rt mid sid q = Inr ()"
    "stage_product rt ring modulus (rq_masked_input q) = Inr (mr_masked_output y)" using assms(1) by (simp_all add: answered_def)
  obtain ns where y: "y = \<lparr>mr_correlation_id = rq_correlation_id q, mr_masked_output = mr_masked_output y, mr_modulus = modulus, mr_wire_bits = wb,
          mr_server_ns = ns, mr_stage_id = sid, mr_ring = Some ring\<rparr>" using assms(1) unfolding answered_def by blast
  have "\<exists>e' ns. execute_requests share elapsed mid sid [q] e = (e', Inr [\<lparr>mr_correlation_id = rq_correlation_id q, mr_masked_output = mr_masked_output y,
     mr_modulus = rq_modulus q, mr_wire_bits = rq_wire_bits q, mr_server_ns = ns, mr_stage_id = sid, mr_ring = Some ring\<rparr>])"
    using assms(2,5) q by (intro execute_single [OF assms(3,4) q(5,1)]) (auto simp: profile_ok_def stage_ok_def)
  moreover have "y\<lparr>mr_server_ns := n\<rparr> = \<lparr>mr_correlation_id = rq_correlation_id q, mr_masked_output = mr_masked_output y,
     mr_modulus = rq_modulus q, mr_wire_bits = rq_wire_bits q, mr_server_ns = n, mr_stage_id = sid, mr_ring = Some ring\<rparr>" for n
    by (subst y) (simp add: q)
  ultimately show ?thesis by simp
qed

lemma execute_accepted:
  assumes ex: "execute_requests share elapsed mid sid qs e = (e', Inr ys)" and rt: "runtime_of e mid sid = Inr rt" and ok: "stage_ok rt"
    and dec: "list_all request_decoded qs" and ne: "qs \<noteq> []"
  shows "\<exists>m ring modulus wb N. model_of e mid = Inr m \<and> e' = runtime_update mid sid (count_call (int (length qs)) N elapsed) e
     \<and> profile_ok rt ring modulus wb \<and> list_all2 (answered m rt mid sid ring modulus wb) qs ys"
proof -
  obtain m where m: "model_of e mid = Inr m" using rt by (auto simp: runtime_of_def bindE_eq_Inr)
  let ?prof = "\<lambda>q. (ring_or_prime (rq_ring q), rq_modulus q, rq_wire_bits q)"
  obtain q0 qr where qs: "qs = q0 # qr" using ne by (cases qs) auto
  obtain ring modulus wb where p0: "?prof q0 = (ring, modulus, wb)" by (metis prod_cases3)
  let ?prime = "ring = ''prime'' \<and> modulus = rt_modulus rt \<and> wb = rt_wire_bits rt"
  let ?wrap = "ring \<in> {''u16'', ''u24'', ''u32''} \<and> modulus = 2 ^ nat wb"
  let ?xs = "map rq_masked_input qs"
  have same: "\<not> list_ex (\<lambda>p. p \<noteq> (ring, modulus, wb)) (map ?prof qr)" and pw: "?prime \<or> ?wrap"
    and bd: "?wrap \<longrightarrow> rt_signed_output_bound rt < 2 ^ nat (wb - 1)"
    and e': "\<exists>N. e' = runtime_update mid sid (count_call (int (length qs)) N elapsed) e"
    and ck: "\<exists>us. mapE (check_request m rt mid sid) qs = Inr us"
    and out: "\<exists>out. stage_product rt ring (if ?wrap then modulus else rt_modulus rt) (concat_rows ?xs) = Inr out
       \<and> ys = map2 (\<lambda>q chunk. \<lparr>mr_correlation_id = rq_correlation_id q, mr_masked_output = chunk, mr_modulus = modulus, mr_wire_bits = wb,
            mr_server_ns = share elapsed (nd_shape chunk ! 0) (max 1 (nd_shape (concat_rows ?xs) ! 0)), mr_stage_id = sid,
            mr_ring = Some (if ?wrap then ring else ''prime'')\<rparr>) qs (split_rows (map (\<lambda>q. nd_shape (rq_masked_input q) ! 0) qs) out)"
    using ex m rt p0 unfolding qs by (auto simp: execute_requests_def onS_eq_Inr raiseS_eq_Inr Let_def not_le simp del: split_rows.simps)
  have prof: "?prof q = (ring, modulus, wb)" if "q \<in> set qs" for q
    using that same p0 by (auto simp: qs list_ex_iff)
  have cks: "check_request m rt mid sid q = Inr ()" if "q \<in> set qs" for q
    using ck mapE_all [OF _ that, of "check_request m rt mid sid"] by auto
  have modw: "(if ?wrap then modulus else rt_modulus rt) = modulus" using pw by auto
  obtain prod where o: "stage_product rt ring modulus (concat_rows ?xs) = Inr prod" and ys: "ys = map2 (\<lambda>q chunk. \<lparr>mr_correlation_id = rq_correlation_id q, mr_masked_output = chunk, mr_modulus = modulus, mr_wire_bits = wb,
            mr_server_ns = share elapsed (nd_shape chunk ! 0) (max 1 (nd_shape (concat_rows ?xs) ! 0)), mr_stage_id = sid,
            mr_ring = Some (if ?wrap then ring else ''prime'')\<rparr>) qs (split_rows (map (\<lambda>q. nd_shape (rq_masked_input q) ! 0) qs) prod)"
    using out unfolding modw by blast
  have u32: "ring = ''u32'' \<Longrightarrow> modulus = 2 ^ 32"
    using dec p0 request_decoded_ring(1) [of q0] by (simp add: qs)
  have W: "matrix_ok (rt_weight rt)" using ok by (simp add: stage_ok_def)
  have sh: "nd_wf (rq_masked_input q) \<and> nd_shape (rq_masked_input q) = [nd_shape (rq_masked_input q) ! 0, cm_cols (rt_weight rt)]" if "q \<in> set qs" for q
    using dec request_decoded_ring(2) [of q] check_request_shape [OF cks [OF that] ok] that by (auto simp: list_all_iff)
  then have xs: "list_all (\<lambda>x. nd_wf x \<and> nd_shape x = [nd_shape x ! 0, cm_cols (rt_weight rt)]) ?xs" "?xs \<noteq> []"
    using ne by (auto simp: list_all_iff)
  have range: "list_all (\<lambda>w. uint w < modulus) (nd_data (rq_masked_input q))" if "q \<in> set qs" for q
    using stage_product_range [OF o u32] that by (auto simp: concat_rows_def list_all_iff)
  let ?f = "\<lambda>r w. word_of_int (dot r w mod modulus) :: 32 word"
  have "nd_wf (concat_rows ?xs)"
  proof -
    have "length (concat (map nd_data zs)) = sum_list (map (\<lambda>x. nd_shape x ! 0) zs) * c"
      if "list_all (\<lambda>x. nd_wf x \<and> nd_shape x = [nd_shape x ! 0, c]) zs" for zs :: "u32array list" and c
      using that
    proof (induction zs)
      case (Cons z zs)
      obtain n where "nd_shape z = [n, c]" using Cons.prems by auto
      with Cons show ?case by (simp add: nd_wf_def add_mult_distrib)
    qed simp
    note l = this [OF xs(1)]
    have "nd_shape (hd ?xs) ! 1 = cm_cols (rt_weight rt)" using stage_product_shape [OF o] by (simp add: concat_rows_def)
    with l show ?thesis by (simp add: nd_wf_def concat_rows_def)
  qed
  from stage_product_eq [OF W this u32 o] have "prod = product_with ?f (rt_weight rt) (nd_map uint (concat_rows ?xs))" .
  also have "nd_map uint (concat_rows ?xs) = concat_rows (map (nd_map uint) ?xs)"
    using xs(2) by (intro ndarray_eqI) (auto simp: concat_rows_def o_def map_concat hd_map)
  finally have parts: "split_rows (map (\<lambda>x. nd_shape x ! 0) (map (nd_map uint) ?xs)) prod = map (product_with ?f (rt_weight rt)) (map (nd_map uint) ?xs)"
    using product_concat_rows [of "map (nd_map uint) ?xs" "cm_cols (rt_weight rt)" ?f "rt_weight rt"] xs by (simp add: list_all_iff)
  then have parts': "split_rows (map (\<lambda>q. nd_shape (rq_masked_input q) ! 0) qs) prod = map (\<lambda>q. product_with ?f (rt_weight rt) (nd_map uint (rq_masked_input q))) qs"
    by (simp add: o_def)
  have len: "length ys = length qs" by (simp add: ys parts')
  have kind: "profile_ok rt ring modulus wb" using pw bd u32 unfolding profile_ok_def by auto
  have "list_all2 (answered m rt mid sid ring modulus wb) qs ys"
  proof (rule list_all2_all_nthI)
    fix i assume i: "i < length qs"
    have q: "qs ! i \<in> set qs" using i by simp
    have eq: "nd_shape (rq_masked_input (qs ! i)) = [nd_shape (rq_masked_input (qs ! i)) ! 0, cm_cols (rt_weight rt)]" using sh [OF q] by simp
    have shq: "length (nd_shape (rq_masked_input (qs ! i))) = 2" "nd_shape (rq_masked_input (qs ! i)) ! 1 = cm_cols (rt_weight rt)" by (subst eq, simp)+
    obtain y where y: "stage_product rt ring modulus (rq_masked_input (qs ! i)) = Inr y"
      using stage_product_again [OF o u32 shq range [OF q]] by auto
    have y_eq: "product_with ?f (rt_weight rt) (nd_map uint (rq_masked_input (qs ! i))) = y"
      by (rule stage_product_eq [OF W _ u32 y, symmetric]) (use sh [OF q] in auto)
    have "ys ! i = \<lparr>mr_correlation_id = rq_correlation_id (qs ! i), mr_masked_output = y, mr_modulus = modulus, mr_wire_bits = wb,
       mr_server_ns = mr_server_ns (ys ! i), mr_stage_id = sid, mr_ring = Some ring\<rparr>"
      using i pw unfolding ys parts' by (auto simp: y_eq)
    then have yi: "\<exists>ns. ys ! i = \<lparr>mr_correlation_id = rq_correlation_id (qs ! i), mr_masked_output = y, mr_modulus = modulus, mr_wire_bits = wb,
       mr_server_ns = ns, mr_stage_id = sid, mr_ring = Some ring\<rparr>" by blast
    then have "mr_masked_output (ys ! i) = y" by auto
    with y yi prof [OF q] sh [OF q] cks [OF q] show "answered m rt mid sid ring modulus wb (qs ! i) (ys ! i)" by (simp add: answered_def)
  qed (simp add: len)
  with m e' kind show ?thesis by blast
qed

text \<open>C7: Batching does not change results. For every engine, every well-formed stage and every list of decoded requests that the handler executes as one
  batch, each response of the batch is the response that the request alone gets, up to the measured time.\<close>

theorem batch_matches_single:
  assumes "execute_requests share elapsed mid sid qs e = (e', Inr ys)" and "runtime_of e mid sid = Inr rt" and "stage_ok rt"
    and "list_all request_decoded qs" and "i < length qs"
  shows "length ys = length qs \<and> (\<exists>e1 ns. execute_requests share1 elapsed1 mid sid [qs ! i] e = (e1, Inr [(ys ! i)\<lparr>mr_server_ns := ns\<rparr>]))"
proof -
  have "qs \<noteq> []" using assms(5) by auto
  from execute_accepted [OF assms(1-4) this] obtain m ring modulus wb where m: "model_of e mid = Inr m" and p: "profile_ok rt ring modulus wb"
    and a: "list_all2 (answered m rt mid sid ring modulus wb) qs ys" by blast
  from execute_answered [OF list_all2_nthD [OF a assms(5)] p m assms(2,3)] list_all2_lengthD [OF a] show ?thesis by simp
qed

text \<open>A loaded engine: every stage of every model is well formed.\<close>

definition engine_ok :: "TransformerEngine \<Rightarrow> bool" where
  "engine_ok e \<longleftrightarrow> list_all (\<lambda>(k, m). list_all (\<lambda>(j, rt). stage_ok rt) (lt_stages m)) (te_models e)"

lemma runtime_ok:
  assumes "engine_ok e" "runtime_of e mid sid = Inr rt"
  shows "stage_ok rt"
proof -
  obtain m where m: "map_of (te_models e) mid = Some m" "map_of (lt_stages m) sid = Some rt"
    using assms(2) by (auto simp: runtime_of_def model_of_def bindE_eq_Inr split: option.splits)
  then show ?thesis using assms(1) map_of_SomeD [OF m(1)] map_of_SomeD [OF m(2)] by (fastforce simp: engine_ok_def list_all_iff)
qed

lemma engine_ok_update:
  assumes "engine_ok e" "\<And>rt. stage_ok rt \<Longrightarrow> stage_ok (f rt)"
  shows "engine_ok (runtime_update mid sid f e)"
  using assms(1) by (fastforce simp: engine_ok_def runtime_update_def list_all_iff split: if_splits intro!: assms(2))

lemma stage_ok_count: "stage_ok rt \<Longrightarrow> stage_ok (count_call a b c rt)"
  by (simp add: stage_ok_def count_call_def)

lemma answered_typed:
  assumes "answered m rt mid sid ring modulus wb q y" "profile_ok rt ring modulus wb" "stage_ok rt"
  shows "mr_correlation_id y = rq_correlation_id q" "mr_stage_id y = sid" "rq_stage_id q = sid" "mr_modulus y = rq_modulus q" "mr_wire_bits y = rq_wire_bits q"
    "mr_ring y = Some (ring_or_prime (rq_ring q))" "nd_wf (mr_masked_output y)" "map int (nd_shape (mr_masked_output y)) = [int (nd_shape (rq_masked_input q) ! 0), ss_out_features (rt_spec rt)]"
    "list_all (\<lambda>w. uint w < rq_modulus q) (nd_data (mr_masked_output y))"
proof -
  obtain ns where y: "mr_correlation_id y = rq_correlation_id q" "mr_modulus y = modulus" "mr_wire_bits y = wb" "mr_stage_id y = sid"
      "mr_ring y = Some ring"
    using assms(1) unfolding answered_def by (metis MaskedStageResponse.select_convs(1,3,4,6,7))
  have q: "rq_modulus q = modulus" "rq_wire_bits q = wb" "nd_wf (rq_masked_input q)" "check_request m rt mid sid q = Inr ()"
      "ring_or_prime (rq_ring q) = ring"
    and pr: "stage_product rt ring modulus (rq_masked_input q) = Inr (mr_masked_output y)" using assms(1) by (simp_all add: answered_def)
  have W: "matrix_ok (rt_weight rt)" "ss_out_features (rt_spec rt) = int (cm_rows (rt_weight rt))" using assms(3) by (simp_all add: stage_ok_def)
  have u32: "ring = ''u32'' \<Longrightarrow> modulus = 2 ^ 32" using assms(2) by (simp add: profile_ok_def)
  note o = stage_product_eq [OF W(1) q(3) u32 pr]
  have mod: "0 < modulus" "modulus \<le> 2 ^ 32"
    using pr u32 by (auto simp: stage_product_def modular_def res_inv split: if_splits)
  show "mr_correlation_id y = rq_correlation_id q" "mr_stage_id y = sid" "mr_modulus y = rq_modulus q" "mr_wire_bits y = rq_wire_bits q"
    "mr_ring y = Some (ring_or_prime (rq_ring q))" using y q by simp_all
  show "rq_stage_id q = sid" using q(4) by (auto simp: check_request_def res_inv Let_def)
  show "nd_wf (mr_masked_output y)" by (simp add: o nd_wf_def)
  show "map int (nd_shape (mr_masked_output y)) = [int (nd_shape (rq_masked_input q) ! 0), ss_out_features (rt_spec rt)]" by (simp add: o W)
  show "list_all (\<lambda>w. uint w < rq_modulus q) (nd_data (mr_masked_output y))"
    using mod by (subst o) (auto simp: q list_all_iff product_with_def uint_mod_word)
qed

text \<open>C23: Responses are typed by their requests. Whenever the handler of a well-formed engine answers a batch of decoded requests, the engine stays
  well formed, there is one response per request in order, and each carries the identifiers, modulus, wire width and ring of its request (an absent ring
  stands for \<open>prime\<close>) with a matrix of the rows of its request and the declared output width of the stage whose elements are residues of the
  request's modulus.\<close>

theorem results_typed:
  assumes "engine_ok e" and "list_all request_decoded qs" and "execute_requests share elapsed mid sid qs e = (e', Inr ys)"
  shows "engine_ok e' \<and> list_all2 (\<lambda>q y. mr_correlation_id y = rq_correlation_id q \<and> mr_stage_id y = sid \<and> rq_stage_id q = sid
      \<and> mr_modulus y = rq_modulus q \<and> mr_wire_bits y = rq_wire_bits q \<and> mr_ring y = Some (ring_or_prime (rq_ring q)) \<and> nd_wf (mr_masked_output y)
      \<and> (\<exists>rt. runtime_of e mid sid = Inr rt \<and> map int (nd_shape (mr_masked_output y)) = [int (nd_shape (rq_masked_input q) ! 0), ss_out_features (rt_spec rt)])
      \<and> list_all (\<lambda>w. uint w < mr_modulus y) (nd_data (mr_masked_output y))) qs ys"
proof (cases "qs = []")
  case True
  then show ?thesis using assms(1,3) by (auto simp: execute_requests_def onS_eq_Inr)
next
  case False
  obtain rt where rt: "runtime_of e mid sid = Inr rt" using assms(3) by (auto simp: execute_requests_def onS_eq_Inr)
  have ok: "stage_ok rt" by (rule runtime_ok [OF assms(1) rt])
  from execute_accepted [OF assms(3) rt ok assms(2) False] obtain m ring modulus wb N where p: "profile_ok rt ring modulus wb"
    and e': "e' = runtime_update mid sid (count_call (int (length qs)) N elapsed) e"
    and a: "list_all2 (answered m rt mid sid ring modulus wb) qs ys" by blast
  have "engine_ok e'" unfolding e' using assms(1) stage_ok_count by (rule engine_ok_update)
  with a rt show ?thesis by (auto simp: answered_typed [OF _ p ok] elim!: list_all2_mono)
qed

section \<open>A small stage\<close>

definition demo_weight :: CompiledMatrix where
  "demo_weight = \<lparr>cm_reference = \<lparr>nd_shape = [2, 2], nd_data = [3, - 5, 0, 1]\<rparr>\<rparr>"

definition demo_stage :: StageRuntime where
  "demo_stage = \<lparr>rt_spec = \<lparr>ss_id = ''q'', ss_in_features = 2, ss_out_features = 2, ss_weight_bits = 4, ss_activation_bits = 4\<rparr>,
     rt_weight = demo_weight, rt_modulus = 65537, rt_wire_bits = 24, rt_calls = 0, rt_rows = 0, rt_server_ns = 0, rt_weight_digest = ''d'',
     rt_signed_output_bound = 56\<rparr>"

definition demo_engine :: TransformerEngine where
  "demo_engine = \<lparr>te_models = [(''m'', \<lparr>lt_body_fingerprint = Some ''f'', lt_stages = [(''q'', demo_stage)]\<rparr>)]\<rparr>"

definition demo_request :: "string \<Rightarrow> nat \<Rightarrow> 32 word list \<Rightarrow> MaskedStageRequest" where
  "demo_request i n xs = \<lparr>rq_model = ''m'', rq_stage_id = ''q'', rq_correlation_id = i, rq_masked_input = \<lparr>nd_shape = [n, 2], nd_data = xs\<rparr>,
     rq_modulus = 65537, rq_wire_bits = 24, rq_ring = Some ''prime'', rq_body_fingerprint = '''', rq_weight_digest = '''', rq_weight_bits = 0,
     rq_activation_bits = 0, rq_session_id = '''', rq_out_features = 0, rq_signed_output_bound = 0\<rparr>"

lemma demo_weights [simp]: "weights_of demo_weight = [[3, - 5], [0, 1]]" "nd_shape (cm_reference demo_weight) = [2, 2]" "matrix_ok demo_weight"
  by (simp_all add: weights_of_def mat_rows_def demo_weight_def matrix_ok_def nd_wf_def numeral_2_eq_2)

lemma demo_stage_fields [simp]:
  "rt_modulus demo_stage = 65537" "rt_wire_bits demo_stage = 24" "rt_weight demo_stage = demo_weight" "rt_signed_output_bound demo_stage = 56"
  "rt_weight_digest demo_stage = ''d''" "ss_in_features (rt_spec demo_stage) = 2" "ss_out_features (rt_spec demo_stage) = 2"
  "ss_weight_bits (rt_spec demo_stage) = 4" "ss_activation_bits (rt_spec demo_stage) = 4"
  by (simp_all add: demo_stage_def)

lemma demo_stage_ok: "stage_ok demo_stage"
  by (simp add: stage_ok_def)

lemma demo_lookup: "model_of demo_engine ''m'' = Inr \<lparr>lt_body_fingerprint = Some ''f'', lt_stages = [(''q'', demo_stage)]\<rparr>"
  "runtime_of demo_engine ''m'' ''q'' = Inr demo_stage"
  by (simp_all add: runtime_of_def model_of_def demo_engine_def)

lemma demo_engine_ok: "engine_ok demo_engine"
  by (simp add: engine_ok_def demo_engine_def demo_stage_ok)

definition demo_batch :: "MaskedStageRequest list" where
  "demo_batch = [demo_request ''a'' 2 [65536, 7, 5, 6], demo_request ''b'' 2 [1, 2, 3, 4]]"

lemma demo_decoded: "list_all request_decoded demo_batch"
  by (simp add: demo_batch_def demo_request_def request_decoded_def nd_wf_def ring_from_def)

lemma demo_executes: "\<exists>e' ys. execute_requests (\<lambda>_ _ _. 0) 5 ''m'' ''q'' demo_batch demo_engine = (e', Inr ys)"
proof -
  let ?x = "\<lparr>nd_shape = [4, 2], nd_data = [65536, 7, 5, 6, 1, 2, 3, 4]\<rparr> :: u32array"
  have "matrix_inputs demo_weight (nd_map uint ?x) 0 65536 True = Inr (nd_map uint ?x)" by (simp add: matrix_inputs_Inr)
  then obtain y where "stage_product demo_stage ''prime'' 65537 ?x = Inr y" by (simp add: stage_product_def modular_def)
  moreover have "concat_rows (map rq_masked_input demo_batch) = ?x" by (simp add: demo_batch_def demo_request_def concat_rows_def)
  ultimately show ?thesis
    by (simp add: execute_requests_def demo_lookup Let_def del: split_rows.simps)
      (simp add: demo_batch_def demo_request_def ring_or_prime_def check_request_def del: split_rows.simps)
qed

lemma batch_matches_single_witness:
  "\<exists>e' ys. execute_requests (\<lambda>_ _ _. 0) 5 ''m'' ''q'' demo_batch demo_engine = (e', Inr ys)
     \<and> (\<exists>e1 ns. execute_requests (\<lambda>_ _ _. 0) 5 ''m'' ''q'' [demo_batch ! 1] demo_engine = (e1, Inr [(ys ! 1)\<lparr>mr_server_ns := ns\<rparr>]))"
proof -
  obtain e' ys where x: "execute_requests (\<lambda>_ _ _. 0) 5 ''m'' ''q'' demo_batch demo_engine = (e', Inr ys)" using demo_executes by blast
  have "1 < length demo_batch" by (simp add: demo_batch_def)
  from batch_matches_single [OF x demo_lookup(2) demo_stage_ok demo_decoded this] x show ?thesis by blast
qed

lemma results_typed_witness:
  "\<exists>e' ys. execute_requests (\<lambda>_ _ _. 0) 5 ''m'' ''q'' demo_batch demo_engine = (e', Inr ys) \<and> engine_ok e' \<and> length ys = 2"
proof -
  obtain e' ys where x: "execute_requests (\<lambda>_ _ _. 0) 5 ''m'' ''q'' demo_batch demo_engine = (e', Inr ys)" using demo_executes by blast
  from results_typed [OF demo_engine_ok demo_decoded x] have "engine_ok e'" "length ys = length demo_batch" by (auto dest: list_all2_lengthD)
  with x show ?thesis by (auto simp: demo_batch_def)
qed

end
