(* ===== verification/Masked_Correct.thy ===== *)
theory Masked_Correct
  imports Stage_Execution
begin

text \<open>
  The masked stages end to end: preparation, inference and client of the prepared path, and the local correlations of the prime ring, both give the
  exact integer product.
\<close>

section \<open>Prepared stages\<close>

lemma profile_fields:
  assumes "prepared_profile r = p"
  shows "pb_ring r = rp_ring p" "pb_modulus r = rp_modulus p" "pb_wire_bits r = rp_wire_bits p" "pb_signed_output_bound r = rp_signed_output_bound p"
  using assms by (auto simp: prepared_profile_def)

lemma runtime_model: "runtime_of e mid sid = Inr rt \<Longrightarrow> \<exists>m. model_of e mid = Inr m"
  by (auto simp: runtime_of_def bindE_eq_Inr)

lemma runtime_same: "model_of e2 mid = model_of e mid \<Longrightarrow> runtime_of e2 mid sid = runtime_of e mid sid"
  by (simp add: runtime_of_def)

text \<open>What an accepted preparation tells: the request carries the stage's profile, and the correction is the masked product of the expanded mask.\<close>

lemma prepare_accepted:
  assumes rt: "runtime_of e (pb_model r) (pb_stage_id r) = Inr rt" and prep: "prepare_seeded_stage packb shake256 t0 r e = (e', Inr c)"
    and rm: "expand_preparation_mask packb shake256 r ''input-r'' = Inr rm" and sm: "expand_output_mask packb shake256 r = Inr sm"
  obtains m b t where "model_of e (pb_model r) = Inr m" "lt_body_fingerprint m = Some (pb_body_fingerprint r)"
    "pb_weight_digest r = rt_weight_digest rt" "pb_in_features r = ss_in_features (rt_spec rt)" "pb_out_features r = ss_out_features (rt_spec rt)"
    "pb_weight_bits r = ss_weight_bits (rt_spec rt)" "pb_activation_bits r = ss_activation_bits (rt_spec rt)"
    "seeded_ring_profile (rt_signed_output_bound rt) = Inr (prepared_profile r)"
    "b \<in> {16, 24, 32}" "pb_wire_bits r = b" "pb_modulus r = 2 ^ nat b" "rt_signed_output_bound rt < 2 ^ nat (b - 1)"
    "pb_ring r \<in> {''u16'', ''u24'', ''u32''}" "pb_ring r = ''u32'' \<longleftrightarrow> b = 32"
    "stage_product rt (pb_ring r) (pb_modulus r) rm = Inr t" "cp_correction c = nd_map2 (\<lambda>t s. (t - s) AND ring_mask b) t sm"
proof -
  obtain m where m: "model_of e (pb_model r) = Inr m" using runtime_model [OF rt] by blast
  have v: "validate_seeded_preparation e r = Inr ()" using prep by (cases "validate_seeded_preparation e r") (auto simp: prepare_seeded_stage_def)
  then have vf: "lt_body_fingerprint m = Some (pb_body_fingerprint r)"
    "pb_weight_digest r = rt_weight_digest rt" "pb_in_features r = ss_in_features (rt_spec rt)" "pb_out_features r = ss_out_features (rt_spec rt)"
    "pb_weight_bits r = ss_weight_bits (rt_spec rt)" "pb_activation_bits r = ss_activation_bits (rt_spec rt)"
    and prof: "seeded_ring_profile (rt_signed_output_bound rt) = Inr (prepared_profile r)"
    using m rt by (auto simp: validate_seeded_preparation_def res_inv Let_def)
  from seeded_ring_profile_Inr [OF prof] obtain b where b: "b \<in> {16, 24, 32}" "pb_wire_bits r = b" "pb_modulus r = 2 ^ nat b"
      "rt_signed_output_bound rt < 2 ^ nat (b - 1)" "pb_ring r \<in> {''u16'', ''u24'', ''u32''}" "pb_ring r = ''u32'' \<longleftrightarrow> b = 32"
    by (auto simp: prepared_profile_def)
  obtain t where t: "stage_product rt (pb_ring r) (pb_modulus r) rm = Inr t"
    and c: "cp_correction c = (let d = nd_map2 (-) t sm in if pb_wire_bits r < 32 then nd_map (\<lambda>w. w AND word_of_int (pb_modulus r - 1)) d else d)"
    using prep v rt rm sm by (auto simp: prepare_seeded_stage_def onS_eq_Inr Let_def)
  have "cp_correction c = nd_map2 (\<lambda>t s. (t - s) AND ring_mask b) t sm"
  proof (cases "b = 32")
    case True
    have "x AND ring_mask 32 = x" for x :: "32 word"
    proof (rule word_uint_eqI)
      show "uint (x AND ring_mask 32) = uint x" using uint_and_ring_mask [of 32 x] uint_lt2p [of x] by simp
    qed
    with True show ?thesis unfolding c using b(2) by (intro ndarray_eqI) simp_all
  next
    case False
    then have "word_of_int (pb_modulus r - 1) = ring_mask b" using b(1,3) by (auto simp: ring_mask_values)
    with False show ?thesis unfolding c using b(1,2) by (intro ndarray_eqI) (auto simp: Let_def)
  qed
  with that m vf prof b t show thesis by blast
qed

lemma prepared_output:
  fixes q :: "8 word ndarray" and rm sm x y0 t z :: u32array
  assumes b: "b \<in> {16, 24, 32}" and W: "matrix_ok W" and q: "nd_wf q" "nd_shape q = [n, cm_cols W]" and rm: "nd_wf rm" "nd_shape rm = nd_shape q"
    and sm: "nd_wf sm" "nd_shape sm = [n, cm_rows W]"
    and bound: "\<And>i w. i < n \<Longrightarrow> w \<in> set (weights_of W) \<Longrightarrow> \<bar>dot (map sint (mat_rows q ! i)) w\<bar> < 2 ^ nat (b - 1)"
    and x: "x = nd_map2 (\<lambda>v w. (word_of_int (sint v) - w) AND ring_mask b) q rm"
    and y0: "y0 = product_with (\<lambda>r w. word_of_int (dot r w mod 2 ^ nat b)) W (nd_map uint x)"
    and t: "t = product_with (\<lambda>r w. word_of_int (dot r w mod 2 ^ nat b)) W (nd_map uint rm)"
    and z: "z = add_correction (2 ^ nat b) y0 (nd_map2 (\<lambda>t s. (t - s) AND ring_mask b) t sm)"
  shows "nd_map2 (\<lambda>a s. sint (signed_drop_bit (nat (32 - b)) (push_bit (nat (32 - b)) (a + s)))) z sm = product_with dot W (nd_map sint q)"
    (is "nd_map2 ?g z sm = ?P")
proof (rule ndarray_eqI)
  let ?o = "cm_rows W" and ?M = "(2::int) ^ nat b"
  have sh: "nd_shape x ! 0 = n" "nd_shape rm ! 0 = n" "nd_shape q ! 0 = n" using q(2) rm(2) by (simp_all add: x)
  have lens: "length (nd_data y0) = n * ?o" "length (nd_data t) = n * ?o" "length (nd_data sm) = n * ?o" "length (nd_data z) = n * ?o"
    using sh sm by (simp_all add: y0 t z add_correction_def nd_wf_def)
  show "nd_shape (nd_map2 ?g z sm) = nd_shape ?P" using sh by (simp add: z add_correction_def y0)
  show "nd_data (nd_map2 ?g z sm) = nd_data ?P"
  proof (rule nth_equalityI)
    show "length (nd_data (nd_map2 ?g z sm)) = length (nd_data ?P)" using lens sh by simp
    fix k assume "k < length (nd_data (nd_map2 ?g z sm))"
    then have k: "k < n * ?o" using lens by simp
    have o: "0 < ?o" using W by (simp add: matrix_ok_def)
    let ?i = "k div ?o" and ?w = "weights_of W ! (k mod ?o)"
    have i: "?i < n" using k o by (simp add: div_less_iff_less_mult)
    have w: "?w \<in> set (weights_of W)" using o by (intro nth_mem) simp
    have lq: "length (mat_rows q ! ?i) = length ?w" "length (mat_rows rm ! ?i) = length ?w"
      using mat_rows_nth_length [OF q(1), of ?i] mat_rows_nth_length [OF rm(1), of ?i] q(2) rm(2) i weights_range(1) [OF W w] by simp_all
    have xi: "mat_rows x ! ?i = map2 (\<lambda>v r. (word_of_int (sint v) - r) AND ring_mask b) (mat_rows q ! ?i) (mat_rows rm ! ?i)"
      using i sh rm(2) by (simp add: x mat_rows_map2)
    have e: "nd_data y0 ! k = word_of_int (dot (map uint (mat_rows x ! ?i)) ?w mod ?M)"
      "nd_data t ! k = word_of_int (dot (map uint (mat_rows rm ! ?i)) ?w mod ?M)" "nd_data ?P ! k = dot (map sint (mat_rows q ! ?i)) ?w"
      using k o i sh by (simp_all add: y0 t product_nth mat_rows_map)
    have zk: "nd_data z ! k = word_of_int ((uint (word_of_int (dot (map uint (mat_rows x ! ?i)) ?w mod ?M) :: 32 word)
        + uint ((word_of_int (dot (map uint (mat_rows rm ! ?i)) ?w mod ?M) - nd_data sm ! k) AND ring_mask b)) mod ?M)"
      unfolding e(1,2) [symmetric] using k lens by (simp add: z add_correction_def)
    show "nd_data (nd_map2 ?g z sm) ! k = nd_data ?P ! k"
      using prepared_entry [OF b lq bound [OF i w] xi refl, of "nd_data sm ! k"] k lens by (simp add: e(3) zk)
  qed
qed

lemma signed_bound:
  assumes ok: "stage_ok rt" and q: "nd_wf q" "nd_shape q = [n, cm_cols (rt_weight rt)]"
    "list_all (\<lambda>v. \<bar>sint v\<bar> \<le> 2 ^ nat (ss_activation_bits (rt_spec rt) - 1) - 1) (nd_data (q :: 8 word ndarray))"
    and i: "i < n" and w: "w \<in> set (weights_of (rt_weight rt))"
  shows "\<bar>dot (map sint (mat_rows q ! i)) w\<bar> \<le> rt_signed_output_bound rt"
proof -
  have "matrix_ok (rt_weight rt)" using ok by (simp add: stage_ok_def)
  then have l: "length (mat_rows q ! i) = length w" using mat_rows_nth_length [OF q(1), of i] q(2) i weights_range(1) w by simp
  have "mat_rows q ! i \<in> set (mat_rows q)" using i q(2) by (intro nth_mem) simp
  then have "list_all (\<lambda>v. \<bar>v\<bar> \<le> 2 ^ nat (ss_activation_bits (rt_spec rt) - 1) - 1) (map sint (mat_rows q ! i))"
    using q(3) set_mat_rows by (fastforce simp: list_all_iff)
  then have "\<bar>dot (map sint (mat_rows q ! i)) w\<bar> \<le> (2 ^ nat (ss_activation_bits (rt_spec rt) - 1) - 1) * sum_list (map abs w)"
    using l by (intro dot_abs_sum) simp_all
  also have "\<dots> \<le> rt_signed_output_bound rt" using ok w by (simp add: stage_ok_def list_all_iff)
  finally show ?thesis .
qed

text \<open>C1: A prepared stage computes the exact integer product. For every request that the preparation accepts on a well-formed stage, for every expansion of its
  masks, and for every quantized activation within the activation width, the client's masking succeeds, the inference engine that holds the same
  model answers, the server adds the one-use correction, and unmasking yields the product of the activation with the stage's
  weights over the integers, for all three rings and any number of rows.\<close>

theorem prepared_stage_exact:
  assumes rt: "runtime_of e (pb_model r) (pb_stage_id r) = Inr rt" and ok: "stage_ok rt"
    and prep: "prepare_seeded_stage packb shake256 t0 r e = (e', Inr c)"
    and rm: "expand_preparation_mask packb shake256 r ''input-r'' = Inr rm" and sm: "expand_output_mask packb shake256 r = Inr sm"
    and same: "model_of e2 (pb_model r) = model_of e (pb_model r)"
    and q: "nd_wf q" "nd_shape q = [nat (pb_rows r), nat (pb_in_features r)]"
      "list_all (\<lambda>v. \<bar>sint v\<bar> \<le> 2 ^ nat (pb_activation_bits r - 1) - 1) (nd_data q)"
  shows "\<exists>x e3 y y'. mask_prepared_input q rm (pb_wire_bits r) = Inr x
     \<and> execute_requests share t1 (pb_model r) (pb_stage_id r) [prepared_request r attempt_id x] e2 = (e3, Inr [y])
     \<and> combine_result (pb_stage_id r) (prepared_request r attempt_id x, c, y) = Inr y'
     \<and> unmask_prepared_output (mr_masked_output y') sm (pb_wire_bits r) = Inr (product_with dot (rt_weight rt) (nd_map sint q))"
proof -
  obtain m b t where m: "model_of e (pb_model r) = Inr m" "lt_body_fingerprint m = Some (pb_body_fingerprint r)"
    and eqs: "pb_weight_digest r = rt_weight_digest rt" "pb_in_features r = ss_in_features (rt_spec rt)" "pb_out_features r = ss_out_features (rt_spec rt)"
      "pb_weight_bits r = ss_weight_bits (rt_spec rt)" "pb_activation_bits r = ss_activation_bits (rt_spec rt)"
    and prof: "seeded_ring_profile (rt_signed_output_bound rt) = Inr (prepared_profile r)"
    and b: "b \<in> {16, 24, 32}" "pb_wire_bits r = b" "pb_modulus r = 2 ^ nat b" "rt_signed_output_bound rt < 2 ^ nat (b - 1)"
    and ring: "pb_ring r \<in> {''u16'', ''u24'', ''u32''}" "pb_ring r = ''u32'' \<longleftrightarrow> b = 32"
    and t: "stage_product rt (pb_ring r) (pb_modulus r) rm = Inr t" and c: "cp_correction c = nd_map2 (\<lambda>t s. (t - s) AND ring_mask b) t sm"
    by (rule prepare_accepted [OF rt prep rm sm])
  let ?W = "rt_weight rt" and ?M = "(2::int) ^ nat b"
  have okW: "matrix_ok ?W" using ok by (simp add: stage_ok_def)
  have dims: "nat (pb_in_features r) = cm_cols ?W" "nat (pb_out_features r) = cm_rows ?W" "int (cm_cols ?W) = ss_in_features (rt_spec rt)"
    using ok eqs by (simp_all add: stage_ok_def)
  have r: "nd_wf rm" "list_all (\<lambda>w. uint w < ?M) (nd_data rm)" "nd_shape rm = nd_shape q"
    using expand_preparation_mask_Inr [OF rm] b(2) q(2) by simp_all
  have s: "nd_wf sm" "list_all (\<lambda>w. uint w < ?M) (nd_data sm)" "nd_shape sm = [nat (pb_rows r), cm_rows ?W]"
    using expand_preparation_mask_Inr [OF sm [unfolded expand_output_mask_def]] b(2) dims(2) by simp_all
  have u32: "pb_ring r = ''u32'' \<Longrightarrow> pb_modulus r = 2 ^ 32" using ring b(3) by simp
  have t_eq: "t = product_with (\<lambda>r w. word_of_int (dot r w mod ?M)) ?W (nd_map uint rm)"
    using stage_product_eq [OF okW r(1) u32 t] b(3) by simp
  define x where "x = nd_map2 (\<lambda>v w. (word_of_int (sint v) - w) AND ring_mask b) q rm"
  have x: "mask_prepared_input q rm b = Inr x" unfolding x_def by (rule mask_prepared_input_eq [OF b(1)]) (use q r in simp_all)
  have xs: "nd_shape x = nd_shape q" "nd_wf x" using q r by (auto simp: x_def)
  have xb: "list_all (\<lambda>w. uint w < pb_modulus r) (nd_data x)"
    unfolding b(3) x_def by (auto simp: list_all_iff uint_and_ring_mask [OF b(1)])
  obtain y0 where y0: "stage_product rt (pb_ring r) (pb_modulus r) x = Inr y0"
    using stage_product_again [OF t u32 _ _ xb] xs q(2) dims(1) by auto
  have y_eq: "y0 = product_with (\<lambda>r w. word_of_int (dot r w mod ?M)) ?W (nd_map uint x)"
    using stage_product_eq [OF okW xs(2) u32 y0] b(3) by simp
  let ?q = "prepared_request r attempt_id x"
  have sid: "pb_session_id r \<noteq> []" using expand_preparation_mask_Inr(1) [OF rm]
    by (auto simp: PreparationRequest_validate_def res_inv validate_identifiers_def prepared_identifiers_def)
  have rne: "ring_or_prime (Some (pb_ring r)) = pb_ring r" using ring(1) by (auto simp: ring_or_prime_def)
  have ck: "check_request m rt (pb_model r) (pb_stage_id r) ?q = Inr ()"
    using m(2) eqs prof sid rne xs(1) q(2) dims
    by (simp add: check_request_def prepared_request_def Let_def request_profile_def prepared_profile_def)
  have "\<exists>e3 ns. execute_requests share t1 (pb_model r) (pb_stage_id r) [?q] e2 = (e3, Inr [\<lparr>mr_correlation_id = rq_correlation_id ?q, mr_masked_output = y0,
     mr_modulus = rq_modulus ?q, mr_wire_bits = rq_wire_bits ?q, mr_server_ns = ns, mr_stage_id = pb_stage_id r, mr_ring = Some (pb_ring r)\<rparr>])"
  proof (rule execute_single [OF _ _ ck])
    show "model_of e2 (pb_model r) = Inr m" "runtime_of e2 (pb_model r) (pb_stage_id r) = Inr rt" using same m(1) rt runtime_same [OF same] by simp_all
  qed (use rne ring b y0 okW xs(2) u32 in \<open>auto simp: prepared_request_def\<close>)
  then obtain e3 y where ex: "execute_requests share t1 (pb_model r) (pb_stage_id r) [?q] e2 = (e3, Inr [y])"
    and y: "mr_correlation_id y = attempt_id" "mr_masked_output y = y0" "mr_modulus y = ?M" "mr_wire_bits y = b" "mr_stage_id y = pb_stage_id r" "mr_ring y = Some (pb_ring r)"
    using b by (auto simp: prepared_request_def)
  have sh: "nd_shape y0 = [nat (pb_rows r), cm_rows ?W]" "nd_shape t = [nat (pb_rows r), cm_rows ?W]" "nd_shape (cp_correction c) = [nat (pb_rows r), cm_rows ?W]"
    using q(2) xs(1) r(3) by (simp_all add: y_eq t_eq c)
  define z where "z = add_correction ?M y0 (cp_correction c)"
  have cmb: "combine_result (pb_stage_id r) (?q, c, y) = Inr (y\<lparr>mr_masked_output := z\<rparr>)"
    using y sh b by (simp add: combine_result_def prepared_request_def z_def)
  have zs: "nd_shape z = nd_shape sm" using sh s by (simp add: z_def add_correction_def)
  have lens: "length (nd_data y0) = nat (pb_rows r) * cm_rows ?W" "length (nd_data t) = nat (pb_rows r) * cm_rows ?W" "length (nd_data sm) = nat (pb_rows r) * cm_rows ?W"
    using q(2) xs(1) r(3) s by (simp_all add: y_eq t_eq nd_wf_def)
  have zw: "nd_wf z" using sh lens by (simp add: z_def add_correction_def nd_wf_def c)
  have zb: "list_all (\<lambda>w. uint w < ?M) (nd_data z)"
    unfolding z_def add_correction_def nd_map2_simps by (auto simp: list_all_iff uint_residue [OF b(1)])
  have un: "unmask_prepared_output z sm b
    = Inr (nd_map2 (\<lambda>a s. sint (signed_drop_bit (nat (32 - b)) (push_bit (nat (32 - b)) (a + s)))) z sm)"
    by (rule unmask_prepared_output_eq [OF b(1) zs zw s(1) zb s(2)])
  have bound: "\<bar>dot (map sint (mat_rows q ! i)) w\<bar> < 2 ^ nat (b - 1)" if "i < nat (pb_rows r)" "w \<in> set (weights_of ?W)" for i w
    using signed_bound [OF ok q(1) _ _ that] q(2,3) dims(1) eqs(5) b(4) by simp
  have "nd_map2 (\<lambda>a s. sint (signed_drop_bit (nat (32 - b)) (push_bit (nat (32 - b)) (a + s)))) z sm = product_with dot ?W (nd_map sint q)"
    by (rule prepared_output [OF b(1) okW q(1) _ r(1,3) s(1,3) bound x_def y_eq t_eq]) (use q(2) dims(1) c in \<open>simp_all add: z_def\<close>)
  with un have "unmask_prepared_output z sm b = Inr (product_with dot ?W (nd_map sint q))" by simp
  with x ex cmb b(2) show ?thesis by auto
qed

section \<open>Correlations of the prime ring\<close>

lemma prime_entry:
  fixes m x :: "32 word list"
  assumes p: "1 < p" "p \<le> 2 ^ 32" and len: "length q = length w" "length m = length w" and bound: "2 * \<bar>dot (map sint q) w\<bar> < p"
    and x: "x = map2 (\<lambda>v m. word_of_int ((sint (v :: 8 word) + uint m) mod p)) q m"
  shows "centered p ((uint (word_of_int (dot (map uint x) w mod p) :: 32 word) - uint (word_of_int (dot (map uint m) w mod p) :: 32 word)) mod p) = dot (map sint q) w"
proof -
  have u: "uint (word_of_int (z mod p) :: 32 word) = z mod p" for z using p by (intro uint_mod_word) simp_all
  have "dot (map uint x) w mod p = dot (map2 (-) (map sint q) (map (\<lambda>m. - uint m) m)) w mod p"
  proof (rule dot_mod)
    fix i assume i: "i < length w"
    have "uint (word_of_int ((sint (q ! i) + uint (m ! i)) mod p) :: 32 word) mod p = (sint (q ! i) - - uint (m ! i)) mod p" unfolding u by simp
    then show "map uint x ! i mod p = map2 (-) (map sint q) (map (\<lambda>m. - uint m) m) ! i mod p" using len i by (simp add: x)
  qed (use len in \<open>simp_all add: x\<close>)
  also have "dot (map2 (-) (map sint q) (map (\<lambda>m. - uint m) m)) w = dot (map sint q) w + dot (map uint m) w"
  proof -
    have "dot (map (\<lambda>m. - uint m) ms) ws = - dot (map uint ms) ws" for ms :: "32 word list" and ws
      by (induction ms ws rule: list_induct2') auto
    then show ?thesis using len by (simp add: dot_diff)
  qed
  finally have "(dot (map uint x) w mod p - dot (map uint m) w mod p) mod p = dot (map sint q) w mod p"
    by (metis add_diff_cancel_right' mod_diff_eq)
  then show ?thesis unfolding u using bound p by (simp add: centered_mod_bound [of p _ "\<bar>dot (map sint q) w\<bar>"])
qed

text \<open>The masks that NumPy's generator returns for a stage: one row of residues per correlation.\<close>

definition drawn_ok :: "StageRuntime \<Rightarrow> (string \<times> u32array) list \<Rightarrow> bool" where
  "drawn_ok rt draws \<longleftrightarrow> list_all (\<lambda>d. nd_wf (snd d) \<and> nd_shape (snd d) = [cm_cols (rt_weight rt)] \<and> list_all (\<lambda>w. uint w < rt_modulus rt) (nd_data (snd d))) draws"

lemma local_correlation_ok:
  assumes "create_local_correlation rt sid i m = Inr c" "matrix_ok (rt_weight rt)" "nd_wf m" "nd_shape m = [cm_cols (rt_weight rt)]"
  shows "sc_mask c = m" "sc_modulus c = rt_modulus rt" "sc_ring c = Some ''prime''" "sc_stage_id c = sid"
    "nd_data (sc_transformed_mask c) = map (\<lambda>w. word_of_int (dot (map uint (nd_data m)) w mod rt_modulus rt)) (weights_of (rt_weight rt))"
    "2 \<le> rt_modulus rt" "rt_modulus rt < 2 ^ 31" "int (cm_cols (rt_weight rt)) * 128 * (rt_modulus rt - 1) \<le> 2 ^ 63 - 1"
proof -
  let ?x = "\<lparr>nd_shape = 1 # nd_shape m, nd_data = map uint (nd_data m)\<rparr> :: i64array"
  obtain t where t: "modular (rt_weight rt) ?x (rt_modulus rt) = Inr t" and c: "c = \<lparr>sc_id = i, sc_stage_id = sid, sc_mask = m,
      sc_transformed_mask = \<lparr>nd_shape = tl (nd_shape t), nd_data = nd_data t\<rparr>, sc_modulus = rt_modulus rt, sc_ring = Some ''prime'', sc_consumed = False\<rparr>"
    using assms(1) by (auto simp: create_local_correlation_def bindE_eq_Inr)
  have wf: "nd_wf ?x" using assms(3,4) by (simp add: nd_wf_def)
  have l: "length (nd_data m) = cm_cols (rt_weight rt)" using assms(3,4) by (simp add: nd_wf_def)
  have "mat_rows ?x = [map uint (nd_data m)]" using assms(4) l by (simp add: mat_rows_def)
  then show "sc_mask c = m" "sc_modulus c = rt_modulus rt" "sc_ring c = Some ''prime''" "sc_stage_id c = sid"
    "nd_data (sc_transformed_mask c) = map (\<lambda>w. word_of_int (dot (map uint (nd_data m)) w mod rt_modulus rt)) (weights_of (rt_weight rt))"
    using modular_product [OF assms(2) wf t] by (simp_all add: c product_with_def)
  show "2 \<le> rt_modulus rt" "rt_modulus rt < 2 ^ 31" "int (cm_cols (rt_weight rt)) * 128 * (rt_modulus rt - 1) \<le> 2 ^ 63 - 1"
    using t by (auto simp: modular_def res_inv matrix_inputs_Inr)
qed

lemma local_correlations_ok:
  assumes "create_local_correlations e mid sid draws = Inr rows" "runtime_of e mid sid = Inr rt" "matrix_ok (rt_weight rt)" "drawn_ok rt draws" "draws \<noteq> []"
  shows "length rows = length draws" "map (\<lambda>c. nd_data (sc_mask c)) rows = map (\<lambda>d. nd_data (snd d)) draws"
    "map (\<lambda>c. nd_data (sc_transformed_mask c)) rows
       = map (\<lambda>d. map (\<lambda>w. word_of_int (dot (map uint (nd_data (snd d))) w mod rt_modulus rt)) (weights_of (rt_weight rt))) draws"
    "check_rows sid stage_ring rows (length draws) = Inr (''prime'', rt_modulus rt)"
    "2 \<le> rt_modulus rt" "rt_modulus rt < 2 ^ 31" "int (cm_cols (rt_weight rt)) * 128 * (rt_modulus rt - 1) \<le> 2 ^ 63 - 1"
proof -
  have ms: "mapE (\<lambda>d. create_local_correlation rt sid (fst d) (snd d)) draws = Inr rows"
    using assms(1) unfolding create_local_correlations_def assms(2) bindE_Inr split_def .
  show len: "length rows = length draws" using mapE_length [OF ms] .
  have one: "create_local_correlation rt sid (fst (draws ! k)) (snd (draws ! k)) = Inr (rows ! k)" if "k < length draws" for k
    by (rule mapE_nth [OF ms that])
  have d: "nd_wf (snd (draws ! k))" "nd_shape (snd (draws ! k)) = [cm_cols (rt_weight rt)]" if "k < length draws" for k
    using assms(4) that nth_mem [OF that] by (auto simp: drawn_ok_def list_all_iff)
  note ok = local_correlation_ok [OF one assms(3) d]
  show "map (\<lambda>c. nd_data (sc_mask c)) rows = map (\<lambda>d. nd_data (snd d)) draws" using ok(1) len by (intro nth_equalityI) auto
  show "map (\<lambda>c. nd_data (sc_transformed_mask c)) rows
       = map (\<lambda>d. map (\<lambda>w. word_of_int (dot (map uint (nd_data (snd d))) w mod rt_modulus rt)) (weights_of (rt_weight rt))) draws"
    using ok(5) len by (intro nth_equalityI) auto
  have all: "sc_modulus c = rt_modulus rt \<and> sc_ring c = Some ''prime'' \<and> sc_stage_id c = sid" if "c \<in> set rows" for c
    using that ok(2,3,4) len by (auto simp: in_set_conv_nth)
  show "check_rows sid stage_ring rows (length draws) = Inr (''prime'', rt_modulus rt)"
    using all len assms(5) by (cases rows) (auto simp: check_rows_def Let_def raise_if_def list_ex_iff)
  show "2 \<le> rt_modulus rt" "rt_modulus rt < 2 ^ 31" "int (cm_cols (rt_weight rt)) * 128 * (rt_modulus rt - 1) \<le> 2 ^ 63 - 1"
    using ok(6,7,8) [of 0] assms(5) by auto
qed

lemma prime_output:
  fixes q :: "8 word ndarray" and m x y0 t :: u32array
  assumes p: "1 < p" "p \<le> 2 ^ 32" and W: "matrix_ok W" and q: "nd_wf q" "nd_shape q = [n, cm_cols W]" and m: "nd_wf m" "nd_shape m = nd_shape q"
    and bound: "\<And>i w. i < n \<Longrightarrow> w \<in> set (weights_of W) \<Longrightarrow> 2 * \<bar>dot (map sint (mat_rows q ! i)) w\<bar> < p"
    and x: "x = nd_map2 (\<lambda>v m. word_of_int ((sint v + uint m) mod p)) q m"
    and y0: "y0 = product_with (\<lambda>r w. word_of_int (dot r w mod p)) W (nd_map uint x)"
    and t: "t = product_with (\<lambda>r w. word_of_int (dot r w mod p)) W (nd_map uint m)"
  shows "nd_map2 (\<lambda>v t. centered p ((uint v - uint t) mod p)) y0 t = product_with dot W (nd_map sint q)"
    (is "nd_map2 ?g y0 t = ?P")
proof (rule ndarray_eqI)
  have sh: "nd_shape x ! 0 = n" "nd_shape m ! 0 = n" "nd_shape q ! 0 = n" using q(2) m(2) by (simp_all add: x)
  show "nd_shape (nd_map2 ?g y0 t) = nd_shape ?P" using sh by (simp add: y0)
  show "nd_data (nd_map2 ?g y0 t) = nd_data ?P"
  proof (rule nth_equalityI)
    have lens: "length (nd_data y0) = n * cm_rows W" "length (nd_data t) = n * cm_rows W" using sh by (simp_all add: y0 t)
    show "length (nd_data (nd_map2 ?g y0 t)) = length (nd_data ?P)" using lens sh by simp
    fix k assume "k < length (nd_data (nd_map2 ?g y0 t))"
    then have k: "k < n * cm_rows W" using lens by simp
    have o: "0 < cm_rows W" using W by (simp add: matrix_ok_def)
    let ?i = "k div cm_rows W" and ?w = "weights_of W ! (k mod cm_rows W)"
    have i: "?i < n" using k o by (simp add: div_less_iff_less_mult)
    have w: "?w \<in> set (weights_of W)" using o by (intro nth_mem) simp
    have lq: "length (mat_rows q ! ?i) = length ?w" "length (mat_rows m ! ?i) = length ?w"
      using mat_rows_nth_length [OF q(1), of ?i] mat_rows_nth_length [OF m(1), of ?i] q(2) m(2) i weights_range(1) [OF W w] by simp_all
    have xi: "mat_rows x ! ?i = map2 (\<lambda>v m. word_of_int ((sint v + uint m) mod p)) (mat_rows q ! ?i) (mat_rows m ! ?i)"
      using i sh m(2) by (simp add: x mat_rows_map2)
    have e: "nd_data y0 ! k = word_of_int (dot (map uint (mat_rows x ! ?i)) ?w mod p)"
      "nd_data t ! k = word_of_int (dot (map uint (mat_rows m ! ?i)) ?w mod p)" "nd_data ?P ! k = dot (map sint (mat_rows q ! ?i)) ?w"
      using k o i sh by (simp_all add: y0 t product_nth mat_rows_map)
    show "nd_data (nd_map2 ?g y0 t) ! k = nd_data ?P ! k"
      using prime_entry [OF p lq bound [OF i w] xi] k lens by (simp add: e)
  qed
qed

lemma unmask_prime:
  assumes "mr_correlation_id y = sc_id c" "mr_modulus y = p" "sc_modulus c = p" "mr_ring y = Some ''prime''" "1 < p" "p \<le> 2 ^ 32"
    and "nd_shape (mr_masked_output y) = nd_shape (sc_transformed_mask c)"
  shows "unmask_stage_output y c
    = Inr (nd_map2 (\<lambda>v t. centered p ((uint v - uint t) mod p)) (mr_masked_output y) (sc_transformed_mask c))"
proof -
  have "nd_map (centered p) (nd_map (\<lambda>v. v mod p) (nd_map2 (\<lambda>v t. uint v - uint t) a b)) = nd_map2 (\<lambda>v t. centered p ((uint v - uint t) mod p)) a b"
    for a b :: u32array by (intro ndarray_eqI) auto
  then show ?thesis
    using assms by (simp add: unmask_stage_output_def or_else_def ring_from_def Let_def centered_residues_def np_mod_def raise_if_def)
qed

text \<open>C4: A remote linear stage computes the exact integer product. When the stage's modulus exceeds twice the bound of a signed product of its widths,
  whether the loader chose it or it was fixed, then for all masks drawn for local correlations and every quantized activation within the
  activation width, the correlations agree in their profile, the engine answers the masked request, and unmasking with the aggregated
  correlation yields the product with the weights over the integers.\<close>

theorem remote_linear_exact:
  assumes rt: "runtime_of e mid sid = Inr rt" and ok: "stage_ok rt"
    and wide: "signed_dot_bound (ss_in_features (rt_spec rt)) weight_bits (ss_activation_bits (rt_spec rt)) = Inr b" "2 * b < rt_modulus rt"
    and weights: "signed_qmax weight_bits = Inr qw" "list_all (list_all (\<lambda>v. \<bar>v\<bar> \<le> qw)) (weights_of (rt_weight rt))"
    and draws: "create_local_correlations e mid sid draws = Inr rows" "drawn_ok rt draws" "draws \<noteq> []"
    and q: "nd_wf q" "nd_shape q = [length draws, cm_cols (rt_weight rt)]" "signed_qmax (ss_activation_bits (rt_spec rt)) = Inr qa" "list_all (\<lambda>v. \<bar>sint v\<bar> \<le> qa) (nd_data q)"
  shows "\<exists>ring modulus e' y. check_rows sid stage_ring rows (length draws) = Inr (ring, modulus)
     \<and> execute_requests share elapsed mid sid [remote_linear_request mid sid
           (aggregate_rows batch_id sid rows (cm_cols (rt_weight rt)) (cm_rows (rt_weight rt)) ring modulus) q (rt_wire_bits rt)] e = (e', Inr [y])
     \<and> unmask_stage_output y (aggregate_rows batch_id sid rows (cm_cols (rt_weight rt)) (cm_rows (rt_weight rt)) ring modulus)
         = Inr (product_with dot (rt_weight rt) (nd_map sint q))"
proof -
  let ?W = "rt_weight rt" and ?p = "rt_modulus rt" and ?n = "length draws"
  have W: "matrix_ok ?W" using ok by (simp add: stage_ok_def)
  obtain m where m: "model_of e mid = Inr m" using runtime_model [OF rt] by blast
  note lc = local_correlations_ok [OF draws(1) rt W draws(2,3)]
  define agg where "agg = aggregate_rows batch_id sid rows (cm_cols ?W) (cm_rows ?W) ''prime'' ?p"
  have p: "1 < ?p" "?p \<le> 2 ^ 32" using lc(5,6) by simp_all
  have dl: "length (nd_data (snd d)) = cm_cols ?W" "list_all (\<lambda>w. uint w < ?p) (nd_data (snd d))" if "d \<in> set draws" for d
    using draws(2) that by (auto simp: drawn_ok_def list_all_iff nd_wf_def)
  have am: "sc_mask agg = \<lparr>nd_shape = [?n, cm_cols ?W], nd_data = concat (map (\<lambda>d. nd_data (snd d)) draws)\<rparr>"
    by (simp add: agg_def aggregate_rows_def lc(1,2))
  have at: "sc_transformed_mask agg = product_with (\<lambda>r w. word_of_int (dot r w mod ?p)) ?W (nd_map uint (sc_mask agg))"
  proof (rule ndarray_eqI)
    have "mat_rows (sc_mask agg) = map (\<lambda>d. nd_data (snd d)) draws"
      unfolding am mat_rows_def using chunks_concat [of draws "\<lambda>d. nd_data (snd d)" "cm_cols ?W"] dl(1) by simp
    then show "nd_data (sc_transformed_mask agg) = nd_data (product_with (\<lambda>r w. word_of_int (dot r w mod ?p)) ?W (nd_map uint (sc_mask agg)))"
      by (simp add: nd_data_product mat_rows_map o_def) (simp add: agg_def aggregate_rows_def lc(3))
  qed (simp add: agg_def aggregate_rows_def lc(1))
  have ms: "nd_wf (sc_mask agg)" "nd_shape (sc_mask agg) = nd_shape q"
    using length_concat_const [of draws "\<lambda>d. nd_data (snd d)"] dl(1) q(2) by (simp_all add: am nd_wf_def mult.commute)
  let ?q = "remote_linear_request mid sid agg q (rt_wire_bits rt)"
  define x where "x = rq_masked_input ?q"
  have x: "x = nd_map2 (\<lambda>v m. word_of_int ((sint v + uint m) mod ?p)) q (sc_mask agg)"
    by (simp add: x_def remote_linear_request_def masked_rows_def agg_def aggregate_rows_def)
  have xs: "nd_shape x = nd_shape q" "nd_wf x" using q(1) ms by (auto simp: x)
  have xb: "list_all (\<lambda>w. uint w < ?p) (nd_data x)" using p pos_mod_bound [of ?p] by (auto simp: x list_all_iff uint_mod_word)
  obtain y0 where y0: "stage_product rt ''prime'' ?p x = Inr y0"
  proof -
    have "matrix_inputs ?W (nd_map uint x) 0 (?p - 1) True = Inr (nd_map uint x)"
      using lc(7) xs(1) q(2) xb by (auto simp: matrix_inputs_Inr list_all_iff)
    then have "\<exists>y0. stage_product rt ''prime'' ?p x = Inr y0" using lc(5,6) by (simp add: stage_product_def modular_def)
    with that show thesis by blast
  qed
  have y_eq: "y0 = product_with (\<lambda>r w. word_of_int (dot r w mod ?p)) ?W (nd_map uint x)" by (rule stage_product_eq [OF W xs(2) _ y0]) simp
  have ck: "check_request m rt mid sid ?q = Inr ()"
    using ok q(2) xs(1) by (simp add: check_request_def Let_def x_def stage_ok_def) (simp add: remote_linear_request_def)
  have rq: "rq_modulus ?q = ?p" "rq_wire_bits ?q = rt_wire_bits rt" "ring_or_prime (rq_ring ?q) = ''prime''" "rq_correlation_id ?q = batch_id"
    by (simp_all add: remote_linear_request_def agg_def aggregate_rows_def ring_or_prime_def)
  obtain e' y where ex: "execute_requests share elapsed mid sid [?q] e = (e', Inr [y])"
    and y: "mr_correlation_id y = batch_id" "mr_masked_output y = y0" "mr_modulus y = ?p" "mr_ring y = Some ''prime''"
    using execute_single [OF m rt ck rq(3), of y0 share elapsed] rq y0 W xs(2) unfolding x_def [symmetric] by fastforce
  have un: "unmask_stage_output y agg = Inr (nd_map2 (\<lambda>v t. centered ?p ((uint v - uint t) mod ?p)) y0 (sc_transformed_mask agg))"
    using unmask_prime [of y agg ?p] y p xs(1) ms(2) by (simp add: y_eq at) (simp add: agg_def aggregate_rows_def)
  have bound: "2 * \<bar>dot (map sint (mat_rows q ! i)) w\<bar> < ?p" if i: "i < ?n" and w: "w \<in> set (weights_of ?W)" for i w
  proof -
    have "mat_rows q ! i \<in> set (mat_rows q)" using i q(2) by (intro nth_mem) simp
    then have "list_all (\<lambda>v. \<bar>v\<bar> \<le> qa) (map sint (mat_rows q ! i))" using q(4) set_mat_rows by (fastforce simp: list_all_iff)
    moreover have "list_all (\<lambda>v. \<bar>v\<bar> \<le> qw) w" using weights(2) w by (simp add: list_all_iff)
    moreover have "0 \<le> qa" "0 \<le> qw" using q(3) weights(1) by (auto simp: signed_qmax_def raise_if_eq_Inr)
    ultimately have "\<bar>dot (map sint (mat_rows q ! i)) w\<bar> \<le> int (cm_cols ?W) * qa * qw"
      using mat_rows_nth_length [OF q(1), of i] q(2) i weights_range(1) [OF W w] by (intro dot_abs_le) simp_all
    also have "\<dots> = b" using wide(1) q(3) weights(1) ok by (simp add: signed_dot_bound_def stage_ok_def algebra_simps)
    finally show ?thesis using wide(2) by linarith
  qed
  have "nd_map2 (\<lambda>v t. centered ?p ((uint v - uint t) mod ?p)) y0 (sc_transformed_mask agg) = product_with dot ?W (nd_map sint q)"
    by (rule prime_output [OF p W q(1,2) ms bound x y_eq at])
  with un have "unmask_stage_output y agg = Inr (product_with dot ?W (nd_map sint q))" by simp
  with ex lc(4) show ?thesis unfolding agg_def by blast
qed

section \<open>Concrete stages\<close>

definition demo_preparation :: PreparationRequest where
  "demo_preparation = \<lparr>pb_attempt_id = replicate 32 (CHR ''a''), pb_session_id = ''s'', pb_model = ''m'', pb_body_fingerprint = ''f'', pb_stage_id = ''q'',
     pb_weight_digest = ''d'', pb_rows = 1, pb_in_features = 2, pb_out_features = 2, pb_weight_bits = 4, pb_activation_bits = 4,
     pb_signed_output_bound = 56, pb_ring = ''u16'', pb_modulus = 65536, pb_wire_bits = 16, pr_seed = replicate 32 0\<rparr>"

definition demo_shake :: "bytes \<Rightarrow> nat \<Rightarrow> bytes" where
  "demo_shake m n = map of_nat [250..<250 + n]"

lemma demo_profile: "seeded_ring_profile 56 = Inr \<lparr>rp_signed_output_bound = 56, rp_ring = ''u16'', rp_modulus = 65536, rp_wire_bits = 16\<rparr>"
  by (simp add: seeded_ring_profile_def)

lemma demo_valid: "PreparationRequest_validate demo_preparation None None = Inr ()"
  by (simp add: PreparationRequest_validate_def demo_preparation_def validate_attempt_id_def lower_hex_def validate_identifiers_def prepared_identifiers_def
    utf8_len_def validate_shape_def check_profile_def demo_profile prepared_profile_def list_all_iff)

definition demo_mask :: u32array where
  "demo_mask = \<lparr>nd_shape = [1, 2], nd_data = [0xFBFA, 0xFDFC]\<rparr>"

lemma demo_unpack: "unpack_residues (demo_shake m 4) [1, 2] 16 = Inr demo_mask"
proof -
  have "demo_shake m 4 = [250, 251, 252, 253]" by (simp add: demo_shake_def upt_rec)
  moreover have "unpack_residues [250, 251, 252, 253] [1, 2] 16 = Inr demo_mask" by code_simp
  ultimately show ?thesis by simp
qed

lemma demo_preparation_fields [simp]:
  "pb_rows demo_preparation = 1" "pb_in_features demo_preparation = 2" "pb_out_features demo_preparation = 2" "pb_wire_bits demo_preparation = 16"
  "pb_ring demo_preparation = ''u16''" "pb_modulus demo_preparation = 65536" "pb_model demo_preparation = ''m''" "pb_stage_id demo_preparation = ''q''"
  "pb_activation_bits demo_preparation = 4" "pb_weight_bits demo_preparation = 4" "pb_weight_digest demo_preparation = ''d''"
  "pb_body_fingerprint demo_preparation = ''f''" "pb_signed_output_bound demo_preparation = 56"
  by (simp_all add: demo_preparation_def)

lemma demo_masks:
  "expand_preparation_mask packb demo_shake demo_preparation ''input-r'' = Inr demo_mask"
  "expand_output_mask packb demo_shake demo_preparation = Inr demo_mask"
  by (simp_all add: expand_output_mask_def expand_preparation_mask_def demo_valid demo_unpack)

lemma demo_prepared: "\<exists>e' c. prepare_seeded_stage packb demo_shake 3 demo_preparation demo_engine = (e', Inr c)"
proof -
  have "matrix_inputs demo_weight (nd_map uint demo_mask) 0 65535 True = Inr (nd_map uint demo_mask)" by (simp add: matrix_inputs_Inr demo_mask_def)
  then obtain y where "stage_product demo_stage ''u16'' 65536 demo_mask = Inr y" by (simp add: stage_product_def modular_def)
  moreover have "validate_seeded_preparation demo_engine demo_preparation = Inr ()"
    by (simp add: validate_seeded_preparation_def demo_lookup demo_profile prepared_profile_def)
  ultimately show ?thesis by (simp add: prepare_seeded_stage_def demo_lookup demo_masks Let_def)
qed

definition demo_activation :: "8 word ndarray" where
  "demo_activation = \<lparr>nd_shape = [1, 2], nd_data = [- 7, 6]\<rparr>"

lemma demo_product: "product_with dot demo_weight (nd_map sint demo_activation) = \<lparr>nd_shape = [1, 2], nd_data = [- 51, 6]\<rparr>"
  by (simp add: product_with_def demo_activation_def mat_rows_def numeral_2_eq_2)

lemma prepared_stage_exact_witness:
  "\<exists>e' c x e3 y y'. prepare_seeded_stage (\<lambda>_. []) demo_shake 3 demo_preparation demo_engine = (e', Inr c)
     \<and> mask_prepared_input demo_activation demo_mask 16 = Inr x
     \<and> execute_requests (\<lambda>_ _ _. 0) 9 ''m'' ''q'' [prepared_request demo_preparation ''t'' x] demo_engine = (e3, Inr [y])
     \<and> combine_result ''q'' (prepared_request demo_preparation ''t'' x, c, y) = Inr y'
     \<and> unmask_prepared_output (mr_masked_output y') demo_mask 16 = Inr \<lparr>nd_shape = [1, 2], nd_data = [- 51, 6]\<rparr>"
proof -
  obtain e' c where p: "prepare_seeded_stage (\<lambda>_. []) demo_shake 3 demo_preparation demo_engine = (e', Inr c)" using demo_prepared by blast
  have rt: "runtime_of demo_engine (pb_model demo_preparation) (pb_stage_id demo_preparation) = Inr demo_stage" by (simp add: demo_lookup)
  have q: "nd_wf demo_activation" "nd_shape demo_activation = [nat (pb_rows demo_preparation), nat (pb_in_features demo_preparation)]"
    "list_all (\<lambda>v. \<bar>sint v\<bar> \<le> 2 ^ nat (pb_activation_bits demo_preparation - 1) - 1) (nd_data demo_activation)"
    by (simp_all add: demo_activation_def nd_wf_def)
  from prepared_stage_exact [OF rt demo_stage_ok p demo_masks refl q, of "\<lambda>_ _ _. 0" 9 "''t''"] p show ?thesis
    by (simp add: demo_product)
qed

definition demo_draws :: "(string \<times> u32array) list" where
  "demo_draws = [(''a'', \<lparr>nd_shape = [2], nd_data = [65000, 12]\<rparr>), (''b'', \<lparr>nd_shape = [2], nd_data = [0, 65536]\<rparr>)]"

lemma demo_correlations: "\<exists>rows. create_local_correlations demo_engine ''m'' ''q'' demo_draws = Inr rows"
proof -
  have "matrix_inputs demo_weight \<lparr>nd_shape = [1, 2], nd_data = xs\<rparr> 0 65536 True = Inr \<lparr>nd_shape = [1, 2], nd_data = xs\<rparr>"
    if "list_all (\<lambda>v. 0 \<le> v \<and> v \<le> 65536) xs" for xs using that by (simp add: matrix_inputs_Inr)
  then show ?thesis by (simp add: create_local_correlations_def demo_lookup demo_draws_def create_local_correlation_def modular_def)
qed

lemma remote_linear_exact_witness:
  "\<exists>rows ring modulus e' y. create_local_correlations demo_engine ''m'' ''q'' demo_draws = Inr rows \<and> check_rows ''q'' ''prime'' rows 2 = Inr (ring, modulus)
     \<and> execute_requests (\<lambda>_ _ _. 0) 9 ''m'' ''q'' [remote_linear_request ''m'' ''q'' (aggregate_rows ''x'' ''q'' rows 2 2 ring modulus)
           \<lparr>nd_shape = [2, 2], nd_data = [- 7, 6, 1, 2]\<rparr> 24] demo_engine = (e', Inr [y])
     \<and> unmask_stage_output y (aggregate_rows ''x'' ''q'' rows 2 2 ring modulus) = Inr \<lparr>nd_shape = [2, 2], nd_data = [- 51, 6, - 7, 2]\<rparr>"
proof -
  let ?q = "\<lparr>nd_shape = [2, 2], nd_data = [- 7, 6, 1, 2]\<rparr> :: 8 word ndarray"
  obtain rows where r: "create_local_correlations demo_engine ''m'' ''q'' demo_draws = Inr rows" using demo_correlations by blast
  have c: "signed_dot_bound (ss_in_features (rt_spec demo_stage)) 4 (ss_activation_bits (rt_spec demo_stage)) = Inr 98" "2 * 98 < rt_modulus demo_stage"
    by (simp_all add: signed_dot_bound_def signed_qmax_def)
  have w: "signed_qmax 4 = Inr 7" "list_all (list_all (\<lambda>v. \<bar>v\<bar> \<le> 7)) (weights_of (rt_weight demo_stage))" by (simp_all add: signed_qmax_def)
  have d: "drawn_ok demo_stage demo_draws" "demo_draws \<noteq> []" by (simp_all add: drawn_ok_def demo_draws_def nd_wf_def)
  have q: "nd_wf ?q" "nd_shape ?q = [length demo_draws, cm_cols (rt_weight demo_stage)]" "signed_qmax (ss_activation_bits (rt_spec demo_stage)) = Inr 7"
    "list_all (\<lambda>v. \<bar>sint v\<bar> \<le> 7) (nd_data ?q)" by (simp_all add: nd_wf_def demo_draws_def signed_qmax_def)
  have p: "product_with dot demo_weight (nd_map sint ?q) = \<lparr>nd_shape = [2, 2], nd_data = [- 51, 6, - 7, 2]\<rparr>"
    by (simp add: product_with_def mat_rows_def numeral_2_eq_2)
  have l: "length demo_draws = 2" by (simp add: demo_draws_def)
  from remote_linear_exact [OF demo_lookup(2) demo_stage_ok c w r d q, of "''prime''" "\<lambda>_ _ _. 0" 9 "''x''"] r show ?thesis
    by (simp add: p l)
qed

end
