(* ===== verification/Share_Codec.thy ===== *)
theory Share_Codec
  imports Shared_Output Preparation_Protocol
begin

text \<open>
  The byte encodings of lookup keys and token shares (\<^verbatim>\<open>pack\<close> and \<^verbatim>\<open>unpack\<close> of \<^verbatim>\<open>runtime/shared_lookup.py\<close> and
  \<^verbatim>\<open>runtime/shared_output.py\<close>). Their maps have byte strings as keys, and the decoder runs in MessagePack's raw mode, in which texts
  arrive as the bytes of their UTF-8 form.
\<close>

section \<open>Raw decoding\<close>

definition utf8_char :: "char \<Rightarrow> bytes" where
  "utf8_char c = (let n = of_char c :: nat in if n < 128 then [of_nat n] else [of_nat (192 + n div 64), of_nat (128 + n mod 64)])"

definition utf8_encode :: "string \<Rightarrow> bytes" where
  "utf8_encode s = concat (map utf8_char s)"

text \<open>The decoder for the characters of the model; \<open>wide\<close> continues where the bytes are of another form.\<close>

fun utf8_decode :: "(bytes \<Rightarrow> string option) \<Rightarrow> bytes \<Rightarrow> string option" where
  "utf8_decode wide [] = Some []"
| "utf8_decode wide [b] = (if b < 128 then Some [char_of (unat b)] else wide [b])"
| "utf8_decode wide (b # c # bs) =
     (if b < 128 then map_option ((#) (char_of (unat b))) (utf8_decode wide (c # bs))
      else if b \<in> {194, 195} \<and> 128 \<le> c \<and> c < 192
        then map_option ((#) (char_of ((unat b - 192) * 64 + (unat c - 128)))) (utf8_decode wide bs)
      else wide (b # c # bs))"

fun raw_value :: "mval \<Rightarrow> mval" where
  "raw_value (MStr s) = MBin (utf8_encode s)"
| "raw_value (MArr xs) = MArr (map raw_value xs)"
| "raw_value (MMap kvs) = MMap (map (\<lambda>kv. (raw_value (fst kv), raw_value (snd kv))) kvs)"
| "raw_value v = v"

text \<open>The limits of a call on the lengths of byte strings, arrays and maps; \<open>None\<close> is the library's default, the length of the payload.\<close>

record unpack_limits =
  max_bin_len :: "nat option"
  max_array_len :: "nat option"
  max_map_len :: "nat option"

type_synonym raw_unpacker = "unpack_limits \<Rightarrow> bytes \<Rightarrow> mval option"

definition under :: "nat \<Rightarrow> nat option \<Rightarrow> bool" where
  "under n limit \<longleftrightarrow> (case limit of None \<Rightarrow> True | Some m \<Rightarrow> n \<le> m)"

fun in_limits :: "unpack_limits \<Rightarrow> mval \<Rightarrow> bool" where
  "in_limits l (MBin bs) = under (length bs) (max_bin_len l)"
| "in_limits l (MArr xs) = (under (length xs) (max_array_len l) \<and> list_all (in_limits l) xs)"
| "in_limits l (MMap kvs) = (under (length kvs) (max_map_len l) \<and> list_all (\<lambda>kv. in_limits l (fst kv) \<and> in_limits l (snd kv)) kvs)"
| "in_limits l v = True"

text \<open>
  In raw mode text keys would arrive as byte strings, and could then collide. The predicate speaks only of the documents that these formats send,
  whose keys are byte strings throughout.
\<close>

fun bytes_key :: "mval \<Rightarrow> bool" where
  "bytes_key (MBin bs) = True"
| "bytes_key m = False"

fun bytes_keyed :: "mval \<Rightarrow> bool" where
  "bytes_keyed (MArr xs) = list_all bytes_keyed xs"
| "bytes_keyed (MMap kvs) = list_all (\<lambda>kv. bytes_key (fst kv) \<and> bytes_keyed (snd kv)) kvs"
| "bytes_keyed m = True"

definition raw_codec_ok :: "packer \<Rightarrow> raw_unpacker \<Rightarrow> bool" where
  "raw_codec_ok packb unpackb \<longleftrightarrow>
     (\<forall>l m. msgpack_document m \<longrightarrow> bytes_keyed m \<longrightarrow> in_limits l m \<longrightarrow>
        packb m \<noteq> [] \<and> length (packb m) \<le> msgpack_size m \<and> unpackb l (packb m) = Some (raw_value m))"

lemma raw_codec_okD:
  assumes "raw_codec_ok packb unpackb" "msgpack_document m" "bytes_keyed m" "in_limits l m"
  shows "packb m \<noteq> []" "length (packb m) \<le> msgpack_size m" "unpackb l (packb m) = Some (raw_value m)"
  using assms by (auto simp: raw_codec_ok_def)

definition bfield :: "(mval \<times> mval) list \<Rightarrow> string \<Rightarrow> mval" where
  "bfield kvs k = (case map_of (rev kvs) (MBin (ascii k)) of Some v \<Rightarrow> v | None \<Rightarrow> MNil)"

definition bfields_are :: "(mval \<times> mval) list \<Rightarrow> string list \<Rightarrow> bool" where
  "bfields_are kvs names \<longleftrightarrow> set (map fst kvs) = (\<lambda>k. MBin (ascii k)) ` set names"

definition bkey_map :: "string list \<Rightarrow> mval list \<Rightarrow> mval" where
  "bkey_map names vs = MMap (zip (map (\<lambda>k. MBin (ascii k)) names) vs)"

section \<open>Lookup keys\<close>

definition LOOKUP_FIELDS :: "string list" where
  "LOOKUP_FIELDS = [''v'', ''s'', ''q'', ''c'', ''h'', ''f'', ''p'', ''n'', ''x'']"

definition lookup_doc :: "PrivateLookupKey \<Rightarrow> mval" where
  "lookup_doc k = bkey_map LOOKUP_FIELDS [MInt 1, MStr (lk_session_id k), MStr (lk_query_id k), MBin (lk_commitment_digest k), MBin (lk_channel_id k),
     MBin (lk_table_fingerprint k), MInt (int (lk_party k)), MArr (map (\<lambda>n. MInt (int n)) (nd_shape (lk_shares k))),
     MBin (tobytes_u64 (nd_data (lk_shares k)))]"

definition lookup_pack :: "packer \<Rightarrow> PrivateLookupKey \<Rightarrow> bytes" where
  "lookup_pack packb k = packb (lookup_doc k)"

text \<open>The constructor's test of the party; the model's parties are natural numbers.\<close>

definition party_nat :: "int \<Rightarrow> nat" where
  "party_nat p = (if p \<in> {0, 1} then nat p else 2)"

definition lookup_unpack :: "raw_unpacker \<Rightarrow> (bytes \<Rightarrow> string option) \<Rightarrow> bytes \<Rightarrow> int \<Rightarrow> PrivateLookupKey res" where
  "lookup_unpack unpackb wide payload maximum_bytes =
     raise_if (payload = [] \<or> int (length payload) > maximum_bytes) (SharedMPCError ''private lookup key exceeds limit'')
    (let bad = Inl (SharedMPCError ''invalid private lookup key'') in
     case unpackb \<lparr>max_bin_len = Some (nat maximum_bytes), max_array_len = Some 2, max_map_len = Some 9\<rparr> payload of
       Some (MMap kvs) \<Rightarrow>
         if \<not> bfields_are kvs LOOKUP_FIELDS \<or> bfield kvs ''v'' \<noteq> MInt 1 then bad
         else (case (bfield kvs ''n'', bfield kvs ''x'') of
           (MArr [MInt rows, MInt columns], MBin raw) \<Rightarrow>
             if rows \<le> 0 \<or> columns \<le> 0 \<or> rows > maximum_bytes div 8 div columns \<or> int (length raw) \<noteq> rows * columns * 8 then bad
             else (case (bfield kvs ''s'', bfield kvs ''q'', bfield kvs ''c'', bfield kvs ''h'', bfield kvs ''f'', bfield kvs ''p'') of
               (MBin s, MBin q, MBin c, MBin h, MBin f, MInt p) \<Rightarrow>
                 (case (utf8_decode wide s, utf8_decode wide q) of
                    (Some session_id, Some query_id) \<Rightarrow>
                      mk_PrivateLookupKey session_id query_id c h f (party_nat p) (u64_reshape raw [nat rows, nat columns])
                  | _ \<Rightarrow> bad)
             | _ \<Rightarrow> bad)
         | _ \<Rightarrow> bad)
     | _ \<Rightarrow> bad)"

section \<open>Token shares\<close>

definition TOKEN_FIELDS :: "string list" where
  "TOKEN_FIELDS = [''w'', ''s'', ''g'', ''c'', ''h'', ''p'', ''v'']"

definition token_doc :: "TokenShare \<Rightarrow> mval" where
  "token_doc t = bkey_map TOKEN_FIELDS [MInt 1, MStr (tk_session_id t), MStr (tk_generation_id t), MBin (tk_commitment_digest t),
     MBin (tk_channel_id t), MInt (int (tk_party t)), MInt (tk_value t)]"

definition token_pack :: "packer \<Rightarrow> TokenShare \<Rightarrow> bytes" where
  "token_pack packb t = packb (token_doc t)"

definition token_unpack :: "raw_unpacker \<Rightarrow> (bytes \<Rightarrow> string option) \<Rightarrow> bytes \<Rightarrow> TokenShare res" where
  "token_unpack unpackb wide payload =
     raise_if (payload = [] \<or> length payload > 4096) (SharedMPCError ''token share payload is invalid'')
    (let bad = Inl (SharedMPCError ''token share payload is malformed'') in
     case unpackb \<lparr>max_bin_len = None, max_array_len = None, max_map_len = None\<rparr> payload of
       Some (MMap kvs) \<Rightarrow>
         if \<not> bfields_are kvs TOKEN_FIELDS \<or> bfield kvs ''w'' \<noteq> MInt 1 then bad
         else (case (bfield kvs ''s'', bfield kvs ''g'', bfield kvs ''c'', bfield kvs ''h'', bfield kvs ''p'', bfield kvs ''v'') of
           (MBin s, MBin g, MBin c, MBin h, MInt p, MInt v) \<Rightarrow>
             (case (utf8_decode wide s, utf8_decode wide g) of
                (Some session_id, Some generation_id) \<Rightarrow> mk_TokenShare session_id generation_id c h (party_nat p) v
              | _ \<Rightarrow> bad)
         | _ \<Rightarrow> bad)
     | _ \<Rightarrow> bad)"

section \<open>Round trips\<close>

lemma length_utf8_encode [simp]: "length (utf8_encode s) = utf8_len s"
  by (induction s) (simp_all add: utf8_encode_def utf8_len_def utf8_char_def Let_def)

lemma utf8_decode_encode: "utf8_decode wide (utf8_encode s) = Some s"
proof (induction s)
  case (Cons c s)
  let ?n = "of_char c :: nat"
  have n: "?n < 256" by simp
  show ?case
  proof (cases "?n < 128")
    case True
    then have "utf8_encode (c # s) = of_nat ?n # utf8_encode s" by (simp add: utf8_encode_def utf8_char_def)
    moreover have "(of_nat ?n :: byte) < 128" "unat (of_nat ?n :: byte) = ?n"
      using True by (simp_all add: word_less_nat_alt unat_of_nat)
    ultimately show ?thesis using Cons by (cases "utf8_encode s") simp_all
  next
    case False
    then have e: "utf8_encode (c # s) = of_nat (192 + ?n div 64) # of_nat (128 + ?n mod 64) # utf8_encode s"
      by (simp add: utf8_encode_def utf8_char_def Let_def)
    have "2 \<le> ?n div 64" "?n div 64 < 4" using False n by (simp_all add: less_eq_div_iff_mult_less_eq div_less_iff_less_mult)
    then have d: "?n div 64 = 2 \<or> ?n div 64 = 3" by arith
    have m: "?n mod 64 < 64" by simp
    then have u: "unat (of_nat (128 + ?n mod 64) :: byte) = 128 + ?n mod 64" by (subst unat_of_nat) (rule mod_less, simp)
    have r: "128 \<le> (of_nat (128 + ?n mod 64) :: byte)" "(of_nat (128 + ?n mod 64) :: byte) < 192"
      unfolding word_le_nat_alt word_less_nat_alt u using m by simp_all
    have "?n div 64 * 64 + ?n mod 64 = ?n" by simp
    then have "(192 + ?n div 64 - 192) * 64 + (128 + ?n mod 64 - 128) = ?n" by simp
    moreover have h: "unat (of_nat (192 + ?n div 64) :: byte) = 192 + ?n div 64" using d by (auto simp: unat_of_nat)
    ultimately have "char_of ((unat (of_nat (192 + ?n div 64) :: byte) - 192) * 64 + (unat (of_nat (128 + ?n mod 64) :: byte) - 128)) = c"
      unfolding u h by (simp only: char_of_char)
    moreover have "(of_nat (192 + ?n div 64) :: byte) \<in> {194, 195}" using d by auto
    moreover have "\<not> (of_nat (192 + ?n div 64) :: byte) < 128" unfolding word_less_nat_alt h by simp
    ultimately show ?thesis unfolding e using r Cons by simp
  qed
qed (simp add: utf8_encode_def)

lemma bfields_bkey_map: "length vs = length names \<Longrightarrow> bkey_map names vs = MMap kvs \<Longrightarrow> bfields_are kvs names"
  by (auto simp: bkey_map_def bfields_are_def simp flip: set_map)

lemma ascii_inj: "ascii s = ascii t \<longleftrightarrow> s = t"
proof -
  have "inj (\<lambda>c. of_nat (of_char c) :: byte)"
  proof (rule injI)
    fix c d assume "(of_nat (of_char c) :: byte) = of_nat (of_char d)"
    then have "unat (of_nat (of_char c) :: byte) = unat (of_nat (of_char d) :: byte)" by simp
    then have "(of_char c :: nat) = of_char d" by (simp add: unat_of_nat)
    then show "c = d" by simp
  qed
  then show ?thesis by (simp add: ascii_def inj_map_eq_map)
qed

lemmas codec_simps = bkey_map_def bfield_def ascii_inj

lemma token_decode:
  assumes t: "mk_TokenShare s g c h p v = Inr t" and len: "utf8_len s + utf8_len g \<le> 3900" and ok: "raw_codec_ok packb unpackb"
  shows "token_unpack unpackb wide (token_pack packb t) = Inr t"
proof -
  have eq: "t = \<lparr>tk_session_id = s, tk_generation_id = g, tk_commitment_digest = c, tk_channel_id = h, tk_party = p, tk_value = v\<rparr>"
    and g: "s \<noteq> []" "g \<noteq> []" "length c = 32" "length h = 32" "p \<in> {0, 1}" "0 \<le> v" "v < 2 ^ 64"
    using t by (auto simp: mk_TokenShare_def raise_if_def split: if_splits)
  let ?l = "\<lparr>max_bin_len = None, max_array_len = None, max_map_len = None\<rparr>"
  have ls: "length s < 2 ^ 31" "length g < 2 ^ 31" using len utf8_len_ge [of s] utf8_len_ge [of g] by simp_all
  have v: "msgpack_document (token_doc t)" using g ls by (auto simp: msgpack_document_def token_doc_def TOKEN_FIELDS_def eq codec_simps ascii_def)
  have l: "in_limits ?l (token_doc t)" by (simp add: token_doc_def TOKEN_FIELDS_def codec_simps under_def)
  have size: "msgpack_size (token_doc t) \<le> 4096" using g len by (simp add: token_doc_def TOKEN_FIELDS_def eq codec_simps ascii_def)
  have b: "bytes_keyed (token_doc t)" by (simp add: token_doc_def TOKEN_FIELDS_def codec_simps)
  note k = raw_codec_okD [OF ok v b l] size
  have r: "raw_value (token_doc t) = bkey_map TOKEN_FIELDS [MInt 1, MBin (utf8_encode s), MBin (utf8_encode g), MBin c, MBin h, MInt (int p), MInt v]"
    by (simp add: token_doc_def TOKEN_FIELDS_def eq codec_simps)
  obtain kvs where kvs: "raw_value (token_doc t) = MMap kvs" unfolding r bkey_map_def by blast
  have f: "bfields_are kvs TOKEN_FIELDS" using kvs unfolding r by (rule bfields_bkey_map [rotated]) (simp add: TOKEN_FIELDS_def)
  have fs: "bfield kvs ''w'' = MInt 1" "bfield kvs ''s'' = MBin (utf8_encode s)" "bfield kvs ''g'' = MBin (utf8_encode g)" "bfield kvs ''c'' = MBin c"
    "bfield kvs ''h'' = MBin h" "bfield kvs ''p'' = MInt (int p)" "bfield kvs ''v'' = MInt v"
    using kvs unfolding r by (auto simp: TOKEN_FIELDS_def codec_simps)
  have p: "party_nat (int p) = p" using g(5) by (auto simp: party_nat_def)
  show ?thesis
    using k t by (simp add: token_unpack_def token_pack_def kvs f fs utf8_decode_encode p raise_if_def)
qed

lemma lookup_decode:
  assumes k: "mk_PrivateLookupKey s q c h f p x = Inr key" and wf: "nd_wf x" and rows: "0 < nd_shape x ! 0"
    and size: "int (8 * nd_size x + utf8_len s + utf8_len q) + 300 \<le> maximum_bytes" "maximum_bytes < 2 ^ 31"
    and ok: "raw_codec_ok packb unpackb"
  shows "lookup_unpack unpackb wide (lookup_pack packb key) maximum_bytes = Inr key"
proof -
  have eq: "key = \<lparr>lk_session_id = s, lk_query_id = q, lk_commitment_digest = c, lk_channel_id = h, lk_table_fingerprint = f, lk_party = p, lk_shares = x\<rparr>"
    and g: "s \<noteq> []" "q \<noteq> []" "length c = 32" "length h = 32" "length f = 32" "p \<in> {0, 1}" "length (nd_shape x) = 2" "0 < nd_shape x ! 1"
    using k by (auto simp: mk_PrivateLookupKey_def raise_if_def split: if_splits)
  obtain n m where nm: "nd_shape x = [n, m]" using g(7) by (cases "nd_shape x" rule: remdups_adj.cases) auto
  have pos: "0 < n" "0 < m" using rows g(8) nm by simp_all
  have nx: "nd_size x = n * m" "length (nd_data x) = n * m" using wf by (simp_all add: nd_size_def nd_wf_def nm)
  have lx: "length (tobytes_u64 (nd_data x)) = n * m * 8" by (simp add: nx mult.commute)
  define N where "N = n * m"
  have N: "n \<le> N" "m \<le> N" using pos by (simp_all add: N_def)
  have i: "int (8 * N + utf8_len s + utf8_len q + 300) \<le> maximum_bytes" using size by (simp add: nx N_def)
  then have sz: "8 * N + utf8_len s + utf8_len q + 300 \<le> nat maximum_bytes" "nat maximum_bytes < 2 ^ 31"
    using size(2) by (metis nat_int nat_mono, simp)
  have big: "n < 2 ^ 31" "m < 2 ^ 31" "length s < 2 ^ 31" "length q < 2 ^ 31"
    using sz N utf8_len_ge [of s] utf8_len_ge [of q] by simp_all
  let ?l = "\<lparr>max_bin_len = Some (nat maximum_bytes), max_array_len = Some 2, max_map_len = Some 9\<rparr>"
  have v: "msgpack_document (lookup_doc key)"
    using g big sz by (auto simp: msgpack_document_def lookup_doc_def LOOKUP_FIELDS_def eq codec_simps ascii_def nm nx N_def [symmetric])
  have l: "in_limits ?l (lookup_doc key)"
    using g sz by (simp add: lookup_doc_def LOOKUP_FIELDS_def eq codec_simps ascii_def under_def nm nx N_def [symmetric])
  have ds: "msgpack_size (lookup_doc key) \<le> nat maximum_bytes"
    using g sz by (simp add: lookup_doc_def LOOKUP_FIELDS_def eq codec_simps ascii_def nm nx N_def [symmetric])
  have b: "bytes_keyed (lookup_doc key)" by (simp add: lookup_doc_def LOOKUP_FIELDS_def codec_simps list_all_iff)
  note k' = raw_codec_okD [OF ok v b l] ds
  have r: "raw_value (lookup_doc key) = bkey_map LOOKUP_FIELDS [MInt 1, MBin (utf8_encode s), MBin (utf8_encode q), MBin c, MBin h, MBin f,
      MInt (int p), MArr [MInt (int n), MInt (int m)], MBin (tobytes_u64 (nd_data x))]"
    by (simp add: lookup_doc_def LOOKUP_FIELDS_def eq codec_simps nm)
  obtain kvs where kvs: "raw_value (lookup_doc key) = MMap kvs" unfolding r bkey_map_def by blast
  have fl: "bfields_are kvs LOOKUP_FIELDS" using kvs unfolding r by (rule bfields_bkey_map [rotated]) (simp add: LOOKUP_FIELDS_def)
  have fs: "bfield kvs ''v'' = MInt 1" "bfield kvs ''s'' = MBin (utf8_encode s)" "bfield kvs ''q'' = MBin (utf8_encode q)" "bfield kvs ''c'' = MBin c"
    "bfield kvs ''h'' = MBin h" "bfield kvs ''f'' = MBin f" "bfield kvs ''p'' = MInt (int p)" "bfield kvs ''n'' = MArr [MInt (int n), MInt (int m)]"
    "bfield kvs ''x'' = MBin (tobytes_u64 (nd_data x))"
    using kvs unfolding r by (auto simp: LOOKUP_FIELDS_def codec_simps)
  have p: "party_nat (int p) = p" using g(6) by (auto simp: party_nat_def)
  have "int n * int m \<le> maximum_bytes div 8" using size unfolding nx by simp
  then have "int n * int m div int m \<le> maximum_bytes div 8 div int m" by (rule zdiv_mono1) (use pos in simp)
  then have dims: "int n \<le> maximum_bytes div 8 div int m" using pos by simp
  have same: "u64_reshape (tobytes_u64 (nd_data x)) [n, m] = x"
    by (rule ndarray_eqI) (simp_all add: u64_reshape_def nm)
  have fits: "\<not> maximum_bytes < int (length (packb (lookup_doc key)))" using k'(2,4) i by linarith
  show ?thesis
    using k' k dims pos lx fits by (simp add: lookup_unpack_def lookup_pack_def kvs fl fs utf8_decode_encode p raise_if_def same)
qed

text \<open>C37: Lookup keys and token shares of bounded identifiers survive their wire format. Let the MessagePack library decode, within the limits of the
  call, the documents with byte-string keys that it encodes. Then a token share that the constructor accepts, and whose session and generation identifiers take
  together at most 3900 bytes of UTF-8 (the reader refuses a payload over 4096 bytes), unpacks to itself. And a lookup key that the constructor accepts,
  of a well-formed array with at least one row, unpacks to itself under every limit below \<open>2 ^ 31\<close> that exceeds the bytes of its shares and
  identifiers by at least 300.\<close>

theorem share_codecs_roundtrip:
  assumes ok: "raw_codec_ok packb unpackb"
    and t: "mk_TokenShare s g c h p v = Inr t" "utf8_len s + utf8_len g \<le> 3900"
    and k: "mk_PrivateLookupKey s' q c' h' f p' x = Inr key" "nd_wf x" "0 < nd_shape x ! 0"
      "int (8 * nd_size x + utf8_len s' + utf8_len q) + 300 \<le> maximum_bytes" "maximum_bytes < 2 ^ 31"
  shows "token_unpack unpackb wide (token_pack packb t) = Inr t
     \<and> lookup_unpack unpackb wide (lookup_pack packb key) maximum_bytes = Inr key"
  using token_decode [OF t ok] lookup_decode [OF k ok] by blast

definition raw_msg_unpackb :: raw_unpacker where
  "raw_msg_unpackb l bs = map_option raw_value (msg_unpackb bs)"

lemma raw_msg_codec: "raw_codec_ok msg_enc raw_msg_unpackb"
  using msg_codec_ok by (auto simp: raw_codec_ok_def codec_ok_def raw_msg_unpackb_def)

lemma share_codecs_roundtrip_witness:
  "token_unpack raw_msg_unpackb (\<lambda>_. None) (token_pack msg_enc
       \<lparr>tk_session_id = ''s'', tk_generation_id = ''g'', tk_commitment_digest = replicate 32 1, tk_channel_id = replicate 32 2, tk_party = 1, tk_value = 2 ^ 64 - 1\<rparr>)
     = Inr \<lparr>tk_session_id = ''s'', tk_generation_id = ''g'', tk_commitment_digest = replicate 32 1, tk_channel_id = replicate 32 2, tk_party = 1, tk_value = 2 ^ 64 - 1\<rparr>
   \<and> lookup_unpack raw_msg_unpackb (\<lambda>_. None) (lookup_pack msg_enc
       \<lparr>lk_session_id = ''s'', lk_query_id = ''q'', lk_commitment_digest = replicate 32 1, lk_channel_id = replicate 32 2, lk_table_fingerprint = replicate 32 3,
        lk_party = 0, lk_shares = \<lparr>nd_shape = [1, 3], nd_data = [0, 1, - 1]\<rparr>\<rparr>) 1000
     = Inr \<lparr>lk_session_id = ''s'', lk_query_id = ''q'', lk_commitment_digest = replicate 32 1, lk_channel_id = replicate 32 2, lk_table_fingerprint = replicate 32 3,
        lk_party = 0, lk_shares = \<lparr>nd_shape = [1, 3], nd_data = [0, 1, - 1]\<rparr>\<rparr>"
  by (rule share_codecs_roundtrip [where s = "''s''" and g = "''g''" and c = "replicate 32 1" and h = "replicate 32 2" and p = 1 and v = "2 ^ 64 - 1"
        and s' = "''s''" and q = "''q''" and c' = "replicate 32 1" and h' = "replicate 32 2" and f = "replicate 32 3" and p' = 0
        and x = "\<lparr>nd_shape = [1, 3], nd_data = [0, 1, - 1]\<rparr>"])
    (simp_all add: raw_msg_codec mk_TokenShare_def mk_PrivateLookupKey_def raise_if_def utf8_len_def nd_wf_def nd_size_def)

end
