(* ===== verification/Inflight_Prefix.thy ===== *)
theory Inflight_Prefix
  imports Preparation_Protocol "HOL-Library.AList"
begin

text \<open>
  The ownership of pending prefills (\<^verbatim>\<open>runtime/inflight_prefix.py\<close>): one client's requests that share the computation of a prompt prefix. Every
  method runs under the owner's lock and is one definition; a wait is split at its condition. Nodes and requests are objects, kept in stores and named by their
  position. The published arrays are of a type \<open>'p\<close>; what the owner does with them is a record of functions: the check, the keyed commitment, and zeroing.
  The concrete check of a snapshot is at the end of the theory.
\<close>

section \<open>Bindings and resources\<close>

record InflightBinding =
  ib_source_digest :: string
  ib_composition_digest :: string
  ib_compiled_digest :: string
  ib_state_binding_digest :: string
  ib_native_prefill_digest :: string

definition mk_InflightBinding :: "string \<Rightarrow> string \<Rightarrow> string \<Rightarrow> string \<Rightarrow> string \<Rightarrow> InflightBinding res" where
  "mk_InflightBinding a b c d e =
     raise_if (list_ex (\<lambda>v. length v \<noteq> 64 \<or> \<not> list_all (\<lambda>x. x \<in> set ''0123456789abcdef'') v) [a, b, c, d, e])
       (ValueError ''invalid in-flight source/runtime binding'')
       (Inr \<lparr>ib_source_digest = a, ib_composition_digest = b, ib_compiled_digest = c, ib_state_binding_digest = d, ib_native_prefill_digest = e\<rparr>)"

record InflightResources =
  ir_layers :: int
  ir_kv_heads :: int
  ir_head_dim :: int
  ir_vocab_size :: int
  ir_capacity_tokens :: int

definition kv_row_bytes :: "InflightResources \<Rightarrow> int" where
  "kv_row_bytes r = ir_layers r * 2 * ir_kv_heads r * ir_head_dim r * 4"

definition logits_bytes :: "InflightResources \<Rightarrow> int" where
  "logits_bytes r = ir_vocab_size r * 4"

definition runtime_overlap_bytes :: "InflightResources \<Rightarrow> int" where
  "runtime_overlap_bytes r = 2 * ir_capacity_tokens r * kv_row_bytes r + logits_bytes r"

definition mk_InflightResources :: "int \<Rightarrow> int \<Rightarrow> int \<Rightarrow> int \<Rightarrow> int \<Rightarrow> InflightResources res" where
  "mk_InflightResources layers kv_heads head_dim vocab_size capacity_tokens =
     (let r = \<lparr>ir_layers = layers, ir_kv_heads = kv_heads, ir_head_dim = head_dim, ir_vocab_size = vocab_size, ir_capacity_tokens = capacity_tokens\<rparr> in
      raise_if (list_ex (\<lambda>n. \<not> (1 \<le> n \<and> n \<le> 1000000)) [layers, kv_heads, head_dim, vocab_size, capacity_tokens])
        (ValueError ''invalid in-flight resource geometry'')
     (raise_if (runtime_overlap_bytes r > 2 ^ 63 - 1) (ValueError ''in-flight resource geometry overflow'') (Inr r)))"

text \<open>\<open>payload_size\<close> is the value of \<open>payload_bytes\<close> for a prefix that its check admits.\<close>

definition payload_size :: "InflightResources \<Rightarrow> int \<Rightarrow> int" where
  "payload_size r prefix_tokens = prefix_tokens * kv_row_bytes r + logits_bytes r"

definition payload_bytes :: "InflightResources \<Rightarrow> int \<Rightarrow> int res" where
  "payload_bytes r prefix_tokens =
     raise_if (\<not> (1 \<le> prefix_tokens \<and> prefix_tokens \<le> ir_capacity_tokens r)) (ValueError ''prefix exceeds compiled runtime capacity'')
       (Inr (payload_size r prefix_tokens))"

definition producer_bytes :: "InflightResources \<Rightarrow> int \<Rightarrow> int res" where
  "producer_bytes r prefix_tokens = bindE (payload_bytes r prefix_tokens) (\<lambda>p. Inr (2 * p + runtime_overlap_bytes r))"

definition branch_bytes :: "InflightResources \<Rightarrow> int \<Rightarrow> int res" where
  "branch_bytes r prefix_tokens = bindE (payload_bytes r prefix_tokens) (\<lambda>p. Inr (p + runtime_overlap_bytes r))"

section \<open>Nodes, requests and the owner\<close>

datatype node_status = Pending | Published | Failed

record 'p Node =
  no_key :: bytes
  no_binding :: InflightBinding
  no_resources :: InflightResources
  no_tokens :: "int list"
  no_reservation :: int
  no_cancel :: bool
  no_requests :: "nat list"
  no_active :: bool
  no_status :: node_status
  no_result :: "'p option"
  no_commitment :: "bytes option"

record 'p InflightRequest =
  iq_node :: nat
  iq_producer :: bool
  iq_prefix_tokens :: int
  iq_reservation :: int
  iq_released :: bool
  iq_cancelled :: bool
  iq_lease :: "'p option"

record inflight_stats =
  is_reserved_bytes :: int
  is_peak_reserved_bytes :: int
  is_requests :: int
  is_producer_registrations :: int
  is_publications :: int
  is_joins :: int
  is_failures :: int
  is_cancellations :: int
  is_cancelled_producers :: int
  is_retired :: int
  is_copy_bytes :: int
  is_bound_rejections :: int
  is_cache_bypasses :: int

record 'p InflightPrefixOwner =
  ow_max_requests :: int
  ow_max_nodes :: int
  ow_max_bytes :: int
  ow_secret :: bytes
  ow_pending :: "(bytes \<times> nat) list"
  ow_nodes :: "nat list"
  ow_closed :: bool
  ow_stats :: inflight_stats
  ow_node :: "'p Node list"
  ow_request :: "'p InflightRequest list"

definition InflightPrefixOwner_init :: "int \<Rightarrow> int \<Rightarrow> int option \<Rightarrow> bytes \<Rightarrow> 'p InflightPrefixOwner res" where
  "InflightPrefixOwner_init max_requests max_bytes max_nodes secret =
     (let nodes = (case max_nodes of None \<Rightarrow> max_requests | Some n \<Rightarrow> n) in
      raise_if (\<not> (1 \<le> max_requests \<and> max_requests \<le> 64) \<or> \<not> (1 \<le> nodes \<and> nodes \<le> 64) \<or> \<not> (1 \<le> max_bytes \<and> max_bytes \<le> 256 * 2 ^ 20))
        (ValueError ''invalid in-flight owner bounds'')
        (Inr \<lparr>ow_max_requests = max_requests, ow_max_nodes = nodes, ow_max_bytes = max_bytes, ow_secret = secret, ow_pending = [], ow_nodes = [],
           ow_closed = False,
           ow_stats = \<lparr>is_reserved_bytes = 0, is_peak_reserved_bytes = 0, is_requests = 0, is_producer_registrations = 0, is_publications = 0, is_joins = 0,
             is_failures = 0, is_cancellations = 0, is_cancelled_producers = 0, is_retired = 0, is_copy_bytes = 0, is_bound_rejections = 0, is_cache_bypasses = 0\<rparr>,
           ow_node = [], ow_request = []\<rparr>))"

abbreviation node_of :: "'p InflightPrefixOwner \<Rightarrow> nat \<Rightarrow> 'p Node" where
  "node_of s n \<equiv> ow_node s ! n"

abbreviation request_of :: "'p InflightPrefixOwner \<Rightarrow> nat \<Rightarrow> 'p InflightRequest" where
  "request_of s r \<equiv> ow_request s ! r"

definition upd_node :: "nat \<Rightarrow> ('p Node \<Rightarrow> 'p Node) \<Rightarrow> 'p InflightPrefixOwner \<Rightarrow> 'p InflightPrefixOwner" where
  "upd_node n f s = s\<lparr>ow_node := (ow_node s)[n := f (ow_node s ! n)]\<rparr>"

definition upd_request :: "nat \<Rightarrow> ('p InflightRequest \<Rightarrow> 'p InflightRequest) \<Rightarrow> 'p InflightPrefixOwner \<Rightarrow> 'p InflightPrefixOwner" where
  "upd_request r f s = s\<lparr>ow_request := (ow_request s)[r := f (ow_request s ! r)]\<rparr>"

definition upd_stats :: "(inflight_stats \<Rightarrow> inflight_stats) \<Rightarrow> 'p InflightPrefixOwner \<Rightarrow> 'p InflightPrefixOwner" where
  "upd_stats f s = s\<lparr>ow_stats := f (ow_stats s)\<rparr>"

text \<open>What the owner calls on arrays: the check of a node's snapshot, the commitment under the secret, and zeroing.\<close>

record 'p array_ops =
  ao_validate :: "InflightBinding \<Rightarrow> InflightResources \<Rightarrow> int list \<Rightarrow> 'p \<Rightarrow> unit res"
  ao_commit :: "bytes \<Rightarrow> 'p \<Rightarrow> bytes"
  ao_erase :: "'p \<Rightarrow> 'p"

section \<open>Retirement, failure and release\<close>

definition unindex :: "nat \<Rightarrow> 'p InflightPrefixOwner \<Rightarrow> 'p InflightPrefixOwner" where
  "unindex n s = (if map_of (ow_pending s) (no_key (node_of s n)) = Some n
     then s\<lparr>ow_pending := AList.delete (no_key (node_of s n)) (ow_pending s)\<rparr> else s)"

definition mark_failed :: "nat \<Rightarrow> 'p InflightPrefixOwner \<Rightarrow> 'p InflightPrefixOwner" where
  "mark_failed n s =
     (let s = (if no_status (node_of s n) \<noteq> Failed
               then upd_stats (\<lambda>t. t\<lparr>is_failures := is_failures t + 1\<rparr>) (upd_node n (\<lambda>x. x\<lparr>no_status := Failed\<rparr>) s) else s)
      in unindex n s)"

definition zero_secret :: "'p InflightPrefixOwner \<Rightarrow> 'p InflightPrefixOwner" where
  "zero_secret s = s\<lparr>ow_secret := replicate (length (ow_secret s)) 0\<rparr>"

definition retire :: "nat \<Rightarrow> 'p InflightPrefixOwner \<Rightarrow> 'p InflightPrefixOwner" where
  "retire n s =
     (if no_requests (node_of s n) \<noteq> [] \<or> no_active (node_of s n) \<or> n \<notin> set (ow_nodes s) then s
      else let s = unindex n s;
               reservation = no_reservation (node_of s n);
               s = upd_node n (\<lambda>x. x\<lparr>no_result := None, no_tokens := map (\<lambda>_. 0) (no_tokens x), no_commitment := None, no_key := []\<rparr>) s;
               s = upd_stats (\<lambda>t. t\<lparr>is_reserved_bytes := is_reserved_bytes t - reservation, is_retired := is_retired t + 1\<rparr>)
                     (s\<lparr>ow_nodes := removeAll n (ow_nodes s)\<rparr>)
           in if ow_closed s \<and> ow_nodes s = [] then zero_secret s else s)"

definition cancel_producer :: "nat \<Rightarrow> 'p InflightPrefixOwner \<Rightarrow> 'p InflightPrefixOwner" where
  "cancel_producer n s =
     (if no_active (node_of s n) \<and> \<not> no_cancel (node_of s n)
      then upd_stats (\<lambda>t. t\<lparr>is_cancelled_producers := is_cancelled_producers t + 1\<rparr>) (upd_node n (\<lambda>x. x\<lparr>no_cancel := True\<rparr>) s) else s)"

definition release :: "'p array_ops \<Rightarrow> nat \<Rightarrow> 'p InflightPrefixOwner \<Rightarrow> 'p InflightPrefixOwner" where
  "release ops r s =
     (if iq_released (request_of s r) then s
      else let n = iq_node (request_of s r);
               s = upd_request r (\<lambda>q. q\<lparr>iq_released := True, iq_lease := map_option (ao_erase ops) (iq_lease q)\<rparr>) s;
               s = upd_node n (\<lambda>x. x\<lparr>no_requests := removeAll r (no_requests x)\<rparr>) s;
               s = upd_stats (\<lambda>t. t\<lparr>is_requests := is_requests t - 1, is_reserved_bytes := is_reserved_bytes t - iq_reservation (request_of s r)\<rparr>) s;
               s = (if no_requests (node_of s n) = [] then cancel_producer n (unindex n s) else s)
           in retire n s)"

definition cancel_request :: "'p array_ops \<Rightarrow> nat \<Rightarrow> 'p InflightPrefixOwner \<Rightarrow> 'p InflightPrefixOwner" where
  "cancel_request ops r s =
     (if iq_released (request_of s r) \<or> iq_cancelled (request_of s r) then s
      else let s = upd_stats (\<lambda>t. t\<lparr>is_cancellations := is_cancellations t + 1\<rparr>) (upd_request r (\<lambda>q. q\<lparr>iq_cancelled := True\<rparr>) s)
           in if iq_lease (request_of s r) = None then release ops r s else s)"

section \<open>Registration\<close>

text \<open>Joinable nodes, in the insertion order of the index, and the first of them with the most tokens.\<close>

definition candidates :: "InflightBinding \<Rightarrow> InflightResources \<Rightarrow> int list \<Rightarrow> 'p InflightPrefixOwner \<Rightarrow> nat list" where
  "candidates binding resources values s =
     filter (\<lambda>n. let x = node_of s n in no_binding x = binding \<and> no_resources x = resources \<and> length (no_tokens x) \<le> length values
        \<and> no_tokens x = take (length (no_tokens x)) values) (map snd (ow_pending s))"

fun longest :: "'p InflightPrefixOwner \<Rightarrow> nat list \<Rightarrow> nat option" where
  "longest s [] = None"
| "longest s (n # ns) = (case longest s ns of
     None \<Rightarrow> Some n
   | Some m \<Rightarrow> Some (if length (no_tokens (node_of s m)) > length (no_tokens (node_of s n)) then m else n))"

text \<open>\<open>key_of\<close> is the keyed digest of binding and tokens; \<open>admit\<close> the caller's admission of a prefix and a suffix.\<close>

definition lookup_or_register ::
  "(bytes \<Rightarrow> InflightBinding \<Rightarrow> int list \<Rightarrow> bytes) \<Rightarrow> bool \<Rightarrow> InflightBinding \<Rightarrow> int list \<Rightarrow> InflightResources \<Rightarrow> (int \<Rightarrow> int \<Rightarrow> unit res) \<Rightarrow> bool
     \<Rightarrow> 'p InflightPrefixOwner \<Rightarrow> 'p InflightPrefixOwner \<times> nat option res" where
  "lookup_or_register key_of same_client binding values resources admit completed_cache_hit s =
     raiseS (\<not> same_client) (ValueError ''in-flight trusted client/binding mismatch'') s
    (raiseS (\<not> (1 \<le> int (length values) \<and> int (length values) \<le> min 4096 (ir_capacity_tokens resources))) (ValueError ''invalid bounded in-flight tokens'') s
    (raiseS (list_ex (\<lambda>t. \<not> (0 \<le> t \<and> t < min (ir_vocab_size resources) (2 ^ 32))) values) (ValueError ''invalid in-flight token IDs'') s
    (raiseS (ow_closed s) (InflightCancelled ''in-flight client closed'') s
    (if completed_cache_hit then (upd_stats (\<lambda>t. t\<lparr>is_cache_bypasses := is_cache_bypasses t + 1\<rparr>) s, Inr None)
     else let found = longest s (candidates binding resources values s);
              prefix = (case found of Some n \<Rightarrow> int (length (no_tokens (node_of s n))) | None \<Rightarrow> int (length values)) in
       onS (branch_bytes resources prefix) s (\<lambda>branch.
       onS (if found = None then producer_bytes resources prefix else Inr 0) s (\<lambda>producer.
       if is_requests (ow_stats s) \<ge> ow_max_requests s \<or> found = None \<and> int (length (ow_nodes s)) \<ge> ow_max_nodes s
          \<or> is_reserved_bytes (ow_stats s) + branch + producer > ow_max_bytes s
       then (upd_stats (\<lambda>t. t\<lparr>is_bound_rejections := is_bound_rejections t + 1\<rparr>) s, Inr None)
       else onS (admit prefix (int (length values) - prefix)) s (\<lambda>_.
         let (n, s) = (case found of
               Some n \<Rightarrow> (n, upd_stats (\<lambda>t. t\<lparr>is_joins := is_joins t + 1\<rparr>) s)
             | None \<Rightarrow>
                 (let key = key_of (ow_secret s) binding values; n = length (ow_node s);
                      x = \<lparr>no_key = key, no_binding = binding, no_resources = resources, no_tokens = values, no_reservation = producer, no_cancel = False,
                           no_requests = [], no_active = True, no_status = Pending, no_result = None, no_commitment = None\<rparr>
                  in (n, upd_stats (\<lambda>t. t\<lparr>is_producer_registrations := is_producer_registrations t + 1\<rparr>)
                       (s\<lparr>ow_node := ow_node s @ [x], ow_nodes := ow_nodes s @ [n], ow_pending := AList.update key n (ow_pending s)\<rparr>))));
             r = length (ow_request s);
             q = \<lparr>iq_node = n, iq_producer = (producer \<noteq> 0), iq_prefix_tokens = int (length (no_tokens (node_of s n))), iq_reservation = branch,
                  iq_released = False, iq_cancelled = False, iq_lease = None\<rparr>;
             s = upd_node n (\<lambda>x. x\<lparr>no_requests := no_requests x @ [r]\<rparr>) (s\<lparr>ow_request := ow_request s @ [q]\<rparr>);
             s = upd_stats (\<lambda>t. t\<lparr>is_requests := is_requests t + 1, is_reserved_bytes := is_reserved_bytes t + (producer + branch),
                   is_peak_reserved_bytes := max (is_peak_reserved_bytes t) (is_reserved_bytes t + (producer + branch))\<rparr>) s
         in (s, Inr (Some r)))))))))"

section \<open>Producers\<close>

definition producer_node :: "nat \<Rightarrow> 'p InflightPrefixOwner \<Rightarrow> nat res" where
  "producer_node r s =
     raise_if (length (ow_request s) \<le> r \<or> \<not> iq_producer (request_of s r) \<or> iq_node (request_of s r) \<notin> set (ow_nodes s))
       (RuntimeError ''invalid or retired in-flight producer'') (Inr (iq_node (request_of s r)))"

text \<open>
  \<open>first\<close>, \<open>saved\<close> and \<open>final\<close> are the caller's arrays when the first commitment reads them, when they are copied, and when the last commitment reads them:
  they differ when the caller changes them during the call. \<open>oom\<close> is what the allocation of the copy raises, if it does.
\<close>

definition publish_checks :: "'p array_ops \<Rightarrow> 'p Node \<Rightarrow> bytes \<Rightarrow> 'p \<Rightarrow> 'p \<Rightarrow> 'p \<Rightarrow> py_error option \<Rightarrow> bytes res" where
  "publish_checks ops x secret first saved final oom =
     (let check = ao_validate ops (no_binding x) (no_resources x) (no_tokens x) in
      bindE (check first) (\<lambda>_. let before = ao_commit ops secret first in
      bindE (case oom of None \<Rightarrow> Inr () | Some e \<Rightarrow> Inl e) (\<lambda>_.
      bindE (check saved) (\<lambda>_.
      raise_if (before \<noteq> ao_commit ops secret saved \<or> before \<noteq> ao_commit ops secret final) (ValueError ''in-flight snapshot mutated during publication'')
        (Inr before)))))"

definition publish ::
  "'p array_ops \<Rightarrow> nat \<Rightarrow> 'p \<Rightarrow> 'p \<Rightarrow> 'p \<Rightarrow> py_error option \<Rightarrow> 'p InflightPrefixOwner \<Rightarrow> 'p InflightPrefixOwner \<times> unit res" where
  "publish ops r first saved final oom s =
     onS (producer_node r s) s (\<lambda>n. let x = node_of s n in
     raiseS (\<not> no_active x \<or> no_status x \<noteq> Pending \<or> no_cancel x) (InflightCancelled ''in-flight producer no longer publishable'') s
     (case publish_checks ops x (ow_secret s) first saved final oom of
        Inl e \<Rightarrow> (mark_failed n s, Inl e)
      | Inr before \<Rightarrow>
          (let s = upd_node n (\<lambda>x. x\<lparr>no_result := Some saved, no_commitment := Some before, no_status := Published\<rparr>) s;
               s = upd_stats (\<lambda>t. t\<lparr>is_publications := is_publications t + 1,
                     is_copy_bytes := is_copy_bytes t + payload_size (no_resources x) (int (length (no_tokens x)))\<rparr>) (unindex n s)
           in (s, Inr ()))))"

definition fail_producer :: "nat \<Rightarrow> 'p InflightPrefixOwner \<Rightarrow> 'p InflightPrefixOwner \<times> unit res" where
  "fail_producer r s =
     onS (producer_node r s) s (\<lambda>n.
     raiseS (\<not> no_active (node_of s n)) (RuntimeError ''in-flight producer already finished'') s (mark_failed n s, Inr ()))"

definition finish_producer :: "nat \<Rightarrow> 'p InflightPrefixOwner \<Rightarrow> 'p InflightPrefixOwner \<times> unit res" where
  "finish_producer r s =
     raiseS (length (ow_request s) \<le> r \<or> \<not> iq_producer (request_of s r)) (RuntimeError ''not an in-flight producer'') s
    (let n = iq_node (request_of s r) in
     if \<not> no_active (node_of s n) then (s, Inr ())
     else let s = (if no_status (node_of s n) = Pending then mark_failed n s else s);
              s = upd_node n (\<lambda>x. x\<lparr>no_active := False\<rparr>) s
          in (retire n s, Inr ()))"

section \<open>Waiting\<close>

text \<open>The outcome \<open>Inr None\<close> stands for a thread that still waits.\<close>

definition wait_checked :: "nat \<Rightarrow> 'p InflightPrefixOwner \<Rightarrow> 'p InflightPrefixOwner \<times> 'p option res \<Rightarrow> 'p InflightPrefixOwner \<times> 'p option res" where
  "wait_checked r s k =
     raiseS (iq_released (request_of s r) \<or> iq_cancelled (request_of s r) \<or> ow_closed s) (InflightCancelled ''in-flight request cancelled'') s
       (if iq_lease (request_of s r) \<noteq> None then (s, Inr (iq_lease (request_of s r))) else k)"

definition wait_ready :: "nat \<Rightarrow> 'p InflightPrefixOwner \<Rightarrow> bool" where
  "wait_ready r s \<longleftrightarrow> no_status (node_of s (iq_node (request_of s r))) \<noteq> Pending \<or> iq_cancelled (request_of s r) \<or> iq_released (request_of s r) \<or> ow_closed s"

text \<open>The branch copy: \<open>copied\<close> is what the copy of the published arrays reads, \<open>oom\<close> what its allocation raises.\<close>

definition wait_copy :: "'p array_ops \<Rightarrow> nat \<Rightarrow> 'p \<Rightarrow> py_error option \<Rightarrow> 'p InflightPrefixOwner \<Rightarrow> 'p InflightPrefixOwner \<times> 'p option res" where
  "wait_copy ops r copied oom s =
     (let x = node_of s (iq_node (request_of s r)) in
      case bindE (case oom of None \<Rightarrow> Inr () | Some e \<Rightarrow> Inl e) (\<lambda>_.
             raise_if (no_commitment x \<noteq> Some (ao_commit ops (ow_secret s) copied)) (ValueError ''in-flight branch copy mutated'') (Inr ())) of
        Inl e \<Rightarrow> (release ops r s, Inl e)
      | Inr _ \<Rightarrow>
          (upd_stats (\<lambda>t. t\<lparr>is_copy_bytes := is_copy_bytes t + payload_size (no_resources x) (iq_prefix_tokens (request_of s r))\<rparr>)
             (upd_request r (\<lambda>q. q\<lparr>iq_lease := Some copied\<rparr>) s), Inr (Some copied)))"

definition wait_resume ::
  "'p array_ops \<Rightarrow> nat \<Rightarrow> bool \<Rightarrow> ('p \<Rightarrow> 'p) \<Rightarrow> py_error option \<Rightarrow> 'p InflightPrefixOwner \<Rightarrow> 'p InflightPrefixOwner \<times> 'p option res" where
  "wait_resume ops r timed_out race oom s =
     (if \<not> wait_ready r s
      then if timed_out then (cancel_request ops r s, Inl (TimeoutError ''in-flight prefix wait timed out'')) else (s, Inr None)
      else wait_checked r s
       (let n = iq_node (request_of s r); x = node_of s n in
        if no_status x = Failed then (release ops r s, Inl (InflightProducerFailed ''in-flight prefix producer failed''))
        else case no_result x of
          None \<Rightarrow> (release ops r (mark_failed n s), Inl (TypeError ''argument after * must be an iterable''))
        | Some result \<Rightarrow>
            if no_commitment x \<noteq> Some (ao_commit ops (ow_secret s) result)
            then (release ops r (mark_failed n s), Inl (ValueError ''in-flight published result mutated''))
            else wait_copy ops r (race result) oom s))"

definition wait_begin :: "'p array_ops \<Rightarrow> nat \<Rightarrow> ('p \<Rightarrow> 'p) \<Rightarrow> py_error option \<Rightarrow> 'p InflightPrefixOwner \<Rightarrow> 'p InflightPrefixOwner \<times> 'p option res" where
  "wait_begin ops r race oom s = wait_checked r s (wait_resume ops r False race oom s)"

section \<open>Closing\<close>

definition close_node :: "'p array_ops \<Rightarrow> nat \<Rightarrow> 'p InflightPrefixOwner \<Rightarrow> 'p InflightPrefixOwner" where
  "close_node ops n s = (let s = unindex n (cancel_producer n s) in fold (cancel_request ops) (no_requests (node_of s n)) s)"

text \<open>The call up to its wait, and the rest of it once the wait has ended.\<close>

definition close_begin :: "'p array_ops \<Rightarrow> 'p InflightPrefixOwner \<Rightarrow> 'p InflightPrefixOwner" where
  "close_begin ops s = (let s = s\<lparr>ow_closed := True\<rparr> in fold (close_node ops) (ow_nodes s) s)"

definition close_end :: "'p InflightPrefixOwner \<Rightarrow> 'p InflightPrefixOwner \<times> bool" where
  "close_end s = (if ow_nodes s = [] then (zero_secret s, True) else (s, False))"

record inflight_counters =
  ic_stats :: inflight_stats
  ic_nodes :: nat
  ic_pending_nodes :: nat
  ic_active_producers :: nat

definition counters :: "'p InflightPrefixOwner \<Rightarrow> inflight_counters" where
  "counters s = \<lparr>ic_stats = ow_stats s, ic_nodes = length (ow_nodes s), ic_pending_nodes = length (ow_pending s),
     ic_active_producers = length (filter (\<lambda>n. no_active (node_of s n)) (ow_nodes s))\<rparr>"

section \<open>The check of a snapshot\<close>

text \<open>A NumPy array of elements \<open>'f\<close>: whether it is float32, owns its data and is contiguous, and its identity.\<close>

record 'f farray =
  fa_shape :: "nat list"
  fa_data :: "'f list"
  fa_float32 :: bool
  fa_owndata :: bool
  fa_contiguous :: bool
  fa_id :: nat

record 'f LayerCache =
  ly_key :: "'f farray option"
  ly_value :: "'f farray option"
  ly_length :: int

record SnapshotStateBasis =
  sb_phase :: string
  sb_position :: int
  sb_source_binding_digest :: string
  sb_native_phase_digest :: string
  sb_execution_digest :: string
  sb_prefill_extent :: int
  sb_owner_response_id :: "string option"
  sb_seal :: string
  sb_verification_failure_bits :: int
  sb_verification_lineage :: int
  sb_verification_inventory_digest :: string

record 'f RuntimeSnapshot =
  rs_position :: int
  rs_caches :: "'f LayerCache list"
  rs_shared_kv :: "(string \<times> ('f farray \<times> 'f farray)) list"
  rs_semantic_binding_digest :: "string option"
  rs_state_basis :: "SnapshotStateBasis option"

definition hexdigits64 :: "string \<Rightarrow> bool" where
  "hexdigits64 v \<longleftrightarrow> length v = 64 \<and> list_all (\<lambda>x. x \<in> set ''0123456789abcdef'') v"

text \<open>\<open>seal_of\<close> is the keyed digest of the other fields.\<close>

definition basis_valid :: "(SnapshotStateBasis \<Rightarrow> string) \<Rightarrow> SnapshotStateBasis \<Rightarrow> bool" where
  "basis_valid seal_of b \<longleftrightarrow>
     sb_phase b \<in> {''completed_prefill'', ''canonical_incremental'', ''incremental'', ''unqualified''} \<and> sb_position b > 0
   \<and> (if sb_phase b = ''unqualified'' then sb_prefill_extent b = 0 else sb_prefill_extent b > 0)
   \<and> (sb_phase b \<notin> {''completed_prefill'', ''canonical_incremental''} \<or> sb_position b \<le> sb_prefill_extent b)
   \<and> list_all hexdigits64 [sb_source_binding_digest b, sb_native_phase_digest b, sb_execution_digest b]
   \<and> sb_owner_response_id b \<noteq> Some ''''
   \<and> (sb_verification_failure_bits b = 0 \<and> sb_verification_lineage b = 0 \<and> sb_verification_inventory_digest b = ''''
      \<or> 1 \<le> sb_verification_failure_bits b \<and> sb_verification_failure_bits b \<le> 80 \<and> 1 \<le> sb_verification_lineage b \<and> sb_verification_lineage b \<le> 4096
         \<and> hexdigits64 (sb_verification_inventory_digest b))
   \<and> sb_seal b = seal_of b"

definition completed_prefill :: "(SnapshotStateBasis \<Rightarrow> string) \<Rightarrow> SnapshotStateBasis \<Rightarrow> bool" where
  "completed_prefill seal_of b \<longleftrightarrow> basis_valid seal_of b \<and> sb_phase b = ''completed_prefill'' \<and> sb_owner_response_id b = None"

definition i8_bytes :: "int list \<Rightarrow> bytes" where
  "i8_bytes xs = tobytes_u64 (map of_int xs)"

definition execution_digest :: "(bytes \<Rightarrow> digest) \<Rightarrow> InflightBinding \<Rightarrow> int list \<Rightarrow> string" where
  "execution_digest sha256 b tokens =
     hex_of (digest_bytes (sha256 (ascii ''pllm.decoder.execution-basis.v1'' @ [0] @ ascii (ib_native_prefill_digest b)
       @ i8_bytes (map int [0..<length tokens]) @ i8_bytes tokens)))"

definition good_array :: "('f \<Rightarrow> bool) \<Rightarrow> nat list \<Rightarrow> 'f farray \<Rightarrow> bool" where
  "good_array isfinite shape a \<longleftrightarrow> fa_float32 a \<and> fa_shape a = shape \<and> fa_owndata a \<and> fa_contiguous a \<and> list_all isfinite (fa_data a)"

definition layer_arrays :: "('f \<Rightarrow> bool) \<Rightarrow> nat \<Rightarrow> nat list \<Rightarrow> 'f LayerCache \<Rightarrow> 'f farray list res" where
  "layer_arrays isfinite n shape row =
     raise_if (ly_length row \<noteq> int n) (ValueError ''in-flight full-KV owner mismatch'')
       (mapE (\<lambda>a. case a of
            Some v \<Rightarrow> raise_if (\<not> good_array isfinite shape v) (ValueError ''in-flight full-KV shape/numeric/ownership mismatch'') (Inr v)
          | None \<Rightarrow> Inl (ValueError ''in-flight full-KV shape/numeric/ownership mismatch'')) [ly_key row, ly_value row])"

definition validate_snapshot ::
  "(SnapshotStateBasis \<Rightarrow> string) \<Rightarrow> (bytes \<Rightarrow> digest) \<Rightarrow> ('f \<Rightarrow> bool) \<Rightarrow> ('f RuntimeSnapshot \<Rightarrow> unit res)
     \<Rightarrow> InflightBinding \<Rightarrow> InflightResources \<Rightarrow> int list \<Rightarrow> 'f RuntimeSnapshot \<times> 'f farray \<Rightarrow> unit res" where
  "validate_snapshot seal_of sha256 isfinite validator b r tokens = (\<lambda>(snapshot, logits). case rs_state_basis snapshot of
     None \<Rightarrow> Inl (ValueError ''in-flight snapshot lacks native execution basis'')
   | Some basis \<Rightarrow>
      (let n = length tokens in
       raise_if (\<not> completed_prefill seal_of basis \<or> sb_verification_failure_bits basis \<noteq> 0
           \<or> sb_source_binding_digest basis \<noteq> ib_state_binding_digest b \<or> sb_native_phase_digest basis \<noteq> ib_native_prefill_digest b
           \<or> sb_execution_digest basis \<noteq> execution_digest sha256 b tokens \<or> sb_prefill_extent basis \<noteq> int n
           \<or> sb_position basis \<noteq> int n \<or> rs_position snapshot \<noteq> int n \<or> rs_shared_kv snapshot \<noteq> []
           \<or> rs_semantic_binding_digest snapshot \<noteq> Some (ib_state_binding_digest b) \<or> int (length (rs_caches snapshot)) \<noteq> ir_layers r)
         (ValueError ''in-flight snapshot provenance mismatch'')
      (bindE (mapE (layer_arrays isfinite n [n, nat (ir_kv_heads r), nat (ir_head_dim r)]) (rs_caches snapshot)) (\<lambda>layers.
       raise_if (\<not> good_array isfinite [nat (ir_vocab_size r)] logits) (ValueError ''in-flight logits shape/numeric/ownership mismatch'')
      (let arrays = concat layers @ [logits] in
       raise_if (\<not> distinct (map fa_id arrays)) (ValueError ''in-flight arrays alias'')
      (bindE (payload_bytes r (int n)) (\<lambda>expected.
       raise_if (sum_list (map (\<lambda>a. 4 * int (prod_list (fa_shape a))) arrays) \<noteq> expected) (ValueError ''in-flight payload exceeds admitted geometry'')
         (validator snapshot))))))))"

end
