(* ===== verification/Inflight_Correct.thy ===== *)
theory Inflight_Correct
  imports Inflight_Prefix
begin

text \<open>
  An invariant of the owner of \<^verbatim>\<open>Inflight_Prefix\<close> that every method keeps, in the states between the steps of a method as well, and what no
  method changes of existing requests and nodes. The last section puts the methods together: histories of calls with their answers, and an induction over them.
\<close>

section \<open>Updates\<close>

lemma node_upd_node [simp]:
  "ow_node (upd_node n f s) ! m = (if m = n \<and> n < length (ow_node s) then f (ow_node s ! n) else ow_node s ! m)"
  by (cases "n < length (ow_node s)") (simp_all add: upd_node_def nth_list_update list_update_beyond)

lemma request_upd_request [simp]:
  "ow_request (upd_request n f s) ! m = (if m = n \<and> n < length (ow_request s) then f (ow_request s ! n) else ow_request s ! m)"
  by (cases "n < length (ow_request s)") (simp_all add: upd_request_def nth_list_update list_update_beyond)

lemma upd_node_fields [simp]:
  "length (ow_node (upd_node n f s)) = length (ow_node s)" "ow_request (upd_node n f s) = ow_request s" "ow_nodes (upd_node n f s) = ow_nodes s"
  "ow_pending (upd_node n f s) = ow_pending s" "ow_closed (upd_node n f s) = ow_closed s" "ow_stats (upd_node n f s) = ow_stats s"
  "ow_secret (upd_node n f s) = ow_secret s" "ow_max_requests (upd_node n f s) = ow_max_requests s" "ow_max_nodes (upd_node n f s) = ow_max_nodes s"
  "ow_max_bytes (upd_node n f s) = ow_max_bytes s"
  by (simp_all add: upd_node_def)

lemma upd_request_fields [simp]:
  "length (ow_request (upd_request n f s)) = length (ow_request s)" "ow_node (upd_request n f s) = ow_node s" "ow_nodes (upd_request n f s) = ow_nodes s"
  "ow_pending (upd_request n f s) = ow_pending s" "ow_closed (upd_request n f s) = ow_closed s" "ow_stats (upd_request n f s) = ow_stats s"
  "ow_secret (upd_request n f s) = ow_secret s" "ow_max_requests (upd_request n f s) = ow_max_requests s" "ow_max_nodes (upd_request n f s) = ow_max_nodes s"
  "ow_max_bytes (upd_request n f s) = ow_max_bytes s"
  by (simp_all add: upd_request_def)

lemma upd_stats_fields [simp]:
  "ow_node (upd_stats f s) = ow_node s" "ow_request (upd_stats f s) = ow_request s" "ow_nodes (upd_stats f s) = ow_nodes s"
  "ow_pending (upd_stats f s) = ow_pending s" "ow_closed (upd_stats f s) = ow_closed s" "ow_stats (upd_stats f s) = f (ow_stats s)"
  "ow_secret (upd_stats f s) = ow_secret s" "ow_max_requests (upd_stats f s) = ow_max_requests s" "ow_max_nodes (upd_stats f s) = ow_max_nodes s"
  "ow_max_bytes (upd_stats f s) = ow_max_bytes s"
  by (simp_all add: upd_stats_def)

lemma unindex_fields [simp]:
  "ow_node (unindex n s) = ow_node s" "ow_request (unindex n s) = ow_request s" "ow_nodes (unindex n s) = ow_nodes s"
  "ow_closed (unindex n s) = ow_closed s" "ow_stats (unindex n s) = ow_stats s"
  "ow_secret (unindex n s) = ow_secret s" "ow_max_requests (unindex n s) = ow_max_requests s" "ow_max_nodes (unindex n s) = ow_max_nodes s"
  "ow_max_bytes (unindex n s) = ow_max_bytes s"
  by (simp_all add: unindex_def)

lemma zero_secret_fields [simp]:
  "ow_node (zero_secret s) = ow_node s" "ow_request (zero_secret s) = ow_request s" "ow_nodes (zero_secret s) = ow_nodes s"
  "ow_pending (zero_secret s) = ow_pending s" "ow_closed (zero_secret s) = ow_closed s" "ow_stats (zero_secret s) = ow_stats s"
  "ow_max_requests (zero_secret s) = ow_max_requests s" "ow_max_nodes (zero_secret s) = ow_max_nodes s" "ow_max_bytes (zero_secret s) = ow_max_bytes s"
  by (simp_all add: zero_secret_def)

section \<open>The invariant\<close>

definition live :: "'p InflightPrefixOwner \<Rightarrow> nat set" where
  "live s = {r. r < length (ow_request s) \<and> \<not> iq_released (request_of s r)}"

text \<open>
  The nodes in \<open>X\<close> may be indexed although they cannot be joined any more, those in \<open>Y\<close> may be kept although nothing holds them: the states between
  the steps of one method.
\<close>

definition pend_ok :: "nat set \<Rightarrow> 'p InflightPrefixOwner \<Rightarrow> bool" where
  "pend_ok X s \<longleftrightarrow> distinct (map fst (ow_pending s))
     \<and> (\<forall>(k, n) \<in> set (ow_pending s). n \<in> set (ow_nodes s) \<and> no_key (node_of s n) = k
          \<and> (n \<notin> X \<longrightarrow> no_status (node_of s n) = Pending \<and> no_active (node_of s n) \<and> \<not> no_cancel (node_of s n)))"

definition links_ok :: "'p InflightPrefixOwner \<Rightarrow> bool" where
  "links_ok s \<longleftrightarrow> distinct (ow_nodes s) \<and> (\<forall>n \<in> set (ow_nodes s). n < length (ow_node s))
     \<and> (\<forall>r < length (ow_request s). iq_node (request_of s r) < length (ow_node s) \<and> 0 \<le> iq_reservation (request_of s r)
          \<and> (\<not> iq_released (request_of s r) \<longrightarrow> r \<in> set (no_requests (node_of s (iq_node (request_of s r))))))
     \<and> (\<forall>n < length (ow_node s). 0 \<le> no_reservation (node_of s n)
          \<and> (\<forall>r \<in> set (no_requests (node_of s n)). r \<in> live s \<and> iq_node (request_of s r) = n))"

definition held_ok :: "nat set \<Rightarrow> 'p InflightPrefixOwner \<Rightarrow> bool" where
  "held_ok Y s \<longleftrightarrow> (\<forall>n < length (ow_node s).
      (no_active (node_of s n) \<or> no_requests (node_of s n) \<noteq> [] \<longrightarrow> n \<in> set (ow_nodes s))
    \<and> (n \<in> set (ow_nodes s) \<longrightarrow> n \<notin> Y \<longrightarrow> no_active (node_of s n) \<or> no_requests (node_of s n) \<noteq> []))"

definition owed :: "'p InflightPrefixOwner \<Rightarrow> int" where
  "owed s = (\<Sum>n \<in> set (ow_nodes s). no_reservation (node_of s n)) + (\<Sum>r \<in> live s. iq_reservation (request_of s r))"

definition sums_ok :: "'p InflightPrefixOwner \<Rightarrow> bool" where
  "sums_ok s \<longleftrightarrow> is_requests (ow_stats s) = int (card (live s)) \<and> is_reserved_bytes (ow_stats s) = owed s
     \<and> is_requests (ow_stats s) \<le> ow_max_requests s \<and> int (length (ow_nodes s)) \<le> ow_max_nodes s
     \<and> is_reserved_bytes (ow_stats s) \<le> is_peak_reserved_bytes (ow_stats s) \<and> is_peak_reserved_bytes (ow_stats s) \<le> ow_max_bytes s"

definition data_ok :: "'p array_ops \<Rightarrow> bytes \<Rightarrow> 'p InflightPrefixOwner \<Rightarrow> bool" where
  "data_ok ops secret s \<longleftrightarrow> (ow_secret s = secret \<or> ow_closed s \<and> ow_nodes s = [])
     \<and> (\<forall>n < length (ow_node s). let x = node_of s n in
          (\<forall>c. no_commitment x = Some c \<longrightarrow> n \<in> set (ow_nodes s)
             \<and> (\<exists>p. ao_validate ops (no_binding x) (no_resources x) (no_tokens x) p = Inr () \<and> c = ao_commit ops secret p))
        \<and> (no_status x = Published \<longrightarrow> n \<in> set (ow_nodes s) \<longrightarrow> no_commitment x \<noteq> None \<and> no_result x \<noteq> None)
        \<and> (no_status x = Pending \<longrightarrow> n \<in> set (ow_nodes s) \<longrightarrow> no_active x)
        \<and> (n \<notin> set (ow_nodes s) \<longrightarrow> no_result x = None))"

definition good :: "'p array_ops \<Rightarrow> bytes \<Rightarrow> nat set \<Rightarrow> nat set \<Rightarrow> 'p InflightPrefixOwner \<Rightarrow> bool" where
  "good ops secret X Y s \<longleftrightarrow> pend_ok X s \<and> links_ok s \<and> held_ok Y s \<and> sums_ok s \<and> data_ok ops secret s"

lemma finite_live [simp]: "finite (live s)"
  by (simp add: live_def)

lemma live_upd [simp]: "live (upd_node n f s) = live s" "live (upd_stats g s) = live s" "live (unindex n s) = live s" "live (zero_secret s) = live s"
  by (simp_all add: live_def)

lemma pend_entries: "pend_ok X s \<Longrightarrow> (k, n) \<in> set (ow_pending s) \<Longrightarrow> map_of (ow_pending s) k = Some n \<and> no_key (node_of s n) = k"
  by (auto simp: pend_ok_def intro: map_of_is_SomeI)

lemma unindex_pending:
  assumes "pend_ok X s"
  shows "set (ow_pending (unindex n s)) = {(k, m) \<in> set (ow_pending s). m \<noteq> n}" "distinct (map fst (ow_pending (unindex n s)))"
proof -
  let ?k = "no_key (node_of s n)"
  have d: "distinct (map fst (ow_pending s))" using assms by (simp add: pend_ok_def)
  then show "distinct (map fst (ow_pending (unindex n s)))" by (simp add: unindex_def distinct_delete)
  have key: "m = n \<longleftrightarrow> k = ?k \<and> map_of (ow_pending s) ?k = Some n" if "(k, m) \<in> set (ow_pending s)" for k m
  proof
    assume "m = n"
    then show "k = ?k \<and> map_of (ow_pending s) ?k = Some n" using pend_entries [OF assms that] by simp
  next
    assume "k = ?k \<and> map_of (ow_pending s) ?k = Some n"
    then show "m = n" using pend_entries [OF assms that] by (metis option.inject)
  qed
  show "set (ow_pending (unindex n s)) = {(k, m) \<in> set (ow_pending s). m \<noteq> n}"
  proof (cases "map_of (ow_pending s) ?k = Some n")
    case True
    then have "set (ow_pending (unindex n s)) = {(k, m) \<in> set (ow_pending s). k \<noteq> ?k}"
      by (auto simp: unindex_def AList.delete_eq)
    also have "\<dots> = {(k, m) \<in> set (ow_pending s). m \<noteq> n}" using key True by blast
    finally show ?thesis .
  next
    case False
    then have "ow_pending (unindex n s) = ow_pending s" by (simp add: unindex_def)
    then show ?thesis using key False by auto
  qed
qed

lemma pend_okD: "pend_ok X s \<Longrightarrow> (k, n) \<in> set (ow_pending s) \<Longrightarrow> n \<in> set (ow_nodes s) \<and> no_key (node_of s n) = k"
  "pend_ok X s \<Longrightarrow> (k, n) \<in> set (ow_pending s) \<Longrightarrow> n \<notin> X \<Longrightarrow> no_status (node_of s n) = Pending \<and> no_active (node_of s n) \<and> \<not> no_cancel (node_of s n)"
  by (auto simp: pend_ok_def)

lemma pend_okI:
  assumes "distinct (map fst (ow_pending s))"
    and "\<And>k n. (k, n) \<in> set (ow_pending s) \<Longrightarrow> n \<in> set (ow_nodes s) \<and> no_key (node_of s n) = k"
    and "\<And>k n. (k, n) \<in> set (ow_pending s) \<Longrightarrow> n \<notin> X \<Longrightarrow> no_status (node_of s n) = Pending \<and> no_active (node_of s n) \<and> \<not> no_cancel (node_of s n)"
  shows "pend_ok X s"
  using assms unfolding pend_ok_def by blast

lemma parts_upd_stats [simp]:
  "pend_ok X (upd_stats f s) = pend_ok X s" "links_ok (upd_stats f s) = links_ok s" "held_ok Y (upd_stats f s) = held_ok Y s" "data_ok ops sec (upd_stats f s) = data_ok ops sec s"
  "owed (upd_stats f s) = owed s"
  by (simp_all add: pend_ok_def links_ok_def held_ok_def data_ok_def owed_def)

lemma parts_unindex [simp]:
  "links_ok (unindex n s) = links_ok s" "held_ok Y (unindex n s) = held_ok Y s" "data_ok ops sec (unindex n s) = data_ok ops sec s" "sums_ok (unindex n s) = sums_ok s"
  "owed (unindex n s) = owed s"
  by (simp_all add: links_ok_def held_ok_def data_ok_def sums_ok_def owed_def)

lemma unindex_pend_ok:
  assumes "pend_ok X s"
  shows "pend_ok (X - {n}) (unindex n s)"
proof (rule pend_okI)
  show "distinct (map fst (ow_pending (unindex n s)))" by (rule unindex_pending(2) [OF assms])
next
  fix k m assume "(k, m) \<in> set (ow_pending (unindex n s))"
  then have m: "(k, m) \<in> set (ow_pending s)" "m \<noteq> n" unfolding unindex_pending(1) [OF assms] by blast+
  show "m \<in> set (ow_nodes (unindex n s)) \<and> no_key (node_of (unindex n s) m) = k" using pend_okD(1) [OF assms m(1)] by simp
  show "no_status (node_of (unindex n s) m) = Pending \<and> no_active (node_of (unindex n s) m) \<and> \<not> no_cancel (node_of (unindex n s) m)" if "m \<notin> X - {n}"
    using pend_okD(2) [OF assms m(1)] that m(2) by simp
qed

lemma unindex_good: "good ops sec X Y s \<Longrightarrow> good ops sec (X - {n}) Y (unindex n s)"
  by (simp add: good_def unindex_pend_ok)

lemma upd_stats_good:
  assumes "good ops sec X Y s" and "is_requests (f (ow_stats s)) = is_requests (ow_stats s)" "is_reserved_bytes (f (ow_stats s)) = is_reserved_bytes (ow_stats s)"
    "is_peak_reserved_bytes (f (ow_stats s)) = is_peak_reserved_bytes (ow_stats s)"
  shows "good ops sec X Y (upd_stats f s)"
  using assms by (simp add: good_def sums_ok_def)

text \<open>Changes of a node that keep what it holds: it may lose its status, its activity or gain its cancellation.\<close>

lemma upd_node_good:
  assumes g: "good ops sec X Y s" and len: "n < length (ow_node s)"
    and keep: "no_key (f (node_of s n)) = no_key (node_of s n)" "no_requests (f (node_of s n)) = no_requests (node_of s n)"
      "no_reservation (f (node_of s n)) = no_reservation (node_of s n)" "no_binding (f (node_of s n)) = no_binding (node_of s n)"
      "no_resources (f (node_of s n)) = no_resources (node_of s n)" "no_tokens (f (node_of s n)) = no_tokens (node_of s n)"
      "no_result (f (node_of s n)) = no_result (node_of s n)" "no_commitment (f (node_of s n)) = no_commitment (node_of s n)"
    and st: "no_status (f (node_of s n)) = Published \<Longrightarrow> no_status (node_of s n) = Published"
      "no_status (f (node_of s n)) = Pending \<Longrightarrow> no_status (node_of s n) = Pending \<and> (no_active (node_of s n) \<longrightarrow> no_active (f (node_of s n)))"
    and act: "no_active (f (node_of s n)) \<Longrightarrow> no_active (node_of s n)"
  shows "good ops sec (insert n X) (if no_active (f (node_of s n)) = no_active (node_of s n) then Y else insert n Y) (upd_node n f s)"
proof -
  let ?s = "upd_node n f s"
  have same: "no_key (node_of ?s m) = no_key (node_of s m)" "no_requests (node_of ?s m) = no_requests (node_of s m)"
    "no_reservation (node_of ?s m) = no_reservation (node_of s m)" "no_binding (node_of ?s m) = no_binding (node_of s m)"
    "no_resources (node_of ?s m) = no_resources (node_of s m)" "no_tokens (node_of ?s m) = no_tokens (node_of s m)"
    "no_result (node_of ?s m) = no_result (node_of s m)" "no_commitment (node_of ?s m) = no_commitment (node_of s m)" for m
    using keep by simp_all
  have other: "m \<noteq> n \<Longrightarrow> node_of ?s m = node_of s m" for m by simp
  have active: "no_active (node_of ?s m) \<Longrightarrow> no_active (node_of s m)" for m using act len by (cases "m = n") simp_all
  have kept: "no_active (f (node_of s n)) = no_active (node_of s n) \<Longrightarrow> no_active (node_of ?s m) = no_active (node_of s m)" for m
    by (cases "m = n") (use len in simp_all)
  have stat: "no_status (node_of ?s m) = Published \<Longrightarrow> no_status (node_of s m) = Published"
    "no_status (node_of ?s m) = Pending \<Longrightarrow> no_status (node_of s m) = Pending \<and> (no_active (node_of s m) \<longrightarrow> no_active (node_of ?s m))" for m
    using st len by (cases "m = n"; simp)+
  have "pend_ok (insert n X) ?s"
  proof (rule pend_okI)
    have p: "pend_ok X s" using g by (simp add: good_def)
    show "distinct (map fst (ow_pending ?s))" using p by (simp add: pend_ok_def)
    fix k m assume "(k, m) \<in> set (ow_pending ?s)"
    then have m: "(k, m) \<in> set (ow_pending s)" by simp
    show "m \<in> set (ow_nodes ?s) \<and> no_key (node_of ?s m) = k" using pend_okD(1) [OF p m] by (simp only: same upd_node_fields)
    show "no_status (node_of ?s m) = Pending \<and> no_active (node_of ?s m) \<and> \<not> no_cancel (node_of ?s m)" if "m \<notin> insert n X"
      using pend_okD(2) [OF p m] that by simp
  qed
  moreover have "links_ok ?s = links_ok s" by (simp add: links_ok_def same del: node_upd_node)
  moreover have "held_ok (if no_active (f (node_of s n)) = no_active (node_of s n) then Y else insert n Y) ?s"
  proof (cases "no_active (f (node_of s n)) = no_active (node_of s n)")
    case True
    then have "held_ok Y ?s = held_ok Y s" by (simp add: held_ok_def same kept del: node_upd_node)
    then show ?thesis using g True by (simp add: good_def)
  next
    case False
    have h: "held_ok Y s" using g by (simp add: good_def)
    have "held_ok (insert n Y) ?s"
      unfolding held_ok_def same upd_node_fields
    proof (intro allI impI conjI)
      fix m assume m: "m < length (ow_node s)"
      show "m \<in> set (ow_nodes s)" if "no_active (node_of ?s m) \<or> no_requests (node_of s m) \<noteq> []"
        using h m that active [of m] unfolding held_ok_def by blast
      show "no_active (node_of ?s m) \<or> no_requests (node_of s m) \<noteq> []" if "m \<in> set (ow_nodes s)" "m \<notin> insert n Y"
        using h m that unfolding held_ok_def by simp
    qed
    then show ?thesis using False by simp
  qed
  moreover have "sums_ok ?s = sums_ok s" by (simp add: sums_ok_def owed_def same del: node_upd_node)
  moreover have "data_ok ops sec ?s"
  proof -
    have "data_ok ops sec s" using g by (simp add: good_def)
    then show ?thesis unfolding data_ok_def Let_def same upd_node_fields using stat by blast
  qed
  ultimately show ?thesis using g by (simp add: good_def)
qed

lemma good_mono:
  assumes g: "good ops sec X Y s" and sub: "X \<subseteq> X'" "Y \<subseteq> Y'"
  shows "good ops sec X' Y' s"
proof -
  have p: "pend_ok X s" using g by (simp add: good_def)
  have "pend_ok X' s" by (rule pend_okI) (use p sub(1) pend_okD [OF p] in \<open>auto simp: pend_ok_def\<close>)
  moreover have "held_ok Y' s" using g sub(2) unfolding good_def held_ok_def by blast
  ultimately show ?thesis using g by (simp add: good_def)
qed

section \<open>The methods keep the invariant\<close>

definition unlisted :: "nat \<Rightarrow> 'p InflightPrefixOwner \<Rightarrow> bool" where
  "unlisted n s \<longleftrightarrow> (\<forall>k. (k, n) \<notin> set (ow_pending s))"

lemma unlisted_simps [simp]: "unlisted n (upd_node m f s) = unlisted n s" "unlisted n (upd_request r h s) = unlisted n s" "unlisted n (upd_stats g s) = unlisted n s"
  by (simp_all add: unlisted_def)

lemma unlisted_unindex: "good ops sec X Y s \<Longrightarrow> unlisted n (unindex n s)"
  unfolding unlisted_def good_def by (elim conjE) (simp only: unindex_pending(1), simp)

lemma unlisted_status: "good ops sec {} Y s \<Longrightarrow> no_status (node_of s n) \<noteq> Pending \<or> \<not> no_active (node_of s n) \<Longrightarrow> unlisted n s"
  unfolding unlisted_def good_def using pend_okD(2) by blast

lemma good_drop: "good ops sec (insert n X) Y s \<Longrightarrow> unlisted n s \<Longrightarrow> good ops sec X Y s"
proof -
  assume g: "good ops sec (insert n X) Y s" and u: "unlisted n s"
  have p: "pend_ok (insert n X) s" using g by (simp add: good_def)
  have "pend_ok X s"
  proof (rule pend_okI)
    show "distinct (map fst (ow_pending s))" using p by (simp add: pend_ok_def)
    fix k m assume m: "(k, m) \<in> set (ow_pending s)"
    show "m \<in> set (ow_nodes s) \<and> no_key (node_of s m) = k" by (rule pend_okD(1) [OF p m])
    have "m \<noteq> n" using u m by (auto simp: unlisted_def)
    then show "no_status (node_of s m) = Pending \<and> no_active (node_of s m) \<and> \<not> no_cancel (node_of s m)" if "m \<notin> X"
      using pend_okD(2) [OF p m] that by simp
  qed
  then show ?thesis using g by (simp add: good_def)
qed

lemma mark_failed_good: "good ops sec X Y s \<Longrightarrow> n < length (ow_node s) \<Longrightarrow> good ops sec (X - {n}) Y (mark_failed n s)"
proof -
  assume g: "good ops sec X Y s" and n: "n < length (ow_node s)"
  have "good ops sec (insert n X) Y (upd_node n (\<lambda>x. x\<lparr>no_status := Failed\<rparr>) s)"
    using upd_node_good [OF g n, of "\<lambda>x. x\<lparr>no_status := Failed\<rparr>"] by simp
  then have "good ops sec (insert n X) Y (upd_stats (\<lambda>t. t\<lparr>is_failures := is_failures t + 1\<rparr>) (upd_node n (\<lambda>x. x\<lparr>no_status := Failed\<rparr>) s))"
    by (rule upd_stats_good) simp_all
  from unindex_good [OF this, of n] unindex_good [OF g, of n] show ?thesis
    by (auto simp: mark_failed_def Let_def)
qed

lemma cancel_producer_good: "good ops sec X Y s \<Longrightarrow> n < length (ow_node s) \<Longrightarrow> good ops sec (insert n X) Y (cancel_producer n s)"
proof -
  assume g: "good ops sec X Y s" and n: "n < length (ow_node s)"
  have "good ops sec (insert n X) Y (upd_node n (\<lambda>x. x\<lparr>no_cancel := True\<rparr>) s)"
    using upd_node_good [OF g n, of "\<lambda>x. x\<lparr>no_cancel := True\<rparr>"] by simp
  then have "good ops sec (insert n X) Y (upd_stats (\<lambda>t. t\<lparr>is_cancelled_producers := is_cancelled_producers t + 1\<rparr>) (upd_node n (\<lambda>x. x\<lparr>no_cancel := True\<rparr>) s))"
    by (rule upd_stats_good) simp_all
  then show ?thesis using good_mono [OF g subset_insertI subset_refl, of n] by (simp add: cancel_producer_def)
qed

lemma lengths_step [simp]:
  "length (ow_node (mark_failed n s)) = length (ow_node s)" "length (ow_node (cancel_producer n s)) = length (ow_node s)"
  "length (ow_node (retire n s)) = length (ow_node s)" "length (ow_request (mark_failed n s)) = length (ow_request s)"
  "length (ow_request (cancel_producer n s)) = length (ow_request s)" "length (ow_request (retire n s)) = length (ow_request s)"
  by (simp_all add: mark_failed_def cancel_producer_def retire_def Let_def)

text \<open>The state that \<open>retire\<close> leaves, before it may erase the secret.\<close>

definition retired :: "nat \<Rightarrow> 'p InflightPrefixOwner \<Rightarrow> 'p InflightPrefixOwner" where
  "retired n s = (let s' = unindex n s in
     upd_stats (\<lambda>t. t\<lparr>is_reserved_bytes := is_reserved_bytes t - no_reservation (node_of s n), is_retired := is_retired t + 1\<rparr>)
       (upd_node n (\<lambda>x. x\<lparr>no_result := None, no_tokens := map (\<lambda>_. 0) (no_tokens x), no_commitment := None, no_key := []\<rparr>) s'
          \<lparr>ow_nodes := removeAll n (ow_nodes s')\<rparr>))"

lemma retire_eq: "retire n s =
  (if no_requests (node_of s n) \<noteq> [] \<or> no_active (node_of s n) \<or> n \<notin> set (ow_nodes s) then s
   else if ow_closed (retired n s) \<and> ow_nodes (retired n s) = [] then zero_secret (retired n s) else retired n s)"
  by (simp add: retire_def retired_def Let_def)

lemma retired_fields [simp]:
  "ow_request (retired n s) = ow_request s" "ow_nodes (retired n s) = removeAll n (ow_nodes s)" "ow_closed (retired n s) = ow_closed s"
  "ow_secret (retired n s) = ow_secret s" "ow_pending (retired n s) = ow_pending (unindex n s)" "length (ow_node (retired n s)) = length (ow_node s)"
  "ow_max_requests (retired n s) = ow_max_requests s" "ow_max_nodes (retired n s) = ow_max_nodes s" "ow_max_bytes (retired n s) = ow_max_bytes s"
  "m \<noteq> n \<Longrightarrow> node_of (retired n s) m = node_of s m" "live (retired n s) = live s"
  by (simp_all add: retired_def Let_def live_def upd_node_def)

lemma retired_node: "n < length (ow_node s) \<Longrightarrow> node_of (retired n s) n =
    (node_of s n)\<lparr>no_result := None, no_tokens := map (\<lambda>_. 0) (no_tokens (node_of s n)), no_commitment := None, no_key := []\<rparr>"
  by (simp add: retired_def Let_def upd_node_def)

lemma retired_stats: "ow_stats (retired n s) =
    (ow_stats s)\<lparr>is_reserved_bytes := is_reserved_bytes (ow_stats s) - no_reservation (node_of s n), is_retired := is_retired (ow_stats s) + 1\<rparr>"
  by (simp add: retired_def Let_def)

lemma good_zero_secret: "good ops sec X Y s \<Longrightarrow> ow_closed s \<Longrightarrow> ow_nodes s = [] \<Longrightarrow> good ops sec X Y (zero_secret s)"
proof -
  assume g: "good ops sec X Y s" and c: "ow_closed s" "ow_nodes s = []"
  have "data_ok ops sec (zero_secret s) = data_ok ops sec s" using c by (simp add: data_ok_def)
  moreover have "pend_ok X (zero_secret s) = pend_ok X s" "links_ok (zero_secret s) = links_ok s" "held_ok Y (zero_secret s) = held_ok Y s"
    "sums_ok (zero_secret s) = sums_ok s"
    by (simp_all add: pend_ok_def links_ok_def held_ok_def sums_ok_def owed_def)
  ultimately show ?thesis using g by (simp add: good_def)
qed

lemma retired_good:
  assumes g: "good ops sec X Y s" and n: "n \<in> set (ow_nodes s)" "no_requests (node_of s n) = []" "\<not> no_active (node_of s n)"
  shows "good ops sec (X - {n}) (Y - {n}) (retired n s)"
proof -
  let ?t = "retired n s"
  have p: "pend_ok X s" and l: "links_ok s" and h: "held_ok Y s" and su: "sums_ok s" and d: "data_ok ops sec s"
    using g by (simp_all add: good_def)
  have len: "n < length (ow_node s)" using l n(1) by (simp add: links_ok_def)
  note node = retired_node [OF len]
  have "pend_ok (X - {n}) ?t"
  proof (rule pend_okI)
    show "distinct (map fst (ow_pending ?t))" using unindex_pending(2) [OF p, of n] by simp
    fix k m assume "(k, m) \<in> set (ow_pending ?t)"
    then have m: "(k, m) \<in> set (ow_pending s)" "m \<noteq> n" using unindex_pending(1) [OF p, of n] by auto
    show "m \<in> set (ow_nodes ?t) \<and> no_key (node_of ?t m) = k" using pend_okD(1) [OF p m(1)] m(2) by simp
    show "no_status (node_of ?t m) = Pending \<and> no_active (node_of ?t m) \<and> \<not> no_cancel (node_of ?t m)" if "m \<notin> X - {n}"
      using pend_okD(2) [OF p m(1)] m(2) that by simp
  qed
  moreover have same: "no_requests (node_of ?t m) = no_requests (node_of s m)" "no_reservation (node_of ?t m) = no_reservation (node_of s m)"
    "no_active (node_of ?t m) = no_active (node_of s m)" for m
    by (cases "m = n"; simp add: node)+
  moreover have "links_ok ?t"
    using l unfolding links_ok_def same retired_fields by (simp add: distinct_removeAll)
  moreover have "held_ok (Y - {n}) ?t"
    unfolding held_ok_def same retired_fields
  proof (intro allI impI conjI)
    fix m assume m: "m < length (ow_node s)"
    show "m \<in> set (removeAll n (ow_nodes s))" if "no_active (node_of s m) \<or> no_requests (node_of s m) \<noteq> []"
      using h m that n(2,3) unfolding held_ok_def by (cases "m = n") auto
    show "no_active (node_of s m) \<or> no_requests (node_of s m) \<noteq> []" if "m \<in> set (removeAll n (ow_nodes s))" "m \<notin> Y - {n}"
      using h m that unfolding held_ok_def by simp
  qed
  moreover have "sums_ok ?t"
  proof -
    have "(\<Sum>m \<in> set (ow_nodes s). no_reservation (node_of s m)) = no_reservation (node_of s n) + (\<Sum>m \<in> set (ow_nodes s) - {n}. no_reservation (node_of s m))"
      by (rule sum.remove) (use n(1) in simp_all)
    then have "owed ?t = owed s - no_reservation (node_of s n)" by (simp add: owed_def same)
    moreover have "int (length (removeAll n (ow_nodes s))) \<le> ow_max_nodes s"
    proof -
      have "length (removeAll n (ow_nodes s)) \<le> length (ow_nodes s)" by (rule length_removeAll_less_eq)
      moreover have "int (length (ow_nodes s)) \<le> ow_max_nodes s" using su by (simp add: sums_ok_def)
      ultimately show ?thesis by linarith
    qed
    moreover have "0 \<le> no_reservation (node_of s n)" using l len by (simp add: links_ok_def)
    ultimately show ?thesis using su by (simp add: sums_ok_def retired_stats)
  qed
  moreover have "data_ok ops sec ?t"
    unfolding data_ok_def Let_def
  proof (intro conjI allI impI)
    show "ow_secret ?t = sec \<or> ow_closed ?t \<and> ow_nodes ?t = []" using d n(1) by (auto simp: data_ok_def)
    fix m assume m: "m < length (ow_node ?t)"
    then have dm: "let x = node_of s m in
          (\<forall>c. no_commitment x = Some c \<longrightarrow> m \<in> set (ow_nodes s)
             \<and> (\<exists>p. ao_validate ops (no_binding x) (no_resources x) (no_tokens x) p = Inr () \<and> c = ao_commit ops sec p))
        \<and> (no_status x = Published \<longrightarrow> m \<in> set (ow_nodes s) \<longrightarrow> no_commitment x \<noteq> None \<and> no_result x \<noteq> None)
        \<and> (no_status x = Pending \<longrightarrow> m \<in> set (ow_nodes s) \<longrightarrow> no_active x)
        \<and> (m \<notin> set (ow_nodes s) \<longrightarrow> no_result x = None)" using d by (simp add: data_ok_def)
    show "m \<in> set (ow_nodes ?t)" if "no_commitment (node_of ?t m) = Some c" for c
      using dm that by (cases "m = n") (auto simp: node Let_def)
    show "\<exists>p. ao_validate ops (no_binding (node_of ?t m)) (no_resources (node_of ?t m)) (no_tokens (node_of ?t m)) p = Inr () \<and> c = ao_commit ops sec p"
      if "no_commitment (node_of ?t m) = Some c" for c
      using dm that by (cases "m = n") (auto simp: node Let_def)
    show "no_commitment (node_of ?t m) \<noteq> None" "no_result (node_of ?t m) \<noteq> None"
      if "no_status (node_of ?t m) = Published" "m \<in> set (ow_nodes ?t)"
      using dm that by (auto simp: Let_def)
    show "no_active (node_of ?t m)" if "no_status (node_of ?t m) = Pending" "m \<in> set (ow_nodes ?t)"
      using dm that by (auto simp: Let_def)
    show "no_result (node_of ?t m) = None" if "m \<notin> set (ow_nodes ?t)"
      using dm that by (cases "m = n") (auto simp: node Let_def)
  qed
  ultimately show ?thesis by (simp add: good_def)
qed

lemma retire_good:
  assumes g: "good ops sec X Y s" and n: "n < length (ow_node s)"
  shows "good ops sec X (Y - {n}) (retire n s)"
proof (cases "no_requests (node_of s n) \<noteq> [] \<or> no_active (node_of s n) \<or> n \<notin> set (ow_nodes s)")
  case True
  have h: "held_ok Y s" using g by (simp add: good_def)
  have "held_ok (Y - {n}) s" using h True unfolding held_ok_def by blast
  then show ?thesis using g True by (simp add: retire_eq good_def)
next
  case False
  then have r: "good ops sec (X - {n}) (Y - {n}) (retired n s)" by (intro retired_good [OF g]) simp_all
  then have rg: "good ops sec X (Y - {n}) (retired n s)" by (rule good_mono) auto
  then show ?thesis using False good_zero_secret [OF rg] by (auto simp: retire_eq)
qed

text \<open>The state in which \<open>release\<close> has taken the request out of its node and its counts.\<close>

definition dropped :: "'p array_ops \<Rightarrow> nat \<Rightarrow> 'p InflightPrefixOwner \<Rightarrow> 'p InflightPrefixOwner" where
  "dropped ops r s =
     upd_stats (\<lambda>t. t\<lparr>is_requests := is_requests t - 1, is_reserved_bytes := is_reserved_bytes t - iq_reservation (request_of s r)\<rparr>)
       (upd_node (iq_node (request_of s r)) (\<lambda>x. x\<lparr>no_requests := removeAll r (no_requests x)\<rparr>)
         (upd_request r (\<lambda>q. q\<lparr>iq_released := True, iq_lease := map_option (ao_erase ops) (iq_lease q)\<rparr>) s))"

lemma release_eq:
  assumes "r < length (ow_request s)"
  shows "release ops r s = (if iq_released (request_of s r) then s
     else let n = iq_node (request_of s r); s' = dropped ops r s
          in retire n (if no_requests (node_of s' n) = [] then cancel_producer n (unindex n s') else s'))"
  using assms by (simp add: release_def dropped_def Let_def upd_stats_def upd_node_def upd_request_def)

lemma dropped_good:
  assumes g: "good ops sec X Y s" and r: "r \<in> live s"
  shows "good ops sec X (insert (iq_node (request_of s r)) Y) (dropped ops r s)"
proof -
  let ?n = "iq_node (request_of s r)" and ?t = "dropped ops r s"
  have p: "pend_ok X s" and l: "links_ok s" and h: "held_ok Y s" and su: "sums_ok s" and d: "data_ok ops sec s"
    using g by (simp_all add: good_def)
  have rl: "r < length (ow_request s)" "\<not> iq_released (request_of s r)" using r by (simp_all add: live_def)
  have len: "?n < length (ow_node s)" and rin: "r \<in> set (no_requests (node_of s ?n))" using l rl by (simp_all add: links_ok_def)
  have node: "no_requests (node_of ?t m) = (if m = ?n then removeAll r (no_requests (node_of s m)) else no_requests (node_of s m))"
    "no_key (node_of ?t m) = no_key (node_of s m)" "no_reservation (node_of ?t m) = no_reservation (node_of s m)"
    "no_binding (node_of ?t m) = no_binding (node_of s m)" "no_resources (node_of ?t m) = no_resources (node_of s m)"
    "no_tokens (node_of ?t m) = no_tokens (node_of s m)" "no_result (node_of ?t m) = no_result (node_of s m)"
    "no_commitment (node_of ?t m) = no_commitment (node_of s m)" "no_status (node_of ?t m) = no_status (node_of s m)"
    "no_active (node_of ?t m) = no_active (node_of s m)" "no_cancel (node_of ?t m) = no_cancel (node_of s m)" for m
    using len by (simp_all add: dropped_def)
  have req: "iq_node (request_of ?t q) = iq_node (request_of s q)" "iq_reservation (request_of ?t q) = iq_reservation (request_of s q)"
    "iq_released (request_of ?t q) = (iq_released (request_of s q) \<or> q = r)" for q
    using rl by (auto simp: dropped_def)
  have fs: "ow_nodes ?t = ow_nodes s" "ow_pending ?t = ow_pending s" "ow_closed ?t = ow_closed s" "ow_secret ?t = ow_secret s"
    "length (ow_node ?t) = length (ow_node s)" "length (ow_request ?t) = length (ow_request s)"
    "ow_max_requests ?t = ow_max_requests s" "ow_max_nodes ?t = ow_max_nodes s" "ow_max_bytes ?t = ow_max_bytes s"
    by (simp_all add: dropped_def)
  have live': "live ?t = live s - {r}" by (auto simp: live_def req fs)
  have "pend_ok X ?t = pend_ok X s" by (simp add: pend_ok_def node fs)
  moreover have "links_ok ?t"
    unfolding links_ok_def fs req node(3)
  proof (intro conjI ballI allI impI)
    show "distinct (ow_nodes s)" using l by (simp add: links_ok_def)
    show "n < length (ow_node s)" if "n \<in> set (ow_nodes s)" for n using l that by (simp add: links_ok_def)
    fix q assume q: "q < length (ow_request s)"
    show "iq_node (request_of s q) < length (ow_node s)" "0 \<le> iq_reservation (request_of s q)" using l q by (simp_all add: links_ok_def)
    show "q \<in> set (no_requests (node_of ?t (iq_node (request_of s q))))" if "\<not> (iq_released (request_of s q) \<or> q = r)"
    proof -
      have "q \<in> set (no_requests (node_of s (iq_node (request_of s q))))" using l q that unfolding links_ok_def by blast
      then show ?thesis using that by (cases "iq_node (request_of s q) = ?n") (simp_all add: node(1))
    qed
  next
    fix n assume n: "n < length (ow_node s)"
    show "0 \<le> no_reservation (node_of s n)" using l n by (simp add: links_ok_def)
    fix q assume "q \<in> set (no_requests (node_of ?t n))"
    then have q: "q \<in> set (no_requests (node_of s n))" and qr: "n = ?n \<Longrightarrow> q \<noteq> r" by (auto simp: node(1) split: if_splits)
    have old: "q \<in> live s \<and> iq_node (request_of s q) = n" using l n q unfolding links_ok_def by blast
    then show "q \<in> live ?t" using qr unfolding live' by blast
    show "iq_node (request_of s q) = n" using old by blast
  qed
  moreover have "held_ok (insert ?n Y) ?t"
    unfolding held_ok_def fs node(10)
  proof (intro allI impI conjI)
    fix m assume m: "m < length (ow_node s)"
    show "m \<in> set (ow_nodes s)" if "no_active (node_of s m) \<or> no_requests (node_of ?t m) \<noteq> []"
      using h m that unfolding held_ok_def node(1) by (cases "m = ?n") (use rin in auto)
    show "no_active (node_of s m) \<or> no_requests (node_of ?t m) \<noteq> []" if "m \<in> set (ow_nodes s)" "m \<notin> insert ?n Y"
      using h m that unfolding held_ok_def node(1) by simp
  qed
  moreover have "sums_ok ?t"
  proof -
    have "(\<Sum>q \<in> live s. iq_reservation (request_of s q)) = iq_reservation (request_of s r) + (\<Sum>q \<in> live s - {r}. iq_reservation (request_of s q))"
      by (rule sum.remove) (use r in simp_all)
    then have o: "owed ?t = owed s - iq_reservation (request_of s r)" by (simp add: owed_def fs node(3) live' req)
    have c: "int (card (live ?t)) = int (card (live s)) - 1"
      using card_Suc_Diff1 [of "live s" r] r unfolding live' by simp
    have "0 \<le> iq_reservation (request_of s r)" using l rl by (simp add: links_ok_def)
    with o c su show ?thesis by (simp add: sums_ok_def fs) (simp add: dropped_def)
  qed
  moreover have "data_ok ops sec ?t = data_ok ops sec s" by (simp add: data_ok_def node fs Let_def)
  ultimately show ?thesis using p d by (simp add: good_def)
qed

lemma unreleased_live: "r < length (ow_request s) \<Longrightarrow> \<not> iq_released (request_of s r) \<Longrightarrow> r \<in> live s"
  by (simp add: live_def)

lemma live_node: "good ops sec X Y s \<Longrightarrow> r < length (ow_request s) \<Longrightarrow> iq_node (request_of s r) < length (ow_node s)"
  by (simp add: good_def links_ok_def)

lemma release_good:
  assumes g: "good ops sec X Y s" and r: "r < length (ow_request s)"
  shows "good ops sec X Y (release ops r s)"
proof (cases "iq_released (request_of s r)")
  case False
  let ?n = "iq_node (request_of s r)" and ?t = "dropped ops r s"
  have len: "?n < length (ow_node ?t)" using live_node [OF g r] by (simp add: dropped_def)
  have t: "good ops sec X (insert ?n Y) ?t" by (rule dropped_good [OF g unreleased_live [OF r False]])
  have "good ops sec X (insert ?n Y) (cancel_producer ?n (unindex ?n ?t))"
  proof (rule good_drop)
    have "good ops sec (X - {?n}) (insert ?n Y) (unindex ?n ?t)" by (rule unindex_good [OF t])
    then have "good ops sec (insert ?n (X - {?n})) (insert ?n Y) (cancel_producer ?n (unindex ?n ?t))" by (rule cancel_producer_good) (use len in simp)
    then show "good ops sec (insert ?n X) (insert ?n Y) (cancel_producer ?n (unindex ?n ?t))" by (rule good_mono) auto
    show "unlisted ?n (cancel_producer ?n (unindex ?n ?t))" using unlisted_unindex [OF t] by (simp add: cancel_producer_def)
  qed
  with t have "good ops sec X (insert ?n Y) (if no_requests (node_of ?t ?n) = [] then cancel_producer ?n (unindex ?n ?t) else ?t)" by simp
  then have "good ops sec X (insert ?n Y - {?n}) (release ops r s)"
    unfolding release_eq [OF r] using False len by (simp only: Let_def if_False) (rule retire_good, simp_all)
  then show ?thesis by (rule good_mono) auto
qed (simp add: release_def g)

lemma upd_request_good:
  assumes "good ops sec X Y s" and "\<And>q. iq_node (f q) = iq_node q" "\<And>q. iq_reservation (f q) = iq_reservation q" "\<And>q. iq_released (f q) = iq_released q"
  shows "good ops sec X Y (upd_request r f s)"
proof -
  have req: "iq_node (request_of (upd_request r f s) q) = iq_node (request_of s q)" "iq_reservation (request_of (upd_request r f s) q) = iq_reservation (request_of s q)"
    "iq_released (request_of (upd_request r f s) q) = iq_released (request_of s q)" for q using assms(2-) by simp_all
  have l: "live (upd_request r f s) = live s" by (simp add: live_def req del: request_upd_request)
  have "pend_ok X (upd_request r f s) = pend_ok X s" "links_ok (upd_request r f s) = links_ok s" "held_ok Y (upd_request r f s) = held_ok Y s"
    "sums_ok (upd_request r f s) = sums_ok s" "data_ok ops sec (upd_request r f s) = data_ok ops sec s"
    by (simp_all add: pend_ok_def links_ok_def held_ok_def sums_ok_def owed_def data_ok_def req l del: request_upd_request)
  then show ?thesis using assms(1) by (simp add: good_def)
qed

lemma cancel_request_good:
  assumes g: "good ops sec X Y s" and r: "r < length (ow_request s)"
  shows "good ops sec X Y (cancel_request ops r s)"
proof -
  have "good ops sec X Y (upd_stats (\<lambda>t. t\<lparr>is_cancellations := is_cancellations t + 1\<rparr>) (upd_request r (\<lambda>q. q\<lparr>iq_cancelled := True\<rparr>) s))"
    by (rule upd_stats_good [OF upd_request_good [OF g]]) simp_all
  with g show ?thesis using r by (simp add: cancel_request_def Let_def release_good)
qed

section \<open>Registration keeps the invariant\<close>

definition shape_good :: "'p array_ops \<Rightarrow> bytes \<Rightarrow> 'p InflightPrefixOwner \<Rightarrow> bool" where
  "shape_good ops sec s \<longleftrightarrow> pend_ok {} s \<and> links_ok s \<and> held_ok {} s \<and> data_ok ops sec s"

definition fresh_node :: "'p Node \<Rightarrow> 'p InflightPrefixOwner \<Rightarrow> 'p InflightPrefixOwner" where
  "fresh_node x s = s\<lparr>ow_node := ow_node s @ [x], ow_nodes := ow_nodes s @ [length (ow_node s)], ow_pending := AList.update (no_key x) (length (ow_node s)) (ow_pending s)\<rparr>"

definition attach :: "'p InflightRequest \<Rightarrow> 'p InflightPrefixOwner \<Rightarrow> 'p InflightPrefixOwner" where
  "attach q s = upd_node (iq_node q) (\<lambda>x. x\<lparr>no_requests := no_requests x @ [length (ow_request s)]\<rparr>) (s\<lparr>ow_request := ow_request s @ [q]\<rparr>)"

lemma fresh_fields [simp]:
  "ow_request (fresh_node x s) = ow_request s" "ow_nodes (fresh_node x s) = ow_nodes s @ [length (ow_node s)]" "ow_closed (fresh_node x s) = ow_closed s"
  "ow_secret (fresh_node x s) = ow_secret s" "ow_stats (fresh_node x s) = ow_stats s" "length (ow_node (fresh_node x s)) = Suc (length (ow_node s))"
  "ow_max_requests (fresh_node x s) = ow_max_requests s" "ow_max_nodes (fresh_node x s) = ow_max_nodes s" "ow_max_bytes (fresh_node x s) = ow_max_bytes s"
  "m < length (ow_node s) \<Longrightarrow> node_of (fresh_node x s) m = node_of s m" "node_of (fresh_node x s) (length (ow_node s)) = x" "live (fresh_node x s) = live s"
  by (simp_all add: fresh_node_def live_def nth_append)

lemma attach_fields [simp]:
  "ow_nodes (attach q s) = ow_nodes s" "ow_closed (attach q s) = ow_closed s" "ow_pending (attach q s) = ow_pending s"
  "ow_secret (attach q s) = ow_secret s" "ow_stats (attach q s) = ow_stats s" "length (ow_node (attach q s)) = length (ow_node s)"
  "ow_max_requests (attach q s) = ow_max_requests s" "ow_max_nodes (attach q s) = ow_max_nodes s" "ow_max_bytes (attach q s) = ow_max_bytes s"
  "length (ow_request (attach q s)) = Suc (length (ow_request s))" "r < length (ow_request s) \<Longrightarrow> request_of (attach q s) r = request_of s r"
  "request_of (attach q s) (length (ow_request s)) = q"
  by (simp_all add: attach_def nth_append)

lemma pend_ok_iff: "distinct (map fst (ow_pending s)) \<Longrightarrow> (k, n) \<in> set (ow_pending s) \<longleftrightarrow> map_of (ow_pending s) k = Some n"
  by (auto intro: map_of_is_SomeI dest: map_of_SomeD)

lemma fresh_good:
  assumes g: "shape_good ops sec s" and x: "no_requests x = []" "no_active x" "no_status x = Pending" "\<not> no_cancel x" "no_result x = None"
    "no_commitment x = None" "0 \<le> no_reservation x" and c: "\<not> ow_closed s"
  shows "shape_good ops sec (fresh_node x s)" and "owed (fresh_node x s) = owed s + no_reservation x"
proof -
  let ?t = "fresh_node x s" and ?n = "length (ow_node s)"
  have p: "pend_ok {} s" and l: "links_ok s" and h: "held_ok {} s" and d: "data_ok ops sec s" using g by (simp_all add: shape_good_def)
  have ds: "distinct (map fst (ow_pending s))" using p by (simp add: pend_ok_def)
  have nodes: "m \<in> set (ow_nodes s) \<Longrightarrow> m < ?n" for m using l by (simp add: links_ok_def)
  have "pend_ok {} ?t"
  proof (rule pend_okI)
    show dt: "distinct (map fst (ow_pending ?t))" using ds by (simp add: fresh_node_def distinct_update)
    fix k m assume "(k, m) \<in> set (ow_pending ?t)"
    then have "map_of (ow_pending ?t) k = Some m" using pend_ok_iff [OF dt] by simp
    then have km: "k = no_key x \<and> m = ?n \<or> (k, m) \<in> set (ow_pending s)"
      using pend_ok_iff [OF ds, of k m] by (auto simp: fresh_node_def update_conv' split: if_splits)
    then show "m \<in> set (ow_nodes ?t) \<and> no_key (node_of ?t m) = k" using pend_okD(1) [OF p, of k m] nodes [of m] by auto
    show "no_status (node_of ?t m) = Pending \<and> no_active (node_of ?t m) \<and> \<not> no_cancel (node_of ?t m)" if "m \<notin> {}"
      using km pend_okD(1) [OF p, of k m] pend_okD(2) [OF p, of k m] nodes [of m] x by auto
  qed
  moreover have "links_ok ?t"
    unfolding links_ok_def
  proof (intro conjI ballI allI impI)
    show "distinct (ow_nodes ?t)" using l nodes [of ?n] by (auto simp: links_ok_def)
    show "n < length (ow_node ?t)" if "n \<in> set (ow_nodes ?t)" for n using that nodes [of n] by auto
    fix r assume r: "r < length (ow_request ?t)"
    have lr: "iq_node (request_of s r) < ?n" "0 \<le> iq_reservation (request_of s r)"
      "\<not> iq_released (request_of s r) \<Longrightarrow> r \<in> set (no_requests (node_of s (iq_node (request_of s r))))"
      using l r by (simp_all add: links_ok_def)
    show "iq_node (request_of ?t r) < length (ow_node ?t)" "0 \<le> iq_reservation (request_of ?t r)" using lr by simp_all
    show "r \<in> set (no_requests (node_of ?t (iq_node (request_of ?t r))))" if "\<not> iq_released (request_of ?t r)" using lr that by simp
  next
    fix n assume n: "n < length (ow_node ?t)"
    show "0 \<le> no_reservation (node_of ?t n)" using l n x(7) by (cases "n = ?n") (simp_all add: links_ok_def)
    fix q assume q: "q \<in> set (no_requests (node_of ?t n))"
    have "n \<noteq> ?n" using q x(1) by auto
    then have "n < ?n" using n by simp
    moreover from this have "q \<in> set (no_requests (node_of s n))" using q by simp
    ultimately have "q \<in> live s \<and> iq_node (request_of s q) = n" using l unfolding links_ok_def by blast
    then show "q \<in> live ?t" "iq_node (request_of ?t q) = n" by simp_all
  qed
  moreover have "held_ok {} ?t"
    unfolding held_ok_def
  proof (intro allI impI conjI)
    fix m assume m: "m < length (ow_node ?t)"
    show "m \<in> set (ow_nodes ?t)" if "no_active (node_of ?t m) \<or> no_requests (node_of ?t m) \<noteq> []"
      using h m that by (cases "m = ?n") (auto simp: held_ok_def)
    show "no_active (node_of ?t m) \<or> no_requests (node_of ?t m) \<noteq> []" if "m \<in> set (ow_nodes ?t)" "m \<notin> {}"
      using h m that x(2) by (cases "m = ?n") (auto simp: held_ok_def)
  qed
  moreover have "data_ok ops sec ?t"
  proof -
    have "ow_secret s = sec" using d c by (simp add: data_ok_def)
    moreover have "m < ?n \<Longrightarrow> m \<in> set (ow_nodes ?t) \<longleftrightarrow> m \<in> set (ow_nodes s)" for m by auto
    ultimately show ?thesis
      using d x unfolding data_ok_def Let_def fresh_fields(4,6) by (auto simp: less_Suc_eq simp del: fresh_fields(2))
  qed
  ultimately show "shape_good ops sec ?t" by (simp add: shape_good_def)
  have "?n \<notin> set (ow_nodes s)" using nodes [of ?n] by auto
  moreover have "(\<Sum>m \<in> set (ow_nodes s). no_reservation (node_of ?t m)) = (\<Sum>m \<in> set (ow_nodes s). no_reservation (node_of s m))"
    by (rule sum.cong) (use nodes in simp_all)
  ultimately show "owed ?t = owed s + no_reservation x" by (simp add: owed_def)
qed

lemma attach_good:
  assumes g: "shape_good ops sec s" and q: "iq_node q \<in> set (ow_nodes s)" "\<not> iq_released q" "0 \<le> iq_reservation q"
  shows "shape_good ops sec (attach q s)" and "owed (attach q s) = owed s + iq_reservation q" and "live (attach q s) = insert (length (ow_request s)) (live s)"
proof -
  let ?t = "attach q s" and ?r = "length (ow_request s)"
  have p: "pend_ok {} s" and l: "links_ok s" and h: "held_ok {} s" and d: "data_ok ops sec s" using g by (simp_all add: shape_good_def)
  have len: "iq_node q < length (ow_node s)" using l q(1) by (simp add: links_ok_def)
  have node: "no_requests (node_of ?t m) = (if m = iq_node q then no_requests (node_of s m) @ [?r] else no_requests (node_of s m))"
    "no_key (node_of ?t m) = no_key (node_of s m)" "no_reservation (node_of ?t m) = no_reservation (node_of s m)"
    "no_binding (node_of ?t m) = no_binding (node_of s m)" "no_resources (node_of ?t m) = no_resources (node_of s m)"
    "no_tokens (node_of ?t m) = no_tokens (node_of s m)" "no_result (node_of ?t m) = no_result (node_of s m)"
    "no_commitment (node_of ?t m) = no_commitment (node_of s m)" "no_status (node_of ?t m) = no_status (node_of s m)"
    "no_active (node_of ?t m) = no_active (node_of s m)" "no_cancel (node_of ?t m) = no_cancel (node_of s m)" for m
    using len by (simp_all add: attach_def)
  show lv: "live ?t = insert ?r (live s)" using q(2) by (auto simp: live_def less_Suc_eq)
  have fresh: "?r \<notin> live s" by (simp add: live_def)
  have "pend_ok {} ?t = pend_ok {} s" by (simp add: pend_ok_def node)
  moreover have "links_ok ?t"
    unfolding links_ok_def node(3) attach_fields
  proof (intro conjI ballI allI impI)
    show "distinct (ow_nodes s)" using l by (simp add: links_ok_def)
    show "n < length (ow_node s)" if "n \<in> set (ow_nodes s)" for n using l that by (simp add: links_ok_def)
    fix r assume r: "r < Suc ?r"
    show "iq_node (request_of ?t r) < length (ow_node s)" "0 \<le> iq_reservation (request_of ?t r)"
      using l r len q(3) by (cases "r = ?r"; simp add: links_ok_def)+
    show "r \<in> set (no_requests (node_of ?t (iq_node (request_of ?t r))))" if "\<not> iq_released (request_of ?t r)"
    proof (cases "r = ?r")
      case False
      then have "r \<in> set (no_requests (node_of s (iq_node (request_of s r))))" using l r that by (simp add: links_ok_def)
      then show ?thesis using False r by (cases "iq_node (request_of s r) = iq_node q") (simp_all add: node(1))
    qed (simp add: node(1))
  next
    fix n assume n: "n < length (ow_node s)"
    show "0 \<le> no_reservation (node_of s n)" using l n by (simp add: links_ok_def)
    fix u assume "u \<in> set (no_requests (node_of ?t n))"
    then have u: "u \<in> set (no_requests (node_of s n)) \<or> u = ?r \<and> n = iq_node q" by (auto simp: node(1) split: if_splits)
    have old: "u \<in> set (no_requests (node_of s n)) \<Longrightarrow> u \<in> live s \<and> iq_node (request_of s u) = n" using l n unfolding links_ok_def by blast
    then show "u \<in> live ?t" using u unfolding lv by blast
    have "u \<in> live s \<Longrightarrow> u < ?r" by (simp add: live_def)
    then show "iq_node (request_of ?t u) = n" using u old by (cases "u = ?r") auto
  qed
  moreover have "held_ok {} ?t" using h q(1) by (auto simp: held_ok_def node)
  moreover have "data_ok ops sec ?t = data_ok ops sec s" by (simp add: data_ok_def node Let_def)
  ultimately show "shape_good ops sec ?t" using p d by (simp add: shape_good_def)
  have "(\<Sum>u \<in> live s. iq_reservation (request_of ?t u)) = (\<Sum>u \<in> live s. iq_reservation (request_of s u))"
    by (rule sum.cong) (auto simp: live_def)
  then show "owed ?t = owed s + iq_reservation q" using fresh by (simp add: owed_def node lv)
qed

definition resources_ok :: "InflightResources \<Rightarrow> bool" where
  "resources_ok r \<longleftrightarrow> mk_InflightResources (ir_layers r) (ir_kv_heads r) (ir_head_dim r) (ir_vocab_size r) (ir_capacity_tokens r) = Inr r"

lemma resources_positive:
  assumes "resources_ok r"
  shows "0 < kv_row_bytes r" "0 < logits_bytes r" "0 < runtime_overlap_bytes r" "1 \<le> p \<Longrightarrow> 0 < payload_size r p"
proof -
  have pos: "1 \<le> ir_layers r" "1 \<le> ir_kv_heads r" "1 \<le> ir_head_dim r" "1 \<le> ir_vocab_size r" "1 \<le> ir_capacity_tokens r"
    using assms by (simp_all add: resources_ok_def mk_InflightResources_def Let_def raise_if_def split: if_splits)
  then show k: "0 < kv_row_bytes r" by (simp add: kv_row_bytes_def)
  show l: "0 < logits_bytes r" using pos by (simp add: logits_bytes_def)
  have "0 < 2 * ir_capacity_tokens r * kv_row_bytes r" using pos k by simp
  then show "0 < runtime_overlap_bytes r" using l by (simp add: runtime_overlap_bytes_def)
  show "0 < payload_size r p" if "1 \<le> p"
  proof -
    have "0 < p * kv_row_bytes r" using that k by simp
    then show ?thesis using l by (simp add: payload_size_def)
  qed
qed

lemma longest_in: "longest s ns = Some n \<Longrightarrow> n \<in> set ns"
  by (induction ns arbitrary: n) (auto split: option.splits if_splits)

lemma candidate_in: "n \<in> set (candidates b r values s) \<Longrightarrow> \<exists>k. (k, n) \<in> set (ow_pending s)"
  by (auto simp: candidates_def)

text \<open>The state, the request and the reservations of an accepted registration.\<close>

definition joined :: "(bytes \<Rightarrow> InflightBinding \<Rightarrow> int list \<Rightarrow> bytes) \<Rightarrow> InflightBinding \<Rightarrow> int list \<Rightarrow> InflightResources \<Rightarrow> nat option \<Rightarrow> int
    \<Rightarrow> 'p InflightPrefixOwner \<Rightarrow> nat \<times> 'p InflightPrefixOwner" where
  "joined key_of b values res found producer s = (case found of
     Some n \<Rightarrow> (n, upd_stats (\<lambda>t. t\<lparr>is_joins := is_joins t + 1\<rparr>) s)
   | None \<Rightarrow> (length (ow_node s), upd_stats (\<lambda>t. t\<lparr>is_producer_registrations := is_producer_registrations t + 1\<rparr>)
       (fresh_node \<lparr>no_key = key_of (ow_secret s) b values, no_binding = b, no_resources = res, no_tokens = values, no_reservation = producer,
          no_cancel = False, no_requests = [], no_active = True, no_status = Pending, no_result = None, no_commitment = None\<rparr> s)))"

lemma lookup_cases:
  assumes "lookup_or_register key_of same b values res admit hit s = (s', a)"
  obtains (kept) f where "s' = upd_stats f s" "\<And>t. is_requests (f t) = is_requests t \<and> is_reserved_bytes (f t) = is_reserved_bytes t
        \<and> is_peak_reserved_bytes (f t) = is_peak_reserved_bytes t" "\<And>r. a \<noteq> Inr (Some r)"
  | (registered) found prefix branch producer n t where
      "1 \<le> prefix" "found = longest s (candidates b res values s)" "\<not> ow_closed s"
      "prefix = (case found of Some n \<Rightarrow> int (length (no_tokens (node_of s n))) | None \<Rightarrow> int (length values))"
      "branch = payload_size res prefix + runtime_overlap_bytes res"
      "producer = (if found = None then 2 * payload_size res prefix + runtime_overlap_bytes res else 0)"
      "is_requests (ow_stats s) < ow_max_requests s" "found = None \<Longrightarrow> int (length (ow_nodes s)) < ow_max_nodes s"
      "is_reserved_bytes (ow_stats s) + branch + producer \<le> ow_max_bytes s"
      "joined key_of b values res found producer s = (n, t)" "a = Inr (Some (length (ow_request s)))"
      "s' = upd_stats (\<lambda>t. t\<lparr>is_requests := is_requests t + 1, is_reserved_bytes := is_reserved_bytes t + (producer + branch),
                   is_peak_reserved_bytes := max (is_peak_reserved_bytes t) (is_reserved_bytes t + (producer + branch))\<rparr>)
            (attach \<lparr>iq_node = n, iq_producer = (producer \<noteq> 0), iq_prefix_tokens = int (length (no_tokens (node_of t n))), iq_reservation = branch,
               iq_released = False, iq_cancelled = False, iq_lease = None\<rparr> t)"
proof -
  let ?found = "longest s (candidates b res values s)"
  let ?prefix = "case ?found of Some n \<Rightarrow> int (length (no_tokens (node_of s n))) | None \<Rightarrow> int (length values)"
  have kept': thesis if "s' = s" "\<And>r. a \<noteq> Inr (Some r)"
    by (rule kept [of "\<lambda>t. t"]) (use that in \<open>simp_all add: upd_stats_def\<close>)
  define G where "G = list_ex (\<lambda>t. \<not> (0 \<le> t \<and> t < min (ir_vocab_size res) (2 ^ 32))) values"
  define L where "L \<longleftrightarrow> \<not> (1 \<le> int (length values) \<and> int (length values) \<le> min 4096 (ir_capacity_tokens res))"
  note eq0 = assms [unfolded lookup_or_register_def raiseS_def, folded G_def L_def]
  consider (refused) e where "s' = s" "a = Inl e" | (bypass) "hit" "s' = upd_stats (\<lambda>t. t\<lparr>is_cache_bypasses := is_cache_bypasses t + 1\<rparr>) s" "a = Inr None"
    | (go) "same" "\<not> L" "\<not> G" "\<not> ow_closed s" "\<not> hit"
  proof -
    consider (1) "\<not> same" | (2) "same" "L" | (3) "same" "\<not> L" "G" | (4) "same" "\<not> L" "\<not> G" "ow_closed s" | (5) "same" "\<not> L" "\<not> G" "\<not> ow_closed s" "hit"
      | (6) "same" "\<not> L" "\<not> G" "\<not> ow_closed s" "\<not> hit" by blast
    then show thesis
    proof cases
      case 1
      then have "s' = s \<and> (\<exists>e. a = Inl e)" using eq0 by (auto simp only: if_True if_False simp_thms prod.inject)
      then show ?thesis using that(1) by blast
    next
      case 2
      then have "s' = s \<and> (\<exists>e. a = Inl e)" using eq0 by (auto simp only: if_True if_False simp_thms prod.inject)
      then show ?thesis using that(1) by blast
    next
      case 3
      then have "s' = s \<and> (\<exists>e. a = Inl e)" using eq0 by (auto simp only: if_True if_False simp_thms prod.inject)
      then show ?thesis using that(1) by blast
    next
      case 4
      then have "s' = s \<and> (\<exists>e. a = Inl e)" using eq0 by (auto simp only: if_True if_False simp_thms prod.inject)
      then show ?thesis using that(1) by blast
    next
      case 5
      then have "s' = upd_stats (\<lambda>t. t\<lparr>is_cache_bypasses := is_cache_bypasses t + 1\<rparr>) s \<and> a = Inr None"
        using eq0 by (auto simp only: if_True if_False simp_thms prod.inject)
      then show ?thesis using that(2) 5 by blast
    next
      case 6 then show ?thesis by (rule that(3))
    qed
  qed
  then show thesis
  proof cases
    case refused then show ?thesis using kept' by simp
  next
    case bypass
    show ?thesis by (rule kept [OF bypass(2)]) (simp_all add: bypass(3))
  next
    case go
    note eq = eq0 [simplified go simp_thms if_False]
    show ?thesis
    proof (cases "branch_bytes res ?prefix")
      case (Inl e)
      then show ?thesis using eq kept' by (auto simp: Let_def split: if_splits)
    next
      case (Inr branch)
      then have pre: "1 \<le> ?prefix" "branch = payload_size res ?prefix + runtime_overlap_bytes res"
        by (auto simp: branch_bytes_def payload_bytes_def bindE_eq_Inr raise_if_eq_Inr)
      have pb: "(if ?found = None then producer_bytes res ?prefix else Inr 0) = Inr (if ?found = None then 2 * payload_size res ?prefix + runtime_overlap_bytes res else 0)"
        using Inr by (auto simp: branch_bytes_def producer_bytes_def payload_bytes_def bindE_eq_Inr raise_if_eq_Inr split: option.splits)
      define producer where "producer = (if ?found = None then 2 * payload_size res ?prefix + runtime_overlap_bytes res else 0)"
      let ?full = "is_requests (ow_stats s) \<ge> ow_max_requests s \<or> ?found = None \<and> int (length (ow_nodes s)) \<ge> ow_max_nodes s
          \<or> is_reserved_bytes (ow_stats s) + branch + producer > ow_max_bytes s"
      obtain n t where nt: "joined key_of b values res ?found producer s = (n, t)" by (cases "joined key_of b values res ?found producer s")
      show ?thesis
      proof (cases "s' = s \<and> (\<exists>e. a = Inl e) \<or> ?full")
        case True
        then show ?thesis
        proof
          assume "s' = s \<and> (\<exists>e. a = Inl e)" then show ?thesis using kept' by auto
        next
          assume full: "?full"
          then have "s' = s \<and> (\<exists>e. a = Inl e) \<or> s' = upd_stats (\<lambda>t. t\<lparr>is_bound_rejections := is_bound_rejections t + 1\<rparr>) s \<and> a = Inr None"
            using eq by (auto simp: Let_def Inr pb producer_def [symmetric] split: if_splits)
          then show ?thesis
          proof
            assume "s' = s \<and> (\<exists>e. a = Inl e)" then show ?thesis using kept' by auto
          next
            assume k: "s' = upd_stats (\<lambda>t. t\<lparr>is_bound_rejections := is_bound_rejections t + 1\<rparr>) s \<and> a = Inr None"
            show ?thesis by (rule kept [of "\<lambda>t. t\<lparr>is_bound_rejections := is_bound_rejections t + 1\<rparr>"]) (simp_all add: k)
          qed
        qed
      next
        case False
        then obtain u where ad: "admit ?prefix (int (length values) - ?prefix) = Inr u"
          using eq by (cases "admit ?prefix (int (length values) - ?prefix)") (auto simp: Let_def Inr pb producer_def [symmetric] split: if_splits)
        have nt': "(case ?found of
               Some n \<Rightarrow> (n, upd_stats (\<lambda>t. t\<lparr>is_joins := is_joins t + 1\<rparr>) s)
             | None \<Rightarrow>
                 (let key = key_of (ow_secret s) b values; n = length (ow_node s);
                      x = \<lparr>no_key = key, no_binding = b, no_resources = res, no_tokens = values, no_reservation = producer, no_cancel = False,
                           no_requests = [], no_active = True, no_status = Pending, no_result = None, no_commitment = None\<rparr>
                  in (n, upd_stats (\<lambda>t. t\<lparr>is_producer_registrations := is_producer_registrations t + 1\<rparr>)
                       (s\<lparr>ow_node := ow_node s @ [x], ow_nodes := ow_nodes s @ [n], ow_pending := AList.update key n (ow_pending s)\<rparr>)))) = (n, t)"
          unfolding nt [symmetric] by (cases ?found) (simp_all add: joined_def fresh_node_def Let_def)
        have nf: "?full = False" using False by blast
        note e2 = eq [unfolded Let_def Inr onS_Inr pb producer_def [symmetric], unfolded nf if_False ad onS_Inr nt' [unfolded Let_def] prod.case]
        have tr: "length (ow_request t) = length (ow_request s)" using nt by (auto simp: joined_def split: option.splits)
        show ?thesis
        proof (rule registered [OF pre(1) refl go(4) refl pre(2) producer_def _ _ _ nt])
          show "is_requests (ow_stats s) < ow_max_requests s" "?found = None \<Longrightarrow> int (length (ow_nodes s)) < ow_max_nodes s"
            "is_reserved_bytes (ow_stats s) + branch + producer \<le> ow_max_bytes s" using False by auto
          show "a = Inr (Some (length (ow_request s)))" "s' = upd_stats (\<lambda>t. t\<lparr>is_requests := is_requests t + 1, is_reserved_bytes := is_reserved_bytes t + (producer + branch),
                   is_peak_reserved_bytes := max (is_peak_reserved_bytes t) (is_reserved_bytes t + (producer + branch))\<rparr>)
            (attach \<lparr>iq_node = n, iq_producer = (producer \<noteq> 0), iq_prefix_tokens = int (length (no_tokens (node_of t n))), iq_reservation = branch,
               iq_released = False, iq_cancelled = False, iq_lease = None\<rparr> t)"
            using e2 tr by (auto simp: attach_def)
        qed
      qed
    qed
  qed
qed

lemma joined_good:
  assumes g: "good ops sec {} {} s" and j: "joined key_of b values res (longest s (candidates b res values s)) producer s = (n, t)" and pr: "0 \<le> producer"
    and none: "longest s (candidates b res values s) \<noteq> None \<Longrightarrow> producer = 0" and c: "\<not> ow_closed s"
  shows "shape_good ops sec t" "n \<in> set (ow_nodes t)" "owed t = owed s + producer" "live t = live s" "length (ow_request t) = length (ow_request s)"
    "length (ow_nodes t) = length (ow_nodes s) + (if longest s (candidates b res values s) = None then 1 else 0)"
    "is_requests (ow_stats t) = is_requests (ow_stats s)" "is_reserved_bytes (ow_stats t) = is_reserved_bytes (ow_stats s)"
    "is_peak_reserved_bytes (ow_stats t) = is_peak_reserved_bytes (ow_stats s)"
    "ow_max_requests t = ow_max_requests s" "ow_max_nodes t = ow_max_nodes s" "ow_max_bytes t = ow_max_bytes s"
proof -
  have sg: "shape_good ops sec s" using g by (simp add: good_def shape_good_def)
  have su: "shape_good ops sec (upd_stats f x) = shape_good ops sec x" for f and x :: "'a InflightPrefixOwner" by (simp add: shape_good_def)
  have "shape_good ops sec t \<and> n \<in> set (ow_nodes t) \<and> owed t = owed s + producer \<and> live t = live s \<and> length (ow_request t) = length (ow_request s)
    \<and> length (ow_nodes t) = length (ow_nodes s) + (if longest s (candidates b res values s) = None then 1 else 0)
    \<and> is_requests (ow_stats t) = is_requests (ow_stats s) \<and> is_reserved_bytes (ow_stats t) = is_reserved_bytes (ow_stats s)
    \<and> is_peak_reserved_bytes (ow_stats t) = is_peak_reserved_bytes (ow_stats s)
    \<and> ow_max_requests t = ow_max_requests s \<and> ow_max_nodes t = ow_max_nodes s \<and> ow_max_bytes t = ow_max_bytes s"
  proof (cases "longest s (candidates b res values s)")
    case None
    then have t: "n = length (ow_node s)" "t = upd_stats (\<lambda>t. t\<lparr>is_producer_registrations := is_producer_registrations t + 1\<rparr>)
       (fresh_node \<lparr>no_key = key_of (ow_secret s) b values, no_binding = b, no_resources = res, no_tokens = values, no_reservation = producer,
          no_cancel = False, no_requests = [], no_active = True, no_status = Pending, no_result = None, no_commitment = None\<rparr> s)"
      using j by (simp_all add: joined_def)
    show ?thesis using None pr c by (simp add: t su fresh_good [OF sg])
  next
    case (Some m)
    then have "n = m" "t = upd_stats (\<lambda>t. t\<lparr>is_joins := is_joins t + 1\<rparr>) s" "producer = 0" using j none by (simp_all add: joined_def)
    moreover obtain k where "(k, m) \<in> set (ow_pending s)" using candidate_in longest_in Some by blast
    then have "m \<in> set (ow_nodes s)" using pend_okD(1) [of "{}" s k m] g by (simp add: good_def)
    ultimately show ?thesis using sg Some by (simp add: su)
  qed
  then show "shape_good ops sec t" "n \<in> set (ow_nodes t)" "owed t = owed s + producer" "live t = live s" "length (ow_request t) = length (ow_request s)"
    "length (ow_nodes t) = length (ow_nodes s) + (if longest s (candidates b res values s) = None then 1 else 0)"
    "is_requests (ow_stats t) = is_requests (ow_stats s)" "is_reserved_bytes (ow_stats t) = is_reserved_bytes (ow_stats s)"
    "is_peak_reserved_bytes (ow_stats t) = is_peak_reserved_bytes (ow_stats s)"
    "ow_max_requests t = ow_max_requests s" "ow_max_nodes t = ow_max_nodes s" "ow_max_bytes t = ow_max_bytes s" by simp_all
qed

lemma lookup_good:
  assumes g: "good ops sec {} {} s" and l: "lookup_or_register key_of same b values res admit hit s = (s', a)" and r: "resources_ok res"
  shows "good ops sec {} {} s'"
  using l
proof (cases rule: lookup_cases)
  case (kept f)
  then show ?thesis using upd_stats_good [OF g, of f] by simp
next
  case (registered found prefix branch producer n t)
  have pos: "0 < branch" "0 \<le> producer" 
    using resources_positive(3) [OF r] resources_positive(4) [OF r registered(1)] registered(5,6) by (simp_all add: add_pos_pos)
  have none: "found \<noteq> None \<Longrightarrow> producer = 0" using registered(6) by (cases found) simp_all
  note j = joined_good [OF g registered(10) [unfolded registered(2)] pos(2) none [unfolded registered(2)] registered(3)]
  let ?q = "\<lparr>iq_node = n, iq_producer = (producer \<noteq> 0), iq_prefix_tokens = int (length (no_tokens (node_of t n))), iq_reservation = branch,
               iq_released = False, iq_cancelled = False, iq_lease = None\<rparr> :: 'a InflightRequest"
  have at: "shape_good ops sec (attach ?q t)" "owed (attach ?q t) = owed s + producer + branch"
    "live (attach ?q t) = insert (length (ow_request s)) (live s)"
    using attach_good [OF j(1), of ?q] j(2-5) pos by simp_all
  have su: "sums_ok s" using g by (simp add: good_def)
  have "length (ow_request s) \<notin> live s" by (simp add: live_def)
  then have "card (live s') = Suc (card (live s))" unfolding registered(12) live_upd at(3) by simp
  moreover have "owed s' = owed s + producer + branch" unfolding registered(12) parts_upd_stats at(2) ..
  moreover have "int (length (ow_nodes s')) \<le> ow_max_nodes s'"
    using registered(8,12) j(6,11) su unfolding registered(2) by (cases "longest s (candidates b res values s) = None") (simp_all add: sums_ok_def)
  moreover have "ow_stats s' = (ow_stats t)\<lparr>is_requests := is_requests (ow_stats t) + 1, is_reserved_bytes := is_reserved_bytes (ow_stats t) + (producer + branch),
                   is_peak_reserved_bytes := max (is_peak_reserved_bytes (ow_stats t)) (is_reserved_bytes (ow_stats t) + (producer + branch))\<rparr>"
    "ow_max_requests s' = ow_max_requests s" "ow_max_bytes s' = ow_max_bytes s" using registered(12) j(10,12) by simp_all
  ultimately have "sums_ok s'" using su registered(7,9) pos j(7-9) by (simp add: sums_ok_def)
  then show ?thesis using at(1) by (simp add: good_def shape_good_def registered(12))
qed

section \<open>Producers, waiters and closing keep the invariant\<close>

lemma producer_node_Inr: "producer_node r s = Inr n \<longleftrightarrow> r < length (ow_request s) \<and> iq_producer (request_of s r) \<and> n = iq_node (request_of s r) \<and> n \<in> set (ow_nodes s)"
  by (auto simp: producer_node_def raise_if_def split: if_splits)

lemma publish_cases:
  assumes "publish ops r first saved final oom s = (s', a)"
  obtains (refused) e where "s' = s" "a = Inl e"
  | (failed) n e where "producer_node r s = Inr n" "s' = mark_failed n s" "a = Inl e"
  | (accepted) n where "producer_node r s = Inr n" "no_active (node_of s n)" "no_status (node_of s n) = Pending" "\<not> no_cancel (node_of s n)"
      "publish_checks ops (node_of s n) (ow_secret s) first saved final oom = Inr (ao_commit ops (ow_secret s) saved)" "a = Inr ()"
      "s' = upd_stats (\<lambda>t. t\<lparr>is_publications := is_publications t + 1,
               is_copy_bytes := is_copy_bytes t + payload_size (no_resources (node_of s n)) (int (length (no_tokens (node_of s n))))\<rparr>)
             (unindex n (upd_node n (\<lambda>x. x\<lparr>no_result := Some saved, no_commitment := Some (ao_commit ops (ow_secret s) saved), no_status := Published\<rparr>) s))"
proof (cases "producer_node r s")
  case (Inl e)
  then show ?thesis using assms refused by (auto simp: publish_def)
next
  case (Inr n)
  note eq = assms [unfolded publish_def Inr onS_Inr Let_def raiseS_def]
  show ?thesis
  proof (cases "\<not> no_active (node_of s n) \<or> no_status (node_of s n) \<noteq> Pending \<or> no_cancel (node_of s n)")
    case True
    then show ?thesis using eq refused by (simp only: if_True prod.inject) blast
  next
    case False
    show ?thesis
    proof (cases "publish_checks ops (node_of s n) (ow_secret s) first saved final oom")
      case (Inl e)
      then show ?thesis using eq False failed [OF Inr] by (simp only: if_False sum.case prod.inject) blast
    next
      case (Inr before)
      then have "before = ao_commit ops (ow_secret s) saved"
        by (auto simp: publish_checks_def Let_def bindE_eq_Inr raise_if_eq_Inr)
      with eq False Inr accepted [OF \<open>producer_node r s = Inr n\<close>] show ?thesis by simp
    qed
  qed
qed

lemma publish_valid:
  "publish_checks ops x secret first saved final oom = Inr c \<Longrightarrow> ao_validate ops (no_binding x) (no_resources x) (no_tokens x) saved = Inr ()"
  by (auto simp: publish_checks_def Let_def bindE_eq_Inr raise_if_eq_Inr)

lemma published_good:
  assumes g: "good ops sec {} {} s" and n: "n \<in> set (ow_nodes s)" "no_active (node_of s n)"
    and v: "ao_validate ops (no_binding (node_of s n)) (no_resources (node_of s n)) (no_tokens (node_of s n)) saved = Inr ()"
  shows "good ops sec {} {} (unindex n (upd_node n (\<lambda>x. x\<lparr>no_result := Some saved, no_commitment := Some (ao_commit ops (ow_secret s) saved), no_status := Published\<rparr>) s))"
proof -
  let ?t = "upd_node n (\<lambda>x. x\<lparr>no_result := Some saved, no_commitment := Some (ao_commit ops (ow_secret s) saved), no_status := Published\<rparr>) s"
  have p: "pend_ok {} s" and l: "links_ok s" and h: "held_ok {} s" and su: "sums_ok s" and d: "data_ok ops sec s" using g by (simp_all add: good_def)
  have len: "n < length (ow_node s)" using l n(1) by (simp add: links_ok_def)
  have same: "no_key (node_of ?t m) = no_key (node_of s m)" "no_requests (node_of ?t m) = no_requests (node_of s m)"
    "no_reservation (node_of ?t m) = no_reservation (node_of s m)" "no_active (node_of ?t m) = no_active (node_of s m)" for m by simp_all
  have "pend_ok {n} ?t"
  proof (rule pend_okI)
    show "distinct (map fst (ow_pending ?t))" using p by (simp add: pend_ok_def)
    fix k m assume m: "(k, m) \<in> set (ow_pending ?t)"
    show "m \<in> set (ow_nodes ?t) \<and> no_key (node_of ?t m) = k" using pend_okD(1) [OF p, of k m] m by (simp only: same upd_node_fields)
    show "no_status (node_of ?t m) = Pending \<and> no_active (node_of ?t m) \<and> \<not> no_cancel (node_of ?t m)" if "m \<notin> {n}"
      using pend_okD(2) [OF p, of k m] m that by simp
  qed
  moreover have "links_ok ?t = links_ok s" "held_ok {} ?t = held_ok {} s" "sums_ok ?t = sums_ok s"
    by (simp_all add: links_ok_def held_ok_def sums_ok_def owed_def same del: node_upd_node)
  moreover have "data_ok ops sec ?t"
    unfolding data_ok_def
  proof (intro conjI allI impI)
    have sec: "ow_secret s = sec" using d n(1) by (auto simp: data_ok_def)
    then show "ow_secret ?t = sec \<or> ow_closed ?t \<and> ow_nodes ?t = []" by simp
    fix m assume m: "m < length (ow_node ?t)"
    have old: "let x = node_of s m in
          (\<forall>c. no_commitment x = Some c \<longrightarrow> m \<in> set (ow_nodes s)
             \<and> (\<exists>p. ao_validate ops (no_binding x) (no_resources x) (no_tokens x) p = Inr () \<and> c = ao_commit ops sec p))
        \<and> (no_status x = Published \<longrightarrow> m \<in> set (ow_nodes s) \<longrightarrow> no_commitment x \<noteq> None \<and> no_result x \<noteq> None)
        \<and> (no_status x = Pending \<longrightarrow> m \<in> set (ow_nodes s) \<longrightarrow> no_active x)
        \<and> (m \<notin> set (ow_nodes s) \<longrightarrow> no_result x = None)" using d m by (simp add: data_ok_def)
    then show "let x = node_of ?t m in
          (\<forall>c. no_commitment x = Some c \<longrightarrow> m \<in> set (ow_nodes ?t)
             \<and> (\<exists>p. ao_validate ops (no_binding x) (no_resources x) (no_tokens x) p = Inr () \<and> c = ao_commit ops sec p))
        \<and> (no_status x = Published \<longrightarrow> m \<in> set (ow_nodes ?t) \<longrightarrow> no_commitment x \<noteq> None \<and> no_result x \<noteq> None)
        \<and> (no_status x = Pending \<longrightarrow> m \<in> set (ow_nodes ?t) \<longrightarrow> no_active x)
        \<and> (m \<notin> set (ow_nodes ?t) \<longrightarrow> no_result x = None)"
    proof (cases "m = n")
      case True
      then show ?thesis using n len v sec by (auto simp: Let_def)
    next
      case False
      then show ?thesis using old by simp
    qed
  qed
  ultimately have "good ops sec {n} {} ?t" using l h su by (simp add: good_def)
  from unindex_good [OF this, of n] show ?thesis by simp
qed

lemma node_below: "good ops sec X Y s \<Longrightarrow> n \<in> set (ow_nodes s) \<Longrightarrow> n < length (ow_node s)"
  by (simp add: good_def links_ok_def)

lemma producer_below: "good ops sec X Y s \<Longrightarrow> producer_node r s = Inr n \<Longrightarrow> n \<in> set (ow_nodes s) \<and> n < length (ow_node s)"
  by (metis producer_node_Inr node_below)

lemma publish_good:
  assumes g: "good ops sec {} {} s" and p: "publish ops r first saved final oom s = (s', a)"
  shows "good ops sec {} {} s'"
  using p
proof (cases rule: publish_cases)
  case (failed n e)
  then show ?thesis using mark_failed_good [OF g, of n] producer_below [OF g] by simp
next
  case (accepted n)
  have "n \<in> set (ow_nodes s)" using producer_below [OF g accepted(1)] by simp
  then show ?thesis unfolding accepted(7)
    by (intro upd_stats_good published_good [OF g _ accepted(2) publish_valid [OF accepted(5)]]) simp_all
qed (simp add: g)

lemma fail_good:
  assumes g: "good ops sec {} {} s"
  shows "good ops sec {} {} (fst (fail_producer r s))"
proof (cases "producer_node r s")
  case (Inr n)
  then show ?thesis using g mark_failed_good [OF g, of n] producer_below [OF g Inr] by (simp add: fail_producer_def raiseS_def)
qed (simp add: fail_producer_def g)

lemma finish_good:
  assumes g: "good ops sec {} {} s"
  shows "good ops sec {} {} (fst (finish_producer r s))"
proof (cases "length (ow_request s) \<le> r \<or> \<not> iq_producer (request_of s r) \<or> \<not> no_active (node_of s (iq_node (request_of s r)))")
  case True
  then show ?thesis using g by (auto simp: finish_producer_def raiseS_def)
next
  case False
  define n where "n = iq_node (request_of s r)"
  define s1 where "s1 = (if no_status (node_of s n) = Pending then mark_failed n s else s)"
  have n: "n < length (ow_node s)" using live_node [OF g] False by (simp add: n_def)
  have g1: "good ops sec {} {} s1" using mark_failed_good [OF g n] g by (simp add: s1_def)
  have len: "n < length (ow_node s1)" using n by (simp add: s1_def)
  have st: "no_status (node_of s1 n) \<noteq> Pending" using n by (auto simp: s1_def mark_failed_def Let_def)
  have "good ops sec {n} {n} (upd_node n (\<lambda>x. x\<lparr>no_active := False\<rparr>) s1)"
    using upd_node_good [OF g1 len, of "\<lambda>x. x\<lparr>no_active := False\<rparr>"] st by (auto intro: good_mono split: if_splits)
  then have "good ops sec {} {n} (upd_node n (\<lambda>x. x\<lparr>no_active := False\<rparr>) s1)"
    by (rule good_drop) (use unlisted_status [OF g1] st in simp)
  from retire_good [OF this, of n] len have "good ops sec {} {} (retire n (upd_node n (\<lambda>x. x\<lparr>no_active := False\<rparr>) s1))" by simp
  then show ?thesis using False unfolding s1_def n_def by (simp add: finish_producer_def raiseS_def Let_def split: if_splits)
qed

lemma lengths_methods [simp]:
  "length (ow_node (release ops r s)) = length (ow_node s)" "length (ow_request (release ops r s)) = length (ow_request s)"
  "length (ow_node (cancel_request ops r s)) = length (ow_node s)" "length (ow_request (cancel_request ops r s)) = length (ow_request s)"
  by (simp_all add: release_def cancel_request_def Let_def)

lemma wait_good:
  assumes g: "good ops sec {} {} s" and r: "r < length (ow_request s)"
  shows "good ops sec {} {} (fst (wait_resume ops r timed_out race oom s))" "good ops sec {} {} (fst (wait_begin ops r race oom s))"
proof -
  let ?n = "iq_node (request_of s r)"
  have len: "?n < length (ow_node s)" by (rule live_node [OF g r])
  have lease: "good ops sec {} {} (upd_stats (\<lambda>t. t\<lparr>is_copy_bytes := is_copy_bytes t + payload_size (no_resources (node_of s ?n)) (iq_prefix_tokens (request_of s r))\<rparr>)
             (upd_request r (\<lambda>q. q\<lparr>iq_lease := Some copied\<rparr>) s))" for copied
    by (rule upd_stats_good [OF upd_request_good [OF g]]) simp_all
  have copy: "good ops sec {} {} (fst (wait_copy ops r copied oom s))" for copied
    using lease [of copied] release_good [OF g r] by (simp add: wait_copy_def Let_def split: sum.split)
  have failed: "good ops sec {} {} (release ops r (mark_failed ?n s))"
    using mark_failed_good [OF g len] by (intro release_good) (simp_all add: r)
  show w: "good ops sec {} {} (fst (wait_resume ops r timed_out race oom s))" for timed_out
    using g copy failed release_good [OF g r] cancel_request_good [OF g r]
    by (simp add: wait_resume_def wait_checked_def raiseS_def Let_def split: option.split)
  show "good ops sec {} {} (fst (wait_begin ops r race oom s))"
    using g w [of False] by (simp add: wait_begin_def wait_checked_def raiseS_def)
qed

lemma length_close_node: "length (ow_node (close_node ops n s)) = length (ow_node s)"
proof -
  have "length (ow_node (fold (cancel_request ops) rs t)) = length (ow_node t)" for rs t by (induction rs arbitrary: t) simp_all
  then show ?thesis by (simp add: close_node_def Let_def)
qed

lemma fold_invariant: "P s \<Longrightarrow> (\<And>x s. x \<in> set xs \<Longrightarrow> P s \<Longrightarrow> P (f x s)) \<Longrightarrow> P (fold f xs s)"
  by (induction xs arbitrary: s) auto

lemma close_node_good:
  assumes g: "good ops sec {} {} s" and n: "n < length (ow_node s)"
  shows "good ops sec {} {} (close_node ops n s) \<and> length (ow_node (close_node ops n s)) = length (ow_node s)"
proof -
  define s1 where "s1 = unindex n (cancel_producer n s)"
  have g1: "good ops sec {} {} s1" using unindex_good [OF cancel_producer_good [OF g n], of n] by (simp add: s1_def)
  have len: "length (ow_node s1) = length (ow_node s)" by (simp add: s1_def)
  have below: "q < length (ow_request s1)" if "q \<in> set (no_requests (node_of s1 n))" for q
  proof -
    have "q \<in> live s1" using g1 n that unfolding good_def links_ok_def len by blast
    then show ?thesis by (simp add: live_def)
  qed
  have "good ops sec {} {} (fold (cancel_request ops) (no_requests (node_of s1 n)) s1)
      \<and> length (ow_node (fold (cancel_request ops) (no_requests (node_of s1 n)) s1)) = length (ow_node s)
      \<and> length (ow_request (fold (cancel_request ops) (no_requests (node_of s1 n)) s1)) = length (ow_request s1)"
    by (rule fold_invariant) (simp_all add: g1 len cancel_request_good below)
  then show ?thesis by (simp add: close_node_def Let_def s1_def)
qed

lemma close_begin_good:
  assumes g: "good ops sec {} {} s"
  shows "good ops sec {} {} (close_begin ops s)"
proof -
  let ?s = "s\<lparr>ow_closed := True\<rparr>"
  have "pend_ok {} ?s = pend_ok {} s" "links_ok ?s = links_ok s" "held_ok {} ?s = held_ok {} s" "sums_ok ?s = sums_ok s" "live ?s = live s"
    by (simp_all add: pend_ok_def links_ok_def held_ok_def sums_ok_def owed_def live_def)
  moreover have "data_ok ops sec s \<Longrightarrow> data_ok ops sec ?s" by (auto simp: data_ok_def)
  ultimately have g1: "good ops sec {} {} ?s" using g by (simp add: good_def)
  have "good ops sec {} {} (fold (close_node ops) (ow_nodes s) ?s) \<and> length (ow_node (fold (close_node ops) (ow_nodes s) ?s)) = length (ow_node s)"
    by (rule fold_invariant) (simp_all add: g1 close_node_good length_close_node node_below [OF g])
  then show ?thesis by (simp add: close_begin_def Let_def)
qed

lemma close_end_good: "good ops sec {} {} s \<Longrightarrow> ow_closed s \<Longrightarrow> good ops sec {} {} (fst (close_end s))"
  by (simp add: close_end_def good_zero_secret)

section \<open>What no method changes\<close>

text \<open>Requests keep their node, prefix and role and stay released; nodes keep their binding and stay inactive and retired; kept nodes keep their tokens.
  When \<open>L\<close> holds, no lease of a live request changes, and new ones have none.\<close>

definition keeps :: "bool \<Rightarrow> 'p InflightPrefixOwner \<Rightarrow> 'p InflightPrefixOwner \<Rightarrow> bool" where
  "keeps L s t \<longleftrightarrow> length (ow_request s) \<le> length (ow_request t) \<and> length (ow_node s) \<le> length (ow_node t)
     \<and> (\<forall>r < length (ow_request s). iq_node (request_of t r) = iq_node (request_of s r) \<and> iq_prefix_tokens (request_of t r) = iq_prefix_tokens (request_of s r)
          \<and> iq_producer (request_of t r) = iq_producer (request_of s r) \<and> (iq_released (request_of s r) \<longrightarrow> iq_released (request_of t r))
          \<and> (L \<longrightarrow> iq_released (request_of t r) \<or> iq_lease (request_of t r) = iq_lease (request_of s r)))
     \<and> (\<forall>r. length (ow_request s) \<le> r \<longrightarrow> r < length (ow_request t) \<longrightarrow> L \<longrightarrow> iq_released (request_of t r) \<or> iq_lease (request_of t r) = None)
     \<and> (\<forall>n < length (ow_node s). no_binding (node_of t n) = no_binding (node_of s n) \<and> no_resources (node_of t n) = no_resources (node_of s n)
          \<and> (no_active (node_of t n) \<longrightarrow> no_active (node_of s n))
          \<and> (n \<in> set (ow_nodes t) \<longrightarrow> n \<in> set (ow_nodes s) \<and> no_tokens (node_of t n) = no_tokens (node_of s n)))"

lemma keeps_refl: "keeps L s s"
  by (simp add: keeps_def)

lemma keeps_trans: "keeps L s t \<Longrightarrow> keeps L t u \<Longrightarrow> keeps L s u"
proof -
  assume st: "keeps L s t" and tu: "keeps L t u"
  note st' = st [unfolded keeps_def] and tu' = tu [unfolded keeps_def]
  have len: "length (ow_request s) \<le> length (ow_request t)" "length (ow_node s) \<le> length (ow_node t)" using st' by blast+
  show ?thesis
    unfolding keeps_def
  proof (intro conjI allI impI)
    show "length (ow_request s) \<le> length (ow_request u)" "length (ow_node s) \<le> length (ow_node u)" using st' tu' by linarith+
    fix r assume r: "r < length (ow_request s)"
    then have r': "r < length (ow_request t)" using len by simp
    show "iq_node (request_of u r) = iq_node (request_of s r)" "iq_prefix_tokens (request_of u r) = iq_prefix_tokens (request_of s r)"
      "iq_producer (request_of u r) = iq_producer (request_of s r)" "iq_released (request_of s r) \<Longrightarrow> iq_released (request_of u r)"
      using st' tu' r r' by simp_all
    show "iq_released (request_of u r) \<or> iq_lease (request_of u r) = iq_lease (request_of s r)" if L
      using st' tu' r r' that by metis
  next
    fix r assume r: "length (ow_request s) \<le> r" "r < length (ow_request u)"
    show "iq_released (request_of u r) \<or> iq_lease (request_of u r) = None" if L
      using st' tu' r that by (cases "r < length (ow_request t)") (metis, simp)
  next
    fix n assume n: "n < length (ow_node s)"
    then have n': "n < length (ow_node t)" using len by simp
    show "no_binding (node_of u n) = no_binding (node_of s n)" "no_resources (node_of u n) = no_resources (node_of s n)"
      "no_active (node_of u n) \<Longrightarrow> no_active (node_of s n)" "n \<in> set (ow_nodes u) \<Longrightarrow> n \<in> set (ow_nodes s)"
      "n \<in> set (ow_nodes u) \<Longrightarrow> no_tokens (node_of u n) = no_tokens (node_of s n)"
      using st' tu' n n' by simp_all
  qed
qed

lemma keeps_same: "ow_request t = ow_request s \<Longrightarrow> ow_node t = ow_node s \<Longrightarrow> ow_nodes t = ow_nodes s \<Longrightarrow> keeps L s t"
  by (simp add: keeps_def)

lemma keeps_upd_stats: "keeps L s (upd_stats f s)" by (rule keeps_same) simp_all
lemma keeps_unindex: "keeps L s (unindex n s)" by (rule keeps_same) simp_all
lemma keeps_zero_secret: "keeps L s (zero_secret s)" by (rule keeps_same) simp_all

lemma keeps_upd_node:
  assumes "no_binding (f (node_of s n)) = no_binding (node_of s n)" "no_resources (f (node_of s n)) = no_resources (node_of s n)"
    "no_tokens (f (node_of s n)) = no_tokens (node_of s n)" "no_active (f (node_of s n)) \<Longrightarrow> no_active (node_of s n)"
  shows "keeps L s (upd_node n f s)"
  using assms by (simp add: keeps_def)

lemma keeps_upd_request:
  assumes "iq_node (f (request_of s r)) = iq_node (request_of s r)" "iq_prefix_tokens (f (request_of s r)) = iq_prefix_tokens (request_of s r)"
    "iq_producer (f (request_of s r)) = iq_producer (request_of s r)" "iq_released (request_of s r) \<Longrightarrow> iq_released (f (request_of s r))"
    "L \<Longrightarrow> \<not> iq_released (f (request_of s r)) \<Longrightarrow> iq_lease (f (request_of s r)) = iq_lease (request_of s r)"
  shows "keeps L s (upd_request r f s)"
  using assms by (auto simp: keeps_def)

text \<open>The same facts as steps backwards from the state reached.\<close>

lemma keeps_stats_of: "keeps L s t \<Longrightarrow> keeps L s (upd_stats f t)" by (rule keeps_trans [OF _ keeps_upd_stats])
lemma keeps_unindex_of: "keeps L s t \<Longrightarrow> keeps L s (unindex n t)" by (rule keeps_trans [OF _ keeps_unindex])
lemma keeps_secret_of: "keeps L s t \<Longrightarrow> keeps L s (zero_secret t)" by (rule keeps_trans [OF _ keeps_zero_secret])

lemma keeps_node_of:
  "keeps L s t \<Longrightarrow> no_binding (f (node_of t n)) = no_binding (node_of t n) \<Longrightarrow> no_resources (f (node_of t n)) = no_resources (node_of t n)
    \<Longrightarrow> no_tokens (f (node_of t n)) = no_tokens (node_of t n) \<Longrightarrow> (no_active (f (node_of t n)) \<Longrightarrow> no_active (node_of t n)) \<Longrightarrow> keeps L s (upd_node n f t)"
  by (rule keeps_trans [OF _ keeps_upd_node])

lemma keeps_request_of:
  "keeps L s t \<Longrightarrow> iq_node (f (request_of t r)) = iq_node (request_of t r) \<Longrightarrow> iq_prefix_tokens (f (request_of t r)) = iq_prefix_tokens (request_of t r)
    \<Longrightarrow> iq_producer (f (request_of t r)) = iq_producer (request_of t r) \<Longrightarrow> (iq_released (request_of t r) \<Longrightarrow> iq_released (f (request_of t r)))
    \<Longrightarrow> (L \<Longrightarrow> \<not> iq_released (f (request_of t r)) \<Longrightarrow> iq_lease (f (request_of t r)) = iq_lease (request_of t r)) \<Longrightarrow> keeps L s (upd_request r f t)"
  by (rule keeps_trans [OF _ keeps_upd_request])

lemmas keeps_steps = keeps_refl keeps_stats_of keeps_unindex_of keeps_secret_of keeps_node_of keeps_request_of

lemma keeps_failed_of: "keeps L s t \<Longrightarrow> keeps L s (mark_failed n t)"
  by (auto simp: mark_failed_def Let_def intro!: keeps_steps)

lemma keeps_cancel_producer_of: "keeps L s t \<Longrightarrow> keeps L s (cancel_producer n t)"
  by (auto simp: cancel_producer_def intro!: keeps_steps)

lemma keeps_retire_of:
  assumes "keeps L s t"
  shows "keeps L s (retire n t)"
proof -
  have "keeps L t (retired n t)"
    by (cases "n < length (ow_node t)") (auto simp: keeps_def retired_def upd_node_def Let_def nth_list_update list_update_beyond)
  with assms have "keeps L s (retired n t)" by (rule keeps_trans)
  then show ?thesis using assms by (auto simp: retire_eq intro!: keeps_secret_of)
qed

lemma keeps_release_of: "keeps L s t \<Longrightarrow> keeps L s (release ops r t)"
  by (auto simp: release_def Let_def intro!: keeps_retire_of keeps_cancel_producer_of keeps_steps)

lemma keeps_cancel_of: "keeps L s t \<Longrightarrow> keeps L s (cancel_request ops r t)"
  by (auto simp: cancel_request_def Let_def intro!: keeps_release_of keeps_steps)

lemma keeps_fold: "(\<And>x t. keeps L s t \<Longrightarrow> keeps L s (f x t)) \<Longrightarrow> keeps L s t \<Longrightarrow> keeps L s (fold f xs t)"
  by (induction xs arbitrary: t) auto

lemma keeps_close: "keeps L s (close_begin ops s)"
proof -
  have n: "keeps L s t \<Longrightarrow> keeps L s (close_node ops n t)" for n t
    unfolding close_node_def Let_def by (intro keeps_fold keeps_cancel_of keeps_unindex_of keeps_cancel_producer_of) simp_all
  have "keeps L s (s\<lparr>ow_closed := True\<rparr>)" by (rule keeps_same) simp_all
  then show ?thesis unfolding close_begin_def Let_def by (intro keeps_fold n)
qed

lemma keeps_fresh: "good ops sec X Y s \<Longrightarrow> keeps L s (fresh_node x s)"
  by (auto simp: keeps_def)

lemma keeps_attach: "iq_lease q = None \<Longrightarrow> keeps L s (attach q s)"
  by (auto simp: keeps_def attach_def nth_append)

lemma keeps_lookup:
  assumes g: "good ops sec {} {} s" and l: "lookup_or_register key_of same b values res admit hit s = (s', a)"
  shows "keeps L s s'"
  using l
proof (cases rule: lookup_cases)
  case (kept f)
  then show ?thesis by (simp add: keeps_upd_stats)
next
  case (registered found prefix branch producer n t)
  have "keeps L s t" using registered(10) by (auto simp: joined_def split: option.splits intro!: keeps_stats_of keeps_refl keeps_fresh [OF g])
  then show ?thesis unfolding registered(12) by (intro keeps_stats_of) (rule keeps_trans [OF _ keeps_attach], simp_all)
qed

lemma keeps_publish:
  assumes "publish ops r first saved final oom s = (s', a)"
  shows "keeps L s s'"
  using assms
  by (cases rule: publish_cases) (auto intro!: keeps_failed_of keeps_steps)

lemma keeps_fail: "keeps L s (fst (fail_producer r s))"
  by (cases "producer_node r s") (auto simp: fail_producer_def raiseS_def intro!: keeps_failed_of keeps_refl)

lemma keeps_finish: "keeps L s (fst (finish_producer r s))"
  by (auto simp: finish_producer_def raiseS_def Let_def intro!: keeps_retire_of keeps_failed_of keeps_steps)

lemma keeps_wait: "keeps False s (fst (wait_resume ops r timed_out race oom s))" "keeps False s (fst (wait_begin ops r race oom s))"
proof -
  have c: "keeps False s (fst (wait_copy ops r copied oom s))" for copied
    unfolding wait_copy_def Let_def
    by (auto split: sum.split intro!: keeps_release_of keeps_steps)
  show w: "keeps False s (fst (wait_resume ops r timed_out race oom s))" for timed_out
    unfolding wait_resume_def wait_checked_def raiseS_def Let_def
    by (auto split: option.split intro!: c keeps_refl keeps_release_of keeps_cancel_of keeps_failed_of)
  show "keeps False s (fst (wait_begin ops r race oom s))"
    using w [of False] by (simp add: wait_begin_def wait_checked_def raiseS_def keeps_refl)
qed

section \<open>Histories\<close>

text \<open>
  A call of a method with its answer. Calls name existing requests; a call of a request that does not exist leaves the owner alone. \<open>Tamper\<close> is not a
  method: some code of the process changes the published arrays of a node.
\<close>

datatype 'p inflight_call =
    Lookup bool InflightBinding "int list" InflightResources "int \<Rightarrow> int \<Rightarrow> unit res" bool
  | PublishCall nat 'p 'p 'p "py_error option"
  | FailCall nat
  | FinishCall nat
  | WaitBegin nat "'p \<Rightarrow> 'p" "py_error option"
  | WaitResume nat bool "'p \<Rightarrow> 'p" "py_error option"
  | CancelCall nat
  | ReleaseCall nat
  | CloseBegin
  | CloseEnd
  | Tamper nat 'p

datatype 'p inflight_answer = Registered "nat option" | Leased nat 'p | Waits | Returned | Drained bool | Raised py_error

definition unit_answer :: "unit res \<Rightarrow> 'p inflight_answer" where
  "unit_answer a = (case a of Inl e \<Rightarrow> Raised e | Inr _ \<Rightarrow> Returned)"

definition wait_answer :: "nat \<Rightarrow> 'p option res \<Rightarrow> 'p inflight_answer" where
  "wait_answer r a = (case a of Inl e \<Rightarrow> Raised e | Inr None \<Rightarrow> Waits | Inr (Some p) \<Rightarrow> Leased r p)"

definition apply_call ::
  "'p array_ops \<Rightarrow> (bytes \<Rightarrow> InflightBinding \<Rightarrow> int list \<Rightarrow> bytes) \<Rightarrow> 'p inflight_call \<Rightarrow> 'p InflightPrefixOwner \<Rightarrow> 'p InflightPrefixOwner \<times> 'p inflight_answer" where
  "apply_call ops key_of c s = (case c of
     Lookup same b values res admit hit \<Rightarrow>
       (let (s', a) = lookup_or_register key_of same b values res admit hit s in (s', case a of Inl e \<Rightarrow> Raised e | Inr r \<Rightarrow> Registered r))
   | PublishCall r first saved final oom \<Rightarrow> (let (s', a) = publish ops r first saved final oom s in (s', unit_answer a))
   | FailCall r \<Rightarrow> (let (s', a) = fail_producer r s in (s', unit_answer a))
   | FinishCall r \<Rightarrow> (let (s', a) = finish_producer r s in (s', unit_answer a))
   | WaitBegin r race oom \<Rightarrow>
       if r < length (ow_request s) then (let (s', a) = wait_begin ops r race oom s in (s', wait_answer r a)) else (s, Returned)
   | WaitResume r timed_out race oom \<Rightarrow>
       if r < length (ow_request s) then (let (s', a) = wait_resume ops r timed_out race oom s in (s', wait_answer r a)) else (s, Returned)
   | CancelCall r \<Rightarrow> (if r < length (ow_request s) then cancel_request ops r s else s, Returned)
   | ReleaseCall r \<Rightarrow> (if r < length (ow_request s) then release ops r s else s, Returned)
   | CloseBegin \<Rightarrow> (close_begin ops s, Returned)
   | CloseEnd \<Rightarrow> if ow_closed s then (let (s', b) = close_end s in (s', Drained b)) else (s, Returned)
   | Tamper n p \<Rightarrow> (if n < length (ow_node s) \<and> no_result (node_of s n) \<noteq> None then upd_node n (\<lambda>x. x\<lparr>no_result := Some p\<rparr>) s else s, Returned))"

definition run_calls ::
  "'p array_ops \<Rightarrow> (bytes \<Rightarrow> InflightBinding \<Rightarrow> int list \<Rightarrow> bytes) \<Rightarrow> 'p inflight_call list \<Rightarrow> 'p InflightPrefixOwner
    \<Rightarrow> 'p InflightPrefixOwner \<times> ('p inflight_call \<times> 'p inflight_answer) list" where
  "run_calls ops key_of cs s = fold (\<lambda>c (s, log). let (s', a) = apply_call ops key_of c s in (s', log @ [(c, a)])) cs (s, [])"

text \<open>Resources come from their constructor.\<close>

definition call_ok :: "'p inflight_call \<Rightarrow> bool" where
  "call_ok c = (case c of Lookup same b values res admit hit \<Rightarrow> resources_ok res | _ \<Rightarrow> True)"

definition is_wait :: "'p inflight_call \<Rightarrow> bool" where
  "is_wait c = (case c of WaitBegin r race oom \<Rightarrow> True | WaitResume r timed_out race oom \<Rightarrow> True | _ \<Rightarrow> False)"

lemma tamper_good:
  assumes g: "good ops sec {} {} s" and n: "no_result (node_of s n) \<noteq> None"
  shows "good ops sec {} {} (upd_node n (\<lambda>x. x\<lparr>no_result := Some p\<rparr>) s)"
proof -
  let ?t = "upd_node n (\<lambda>x. x\<lparr>no_result := Some p\<rparr>) s"
  have same: "no_key (node_of ?t m) = no_key (node_of s m)" "no_requests (node_of ?t m) = no_requests (node_of s m)"
    "no_reservation (node_of ?t m) = no_reservation (node_of s m)" "no_binding (node_of ?t m) = no_binding (node_of s m)"
    "no_resources (node_of ?t m) = no_resources (node_of s m)" "no_tokens (node_of ?t m) = no_tokens (node_of s m)"
    "no_commitment (node_of ?t m) = no_commitment (node_of s m)" "no_status (node_of ?t m) = no_status (node_of s m)"
    "no_active (node_of ?t m) = no_active (node_of s m)" "no_cancel (node_of ?t m) = no_cancel (node_of s m)"
    "(no_result (node_of ?t m) = None) = (no_result (node_of s m) = None)" for m
    using n by auto
  have "pend_ok {} ?t = pend_ok {} s" "links_ok ?t = links_ok s" "held_ok {} ?t = held_ok {} s" "sums_ok ?t = sums_ok s" "data_ok ops sec ?t = data_ok ops sec s"
    by (simp_all add: pend_ok_def links_ok_def held_ok_def sums_ok_def owed_def data_ok_def Let_def same del: node_upd_node not_None_eq)
  then show ?thesis using g by (simp add: good_def)
qed

lemma apply_good:
  assumes g: "good ops sec {} {} s" and c: "call_ok c" and a: "apply_call ops key_of c s = (s', a)"
  shows "good ops sec {} {} s'" and "keeps (\<not> is_wait c) s s'"
proof -
  have "good ops sec {} {} s' \<and> keeps (\<not> is_wait c) s s'"
  proof (cases c)
    case (Lookup same b vs res admit hit)
    obtain t x where l: "lookup_or_register key_of same b vs res admit hit s = (t, x)" by fastforce
    then show ?thesis using a c lookup_good [OF g l] keeps_lookup [OF g l] by (simp add: Lookup apply_call_def call_ok_def)
  next
    case (PublishCall r first saved final oom)
    obtain t x where l: "publish ops r first saved final oom s = (t, x)" by fastforce
    then show ?thesis using a publish_good [OF g l] keeps_publish [OF l] by (simp add: PublishCall apply_call_def)
  next
    case (FailCall r)
    then show ?thesis using a fail_good [OF g, of r] keeps_fail [of _ s r] by (auto simp: apply_call_def case_prod_beta)
  next
    case (FinishCall r)
    then show ?thesis using a finish_good [OF g, of r] keeps_finish [of _ s r] by (auto simp: apply_call_def case_prod_beta)
  next
    case (WaitBegin r race oom)
    then show ?thesis using a g wait_good(2) [OF g, of r race oom] keeps_wait(2) [of s ops r race oom] keeps_refl [of _ s]
      by (auto simp: apply_call_def is_wait_def case_prod_beta split: if_splits)
  next
    case (WaitResume r timed_out race oom)
    then show ?thesis using a g wait_good(1) [OF g, of r timed_out race oom] keeps_wait(1) [of s ops r timed_out race oom] keeps_refl [of _ s]
      by (auto simp: apply_call_def is_wait_def case_prod_beta split: if_splits)
  next
    case (CancelCall r)
    then show ?thesis using a g cancel_request_good [OF g] by (auto simp: apply_call_def intro!: keeps_cancel_of keeps_refl split: if_splits)
  next
    case (ReleaseCall r)
    then show ?thesis using a g release_good [OF g] by (auto simp: apply_call_def intro!: keeps_release_of keeps_refl split: if_splits)
  next
    case CloseBegin
    then show ?thesis using a close_begin_good [OF g] keeps_close [of _ s ops] by (simp add: apply_call_def)
  next
    case CloseEnd
    then show ?thesis using a g close_end_good [OF g] by (auto simp: apply_call_def close_end_def intro!: keeps_secret_of keeps_refl split: if_splits)
  next
    case (Tamper n p)
    then show ?thesis using a g tamper_good [OF g, of n p] by (auto simp: apply_call_def intro!: keeps_steps split: if_splits)
  qed
  then show "good ops sec {} {} s'" "keeps (\<not> is_wait c) s s'" by blast+
qed

lemma init_good: "InflightPrefixOwner_init max_requests max_bytes max_nodes secret = Inr s \<Longrightarrow> good ops secret {} {} s"
  by (auto simp: InflightPrefixOwner_init_def Let_def raise_if_def good_def pend_ok_def links_ok_def held_ok_def sums_ok_def owed_def live_def data_ok_def
      split: if_splits option.splits)

text \<open>Induction over a history: a property of states and logs that holds at the start and survives every call from a good state.\<close>

lemma history_induct:
  assumes init: "InflightPrefixOwner_init max_requests max_bytes max_nodes secret = Inr s0"
    and run: "run_calls ops key_of cs s0 = (s, log)" and ok: "list_all call_ok cs"
    and start: "P s0 []"
    and step: "\<And>c t log t' a. good ops secret {} {} t \<Longrightarrow> P t log \<Longrightarrow> call_ok c \<Longrightarrow> apply_call ops key_of c t = (t', a) \<Longrightarrow> keeps (\<not> is_wait c) t t'
        \<Longrightarrow> good ops secret {} {} t' \<Longrightarrow> P t' (log @ [(c, a)])"
  shows "good ops secret {} {} s \<and> P s log"
proof -
  have "good ops secret {} {} (fst p) \<and> P (fst p) (snd p)" if "p = fold (\<lambda>c (s, log). let (s', a) = apply_call ops key_of c s in (s', log @ [(c, a)])) cs (s0, [])" for p
    unfolding that
  proof (rule fold_invariant)
    show "good ops secret {} {} (fst (s0, [])) \<and> P (fst (s0, [])) (snd (s0, []))" using init_good [OF init] start by simp
    fix c and q :: "'a InflightPrefixOwner \<times> ('a inflight_call \<times> 'a inflight_answer) list"
    assume c: "c \<in> set cs" and q: "good ops secret {} {} (fst q) \<and> P (fst q) (snd q)"
    obtain t l where tl: "q = (t, l)" by fastforce
    obtain t' a where ta: "apply_call ops key_of c t = (t', a)" by fastforce
    have co: "call_ok c" using ok c by (simp add: list_all_iff)
    show "good ops secret {} {} (fst ((\<lambda>(s, log). let (s', a) = apply_call ops key_of c s in (s', log @ [(c, a)])) q))
        \<and> P (fst ((\<lambda>(s, log). let (s', a) = apply_call ops key_of c s in (s', log @ [(c, a)])) q)) (snd ((\<lambda>(s, log). let (s', a) = apply_call ops key_of c s in (s', log @ [(c, a)])) q))"
      using q step [of t l c t' a] apply_good [of ops secret t c key_of t' a] co ta by (simp add: tl)
  qed
  from this [of "(s, log)"] run show ?thesis by (simp add: run_calls_def)
qed

end
