(* ===== verification/Inflight_Service.thy ===== *)
theory Inflight_Service
  imports Inflight_Correct
begin

text \<open>
  What the owner of pending prefills guarantees over every history of calls: its limits and accounting, the provenance of each branch it hands out, the drain of
  an owner whose requests and producers have ended, and the service of all waiting requests by a publication.
\<close>

section \<open>The limits stay\<close>

definition limits :: "'p InflightPrefixOwner \<Rightarrow> int \<times> int \<times> int" where
  "limits s = (ow_max_requests s, ow_max_nodes s, ow_max_bytes s)"

lemma limits_steps [simp]:
  "limits (upd_node n f s) = limits s" "limits (upd_request r h s) = limits s" "limits (upd_stats g s) = limits s" "limits (unindex n s) = limits s"
  "limits (zero_secret s) = limits s" "limits (s\<lparr>ow_closed := b\<rparr>) = limits s" "limits (s\<lparr>ow_nodes := ns\<rparr>) = limits s"
  "limits (fresh_node x s) = limits s" "limits (attach q s) = limits s"
  by (simp_all add: limits_def)

lemma limits_parts [simp]: "limits (mark_failed n s) = limits s" "limits (cancel_producer n s) = limits s" "limits (retire n s) = limits s"
  by (simp_all add: mark_failed_def cancel_producer_def retire_def Let_def)

lemma limits_requests [simp]: "limits (release ops r s) = limits s" "limits (cancel_request ops r s) = limits s"
  by (simp_all add: release_def cancel_request_def Let_def)

lemma limits_fold: "(\<And>x t. limits (f x t) = limits t) \<Longrightarrow> limits (fold f xs s) = limits s"
  by (induction xs arbitrary: s) simp_all

lemma limits_close [simp]: "limits (close_begin ops s) = limits s" "limits (fst (close_end s)) = limits s"
proof -
  have "limits (close_node ops n t) = limits t" for n t by (simp add: close_node_def Let_def limits_fold)
  then show "limits (close_begin ops s) = limits s" by (simp add: close_begin_def Let_def limits_fold)
qed (simp add: close_end_def)

lemma limits_lookup [simp]: "limits (fst (lookup_or_register key_of same b values res admit hit s)) = limits s"
proof -
  obtain s' a where "lookup_or_register key_of same b values res admit hit s = (s', a)" by fastforce
  moreover from this have "limits s' = limits s"
  proof (cases rule: lookup_cases)
    case (registered found prefix branch producer n t)
    have "limits t = limits s" using registered(10) by (cases found) (auto simp: joined_def)
    then show ?thesis by (simp only: registered(12) limits_steps)
  qed simp
  ultimately show ?thesis by simp
qed

lemma limits_publish [simp]: "limits (fst (publish ops r first saved final oom s)) = limits s"
proof -
  obtain s' a where "publish ops r first saved final oom s = (s', a)" by fastforce
  moreover from this have "limits s' = limits s" by (cases rule: publish_cases) (simp_all only: limits_steps limits_parts)
  ultimately show ?thesis by simp
qed

lemma limits_producer [simp]: "limits (fst (fail_producer r s)) = limits s" "limits (fst (finish_producer r s)) = limits s"
  by (cases "producer_node r s"; simp add: fail_producer_def finish_producer_def raiseS_def Let_def)+

lemma limits_wait [simp]: "limits (fst (wait_resume ops r timed_out race oom s)) = limits s" "limits (fst (wait_begin ops r race oom s)) = limits s"
proof -
  have c: "limits (fst (wait_copy ops r copied oom s)) = limits s" for copied by (simp add: wait_copy_def Let_def split: sum.split)
  show w: "limits (fst (wait_resume ops r timed_out race oom s)) = limits s" for timed_out
    by (simp add: wait_resume_def wait_checked_def raiseS_def Let_def c split: option.split)
  show "limits (fst (wait_begin ops r race oom s)) = limits s" using w [of False] by (simp add: wait_begin_def wait_checked_def raiseS_def)
qed

lemma limits_call: "apply_call ops key_of c s = (s', a) \<Longrightarrow> limits s' = limits s"
  by (cases c) (auto simp: apply_call_def case_prod_beta split: if_splits)

section \<open>Accounting\<close>

text \<open>C3: The owner's accounting is exact and within its limits after every history of calls: the request count is the number of requests that have not been
  released, the reserved bytes are those of the kept nodes and of these requests, a node is kept exactly while its producer is active or it has requests, and
  requests, nodes, reserved and peak bytes stay within the owner's bounds.\<close>

theorem inflight_accounting:
  assumes "InflightPrefixOwner_init max_requests max_bytes max_nodes secret = Inr s0"
    and "run_calls ops key_of cs s0 = (s, log)" and "list_all call_ok cs"
  shows "is_requests (ow_stats s) = int (card (live s)) \<and> is_reserved_bytes (ow_stats s) = owed s
     \<and> set (ow_nodes s) = {n. n < length (ow_node s) \<and> (no_active (node_of s n) \<or> no_requests (node_of s n) \<noteq> [])} \<and> distinct (ow_nodes s)
     \<and> is_requests (ow_stats s) \<le> max_requests \<and> int (length (ow_nodes s)) \<le> (case max_nodes of None \<Rightarrow> max_requests | Some n \<Rightarrow> n)
     \<and> is_reserved_bytes (ow_stats s) \<le> is_peak_reserved_bytes (ow_stats s) \<and> is_peak_reserved_bytes (ow_stats s) \<le> max_bytes"
proof -
  have start: "limits s0 = (max_requests, case max_nodes of None \<Rightarrow> max_requests | Some n \<Rightarrow> n, max_bytes)"
    using assms(1) by (auto simp: InflightPrefixOwner_init_def limits_def Let_def raise_if_def split: if_splits)
  have "good ops secret {} {} s \<and> limits s = limits s0"
    by (rule history_induct [OF assms, of "\<lambda>t _. limits t = limits s0"]) (rule refl, rule trans [OF limits_call])
  then have su: "sums_ok s" "held_ok {} s" "links_ok s" and li: "limits s = limits s0" by (simp_all add: good_def)
  have "set (ow_nodes s) = {n. n < length (ow_node s) \<and> (no_active (node_of s n) \<or> no_requests (node_of s n) \<noteq> [])}"
  proof (intro equalityI subsetI CollectI)
    fix n assume n: "n \<in> set (ow_nodes s)"
    then have "n < length (ow_node s)" using su(3) by (simp add: links_ok_def)
    then show "n < length (ow_node s) \<and> (no_active (node_of s n) \<or> no_requests (node_of s n) \<noteq> [])" using su(2) n unfolding held_ok_def by blast
  next
    fix n assume "n \<in> {n. n < length (ow_node s) \<and> (no_active (node_of s n) \<or> no_requests (node_of s n) \<noteq> [])}"
    then show "n \<in> set (ow_nodes s)" using su(2) unfolding held_ok_def by blast
  qed
  then show ?thesis using su(1,3) li start by (simp add: sums_ok_def limits_def links_ok_def)
qed

definition demo_ops :: "nat array_ops" where
  "demo_ops = \<lparr>ao_validate = \<lambda>b r toks p. raise_if (p \<noteq> 7) (ValueError ''in-flight snapshot provenance mismatch'') (Inr ()),
     ao_commit = \<lambda>secret p. of_nat p # secret, ao_erase = \<lambda>p. 0\<rparr>"

definition demo_binding :: InflightBinding where
  "demo_binding = \<lparr>ib_source_digest = replicate 64 (CHR ''a''), ib_composition_digest = replicate 64 (CHR ''b''), ib_compiled_digest = replicate 64 (CHR ''c''),
     ib_state_binding_digest = replicate 64 (CHR ''d''), ib_native_prefill_digest = replicate 64 (CHR ''e'')\<rparr>"

definition demo_resources :: InflightResources where
  "demo_resources = \<lparr>ir_layers = 1, ir_kv_heads = 1, ir_head_dim = 2, ir_vocab_size = 8, ir_capacity_tokens = 4\<rparr>"

definition demo_owner :: "nat InflightPrefixOwner" where
  "demo_owner = (case InflightPrefixOwner_init 3 10000 None [1, 2] of Inr s \<Rightarrow> s)"

definition demo_calls :: "nat inflight_call list" where
  "demo_calls = [Lookup True demo_binding [5, 6] demo_resources (\<lambda>_ _. Inr ()) False, Lookup True demo_binding [5, 6, 7] demo_resources (\<lambda>_ _. Inr ()) False,
     PublishCall 0 7 7 7 None, WaitBegin 1 (\<lambda>p. p) None, FinishCall 0, ReleaseCall 0]"

abbreviation demo_run :: "nat InflightPrefixOwner \<times> (nat inflight_call \<times> nat inflight_answer) list" where
  "demo_run \<equiv> run_calls demo_ops (\<lambda>s b toks. [of_int (hd toks)]) demo_calls demo_owner"

lemma demo_owner_init: "InflightPrefixOwner_init 3 10000 None [1, 2] = Inr demo_owner"
  by (simp add: demo_owner_def InflightPrefixOwner_init_def Let_def raise_if_def)

lemma demo_calls_ok: "list_all call_ok demo_calls"
  by (simp add: demo_calls_def call_ok_def resources_ok_def mk_InflightResources_def demo_resources_def Let_def raise_if_def runtime_overlap_bytes_def
      kv_row_bytes_def logits_bytes_def)

lemma log_calls: "map fst (snd (run_calls ops key_of cs s)) = cs"
proof -
  have "map fst (snd (fold (\<lambda>c (s, log). let (s', a) = apply_call ops key_of c s in (s', log @ [(c, a)])) cs (t, l))) = map fst l @ cs" for t l
    by (induction cs arbitrary: t l) (simp_all add: case_prod_beta Let_def)
  then show ?thesis by (simp add: run_calls_def)
qed

lemma demo_stats: "is_requests (ow_stats (fst demo_run)) = 1 \<and> is_reserved_bytes (ow_stats (fst demo_run)) = 512 \<and> is_peak_reserved_bytes (ow_stats (fst demo_run)) = 736"
  by code_simp
lemma demo_log: "map snd (snd demo_run) = [Registered (Some 0), Registered (Some 1), Returned, Leased 1 7, Returned, Returned]"
  by code_simp


lemma inflight_accounting_witness:
  "is_requests (ow_stats (fst demo_run)) = 1 \<and> int (card (live (fst demo_run))) = 1 \<and> owed (fst demo_run) = 512
     \<and> is_peak_reserved_bytes (ow_stats (fst demo_run)) = 736 \<and> int (length (ow_nodes (fst demo_run))) \<le> 3"
  using inflight_accounting [OF demo_owner_init prod.collapse [symmetric] demo_calls_ok, of demo_ops "\<lambda>s b toks. [of_int (hd toks)]"] demo_stats by simp


section \<open>Provenance of the branches\<close>

text \<open>A wait either gives no request a new branch, and answers with one only if the request already has it, or copies into its own request an array that has
  the commitment of the published node.\<close>

lemma wait_copied:
  assumes "wait_copy ops r copied oom s = (s', a)"
  shows "keeps True s s' \<and> (\<forall>p. a \<noteq> Inr (Some p))
    \<or> (\<exists>f. s' = upd_stats f (upd_request r (\<lambda>q. q\<lparr>iq_lease := Some copied\<rparr>) s) \<and> a = Inr (Some copied)
        \<and> no_commitment (node_of s (iq_node (request_of s r))) = Some (ao_commit ops (ow_secret s) copied))"
  using assms keeps_release_of [OF keeps_refl, of True s ops r]
  by (auto simp: wait_copy_def Let_def raise_if_def split: sum.splits option.splits if_splits)

definition served :: "nat \<Rightarrow> 'p InflightPrefixOwner \<Rightarrow> 'p InflightPrefixOwner \<Rightarrow> 'p option res \<Rightarrow> bool" where
  "served r s s' a \<longleftrightarrow> keeps True s s' \<and> (\<forall>p. a = Inr (Some p) \<longrightarrow> s' = s \<and> \<not> iq_released (request_of s r) \<and> iq_lease (request_of s r) = Some p)"

lemma served_refused: "keeps True s s' \<Longrightarrow> (\<And>p. a \<noteq> Inr (Some p)) \<Longrightarrow> served r s s' a"
  by (simp add: served_def)

lemma wait_cases:
  assumes "wait_begin ops r race oom s = (s', a) \<or> wait_resume ops r timed_out race oom s = (s', a)"
  obtains (old) "served r s s' a"
  | (copied) f copied where "s' = upd_stats f (upd_request r (\<lambda>q. q\<lparr>iq_lease := Some copied\<rparr>) s)" "a = Inr (Some copied)"
      "no_commitment (node_of s (iq_node (request_of s r))) = Some (ao_commit ops (ow_secret s) copied)" "\<not> iq_released (request_of s r)"
proof -
  let ?B = "\<lambda>s' a. served r s s' a \<or> (\<exists>f copied. s' = upd_stats f (upd_request r (\<lambda>q. q\<lparr>iq_lease := Some copied\<rparr>) s) \<and> a = Inr (Some copied)
      \<and> no_commitment (node_of s (iq_node (request_of s r))) = Some (ao_commit ops (ow_secret s) copied) \<and> \<not> iq_released (request_of s r))"
  let ?n = "iq_node (request_of s r)"
  have checked: "?B s' a" if k: "wait_checked r s k = (s', a)" and kb: "\<And>s' a. k = (s', a) \<Longrightarrow> \<not> iq_released (request_of s r) \<Longrightarrow> ?B s' a" for k s' a
    using k kb [of s' a] keeps_refl [of True s] by (auto simp: wait_checked_def raiseS_def served_def split: if_splits)
  have copy: "?B s' a" if "wait_copy ops r c oom s = (s', a)" "\<not> iq_released (request_of s r)" for c s' a
    using wait_copied [OF that(1)] that(2) by (auto simp: served_def)
  have resume: "?B s' a" if w: "wait_resume ops r timed race oom s = (s', a)" for timed s' a
  proof (cases "wait_ready r s")
    case False
    then show ?thesis using w keeps_refl [of True s] keeps_cancel_of [OF keeps_refl, of True s ops r]
      by (auto simp: wait_resume_def served_def split: if_splits)
  next
    case True
    note eq = w [unfolded wait_resume_def Let_def]
    show ?thesis
    proof (rule checked)
      show "wait_checked r s
       (if no_status (node_of s ?n) = Failed then (release ops r s, Inl (InflightProducerFailed ''in-flight prefix producer failed''))
        else case no_result (node_of s ?n) of
          None \<Rightarrow> (release ops r (mark_failed ?n s), Inl (TypeError ''argument after * must be an iterable''))
        | Some result \<Rightarrow>
            if no_commitment (node_of s ?n) \<noteq> Some (ao_commit ops (ow_secret s) result)
            then (release ops r (mark_failed ?n s), Inl (ValueError ''in-flight published result mutated''))
            else wait_copy ops r (race result) oom s) = (s', a)" using eq True by simp
      show "?B s' a" if k: "(if no_status (node_of s ?n) = Failed then (release ops r s, Inl (InflightProducerFailed ''in-flight prefix producer failed''))
        else case no_result (node_of s ?n) of
          None \<Rightarrow> (release ops r (mark_failed ?n s), Inl (TypeError ''argument after * must be an iterable''))
        | Some result \<Rightarrow>
            if no_commitment (node_of s ?n) \<noteq> Some (ao_commit ops (ow_secret s) result)
            then (release ops r (mark_failed ?n s), Inl (ValueError ''in-flight published result mutated''))
            else wait_copy ops r (race result) oom s) = (s', a)" and u: "\<not> iq_released (request_of s r)" for s' a
        using k u keeps_release_of [OF keeps_refl, of True s ops r] keeps_release_of [OF keeps_failed_of [OF keeps_refl], of True s ops r ?n]
          copy [of "race (the (no_result (node_of s ?n)))" s' a]
        by (auto intro: served_refused split: if_splits option.splits)
    qed
  qed
  have "?B s' a"
  proof (cases "wait_resume ops r timed_out race oom s = (s', a)")
    case False
    then have "wait_checked r s (wait_resume ops r False race oom s) = (s', a)" using assms by (simp add: wait_begin_def)
    then show ?thesis by (rule checked) (rule resume)
  qed (rule resume)
  then show thesis using that by blast
qed


text \<open>An array that a request for these tokens may receive: it has the commitment of one that the owner's check accepted for a prefix of them.\<close>

definition entitled :: "'p array_ops \<Rightarrow> bytes \<Rightarrow> InflightBinding \<Rightarrow> InflightResources \<Rightarrow> int list \<Rightarrow> 'p \<Rightarrow> bool" where
  "entitled ops secret b res toks p \<longleftrightarrow>
     (\<exists>k p0. ao_validate ops b res (take k toks) p0 = Inr () \<and> ao_commit ops secret p = ao_commit ops secret p0)"

definition leases_ok :: "'p array_ops \<Rightarrow> bytes \<Rightarrow> 'p InflightPrefixOwner \<Rightarrow> bool" where
  "leases_ok ops secret s \<longleftrightarrow> (\<forall>r \<in> live s. \<forall>p. iq_lease (request_of s r) = Some p \<longrightarrow>
     (let x = node_of s (iq_node (request_of s r)) in
      \<exists>p0. ao_validate ops (no_binding x) (no_resources x) (no_tokens x) p0 = Inr () \<and> ao_commit ops secret p = ao_commit ops secret p0))"

definition registered_ok :: "'p InflightPrefixOwner \<Rightarrow> InflightBinding \<Rightarrow> InflightResources \<Rightarrow> int list \<Rightarrow> nat \<Rightarrow> bool" where
  "registered_ok s b res toks r \<longleftrightarrow> r < length (ow_request s) \<and> (let x = node_of s (iq_node (request_of s r)) in
     no_binding x = b \<and> no_resources x = res \<and> (r \<in> live s \<longrightarrow> no_tokens x = take (length (no_tokens x)) toks))"

lemma leases_entitled: "leases_ok ops secret s \<Longrightarrow> registered_ok s b res toks r \<Longrightarrow> r \<in> live s \<Longrightarrow> iq_lease (request_of s r) = Some p \<Longrightarrow> entitled ops secret b res toks p"
proof -
  assume a: "leases_ok ops secret s" "registered_ok s b res toks r" "r \<in> live s" "iq_lease (request_of s r) = Some p"
  let ?x = "node_of s (iq_node (request_of s r))"
  have x: "no_binding ?x = b" "no_resources ?x = res" "no_tokens ?x = take (length (no_tokens ?x)) toks" using a(2,3) by (simp_all add: registered_ok_def Let_def)
  obtain p0 where "ao_validate ops (no_binding ?x) (no_resources ?x) (no_tokens ?x) p0 = Inr ()" "ao_commit ops secret p = ao_commit ops secret p0"
    using a(1,3,4) unfolding leases_ok_def Let_def by blast
  then show ?thesis unfolding entitled_def using x by metis
qed

text \<open>What a live request refers to is kept by every step that keeps.\<close>

lemma live_kept:
  assumes g: "good ops sec X Y t" "good ops sec X Y s" and k: "keeps L s t" and r: "r \<in> live t" "r < length (ow_request s)"
  shows "r \<in> live s" "iq_node (request_of t r) = iq_node (request_of s r)"
    "no_tokens (node_of t (iq_node (request_of t r))) = no_tokens (node_of s (iq_node (request_of s r)))"
    "no_binding (node_of t (iq_node (request_of t r))) = no_binding (node_of s (iq_node (request_of s r)))"
    "no_resources (node_of t (iq_node (request_of t r))) = no_resources (node_of s (iq_node (request_of s r)))"
proof -
  let ?n = "iq_node (request_of s r)"
  show n: "iq_node (request_of t r) = ?n" using k r(2) by (simp add: keeps_def)
  have u: "\<not> iq_released (request_of t r)" and rt: "r < length (ow_request t)" using r(1) by (simp_all add: live_def)
  then show "r \<in> live s" using k r(2) by (auto simp: keeps_def live_def)
  have b: "?n < length (ow_node s)" by (rule live_node [OF g(2) r(2)])
  have "?n < length (ow_node t)" using live_node [OF g(1) rt] n by simp
  moreover have "no_requests (node_of t ?n) \<noteq> []" using g(1) rt u n unfolding good_def links_ok_def by (metis empty_iff empty_set)
  ultimately have "?n \<in> set (ow_nodes t)" using g(1) unfolding good_def held_ok_def by blast
  then show "no_tokens (node_of t (iq_node (request_of t r))) = no_tokens (node_of s ?n)"
    "no_binding (node_of t (iq_node (request_of t r))) = no_binding (node_of s ?n)"
    "no_resources (node_of t (iq_node (request_of t r))) = no_resources (node_of s ?n)"
    using k b unfolding n keeps_def by blast+
qed

lemma registered_kept:
  assumes g: "good ops sec X Y t" "good ops sec X Y s" and k: "keeps L s t" and r: "registered_ok s b res toks r"
  shows "registered_ok t b res toks r"
proof -
  have len: "r < length (ow_request s)" using r by (simp add: registered_ok_def)
  have n: "iq_node (request_of t r) = iq_node (request_of s r)" "length (ow_request s) \<le> length (ow_request t)" using k len by (simp_all add: keeps_def)
  have "no_binding (node_of t (iq_node (request_of s r))) = b" "no_resources (node_of t (iq_node (request_of s r))) = res"
    using k r live_node [OF g(2) len] by (simp_all add: keeps_def registered_ok_def Let_def)
  moreover have "no_tokens (node_of t (iq_node (request_of t r))) = take (length (no_tokens (node_of t (iq_node (request_of t r))))) toks" if "r \<in> live t"
    using live_kept(1,3) [OF g k that len] r by (simp add: registered_ok_def Let_def)
  ultimately show ?thesis using n len by (simp add: registered_ok_def Let_def)
qed

lemma leases_kept:
  assumes g: "good ops sec X Y t" "good ops sec X Y s" and k: "keeps True s t" and l: "leases_ok ops sec s"
  shows "leases_ok ops sec t"
  unfolding leases_ok_def
proof (intro ballI allI impI)
  fix r p assume r: "r \<in> live t" and p: "iq_lease (request_of t r) = Some p"
  have u: "\<not> iq_released (request_of t r)" "r < length (ow_request t)" using r by (simp_all add: live_def)
  have len: "r < length (ow_request s)"
  proof (rule ccontr)
    assume "\<not> r < length (ow_request s)"
    then have "iq_released (request_of t r) \<or> iq_lease (request_of t r) = None" using k u(2) by (simp add: keeps_def)
    then show False using u(1) p by simp
  qed
  then have "iq_released (request_of t r) \<or> iq_lease (request_of t r) = iq_lease (request_of s r)" using k unfolding keeps_def by blast
  then have "iq_lease (request_of s r) = Some p" using u(1) p by simp
  then show "let x = node_of t (iq_node (request_of t r)) in \<exists>p0. ao_validate ops (no_binding x) (no_resources x) (no_tokens x) p0 = Inr () \<and> ao_commit ops sec p = ao_commit ops sec p0"
    using l live_kept [OF g k r len] unfolding leases_ok_def Let_def by metis
qed


lemma live_lease: "live (upd_stats f (upd_request r (\<lambda>q. q\<lparr>iq_lease := x\<rparr>) s)) = live s"
  by (auto simp: live_def)

lemma leases_copied:
  assumes g: "good ops sec {} {} s" and l: "leases_ok ops sec s" and r: "r < length (ow_request s)" "\<not> iq_released (request_of s r)"
    and c: "no_commitment (node_of s (iq_node (request_of s r))) = Some (ao_commit ops (ow_secret s) copied)"
  shows "leases_ok ops sec (upd_stats f (upd_request r (\<lambda>q. q\<lparr>iq_lease := Some copied\<rparr>) s))"
proof -
  let ?n = "iq_node (request_of s r)" and ?t = "upd_stats f (upd_request r (\<lambda>q. q\<lparr>iq_lease := Some copied\<rparr>) s)"
  have n: "?n < length (ow_node s)" by (rule live_node [OF g r(1)])
  have d: "data_ok ops sec s" using g by (simp add: good_def)
  then have e: "?n \<in> set (ow_nodes s) \<and> (\<exists>p. ao_validate ops (no_binding (node_of s ?n)) (no_resources (node_of s ?n)) (no_tokens (node_of s ?n)) p = Inr ()
      \<and> ao_commit ops (ow_secret s) copied = ao_commit ops sec p)"
    using n c unfolding data_ok_def Let_def by blast
  then have "ow_nodes s \<noteq> []" by auto
  then have sec: "ow_secret s = sec" using d by (simp add: data_ok_def)
  have req: "iq_released (request_of ?t q) = iq_released (request_of s q)" "iq_node (request_of ?t q) = iq_node (request_of s q)" for q by simp_all
  note lv = live_lease [of f r "Some copied" s]
  have at: "iq_lease (request_of ?t q) = (if q = r then Some copied else iq_lease (request_of s q))" for q using r(1) by simp
  show ?thesis
    unfolding leases_ok_def lv req(2) at
  proof (intro ballI allI impI)
    fix q p assume q: "q \<in> live s" "(if q = r then Some copied else iq_lease (request_of s q)) = Some p"
    show "let x = node_of ?t (iq_node (request_of s q)) in
        \<exists>p0. ao_validate ops (no_binding x) (no_resources x) (no_tokens x) p0 = Inr () \<and> ao_commit ops sec p = ao_commit ops sec p0"
      using e l q by (cases "q = r") (auto simp: leases_ok_def sec Let_def)
  qed
qed

lemma leases_wait:
  assumes g: "good ops sec {} {} s" "good ops sec {} {} s'" and l: "leases_ok ops sec s" and r: "r < length (ow_request s)"
    and w: "wait_begin ops r race oom s = (s', a) \<or> wait_resume ops r timed_out race oom s = (s', a)"
  shows "leases_ok ops sec s' \<and> (\<forall>p. a = Inr (Some p) \<longrightarrow> r \<in> live s' \<and> iq_lease (request_of s' r) = Some p)"
  using w
proof (cases rule: wait_cases)
  case old
  then show ?thesis using leases_kept [OF g(2,1) _ l] unreleased_live [OF r] by (auto simp: served_def)
next
  case (copied f copied)
  have "live s' = live s" unfolding copied(1) by (rule live_lease)
  moreover have "iq_lease (request_of s' r) = Some copied" using r unfolding copied(1) by simp
  ultimately show ?thesis using leases_copied [OF g(1) l r copied(4,3), of f] unreleased_live [OF r copied(4)] copied(1,2) by simp
qed

lemma leases_call:
  assumes g: "good ops sec {} {} s" and c: "call_ok c" and a: "apply_call ops key_of c s = (s', a)" and l: "leases_ok ops sec s"
  shows "leases_ok ops sec s' \<and> (\<forall>r p. a = Leased r p \<longrightarrow> r \<in> live s' \<and> iq_lease (request_of s' r) = Some p)"
proof (cases "is_wait c")
  case False
  then have "keeps True s s'" using apply_good(2) [OF g c a] by simp
  then have "leases_ok ops sec s'" by (rule leases_kept [OF apply_good(1) [OF g c a] g _ l])
  moreover have "a \<noteq> Leased r p" for r p
    using a False by (cases c) (auto simp: apply_call_def is_wait_def unit_answer_def case_prod_beta split: if_splits sum.splits)
  ultimately show ?thesis by blast
next
  case True
  note g' = apply_good(1) [OF g c a]
  consider (idle) "s' = s" "a = Returned"
    | (wait) r race oom timed_out x where "r < length (ow_request s)" "a = wait_answer r x"
        "wait_begin ops r race oom s = (s', x) \<or> wait_resume ops r timed_out race oom s = (s', x)"
  proof (cases c)
    case (WaitBegin r race oom)
    show ?thesis
    proof (cases "r < length (ow_request s)")
      case True
      then have "wait_begin ops r race oom s = (s', snd (wait_begin ops r race oom s))" "a = wait_answer r (snd (wait_begin ops r race oom s))"
        using a by (auto simp: WaitBegin apply_call_def case_prod_beta)
      then show ?thesis using that(2) True by blast
    qed (use a that(1) in \<open>simp add: WaitBegin apply_call_def\<close>)
  next
    case (WaitResume r timed_out race oom)
    show ?thesis
    proof (cases "r < length (ow_request s)")
      case True
      then have "wait_resume ops r timed_out race oom s = (s', snd (wait_resume ops r timed_out race oom s))"
          "a = wait_answer r (snd (wait_resume ops r timed_out race oom s))"
        using a by (auto simp: WaitResume apply_call_def case_prod_beta)
      then show ?thesis using that(2) True by blast
    qed (use a that(1) in \<open>simp add: WaitResume apply_call_def\<close>)
  qed (use True in \<open>simp_all add: is_wait_def\<close>)
  then show ?thesis
  proof cases
    case idle
    then show ?thesis using l by simp
  next
    case (wait r race oom timed_out x)
    have "x = Inr (Some p) \<and> q = r" if "a = Leased q p" for q p
      using that wait(2) by (auto simp: wait_answer_def split: sum.splits option.splits)
    then show ?thesis using leases_wait [OF g g' l wait(1,3)] by blast
  qed
qed

lemma registered_call:
  assumes g: "good ops sec {} {} s" and a: "apply_call ops key_of (Lookup same b toks res admit hit) s = (s', Registered (Some r))"
  shows "r = length (ow_request s) \<and> registered_ok s' b res toks r"
proof -
  obtain x where l: "lookup_or_register key_of same b toks res admit hit s = (s', x)" and x: "x = Inr (Some r)"
    using a by (auto simp: apply_call_def split: prod.splits sum.splits)
  from l show ?thesis
  proof (cases rule: lookup_cases)
    case (kept f)
    then show ?thesis using x by blast
  next
    case (registered found prefix branch producer n t)
    have r: "r = length (ow_request s)" using x registered(11) by simp
    have t: "ow_request t = ow_request s \<and> n < length (ow_node t) \<and> no_binding (node_of t n) = b \<and> no_resources (node_of t n) = res
        \<and> no_tokens (node_of t n) = take (length (no_tokens (node_of t n))) toks"
    proof (cases found)
      case None
      then show ?thesis using registered(10) by (auto simp: joined_def)
    next
      case (Some m)
      then have "m \<in> set (candidates b res toks s)" using registered(2) longest_in by metis
      moreover from this obtain k where "(k, m) \<in> set (ow_pending s)" using candidate_in by blast
      then have "m < length (ow_node s)" using pend_okD [of "{}" s k m] node_below [OF g, of m] g by (simp add: good_def)
      ultimately show ?thesis using registered(10) Some by (auto simp: joined_def candidates_def Let_def)
    qed
    let ?q = "\<lparr>iq_node = n, iq_producer = (producer \<noteq> 0), iq_prefix_tokens = int (length (no_tokens (node_of t n))), iq_reservation = branch,
               iq_released = False, iq_cancelled = False, iq_lease = None\<rparr> :: 'a InflightRequest"
    have "request_of (attach ?q t) r = ?q" "r < length (ow_request (attach ?q t))" using t r by (simp_all add: attach_def nth_append)
    moreover have "no_binding (node_of (attach ?q t) n) = b" "no_resources (node_of (attach ?q t) n) = res"
      "no_tokens (node_of (attach ?q t) n) = no_tokens (node_of t n)" using t by (simp_all add: attach_def)
    ultimately show ?thesis using t r unfolding registered(12) registered_ok_def Let_def by simp
  qed
qed


text \<open>What a log says of the state it ends in, and what its answers have to do with each other.\<close>

definition log_ok :: "'p array_ops \<Rightarrow> bytes \<Rightarrow> 'p InflightPrefixOwner \<Rightarrow> ('p inflight_call \<times> 'p inflight_answer) list \<Rightarrow> bool" where
  "log_ok ops secret s log \<longleftrightarrow> leases_ok ops secret s
     \<and> (\<forall>c r p. (c, Leased r p) \<in> set log \<longrightarrow> r < length (ow_request s))
     \<and> (\<forall>same b toks res admit hit r. (Lookup same b toks res admit hit, Registered (Some r)) \<in> set log \<longrightarrow> registered_ok s b res toks r)
     \<and> (\<forall>same b toks res admit hit c r p. (Lookup same b toks res admit hit, Registered (Some r)) \<in> set log \<longrightarrow> (c, Leased r p) \<in> set log
          \<longrightarrow> entitled ops secret b res toks p)"

lemma log_step:
  assumes g: "good ops sec {} {} t" and p: "log_ok ops sec t log" and c: "call_ok c" and a: "apply_call ops key_of c t = (t', a)"
  shows "log_ok ops sec t' (log @ [(c, a)])"
proof -
  note g' = apply_good(1) [OF g c a] and k = apply_good(2) [OF g c a] and lc = leases_call [OF g c a]
  have l: "leases_ok ops sec t" using p by (simp add: log_ok_def)
  have leased: "r < length (ow_request t)" if "(d, Leased r q) \<in> set log" for d r q using p that unfolding log_ok_def by blast
  have reg: "registered_ok t b res toks r" if "(Lookup same b toks res admit hit, Registered (Some r)) \<in> set log" for same b toks res admit hit r
    using p that unfolding log_ok_def by blast
  have len: "length (ow_request t) \<le> length (ow_request t')" using k by (simp add: keeps_def)
  have reg': "registered_ok t' b res toks r" if "(Lookup same b toks res admit hit, Registered (Some r)) \<in> set (log @ [(c, a)])" for same b toks res admit hit r
  proof (cases "(Lookup same b toks res admit hit, Registered (Some r)) \<in> set log")
    case True
    then show ?thesis by (rule registered_kept [OF g' g k reg])
  next
    case False
    then have "c = Lookup same b toks res admit hit" "a = Registered (Some r)" using that by auto
    then have "apply_call ops key_of (Lookup same b toks res admit hit) t = (t', Registered (Some r))" using a by simp
    then show ?thesis by (rule conjunct2 [OF registered_call [OF g]])
  qed
  have leased': "r < length (ow_request t')" if "(d, Leased r q) \<in> set (log @ [(c, a)])" for d r q
    using that leased [of d r q] lc [OF l] len by (auto simp: live_def)
  have "entitled ops sec b res toks q"
    if x: "(Lookup same b toks res admit hit, Registered (Some r)) \<in> set (log @ [(c, a)])" and y: "(d, Leased r q) \<in> set (log @ [(c, a)])"
    for same b toks res admit hit d r q
  proof (cases "(d, Leased r q) \<in> set log")
    case True
    then have "r < length (ow_request t)" by (rule leased)
    have "(Lookup same b toks res admit hit, Registered (Some r)) \<in> set log"
    proof (rule ccontr)
      assume "(Lookup same b toks res admit hit, Registered (Some r)) \<notin> set log"
      then have "c = Lookup same b toks res admit hit" "a = Registered (Some r)" using x by auto
      then have "r = length (ow_request t)" using registered_call [OF g, of key_of same b toks res admit hit t' r] a by simp
      then show False using \<open>r < length (ow_request t)\<close> by simp
    qed
    then show ?thesis using p True unfolding log_ok_def by blast
  next
    case False
    then have "a = Leased r q" using y by auto
    then show ?thesis using leases_entitled [OF _ reg' [OF x], of ops sec q] lc [OF l] by blast
  qed
  then show ?thesis using lc [OF l] leased' reg' unfolding log_ok_def by blast
qed

text \<open>C2: Every branch that a wait hands to a request is one the request may have. In every history of calls, also one in which other code of the process
  changes published arrays and copies are changed while they are made: if a registration for a binding, resources and tokens answered with a request, and a wait
  of this request answered with arrays, these have the keyed commitment of arrays that passed the snapshot check for a prefix of exactly these tokens under
  exactly this binding and these resources.\<close>

theorem inflight_lease_provenance:
  assumes "InflightPrefixOwner_init max_requests max_bytes max_nodes secret = Inr s0"
    and "run_calls ops key_of cs s0 = (s, log)" and "list_all call_ok cs"
    and "(Lookup same b toks res admit hit, Registered (Some r)) \<in> set log" and "(c, Leased r p) \<in> set log"
  shows "\<exists>k p0. ao_validate ops b res (take k toks) p0 = Inr () \<and> ao_commit ops secret p = ao_commit ops secret p0"
proof -
  have "live s0 = {}" using assms(1) by (auto simp: InflightPrefixOwner_init_def Let_def raise_if_def live_def split: if_splits)
  then have start: "log_ok ops secret s0 []" by (simp add: log_ok_def leases_ok_def)
  have "good ops secret {} {} s \<and> log_ok ops secret s log"
    by (rule history_induct [OF assms(1-3), of "log_ok ops secret"]) (rule start, rule log_step)
  then have "entitled ops secret b res toks p" using assms(4,5) unfolding log_ok_def by blast
  then show ?thesis by (simp add: entitled_def)
qed


lemma inflight_lease_provenance_witness:
  "(\<exists>k p0. ao_validate demo_ops demo_binding demo_resources (take k [5, 6, 7]) p0 = Inr () \<and> ao_commit demo_ops [1, 2] 7 = ao_commit demo_ops [1, 2] p0)"
proof (rule inflight_lease_provenance [OF demo_owner_init prod.collapse [symmetric] demo_calls_ok])
  let ?log = "snd (run_calls demo_ops (\<lambda>s b toks. [of_int (hd toks)]) demo_calls demo_owner)"
  have log: "map snd ?log = [Registered (Some 0), Registered (Some 1), Returned, Leased 1 7, Returned, Returned]" by (rule demo_log)
  have calls: "map fst ?log = demo_calls" by (rule log_calls)
  have "?log = zip demo_calls [Registered (Some 0), Registered (Some 1), Returned, Leased 1 7, Returned, Returned]"
    using zip_map_fst_snd [of ?log] unfolding log calls by simp
  then show "(Lookup True demo_binding [5, 6, 7] demo_resources (\<lambda>_ _. Inr ()) False, Registered (Some 1)) \<in> set ?log"
    "(WaitBegin 1 (\<lambda>p. p) None, Leased 1 7) \<in> set ?log" by (simp_all add: demo_calls_def)
qed

section \<open>Drain\<close>


text \<open>Only a registration makes a node, and it makes the node's producer with it.\<close>

lemma length_wait [simp]:
  "length (ow_node (fst (wait_resume ops r timed_out race oom s))) = length (ow_node s)" "length (ow_node (fst (wait_begin ops r race oom s))) = length (ow_node s)"
proof -
  have c: "length (ow_node (fst (wait_copy ops r copied oom s))) = length (ow_node s)" for copied by (simp add: wait_copy_def Let_def split: sum.split)
  show w: "length (ow_node (fst (wait_resume ops r timed_out race oom s))) = length (ow_node s)" for timed_out
    by (simp add: wait_resume_def wait_checked_def raiseS_def Let_def c split: option.split)
  show "length (ow_node (fst (wait_begin ops r race oom s))) = length (ow_node s)" using w [of False] by (simp add: wait_begin_def wait_checked_def raiseS_def)
qed

lemma length_publish [simp]: "length (ow_node (fst (publish ops r first saved final oom s))) = length (ow_node s)"
proof -
  obtain s' a where "publish ops r first saved final oom s = (s', a)" by fastforce
  moreover from this have "length (ow_node s') = length (ow_node s)" by (cases rule: publish_cases) simp_all
  ultimately show ?thesis by simp
qed

lemma length_producer [simp]:
  "length (ow_node (fst (fail_producer r s))) = length (ow_node s)" "length (ow_node (fst (finish_producer r s))) = length (ow_node s)"
  "length (ow_request (fst (finish_producer r s))) = length (ow_request s)"
  by (cases "producer_node r s"; simp add: fail_producer_def finish_producer_def raiseS_def Let_def)+

lemma length_fold: "(\<And>x t. length (ow_node (f x t)) = length (ow_node t)) \<Longrightarrow> length (ow_node (fold f xs s)) = length (ow_node s)"
  by (induction xs arbitrary: s) simp_all

lemma length_close [simp]: "length (ow_node (close_begin ops s)) = length (ow_node s)" "length (ow_node (fst (close_end s))) = length (ow_node s)"
  by (simp_all add: close_begin_def close_end_def Let_def length_fold length_close_node)

definition has_producer :: "'p InflightPrefixOwner \<Rightarrow> bool" where
  "has_producer s \<longleftrightarrow> (\<forall>n < length (ow_node s). \<exists>r < length (ow_request s). iq_producer (request_of s r) \<and> iq_node (request_of s r) = n)"

lemma producer_kept:
  assumes k: "keeps L s t" and l: "length (ow_node t) = length (ow_node s)" and h: "has_producer s"
  shows "has_producer t"
  unfolding has_producer_def
proof (intro allI impI)
  fix n assume "n < length (ow_node t)"
  then obtain r where r: "r < length (ow_request s)" "iq_producer (request_of s r)" "iq_node (request_of s r) = n" using h l by (auto simp: has_producer_def)
  then have "r < length (ow_request t) \<and> iq_producer (request_of t r) \<and> iq_node (request_of t r) = n" using k by (simp add: keeps_def)
  then show "\<exists>r<length (ow_request t). iq_producer (request_of t r) \<and> iq_node (request_of t r) = n" by blast
qed

lemma producer_registered:
  assumes h: "has_producer s" and c: "resources_ok res" and l: "lookup_or_register key_of same b toks res admit hit s = (s', a)"
  shows "has_producer s'"
  using l
proof (cases rule: lookup_cases)
  case (kept f)
  then show ?thesis using h by (simp add: has_producer_def)
next
  case (registered found prefix branch producer n t)
  let ?q = "\<lparr>iq_node = n, iq_producer = (producer \<noteq> 0), iq_prefix_tokens = int (length (no_tokens (node_of t n))), iq_reservation = branch,
             iq_released = False, iq_cancelled = False, iq_lease = None\<rparr> :: 'a InflightRequest"
  have t: "ow_request t = ow_request s" "found = None \<Longrightarrow> n = length (ow_node s) \<and> length (ow_node t) = Suc (length (ow_node s))"
    "found \<noteq> None \<Longrightarrow> length (ow_node t) = length (ow_node s)" using registered(10) by (auto simp: joined_def split: option.splits)
  have p: "found = None \<Longrightarrow> producer \<noteq> 0"
    using resources_positive(3) [OF c] resources_positive(4) [OF c registered(1)] registered(6) by simp
  have s': "ow_request s' = ow_request (attach ?q t)" "length (ow_node s') = length (ow_node t)" using registered(12) by simp_all
  show ?thesis
    unfolding has_producer_def s'
  proof (intro allI impI)
    fix m assume m: "m < length (ow_node t)"
    show "\<exists>r<length (ow_request (attach ?q t)). iq_producer (request_of (attach ?q t) r) \<and> iq_node (request_of (attach ?q t) r) = m"
    proof (cases "m < length (ow_node s)")
      case True
      then obtain r where "r < length (ow_request s)" "iq_producer (request_of s r)" "iq_node (request_of s r) = m" using h by (auto simp: has_producer_def)
      then show ?thesis using t(1) by (intro exI [of _ r]) simp
    next
      case False
      then have "found = None" using m t(3) by (cases found) auto
      then have "m = n" "producer \<noteq> 0" using False m t(2) p by simp_all
      then show ?thesis by (intro exI [of _ "length (ow_request t)"]) (simp only: attach_fields, simp)
    qed
  qed
qed

lemma producer_call:
  assumes g: "good ops sec {} {} s" and h: "has_producer s" and c: "call_ok c" and a: "apply_call ops key_of c s = (s', a)"
  shows "has_producer s'"
proof (cases "\<exists>same b toks res admit hit. c = Lookup same b toks res admit hit")
  case True
  then obtain same b toks res admit hit where l: "c = Lookup same b toks res admit hit" by blast
  then obtain x where "lookup_or_register key_of same b toks res admit hit s = (s', x)" using a by (auto simp: apply_call_def split: prod.splits)
  then show ?thesis using c l by (auto simp: call_ok_def intro: producer_registered [OF h])
next
  case False
  then have "length (ow_node s') = length (ow_node s)"
    using a by (cases c) (auto simp: apply_call_def case_prod_beta split: if_splits)
  then show ?thesis by (rule producer_kept [OF apply_good(2) [OF g c a] _ h])
qed


lemma keepsD_active: "keeps L s t \<Longrightarrow> n < length (ow_node s) \<Longrightarrow> \<not> no_active (node_of s n) \<Longrightarrow> \<not> no_active (node_of t n)"
  unfolding keeps_def by blast

lemma finish_inactive:
  assumes "r < length (ow_request s)" "iq_producer (request_of s r)" "iq_node (request_of s r) < length (ow_node s)"
  shows "\<not> no_active (node_of (fst (finish_producer r s)) (iq_node (request_of s r)))"
proof -
  let ?n = "iq_node (request_of s r)"
  have "\<not> no_active (node_of (retire ?n (upd_node ?n (\<lambda>x. x\<lparr>no_active := False\<rparr>) t)) ?n)" if "?n < length (ow_node t)" for t :: "'a InflightPrefixOwner"
  proof -
    let ?t = "upd_node ?n (\<lambda>x. x\<lparr>no_active := False\<rparr>) t"
    have "?n < length (ow_node ?t)" "\<not> no_active (node_of ?t ?n)" using that by simp_all
    then show ?thesis using keepsD_active [OF keeps_retire_of [OF keeps_refl]] by blast
  qed
  then show ?thesis using assms by (simp add: finish_producer_def raiseS_def Let_def)
qed

lemma finish_all:
  assumes g: "good ops sec {} {} s" and rs: "set rs \<subseteq> {..<length (ow_request s)}"
  shows "good ops sec {} {} (fold (\<lambda>r s. fst (finish_producer r s)) rs s) \<and> keeps True s (fold (\<lambda>r s. fst (finish_producer r s)) rs s)
    \<and> length (ow_node (fold (\<lambda>r s. fst (finish_producer r s)) rs s)) = length (ow_node s)
    \<and> length (ow_request (fold (\<lambda>r s. fst (finish_producer r s)) rs s)) = length (ow_request s)
    \<and> (\<forall>r \<in> set rs. iq_producer (request_of s r) \<longrightarrow> \<not> no_active (node_of (fold (\<lambda>r s. fst (finish_producer r s)) rs s) (iq_node (request_of s r))))"
  using rs
proof (induction rs rule: rev_induct)
  case Nil
  then show ?case using g keeps_refl by simp
next
  case (snoc q rs)
  let ?t = "fold (\<lambda>r s. fst (finish_producer r s)) rs s"
  have ih: "good ops sec {} {} ?t" "keeps True s ?t" "length (ow_node ?t) = length (ow_node s)" "length (ow_request ?t) = length (ow_request s)"
    "\<forall>r \<in> set rs. iq_producer (request_of s r) \<longrightarrow> \<not> no_active (node_of ?t (iq_node (request_of s r)))" and q: "q < length (ow_request s)"
    using snoc by simp_all
  have k: "keeps True ?t (fst (finish_producer q ?t))" by (rule keeps_finish)
  have same: "iq_node (request_of ?t q) = iq_node (request_of s q)" "iq_producer (request_of ?t q) = iq_producer (request_of s q)"
    using ih(2) q by (simp_all add: keeps_def)
  have new: "\<not> no_active (node_of (fst (finish_producer q ?t)) (iq_node (request_of s q)))" if "iq_producer (request_of s q)"
    using finish_inactive [of q ?t] q that ih(3,4) live_node [OF g q] by (simp add: same)
  have old: "\<not> no_active (node_of (fst (finish_producer q ?t)) (iq_node (request_of s r)))" if "r \<in> set rs" "iq_producer (request_of s r)" for r
  proof -
    have "iq_node (request_of s r) < length (ow_node ?t)" using snoc.prems that(1) live_node [OF g, of r] ih(3) by auto
    then show ?thesis using keepsD_active [OF k] ih(5) that by blast
  qed
  show ?case using finish_good [OF ih(1), of q] keeps_trans [OF ih(2) k] ih(3,4) new old by auto
qed

lemma release_released: "r < length (ow_request s) \<Longrightarrow> iq_released (request_of (release ops r s) r)"
proof -
  have p: "ow_request (retire n t) = ow_request t" "ow_request (cancel_producer n t) = ow_request t" for n and t :: "'a InflightPrefixOwner"
    by (simp_all add: retire_eq cancel_producer_def)
  show "r < length (ow_request s) \<Longrightarrow> iq_released (request_of (release ops r s) r)" by (simp add: release_eq dropped_def p Let_def)
qed

lemma release_all:
  assumes g: "good ops sec {} {} s" and rs: "set rs \<subseteq> {..<length (ow_request s)}"
  shows "good ops sec {} {} (fold (release ops) rs s) \<and> keeps True s (fold (release ops) rs s)
    \<and> length (ow_node (fold (release ops) rs s)) = length (ow_node s) \<and> length (ow_request (fold (release ops) rs s)) = length (ow_request s)
    \<and> (\<forall>r \<in> set rs. iq_released (request_of (fold (release ops) rs s) r))"
  using rs
proof (induction rs rule: rev_induct)
  case Nil
  then show ?case using g keeps_refl by simp
next
  case (snoc q rs)
  let ?t = "fold (release ops) rs s"
  have ih: "good ops sec {} {} ?t" "keeps True s ?t" "length (ow_node ?t) = length (ow_node s)" "length (ow_request ?t) = length (ow_request s)"
    "\<forall>r \<in> set rs. iq_released (request_of ?t r)" and q: "q < length (ow_request s)" "set rs \<subseteq> {..<length (ow_request s)}"
    using snoc by simp_all
  have k: "keeps True ?t (release ops q ?t)" by (rule keeps_release_of [OF keeps_refl])
  have "iq_released (request_of (release ops q ?t) r)" if "r \<in> set rs" for r
    using k ih(4,5) that q(2) unfolding keeps_def by (metis lessThan_iff subsetD)
  then show ?case using release_good [OF ih(1), of q] q keeps_trans [OF ih(2) k] ih(3,4) release_released [of q ?t] by simp
qed


lemma data_gone:
  assumes d: "data_ok ops sec s" and n: "ow_nodes s = []"
  shows "list_all (\<lambda>x. no_result x = None \<and> no_commitment x = None) (ow_node s)"
  unfolding list_all_length
proof (intro allI impI)
  fix m assume m: "m < length (ow_node s)"
  have "no_result (node_of s m) = None" using d n m unfolding data_ok_def Let_def by simp
  moreover have "no_commitment (node_of s m) = None"
  proof (rule ccontr)
    assume "no_commitment (node_of s m) \<noteq> None"
    then obtain c where "no_commitment (node_of s m) = Some c" by blast
    then have "m \<in> set (ow_nodes s)" using d m unfolding data_ok_def Let_def by blast
    then show False using n by simp
  qed
  ultimately show "no_result (node_of s m) = None \<and> no_commitment (node_of s m) = None" by simp
qed

text \<open>C10: An owner drains. From every state that a history of calls reaches, finishing every producer and releasing every request leaves no node, no index entry,
  no request and no reserved byte, keeps no published array and no commitment, and lets a close end at once with the secret zeroed.\<close>

theorem inflight_drains:
  assumes "InflightPrefixOwner_init max_requests max_bytes max_nodes secret = Inr s0"
    and "run_calls ops key_of cs s0 = (s, log)" and "list_all call_ok cs"
  shows "let t = fold (release ops) [0..<length (ow_request s)] (fold (\<lambda>r s. fst (finish_producer r s)) [0..<length (ow_request s)] s) in
     ow_nodes t = [] \<and> ow_pending t = [] \<and> is_requests (ow_stats t) = 0 \<and> is_reserved_bytes (ow_stats t) = 0
   \<and> list_all (\<lambda>x. no_result x = None \<and> no_commitment x = None) (ow_node t)
   \<and> close_end t = (zero_secret t, True)"
proof -
  let ?rs = "[0..<length (ow_request s)]"
  define u where "u = fold (\<lambda>r s. fst (finish_producer r s)) ?rs s"
  define t where "t = fold (release ops) ?rs u"
  have "has_producer s0" using assms(1) by (auto simp: InflightPrefixOwner_init_def Let_def raise_if_def has_producer_def split: if_splits)
  then have "good ops secret {} {} s \<and> has_producer s"
    by (intro history_induct [OF assms, of "\<lambda>t _. has_producer t"]) (assumption, rule producer_call)
  then have g: "good ops secret {} {} s" and h: "has_producer s" by simp_all
  have sub: "set ?rs \<subseteq> {..<length (ow_request s)}" by auto
  note fa = finish_all [OF g sub, folded u_def]
  have sub': "set ?rs \<subseteq> {..<length (ow_request u)}" using fa by auto
  note ra = release_all [OF conjunct1 [OF fa] sub', folded t_def]
  have gt: "good ops secret {} {} t" using ra by blast
  have empty: "live t = {}" using ra fa by (auto simp: live_def)
  have lt: "length (ow_node t) = length (ow_node s)" using ra fa by simp
  have "n \<notin> set (ow_nodes t)" for n
  proof
    assume n: "n \<in> set (ow_nodes t)"
    have b: "n < length (ow_node t)" by (rule node_below [OF gt n])
    then obtain r where "r < length (ow_request s)" "iq_producer (request_of s r)" "iq_node (request_of s r) = n"
      using h lt unfolding has_producer_def by auto
    then have "\<not> no_active (node_of u n)" using fa by auto
    then have "\<not> no_active (node_of t n)" using keepsD_active [of True u t n] ra b by simp
    then have "no_requests (node_of t n) \<noteq> []" using gt n b unfolding good_def held_ok_def by blast
    then obtain q where "q \<in> set (no_requests (node_of t n))" by (cases "no_requests (node_of t n)") auto
    then have "q \<in> live t" using gt b unfolding good_def links_ok_def by blast
    then show False using empty by simp
  qed
  then have nodes: "ow_nodes t = []" by (cases "ow_nodes t") auto
  moreover have "ow_pending t = []"
  proof (rule ccontr)
    assume "ow_pending t \<noteq> []"
    then obtain k n where "(k, n) \<in> set (ow_pending t)" by (cases "ow_pending t") auto
    then show False using pend_okD [of "{}" t k n] gt nodes by (simp add: good_def)
  qed
  moreover have "is_requests (ow_stats t) = 0" "is_reserved_bytes (ow_stats t) = 0"
    using gt empty nodes by (simp_all add: good_def sums_ok_def owed_def)
  moreover have "list_all (\<lambda>x. no_result x = None \<and> no_commitment x = None) (ow_node t)"
    using data_gone [of ops secret t] gt nodes by (simp add: good_def)
  ultimately show ?thesis by (simp add: close_end_def Let_def flip: t_def u_def)
qed

lemma inflight_drains_witness:
  "let s = fst (run_calls demo_ops (\<lambda>s b toks. [of_int (hd toks)]) demo_calls demo_owner);
       t = fold (release demo_ops) [0..<length (ow_request s)] (fold (\<lambda>r s. fst (finish_producer r s)) [0..<length (ow_request s)] s)
   in ow_nodes t = [] \<and> is_reserved_bytes (ow_stats t) = 0 \<and> ow_pending t = []"
  using inflight_drains [OF demo_owner_init prod.collapse [symmetric] demo_calls_ok, of demo_ops "\<lambda>s b toks. [of_int (hd toks)]"] by (simp add: Let_def)


section \<open>Service\<close>

text \<open>C11: A publication serves every request that waits for it. When, in a state that a history of calls reaches, a publication succeeds, the wait of each request of
  the node that is neither released nor cancelled and has no arrays yet returns the published arrays, both while the producer still works and after it has
  finished.\<close>

theorem inflight_publication_serves:
  assumes "InflightPrefixOwner_init max_requests max_bytes max_nodes secret = Inr s0"
    and "run_calls ops key_of cs s0 = (s, log)" and "list_all call_ok cs"
    and p: "publish ops r first saved final oom s = (t, Inr ())"
    and q: "q \<in> live s" "iq_node (request_of s q) = iq_node (request_of s r)" "\<not> iq_cancelled (request_of s q)" "iq_lease (request_of s q) = None"
    and o: "\<not> ow_closed s"
  shows "snd (wait_begin ops q (\<lambda>p. p) None t) = Inr (Some saved)
     \<and> snd (wait_begin ops q (\<lambda>p. p) None (fst (finish_producer r t))) = Inr (Some saved)"
proof -
  have g: "good ops secret {} {} s \<and> True" by (rule history_induct [OF assms(1-3), of "\<lambda>_ _. True"]) simp_all
  have serve: "snd (wait_begin ops q (\<lambda>p. p) None u) = Inr (Some saved)"
    if "no_status (node_of u n) = Published" "no_result (node_of u n) = Some saved" "no_commitment (node_of u n) = Some (ao_commit ops (ow_secret u) saved)"
      "iq_node (request_of u q) = n" "\<not> iq_released (request_of u q)" "\<not> iq_cancelled (request_of u q)" "iq_lease (request_of u q) = None" "\<not> ow_closed u" for u n
    using that by (simp add: wait_begin_def wait_checked_def wait_resume_def wait_ready_def wait_copy_def raiseS_def Let_def)
  from p show ?thesis
  proof (cases rule: publish_cases)
    case (accepted n)
    have n: "n < length (ow_node s)" "n \<in> set (ow_nodes s)" using producer_below [OF conjunct1 [OF g] accepted(1)] by simp_all
    have r: "n = iq_node (request_of s r)" "r < length (ow_request s)" "iq_producer (request_of s r)" using accepted(1) by (simp_all add: producer_node_Inr)
    have lq: "q < length (ow_request s)" "\<not> iq_released (request_of s q)" using q(1) by (simp_all add: live_def)
    then have nr: "no_requests (node_of s n) \<noteq> []" using g q(2) r(1) unfolding good_def links_ok_def by (metis empty_iff empty_set)
    have t: "ow_request t = ow_request s" "ow_secret t = ow_secret s" "ow_closed t = ow_closed s" "no_requests (node_of t n) = no_requests (node_of s n)"
      "no_status (node_of t n) = Published" "no_result (node_of t n) = Some saved" "no_commitment (node_of t n) = Some (ao_commit ops (ow_secret s) saved)"
      "no_active (node_of t n)" "length (ow_node t) = length (ow_node s)"
      using accepted(2,7) n by simp_all
    have f: "fst (finish_producer r t) = upd_node n (\<lambda>x. x\<lparr>no_active := False\<rparr>) t"
      using r t nr n by (simp add: finish_producer_def raiseS_def retire_def Let_def)
    have "snd (wait_begin ops q (\<lambda>p. p) None t) = Inr (Some saved)"
      by (rule serve [of t n]) (use t q r lq o in simp_all)
    moreover have "snd (wait_begin ops q (\<lambda>p. p) None (fst (finish_producer r t))) = Inr (Some saved)"
      unfolding f by (rule serve [of _ n]) (use t q r lq o n in simp_all)
    ultimately show ?thesis ..
  qed simp_all
qed

definition demo_joined :: "nat InflightPrefixOwner" where
  "demo_joined = fst (run_calls demo_ops (\<lambda>s b toks. [of_int (hd toks)]) (take 2 demo_calls) demo_owner)"

lemma inflight_publication_serves_witness:
  "snd (wait_begin demo_ops 1 (\<lambda>p. p) None (fst (finish_producer 0 (fst (publish demo_ops 0 7 7 7 None demo_joined))))) = Inr (Some 7)"
proof -
  have "list_all call_ok (take 2 demo_calls)" using demo_calls_ok by (simp add: demo_calls_def)
  moreover have "run_calls demo_ops (\<lambda>s b toks. [of_int (hd toks)]) (take 2 demo_calls) demo_owner
      = (demo_joined, snd (run_calls demo_ops (\<lambda>s b toks. [of_int (hd toks)]) (take 2 demo_calls) demo_owner))" by (simp add: demo_joined_def)
  moreover have "publish demo_ops 0 7 7 7 None demo_joined = (fst (publish demo_ops 0 7 7 7 None demo_joined), Inr ())"
    by (rule prod_eqI) (simp, code_simp)
  moreover have "1 < length (ow_request demo_joined) \<and> \<not> iq_released (request_of demo_joined 1) \<and> iq_node (request_of demo_joined 1) = iq_node (request_of demo_joined 0)
     \<and> \<not> iq_cancelled (request_of demo_joined 1) \<and> iq_lease (request_of demo_joined 1) = None \<and> \<not> ow_closed demo_joined" by code_simp
  ultimately show ?thesis
    using inflight_publication_serves [OF demo_owner_init, of demo_ops "\<lambda>s b toks. [of_int (hd toks)]" "take 2 demo_calls" demo_joined _ 0 7 7 7 None _ 1] by (simp add: live_def)
qed

end
