(* ===== verification/Recorded_Inventory.thy ===== *)
theory Recorded_Inventory
  imports Authenticated_MPC Preparation_Protocol
begin

text \<open>
  Preprocessing prepared ahead of time (\<^verbatim>\<open>runtime/preprocessing_inventory.py\<close>): a recorder notes the material that a program of authenticated
  arithmetic asks for, an inventory is generated from the plan, and a later execution takes the material in order. The source of the material is the
  preprocessor of \<^verbatim>\<open>Authenticated_MPC\<close>.
\<close>

section \<open>Plans\<close>

record PlanEntry =
  pe_kind :: string
  pe_shape :: "nat list"
  pe_bit_width :: "nat option"
  pe_weight_digest :: "string option"
  pe_weight :: "s64array option"

datatype material =
    Input_Material InputMask
  | Linear_Material LinearCorrelation
  | Triple_Material MultiplicationTriple
  | Bit_Material BitDecompositionMask

record PreparedEntry =
  pr_plan :: PlanEntry
  pr_material :: material

definition operation_count :: "PlanEntry list \<Rightarrow> nat" where
  "operation_count plan = length plan"

definition plan_counts :: "PlanEntry list \<Rightarrow> string \<rightharpoonup> nat" where
  "plan_counts plan = fold (\<lambda>e m. m(pe_kind e \<mapsto> (case m (pe_kind e) of None \<Rightarrow> 0 | Some n \<Rightarrow> n) + 1)) plan (\<lambda>_. None)"

fun str_items :: "nat list \<Rightarrow> string" where
  "str_items [] = ''''"
| "str_items [n] = str_nat n"
| "str_items (n # ns) = str_nat n @ '', '' @ str_items ns"

text \<open>Python's text of a tuple.\<close>

definition str_tuple :: "nat list \<Rightarrow> string" where
  "str_tuple ns = ''('' @ str_items ns @ (if length ns = 1 then '','' else []) @ '')''"

definition weight_digest :: "(bytes \<Rightarrow> digest) \<Rightarrow> s64array \<Rightarrow> string" where
  "weight_digest sha256 w = hex_of (digest_bytes (sha256 (ascii (str_tuple (nd_shape w)) @ tobytes_u64 (nd_data w))))"

definition plan_entry :: "string \<Rightarrow> nat list \<Rightarrow> PlanEntry" where
  "plan_entry kind shape = \<lparr>pe_kind = kind, pe_shape = shape, pe_bit_width = None, pe_weight_digest = None, pe_weight = None\<rparr>"

section \<open>Recording\<close>

record RecordingPreprocessor =
  rp_delegate :: TrustedPreprocessor
  rp_plan :: "PlanEntry list"

definition RecordingPreprocessor_init :: "TrustedPreprocessor \<Rightarrow> RecordingPreprocessor" where
  "RecordingPreprocessor_init t = \<lparr>rp_delegate = t, rp_plan = []\<rparr>"

text \<open>The entry is appended before the delegate is called, so it stays when the delegate raises.\<close>

definition recorded :: "PlanEntry \<Rightarrow> (TrustedPreprocessor \<Rightarrow> TrustedPreprocessor \<times> 'a) \<Rightarrow> RecordingPreprocessor \<Rightarrow> RecordingPreprocessor \<times> 'a" where
  "recorded e f r = (let (t, x) = f (rp_delegate r) in (r\<lparr>rp_plan := rp_plan r @ [e], rp_delegate := t\<rparr>, x))"

definition rec_input_mask :: "nat list \<Rightarrow> RecordingPreprocessor \<Rightarrow> RecordingPreprocessor \<times> InputMask" where
  "rec_input_mask shape = recorded (plan_entry ''input_mask'' shape) (\<lambda>t. pre_input_mask t shape)"

definition rec_linear_correlation ::
  "(bytes \<Rightarrow> digest) \<Rightarrow> s64array \<Rightarrow> nat list \<Rightarrow> RecordingPreprocessor \<Rightarrow> RecordingPreprocessor \<times> LinearCorrelation res" where
  "rec_linear_correlation sha256 weight shape =
     recorded ((plan_entry ''linear_correlation'' shape)\<lparr>pe_weight_digest := Some (weight_digest sha256 weight), pe_weight := Some weight\<rparr>)
       (\<lambda>t. pre_linear_correlation t weight shape)"

definition rec_multiplication_triple :: "nat list \<Rightarrow> RecordingPreprocessor \<Rightarrow> RecordingPreprocessor \<times> MultiplicationTriple" where
  "rec_multiplication_triple shape = recorded (plan_entry ''multiplication_triple'' shape) (\<lambda>t. pre_multiplication_triple t shape)"

text \<open>\<^verbatim>\<open>int(bit_width or self.modulus.bit_length())\<close>.\<close>

definition width_or :: "int \<Rightarrow> nat option \<Rightarrow> nat" where
  "width_or modulus bit_width = (case bit_width of None \<Rightarrow> bit_length (nat modulus) | Some w \<Rightarrow> if w = 0 then bit_length (nat modulus) else w)"

definition rec_bit_mask :: "nat list \<Rightarrow> nat option \<Rightarrow> RecordingPreprocessor \<Rightarrow> RecordingPreprocessor \<times> BitDecompositionMask res" where
  "rec_bit_mask shape bit_width r =
     (let width = width_or (tp_modulus (rp_delegate r)) bit_width in
      recorded ((plan_entry ''bit_mask'' shape)\<lparr>pe_bit_width := Some width\<rparr>) (\<lambda>t. pre_bit_mask t shape width) r)"

section \<open>The prepared inventory\<close>

record PreparedInventory =
  pv_generator :: TrustedPreprocessor
  pv_entries :: "PreparedEntry list"
  pv_position :: nat

definition as_material :: "('a \<Rightarrow> material) \<Rightarrow> TrustedPreprocessor \<times> 'a res \<Rightarrow> TrustedPreprocessor \<times> material res" where
  "as_material c x = (fst x, map_sum id c (snd x))"

definition generate_material :: "PlanEntry \<Rightarrow> TrustedPreprocessor \<Rightarrow> TrustedPreprocessor \<times> material res" where
  "generate_material e t =
     (if pe_kind e = ''input_mask'' then as_material Input_Material (map_prod id Inr (pre_input_mask t (pe_shape e)))
      else if pe_kind e = ''linear_correlation'' then
        (case pe_weight e of None \<Rightarrow> (t, Inl (InventoryMismatch ''linear plan entry has no weight''))
         | Some w \<Rightarrow> as_material Linear_Material (pre_linear_correlation t w (pe_shape e)))
      else if pe_kind e = ''multiplication_triple'' then as_material Triple_Material (map_prod id Inr (pre_multiplication_triple t (pe_shape e)))
      else if pe_kind e = ''bit_mask'' then
        as_material Bit_Material (pre_bit_mask t (pe_shape e) (case pe_bit_width e of None \<Rightarrow> 0 | Some w \<Rightarrow> w))
      else (t, Inl (InventoryMismatch (''unknown plan operation: '' @ pe_kind e))))"

fun generate_entries :: "PlanEntry list \<Rightarrow> TrustedPreprocessor \<Rightarrow> TrustedPreprocessor \<times> PreparedEntry list res" where
  "generate_entries [] t = (t, Inr [])"
| "generate_entries (e # es) t =
     bindS (generate_material e t) (\<lambda>t m. bindS (generate_entries es t) (\<lambda>t ps. (t, Inr (\<lparr>pr_plan = e, pr_material = m\<rparr> # ps))))"

definition inventory_generate :: "PlanEntry list \<Rightarrow> TrustedPreprocessor \<Rightarrow> TrustedPreprocessor \<times> PreparedInventory res" where
  "inventory_generate plan t =
     bindS (generate_entries plan t) (\<lambda>t ps. (t, Inr \<lparr>pv_generator = t, pv_entries = ps, pv_position = 0\<rparr>))"

definition inventory_consumed :: "PreparedInventory \<Rightarrow> nat" where
  "inventory_consumed v = pv_position v"

definition inventory_remaining :: "PreparedInventory \<Rightarrow> int" where
  "inventory_remaining v = int (length (pv_entries v)) - int (pv_position v)"

definition inventory_take ::
  "(bytes \<Rightarrow> digest) \<Rightarrow> string \<Rightarrow> nat list \<Rightarrow> nat option \<Rightarrow> s64array option \<Rightarrow> PreparedInventory \<Rightarrow> PreparedInventory \<times> material res" where
  "inventory_take sha256 kind shape bit_width weight v =
     raiseS (pv_position v \<ge> length (pv_entries v)) (InventoryExhausted ''prepared material has been consumed'') v
    (let prepared = pv_entries v ! pv_position v; expected = pr_plan prepared in
     raiseS (pe_kind expected \<noteq> kind \<or> pe_shape expected \<noteq> shape)
       (InventoryMismatch (''prepared operation '' @ str_nat (pv_position v) @ '' is '' @ pe_kind expected @ str_tuple (pe_shape expected)
          @ '', but execution requested '' @ kind @ str_tuple shape)) v
    (raiseS (bit_width \<noteq> None \<and> pe_bit_width expected \<noteq> bit_width) (InventoryMismatch ''prepared bit width does not match execution'') v
    (raiseS (weight \<noteq> None \<and> pe_weight_digest expected \<noteq> map_option (weight_digest sha256) weight)
       (InventoryMismatch ''prepared linear weight does not match execution'') v
    (v\<lparr>pv_position := pv_position v + 1\<rparr>, Inr (pr_material prepared)))))"

definition inv_input_mask :: "(bytes \<Rightarrow> digest) \<Rightarrow> nat list \<Rightarrow> PreparedInventory \<Rightarrow> PreparedInventory \<times> material res" where
  "inv_input_mask sha256 shape = inventory_take sha256 ''input_mask'' shape None None"

definition inv_linear_correlation :: "(bytes \<Rightarrow> digest) \<Rightarrow> s64array \<Rightarrow> nat list \<Rightarrow> PreparedInventory \<Rightarrow> PreparedInventory \<times> material res" where
  "inv_linear_correlation sha256 weight shape = inventory_take sha256 ''linear_correlation'' shape None (Some weight)"

definition inv_multiplication_triple :: "(bytes \<Rightarrow> digest) \<Rightarrow> nat list \<Rightarrow> PreparedInventory \<Rightarrow> PreparedInventory \<times> material res" where
  "inv_multiplication_triple sha256 shape = inventory_take sha256 ''multiplication_triple'' shape None None"

definition inv_bit_mask :: "(bytes \<Rightarrow> digest) \<Rightarrow> nat list \<Rightarrow> nat option \<Rightarrow> PreparedInventory \<Rightarrow> PreparedInventory \<times> material res" where
  "inv_bit_mask sha256 shape bit_width v =
     inventory_take sha256 ''bit_mask'' shape (Some (width_or (tp_modulus (pv_generator v)) bit_width)) None v"


section \<open>Programs as requests\<close>

text \<open>What a program asks for, and how the preprocessor itself, the recorder and the inventory serve it.\<close>

datatype material_request =
    Ask_Input "nat list"
  | Ask_Linear s64array "nat list"
  | Ask_Triple "nat list"
  | Ask_Bits "nat list" "nat option"

fun serve_directly :: "material_request \<Rightarrow> TrustedPreprocessor \<Rightarrow> TrustedPreprocessor \<times> material res" where
  "serve_directly (Ask_Input shape) t = as_material Input_Material (map_prod id Inr (pre_input_mask t shape))"
| "serve_directly (Ask_Linear w shape) t = as_material Linear_Material (pre_linear_correlation t w shape)"
| "serve_directly (Ask_Triple shape) t = as_material Triple_Material (map_prod id Inr (pre_multiplication_triple t shape))"
| "serve_directly (Ask_Bits shape w) t = as_material Bit_Material (pre_bit_mask t shape (width_or (tp_modulus t) w))"

fun serve_recording :: "(bytes \<Rightarrow> digest) \<Rightarrow> material_request \<Rightarrow> RecordingPreprocessor \<Rightarrow> RecordingPreprocessor \<times> material res" where
  "serve_recording sha256 (Ask_Input shape) r = (let (r, m) = rec_input_mask shape r in (r, Inr (Input_Material m)))"
| "serve_recording sha256 (Ask_Linear w shape) r = (let (r, m) = rec_linear_correlation sha256 w shape r in (r, map_sum id Linear_Material m))"
| "serve_recording sha256 (Ask_Triple shape) r = (let (r, m) = rec_multiplication_triple shape r in (r, Inr (Triple_Material m)))"
| "serve_recording sha256 (Ask_Bits shape w) r = (let (r, m) = rec_bit_mask shape w r in (r, map_sum id Bit_Material m))"

fun serve_prepared :: "(bytes \<Rightarrow> digest) \<Rightarrow> material_request \<Rightarrow> PreparedInventory \<Rightarrow> PreparedInventory \<times> material res" where
  "serve_prepared sha256 (Ask_Input shape) = inv_input_mask sha256 shape"
| "serve_prepared sha256 (Ask_Linear w shape) = inv_linear_correlation sha256 w shape"
| "serve_prepared sha256 (Ask_Triple shape) = inv_multiplication_triple sha256 shape"
| "serve_prepared sha256 (Ask_Bits shape w) = inv_bit_mask sha256 shape w"

text \<open>A whole program, which stops at the first exception.\<close>

fun serve_all :: "('q \<Rightarrow> 's \<Rightarrow> 's \<times> 'a res) \<Rightarrow> 'q list \<Rightarrow> 's \<Rightarrow> 's \<times> 'a list res" where
  "serve_all f [] s = (s, Inr [])"
| "serve_all f (q # qs) s = bindS (f q s) (\<lambda>s x. bindS (serve_all f qs s) (\<lambda>s xs. (s, Inr (x # xs))))"

text \<open>Every request of a client that goes on after exceptions, with its answer.\<close>

fun answers :: "('q \<Rightarrow> 's \<Rightarrow> 's \<times> 'a res) \<Rightarrow> 'q list \<Rightarrow> 's \<Rightarrow> 's \<times> ('q \<times> 'a res) list" where
  "answers f [] s = (s, [])"
| "answers f (q # qs) s = (let (s, a) = f q s; (s, log) = answers f qs s in (s, (q, a) # log))"

section \<open>Recording writes the plan of the program\<close>

fun entry_of :: "(bytes \<Rightarrow> digest) \<Rightarrow> int \<Rightarrow> material_request \<Rightarrow> PlanEntry" where
  "entry_of sha256 p (Ask_Input shape) = plan_entry ''input_mask'' shape"
| "entry_of sha256 p (Ask_Linear w shape) =
     (plan_entry ''linear_correlation'' shape)\<lparr>pe_weight_digest := Some (weight_digest sha256 w), pe_weight := Some w\<rparr>"
| "entry_of sha256 p (Ask_Triple shape) = plan_entry ''multiplication_triple'' shape"
| "entry_of sha256 p (Ask_Bits shape w) = (plan_entry ''bit_mask'' shape)\<lparr>pe_bit_width := Some (width_or p w)\<rparr>"

lemmas pre_defs = pre_input_mask_def pre_linear_correlation_def pre_multiplication_triple_def pre_bit_mask_def pre_share_def pre_random_def Let_def

lemma serve_recording_eq: "serve_recording sha256 q r =
    (let (t, m) = serve_directly q (rp_delegate r)
     in (r\<lparr>rp_plan := rp_plan r @ [entry_of sha256 (tp_modulus (rp_delegate r)) q], rp_delegate := t\<rparr>, m))"
  by (cases q) (simp_all add: rec_input_mask_def rec_linear_correlation_def rec_multiplication_triple_def rec_bit_mask_def recorded_def as_material_def
      case_prod_beta Let_def)

lemma modulus_served [simp]: "tp_modulus (fst (serve_directly q t)) = tp_modulus t"
proof (cases q)
  case (Ask_Linear w shape)
  then show ?thesis by (simp add: as_material_def pre_linear_correlation_def pre_share_def pre_random_def Let_def raiseS_def onS_def split: sum.split)
qed (simp_all add: as_material_def pre_defs raiseS_def)

lemma served_alike:
  assumes "tp_modulus t = tp_modulus u" and "snd (serve_directly q t) = Inr m"
  shows "\<exists>m'. snd (serve_directly q u) = Inr m'"
proof (cases q)
  case (Ask_Linear w shape)
  then show ?thesis using assms
    by (auto simp: as_material_def pre_linear_correlation_def pre_share_def pre_random_def Let_def raiseS_def onS_def matmul_last_def raise_if_def
        split: if_splits sum.splits)
next
  case (Ask_Bits shape w)
  then show ?thesis using assms by (auto simp: as_material_def pre_bit_mask_def Let_def raiseS_def case_prod_beta split: if_splits)
qed (simp_all add: as_material_def)

lemma generate_entry_of: "tp_modulus t = p \<Longrightarrow> generate_material (entry_of sha256 p q) t = serve_directly q t"
  by (cases q) (simp_all add: generate_material_def plan_entry_def)

lemma recording_plan:
  assumes "serve_all (serve_recording sha256) qs r = (r', Inr ms)" and "tp_modulus t = tp_modulus (rp_delegate r)"
  shows "rp_plan r' = rp_plan r @ map (entry_of sha256 (tp_modulus t)) qs \<and> (\<exists>t' ms'. serve_all serve_directly qs t = (t', Inr ms'))"
  using assms
proof (induction qs arbitrary: r ms t)
  case (Cons q qs)
  obtain u m where u: "serve_directly q (rp_delegate r) = (u, m)" by fastforce
  let ?r = "r\<lparr>rp_plan := rp_plan r @ [entry_of sha256 (tp_modulus t) q], rp_delegate := u\<rparr>"
  have step: "serve_recording sha256 q r = (?r, m)" using Cons.prems(2) by (simp add: serve_recording_eq u)
  obtain x xs where m: "m = Inr x" "serve_all (serve_recording sha256) qs ?r = (r', Inr xs)"
    using Cons.prems(1) by (auto simp: step bindS_def split: sum.splits prod.splits)
  obtain v y where v: "serve_directly q t = (v, Inr y)"
    using served_alike [of "rp_delegate r" t q x] Cons.prems(2) u m(1) by (metis prod.collapse snd_conv)
  have p: "tp_modulus v = tp_modulus t" "tp_modulus u = tp_modulus t"
    using modulus_served [of q t] modulus_served [of q "rp_delegate r"] Cons.prems(2) u v by simp_all
  show ?case using Cons.IH [OF m(2), of v] p by (auto simp: v)
qed simp


section \<open>Replay\<close>

lemma take_entry_of:
  assumes "pv_position v < length (pv_entries v)" "pr_plan (pv_entries v ! pv_position v) = entry_of sha256 (tp_modulus (pv_generator v)) q"
  shows "serve_prepared sha256 q v = (v\<lparr>pv_position := pv_position v + 1\<rparr>, Inr (pr_material (pv_entries v ! pv_position v)))"
  using assms by (cases q) (simp_all add: inv_input_mask_def inv_linear_correlation_def inv_multiplication_triple_def inv_bit_mask_def inventory_take_def
      plan_entry_def raiseS_def Let_def)

lemma generated:
  assumes "serve_all serve_directly qs t = (t', Inr ms)"
  shows "generate_entries (map (entry_of sha256 (tp_modulus t)) qs) t
      = (t', Inr (map2 (\<lambda>q m. \<lparr>pr_plan = entry_of sha256 (tp_modulus t) q, pr_material = m\<rparr>) qs ms)) \<and> length ms = length qs \<and> tp_modulus t' = tp_modulus t"
  using assms
proof (induction qs arbitrary: t ms)
  case (Cons q qs)
  obtain u x xs where u: "serve_directly q t = (u, Inr x)" "serve_all serve_directly qs u = (t', Inr xs)" "ms = x # xs"
    using Cons.prems by (auto simp: bindS_def split: sum.splits prod.splits)
  moreover have "tp_modulus u = tp_modulus t" using modulus_served [of q t] u(1) by simp
  ultimately show ?case using Cons.IH [OF u(2)] by (simp add: generate_entry_of)
qed simp

lemma replayed:
  assumes "drop (pv_position v) (pv_entries v) = map2 (\<lambda>q m. \<lparr>pr_plan = entry_of sha256 (tp_modulus (pv_generator v)) q, pr_material = m\<rparr>) qs ms"
    and "length ms = length qs"
  shows "serve_all (serve_prepared sha256) qs v = (v\<lparr>pv_position := pv_position v + length qs\<rparr>, Inr ms)"
  using assms
proof (induction qs arbitrary: v ms)
  case (Cons q qs)
  obtain m ms' where ms: "ms = m # ms'" using Cons.prems(2) by (cases ms) auto
  let ?k = "pv_position v"
  have k: "?k < length (pv_entries v)" by (rule ccontr) (use Cons.prems(1) ms in simp)
  have d: "drop ?k (pv_entries v) = pv_entries v ! ?k # drop (Suc ?k) (pv_entries v)" using k by (rule Cons_nth_drop_Suc [symmetric])
  then have e: "pv_entries v ! ?k = \<lparr>pr_plan = entry_of sha256 (tp_modulus (pv_generator v)) q, pr_material = m\<rparr>"
    and rest: "drop (Suc ?k) (pv_entries v) = map2 (\<lambda>q m. \<lparr>pr_plan = entry_of sha256 (tp_modulus (pv_generator v)) q, pr_material = m\<rparr>) qs ms'"
    using Cons.prems(1) ms by simp_all
  have "serve_prepared sha256 q v = (v\<lparr>pv_position := ?k + 1\<rparr>, Inr m)" using take_entry_of [OF k, of sha256 q] e by simp
  then show ?case using Cons.IH [of "v\<lparr>pv_position := ?k + 1\<rparr>" ms'] rest Cons.prems(2) ms by simp
qed simp

lemma exhausted: "pv_position v \<ge> length (pv_entries v) \<Longrightarrow> serve_prepared sha256 q v = (v, Inl (InventoryExhausted ''prepared material has been consumed''))"
  by (cases q) (simp_all add: inv_input_mask_def inv_linear_correlation_def inv_multiplication_triple_def inv_bit_mask_def inventory_take_def raiseS_def)

text \<open>C19: Preparing ahead of time changes nothing. When a program has been recorded once, every preprocessor with the recorder's modulus generates an inventory from the
  plan, and the inventory then serves the same program with exactly the material, request by request, that this preprocessor would have given online, in the
  same final state; after that it is empty and raises on every request.\<close>

theorem recorded_program_replays:
  assumes "serve_all (serve_recording sha256) qs (RecordingPreprocessor_init d) = (r, Inr ms)" and "tp_modulus t = tp_modulus d"
  shows "\<exists>t' ms' v v'. serve_all serve_directly qs t = (t', Inr ms') \<and> inventory_generate (rp_plan r) t = (t', Inr v)
     \<and> serve_all (serve_prepared sha256) qs v = (v', Inr ms') \<and> inventory_consumed v' = length qs \<and> inventory_remaining v' = 0
     \<and> serve_prepared sha256 q v' = (v', Inl (InventoryExhausted ''prepared material has been consumed''))"
proof -
  let ?mk = "\<lambda>q m. \<lparr>pr_plan = entry_of sha256 (tp_modulus t) q, pr_material = m\<rparr>"
  obtain t' ms' where plan: "rp_plan r = map (entry_of sha256 (tp_modulus t)) qs" and direct: "serve_all serve_directly qs t = (t', Inr ms')"
    using recording_plan [OF assms(1), of t] assms(2) by (auto simp: RecordingPreprocessor_init_def)
  note g = generated [OF direct, of sha256]
  define v where "v = \<lparr>pv_generator = t', pv_entries = map2 ?mk qs ms', pv_position = 0\<rparr>"
  have "inventory_generate (rp_plan r) t = (t', Inr v)" using g by (simp add: inventory_generate_def plan v_def)
  moreover have rep: "serve_all (serve_prepared sha256) qs v = (v\<lparr>pv_position := length qs\<rparr>, Inr ms')"
    using replayed [of v sha256 qs ms'] g by (simp add: v_def)
  moreover have "length (pv_entries v) = length qs" using g by (simp add: v_def)
  ultimately show ?thesis
    using direct exhausted [of "v\<lparr>pv_position := length qs\<rparr>" sha256 q] by (auto simp: inventory_consumed_def inventory_remaining_def)
qed

section \<open>Single use\<close>

text \<open>What the inventory requires of a request for the entry at its position.\<close>

fun fits :: "(bytes \<Rightarrow> digest) \<Rightarrow> int \<Rightarrow> PlanEntry \<Rightarrow> material_request \<Rightarrow> bool" where
  "fits sha256 p e (Ask_Input shape) \<longleftrightarrow> pe_kind e = ''input_mask'' \<and> pe_shape e = shape"
| "fits sha256 p e (Ask_Linear w shape) \<longleftrightarrow> pe_kind e = ''linear_correlation'' \<and> pe_shape e = shape \<and> pe_weight_digest e = Some (weight_digest sha256 w)"
| "fits sha256 p e (Ask_Triple shape) \<longleftrightarrow> pe_kind e = ''multiplication_triple'' \<and> pe_shape e = shape"
| "fits sha256 p e (Ask_Bits shape w) \<longleftrightarrow> pe_kind e = ''bit_mask'' \<and> pe_shape e = shape \<and> pe_bit_width e = Some (width_or p w)"

definition taken :: "('q \<times> 'a res) list \<Rightarrow> ('q \<times> 'a) list" where
  "taken log = List.map_filter (\<lambda>(q, a). case a of Inl _ \<Rightarrow> None | Inr m \<Rightarrow> Some (q, m)) log"

lemma take_cases:
  "(\<exists>e. inventory_take sha256 kind shape width weight v = (v, Inl e))
   \<or> pv_position v < length (pv_entries v) \<and> pe_kind (pr_plan (pv_entries v ! pv_position v)) = kind \<and> pe_shape (pr_plan (pv_entries v ! pv_position v)) = shape
      \<and> (width = None \<or> pe_bit_width (pr_plan (pv_entries v ! pv_position v)) = width)
      \<and> (weight = None \<or> pe_weight_digest (pr_plan (pv_entries v ! pv_position v)) = map_option (weight_digest sha256) weight)
      \<and> inventory_take sha256 kind shape width weight v = (v\<lparr>pv_position := Suc (pv_position v)\<rparr>, Inr (pr_material (pv_entries v ! pv_position v)))"
  by (auto simp: inventory_take_def raiseS_def Let_def)

lemma serve_prepared_cases:
  obtains (refused) e where "serve_prepared sha256 q v = (v, Inl e)"
  | (served) "pv_position v < length (pv_entries v)" "fits sha256 (tp_modulus (pv_generator v)) (pr_plan (pv_entries v ! pv_position v)) q"
      "serve_prepared sha256 q v = (v\<lparr>pv_position := Suc (pv_position v)\<rparr>, Inr (pr_material (pv_entries v ! pv_position v)))"
proof (cases q)
  case (Ask_Input shape)
  then show ?thesis using take_cases [of sha256 "''input_mask''" shape None None v] that by (auto simp: inv_input_mask_def)
next
  case (Ask_Linear w shape)
  then show ?thesis using take_cases [of sha256 "''linear_correlation''" shape None "Some w" v] that by (auto simp: inv_linear_correlation_def)
next
  case (Ask_Triple shape)
  then show ?thesis using take_cases [of sha256 "''multiplication_triple''" shape None None v] that by (auto simp: inv_multiplication_triple_def)
next
  case (Ask_Bits shape w)
  then show ?thesis
    using take_cases [of sha256 "''bit_mask''" shape "Some (width_or (tp_modulus (pv_generator v)) w)" None v] that by (auto simp: inv_bit_mask_def)
qed

lemma taken_simps [simp]: "taken [] = []" "taken ((q, Inl e) # log) = taken log" "taken ((q, Inr m) # log) = (q, m) # taken log"
  by (simp_all add: taken_def)

text \<open>C20: Prepared material is used once and in order. Whatever a client asks of an inventory, and however it goes on after refusals, the material it receives is that of
  the next entries in their order, none of them twice and none skipped, each for a request of the entry's kind and shape, with its bit width or weight digest,
  and the position counts exactly the requests that were served.\<close>

theorem inventory_single_use:
  assumes "answers (serve_prepared sha256) qs v = (v', log)" and "pv_position v \<le> length (pv_entries v)"
  shows "pv_entries v' = pv_entries v \<and> pv_position v' = pv_position v + length (taken log) \<and> pv_position v' \<le> length (pv_entries v)
     \<and> map snd (taken log) = map pr_material (take (length (taken log)) (drop (pv_position v) (pv_entries v)))
     \<and> list_all2 (fits sha256 (tp_modulus (pv_generator v))) (map pr_plan (take (length (taken log)) (drop (pv_position v) (pv_entries v)))) (map fst (taken log))"
  using assms
proof (induction qs arbitrary: v log)
  case (Cons q qs)
  show ?case
  proof (cases rule: serve_prepared_cases [of sha256 q v])
    case (refused e)
    obtain log' where l: "answers (serve_prepared sha256) qs v = (v', log')" "log = (q, Inl e) # log'"
      using Cons.prems(1) by (auto simp: refused split: prod.splits)
    show ?thesis unfolding l(2) taken_simps by (rule Cons.IH [OF l(1) Cons.prems(2)])
  next
    case served
    let ?k = "pv_position v"
    obtain log' where l: "answers (serve_prepared sha256) qs (v\<lparr>pv_position := Suc ?k\<rparr>) = (v', log')" "log = (q, Inr (pr_material (pv_entries v ! ?k))) # log'"
      using Cons.prems(1) by (auto simp: served(3) split: prod.splits)
    have d: "drop ?k (pv_entries v) = pv_entries v ! ?k # drop (Suc ?k) (pv_entries v)" using served(1) by (rule Cons_nth_drop_Suc [symmetric])
    show ?thesis using Cons.IH [OF l(1)] served(1,2) by (simp add: l(2) d)
  qed
qed simp


section \<open>Witnesses\<close>

definition demo_pre :: "(nat \<Rightarrow> int) \<Rightarrow> TrustedPreprocessor" where
  "demo_pre rng = \<lparr>tp_modulus = 13, tp_alpha = 5, tp_rng = rng\<rparr>"

definition demo_requests :: "material_request list" where
  "demo_requests = [Ask_Input [2], Ask_Linear \<lparr>nd_shape = [1, 2], nd_data = [3, 4]\<rparr> [1, 2], Ask_Triple [2], Ask_Bits [1] None]"

definition demo_recorder :: "RecordingPreprocessor \<times> material list res" where
  "demo_recorder = serve_all (serve_recording (\<lambda>_. 7)) demo_requests (RecordingPreprocessor_init (demo_pre (\<lambda>i. int i mod 13)))"

lemma bit_length_13: "bit_length 13 = 4"
  by code_simp

text \<open>The requests that a preprocessor serves.\<close>

fun request_ok :: "int \<Rightarrow> material_request \<Rightarrow> bool" where
  "request_ok p (Ask_Linear w shape) \<longleftrightarrow> length (nd_shape w) = 2 \<and> shape \<noteq> [] \<and> last shape = nd_shape w ! 1"
| "request_ok p (Ask_Bits shape w) \<longleftrightarrow> p < 2 ^ width_or p w \<and> 0 < width_or p w"
| "request_ok p q \<longleftrightarrow> True"

lemma served_ok: "request_ok (tp_modulus t) q \<Longrightarrow> \<exists>m. snd (serve_directly q t) = Inr m"
proof (cases q)
  case (Ask_Linear w shape)
  assume "request_ok (tp_modulus t) q"
  then show ?thesis
    by (simp add: Ask_Linear as_material_def pre_linear_correlation_def pre_share_def pre_random_def Let_def raiseS_def onS_def matmul_last_def raise_if_def)
next
  case (Ask_Bits shape w)
  assume "request_ok (tp_modulus t) q"
  then show ?thesis by (simp add: Ask_Bits as_material_def pre_bit_mask_def Let_def raiseS_def case_prod_beta)
qed (simp_all add: as_material_def)

lemma recording_succeeds:
  assumes "list_all (request_ok (tp_modulus (rp_delegate r))) qs"
  shows "\<exists>r' ms. serve_all (serve_recording sha256) qs r = (r', Inr ms)"
  using assms
proof (induction qs arbitrary: r)
  case (Cons q qs)
  obtain u m where u: "serve_directly q (rp_delegate r) = (u, Inr m)" using served_ok [of "rp_delegate r" q] Cons.prems by (auto simp: prod_eq_iff)
  let ?r = "r\<lparr>rp_plan := rp_plan r @ [entry_of sha256 (tp_modulus (rp_delegate r)) q], rp_delegate := u\<rparr>"
  have "tp_modulus u = tp_modulus (rp_delegate r)" using modulus_served [of q "rp_delegate r"] u by simp
  then obtain r' ms where "serve_all (serve_recording sha256) qs ?r = (r', Inr ms)" using Cons.IH [of ?r] Cons.prems by auto
  moreover have "serve_recording sha256 q r = (?r, Inr m)" by (simp add: serve_recording_eq u)
  ultimately show ?case by simp
qed simp

lemma demo_recorded:
  obtains r ms where "serve_all (serve_recording (\<lambda>_. 7)) demo_requests (RecordingPreprocessor_init (demo_pre (\<lambda>i. int i mod 13))) = (r, Inr ms)"
proof -
  have "list_all (request_ok 13) demo_requests" by (simp add: demo_requests_def width_or_def bit_length_13)
  then show thesis
    using recording_succeeds [of "RecordingPreprocessor_init (demo_pre (\<lambda>i. int i mod 13))" demo_requests "\<lambda>_. 7"] that
    by (auto simp: RecordingPreprocessor_init_def demo_pre_def)
qed

lemma recorded_program_replays_witness:
  "\<exists>(r :: RecordingPreprocessor) t' ms' v v'. serve_all serve_directly demo_requests (demo_pre (\<lambda>i. 2)) = (t', Inr ms') \<and> inventory_generate (rp_plan r) (demo_pre (\<lambda>i. 2)) = (t', Inr v)
     \<and> serve_all (serve_prepared (\<lambda>_. 7)) demo_requests v = (v', Inr ms') \<and> inventory_consumed v' = 4"
proof -
  obtain r ms where "serve_all (serve_recording (\<lambda>_. 7)) demo_requests (RecordingPreprocessor_init (demo_pre (\<lambda>i. int i mod 13))) = (r, Inr ms)"
    by (rule demo_recorded)
  moreover have "tp_modulus (demo_pre (\<lambda>i. 2)) = tp_modulus (demo_pre (\<lambda>i. int i mod 13))" by (simp add: demo_pre_def)
  ultimately obtain t' ms' v v' where "serve_all serve_directly demo_requests (demo_pre (\<lambda>i. 2)) = (t', Inr ms')"
      "inventory_generate (rp_plan r) (demo_pre (\<lambda>i. 2)) = (t', Inr v)" "serve_all (serve_prepared (\<lambda>_. 7)) demo_requests v = (v', Inr ms')"
      "inventory_consumed v' = length demo_requests"
    using recorded_program_replays by blast
  moreover have "length demo_requests = 4" by (simp add: demo_requests_def)
  ultimately show ?thesis by (intro exI [of _ r] exI [of _ t'] exI [of _ ms'] exI [of _ v] exI [of _ v'] conjI) simp_all
qed

definition demo_inventory :: PreparedInventory where
  "demo_inventory = \<lparr>pv_generator = demo_pre (\<lambda>i. 2), pv_entries =
     [\<lparr>pr_plan = plan_entry ''input_mask'' [2], pr_material = Input_Material (snd (pre_input_mask (demo_pre (\<lambda>i. 2)) [2]))\<rparr>,
      \<lparr>pr_plan = plan_entry ''multiplication_triple'' [2], pr_material = Triple_Material (snd (pre_multiplication_triple (demo_pre (\<lambda>i. 2)) [2]))\<rparr>],
     pv_position = 0\<rparr>"

definition demo_answers :: "PreparedInventory \<times> (material_request \<times> material res) list" where
  "demo_answers = answers (serve_prepared (\<lambda>_. 7)) [Ask_Input [3], Ask_Input [2], Ask_Input [2], Ask_Triple [2], Ask_Triple [2]] demo_inventory"

lemma demo_answered: "pv_position demo_inventory = 0" "length (pv_entries demo_inventory) = 2" "length (taken (snd demo_answers)) = 2"
  by (simp_all add: demo_answers_def demo_inventory_def plan_entry_def inv_input_mask_def inv_multiplication_triple_def inventory_take_def raiseS_def)

lemma inventory_single_use_witness:
  "pv_position (fst demo_answers) = 2 \<and> map snd (taken (snd demo_answers)) = map pr_material (pv_entries demo_inventory)"
proof -
  have "answers (serve_prepared (\<lambda>_. 7)) [Ask_Input [3], Ask_Input [2], Ask_Input [2], Ask_Triple [2], Ask_Triple [2]] demo_inventory
      = (fst demo_answers, snd demo_answers)" by (simp only: demo_answers_def prod.collapse)
  from inventory_single_use [OF this] show ?thesis using demo_answered by simp
qed

end
