(* ===== verification/Preparation_Window.thy ===== *)
theory Preparation_Window
  imports Prelude
begin

text \<open>
  The bounded window of offline preparation (\<^verbatim>\<open>runtime/preparation_window.py\<close>): its admission arithmetic, the serial loop, and the concurrent loop with
  its pool of workers as a step relation. Jobs are named by the index of their item. What the callbacks return and raise, when the caller cancels, and when
  workers run is not determined.
\<close>

section \<open>Admission\<close>

definition WINDOW_BYTES :: int where
  "WINDOW_BYTES = 16 * 2 ^ 20"

definition preparation_job_work_bytes :: "int \<Rightarrow> int \<Rightarrow> int \<Rightarrow> int \<Rightarrow> int option \<Rightarrow> int res" where
  "preparation_job_work_bytes rows in_features out_features verification_checks verification_rows =
     (let verification_rows = (case verification_rows of None \<Rightarrow> rows | Some n \<Rightarrow> n) in
      raise_if (list_ex (\<lambda>v. v \<le> 0) [rows, in_features, out_features, verification_rows] \<or> verification_checks < 0)
        (ValueError ''invalid preparation work geometry'')
        (Inr (4096 + rows * (16 * in_features + 24 * out_features) + verification_rows * verification_checks * in_features * 16)))"

definition validate_preparation_window :: "int \<Rightarrow> int \<Rightarrow> int list \<Rightarrow> unit res" where
  "validate_preparation_window width max_bytes job_bytes =
     raise_if (\<not> (1 \<le> width \<and> width \<le> 4)) (ValueError ''preparation window must be in [1, 4]'')
    (raise_if (\<not> (2 ^ 20 \<le> max_bytes \<and> max_bytes \<le> 64 * 2 ^ 20) \<or> width = 1 \<and> max_bytes \<noteq> WINDOW_BYTES)
       (ValueError ''preparation work window requires 1-64 MiB and concurrent stages'')
    (raise_if (width > 1 \<and> list_ex (\<lambda>size. \<not> (0 < size \<and> size \<le> max_bytes)) job_bytes)
       (ValueError ''preparation job exceeds the declared work window'') (Inr ())))"

section \<open>The serial loop\<close>

text \<open>
  What the callbacks do: \<open>cancelled\<close> at its n-th poll (it answers or raises), \<open>prepare\<close> and \<open>accept\<close> for an item and a value, \<open>abort\<close>, and \<open>discard\<close>; \<open>None\<close> stands for returning.
\<close>

record ('i, 'v) callbacks =
  cb_cancelled :: "nat \<Rightarrow> bool res"
  cb_prepare :: "'i \<Rightarrow> 'v res"
  cb_accept :: "'v \<Rightarrow> py_error option"
  cb_abort :: "py_error option"
  cb_discard :: "'v \<Rightarrow> py_error option"

record 'v serial_log =
  sl_accepted :: "'v list"
  sl_discarded :: "'v list"
  sl_aborts :: nat

text \<open>The handler: \<^verbatim>\<open>abort\<close>, and in any case \<^verbatim>\<open>discard\<close> for a value that is held; the last exception leaves.\<close>

definition serial_failed :: "('i, 'v) callbacks \<Rightarrow> 'v option \<Rightarrow> py_error \<Rightarrow> 'v serial_log \<Rightarrow> 'v serial_log \<times> unit res" where
  "serial_failed cb held e log =
     (let e = (case cb_abort cb of None \<Rightarrow> e | Some a \<Rightarrow> a); log = log\<lparr>sl_aborts := sl_aborts log + 1\<rparr> in
      case held of
        None \<Rightarrow> (log, Inl e)
      | Some v \<Rightarrow> (log\<lparr>sl_discarded := sl_discarded log @ [v]\<rparr>, Inl (case cb_discard cb v of None \<Rightarrow> e | Some d \<Rightarrow> d)))"

text \<open>A poll of \<^verbatim>\<open>cancelled\<close>: the exception of the callback itself, or that of the loop when it answers true.\<close>

definition poll :: "('i, 'v) callbacks \<Rightarrow> nat \<Rightarrow> string \<Rightarrow> py_error option" where
  "poll cb k msg = (case cb_cancelled cb k of Inl e \<Rightarrow> Some e | Inr c \<Rightarrow> if c then Some (RuntimeError msg) else None)"

fun run_serial :: "('i, 'v) callbacks \<Rightarrow> nat \<Rightarrow> 'i list \<Rightarrow> 'v serial_log \<Rightarrow> 'v serial_log \<times> unit res" where
  "run_serial cb k [] log = (log, Inr ())"
| "run_serial cb k (i # items) log =
     (case poll cb k ''preparation cancelled before issuance'' of Some e \<Rightarrow> serial_failed cb None e log | None \<Rightarrow>
      case cb_prepare cb i of
        Inl e \<Rightarrow> serial_failed cb None e log
      | Inr v \<Rightarrow>
          case poll cb (k + 1) ''preparation cancelled before acknowledgement admission'' of Some e \<Rightarrow> serial_failed cb (Some v) e log | None \<Rightarrow>
          case cb_accept cb v of
            Some e \<Rightarrow> serial_failed cb (Some v) e log
          | None \<Rightarrow> run_serial cb (k + 2) items (log\<lparr>sl_accepted := sl_accepted log @ [v]\<rparr>))"

text \<open>The serial loop: when it returns, every item was prepared and its value accepted, in order; when it raises, it aborted once, accepted the values before the
  item at which it stopped, and discarded the value of that item if it had one.\<close>

lemma serial_settles:
  assumes "run_serial cb k items log = (log', r)"
  shows "case r of
     Inr _ \<Rightarrow> (\<exists>vs. map (cb_prepare cb) items = map Inr vs \<and> log' = log\<lparr>sl_accepted := sl_accepted log @ vs\<rparr>)
   | Inl _ \<Rightarrow> (\<exists>n vs. n < length items \<and> map (cb_prepare cb) (take n items) = map Inr vs \<and> sl_accepted log' = sl_accepted log @ vs
       \<and> sl_aborts log' = sl_aborts log + 1 \<and> (sl_discarded log' = sl_discarded log
          \<or> (\<exists>v. cb_prepare cb (items ! n) = Inr v \<and> sl_discarded log' = sl_discarded log @ [v])))"
  using assms
proof (induction cb k items log rule: run_serial.induct)
  case (2 cb k i items log)
  have stop: "case r of
     Inr _ \<Rightarrow> (\<exists>vs. map (cb_prepare cb) (i # items) = map Inr vs \<and> log' = log\<lparr>sl_accepted := sl_accepted log @ vs\<rparr>)
   | Inl _ \<Rightarrow> (\<exists>n vs. n < length (i # items) \<and> map (cb_prepare cb) (take n (i # items)) = map Inr vs \<and> sl_accepted log' = sl_accepted log @ vs
       \<and> sl_aborts log' = sl_aborts log + 1 \<and> (sl_discarded log' = sl_discarded log
          \<or> (\<exists>v. cb_prepare cb ((i # items) ! n) = Inr v \<and> sl_discarded log' = sl_discarded log @ [v])))"
    if "serial_failed cb held e log = (log', r)" "held \<noteq> None \<Longrightarrow> cb_prepare cb i = Inr (the held)" for held e
    using that by (cases held) (auto simp: serial_failed_def Let_def intro!: exI [of _ 0])
  show ?case
  proof (cases "\<exists>held e. serial_failed cb held e log = (log', r) \<and> (held \<noteq> None \<longrightarrow> cb_prepare cb i = Inr (the held))")
    case True
    then show ?thesis using stop by blast
  next
    case False
    then obtain v where c: "poll cb k ''preparation cancelled before issuance'' = None" "cb_prepare cb i = Inr v"
          "poll cb (k + 1) ''preparation cancelled before acknowledgement admission'' = None" "cb_accept cb v = None"
        and rest: "run_serial cb (k + 2) items (log\<lparr>sl_accepted := sl_accepted log @ [v]\<rparr>) = (log', r)"
      using 2(2) by (auto split: sum.splits option.splits)
    show ?thesis
    proof (cases r)
      case (Inr u)
      then obtain vs where "map (cb_prepare cb) items = map Inr vs" "log' = log\<lparr>sl_accepted := (sl_accepted log @ [v]) @ vs\<rparr>"
        using 2(1) [OF c(1,2,3,4) rest] by auto
      then show ?thesis using Inr c(2) by (auto intro!: exI [of _ "v # vs"])
    next
      case (Inl e)
      then obtain n vs where "n < length items" "map (cb_prepare cb) (take n items) = map Inr vs" "sl_accepted log' = (sl_accepted log @ [v]) @ vs"
          "sl_aborts log' = sl_aborts log + 1" "sl_discarded log' = sl_discarded log
          \<or> (\<exists>v. cb_prepare cb (items ! n) = Inr v \<and> sl_discarded log' = sl_discarded log @ [v])"
        using 2(1) [OF c(1,2,3,4) rest] by auto
      then show ?thesis using Inl c(2) by (auto intro!: exI [of _ "Suc n"] exI [of _ "v # vs"])
    qed
  qed
qed auto

section \<open>The concurrent loop\<close>

datatype 'v job = Unsubmitted | Queued | Running | Ended "'v res" | Withdrawn

text \<open>
  Where the calling thread is, with what is left of the loop it is in and the exception it handles. Besides the variables of the code, the state records
  which discard raised and with what (\<open>wn_discard_error\<close>), and whether \<^verbatim>\<open>pool.submit\<close> raised although it had queued the item at \<open>wn_next\<close>
  (\<open>wn_orphan\<close>): the executor queues a job before it starts a thread, so when no thread can be started the job is queued but not in \<^verbatim>\<open>pending\<close>.
\<close>

datatype wphase =
    Top
  | Filling
  | Waiting
  | Accepting "nat list"
  | Finished
  | Cancelling py_error "nat list"
  | Joining py_error
  | Discarding py_error "nat list"
  | Stopped py_error "nat list"

record 'v window =
  wn_phase :: wphase
  wn_pending :: "nat list"
  wn_job :: "nat \<Rightarrow> 'v job"
  wn_next :: nat
  wn_retained :: int
  wn_accepted :: "(nat \<times> 'v) list"
  wn_discarded :: "(nat \<times> 'v) list"
  wn_aborts :: nat
  wn_discard_error :: "(nat \<times> py_error) option"
  wn_orphan :: bool

definition window_start :: "'v window" where
  "window_start = \<lparr>wn_phase = Top, wn_pending = [], wn_job = (\<lambda>_. Unsubmitted), wn_next = 0, wn_retained = 0, wn_accepted = [], wn_discarded = [], wn_aborts = 0,
     wn_discard_error = None, wn_orphan = False\<rparr>"

definition may_submit :: "int list \<Rightarrow> nat \<Rightarrow> int \<Rightarrow> 'v window \<Rightarrow> bool" where
  "may_submit sizes width max_bytes s \<longleftrightarrow>
     length (wn_pending s) < width \<and> wn_next s < length sizes \<and> wn_retained s + sizes ! wn_next s \<le> max_bytes"

definition work_left :: "int list \<Rightarrow> 'v window \<Rightarrow> bool" where
  "work_left sizes s \<longleftrightarrow> wn_pending s \<noteq> [] \<or> wn_next s < length sizes"

definition submit :: "int list \<Rightarrow> 'v window \<Rightarrow> 'v window" where
  "submit sizes s = s\<lparr>wn_pending := wn_pending s @ [wn_next s], wn_job := (wn_job s)(wn_next s := Queued),
     wn_retained := wn_retained s + sizes ! wn_next s, wn_next := wn_next s + 1\<rparr>"

definition orphan :: "py_error \<Rightarrow> 'v window \<Rightarrow> 'v window" where
  "orphan e s = s\<lparr>wn_orphan := True, wn_job := (wn_job s)(wn_next s := Queued), wn_phase := Cancelling e (wn_pending s)\<rparr>"

definition orphans :: "'v window \<Rightarrow> nat list" where
  "orphans s = (if wn_orphan s then [wn_next s] else [])"

definition admit_value :: "int list \<Rightarrow> nat \<Rightarrow> 'v \<Rightarrow> 'v window \<Rightarrow> 'v window" where
  "admit_value sizes i v s = s\<lparr>wn_accepted := wn_accepted s @ [(i, v)], wn_retained := wn_retained s - sizes ! i, wn_pending := remove1 i (wn_pending s)\<rparr>"

definition withdraw :: "'v job \<Rightarrow> 'v job" where
  "withdraw j = (case j of Queued \<Rightarrow> Withdrawn | _ \<Rightarrow> j)"

text \<open>
  \<^verbatim>\<open>future.cancel()\<close> has an effect on jobs that no worker has started; after it \<^verbatim>\<open>cancel_futures\<close> finds at most the one that \<^verbatim>\<open>submit\<close> left behind
  (\<open>drops_orphan\<close>). \<open>wait\<close> returns some of the jobs that have ended. Every call of the loop may raise: \<^verbatim>\<open>cancelled\<close> (\<open>poll_raises\<close>, and
  \<open>late_raises\<close> with \<^verbatim>\<open>accept\<close>), \<^verbatim>\<open>pool.submit\<close> before (\<open>submit_raises\<close>) or after it has queued the job (\<open>submit_orphans\<close>), \<^verbatim>\<open>future.result\<close>
  (\<open>job_failed\<close>), \<^verbatim>\<open>abort\<close> and \<^verbatim>\<open>discard\<close>. Interrupts that arrive between two calls are not modelled.
\<close>

inductive window_step :: "int list \<Rightarrow> nat \<Rightarrow> int \<Rightarrow> 'v window \<Rightarrow> 'v window \<Rightarrow> bool" for sizes width max_bytes where
  worker_starts: "wn_job s i = Queued \<Longrightarrow> window_step sizes width max_bytes s (s\<lparr>wn_job := (wn_job s)(i := Running)\<rparr>)"
| worker_ends: "wn_job s i = Running \<Longrightarrow> window_step sizes width max_bytes s (s\<lparr>wn_job := (wn_job s)(i := Ended r)\<rparr>)"
| finish: "wn_phase s = Top \<Longrightarrow> \<not> work_left sizes s \<Longrightarrow> window_step sizes width max_bytes s (s\<lparr>wn_phase := Finished\<rparr>)"
| fill: "wn_phase s = Top \<Longrightarrow> work_left sizes s \<Longrightarrow> window_step sizes width max_bytes s (s\<lparr>wn_phase := Filling\<rparr>)"
| cancelled: "wn_phase s = Top \<Longrightarrow> work_left sizes s \<Longrightarrow> window_step sizes width max_bytes s
     (s\<lparr>wn_phase := Cancelling (RuntimeError ''preparation cancelled during issuance'') (wn_pending s)\<rparr>)"
| poll_raises: "wn_phase s = Top \<Longrightarrow> work_left sizes s \<Longrightarrow> window_step sizes width max_bytes s (s\<lparr>wn_phase := Cancelling e (wn_pending s)\<rparr>)"
| submits: "wn_phase s = Filling \<Longrightarrow> may_submit sizes width max_bytes s \<Longrightarrow> window_step sizes width max_bytes s (submit sizes s)"
| submit_raises: "wn_phase s = Filling \<Longrightarrow> may_submit sizes width max_bytes s \<Longrightarrow> window_step sizes width max_bytes s (s\<lparr>wn_phase := Cancelling e (wn_pending s)\<rparr>)"
| submit_orphans: "wn_phase s = Filling \<Longrightarrow> may_submit sizes width max_bytes s \<Longrightarrow> window_step sizes width max_bytes s (orphan e s)"
| filled: "wn_phase s = Filling \<Longrightarrow> \<not> may_submit sizes width max_bytes s \<Longrightarrow> window_step sizes width max_bytes s (s\<lparr>wn_phase := Waiting\<rparr>)"
| ready: "wn_phase s = Waiting \<Longrightarrow> distinct is \<Longrightarrow> list_all (\<lambda>i. i \<in> set (wn_pending s) \<and> (\<exists>r. wn_job s i = Ended r)) is
     \<Longrightarrow> window_step sizes width max_bytes s (s\<lparr>wn_phase := Accepting is\<rparr>)"
| again: "wn_phase s = Accepting [] \<Longrightarrow> window_step sizes width max_bytes s (s\<lparr>wn_phase := Top\<rparr>)"
| accepts: "wn_phase s = Accepting (i # is) \<Longrightarrow> wn_job s i = Ended (Inr v)
     \<Longrightarrow> window_step sizes width max_bytes s ((admit_value sizes i v s)\<lparr>wn_phase := Accepting is\<rparr>)"
| job_failed: "wn_phase s = Accepting (i # is) \<Longrightarrow> wn_job s i = Ended (Inl e)
     \<Longrightarrow> window_step sizes width max_bytes s (s\<lparr>wn_phase := Cancelling e (wn_pending s)\<rparr>)"
| cancelled_late: "wn_phase s = Accepting (i # is) \<Longrightarrow> wn_job s i = Ended (Inr v) \<Longrightarrow> window_step sizes width max_bytes s
     (s\<lparr>wn_phase := Cancelling (RuntimeError ''preparation cancelled before acknowledgement admission'') (wn_pending s)\<rparr>)"
| late_raises: "wn_phase s = Accepting (i # is) \<Longrightarrow> wn_job s i = Ended (Inr v)
     \<Longrightarrow> window_step sizes width max_bytes s (s\<lparr>wn_phase := Cancelling e (wn_pending s)\<rparr>)"
| withdraws: "wn_phase s = Cancelling e (i # is)
     \<Longrightarrow> window_step sizes width max_bytes s (s\<lparr>wn_job := (wn_job s)(i := withdraw (wn_job s i)), wn_phase := Cancelling e is\<rparr>)"
| aborts: "wn_phase s = Cancelling e [] \<Longrightarrow> window_step sizes width max_bytes s (s\<lparr>wn_aborts := wn_aborts s + 1, wn_phase := Joining e\<rparr>)"
| abort_raises: "wn_phase s = Cancelling e [] \<Longrightarrow> window_step sizes width max_bytes s (s\<lparr>wn_aborts := wn_aborts s + 1, wn_phase := Joining e'\<rparr>)"
| drops_orphan: "wn_phase s = Joining e \<Longrightarrow> wn_job s (wn_next s) = Queued
     \<Longrightarrow> window_step sizes width max_bytes s (s\<lparr>wn_job := (wn_job s)(wn_next s := Withdrawn)\<rparr>)"
| joined: "wn_phase s = Joining e \<Longrightarrow> list_all (\<lambda>i. wn_job s i \<noteq> Queued \<and> wn_job s i \<noteq> Running) (wn_pending s @ orphans s)
     \<Longrightarrow> window_step sizes width max_bytes s (s\<lparr>wn_phase := Discarding e (wn_pending s)\<rparr>)"
| nothing_to_discard: "wn_phase s = Discarding e (i # is) \<Longrightarrow> wn_job s i = Withdrawn \<or> (\<exists>f. wn_job s i = Ended (Inl f))
     \<Longrightarrow> window_step sizes width max_bytes s (s\<lparr>wn_phase := Discarding e is\<rparr>)"
| discards: "wn_phase s = Discarding e (i # is) \<Longrightarrow> wn_job s i = Ended (Inr v)
     \<Longrightarrow> window_step sizes width max_bytes s (s\<lparr>wn_discarded := wn_discarded s @ [(i, v)], wn_phase := Discarding e is\<rparr>)"
| discard_raises: "wn_phase s = Discarding e (i # is) \<Longrightarrow> wn_job s i = Ended (Inr v) \<Longrightarrow> window_step sizes width max_bytes s 
     (s\<lparr>wn_discard_error := Some (i, e'), wn_phase := Stopped e' (i # is)\<rparr>)"
| raises: "wn_phase s = Discarding e [] \<Longrightarrow> window_step sizes width max_bytes s (s\<lparr>wn_phase := Stopped e []\<rparr>)"

inductive window_reach :: "int list \<Rightarrow> nat \<Rightarrow> int \<Rightarrow> 'v window \<Rightarrow> bool" for sizes width max_bytes where
  start: "window_reach sizes width max_bytes window_start"
| step: "window_reach sizes width max_bytes s \<Longrightarrow> window_step sizes width max_bytes s t \<Longrightarrow> window_reach sizes width max_bytes t"


section \<open>The invariant\<close>

definition produced :: "'v window \<Rightarrow> nat list \<Rightarrow> (nat \<times> 'v) list" where
  "produced s is = concat (map (\<lambda>i. case wn_job s i of Ended (Inr v) \<Rightarrow> [(i, v)] | _ \<Rightarrow> []) is)"

lemma produced_append [simp]: "produced s (xs @ ys) = produced s xs @ produced s ys"
  by (simp add: produced_def)

lemma produced_simps [simp]: "produced s [] = []" "wn_job s i = Ended (Inr v) \<Longrightarrow> produced s [i] = [(i, v)]"
  "wn_job s i = Withdrawn \<Longrightarrow> produced s [i] = []" "wn_job s i = Ended (Inl e) \<Longrightarrow> produced s [i] = []"
  by (simp_all add: produced_def)

lemma produced_job [simp]: "produced (s\<lparr>wn_phase := p\<rparr>) js = produced s js" "produced (s\<lparr>wn_discarded := d\<rparr>) js = produced s js"
  "produced (s\<lparr>wn_discard_error := x\<rparr>) js = produced s js"
  by (simp_all add: produced_def)

definition clean :: "'v window \<Rightarrow> bool" where
  "clean s \<longleftrightarrow> wn_discarded s = [] \<and> wn_aborts s = 0 \<and> wn_discard_error s = None"

definition running :: "'v window \<Rightarrow> bool" where
  "running s \<longleftrightarrow> clean s \<and> \<not> wn_orphan s"

definition settled :: "'v window \<Rightarrow> bool" where
  "settled s \<longleftrightarrow> wn_aborts s = 1 \<and> (\<forall>i \<in> set (wn_pending s). wn_job s i \<noteq> Queued \<and> wn_job s i \<noteq> Running)
     \<and> (wn_orphan s \<longrightarrow> wn_job s (wn_next s) \<noteq> Queued \<and> wn_job s (wn_next s) \<noteq> Running)"

definition phase_good :: "int list \<Rightarrow> 'v window \<Rightarrow> bool" where
  "phase_good sizes s = (case wn_phase s of
     Top \<Rightarrow> running s
   | Filling \<Rightarrow> running s \<and> work_left sizes s
   | Waiting \<Rightarrow> running s \<and> wn_pending s \<noteq> []
   | Accepting is \<Rightarrow> running s \<and> distinct is \<and> set is \<subseteq> set (wn_pending s) \<and> (\<forall>i \<in> set is. \<exists>r. wn_job s i = Ended r)
   | Finished \<Rightarrow> running s \<and> \<not> work_left sizes s
   | Cancelling e is \<Rightarrow> clean s \<and> (\<exists>ds. wn_pending s = ds @ is \<and> (\<forall>i \<in> set ds. wn_job s i \<noteq> Queued))
   | Joining e \<Rightarrow> wn_discarded s = [] \<and> wn_aborts s = 1 \<and> wn_discard_error s = None \<and> (\<forall>i \<in> set (wn_pending s). wn_job s i \<noteq> Queued)
   | Discarding e is \<Rightarrow> settled s \<and> wn_discard_error s = None \<and> (\<exists>ds. wn_pending s = ds @ is \<and> wn_discarded s = produced s ds)
   | Stopped e is \<Rightarrow> settled s \<and> wn_discard_error s = (case is of [] \<Rightarrow> None | i # _ \<Rightarrow> Some (i, e)) \<and> (\<exists>ds. wn_pending s = ds @ is \<and> wn_discarded s = produced s ds))"

definition jobs_good :: "'v window \<Rightarrow> bool" where
  "jobs_good s \<longleftrightarrow> (\<forall>i. i < wn_next s \<or> wn_orphan s \<and> i = wn_next s \<longleftrightarrow> wn_job s i \<noteq> Unsubmitted) \<and> (\<forall>(i, v) \<in> set (wn_accepted s). wn_job s i = Ended (Inr v))"

definition sets_good :: "int list \<Rightarrow> nat \<Rightarrow> int \<Rightarrow> 'v window \<Rightarrow> bool" where
  "sets_good sizes width max_bytes s \<longleftrightarrow> distinct (wn_pending s) \<and> length (wn_pending s) \<le> width \<and> wn_next s \<le> length sizes
     \<and> wn_retained s = sum_list (map ((!) sizes) (wn_pending s)) \<and> wn_retained s \<le> max_bytes
     \<and> distinct (map fst (wn_accepted s)) \<and> set (wn_pending s) \<inter> fst ` set (wn_accepted s) = {}
     \<and> set (wn_pending s) \<union> fst ` set (wn_accepted s) = {..<wn_next s}"

definition window_good :: "int list \<Rightarrow> nat \<Rightarrow> int \<Rightarrow> 'v window \<Rightarrow> bool" where
  "window_good sizes width max_bytes s \<longleftrightarrow> sets_good sizes width max_bytes s \<and> jobs_good s \<and> phase_good sizes s"

definition sizes_ok :: "int list \<Rightarrow> nat \<Rightarrow> int \<Rightarrow> bool" where
  "sizes_ok sizes width max_bytes \<longleftrightarrow> validate_preparation_window (int width) max_bytes sizes = Inr () \<and> 1 < width"

lemma sizes_okD: "sizes_ok sizes width max_bytes \<Longrightarrow> 1 < width \<and> width \<le> 4 \<and> 0 < max_bytes \<and> (\<forall>s \<in> set sizes. 0 < s \<and> s \<le> max_bytes)"
  by (auto simp: sizes_ok_def validate_preparation_window_def raise_if_def list_ex_iff split: if_splits)

lemma start_good: "sizes_ok sizes width max_bytes \<Longrightarrow> window_good sizes width max_bytes window_start"
  by (auto simp: window_good_def sets_good_def jobs_good_def phase_good_def running_def clean_def window_start_def dest: sizes_okD)

lemma work_left_phase [simp]: "work_left sizes (s\<lparr>wn_phase := p\<rparr>) = work_left sizes s"
  by (simp add: work_left_def)

text \<open>A step that only moves the calling thread.\<close>

lemma good_phase: "window_good sizes width max_bytes s \<Longrightarrow> phase_good sizes (s\<lparr>wn_phase := p\<rparr>) \<Longrightarrow> window_good sizes width max_bytes (s\<lparr>wn_phase := p\<rparr>)"
  by (simp add: window_good_def sets_good_def jobs_good_def)

text \<open>A worker's step: a pending job that was queued or running.\<close>

lemma good_worker:
  assumes g: "window_good sizes width max_bytes s" and i: "wn_job s i = Queued \<or> wn_job s i = Running" and j: "j \<noteq> Queued" "j \<noteq> Unsubmitted"
    and q: "wn_job s i = Queued \<longrightarrow> j = Running \<or> j = Withdrawn"
  shows "window_good sizes width max_bytes (s\<lparr>wn_job := (wn_job s)(i := j)\<rparr>)"
proof -
  let ?t = "s\<lparr>wn_job := (wn_job s)(i := j)\<rparr>"
  have jg: "jobs_good s" and sg: "sets_good sizes width max_bytes s" and pg: "phase_good sizes s" using g by (simp_all add: window_good_def)
  have acc: "i \<notin> fst ` set (wn_accepted s)"
  proof
    assume "i \<in> fst ` set (wn_accepted s)"
    then obtain v where "(i, v) \<in> set (wn_accepted s)" by auto
    then have "wn_job s i = Ended (Inr v)" using jg by (auto simp: jobs_good_def)
    then show False using i by simp
  qed
  have live: "i < wn_next s \<or> wn_orphan s \<and> i = wn_next s" using jg i by (auto simp: jobs_good_def)
  then have pend: "wn_orphan s \<or> i \<in> set (wn_pending s)" using sg acc by (auto simp: sets_good_def)
  have "jobs_good ?t" using jg j(2) acc live by (fastforce simp: jobs_good_def image_iff)
  moreover have "sets_good sizes width max_bytes ?t" using sg by (simp add: sets_good_def)
  moreover have "phase_good sizes ?t"
  proof (cases "wn_phase s")
    case (Cancelling e js)
    then obtain ds where "wn_pending s = ds @ js" "\<forall>i \<in> set ds. wn_job s i \<noteq> Queued" using pg by (auto simp: phase_good_def)
    then show ?thesis using Cancelling pg j(1) by (auto simp: phase_good_def clean_def)
  next
    case (Accepting js)
    then have "i \<notin> set js" using pg i by (auto simp: phase_good_def)
    then show ?thesis using Accepting pg by (auto simp: phase_good_def running_def clean_def)
  next
    case (Discarding e js)
    then have "settled s" using pg by (simp add: phase_good_def)
    then have False using i acc sg live by (auto simp: settled_def sets_good_def)
    then show ?thesis ..
  next
    case (Stopped e js)
    then have "settled s" using pg by (simp add: phase_good_def)
    then have False using i acc sg live by (auto simp: settled_def sets_good_def)
    then show ?thesis ..
  qed (use pg pend i j(1) in \<open>auto simp: phase_good_def running_def clean_def work_left_def\<close>)
  ultimately show ?thesis by (simp add: window_good_def)
qed


lemma good_submit:
  assumes g: "window_good sizes width max_bytes s" and p: "wn_phase s = Filling" and m: "may_submit sizes width max_bytes s"
  shows "window_good sizes width max_bytes (submit sizes s)"
proof -
  let ?t = "submit sizes s" and ?n = "wn_next s"
  have jg: "jobs_good s" and sg: "sets_good sizes width max_bytes s" and pg: "phase_good sizes s" using g by (simp_all add: window_good_def)
  have fresh: "?n \<notin> set (wn_pending s)" "?n \<notin> fst ` set (wn_accepted s)" using sg by (auto simp: sets_good_def)
  have sets: "sets_good sizes width max_bytes ?t" using sg m fresh by (auto simp: sets_good_def submit_def may_submit_def)
  have no: "\<not> wn_orphan s" using pg p by (simp add: phase_good_def running_def)
  have job: "(j < wn_next s) = (wn_job s j \<noteq> Unsubmitted)" for j using jg no by (simp add: jobs_good_def)
  have "jobs_good ?t" using jg fresh no job by (fastforce simp: jobs_good_def submit_def less_Suc_eq image_iff)
  moreover have "phase_good sizes ?t" using pg p by (simp add: phase_good_def submit_def running_def clean_def work_left_def)
  ultimately show ?thesis using sets by (simp add: window_good_def)
qed

lemma good_orphan:
  assumes g: "window_good sizes width max_bytes s" and p: "wn_phase s = Filling"
  shows "window_good sizes width max_bytes (orphan e s)"
proof -
  let ?t = "orphan e s" and ?n = "wn_next s"
  have jg: "jobs_good s" and sg: "sets_good sizes width max_bytes s" and pg: "phase_good sizes s" using g by (simp_all add: window_good_def)
  have fresh: "?n \<notin> fst ` set (wn_accepted s)" using sg by (auto simp: sets_good_def)
  have sets: "sets_good sizes width max_bytes ?t" using sg by (simp add: sets_good_def orphan_def)
  have no: "\<not> wn_orphan s" "clean s" using pg p by (simp_all add: phase_good_def running_def)
  have job: "(j < wn_next s) = (wn_job s j \<noteq> Unsubmitted)" for j using jg no by (simp add: jobs_good_def)
  have "jobs_good ?t" using jg fresh job by (fastforce simp: jobs_good_def orphan_def image_iff)
  moreover have "phase_good sizes ?t" using no by (simp add: phase_good_def orphan_def clean_def)
  ultimately show ?thesis using sets by (simp add: window_good_def)
qed

lemma good_admit:
  assumes g: "window_good sizes width max_bytes s" and p: "wn_phase s = Accepting (i # js)" and j: "wn_job s i = Ended (Inr v)" and z: "sizes_ok sizes width max_bytes"
  shows "window_good sizes width max_bytes ((admit_value sizes i v s)\<lparr>wn_phase := Accepting js\<rparr>)"
proof -
  let ?t = "(admit_value sizes i v s)\<lparr>wn_phase := Accepting js\<rparr>"
  have jg: "jobs_good s" and sg: "sets_good sizes width max_bytes s" and pg: "phase_good sizes s" using g by (simp_all add: window_good_def)
  have i: "i \<in> set (wn_pending s)" "i \<notin> set js" "distinct js" "set js \<subseteq> set (wn_pending s)" "\<forall>i \<in> set js. \<exists>r. wn_job s i = Ended r" "running s"
    using pg p by (auto simp: phase_good_def)
  have sum: "sum_list (map ((!) sizes) (wn_pending s)) = sizes ! i + sum_list (map ((!) sizes) (remove1 i (wn_pending s)))"
    using i(1) by (rule sum_list_map_remove1)
  have "i < wn_next s" "wn_next s \<le> length sizes" using sg i(1) unfolding sets_good_def by blast+
  then have "i < length sizes" by simp
  then have pos: "0 < sizes ! i" using sizes_okD [OF z] nth_mem by blast
  have "sets_good sizes width max_bytes ?t"
    using sg i(1) sum pos by (auto simp: sets_good_def admit_value_def length_remove1)
  moreover have "jobs_good ?t" using jg j by (auto simp: jobs_good_def admit_value_def)
  moreover have "phase_good sizes ?t" using i sg by (auto simp: phase_good_def admit_value_def running_def clean_def sets_good_def)
  ultimately show ?thesis by (simp add: window_good_def)
qed

lemma good_withdraw:
  assumes g: "window_good sizes width max_bytes s" and p: "wn_phase s = Cancelling e (i # js)"
  shows "window_good sizes width max_bytes (s\<lparr>wn_job := (wn_job s)(i := withdraw (wn_job s i)), wn_phase := Cancelling e js\<rparr>)"
proof -
  let ?t = "s\<lparr>wn_job := (wn_job s)(i := withdraw (wn_job s i))\<rparr>"
  have t: "window_good sizes width max_bytes ?t"
  proof (cases "wn_job s i = Queued")
    case True
    then show ?thesis using good_worker [OF g, of i Withdrawn] by (simp add: withdraw_def)
  next
    case False
    then have "withdraw (wn_job s i) = wn_job s i" by (cases "wn_job s i") (simp_all add: withdraw_def)
    then show ?thesis using g by simp
  qed
  have "wn_job ?t i \<noteq> Queued" by (cases "wn_job s i") (simp_all add: withdraw_def)
  then have "phase_good sizes (?t\<lparr>wn_phase := Cancelling e js\<rparr>)"
    using t p by (fastforce simp: window_good_def phase_good_def clean_def)
  then have "window_good sizes width max_bytes (?t\<lparr>wn_phase := Cancelling e js\<rparr>)" by (rule good_phase [OF t])
  then show ?thesis by simp
qed

lemma filled_pending:
  assumes g: "window_good sizes width max_bytes s" and p: "wn_phase s = Filling" and m: "\<not> may_submit sizes width max_bytes s" and z: "sizes_ok sizes width max_bytes"
  shows "wn_pending s \<noteq> []"
proof
  assume e: "wn_pending s = []"
  then have n: "wn_next s < length sizes" "wn_retained s = 0" using g p by (simp_all add: window_good_def phase_good_def work_left_def sets_good_def)
  then have "sizes ! wn_next s \<le> max_bytes" using sizes_okD [OF z] by simp
  then show False using m e n sizes_okD [OF z] by (simp add: may_submit_def)
qed

lemma step_good:
  assumes "window_step sizes width max_bytes s t" and g: "window_good sizes width max_bytes s" and z: "sizes_ok sizes width max_bytes"
  shows "window_good sizes width max_bytes t"
proof -
  have pg: "phase_good sizes s" using g by (simp add: window_good_def)
  show ?thesis
    using assms(1)
  proof cases
    case (worker_starts i)
    then show ?thesis using good_worker [OF g, of i Running] by simp
  next
    case (worker_ends i r)
    then show ?thesis using good_worker [OF g, of i "Ended r"] by simp
  next
    case submits
    then show ?thesis using good_submit [OF g] by simp
  next
    case (submit_orphans e)
    then show ?thesis using good_orphan [OF g] by simp
  next
    case (drops_orphan e)
    then show ?thesis using good_worker [OF g, of "wn_next s" Withdrawn] by simp
  next
    case (discard_raises e i js v e')
    then obtain ds where ds: "wn_pending s = ds @ i # js" "wn_discarded s = produced s ds" using pg by (auto simp: phase_good_def)
    have "phase_good sizes t"
      using ds discard_raises pg by (auto simp: phase_good_def settled_def)
    then show ?thesis using g discard_raises by (simp add: window_good_def sets_good_def jobs_good_def)
  next
    case (accepts i js v)
    then show ?thesis using good_admit [OF g _ _ z] by simp
  next
    case (withdraws e i js)
    then show ?thesis using good_withdraw [OF g] by simp
  next
    case filled
    then show ?thesis using filled_pending [OF g _ _ z] pg by (auto intro!: good_phase [OF g] simp: phase_good_def running_def clean_def)
  next
    case (ready js)
    then show ?thesis using pg by (auto intro!: good_phase [OF g] simp: phase_good_def running_def clean_def list_all_iff)
  next
    case (aborts e)
    then show ?thesis using g by (auto simp: window_good_def phase_good_def clean_def sets_good_def jobs_good_def)
  next
    case (abort_raises e e')
    then show ?thesis using g by (auto simp: window_good_def phase_good_def clean_def sets_good_def jobs_good_def)
  next
    case (joined e)
    then show ?thesis using pg by (auto intro!: good_phase [OF g] simp: phase_good_def settled_def orphans_def list_all_iff)
  next
    case (nothing_to_discard e i js)
    then obtain ds where "wn_pending s = (ds @ [i]) @ js" "wn_discarded s = produced s (ds @ [i])" using pg by (auto simp: phase_good_def)
    then show ?thesis using nothing_to_discard pg by (auto intro!: good_phase [OF g] simp: phase_good_def settled_def)
  next
    case (discards e i js v)
    then obtain ds where ds: "wn_pending s = (ds @ [i]) @ js" "wn_discarded s @ [(i, v)] = produced s (ds @ [i])" using pg by (auto simp: phase_good_def)
    have "phase_good sizes t"
      using ds discards pg by (auto simp: phase_good_def settled_def)
    then show ?thesis using g discards by (simp add: window_good_def sets_good_def jobs_good_def)
  qed (use pg in \<open>auto intro!: good_phase [OF g] simp: phase_good_def running_def clean_def settled_def\<close>)
qed


lemma reach_good: "window_reach sizes width max_bytes s \<Longrightarrow> sizes_ok sizes width max_bytes \<Longrightarrow> window_good sizes width max_bytes s"
  by (induction rule: window_reach.induct) (simp_all add: start_good step_good)

text \<open>C21: The window keeps to its declared work and never idles. In every state that the concurrent loop can reach under any scheduling of the workers, any
  outcome of the callbacks and any cancellation, at most as many jobs as the width are pending, the bytes it counts as retained are those of the pending jobs
  and at most the declared bound, no job is submitted twice, and it waits only while some job is pending.\<close>

theorem window_bounded:
  assumes "window_reach sizes width max_bytes s" and "sizes_ok sizes width max_bytes"
  shows "length (wn_pending s) \<le> width \<and> wn_retained s = sum_list (map ((!) sizes) (wn_pending s)) \<and> wn_retained s \<le> max_bytes
     \<and> distinct (map fst (wn_accepted s) @ wn_pending s) \<and> set (map fst (wn_accepted s) @ wn_pending s) = {..<wn_next s} \<and> wn_next s \<le> length sizes
     \<and> (wn_phase s = Waiting \<longrightarrow> wn_pending s \<noteq> [])"
  using reach_good [OF assms] by (auto simp: window_good_def sets_good_def phase_good_def)

lemma produced_set: "set (produced s js) = {(i, v). i \<in> set js \<and> wn_job s i = Ended (Inr v)}"
  by (auto simp: produced_def split: job.splits sum.splits)

lemma distinct_produced: "distinct js \<Longrightarrow> distinct (map fst (produced s js))"
proof (induction js)
  case (Cons i js)
  have "i \<notin> fst ` set (produced s js)" using Cons.prems by (auto simp: produced_set)
  then show ?case using Cons produced_append [of s "[i]" js] by (auto simp: produced_def split: job.splits sum.splits)
qed simp

lemma live_split:
  assumes "sets_good sizes width max_bytes s" and "jobs_good s" and "wn_job s i \<noteq> Unsubmitted"
  shows "i \<in> set (wn_pending s @ orphans s) \<or> (\<exists>v. (i, v) \<in> set (wn_accepted s))"
proof -
  have "i < wn_next s \<or> wn_orphan s \<and> i = wn_next s" using assms(2,3) by (auto simp: jobs_good_def)
  moreover have "i \<in> set (wn_pending s) \<or> i \<in> fst ` set (wn_accepted s)" if "i < wn_next s"
    using assms(1) that unfolding sets_good_def by blast
  ultimately show ?thesis by (auto simp: orphans_def)
qed

lemma distinct_all:
  assumes "sets_good sizes width max_bytes s"
  shows "distinct (map fst (wn_accepted s @ produced s (wn_pending s @ orphans s)))"
proof -
  let ?js = "wn_pending s @ orphans s"
  have below: "set (wn_pending s) \<union> fst ` set (wn_accepted s) = {..<wn_next s}" and dis: "set (wn_pending s) \<inter> fst ` set (wn_accepted s) = {}"
    and d: "distinct (wn_pending s)" "distinct (map fst (wn_accepted s))" using assms by (auto simp: sets_good_def)
  have new: "wn_next s \<notin> set (wn_pending s)" "wn_next s \<notin> fst ` set (wn_accepted s)" using below by blast+
  have "distinct ?js" using d new by (simp add: orphans_def)
  moreover have "fst ` set (wn_accepted s) \<inter> set ?js = {}" using dis new by (auto simp: orphans_def image_iff)
  moreover have "fst ` set (produced s ?js) \<subseteq> set ?js" by (auto simp: produced_set)
  ultimately show ?thesis using d distinct_produced [of ?js s] by (simp del: produced_append set_append) blast
qed

text \<open>C12: Nothing that was prepared is lost or used twice. When the loop returns, every item has been prepared and its value accepted exactly once, and nothing was
  aborted or discarded. When it raises, it has aborted exactly once and no worker is left with a job; the values prepared are split, each exactly once, into
  those accepted, those discarded, those left by the handler, and the value of an item that \<^verbatim>\<open>submit\<close> queued although it raised. The handler leaves
  nothing unless a discard raised; then what leaves the loop is the exception of that discard, and the item of that discard is the first of the rest.\<close>

theorem window_settles:
  assumes "window_reach sizes width max_bytes s" and "sizes_ok sizes width max_bytes"
  shows "(wn_phase s = Finished \<longrightarrow> distinct (map fst (wn_accepted s)) \<and> fst ` set (wn_accepted s) = {..<length sizes} \<and> wn_retained s = 0
        \<and> wn_discarded s = [] \<and> wn_aborts s = 0 \<and> set (wn_accepted s) = {(i, v). wn_job s i = Ended (Inr v)})
     \<and> (\<forall>e left. wn_phase s = Stopped e left \<longrightarrow> wn_aborts s = 1 \<and> (\<forall>i. wn_job s i \<noteq> Queued \<and> wn_job s i \<noteq> Running)
        \<and> distinct (map fst (wn_accepted s @ wn_discarded s @ produced s left @ produced s (orphans s)))
        \<and> set (wn_accepted s @ wn_discarded s @ produced s left @ produced s (orphans s)) = {(i, v). wn_job s i = Ended (Inr v)}
        \<and> (wn_discard_error s = None \<longrightarrow> left = [])
        \<and> (left \<noteq> [] \<longrightarrow> wn_discard_error s = Some (hd left, e)))"
proof (intro conjI impI allI)
  have g: "sets_good sizes width max_bytes s" "jobs_good s" "phase_good sizes s" using reach_good [OF assms] by (simp_all add: window_good_def)
  have acc: "wn_job s i = Ended (Inr v)" if "(i, v) \<in> set (wn_accepted s)" for i v using g(2) that by (auto simp: jobs_good_def)
  have split: "i \<in> set (wn_pending s @ orphans s) \<or> (\<exists>v. (i, v) \<in> set (wn_accepted s))" if "wn_job s i \<noteq> Unsubmitted" for i
    using g(1,2) that by (rule live_split)
  have all: "set (wn_accepted s @ produced s (wn_pending s @ orphans s)) = {(i, v). wn_job s i = Ended (Inr v)}"
  proof (intro set_eqI iffI)
    fix iv assume "iv \<in> {(i, v). wn_job s i = Ended (Inr v)}"
    then obtain i v where iv: "iv = (i, v)" "wn_job s i = Ended (Inr v)" by auto
    then show "iv \<in> set (wn_accepted s @ produced s (wn_pending s @ orphans s))"
      using split [of i] acc by (auto simp: produced_set)
  qed (auto simp: produced_set acc)
  { assume f: "wn_phase s = Finished"
    then have p: "wn_pending s = []" "wn_next s = length sizes" "running s" using g(1,3) by (auto simp: phase_good_def work_left_def sets_good_def)
    then show "distinct (map fst (wn_accepted s))" "fst ` set (wn_accepted s) = {..<length sizes}" "wn_retained s = 0" "wn_discarded s = []" "wn_aborts s = 0"
      using g(1) by (simp_all add: sets_good_def running_def clean_def)
    show "set (wn_accepted s) = {(i, v). wn_job s i = Ended (Inr v)}" using all p by (simp add: running_def orphans_def) }
  fix e left assume f: "wn_phase s = Stopped e left"
  then obtain ds where ds: "wn_pending s = ds @ left" "wn_discarded s = produced s ds" and st: "settled s"
      and de: "wn_discard_error s = (case left of [] \<Rightarrow> None | i # _ \<Rightarrow> Some (i, e))" using g(3) by (auto simp: phase_good_def)
  show "wn_aborts s = 1" using st by (simp add: settled_def)
  show "wn_job s i \<noteq> Queued" "wn_job s i \<noteq> Running" for i
    using st split [of i] acc by (auto simp: settled_def orphans_def split: if_splits)
  have eq: "wn_discarded s @ produced s left @ produced s (orphans s) = produced s (wn_pending s @ orphans s)" by (simp add: ds)
  show "distinct (map fst (wn_accepted s @ wn_discarded s @ produced s left @ produced s (orphans s)))"
    unfolding eq by (rule distinct_all) (rule g(1))
  show "set (wn_accepted s @ wn_discarded s @ produced s left @ produced s (orphans s)) = {(i, v). wn_job s i = Ended (Inr v)}"
    unfolding eq by (rule all)
  show "left = []" if "wn_discard_error s = None" using that de by (cases left) simp_all
  show "wn_discard_error s = Some (hd left, e)" if "left \<noteq> []" using that de by (cases left) simp_all
qed

section \<open>Witnesses\<close>

lemma demo_sizes: "sizes_ok [100, 200] 2 (2 ^ 20)"
  by (simp add: sizes_ok_def validate_preparation_window_def raise_if_def)

definition demo_full :: "nat window" where
  "demo_full = (submit [100, 200] (submit [100, 200] (window_start\<lparr>wn_phase := Filling\<rparr>)))\<lparr>wn_phase := Waiting\<rparr>"

lemmas demo_window = window_start_def work_left_def submit_def may_submit_def admit_value_def withdraw_def

lemma demo_waiting: "window_reach [100, 200] 2 (2 ^ 20) demo_full"
proof -
  note step = window_reach.step [of "[100, 200]" 2 "2 ^ 20"]
  have a: "window_reach [100, 200] 2 (2 ^ 20) (window_start\<lparr>wn_phase := Filling\<rparr> :: nat window)"
    by (rule step [OF window_reach.start window_step.fill]) (simp_all add: demo_window)
  have b: "window_reach [100, 200] 2 (2 ^ 20) (submit [100, 200] (window_start\<lparr>wn_phase := Filling\<rparr>) :: nat window)"
    by (rule step [OF a window_step.submits]) (simp_all add: demo_window)
  have c: "window_reach [100, 200] 2 (2 ^ 20) (submit [100, 200] (submit [100, 200] (window_start\<lparr>wn_phase := Filling\<rparr>)) :: nat window)"
    by (rule step [OF b window_step.submits]) (simp_all add: demo_window)
  show ?thesis unfolding demo_full_def by (rule step [OF c window_step.filled]) (simp_all add: demo_window)
qed

lemma window_bounded_witness: "wn_retained demo_full = 300 \<and> wn_retained demo_full \<le> 2 ^ 20 \<and> wn_pending demo_full \<noteq> []"
  using window_bounded [OF demo_waiting demo_sizes] by (simp add: demo_full_def demo_window)

text \<open>A run in which the first value is accepted, the second acceptance raises, and the second value is discarded.\<close>

lemma demo_run_stops:
  obtains s :: "nat window" where "window_reach [100, 200] 2 (2 ^ 20) s" "wn_phase s = Stopped (ValueError ''refused'') []"
    "wn_accepted s = [(0, 5)]" "wn_discarded s = [(1, 6)]" "wn_next s = 2" "orphans s = []"
proof -
  note step = window_reach.step [of "[100, 200]" 2 "2 ^ 20"]
  define s1 where "s1 = demo_full\<lparr>wn_job := (wn_job demo_full)(0 := Running)\<rparr>"
  have r1: "window_reach [100, 200] 2 (2 ^ 20) s1"
    unfolding s1_def by (rule step [OF demo_waiting window_step.worker_starts]) (simp add: demo_full_def demo_window)
  define s2 where "s2 = s1\<lparr>wn_job := (wn_job s1)(0 := Ended (Inr 5))\<rparr>"
  have r2: "window_reach [100, 200] 2 (2 ^ 20) s2"
    unfolding s2_def by (rule step [OF r1 window_step.worker_ends]) (simp add: s1_def)
  define s3 where "s3 = s2\<lparr>wn_job := (wn_job s2)(1 := Running)\<rparr>"
  have r3: "window_reach [100, 200] 2 (2 ^ 20) s3"
    unfolding s3_def by (rule step [OF r2 window_step.worker_starts]) (simp add: s1_def s2_def demo_full_def demo_window)
  define s4 where "s4 = s3\<lparr>wn_job := (wn_job s3)(1 := Ended (Inr 6))\<rparr>"
  have r4: "window_reach [100, 200] 2 (2 ^ 20) s4"
    unfolding s4_def by (rule step [OF r3 window_step.worker_ends]) (simp add: s3_def)
  have v4: "s4 = \<lparr>wn_phase = Waiting, wn_pending = [0, 1], wn_job = wn_job s4, wn_next = 2, wn_retained = 300, wn_accepted = [], wn_discarded = [], wn_aborts = 0,
      wn_discard_error = None, wn_orphan = False\<rparr>"
      "wn_job s4 0 = Ended (Inr 5)" "wn_job s4 1 = Ended (Inr 6)"
    by (simp_all add: s1_def s2_def s3_def s4_def demo_full_def demo_window)
  define s where "s p ps b acc d n = \<lparr>wn_phase = p, wn_pending = ps, wn_job = wn_job s4, wn_next = 2, wn_retained = b, wn_accepted = acc, wn_discarded = d, wn_aborts = n,
      wn_discard_error = None, wn_orphan = False\<rparr>"
    for p and ps and b and acc d :: "(nat \<times> nat) list" and n
  have r5: "window_reach [100, 200] 2 (2 ^ 20) (s (Accepting [0, 1]) [0, 1] 300 [] [] 0)"
  proof -
    have r: "window_reach [100, 200] 2 (2 ^ 20) (s Waiting [0, 1] 300 [] [] 0)" using r4 by (simp only: s_def v4(1) [symmetric])
    show ?thesis using step [OF r window_step.ready [of _ "[0, 1]"]] v4(2,3) by (simp add: s_def)
  qed
  have r6: "window_reach [100, 200] 2 (2 ^ 20) (s (Accepting [1]) [1] 200 [(0, 5)] [] 0)"
    using step [OF r5 window_step.accepts [of _ 0 "[1]" 5]] v4(2,3) by (simp add: s_def admit_value_def)
  have r7: "window_reach [100, 200] 2 (2 ^ 20) (s (Cancelling (ValueError ''refused'') [1]) [1] 200 [(0, 5)] [] 0)"
    using step [OF r6 window_step.late_raises [of _ 1 "[]" 6]] v4(2,3) by (simp add: s_def)
  have r8: "window_reach [100, 200] 2 (2 ^ 20) (s (Cancelling (ValueError ''refused'') []) [1] 200 [(0, 5)] [] 0)"
    using step [OF r7 window_step.withdraws [of _ _ 1 "[]"]] v4(2,3) fun_upd_triv [of "wn_job s4" 1] by (simp add: s_def withdraw_def)
  have r9: "window_reach [100, 200] 2 (2 ^ 20) (s (Joining (ValueError ''refused'')) [1] 200 [(0, 5)] [] 1)"
    using step [OF r8 window_step.aborts] by (simp add: s_def)
  have r10: "window_reach [100, 200] 2 (2 ^ 20) (s (Discarding (ValueError ''refused'') [1]) [1] 200 [(0, 5)] [] 1)"
    using step [OF r9 window_step.joined] v4(2,3) by (simp add: s_def orphans_def)
  have r11: "window_reach [100, 200] 2 (2 ^ 20) (s (Discarding (ValueError ''refused'') []) [1] 200 [(0, 5)] [(1, 6)] 1)"
    using step [OF r10 window_step.discards [of _ _ 1 "[]" 6]] v4(2,3) by (simp add: s_def)
  have "window_reach [100, 200] 2 (2 ^ 20) (s (Stopped (ValueError ''refused'') []) [1] 200 [(0, 5)] [(1, 6)] 1)"
    using step [OF r11 window_step.raises] by (simp add: s_def)
  then show thesis by (rule that) (simp_all add: s_def orphans_def)
qed

lemma window_settles_witness:
  "\<exists>s :: nat window. wn_phase s = Stopped (ValueError ''refused'') [] \<and> wn_aborts s = 1 \<and> {(0, 5), (1, 6)} = {(i, v). wn_job s i = Ended (Inr v)}"
proof -
  obtain s :: "nat window" where s: "window_reach [100, 200] 2 (2 ^ 20) s" "wn_phase s = Stopped (ValueError ''refused'') []"
    "wn_accepted s = [(0, 5)]" "wn_discarded s = [(1, 6)]" "wn_next s = 2" "orphans s = []" by (rule demo_run_stops)
  have "wn_aborts s = 1 \<and> set (wn_accepted s @ wn_discarded s @ produced s [] @ produced s (orphans s)) = {(i, v). wn_job s i = Ended (Inr v)}"
    using window_settles [OF s(1) demo_sizes] s(2) by blast
  then have "wn_aborts s = 1" "{(0, 5), (1, 6)} = {(i, v). wn_job s i = Ended (Inr v)}"
    unfolding s(3,4,6) produced_simps by simp_all
  then show ?thesis using s(2) by blast
qed

end
