(* ===== verification/Spec2Isabelle.thy ===== *)
theory Spec2Isabelle
  imports Dealer_Correct Network_MLP Shared_Output Correlation_Ledger Prepared_Queue Scalar_Fss Authenticated_Correct Rendezvous_Correct Runtime_Protocol Masked_Correct Share_Codec
    Inflight_Service Recorded_Inventory Preparation_Window
begin

text \<open>
  A model of the core of PLLM, a Python library that runs language models so that no single party learns the prompt
  (sources under \<^verbatim>\<open>src/python/pllm/runtime/\<close>; file names below are relative to it). The library has two ways to evaluate the linear
  and non-linear parts of a model, and the theories follow them.

  \<^bold>\<open>The program.\<close>

  \<^item> \<^emph>\<open>Additive sharing between two parties.\<close> Values are arrays over the ring of 64-bit integers, split into two shares. A trusted dealer issues
    one-use material (multiplication triples, truncation masks, point function keys), every party keeps its stock in an inventory and records in a burn
    ledger what it used. Party runtimes compute locally and exchange opening frames over a connection that is bound to a session. On top
    of it are embedding lookup, the gated MLP and the selection of the next token.
  \<^item> \<^emph>\<open>Masked stages.\<close> A client masks its quantized activation with one-use randomness, an engine that holds the weights multiplies the masked matrix, and the
    client removes the transformed mask. In the prepared form, a preparation role expands both masks from a seed and pushes a correction to the
    inference role, where the rendezvous matches it with the activation of the client.

  \<^bold>\<open>Theories and what they model.\<close> A \<^verbatim>\<open>record\<close> stands for a class, one definition for one method, and a Python exception is a value of
  \<open>py_error\<close> in the result type \<open>res\<close>; methods that change state return the new state together with their result, also when they raise.

  \<^item> \<open>Prelude\<close>, \<open>Ring_Tensor\<close>: exceptions and the result monad, bytes, entropy; NumPy arrays as a shape with elements in C order.
  \<^item> \<open>Point_Fss\<close>, \<open>Scalar_Fss\<close> (\<^verbatim>\<open>shared_dpf.py\<close>, \<^verbatim>\<open>scalar_fss_reference.py\<close>): point function keys and the comparison gates built on them.
  \<^item> \<open>Burn_Ledger\<close>, \<open>Shared_Frames\<close>, \<open>Party_Runtime\<close>, \<open>Exact_Shift\<close>, \<open>Party_Correct\<close>, \<open>Party_Truncation\<close>, \<open>Party_Linear\<close>, \<open>Dealer\<close>, \<open>Dealer_Correct\<close>
    (\<^verbatim>\<open>shared_mpc.py\<close>): ledgers, wire frames, the party runtime with multiplication, truncation and linear layers, and the reference dealer with admission.
  \<^item> \<open>Inventory\<close>, \<open>Compute_Party\<close>, \<open>Lock_Step\<close>, \<open>Exact_Protocol\<close>, \<open>Compute_Correct\<close>, \<open>Network_MLP\<close> (\<^verbatim>\<open>shared_party.py\<close>): the stock of one party, and its
    interactive operations as resumptions that two parties run in lock step over their connections.
  \<^item> \<open>Shared_Session\<close>, \<open>Msgpack\<close>, \<open>Peer_Connection\<close> (\<^verbatim>\<open>shared_session.py\<close>): session state machine, commitments and frames, handshake and exchange.
  \<^item> \<open>Shared_MLP\<close>, \<open>Shared_Lookup\<close>, \<open>Shared_Output\<close>, \<open>Share_Codec\<close> (\<^verbatim>\<open>shared_mlp.py\<close>, \<^verbatim>\<open>shared_lookup.py\<close>, \<^verbatim>\<open>shared_output.py\<close>): the
    gated MLP, the embedding lookup, the choice of the token, and the wire formats of lookup keys and token shares.
  \<^item> \<open>Authenticated_MPC\<close>, \<open>Authenticated_Correct\<close>, \<open>Recorded_Inventory\<close> (\<^verbatim>\<open>authenticated_mpc.py\<close>, \<^verbatim>\<open>preprocessing_inventory.py\<close>): sharing with message
    authentication over a prime field, and its preprocessing recorded once and prepared ahead of time.
  \<^item> \<open>Correlation_Ledger\<close>, \<open>Prepared_Queue\<close>, \<open>Runtime_Protocol\<close> (\<^verbatim>\<open>correlation_ledger.py\<close>, \<^verbatim>\<open>prepared_queue.py\<close>, \<^verbatim>\<open>protocol.py\<close>): durable correlations,
    the bounded execution queue, the replay window and length-prefixed framing.
  \<^item> \<open>Preparation_Protocol\<close>, \<open>Correction_Rendezvous\<close>, \<open>Rendezvous_Correct\<close> (\<^verbatim>\<open>preparation_protocol.py\<close>, \<^verbatim>\<open>correction_rendezvous.py\<close>): requests, corrections
    and session authorizations with their validation; the rendezvous with its locked methods and the coroutine split at its await.
  \<^item> \<open>Quantized_Residues\<close>, \<open>Native_Matrix\<close>, \<open>Stage_Protocol\<close>, \<open>Masked_Engine\<close>, \<open>Stage_Arith\<close>, \<open>Stage_Execution\<close>, \<open>Masked_Correct\<close> (\<^verbatim>\<open>quantization.py\<close>, \<^verbatim>\<open>compact.py\<close>,
    \<^verbatim>\<open>native.py\<close>, \<^verbatim>\<open>stage_protocol.py\<close>, \<^verbatim>\<open>transformer_engine.py\<close>, parts of \<^verbatim>\<open>transformer_client.py\<close> and \<^verbatim>\<open>server.py\<close>): residues and codecs, matrix
    kernels, stage messages, the engine's handlers and the client's masking.
  \<^item> \<open>Inflight_Prefix\<close>, \<open>Inflight_Correct\<close>, \<open>Inflight_Service\<close> (\<^verbatim>\<open>inflight_prefix.py\<close>): the owner of pending prefills, whose requests share the computation of
    a prompt prefix. Nodes and requests are in stores and named by position; a wait is split at its condition.
  \<^item> \<open>Preparation_Window\<close> (\<^verbatim>\<open>preparation_window.py\<close>): the bounded window of offline jobs; the serial loop as a function, the concurrent one with its workers as a
    step relation.

  \<^bold>\<open>What the lemmas show.\<close>

  \<^item> \<^emph>\<open>Function.\<close> Every operation on shares is exact on the shared values: point function keys compare, the network multiplication and both truncations
    return shares of product and floor quotient, the MLP equals its reference in the clear, the token is the argmax of the logits, authenticated values open to
    the polynomial that was computed. Masked stages return the integer product of weights and activation, in the prepared and in the local form, and a batch
    answers as its requests one by one.
  \<^item> \<^emph>\<open>Single use.\<close> Burned material stays burned over restarts, the two ledgers accept the same calls, inventories keep their accounts and serve what a program would have got online, no correlation is reserved twice, and the
    rendezvous accepts and delivers one correction per attempt, over every history of calls.
  \<^item> \<^emph>\<open>Sessions and progress.\<close> Frames are numbered and paired, handshakes link, exchanges deliver, a push and an activation meet in either order, the queue is
    first-in first-out and makes progress, the issuer terminates exactly when a draw is below the ring size.
  \<^item> \<^emph>\<open>Shared prefixes.\<close> The owner of pending prefills accounts for every reserved byte, hands a request only arrays checked for a prefix of its own tokens, serves
    all waiting requests when a producer publishes, and drains. The preparation window keeps to its declared work; every prepared
    value is accepted or discarded, unless a discard raised or the executor queued a job and then failed to start its thread.
  \<^item> \<^emph>\<open>Bytes.\<close> Frames, framed streams, lookup keys, token shares and packed residues decode to what was encoded.
  \<^item> \<^emph>\<open>Limits.\<close> Some theorems state where the code falls short of what it means to do: a replay window that accepts old envelopes when full, a large modulus whose
    products overflow, an admitted session with a slot that cannot be issued, a rejected batch that spends the budget of a session.

  \<^bold>\<open>Interfaces.\<close> Three contracts are locales. \<open>burn_ledger\<close> (what a ledger promises of burning and of the budget) is interpreted by the process-local and the
  SQLite ledger; \<open>one_use_source\<close> (taking from a stock) by the four kinds of material of the inventory; \<open>local_linear\<close> (an operation that acts on each share alone)
  by the six local operations of the party runtime.

  \<^bold>\<open>Parameters.\<close> SHA-256, HMAC, SHAKE-256, MessagePack, clocks and measured times are arguments. What is needed of MessagePack is the predicate \<open>codec_ok\<close>:
  it decodes what it encodes, for documents whose keys are distinct texts or byte strings, whose integers and lengths are those of the format and whose nesting
  is at most sixteen, and nothing is assumed of other values. A reference codec satisfies it (\<open>raw_codec_ok\<close> for the raw mode, with byte strings as keys). The keyed commitment of a snapshot and the arrays it covers are parameters of the prefix owner. Random bytes come from an explicit entropy tape. Waiting and transports are explicit: incoming
  events, poll steps and histories of calls.

  \<^bold>\<open>Bounds.\<close> Ring elements are \<^typ>\<open>64 word\<close> and \<^typ>\<open>32 word\<close>, so wrap-around is the code's. Where NumPy computes in \<^verbatim>\<open>int64\<close> and could overflow, the model computes in 64-bit
  words (\<open>Native_Matrix\<close>, \<open>Authenticated_MPC\<close>) and the guards that exclude it are part of the proofs. All recursion is structural or well-founded; the one
  loop without a bound, rejection sampling in \<open>randbelow\<close>, is a partial function whose termination is characterised. No definition uses fuel.

  \<^bold>\<open>Not modelled.\<close> Floating-point code (quantization scales, attention, normalisation, sampling), HTTP servers and clients, processes and containers, loading of checkpoints
  and bundles, homomorphic encryption (libraries outside the repository), Metal and paged matrices, the Rust crates except the two masking kernels that the client
  always calls, delegated and private-boundary execution, caches on disk, configuration, search, benchmarks, evidence and documentation. These parts are
  input and output, calls of libraries, or arithmetic whose correctness is a matter of rounding errors.
\<close>

end
